(* ===== verification/Prelude.thy ===== *)
theory Prelude
  imports Complex_Main "HOL-Library.AList" "HOL-Library.Word" "HOL-Library.Multiset"
    "HOL-Library.Product_Lexorder" "HOL-Library.List_Lexorder" "HOL-Library.Char_ord"
    "HOL-Library.Monad_Syntax"
begin

text \<open>
  What the component theories share: the Python values the program moves around, its
  exceptions as values of a sum type, dictionaries as association lists in insertion order,
  and the generic lemmas on them that the component proofs use.

  A Python \<open>dict\<close> is an association list with distinct keys: reading is \<open>map_of\<close>, assignment is
  \<open>AList.update\<close> (in place when the key is there, at the end when it is new, which is Python's
  insertion order) and \<open>del\<close> or \<open>pop\<close> is \<open>AList.delete\<close>. A \<open>float\<close> is the rational number it
  denotes, with exact arithmetic: rounding is not modelled. A \<open>str\<close> is a \<open>string\<close>.
\<close>

section \<open>Values and exceptions\<close>

type_synonym time = rat
type_synonym bytes = "8 word list"
type_synonym ('k, 'v) dict = "('k \<times> 'v) list"

datatype pyval =
    PNone
  | PBool bool
  | PInt int
  | PFloat rat
  | PStr string
  | PList "pyval list"
  | PDict "(string \<times> pyval) list"

datatype pyerr =
    KeyError string
  | ValueError string
  | TypeError string
  | IndexError
  | BinasciiError
  | OverflowError
  | RuntimeError string

type_synonym 'a res = "pyerr + 'a"

text \<open>Python's truth value of a value, as \<open>if x\<close> and \<open>not x\<close> read it.\<close>

fun truthy :: "pyval \<Rightarrow> bool" where
  "truthy PNone = False"
| "truthy (PBool b) = b"
| "truthy (PInt i) = (i \<noteq> 0)"
| "truthy (PFloat r) = (r \<noteq> 0)"
| "truthy (PStr s) = (s \<noteq> [])"
| "truthy (PList xs) = (xs \<noteq> [])"
| "truthy (PDict d) = (d \<noteq> [])"

text \<open>Sequencing of computations that may raise: the first exception ends the computation.\<close>

fun res_bind :: "'e + 'a \<Rightarrow> ('a \<Rightarrow> 'e + 'b) \<Rightarrow> 'e + 'b" where
  "res_bind (Inl e) f = Inl e"
| "res_bind (Inr x) f = f x"

lemma res_bind_eq_Inr: "res_bind x f = Inr y \<longleftrightarrow> (\<exists>z. x = Inr z \<and> f z = Inr y)"
  by (cases x) simp_all

lemma res_bind_eq_Inl: "res_bind x f = Inl e \<longleftrightarrow> x = Inl e \<or> (\<exists>z. x = Inr z \<and> f z = Inl e)"
  by (cases x) simp_all

text \<open>\<open>d[k]\<close>, which raises \<open>KeyError\<close>, and \<open>d.get(k, default)\<close>.\<close>

definition dict_item :: "(string, 'v) dict \<Rightarrow> string \<Rightarrow> 'v res" where
  "dict_item d k = (case map_of d k of None \<Rightarrow> Inl (KeyError k) | Some v \<Rightarrow> Inr v)"

definition dict_get :: "('k, 'v) dict \<Rightarrow> 'k \<Rightarrow> 'v \<Rightarrow> 'v" where
  "dict_get d k v = (case map_of d k of None \<Rightarrow> v | Some w \<Rightarrow> w)"

text \<open>\<open>None\<close> or a string, as the optional string fields are stored.\<close>

fun opt_str :: "string option \<Rightarrow> pyval" where
  "opt_str None = PNone"
| "opt_str (Some s) = PStr s"

named_theorems dict_simps \<open>reading an association list after an update or a deletion\<close>

lemmas [dict_simps] = update_conv' delete_conv' dom_update

lemma dict_item_Inr [simp]: "dict_item d k = Inr v \<longleftrightarrow> map_of d k = Some v"
  by (simp add: dict_item_def split: option.splits)

section \<open>Dictionaries with distinct keys\<close>

abbreviation dict_ok :: "('k, 'v) dict \<Rightarrow> bool" where
  "dict_ok d \<equiv> distinct (map fst d)"

abbreviation dkeys :: "('k, 'v) dict \<Rightarrow> 'k set" where
  "dkeys d \<equiv> fst ` set d"

lemma dict_ok_update [intro, simp]: "dict_ok d \<Longrightarrow> dict_ok (AList.update k v d)"
  by (rule distinct_update)

lemma dict_ok_delete [intro, simp]: "dict_ok d \<Longrightarrow> dict_ok (AList.delete k d)"
  by (rule distinct_delete)

lemma dkeys_delete [simp]: "dkeys (AList.delete k d) = dkeys d - {k}"
  by (auto simp: AList.delete_eq)

lemma dkeys_update [simp]: "dkeys (AList.update k v d) = insert k (dkeys d)"
  by (simp add: dom_update)

lemma dkeys_map_of: "k \<in> dkeys d \<longleftrightarrow> map_of d k \<noteq> None"
  by (simp add: map_of_eq_None_iff)

lemma map_of_update [simp]: "map_of (AList.update k v d) = (map_of d)(k \<mapsto> v)"
  by (rule update_conv')

lemma map_of_remove [simp]: "map_of (AList.delete k d) = (map_of d)(k := None)"
  by (rule delete_conv')

lemma dict_get_update: "dict_get (AList.update k v d) n x = (if n = k then v else dict_get d n x)"
  by (simp add: dict_get_def)

lemma in_set_dict: "dict_ok d \<Longrightarrow> (k, v) \<in> set d \<longleftrightarrow> map_of d k = Some v"
  by simp

text \<open>Component proofs speak of a dictionary through its lookup, not through its list.\<close>

declare map_of_eq_Some_iff [simp del] Some_eq_map_of_iff [simp del]

lemma map_of_keysD: "map_of d k = Some v \<Longrightarrow> k \<in> dkeys d"
  by (force dest: map_of_SomeD)

section \<open>Lists\<close>

lemma takeWhile_le_sorted:
  "sorted (map f xs) \<Longrightarrow> set (takeWhile (\<lambda>x. f x \<le> t) xs) = {x \<in> set xs. f x \<le> t}"
  by (induction xs) (auto intro: order_trans)

lemma dropWhile_le_sorted:
  "sorted (map f xs) \<Longrightarrow> set (dropWhile (\<lambda>x. f x \<le> t) xs) = {x \<in> set xs. \<not> f x \<le> t}"
  by (induction xs) (auto intro: order_trans)

end
