(* ===== verification/Codec.thy ===== *)
theory Codec
  imports Prelude
begin

text \<open>
  The base64 codec of Python's standard library as the program uses it (\<open>b64encode\<close> and
  \<open>b64decode\<close> without \<open>validate\<close>): job bodies, handler results and workflow continuations
  travel in it. The decoder is CPython's state machine: characters outside the alphabet are
  skipped, the input ends at a complete padding, and an incomplete group raises.
\<close>

definition b64_alphabet :: string where
  "b64_alphabet = ''ABCDEFGHIJKLMNOPQRSTUVWXYZabcdefghijklmnopqrstuvwxyz0123456789+/''"

definition b64_char :: "nat \<Rightarrow> char" where
  "b64_char n = b64_alphabet ! n"

fun index_of :: "'a \<Rightarrow> 'a list \<Rightarrow> nat option" where
  "index_of c [] = None"
| "index_of c (x # xs) = (if c = x then Some 0 else map_option Suc (index_of c xs))"

definition b64_value :: "char \<Rightarrow> nat option" where
  "b64_value c = index_of c b64_alphabet"

fun b64encode :: "bytes \<Rightarrow> string" where
  "b64encode [] = []"
| "b64encode [a] =
     [b64_char (unat a div 4), b64_char (unat a mod 4 * 16), CHR ''='', CHR ''='']"
| "b64encode [a, b] =
     [b64_char (unat a div 4), b64_char (unat a mod 4 * 16 + unat b div 16),
      b64_char (unat b mod 16 * 4), CHR ''='']"
| "b64encode (a # b # c # bs) =
     b64_char (unat a div 4) # b64_char (unat a mod 4 * 16 + unat b div 16) #
     b64_char (unat b mod 16 * 4 + unat c div 64) # b64_char (unat c mod 64) # b64encode bs"

text \<open>
  \<open>b64_run quad pads left acc cs\<close>: \<open>quad\<close> characters of the current group were read, \<open>pads\<close>
  of them padding, \<open>left\<close> holds the bits not yet emitted and \<open>acc\<close> the bytes so far.
\<close>

fun b64_run :: "nat \<Rightarrow> nat \<Rightarrow> nat \<Rightarrow> bytes \<Rightarrow> string \<Rightarrow> bytes res" where
  "b64_run quad pads left acc [] = (if quad = 0 then Inr (rev acc) else Inl BinasciiError)"
| "b64_run quad pads left acc (c # cs) =
     (if c = CHR ''='' then
        (if 2 \<le> quad \<and> 4 \<le> quad + (pads + 1) then Inr (rev acc)
         else b64_run quad (if 2 \<le> quad then pads + 1 else pads) left acc cs)
      else case b64_value c of
        None \<Rightarrow> b64_run quad pads left acc cs
      | Some v \<Rightarrow>
          (if quad = 0 then b64_run 1 0 v acc cs
           else if quad = 1 then
             b64_run 2 0 (v mod 16) (of_nat (left * 4 + v div 16) # acc) cs
           else if quad = 2 then
             b64_run 3 0 (v mod 4) (of_nat (left * 16 + v div 4) # acc) cs
           else b64_run 0 0 0 (of_nat (left * 64 + v) # acc) cs))"

definition b64decode :: "string \<Rightarrow> bytes res" where
  "b64decode s = b64_run 0 0 0 [] s"

section \<open>Round trip\<close>

lemma length_alphabet: "length b64_alphabet = 64"
  by (simp add: b64_alphabet_def)

lemma index_of_nth: "distinct xs \<Longrightarrow> n < length xs \<Longrightarrow> index_of (xs ! n) xs = Some n"
proof (induction xs arbitrary: n)
  case (Cons x xs)
  then show ?case by (cases n) auto
qed simp

lemma distinct_alphabet: "distinct b64_alphabet"
  by (simp add: b64_alphabet_def)

lemma b64_value_char [simp]: "n < 64 \<Longrightarrow> b64_value (b64_char n) = Some n"
  by (simp add: b64_value_def b64_char_def index_of_nth distinct_alphabet length_alphabet)

lemma pad_not_in_alphabet: "CHR ''='' \<notin> set b64_alphabet"
  by (simp add: b64_alphabet_def)

lemma b64_char_not_pad [simp]: "n < 64 \<Longrightarrow> b64_char n \<noteq> CHR ''=''"
  using pad_not_in_alphabet by (metis b64_char_def length_alphabet nth_mem)

lemma unat_byte [simp]: "unat (a :: 8 word) < 256"
  using unsigned_less [of a] by simp

lemma byte_split2:
  fixes a b :: "8 word"
  shows "unat a div 4 < 64" "unat a mod 4 * 16 + unat b div 16 < 64" "unat a mod 64 < 64"
    and "unat a mod 16 * 4 + unat b div 64 < 64" "unat a mod 4 * 16 < 64" "unat a mod 16 * 4 < 64"
proof -
  have "unat a < 256" "unat b < 256" by simp_all
  then show "unat a div 4 < 64" "unat a mod 4 * 16 + unat b div 16 < 64" "unat a mod 64 < 64"
    "unat a mod 16 * 4 + unat b div 64 < 64" "unat a mod 4 * 16 < 64" "unat a mod 16 * 4 < 64"
    by linarith+
qed

lemma byte_parts [simp]:
  fixes a :: "8 word"
  shows "unat a div 16 div 16 = 0" "unat a div 16 mod 16 = unat a div 16"
    and "unat a div 64 div 4 = 0" "unat a div 64 mod 4 = unat a div 64"
proof -
  have "unat a < 256" by simp
  then have "unat a div 16 < 16" "unat a div 64 < 4" by linarith+
  then show "unat a div 16 div 16 = 0" "unat a div 16 mod 16 = unat a div 16"
    "unat a div 64 div 4 = 0" "unat a div 64 mod 4 = unat a div 64"
    by simp_all
qed

lemma b64_run_encode: "b64_run 0 0 0 acc (b64encode bs) = Inr (rev acc @ bs)"
proof (induction bs arbitrary: acc rule: b64encode.induct)
  case (2 a)
  show ?case
    by (simp add: byte_split2 del: of_nat_add of_nat_mult)
next
  case (3 a b)
  show ?case
    by (simp add: byte_split2 del: of_nat_add of_nat_mult)
next
  case (4 a b c bs)
  then show ?case
    by (simp add: byte_split2 del: of_nat_add of_nat_mult)
qed simp

lemma b64decode_encode [simp]: "b64decode (b64encode bs) = Inr bs"
  by (simp add: b64decode_def b64_run_encode)

end
