(* ===== verification/Heapq.thy ===== *)
theory Heapq
  imports Prelude
begin

text \<open>
  Python's \<open>heapq\<close> as the queue store uses it: push, read the top, pop the top. The list of a
  heap is never read but at its top, so the model keeps the entries sorted: the top is the
  first element, popping is dropping it. \<open>heap_queue\<close> states what a client may rely on (the
  multiset of entries, and that a popped entry is a least one) and is interpreted on the model's
  own operations.
\<close>

definition heappush :: "'a::linorder list \<Rightarrow> 'a \<Rightarrow> 'a list" where
  "heappush h x = insort x h"

fun heappop :: "'a list \<Rightarrow> ('a \<times> 'a list) option" where
  "heappop [] = None"
| "heappop (x # h) = Some (x, h)"

locale heap_queue =
  fixes push :: "'h \<Rightarrow> 'a::linorder \<Rightarrow> 'h"
    and pop :: "'h \<Rightarrow> ('a \<times> 'h) option"
    and bag :: "'h \<Rightarrow> 'a multiset"
    and ok :: "'h \<Rightarrow> bool"
  assumes ok_push: "ok h \<Longrightarrow> ok (push h x)"
    and bag_push: "ok h \<Longrightarrow> bag (push h x) = add_mset x (bag h)"
    and pop_None: "ok h \<Longrightarrow> pop h = None \<longleftrightarrow> bag h = {#}"
    and ok_pop: "ok h \<Longrightarrow> pop h = Some (x, h') \<Longrightarrow> ok h'"
    and bag_pop: "ok h \<Longrightarrow> pop h = Some (x, h') \<Longrightarrow> bag h = add_mset x (bag h')"
    and pop_least: "ok h \<Longrightarrow> pop h = Some (x, h') \<Longrightarrow> y \<in># bag h \<Longrightarrow> x \<le> y"
begin

lemma pop_mem: "ok h \<Longrightarrow> pop h = Some (x, h') \<Longrightarrow> x \<in># bag h"
  by (simp add: bag_pop)

lemma pop_rest: "ok h \<Longrightarrow> pop h = Some (x, h') \<Longrightarrow> y \<in># bag h \<Longrightarrow> y = x \<or> y \<in># bag h'"
  by (auto simp: bag_pop)

lemma pop_ordered:
  assumes "ok h" "pop h = Some (x, h1)" "pop h1 = Some (y, h2)"
  shows "x \<le> y"
proof -
  have "ok h1" using assms(1,2) by (rule ok_pop)
  then have "y \<in># bag h1" using assms(3) by (rule pop_mem)
  then have "y \<in># bag h" using bag_pop [OF assms(1,2)] by simp
  then show ?thesis using pop_least [OF assms(1,2)] by blast
qed

lemma pop_Some: "ok h \<Longrightarrow> x \<in># bag h \<Longrightarrow> \<exists>y h'. pop h = Some (y, h')"
  using pop_None by (cases "pop h") auto

end

interpretation hq: heap_queue heappush heappop mset sorted
  by unfold_locales
    (auto simp: heappush_def sorted_insort elim!: heappop.elims)

lemma set_heappush [simp]: "set (heappush h x) = insert x (set h)"
  by (simp add: heappush_def set_insort_key)

lemma sorted_heappush [simp]: "sorted h \<Longrightarrow> sorted (heappush h x)"
  by (rule hq.ok_push)

lemma sorted_fst: "sorted (h :: (time \<times> string) list) \<Longrightarrow> sorted (map fst h)"
  by (induction h) (auto simp: less_eq_prod_def)

end
