(* ===== verification/Ledger.thy ===== *)
theory Ledger
  imports Prelude
begin

text \<open>
  The durability ledger, \<open>consistency/storage.py\<close>: the key-value store, the event log and the
  idempotency records of \<open>InMemoryStoragePlugin\<close>. Every method holds the plugin's lock, so each
  is one atomic function of the ledger. \<open>time.monotonic()\<close> and \<open>time.time()\<close> readings are
  arguments, one per reading. The locales \<open>kv_storage\<close> and \<open>claim_ledger\<close> state what the
  clients of a storage plugin rely on.
\<close>

section \<open>State\<close>

datatype claim_state = CLAIMED | IN_FLIGHT | FINISHED

record claim =
  c_state :: claim_state
  c_result :: pyval

datatype durability = AT_MOST_ONCE | AT_LEAST_ONCE | EXACTLY_ONCE

record idemp_record =
  r_done :: bool
  r_result :: pyval
  r_lease_until :: time

record log_entry =
  l_value :: pyval
  l_timestamp :: time
  l_idempotency_key :: "string option"

record ledger =
  l_store :: "(string, pyval) dict"
  l_event_log :: "(string, log_entry list) dict"
  l_processed :: "(string, idemp_record) dict"

definition empty_ledger :: ledger where
  "empty_ledger = \<lparr>l_store = [], l_event_log = [], l_processed = []\<rparr>"

section \<open>Operations\<close>

definition DEFAULT_CLAIM_LEASE_S :: time where
  "DEFAULT_CLAIM_LEASE_S = 300"

definition put :: "string \<Rightarrow> pyval \<Rightarrow> ledger \<Rightarrow> ledger" where
  "put key value l = l\<lparr>l_store := AList.update key value (l_store l)\<rparr>"

definition get :: "string \<Rightarrow> ledger \<Rightarrow> pyval" where
  "get key l = dict_get (l_store l) key PNone"

definition delete :: "string \<Rightarrow> ledger \<Rightarrow> ledger" where
  "delete key l =
     (if map_of (l_store l) key \<noteq> None then l\<lparr>l_store := AList.delete key (l_store l)\<rparr> else l)"

definition log_event :: "time \<Rightarrow> string \<Rightarrow> pyval \<Rightarrow> string option \<Rightarrow> ledger \<Rightarrow> ledger" where
  "log_event t key value idem l =
     (let rec = (case idem of None \<Rightarrow> None
                 | Some k \<Rightarrow> if k = '''' then None else map_of (l_processed l) k)
      in if (case rec of None \<Rightarrow> False | Some r \<Rightarrow> r_done r) then l
         else l\<lparr>l_event_log := AList.update key
                  (dict_get (l_event_log l) key []
                     @ [\<lparr>l_value = value, l_timestamp = t, l_idempotency_key = idem\<rparr>])
                  (l_event_log l)\<rparr>)"

definition get_log :: "string \<Rightarrow> int \<Rightarrow> ledger \<Rightarrow> log_entry list" where
  "get_log key limit l =
     (let entries = dict_get (l_event_log l) key []
      in if limit \<le> 0 then []
         else rev (drop (length entries - nat limit) entries))"

definition claim_processed ::
  "string \<Rightarrow> time \<Rightarrow> time \<Rightarrow> time \<Rightarrow> ledger \<Rightarrow> claim \<times> ledger" where
  "claim_processed k lease_s now now' l =
     (let take = (\<lparr>c_state = CLAIMED, c_result = PNone\<rparr>,
                  l\<lparr>l_processed := AList.update k
                      \<lparr>r_done = False, r_result = PNone, r_lease_until = now' + lease_s\<rparr>
                      (l_processed l)\<rparr>)
      in case map_of (l_processed l) k of
           None \<Rightarrow> take
         | Some r \<Rightarrow>
             if r_done r then (\<lparr>c_state = FINISHED, c_result = r_result r\<rparr>, l)
             else if r_lease_until r > now then (\<lparr>c_state = IN_FLIGHT, c_result = PNone\<rparr>, l)
             else take)"

definition release_claim :: "string \<Rightarrow> ledger \<Rightarrow> ledger" where
  "release_claim k l =
     (case map_of (l_processed l) k of
        None \<Rightarrow> l
      | Some r \<Rightarrow> if r_done r then l else l\<lparr>l_processed := AList.delete k (l_processed l)\<rparr>)"

definition check_processed :: "string \<Rightarrow> ledger \<Rightarrow> pyval" where
  "check_processed k l =
     (case map_of (l_processed l) k of
        None \<Rightarrow> PNone
      | Some r \<Rightarrow> if r_done r then r_result r else PNone)"

definition mark_processed :: "string \<Rightarrow> pyval \<Rightarrow> ledger \<Rightarrow> ledger" where
  "mark_processed k result l =
     (let l' = l\<lparr>l_processed := AList.update k
                  \<lparr>r_done = True, r_result = result, r_lease_until = 0\<rparr> (l_processed l)\<rparr>
      in case map_of (l_processed l) k of
           None \<Rightarrow> l'
         | Some r \<Rightarrow> if r_done r then l else l')"

section \<open>The interfaces\<close>

text \<open>What a client of the key-value part relies on: \<open>get\<close> after \<open>put\<close> and after \<open>delete\<close>.\<close>

locale kv_storage =
  fixes kput :: "string \<Rightarrow> pyval \<Rightarrow> 's \<Rightarrow> 's"
    and kget :: "string \<Rightarrow> 's \<Rightarrow> pyval"
    and kdelete :: "string \<Rightarrow> 's \<Rightarrow> 's"
  assumes get_put: "kget k (kput k' v s) = (if k = k' then v else kget k s)"
    and get_delete: "kget k (kdelete k' s) = (if k = k' then PNone else kget k s)"
begin

lemma get_put_same [simp]: "kget k (kput k v s) = v"
  by (simp add: get_put)

lemma get_put_other [simp]: "k \<noteq> k' \<Longrightarrow> kget k (kput k' v s) = kget k s"
  by (simp add: get_put)

lemma put_put: "kget k (kput j v (kput j w s)) = kget k (kput j v s)"
  by (simp add: get_put)

end

interpretation kv: kv_storage put get delete
  by unfold_locales (auto simp: put_def get_def delete_def dict_get_def split: option.splits)

text \<open>
  What a client of the idempotency part relies on. \<open>view\<close> reads one key's slot; a pending slot
  blocks other claims until its lease ends; a finished slot is terminal.
\<close>

datatype slot = Vacant | Pending time | Finished pyval

locale claim_ledger =
  fixes claim_op :: "string \<Rightarrow> time \<Rightarrow> time \<Rightarrow> time \<Rightarrow> 's \<Rightarrow> claim \<times> 's"
    and mark_op :: "string \<Rightarrow> pyval \<Rightarrow> 's \<Rightarrow> 's"
    and release_op :: "string \<Rightarrow> 's \<Rightarrow> 's"
    and view :: "'s \<Rightarrow> string \<Rightarrow> slot"
    and ends :: "time \<Rightarrow> time \<Rightarrow> time \<Rightarrow> time"
  assumes claim_finished:
      "view s k = Finished v \<Longrightarrow>
       claim_op k d t t' s = (\<lparr>c_state = FINISHED, c_result = v\<rparr>, s)"
    and claim_pending:
      "view s k = Pending u \<Longrightarrow> u > t \<Longrightarrow>
       claim_op k d t t' s = (\<lparr>c_state = IN_FLIGHT, c_result = PNone\<rparr>, s)"
    and claim_free:
      "view s k = Vacant \<or> (\<exists>u. view s k = Pending u \<and> u \<le> t) \<Longrightarrow>
       fst (claim_op k d t t' s) = \<lparr>c_state = CLAIMED, c_result = PNone\<rparr>"
    and claim_takes:
      "view s k = Vacant \<or> (\<exists>u. view s k = Pending u \<and> u \<le> t) \<Longrightarrow>
       view (snd (claim_op k d t t' s)) = (view s)(k := Pending (ends d t t'))"
    and mark_view:
      "view (mark_op k v s) =
       (view s)(k := (case view s k of Finished w \<Rightarrow> Finished w | _ \<Rightarrow> Finished v))"
    and release_view:
      "view (release_op k s) =
       (view s)(k := (case view s k of Finished w \<Rightarrow> Finished w | _ \<Rightarrow> Vacant))"
begin

lemma claimed_was_free:
  assumes "claim_op k d t t' s = (c, s')" "c_state c = CLAIMED"
  shows "view s k = Vacant \<or> (\<exists>u. view s k = Pending u \<and> u \<le> t)"
proof (rule ccontr)
  assume *: "\<not> ?thesis"
  then have "(\<exists>v. view s k = Finished v) \<or> (\<exists>u. view s k = Pending u \<and> u > t)"
    by (cases "view s k") auto
  then show False
    using claim_finished [of s k _ d t t'] claim_pending [of s k _ t d t'] assms by auto
qed

lemma claimed_view:
  "claim_op k d t t' s = (c, s') \<Longrightarrow> c_state c = CLAIMED \<Longrightarrow>
   view s' = (view s)(k := Pending (ends d t t'))"
  using claim_takes [OF claimed_was_free] by (metis snd_conv)

lemma not_claimed_same:
  assumes "claim_op k d t t' s = (c, s')" "c_state c \<noteq> CLAIMED"
  shows "s' = s"
proof -
  have "\<not> (view s k = Vacant \<or> (\<exists>u. view s k = Pending u \<and> u \<le> t))"
    using claim_free [of s k t d t'] assms by auto
  then have "(\<exists>v. view s k = Finished v) \<or> (\<exists>u. view s k = Pending u \<and> u > t)"
    by (cases "view s k") auto
  then show ?thesis
    using claim_finished [of s k _ d t t'] claim_pending [of s k _ t d t'] assms by auto
qed

lemma finished_claim:
  assumes "view s k = Finished v"
  shows "view (snd (claim_op k' d t t' s)) k = Finished v"
proof -
  obtain c s' where c: "claim_op k' d t t' s = (c, s')" by fastforce
  show ?thesis
  proof (cases "c_state c = CLAIMED")
    case True
    then have "k \<noteq> k'" using claimed_was_free [OF c True] assms by auto
    then show ?thesis using claimed_view [OF c True] c assms by simp
  next
    case False
    then show ?thesis using not_claimed_same [OF c] c assms by simp
  qed
qed

lemma finished_mark: "view s k = Finished v \<Longrightarrow> view (mark_op k' w s) k = Finished v"
  by (auto simp: mark_view)

lemma finished_release: "view s k = Finished v \<Longrightarrow> view (release_op k' s) k = Finished v"
  by (auto simp: release_view)

lemmas finished_stable = finished_claim finished_mark finished_release

lemma no_second_claim:
  assumes "claim_op k d t t' s = (c, s')" "c_state c = CLAIMED" "u < ends d t t'"
  shows "c_state (fst (claim_op k d' u u' s')) = IN_FLIGHT"
  using claimed_view [OF assms(1,2)] claim_pending [of s' k "ends d t t'" u d' u'] assms(3)
  by simp

end

definition ledger_view :: "ledger \<Rightarrow> string \<Rightarrow> slot" where
  "ledger_view l k =
     (case map_of (l_processed l) k of
        None \<Rightarrow> Vacant
      | Some r \<Rightarrow> if r_done r then Finished (r_result r) else Pending (r_lease_until r))"

lemma ledger_view_set [simp]:
  "ledger_view (l\<lparr>l_processed := AList.update k r (l_processed l)\<rparr>) =
   (ledger_view l)(k := if r_done r then Finished (r_result r) else Pending (r_lease_until r))"
  by (simp add: ledger_view_def fun_eq_iff)

lemma ledger_view_del [simp]:
  "ledger_view (l\<lparr>l_processed := AList.delete k (l_processed l)\<rparr>) = (ledger_view l)(k := Vacant)"
  by (simp add: ledger_view_def fun_eq_iff)

lemma ledger_view_cases:
  "ledger_view l k = Vacant \<longleftrightarrow> map_of (l_processed l) k = None"
  "ledger_view l k = Pending u \<longleftrightarrow>
     (\<exists>r. map_of (l_processed l) k = Some r \<and> \<not> r_done r \<and> r_lease_until r = u)"
  "ledger_view l k = Finished v \<longleftrightarrow>
     (\<exists>r. map_of (l_processed l) k = Some r \<and> r_done r \<and> r_result r = v)"
  by (auto simp: ledger_view_def split: option.splits)

interpretation mem: claim_ledger claim_processed mark_processed release_claim ledger_view
    "\<lambda>d t t'. t' + d"
proof (unfold_locales, goal_cases)
  case (5 k v l)
  show ?case
    by (cases "map_of (l_processed l) k")
      (auto simp: mark_processed_def ledger_view_cases fun_eq_iff split: slot.splits)
next
  case (6 k l)
  show ?case
    by (cases "map_of (l_processed l) k")
      (auto simp: release_claim_def ledger_view_cases fun_eq_iff split: slot.splits)
qed (auto simp: claim_processed_def ledger_view_cases)

end
