(* ===== verification/QueueStore.thy ===== *)
theory QueueStore
  imports Codec Heapq Ledger
begin

text \<open>
  The work-queue state of \<open>queue/store.py\<close>: the job record with its dictionary form, the
  heap-backed store written through to a storage plugin, and every operation on it. Each
  operation holds the store's lock from its first read to its last write, so it is one function
  of the store. Readings of \<open>time.time()\<close>, the fresh \<open>uuid4\<close> of a job and \<open>json.loads\<close> are
  arguments.
\<close>

section \<open>Job records\<close>

datatype job_state = READY | LEASED | DEAD | DONE

fun state_value :: "job_state \<Rightarrow> string" where
  "state_value READY = ''ready''"
| "state_value LEASED = ''leased''"
| "state_value DEAD = ''dead''"
| "state_value DONE = ''done''"

definition parse_state :: "string \<Rightarrow> job_state res" where
  "parse_state v =
     (if v = ''ready'' then Inr READY else if v = ''leased'' then Inr LEASED
      else if v = ''dead'' then Inr DEAD else if v = ''done'' then Inr DONE
      else Inl (ValueError v))"

record job =
  j_id :: string
  j_data :: bytes
  j_state :: job_state
  attempts :: int
  max_attempts :: int
  enqueued_at :: time
  lease_until :: time
  not_before :: time
  priority :: int
  j_seq :: int
  last_error :: "string option"
  j_result :: "string option"
  completed_at :: time
  j_wf :: "string option"
  correlation_id :: pyval
  traceparent :: pyval

definition to_dict :: "job \<Rightarrow> pyval" where
  "to_dict r = PDict
     [(''id'', PStr (j_id r)),
      (''data'', PStr (b64encode (j_data r))),
      (''state'', PStr (state_value (j_state r))),
      (''attempts'', PInt (attempts r)),
      (''max_attempts'', PInt (max_attempts r)),
      (''enqueued_at'', PFloat (enqueued_at r)),
      (''lease_until'', PFloat (lease_until r)),
      (''not_before'', PFloat (not_before r)),
      (''priority'', PInt (priority r)),
      (''seq'', PInt (j_seq r)),
      (''last_error'', opt_str (last_error r)),
      (''result'', opt_str (j_result r)),
      (''completed_at'', PFloat (completed_at r)),
      (''wf'', opt_str (j_wf r)),
      (''correlation_id'', correlation_id r),
      (''traceparent'', traceparent r)]"

text \<open>
  Reading a field. Python's dataclass does not check types; a value of another type, which
  \<open>to_dict\<close> never writes, is a \<open>TypeError\<close> of the model. The correlation id and the trace parent
  come from a peer's attachment and are kept as they are.
\<close>

fun as_str :: "pyval \<Rightarrow> string res" where
  "as_str (PStr s) = Inr s"
| "as_str _ = Inl (TypeError ''str'')"

fun as_int :: "pyval \<Rightarrow> int res" where
  "as_int (PInt i) = Inr i"
| "as_int _ = Inl (TypeError ''int'')"

fun as_float :: "pyval \<Rightarrow> rat res" where
  "as_float (PFloat r) = Inr r"
| "as_float (PInt i) = Inr (of_int i)"
| "as_float _ = Inl (TypeError ''float'')"

fun as_opt_str :: "pyval \<Rightarrow> string option res" where
  "as_opt_str PNone = Inr None"
| "as_opt_str (PStr s) = Inr (Some s)"
| "as_opt_str _ = Inl (TypeError ''str'')"

definition from_dict :: "pyval \<Rightarrow> job res" where
  "from_dict v = (case v of
     PDict d \<Rightarrow>
       res_bind (res_bind (dict_item d ''id'') as_str) (\<lambda>i.
       res_bind (res_bind (res_bind (dict_item d ''data'') as_str) b64decode) (\<lambda>dat.
       res_bind (res_bind (res_bind (dict_item d ''state'') as_str) parse_state) (\<lambda>st.
       res_bind (res_bind (dict_item d ''attempts'') as_int) (\<lambda>a.
       res_bind (res_bind (dict_item d ''max_attempts'') as_int) (\<lambda>m.
       res_bind (res_bind (dict_item d ''enqueued_at'') as_float) (\<lambda>e.
       res_bind (res_bind (dict_item d ''lease_until'') as_float) (\<lambda>l.
       res_bind (as_float (dict_get d ''not_before'' (PFloat 0))) (\<lambda>nb.
       res_bind (as_int (dict_get d ''priority'' (PInt 0))) (\<lambda>p.
       res_bind (as_int (dict_get d ''seq'' (PInt 0))) (\<lambda>sq.
       res_bind (as_opt_str (dict_get d ''last_error'' PNone)) (\<lambda>le.
       res_bind (as_opt_str (dict_get d ''result'' PNone)) (\<lambda>rs.
       res_bind (as_float (dict_get d ''completed_at'' (PFloat 0))) (\<lambda>c.
       res_bind (as_opt_str (dict_get d ''wf'' PNone)) (\<lambda>w.
       Inr \<lparr>j_id = i, j_data = dat, j_state = st, attempts = a, max_attempts = m,
            enqueued_at = e, lease_until = l, not_before = nb, priority = p, j_seq = sq,
            last_error = le, j_result = rs, completed_at = c, j_wf = w,
            correlation_id = dict_get d ''correlation_id'' PNone,
            traceparent = dict_get d ''traceparent'' PNone\<rparr>))))))))))))))
   | _ \<Rightarrow> Inl (TypeError ''dict''))"

text \<open>What a worker that asks for its delivery context is handed.\<close>

record job_context =
  jc_job_id :: string
  jc_queue :: string
  jc_attempt :: int
  jc_max_attempts :: int
  jc_last_error :: "string option"
  jc_correlation_id :: pyval
  jc_traceparent :: pyval

definition is_retry :: "job_context \<Rightarrow> bool" where
  "is_retry c \<longleftrightarrow> jc_attempt c > 1"

definition is_last_attempt :: "job_context \<Rightarrow> bool" where
  "is_last_attempt c \<longleftrightarrow> jc_attempt c \<ge> jc_max_attempts c"

section \<open>The store\<close>

type_synonym ready_entry = "int \<times> int \<times> string"
type_synonym timed_entry = "time \<times> string"

text \<open>
  A storage plugin as the store sees it: its key-value part, and whether its calls currently
  raise. The store logs and swallows what they raise.
\<close>

record backend =
  plugin :: ledger
  reachable :: bool
  in_memory :: bool

record chord =
  ch_size :: int
  ch_results :: "string option list"
  ch_reported :: "int set"
  ch_fired :: bool
  ch_created_at :: time

record store =
  q_name :: string
  q_storage :: "backend option"
  keep_results :: bool
  result_ttl_s :: time
  dead_letter_ttl_s :: "time option"
  chord_ttl_s :: "time option"
  jobs :: "(string, job) dict"
  ids :: "string list"
  ready :: "ready_entry list"
  delayed :: "timed_entry list"
  leases :: "timed_entry list"
  done_heap :: "timed_entry list"
  chords :: "(string, chord) dict"
  seq :: int

definition new_store ::
  "string \<Rightarrow> backend option \<Rightarrow> bool \<Rightarrow> time \<Rightarrow> time option \<Rightarrow> time option \<Rightarrow> store" where
  "new_store name storage keep rttl dttl cttl =
     \<lparr>q_name = name, q_storage = storage, keep_results = keep, result_ttl_s = rttl,
      dead_letter_ttl_s = dttl, chord_ttl_s = cttl, jobs = [], ids = [], ready = [],
      delayed = [], leases = [], done_heap = [], chords = [], seq = 0\<rparr>"

definition is_shared :: "store \<Rightarrow> bool" where
  "is_shared s = (case q_storage s of None \<Rightarrow> False | Some b \<Rightarrow> \<not> in_memory b)"

section \<open>Heap bookkeeping\<close>

definition entry :: "job \<Rightarrow> ready_entry" where
  "entry r = (- priority r, j_seq r, j_id r)"

definition offer_ready :: "time \<Rightarrow> job \<Rightarrow> store \<Rightarrow> store" where
  "offer_ready t r s =
     (if not_before r > t then s\<lparr>delayed := heappush (delayed s) (not_before r, j_id r)\<rparr>
      else s\<lparr>ready := heappush (ready s) (entry r)\<rparr>)"

fun mature_loop ::
  "time \<Rightarrow> (string, job) dict \<Rightarrow> timed_entry list \<Rightarrow> ready_entry list
   \<Rightarrow> timed_entry list \<times> ready_entry list" where
  "mature_loop now js [] rdy = ([], rdy)"
| "mature_loop now js ((t, i) # h) rdy =
     (if t \<le> now then
        mature_loop now js h
          (case map_of js i of
             None \<Rightarrow> rdy
           | Some r \<Rightarrow> if j_state r = READY \<and> not_before r \<le> now
                       then heappush rdy (entry r) else rdy)
      else ((t, i) # h, rdy))"

definition mature_delayed :: "time \<Rightarrow> store \<Rightarrow> store" where
  "mature_delayed now s =
     (let (d, rdy) = mature_loop now (jobs s) (delayed s) (ready s)
      in s\<lparr>delayed := d, ready := rdy\<rparr>)"

definition reclaimed :: "time \<Rightarrow> job \<Rightarrow> job" where
  "reclaimed now r =
     (if attempts r \<ge> max_attempts r
      then r\<lparr>j_state := DEAD, completed_at := now,
             last_error := (case last_error r of
                              Some e \<Rightarrow> if e = '''' then Some ''lease expired'' else Some e
                            | None \<Rightarrow> Some ''lease expired'')\<rparr>
      else r\<lparr>j_state := READY, lease_until := 0, not_before := 0\<rparr>)"

fun reclaim_loop ::
  "time \<Rightarrow> timed_entry list \<Rightarrow> (string, job) dict \<Rightarrow> ready_entry list
   \<Rightarrow> timed_entry list \<times> (string, job) dict \<times> ready_entry list \<times> job list" where
  "reclaim_loop now [] js rdy = ([], js, rdy, [])"
| "reclaim_loop now ((t, i) # h) js rdy =
     (if t \<le> now then
        (case map_of js i of
           None \<Rightarrow> reclaim_loop now h js rdy
         | Some r \<Rightarrow>
             if j_state r \<noteq> LEASED \<or> lease_until r > now then reclaim_loop now h js rdy
             else
               (let r' = reclaimed now r;
                    (h', js', rdy', ch) =
                      reclaim_loop now h (AList.update i r' js)
                        (if j_state r' = READY then heappush rdy (entry r') else rdy)
                in (h', js', rdy', r' # ch)))
      else ((t, i) # h, js, rdy, []))"

definition reclaim_leases :: "time \<Rightarrow> store \<Rightarrow> job list \<times> store" where
  "reclaim_leases now s =
     (let (h, js, rdy, ch) = reclaim_loop now (leases s) (jobs s) (ready s)
      in (ch, s\<lparr>leases := h, jobs := js, ready := rdy\<rparr>))"

section \<open>Persistence\<close>

definition index_key :: "store \<Rightarrow> string" where
  "index_key s = ''queue:'' @ q_name s @ '':index''"

definition job_key :: "store \<Rightarrow> string \<Rightarrow> string" where
  "job_key s i = ''queue:'' @ q_name s @ '':job:'' @ i"

definition storage_put :: "string \<Rightarrow> pyval \<Rightarrow> store \<Rightarrow> store" where
  "storage_put k v s =
     (case q_storage s of
        None \<Rightarrow> s
      | Some b \<Rightarrow> if reachable b then s\<lparr>q_storage := Some (b\<lparr>plugin := put k v (plugin b)\<rparr>)\<rparr>
                  else s)"

definition storage_delete :: "string \<Rightarrow> store \<Rightarrow> store" where
  "storage_delete k s =
     (case q_storage s of
        None \<Rightarrow> s
      | Some b \<Rightarrow> if reachable b then s\<lparr>q_storage := Some (b\<lparr>plugin := delete k (plugin b)\<rparr>)\<rparr>
                  else s)"

definition write_job :: "job \<Rightarrow> store \<Rightarrow> store" where
  "write_job r s = storage_put (job_key s (j_id r)) (to_dict r) s"

definition write_index :: "store \<Rightarrow> store" where
  "write_index s = storage_put (index_key s) (PList (map PStr (ids s))) s"

definition set_add :: "'a \<Rightarrow> 'a list \<Rightarrow> 'a list" where
  "set_add x xs = (if x \<in> set xs then xs else xs @ [x])"

definition forget :: "string \<Rightarrow> store \<Rightarrow> store" where
  "forget i s =
     (let s1 = s\<lparr>jobs := AList.delete i (jobs s), ids := removeAll i (ids s)\<rparr>;
          s2 = storage_delete (job_key s1 i) s1
      in write_index s2)"

definition load_job :: "time \<Rightarrow> job \<Rightarrow> store \<Rightarrow> store" where
  "load_job t r s =
     (let s1 = s\<lparr>jobs := AList.update (j_id r) r (jobs s), ids := set_add (j_id r) (ids s),
                 seq := max (seq s) (j_seq r)\<rparr>
      in case j_state r of
           READY \<Rightarrow> offer_ready t r s1
         | LEASED \<Rightarrow> s1\<lparr>leases := heappush (leases s1) (lease_until r, j_id r)\<rparr>
         | DONE \<Rightarrow> s1\<lparr>done_heap := heappush (done_heap s1) (completed_at r + result_ttl_s s1, j_id r)\<rparr>
         | DEAD \<Rightarrow> s1)"

text \<open>
  \<open>load\<close> stops at the first exception, keeping what was recovered until then. \<open>clk i\<close> is the
  clock reading when the job \<open>i\<close> is offered; \<open>loads\<close> is \<open>json.loads\<close>, used when a plugin hands
  back text. An index entry that is not a string, which the store never writes, is an error.
\<close>

fun iterated :: "pyval \<Rightarrow> pyval list res" where
  "iterated (PList vs) = Inr vs"
| "iterated (PStr cs) = Inr (map (\<lambda>c. PStr [c]) cs)"
| "iterated (PDict d) = Inr (map (PStr \<circ> fst) d)"
| "iterated _ = Inl (TypeError ''not iterable'')"

fun load_loop ::
  "(pyval \<Rightarrow> pyval res) \<Rightarrow> (string \<Rightarrow> time) \<Rightarrow> ledger \<Rightarrow> pyval list \<Rightarrow> store \<Rightarrow> store" where
  "load_loop loads clk l [] s = s"
| "load_loop loads clk l (v # vs) s =
     (case as_str v of
        Inl _ \<Rightarrow> s
      | Inr i \<Rightarrow>
          (case get (job_key s i) l of
             PNone \<Rightarrow> load_loop loads clk l vs s
           | raw \<Rightarrow>
               (case res_bind (case raw of PDict d \<Rightarrow> Inr raw | _ \<Rightarrow> loads raw) from_dict of
                  Inl _ \<Rightarrow> s
                | Inr r \<Rightarrow> load_loop loads clk l vs (load_job (clk (j_id r)) r s))))"

definition load :: "(pyval \<Rightarrow> pyval res) \<Rightarrow> (string \<Rightarrow> time) \<Rightarrow> store \<Rightarrow> store" where
  "load loads clk s =
     (case q_storage s of
        None \<Rightarrow> s
      | Some b \<Rightarrow>
          if \<not> reachable b then s
          else
            (let index = get (index_key s) (plugin b)
             in case iterated (if truthy index then index else PList []) of
                  Inl _ \<Rightarrow> s
                | Inr vs \<Rightarrow> load_loop loads clk (plugin b) vs s))"

section \<open>Operations\<close>

text \<open>The clock is read when \<open>not_before\<close>, then \<open>enqueued_at\<close>, is computed and when the job is offered.\<close>

definition add ::
  "string \<Rightarrow> time \<Rightarrow> time \<Rightarrow> time \<Rightarrow> bytes \<Rightarrow> int \<Rightarrow> int \<Rightarrow> time \<Rightarrow> string option
   \<Rightarrow> pyval \<Rightarrow> pyval \<Rightarrow> store \<Rightarrow> string \<times> store" where
  "add uuid t1 t2 t3 dat maxa prio delay_s w cid tp s =
     (let s1 = s\<lparr>seq := seq s + 1\<rparr>;
          r = \<lparr>j_id = uuid, j_data = dat, j_state = READY, attempts = 0, max_attempts = maxa,
               enqueued_at = t2, lease_until = 0,
               not_before = (if delay_s > 0 then t1 + delay_s else 0),
               priority = prio, j_seq = seq s1, last_error = None, j_result = None,
               completed_at = 0, j_wf = w, correlation_id = cid, traceparent = tp\<rparr>;
          s2 = s1\<lparr>jobs := AList.update uuid r (jobs s1), ids := set_add uuid (ids s1)\<rparr>
      in (uuid, write_index (write_job r (offer_ready t3 r s2))))"

fun claim_loop ::
  "time \<Rightarrow> (string, job) dict \<Rightarrow> ready_entry list
   \<Rightarrow> (string \<times> job) option \<times> ready_entry list" where
  "claim_loop now js [] = (None, [])"
| "claim_loop now js ((p, n, i) # h) =
     (case map_of js i of
        None \<Rightarrow> claim_loop now js h
      | Some r \<Rightarrow> if j_state r \<noteq> READY \<or> not_before r > now then claim_loop now js h
                  else (Some (i, r), h))"

definition claim :: "time \<Rightarrow> time \<Rightarrow> store \<Rightarrow> job option res \<times> store" where
  "claim lease_s now s =
     (let (ch, s1) = reclaim_leases now (mature_delayed now s);
          s2 = fold write_job ch s1;
          (found, h) = claim_loop now (jobs s2) (ready s2);
          s3 = s2\<lparr>ready := h\<rparr>
      in case found of
           None \<Rightarrow> (Inr None, s3)
         | Some (i, r) \<Rightarrow>
             (let r' = r\<lparr>j_state := LEASED, attempts := attempts r + 1,
                         lease_until := now + lease_s\<rparr>;
                  s4 = s3\<lparr>jobs := AList.update i r' (jobs s3),
                          leases := heappush (leases s3) (lease_until r', j_id r')\<rparr>;
                  s5 = write_job r' s4
              in (map_sum id Some (from_dict (to_dict r')), s5)))"

definition holds_lease :: "job \<Rightarrow> int option \<Rightarrow> bool" where
  "holds_lease r attempt =
     (if j_state r \<noteq> LEASED then False
      else case attempt of None \<Rightarrow> True | Some a \<Rightarrow> attempts r = a)"

definition ack ::
  "time \<Rightarrow> string \<Rightarrow> bytes option \<Rightarrow> int option \<Rightarrow> store \<Rightarrow> bool \<times> store" where
  "ack t i res attempt s =
     (case map_of (jobs s) i of
        None \<Rightarrow> (False, s)
      | Some r \<Rightarrow>
          if \<not> holds_lease r attempt then (False, s)
          else if keep_results s then
            (let r' = r\<lparr>j_state := DONE, j_result := map_option b64encode res,
                        completed_at := t, lease_until := 0\<rparr>;
                 s1 = s\<lparr>jobs := AList.update i r' (jobs s),
                        done_heap := heappush (done_heap s) (completed_at r' + result_ttl_s s, j_id r')\<rparr>
             in (True, write_job r' s1))
          else (True, forget i s))"

datatype disposition = Requeued | Dead_lettered

definition nack ::
  "time \<Rightarrow> time \<Rightarrow> string \<Rightarrow> string option \<Rightarrow> time \<Rightarrow> int option \<Rightarrow> store
   \<Rightarrow> disposition option \<times> store" where
  "nack t t' i err retry_delay_s attempt s =
     (case map_of (jobs s) i of
        None \<Rightarrow> (None, s)
      | Some r \<Rightarrow>
          if \<not> holds_lease r attempt then (None, s)
          else if attempts r \<ge> max_attempts r then
            (let r' = r\<lparr>last_error := err, j_state := DEAD, completed_at := t\<rparr>
             in (Some Dead_lettered, write_job r' (s\<lparr>jobs := AList.update i r' (jobs s)\<rparr>)))
          else
            (let r' = r\<lparr>last_error := err, j_state := READY, lease_until := 0,
                        not_before := (if retry_delay_s > 0 then t + retry_delay_s else 0)\<rparr>
             in (Some Requeued,
                 write_job r' (offer_ready t' r' (s\<lparr>jobs := AList.update i r' (jobs s)\<rparr>)))))"

fun purge_done :: "time \<Rightarrow> timed_entry list \<Rightarrow> store \<Rightarrow> store" where
  "purge_done now [] s = s\<lparr>done_heap := []\<rparr>"
| "purge_done now ((t, i) # h) s =
     (if t \<le> now then
        purge_done now h
          (case map_of (jobs s) i of
             None \<Rightarrow> s
           | Some r \<Rightarrow> if j_state r = DONE \<and> completed_at r + result_ttl_s s \<le> now
                       then forget i s else s)
      else s\<lparr>done_heap := (t, i) # h\<rparr>)"

definition expired_dead :: "time \<Rightarrow> time \<Rightarrow> (string, job) dict \<Rightarrow> string list" where
  "expired_dead now ttl js =
     map fst (filter (\<lambda>(i, r). j_state r = DEAD \<and> completed_at r \<noteq> 0
                               \<and> completed_at r + ttl \<le> now) js)"

definition drop_chords :: "time \<Rightarrow> time \<Rightarrow> (string, chord) dict \<Rightarrow> (string, chord) dict" where
  "drop_chords now ttl cs = filter (\<lambda>(c, b). \<not> (ch_created_at b + ttl \<le> now)) cs"

definition sweep :: "time \<Rightarrow> store \<Rightarrow> nat \<times> store" where
  "sweep now s =
     (let (ch, s1) = reclaim_leases now s;
          s2 = fold write_job ch s1;
          s3 = purge_done now (done_heap s2) s2;
          s4 = (case dead_letter_ttl_s s3 of
                  None \<Rightarrow> s3
                | Some ttl \<Rightarrow> fold forget (expired_dead now ttl (jobs s3)) s3);
          s5 = (case chord_ttl_s s4 of
                  None \<Rightarrow> s4
                | Some ttl \<Rightarrow> s4\<lparr>chords := drop_chords now ttl (chords s4)\<rparr>)
      in (length ch, s5))"

definition result :: "string \<Rightarrow> store \<Rightarrow> (string \<times> bytes option) res" where
  "result i s =
     (case map_of (jobs s) i of
        None \<Rightarrow> Inr (''unknown'', None)
      | Some r \<Rightarrow>
          (case j_result r of
             None \<Rightarrow> Inr (state_value (j_state r), None)
           | Some b \<Rightarrow> map_sum id (\<lambda>d. (state_value (j_state r), Some d)) (b64decode b)))"

definition dead_letters :: "store \<Rightarrow> job res list" where
  "dead_letters s =
     map (\<lambda>r. from_dict (to_dict r)) (filter (\<lambda>r. j_state r = DEAD) (map snd (jobs s)))"

definition stats :: "store \<Rightarrow> (string, nat) dict" where
  "stats s =
     map (\<lambda>st. (state_value st, length (filter (\<lambda>r. j_state r = st) (map snd (jobs s)))))
       [READY, LEASED, DEAD, DONE]"

section \<open>Chord barriers\<close>

definition chord_report ::
  "time \<Rightarrow> string \<Rightarrow> int \<Rightarrow> int \<Rightarrow> string option \<Rightarrow> store
   \<Rightarrow> string option list option res \<times> store" where
  "chord_report t cid index sz res s =
     (if sz \<le> 0 \<or> index < 0 \<or> index \<ge> sz then (Inl (ValueError ''chord report index''), s)
      else
        (let fresh = \<lparr>ch_size = sz, ch_results = replicate (nat sz) None, ch_reported = {},
                      ch_fired = False, ch_created_at = t\<rparr>;
             existing = map_of (chords s) cid;
             c = (case existing of None \<Rightarrow> fresh | Some c \<Rightarrow> c);
             s1 = (case existing of
                     None \<Rightarrow> s\<lparr>chords := AList.update cid fresh (chords s)\<rparr>
                   | Some _ \<Rightarrow> s)
         in if existing \<noteq> None \<and> index \<ge> ch_size c
            then (Inl (ValueError ''chord report index''), s1)
            else if ch_fired c \<or> index \<in> ch_reported c then (Inr None, s1)
            else
              (let c' = c\<lparr>ch_reported := insert index (ch_reported c),
                          ch_results := (ch_results c)[nat index := res]\<rparr>
               in if int (card (ch_reported c')) \<ge> ch_size c'
                  then (Inr (Some (ch_results c')), s1\<lparr>chords := AList.delete cid (chords s1)\<rparr>)
                  else (Inr None, s1\<lparr>chords := AList.update cid c' (chords s1)\<rparr>))))"

end
