(* ===== verification/QueueInv.thy ===== *)
theory QueueInv
  imports QueueStore
begin

text \<open>
  The invariant of the queue store and the specifications of its loops. \<open>store_inv T s\<close> says
  that every job the store holds is tracked by the heap its state needs (so a ready job can be
  claimed, a leased one reclaimed, a finished one purged), that no job has been delivered more
  often than its budget allows and that the sequence numbers are unique. \<open>T\<close> is the latest clock
  reading so far.
\<close>

section \<open>The invariant\<close>

definition tracked :: "time \<Rightarrow> store \<Rightarrow> job \<Rightarrow> bool" where
  "tracked T s r =
     (case j_state r of
        READY \<Rightarrow> (not_before r \<le> T \<and> entry r \<in> set (ready s))
                 \<or> (not_before r, j_id r) \<in> set (delayed s)
      | LEASED \<Rightarrow> (lease_until r, j_id r) \<in> set (leases s)
      | DONE \<Rightarrow> (completed_at r + result_ttl_s s, j_id r) \<in> set (done_heap s)
      | DEAD \<Rightarrow> True)"

definition budget :: "job \<Rightarrow> bool" where
  "budget r =
     (if j_state r = READY then attempts r = 0 \<or> (0 < attempts r \<and> attempts r < max_attempts r)
      else attempts r = 1 \<or> (1 < attempts r \<and> attempts r \<le> max_attempts r))"

definition heaps_sorted :: "store \<Rightarrow> bool" where
  "heaps_sorted s \<longleftrightarrow>
     sorted (ready s) \<and> sorted (delayed s) \<and> sorted (leases s) \<and> sorted (done_heap s)"

definition seq_inj :: "store \<Rightarrow> bool" where
  "seq_inj s \<longleftrightarrow>
     (\<forall>k k' r r'. map_of (jobs s) k = Some r \<longrightarrow> map_of (jobs s) k' = Some r' \<longrightarrow>
        j_seq r = j_seq r' \<longrightarrow> k = k')"

definition job_inv :: "time \<Rightarrow> store \<Rightarrow> string \<Rightarrow> job \<Rightarrow> bool" where
  "job_inv T s k r \<longleftrightarrow> j_id r = k \<and> tracked T s r \<and> budget r \<and> j_seq r \<le> seq s"

definition store_inv :: "time \<Rightarrow> store \<Rightarrow> bool" where
  "store_inv T s \<longleftrightarrow>
     0 \<le> T \<and> dict_ok (jobs s) \<and> heaps_sorted s \<and> seq_inj s
     \<and> set (ids s) = dkeys (jobs s) \<and> distinct (ids s)
     \<and> (\<forall>k r. map_of (jobs s) k = Some r \<longrightarrow> job_inv T s k r)"

lemma store_invD:
  assumes "store_inv T s"
  shows "0 \<le> T" "dict_ok (jobs s)" "heaps_sorted s" "seq_inj s" "set (ids s) = dkeys (jobs s)"
    "distinct (ids s)" "\<And>k r. map_of (jobs s) k = Some r \<Longrightarrow> job_inv T s k r"
  using assms by (auto simp: store_inv_def)

lemma job_invD:
  assumes "job_inv T s k r"
  shows "j_id r = k" "tracked T s r" "budget r" "j_seq r \<le> seq s"
  using assms by (auto simp: job_inv_def)

section \<open>What the persistence helpers leave alone\<close>

lemma storage_put_frame [simp]:
  "q_name (storage_put k v s) = q_name s" "keep_results (storage_put k v s) = keep_results s"
  "result_ttl_s (storage_put k v s) = result_ttl_s s"
  "dead_letter_ttl_s (storage_put k v s) = dead_letter_ttl_s s"
  "chord_ttl_s (storage_put k v s) = chord_ttl_s s" "jobs (storage_put k v s) = jobs s"
  "ids (storage_put k v s) = ids s" "ready (storage_put k v s) = ready s"
  "delayed (storage_put k v s) = delayed s" "leases (storage_put k v s) = leases s"
  "done_heap (storage_put k v s) = done_heap s" "chords (storage_put k v s) = chords s"
  "seq (storage_put k v s) = seq s"
  by (simp_all add: storage_put_def split: option.splits)

lemma storage_delete_frame [simp]:
  "q_name (storage_delete k s) = q_name s" "keep_results (storage_delete k s) = keep_results s"
  "result_ttl_s (storage_delete k s) = result_ttl_s s"
  "dead_letter_ttl_s (storage_delete k s) = dead_letter_ttl_s s"
  "chord_ttl_s (storage_delete k s) = chord_ttl_s s" "jobs (storage_delete k s) = jobs s"
  "ids (storage_delete k s) = ids s" "ready (storage_delete k s) = ready s"
  "delayed (storage_delete k s) = delayed s" "leases (storage_delete k s) = leases s"
  "done_heap (storage_delete k s) = done_heap s" "chords (storage_delete k s) = chords s"
  "seq (storage_delete k s) = seq s"
  by (simp_all add: storage_delete_def split: option.splits)

lemma write_job_frame [simp]:
  "q_name (write_job r s) = q_name s" "keep_results (write_job r s) = keep_results s"
  "result_ttl_s (write_job r s) = result_ttl_s s"
  "dead_letter_ttl_s (write_job r s) = dead_letter_ttl_s s"
  "chord_ttl_s (write_job r s) = chord_ttl_s s" "jobs (write_job r s) = jobs s"
  "ids (write_job r s) = ids s" "ready (write_job r s) = ready s"
  "delayed (write_job r s) = delayed s" "leases (write_job r s) = leases s"
  "done_heap (write_job r s) = done_heap s" "chords (write_job r s) = chords s"
  "seq (write_job r s) = seq s"
  by (simp_all add: write_job_def)

lemma write_index_frame [simp]:
  "q_name (write_index s) = q_name s" "keep_results (write_index s) = keep_results s"
  "result_ttl_s (write_index s) = result_ttl_s s"
  "dead_letter_ttl_s (write_index s) = dead_letter_ttl_s s"
  "chord_ttl_s (write_index s) = chord_ttl_s s" "jobs (write_index s) = jobs s"
  "ids (write_index s) = ids s" "ready (write_index s) = ready s"
  "delayed (write_index s) = delayed s" "leases (write_index s) = leases s"
  "done_heap (write_index s) = done_heap s" "chords (write_index s) = chords s"
  "seq (write_index s) = seq s"
  by (simp_all add: write_index_def)

lemma write_jobs_frame [simp]:
  "q_name (fold write_job ch s) = q_name s" "keep_results (fold write_job ch s) = keep_results s"
  "result_ttl_s (fold write_job ch s) = result_ttl_s s"
  "dead_letter_ttl_s (fold write_job ch s) = dead_letter_ttl_s s"
  "chord_ttl_s (fold write_job ch s) = chord_ttl_s s" "jobs (fold write_job ch s) = jobs s"
  "ids (fold write_job ch s) = ids s" "ready (fold write_job ch s) = ready s"
  "delayed (fold write_job ch s) = delayed s" "leases (fold write_job ch s) = leases s"
  "done_heap (fold write_job ch s) = done_heap s" "chords (fold write_job ch s) = chords s"
  "seq (fold write_job ch s) = seq s"
  by (induction ch arbitrary: s) simp_all

lemma forget_frame [simp]:
  "q_name (forget i s) = q_name s" "keep_results (forget i s) = keep_results s"
  "result_ttl_s (forget i s) = result_ttl_s s"
  "dead_letter_ttl_s (forget i s) = dead_letter_ttl_s s"
  "chord_ttl_s (forget i s) = chord_ttl_s s" "jobs (forget i s) = AList.delete i (jobs s)"
  "ids (forget i s) = removeAll i (ids s)" "ready (forget i s) = ready s"
  "delayed (forget i s) = delayed s" "leases (forget i s) = leases s"
  "done_heap (forget i s) = done_heap s" "chords (forget i s) = chords s"
  "seq (forget i s) = seq s"
  by (simp_all add: forget_def Let_def)

text \<open>The invariant reads only the memory part, so persisting never affects it.\<close>

lemma store_inv_cong:
  assumes "jobs s' = jobs s" "ids s' = ids s" "ready s' = ready s" "delayed s' = delayed s"
    and "leases s' = leases s" "done_heap s' = done_heap s" "seq s' = seq s"
    and "result_ttl_s s' = result_ttl_s s"
  shows "store_inv T s' = store_inv T s"
  using assms
  by (simp add: store_inv_def heaps_sorted_def seq_inj_def job_inv_def tracked_def
        cong: job_state.case_cong)

lemma store_inv_write [simp]:
  "store_inv T (write_job r s) = store_inv T s" "store_inv T (write_index s) = store_inv T s"
  "store_inv T (fold write_job ch s) = store_inv T s"
  "store_inv T (s\<lparr>q_storage := b\<rparr>) = store_inv T s"
  "store_inv T (s\<lparr>chords := cs\<rparr>) = store_inv T s"
  by (rule store_inv_cong; simp)+

lemma tracked_later: "tracked T s r \<Longrightarrow> T \<le> T' \<Longrightarrow> tracked T' s r"
  by (auto simp: tracked_def split: job_state.splits)

lemma store_inv_later:
  assumes "store_inv T s" "T \<le> T'" shows "store_inv T' s"
  using assms tracked_later [OF _ assms(2)] by (auto simp: store_inv_def job_inv_def)

section \<open>The loops\<close>

definition due_ready :: "time \<Rightarrow> job \<Rightarrow> bool" where
  "due_ready now r \<longleftrightarrow> j_state r = READY \<and> not_before r \<le> now"

lemma sorted_due:
  "sorted ((t, i) # h) \<Longrightarrow> \<not> t \<le> now \<Longrightarrow> (u, k) \<in> set ((t, i) # h) \<Longrightarrow> \<not> u \<le> (now :: time)"
  by (auto simp: less_eq_prod_def)

lemma mature_loop_delayed:
  "sorted del \<Longrightarrow>
   sorted (fst (mature_loop now js del rdy))
   \<and> set (fst (mature_loop now js del rdy)) = {e \<in> set del. \<not> fst e \<le> now}"
proof (induction now js del rdy rule: mature_loop.induct)
  case (2 now js t i h rdy)
  show ?case
  proof (cases "t \<le> now")
    case True
    then show ?thesis using 2 by auto
  next
    case False
    then show ?thesis using 2(2) sorted_due [OF 2(2) False] by auto
  qed
qed simp

lemma mature_loop_ready:
  "sorted del \<Longrightarrow> sorted rdy \<Longrightarrow>
   sorted (snd (mature_loop now js del rdy))
   \<and> set (snd (mature_loop now js del rdy)) = set rdy \<union>
       {entry r | r t i. (t, i) \<in> set del \<and> t \<le> now \<and> map_of js i = Some r \<and> due_ready now r}"
proof (induction now js del rdy rule: mature_loop.induct)
  case (2 now js t i h rdy)
  show ?case
  proof (cases "t \<le> now")
    case True
    let ?rdy = "case map_of js i of None \<Rightarrow> rdy
      | Some r \<Rightarrow> if j_state r = READY \<and> not_before r \<le> now then heappush rdy (entry r) else rdy"
    have "sorted ?rdy" using 2(3) by (simp split: option.split)
    moreover have "set ?rdy = set rdy \<union> {entry r | r. map_of js i = Some r \<and> due_ready now r}"
      by (auto simp: due_ready_def split: option.split)
    ultimately show ?thesis
      using 2(1)[OF True] 2(2) True by (auto simp del: option.case_distrib)
  next
    case False
    then show ?thesis using 2(3) sorted_due [OF 2(2) False] by auto
  qed
qed simp

definition lapsed :: "time \<Rightarrow> job \<Rightarrow> bool" where
  "lapsed now r \<longleftrightarrow> j_state r = LEASED \<and> lease_until r \<le> now"

lemma reclaimed_not_leased [simp]: "j_state (reclaimed now r) \<noteq> LEASED"
  by (simp add: reclaimed_def)

lemma reclaimed_not_lapsed [simp]: "\<not> lapsed now (reclaimed now' r)"
  by (simp add: lapsed_def)

lemma reclaimed_id [simp]: "j_id (reclaimed now r) = j_id r" "j_seq (reclaimed now r) = j_seq r"
  "priority (reclaimed now r) = priority r" "attempts (reclaimed now r) = attempts r"
  "max_attempts (reclaimed now r) = max_attempts r" "j_data (reclaimed now r) = j_data r"
  by (simp_all add: reclaimed_def)

text \<open>The job table after a reclaim: exactly the lapsed leases with a due entry are changed.\<close>

definition reclaim_map ::
  "time \<Rightarrow> timed_entry list \<Rightarrow> (string \<rightharpoonup> job) \<Rightarrow> (string \<rightharpoonup> job)" where
  "reclaim_map now h m k =
     map_option (\<lambda>r. if lapsed now r \<and> (\<exists>t \<le> now. (t, k) \<in> set h) then reclaimed now r else r)
       (m k)"

lemma reclaim_loop_Cons:
  "reclaim_loop now ((t, i) # h) js rdy =
     (if t \<le> now then
        (case map_of js i of
           None \<Rightarrow> reclaim_loop now h js rdy
         | Some r \<Rightarrow>
             if lapsed now r then
               (case reclaim_loop now h (AList.update i (reclaimed now r) js)
                        (if j_state (reclaimed now r) = READY
                         then heappush rdy (entry (reclaimed now r)) else rdy) of
                  (h', js', rdy', ch) \<Rightarrow> (h', js', rdy', reclaimed now r # ch))
             else reclaim_loop now h js rdy)
      else ((t, i) # h, js, rdy, []))"
  by (auto simp: lapsed_def Let_def split: option.split)

declare reclaim_loop.simps(2) [simp del]
declare reclaim_loop_Cons [simp]

lemma reclaim_loop_leases:
  "reclaim_loop now h js rdy = (h', js', rdy', ch) \<Longrightarrow> sorted h \<Longrightarrow>
   sorted h' \<and> set h' = {e \<in> set h. \<not> fst e \<le> now}"
proof (induction h arbitrary: js rdy h' js' rdy' ch)
  case (Cons e h)
  obtain t i where e: "e = (t, i)" by fastforce
  show ?case
  proof (cases "t \<le> now")
    case True
    then show ?thesis using Cons.IH Cons.prems e
      by (auto split: option.splits if_splits prod.splits)
  next
    case False
    then show ?thesis using Cons.prems e sorted_due [of t i h now] by auto
  qed
qed simp

lemma reclaim_loop_keys:
  "reclaim_loop now h js rdy = (h', js', rdy', ch) \<Longrightarrow> map fst js' = map fst js"
proof (induction h arbitrary: js rdy h' js' rdy' ch)
  case (Cons e h)
  then show ?case
    by (cases e) (force split: option.splits if_splits prod.splits
        simp: update_keys dest: map_of_keysD)
qed simp

lemma reclaim_map_none: "\<forall>(t, k) \<in> set h. \<not> t \<le> now \<Longrightarrow> reclaim_map now h m = m"
  by (rule ext, rename_tac k, case_tac "m k") (auto simp: reclaim_map_def)

lemma reclaim_map_skip:
  "(\<And>r. m i = Some r \<Longrightarrow> \<not> lapsed now r) \<Longrightarrow> reclaim_map now ((t, i) # h) m = reclaim_map now h m"
  by (auto simp: reclaim_map_def fun_eq_iff intro!: map_option_cong)

lemma reclaim_map_take:
  "m i = Some r \<Longrightarrow> lapsed now r \<Longrightarrow> t \<le> now \<Longrightarrow>
   reclaim_map now ((t, i) # h) m = reclaim_map now h (m(i \<mapsto> reclaimed now r))"
  by (auto simp: reclaim_map_def fun_eq_iff intro!: map_option_cong)

lemma reclaim_loop_jobs:
  "reclaim_loop now h js rdy = (h', js', rdy', ch) \<Longrightarrow> sorted h \<Longrightarrow>
   map_of js' = reclaim_map now h (map_of js)"
proof (induction h arbitrary: js rdy h' js' rdy' ch)
  case Nil
  then show ?case by (auto simp: reclaim_map_none)
next
  case (Cons e h)
  obtain t i where e: "e = (t, i)" by fastforce
  show ?case
  proof (cases "t \<le> now")
    case False
    then have "\<forall>(t, k) \<in> set (e # h). \<not> t \<le> now"
      using Cons.prems(2) sorted_due [of t i h now] by (auto simp: e)
    then show ?thesis using Cons.prems(1) False
      by (simp add: e reclaim_map_none del: set_simps)
  next
    case True
    show ?thesis
    proof (cases "\<exists>r. map_of js i = Some r \<and> lapsed now r")
      case True
      then show ?thesis using Cons \<open>t \<le> now\<close>
        by (auto simp: e reclaim_map_take split: prod.splits)
    next
      case False
      then show ?thesis using Cons \<open>t \<le> now\<close>
        by (auto simp: e reclaim_map_skip split: option.splits)
    qed
  qed
qed

lemma reclaim_loop_ready:
  "reclaim_loop now h js rdy = (h', js', rdy', ch) \<Longrightarrow> sorted rdy \<Longrightarrow>
   sorted rdy' \<and> set rdy' = set rdy \<union> {entry r' | r'. r' \<in> set ch \<and> j_state r' = READY}"
proof (induction h arbitrary: js rdy h' js' rdy' ch)
  case (Cons e h)
  obtain t i where e: "e = (t, i)" by fastforce
  show ?case
  proof (cases "t \<le> now \<and> (\<exists>r. map_of js i = Some r \<and> lapsed now r)")
    case False
    then show ?thesis using Cons by (auto simp: e split: if_splits option.splits)
  next
    case True
    then obtain r where r: "map_of js i = Some r" "lapsed now r" "t \<le> now" by blast
    let ?rdy = "if j_state (reclaimed now r) = READY then heappush rdy (entry (reclaimed now r)) else rdy"
    obtain ch' where rec:
      "reclaim_loop now h (AList.update i (reclaimed now r) js) ?rdy = (h', js', rdy', ch')"
      and ch: "ch = reclaimed now r # ch'"
      using Cons.prems(1) r by (auto simp: e split: prod.splits)
    have "sorted ?rdy" using Cons.prems(2) by simp
    from Cons.IH [OF rec this] show ?thesis by (auto simp: ch)
  qed
qed simp

lemma reclaim_loop_changed:
  "reclaim_loop now h js rdy = (h', js', rdy', ch) \<Longrightarrow> sorted h \<Longrightarrow>
   r' \<in> set ch \<longleftrightarrow> (\<exists>k r t. map_of js k = Some r \<and> lapsed now r \<and> t \<le> now \<and> (t, k) \<in> set h
                             \<and> r' = reclaimed now r)"
proof (induction h arbitrary: js rdy h' js' rdy' ch)
  case (Cons e h)
  obtain t i where e: "e = (t, i)" by fastforce
  have h: "sorted h" using Cons.prems(2) by (simp add: e)
  consider (late) "\<not> t \<le> now" | (skip) "t \<le> now" "\<And>r. map_of js i = Some r \<Longrightarrow> \<not> lapsed now r"
    | (take) r where "t \<le> now" "map_of js i = Some r" "lapsed now r" by blast
  then show ?case
  proof cases
    case late
    then show ?thesis using Cons.prems sorted_due [of t i h now] by (auto simp: e)
  next
    case skip
    then have "reclaim_loop now h js rdy = (h', js', rdy', ch)"
      using Cons.prems(1) by (auto simp: e split: option.splits)
    from Cons.IH [OF this h] show ?thesis using skip by (auto simp: e)
  next
    case take
    obtain ch' rdy0 where rec:
      "reclaim_loop now h (AList.update i (reclaimed now r) js) rdy0 = (h', js', rdy', ch')"
      and ch: "ch = reclaimed now r # ch'"
      using Cons.prems(1) take by (auto simp: e split: prod.splits)
    from Cons.IH [OF rec h] have "r' \<in> set ch' \<longleftrightarrow> (\<exists>k r t. k \<noteq> i \<and> map_of js k = Some r
        \<and> lapsed now r \<and> t \<le> now \<and> (t, k) \<in> set h \<and> r' = reclaimed now r)"
      by (auto split: if_splits)
    then show ?thesis using take by (simp add: ch e) (metis option.inject)
  qed
qed simp

definition claimable :: "time \<Rightarrow> (string, job) dict \<Rightarrow> ready_entry \<Rightarrow> bool" where
  "claimable now js e \<longleftrightarrow> (\<exists>r. map_of js (snd (snd e)) = Some r \<and> due_ready now r)"

lemma claim_loop_Cons:
  "claim_loop now js (e # h) =
     (if claimable now js e then (Some (snd (snd e), the (map_of js (snd (snd e)))), h)
      else claim_loop now js h)"
  by (cases e) (auto simp: claimable_def due_ready_def split: option.split)

declare claim_loop.simps(2) [simp del]
declare claim_loop_Cons [simp]

lemma claim_loop_find: "claim_loop now js rdy =
   (case dropWhile (\<lambda>e. \<not> claimable now js e) rdy of
      [] \<Rightarrow> (None, [])
    | e # h \<Rightarrow> (Some (snd (snd e), the (map_of js (snd (snd e)))), h))"
  by (induction rdy) simp_all

lemma claim_loop_Some:
  assumes "claim_loop now js rdy = (Some (i, r), h)" "sorted rdy"
  shows "\<exists>e. e \<in> set rdy \<and> snd (snd e) = i \<and> map_of js i = Some r \<and> due_ready now r
     \<and> set h \<subseteq> set rdy \<and> sorted h
     \<and> (\<forall>e' \<in> set rdy. claimable now js e' \<longrightarrow> e \<le> e' \<and> (e' = e \<or> e' \<in> set h))"
proof -
  obtain e where d: "dropWhile (\<lambda>e. \<not> claimable now js e) rdy = e # h"
    and e: "i = snd (snd e)" "r = the (map_of js i)"
    using assms(1) by (auto simp: claim_loop_find split: list.splits)
  have c: "claimable now js e" using hd_dropWhile [of "\<lambda>e. \<not> claimable now js e" rdy] d by auto
  have rdy: "rdy = takeWhile (\<lambda>e. \<not> claimable now js e) rdy @ e # h"
    using takeWhile_dropWhile_id [of "\<lambda>e. \<not> claimable now js e" rdy] d by simp
  have "sorted (e # h)" using assms(2) rdy by (metis sorted_append)
  moreover have "\<forall>e' \<in> set rdy. claimable now js e' \<longrightarrow> e' = e \<or> e' \<in> set h"
    by (subst rdy) (auto dest: set_takeWhileD)
  moreover have "e \<in> set rdy" "set h \<subseteq> set rdy" by (subst rdy, auto)+
  ultimately show ?thesis using c e by (intro exI [of _ e]) (auto simp: claimable_def)
qed

lemma claim_loop_None:
  "claim_loop now js rdy = (None, h) \<Longrightarrow> h = [] \<and> (\<forall>e \<in> set rdy. \<not> claimable now js e)"
  by (induction rdy) (auto split: if_splits)

section \<open>Preservation\<close>

lemma reclaim_leases_loop:
  "reclaim_leases now s = (ch, s') \<Longrightarrow>
   \<exists>h js rdy. reclaim_loop now (leases s) (jobs s) (ready s) = (h, js, rdy, ch)
     \<and> s' = s\<lparr>leases := h, jobs := js, ready := rdy\<rparr>"
  by (auto simp: reclaim_leases_def split: prod.splits)

text \<open>Under the invariant, reclaiming changes exactly the jobs whose lease has lapsed.\<close>

lemma reclaim_leases_jobs:
  assumes inv: "store_inv T s" and rec: "reclaim_leases now s = (ch, s')"
  shows "map_of (jobs s') k =
    map_option (\<lambda>r. if lapsed now r then reclaimed now r else r) (map_of (jobs s) k)"
proof -
  obtain h js rdy where loop: "reclaim_loop now (leases s) (jobs s) (ready s) = (h, js, rdy, ch)"
    and s': "s' = s\<lparr>leases := h, jobs := js, ready := rdy\<rparr>"
    using reclaim_leases_loop [OF rec] by blast
  have "sorted (leases s)" using inv by (simp add: store_inv_def heaps_sorted_def)
  then have "map_of js = reclaim_map now (leases s) (map_of (jobs s))"
    using loop reclaim_loop_jobs by blast
  moreover have "\<exists>t \<le> now. (t, k) \<in> set (leases s)" if "map_of (jobs s) k = Some r" "lapsed now r" for r
    using store_invD(7) [OF inv that(1)] that(2)
    by (auto simp: job_inv_def tracked_def lapsed_def)
  ultimately show ?thesis
    by (auto simp: s' reclaim_map_def intro!: map_option_cong)
qed

lemma reclaim_leases_changed:
  assumes inv: "store_inv T s" and rec: "reclaim_leases now s = (ch, s')"
  shows "r' \<in> set ch \<longleftrightarrow> (\<exists>k r. map_of (jobs s) k = Some r \<and> lapsed now r \<and> r' = reclaimed now r)"
proof -
  obtain h js rdy where loop: "reclaim_loop now (leases s) (jobs s) (ready s) = (h, js, rdy, ch)"
    using reclaim_leases_loop [OF rec] by blast
  have "sorted (leases s)" using inv by (simp add: store_inv_def heaps_sorted_def)
  note reclaim_loop_changed [OF loop this, of r']
  moreover have "\<exists>t \<le> now. (t, k) \<in> set (leases s)" if "map_of (jobs s) k = Some r" "lapsed now r" for k r
    using store_invD(7) [OF inv that(1)] that(2)
    by (auto simp: job_inv_def tracked_def lapsed_def)
  ultimately show ?thesis by blast
qed

lemma reclaim_leases_frame:
  assumes "reclaim_leases now s = (ch, s')"
  shows "q_name s' = q_name s" "keep_results s' = keep_results s" "result_ttl_s s' = result_ttl_s s"
    "dead_letter_ttl_s s' = dead_letter_ttl_s s" "chord_ttl_s s' = chord_ttl_s s" "ids s' = ids s"
    "delayed s' = delayed s" "done_heap s' = done_heap s" "chords s' = chords s" "seq s' = seq s"
    "q_storage s' = q_storage s" "map fst (jobs s') = map fst (jobs s)"
  using reclaim_leases_loop [OF assms] reclaim_loop_keys by auto

lemma entry_reclaimed: "entry (reclaimed now r) = entry r"
  by (simp add: entry_def)

lemma budget_reclaimed: "budget r \<Longrightarrow> lapsed now r \<Longrightarrow> budget (reclaimed now r)"
  by (auto simp: budget_def reclaimed_def lapsed_def)

lemma not_before_reclaimed:
  "j_state (reclaimed now r) = READY \<Longrightarrow> not_before (reclaimed now r) = 0"
  by (auto simp: reclaimed_def split: if_splits)

lemma reclaim_leases_inv:
  assumes inv: "store_inv T s" and rec: "reclaim_leases now s = (ch, s')" and "T \<le> now"
  shows "store_inv now s'"
proof -
  obtain h js rdy where loop: "reclaim_loop now (leases s) (jobs s) (ready s) = (h, js, rdy, ch)"
    and s': "s' = s\<lparr>leases := h, jobs := js, ready := rdy\<rparr>"
    using reclaim_leases_loop [OF rec] by blast
  note D = store_invD [OF inv]
  have srt: "sorted (leases s)" "sorted (ready s)" using D(3) by (simp_all add: heaps_sorted_def)
  note les = reclaim_loop_leases [OF loop srt(1)]
  note rdy = reclaim_loop_ready [OF loop srt(2)]
  note keys = reclaim_leases_frame(12) [OF rec]
  have job: "job_inv now s' k r'" if k: "map_of (jobs s') k = Some r'" for k r'
  proof -
    obtain r where r: "map_of (jobs s) k = Some r"
      and r': "r' = (if lapsed now r then reclaimed now r else r)"
      using k reclaim_leases_jobs [OF inv rec, of k] by (cases "map_of (jobs s) k") auto
    note J = job_invD [OF D(7) [OF r]]
    show ?thesis
    proof (cases "lapsed now r")
      case True
      then have "reclaimed now r \<in> set ch"
        using reclaim_leases_changed [OF inv rec] r by blast
      then have "tracked now s' (reclaimed now r)"
        using rdy D(1) \<open>T \<le> now\<close> by (auto simp: s' tracked_def not_before_reclaimed reclaimed_def
            split: job_state.split if_splits)
      then show ?thesis using True J r' budget_reclaimed by (simp add: job_inv_def s')
    next
      case False
      have "tracked now s' r" using J(2) False les rdy \<open>T \<le> now\<close>
        by (auto simp: s' tracked_def lapsed_def split: job_state.splits)
      then show ?thesis using False J r' by (simp add: job_inv_def s')
    qed
  qed
  have "seq_inj s'"
    unfolding seq_inj_def
  proof (intro allI impI)
    fix k k' r r'
    assume "map_of (jobs s') k = Some r" "map_of (jobs s') k' = Some r'" "j_seq r = j_seq r'"
    then obtain q q' where "map_of (jobs s) k = Some q" "map_of (jobs s) k' = Some q'"
      and "j_seq q = j_seq q'"
      using reclaim_leases_jobs [OF inv rec] by (auto split: if_splits)
    then show "k = k'" using D(4) by (auto simp: seq_inj_def)
  qed
  moreover have "dkeys (jobs s') = dkeys (jobs s)" "dict_ok (jobs s')"
    using keys D(2) by (metis list.set_map, metis)
  moreover have "heaps_sorted s'" using D(3) les rdy by (simp add: heaps_sorted_def s')
  ultimately show ?thesis using job D \<open>T \<le> now\<close> by (auto simp: store_inv_def s')
qed

lemma mature_delayed_frame:
  "q_name (mature_delayed now s) = q_name s" "keep_results (mature_delayed now s) = keep_results s"
  "result_ttl_s (mature_delayed now s) = result_ttl_s s"
  "dead_letter_ttl_s (mature_delayed now s) = dead_letter_ttl_s s"
  "chord_ttl_s (mature_delayed now s) = chord_ttl_s s" "jobs (mature_delayed now s) = jobs s"
  "ids (mature_delayed now s) = ids s" "leases (mature_delayed now s) = leases s"
  "done_heap (mature_delayed now s) = done_heap s" "chords (mature_delayed now s) = chords s"
  "seq (mature_delayed now s) = seq s" "q_storage (mature_delayed now s) = q_storage s"
  by (simp_all add: mature_delayed_def split: prod.splits)

lemma mature_delayed_heaps:
  "delayed (mature_delayed now s) = fst (mature_loop now (jobs s) (delayed s) (ready s))"
  "ready (mature_delayed now s) = snd (mature_loop now (jobs s) (delayed s) (ready s))"
  by (simp_all add: mature_delayed_def split: prod.splits)

text \<open>After maturing, every ready job that is due sits in the ready heap.\<close>

lemma mature_delayed_due:
  assumes inv: "store_inv T s" and "T \<le> now" "map_of (jobs s) k = Some r" "due_ready now r"
  shows "entry r \<in> set (ready (mature_delayed now s))"
proof -
  have srt: "sorted (delayed s)" "sorted (ready s)"
    using inv by (simp_all add: store_inv_def heaps_sorted_def)
  have "entry r \<in> set (ready s) \<or> (not_before r, k) \<in> set (delayed s)"
    using store_invD(7) [OF inv assms(3)] assms(4)
    by (auto simp: job_inv_def tracked_def due_ready_def)
  then show ?thesis
    using mature_loop_ready [OF srt, of now "jobs s"] assms(3,4)
    by (auto simp: mature_delayed_heaps due_ready_def)
qed

lemma mature_delayed_inv:
  assumes inv: "store_inv T s" and "T \<le> now"
  shows "store_inv now (mature_delayed now s)"
proof -
  note D = store_invD [OF inv]
  let ?s = "mature_delayed now s"
  have srt: "sorted (delayed s)" "sorted (ready s)" using D(3) by (simp_all add: heaps_sorted_def)
  note del = mature_loop_delayed [OF srt(1), of now "jobs s" "ready s"]
  note rdy = mature_loop_ready [OF srt, of now "jobs s"]
  have "tracked now ?s r" if r: "map_of (jobs s) k = Some r" for k r
  proof (cases "due_ready now r")
    case True
    then show ?thesis using mature_delayed_due [OF inv \<open>T \<le> now\<close> r True]
      by (simp add: tracked_def due_ready_def)
  next
    case False
    then show ?thesis using job_invD(2) [OF D(7) [OF r]] del \<open>T \<le> now\<close>
      by (auto simp: tracked_def due_ready_def mature_delayed_frame mature_delayed_heaps
          split: job_state.splits)
  qed
  then show ?thesis using D del rdy \<open>T \<le> now\<close>
    by (auto simp: store_inv_def job_inv_def heaps_sorted_def seq_inj_def
        mature_delayed_frame mature_delayed_heaps)
qed

text \<open>Storing one job: what must hold of it, and that the other jobs stay tracked.\<close>

lemma store_inv_updateI:
  assumes inv: "store_inv T s" and "0 \<le> T'" "jobs s' = AList.update k r' (jobs s)"
    and "set (ids s') = insert k (set (ids s))" "distinct (ids s')" "heaps_sorted s'"
    and "seq s \<le> seq s'" "job_inv T' s' k r'"
    and others: "\<And>k' r. k' \<noteq> k \<Longrightarrow> map_of (jobs s) k' = Some r \<Longrightarrow>
      tracked T' s' r \<and> j_seq r \<noteq> j_seq r'"
  shows "store_inv T' s'"
proof -
  note D = store_invD [OF inv]
  have "job_inv T' s' k' r" if "map_of (jobs s') k' = Some r" for k' r
  proof (cases "k' = k")
    case True
    then show ?thesis using that assms(3,8) by simp
  next
    case False
    then have "map_of (jobs s) k' = Some r" using that assms(3) by simp
    then show ?thesis using others [OF False] job_invD [OF D(7)] assms(7)
      by (fastforce simp: job_inv_def)
  qed
  moreover have "seq_inj s'"
    unfolding seq_inj_def
  proof (intro allI impI)
    fix j j' q q'
    assume "map_of (jobs s') j = Some q" "map_of (jobs s') j' = Some q'" "j_seq q = j_seq q'"
    then show "j = j'" using assms(3) D(4) others [of j q] others [of j' q']
      by (auto simp: seq_inj_def split: if_splits)
  qed
  ultimately show ?thesis using assms(2-6) D by (auto simp: store_inv_def)
qed

lemma tracked_cong:
  "ready s' = ready s \<Longrightarrow> delayed s' = delayed s \<Longrightarrow> leases s' = leases s \<Longrightarrow>
   done_heap s' = done_heap s \<Longrightarrow> result_ttl_s s' = result_ttl_s s \<Longrightarrow>
   tracked T s' r = tracked T s r"
  by (simp add: tracked_def cong: job_state.case_cong)

lemma forget_inv:
  assumes inv: "store_inv T s" shows "store_inv T (forget i s)"
proof -
  have "tracked T (forget i s) r = tracked T s r" for r
    by (rule tracked_cong) simp_all
  then show ?thesis using store_invD [OF inv]
    by (auto simp: store_inv_def heaps_sorted_def seq_inj_def job_inv_def distinct_removeAll
        split: if_splits)
qed

lemma forgets_inv: "store_inv T s \<Longrightarrow> store_inv T (fold forget js s)"
  by (induction js arbitrary: s) (auto intro: forget_inv)

end
