(* ===== verification/QueueOps.thy ===== *)
theory QueueOps
  imports QueueInv
begin

text \<open>
  Every operation of the queue store keeps the invariant, what each returns on every branch,
  and the properties of the queue over whole runs: the reachable states of \<open>queue_step\<close>.
\<close>

section \<open>Every operation keeps the invariant\<close>

lemma offer_ready_simps [simp]:
  "jobs (offer_ready t r s) = jobs s" "ids (offer_ready t r s) = ids s"
  "leases (offer_ready t r s) = leases s" "done_heap (offer_ready t r s) = done_heap s"
  "seq (offer_ready t r s) = seq s" "result_ttl_s (offer_ready t r s) = result_ttl_s s"
  "q_name (offer_ready t r s) = q_name s" "q_storage (offer_ready t r s) = q_storage s"
  "keep_results (offer_ready t r s) = keep_results s" "chords (offer_ready t r s) = chords s"
  "dead_letter_ttl_s (offer_ready t r s) = dead_letter_ttl_s s"
  "chord_ttl_s (offer_ready t r s) = chord_ttl_s s"
  by (simp_all add: offer_ready_def)

lemma offer_ready_sorted: "heaps_sorted s \<Longrightarrow> heaps_sorted (offer_ready t r s)"
  by (simp add: offer_ready_def heaps_sorted_def)

lemma offer_ready_keeps: "tracked T s q \<Longrightarrow> T \<le> T' \<Longrightarrow> tracked T' (offer_ready t r s) q"
  by (auto simp: offer_ready_def tracked_def split: job_state.splits)

lemma offer_ready_tracks: "j_state r = READY \<Longrightarrow> t \<le> T \<Longrightarrow> tracked T (offer_ready t r s) r"
  by (auto simp: offer_ready_def tracked_def)

lemma tracked_jobs_ids [simp]:
  "tracked T (s\<lparr>jobs := js, ids := is\<rparr>) r = tracked T s r"
  "tracked T (s\<lparr>jobs := js\<rparr>) r = tracked T s r"
  "tracked T (s\<lparr>seq := n\<rparr>) r = tracked T s r"
  "tracked T (write_job q s) r = tracked T s r" "tracked T (write_index s) r = tracked T s r"
  by (rule tracked_cong; simp)+

lemma set_add [simp]: "set (set_add x xs) = insert x (set xs)"
  "distinct xs \<Longrightarrow> distinct (set_add x xs)"
  by (auto simp: set_add_def)

lemma add_inv:
  assumes inv: "store_inv T s" and fresh: "uuid \<notin> dkeys (jobs s)"
    and "T \<le> t1" "t1 \<le> t3"
    and ret: "add uuid t1 t2 t3 dat maxa prio delay w cid tp s = (i, s')"
  shows "store_inv t3 s'"
proof -
  note D = store_invD [OF inv]
  let ?r = "\<lparr>j_id = uuid, j_data = dat, j_state = READY, attempts = 0, max_attempts = maxa,
    enqueued_at = t2, lease_until = 0, not_before = (if delay > 0 then t1 + delay else 0),
    priority = prio, j_seq = seq s + 1, last_error = None, j_result = None,
    completed_at = 0, j_wf = w, correlation_id = cid, traceparent = tp\<rparr>"
  let ?s = "s\<lparr>seq := seq s + 1, jobs := AList.update uuid ?r (jobs s), ids := set_add uuid (ids s)\<rparr>"
  have s': "s' = write_index (write_job ?r (offer_ready t3 ?r ?s))"
    using ret by (auto simp: add_def Let_def split del: if_split)
  have "store_inv t3 (offer_ready t3 ?r ?s)"
  proof (rule store_inv_updateI [OF inv, where k = uuid and r' = ?r])
    show "heaps_sorted (offer_ready t3 ?r ?s)"
      using D(3) by (intro offer_ready_sorted) (simp add: heaps_sorted_def)
    show "job_inv t3 (offer_ready t3 ?r ?s) uuid ?r"
      by (simp add: job_inv_def offer_ready_tracks budget_def)
    show "tracked t3 (offer_ready t3 ?r ?s) q \<and> j_seq q \<noteq> j_seq ?r"
      if "map_of (jobs s) k' = Some q" for k' q
    proof -
      note J = job_invD [OF D(7) [OF that]]
      have "tracked t3 ?s q" using tracked_later [OF J(2)] assms(3,4)
        by (simp add: tracked_def cong: job_state.case_cong)
      then show ?thesis using J(4) by (simp add: offer_ready_keeps)
    qed
  qed (use D assms(3,4) in auto)
  then show ?thesis by (simp add: s')
qed

lemma ack_inv:
  assumes inv: "store_inv T s" and "T \<le> t" and ret: "ack t i res att s = (ok, s')"
  shows "store_inv t s'"
proof -
  note D = store_invD [OF inv]
  note later = store_inv_later [OF inv \<open>T \<le> t\<close>]
  show ?thesis
  proof (cases "map_of (jobs s) i")
    case None
    then show ?thesis using ret later by (simp add: ack_def)
  next
    case (Some r)
    show ?thesis
    proof (cases "holds_lease r att \<and> keep_results s")
      case False
      then show ?thesis using ret later Some forget_inv [OF later]
        by (auto simp: ack_def split: if_splits)
    next
      case True
      let ?r = "r\<lparr>j_state := DONE, j_result := map_option b64encode res, completed_at := t,
        lease_until := 0\<rparr>"
      let ?s = "s\<lparr>jobs := AList.update i ?r (jobs s),
        done_heap := heappush (done_heap s) (t + result_ttl_s s, j_id r)\<rparr>"
      note J = job_invD [OF D(7) [OF Some]]
      have s': "s' = write_job ?r ?s" using ret Some True by (simp add: ack_def Let_def)
      have "store_inv t ?s"
      proof (rule store_inv_updateI [OF inv, where k = i and r' = ?r])
        show "heaps_sorted ?s" using D(3) by (simp add: heaps_sorted_def)
        have "budget ?r" using J(3) True by (auto simp: budget_def holds_lease_def split: if_splits)
        then show "job_inv t ?s i ?r" using J by (simp add: job_inv_def tracked_def)
        show "set (ids ?s) = insert i (set (ids s))" using D(5) Some by (auto dest: map_of_keysD)
        show "tracked t ?s q \<and> j_seq q \<noteq> j_seq ?r"
          if "k' \<noteq> i" "map_of (jobs s) k' = Some q" for k' q
        proof
          show "tracked t ?s q" using tracked_later [OF job_invD(2) [OF D(7) [OF that(2)]] \<open>T \<le> t\<close>]
            by (auto simp: tracked_def split: job_state.splits)
          show "j_seq q \<noteq> j_seq ?r" using D(4) Some that by (auto simp: seq_inj_def)
        qed
      qed (use D \<open>T \<le> t\<close> in auto)
      then show ?thesis by (simp add: s')
    qed
  qed
qed

lemma nack_inv:
  assumes inv: "store_inv T s" and "T \<le> t" "t \<le> t'"
    and ret: "nack t t' i err delay att s = (d, s')"
  shows "store_inv t' s'"
proof -
  note D = store_invD [OF inv]
  have "T \<le> t'" using assms(2,3) by simp
  note later = store_inv_later [OF inv this]
  show ?thesis
  proof (cases "\<exists>r. map_of (jobs s) i = Some r \<and> holds_lease r att")
    case False
    then show ?thesis using ret later by (auto simp: nack_def split: option.splits if_splits)
  next
    case True
    then obtain r where r: "map_of (jobs s) i = Some r" "holds_lease r att" by blast
    note J = job_invD [OF D(7) [OF r(1)]]
    have leased: "j_state r = LEASED" using r(2) by (simp add: holds_lease_def split: if_splits)
    have other: "tracked t' s q \<and> j_seq q \<noteq> j_seq r"
      if "k' \<noteq> i" "map_of (jobs s) k' = Some q" for k' q
      using tracked_later [OF job_invD(2) [OF D(7) [OF that(2)]] \<open>T \<le> t'\<close>] D(4) r(1) that
      by (auto simp: seq_inj_def)
    have ids: "insert i (set (ids s)) = set (ids s)" using D(5) r(1) by (auto dest: map_of_keysD)
    show ?thesis
    proof (cases "attempts r \<ge> max_attempts r")
      case True
      let ?r = "r\<lparr>last_error := err, j_state := DEAD, completed_at := t\<rparr>"
      let ?s = "s\<lparr>jobs := AList.update i ?r (jobs s)\<rparr>"
      have s': "s' = write_job ?r ?s" using ret r True by (simp add: nack_def Let_def)
      have "store_inv t' ?s"
      proof (rule store_inv_updateI [OF inv, where k = i and r' = ?r])
        show "heaps_sorted ?s" using D(3) by (simp add: heaps_sorted_def)
        have "budget ?r" using J(3) leased by (auto simp: budget_def)
        then show "job_inv t' ?s i ?r" using J by (simp add: job_inv_def tracked_def)
        show "tracked t' ?s q \<and> j_seq q \<noteq> j_seq ?r"
          if "k' \<noteq> i" "map_of (jobs s) k' = Some q" for k' q
          using other [OF that] by simp
      qed (use D \<open>T \<le> t'\<close> ids in auto)
      then show ?thesis by (simp add: s')
    next
      case False
      let ?r = "r\<lparr>last_error := err, j_state := READY, lease_until := 0,
        not_before := (if delay > 0 then t + delay else 0)\<rparr>"
      let ?s = "offer_ready t' ?r (s\<lparr>jobs := AList.update i ?r (jobs s)\<rparr>)"
      have s': "s' = write_job ?r ?s" using ret r False by (simp add: nack_def Let_def)
      have "store_inv t' ?s"
      proof (rule store_inv_updateI [OF inv, where k = i and r' = ?r])
        show "heaps_sorted ?s" using D(3) by (intro offer_ready_sorted) (simp add: heaps_sorted_def)
        have "budget ?r" using J(3) leased False by (auto simp: budget_def)
        then show "job_inv t' ?s i ?r" using J by (simp add: job_inv_def offer_ready_tracks)
        show "tracked t' ?s q \<and> j_seq q \<noteq> j_seq ?r"
          if "k' \<noteq> i" "map_of (jobs s) k' = Some q" for k' q
        proof -
          have "tracked t' (s\<lparr>jobs := AList.update i ?r (jobs s)\<rparr>) q" "j_seq q \<noteq> j_seq ?r"
            using other [OF that] by simp_all
          then show ?thesis using offer_ready_keeps [OF _ order_refl] by blast
        qed
      qed (use D \<open>T \<le> t'\<close> ids in auto)
      then show ?thesis by (simp add: s')
    qed
  qed
qed

text \<open>
  A claim is maturing, reclaiming, persisting the reclaimed jobs and then the search of the
  ready heap. \<open>claim_prep\<close> is the store at the start of that search.
\<close>

definition claim_prep :: "time \<Rightarrow> store \<Rightarrow> store" where
  "claim_prep now s =
     (let (ch, s1) = reclaim_leases now (mature_delayed now s) in fold write_job ch s1)"

lemma claim_prep_inv: "store_inv T s \<Longrightarrow> T \<le> now \<Longrightarrow> store_inv now (claim_prep now s)"
  by (auto simp: claim_prep_def split: prod.split
      dest: reclaim_leases_inv [OF mature_delayed_inv] intro: order_refl)

definition leased_job :: "time \<Rightarrow> time \<Rightarrow> job \<Rightarrow> job" where
  "leased_job lease_s now r =
     r\<lparr>j_state := LEASED, attempts := attempts r + 1, lease_until := now + lease_s\<rparr>"

definition claimed_store :: "time \<Rightarrow> time \<Rightarrow> string \<Rightarrow> job \<Rightarrow> ready_entry list \<Rightarrow> store \<Rightarrow> store" where
  "claimed_store lease_s now i r h s =
     (let r' = leased_job lease_s now r
      in s\<lparr>ready := h, jobs := AList.update i r' (jobs s),
            leases := heappush (leases s) (now + lease_s, j_id r)\<rparr>)"

lemma from_to_dict: "from_dict (to_dict r) = Inr r"
proof -
  have st: "parse_state (state_value x) = Inr x" for x
    by (cases x) (simp_all add: parse_state_def)
  have os: "as_opt_str (opt_str x) = Inr x" for x
    by (cases x) simp_all
  show ?thesis
    by (simp add: from_dict_def to_dict_def dict_item_def dict_get_def st os)
qed

lemma claim_unfold:
  "claim lease_s now s =
     (case claim_loop now (jobs (claim_prep now s)) (ready (claim_prep now s)) of
        (None, h) \<Rightarrow> (Inr None, (claim_prep now s)\<lparr>ready := h\<rparr>)
      | (Some (i, r), h) \<Rightarrow>
          (Inr (Some (leased_job lease_s now r)),
           write_job (leased_job lease_s now r)
             (claimed_store lease_s now i r h (claim_prep now s))))"
  by (simp add: claim_def claim_prep_def Let_def from_to_dict leased_job_def claimed_store_def
      split: prod.splits option.splits)

lemma claim_prep_jobs:
  assumes "store_inv T s" "T \<le> now"
  shows "map_of (jobs (claim_prep now s)) k =
    map_option (\<lambda>r. if lapsed now r then reclaimed now r else r) (map_of (jobs s) k)"
proof -
  obtain ch s1 where rec: "reclaim_leases now (mature_delayed now s) = (ch, s1)" by fastforce
  show ?thesis
    using reclaim_leases_jobs [OF mature_delayed_inv [OF assms] rec, of k]
    by (simp add: claim_prep_def rec mature_delayed_frame)
qed

text \<open>At the start of the search, the ready jobs that are due are exactly the claimable entries.\<close>

lemma claim_prep_due:
  assumes inv: "store_inv T s" and "T \<le> now"
    and "map_of (jobs (claim_prep now s)) k = Some r" "due_ready now r"
  shows "entry r \<in> set (ready (claim_prep now s))"
proof -
  obtain ch s1 where rec: "reclaim_leases now (mature_delayed now s) = (ch, s1)" by fastforce
  note minv = mature_delayed_inv [OF inv \<open>T \<le> now\<close>]
  obtain h js rdy where loop: "reclaim_loop now (leases (mature_delayed now s))
      (jobs (mature_delayed now s)) (ready (mature_delayed now s)) = (h, js, rdy, ch)"
    and s1: "s1 = (mature_delayed now s)\<lparr>leases := h, jobs := js, ready := rdy\<rparr>"
    using reclaim_leases_loop [OF rec] by blast
  have "sorted (ready (mature_delayed now s))"
    using minv by (simp add: store_inv_def heaps_sorted_def)
  note rdy = reclaim_loop_ready [OF loop this]
  obtain q where q: "map_of (jobs s) k = Some q" "r = (if lapsed now q then reclaimed now q else q)"
    using claim_prep_jobs [OF inv \<open>T \<le> now\<close>, of k] assms(3)
    by (cases "map_of (jobs s) k") auto
  show ?thesis
  proof (cases "lapsed now q")
    case True
    then have "r \<in> set ch"
      using reclaim_leases_changed [OF minv rec, of r] q by (auto simp: mature_delayed_frame)
    then show ?thesis using rdy assms(4) by (auto simp: claim_prep_def rec s1 due_ready_def)
  next
    case False
    then show ?thesis
      using mature_delayed_due [OF inv \<open>T \<le> now\<close> q(1)] q assms(4) rdy
      by (simp add: claim_prep_def rec s1)
  qed
qed

lemma claim_inv:
  assumes inv: "store_inv T s" and "T \<le> now" and ret: "claim lease_s now s = (res, s')"
  shows "store_inv now s'"
proof -
  let ?p = "claim_prep now s"
  note pinv = claim_prep_inv [OF inv \<open>T \<le> now\<close>]
  note D = store_invD [OF pinv]
  have srt: "sorted (ready ?p)" using D(3) by (simp add: heaps_sorted_def)
  obtain found h where loop: "claim_loop now (jobs ?p) (ready ?p) = (found, h)" by fastforce
  have in_ready: "claimable now (jobs ?p) (entry q)" if "map_of (jobs ?p) k = Some q" "due_ready now q" for k q
    using that job_invD(1) [OF D(7) [OF that(1)]] by (auto simp: claimable_def entry_def)
  have keep: "tracked now s'' q"
    if q: "map_of (jobs ?p) k = Some q"
      and "set (delayed s'') = set (delayed ?p)" "set (leases ?p) \<subseteq> set (leases s'')"
      and "done_heap s'' = done_heap ?p" "result_ttl_s s'' = result_ttl_s ?p"
      and "due_ready now q \<Longrightarrow> entry q \<in> set (ready s'')" for s'' k q
    using job_invD(2) [OF D(7) [OF q]] that
    by (auto simp: tracked_def due_ready_def split: job_state.splits)
  show ?thesis
  proof (cases found)
    case None
    then have s': "s' = ?p\<lparr>ready := []\<rparr>" and no: "\<forall>e \<in> set (ready ?p). \<not> claimable now (jobs ?p) e"
      using ret loop claim_loop_None [of now "jobs ?p" "ready ?p" h]
      by (auto simp: claim_unfold)
    have "tracked now s' q" if q: "map_of (jobs ?p) k = Some q" for k q
    proof (rule keep [OF q])
      show "entry q \<in> set (ready s')" if "due_ready now q"
        using claim_prep_due [OF inv \<open>T \<le> now\<close> q that] in_ready [OF q that] no by blast
    qed (simp_all add: s')
    then show ?thesis using D
      by (auto simp: store_inv_def job_inv_def s' heaps_sorted_def seq_inj_def)
  next
    case (Some ir)
    obtain i r where found: "found = Some (i, r)" using Some by (cases ir) auto
    let ?r = "leased_job lease_s now r"
    let ?s = "claimed_store lease_s now i r h ?p"
    have s': "s' = write_job ?r ?s" using ret loop found by (simp add: claim_unfold)
    obtain e where e: "e \<in> set (ready ?p)" "snd (snd e) = i" "map_of (jobs ?p) i = Some r"
      "due_ready now r" "set h \<subseteq> set (ready ?p)" "sorted h"
      and rest: "\<forall>e' \<in> set (ready ?p). claimable now (jobs ?p) e' \<longrightarrow> e \<le> e' \<and> (e' = e \<or> e' \<in> set h)"
      using claim_loop_Some [OF loop [unfolded found] srt] by blast
    note J = job_invD [OF D(7) [OF e(3)]]
    have "store_inv now ?s"
    proof (rule store_inv_updateI [OF pinv, where k = i and r' = ?r])
      show "heaps_sorted ?s" using D(3) e(6) by (simp add: heaps_sorted_def claimed_store_def Let_def)
      have "budget ?r" using J(3) e(4) by (auto simp: budget_def due_ready_def leased_job_def)
      then show "job_inv now ?s i ?r" using J
        by (simp add: job_inv_def tracked_def claimed_store_def leased_job_def Let_def)
      show "set (ids ?s) = insert i (set (ids ?p))"
        using D(5) e(3) by (auto simp: claimed_store_def Let_def dest: map_of_keysD)
      show "tracked now ?s q \<and> j_seq q \<noteq> j_seq ?r"
        if k: "k \<noteq> i" and q: "map_of (jobs ?p) k = Some q" for k q
      proof
        show "tracked now ?s q"
        proof (rule keep [OF q])
          show "entry q \<in> set (ready ?s)" if due: "due_ready now q"
          proof -
            have "entry q \<noteq> e" using job_invD(1) [OF D(7) [OF q]] k e(2) by (auto simp: entry_def)
            then show ?thesis
              using rest claim_prep_due [OF inv \<open>T \<le> now\<close> q due] in_ready [OF q due]
              by (auto simp: claimed_store_def Let_def)
          qed
        qed (auto simp: claimed_store_def Let_def)
        show "j_seq q \<noteq> j_seq ?r"
          using D(4) e(3) q k by (auto simp: seq_inj_def leased_job_def)
      qed
    qed (use D in \<open>auto simp: claimed_store_def Let_def\<close>)
    then show ?thesis by (simp add: s')
  qed
qed

text \<open>Popping a done entry keeps every other finished job tracked; the popped one is forgotten
  or has a later entry.\<close>

lemma purge_pop_inv:
  assumes inv: "store_inv T (s\<lparr>done_heap := (t, i) # h\<rparr>)" and "t \<le> now"
    and "s' = (case map_of (jobs s) i of None \<Rightarrow> s
               | Some r \<Rightarrow> if j_state r = DONE \<and> completed_at r + result_ttl_s s \<le> now
                           then forget i s else s)"
  shows "store_inv T (s'\<lparr>done_heap := h\<rparr>)"
proof -
  note D = store_invD [OF inv]
  have keep: "tracked T (s\<lparr>done_heap := h\<rparr>) r"
    if r: "map_of (jobs s) k = Some r"
      and "k = i \<Longrightarrow> j_state r = DONE \<Longrightarrow> \<not> completed_at r + result_ttl_s s \<le> now" for k r
  proof -
    have "job_inv T (s\<lparr>done_heap := (t, i) # h\<rparr>) k r" using D(7) r by simp
    then show ?thesis using that(2) \<open>t \<le> now\<close>
      by (auto simp: job_inv_def tracked_def split: job_state.splits)
  qed
  have base: "job_inv T (s\<lparr>done_heap := h\<rparr>) k r"
    if r: "map_of (jobs s) k = Some r"
      and "k = i \<Longrightarrow> j_state r = DONE \<Longrightarrow> \<not> completed_at r + result_ttl_s s \<le> now" for k r
    using D(7) [of k r] keep [OF that] r by (simp add: job_inv_def)
  have srt: "heaps_sorted (s\<lparr>done_heap := h\<rparr>)" using D(3) by (simp add: heaps_sorted_def)
  show ?thesis
  proof (cases "\<exists>r. map_of (jobs s) i = Some r \<and> j_state r = DONE
                   \<and> completed_at r + result_ttl_s s \<le> now")
    case True
    then have s': "s' = forget i s" using assms(3) by auto
    have "tracked T ((forget i s)\<lparr>done_heap := h\<rparr>) r = tracked T (s\<lparr>done_heap := h\<rparr>) r" for r
      by (rule tracked_cong) simp_all
    then show ?thesis using D(1-6) srt base
      by (auto simp: s' store_inv_def heaps_sorted_def seq_inj_def job_inv_def
          distinct_removeAll split: if_splits)
  next
    case False
    then have s': "s' = s" using assms(3) by (auto split: option.splits)
    have "job_inv T (s\<lparr>done_heap := h\<rparr>) k r" if "map_of (jobs s) k = Some r" for k r
      using base [OF that] False that by blast
    then show ?thesis using D(1-6) srt
      by (simp add: s' store_inv_def seq_inj_def)
  qed
qed

lemma purge_done_inv:
  "store_inv T (s\<lparr>done_heap := h\<rparr>) \<Longrightarrow> store_inv T (purge_done now h s)"
proof (induction h arbitrary: s)
  case (Cons e h)
  obtain t i where e: "e = (t, i)" by fastforce
  show ?case
  proof (cases "t \<le> now")
    case True
    from purge_pop_inv [OF Cons.prems [unfolded e] True refl] Cons.IH True
    show ?thesis by (simp add: e)
  qed (use Cons.prems in \<open>simp add: e\<close>)
qed simp

lemma sweep_inv:
  assumes inv: "store_inv T s" and "T \<le> now" and ret: "sweep now s = (n, s')"
  shows "store_inv now s'"
proof -
  obtain ch s1 where rec: "reclaim_leases now s = (ch, s1)" by fastforce
  let ?s2 = "fold write_job ch s1"
  let ?s3 = "purge_done now (done_heap ?s2) ?s2"
  let ?s4 = "case dead_letter_ttl_s ?s3 of None \<Rightarrow> ?s3
    | Some ttl \<Rightarrow> fold forget (expired_dead now ttl (jobs ?s3)) ?s3"
  have "store_inv now ?s2" using reclaim_leases_inv [OF inv rec \<open>T \<le> now\<close>] by simp
  then have "store_inv now (?s2\<lparr>done_heap := done_heap ?s2\<rparr>)"
    by (subst store_inv_cong [where s = ?s2]) simp_all
  then have "store_inv now ?s3" by (rule purge_done_inv)
  then have "store_inv now ?s4" by (auto split: option.split intro: forgets_inv)
  then show ?thesis using ret by (auto simp: sweep_def rec Let_def split: option.splits)
qed

lemma chord_report_inv:
  "store_inv T s \<Longrightarrow> chord_report t c ix n res s = (out, s') \<Longrightarrow> store_inv T s'"
  by (auto simp: chord_report_def Let_def split: if_splits option.splits)

end
