(* ===== verification/QueueRuns.thy ===== *)
theory QueueRuns
  imports QueueOps
begin

text \<open>
  The queue store over whole runs: how a single job evolves under each operation, what a claim
  returns and what a sweep leaves, and the labelled steps \<open>queue_step\<close> of the system (clock, job
  ids handed out, store) with the invariant every step keeps.
\<close>

section \<open>How a job evolves\<close>

text \<open>
  What no operation undoes: identity, body and budget are fixed, the attempt number only grows,
  a finished job stays finished and a job leaves the leased state for good unless the attempt
  number grows.
\<close>

definition same_job :: "job \<Rightarrow> job \<Rightarrow> bool" where
  "same_job r r' \<longleftrightarrow> j_id r' = j_id r \<and> j_data r' = j_data r \<and> max_attempts r' = max_attempts r
     \<and> priority r' = priority r \<and> j_seq r' = j_seq r \<and> j_wf r' = j_wf r"

definition job_evolves :: "job \<Rightarrow> job \<Rightarrow> bool" where
  "job_evolves r r' \<longleftrightarrow> same_job r r' \<and> attempts r \<le> attempts r'
     \<and> (j_state r = DONE \<or> j_state r = DEAD \<longrightarrow> j_state r' = j_state r)
     \<and> (attempts r' = attempts r \<and> j_state r \<noteq> LEASED \<longrightarrow> j_state r' \<noteq> LEASED)"

definition evolves :: "store \<Rightarrow> store \<Rightarrow> bool" where
  "evolves s s' \<longleftrightarrow>
     (\<forall>k r'. map_of (jobs s') k = Some r' \<longrightarrow>
        (\<exists>r. map_of (jobs s) k = Some r \<and> job_evolves r r'))
     \<and> (\<forall>e \<in> set (ready s'). e \<in> set (ready s)
          \<or> (\<exists>k r. map_of (jobs s) k = Some r \<and> j_id r = k \<and> e = entry r))"

lemma job_evolves_refl [simp]: "job_evolves r r"
  by (simp add: job_evolves_def same_job_def)

lemma job_evolves_trans: "job_evolves r r' \<Longrightarrow> job_evolves r' r'' \<Longrightarrow> job_evolves r r''"
  by (auto simp: job_evolves_def same_job_def)

lemma job_evolves_entry: "job_evolves r r' \<Longrightarrow> entry r' = entry r \<and> j_id r' = j_id r"
  by (simp add: job_evolves_def same_job_def entry_def)

lemma evolvesD: "evolves s s' \<Longrightarrow> map_of (jobs s') k = Some r' \<Longrightarrow>
    \<exists>r. map_of (jobs s) k = Some r \<and> job_evolves r r'"
  by (simp add: evolves_def)

lemma evolves_trans:
  assumes "evolves s s'" "evolves s' s''" shows "evolves s s''"
  unfolding evolves_def
proof (intro conjI allI ballI impI)
  fix k r'' assume "map_of (jobs s'') k = Some r''"
  then show "\<exists>r. map_of (jobs s) k = Some r \<and> job_evolves r r''"
    using evolvesD [OF assms(2)] evolvesD [OF assms(1)] job_evolves_trans by metis
next
  fix e assume "e \<in> set (ready s'')"
  then consider "e \<in> set (ready s')"
    | k r' where "map_of (jobs s') k = Some r'" "j_id r' = k" "e = entry r'"
    using assms(2) by (auto simp: evolves_def)
  then show "e \<in> set (ready s) \<or> (\<exists>k r. map_of (jobs s) k = Some r \<and> j_id r = k \<and> e = entry r)"
  proof cases
    case 1 then show ?thesis using assms(1) by (auto simp: evolves_def)
  next
    case 2 then show ?thesis using evolvesD [OF assms(1) 2(1)] job_evolves_entry by metis
  qed
qed

lemma evolvesI:
  assumes "\<And>k r'. map_of (jobs s') k = Some r' \<Longrightarrow>
      \<exists>r. map_of (jobs s) k = Some r \<and> job_evolves r r'"
    and "\<And>e. e \<in> set (ready s') \<Longrightarrow> e \<in> set (ready s)
      \<or> (\<exists>k r. map_of (jobs s) k = Some r \<and> j_id r = k \<and> e = entry r)"
  shows "evolves s s'"
  using assms by (auto simp: evolves_def)

lemma evolves_same: "map_of (jobs s') = map_of (jobs s) \<Longrightarrow> ready s' = ready s \<Longrightarrow> evolves s s'"
  by (rule evolvesI) auto

lemma job_evolves_reclaimed: "lapsed now r \<Longrightarrow> job_evolves r (reclaimed now r)"
  by (auto simp: job_evolves_def same_job_def reclaimed_def lapsed_def)

lemma mature_delayed_evolves:
  assumes inv: "store_inv T s" shows "evolves s (mature_delayed now s)"
proof (rule evolvesI)
  have srt: "sorted (delayed s)" "sorted (ready s)"
    using inv by (simp_all add: store_inv_def heaps_sorted_def)
  show "e \<in> set (ready s) \<or> (\<exists>k r. map_of (jobs s) k = Some r \<and> j_id r = k \<and> e = entry r)"
    if "e \<in> set (ready (mature_delayed now s))" for e
  proof -
    from that mature_loop_ready [OF srt, of now "jobs s"] consider "e \<in> set (ready s)"
      | r k where "map_of (jobs s) k = Some r" "e = entry r"
      by (auto simp: mature_delayed_heaps)
    then show ?thesis using job_invD(1) [OF store_invD(7) [OF inv]] by cases blast+
  qed
qed (simp add: mature_delayed_frame)

lemma reclaim_leases_evolves:
  assumes inv: "store_inv T s" and rec: "reclaim_leases now s = (ch, s')"
  shows "evolves s s'"
proof (rule evolvesI)
  show "\<exists>r. map_of (jobs s) k = Some r \<and> job_evolves r r'"
    if "map_of (jobs s') k = Some r'" for k r'
    using that reclaim_leases_jobs [OF inv rec, of k] job_evolves_reclaimed
    by (auto split: if_splits)
  show "e \<in> set (ready s) \<or> (\<exists>k r. map_of (jobs s) k = Some r \<and> j_id r = k \<and> e = entry r)"
    if e: "e \<in> set (ready s')" for e
  proof -
    obtain h js rdy where loop: "reclaim_loop now (leases s) (jobs s) (ready s) = (h, js, rdy, ch)"
      and s': "s' = s\<lparr>leases := h, jobs := js, ready := rdy\<rparr>"
      using reclaim_leases_loop [OF rec] by blast
    have "sorted (ready s)" using inv by (simp add: store_inv_def heaps_sorted_def)
    from reclaim_loop_ready [OF loop this] e
    have "e \<in> set (ready s) \<or> (\<exists>r' \<in> set ch. e = entry r')" by (auto simp: s')
    then show ?thesis
      using reclaim_leases_changed [OF inv rec] job_invD(1) [OF store_invD(7) [OF inv]]
      by (fastforce simp: entry_reclaimed)
  qed
qed

lemma evolves_write [simp]:
  "evolves s (write_job r s') = evolves s s'" "evolves s (fold write_job ch s') = evolves s s'"
  "evolves s (write_index s') = evolves s s'"
  by (simp_all add: evolves_def)

lemma claim_prep_evolves:
  assumes "store_inv T s" "T \<le> now" shows "evolves s (claim_prep now s)"
  using evolves_trans [OF mature_delayed_evolves [OF assms(1)]
      reclaim_leases_evolves [OF mature_delayed_inv [OF assms]]]
  by (auto simp: claim_prep_def split: prod.split)

text \<open>An entry of the ready heap that names a job of the table is that job's own entry.\<close>

definition ready_inv :: "string set \<Rightarrow> store \<Rightarrow> bool" where
  "ready_inv U s \<longleftrightarrow> dkeys (jobs s) \<subseteq> U \<and>
     (\<forall>e \<in> set (ready s). snd (snd e) \<in> U \<and>
        (\<forall>r. map_of (jobs s) (snd (snd e)) = Some r \<longrightarrow> e = entry r))"

lemma ready_inv_evolves:
  assumes R: "ready_inv U s" and E: "evolves s s'" shows "ready_inv U s'"
  unfolding ready_inv_def
proof (intro conjI ballI allI impI subsetI)
  fix k assume "k \<in> dkeys (jobs s')"
  then have "k \<in> dkeys (jobs s)" using evolvesD [OF E, of k] by (auto simp: dkeys_map_of)
  then show "k \<in> U" using R by (auto simp: ready_inv_def)
next
  fix e assume "e \<in> set (ready s')"
  then consider "e \<in> set (ready s)"
    | r where "map_of (jobs s) (j_id r) = Some r" "e = entry r"
    using E by (auto simp: evolves_def)
  note cases = this
  then show "snd (snd e) \<in> U"
    by cases (use R in \<open>auto simp: ready_inv_def entry_def dest: map_of_keysD\<close>)
  fix r' assume "map_of (jobs s') (snd (snd e)) = Some r'"
  then obtain r where r: "map_of (jobs s) (snd (snd e)) = Some r" "entry r' = entry r"
    using evolvesD [OF E] job_evolves_entry by metis
  from cases show "e = entry r'"
    by cases (use R r in \<open>auto simp: ready_inv_def entry_def\<close>)
qed

section \<open>What a claim returns\<close>

lemma claim_jobs_None:
  "claim lease_s now s = (Inr None, s') \<Longrightarrow> jobs s' = jobs (claim_prep now s)"
  by (auto simp: claim_unfold split: option.splits prod.splits)

lemma claim_not_error: "claim lease_s now s \<noteq> (Inl e, s')"
  by (auto simp: claim_unfold split: option.splits prod.splits)

lemma claim_Some:
  assumes inv: "store_inv T s" and "ready_inv U s" "T \<le> now"
    and ret: "claim lease_s now s = (Inr (Some r'), s')"
  obtains r where "map_of (jobs (claim_prep now s)) (j_id r') = Some r" "due_ready now r"
    "r' = leased_job lease_s now r"
    "map_of (jobs s') = (map_of (jobs (claim_prep now s)))(j_id r' \<mapsto> r')"
    "\<And>k q. map_of (jobs (claim_prep now s)) k = Some q \<Longrightarrow> due_ready now q \<Longrightarrow> entry r \<le> entry q"
    "set (ready s') \<subseteq> set (ready (claim_prep now s))"
proof -
  let ?p = "claim_prep now s"
  note pinv = claim_prep_inv [OF inv \<open>T \<le> now\<close>]
  note rinv = ready_inv_evolves [OF assms(2) claim_prep_evolves [OF inv \<open>T \<le> now\<close>]]
  note D = store_invD [OF pinv]
  have srt: "sorted (ready ?p)" using D(3) by (simp add: heaps_sorted_def)
  obtain i r h where loop: "claim_loop now (jobs ?p) (ready ?p) = (Some (i, r), h)"
    and r': "r' = leased_job lease_s now r"
    and s': "s' = write_job r' (claimed_store lease_s now i r h ?p)"
    using ret by (auto simp: claim_unfold split: option.splits prod.splits)
  obtain e where e: "e \<in> set (ready ?p)" "snd (snd e) = i" "map_of (jobs ?p) i = Some r"
      "due_ready now r" and h: "set h \<subseteq> set (ready ?p)"
    and least: "\<And>e'. e' \<in> set (ready ?p) \<Longrightarrow> claimable now (jobs ?p) e' \<Longrightarrow> e \<le> e'"
    using claim_loop_Some [OF loop srt] by blast
  have id: "j_id r = i" using job_invD(1) [OF D(7) [OF e(3)]] .
  have er: "e = entry r" using rinv e by (auto simp: ready_inv_def)
  show thesis
  proof
    show "map_of (jobs ?p) (j_id r') = Some r" using e(3) id by (simp add: r' leased_job_def)
    show "map_of (jobs s') = (map_of (jobs ?p))(j_id r' \<mapsto> r')"
      using id by (simp add: s' claimed_store_def Let_def r' leased_job_def)
    show "entry r \<le> entry q" if q: "map_of (jobs ?p) k = Some q" "due_ready now q" for k q
    proof -
      have "claimable now (jobs ?p) (entry q)"
        using q job_invD(1) [OF D(7) [OF q(1)]] by (auto simp: claimable_def entry_def)
      then show ?thesis using least claim_prep_due [OF inv \<open>T \<le> now\<close> q] er by blast
    qed
    show "set (ready s') \<subseteq> set (ready ?p)" using h by (simp add: s' claimed_store_def Let_def)
  qed (use e(4) r' in auto)
qed

lemma claim_None:
  assumes inv: "store_inv T s" and "T \<le> now" and ret: "claim lease_s now s = (Inr None, s')"
    and q: "map_of (jobs (claim_prep now s)) k = Some q"
  shows "\<not> due_ready now q"
proof
  assume due: "due_ready now q"
  let ?p = "claim_prep now s"
  have "\<forall>e \<in> set (ready ?p). \<not> claimable now (jobs ?p) e"
    using ret claim_loop_None [of now "jobs ?p" "ready ?p"]
    by (auto simp: claim_unfold split: option.splits prod.splits)
  moreover have "claimable now (jobs ?p) (entry q)"
    using q due job_invD(1) [OF store_invD(7) [OF claim_prep_inv [OF inv \<open>T \<le> now\<close>] q]]
    by (auto simp: claimable_def entry_def)
  ultimately show False using claim_prep_due [OF inv \<open>T \<le> now\<close> q due] by blast
qed

lemma job_evolves_leased: "due_ready now r \<Longrightarrow> job_evolves r (leased_job l now r)"
  by (simp add: job_evolves_def same_job_def leased_job_def due_ready_def)

lemma claim_evolves:
  assumes inv: "store_inv T s" and R: "ready_inv U s" and "T \<le> now"
    and ret: "claim lease_s now s = (out, s')"
  shows "evolves s s'"
proof -
  note prep = claim_prep_evolves [OF inv \<open>T \<le> now\<close>]
  consider "out = Inr None" | r' where "out = Inr (Some r')"
    using ret claim_not_error by (metis obj_sumE option.exhaust)
  then have "evolves (claim_prep now s) s'"
  proof cases
    case 1
    then show ?thesis using ret
      by (intro evolvesI)
        (auto simp: claim_unfold dest: claim_loop_None split: option.splits prod.splits)
  next
    case 2
    obtain r where r: "map_of (jobs (claim_prep now s)) (j_id r') = Some r" "due_ready now r"
      "r' = leased_job lease_s now r" "map_of (jobs s') = (map_of (jobs (claim_prep now s)))(j_id r' \<mapsto> r')"
      "set (ready s') \<subseteq> set (ready (claim_prep now s))"
      using claim_Some [OF inv R \<open>T \<le> now\<close> ret [unfolded 2]] by metis
    show ?thesis by (rule evolvesI) (use r job_evolves_leased in \<open>auto split: if_splits\<close>)
  qed
  with prep show ?thesis by (rule evolves_trans)
qed

lemma ack_evolves:
  assumes "ack t i res att s = (ok, s')" shows "evolves s s'"
  using assms
  by (intro evolvesI)
    (auto simp: ack_def Let_def job_evolves_def same_job_def holds_lease_def
      split: option.splits if_splits)

lemma nack_evolves:
  assumes inv: "store_inv T s" and "nack t t' i err delay att s = (d, s')" shows "evolves s s'"
proof (cases "\<exists>r. map_of (jobs s) i = Some r \<and> holds_lease r att")
  case False
  then show ?thesis using assms(2)
    by (auto simp: nack_def intro!: evolves_same split: option.splits if_splits)
next
  case True
  then obtain r where r: "map_of (jobs s) i = Some r" "holds_lease r att" by blast
  have id: "j_id r = i" using job_invD(1) [OF store_invD(7) [OF inv r(1)]] .
  show ?thesis
  proof (rule evolvesI)
    show "\<exists>q. map_of (jobs s) k = Some q \<and> job_evolves q q'"
      if "map_of (jobs s') k = Some q'" for k q'
      using that assms(2) r
      by (auto simp: nack_def Let_def job_evolves_def same_job_def holds_lease_def
          split: if_splits)
    show "e \<in> set (ready s) \<or> (\<exists>k r. map_of (jobs s) k = Some r \<and> j_id r = k \<and> e = entry r)"
      if "e \<in> set (ready s')" for e
      using that assms(2) r id
      by (auto simp: nack_def Let_def offer_ready_def entry_def split: if_splits)
  qed
qed

section \<open>What a sweep does\<close>

definition expired :: "store \<Rightarrow> time \<Rightarrow> job \<Rightarrow> bool" where
  "expired s now r \<longleftrightarrow>
     j_state r = DONE \<and> completed_at r + result_ttl_s s \<le> now
     \<or> j_state r = DEAD \<and> completed_at r \<noteq> 0
       \<and> (case dead_letter_ttl_s s of None \<Rightarrow> False | Some ttl \<Rightarrow> completed_at r + ttl \<le> now)"

definition swept :: "store \<Rightarrow> time \<Rightarrow> job \<Rightarrow> job option" where
  "swept s now r =
     (let r1 = if lapsed now r then reclaimed now r else r
      in if expired s now r1 then None else Some r1)"

definition done_due :: "store \<Rightarrow> time \<Rightarrow> job \<Rightarrow> bool" where
  "done_due s now r \<longleftrightarrow> j_state r = DONE \<and> completed_at r + result_ttl_s s \<le> now"

lemma purge_done_frame [simp]:
  "result_ttl_s (purge_done now h s) = result_ttl_s s" "ready (purge_done now h s) = ready s"
  "dead_letter_ttl_s (purge_done now h s) = dead_letter_ttl_s s"
  "chord_ttl_s (purge_done now h s) = chord_ttl_s s" "seq (purge_done now h s) = seq s"
  "chords (purge_done now h s) = chords s" "q_name (purge_done now h s) = q_name s"
  by (induction now h s rule: purge_done.induct) (auto split: option.split)

lemma purge_done_jobs:
  "sorted h \<Longrightarrow> map_of (jobs (purge_done now h s)) k =
     (case map_of (jobs s) k of
        None \<Rightarrow> None
      | Some r \<Rightarrow> if done_due s now r \<and> (\<exists>t \<le> now. (t, k) \<in> set h) then None else Some r)"
proof (induction now h s rule: purge_done.induct)
  case (2 now t i h s)
  show ?case
  proof (cases "t \<le> now")
    case False
    then show ?thesis using sorted_due [OF 2(2) False]
      by (auto split: option.split)
  next
    case True
    let ?s = "case map_of (jobs s) i of None \<Rightarrow> s
      | Some r \<Rightarrow> if j_state r = DONE \<and> completed_at r + result_ttl_s s \<le> now then forget i s else s"
    have s: "map_of (jobs ?s) = (case map_of (jobs s) i of None \<Rightarrow> map_of (jobs s)
        | Some r \<Rightarrow> if done_due s now r then (map_of (jobs s))(i := None) else map_of (jobs s))"
      and d: "done_due ?s now = done_due s now"
      by (auto simp: done_due_def fun_eq_iff split: option.split)
    have "sorted h" using 2(2) by simp
    from 2(1) [OF True this] True show ?thesis
      by (auto simp: s d split: option.splits if_splits)
  qed
qed (auto split: option.split)

lemma forgets_frame [simp]:
  "ready (fold forget is s) = ready s" "chord_ttl_s (fold forget is s) = chord_ttl_s s"
  "chords (fold forget is s) = chords s"
  "map_of (jobs (fold forget is s)) k = (if k \<in> set is then None else map_of (jobs s) k)"
  by (induction "is" arbitrary: s) auto

lemma expired_dead_iff:
  "dict_ok js \<Longrightarrow> k \<in> set (expired_dead now ttl js) \<longleftrightarrow>
     (\<exists>r. map_of js k = Some r \<and> j_state r = DEAD \<and> completed_at r \<noteq> 0 \<and> completed_at r + ttl \<le> now)"
  by (force simp: expired_dead_def map_of_eq_Some_iff)

lemma reclaim_loop_distinct:
  "reclaim_loop now h js rdy = (h', js', rdy', ch) \<Longrightarrow> sorted h \<Longrightarrow>
   (\<And>k r. map_of js k = Some r \<Longrightarrow> j_id r = k) \<Longrightarrow> distinct (map j_id ch)"
proof (induction h arbitrary: js rdy h' js' rdy' ch)
  case (Cons e h)
  obtain t i where e: "e = (t, i)" by fastforce
  have h: "sorted h" using Cons.prems(2) by (simp add: e)
  show ?case
  proof (cases "t \<le> now \<and> (\<exists>r. map_of js i = Some r \<and> lapsed now r)")
    case False
    then show ?thesis using Cons.prems Cons.IH [OF _ h] by (auto simp: e split: if_splits option.splits)
  next
    case True
    then obtain r where r: "map_of js i = Some r" "lapsed now r" "t \<le> now" by blast
    let ?js = "AList.update i (reclaimed now r) js"
    obtain ch' rdy0 where rec: "reclaim_loop now h ?js rdy0 = (h', js', rdy', ch')"
      and ch: "ch = reclaimed now r # ch'"
      using Cons.prems(1) r by (auto simp: e split: prod.splits)
    have ids: "j_id q = k" if "map_of ?js k = Some q" for k q
      using that Cons.prems(3) r by (auto split: if_splits)
    have "distinct (map j_id ch')" using Cons.IH [OF rec h ids] .
    moreover have "\<forall>q \<in> set ch'. j_id q \<noteq> i"
      using reclaim_loop_changed [OF rec h] Cons.prems(3) by (auto split: if_splits)
    ultimately show ?thesis using Cons.prems(3) [OF r(1)] by (auto simp: ch)
  qed
qed simp

lemma reclaim_leases_count:
  assumes inv: "store_inv T s" and rec: "reclaim_leases now s = (ch, s')"
  shows "length ch = card {k. \<exists>r. map_of (jobs s) k = Some r \<and> lapsed now r}"
proof -
  obtain h js rdy where loop: "reclaim_loop now (leases s) (jobs s) (ready s) = (h, js, rdy, ch)"
    using reclaim_leases_loop [OF rec] by blast
  have srt: "sorted (leases s)" using inv by (simp add: store_inv_def heaps_sorted_def)
  note ids = job_invD(1) [OF store_invD(7) [OF inv]]
  have "length ch = card (set (map j_id ch))"
    using distinct_card [OF reclaim_loop_distinct [OF loop srt ids]] by simp
  also have "set (map j_id ch) = {k. \<exists>r. map_of (jobs s) k = Some r \<and> lapsed now r}"
  proof (intro set_eqI iffI)
    fix k assume "k \<in> set (map j_id ch)"
    then obtain r' where "r' \<in> set ch" "k = j_id r'" by auto
    then show "k \<in> {k. \<exists>r. map_of (jobs s) k = Some r \<and> lapsed now r}"
      using reclaim_leases_changed [OF inv rec, of r'] ids by auto
  next
    fix k assume "k \<in> {k. \<exists>r. map_of (jobs s) k = Some r \<and> lapsed now r}"
    then obtain r where r: "map_of (jobs s) k = Some r" "lapsed now r" by blast
    then have "reclaimed now r \<in> set ch" using reclaim_leases_changed [OF inv rec] by blast
    then show "k \<in> set (map j_id ch)" using ids [OF r(1)] by (force intro: rev_image_eqI)
  qed
  finally show ?thesis .
qed

lemma sweep_jobs:
  assumes inv: "store_inv T s" and "T \<le> now" and ret: "sweep now s = (n, s')"
  shows "map_of (jobs s') k = Option.bind (map_of (jobs s) k) (swept s now)"
proof -
  obtain ch s1 where rec: "reclaim_leases now s = (ch, s1)" by fastforce
  let ?s2 = "fold write_job ch s1"
  let ?s3 = "purge_done now (done_heap ?s2) ?s2"
  note inv1 = reclaim_leases_inv [OF inv rec \<open>T \<le> now\<close>]
  have srt: "sorted (done_heap ?s2)" using inv1 by (simp add: store_inv_def heaps_sorted_def)
  have j2: "map_of (jobs ?s2) k' = map_option (\<lambda>r. if lapsed now r then reclaimed now r else r)
      (map_of (jobs s) k')" for k'
    using reclaim_leases_jobs [OF inv rec] by simp
  have "\<exists>t \<le> now. (t, k') \<in> set (done_heap ?s2)"
    if "map_of (jobs ?s2) k' = Some r" "done_due ?s2 now r" for k' r
    using job_invD(1,2) [OF store_invD(7) [OF inv1, of k' r]] that
    by (auto simp: tracked_def done_due_def)
  then have j3: "map_of (jobs ?s3) k' = (case map_of (jobs ?s2) k' of None \<Rightarrow> None
      | Some r \<Rightarrow> if done_due s now r then None else Some r)" for k'
    using purge_done_jobs [OF srt, of now ?s2 k'] reclaim_leases_frame(3) [OF rec]
    by (auto simp: done_due_def split: option.splits)
  have "store_inv now (?s2\<lparr>done_heap := done_heap ?s2\<rparr>)"
    using inv1 by (subst store_inv_cong [where s = ?s2]) simp_all
  from purge_done_inv [OF this] have ok: "dict_ok (jobs ?s3)" by (simp add: store_inv_def)
  have ttl: "dead_letter_ttl_s ?s3 = dead_letter_ttl_s s"
    using reclaim_leases_frame(4) [OF rec] by simp
  have "map_of (jobs s') k = (case dead_letter_ttl_s s of None \<Rightarrow> map_of (jobs ?s3) k
      | Some d \<Rightarrow> if k \<in> set (expired_dead now d (jobs ?s3)) then None else map_of (jobs ?s3) k)"
    using ret ttl by (auto simp: sweep_def rec Let_def split: option.splits)
  note last = this
  show ?thesis
  proof (cases "map_of (jobs s) k")
    case None
    then show ?thesis using last j3 [of k] j2 [of k] by (simp split: option.split)
  next
    case (Some r)
    define q where "q = (if lapsed now r then reclaimed now r else r)"
    have "map_of (jobs ?s3) k = (if done_due s now q then None else Some q)"
      using j3 [of k] j2 [of k] Some by (simp add: q_def)
    then have "map_of (jobs s') k = (if expired s now q then None else Some q)"
      using last expired_dead_iff [OF ok]
      by (auto simp: expired_def done_due_def split: option.split)
    then show ?thesis by (simp add: Some swept_def q_def)
  qed
qed

lemma sweep_evolves:
  assumes inv: "store_inv T s" and "T \<le> now" and ret: "sweep now s = (n, s')"
  shows "evolves s s'"
proof -
  obtain ch s1 where rec: "reclaim_leases now s = (ch, s1)" by fastforce
  have rdy: "ready s' = ready s1"
    using ret by (auto simp: sweep_def rec Let_def split: option.splits)
  show ?thesis
  proof (rule evolvesI)
    show "\<exists>r. map_of (jobs s) k = Some r \<and> job_evolves r r'"
      if "map_of (jobs s') k = Some r'" for k r'
      using that job_evolves_reclaimed
      by (auto simp: sweep_jobs [OF assms] swept_def Let_def bind_eq_Some_conv split: if_splits)
    show "e \<in> set (ready s) \<or> (\<exists>k r. map_of (jobs s) k = Some r \<and> j_id r = k \<and> e = entry r)"
      if "e \<in> set (ready s')" for e
      using that reclaim_leases_evolves [OF inv rec] by (auto simp: rdy evolves_def)
  qed
qed

lemma chord_report_evolves:
  "chord_report t c ix n res s = (out, s') \<Longrightarrow> evolves s s'"
  by (rule evolves_same) (auto simp: chord_report_def Let_def split: if_splits option.splits)

definition added_job ::
  "string \<Rightarrow> time \<Rightarrow> time \<Rightarrow> bytes \<Rightarrow> int \<Rightarrow> int \<Rightarrow> time \<Rightarrow> string option
   \<Rightarrow> pyval \<Rightarrow> pyval \<Rightarrow> int \<Rightarrow> job" where
  "added_job uuid t1 t2 dat maxa prio delay w cid tp n =
     \<lparr>j_id = uuid, j_data = dat, j_state = READY, attempts = 0, max_attempts = maxa,
      enqueued_at = t2, lease_until = 0, not_before = (if delay > 0 then t1 + delay else 0),
      priority = prio, j_seq = n, last_error = None, j_result = None,
      completed_at = 0, j_wf = w, correlation_id = cid, traceparent = tp\<rparr>"

lemma add_jobs:
  assumes "add uuid t1 t2 t3 dat maxa prio delay w cid tp s = (i, s')"
  shows "i = uuid" "map_of (jobs s') =
      (map_of (jobs s))(uuid \<mapsto> added_job uuid t1 t2 dat maxa prio delay w cid tp (seq s + 1))"
    "seq s' = seq s + 1"
    "set (ready s') \<subseteq> insert (entry (added_job uuid t1 t2 dat maxa prio delay w cid tp (seq s + 1)))
      (set (ready s))"
  using assms by (auto simp: add_def Let_def added_job_def offer_ready_def split: if_splits)

lemma add_ready_inv:
  assumes R: "ready_inv U s" and "uuid \<notin> U"
    and ret: "add uuid t1 t2 t3 dat maxa prio delay w cid tp s = (i, s')"
  shows "ready_inv (insert uuid U) s'"
proof -
  let ?r = "added_job uuid t1 t2 dat maxa prio delay w cid tp (seq s + 1)"
  note A = add_jobs [OF ret]
  have "dkeys (jobs s') = insert uuid (dkeys (jobs s))"
    using A(2) by (auto simp: dkeys_map_of set_eq_iff)
  moreover have "snd (snd (entry ?r)) = uuid" by (simp add: entry_def added_job_def)
  ultimately show ?thesis using R A(2,4) \<open>uuid \<notin> U\<close> by (auto simp: ready_inv_def)
qed

section \<open>Runs of the queue\<close>

text \<open>
  A system state is the latest clock reading, the job ids handed out so far and the store. A
  step is one call, with the event a client can observe. \<open>uuid4\<close> never repeats an id; each
  call's readings of the clock are not earlier than those before it.
\<close>

datatype event =
    Enqueued string
  | Delivered string int
  | Acked string "int option"
  | Nacked string "int option" disposition
  | Silent

type_synonym system = "time \<times> string set \<times> store"

inductive queue_step :: "system \<Rightarrow> event \<Rightarrow> system \<Rightarrow> bool" where
  enqueue: "\<lbrakk>T \<le> t1; t1 \<le> t2; t2 \<le> t3; uuid \<notin> U;
      add uuid t1 t2 t3 dat maxa prio delay w cid tp s = (i, s')\<rbrakk>
    \<Longrightarrow> queue_step (T, U, s) (Enqueued i) (t3, insert uuid U, s')"
| deliver: "\<lbrakk>T \<le> now; claim lease_s now s = (Inr (Some r), s')\<rbrakk>
    \<Longrightarrow> queue_step (T, U, s) (Delivered (j_id r) (attempts r)) (now, U, s')"
| idle: "\<lbrakk>T \<le> now; claim lease_s now s = (Inr None, s')\<rbrakk> \<Longrightarrow> queue_step (T, U, s) Silent (now, U, s')"
| acked: "\<lbrakk>T \<le> t; ack t i res att s = (True, s')\<rbrakk> \<Longrightarrow> queue_step (T, U, s) (Acked i att) (t, U, s')"
| ack_refused: "\<lbrakk>T \<le> t; ack t i res att s = (False, s')\<rbrakk> \<Longrightarrow> queue_step (T, U, s) Silent (t, U, s')"
| nacked: "\<lbrakk>T \<le> t; t \<le> t'; nack t t' i err delay att s = (Some d, s')\<rbrakk>
    \<Longrightarrow> queue_step (T, U, s) (Nacked i att d) (t', U, s')"
| nack_refused: "\<lbrakk>T \<le> t; t \<le> t'; nack t t' i err delay att s = (None, s')\<rbrakk>
    \<Longrightarrow> queue_step (T, U, s) Silent (t', U, s')"
| swept: "\<lbrakk>T \<le> now; sweep now s = (n, s')\<rbrakk> \<Longrightarrow> queue_step (T, U, s) Silent (now, U, s')"
| chord_reported: "\<lbrakk>T \<le> t; chord_report t c ix sz res s = (out, s')\<rbrakk>
    \<Longrightarrow> queue_step (T, U, s) Silent (t, U, s')"

inductive_cases queue_stepE: "queue_step S e S'"
inductive_cases DeliveredE: "queue_step S (Delivered i a) S'"
inductive_cases AckedE: "queue_step S (Acked i att) S'"
inductive_cases NackedE: "queue_step S (Nacked i att d) S'"
inductive_cases EnqueuedE: "queue_step S (Enqueued i) S'"

fun sys_inv :: "system \<Rightarrow> bool" where
  "sys_inv (T, U, s) = (store_inv T s \<and> ready_inv U s)"

lemma step_evolves:
  assumes "queue_step (T, U, s) e (T', U', s')" "sys_inv (T, U, s)"
  shows "(\<exists>i. e = Enqueued i) \<or> (evolves s s' \<and> U' = U)"
  using assms
  by (cases rule: queue_step.cases)
    (auto intro: claim_evolves ack_evolves nack_evolves sweep_evolves chord_report_evolves)

lemma step_inv:
  assumes step: "queue_step S e S'" and inv: "sys_inv S" shows "sys_inv S'"
  using step
proof cases
  case (enqueue T t1 t2 t3 uuid U dat maxa prio delay w cid tp s i s')
  have "store_inv T s" and R: "ready_inv U s" using inv enqueue(1) by simp_all
  moreover have "uuid \<notin> dkeys (jobs s)" using R enqueue(7) by (auto simp: ready_inv_def)
  ultimately have "store_inv t3 s'"
    using add_inv [OF _ _ enqueue(4) order_trans [OF enqueue(5,6)] enqueue(8)] by blast
  then show ?thesis using add_ready_inv [OF R enqueue(7,8)] by (simp add: enqueue(3))
next
  case deliver
  then show ?thesis using inv by (auto intro: claim_inv ready_inv_evolves dest: claim_evolves)
next
  case idle
  then show ?thesis using inv by (auto intro: claim_inv ready_inv_evolves dest: claim_evolves)
next
  case acked
  then show ?thesis using inv by (auto intro: ack_inv ready_inv_evolves dest: ack_evolves)
next
  case ack_refused
  then show ?thesis using inv by (auto intro: ack_inv ready_inv_evolves dest: ack_evolves)
next
  case nacked
  then show ?thesis using inv by (auto intro: nack_inv ready_inv_evolves dest: nack_evolves)
next
  case nack_refused
  then show ?thesis using inv by (auto intro: nack_inv ready_inv_evolves dest: nack_evolves)
next
  case swept
  then show ?thesis using inv by (auto intro: sweep_inv ready_inv_evolves dest: sweep_evolves)
next
  case chord_reported
  then show ?thesis using inv
    by (auto intro: chord_report_inv store_inv_later ready_inv_evolves dest: chord_report_evolves)
qed

end
