(* ===== verification/Runs.thy ===== *)
theory Runs
  imports Main
begin

text \<open>
  Runs of a labelled step relation, and what of the past stays true along them: a locale for any
  invariant and any reading of past events that the steps keep.
\<close>

inductive run :: "('s \<Rightarrow> 'e \<Rightarrow> 's \<Rightarrow> bool) \<Rightarrow> 's \<Rightarrow> 'e list \<Rightarrow> 's \<Rightarrow> bool"
  for step where
  run_nil: "run step s [] s"
| run_step: "run step s tr s' \<Longrightarrow> step s' e s'' \<Longrightarrow> run step s (tr @ [e]) s''"

lemma run_invariant:
  assumes "run step s tr s'" "P s" "\<And>s e s'. step s e s' \<Longrightarrow> P s \<Longrightarrow> P s'"
  shows "P s'"
  using assms by induction auto

lemma run_snoc: "run step s tr s' \<Longrightarrow> step s' e s'' \<Longrightarrow> tr' = tr @ [e] \<Longrightarrow> run step s tr' s''"
  by (simp add: run_step)

lemma run_append: "run step s' tr' s'' \<Longrightarrow> run step s tr s' \<Longrightarrow> run step s (tr @ tr') s''"
proof (induction arbitrary: tr rule: run.induct)
  case (run_nil s0)
  then show ?case by simp
next
  case (run_step s0 tr0 s1 e s2)
  show ?case by (rule run_snoc [OF run_step.IH [OF run_step.prems] run_step.hyps(2)]) simp
qed

locale history =
  fixes step :: "'s \<Rightarrow> 'e \<Rightarrow> 's \<Rightarrow> bool"
    and inv :: "'s \<Rightarrow> bool"
    and past :: "'e \<Rightarrow> 's \<Rightarrow> bool"
  assumes inv_kept: "step s e s' \<Longrightarrow> inv s \<Longrightarrow> inv s'"
    and past_now: "step s e s' \<Longrightarrow> inv s \<Longrightarrow> past e s'"
    and past_kept: "past e0 s \<Longrightarrow> step s e s' \<Longrightarrow> inv s \<Longrightarrow> past e0 s'"
begin

lemma run_inv: "run step s0 tr s \<Longrightarrow> inv s0 \<Longrightarrow> inv s"
  by (erule run_invariant) (auto intro: inv_kept)

lemma run_past: "run step s0 tr s \<Longrightarrow> inv s0 \<Longrightarrow> e \<in> set tr \<Longrightarrow> past e s"
  by (induction rule: run.induct) (auto intro: past_now past_kept run_inv)

text \<open>A relation between the events of a run that the past facts imply.\<close>

lemma run_pairs:
  assumes run: "run step s0 tr s" and inv: "inv s0"
    and R: "\<And>e e' s s'. past e s \<Longrightarrow> step s e' s' \<Longrightarrow> inv s \<Longrightarrow> R e e'"
  shows "sorted_wrt R tr"
  using run inv
  by (induction rule: run.induct)
    (auto simp: sorted_wrt_append intro: R run_inv dest: run_past)

end

end
