(* ===== verification/Leasing.thy ===== *)
theory Leasing
  imports QueueRuns Runs
begin

text \<open>
  The contract between the queue and its workers, as a locale over any labelled steps with a
  view of each job (its phase and attempt number), and its interpretation on the steps of the
  queue store. What the locale derives holds of every run: attempt numbers are never handed out
  twice, each is settled at most once, and a finished job is never delivered again.
\<close>

section \<open>The contract\<close>

datatype phase = Waiting | Held | Over

text \<open>The event settles attempt \<open>a\<close> of job \<open>i\<close>; it ends job \<open>i\<close> for good.\<close>

fun settles :: "event \<Rightarrow> string \<Rightarrow> int \<Rightarrow> bool" where
  "settles (Acked j att) i a = (j = i \<and> att = Some a)"
| "settles (Nacked j att d) i a = (j = i \<and> att = Some a)"
| "settles _ i a = False"

fun ends :: "event \<Rightarrow> string \<Rightarrow> bool" where
  "ends (Acked j att) i = (j = i)"
| "ends (Nacked j att d) i = (j = i \<and> d = Dead_lettered)"
| "ends _ i = False"

locale lease_protocol =
  fixes step :: "'s \<Rightarrow> event \<Rightarrow> 's \<Rightarrow> bool"
    and inv :: "'s \<Rightarrow> bool"
    and known :: "'s \<Rightarrow> string set"
    and view :: "'s \<Rightarrow> string \<Rightarrow> (phase \<times> int) option"
  assumes inv_step: "step s e s' \<Longrightarrow> inv s \<Longrightarrow> inv s'"
    and known_step: "step s e s' \<Longrightarrow> inv s \<Longrightarrow> known s \<subseteq> known s'"
    and view_known: "inv s \<Longrightarrow> view s i = Some pn \<Longrightarrow> i \<in> known s"
    and view_step: "step s e s' \<Longrightarrow> inv s \<Longrightarrow> i \<in> known s \<Longrightarrow> view s' i = Some (p', n') \<Longrightarrow>
      \<exists>p n. view s i = Some (p, n) \<and> n \<le> n' \<and> (p = Over \<longrightarrow> p' = Over)
        \<and> (n' = n \<and> p \<noteq> Held \<longrightarrow> p' \<noteq> Held)"
    and deliver_step: "step s (Delivered i a) s' \<Longrightarrow> inv s \<Longrightarrow>
      \<exists>p n. view s i = Some (p, n) \<and> p \<noteq> Over \<and> n < a \<and> view s' i = Some (Held, a)"
    and settle_step: "step s e s' \<Longrightarrow> inv s \<Longrightarrow> settles e i a \<Longrightarrow>
      view s i = Some (Held, a) \<and> (\<forall>p n. view s' i = Some (p, n) \<longrightarrow> p \<noteq> Held \<and> n = a)"
    and end_step: "step s e s' \<Longrightarrow> inv s \<Longrightarrow> ends e i \<Longrightarrow>
      i \<in> known s \<and> (\<forall>p n. view s' i = Some (p, n) \<longrightarrow> p = Over)"
begin

text \<open>What an event in the past still says of the current state.\<close>

definition past :: "event \<Rightarrow> 's \<Rightarrow> bool" where
  "past e s \<longleftrightarrow>
     (\<forall>i a. e = Delivered i a \<longrightarrow> i \<in> known s \<and> (\<forall>p n. view s i = Some (p, n) \<longrightarrow> a \<le> n))
     \<and> (\<forall>i a. settles e i a \<longrightarrow> i \<in> known s
          \<and> (\<forall>p n. view s i = Some (p, n) \<longrightarrow> a < n \<or> a \<le> n \<and> p \<noteq> Held))
     \<and> (\<forall>i. ends e i \<longrightarrow> i \<in> known s \<and> (\<forall>p n. view s i = Some (p, n) \<longrightarrow> p = Over))"

lemma lease_past_now:
  assumes "step s e s'" "inv s" shows "past e s'"
  unfolding past_def
proof (intro conjI allI impI)
  have known: "i \<in> known s'" if "view s i = Some pn" for i pn
    using known_step [OF assms] view_known [OF assms(2) that] by blast
  fix i a assume "e = Delivered i a"
  then obtain p n where "view s i = Some (p, n)" "view s' i = Some (Held, a)"
    using deliver_step assms by blast
  then show "i \<in> known s'" "\<And>p n. view s' i = Some (p, n) \<Longrightarrow> a \<le> n" using known by auto
next
  fix i a assume s: "settles e i a"
  then show "i \<in> known s'" using settle_step [OF assms s] known_step [OF assms] view_known [OF assms(2)]
    by blast
  show "a < n \<or> a \<le> n \<and> p \<noteq> Held" if "view s' i = Some (p, n)" for p n
    using settle_step [OF assms s] that by simp
next
  fix i assume s: "ends e i"
  then show "i \<in> known s'" using end_step [OF assms s] known_step [OF assms] by blast
  show "p = Over" if "view s' i = Some (p, n)" for p n using end_step [OF assms s] that by blast
qed

lemma lease_past_step:
  assumes "past e0 s" "step s e s'" "inv s" shows "past e0 s'"
  unfolding past_def
proof (intro conjI allI impI)
  note known = known_step [OF assms(2,3)]
  note view = view_step [OF assms(2,3)]
  {
    fix i a assume "e0 = Delivered i a"
    then have P: "i \<in> known s" "\<And>p n. view s i = Some (p, n) \<Longrightarrow> a \<le> n"
      using assms(1) by (auto simp: past_def)
    then show "i \<in> known s'" using known by blast
    show "a \<le> n" if "view s' i = Some (p, n)" for p n
      using view [OF P(1) that] P(2) by force
  next
    fix i a assume "settles e0 i a"
    then have P: "i \<in> known s" "\<And>p n. view s i = Some (p, n) \<Longrightarrow> a < n \<or> a \<le> n \<and> p \<noteq> Held"
      using assms(1) by (auto simp: past_def)
    then show "i \<in> known s'" using known by blast
    show "a < n \<or> a \<le> n \<and> p \<noteq> Held" if "view s' i = Some (p, n)" for p n
      using view [OF P(1) that] P(2) by force
  next
    fix i assume "ends e0 i"
    then have P: "i \<in> known s" "\<And>p n. view s i = Some (p, n) \<Longrightarrow> p = Over"
      using assms(1) by (auto simp: past_def)
    then show "i \<in> known s'" using known by blast
    show "p = Over" if "view s' i = Some (p, n)" for p n
      using view [OF P(1) that] P(2) by force
  }
qed

end

sublocale lease_protocol \<subseteq> history step inv past
  by unfold_locales (auto intro: inv_step lease_past_now lease_past_step)

context lease_protocol
begin

lemma attempts_increase:
  assumes "run step s0 tr s" "inv s0"
  shows "sorted_wrt (\<lambda>e e'. \<forall>i a b. e = Delivered i a \<longrightarrow> e' = Delivered i b \<longrightarrow> a < b) tr"
proof (rule run_pairs [OF assms], intro allI impI)
  fix e e' s s' i a b
  assume P: "past e s" "step s e' s'" "inv s" "e = Delivered i a" "e' = Delivered i b"
  then obtain p n where "view s i = Some (p, n)" "n < b" using deliver_step by blast
  then show "a < b" using P(1,4) by (force simp: past_def)
qed

lemma settled_once:
  assumes "run step s0 tr s" "inv s0"
  shows "sorted_wrt (\<lambda>e e'. \<forall>i a. settles e i a \<longrightarrow> \<not> settles e' i a) tr"
proof (rule run_pairs [OF assms], intro allI impI notI)
  fix e e' s s' i a
  assume P: "past e s" "step s e' s'" "inv s" "settles e i a" "settles e' i a"
  then have "view s i = Some (Held, a)" using settle_step by blast
  then show False using P(1,4) by (force simp: past_def)
qed

lemma ended_for_good:
  assumes "run step s0 tr s" "inv s0"
  shows "sorted_wrt (\<lambda>e e'. \<forall>i b. ends e i \<longrightarrow> e' \<noteq> Delivered i b) tr"
proof (rule run_pairs [OF assms], intro allI impI notI)
  fix e e' s s' i b
  assume P: "past e s" "step s e' s'" "inv s" "ends e i" "e' = Delivered i b"
  then obtain p n where "view s i = Some (p, n)" "p \<noteq> Over" using deliver_step by blast
  then show False using P(1,4) by (force simp: past_def)
qed

end

section \<open>The queue keeps the contract\<close>

fun phase_of :: "job_state \<Rightarrow> phase" where
  "phase_of READY = Waiting"
| "phase_of LEASED = Held"
| "phase_of DEAD = Over"
| "phase_of DONE = Over"

fun job_view :: "system \<Rightarrow> string \<Rightarrow> (phase \<times> int) option" where
  "job_view (T, U, s) i = map_option (\<lambda>r. (phase_of (j_state r), attempts r)) (map_of (jobs s) i)"

fun ids_used :: "system \<Rightarrow> string set" where
  "ids_used (T, U, s) = U"

lemma phase_of_iff [simp]:
  "phase_of st = Held \<longleftrightarrow> st = LEASED" "phase_of st = Waiting \<longleftrightarrow> st = READY"
  "phase_of st = Over \<longleftrightarrow> st = DEAD \<or> st = DONE"
  by (cases st; simp)+

lemma job_evolves_view: "job_evolves r r' \<Longrightarrow>
    attempts r \<le> attempts r' \<and> (phase_of (j_state r) = Over \<longrightarrow> phase_of (j_state r') = Over)
    \<and> (attempts r' = attempts r \<and> phase_of (j_state r) \<noteq> Held \<longrightarrow> phase_of (j_state r') \<noteq> Held)"
  by (auto simp: job_evolves_def)

lemma queue_view_step:
  assumes step: "queue_step S e S'" and inv: "sys_inv S" and i: "i \<in> ids_used S"
    and view: "job_view S' i = Some (p', n')"
  shows "\<exists>p n. job_view S i = Some (p, n) \<and> n \<le> n' \<and> (p = Over \<longrightarrow> p' = Over)
        \<and> (n' = n \<and> p \<noteq> Held \<longrightarrow> p' \<noteq> Held)"
proof -
  obtain T U s T' U' s' where S: "S = (T, U, s)" "S' = (T', U', s')" by (metis prod_cases3)
  obtain r' where r': "map_of (jobs s') i = Some r'" "p' = phase_of (j_state r')" "n' = attempts r'"
    using view by (auto simp: S)
  have "\<exists>r. map_of (jobs s) i = Some r \<and> job_evolves r r'"
  proof (cases "\<exists>j. e = Enqueued j")
    case True
    then obtain j where j: "e = Enqueued j" by blast
    have "map_of (jobs s') i = map_of (jobs s) i"
      using step i unfolding S j
      by (auto elim!: EnqueuedE dest: add_jobs(2))
    then show ?thesis using r'(1) by (intro exI [of _ r']) simp
  next
    case False
    then show ?thesis using step_evolves step inv r'(1) evolvesD unfolding S by metis
  qed
  then show ?thesis using job_evolves_view r' by (fastforce simp: S)
qed

lemma queue_deliver_step:
  assumes step: "queue_step S (Delivered i a) S'" and inv: "sys_inv S"
  shows "\<exists>p n. job_view S i = Some (p, n) \<and> p \<noteq> Over \<and> n < a \<and> job_view S' i = Some (Held, a)"
proof -
  obtain T now lease_s s r' s' U where D: "S = (T, U, s)" "S' = (now, U, s')" "i = j_id r'"
      "a = attempts r'" "T \<le> now" "claim lease_s now s = (Inr (Some r'), s')"
    using step by (auto elim: DeliveredE)
  have I: "store_inv T s" "ready_inv U s" using inv D(1) by simp_all
  obtain r where r: "map_of (jobs (claim_prep now s)) (j_id r') = Some r" "due_ready now r"
      "r' = leased_job lease_s now r" "map_of (jobs s') = (map_of (jobs (claim_prep now s)))(j_id r' \<mapsto> r')"
    using claim_Some [OF I D(5,6)] by metis
  obtain q where q: "map_of (jobs s) (j_id r') = Some q"
      "r = (if lapsed now q then reclaimed now q else q)"
    using r(1) claim_prep_jobs [OF I(1) D(5), of "j_id r'"] by auto
  have "j_state q = READY \<or> j_state q = LEASED" "attempts r = attempts q"
    using r(2) q(2) by (auto simp: due_ready_def lapsed_def split: if_splits)
  moreover have "j_state r' = LEASED" "attempts r' = attempts r + 1"
    using r(3) by (simp_all add: leased_job_def)
  ultimately show ?thesis using q(1) r(4) D by auto
qed

lemma queue_settle_step:
  assumes step: "queue_step S e S'" and inv: "sys_inv S" and e: "settles e i a"
  shows "job_view S i = Some (Held, a) \<and>
    (\<forall>p n. job_view S' i = Some (p, n) \<longrightarrow> p \<noteq> Held \<and> n = a)"
  using step e
  by cases
    (auto simp: ack_def nack_def holds_lease_def Let_def split: option.splits if_splits)

lemma queue_end_step:
  assumes step: "queue_step S e S'" and inv: "sys_inv S" and e: "ends e i"
  shows "i \<in> ids_used S \<and> (\<forall>p n. job_view S' i = Some (p, n) \<longrightarrow> p = Over)"
proof -
  obtain T U s where S: "S = (T, U, s)" by (metis prod_cases3)
  have sub: "map_of (jobs s) i = Some r \<Longrightarrow> i \<in> U" for r
    using inv by (auto simp: S ready_inv_def dest: map_of_keysD)
  show ?thesis using step e sub unfolding S
    by cases (auto simp: ack_def nack_def Let_def split: option.splits if_splits)
qed

lemma queue_known_step: "queue_step S e S' \<Longrightarrow> ids_used S \<subseteq> ids_used S'"
  by (cases rule: queue_step.cases) auto

interpretation lease: lease_protocol queue_step sys_inv ids_used job_view
proof (unfold_locales, goal_cases)
  case (1 s e s') then show ?case by (rule step_inv)
next
  case 2 then show ?case by (intro queue_known_step)
next
  case (3 s i pn)
  then show ?case by (cases s) (auto simp: ready_inv_def dest: map_of_keysD)
next
  case 4 then show ?case by (rule queue_view_step)
next
  case 5 then show ?case by (rule queue_deliver_step)
next
  case 6 then show ?case by (rule queue_settle_step)
next
  case 7 then show ?case by (rule queue_end_step)
qed

end
