(* ===== verification/QueueDurable.thy ===== *)
theory QueueDurable
  imports QueueRuns
begin

text \<open>
  Write-through persistence of the queue: while the plugin answers, every operation leaves in it
  exactly the jobs and the index of the store, and \<open>load\<close> into a fresh store recovers the jobs
  and the invariant from them.
\<close>

section \<open>The plugin mirrors the store\<close>

definition stored :: "string \<Rightarrow> store \<Rightarrow> pyval" where
  "stored k s = (case q_storage s of None \<Rightarrow> PNone | Some b \<Rightarrow> get k (plugin b))"

definition online :: "store \<Rightarrow> bool" where
  "online s = (case q_storage s of None \<Rightarrow> False | Some b \<Rightarrow> reachable b)"

text \<open>The jobs outside \<open>X\<close> are stored as they are in memory.\<close>

definition mirror_jobs :: "string set \<Rightarrow> store \<Rightarrow> bool" where
  "mirror_jobs X s \<longleftrightarrow> online s \<and>
     (\<forall>k r. k \<notin> X \<longrightarrow> map_of (jobs s) k = Some r \<longrightarrow> stored (job_key s k) s = to_dict r)"

definition mirror_index :: "store \<Rightarrow> bool" where
  "mirror_index s \<longleftrightarrow> ids s = [] \<and> stored (index_key s) s = PNone
     \<or> stored (index_key s) s = PList (map PStr (ids s))"

definition mirrored :: "store \<Rightarrow> bool" where
  "mirrored s \<longleftrightarrow> mirror_jobs {} s \<and> mirror_index s"

lemma job_key_simps [simp]:
  "job_key s i = job_key s j \<longleftrightarrow> i = j" "job_key s i \<noteq> index_key s" "index_key s \<noteq> job_key s i"
  by (simp_all add: job_key_def index_key_def)

lemma keys_cong [simp]:
  "job_key (write_job r s) = job_key s" "index_key (write_job r s) = index_key s"
  "job_key (write_index s) = job_key s" "index_key (write_index s) = index_key s"
  "job_key (forget i s) = job_key s" "index_key (forget i s) = index_key s"
  "job_key (offer_ready t r s) = job_key s" "index_key (offer_ready t r s) = index_key s"
  by (simp_all add: job_key_def index_key_def fun_eq_iff)

lemma online_simps [simp]:
  "online (storage_put k v s) = online s" "online (storage_delete k s) = online s"
  "online (write_job r s) = online s" "online (write_index s) = online s"
  "online (forget i s) = online s" "online (offer_ready t r s) = online s"
  by (auto simp: online_def storage_put_def storage_delete_def write_job_def write_index_def
      forget_def Let_def offer_ready_def split: option.split)

lemma stored_put: "online s \<Longrightarrow> stored k (storage_put k' v s) = (if k = k' then v else stored k s)"
  by (auto simp: stored_def online_def storage_put_def kv.get_put split: option.split)

lemma stored_delete:
  "online s \<Longrightarrow> stored k (storage_delete k' s) = (if k = k' then PNone else stored k s)"
  by (auto simp: stored_def online_def storage_delete_def kv.get_delete split: option.split)

lemma stored_write [simp]:
  "online s \<Longrightarrow> stored k (write_job r s) = (if k = job_key s (j_id r) then to_dict r else stored k s)"
  "online s \<Longrightarrow> stored k (write_index s) =
     (if k = index_key s then PList (map PStr (ids s)) else stored k s)"
  by (simp_all add: write_job_def write_index_def stored_put)

lemma stored_forget:
  "online s \<Longrightarrow> stored k (forget i s) =
     (if k = index_key s then PList (map PStr (removeAll i (ids s)))
      else if k = job_key s i then PNone else stored k s)"
  by (auto simp: forget_def Let_def stored_def online_def storage_delete_def write_index_def
      storage_put_def kv.get_put kv.get_delete job_key_def index_key_def split: option.splits)

text \<open>A change of memory only: the keys it touches are no longer mirrored.\<close>

lemma mirror_jobs_memory:
  assumes "mirror_jobs X s" "q_storage s' = q_storage s" "q_name s' = q_name s"
    and "\<And>k. k \<notin> X' \<Longrightarrow> map_of (jobs s') k = map_of (jobs s) k" "X \<subseteq> X'"
  shows "mirror_jobs X' s'"
  using assms by (auto simp: mirror_jobs_def stored_def online_def job_key_def)

lemma mirror_jobs_write:
  assumes "mirror_jobs X s" "map_of (jobs s) (j_id r) = Some r" "X \<subseteq> insert (j_id r) Y"
  shows "mirror_jobs Y (write_job r s)"
  using assms by (auto simp: mirror_jobs_def)

lemma mirror_jobs_writes:
  "mirror_jobs X s \<Longrightarrow> (\<And>r. r \<in> set ch \<Longrightarrow> map_of (jobs s) (j_id r) = Some r) \<Longrightarrow>
   X \<subseteq> j_id ` set ch \<union> Y \<Longrightarrow> mirror_jobs Y (fold write_job ch s)"
proof (induction ch arbitrary: s X)
  case Nil
  then show ?case by (auto simp: mirror_jobs_def)
next
  case (Cons r ch)
  have "mirror_jobs (X - {j_id r}) (write_job r s)"
    using Cons.prems by (intro mirror_jobs_write [of X]) auto
  then show ?case using Cons.IH [of "X - {j_id r}" "write_job r s"] Cons.prems(2,3) by auto
qed

lemma mirror_jobs_index [simp]: "mirror_jobs X s \<Longrightarrow> mirror_jobs X (write_index s)"
  by (auto simp: mirror_jobs_def)

lemma mirror_index_write [simp]:
  "online s \<Longrightarrow> mirror_index (write_index s)"
  "online s \<Longrightarrow> mirror_index (write_job r s) = mirror_index s"
  by (auto simp: mirror_index_def)

lemma mirror_index_writes [simp]:
  "online s \<Longrightarrow> mirror_index (fold write_job ch s) = mirror_index s \<and> online (fold write_job ch s)"
  by (induction ch arbitrary: s) simp_all

lemma mirror_index_cong:
  "q_storage s' = q_storage s \<Longrightarrow> q_name s' = q_name s \<Longrightarrow> ids s' = ids s \<Longrightarrow>
   mirror_index s' = mirror_index s"
  by (simp add: mirror_index_def stored_def index_key_def)

lemma mirror_online: "mirror_jobs X s \<Longrightarrow> online s"
  by (simp add: mirror_jobs_def)

lemma mirrored_forget: "mirrored s \<Longrightarrow> mirrored (forget i s)"
  by (auto simp: mirrored_def mirror_jobs_def mirror_index_def stored_forget split: if_splits)

lemma mirrored_forgets: "mirrored s \<Longrightarrow> mirrored (fold forget js s)"
  by (induction js arbitrary: s) (auto intro: mirrored_forget)

lemma mirrored_memory:
  assumes "mirrored s" "q_storage s' = q_storage s" "q_name s' = q_name s" "ids s' = ids s"
    and "jobs s' = jobs s"
  shows "mirrored s'"
  using assms mirror_jobs_memory [of "{}" s s' "{}"] mirror_index_cong [of s' s]
  by (simp add: mirrored_def)

text \<open>A job rewritten in memory and then persisted.\<close>

lemma mirrored_rewrite:
  assumes "mirrored s" "q_storage s' = q_storage s" "q_name s' = q_name s" "ids s' = ids s"
    and "map_of (jobs s') = (map_of (jobs s))(j_id r \<mapsto> r)"
  shows "mirrored (write_job r s')"
proof -
  have "mirror_jobs {j_id r} s'"
    by (rule mirror_jobs_memory [of "{}" s]) (use assms in \<open>simp_all add: mirrored_def\<close>)
  moreover from this have "mirror_jobs {} (write_job r s')"
    by (rule mirror_jobs_write) (use assms(5) in simp_all)
  moreover have "mirror_index s'" using assms mirror_index_cong [of s' s] by (simp add: mirrored_def)
  ultimately show ?thesis by (simp add: mirrored_def mirror_online)
qed

lemma add_mirrored:
  assumes "mirrored s" "add uuid t1 t2 t3 dat maxa prio delay w cid tp s = (i, s')"
  shows "mirrored s'"
proof -
  let ?r = "added_job uuid t1 t2 dat maxa prio delay w cid tp (seq s + 1)"
  let ?s = "offer_ready t3 ?r (s\<lparr>seq := seq s + 1, jobs := AList.update uuid ?r (jobs s),
    ids := set_add uuid (ids s)\<rparr>)"
  have s': "s' = write_index (write_job ?r ?s)"
    using assms(2) by (auto simp: add_def Let_def added_job_def)
  have "q_storage ?s = q_storage s" by (simp add: offer_ready_def)
  then have "mirror_jobs {j_id ?r} ?s"
    by (rule mirror_jobs_memory [of "{}" s, rotated])
      (use assms(1) in \<open>simp_all add: mirrored_def added_job_def\<close>)
  moreover from this have "mirror_jobs {} (write_job ?r ?s)"
    by (rule mirror_jobs_write) (simp_all add: added_job_def)
  moreover from this have "online (write_job ?r ?s)" by (rule mirror_online)
  ultimately show ?thesis by (simp add: s' mirrored_def)
qed

lemma reclaim_mirrored:
  assumes "mirrored s" and inv: "store_inv T s" and rec: "reclaim_leases now s = (ch, s1)"
  shows "mirrored (fold write_job ch s1)"
proof -
  note F = reclaim_leases_frame [OF rec]
  note ids = job_invD(1) [OF store_invD(7) [OF inv]]
  have "mirror_jobs (j_id ` set ch) s1"
  proof (rule mirror_jobs_memory)
    show "mirror_jobs {} s" using assms(1) by (simp add: mirrored_def)
    show "map_of (jobs s1) k = map_of (jobs s) k" if k: "k \<notin> j_id ` set ch" for k
    proof (cases "map_of (jobs s) k")
      case (Some r)
      have "\<not> lapsed now r"
      proof
        assume "lapsed now r"
        then have "reclaimed now r \<in> set ch" using Some reclaim_leases_changed [OF inv rec] by blast
        then show False using k ids [OF Some] by (auto intro: rev_image_eqI)
      qed
      then show ?thesis using Some reclaim_leases_jobs [OF inv rec, of k] by simp
    qed (simp add: reclaim_leases_jobs [OF inv rec])
  qed (use F in auto)
  moreover have "map_of (jobs s1) (j_id r') = Some r'" if r': "r' \<in> set ch" for r'
  proof -
    obtain k r where "map_of (jobs s) k = Some r" "lapsed now r" "r' = reclaimed now r"
      using r' reclaim_leases_changed [OF inv rec] by blast
    then show ?thesis using reclaim_leases_jobs [OF inv rec, of k] ids by simp
  qed
  ultimately have "mirror_jobs {} (fold write_job ch s1)" by (rule mirror_jobs_writes) auto
  moreover have "mirror_index s1"
    using assms(1) mirror_index_cong [of s1 s] F by (simp add: mirrored_def)
  ultimately show ?thesis using mirror_index_writes mirror_online
      \<open>mirror_jobs (j_id ` set ch) s1\<close> by (auto simp: mirrored_def)
qed

lemma claim_prep_mirrored:
  assumes "mirrored s" "store_inv T s" "T \<le> now" shows "mirrored (claim_prep now s)"
proof -
  obtain ch s1 where rec: "reclaim_leases now (mature_delayed now s) = (ch, s1)" by fastforce
  have "mirrored (mature_delayed now s)"
    using assms(1) by (rule mirrored_memory) (simp_all add: mature_delayed_frame)
  from reclaim_mirrored [OF this mature_delayed_inv [OF assms(2,3)] rec]
  show ?thesis by (simp add: claim_prep_def rec)
qed

lemma claim_mirrored:
  assumes "mirrored s" and inv: "store_inv T s" and "T \<le> now"
    and ret: "claim lease_s now s = (out, s')"
  shows "mirrored s'"
proof -
  let ?p = "claim_prep now s"
  note prep = claim_prep_mirrored [OF assms(1) inv \<open>T \<le> now\<close>]
  note D = store_invD [OF claim_prep_inv [OF inv \<open>T \<le> now\<close>]]
  obtain found h where loop: "claim_loop now (jobs ?p) (ready ?p) = (found, h)" by fastforce
  show ?thesis
  proof (cases found)
    case None
    then show ?thesis using ret loop by (auto simp: claim_unfold intro: mirrored_memory [OF prep])
  next
    case (Some ir)
    obtain i r where found: "found = Some (i, r)" using Some by (cases ir) auto
    have "sorted (ready ?p)" using D(3) by (simp add: heaps_sorted_def)
    then have r: "map_of (jobs ?p) i = Some r"
      using claim_loop_Some loop found by blast
    have id: "j_id r = i" using job_invD(1) [OF D(7) [OF r]] .
    have s': "s' = write_job (leased_job lease_s now r) (claimed_store lease_s now i r h ?p)"
      using ret loop found by (simp add: claim_unfold)
    show ?thesis unfolding s' using prep
      by (rule mirrored_rewrite) (simp_all add: claimed_store_def Let_def leased_job_def id)
  qed
qed

lemma ack_mirrored:
  assumes "mirrored s" and inv: "store_inv T s" and ret: "ack t i res att s = (ok, s')"
  shows "mirrored s'"
proof (cases "map_of (jobs s) i")
  case None
  then show ?thesis using assms by (simp add: ack_def)
next
  case (Some r)
  have id: "j_id r = i" using job_invD(1) [OF store_invD(7) [OF inv Some]] .
  show ?thesis using assms(1,3) Some
    by (auto simp: ack_def Let_def id mirrored_forget split: if_splits
        intro!: mirrored_rewrite [OF assms(1)])
qed

lemma nack_mirrored:
  assumes "mirrored s" and inv: "store_inv T s" and ret: "nack t t' i err delay att s = (d, s')"
  shows "mirrored s'"
proof (cases "map_of (jobs s) i")
  case None
  then show ?thesis using assms by (simp add: nack_def)
next
  case (Some r)
  have id: "j_id r = i" using job_invD(1) [OF store_invD(7) [OF inv Some]] .
  show ?thesis using assms(1,3) Some
    by (auto simp: nack_def Let_def id offer_ready_def split: if_splits
        intro!: mirrored_rewrite [OF assms(1)])
qed

lemma purge_done_mirrored:
  "mirrored s \<Longrightarrow> mirrored (purge_done now h s)"
proof (induction now h s rule: purge_done.induct)
  case (2 now t i h s)
  let ?s = "case map_of (jobs s) i of None \<Rightarrow> s
    | Some r \<Rightarrow> if j_state r = DONE \<and> completed_at r + result_ttl_s s \<le> now then forget i s else s"
  have "mirrored ?s" using 2(2) mirrored_forget by (auto split: option.split)
  then show ?case using 2 by (auto intro: mirrored_memory)
qed (auto intro: mirrored_memory)

lemma sweep_mirrored:
  assumes "mirrored s" and inv: "store_inv T s" and "T \<le> now" and ret: "sweep now s = (n, s')"
  shows "mirrored s'"
proof -
  obtain ch s1 where rec: "reclaim_leases now s = (ch, s1)" by fastforce
  let ?s3 = "purge_done now (done_heap (fold write_job ch s1)) (fold write_job ch s1)"
  let ?s4 = "case dead_letter_ttl_s ?s3 of None \<Rightarrow> ?s3
    | Some ttl \<Rightarrow> fold forget (expired_dead now ttl (jobs ?s3)) ?s3"
  have "mirrored ?s3" by (rule purge_done_mirrored [OF reclaim_mirrored [OF assms(1) inv rec]])
  then have "mirrored ?s4" by (auto split: option.split intro: mirrored_forgets)
  moreover have "s' = ?s4 \<or> (\<exists>cs. s' = ?s4\<lparr>chords := cs\<rparr>)"
    using ret by (auto simp: sweep_def rec Let_def split: option.splits)
  ultimately show ?thesis by (auto intro: mirrored_memory)
qed

lemma chord_report_mirrored:
  "mirrored s \<Longrightarrow> chord_report t c ix n res s = (out, s') \<Longrightarrow> mirrored s'"
  by (erule mirrored_memory) (auto simp: chord_report_def Let_def split: if_splits option.splits)

section \<open>Recovery\<close>

lemma load_job_frame [simp]:
  "q_name (load_job t r s) = q_name s" "result_ttl_s (load_job t r s) = result_ttl_s s"
  "jobs (load_job t r s) = AList.update (j_id r) r (jobs s)"
  "ids (load_job t r s) = set_add (j_id r) (ids s)"
  "seq (load_job t r s) = max (seq s) (j_seq r)"
  by (simp_all add: load_job_def Let_def split: job_state.split)

lemma load_job_keeps:
  "tracked T s q \<Longrightarrow> T \<le> T' \<Longrightarrow> tracked T' (load_job t r s) q"
  by (auto simp: tracked_def load_job_def offer_ready_def Let_def split: job_state.splits)

lemma load_job_tracks: "t \<le> T \<Longrightarrow> tracked T (load_job t r s) r"
  by (auto simp: tracked_def load_job_def offer_ready_def Let_def split: job_state.splits)

lemma load_job_sorted: "heaps_sorted s \<Longrightarrow> heaps_sorted (load_job t r s)"
  by (auto simp: heaps_sorted_def load_job_def offer_ready_def Let_def split: job_state.splits)

lemma load_job_inv:
  assumes inv: "store_inv T s" and "budget r" "t \<le> T"
    and "\<And>k q. map_of (jobs s) k = Some q \<Longrightarrow> j_seq q \<noteq> j_seq r"
  shows "store_inv T (load_job t r s)"
proof (rule store_inv_updateI [OF inv, where k = "j_id r" and r' = r])
  note D = store_invD [OF inv]
  show "job_inv T (load_job t r s) (j_id r) r"
    using assms(2,3) by (simp add: job_inv_def load_job_tracks)
  show "tracked T (load_job t r s) q \<and> j_seq q \<noteq> j_seq r" if "map_of (jobs s) k = Some q" for k q
    using job_invD(2) [OF D(7) [OF that]] assms(4) [OF that] by (simp add: load_job_keeps)
qed (use store_invD [OF inv] in \<open>simp_all add: load_job_sorted\<close>)

lemma iterated_strs: "iterated (if truthy (PList xs) then PList xs else PList []) = Inr xs"
  by simp

lemma load_loop_recovers:
  assumes src: "store_inv T0 src" and mir: "mirror_jobs {} src" and b: "q_storage src = Some b"
    and clk: "\<And>i. clk i \<le> T"
  shows "set is \<subseteq> dkeys (jobs src) \<Longrightarrow> distinct is \<Longrightarrow> q_name s = q_name src \<Longrightarrow>
     store_inv T s \<Longrightarrow>
     (\<And>k. map_of (jobs s) k = (if k \<in> A then map_of (jobs src) k else None)) \<Longrightarrow> A \<inter> set is = {} \<Longrightarrow>
     store_inv T (load_loop loads clk (plugin b) (map PStr is) s)
     \<and> map_of (jobs (load_loop loads clk (plugin b) (map PStr is) s)) k =
        (if k \<in> A \<union> set is then map_of (jobs src) k else None)"
proof (induction "is" arbitrary: s A)
  case (Cons i "is")
  note D = store_invD [OF src]
  obtain r where r: "map_of (jobs src) i = Some r"
    using Cons.prems(1) by (auto simp: dkeys_map_of)
  note J = job_invD [OF D(7) [OF r]]
  have "job_key s i = job_key src i" using Cons.prems(3) by (simp add: job_key_def)
  then have raw: "get (job_key s i) (plugin b) = to_dict r"
    using mir r b by (auto simp: mirror_jobs_def stored_def)
  have parsed: "res_bind (case to_dict r of PDict d \<Rightarrow> Inr (to_dict r) | _ \<Rightarrow> loads (to_dict r))
      from_dict = Inr r"
    by (simp add: to_dict_def from_to_dict [unfolded to_dict_def])
  let ?s = "load_job (clk (j_id r)) r s"
  have step: "load_loop loads clk (plugin b) (map PStr (i # is)) s =
      load_loop loads clk (plugin b) (map PStr is) ?s"
    using parsed by (simp add: raw) (simp add: to_dict_def)
  have other: "j_seq q \<noteq> j_seq r" if q: "map_of (jobs s) k = Some q" for k q
  proof -
    have "k \<in> A" "map_of (jobs src) k = Some q" using q Cons.prems(5) by (auto split: if_splits)
    then show ?thesis using D(4) r Cons.prems(6) by (auto simp: seq_inj_def)
  qed
  have "store_inv T ?s" by (rule load_job_inv [OF Cons.prems(4) J(3) clk other])
  moreover have "map_of (jobs ?s) k = (if k \<in> insert i A then map_of (jobs src) k else None)" for k
    using Cons.prems(5) r J(1) by auto
  ultimately show ?case
    unfolding step using Cons.IH [of ?s "insert i A"] Cons.prems(1,2,3,6)
    by (simp del: load_job_frame(3))
qed simp

lemma store_inv_empty:
  "jobs s = [] \<Longrightarrow> ids s = [] \<Longrightarrow> ready s = [] \<Longrightarrow> delayed s = [] \<Longrightarrow> leases s = [] \<Longrightarrow>
   done_heap s = [] \<Longrightarrow> 0 \<le> T \<Longrightarrow> store_inv T s"
  by (simp add: store_inv_def heaps_sorted_def seq_inj_def)

lemma load_recovers:
  assumes inv: "store_inv T0 s" and mir: "mirrored s" and clk: "\<And>i. clk i \<le> T" and "0 \<le> T"
    and s': "s' = load loads clk (new_store (q_name s) (q_storage s) keep rttl dttl cttl)"
  shows "store_inv T s' \<and> map_of (jobs s') = map_of (jobs s)"
proof -
  let ?n = "new_store (q_name s) (q_storage s) keep rttl dttl cttl"
  obtain b where b: "q_storage s = Some b" "reachable b"
    using mir by (auto simp: mirrored_def mirror_jobs_def online_def split: option.splits)
  have n: "store_inv T ?n" by (rule store_inv_empty) (simp_all add: new_store_def \<open>0 \<le> T\<close>)
  have key: "index_key ?n = index_key s" by (simp add: index_key_def new_store_def)
  have "iterated (if truthy (get (index_key s) (plugin b)) then get (index_key s) (plugin b)
      else PList []) = Inr (map PStr (ids s))"
    using mir b by (auto simp: mirrored_def mirror_index_def stored_def)
  then have s'': "s' = load_loop loads clk (plugin b) (map PStr (ids s)) ?n"
    using b key unfolding s' load_def by (simp add: new_store_def Let_def)
  note D = store_invD [OF inv]
  have "mirror_jobs {} s" using mir by (simp add: mirrored_def)
  from load_loop_recovers [OF inv this b(1) clk _ D(6) _ n, of "{}" loads]
  have "store_inv T s' \<and> map_of (jobs s') k = (if k \<in> set (ids s) then map_of (jobs s) k else None)" for k
    using D(5) by (simp add: s'' new_store_def)
  moreover have "map_of (jobs s) k = None" if "k \<notin> set (ids s)" for k
    using that D(5) by (simp add: map_of_eq_None_iff)
  ultimately show ?thesis by (auto simp: fun_eq_iff)
qed

end
