(* ===== verification/QueueProps.thy ===== *)
theory QueueProps
  imports Leasing QueueDurable
begin

text \<open>
  The properties of the queue store, over all its runs and per operation, each with a concrete
  witness from a short run of a queue.
\<close>

section \<open>Runs from an empty store\<close>

definition fresh_store :: "store \<Rightarrow> bool" where
  "fresh_store s \<longleftrightarrow> (\<exists>n st keep rttl dttl cttl. s = new_store n st keep rttl dttl cttl)"

lemma fresh_store_inv: "fresh_store s \<Longrightarrow> 0 \<le> T \<Longrightarrow> sys_inv (T, {}, s)"
  by (auto simp: fresh_store_def new_store_def ready_inv_def intro: store_inv_empty)

lemma run_sys_inv:
  "run queue_step (T0, {}, s0) tr S \<Longrightarrow> fresh_store s0 \<Longrightarrow> 0 \<le> T0 \<Longrightarrow> sys_inv S"
  by (rule lease.run_inv) (auto intro: fresh_store_inv)

text \<open>A job a claim may hand out: ready and due, or leased by a lease that has lapsed with budget left.\<close>

definition available :: "time \<Rightarrow> job \<Rightarrow> bool" where
  "available now r \<longleftrightarrow>
     (case j_state r of
        READY \<Rightarrow> not_before r \<le> now
      | LEASED \<Rightarrow> lease_until r \<le> now \<and> attempts r < max_attempts r
      | _ \<Rightarrow> False)"

lemma available_iff: "0 \<le> now \<Longrightarrow>
    available now r \<longleftrightarrow> due_ready now (if lapsed now r then reclaimed now r else r)"
  by (auto simp: available_def due_ready_def lapsed_def reclaimed_def split: job_state.splits)

lemma prep_available:
  assumes "store_inv T s" "T \<le> now"
  shows "(\<exists>q. map_of (jobs (claim_prep now s)) k = Some q \<and> due_ready now q \<and> entry q = e)
    \<longleftrightarrow> (\<exists>q. map_of (jobs s) k = Some q \<and> available now q \<and> entry q = e)"
proof -
  have "0 \<le> now" using store_invD(1) [OF assms(1)] assms(2) by simp
  note av = available_iff [OF this]
  show ?thesis
    by (cases "map_of (jobs s) k") (auto simp: claim_prep_jobs [OF assms] av entry_reclaimed)
qed

lemma claim_first:
  assumes I: "store_inv T s" "ready_inv U s" and "T \<le> now"
    and ret: "claim lease_s now s = (Inr (Some r'), s')"
  shows "\<exists>r. map_of (jobs s) (j_id r') = Some r \<and> available now r
    \<and> j_state r' = LEASED \<and> attempts r' = attempts r + 1 \<and> lease_until r' = now + lease_s
    \<and> same_job r r' \<and> map_of (jobs s') (j_id r') = Some r'
    \<and> (\<forall>k q. map_of (jobs s) k = Some q \<longrightarrow> available now q \<longrightarrow>
         (- priority r', j_seq r') \<le> (- priority q, j_seq q))"
proof -
  have "0 \<le> now" using store_invD(1) [OF I(1)] \<open>T \<le> now\<close> by simp
  note av = available_iff [OF this]
  obtain q where q: "map_of (jobs (claim_prep now s)) (j_id r') = Some q" "due_ready now q"
      "r' = leased_job lease_s now q" "map_of (jobs s') = (map_of (jobs (claim_prep now s)))(j_id r' \<mapsto> r')"
    and least: "\<And>k p. map_of (jobs (claim_prep now s)) k = Some p \<Longrightarrow> due_ready now p \<Longrightarrow>
      entry q \<le> entry p"
    using claim_Some [OF I \<open>T \<le> now\<close> ret] by metis
  obtain r where r: "map_of (jobs s) (j_id r') = Some r"
      "q = (if lapsed now r then reclaimed now r else r)"
    using q(1) claim_prep_jobs [OF I(1) \<open>T \<le> now\<close>, of "j_id r'"] by auto
  have first: "entry q \<le> entry p" if "map_of (jobs s) k = Some p" "available now p" for k p
    using prep_available [OF I(1) \<open>T \<le> now\<close>, of k "entry p"] that least by metis
  have "(- priority r', j_seq r') \<le> (- priority p, j_seq p)"
    if "map_of (jobs s) k = Some p" "available now p" for k p
    using first [OF that] by (auto simp: entry_def q(3) leased_job_def less_eq_prod_def)
  moreover have "same_job r r'"
    by (simp add: q(3) leased_job_def r(2) same_job_def reclaimed_def)
  ultimately show ?thesis
    using r(1) q av [of r] r(2) by (intro exI [of _ r]) (simp add: leased_job_def)
qed

subsection \<open>A short run\<close>

definition demo0 :: store where "demo0 = new_store ''q'' None False 3600 None None"
definition demo1 :: store where "demo1 = snd (add ''a'' 0 0 0 [7] 2 0 0 None PNone PNone demo0)"
definition demo2 :: store where "demo2 = snd (claim 30 1 demo1)"
definition demo3 :: store where "demo3 = snd (ack 2 ''a'' None (Some 1) demo2)"

definition demo_job :: job where
  "demo_job = added_job ''a'' 0 0 [7] 2 0 0 None PNone PNone 1"

lemma queue_snoc: "run queue_step s tr s' \<Longrightarrow> queue_step s' e s'' \<Longrightarrow> tr' = tr @ [e] \<Longrightarrow>
    run queue_step s tr' s''"
  by (simp add: run_step)

lemma demo_fresh [simp]: "fresh_store demo0"
  unfolding fresh_store_def demo0_def by blast

lemma demo_leased [simp]:
  "j_id (leased_job 30 1 demo_job) = ''a''" "attempts (leased_job 30 1 demo_job) = 1"
  by (simp_all add: leased_job_def demo_job_def added_job_def)

lemma demo_claim: "claim 30 1 demo1 = (Inr (Some (leased_job 30 1 demo_job)), demo2)"
proof -
  have "fst (claim 30 1 demo1) = Inr (Some (leased_job 30 1 demo_job))" by code_simp
  then show ?thesis by (simp add: demo2_def prod_eq_iff)
qed

lemma demo_ack: "ack 2 ''a'' None (Some 1) demo2 = (True, demo3)"
proof -
  have "fst (ack 2 ''a'' None (Some 1) demo2)" by code_simp
  then show ?thesis by (simp add: demo3_def prod_eq_iff)
qed

lemma demo_run1: "run queue_step (0, {}, demo0) [Enqueued ''a''] (0, {''a''}, demo1)"
proof -
  have "fst (add ''a'' 0 0 0 [7] 2 0 0 None PNone PNone demo0) = ''a''" by code_simp
  then have "add ''a'' 0 0 0 [7] 2 0 0 None PNone PNone demo0 = (''a'', demo1)"
    by (simp add: demo1_def prod_eq_iff)
  then have "queue_step (0, {}, demo0) (Enqueued ''a'') (0, {''a''}, demo1)"
    using queue_step.enqueue [of 0 0 0 0 "''a''" "{}"] by simp
  then show ?thesis by (rule queue_snoc [OF run_nil]) simp
qed

lemma demo_run2:
  "run queue_step (0, {}, demo0) [Enqueued ''a'', Delivered ''a'' 1] (1, {''a''}, demo2)"
proof -
  have "queue_step (0, {''a''}, demo1) (Delivered ''a'' 1) (1, {''a''}, demo2)"
    using queue_step.deliver [OF _ demo_claim, of 0 "{''a''}"] by simp
  then show ?thesis by (rule queue_snoc [OF demo_run1]) simp
qed

lemma demo_run3:
  "run queue_step (0, {}, demo0) [Enqueued ''a'', Delivered ''a'' 1, Acked ''a'' (Some 1)]
     (2, {''a''}, demo3)"
  by (rule queue_snoc [OF demo_run2 queue_step.acked [OF _ demo_ack]]) simp_all

section \<open>The properties\<close>

text \<open>C1: in every state the queue reaches, by any sequence of operations of any callers, the store
  invariant holds: every job it holds is tracked by the heap its state needs, so no ready job is
  ever out of reach of a claim, no lease out of reach of the sweeper; ids and jobs agree.\<close>

theorem queue_reaches_invariant:
  assumes "run queue_step (T0, {}, s0) tr (T, U, s)" "fresh_store s0" "0 \<le> T0"
  shows "store_inv T s"
  using run_sys_inv [OF assms] by simp

lemma queue_reaches_invariant_witness: "store_inv 2 demo3"
  by (rule queue_reaches_invariant [OF demo_run3]) simp_all



text \<open>A claim comes back empty exactly when no job is available: ready work is never withheld,
  however many stale entries the heaps hold.\<close>

theorem claim_empty_iff:
  assumes "run queue_step (T0, {}, s0) tr (T, U, s)" "fresh_store s0" "0 \<le> T0" "T \<le> now"
  shows "fst (claim lease_s now s) = Inr None \<longleftrightarrow>
    \<not> (\<exists>k r. map_of (jobs s) k = Some r \<and> available now r)"
proof -
  have I: "store_inv T s" "ready_inv U s" using run_sys_inv [OF assms(1-3)] by simp_all
  obtain out s' where ret: "claim lease_s now s = (out, s')" by fastforce
  note prep = prep_available [OF I(1) \<open>T \<le> now\<close>]
  show ?thesis
  proof (cases "out = Inr None")
    case True
    then show ?thesis using ret claim_None [OF I(1) \<open>T \<le> now\<close>] prep by (metis fst_conv)
  next
    case False
    then obtain r' where "out = Inr (Some r')"
      using ret claim_not_error by (metis obj_sumE option.exhaust)
    then show ?thesis using claim_first [OF I \<open>T \<le> now\<close>] ret by fastforce
  qed
qed

lemma claim_empty_iff_witness:
  "fst (claim 30 1 demo1) \<noteq> Inr None \<and> (\<exists>k r. map_of (jobs demo1) k = Some r \<and> available 1 r)"
  using claim_empty_iff [OF demo_run1 demo_fresh, of 1 30] by (simp add: demo_claim)

text \<open>C3: while a lease runs, no claim hands its job to anyone else or touches its record.\<close>

theorem lease_is_exclusive:
  assumes "run queue_step (T0, {}, s0) tr (T, U, s)" "fresh_store s0" "0 \<le> T0" "T \<le> now"
    and "map_of (jobs s) i = Some r" "j_state r = LEASED" "now < lease_until r"
    and ret: "claim lease_s now s = (out, s')"
  shows "map_of (jobs s') i = Some r \<and> (\<forall>r'. out = Inr (Some r') \<longrightarrow> j_id r' \<noteq> i)"
proof -
  have I: "store_inv T s" "ready_inv U s" using run_sys_inv [OF assms(1-3)] by simp_all
  have prep: "map_of (jobs (claim_prep now s)) i = Some r"
    using claim_prep_jobs [OF I(1) \<open>T \<le> now\<close>, of i] assms(5,7) by (simp add: lapsed_def)
  consider "out = Inr None" | r' where "out = Inr (Some r')"
    using ret claim_not_error by (metis obj_sumE option.exhaust)
  then show ?thesis
  proof cases
    case 1
    then show ?thesis using claim_jobs_None ret prep by simp
  next
    case 2
    obtain q where "map_of (jobs (claim_prep now s)) (j_id r') = Some q" "due_ready now q"
        "map_of (jobs s') = (map_of (jobs (claim_prep now s)))(j_id r' \<mapsto> r')"
      using claim_Some [OF I \<open>T \<le> now\<close> ret [unfolded 2]] by metis
    then have "j_id r' \<noteq> i" using prep assms(6) by (auto simp: due_ready_def)
    then show ?thesis using 2 prep
      \<open>map_of (jobs s') = (map_of (jobs (claim_prep now s)))(j_id r' \<mapsto> r')\<close> by simp
  qed
qed

lemma demo2_job: "map_of (jobs demo2) ''a'' = Some (leased_job 30 1 demo_job)"
  by code_simp

lemma lease_is_exclusive_witness:
  "map_of (jobs (snd (claim 30 2 demo2))) ''a'' = Some (leased_job 30 1 demo_job)"
  using lease_is_exclusive [OF demo_run2 demo_fresh _ _ demo2_job, of 2 30 "fst (claim 30 2 demo2)"]
  by (simp add: leased_job_def)

text \<open>In any run, the deliveries of one job carry strictly increasing attempt numbers, so a
  fencing token is never handed out twice.\<close>

theorem attempts_never_reused:
  assumes "run queue_step (T0, {}, s0) tr S" "fresh_store s0" "0 \<le> T0"
    and "j < k" "k < length tr" "tr ! j = Delivered i a" "tr ! k = Delivered i b"
  shows "a < b"
  using lease.attempts_increase [OF assms(1) fresh_store_inv [OF assms(2,3)]] assms(4-)
  by (auto simp: sorted_wrt_iff_nth_less)

definition demo4 :: store where "demo4 = snd (claim 30 40 demo2)"

lemma demo_redelivery: "run queue_step (0, {}, demo0)
    [Enqueued ''a'', Delivered ''a'' 1, Delivered ''a'' 2] (40, {''a''}, demo4)"
proof -
  have "case fst (claim 30 40 demo2) of Inr (Some r) \<Rightarrow> j_id r = ''a'' \<and> attempts r = 2 | _ \<Rightarrow> False"
    by code_simp
  then obtain r where "claim 30 40 demo2 = (Inr (Some r), demo4)" "j_id r = ''a''" "attempts r = 2"
    by (cases "claim 30 40 demo2") (auto simp: demo4_def split: sum.splits option.splits)
  then have "queue_step (1, {''a''}, demo2) (Delivered ''a'' 2) (40, {''a''}, demo4)"
    using queue_step.deliver [of 1 40 30 demo2 r demo4 "{''a''}"] by simp
  then show ?thesis by (rule queue_snoc [OF demo_run2]) simp
qed

lemma attempts_never_reused_witness: "(1::int) < 2"
  using attempts_never_reused [OF demo_redelivery demo_fresh, of 1 2 "''a''" 1 2] by simp

text \<open>C4: in any run, each delivery (a job id with its attempt number) is settled at most once: after
  an ack or nack with that token was accepted, no other with the same token is.\<close>

theorem delivery_settled_once:
  assumes "run queue_step (T0, {}, s0) tr S" "fresh_store s0" "0 \<le> T0"
    and "j < k" "k < length tr" "settles (tr ! j) i a"
  shows "\<not> settles (tr ! k) i a"
  using lease.settled_once [OF assms(1) fresh_store_inv [OF assms(2,3)]] assms(4-)
  by (auto simp: sorted_wrt_iff_nth_less)

definition demo5 :: store where "demo5 = snd (nack 41 41 ''a'' None 0 (Some 2) demo4)"

lemma demo_run5: "run queue_step (0, {}, demo0)
    [Enqueued ''a'', Delivered ''a'' 1, Delivered ''a'' 2, Nacked ''a'' (Some 2) Dead_lettered]
    (41, {''a''}, demo5)"
proof -
  have "fst (nack 41 41 ''a'' None 0 (Some 2) demo4) = Some Dead_lettered" by code_simp
  then have "nack 41 41 ''a'' None 0 (Some 2) demo4 = (Some Dead_lettered, demo5)"
    by (simp add: demo5_def prod_eq_iff)
  from queue_step.nacked [OF _ _ this, of 40 "{''a''}"]
  show ?thesis by (intro queue_snoc [OF demo_redelivery]) simp_all
qed

definition demo6 :: store where "demo6 = snd (claim 30 50 demo5)"

lemma demo_run6: "run queue_step (0, {}, demo0)
    [Enqueued ''a'', Delivered ''a'' 1, Delivered ''a'' 2, Nacked ''a'' (Some 2) Dead_lettered, Silent]
    (50, {''a''}, demo6)"
proof -
  have "fst (claim 30 50 demo5) = Inr None" by code_simp
  then have "claim 30 50 demo5 = (Inr None, demo6)" by (simp add: demo6_def prod_eq_iff)
  from queue_step.idle [OF _ this, of 41 "{''a''}"]
  show ?thesis by (intro queue_snoc [OF demo_run5]) simp_all
qed

lemma delivery_settled_once_witness:
  "settles (Nacked ''a'' (Some 2) Dead_lettered) ''a'' 2 \<and> \<not> settles Silent ''a'' 2"
  using delivery_settled_once [OF demo_run6 demo_fresh, of 3 4 "''a''" 2] by simp

text \<open>In any run, a job that was acknowledged or dead-lettered is never delivered again.\<close>

theorem finished_job_stays_finished:
  assumes "run queue_step (T0, {}, s0) tr S" "fresh_store s0" "0 \<le> T0"
    and "j < k" "k < length tr" "ends (tr ! j) i"
  shows "tr ! k \<noteq> Delivered i b"
  using lease.ended_for_good [OF assms(1) fresh_store_inv [OF assms(2,3)]] assms(4-)
  by (auto simp: sorted_wrt_iff_nth_less)

lemma finished_job_stays_finished_witness:
  "ends (Nacked ''a'' (Some 2) Dead_lettered) ''a'' \<and> Silent \<noteq> Delivered ''a'' 3"
  using finished_job_stays_finished [OF demo_run6 demo_fresh, of 3 4 "''a''" 3] by simp

text \<open>An ack, and a nack, take effect exactly when the job is leased and the token, if one is
  sent, is the current attempt; otherwise they report failure and change nothing.\<close>

theorem settlement_is_fenced:
  "(fst (ack t i res att s) \<longleftrightarrow> (\<exists>r. map_of (jobs s) i = Some r \<and> j_state r = LEASED
      \<and> (\<forall>a. att = Some a \<longrightarrow> a = attempts r)))
   \<and> (fst (ack t i res att s) \<or> snd (ack t i res att s) = s)
   \<and> (fst (nack t t' i err delay att s) = None \<longleftrightarrow> \<not> fst (ack t i res att s))
   \<and> (fst (nack t t' i err delay att s) = None \<longrightarrow> snd (nack t t' i err delay att s) = s)"
  by (auto simp: ack_def nack_def holds_lease_def Let_def split: option.splits if_splits)

lemma settlement_is_fenced_witness:
  "\<not> fst (ack 2 ''a'' None (Some 2) demo2) \<and> snd (nack 2 2 ''a'' None 0 (Some 2) demo2) = demo2"
  using settlement_is_fenced [of 2 "''a''" None "Some 2" demo2 2 None 0]
  by (simp add: demo2_job)

text \<open>What an accepted nack does: the job is dead-lettered exactly when its budget is used up;
  otherwise it is ready again, not before the retry delay, with its attempt count kept.\<close>

theorem nack_outcome:
  assumes "map_of (jobs s) i = Some r" "holds_lease r att"
    and "nack t t' i err delay att s = (d, s')"
  shows "\<exists>r'. map_of (jobs s') = (map_of (jobs s))(i \<mapsto> r') \<and> same_job r r'
    \<and> attempts r' = attempts r \<and> last_error r' = err
    \<and> (if attempts r < max_attempts r
       then d = Some Requeued \<and> j_state r' = READY \<and> not_before r' = (if 0 < delay then t + delay else 0)
       else d = Some Dead_lettered \<and> j_state r' = DEAD \<and> completed_at r' = t)"
proof (cases "attempts r < max_attempts r")
  case True
  then show ?thesis using assms
    by (intro exI [of _ "r\<lparr>last_error := err, j_state := READY, lease_until := 0,
        not_before := (if delay > 0 then t + delay else 0)\<rparr>"])
      (auto simp: nack_def Let_def same_job_def)
next
  case False
  then show ?thesis using assms
    by (intro exI [of _ "r\<lparr>last_error := err, j_state := DEAD, completed_at := t\<rparr>"])
      (auto simp: nack_def Let_def same_job_def)
qed

lemma nack_outcome_witness: "map_of (jobs demo5) ''a'' \<noteq> None \<and>
    fst (nack 2 2 ''a'' None 5 (Some 1) demo2) = Some Requeued"
proof
  show "map_of (jobs demo5) ''a'' \<noteq> None" by code_simp
  show "fst (nack 2 2 ''a'' None 5 (Some 1) demo2) = Some Requeued"
    using nack_outcome [OF demo2_job, of "Some 1" 2 2 None 5
        "fst (nack 2 2 ''a'' None 5 (Some 1) demo2)" "snd (nack 2 2 ''a'' None 5 (Some 1) demo2)"]
    by (auto simp: holds_lease_def leased_job_def demo_job_def added_job_def)
qed

text \<open>No job is delivered more often than its budget: the attempt a claim hands out is between
  one and \<open>max_attempts\<close> (a job enqueued with a budget below one is still delivered once).\<close>

theorem delivery_budget:
  assumes "run queue_step (T0, {}, s0) tr (T, U, s)" "fresh_store s0" "0 \<le> T0" "T \<le> now"
    and ret: "claim lease_s now s = (Inr (Some r'), s')"
  shows "1 \<le> attempts r' \<and> attempts r' \<le> max 1 (max_attempts r')"
proof -
  have I: "store_inv T s" "ready_inv U s" using run_sys_inv [OF assms(1-3)] by simp_all
  have inv: "store_inv now s'" by (rule claim_inv [OF I(1) \<open>T \<le> now\<close> ret])
  obtain q where "map_of (jobs s') (j_id r') = Some r'" "j_state r' = LEASED"
    using claim_Some [OF I \<open>T \<le> now\<close> ret] by (fastforce simp: leased_job_def)
  then have "budget r'" using job_invD(3) [OF store_invD(7) [OF inv]] by blast
  then show ?thesis using \<open>j_state r' = LEASED\<close> by (auto simp: budget_def)
qed

lemma delivery_budget_witness:
  "1 \<le> attempts (leased_job 30 1 demo_job)
   \<and> attempts (leased_job 30 1 demo_job) \<le> max 1 (max_attempts (leased_job 30 1 demo_job))"
  by (rule delivery_budget [OF demo_run1 demo_fresh _ _ demo_claim]) simp_all

text \<open>A stored job dictionary reads back as the job it was written from, whatever its fields.\<close>

theorem job_round_trip: "from_dict (to_dict r) = Inr r \<and> (to_dict r = to_dict r' \<longrightarrow> r = r')"
  using from_to_dict by (metis sum.inject(2))

lemma job_round_trip_witness: "from_dict (to_dict demo_job) = Inr demo_job"
  using job_round_trip by blast

section \<open>Durability\<close>

lemma step_mirrored:
  assumes "queue_step (T, U, s) e (T', U', s')" "sys_inv (T, U, s)" "mirrored s"
  shows "mirrored s'"
  using assms
  by (cases rule: queue_step.cases)
    (auto intro: add_mirrored claim_mirrored ack_mirrored nack_mirrored sweep_mirrored
      chord_report_mirrored)

lemma run_mirrored:
  "run queue_step S0 tr S \<Longrightarrow> sys_inv S0 \<Longrightarrow> mirrored (snd (snd S0)) \<Longrightarrow>
   sys_inv S \<and> mirrored (snd (snd S))"
proof (induction rule: run.induct)
  case (run_step s tr s' e s'')
  then show ?case using step_mirrored step_inv
    by (metis prod.collapse)
qed simp

definition stored_store :: "store \<Rightarrow> bool" where
  "stored_store s \<longleftrightarrow> (\<exists>n keep rttl dttl cttl.
     s = new_store n (Some \<lparr>plugin = empty_ledger, reachable = True, in_memory = True\<rparr>)
           keep rttl dttl cttl)"

lemma stored_store_init: "stored_store s \<Longrightarrow> fresh_store s \<and> mirrored s"
  unfolding stored_store_def fresh_store_def
  by (auto simp: mirrored_def mirror_jobs_def mirror_index_def new_store_def online_def
      stored_def get_def empty_ledger_def dict_get_def)

text \<open>C5: at any point of any run with a working plugin, starting a new owner on what the plugin
  holds recovers exactly the jobs of the old one, in a store that satisfies the invariant: no job
  is lost or resurrected by a restart.\<close>

theorem restart_recovers:
  assumes "run queue_step (T0, {}, s0) tr (T, U, s)" "stored_store s0" "0 \<le> T0"
    and "T \<le> T'" "\<And>i. clk i \<le> T'"
    and "s' = load loads clk (new_store (q_name s) (q_storage s) keep rttl dttl cttl)"
  shows "map_of (jobs s') = map_of (jobs s) \<and> store_inv T' s'"
proof -
  have "fresh_store s0" "mirrored s0" using stored_store_init [OF assms(2)] by simp_all
  then have "store_inv T s" "mirrored s"
    using run_mirrored [OF assms(1) fresh_store_inv] assms(3) by simp_all
  moreover from this have "0 \<le> T'" using store_invD(1) assms(4) by force
  ultimately show ?thesis using load_recovers assms(5,6) by blast
qed

definition kept0 :: store where
  "kept0 = new_store ''q'' (Some \<lparr>plugin = empty_ledger, reachable = True, in_memory = True\<rparr>)
     False 3600 None None"
definition kept1 :: store where "kept1 = snd (add ''a'' 0 0 0 [7] 2 0 0 None PNone PNone kept0)"

lemma kept_run: "run queue_step (0, {}, kept0) [Enqueued ''a''] (0, {''a''}, kept1)"
proof -
  have "fst (add ''a'' 0 0 0 [7] 2 0 0 None PNone PNone kept0) = ''a''" by code_simp
  then have "add ''a'' 0 0 0 [7] 2 0 0 None PNone PNone kept0 = (''a'', kept1)"
    by (simp add: kept1_def prod_eq_iff)
  then have "queue_step (0, {}, kept0) (Enqueued ''a'') (0, {''a''}, kept1)"
    using queue_step.enqueue [of 0 0 0 0 "''a''" "{}"] by simp
  then show ?thesis by (rule queue_snoc [OF run_nil]) simp
qed

lemma restart_recovers_witness:
  "map_of (jobs (load Inr (\<lambda>_. 5) (new_store (q_name kept1) (q_storage kept1) True 1 None None)))
     = map_of (jobs kept1) \<and> map_of (jobs kept1) ''a'' \<noteq> None"
proof
  have "stored_store kept0" unfolding stored_store_def kept0_def by blast
  then show "map_of (jobs (load Inr (\<lambda>_. 5)
      (new_store (q_name kept1) (q_storage kept1) True 1 None None))) = map_of (jobs kept1)"
    using restart_recovers [OF kept_run, of 5 "\<lambda>_. 5" _ Inr True 1 None None] by simp
  show "map_of (jobs kept1) ''a'' \<noteq> None" by code_simp
qed

text \<open>A sweep reclaims every lapsed lease (counting them), drops the finished jobs and the dead
  letters whose retention is over and leaves every other job exactly as it was.\<close>

theorem sweep_outcome:
  assumes "run queue_step (T0, {}, s0) tr (T, U, s)" "fresh_store s0" "0 \<le> T0" "T \<le> now"
    and "sweep now s = (n, s')"
  shows "map_of (jobs s') k = Option.bind (map_of (jobs s) k) (swept s now)
    \<and> n = card {k. \<exists>r. map_of (jobs s) k = Some r \<and> lapsed now r}"
proof -
  have I: "store_inv T s" using run_sys_inv [OF assms(1-3)] by simp
  obtain ch s1 where rec: "reclaim_leases now s = (ch, s1)" by fastforce
  then have "n = length ch" using assms(5) by (simp add: sweep_def Let_def)
  then show ?thesis using sweep_jobs [OF I assms(4,5)] reclaim_leases_count [OF I rec] by simp
qed

lemma sweep_outcome_witness:
  "map_of (jobs (snd (sweep 40 demo2))) ''a''
     = Some (reclaimed 40 (leased_job 30 1 demo_job))"
  using sweep_outcome [OF demo_run2 demo_fresh, of 40 "fst (sweep 40 demo2)"
      "snd (sweep 40 demo2)" "''a''"]
  by (simp add: demo2_job swept_def lapsed_def leased_job_def expired_def reclaimed_def
      demo_job_def added_job_def)

section \<open>Chord barriers\<close>

text \<open>The reports of one chord, in order: member, result and clock reading.\<close>

fun chord_reports ::
  "string \<Rightarrow> int \<Rightarrow> (int \<times> string option \<times> time) list \<Rightarrow> store
   \<Rightarrow> string option list option res list \<times> store" where
  "chord_reports c n [] s = ([], s)"
| "chord_reports c n ((ix, res, t) # rs) s =
     (let (out, s1) = chord_report t c ix n res s;
          (outs, s2) = chord_reports c n rs s1
      in (out # outs, s2))"

definition first_result :: "(int \<times> string option \<times> time) list \<Rightarrow> int \<Rightarrow> string option" where
  "first_result rs k = (case map_of rs k of None \<Rightarrow> None | Some (res, t) \<Rightarrow> res)"

definition chord_state :: "string \<Rightarrow> int \<Rightarrow> (int \<times> string option \<times> time) list \<Rightarrow> store \<Rightarrow> bool" where
  "chord_state c n past s \<longleftrightarrow>
     (case map_of (chords s) c of
        None \<Rightarrow> past = []
      | Some b \<Rightarrow> ch_size b = n \<and> \<not> ch_fired b \<and> ch_reported b = dkeys past
          \<and> ch_results b = map (first_result past) [0..n - 1])"

lemma first_result_snoc:
  "first_result (past @ [(ix, res, t)]) k =
     (if k = ix \<and> k \<notin> dkeys past then res else first_result past k)"
  using dkeys_map_of [of k past]
  by (cases "map_of past k") (auto simp: first_result_def map_add_def)

lemma first_result_update:
  assumes "ix \<notin> dkeys past" "0 \<le> ix"
  shows "(map (first_result past) [0..n - 1])[nat ix := res] =
    map (first_result (past @ [(ix, res, t)])) [0..n - 1]"
  using assms by (intro nth_equalityI) (auto simp: first_result_snoc nth_list_update)

lemma chord_report_again:
  assumes "chord_state c n past s" "0 \<le> ix" "ix < n" "ix \<in> dkeys past"
    and "chord_report t c ix n res s = (out, s1)"
  shows "out = Inr None \<and> chord_state c n (past @ [(ix, res, t)]) s1"
proof -
  obtain b where b: "map_of (chords s) c = Some b" "ch_size b = n" "\<not> ch_fired b"
      "ch_reported b = dkeys past" "ch_results b = map (first_result past) [0..n - 1]"
    using assms(1,4) by (auto simp: chord_state_def split: option.splits)
  have "first_result (past @ [(ix, res, t)]) = first_result past"
    using assms(4) by (auto simp: fun_eq_iff first_result_snoc)
  then show ?thesis using assms b
    by (auto simp: chord_report_def Let_def chord_state_def insert_absorb)
qed

lemma chord_report_new:
  assumes st: "chord_state c n past s" and ix: "0 \<le> ix" "ix < n" "ix \<notin> dkeys past"
    and sub: "dkeys past \<subseteq> {0..<n}"
    and rep: "chord_report t c ix n res s = (out, s1)"
  shows "if insert ix (dkeys past) = {0..<n}
    then out = Inr (Some (map (first_result (past @ [(ix, res, t)])) [0..n - 1]))
         \<and> map_of (chords s1) c = None
    else out = Inr None \<and> chord_state c n (past @ [(ix, res, t)]) s1"
proof -
  define b where "b = (case map_of (chords s) c of
      None \<Rightarrow> \<lparr>ch_size = n, ch_results = replicate (nat n) None, ch_reported = {},
                ch_fired = False, ch_created_at = t\<rparr>
    | Some b \<Rightarrow> b)"
  have b: "ch_size b = n" "\<not> ch_fired b" "ch_reported b = dkeys past"
      "ch_results b = map (first_result past) [0..n - 1]"
    using st by (auto simp: b_def chord_state_def first_result_def split: option.splits
        intro!: nth_equalityI)
  let ?b = "b\<lparr>ch_reported := insert ix (ch_reported b), ch_results := (ch_results b)[nat ix := res]\<rparr>"
  have card: "n \<le> int (card (insert ix (dkeys past))) \<longleftrightarrow> insert ix (dkeys past) = {0..<n}"
  proof
    assume "n \<le> int (card (insert ix (dkeys past)))"
    then have "card {0..<n} \<le> card (insert ix (dkeys past))" using ix by simp
    then show "insert ix (dkeys past) = {0..<n}"
      using sub ix by (intro card_seteq) auto
  qed simp
  have rep': "(out, s1) =
     (if n \<le> int (card (insert ix (dkeys past)))
      then (Inr (Some (ch_results ?b)), s1) else (Inr None, s1))"
    and s1: "map_of (chords s1) = (map_of (chords s))(c :=
      (if n \<le> int (card (insert ix (dkeys past))) then None else Some ?b))"
    using rep ix b st
    by (auto simp: chord_report_def Let_def b_def chord_state_def fun_eq_iff split: option.splits if_splits)
  show ?thesis
    using rep' s1 b first_result_update [OF ix(3,1), of n res t]
    by (auto simp: card chord_state_def split: if_splits)
qed

lemma chord_reports_waiting:
  "chord_state c n past s \<Longrightarrow> dkeys past \<subseteq> {0..<n} \<Longrightarrow> dkeys rs \<subseteq> {0..<n} \<Longrightarrow>
   dkeys past \<union> dkeys rs \<noteq> {0..<n} \<Longrightarrow> chord_reports c n rs s = (outs, s') \<Longrightarrow>
   outs = replicate (length rs) (Inr None) \<and> chord_state c n (past @ rs) s'"
proof (induction rs arbitrary: past s outs)
  case (Cons r rs)
  obtain ix res t where r: "r = (ix, res, t)" by (metis prod_cases3)
  obtain out s1 outs' where step: "chord_report t c ix n res s = (out, s1)"
      "chord_reports c n rs s1 = (outs', s')" "outs = out # outs'"
    using Cons.prems(5) by (auto simp: r Let_def split: prod.splits)
  have ix: "0 \<le> ix" "ix < n" using Cons.prems(3) by (auto simp: r)
  have part: "insert ix (dkeys past) \<noteq> {0..<n}"
    using Cons.prems(2-4) by (auto simp: r)
  have "out = Inr None \<and> chord_state c n (past @ [r]) s1"
  proof (cases "ix \<in> dkeys past")
    case True
    then show ?thesis using chord_report_again [OF Cons.prems(1) ix _ step(1)] by (simp add: r)
  next
    case False
    then show ?thesis
      using chord_report_new [OF Cons.prems(1) ix _ Cons.prems(2) step(1)] part by (simp add: r)
  qed
  then show ?case
    using Cons.IH [of "past @ [r]" s1 outs'] Cons.prems(2-4) step ix by (auto simp: r)
qed simp

lemma chord_reports_append:
  "chord_reports c n (rs @ qs) s =
     (let (o1, s1) = chord_reports c n rs s; (o2, s2) = chord_reports c n qs s1 in (o1 @ o2, s2))"
  by (induction rs arbitrary: s) (auto simp: Let_def split: prod.splits)

text \<open>C6: a chord fires on the report of its last missing member, in whatever order and however often
  the others reported before: that report alone gets the results, one per member in member order,
  each the first the member reported, and the barrier is gone.\<close>

theorem chord_fires_on_last:
  assumes "map_of (chords s) c = None" "dkeys rs \<subset> {0..<n}" "dkeys rs \<union> {ix} = {0..<n}"
    and "chord_reports c n (rs @ [(ix, res, t)]) s = (outs, s')"
  shows "outs = replicate (length rs) (Inr None)
      @ [Inr (Some (map (first_result (rs @ [(ix, res, t)])) [0..n - 1]))]
    \<and> map_of (chords s') c = None"
proof -
  obtain o1 s1 where rs: "chord_reports c n rs s = (o1, s1)" by fastforce
  obtain out where last: "chord_report t c ix n res s1 = (out, s')" "outs = o1 @ [out]"
    using assms(4) by (auto simp: chord_reports_append rs Let_def split: prod.splits)
  have st: "chord_state c n [] s" using assms(1) by (simp add: chord_state_def)
  have w: "o1 = replicate (length rs) (Inr None)" "chord_state c n rs s1"
    using chord_reports_waiting [OF st _ _ _ rs] assms(2) by auto
  have ix: "0 \<le> ix" "ix < n" "ix \<notin> dkeys rs" using assms(2,3) by auto
  have "insert ix (dkeys rs) = {0..<n}" "dkeys rs \<subseteq> {0..<n}" using assms(2,3) by auto
  then show ?thesis using chord_report_new [OF w(2) ix _ last(1)] w(1) last(2) by simp
qed

lemma chord_fires_on_last_witness:
  "fst (chord_reports ''c'' 2 [(1, Some ''y'', 0), (1, Some ''z'', 1), (0, Some ''x'', 2)] demo0)
     = [Inr None, Inr None, Inr (Some [Some ''x'', Some ''y''])]"
proof -
  have "{0..<2::int} = {0, 1}" "[0..1::int] = [0, 1]" by (auto simp: upto.simps)
  then show ?thesis
    using chord_fires_on_last [of demo0 "''c''" "[(1, Some ''y'', 0), (1, Some ''z'', 1)]" 2 0
        "Some ''x''" 2 "fst (chord_reports ''c'' 2 [(1, Some ''y'', 0), (1, Some ''z'', 1),
           (0, Some ''x'', 2)] demo0)" "snd (chord_reports ''c'' 2 [(1, Some ''y'', 0),
           (1, Some ''z'', 1), (0, Some ''x'', 2)] demo0)"]
    by (force simp: demo0_def new_store_def first_result_def)
qed

section \<open>Where the store deviates from its documentation\<close>

text \<open>The barrier forgets that it fired, so a redelivered member starts a new one: a chord of one
  member hands its results out a second time.\<close>

lemma chord_of_one_fires_again:
  "map_of (chords s) c = None \<Longrightarrow>
   fst (chord_reports c 1 [(0, res, t), (0, res', t')] s)
     = [Inr (Some [res]), Inr (Some [res'])]"
  by (simp add: chord_report_def Let_def)

text \<open>Loading keeps what memory already holds. An owner that led before, stepped down and leads again
  still has the jobs another leader has finished since, and hands them out again.\<close>

definition stale_leader :: "store \<Rightarrow> store \<Rightarrow> bool" where
  "stale_leader old interim \<longleftrightarrow>
     (case fst (claim 30 3 (load Inr (\<lambda>_. 2) (old\<lparr>q_storage := q_storage interim\<rparr>))) of
        Inr (Some r) \<Rightarrow> map_of (jobs interim) (j_id r) = None \<and> attempts r = 1
      | _ \<Rightarrow> False)"

definition interim :: store where
  "interim = snd (ack 2 ''a'' None (Some 1)
     (snd (claim 30 1 (load Inr (\<lambda>_. 1) (new_store ''q'' (q_storage kept1) False 3600 None None)))))"

lemma finished_job_resurrected: "jobs interim = [] \<and> stale_leader kept1 interim"
  by code_simp

text \<open>A claim whose reading of the clock is older than an entry of the ready heap drops the entry: the
  job is ready, due from \<open>1\<close> on, and no later claim finds it.\<close>

definition early :: store where
  "early = snd (claim 30 2 (snd (claim 30 (1/2)
     (mature_delayed 1 (snd (add ''a'' 0 0 0 [7] 2 0 1 None PNone PNone demo0))))))"

lemma early_claim_drops_job:
  "ready early = [] \<and> delayed early = [] \<and>
   (\<exists>r. map_of (jobs early) ''a'' = Some r \<and> available 2 r) \<and> fst (claim 30 3 early) = Inr None"
proof -
  have "map_option (available 2) (map_of (jobs early) ''a'') = Some True" by code_simp
  moreover have "ready early = []" "delayed early = []" "fst (claim 30 3 early) = Inr None"
    by code_simp+
  ultimately show ?thesis by auto
qed

end
