(* ===== verification/PyText.thy ===== *)
theory PyText
  imports Prelude
begin

text \<open>
  The operations on text the program uses from Python's library: \<open>int()\<close>, \<open>split\<close>, \<open>strip\<close>,
  \<open>lower\<close>, UTF-8 decoding and percent-encoding. A \<open>str\<close> is the list of its UTF-8 bytes; white
  space, digits and case are those of ASCII.
\<close>

section \<open>Numbers and splitting\<close>

text \<open>\<open>int(s)\<close> on a string without white space: a sign and digits, single underscores between them.\<close>

definition is_digit :: "char \<Rightarrow> bool" where
  "is_digit c \<longleftrightarrow> 48 \<le> (of_char c :: nat) \<and> (of_char c :: nat) \<le> 57"

fun digits :: "string \<Rightarrow> int \<Rightarrow> int option" where
  "digits [] n = Some n"
| "digits (c # cs) n =
     (if is_digit c then digits cs (10 * n + (of_char c - 48))
      else if c = CHR ''_'' \<and> cs \<noteq> [] \<and> is_digit (hd cs) then digits cs n else None)"

definition py_int :: "string \<Rightarrow> int res" where
  "py_int s =
     (let unsigned = (\<lambda>u. if u \<noteq> [] \<and> is_digit (hd u) then digits u 0 else None);
          n = (case s of
                 [] \<Rightarrow> None
               | c # cs \<Rightarrow> if c = CHR ''+'' then unsigned cs
                           else if c = CHR ''-'' then map_option uminus (unsigned cs)
                           else unsigned s)
      in case n of None \<Rightarrow> Inl (ValueError s) | Some i \<Rightarrow> Inr i)"

fun split_on :: "char \<Rightarrow> string \<Rightarrow> string list" where
  "split_on c [] = [[]]"
| "split_on c (x # xs) =
     (if x = c then [] # split_on c xs
      else case split_on c xs of [] \<Rightarrow> [[x]] | w # ws \<Rightarrow> (x # w) # ws)"

text \<open>\<open>s.split(c, 1)\<close> of a string that contains \<open>c\<close>.\<close>

definition split_once :: "char \<Rightarrow> string \<Rightarrow> string \<times> string" where
  "split_once c s = (takeWhile (\<lambda>x. x \<noteq> c) s, drop 1 (dropWhile (\<lambda>x. x \<noteq> c) s))"

definition is_space :: "char \<Rightarrow> bool" where
  "is_space c \<longleftrightarrow> (let n = of_char c :: nat
     in 9 \<le> n \<and> n \<le> 13 \<or> 28 \<le> n \<and> n \<le> 32)"

fun words :: "string \<Rightarrow> string list" where
  "words [] = []"
| "words (c # cs) =
     (if is_space c then words cs
      else (case cs of
              [] \<Rightarrow> [[c]]
            | d # ds \<Rightarrow> if is_space d then [c] # words cs
                        else (case words cs of [] \<Rightarrow> [[c]] | w # ws \<Rightarrow> (c # w) # ws)))"

section \<open>White space and case\<close>

definition lstrip :: "string \<Rightarrow> string" where
  "lstrip s = dropWhile is_space s"

definition strip :: "string \<Rightarrow> string" where
  "strip s = rev (lstrip (rev (lstrip s)))"

definition lower_char :: "char \<Rightarrow> char" where
  "lower_char c = (let n = of_char c :: nat in if 65 \<le> n \<and> n \<le> 90 then char_of (n + 32) else c)"

definition upper_char :: "char \<Rightarrow> char" where
  "upper_char c = (let n = of_char c :: nat in if 97 \<le> n \<and> n \<le> 122 then char_of (n - 32) else c)"

definition starts_with :: "string \<Rightarrow> string \<Rightarrow> bool" where
  "starts_with s p \<longleftrightarrow> take (length p) s = p"

definition ends_with :: "string \<Rightarrow> string \<Rightarrow> bool" where
  "ends_with s p \<longleftrightarrow> length p \<le> length s \<and> drop (length s - length p) s = p"

definition lstrip_char :: "char \<Rightarrow> string \<Rightarrow> string" where
  "lstrip_char c s = dropWhile (\<lambda>x. x = c) s"

definition rstrip_char :: "char \<Rightarrow> string \<Rightarrow> string" where
  "rstrip_char c s = rev (dropWhile (\<lambda>x. x = c) (rev s))"

text \<open>\<open>s.split(None, 1)\<close>: the first word, and what follows it with the white space between dropped.\<close>

definition split_word :: "string \<Rightarrow> string list" where
  "split_word s =
     (let t = lstrip s; w = takeWhile (\<lambda>c. \<not> is_space c) t;
          r = lstrip (dropWhile (\<lambda>c. \<not> is_space c) t)
      in if t = [] then [] else if r = [] then [w] else [w, r])"

definition join :: "string \<Rightarrow> string list \<Rightarrow> string" where
  "join sep ws = concat (case ws of [] \<Rightarrow> [] | w # r \<Rightarrow> w # map (\<lambda>x. sep @ x) r)"

section \<open>UTF-8\<close>

definition cont :: "nat \<Rightarrow> bool" where
  "cont b \<longleftrightarrow> 128 \<le> b \<and> b < 192"

fun utf8_valid :: "nat list \<Rightarrow> bool" where
  "utf8_valid [] = True"
| "utf8_valid (a # bs) =
     (if a < 128 then utf8_valid bs
      else if 194 \<le> a \<and> a < 224 then
        (case bs of b # r \<Rightarrow> cont b \<and> utf8_valid r | _ \<Rightarrow> False)
      else if 224 \<le> a \<and> a < 240 then
        (case bs of
           b # c # r \<Rightarrow> cont b \<and> cont c \<and> (a = 224 \<longrightarrow> 160 \<le> b) \<and> (a = 237 \<longrightarrow> b < 160) \<and> utf8_valid r
         | _ \<Rightarrow> False)
      else if 240 \<le> a \<and> a < 245 then
        (case bs of
           b # c # d # r \<Rightarrow> cont b \<and> cont c \<and> cont d \<and> (a = 240 \<longrightarrow> 144 \<le> b) \<and> (a = 244 \<longrightarrow> b < 144)
             \<and> utf8_valid r
         | _ \<Rightarrow> False)
      else False)"

definition decode_utf8 :: "bytes \<Rightarrow> string option" where
  "decode_utf8 bs =
     (if utf8_valid (map unat bs) then Some (map (\<lambda>b. char_of (unat b)) bs) else None)"

definition encode_utf8 :: "string \<Rightarrow> bytes" where
  "encode_utf8 s = map (\<lambda>c. of_nat (of_char c)) s"

text \<open>\<open>len\<close> counts characters, that is the bytes that do not continue one.\<close>

definition py_len :: "string \<Rightarrow> nat" where
  "py_len s = length (filter (\<lambda>c. \<not> cont (of_char c)) s)"

section \<open>Percent-encoding\<close>

text \<open>\<open>quote\<close> leaves ASCII letters, digits and \<open>_.-~/\<close> as they are.\<close>

definition quote_safe :: "char \<Rightarrow> bool" where
  "quote_safe c \<longleftrightarrow> (let n = of_char c :: nat
     in 65 \<le> n \<and> n \<le> 90 \<or> 97 \<le> n \<and> n \<le> 122 \<or> 48 \<le> n \<and> n \<le> 57) \<or> c \<in> set ''_.-~/''"

definition hex_upper :: "nat \<Rightarrow> char" where
  "hex_upper n = (if n < 10 then char_of (48 + n) else char_of (55 + n))"

fun quote :: "string \<Rightarrow> string" where
  "quote [] = []"
| "quote (c # cs) =
     (if quote_safe c then c # quote cs
      else CHR ''%'' # hex_upper (of_char c div 16) # hex_upper (of_char c mod 16) # quote cs)"

definition hex_value :: "char \<Rightarrow> nat option" where
  "hex_value c =
     (let n = of_char c :: nat
      in if 48 \<le> n \<and> n \<le> 57 then Some (n - 48)
         else if 65 \<le> n \<and> n \<le> 70 then Some (n - 55)
         else if 97 \<le> n \<and> n \<le> 102 then Some (n - 87)
         else None)"

fun unquote :: "string \<Rightarrow> string" where
  "unquote (p # a # b # cs) =
     (if p = CHR ''%'' then
        (case (hex_value a, hex_value b) of
           (Some x, Some y) \<Rightarrow> char_of (16 * x + y) # unquote cs
         | _ \<Rightarrow> p # unquote (a # b # cs))
      else p # unquote (a # b # cs))"
| "unquote cs = cs"

section \<open>Lemmas\<close>

lemma split_on_ne [simp]: "split_on c s \<noteq> []"
  by (induction s) (auto split: list.split)

lemma hex_round_trip [simp]: "n < 16 \<Longrightarrow> hex_value (hex_upper n) = Some n"
  by (simp add: hex_value_def hex_upper_def Let_def)

lemma quote_safe_not_percent: "quote_safe c \<Longrightarrow> c \<noteq> CHR ''%''"
  by (auto simp: quote_safe_def Let_def)

lemma unquote_Cons: "p \<noteq> CHR ''%'' \<Longrightarrow> unquote (p # cs) = p # unquote cs"
  by (cases cs; cases "tl cs") auto

lemma unquote_quote [simp]: "unquote (quote s) = s"
proof (induction s)
  case (Cons c cs)
  show ?case
  proof (cases "quote_safe c")
    case True
    then show ?thesis using Cons quote_safe_not_percent by (simp add: unquote_Cons)
  next
    case False
    have "(of_char c :: nat) div 16 < 16"
      using nat_of_char_less_256 [of c] by (simp add: less_mult_imp_div_less)
    then show ?thesis using False Cons by simp
  qed
qed simp

lemma hex_upper_safe: "n < 16 \<Longrightarrow> quote_safe (hex_upper n)"
  by (simp add: quote_safe_def hex_upper_def Let_def)

lemma set_quote: "x \<in> set (quote s) \<Longrightarrow> quote_safe x \<or> x = CHR ''%''"
proof (induction s)
  case (Cons c cs)
  have "(of_char c :: nat) div 16 < 16"
    using nat_of_char_less_256 [of c] by (simp add: less_mult_imp_div_less)
  then show ?case using Cons hex_upper_safe by (auto split: if_splits)
qed simp

lemma split_on_none: "c \<notin> set s \<Longrightarrow> split_on c s = [s]"
  by (induction s) auto

lemma split_on_append: "c \<notin> set s \<Longrightarrow> split_on c (s @ c # t) = s # split_on c t"
  by (induction s) auto

lemma split_on_join:
  "ws \<noteq> [] \<Longrightarrow> (\<forall>w \<in> set ws. c \<notin> set w) \<Longrightarrow> split_on c (join [c] ws) = ws"
proof (induction ws)
  case (Cons w ws)
  show ?case
  proof (cases ws)
    case Nil
    then show ?thesis using Cons.prems by (simp add: join_def split_on_none)
  next
    case (Cons v vs)
    then have "join [c] (w # ws) = w @ c # join [c] ws" by (simp add: join_def)
    then show ?thesis using Cons.IH Cons.prems Cons by (simp add: split_on_append)
  qed
qed simp

lemma join_Cons: "ws \<noteq> [] \<Longrightarrow> join sep (w # ws) = w @ sep @ join sep ws"
  by (cases ws) (simp_all add: join_def)

lemma join_split_on: "join [c] (split_on c s) = s"
proof (induction s)
  case (Cons x xs)
  obtain w ws where w: "split_on c xs = w # ws" using split_on_ne [of c xs] by (cases "split_on c xs") auto
  show ?case
  proof (cases "x = c")
    case True
    then show ?thesis using Cons by (simp add: join_Cons)
  next
    case False
    have "join [c] ((x # w) # ws) = x # join [c] (w # ws)"
      by (cases ws) (simp_all add: join_def)
    then show ?thesis using Cons False w by simp
  qed
qed (simp add: join_def)

lemma split_once_at:
  "c \<notin> set s \<Longrightarrow> split_once c (s @ c # t) = (s, t)"
  by (induction s) (auto simp: split_once_def)

end
