(* ===== verification/Errors.thy ===== *)
theory Errors
  imports Prelude
begin

text \<open>
  The error types of \<open>errors.py\<close>: the exception classes with their status and retryability, the
  error payload on the wire and its way back into an exception, and the registry that turns an
  exception into a payload by the exception's MRO.
\<close>

section \<open>Exceptions\<close>

datatype error_class =
    IstosError | ReplyDecodeError | NotFoundError | UnauthorizedError | ForbiddenError
  | ConflictError | RateLimitError

record istos_error =
  e_class :: error_class
  e_message :: pyval
  e_code :: pyval
  e_status :: int
  e_details :: pyval
  e_correlation_id :: pyval
  e_retryable :: "bool option"

definition istos_error_init ::
  "error_class \<Rightarrow> pyval \<Rightarrow> pyval \<Rightarrow> int \<Rightarrow> pyval \<Rightarrow> pyval \<Rightarrow> istos_error" where
  "istos_error_init cls message code status details cid =
     \<lparr>e_class = cls, e_message = message, e_code = code, e_status = status,
      e_details = details, e_correlation_id = cid,
      e_retryable = (if cls = ReplyDecodeError then Some False else None)\<rparr>"

definition reply_decode_error :: "pyval \<Rightarrow> pyval \<Rightarrow> pyval \<Rightarrow> istos_error" where
  "reply_decode_error message =
     istos_error_init ReplyDecodeError message (PStr ''decode_error'') 502"

definition not_found_error :: "pyval \<Rightarrow> pyval \<Rightarrow> pyval \<Rightarrow> istos_error" where
  "not_found_error message = istos_error_init NotFoundError message (PStr ''not_found'') 404"

definition unauthorized_error :: "pyval \<Rightarrow> pyval \<Rightarrow> pyval \<Rightarrow> istos_error" where
  "unauthorized_error message =
     istos_error_init UnauthorizedError message (PStr ''unauthorized'') 401"

definition forbidden_error :: "pyval \<Rightarrow> pyval \<Rightarrow> pyval \<Rightarrow> istos_error" where
  "forbidden_error message = istos_error_init ForbiddenError message (PStr ''forbidden'') 403"

definition conflict_error :: "pyval \<Rightarrow> pyval \<Rightarrow> pyval \<Rightarrow> istos_error" where
  "conflict_error message = istos_error_init ConflictError message (PStr ''conflict'') 409"

definition rate_limit_error :: "pyval \<Rightarrow> pyval \<Rightarrow> pyval \<Rightarrow> istos_error" where
  "rate_limit_error message =
     istos_error_init RateLimitError message (PStr ''rate_limit_exceeded'') 429"

text \<open>
  An exception: the names of its class and base classes in MRO order, its fields as an
  \<open>IstosError\<close> when it is one, its \<open>str()\<close> and its \<open>errors\<close> attribute (\<open>None\<close> when absent).
\<close>

record exc =
  x_mro :: "string list"
  x_istos :: "istos_error option"
  x_str :: string
  x_errors :: pyval

definition is_retryable :: "exc \<Rightarrow> bool" where
  "is_retryable x =
     (case x_istos x of
        None \<Rightarrow> True
      | Some e \<Rightarrow>
          (case e_retryable e of
             Some b \<Rightarrow> b
           | None \<Rightarrow> if e_status e = 409 \<or> e_status e = 429 then True
                     else \<not> (400 \<le> e_status e \<and> e_status e < 500)))"

section \<open>The payload\<close>

definition ERROR_MARKER :: string where "ERROR_MARKER = ''__istos_error''"

record error_response =
  er_error :: pyval
  er_code :: pyval
  er_message :: pyval
  er_correlation_id :: pyval
  er_details :: pyval

definition error_to_dict :: "error_response \<Rightarrow> (string, pyval) dict" where
  "error_to_dict r =
     [(ERROR_MARKER, PBool True), (''error'', er_error r), (''code'', er_code r),
      (''message'', er_message r)]
     @ (if truthy (er_correlation_id r) then [(''correlation_id'', er_correlation_id r)] else [])
     @ (if er_details r \<noteq> PNone then [(''details'', er_details r)] else [])"

definition is_error_payload :: "pyval \<Rightarrow> bool" where
  "is_error_payload parsed =
     (case parsed of
        PDict d \<Rightarrow>
          (let marker = dict_get d ERROR_MARKER PNone
           in if marker \<noteq> PNone then truthy marker
              else list_all (\<lambda>f. map_of d f \<noteq> None) [''error'', ''code'', ''message''])
      | _ \<Rightarrow> False)"

definition CODE_TO_ERROR :: "(string, pyval \<Rightarrow> pyval \<Rightarrow> pyval \<Rightarrow> istos_error) dict" where
  "CODE_TO_ERROR =
     [(''not_found'', not_found_error), (''unauthorized'', unauthorized_error),
      (''forbidden'', forbidden_error), (''conflict'', conflict_error),
      (''rate_limit_exceeded'', rate_limit_error)]"

definition CODE_TO_STATUS :: "(string, int) dict" where
  "CODE_TO_STATUS =
     [(''unauthorized'', 401), (''forbidden'', 403), (''not_found'', 404),
      (''validation_error'', 400), (''bad_request'', 400), (''conflict'', 409),
      (''rate_limit_exceeded'', 429)]"

definition DEFAULT_ERROR_STATUS :: int where "DEFAULT_ERROR_STATUS = 500"

text \<open>Looking up a dictionary of string keys by any value; a list or dict is unhashable.\<close>

fun lookup_code :: "(string, 'v) dict \<Rightarrow> pyval \<Rightarrow> 'v option res" where
  "lookup_code t (PStr s) = Inr (map_of t s)"
| "lookup_code t (PList _) = Inl (TypeError ''unhashable'')"
| "lookup_code t (PDict _) = Inl (TypeError ''unhashable'')"
| "lookup_code t _ = Inr None"

definition error_from_payload :: "(string, pyval) dict \<Rightarrow> pyval \<Rightarrow> istos_error res" where
  "error_from_payload parsed default_code =
     (let code = dict_get parsed ''code'' default_code;
          message = dict_get parsed ''message'' (PStr ''the responder failed'');
          details = dict_get parsed ''details'' PNone;
          correlation_id = dict_get parsed ''correlation_id'' PNone
      in res_bind (lookup_code CODE_TO_ERROR code) (\<lambda>cls.
         case cls of
           Some mk \<Rightarrow> Inr (mk message details correlation_id)
         | None \<Rightarrow>
             res_bind (lookup_code CODE_TO_STATUS code) (\<lambda>st.
             Inr (istos_error_init IstosError message code
                   (case st of None \<Rightarrow> DEFAULT_ERROR_STATUS | Some n \<Rightarrow> n)
                   details correlation_id))))"

definition reply_err :: "pyval \<Rightarrow> pyval \<Rightarrow> pyval \<Rightarrow> pyval \<Rightarrow> (string, pyval) dict" where
  "reply_err message code correlation_id details =
     error_to_dict \<lparr>er_error = code, er_code = code, er_message = message,
       er_correlation_id = correlation_id, er_details = details\<rparr>"

section \<open>The registry\<close>

type_synonym exception_handler = "exc \<Rightarrow> error_response"
type_synonym registry = "(string, exception_handler) dict"

definition internal_error_response :: error_response where
  "internal_error_response =
     \<lparr>er_error = PStr ''internal_error'', er_code = PStr ''internal_error'',
      er_message = PStr ''Internal error'', er_correlation_id = PNone, er_details = PNone\<rparr>"

definition schema_error_handler :: exception_handler where
  "schema_error_handler x =
     \<lparr>er_error = PStr ''validation_error'', er_code = PStr ''validation_error'',
      er_message = PStr (x_str x), er_correlation_id = PNone, er_details = x_errors x\<rparr>"

text \<open>\<open>cast\<close> does not check: the handler is registered for \<open>IstosError\<close>, whose instances have the fields.\<close>

definition from_istos_error :: exception_handler where
  "from_istos_error x =
     (case x_istos x of
        Some e \<Rightarrow> \<lparr>er_error = e_code e, er_code = e_code e, er_message = e_message e,
                    er_correlation_id = PNone, er_details = e_details e\<rparr>
      | None \<Rightarrow> internal_error_response)"

definition register :: "string \<Rightarrow> exception_handler \<Rightarrow> registry \<Rightarrow> registry" where
  "register cls h reg = AList.update cls h reg"

definition default_registry :: registry where
  "default_registry =
     register ''IstosError'' from_istos_error
       (register ''SchemaValidationError'' schema_error_handler [])"

fun resolve_mro :: "registry \<Rightarrow> string list \<Rightarrow> exception_handler option" where
  "resolve_mro reg [] = None"
| "resolve_mro reg (k # ks) =
     (case map_of reg k of None \<Rightarrow> resolve_mro reg ks | Some h \<Rightarrow> Some h)"

definition resolve :: "registry \<Rightarrow> exc \<Rightarrow> error_response" where
  "resolve reg x =
     (case resolve_mro reg (x_mro x) of None \<Rightarrow> internal_error_response | Some h \<Rightarrow> h x)"

section \<open>Lemmas\<close>

lemma error_to_dict_get [simp]:
  "dict_get (error_to_dict r) ''code'' v = er_code r"
  "dict_get (error_to_dict r) ''message'' v = er_message r"
  "dict_get (error_to_dict r) ''details'' PNone = er_details r"
  "dict_get (error_to_dict r) ''correlation_id'' PNone =
     (if truthy (er_correlation_id r) then er_correlation_id r else PNone)"
  "dict_get (error_to_dict r) ERROR_MARKER v = PBool True"
  by (simp_all add: error_to_dict_def dict_get_def ERROR_MARKER_def)

text \<open>The name of a class, and the MRO of its instances up to \<open>object\<close>.\<close>

fun class_name :: "error_class \<Rightarrow> string" where
  "class_name IstosError = ''IstosError''"
| "class_name ReplyDecodeError = ''ReplyDecodeError''"
| "class_name NotFoundError = ''NotFoundError''"
| "class_name UnauthorizedError = ''UnauthorizedError''"
| "class_name ForbiddenError = ''ForbiddenError''"
| "class_name ConflictError = ''ConflictError''"
| "class_name RateLimitError = ''RateLimitError''"

definition raised :: "istos_error \<Rightarrow> exc" where
  "raised e = \<lparr>x_mro = (if e_class e = IstosError then [] else [class_name (e_class e)])
       @ [''IstosError'', ''Exception'', ''BaseException'', ''object''],
     x_istos = Some e, x_str = (case e_message e of PStr s \<Rightarrow> s | _ \<Rightarrow> []), x_errors = PNone\<rparr>"

lemma resolve_default:
  "resolve default_registry (raised e) =
     \<lparr>er_error = e_code e, er_code = e_code e, er_message = e_message e,
      er_correlation_id = PNone, er_details = e_details e\<rparr>"
  by (cases "e_class e")
    (simp_all add: resolve_def raised_def default_registry_def register_def from_istos_error_def)

lemma resolve_mro_spec:
  "resolve_mro reg mro = (case dropWhile (\<lambda>k. map_of reg k = None) mro of
      [] \<Rightarrow> None | k # _ \<Rightarrow> Some (the (map_of reg k)))"
  by (induction mro) (auto split: option.split)

lemma resolve_mro_cong: "map_of r = map_of r' \<Longrightarrow> resolve_mro r mro = resolve_mro r' mro"
  by (induction mro) (simp_all split: option.split)

lemma error_payload_recognised [simp]: "is_error_payload (PDict (error_to_dict r))"
  by (simp add: is_error_payload_def)

lemma rebuilt_code:
  "map_of CODE_TO_ERROR c = Some mk \<Longrightarrow> er_code r = PStr c \<Longrightarrow>
   error_from_payload (error_to_dict r) dflt =
     Inr (mk (er_message r) (er_details r)
       (if truthy (er_correlation_id r) then er_correlation_id r else PNone))"
  by (simp add: error_from_payload_def Let_def)

lemma rebuilt_plain:
  "map_of CODE_TO_ERROR c = None \<Longrightarrow> er_code r = PStr c \<Longrightarrow>
   error_from_payload (error_to_dict r) dflt =
     Inr (istos_error_init IstosError (er_message r) (PStr c)
       (dict_get CODE_TO_STATUS c DEFAULT_ERROR_STATUS) (er_details r)
       (if truthy (er_correlation_id r) then er_correlation_id r else PNone))"
  by (simp add: error_from_payload_def Let_def dict_get_def [of CODE_TO_STATUS])

lemma code_to_error [simp]:
  "map_of CODE_TO_ERROR ''not_found'' = Some not_found_error"
  "map_of CODE_TO_ERROR ''unauthorized'' = Some unauthorized_error"
  "map_of CODE_TO_ERROR ''forbidden'' = Some forbidden_error"
  "map_of CODE_TO_ERROR ''conflict'' = Some conflict_error"
  "map_of CODE_TO_ERROR ''rate_limit_exceeded'' = Some rate_limit_error"
  by (simp_all add: CODE_TO_ERROR_def)

lemmas coded_errors = not_found_error_def unauthorized_error_def forbidden_error_def
  conflict_error_def rate_limit_error_def istos_error_init_def

section \<open>Properties\<close>

text \<open>An error raised by a responder reaches the caller as it was raised: for every class with a
  wire code, and for a plain error whose status is its code's, the payload is recognised as an
  error and rebuilds to the same class, code, status, message and details, with the same
  retryability.\<close>

theorem error_survives_the_hop:
  assumes "e = not_found_error m d PNone \<or> e = unauthorized_error m d PNone
      \<or> e = forbidden_error m d PNone \<or> e = conflict_error m d PNone \<or> e = rate_limit_error m d PNone
      \<or> e = istos_error_init IstosError m (PStr c) (dict_get CODE_TO_STATUS c DEFAULT_ERROR_STATUS) d PNone
          \<and> map_of CODE_TO_ERROR c = None"
  shows "is_error_payload (PDict (error_to_dict (resolve default_registry (raised e))))
    \<and> error_from_payload (error_to_dict (resolve default_registry (raised e))) dflt = Inr e"
proof -
  have r: "resolve default_registry (raised e) =
      \<lparr>er_error = e_code e, er_code = e_code e, er_message = e_message e,
       er_correlation_id = PNone, er_details = e_details e\<rparr>"
    by (rule resolve_default)
  have coded: "error_from_payload (error_to_dict (resolve default_registry (raised e))) dflt = Inr e"
    if "map_of CODE_TO_ERROR c = Some mk" "e = mk m d PNone"
      and "e_code e = PStr c \<and> e_message e = m \<and> e_details e = d" for c mk
    using that(3) by (simp add: r rebuilt_code [OF that(1)] that(2) [symmetric])
  from assms have "error_from_payload (error_to_dict (resolve default_registry (raised e))) dflt = Inr e"
  proof (elim disjE conjE)
    assume "e = not_found_error m d PNone"
    then show ?thesis by (rule coded [OF code_to_error(1)]) (simp add: coded_errors \<open>e = _\<close>)
  next
    assume "e = unauthorized_error m d PNone"
    then show ?thesis by (rule coded [OF code_to_error(2)]) (simp add: coded_errors \<open>e = _\<close>)
  next
    assume "e = forbidden_error m d PNone"
    then show ?thesis by (rule coded [OF code_to_error(3)]) (simp add: coded_errors \<open>e = _\<close>)
  next
    assume "e = conflict_error m d PNone"
    then show ?thesis by (rule coded [OF code_to_error(4)]) (simp add: coded_errors \<open>e = _\<close>)
  next
    assume "e = rate_limit_error m d PNone"
    then show ?thesis by (rule coded [OF code_to_error(5)]) (simp add: coded_errors \<open>e = _\<close>)
  next
    assume e: "e = istos_error_init IstosError m (PStr c)
        (dict_get CODE_TO_STATUS c DEFAULT_ERROR_STATUS) d PNone"
      and c: "map_of CODE_TO_ERROR c = None"
    have "e_code e = PStr c" "e_message e = m" "e_details e = d"
      by (simp_all add: e istos_error_init_def)
    then show ?thesis by (simp add: r rebuilt_plain [OF c]) (simp add: e)
  qed
  then show ?thesis by simp
qed

lemma error_survives_the_hop_witness:
  "error_from_payload (error_to_dict (resolve default_registry
      (raised (conflict_error (PStr ''busy'') PNone PNone)))) PNone
    = Inr (conflict_error (PStr ''busy'') PNone PNone)"
  using error_survives_the_hop [of "conflict_error (PStr ''busy'') PNone PNone" "PStr ''busy''" PNone]
  by blast

text \<open>An exception is answered by the handler of the most specific of its classes that has one,
  whatever the order of registration; with none, by the generic internal error.\<close>

theorem resolve_most_specific:
  "resolve reg x =
     (case dropWhile (\<lambda>k. map_of reg k = None) (x_mro x) of
        [] \<Rightarrow> internal_error_response
      | k # _ \<Rightarrow> the (map_of reg k) x)
   \<and> (k1 \<noteq> k2 \<longrightarrow> resolve (register k1 h1 (register k2 h2 reg)) x
                  = resolve (register k2 h2 (register k1 h1 reg)) x)"
proof
  show "resolve reg x = (case dropWhile (\<lambda>k. map_of reg k = None) (x_mro x) of
      [] \<Rightarrow> internal_error_response | k # _ \<Rightarrow> the (map_of reg k) x)"
    by (cases "dropWhile (\<lambda>k. map_of reg k = None) (x_mro x)")
      (simp_all add: resolve_def resolve_mro_spec del: dropWhile_eq_Nil_conv)
  have "map_of (register k1 h1 (register k2 h2 reg)) = map_of (register k2 h2 (register k1 h1 reg))"
    if "k1 \<noteq> k2"
    unfolding register_def map_of_update using that [symmetric] by (rule fun_upd_twist)
  then show "k1 \<noteq> k2 \<longrightarrow> resolve (register k1 h1 (register k2 h2 reg)) x
      = resolve (register k2 h2 (register k1 h1 reg)) x"
    unfolding resolve_def using resolve_mro_cong by metis
qed

lemma resolve_most_specific_witness:
  "resolve (register ''NotFoundError'' (\<lambda>x. internal_error_response) default_registry)
      (raised (not_found_error (PStr ''gone'') PNone PNone)) = internal_error_response"
  using resolve_most_specific [of "register ''NotFoundError'' (\<lambda>x. internal_error_response)
      default_registry" "raised (not_found_error (PStr ''gone'') PNone PNone)"]
  by (simp add: raised_def not_found_error_def istos_error_init_def register_def default_registry_def)

text \<open>A decode error says of itself that retrying is useless; behind a hop the class is lost and the
  caller may retry it.\<close>

lemma decode_error_becomes_retryable:
  "\<not> is_retryable (raised (reply_decode_error m d PNone))
   \<and> (\<exists>e. error_from_payload (error_to_dict (resolve default_registry
             (raised (reply_decode_error m d PNone)))) dflt = Inr e \<and> is_retryable (raised e))"
proof -
  have c: "map_of CODE_TO_ERROR ''decode_error'' = None" "map_of CODE_TO_STATUS ''decode_error'' = None"
    by (simp_all add: CODE_TO_ERROR_def CODE_TO_STATUS_def)
  have f: "e_code (reply_decode_error m d PNone) = PStr ''decode_error''"
    by (simp add: reply_decode_error_def istos_error_init_def)
  have st: "dict_get CODE_TO_STATUS ''decode_error'' DEFAULT_ERROR_STATUS = 500"
    by (simp only: dict_get_def c(2) option.case DEFAULT_ERROR_STATUS_def)
  let ?e = "reply_decode_error m d PNone"
  have p: "error_from_payload (error_to_dict (resolve default_registry (raised ?e))) dflt =
      Inr (istos_error_init IstosError (e_message ?e) (PStr ''decode_error'') 500 (e_details ?e) PNone)"
    unfolding resolve_default by (subst rebuilt_plain [OF c(1)]) (simp_all only: f st
        error_response.simps truthy.simps if_False)
  show ?thesis unfolding p
    by (simp add: is_retryable_def raised_def istos_error_init_def reply_decode_error_def)
qed

end
