(* ===== verification/Context.thy ===== *)
theory Context
  imports PyText Errors
begin

text \<open>
  The request envelope and the request context of \<open>context.py\<close>: what a caller attaches to a
  request, how a receiver reads it, and what of it is let into logs and traces. \<open>json.dumps\<close>,
  \<open>json.loads\<close> and \<open>uuid4\<close> are arguments; the text of an attachment is its UTF-8 bytes.
\<close>

section \<open>The envelope\<close>

text \<open>The fields are strings or \<open>None\<close> when the program writes them; a peer's JSON may hold anything.\<close>

record envelope =
  env_token :: pyval
  env_correlation_id :: pyval
  env_traceparent :: pyval

definition empty_envelope :: envelope where
  "empty_envelope = \<lparr>env_token = PNone, env_correlation_id = PNone, env_traceparent = PNone\<rparr>"

text \<open>An envelope the program builds: its token is text, if there is one.\<close>

definition envelope_dict :: "envelope \<Rightarrow> (string, pyval) dict" where
  "envelope_dict e =
     (if env_token e \<noteq> PNone then [(''tok'', env_token e)] else [])
     @ (if env_correlation_id e \<noteq> PNone then [(''cid'', env_correlation_id e)] else [])
     @ (if env_traceparent e \<noteq> PNone then [(''tp'', env_traceparent e)] else [])"

definition to_attachment :: "(pyval \<Rightarrow> string) \<Rightarrow> envelope \<Rightarrow> bytes option" where
  "to_attachment dumps e =
     (if env_correlation_id e = PNone \<and> env_traceparent e = PNone
      then (case env_token e of PStr s \<Rightarrow> Some (encode_utf8 s) | _ \<Rightarrow> None)
      else Some (encode_utf8 (dumps (PDict (envelope_dict e)))))"

definition from_attachment :: "(string \<Rightarrow> pyval res) \<Rightarrow> bytes option \<Rightarrow> envelope" where
  "from_attachment loads raw =
     (case raw of
        None \<Rightarrow> empty_envelope
      | Some bs \<Rightarrow>
          (case decode_utf8 bs of
             None \<Rightarrow> empty_envelope
           | Some text \<Rightarrow>
               (let stripped = strip text;
                    bare = empty_envelope\<lparr>env_token := PStr text\<rparr>
                in if starts_with stripped ''{'' \<and> ends_with stripped ''}'' then
                     (case loads stripped of
                        Inr (PDict d) \<Rightarrow>
                          if list_ex (\<lambda>k. map_of d k \<noteq> None) [''tok'', ''cid'', ''tp'']
                          then \<lparr>env_token = dict_get d ''tok'' PNone,
                                env_correlation_id = dict_get d ''cid'' PNone,
                                env_traceparent = dict_get d ''tp'' PNone\<rparr>
                          else bare
                      | _ \<Rightarrow> bare)
                   else bare)))"

section \<open>Sanitizing\<close>

definition CORRELATION_ID_MAX :: nat where "CORRELATION_ID_MAX = 200"

definition sanitize_correlation_id :: "pyval \<Rightarrow> string option" where
  "sanitize_correlation_id value =
     (case value of
        PStr s \<Rightarrow>
          if s = [] \<or> py_len s > CORRELATION_ID_MAX then None
          else if list_ex (\<lambda>c. (of_char c :: nat) < 32 \<or> c = CHR 0x22 \<or> c = CHR 0x5C) s then None
          else Some s
      | _ \<Rightarrow> None)"

definition is_hex_lower :: "char \<Rightarrow> bool" where
  "is_hex_lower c \<longleftrightarrow> is_digit c \<or> c \<in> set ''abcdef''"

definition hex_group :: "nat \<Rightarrow> string \<Rightarrow> bool" where
  "hex_group n s \<longleftrightarrow> length s = n \<and> list_all is_hex_lower s"

text \<open>The regular expression: groups of 2, 32, 16 and 2 hexadecimal digits, joined by dashes.\<close>

definition traceparent_re :: "string \<Rightarrow> bool" where
  "traceparent_re s \<longleftrightarrow>
     (case split_on (CHR ''-'') s of
        [v, t, p, f] \<Rightarrow> hex_group 2 v \<and> hex_group 32 t \<and> hex_group 16 p \<and> hex_group 2 f
      | _ \<Rightarrow> False)"

definition sanitize_traceparent :: "pyval \<Rightarrow> string option" where
  "sanitize_traceparent value =
     (case value of
        PStr s \<Rightarrow>
          (let candidate = map lower_char (strip s)
           in if \<not> traceparent_re candidate \<or> starts_with candidate ''ff'' then None
              else (case split_on (CHR ''-'') candidate of
                      [v, trace_id, span_id, f] \<Rightarrow>
                        if trace_id = replicate 32 (CHR ''0'') \<or> span_id = replicate 16 (CHR ''0'')
                        then None else Some candidate
                    | _ \<Rightarrow> None))
      | _ \<Rightarrow> None)"

section \<open>The request context\<close>

record 'p request_context =
  rc_correlation_id :: string
  rc_prefix :: string
  rc_operation :: string
  rc_principal :: "'p option"
  rc_attachment :: "bytes option"
  rc_traceparent :: "string option"

definition context_token :: "(string \<Rightarrow> pyval res) \<Rightarrow> 'p request_context \<Rightarrow> pyval" where
  "context_token loads c = env_token (from_attachment loads (rc_attachment c))"

definition ingress_context ::
  "(string \<Rightarrow> pyval res) \<Rightarrow> string \<Rightarrow> string \<Rightarrow> string \<Rightarrow> bytes option \<Rightarrow> 'p option
   \<Rightarrow> 'p request_context" where
  "ingress_context loads uuid prefix operation attachment ident =
     (let env = from_attachment loads attachment
      in \<lparr>rc_correlation_id =
            (case sanitize_correlation_id (env_correlation_id env) of
               None \<Rightarrow> uuid | Some s \<Rightarrow> if s = [] then uuid else s),
          rc_prefix = prefix, rc_operation = operation, rc_principal = ident,
          rc_attachment = attachment,
          rc_traceparent = sanitize_traceparent (env_traceparent env)\<rparr>)"

section \<open>Lemmas\<close>

lemma encode_decode_utf8 [simp]:
  "utf8_valid (map of_char s) \<Longrightarrow> decode_utf8 (encode_utf8 s) = Some s"
proof -
  have n: "unat (of_nat (of_char c) :: 8 word) = of_char c" for c
    using nat_of_char_less_256 [of c] by (simp add: unat_of_nat)
  show "utf8_valid (map of_char s) \<Longrightarrow> ?thesis"
    by (simp add: decode_utf8_def encode_utf8_def comp_def n)
qed

definition optional_text :: "pyval \<Rightarrow> bool" where
  "optional_text v \<longleftrightarrow> v = PNone \<or> (\<exists>s. v = PStr s)"

text \<open>What \<open>json\<close> documents of the compact text of an object: it reads back, and it is an object.\<close>

definition json_object_text :: "(pyval \<Rightarrow> string) \<Rightarrow> (string \<Rightarrow> pyval res) \<Rightarrow> pyval \<Rightarrow> bool" where
  "json_object_text dumps loads v \<longleftrightarrow>
     loads (dumps v) = Inr v \<and> strip (dumps v) = dumps v \<and> utf8_valid (map of_char (dumps v))
     \<and> starts_with (dumps v) ''{'' \<and> ends_with (dumps v) ''}''"

section \<open>Properties\<close>

text \<open>What a caller puts in an envelope is what the receiver reads: with a correlation id or a
  trace, through JSON; a token alone as bare text, unless that text itself reads as an envelope.\<close>

theorem envelope_round_trip:
  assumes "optional_text (env_token e)"
    and "json_object_text dumps loads (PDict (envelope_dict e))"
    and "\<And>s. env_token e = PStr s \<Longrightarrow> utf8_valid (map of_char s)"
    and "env_correlation_id e = PNone \<and> env_traceparent e = PNone \<Longrightarrow>
      \<forall>s. env_token e = PStr s \<longrightarrow> \<not> starts_with (strip s) ''{''"
  shows "from_attachment loads (to_attachment dumps e) = e"
proof (cases "env_correlation_id e = PNone \<and> env_traceparent e = PNone")
  case True
  then show ?thesis
    using assms(1,3,4)
    by (cases "env_token e")
      (auto simp: optional_text_def to_attachment_def from_attachment_def empty_envelope_def Let_def)
next
  case False
  let ?d = "envelope_dict e"
  have j: "loads (dumps (PDict ?d)) = Inr (PDict ?d)" "strip (dumps (PDict ?d)) = dumps (PDict ?d)"
      "utf8_valid (map of_char (dumps (PDict ?d)))" "starts_with (dumps (PDict ?d)) ''{''"
      "ends_with (dumps (PDict ?d)) ''}''"
    using assms(2) by (simp_all add: json_object_text_def)
  have a: "to_attachment dumps e = Some (encode_utf8 (dumps (PDict ?d)))"
    using False by (simp only: to_attachment_def if_False)
  have k: "list_ex (\<lambda>k. map_of ?d k \<noteq> None) [''tok'', ''cid'', ''tp'']"
    using False by (auto simp: envelope_dict_def)
  have g: "dict_get ?d ''tok'' PNone = env_token e" "dict_get ?d ''cid'' PNone = env_correlation_id e"
      "dict_get ?d ''tp'' PNone = env_traceparent e"
    by (simp_all add: dict_get_def envelope_dict_def)
  have "from_attachment loads (to_attachment dumps e) =
      \<lparr>env_token = env_token e, env_correlation_id = env_correlation_id e,
       env_traceparent = env_traceparent e\<rparr>"
    unfolding a from_attachment_def option.case encode_decode_utf8 [OF j(3)] Let_def j(1,2)
    using k g j(4,5) by (simp only: sum.case pyval.case if_True simp_thms)
  then show ?thesis by simp
qed

lemma envelope_round_trip_witness:
  "from_attachment (\<lambda>_. Inr (PDict [(''cid'', PStr ''c1'')]))
     (to_attachment (\<lambda>_. ''{...}'')
       \<lparr>env_token = PNone, env_correlation_id = PStr ''c1'', env_traceparent = PNone\<rparr>)
   = \<lparr>env_token = PNone, env_correlation_id = PStr ''c1'', env_traceparent = PNone\<rparr>"
proof (rule envelope_round_trip)
  show "json_object_text (\<lambda>_. ''{...}'') (\<lambda>_. Inr (PDict [(''cid'', PStr ''c1'')]))
      (PDict (envelope_dict
        \<lparr>env_token = PNone, env_correlation_id = PStr ''c1'', env_traceparent = PNone\<rparr>))"
    by code_simp
qed (simp_all add: optional_text_def)

text \<open>What reaches logs and traces of a peer's envelope is safe: a correlation id is never
  empty, too long or able to break a log line, and a trace parent has the W3C form with non-zero
  ids; anything else is replaced or dropped.\<close>

theorem ingress_is_sanitized:
  assumes "uuid \<noteq> []"
  shows "rc_correlation_id (ingress_context loads uuid prefix op att ident) \<noteq> []
    \<and> (rc_correlation_id (ingress_context loads uuid prefix op att ident) = uuid
       \<or> py_len (rc_correlation_id (ingress_context loads uuid prefix op att ident)) \<le> 200
         \<and> (\<forall>c \<in> set (rc_correlation_id (ingress_context loads uuid prefix op att ident)).
              32 \<le> (of_char c :: nat) \<and> c \<noteq> CHR 0x22 \<and> c \<noteq> CHR 0x5C))
    \<and> (\<forall>tp. rc_traceparent (ingress_context loads uuid prefix op att ident) = Some tp \<longrightarrow>
         (\<exists>v t p f. split_on (CHR ''-'') tp = [v, t, p, f] \<and> hex_group 2 v \<and> v \<noteq> ''ff''
            \<and> hex_group 32 t \<and> t \<noteq> replicate 32 (CHR ''0'')
            \<and> hex_group 16 p \<and> p \<noteq> replicate 16 (CHR ''0'') \<and> hex_group 2 f))"
proof -
  let ?c = "sanitize_correlation_id (env_correlation_id (from_attachment loads att))"
  have cid: "s \<noteq> [] \<and> py_len s \<le> 200 \<and> (\<forall>c \<in> set s. 32 \<le> (of_char c :: nat) \<and> c \<noteq> CHR 0x22 \<and> c \<noteq> CHR 0x5C)"
    if "sanitize_correlation_id v = Some s" for v s
    using that by (auto simp: sanitize_correlation_id_def CORRELATION_ID_MAX_def list_ex_iff not_less
        split: pyval.splits if_splits)
  have tp: "\<exists>v t p f. split_on (CHR ''-'') tp = [v, t, p, f] \<and> hex_group 2 v \<and> v \<noteq> ''ff''
      \<and> hex_group 32 t \<and> t \<noteq> replicate 32 (CHR ''0'')
      \<and> hex_group 16 p \<and> p \<noteq> replicate 16 (CHR ''0'') \<and> hex_group 2 f"
    if "sanitize_traceparent v = Some tp" for v tp
  proof -
    have re: "traceparent_re tp" "\<not> starts_with tp ''ff''"
      using that by (auto simp: sanitize_traceparent_def Let_def split: pyval.splits if_splits list.splits)
    then obtain a b c d where s: "split_on (CHR ''-'') tp = [a, b, c, d]" "hex_group 2 a"
        "hex_group 32 b" "hex_group 16 c" "hex_group 2 d"
      by (auto simp: traceparent_re_def split: list.splits)
    have "b \<noteq> replicate 32 (CHR ''0'') \<and> c \<noteq> replicate 16 (CHR ''0'')"
      using that s(1) by (auto simp: sanitize_traceparent_def Let_def split: pyval.splits if_splits list.splits)
    moreover have "a \<noteq> ''ff''"
    proof
      assume "a = ''ff''"
      then have "tp = ''ff-'' @ join ''-'' [b, c, d]"
        using join_split_on [of "CHR ''-''" tp] s(1) by (simp add: join_Cons)
      then show False using re(2) by (simp add: starts_with_def)
    qed
    ultimately show ?thesis using s by blast
  qed
  let ?r = "ingress_context loads uuid prefix op att ident"
  have "rc_correlation_id ?r = uuid \<or> ?c = Some (rc_correlation_id ?r)"
    by (auto simp: ingress_context_def Let_def split: option.split)
  then have "rc_correlation_id ?r \<noteq> [] \<and> (rc_correlation_id ?r = uuid
      \<or> py_len (rc_correlation_id ?r) \<le> 200 \<and> (\<forall>c \<in> set (rc_correlation_id ?r).
          32 \<le> (of_char c :: nat) \<and> c \<noteq> CHR 0x22 \<and> c \<noteq> CHR 0x5C))"
  proof
    assume "?c = Some (rc_correlation_id ?r)"
    from cid [OF this] show ?thesis by simp
  qed (simp add: assms)
  moreover have "rc_traceparent ?r =
      sanitize_traceparent (env_traceparent (from_attachment loads att))"
    by (simp add: ingress_context_def Let_def)
  ultimately show ?thesis using tp by simp
qed

lemma ingress_is_sanitized_witness:
  "rc_correlation_id (ingress_context (\<lambda>_. Inl (ValueError [])) ''u'' ''p'' ''handle'' None (None :: nat option))
     \<noteq> []"
  using ingress_is_sanitized [of "''u''"] by blast

end
