(* ===== verification/Authz.thy ===== *)
theory Authz
  imports Context
begin

text \<open>
  \<open>security/authz.py\<close>: authorizers as functions of the request's context that allow, allow with an
  identity, deny or raise, and may set the context's identity; their layering; tokens, JSON Web
  Tokens and roles. The signature check \<open>jwt.decode\<close> is an argument (\<open>None\<close> for a \<open>PyJWTError\<close>),
  and so are \<open>json.loads\<close> and \<open>str\<close>.
\<close>

section \<open>The context and its identity\<close>

text \<open>An identity: its \<open>id\<close>, its \<open>roles\<close> (\<open>None\<close> when the object has no such attribute), its claims.\<close>

record identity =
  p_id :: string
  p_roles :: "string set option"
  p_claims :: "(string, pyval) dict"

definition has_role :: "string \<Rightarrow> identity \<Rightarrow> bool" where
  "has_role r p \<longleftrightarrow> (case p_roles p of None \<Rightarrow> False | Some rs \<Rightarrow> r \<in> rs)"

record auth_context =
  a_prefix :: string
  a_key_expr :: string
  a_params :: "(string, string) dict"
  a_attachment :: "bytes option"
  a_operation :: string
  a_principal :: "identity option"

definition auth_token :: "(string \<Rightarrow> pyval res) \<Rightarrow> auth_context \<Rightarrow> pyval" where
  "auth_token loads ctx = env_token (from_attachment loads (a_attachment ctx))"

text \<open>A falsy return, a bare \<open>True\<close>, or an identity.\<close>

datatype auth_result = Denied | Allowed | Identified identity

type_synonym authorizer = "auth_context \<Rightarrow> (exc + auth_result) \<times> auth_context"

definition type_error_exc :: exc where
  "type_error_exc = \<lparr>x_mro = [''TypeError'', ''Exception'', ''BaseException'', ''object''],
     x_istos = None, x_str = [], x_errors = PNone\<rparr>"

definition check_authorized ::
  "authorizer option \<Rightarrow> auth_context \<Rightarrow> (exc + identity option) \<times> auth_context" where
  "check_authorized authorizer ctx =
     (case authorizer of
        None \<Rightarrow> (Inr None, ctx)
      | Some f \<Rightarrow>
          (case f ctx of
             (Inl e, c) \<Rightarrow> (Inl e, c)
           | (Inr Denied, c) \<Rightarrow>
               (Inl (raised (unauthorized_error
                  (PStr (''Not authorized for '' @ [CHR 0x27] @ a_prefix c @ [CHR 0x27])) PNone PNone)), c)
           | (Inr Allowed, c) \<Rightarrow> (Inr None, c)
           | (Inr (Identified p), c) \<Rightarrow> (Inr (Some p), c)))"

section \<open>Layering\<close>

datatype handler_authorizer = NoGuard | Public | Guard authorizer

definition layered :: "authorizer \<Rightarrow> authorizer \<Rightarrow> authorizer" where
  "layered app handler ctx =
     (case check_authorized (Some app) ctx of
        (Inl e, c) \<Rightarrow> (Inl e, c)
      | (Inr app_principal, c) \<Rightarrow>
          (case check_authorized (Some handler) (c\<lparr>a_principal := app_principal\<rparr>) of
             (Inl e, c') \<Rightarrow> (Inl e, c')
           | (Inr (Some p), c') \<Rightarrow> (Inr (Identified p), c')
           | (Inr None, c') \<Rightarrow>
               (Inr (case app_principal of Some p \<Rightarrow> Identified p | None \<Rightarrow> Allowed), c')))"

definition combine_authorizers ::
  "authorizer option \<Rightarrow> handler_authorizer \<Rightarrow> authorizer option" where
  "combine_authorizers app handler =
     (case handler of
        Public \<Rightarrow> None
      | NoGuard \<Rightarrow> app
      | Guard h \<Rightarrow> (case app of None \<Rightarrow> Some h | Some a \<Rightarrow> Some (layered a h)))"

section \<open>Tokens\<close>

datatype tokens_arg =
    OneToken string
  | TokenMap "(string, identity) dict"
  | TokenList "string list"

record token_authorizer =
  ta_tokens :: "string set"
  ta_principals :: "(string, identity) dict"

definition token_authorizer_init :: "tokens_arg \<Rightarrow> token_authorizer res" where
  "token_authorizer_init tokens =
     (let ts = (case tokens of OneToken t \<Rightarrow> {t} | TokenMap m \<Rightarrow> fst ` set m | TokenList l \<Rightarrow> set l);
          ps = (case tokens of TokenMap m \<Rightarrow> m | _ \<Rightarrow> [])
      in if ts = {} then Inl (ValueError ''TokenAuthorizer requires at least one token'')
         else Inr \<lparr>ta_tokens = ts, ta_principals = ps\<rparr>)"

definition token_authorizer_call :: "(string \<Rightarrow> pyval res) \<Rightarrow> token_authorizer \<Rightarrow> authorizer" where
  "token_authorizer_call loads a ctx =
     ((case auth_token loads ctx of
         PStr s \<Rightarrow> Inr (if s \<notin> ta_tokens a then Denied
                       else case map_of (ta_principals a) s of None \<Rightarrow> Allowed | Some p \<Rightarrow> Identified p)
       | PList _ \<Rightarrow> Inl type_error_exc
       | PDict _ \<Rightarrow> Inl type_error_exc
       | _ \<Rightarrow> Inr Denied), ctx)"

section \<open>JSON Web Tokens\<close>

datatype family = Hmac | Asymmetric

definition jwt_family :: "string \<Rightarrow> family res" where
  "jwt_family algorithm =
     (let name = map upper_char algorithm
      in if starts_with name ''HS'' then Inr Hmac
         else if list_ex (starts_with name) [''RS'', ''ES'', ''PS'', ''ED''] then Inr Asymmetric
         else Inl (ValueError ''Unsupported JWT algorithm''))"

fun jwt_families :: "string list \<Rightarrow> family set res" where
  "jwt_families [] = Inr {}"
| "jwt_families (a # as) =
     res_bind (jwt_family a) (\<lambda>f. res_bind (jwt_families as) (\<lambda>fs. Inr (insert f fs)))"

record jwt_authorizer =
  jwt_key :: string
  jwt_algorithms :: "string list"
  jwt_roles_claim :: string
  jwt_id_claim :: string

definition jwt_authorizer_init ::
  "string option \<Rightarrow> string option \<Rightarrow> string list \<Rightarrow> string \<Rightarrow> string \<Rightarrow> jwt_authorizer res" where
  "jwt_authorizer_init secret public_key algorithms roles_claim id_claim =
     (if ''none'' \<in> set (map (map lower_char) algorithms)
      then Inl (ValueError ''The none JWT algorithm is unsafe and not allowed.'')
      else if public_key \<noteq> None \<and> secret \<noteq> None
      then Inl (ValueError ''Pass secret or public_key, not both.'')
      else res_bind (jwt_families algorithms) (\<lambda>families.
        let build = (\<lambda>k. \<lparr>jwt_key = k, jwt_algorithms = algorithms,
                         jwt_roles_claim = roles_claim, jwt_id_claim = id_claim\<rparr>)
        in case public_key of
             Some k \<Rightarrow> if families \<noteq> {Asymmetric}
                       then Inl (ValueError ''public_key requires asymmetric algorithms'')
                       else Inr (build k)
           | None \<Rightarrow>
               (case secret of
                  Some k \<Rightarrow> if families \<noteq> {Hmac}
                            then Inl (ValueError ''secret requires HMAC algorithms'')
                            else Inr (build k)
                | None \<Rightarrow> Inl (ValueError ''JWTAuthorizer requires a secret or public_key.''))))"

definition as_roles :: "(pyval \<Rightarrow> string) \<Rightarrow> pyval \<Rightarrow> string set" where
  "as_roles py_str value =
     (case value of
        PStr s \<Rightarrow> set (words (map (\<lambda>c. if c = CHR '','' then CHR '' '' else c) s))
      | PList vs \<Rightarrow> set (map py_str vs)
      | _ \<Rightarrow> {})"

definition jwt_authorizer_call ::
  "(string \<Rightarrow> pyval res) \<Rightarrow> (pyval \<Rightarrow> string)
   \<Rightarrow> (string \<Rightarrow> string list \<Rightarrow> pyval \<Rightarrow> (string, pyval) dict option) \<Rightarrow> jwt_authorizer \<Rightarrow> authorizer" where
  "jwt_authorizer_call loads py_str jwt_decode a ctx =
     (let token = auth_token loads ctx
      in (Inr (if \<not> truthy token then Denied
               else case jwt_decode (jwt_key a) (jwt_algorithms a) token of
                      None \<Rightarrow> Denied
                    | Some payload \<Rightarrow>
                        (let ident = dict_get payload (jwt_id_claim a) PNone
                         in if ident = PNone \<or> strip (py_str ident) = [] then Denied
                            else Identified \<lparr>p_id = strip (py_str ident),
                                   p_roles = Some (as_roles py_str
                                     (dict_get payload (jwt_roles_claim a) PNone)),
                                   p_claims = payload\<rparr>)), ctx))"

section \<open>Roles\<close>

definition roles_of :: "identity \<Rightarrow> string set" where
  "roles_of p = (case p_roles p of None \<Rightarrow> {} | Some rs \<Rightarrow> rs)"

text \<open>The two guards differ in their messages only, which carry the sorted roles; here they name the prefix.\<close>

definition role_guard :: "string set \<Rightarrow> bool \<Rightarrow> authorizer option \<Rightarrow> authorizer" where
  "role_guard required any authenticator ctx =
     (let start = (case authenticator of
                     None \<Rightarrow> (Inr (a_principal ctx), ctx)
                   | Some f \<Rightarrow>
                       (case check_authorized (Some f) ctx of
                          (Inl e, c) \<Rightarrow> (Inl e, c)
                        | (Inr p, c) \<Rightarrow> (Inr p, c\<lparr>a_principal := p\<rparr>)))
      in case start of
           (Inl e, c) \<Rightarrow> (Inl e, c)
         | (Inr None, c) \<Rightarrow>
             (Inl (raised (unauthorized_error (PStr (''Authentication required for '' @ a_prefix c))
                PNone PNone)), c)
         | (Inr (Some p), c) \<Rightarrow>
             (let have_roles = roles_of p;
                  ok = (if any then required \<inter> have_roles \<noteq> {} else required \<subseteq> have_roles)
              in if \<not> ok
                 then (Inl (raised (forbidden_error (PStr ''Requires role(s)'') PNone PNone)), c)
                 else (Inr (Identified p), c)))"

definition require_roles ::
  "string list \<Rightarrow> string \<Rightarrow> authorizer option \<Rightarrow> authorizer res" where
  "require_roles roles mode authenticator =
     (if roles = [] then Inl (ValueError ''require_roles() needs at least one role'')
      else if mode \<noteq> ''all'' \<and> mode \<noteq> ''any'' then Inl (ValueError ''mode must be all or any'')
      else Inr (role_guard (set roles) (mode = ''any'') authenticator))"

section \<open>Lemmas\<close>

lemma check_authorized_Some:
  "check_authorized (Some f) ctx = (Inr p, c) \<longleftrightarrow>
     f ctx = (Inr (case p of None \<Rightarrow> Allowed | Some i \<Rightarrow> Identified i), c)"
  by (auto simp: check_authorized_def split: sum.splits auth_result.splits option.splits prod.splits)

lemma check_layered:
  "check_authorized (Some (layered app h)) ctx = (Inr p, c) \<longleftrightarrow>
     (\<exists>ap c1 hp. check_authorized (Some app) ctx = (Inr ap, c1)
        \<and> check_authorized (Some h) (c1\<lparr>a_principal := ap\<rparr>) = (Inr hp, c)
        \<and> p = (case hp of None \<Rightarrow> ap | Some _ \<Rightarrow> hp))"
  unfolding check_authorized_Some [of "layered app h"] layered_def
  by (auto split: prod.splits sum.splits option.splits)

section \<open>Properties\<close>

text \<open>A handler's own guard only adds to the application's authorizer: the request passes exactly
  when both allow it, the guard seeing whom the application authenticated; without a guard the
  application decides alone, and only an explicitly public handler skips it.\<close>

theorem layered_defense:
  "(fst (check_authorized (combine_authorizers (Some app) (Guard h)) ctx) = Inr p \<longleftrightarrow>
      (\<exists>ap c1 hp. check_authorized (Some app) ctx = (Inr ap, c1)
         \<and> fst (check_authorized (Some h) (c1\<lparr>a_principal := ap\<rparr>)) = Inr hp
         \<and> p = (case hp of None \<Rightarrow> ap | Some _ \<Rightarrow> hp)))
   \<and> combine_authorizers (Some app) NoGuard = Some app
   \<and> check_authorized (combine_authorizers (Some app) Public) ctx = (Inr None, ctx)"
proof -
  have "fst (check_authorized (Some (layered app h)) ctx) = Inr p \<longleftrightarrow>
      (\<exists>c. check_authorized (Some (layered app h)) ctx = (Inr p, c))"
    by (cases "check_authorized (Some (layered app h)) ctx") auto
  moreover have "fst (check_authorized (Some h) x) = Inr hp \<longleftrightarrow>
      (\<exists>c. check_authorized (Some h) x = (Inr hp, c))" for x hp
    by (cases "check_authorized (Some h) x") auto
  ultimately show ?thesis
    by (auto simp: combine_authorizers_def check_layered) (simp_all add: check_authorized_def)
qed

text \<open>Under an application authorizer, a handler guarded by roles is reached exactly by identities
  with the required roles; an anonymous request is a 401, an identity without them a 403, and a
  request the application denies never gets to the roles.\<close>

theorem roles_enforced:
  assumes "require_roles roles mode None = Inr g"
  shows "(case check_authorized (Some app) ctx of
      (Inl e, c) \<Rightarrow> fst (check_authorized (combine_authorizers (Some app) (Guard g)) ctx) = Inl e
    | (Inr None, c) \<Rightarrow> (\<exists>e m. fst (check_authorized (combine_authorizers (Some app) (Guard g)) ctx)
          = Inl (raised e) \<and> e = unauthorized_error m PNone PNone)
    | (Inr (Some p), c) \<Rightarrow>
        if (if mode = ''any'' then \<exists>r \<in> set roles. r \<in> roles_of p else \<forall>r \<in> set roles. r \<in> roles_of p)
        then fst (check_authorized (combine_authorizers (Some app) (Guard g)) ctx) = Inr (Some p)
        else (\<exists>e m. fst (check_authorized (combine_authorizers (Some app) (Guard g)) ctx)
          = Inl (raised e) \<and> e = forbidden_error m PNone PNone))"
proof -
  have g: "g = role_guard (set roles) (mode = ''any'') None"
    using assms by (auto simp: require_roles_def split: if_splits)
  have c: "combine_authorizers (Some app) (Guard g) = Some (layered app g)"
    by (simp add: combine_authorizers_def)
  have ok: "(if mode = ''any'' then set roles \<inter> roles_of p \<noteq> {} else set roles \<subseteq> roles_of p) \<longleftrightarrow>
      (if mode = ''any'' then \<exists>r \<in> set roles. r \<in> roles_of p else \<forall>r \<in> set roles. r \<in> roles_of p)" for p
    by auto
  obtain out c1 where app: "check_authorized (Some app) ctx = (out, c1)" by fastforce
  consider e where "out = Inl e" | "out = Inr None" | p where "out = Inr (Some p)"
    by (metis obj_sumE option.exhaust)
  then show ?thesis
  proof cases
    case (1 e)
    then show ?thesis by (simp add: c app check_authorized_def [of "Some (layered app g)"] layered_def)
  next
    case 2
    obtain m c2 where "check_authorized (Some g) (c1\<lparr>a_principal := None\<rparr>) =
        (Inl (raised (unauthorized_error m PNone PNone)), c2)"
      by (simp add: g check_authorized_def role_guard_def)
    then show ?thesis using 2
      by (auto simp: c app check_authorized_def [of "Some (layered app g)"] layered_def)
  next
    case (3 p)
    define pass where "pass \<longleftrightarrow> (if mode = ''any'' then \<exists>r \<in> set roles. r \<in> roles_of p
        else \<forall>r \<in> set roles. r \<in> roles_of p)"
    have "if pass
      then check_authorized (Some g) (c1\<lparr>a_principal := Some p\<rparr>) = (Inr (Some p), c1\<lparr>a_principal := Some p\<rparr>)
      else \<exists>m c2. check_authorized (Some g) (c1\<lparr>a_principal := Some p\<rparr>) =
        (Inl (raised (forbidden_error m PNone PNone)), c2)"
      using ok [of p] by (auto simp: pass_def g check_authorized_def role_guard_def Let_def)
    then show ?thesis using 3 unfolding pass_def [symmetric] c
      by (auto simp: app check_authorized_def [of "Some (layered app g)"] layered_def pass_def [symmetric]
          split: if_splits)
  qed
qed

definition app_identity :: authorizer where
  "app_identity ctx = (Inr (Identified \<lparr>p_id = ''ops'', p_roles = Some {''user''}, p_claims = []\<rparr>), ctx)"

lemma roles_enforced_witness:
  "\<exists>g m. require_roles [''admin''] ''all'' None = Inr g
    \<and> fst (check_authorized (combine_authorizers (Some app_identity) (Guard g))
          \<lparr>a_prefix = ''admin/reset'', a_key_expr = ''admin/reset'', a_params = [], a_attachment = None,
           a_operation = ''handle'', a_principal = None\<rparr>)
        = Inl (raised (forbidden_error m PNone PNone))"
proof -
  let ?ctx = "\<lparr>a_prefix = ''admin/reset'', a_key_expr = ''admin/reset'', a_params = [],
    a_attachment = None, a_operation = ''handle'', a_principal = None\<rparr>"
  let ?g = "role_guard {''admin''} False None"
  have g: "require_roles [''admin''] ''all'' None = Inr ?g"
    by (simp add: require_roles_def)
  show ?thesis using roles_enforced [OF g, of app_identity ?ctx] g
    by (auto simp: check_authorized_def [of "Some app_identity"] app_identity_def roles_of_def)
qed

end
