(* ===== verification/Gateway.thy ===== *)
theory Gateway
  imports PyText Errors
begin

text \<open>
  The HTTP gateway's helpers, \<open>http/gateway.py\<close>: route specifications, SSE frames, the bearer
  header, and the encoding of parameters into a Zenoh selector with its decoding on the server
  side. \<open>json.dumps\<close> and the text of a number are arguments.
\<close>

section \<open>Routes\<close>

record http_route =
  hr_method :: string
  hr_path :: string
  hr_key_expr :: string
  hr_timeout_s :: time
  hr_sse :: bool

datatype http_spec = SpecTrue | SpecStr string | SpecOther

definition parse_http_spec :: "http_spec \<Rightarrow> string \<Rightarrow> time \<Rightarrow> bool \<Rightarrow> http_route res" where
  "parse_http_spec spec prefix timeout_s sse =
     (let default_method = (if sse then ''GET'' else ''POST'');
          default_path = ''/'' @ lstrip_char (CHR ''/'') prefix;
          route = (\<lambda>m p. \<lparr>hr_method = m, hr_path = p, hr_key_expr = prefix,
                          hr_timeout_s = timeout_s, hr_sse = sse\<rparr>);
          slashed = (\<lambda>p. if starts_with p ''/'' then p else ''/'' @ p)
      in case spec of
           SpecTrue \<Rightarrow> Inr (route default_method default_path)
         | SpecStr s \<Rightarrow>
             (case words s of
                [p] \<Rightarrow> Inr (route (map upper_char default_method) (slashed p))
              | [m, p] \<Rightarrow> Inr (route (map upper_char m) (slashed p))
              | _ \<Rightarrow> Inl (ValueError ''Invalid http spec''))
         | SpecOther \<Rightarrow> Inl (ValueError ''Invalid http spec''))"

section \<open>Frames and headers\<close>

definition sse_event :: "string \<Rightarrow> string option \<Rightarrow> string option \<Rightarrow> string" where
  "sse_event dat event i =
     (let id_lines = (case i of None \<Rightarrow> [] | Some x \<Rightarrow> [''id: '' @ x]);
          event_lines = (case event of None \<Rightarrow> [] | Some x \<Rightarrow> [''event: '' @ x]);
          data_lines = map (\<lambda>l. ''data: '' @ l) (split_on (CHR ''\<newline>'') dat)
      in join [CHR ''\<newline>''] (id_lines @ event_lines @ data_lines) @ [CHR ''\<newline>'', CHR ''\<newline>''])"

definition extract_bearer :: "string option \<Rightarrow> string option" where
  "extract_bearer auth_header =
     (case auth_header of
        None \<Rightarrow> None
      | Some h \<Rightarrow>
          if h = [] then None
          else (case split_word h of
                  [scheme, rest] \<Rightarrow> if map lower_char scheme = ''bearer'' then Some (strip rest)
                                    else Some (strip h)
                | _ \<Rightarrow> Some (strip h)))"

section \<open>Parameters\<close>

fun encode_value :: "(pyval \<Rightarrow> string) \<Rightarrow> (pyval \<Rightarrow> string) \<Rightarrow> pyval \<Rightarrow> string" where
  "encode_value py_str dumps (PBool b) = (if b then ''true'' else ''false'')"
| "encode_value py_str dumps (PStr s) = s"
| "encode_value py_str dumps (PInt i) = py_str (PInt i)"
| "encode_value py_str dumps (PFloat r) = py_str (PFloat r)"
| "encode_value py_str dumps v = dumps v"

text \<open>The result's keys are the keys of \<open>params\<close>, in order, so building it is a map.\<close>

definition encode_params ::
  "(pyval \<Rightarrow> string) \<Rightarrow> (pyval \<Rightarrow> string) \<Rightarrow> (string, pyval) dict \<Rightarrow> (string, string) dict" where
  "encode_params py_str dumps params =
     map (\<lambda>(k, v). (k, encode_value py_str dumps v)) (filter (\<lambda>(k, v). v \<noteq> PNone) params)"

text \<open>A later key that decodes to the same text overwrites the earlier one.\<close>

definition decode_params :: "(string, string) dict \<Rightarrow> (string, string) dict" where
  "decode_params raw = fold (\<lambda>(k, v) out. AList.update (unquote k) (unquote v) out) raw []"

definition build_selector ::
  "(pyval \<Rightarrow> string) \<Rightarrow> (pyval \<Rightarrow> string) \<Rightarrow> string \<Rightarrow> (string, pyval) dict \<Rightarrow> string" where
  "build_selector py_str dumps key_expr params =
     (let encoded = encode_params py_str dumps params
      in if encoded = [] then key_expr
         else key_expr @ ''?'' @ join '';'' (map (\<lambda>(k, v). quote k @ ''='' @ quote v) encoded))"

definition status_for_reply :: "pyval \<Rightarrow> int res" where
  "status_for_reply parsed =
     (if is_error_payload parsed then
        (case parsed of
           PDict d \<Rightarrow>
             res_bind (dict_item d ''code'') (\<lambda>code.
             res_bind (lookup_code CODE_TO_STATUS code) (\<lambda>st.
             Inr (case st of None \<Rightarrow> DEFAULT_ERROR_STATUS | Some n \<Rightarrow> n)))
         | _ \<Rightarrow> Inr 200)
      else Inr 200)"

section \<open>Lemmas\<close>

text \<open>How a selector reads, as documented: parameters after \<open>?\<close>, separated by \<open>;\<close>, each \<open>key=value\<close>.\<close>

definition selector_params :: "string \<Rightarrow> (string, string) dict" where
  "selector_params sel =
     (if CHR ''?'' \<in> set sel
      then map (split_once (CHR ''='')) (split_on (CHR '';'') (snd (split_once (CHR ''?'') sel)))
      else [])"

lemma quote_plain: "x \<in> set (quote s) \<Longrightarrow> x \<noteq> CHR '';'' \<and> x \<noteq> CHR ''=''"
  by (drule set_quote) (auto simp: quote_safe_def Let_def)

lemma split_pair: "split_once (CHR ''='') (quote k @ CHR ''='' # quote v) = (quote k, quote v)"
  by (rule split_once_at) (auto dest: quote_plain)

lemma selector_params_build:
  assumes "CHR ''?'' \<notin> set key_expr"
  shows "selector_params (build_selector py_str dumps key_expr params) =
    map (\<lambda>(k, v). (quote k, quote v)) (encode_params py_str dumps params)"
proof (cases "encode_params py_str dumps params = []")
  case True
  then show ?thesis using assms by (simp add: build_selector_def selector_params_def)
next
  case False
  let ?e = "encode_params py_str dumps params"
  let ?ws = "map (\<lambda>(k, v). quote k @ ''='' @ quote v) ?e"
  have "split_on (CHR '';'') (join '';'' ?ws) = ?ws"
    using False by (intro split_on_join) (auto dest: quote_plain)
  then show ?thesis using False assms
    by (simp add: build_selector_def selector_params_def split_once_at split_pair case_prod_unfold)
qed

lemma decode_quoted:
  "fold (\<lambda>(k, v) out. AList.update (unquote k) (unquote v) out)
     (map (\<lambda>(k, v). (quote k, quote v)) e) out = fold (\<lambda>(k, v) out. AList.update k v out) e out"
  by (induction e arbitrary: out) auto

lemma fold_update_distinct:
  "dict_ok (out @ e) \<Longrightarrow> fold (\<lambda>(k, v) out. AList.update k v out) e out = out @ e"
proof (induction e arbitrary: out)
  case (Cons kv e)
  obtain k v where kv: "kv = (k, v)" by fastforce
  have "k \<notin> dkeys out" using Cons.prems by (force simp: kv)
  then have "AList.update k v out = out @ [(k, v)]"
    by (induction out) auto
  then show ?case using Cons.IH [of "out @ [(k, v)]"] Cons.prems by (simp add: kv)
qed simp

lemma encode_params_ok: "dict_ok params \<Longrightarrow> dict_ok (encode_params py_str dumps params)"
  by (simp add: encode_params_def case_prod_unfold comp_def distinct_map_filter)

lemma decode_selector:
  assumes "CHR ''?'' \<notin> set key_expr" "dict_ok params"
  shows "decode_params (selector_params (build_selector py_str dumps key_expr params))
    = encode_params py_str dumps params"
  using fold_update_distinct [of "[]" "encode_params py_str dumps params"] encode_params_ok [OF assms(2)]
  by (simp add: selector_params_build [OF assms(1)] decode_params_def decode_quoted)

section \<open>Properties\<close>

text \<open>The handler receives the parameters the caller sent: decoding the parameters of a built
  selector gives back exactly the encoded ones, whatever characters keys and values contain.\<close>

theorem selector_round_trip:
  assumes "CHR ''?'' \<notin> set key_expr" "dict_ok params"
  shows "decode_params (selector_params (build_selector py_str dumps key_expr params))
    = encode_params py_str dumps params"
  using assms by (rule decode_selector)

lemma selector_round_trip_witness:
  "decode_params (selector_params (build_selector (\<lambda>_. []) (\<lambda>_. []) ''robot/move''
     [(''a=b'', PStr ''x;y''), (''n'', PNone), (''ok'', PBool True)]))
   = [(''a=b'', ''x;y''), (''ok'', ''true'')]"
  using selector_round_trip [of "''robot/move''"
      "[(''a=b'', PStr ''x;y''), (''n'', PNone), (''ok'', PBool True)]" "\<lambda>_. []" "\<lambda>_. []"]
  by (simp add: encode_params_def)

text \<open>A reply that carries the error marker but no code makes the status mapping itself fail.\<close>

lemma marked_reply_without_code:
  "status_for_reply (PDict [(ERROR_MARKER, PBool True)]) = Inl (KeyError ''code'')"
  by (simp add: status_for_reply_def is_error_payload_def dict_get_def dict_item_def ERROR_MARKER_def)

end
