(* ===== verification/QueueRole.thy ===== *)
theory QueueRole
  imports QueueProps Authz Gateway
begin

text \<open>
  The queue owner, \<open>queue/role.py\<close>: reading a query's parameters, the retry backoff, the seven
  queryables over the store, the sweeper's turn and the election of one leader among the owner
  replicas. A query is answered, or left unanswered when its handler raises (the exception stays
  in the scheduled coroutine). \<open>float\<close> on text, \<open>json.loads\<close>, clock readings, \<open>uuid4\<close> and
  random draws are arguments.
\<close>

section \<open>Queries and their parameters\<close>

record query =
  q_key_expr :: string
  q_params :: "(string, string) dict"
  q_payload :: "bytes option"
  q_attachment :: "bytes option"

definition query_params :: "query \<Rightarrow> (string, string) dict" where
  "query_params q = (if q_params q = [] then [] else decode_params (q_params q))"

definition query_payload :: "query \<Rightarrow> bytes" where
  "query_payload q = (case q_payload q of None \<Rightarrow> [] | Some p \<Rightarrow> p)"

definition as_float_param ::
  "(string \<Rightarrow> rat option) \<Rightarrow> (string, string) dict \<Rightarrow> string \<Rightarrow> rat \<Rightarrow> rat" where
  "as_float_param py_float params k dflt =
     (case map_of params k of
        None \<Rightarrow> dflt
      | Some s \<Rightarrow> (case py_float s of None \<Rightarrow> dflt | Some x \<Rightarrow> x))"

definition as_int_param :: "(string, string) dict \<Rightarrow> string \<Rightarrow> int \<Rightarrow> int" where
  "as_int_param params k dflt =
     (case map_of params k of
        None \<Rightarrow> dflt
      | Some s \<Rightarrow> (case py_int (strip s) of Inl _ \<Rightarrow> dflt | Inr i \<Rightarrow> i))"

definition fence :: "(string, string) dict \<Rightarrow> int option" where
  "fence params =
     (case map_of params ''attempt'' of
        None \<Rightarrow> None
      | Some s \<Rightarrow> (case py_int (strip s) of Inl _ \<Rightarrow> None | Inr i \<Rightarrow> Some i))"

section \<open>The role\<close>

record role =
  r_prefix :: string
  r_store :: store
  r_lease_s :: time
  r_max_attempts :: int
  retry_backoff_s :: time
  retry_backoff_max_s :: time
  retry_jitter :: rat
  r_ha :: bool
  r_authorizer :: "authorizer option"
  r_session :: bool
  r_id :: string
  r_members :: "string set"
  r_active :: bool
  r_queryables :: "string list"
  r_sweeper :: bool
  r_token :: bool

definition role_init ::
  "string \<Rightarrow> string \<Rightarrow> store \<Rightarrow> time \<Rightarrow> int \<Rightarrow> time \<Rightarrow> time \<Rightarrow> rat \<Rightarrow> bool \<Rightarrow> authorizer option \<Rightarrow> role"
  where
  "role_init uuid prefix store lease_s maxa backoff backoff_max jitter ha authorizer =
     \<lparr>r_prefix = rstrip_char (CHR ''/'') prefix, r_store = store, r_lease_s = lease_s,
      r_max_attempts = maxa, retry_backoff_s = backoff, retry_backoff_max_s = backoff_max,
      retry_jitter = jitter, r_ha = ha, r_authorizer = authorizer, r_session = False,
      r_id = uuid, r_members = {}, r_active = False, r_queryables = [], r_sweeper = False,
      r_token = False\<rparr>"

definition overflow_exc :: exc where
  "overflow_exc = \<lparr>x_mro = [''OverflowError'', ''ArithmeticError'', ''Exception'', ''BaseException'', ''object''],
     x_istos = None, x_str = ''int too large to convert to float'', x_errors = PNone\<rparr>"

definition unicode_exc :: exc where
  "unicode_exc = \<lparr>x_mro = [''UnicodeDecodeError'', ''UnicodeError'', ''ValueError'', ''Exception'',
       ''BaseException'', ''object''], x_istos = None, x_str = [], x_errors = PNone\<rparr>"

definition store_exc :: "pyerr \<Rightarrow> exc" where
  "store_exc e = \<lparr>x_mro = [''Exception'', ''BaseException'', ''object''],
     x_istos = None, x_str = [], x_errors = PNone\<rparr>"

text \<open>A float times \<open>2 ** n\<close> needs \<open>2 ** n\<close> as a float, which exists up to \<open>n = 1023\<close>.\<close>

definition backoff :: "rat \<Rightarrow> int \<Rightarrow> role \<Rightarrow> exc + time" where
  "backoff draw tries r =
     (if retry_backoff_s r \<le> 0 then Inr 0
      else if max 0 (tries - 1) > 1023 then Inl overflow_exc
      else
        (let d = min (retry_backoff_s r * 2 ^ nat (max 0 (tries - 1))) (retry_backoff_max_s r);
             d' = (if retry_jitter r \<noteq> 0 then d * (1 + draw * retry_jitter r) else d)
         in Inr (max 0 d')))"

section \<open>The queryables\<close>

datatype reply = Answered pyval | Unanswered exc

text \<open>What a handler does: its reply, whether workers are nudged, and the role.\<close>

type_synonym handled = "reply \<times> bool \<times> role"

datatype auth_outcome = Pass | Stop reply

definition is_unauthorized :: "exc \<Rightarrow> bool" where
  "is_unauthorized x \<longleftrightarrow> ''UnauthorizedError'' \<in> set (x_mro x)"

definition query_context :: "query \<Rightarrow> (string, string) dict \<Rightarrow> role \<Rightarrow> auth_context" where
  "query_context q params r =
     \<lparr>a_prefix = r_prefix r, a_key_expr = q_key_expr q, a_params = params,
      a_attachment = q_attachment q, a_operation = ''queue'', a_principal = None\<rparr>"

definition authorize :: "query \<Rightarrow> (string, string) dict \<Rightarrow> role \<Rightarrow> auth_outcome" where
  "authorize q params r =
     (case r_authorizer r of
        None \<Rightarrow> Pass
      | Some f \<Rightarrow>
          (case fst (check_authorized (Some f) (query_context q params r)) of
             Inr _ \<Rightarrow> Pass
           | Inl x \<Rightarrow>
               (case (is_unauthorized x, x_istos x) of
                  (True, Some e) \<Rightarrow> Stop (Answered (PDict (error_to_dict
                     \<lparr>er_error = e_code e, er_code = e_code e, er_message = e_message e,
                      er_correlation_id = PNone, er_details = PNone\<rparr>)))
                | _ \<Rightarrow> Stop (Unanswered x))))"

record readings =
  rd_uuid :: string
  rd_t1 :: time
  rd_t2 :: time
  rd_t3 :: time
  rd_draw :: rat

record codecs =
  json_loads :: "string \<Rightarrow> pyval res"
  float_of :: "string \<Rightarrow> rat option"

definition on_enqueue :: "codecs \<Rightarrow> readings \<Rightarrow> query \<Rightarrow> role \<Rightarrow> handled" where
  "on_enqueue cs rd q r =
     (let params = query_params q
      in case authorize q params r of
           Stop out \<Rightarrow> (out, False, r)
         | Pass \<Rightarrow>
             (let env = from_attachment (json_loads cs) (q_attachment q);
                  delay = as_float_param (float_of cs) params ''delay'' 0;
                  (job_id, s') = add (rd_uuid rd) (rd_t1 rd) (rd_t2 rd) (rd_t3 rd) (query_payload q)
                    (r_max_attempts r) (as_int_param params ''priority'' 0) delay
                    (map_of params ''wf'') (env_correlation_id env) (env_traceparent env) (r_store r)
              in (Answered (PDict [(''job_id'', PStr job_id)]), delay \<le> 0 \<and> r_session r,
                  r\<lparr>r_store := s'\<rparr>)))"

definition on_claim :: "readings \<Rightarrow> query \<Rightarrow> role \<Rightarrow> handled" where
  "on_claim rd q r =
     (let params = query_params q
      in case authorize q params r of
           Stop out \<Rightarrow> (out, False, r)
         | Pass \<Rightarrow>
             (case claim (r_lease_s r) (rd_t1 rd) (r_store r) of
                (Inl e, s') \<Rightarrow> (Unanswered (store_exc e), False, r\<lparr>r_store := s'\<rparr>)
              | (Inr None, s') \<Rightarrow> (Answered (PDict [(''empty'', PBool True)]), False, r\<lparr>r_store := s'\<rparr>)
              | (Inr (Some j), s') \<Rightarrow>
                  (Answered (PDict
                     [(''job_id'', PStr (j_id j)), (''attempt'', PInt (attempts j)),
                      (''max_attempts'', PInt (max_attempts j)), (''last_error'', opt_str (last_error j)),
                      (''data'', PStr (b64encode (j_data j))), (''wf'', opt_str (j_wf j)),
                      (''correlation_id'', correlation_id j), (''traceparent'', traceparent j)]),
                   False, r\<lparr>r_store := s'\<rparr>)))"

definition on_ack :: "readings \<Rightarrow> query \<Rightarrow> role \<Rightarrow> handled" where
  "on_ack rd q r =
     (let params = query_params q
      in case authorize q params r of
           Stop out \<Rightarrow> (out, False, r)
         | Pass \<Rightarrow>
             (let res = (if query_payload q = [] then None else Some (query_payload q));
                  (ok, s') = ack (rd_t1 rd) (dict_get params ''job_id'' []) res (fence params) (r_store r)
              in (Answered (PDict [(''ok'', PBool ok)]), False, r\<lparr>r_store := s'\<rparr>)))"

definition disposition_text :: "disposition option \<Rightarrow> pyval" where
  "disposition_text d =
     (case d of None \<Rightarrow> PNone | Some Requeued \<Rightarrow> PStr ''requeued'' | Some Dead_lettered \<Rightarrow> PStr ''dead'')"

definition on_nack :: "readings \<Rightarrow> query \<Rightarrow> role \<Rightarrow> handled" where
  "on_nack rd q r =
     (let params = query_params q
      in case authorize q params r of
           Stop out \<Rightarrow> (out, False, r)
         | Pass \<Rightarrow>
             (case decode_utf8 (query_payload q) of
                None \<Rightarrow> (Unanswered unicode_exc, False, r)
              | Some text \<Rightarrow>
                  (case backoff (rd_draw rd) (as_int_param params ''attempt'' 1) r of
                     Inl x \<Rightarrow> (Unanswered x, False, r)
                   | Inr delay \<Rightarrow>
                       (let (d, s') = nack (rd_t1 rd) (rd_t2 rd) (dict_get params ''job_id'' [])
                              (if text = [] then None else Some text) delay (fence params) (r_store r)
                        in (Answered (PDict [(''ok'', PBool (d \<noteq> None)), (''disposition'', disposition_text d)]),
                            False, r\<lparr>r_store := s'\<rparr>)))))"

definition on_result :: "query \<Rightarrow> role \<Rightarrow> handled" where
  "on_result q r =
     (let params = query_params q
      in case authorize q params r of
           Stop out \<Rightarrow> (out, False, r)
         | Pass \<Rightarrow>
             (case result (dict_get params ''job_id'' []) (r_store r) of
                Inl e \<Rightarrow> (Unanswered (store_exc e), False, r)
              | Inr (state, d) \<Rightarrow>
                  (Answered (PDict [(''state'', PStr state),
                     (''result'', case d of None \<Rightarrow> PNone | Some b \<Rightarrow> PStr (b64encode b))]), False, r)))"

definition is_ascii :: "bytes \<Rightarrow> bool" where
  "is_ascii bs \<longleftrightarrow> list_all (\<lambda>b. unat b < 128) bs"

definition on_chord :: "readings \<Rightarrow> query \<Rightarrow> role \<Rightarrow> handled" where
  "on_chord rd q r =
     (let params = query_params q
      in case authorize q params r of
           Stop out \<Rightarrow> (out, False, r)
         | Pass \<Rightarrow>
             if \<not> is_ascii (query_payload q) then (Unanswered unicode_exc, False, r)
             else
               (let text = map (\<lambda>b. char_of (unat b)) (query_payload q)
                in case chord_report (rd_t1 rd) (dict_get params ''chord_id'' [])
                     (as_int_param params ''index'' 0) (as_int_param params ''size'' 1)
                     (if text = [] then None else Some text) (r_store r) of
                     (Inl _, s') \<Rightarrow> (Answered (PDict [(''complete'', PBool False),
                        (''error'', PStr ''invalid_chord'')]), False, r\<lparr>r_store := s'\<rparr>)
                   | (Inr results, s') \<Rightarrow>
                       (Answered (PDict [(''complete'', PBool (results \<noteq> None)),
                          (''results'', case results of None \<Rightarrow> PNone | Some rs \<Rightarrow> PList (map opt_str rs))]),
                        False, r\<lparr>r_store := s'\<rparr>)))"

fun collect :: "'a res list \<Rightarrow> 'a list res" where
  "collect [] = Inr []"
| "collect (x # xs) = res_bind x (\<lambda>y. res_bind (collect xs) (\<lambda>ys. Inr (y # ys)))"

definition on_dead :: "query \<Rightarrow> role \<Rightarrow> handled" where
  "on_dead q r =
     (let params = query_params q
      in case authorize q params r of
           Stop out \<Rightarrow> (out, False, r)
         | Pass \<Rightarrow>
             (case collect (dead_letters (r_store r)) of
                Inl e \<Rightarrow> (Unanswered (store_exc e), False, r)
              | Inr dead \<Rightarrow>
                  (Answered (PDict [(''jobs'', PList (map (\<lambda>j. PDict
                     [(''job_id'', PStr (j_id j)), (''attempts'', PInt (attempts j)),
                      (''last_error'', opt_str (last_error j)),
                      (''data'', PStr (b64encode (j_data j)))]) dead))]), False, r)))"

datatype verb = Enqueue | Claim | Ack | Nack | Result | Dead | Chord

fun handle_query :: "codecs \<Rightarrow> readings \<Rightarrow> verb \<Rightarrow> query \<Rightarrow> role \<Rightarrow> handled" where
  "handle_query cs rd Enqueue q r = on_enqueue cs rd q r"
| "handle_query cs rd Claim q r = on_claim rd q r"
| "handle_query cs rd Ack q r = on_ack rd q r"
| "handle_query cs rd Nack q r = on_nack rd q r"
| "handle_query cs rd Result q r = on_result q r"
| "handle_query cs rd Dead q r = on_dead q r"
| "handle_query cs rd Chord q r = on_chord rd q r"

text \<open>One turn of the sweeper: the nudge tells idle workers that reclaimed jobs are ready.\<close>

definition sweep_turn :: "time \<Rightarrow> role \<Rightarrow> bool \<times> role" where
  "sweep_turn now r =
     (let (moved, s') = sweep now (r_store r) in (moved > 0 \<and> r_session r, r\<lparr>r_store := s'\<rparr>))"

section \<open>Leader election\<close>

definition verbs :: "string list" where
  "verbs = [''enqueue'', ''claim'', ''ack'', ''nack'', ''result'', ''dead'', ''chord'']"

definition activate :: "(pyval \<Rightarrow> pyval res) \<Rightarrow> (string \<Rightarrow> time) \<Rightarrow> role \<Rightarrow> role" where
  "activate loads clk r =
     r\<lparr>r_store := load loads clk (r_store r),
       r_queryables := r_queryables r @ map (\<lambda>v. r_prefix r @ ''/'' @ v) verbs,
       r_sweeper := True, r_active := True\<rparr>"

definition deactivate :: "role \<Rightarrow> role" where
  "deactivate r = r\<lparr>r_sweeper := False, r_queryables := [], r_active := False\<rparr>"

definition leader :: "role \<Rightarrow> string option" where
  "leader r = (if r_members r = {} then None else Some (Min (r_members r)))"

definition reconcile :: "(pyval \<Rightarrow> pyval res) \<Rightarrow> (string \<Rightarrow> time) \<Rightarrow> role \<Rightarrow> role" where
  "reconcile loads clk r =
     (if leader r = Some (r_id r) \<and> \<not> r_active r then activate loads clk r
      else if leader r \<noteq> Some (r_id r) \<and> r_active r then deactivate r
      else r)"

datatype sample_kind = PUT | DELETE

text \<open>\<open>rsplit("/", 1)[-1]\<close>: what follows the last slash.\<close>

definition owner_id :: "string \<Rightarrow> string" where
  "owner_id k = rev (takeWhile (\<lambda>c. c \<noteq> CHR ''/'') (rev k))"

definition on_membership ::
  "(pyval \<Rightarrow> pyval res) \<Rightarrow> (string \<Rightarrow> time) \<Rightarrow> sample_kind \<Rightarrow> string \<Rightarrow> role \<Rightarrow> role" where
  "on_membership loads clk kind key_expr r =
     (let i = owner_id key_expr;
          r1 = (case kind of PUT \<Rightarrow> r\<lparr>r_members := insert i (r_members r)\<rparr>
                           | DELETE \<Rightarrow> r\<lparr>r_members := r_members r - {i}\<rparr>)
      in reconcile loads clk r1)"

definition bind_role :: "(pyval \<Rightarrow> pyval res) \<Rightarrow> (string \<Rightarrow> time) \<Rightarrow> role \<Rightarrow> role" where
  "bind_role loads clk r =
     (let r1 = r\<lparr>r_session := True\<rparr>
      in if \<not> r_ha r then activate loads clk r1
         else reconcile loads clk (r1\<lparr>r_token := True, r_members := insert (r_id r) (r_members r1)\<rparr>))"

definition unbind_role :: "role \<Rightarrow> role" where
  "unbind_role r = r\<lparr>r_sweeper := False, r_queryables := [], r_token := False, r_active := False,
     r_session := False\<rparr>"

section \<open>Lemmas\<close>

lemma authorize_cases: "authorize q params r = Stop out \<Longrightarrow>
    (\<exists>e. out = Answered (PDict (error_to_dict e))) \<or> (\<exists>x. out = Unanswered x)"
  by (auto simp: authorize_def split: option.splits sum.splits prod.splits bool.splits)

lemma refused_changes_nothing:
  "authorize q (query_params q) r = Stop out \<Longrightarrow> handle_query cs rd v q r = (out, False, r)"
  by (cases v) (simp_all add: on_enqueue_def on_claim_def on_ack_def on_nack_def on_result_def
      on_dead_def on_chord_def Let_def)

section \<open>Properties\<close>

text \<open>A request the authorizer does not pass has no effect at all, whichever verb it uses: the
  queue, its leases and its chords are untouched and nobody is nudged; a denial is answered with
  an error payload.\<close>

theorem unauthorized_has_no_effect:
  assumes "r_authorizer r = Some f"
    and "fst (check_authorized (Some f) (query_context q (query_params q) r)) = Inl x"
  shows "snd (handle_query cs rd v q r) = (False, r)
    \<and> (x = raised e \<and> e_class e = UnauthorizedError \<longrightarrow>
         (\<exists>p. fst (handle_query cs rd v q r) = Answered p \<and> is_error_payload p))"
proof -
  have stop: "\<exists>out. authorize q (query_params q) r = Stop out \<and>
      (x = raised e \<and> e_class e = UnauthorizedError \<longrightarrow> (\<exists>p. out = Answered p \<and> is_error_payload p))"
    using assms by (auto simp: authorize_def is_unauthorized_def raised_def split: option.split bool.split)
  then show ?thesis using refused_changes_nothing by fastforce
qed

definition refuse_all :: authorizer where "refuse_all c = (Inr Denied, c)"

definition guarded_role :: role where
  "guarded_role = role_init ''i'' ''jobs'' demo1 30 5 0 600 0 False (Some refuse_all)"

definition claim_query :: query where
  "claim_query = \<lparr>q_key_expr = ''jobs/claim'', q_params = [], q_payload = None, q_attachment = None\<rparr>"

definition no_readings :: readings where
  "no_readings = \<lparr>rd_uuid = ''u'', rd_t1 = 1, rd_t2 = 1, rd_t3 = 1, rd_draw = 0\<rparr>"

definition no_codecs :: codecs where
  "no_codecs = \<lparr>json_loads = (\<lambda>_. Inl (ValueError [])), float_of = (\<lambda>_. None)\<rparr>"

lemma unauthorized_has_no_effect_witness:
  "snd (handle_query no_codecs no_readings Claim claim_query guarded_role) = (False, guarded_role)"
proof -
  have "r_authorizer guarded_role = Some refuse_all"
    by (simp add: guarded_role_def role_init_def)
  moreover have "fst (check_authorized (Some refuse_all)
      (query_context claim_query (query_params claim_query) guarded_role))
    = Inl (raised (unauthorized_error (PStr (''Not authorized for '' @ [CHR 0x27] @ ''jobs'' @ [CHR 0x27]))
        PNone PNone))"
    by code_simp
  ultimately show ?thesis using unauthorized_has_no_effect by blast
qed

text \<open>A 403 from a role guard is not an \<open>UnauthorizedError\<close>: the queue owner sends no reply, and the
  caller waits out its timeout.\<close>

lemma forbidden_is_unanswered:
  assumes "r_authorizer r = Some f"
    and "fst (check_authorized (Some f) (query_context q (query_params q) r))
      = Inl (raised (forbidden_error m d cid))"
  shows "\<exists>x. fst (handle_query cs rd v q r) = Unanswered x"
proof -
  have "authorize q (query_params q) r = Stop (Unanswered (raised (forbidden_error m d cid)))"
    using assms by (simp add: authorize_def is_unauthorized_def raised_def forbidden_error_def
        istos_error_init_def)
  then show ?thesis using refused_changes_nothing by fastforce
qed

text \<open>A nack whose \<open>attempt\<close> parameter is above 1024 on an owner with a backoff raises before the
  store is asked: it is neither answered nor carried out.\<close>

lemma huge_attempt_breaks_nack:
  assumes "r_authorizer r = None" "0 < retry_backoff_s r"
    and "1024 < as_int_param (query_params q) ''attempt'' 1" "decode_utf8 (query_payload q) \<noteq> None"
  shows "on_nack rd q r = (Unanswered overflow_exc, False, r)"
  using assms by (auto simp: on_nack_def authorize_def backoff_def Let_def)

lemma handle_query_steps:
  assumes "handle_query cs rd v q r = (out, n, r')"
    and "T \<le> rd_t1 rd" "rd_t1 rd \<le> rd_t2 rd" "rd_t2 rd \<le> rd_t3 rd" "rd_uuid rd \<notin> U"
  shows "r_store r' = r_store r
    \<or> (\<exists>e T' U'. queue_step (T, U, r_store r) e (T', U', r_store r') \<and> T' \<le> rd_t3 rd
         \<and> U' \<subseteq> insert (rd_uuid rd) U)"
proof (cases "authorize q (query_params q) r")
  case (Stop out')
  then show ?thesis using refused_changes_nothing assms(1) by simp
next
  case Pass
  have T: "T \<le> rd_t1 rd" "rd_t1 rd \<le> rd_t3 rd" "rd_t2 rd \<le> rd_t3 rd" "rd_t1 rd \<le> rd_t2 rd"
    using assms(2-4) by simp_all
  have step: "?thesis" if "queue_step (T, U, r_store r) e (T', U', r_store r')" "T' \<le> rd_t3 rd"
      "U' \<subseteq> insert (rd_uuid rd) U" for e T' U'
    using that by blast
  show ?thesis
  proof (cases v)
    case Enqueue
    then obtain args where a: "add (rd_uuid rd) (rd_t1 rd) (rd_t2 rd) (rd_t3 rd) (query_payload q)
        (r_max_attempts r) (as_int_param (query_params q) ''priority'' 0)
        (as_float_param (float_of cs) (query_params q) ''delay'' 0) (map_of (query_params q) ''wf'')
        (env_correlation_id (from_attachment (json_loads cs) (q_attachment q)))
        (env_traceparent (from_attachment (json_loads cs) (q_attachment q))) (r_store r)
        = (args, r_store r')"
      using assms(1) Pass by (auto simp: on_enqueue_def Let_def split: prod.splits)
    from queue_step.enqueue [OF T(1,4) assms(4,5) a] show ?thesis by (rule step) auto
  next
    case Claim
    then consider r1 where "claim (r_lease_s r) (rd_t1 rd) (r_store r) = (Inr (Some r1), r_store r')"
      | "claim (r_lease_s r) (rd_t1 rd) (r_store r) = (Inr None, r_store r')"
      using assms(1) Pass claim_not_error
      by (auto simp: on_claim_def Let_def split: prod.splits sum.splits option.splits)
    then show ?thesis
    proof cases
      case (1 r1) from queue_step.deliver [OF T(1) 1] show ?thesis by (rule step) (use T in auto)
    next
      case 2 from queue_step.idle [OF T(1) 2] show ?thesis by (rule step) (use T in auto)
    qed
  next
    case Ack
    then obtain i res ok where a: "ack (rd_t1 rd) i res (fence (query_params q)) (r_store r) = (ok, r_store r')"
      using assms(1) Pass by (auto simp: on_ack_def Let_def split: prod.splits)
    show ?thesis
    proof (cases ok)
      case True
      with a have "ack (rd_t1 rd) i res (fence (query_params q)) (r_store r) = (True, r_store r')" by simp
      from queue_step.acked [OF T(1) this] show ?thesis by (rule step) (use T in auto)
    next
      case False
      with a have "ack (rd_t1 rd) i res (fence (query_params q)) (r_store r) = (False, r_store r')" by simp
      from queue_step.ack_refused [OF T(1) this] show ?thesis by (rule step) (use T in auto)
    qed
  next
    case Nack
    then consider "r' = r"
      | i err d res where "nack (rd_t1 rd) (rd_t2 rd) i err d (fence (query_params q)) (r_store r) = (res, r_store r')"
      using assms(1) Pass
      by (auto simp: on_nack_def Let_def split: prod.splits option.splits sum.splits)
    then show ?thesis
    proof cases
      case (2 i err d res)
      show ?thesis
      proof (cases res)
        case None
        from queue_step.nack_refused [OF T(1,4) 2 [unfolded None]] show ?thesis by (rule step) (use T in auto)
      next
        case (Some x)
        from queue_step.nacked [OF T(1,4) 2 [unfolded Some]] show ?thesis by (rule step) (use T in auto)
      qed
    qed simp
  next
    case Result
    then show ?thesis using assms(1) Pass
      by (auto simp: on_result_def Let_def split: sum.splits prod.splits)
  next
    case Dead
    then show ?thesis using assms(1) Pass by (auto simp: on_dead_def Let_def split: sum.splits)
  next
    case Chord
    then consider "r' = r"
      | c ix sz res out' where "chord_report (rd_t1 rd) c ix sz res (r_store r) = (out', r_store r')"
      using assms(1) Pass by (auto simp: on_chord_def Let_def split: prod.splits sum.splits if_splits)
    then show ?thesis
    proof cases
      case (2 c ix sz res out')
      from queue_step.chord_reported [OF T(1) 2] show ?thesis by (rule step) (use T in auto)
    qed simp
  qed
qed


definition open_role :: role where
  "open_role = role_init ''i'' ''jobs'' demo1 30 5 0 600 0 True None"


section \<open>Election\<close>

text \<open>What an owner replica of an HA queue is after any history: it started inactive, was bound, saw
  liveliness samples in any order, answered queries and swept.\<close>

inductive replica :: "(pyval \<Rightarrow> pyval res) \<Rightarrow> role \<Rightarrow> bool" for loads where
  started: "r_ha r \<Longrightarrow> \<not> r_active r \<Longrightarrow> r_queryables r = [] \<Longrightarrow> \<not> r_sweeper r \<Longrightarrow> finite (r_members r)
    \<Longrightarrow> replica loads (bind_role loads clk r)"
| sampled: "replica loads r \<Longrightarrow> replica loads (on_membership loads clk kind key_expr r)"
| queried: "replica loads r \<Longrightarrow> handle_query cs rd v q r = (out, n, r') \<Longrightarrow> replica loads r'"
| swept_once: "replica loads r \<Longrightarrow> sweep_turn now r = (n, r') \<Longrightarrow> replica loads r'"

definition elected :: "role \<Rightarrow> bool" where
  "elected r \<longleftrightarrow> finite (r_members r) \<and> (r_active r \<longleftrightarrow> leader r = Some (r_id r))
     \<and> r_sweeper r = r_active r
     \<and> r_queryables r = (if r_active r then map (\<lambda>v. r_prefix r @ ''/'' @ v) verbs else [])"

lemma reconcile_elected:
  assumes "finite (r_members r)" "r_sweeper r = r_active r"
    "r_queryables r = (if r_active r then map (\<lambda>v. r_prefix r @ ''/'' @ v) verbs else [])"
  shows "elected (reconcile loads clk r)"
  using assms by (auto simp: elected_def reconcile_def activate_def deactivate_def leader_def)

lemma handle_query_keeps:
  assumes "handle_query cs rd v q r = (out, n, r')"
  shows "r' = r\<lparr>r_store := r_store r'\<rparr>"
  using assms
  by (cases v; auto simp: on_enqueue_def on_claim_def on_ack_def on_nack_def on_result_def
      on_dead_def on_chord_def Let_def split: auth_outcome.splits prod.splits sum.splits
      option.splits if_splits)

lemma elected_store: "elected (r\<lparr>r_store := s\<rparr>) = elected r"
  by (simp add: elected_def leader_def)

lemma replica_elected: "replica loads r \<Longrightarrow> elected r"
proof (induction rule: replica.induct)
  case (started r clk)
  then show ?case by (simp add: bind_role_def Let_def reconcile_elected)
next
  case (sampled r clk kind key_expr)
  then show ?case
    by (cases kind) (simp_all add: on_membership_def Let_def elected_def [of r] reconcile_elected)
next
  case (queried r cs rd v q out n r')
  then show ?case using handle_query_keeps elected_store by metis
next
  case (swept_once r now n r')
  then show ?case by (auto simp: sweep_turn_def elected_store split: prod.splits)
qed

text \<open>C8: replicas that see the same membership, each other, agree on one leader: exactly one of
  them is active and serves the seven queryables, the others serve nothing.\<close>

theorem one_leader:
  assumes "R \<noteq> {}" and "finite R" and "inj_on r_id R"
    and "\<And>r. r \<in> R \<Longrightarrow> replica loads r"
    and "\<And>r. r \<in> R \<Longrightarrow> r_members r = r_id ` R"
  shows "\<exists>l\<in>R. r_active l \<and> r_queryables l = map (\<lambda>v. r_prefix l @ ''/'' @ v) verbs
    \<and> (\<forall>r\<in>R - {l}. \<not> r_active r \<and> r_queryables r = [])"
proof -
  have e: "elected r" if "r \<in> R" for r using assms(4) [OF that] by (rule replica_elected)
  have lead: "leader r = Some (Min (r_id ` R))" if "r \<in> R" for r
    using assms(1) assms(5) [OF that] by (simp add: leader_def)
  have "Min (r_id ` R) \<in> r_id ` R" using assms(1,2) by simp
  then obtain l where l: "l \<in> R" "r_id l = Min (r_id ` R)" by (metis imageE)
  have "r_active l" using e [OF l(1)] lead [OF l(1)] l(2) by (simp add: elected_def)
  moreover have "\<not> r_active r" if "r \<in> R - {l}" for r
  proof -
    have "r_id r \<noteq> r_id l" using that l(1) assms(3) by (metis DiffE inj_onD singletonI)
    then show ?thesis using e [of r] lead [of r] l(2) that by (auto simp: elected_def)
  qed
  ultimately show ?thesis using l(1) e by (auto simp: elected_def)
qed

definition replica_named :: "string \<Rightarrow> role" where
  "replica_named i = on_membership (\<lambda>_. Inl (ValueError [])) (\<lambda>_. 0) PUT ''jobs/owners/b''
     (on_membership (\<lambda>_. Inl (ValueError [])) (\<lambda>_. 0) PUT ''jobs/owners/a''
       (bind_role (\<lambda>_. Inl (ValueError [])) (\<lambda>_. 0)
         (role_init i ''jobs'' demo1 30 5 0 600 0 True None)))"

lemma reconcile_keeps [simp]:
  "r_id (reconcile loads clk r) = r_id r" "r_members (reconcile loads clk r) = r_members r"
  "r_ha (reconcile loads clk r) = r_ha r"
  by (simp_all add: reconcile_def activate_def deactivate_def)

lemma one_leader_witness:
  "r_active (replica_named ''a'') \<and> \<not> r_active (replica_named ''b'')"
proof -
  have rep: "replica (\<lambda>_. Inl (ValueError [])) (replica_named i)" for i
    unfolding replica_named_def
    by (intro replica.sampled replica.started) (simp_all add: role_init_def)
  have ids: "r_id (replica_named i) = i" for i
    by (simp add: replica_named_def on_membership_def bind_role_def role_init_def Let_def)
  have mem: "r_members (replica_named i) = {i, ''a'', ''b''}" for i
    by (auto simp: replica_named_def on_membership_def bind_role_def role_init_def Let_def owner_id_def)
  let ?R = "{replica_named ''a'', replica_named ''b''}"
  have m: "r_members r = r_id ` ?R" if "r \<in> ?R" for r using that ids mem by auto
  have i: "inj_on r_id ?R" using ids by (auto simp: inj_on_def)
  have rp: "replica (\<lambda>_. Inl (ValueError [])) r" if "r \<in> ?R" for r using that rep by auto
  have "\<exists>l\<in>?R. r_active l \<and> r_queryables l = map (\<lambda>v. r_prefix l @ ''/'' @ v) verbs
      \<and> (\<forall>r\<in>?R - {l}. \<not> r_active r \<and> r_queryables r = [])"
    by (rule one_leader [OF _ _ i rp m]) simp_all
  then obtain l where l: "l \<in> ?R" "r_active l" "\<forall>r\<in>?R - {l}. \<not> r_active r" by blast
  have "elected l" using rep replica_elected l(1) by auto
  then have "leader l = Some (r_id l)" using l(2) by (simp add: elected_def)
  moreover have "r_members l = {''a'', ''b''}" using m [OF l(1)] ids by auto
  moreover have "Min {''a'', ''b''} = ''a''" by code_simp
  ultimately have "r_id l = ''a''" by (simp add: leader_def)
  then have "l = replica_named ''a''" using l(1) ids [of "''b''"] by auto
  moreover have "replica_named ''a'' \<noteq> replica_named ''b''" using ids [of "''a''"] ids [of "''b''"] by auto
  ultimately show ?thesis using l(2,3) by auto
qed

text \<open>The delay before a retry is the configured base doubled for every earlier attempt, capped,
  and moved by the jitter only: never negative, never above the cap by more than the jitter.\<close>

theorem backoff_is_bounded:
  assumes "0 \<le> retry_jitter r" and "retry_jitter r \<le> 1" and "0 \<le> retry_backoff_max_s r"
    and "\<bar>draw\<bar> \<le> 1" and "tries \<le> 1024"
  shows "\<exists>d. backoff draw tries r = Inr d \<and> 0 \<le> d \<and> d \<le> retry_backoff_max_s r * (1 + retry_jitter r)
    \<and> (retry_jitter r = 0 \<and> 0 < retry_backoff_s r \<and> 1 \<le> tries \<longrightarrow>
         d = min (retry_backoff_s r * 2 ^ nat (tries - 1)) (retry_backoff_max_s r))"
proof (cases "retry_backoff_s r \<le> 0")
  case True
  then show ?thesis using assms by (auto simp: backoff_def)
next
  case False
  define d where "d = min (retry_backoff_s r * 2 ^ nat (max 0 (tries - 1))) (retry_backoff_max_s r)"
  have d: "0 \<le> d" "d \<le> retry_backoff_max_s r" using False assms(3) by (auto simp: d_def)
  have "\<bar>draw * retry_jitter r\<bar> \<le> retry_jitter r"
    using assms(1,4) mult_right_mono [of "\<bar>draw\<bar>" 1 "retry_jitter r"] by (simp add: abs_mult)
  then have j: "draw * retry_jitter r \<le> retry_jitter r" "- retry_jitter r \<le> draw * retry_jitter r"
    by (simp_all add: abs_le_iff)
  have le: "d * (1 + draw * retry_jitter r) \<le> retry_backoff_max_s r * (1 + retry_jitter r)"
    using d j assms(1-3) by (intro mult_mono) auto
  have nn: "0 \<le> d * (1 + draw * retry_jitter r)" using d(1) j assms(2) by simp
  have "\<not> max 0 (tries - 1) > 1023" using assms(5) by auto
  then have "backoff draw tries r = Inr (max 0 (d * (1 + draw * retry_jitter r)))"
    using False by (simp add: backoff_def Let_def d_def)
  then show ?thesis using le nn by (auto simp: d_def max_def)
qed

lemma backoff_is_bounded_witness:
  "\<exists>d. backoff 0 3 (open_role\<lparr>retry_backoff_s := 2\<rparr>) = Inr d \<and> d = 8"
  using backoff_is_bounded [of "open_role\<lparr>retry_backoff_s := 2\<rparr>" 0 3]
  by (simp add: open_role_def role_init_def)

end
