(* ===== verification/Retry.thy ===== *)
theory Retry
  imports Errors
begin

text \<open>
  \<open>retry.py\<close>: the retry policy and \<open>execute_with_retry\<close>. The callable is a state transformer that
  returns a value or raises; the sleeps are the list of waits, in order; \<open>random.uniform\<close> is a
  sequence of draws, one per attempt, of a number between -1 and 1 that is scaled by the jitter.
\<close>

section \<open>The policy\<close>

record retry_policy =
  max_retries :: int
  delay :: time
  backoff_factor :: rat
  max_delay :: time
  jitter :: rat

definition retry_policy_init :: "int \<Rightarrow> time \<Rightarrow> rat \<Rightarrow> time \<Rightarrow> rat \<Rightarrow> retry_policy res" where
  "retry_policy_init mr d bf md j =
     (if mr < 0 then Inl (ValueError ''max_retries must be a non-negative int'')
      else if d < 0 \<or> md < 0 \<or> bf \<le> 0
           then Inl (ValueError ''delay/max_delay must be >= 0 and backoff_factor > 0'')
      else Inr \<lparr>max_retries = mr, delay = d, backoff_factor = bf, max_delay = md, jitter = j\<rparr>)"

definition policy_from_int :: "int \<Rightarrow> retry_policy res" where
  "policy_from_int n = retry_policy_init n (1/2) 2 60 (1/10)"

section \<open>The loop\<close>

definition wait_time :: "retry_policy \<Rightarrow> rat \<Rightarrow> nat \<Rightarrow> time" where
  "wait_time p draw attempt =
     (let w1 = delay p * backoff_factor p ^ attempt;
          w2 = (if max_delay p > 0 then min w1 (max_delay p) else w1);
          w3 = (if jitter p \<noteq> 0 then w2 * (1 + draw * jitter p) else w2)
      in max 0 w3)"

text \<open>
  \<open>retry_loop p draws f a n s\<close> runs the attempts \<open>a\<close>, \<dots>, \<open>a + n\<close>; the last of them is attempt
  \<open>max_retries\<close>. It returns what the last one run gave, and the waits slept.
\<close>

fun retry_loop ::
  "retry_policy \<Rightarrow> (nat \<Rightarrow> rat) \<Rightarrow> ('s \<Rightarrow> (exc + 'a) \<times> 's) \<Rightarrow> nat \<Rightarrow> nat \<Rightarrow> 's
   \<Rightarrow> (exc + 'a) \<times> time list \<times> 's" where
  "retry_loop p draws f a 0 s = (case f s of (out, s1) \<Rightarrow> (out, [], s1))"
| "retry_loop p draws f a (Suc n) s =
     (case f s of
        (Inr v, s1) \<Rightarrow> (Inr v, [], s1)
      | (Inl e, s1) \<Rightarrow>
          if \<not> is_retryable e then (Inl e, [], s1)
          else (case retry_loop p draws f (Suc a) n s1 of
                  (out, ws, s2) \<Rightarrow> (out, wait_time p (draws a) a # ws, s2)))"

text \<open>\<open>on_failure\<close>, when set, sees the last exception; what it raises replaces it.\<close>

definition execute_with_retry ::
  "retry_policy \<Rightarrow> (exc \<Rightarrow> 's \<Rightarrow> exc option \<times> 's) option \<Rightarrow> (nat \<Rightarrow> rat)
   \<Rightarrow> ('s \<Rightarrow> (exc + 'a) \<times> 's) \<Rightarrow> 's \<Rightarrow> (exc + 'a) \<times> time list \<times> 's" where
  "execute_with_retry p on_failure draws f s =
     (case retry_loop p draws f 0 (nat (max_retries p)) s of
        (Inr v, ws, s1) \<Rightarrow> (Inr v, ws, s1)
      | (Inl e, ws, s1) \<Rightarrow>
          (case on_failure of
             None \<Rightarrow> (Inl e, ws, s1)
           | Some h \<Rightarrow> (case h e s1 of
                          (None, s2) \<Rightarrow> (Inl e, ws, s2)
                        | (Some e', s2) \<Rightarrow> (Inl e', ws, s2))))"

section \<open>Lemmas\<close>

text \<open>The states before each call, and what each call gives.\<close>

fun after_calls :: "('s \<Rightarrow> 'b \<times> 's) \<Rightarrow> nat \<Rightarrow> 's \<Rightarrow> 's" where
  "after_calls f 0 s = s"
| "after_calls f (Suc k) s = after_calls f k (snd (f s))"

definition nth_outcome :: "('s \<Rightarrow> 'b \<times> 's) \<Rightarrow> nat \<Rightarrow> 's \<Rightarrow> 'b" where
  "nth_outcome f k s = fst (f (after_calls f k s))"

definition fails_retryably :: "(exc + 'a) \<Rightarrow> bool" where
  "fails_retryably out \<longleftrightarrow> (case out of Inl e \<Rightarrow> is_retryable e | Inr _ \<Rightarrow> False)"

lemma nth_outcome_simps [simp]:
  "nth_outcome f 0 s = fst (f s)" "nth_outcome f (Suc k) s = nth_outcome f k (snd (f s))"
  by (simp_all add: nth_outcome_def)

lemma retry_loop_stops:
  "k \<le> n \<Longrightarrow> (\<forall>j < k. fails_retryably (nth_outcome f j s)) \<Longrightarrow>
   k = n \<or> \<not> fails_retryably (nth_outcome f k s) \<Longrightarrow>
   retry_loop p draws f a n s =
     (nth_outcome f k s, map (\<lambda>j. wait_time p (draws j) j) [a..<a + k], after_calls f (Suc k) s)"
proof (induction n arbitrary: k a s)
  case 0
  then show ?case by (simp add: nth_outcome_def split: prod.split)
next
  case (Suc n)
  obtain out s1 where f: "f s = (out, s1)" by fastforce
  show ?case
  proof (cases k)
    case 0
    then have "\<not> fails_retryably out" using Suc.prems(3) f by simp
    then show ?thesis using f 0 by (cases out) (simp_all add: fails_retryably_def)
  next
    case (Suc k')
    then have "fails_retryably out" using Suc.prems(2) f by force
    then obtain e where e: "out = Inl e" "is_retryable e"
      by (auto simp: fails_retryably_def split: sum.splits)
    have "retry_loop p draws f (Suc a) n s1 = (nth_outcome f k' s1,
        map (\<lambda>j. wait_time p (draws j) j) [Suc a..<Suc a + k'], after_calls f (Suc k') s1)"
    proof (rule Suc.IH)
      show "\<forall>j<k'. fails_retryably (nth_outcome f j s1)"
        using Suc.prems(2) Suc f by (force dest: spec [of _ "Suc _"])
    qed (use Suc.prems Suc f in simp_all)
    then show ?thesis using f e Suc by (simp add: upt_conv_Cons del: upt_Suc)
  qed
qed

lemma wait_time_bounds:
  assumes "0 \<le> delay p" "0 < backoff_factor p" "0 \<le> jitter p" "\<bar>draw\<bar> \<le> 1"
  shows "0 \<le> wait_time p draw a"
    and "0 < max_delay p \<Longrightarrow> wait_time p draw a \<le> max_delay p * (1 + jitter p)"
proof -
  show "0 \<le> wait_time p draw a" by (simp add: wait_time_def Let_def)
  assume m: "0 < max_delay p"
  define w where "w = min (delay p * backoff_factor p ^ a) (max_delay p)"
  have w: "0 \<le> w" "w \<le> max_delay p" using assms m by (simp_all add: w_def)
  have "draw * jitter p \<le> 1 * jitter p" using assms by (intro mult_right_mono) auto
  then have "w * (1 + draw * jitter p) \<le> w * (1 + jitter p)"
    using w(1) by (intro mult_left_mono) simp_all
  also have "\<dots> \<le> max_delay p * (1 + jitter p)"
    using w(2) assms(3) by (intro mult_right_mono) simp_all
  finally have "w * (1 + draw * jitter p) \<le> max_delay p * (1 + jitter p)" .
  moreover have "w \<le> max_delay p * (1 + jitter p)" if "jitter p = 0" using w that by simp
  moreover have "0 \<le> max_delay p * (1 + jitter p)" using m assms(3) by simp
  ultimately show "wait_time p draw a \<le> max_delay p * (1 + jitter p)"
    using m by (simp add: wait_time_def Let_def w_def)
qed

lemma stop_index:
  fixes n :: nat
  obtains k where "k \<le> n" "\<forall>j < k. P j" "k = n \<or> \<not> P k"
proof (cases "\<exists>k < n. \<not> P k")
  case True
  then obtain k where "k < n" "\<not> P k" "\<forall>j < k. P j"
    using exists_least_iff [of "\<lambda>k. k < n \<and> \<not> P k"] by (metis less_trans)
  then show ?thesis using that [of k] by simp
next
  case False
  then show ?thesis using that [of n] by simp
qed

section \<open>Properties\<close>

text \<open>The callable is run until it returns, fails beyond retrying, or has been run
  \<open>max_retries + 1\<close> times, and never again; the caller gets the outcome of the last run (with the
  failure hook called at most once, on the final exception, and never hiding it), after exactly
  one wait between two runs, each between zero and the jittered cap.\<close>

theorem retry_outcome:
  assumes p: "retry_policy_init mr d bf md j = Inr p"
    and "k \<le> nat mr" "\<forall>i < k. fails_retryably (nth_outcome f i s)"
    and "k = nat mr \<or> \<not> fails_retryably (nth_outcome f k s)"
    and j: "0 \<le> j" "\<And>i. \<bar>draws i\<bar> \<le> 1"
    and run: "execute_with_retry p None draws f s = (out, ws, s')"
  shows "out = nth_outcome f k s \<and> s' = after_calls f (Suc k) s \<and> length ws = k
    \<and> (\<forall>w \<in> set ws. 0 \<le> w \<and> (0 < md \<longrightarrow> w \<le> md * (1 + j)))
    \<and> execute_with_retry p (Some h) draws f s =
        (case out of
           Inr v \<Rightarrow> (Inr v, ws, s')
         | Inl e \<Rightarrow> (Inl (case fst (h e s') of None \<Rightarrow> e | Some e' \<Rightarrow> e'), ws, snd (h e s')))"
proof -
  have P: "0 \<le> delay p" "0 < backoff_factor p" "jitter p = j" "max_delay p = md" "max_retries p = mr"
    using p by (auto simp: retry_policy_init_def split: if_splits)
  note loop = retry_loop_stops [OF assms(2-4), of p draws 0]
  have "out = nth_outcome f k s" "s' = after_calls f (Suc k) s"
    and ws: "ws = map (\<lambda>i. wait_time p (draws i) i) [0..<k]"
    using run by (auto simp: execute_with_retry_def P(5) loop split: sum.splits)
  moreover have "0 \<le> w \<and> (0 < md \<longrightarrow> w \<le> md * (1 + j))" if "w \<in> set ws" for w
    using that wait_time_bounds [OF P(1,2), of "draws _"] j P(3,4) by (auto simp: ws)
  ultimately show ?thesis
    by (auto simp: execute_with_retry_def P(5) loop ws split: sum.splits prod.splits option.splits)
qed

lemma retry_outcome_witness:
  "fst (execute_with_retry \<lparr>max_retries = 1, delay = 1, backoff_factor = 2, max_delay = 60, jitter = 0\<rparr>
      None (\<lambda>_. 0) (\<lambda>n. if n = 0 then (Inl (raised (conflict_error PNone PNone PNone)), n + 1)
                       else (Inr n, n + 1)) (0::int)) = Inr 1"
proof -
  let ?f = "\<lambda>n::int. if n = 0 then (Inl (raised (conflict_error PNone PNone PNone)) :: exc + int, n + 1)
                       else (Inr n, n + 1)"
  let ?p = "\<lparr>max_retries = 1, delay = 1, backoff_factor = 2, max_delay = 60, jitter = 0\<rparr>"
  have "retry_policy_init 1 1 2 60 0 = Inr ?p" by (simp add: retry_policy_init_def)
  moreover have "fails_retryably (fst (?f 0))"
    by (simp add: fails_retryably_def is_retryable_def raised_def conflict_error_def istos_error_init_def)
  ultimately show ?thesis
    using retry_outcome [of 1 1 2 60 0 ?p 1 ?f 0 "\<lambda>_. 0"
        "fst (execute_with_retry ?p None (\<lambda>_. 0) ?f 0)"
        "fst (snd (execute_with_retry ?p None (\<lambda>_. 0) ?f 0))"
        "snd (snd (execute_with_retry ?p None (\<lambda>_. 0) ?f 0))" "\<lambda>e s. (None, s)"]
    by simp
qed

lemma retry_always_stops:
  "\<exists>k \<le> nat (max_retries p). retry_loop p draws f 0 (nat (max_retries p)) s =
     (nth_outcome f k s, map (\<lambda>j. wait_time p (draws j) j) [0..<k], after_calls f (Suc k) s)"
proof -
  obtain k where "k \<le> nat (max_retries p)" "\<forall>j < k. fails_retryably (nth_outcome f j s)"
      "k = nat (max_retries p) \<or> \<not> fails_retryably (nth_outcome f k s)"
    by (rule stop_index)
  then show ?thesis using retry_loop_stops [of k _ f s p draws 0] by auto
qed

end
