(* ===== verification/RateLimit.thy ===== *)
theory RateLimit
  imports Errors
begin

text \<open>
  \<open>middleware/ratelimit.py\<close>: token buckets per key. The middleware holds its lock from the reading
  of the clock to the last write, so one request is one function of the buckets; the handler
  behind it runs exactly when the request is admitted. \<open>refill\<close> is \<open>rate / per\<close>.
\<close>

section \<open>The middleware\<close>

text \<open>What \<open>scope.context.principal\<close> may be: nothing, a string, or an object, with its \<open>id\<close> attribute.\<close>

datatype principal = NoPrincipal | StrPrincipal string | ObjPrincipal pyval

definition default_key :: "(pyval \<Rightarrow> string) \<Rightarrow> principal \<Rightarrow> string \<Rightarrow> string" where
  "default_key py_str p prefix =
     (case p of
        StrPrincipal s \<Rightarrow> if s \<noteq> [] then s else ''anonymous:'' @ prefix
      | ObjPrincipal ident \<Rightarrow> if truthy ident then py_str ident else ''anonymous:'' @ prefix
      | NoPrincipal \<Rightarrow> ''anonymous:'' @ prefix)"

record limiter =
  rate :: rat
  per :: time
  burst :: rat
  idle_s :: time
  buckets :: "(string, rat \<times> time) dict"

definition limiter_init :: "rat \<Rightarrow> time \<Rightarrow> rat option \<Rightarrow> limiter res" where
  "limiter_init r p b =
     (if r \<le> 0 \<or> p \<le> 0 then Inl (ValueError ''rate and per must be positive'')
      else Inr \<lparr>rate = r, per = p, burst = (case b of None \<Rightarrow> r | Some x \<Rightarrow> x),
                idle_s = max 60 (p * 10), buckets = []\<rparr>)"

definition refill :: "limiter \<Rightarrow> rat" where
  "refill m = rate m / per m"

definition evict :: "time \<Rightarrow> limiter \<Rightarrow> limiter" where
  "evict now m =
     (if length (buckets m) < 1024 then m
      else m\<lparr>buckets := filter (\<lambda>(k, tokens, stamp).
               \<not> (now - stamp \<ge> idle_s m \<and> tokens + (now - stamp) * refill m \<ge> burst m)) (buckets m)\<rparr>)"

text \<open>Python's \<open>round(x, 3)\<close>: to the nearest thousandth, ties to even.\<close>

definition round3 :: "rat \<Rightarrow> rat" where
  "round3 x =
     (let y = x * 1000; f = \<lfloor>y\<rfloor>; d = y - of_int f
      in of_int (if d < 1/2 \<or> d = 1/2 \<and> even f then f else f + 1) / 1000)"

definition admit :: "string \<Rightarrow> time \<Rightarrow> limiter \<Rightarrow> (rat + unit) \<times> limiter" where
  "admit key now m =
     (let m1 = evict now m;
          (tokens0, stamp) = dict_get (buckets m1) key (burst m1, now);
          tokens = min (burst m1) (tokens0 + (now - stamp) * refill m1)
      in if tokens < 1
         then (Inl (round3 ((1 - tokens) * (per m1 / rate m1))),
               m1\<lparr>buckets := AList.update key (tokens, now) (buckets m1)\<rparr>)
         else (Inr (), m1\<lparr>buckets := AList.update key (tokens - 1, now) (buckets m1)\<rparr>))"

text \<open>The error carries the key and \<open>retry_after\<close>; \<open>py_repr\<close> is Python's \<open>repr\<close> of a string.\<close>

definition rate_limited :: "(string \<Rightarrow> string) \<Rightarrow> string \<Rightarrow> rat \<Rightarrow> istos_error" where
  "rate_limited py_repr key retry_after =
     rate_limit_error (PStr (''Rate limit exceeded for '' @ py_repr key))
       (PDict [(''retry_after'', PFloat retry_after)]) PNone"

definition rate_limit_call ::
  "(string \<Rightarrow> string) \<Rightarrow> string \<Rightarrow> time \<Rightarrow> ('s \<Rightarrow> (istos_error + 'a) \<times> 's) \<Rightarrow> limiter \<Rightarrow> 's
   \<Rightarrow> (istos_error + 'a) \<times> limiter \<times> 's" where
  "rate_limit_call py_repr key now call_next m s =
     (case admit key now m of
        (Inl ra, m1) \<Rightarrow> (Inl (rate_limited py_repr key ra), m1, s)
      | (Inr _, m1) \<Rightarrow> (case call_next s of (out, s1) \<Rightarrow> (out, m1, s1)))"

section \<open>The level of a bucket\<close>

text \<open>The tokens a key has at a time, whether or not its bucket is stored.\<close>

definition level :: "limiter \<Rightarrow> string \<Rightarrow> time \<Rightarrow> rat" where
  "level m key t =
     (case map_of (buckets m) key of
        None \<Rightarrow> burst m
      | Some (tokens, stamp) \<Rightarrow> min (burst m) (tokens + (t - stamp) * refill m))"

definition limiter_ok :: "time \<Rightarrow> limiter \<Rightarrow> bool" where
  "limiter_ok T m \<longleftrightarrow> 0 < rate m \<and> 0 < per m \<and> dict_ok (buckets m)
     \<and> (\<forall>k tokens stamp. map_of (buckets m) k = Some (tokens, stamp) \<longrightarrow> stamp \<le> T)"

lemma refill_pos [simp]: "limiter_ok T m \<Longrightarrow> 0 < refill m"
  by (simp add: limiter_ok_def refill_def)

lemma drift: "limiter_ok T m \<Longrightarrow> t \<le> t' \<Longrightarrow> 0 \<le> (t' - t) * refill m"
  by (intro mult_nonneg_nonneg less_imp_le [OF refill_pos]) simp_all

lemma map_of_filter_value:
  "dict_ok d \<Longrightarrow> map_of (filter (\<lambda>(k, v). P v) d) k =
     (case map_of d k of None \<Rightarrow> None | Some v \<Rightarrow> if P v then Some v else None)"
proof (induction d)
  case (Cons e d)
  have "map_of d k = None" if "k = fst e" using Cons.prems that by (simp add: map_of_eq_None_iff)
  then show ?case using Cons by (cases e) auto
qed simp

lemma dict_ok_filter: "dict_ok d \<Longrightarrow> dict_ok (filter P d)"
  by (simp add: distinct_map_filter)

lemma evict_fields [simp]:
  "rate (evict now m) = rate m" "per (evict now m) = per m" "burst (evict now m) = burst m"
  "idle_s (evict now m) = idle_s m" "refill (evict now m) = refill m"
  by (simp_all add: evict_def refill_def)

lemma evict_lookup:
  assumes "limiter_ok T m"
  shows "map_of (buckets (evict now m)) k = map_of (buckets m) k
    \<or> map_of (buckets (evict now m)) k = None \<and>
      (\<exists>tokens stamp. map_of (buckets m) k = Some (tokens, stamp) \<and> burst m \<le> tokens + (now - stamp) * refill m)"
proof -
  let ?P = "\<lambda>(tokens, stamp). \<not> (now - stamp \<ge> idle_s m \<and> tokens + (now - stamp) * refill m \<ge> burst m)"
  have "dict_ok (buckets m)" using assms by (simp add: limiter_ok_def)
  from map_of_filter_value [OF this, of ?P k]
  show ?thesis by (auto simp: evict_def case_prod_unfold split: option.splits if_splits)
qed

text \<open>Eviction changes no level from then on: a dropped bucket was full.\<close>

lemma evict_level:
  assumes "limiter_ok T m" "now \<le> t"
  shows "level (evict now m) k t = level m k t"
proof -
  have "burst m \<le> tokens + (t - stamp) * refill m"
    if "burst m \<le> tokens + (now - stamp) * refill m" for tokens stamp
  proof -
    have "(now - stamp) * refill m \<le> (t - stamp) * refill m"
      using assms(2) less_imp_le [OF refill_pos [OF assms(1)]] by (intro mult_right_mono) auto
    then show ?thesis using that by linarith
  qed
  then show ?thesis
    using evict_lookup [OF assms(1), of now k] by (auto simp: level_def split: option.splits)
qed

lemma evict_ok: "limiter_ok T m \<Longrightarrow> limiter_ok T (evict now m)"
proof -
  assume ok: "limiter_ok T m"
  then have "dict_ok (buckets (evict now m))"
    by (simp add: limiter_ok_def evict_def dict_ok_filter)
  moreover have "stamp \<le> T" if "map_of (buckets (evict now m)) k = Some (tokens, stamp)" for k tokens stamp
    using that evict_lookup [OF ok, of now k] ok unfolding limiter_ok_def
    by (metis option.distinct(1))
  ultimately show ?thesis using ok by (simp add: limiter_ok_def)
qed

lemma level_later:
  assumes "limiter_ok T m" "t \<le> t'"
  shows "level m k t' \<le> level m k t + (t' - t) * refill m" "level m k t \<le> burst m"
proof -
  have "0 \<le> (t' - t) * refill m" by (rule drift [OF assms])
  then show "level m k t' \<le> level m k t + (t' - t) * refill m"
    by (auto simp: level_def min_def algebra_simps split: option.splits)
  show "level m k t \<le> burst m" by (auto simp: level_def split: option.splits)
qed

lemma admit_level:
  assumes ok: "limiter_ok T m" and "T \<le> now" and ret: "admit key now m = (out, m')"
  shows "limiter_ok now m'" "rate m' = rate m" "per m' = per m" "burst m' = burst m"
    "out = Inr () \<longleftrightarrow> 1 \<le> level m key now"
    "now \<le> t \<Longrightarrow> k \<noteq> key \<Longrightarrow> level m' k t = level m k t"
    "level m' key now = (if out = Inr () then level m key now - 1 else level m key now)"
proof -
  let ?m = "evict now m"
  have tok: "(case dict_get (buckets ?m) key (burst ?m, now) of (tokens, stamp) \<Rightarrow>
      min (burst ?m) (tokens + (now - stamp) * refill ?m)) = level m key now"
    using evict_level [OF ok order_refl, of now key]
    by (auto simp: level_def dict_get_def split: option.splits)
  obtain tokens0 stamp where g: "dict_get (buckets ?m) key (burst ?m, now) = (tokens0, stamp)"
    by fastforce
  have out: "(out, m') = (if level m key now < 1
      then (Inl (round3 ((1 - level m key now) * (per m / rate m))),
            ?m\<lparr>buckets := AList.update key (level m key now, now) (buckets ?m)\<rparr>)
      else (Inr (), ?m\<lparr>buckets := AList.update key (level m key now - 1, now) (buckets ?m)\<rparr>))"
    using ret [symmetric] unfolding admit_def Let_def g prod.case tok [unfolded g prod.case] by simp
  have ok': "limiter_ok now ?m"
    using evict_ok [OF ok, of now] \<open>T \<le> now\<close> by (force simp: limiter_ok_def)
  then show "limiter_ok now m'" using out by (auto simp: limiter_ok_def split: if_splits)
  show "rate m' = rate m" "per m' = per m" "burst m' = burst m"
    "out = Inr () \<longleftrightarrow> 1 \<le> level m key now"
    using out by (auto split: if_splits)
  have frame: "burst m' = burst ?m" "refill m' = refill ?m"
    "\<And>k. k \<noteq> key \<Longrightarrow> map_of (buckets m') k = map_of (buckets ?m) k"
    using out by (auto simp: refill_def split: if_splits)
  have same: "level m' k t = level ?m k t" if "k \<noteq> key" for k t
    unfolding level_def frame(1,2) frame(3) [OF that] by (rule refl)
  show "now \<le> t \<Longrightarrow> k \<noteq> key \<Longrightarrow> level m' k t = level m k t"
    using evict_level [OF ok] same by simp
  have "level m key now \<le> burst m" by (rule level_later(2) [OF ok order_refl])
  then show "level m' key now = (if out = Inr () then level m key now - 1 else level m key now)"
    using out by (auto simp: level_def [of m'] split: if_splits)
qed

section \<open>Runs\<close>

text \<open>Requests in order, each a key and the clock; how many of a key's were admitted.\<close>

fun requests :: "(string \<times> time) list \<Rightarrow> limiter \<Rightarrow> (rat + unit) list \<times> limiter" where
  "requests [] m = ([], m)"
| "requests ((k, t) # rs) m =
     (let (out, m1) = admit k t m; (outs, m2) = requests rs m1 in (out # outs, m2))"

definition admitted :: "string \<Rightarrow> (string \<times> time) list \<Rightarrow> (rat + unit) list \<Rightarrow> nat" where
  "admitted key rs outs = length (filter (\<lambda>((k, t), out). k = key \<and> out = Inr ()) (zip rs outs))"

lemma admitted_Cons [simp]:
  "admitted key ((k, t) # rs) (out # outs) =
     (if k = key \<and> out = Inr () then 1 else 0) + admitted key rs outs"
  by (simp add: admitted_def)

lemma admitted_bound:
  "limiter_ok T m \<Longrightarrow> sorted (map snd rs) \<Longrightarrow> (\<forall>(k, t) \<in> set rs. T \<le> t \<and> t \<le> T') \<Longrightarrow> T \<le> T' \<Longrightarrow>
   requests rs m = (outs, m') \<Longrightarrow> 0 \<le> burst m \<Longrightarrow> 0 \<le> level m key T \<Longrightarrow>
   of_nat (admitted key rs outs) \<le> level m key T + (T' - T) * refill m"
proof (induction rs arbitrary: T m outs)
  case Nil
  then have "0 \<le> (T' - T) * refill m" by (intro drift)
  then show ?case using Nil by (auto simp: admitted_def)
next
  case (Cons r rs)
  obtain k t where r: "r = (k, t)" by fastforce
  obtain out m1 outs' where step: "admit k t m = (out, m1)" "requests rs m1 = (outs', m')"
      "outs = out # outs'"
    using Cons.prems(5) by (auto simp: r Let_def split: prod.splits)
  have t: "T \<le> t" "t \<le> T'" using Cons.prems(3) by (auto simp: r)
  note A = admit_level [OF Cons.prems(1) t(1) step(1)]
  have refill: "refill m1 = refill m" using A(2,3) by (simp add: refill_def)
  note later = level_later [OF Cons.prems(1) t(1), of key]
  have up: "level m key T \<le> level m key t"
  proof -
    have "0 \<le> (t - T) * refill m" by (rule drift [OF Cons.prems(1) t(1)])
    then show ?thesis by (auto simp: level_def algebra_simps split: option.splits)
  qed
  have l1: "level m1 key t = level m key t - (if k = key \<and> out = Inr () then 1 else 0)"
    using A(6) [OF order_refl, of key] A(7) by (cases "k = key") simp_all
  moreover have "0 \<le> level m1 key t"
    using l1 A(5) up Cons.prems(7) by auto
  moreover have "sorted (map snd rs)" "\<forall>(k, t') \<in> set rs. t \<le> t' \<and> t' \<le> T'"
    using Cons.prems(2,3) by (auto simp: r)
  ultimately have "of_nat (admitted key rs outs') \<le> level m1 key t + (T' - t) * refill m1"
    using Cons.IH [OF A(1) _ _ t(2) step(2)] A(4) Cons.prems(6) by simp
  moreover have "(T' - T) * refill m = (T' - t) * refill m + (t - T) * refill m"
    by (simp add: algebra_simps)
  ultimately have "of_nat (admitted key rs outs') + (if k = key \<and> out = Inr () then 1 else 0)
      \<le> level m key T + (T' - T) * refill m"
    using l1 later(1) unfolding refill by linarith
  then show ?case by (auto simp: r step(3) split: if_splits)
qed

section \<open>Properties\<close>

text \<open>C9: in any window, no key is admitted more than its burst plus what the window refills,
  whatever the other keys do and whichever buckets are evicted.\<close>

theorem rate_is_bounded:
  assumes "limiter_init r p b = Inr m0" "0 \<le> burst m0"
    and "requests past m0 = (outs0, m)" "sorted (map snd (past @ rs))"
    and "\<forall>(k, t) \<in> set rs. T \<le> t \<and> t \<le> T'" "\<forall>(k, t) \<in> set past. t \<le> T" "T \<le> T'"
    and "requests rs m = (outs, m')"
  shows "of_nat (admitted key rs outs) \<le> burst m0 + (T' - T) * (r / p)"
proof -
  have m0: "\<And>T. limiter_ok T m0" "rate m0 = r" "per m0 = p" "\<And>k T. level m0 k T = burst m0"
    using assms(1) by (auto simp: limiter_init_def limiter_ok_def level_def split: if_splits)
  have inv: "limiter_ok T m \<and> rate m = r \<and> per m = p \<and> burst m = burst m0 \<and> 0 \<le> level m key T"
    if "requests past n = (o1, m)" "limiter_ok T1 n" "rate n = r" "per n = p" "burst n = burst m0"
      "0 \<le> level n key T1" "sorted (T1 # map snd past)" "T1 \<le> T" "\<forall>(k, t) \<in> set past. t \<le> T"
    for past n o1 T1 T
    using that
  proof (induction past arbitrary: n o1 T1)
    case Nil
    then have "0 \<le> (T - T1) * refill n" by (intro drift)
    then have "level n key T1 \<le> level n key T"
      by (auto simp: level_def algebra_simps split: option.splits)
    then show ?case using Nil by (force simp: limiter_ok_def)
  next
    case (Cons e past)
    obtain k t where e: "e = (k, t)" by fastforce
    obtain out n1 o2 where step: "admit k t n = (out, n1)" "requests past n1 = (o2, m)"
      using Cons.prems(1) by (auto simp: e Let_def split: prod.splits)
    have t: "T1 \<le> t" "t \<le> T" using Cons.prems(7,9) by (auto simp: e)
    note A = admit_level [OF Cons.prems(2) t(1) step(1)]
    have "0 \<le> (t - T1) * refill n" by (rule drift [OF Cons.prems(2) t(1)])
    then have "level n key T1 \<le> level n key t"
      by (auto simp: level_def algebra_simps split: option.splits)
    then have "0 \<le> level n1 key t"
      using A(5,7) A(6) [OF order_refl, of key] Cons.prems(6) by (cases "k = key") (auto split: if_splits)
    then show ?case using Cons.IH [OF step(2) A(1)] A Cons.prems t by (auto simp: e)
  qed
  define T1 where "T1 = (if past = [] then T else min T (snd (hd past)))"
  have "sorted (T1 # map snd past)" "T1 \<le> T"
    using assms(4) by (fastforce simp: T1_def sorted_append neq_Nil_conv min_le_iff_disj)+
  from inv [OF assms(3) m0(1-3) refl _ this assms(6)]
  have I: "limiter_ok T m" "rate m = r" "per m = p" "burst m = burst m0" "0 \<le> level m key T"
    using m0(4) assms(2) by auto
  have "sorted (map snd rs)" using assms(4) by (simp add: sorted_append)
  from admitted_bound [OF I(1) this assms(5,7,8) _ I(5)] I(4) assms(2)
  have "of_nat (admitted key rs outs) \<le> level m key T + (T' - T) * refill m" by simp
  moreover have "level m key T \<le> burst m0" using level_later(2) [OF I(1) order_refl, of key] I(4) by simp
  ultimately show ?thesis unfolding refill_def I(2,3) by linarith
qed

lemma rate_is_bounded_witness:
  "of_nat (admitted ''u'' [(''u'', 0), (''u'', 0), (''u'', 1)]
     (fst (requests [(''u'', 0), (''u'', 0), (''u'', 1)]
        \<lparr>rate = 1, per = 1, burst = 1, idle_s = 60, buckets = []\<rparr>))) \<le> (2::rat)"
  using rate_is_bounded [of 1 1 None "\<lparr>rate = 1, per = 1, burst = 1, idle_s = 60, buckets = []\<rparr>"
      "[]" "[]" "\<lparr>rate = 1, per = 1, burst = 1, idle_s = 60, buckets = []\<rparr>"
      "[(''u'', 0), (''u'', 0), (''u'', 1)]" 0 1
      "fst (requests [(''u'', 0), (''u'', 0), (''u'', 1)]
         \<lparr>rate = 1, per = 1, burst = 1, idle_s = 60, buckets = []\<rparr>)"
      "snd (requests [(''u'', 0), (''u'', 0), (''u'', 1)]
         \<lparr>rate = 1, per = 1, burst = 1, idle_s = 60, buckets = []\<rparr>)" "''u''"]
  by (simp add: limiter_init_def)

text \<open>A request is refused only when its key is out of tokens, and a refused request costs
  nothing: the handler does not run, and by the time the missing part of a token has been
  refilled the next request is admitted, if a bucket can hold a whole token at all.\<close>

theorem refused_only_when_empty:
  assumes ok: "limiter_ok T m" "T \<le> now"
    and ret: "rate_limit_call py_repr key now call_next m s = (out, m', s')"
  shows "if 1 \<le> level m key now then out = fst (call_next s) \<and> s' = snd (call_next s)
    else out = Inl (rate_limited py_repr key (round3 ((1 - level m key now) / refill m)))
      \<and> s' = s
      \<and> (1 \<le> burst m \<longrightarrow> now + (1 - level m key now) / refill m \<le> t \<longrightarrow>
           fst (admit key t m') = Inr ())"
proof (cases "1 \<le> level m key now")
  case True
  then have "fst (admit key now m) = Inr ()"
    using admit_level(5) [OF ok, of key "fst (admit key now m)" "snd (admit key now m)"] by simp
  then show ?thesis using ret True
    by (auto simp: rate_limit_call_def split: prod.splits sum.splits)
next
  case False
  obtain ra m1 where a: "admit key now m = (Inl ra, m1)"
    using False admit_level(5) [OF ok, of key "fst (admit key now m)" "snd (admit key now m)"]
    by (cases "admit key now m"; cases "fst (admit key now m)") auto
  note A = admit_level [OF ok a]
  have ra: "ra = round3 ((1 - level m key now) / refill m)"
    using a evict_level [OF ok(1) order_refl, of now key]
    by (auto simp: admit_def Let_def level_def dict_get_def refill_def split: option.splits
        prod.splits if_splits)
  have "fst (admit key t m1) = Inr ()"
    if b: "1 \<le> burst m" and t: "now + (1 - level m key now) / refill m \<le> t"
  proof -
    have r: "refill m1 = refill m" "0 < refill m"
      using A(2,3) refill_pos [OF ok(1)] by (simp_all add: refill_def)
    have "now \<le> t" using t False r(2) 
      using divide_pos_pos [of "1 - level m key now" "refill m"] by linarith
    have "(1 - level m key now) / refill m * refill m \<le> (t - now) * refill m"
      using t r(2) by (intro mult_right_mono) auto
    then have up: "1 \<le> level m key now + (t - now) * refill m" using r(2) by simp
    have "level m1 key now = level m key now" using A(7) by simp
    then have "1 \<le> level m1 key t"
      using up b A(4) r(1)
      by (auto simp: level_def algebra_simps split: option.splits)
    then show ?thesis
      using admit_level(5) [OF A(1) \<open>now \<le> t\<close>, of key "fst (admit key t m1)" "snd (admit key t m1)"]
      by simp
  qed
  then show ?thesis using ret False a ra by (auto simp: rate_limit_call_def)
qed

lemma refused_only_when_empty_witness:
  "fst (admit ''u'' 5 (snd (admit ''u'' 4
     \<lparr>rate = 1, per = 1, burst = 1, idle_s = 60, buckets = [(''u'', 0, 4)]\<rparr>))) = Inr ()"
proof -
  let ?m = "\<lparr>rate = 1, per = 1, burst = 1, idle_s = 60, buckets = [(''u'', 0, 4)]\<rparr>"
  have ok: "limiter_ok 4 ?m" by (simp add: limiter_ok_def)
  have lv: "level ?m ''u'' 4 = 0" "refill ?m = 1" by (simp_all add: level_def refill_def)
  obtain out m' s' where c: "rate_limit_call id ''u'' 4 (\<lambda>n::nat. (Inr (), n)) ?m 0 = (out, m', s')"
    by (metis prod_cases3)
  have "m' = snd (admit ''u'' 4 ?m)"
    using c by (auto simp: rate_limit_call_def split: prod.splits sum.splits)
  then show ?thesis using refused_only_when_empty [OF ok _ c, of 5] lv by simp
qed

text \<open>A rate below one per period without an explicit burst never admits anything: the bucket cannot
  hold a whole token.\<close>

lemma fractional_rate_admits_nothing:
  assumes "limiter_ok T m" "burst m < 1" "T \<le> now"
  shows "fst (admit key now m) \<noteq> Inr ()"
  using admit_level(5) [OF assms(1,3), of key "fst (admit key now m)" "snd (admit key now m)"]
    level_later(2) [OF assms(1) order_refl, of key now] assms(2)
  by simp

end
