(* ===== verification/Effects.thy ===== *)
theory Effects
  imports Errors
begin

text \<open>
  Computations that may raise, over a state: how the components that run user code, talk to a
  storage plugin or drive a model provider are composed. A raised exception keeps the state
  reached so far, as Python does.
\<close>

section \<open>Computations\<close>

type_synonym ('w, 'a) act = "'w \<Rightarrow> (exc + 'a) \<times> 'w"

definition act_return :: "'a \<Rightarrow> ('w, 'a) act" where
  "act_return x w = (Inr x, w)"

definition act_raise :: "exc \<Rightarrow> ('w, 'a) act" where
  "act_raise e w = (Inl e, w)"

definition act_bind :: "('w, 'a) act \<Rightarrow> ('a \<Rightarrow> ('w, 'b) act) \<Rightarrow> ('w, 'b) act" where
  "act_bind m f w = (case m w of (Inl e, w') \<Rightarrow> (Inl e, w') | (Inr x, w') \<Rightarrow> f x w')"

definition act_of :: "exc + 'a \<Rightarrow> ('w, 'a) act" where
  "act_of x w = (x, w)"

text \<open>Whether \<open>except Exception\<close> catches it: a cancellation is a \<open>BaseException\<close> only.\<close>

definition is_exception :: "exc \<Rightarrow> bool" where
  "is_exception x \<longleftrightarrow> ''Exception'' \<in> set (x_mro x)"

text \<open>\<open>try: m except Exception: pass\<close>.\<close>

definition swallow :: "('w, unit) act \<Rightarrow> ('w, unit) act" where
  "swallow m w =
     (case m w of
        (Inl e, w') \<Rightarrow> if is_exception e then (Inr (), w') else (Inl e, w')
      | (Inr u, w') \<Rightarrow> (Inr u, w'))"

section \<open>Built-in exceptions\<close>

definition builtin_exc :: "string list \<Rightarrow> string \<Rightarrow> exc" where
  "builtin_exc classes msg =
     \<lparr>x_mro = classes @ [''Exception'', ''BaseException'', ''object''], x_istos = None,
      x_str = msg, x_errors = PNone\<rparr>"

definition type_error :: "string \<Rightarrow> exc" where
  "type_error = builtin_exc [''TypeError'']"

definition value_error :: "string \<Rightarrow> exc" where
  "value_error = builtin_exc [''ValueError'']"

definition runtime_error :: "string \<Rightarrow> exc" where
  "runtime_error = builtin_exc [''RuntimeError'']"

definition key_error :: "string \<Rightarrow> exc" where
  "key_error = builtin_exc [''KeyError'', ''LookupError'']"

definition attribute_error :: "string \<Rightarrow> exc" where
  "attribute_error = builtin_exc [''AttributeError'']"

definition index_error :: exc where
  "index_error = builtin_exc [''IndexError'', ''LookupError''] ''list index out of range''"

text \<open>The exceptions of the value-level operations as exceptions in flight.\<close>

fun exc_of :: "pyerr \<Rightarrow> exc" where
  "exc_of (KeyError k) = key_error k"
| "exc_of (ValueError m) = value_error m"
| "exc_of (TypeError m) = type_error m"
| "exc_of IndexError = index_error"
| "exc_of BinasciiError = builtin_exc [''Error'', ''ValueError''] []"
| "exc_of OverflowError = builtin_exc [''OverflowError'', ''ArithmeticError''] []"
| "exc_of (RuntimeError m) = runtime_error m"

definition lift_res :: "'a res \<Rightarrow> exc + 'a" where
  "lift_res r = (case r of Inl e \<Rightarrow> Inl (exc_of e) | Inr x \<Rightarrow> Inr x)"

definition cancelled :: exc where
  "cancelled = \<lparr>x_mro = [''CancelledError'', ''BaseException'', ''object''], x_istos = None,
     x_str = [], x_errors = PNone\<rparr>"

section \<open>Reading JSON values\<close>

text \<open>\<open>v[k]\<close> with a string key, \<open>v.get(k, default)\<close>, \<open>v[0]\<close> and \<open>v[1:]\<close> of any value.\<close>

definition item :: "pyval \<Rightarrow> string \<Rightarrow> exc + pyval" where
  "item v k =
     (case v of
        PDict d \<Rightarrow> (case map_of d k of None \<Rightarrow> Inl (key_error k) | Some x \<Rightarrow> Inr x)
      | _ \<Rightarrow> Inl (type_error ''indices must be integers''))"

definition get_key :: "pyval \<Rightarrow> string \<Rightarrow> pyval \<Rightarrow> exc + pyval" where
  "get_key v k dflt =
     (case v of PDict d \<Rightarrow> Inr (dict_get d k dflt) | _ \<Rightarrow> Inl (attribute_error ''get''))"

definition first_item :: "pyval \<Rightarrow> exc + pyval" where
  "first_item v =
     (case v of
        PList (x # xs) \<Rightarrow> Inr x
      | PStr (c # cs) \<Rightarrow> Inr (PStr [c])
      | PList [] \<Rightarrow> Inl index_error
      | PStr [] \<Rightarrow> Inl index_error
      | PDict d \<Rightarrow> Inl (key_error ''0'')
      | _ \<Rightarrow> Inl (type_error ''not subscriptable''))"

definition rest_items :: "pyval \<Rightarrow> exc + pyval" where
  "rest_items v =
     (case v of
        PList xs \<Rightarrow> Inr (PList (drop 1 xs))
      | PStr cs \<Rightarrow> Inr (PStr (drop 1 cs))
      | _ \<Rightarrow> Inl (type_error ''unhashable slice''))"

section \<open>Lemmas\<close>

lemma act_bind_return [simp]: "act_bind (act_return x) f = f x" "act_bind m act_return = m"
  by (auto simp: act_bind_def act_return_def fun_eq_iff split: prod.split sum.split)

lemma act_bind_raise [simp]: "act_bind (act_raise e) f = act_raise e"
  by (simp add: act_bind_def act_raise_def fun_eq_iff)

lemma act_bind_assoc: "act_bind (act_bind m f) g = act_bind m (\<lambda>x. act_bind (f x) g)"
  by (auto simp: act_bind_def fun_eq_iff split: prod.split sum.split)

lemma act_bind_Inr:
  "act_bind m f w = (Inr y, w'') \<longleftrightarrow> (\<exists>x w'. m w = (Inr x, w') \<and> f x w' = (Inr y, w''))"
  by (auto simp: act_bind_def split: prod.splits sum.splits)

lemma swallow_returns:
  "(\<And>e. fst (m w) = Inl e \<Longrightarrow> is_exception e) \<Longrightarrow> swallow m w = (Inr (), snd (m w))"
  by (auto simp: swallow_def split: prod.splits sum.splits)

lemma act_of_simps [simp]: "act_bind (act_of (Inr x)) f = f x" "act_bind (act_of (Inl e)) f = act_raise e"
  by (simp_all add: act_bind_def act_of_def act_raise_def fun_eq_iff)

lemma builtin_is_exception [simp]: "is_exception (builtin_exc cs msg)"
  by (simp add: is_exception_def builtin_exc_def)

lemma raised_is_exception [simp]: "is_exception (raised e)"
  by (simp add: is_exception_def raised_def)

section \<open>What a computation keeps\<close>

text \<open>An invariant of the state that a computation keeps, whether it returns or raises.\<close>

definition keeps :: "('w \<Rightarrow> bool) \<Rightarrow> ('w, 'a) act \<Rightarrow> bool" where
  "keeps P m \<longleftrightarrow> (\<forall>w. P w \<longrightarrow> P (snd (m w)))"

named_theorems keeps_intros \<open>computations that keep an invariant\<close>

lemma keepsD: "keeps P m \<Longrightarrow> P w \<Longrightarrow> m w = (out, w') \<Longrightarrow> P w'"
  by (metis keeps_def snd_conv)

lemma keeps_snd: "keeps P m \<Longrightarrow> P w \<Longrightarrow> P (snd (m w))"
  by (simp add: keeps_def)

lemma keeps_return [keeps_intros]: "keeps P (act_return x)"
  by (simp add: keeps_def act_return_def)

lemma keeps_raise [keeps_intros]: "keeps P (act_raise e)"
  by (simp add: keeps_def act_raise_def)

lemma keeps_of [keeps_intros]: "keeps P (act_of x)"
  by (simp add: keeps_def act_of_def)

lemma keeps_bind [keeps_intros]: "keeps P m \<Longrightarrow> (\<And>x. keeps P (f x)) \<Longrightarrow> keeps P (act_bind m f)"
  unfolding keeps_def act_bind_def by (auto split: prod.split sum.split)

lemma keeps_if [keeps_intros]: "(b \<Longrightarrow> keeps P m) \<Longrightarrow> (\<not> b \<Longrightarrow> keeps P n) \<Longrightarrow> keeps P (if b then m else n)"
  by simp

lemma keeps_swallow [keeps_intros]: "keeps P m \<Longrightarrow> keeps P (swallow m)"
  unfolding keeps_def swallow_def by (auto split: prod.split sum.split)

section \<open>How a computation moves the state\<close>

text \<open>A relation between the state before and the state after, whether it returns or raises.\<close>

definition moves :: "('w \<Rightarrow> 'w \<Rightarrow> bool) \<Rightarrow> ('w, 'a) act \<Rightarrow> bool" where
  "moves R m \<longleftrightarrow> (\<forall>w. R w (snd (m w)))"

lemma movesD: "moves R m \<Longrightarrow> m w = (out, w') \<Longrightarrow> R w w'"
  by (metis moves_def snd_conv)

lemma moves_at: "(\<And>w0. moves R (f w0)) \<Longrightarrow> moves R (\<lambda>w. f w w)"
  by (simp add: moves_def)

lemma moves_mono: "moves R m \<Longrightarrow> (\<And>w w'. R w w' \<Longrightarrow> Q w w') \<Longrightarrow> moves Q m"
  by (simp add: moves_def)

locale state_order =
  fixes R :: "'w \<Rightarrow> 'w \<Rightarrow> bool"
  assumes stays: "R w w" and follows: "R w w' \<Longrightarrow> R w' w'' \<Longrightarrow> R w w''"
begin

lemma moves_return: "moves R (act_return x)"
  by (simp add: moves_def act_return_def stays)

lemma moves_of: "moves R (act_of x)"
  by (simp add: moves_def act_of_def stays)

lemma moves_read: "moves R (\<lambda>w. (f w, w))"
  by (simp add: moves_def stays)

lemma moves_bind: "moves R m \<Longrightarrow> (\<And>x. moves R (f x)) \<Longrightarrow> moves R (act_bind m f)"
  unfolding moves_def act_bind_def by (auto split: prod.split sum.split intro: follows) (metis follows snd_conv)+

lemma moves_swallow: "moves R m \<Longrightarrow> moves R (swallow m)"
  unfolding moves_def swallow_def by (auto split: prod.split sum.split) (metis snd_conv)+

lemmas moves_intros = moves_return moves_of moves_read moves_bind moves_swallow

end

end
