(* ===== verification/Middleware.thy ===== *)
theory Middleware
  imports Context RateLimit Effects
begin

text \<open>
  The middleware pipeline, \<open>middleware/base.py\<close>. Contexts are values: the context variable holds
  the context of the innermost scope, a middleware hands its changes on with the scope it gives to
  \<open>call_next\<close>, and every push is undone on the way out, with or without an exception.
\<close>

section \<open>Scopes and the context variable\<close>

record request_scope =
  s_prefix :: string
  s_operation :: string
  s_params :: "(string, pyval) dict"
  s_context :: "principal request_context"

text \<open>The world of a request: the context variable and everything else.\<close>

record 'u world =
  w_context :: "principal request_context option"
  w_user :: 'u

type_synonym 'u middleware =
  "request_scope \<Rightarrow> (request_scope \<Rightarrow> ('u world, pyval) act) \<Rightarrow> ('u world, pyval) act"

text \<open>\<open>token = push(c)\<close>, then \<open>m\<close>, \<open>finally: pop(token)\<close>.\<close>

definition with_context :: "principal request_context \<Rightarrow> ('u world, 'a) act \<Rightarrow> ('u world, 'a) act" where
  "with_context c m w =
     (case m (w\<lparr>w_context := Some c\<rparr>) of (out, w') \<Rightarrow> (out, w'\<lparr>w_context := w_context w\<rparr>))"

definition stamped :: "request_scope \<Rightarrow> request_scope" where
  "stamped sc = sc\<lparr>s_context := (s_context sc)\<lparr>rc_prefix := s_prefix sc, rc_operation := s_operation sc\<rparr>\<rparr>"

section \<open>The stack\<close>

fun dispatch ::
  "'u middleware list \<Rightarrow> (request_scope \<Rightarrow> ('u world, pyval) act) \<Rightarrow> request_scope \<Rightarrow> ('u world, pyval) act"
  where
  "dispatch [] h sc = h (stamped sc)"
| "dispatch (m # ms) h sc =
     m (stamped sc) (\<lambda>nxt. with_context (s_context (stamped nxt)) (dispatch ms h nxt))"

definition invoke_stack ::
  "'u middleware list \<Rightarrow> request_scope \<Rightarrow> (request_scope \<Rightarrow> ('u world, pyval) act) \<Rightarrow> ('u world, pyval) act"
  where
  "invoke_stack ms sc h = with_context (s_context (stamped sc)) (dispatch ms h sc)"

section \<open>The middlewares of the module\<close>

text \<open>\<open>emit\<close> is the logger: what it is told of the scope, and its effect.\<close>

definition logging_middleware ::
  "(string \<Rightarrow> request_scope \<Rightarrow> 'u \<Rightarrow> 'u) \<Rightarrow> 'u middleware" where
  "logging_middleware emit sc nxt w =
     (let w1 = w\<lparr>w_user := emit ''started'' sc (w_user w)\<rparr>
      in case nxt sc w1 of
           (Inr v, w2) \<Rightarrow> (Inr v, w2\<lparr>w_user := emit ''completed'' sc (w_user w2)\<rparr>)
         | (Inl e, w2) \<Rightarrow>
             (Inl e, if is_exception e then w2\<lparr>w_user := emit ''failed'' sc (w_user w2)\<rparr> else w2))"

definition correlation_id_middleware :: "string \<Rightarrow> 'u middleware" where
  "correlation_id_middleware uuid sc nxt =
     nxt (if rc_correlation_id (s_context sc) = []
          then sc\<lparr>s_context := (s_context sc)\<lparr>rc_correlation_id := uuid\<rparr>\<rparr> else sc)"

section \<open>Lemmas\<close>

lemma stamped_idem [simp]: "stamped (stamped sc) = stamped sc"
  by (simp add: stamped_def)

lemma dispatch_stamped [simp]: "dispatch ms h (stamped sc) = dispatch ms h sc"
  by (cases ms) simp_all

text \<open>The stack composes: the layers of a longer stack wrap those of its tail.\<close>

lemma dispatch_append: "dispatch (ms @ ns) h sc = dispatch ms (dispatch ns h) sc"
  by (induction ms arbitrary: sc) simp_all

lemma with_context_restores: "w_context (snd (with_context c m w)) = w_context w"
  by (simp add: with_context_def split: prod.split)

end
