(* ===== verification/Depends.thy ===== *)
theory Depends
  imports Effects PyText
begin

text \<open>
  Dependency injection, \<open>di/depends.py\<close>: what of a callable's parameters is a dependency, the
  recursive resolution of a request's dependencies with its cache, overrides and cycle check, and
  the exit stack that tears \<open>yield\<close> dependencies down. Callables are names; what their signatures
  and bodies are is a table, and a body acts on the world of the user's code. Running a callable in
  a thread or awaiting it is the same here.
\<close>

section \<open>Signatures\<close>

datatype param_kind =
  POSITIONAL_ONLY | POSITIONAL_OR_KEYWORD | VAR_POSITIONAL | KEYWORD_ONLY | VAR_KEYWORD

record depends =
  d_dependency :: string
  d_use_cache :: bool

datatype param_default = Empty | Value pyval | Marker depends

text \<open>A parameter, with the \<open>Depends\<close> markers among the metadata of its annotation.\<close>

record param =
  pr_name :: string
  pr_kind :: param_kind
  pr_default :: param_default
  pr_metadata :: "depends list"

definition extract_depends :: "param \<Rightarrow> depends option" where
  "extract_depends p =
     (case pr_default p of
        Marker d \<Rightarrow> Some d
      | _ \<Rightarrow> (case pr_metadata p of [] \<Rightarrow> None | d # _ \<Rightarrow> Some d))"

definition has_dependencies :: "param list \<Rightarrow> bool" where
  "has_dependencies ps \<longleftrightarrow> list_ex (\<lambda>p. extract_depends p \<noteq> None) ps"

definition positional_param_names :: "param list \<Rightarrow> string list" where
  "positional_param_names ps =
     map pr_name (filter (\<lambda>p. pr_name p \<noteq> ''self'' \<and> extract_depends p = None
       \<and> pr_kind p \<noteq> VAR_POSITIONAL \<and> pr_kind p \<noteq> VAR_KEYWORD) ps)"

section \<open>Resolution\<close>

text \<open>A callable that yields leaves its exit to the stack; \<open>f_exit\<close> gets the exception in flight.\<close>

record 'w callables =
  f_sig :: "string \<Rightarrow> param list"
  f_call :: "string \<Rightarrow> (string, pyval) dict \<Rightarrow> ('w, pyval) act"
  f_yields :: "string \<Rightarrow> bool"
  f_exit :: "string \<Rightarrow> exc option \<Rightarrow> 'w \<Rightarrow> exc option \<times> 'w"

record 'w request_state =
  d_stack :: "string list"
  d_cache :: "(string, pyval) dict"
  d_world :: 'w

definition cycle_error :: "string list \<Rightarrow> exc" where
  "cycle_error fs = builtin_exc [''DependencyCycleError'', ''RuntimeError'']
     (''Circular dependency detected: '' @ join '' -> '' fs)"

definition missing_param :: "string \<Rightarrow> exc" where
  "missing_param name = type_error (''Cannot resolve required parameter '' @ name)"

definition splat :: "(string, pyval) dict \<Rightarrow> (string, pyval) dict \<Rightarrow> (string, pyval) dict" where
  "splat ex acc = acc @ filter (\<lambda>(k, v). map_of acc k = None) ex"

definition target :: "(string, string) dict \<Rightarrow> depends \<Rightarrow> string" where
  "target ov d = dict_get ov (d_dependency d) (d_dependency d)"

definition run_dependency ::
  "'w callables \<Rightarrow> string \<Rightarrow> (string, pyval) dict \<Rightarrow> 'w request_state
   \<Rightarrow> (exc + pyval) \<times> 'w request_state" where
  "run_dependency fs g kw st =
     (case f_call fs g kw (d_world st) of
        (Inl e, w) \<Rightarrow> (Inl e, st\<lparr>d_world := w\<rparr>)
      | (Inr v, w) \<Rightarrow>
          (Inr v, st\<lparr>d_world := w, d_stack := if f_yields fs g then g # d_stack st else d_stack st\<rparr>))"

text \<open>
  The loop over the parameters \<open>ps\<close> of one callable, with the recursion into the dependencies of
  each dependency. \<open>chain\<close> holds the callables being resolved, outermost first.
\<close>

partial_function (option) resolve_params ::
  "'w callables \<Rightarrow> (string, string) dict \<Rightarrow> (string, pyval) dict \<Rightarrow> string list \<Rightarrow> string set
   \<Rightarrow> param list \<Rightarrow> (string, pyval) dict \<Rightarrow> 'w request_state
   \<Rightarrow> ((exc + (string, pyval) dict) \<times> 'w request_state) option" where
  "resolve_params fs ov ex chain skip ps acc st =
     (case ps of
        [] \<Rightarrow> Some (Inr acc, st)
      | p # rest \<Rightarrow>
          if pr_name p = ''self'' \<or> pr_name p \<in> skip
          then resolve_params fs ov ex chain skip rest acc st
          else if extract_depends p = None \<and> map_of ex (pr_name p) \<noteq> None
          then resolve_params fs ov ex chain skip rest
                 (AList.update (pr_name p) (the (map_of ex (pr_name p))) acc) st
          else if pr_kind p = VAR_KEYWORD
          then resolve_params fs ov ex chain skip rest (splat ex acc) st
          else
            (case extract_depends p of
               None \<Rightarrow>
                 if pr_default p = Empty \<and> (pr_kind p = POSITIONAL_OR_KEYWORD \<or> pr_kind p = KEYWORD_ONLY)
                 then Some (Inl (missing_param (pr_name p)), st)
                 else resolve_params fs ov ex chain skip rest acc st
             | Some d \<Rightarrow>
                 if d_dependency d \<in> set chain \<or> target ov d \<in> set chain
                 then Some (Inl (cycle_error (chain @ [target ov d])), st)
                 else if d_use_cache d \<and> map_of (d_cache st) (target ov d) \<noteq> None
                 then resolve_params fs ov ex chain skip rest
                        (AList.update (pr_name p) (the (map_of (d_cache st) (target ov d))) acc) st
                 else
                   Option.bind
                     (resolve_params fs ov ex (chain @ [target ov d]) {} (f_sig fs (target ov d)) [] st)
                     (\<lambda>(r, st1).
                        case r of
                          Inl e \<Rightarrow> Some (Inl e, st1)
                        | Inr kw \<Rightarrow>
                            (case run_dependency fs (target ov d) kw st1 of
                               (Inl e, st2) \<Rightarrow> Some (Inl e, st2)
                             | (Inr v, st2) \<Rightarrow>
                                 resolve_params fs ov ex chain skip rest
                                   (AList.update (pr_name p) v acc)
                                   (if d_use_cache d
                                    then st2\<lparr>d_cache := AList.update (target ov d) v (d_cache st2)\<rparr>
                                    else st2)))))"

declare resolve_params.simps [code]

text \<open>The exit stack: what was entered last exits first, each sees the exception the one before left.\<close>

fun unwind :: "'w callables \<Rightarrow> string list \<Rightarrow> exc option \<Rightarrow> 'w \<Rightarrow> exc option \<times> 'w" where
  "unwind fs [] e w = (e, w)"
| "unwind fs (f # stk) e w = (case f_exit fs f e w of (e', w') \<Rightarrow> unwind fs stk e' w')"

text \<open>Leaving \<open>async with AsyncExitStack()\<close>: an exception an exit suppresses leaves no value behind.\<close>

definition close_stack :: "'w callables \<Rightarrow> string list \<Rightarrow> (exc + pyval) \<Rightarrow> ('w, pyval) act" where
  "close_stack fs stk out w =
     (case out of
        Inr v \<Rightarrow> (case unwind fs stk None w of
                    (None, w') \<Rightarrow> (Inr v, w') | (Some e, w') \<Rightarrow> (Inl e, w'))
      | Inl e \<Rightarrow> (case unwind fs stk (Some e) w of
                    (None, w') \<Rightarrow> (Inr PNone, w') | (Some e', w') \<Rightarrow> (Inl e', w')))"

definition with_dependencies ::
  "'w callables \<Rightarrow> (string, string) dict \<Rightarrow> (string, pyval) dict \<Rightarrow> string set \<Rightarrow> string
   \<Rightarrow> ((string, pyval) dict \<Rightarrow> ('w, pyval) act) \<Rightarrow> 'w \<Rightarrow> ((exc + pyval) \<times> 'w) option" where
  "with_dependencies fs ov ex skip f body w =
     Option.bind (resolve_params fs ov ex [] skip (f_sig fs f) [] \<lparr>d_stack = [], d_cache = [], d_world = w\<rparr>)
       (\<lambda>(r, st). Some
          (case r of
             Inl e \<Rightarrow> close_stack fs (d_stack st) (Inl e) (d_world st)
           | Inr kw \<Rightarrow>
               (case body kw (d_world st) of (out, w') \<Rightarrow> close_stack fs (d_stack st) out w')))"

definition inject_and_run ::
  "'w callables \<Rightarrow> (string, string) dict \<Rightarrow> (string, pyval) dict \<Rightarrow> string \<Rightarrow> 'w
   \<Rightarrow> ((exc + pyval) \<times> 'w) option" where
  "inject_and_run fs ov ctx f = with_dependencies fs ov ctx {} f (f_call fs f)"

text \<open>\<open>positional f args kw\<close> is the call of \<open>f\<close> with the values the framework passes by position.\<close>

definition invoke_with_dependencies ::
  "'w callables \<Rightarrow> (string \<Rightarrow> pyval list \<Rightarrow> (string, pyval) dict \<Rightarrow> ('w, pyval) act)
   \<Rightarrow> (string, string) dict \<Rightarrow> (string, pyval) dict \<Rightarrow> string list \<Rightarrow> string \<Rightarrow> pyval list \<Rightarrow> 'w
   \<Rightarrow> ((exc + pyval) \<times> 'w) option" where
  "invoke_with_dependencies fs positional ov ctx skip_names f args =
     with_dependencies fs ov ctx (set skip_names) f (positional f args)"

section \<open>Resolution returns\<close>

text \<open>The parameters the loop resolves as dependencies, and what they resolve to.\<close>

definition injected :: "string set \<Rightarrow> param list \<Rightarrow> depends set" where
  "injected skip ps = {d. \<exists>p \<in> set ps. extract_depends p = Some d \<and> pr_kind p \<noteq> VAR_KEYWORD
     \<and> pr_name p \<noteq> ''self'' \<and> pr_name p \<notin> skip}"

definition targets :: "(string, string) dict \<Rightarrow> string set \<Rightarrow> param list \<Rightarrow> string set" where
  "targets ov skip ps = target ov ` injected skip ps"

lemma targets_Cons:
  "targets ov skip (p # ps) =
     (case extract_depends p of
        Some d \<Rightarrow> if pr_kind p \<noteq> VAR_KEYWORD \<and> pr_name p \<noteq> ''self'' \<and> pr_name p \<notin> skip
                  then insert (target ov d) (targets ov skip ps) else targets ov skip ps
      | None \<Rightarrow> targets ov skip ps)"
  by (auto simp: targets_def injected_def split: option.split)

lemma targets_Nil [simp]: "targets ov skip [] = {}"
  by (simp add: targets_def injected_def)

text \<open>Every round of the recursion adds a callable to the chain that was not in it.\<close>

lemma resolve_returns:
  assumes "finite F" and closed: "\<And>f. f \<in> F \<Longrightarrow> targets ov {} (f_sig fs f) \<subseteq> F"
  shows "targets ov skip ps \<subseteq> F \<Longrightarrow> \<exists>r. resolve_params fs ov ex chain skip ps acc st = Some r"
proof (induction "(card (F - set chain), length ps)" arbitrary: chain skip ps acc st
    rule: wf_induct_rule [OF wf_lex_prod [OF wf_less_than wf_less_than]])
  case 1
  note IH = "1.hyps" and sub = "1.prems"
  show ?case
  proof (cases ps)
    case Nil
    then show ?thesis by (simp add: resolve_params.simps)
  next
    case (Cons p rest)
    have rest: "\<exists>r. resolve_params fs ov ex chain skip rest acc' st' = Some r" for acc' st'
    proof -
      have "targets ov skip rest \<subseteq> F"
        using sub Cons by (auto simp: targets_Cons split: option.splits if_splits)
      then show ?thesis using IH Cons by simp
    qed
    have deeper: "\<exists>r. resolve_params fs ov ex (chain @ [g]) {} (f_sig fs g) [] st = Some r"
      if "g \<in> F" "g \<notin> set chain" for g
    proof -
      have "card (F - set (chain @ [g])) < card (F - set chain)"
        using assms(1) that by (intro psubset_card_mono) auto
      then show ?thesis using IH closed [OF that(1)] by simp
    qed
    show ?thesis
    proof (cases "extract_depends p")
      case None
      then show ?thesis using rest Cons by (simp add: resolve_params.simps [of _ _ _ _ _ "p # rest"])
    next
      case (Some d)
      have g: "target ov d \<in> F" if "pr_kind p \<noteq> VAR_KEYWORD" "pr_name p \<noteq> ''self''" "pr_name p \<notin> skip"
        using sub Cons Some that by (simp add: targets_Cons)
      show ?thesis
      proof (cases "pr_kind p \<noteq> VAR_KEYWORD \<and> pr_name p \<noteq> ''self'' \<and> pr_name p \<notin> skip
          \<and> target ov d \<notin> set chain")
        case True
        then obtain r st1 where d: "resolve_params fs ov ex (chain @ [target ov d]) {}
            (f_sig fs (target ov d)) [] st = Some (r, st1)"
          using deeper [of "target ov d"] g by fastforce
        show ?thesis
          unfolding Cons resolve_params.simps [of _ _ _ _ _ "p # rest"]
          using rest d True Some by (auto split: sum.split prod.split)
      next
        case False
        then show ?thesis using rest Cons Some
          by (auto simp: resolve_params.simps [of _ _ _ _ _ "p # rest"])
      qed
    qed
  qed
qed

section \<open>Induction over a resolution\<close>

definition dep_of :: "string set \<Rightarrow> param \<Rightarrow> depends \<Rightarrow> bool" where
  "dep_of skip p d \<longleftrightarrow> extract_depends p = Some d \<and> pr_kind p \<noteq> VAR_KEYWORD
     \<and> pr_name p \<noteq> ''self'' \<and> pr_name p \<notin> skip"

lemma targets_dep [simp]: "dep_of skip p d \<Longrightarrow> targets ov skip (p # rest) = insert (target ov d) (targets ov skip rest)"
  by (simp add: dep_of_def targets_Cons)

lemma targets_no_dep: "(\<And>d. \<not> dep_of skip p d) \<Longrightarrow> targets ov skip (p # rest) = targets ov skip rest"
  by (auto simp: dep_of_def targets_Cons split: option.split)

text \<open>What can happen to the first parameter, and with it an induction rule over the recursion.\<close>

lemma resolve_induct [consumes 1, case_names nil pass fail cached sub_fail run_fail run]:
  assumes "resolve_params fs ov ex chain skip ps acc st = Some y"
    and nil: "\<And>chain skip acc st. P chain skip [] acc st (Inr acc, st)"
    and pass: "\<And>chain skip p rest acc acc' st y. (\<And>d. \<not> dep_of skip p d) \<Longrightarrow> P chain skip rest acc' st y
        \<Longrightarrow> P chain skip (p # rest) acc st y"
    and fail: "\<And>chain skip p rest acc st e. P chain skip (p # rest) acc st (Inl e, st)"
    and cached: "\<And>chain skip p d rest acc st v y. dep_of skip p d \<Longrightarrow> d_use_cache d
        \<Longrightarrow> map_of (d_cache st) (target ov d) = Some v
        \<Longrightarrow> P chain skip rest (AList.update (pr_name p) v acc) st y \<Longrightarrow> P chain skip (p # rest) acc st y"
    and sub_fail: "\<And>chain skip p d rest acc st e st1. dep_of skip p d \<Longrightarrow> target ov d \<notin> set chain
        \<Longrightarrow> P (chain @ [target ov d]) {} (f_sig fs (target ov d)) [] st (Inl e, st1)
        \<Longrightarrow> P chain skip (p # rest) acc st (Inl e, st1)"
    and run_fail: "\<And>chain skip p d rest acc st kw st1 e st2. dep_of skip p d \<Longrightarrow> target ov d \<notin> set chain
        \<Longrightarrow> (d_use_cache d \<Longrightarrow> map_of (d_cache st) (target ov d) = None)
        \<Longrightarrow> P (chain @ [target ov d]) {} (f_sig fs (target ov d)) [] st (Inr kw, st1)
        \<Longrightarrow> run_dependency fs (target ov d) kw st1 = (Inl e, st2) \<Longrightarrow> P chain skip (p # rest) acc st (Inl e, st2)"
    and run: "\<And>chain skip p d rest acc st kw st1 v st2 y. dep_of skip p d \<Longrightarrow> target ov d \<notin> set chain
        \<Longrightarrow> (d_use_cache d \<Longrightarrow> map_of (d_cache st) (target ov d) = None)
        \<Longrightarrow> P (chain @ [target ov d]) {} (f_sig fs (target ov d)) [] st (Inr kw, st1)
        \<Longrightarrow> run_dependency fs (target ov d) kw st1 = (Inr v, st2)
        \<Longrightarrow> P chain skip rest (AList.update (pr_name p) v acc)
              (if d_use_cache d then st2\<lparr>d_cache := AList.update (target ov d) v (d_cache st2)\<rparr> else st2) y
        \<Longrightarrow> P chain skip (p # rest) acc st y"
  shows "P chain skip ps acc st y"
proof -
  have "fs' = fs \<and> ov' = ov \<and> ex' = ex \<longrightarrow> P chain skip ps acc st y"
    if "resolve_params fs' ov' ex' chain skip ps acc st = Some y" for fs' ov' ex'
    using that
  proof (induction fs' ov' ex' chain skip ps acc st y
      rule: resolve_params.raw_induct [rotated, consumes 1])
    case (1 rec fs' ov' ex' chain skip ps acc st y)
    show ?case
    proof (intro impI, elim conjE)
      assume eq: "fs' = fs" "ov' = ov" "ex' = ex"
      have IH: "rec fs ov ex chain skip ps acc st = Some y \<Longrightarrow> P chain skip ps acc st y" for chain skip ps acc st y
        using 1(1) by blast
      show "P chain skip ps acc st y"
      proof (cases ps)
        case Nil
        then show ?thesis using 1(2) nil by auto
      next
        case (Cons p rest)
        note body = 1(2) [unfolded eq Cons list.case]
        show ?thesis
        proof (cases "\<exists>d. dep_of skip p d")
          case False
          have "y = (Inl (missing_param (pr_name p)), st)
              \<or> (\<exists>acc'. rec fs ov ex chain skip rest acc' st = Some y)"
            using body False by (auto simp: dep_of_def split: if_splits option.splits)
          then show ?thesis using False pass [OF _ IH] fail Cons by blast
        next
          case True
          then obtain d where d: "dep_of skip p d" by blast
          then have d': "extract_depends p = Some d" "pr_kind p \<noteq> VAR_KEYWORD"
              "\<not> (pr_name p = ''self'' \<or> pr_name p \<in> skip)" by (simp_all add: dep_of_def)
          note body' = body [unfolded d'(1) if_not_P [OF d'(3)] option.case, simplified d'(2), simplified]
          consider (cyc) e where "y = (Inl e, st)"
            | (hit) v where "d_use_cache d" "map_of (d_cache st) (target ov d) = Some v"
                "rec fs ov ex chain skip rest (AList.update (pr_name p) v acc) st = Some y"
            | (sub) r st1 where "target ov d \<notin> set chain" "d_use_cache d \<Longrightarrow> map_of (d_cache st) (target ov d) = None"
                "rec fs ov ex (chain @ [target ov d]) {} (f_sig fs (target ov d)) [] st = Some (r, st1)"
                "(case r of Inl e \<Rightarrow> Some (Inl e, st1)
                  | Inr kw \<Rightarrow> (case run_dependency fs (target ov d) kw st1 of
                       (Inl e, st2) \<Rightarrow> Some (Inl e, st2)
                     | (Inr v, st2) \<Rightarrow> rec fs ov ex chain skip rest (AList.update (pr_name p) v acc)
                         (if d_use_cache d then st2\<lparr>d_cache := AList.update (target ov d) v (d_cache st2)\<rparr>
                          else st2))) = Some y"
            using body' by (fastforce simp: bind_eq_Some_conv split: if_splits)
          then show ?thesis
          proof cases
            case cyc then show ?thesis using fail Cons by simp
          next
            case hit then show ?thesis using cached [OF d hit(1,2) IH [OF hit(3)]] Cons by simp
          next
            case sub
            note sub_IH = IH [OF sub(3)]
            show ?thesis
            proof (cases r)
              case (Inl e)
              then show ?thesis using sub_fail [OF d sub(1)] sub_IH sub(4) Cons by auto
            next
              case (Inr kw)
              obtain out st2 where o: "run_dependency fs (target ov d) kw st1 = (out, st2)" by fastforce
              show ?thesis
              proof (cases out)
                case (Inl e)
                then show ?thesis
                  using run_fail [OF d sub(1,2) sub_IH [unfolded Inr] o [unfolded Inl]] sub(4) Inr o Cons by auto
              next
                case v: (Inr v)
                have "rec fs ov ex chain skip rest (AList.update (pr_name p) v acc)
                    (if d_use_cache d then st2\<lparr>d_cache := AList.update (target ov d) v (d_cache st2)\<rparr>
                     else st2) = Some y" using sub(4) Inr o v by simp
                from run [OF d sub(1,2) sub_IH [unfolded Inr] o [unfolded v] IH [OF this]]
                show ?thesis using Cons by simp
              qed
            qed
          qed
        qed
      qed
    qed
  qed
  then show ?thesis using assms(1) by blast
qed

section \<open>Cycles\<close>

text \<open>A callable whose dependencies, all the way down, come to an end.\<close>

inductive resolvable :: "'w callables \<Rightarrow> (string, string) dict \<Rightarrow> string \<Rightarrow> bool" for fs ov where
  resolvableI: "(\<And>g. g \<in> targets ov {} (f_sig fs f) \<Longrightarrow> resolvable fs ov g) \<Longrightarrow> resolvable fs ov f"

definition all_resolvable :: "'w callables \<Rightarrow> (string, string) dict \<Rightarrow> string set \<Rightarrow> bool" where
  "all_resolvable fs ov gs \<longleftrightarrow> (\<forall>g\<in>gs. resolvable fs ov g)"

lemma all_resolvable_insert:
  "A \<subseteq> insert g B \<Longrightarrow> all_resolvable fs ov B \<Longrightarrow> resolvable fs ov g \<Longrightarrow> all_resolvable fs ov A"
  by (auto simp: all_resolvable_def)

lemma run_dependency_cache [simp]: "run_dependency fs g kw st = (r, st') \<Longrightarrow> d_cache st' = d_cache st"
  by (auto simp: run_dependency_def split: prod.splits sum.splits)

lemma resolved_resolvable:
  "resolve_params fs ov ex chain skip ps acc st = Some y \<Longrightarrow> y = (Inr kw, st') \<Longrightarrow>
   all_resolvable fs ov (dkeys (d_cache st)) \<Longrightarrow>
     all_resolvable fs ov (targets ov skip ps) \<and> all_resolvable fs ov (dkeys (d_cache st'))"
proof (induction arbitrary: kw st' rule: resolve_induct)
  case (pass chain skip p rest acc acc' st y)
  then show ?case by (simp add: targets_no_dep)
next
  case (cached chain skip p d rest acc st v y)
  have "target ov d \<in> dkeys (d_cache st)" using cached.hyps(3) by (rule map_of_keysD)
  then have "resolvable fs ov (target ov d)" using cached.prems(2) unfolding all_resolvable_def by blast
  then show ?case using cached.IH [OF cached.prems] cached.hyps(1) by (simp add: all_resolvable_def)
next
  case (run chain skip p d rest acc st kw1 st1 v st2 y)
  have sub: "all_resolvable fs ov (targets ov {} (f_sig fs (target ov d)))" "all_resolvable fs ov (dkeys (d_cache st1))"
    using run.IH(1) [OF refl] run.prems(2) by simp_all
  then have "resolvable fs ov (target ov d)" by (auto simp: all_resolvable_def intro: resolvableI)
  have "d_cache st2 = d_cache st1" using run.hyps(4) by simp
  then have "dkeys (d_cache (if d_use_cache d
      then st2\<lparr>d_cache := AList.update (target ov d) v (d_cache st2)\<rparr> else st2))
      \<subseteq> insert (target ov d) (dkeys (d_cache st1))"
    by (cases "d_use_cache d") (simp_all add: subset_insertI)
  then have "all_resolvable fs ov (dkeys (d_cache (if d_use_cache d
      then st2\<lparr>d_cache := AList.update (target ov d) v (d_cache st2)\<rparr> else st2)))"
    using sub(2) \<open>resolvable fs ov (target ov d)\<close> by (rule all_resolvable_insert)
  note run.IH(2) [OF run.prems(1) this]
  then show ?case using run.hyps(1) \<open>resolvable fs ov (target ov d)\<close> by (simp add: all_resolvable_def)
next
  case (nil chain skip acc st)
  then show ?case by (auto simp: all_resolvable_def)
next
  case (fail chain skip p rest acc st e)
  from fail.prems(1) show ?case by simp
next
  case (sub_fail chain skip p d rest acc st e st1)
  from sub_fail.prems(1) show ?case by simp
next
  case (run_fail chain skip p d rest acc st kw st1 e st2)
  from run_fail.prems(1) show ?case by simp
qed

section \<open>Once per request\<close>

text \<open>The same callables with a log of what was called, latest first.\<close>

definition logged :: "'w callables \<Rightarrow> (string list \<times> 'w) callables" where
  "logged fs =
     \<lparr>f_sig = f_sig fs,
      f_call = (\<lambda>f kw (log, w). case f_call fs f kw w of (r, w') \<Rightarrow> (r, (f # log, w'))),
      f_yields = f_yields fs,
      f_exit = (\<lambda>f e (log, w). case f_exit fs f e w of (e', w') \<Rightarrow> (e', (log, w')))\<rparr>"

abbreviation calls :: "(string list \<times> 'w) request_state \<Rightarrow> string list" where
  "calls st \<equiv> fst (d_world st)"

definition ran_once :: "string \<Rightarrow> (string list \<times> 'w) request_state \<Rightarrow> bool" where
  "ran_once g st \<longleftrightarrow> count_list (calls st) g = (if g \<in> dkeys (d_cache st) then 1 else 0)"

definition always_cached :: "'w callables \<Rightarrow> (string, string) dict \<Rightarrow> string \<Rightarrow> param list \<Rightarrow> bool" where
  "always_cached fs ov g ps \<longleftrightarrow> (\<forall>p\<in>set ps. \<forall>d. extract_depends p = Some d \<and> target ov d = g \<longrightarrow> d_use_cache d)"

lemma logged_run: "run_dependency (logged fs) h kw st = (r, st') \<Longrightarrow> calls st' = h # calls st"
  by (auto simp: run_dependency_def logged_def split: prod.splits sum.splits)

lemma resolve_once:
  assumes sigs: "\<And>f. always_cached fs ov g (f_sig fs f)"
  shows "resolve_params (logged fs) ov ex chain skip ps acc st = Some y \<Longrightarrow> ran_once g st \<Longrightarrow>
    always_cached fs ov g ps \<Longrightarrow>
    (case y of (Inr _, st') \<Rightarrow> ran_once g st' \<and> (g \<in> set chain \<longrightarrow> (g \<in> dkeys (d_cache st') \<longleftrightarrow> g \<in> dkeys (d_cache st)))
             | (Inl _, st') \<Rightarrow> count_list (calls st') g \<le> 1)"
proof (induction rule: resolve_induct)
  case (pass chain skip p rest acc acc' st y)
  then show ?case by (simp add: always_cached_def)
next
  case (fail chain skip p rest acc st e)
  then show ?case by (simp add: ran_once_def)
next
  case (cached chain skip p d rest acc st v y)
  then show ?case by (simp add: always_cached_def)
next
  case (sub_fail chain skip p d rest acc st e st1)
  then show ?case using sigs by (simp add: logged_def)
next
  case (run_fail chain skip p d rest acc st kw st1 e st2)
  have "ran_once g st1 \<and> (g \<in> set (chain @ [target ov d]) \<longrightarrow> (g \<in> dkeys (d_cache st1) \<longleftrightarrow> g \<in> dkeys (d_cache st)))"
    using run_fail.IH run_fail.prems sigs by (simp add: logged_def)
  moreover have "g \<notin> dkeys (d_cache st)" if "target ov d = g"
    using that run_fail.prems(2) run_fail.hyps(1,3) by (auto simp: always_cached_def dep_of_def dkeys_map_of)
  ultimately have "count_list (target ov d # calls st1) g \<le> 1"
    by (cases "target ov d = g") (simp_all add: ran_once_def)
  then show ?case using logged_run [OF run_fail.hyps(4)] by simp
next
  case (run chain skip p d rest acc st kw st1 v st2 y)
  have sub: "ran_once g st1" "g \<in> set (chain @ [target ov d]) \<longrightarrow> (g \<in> dkeys (d_cache st1) \<longleftrightarrow> g \<in> dkeys (d_cache st))"
    using run.IH(1) run.prems sigs by (simp_all add: logged_def)
  have fresh: "g \<notin> dkeys (d_cache st) \<and> d_use_cache d" if "target ov d = g"
    using that run.prems(2) run.hyps(1,3) by (auto simp: always_cached_def dep_of_def dkeys_map_of)
  let ?st = "if d_use_cache d then st2\<lparr>d_cache := AList.update (target ov d) v (d_cache st2)\<rparr> else st2"
  have c: "d_cache st2 = d_cache st1" using run.hyps(4) by simp
  have l: "calls st2 = target ov d # calls st1" by (rule logged_run [OF run.hyps(4)])
  have once: "ran_once g ?st"
    using sub fresh c l by (cases "target ov d = g"; cases "d_use_cache d") (simp_all add: ran_once_def)
  have same: "g \<in> set chain \<longrightarrow> (g \<in> dkeys (d_cache ?st) \<longleftrightarrow> g \<in> dkeys (d_cache st))"
    using sub(2) run.hyps(2) c by (cases "target ov d = g"; cases "d_use_cache d") simp_all
  have "always_cached fs ov g rest" using run.prems(2) by (simp add: always_cached_def)
  then show ?case using run.IH(2) [OF once] same by (auto split: prod.splits sum.splits)
qed (auto simp: ran_once_def)

section \<open>Properties\<close>

lemma unwind_append: "unwind fs (a @ b) e w = (case unwind fs a e w of (e', w') \<Rightarrow> unwind fs b e' w')"
  by (induction a arbitrary: e w) (simp_all split: prod.split)

text \<open>Resolving the dependencies of a handler always returns, whatever its dependencies depend
  on; it fails rather than loop when they form a cycle, and what it has resolved has none.\<close>

theorem resolution_returns_without_cycles:
  assumes "finite F" and "\<And>f. f \<in> F \<Longrightarrow> targets ov {} (f_sig fs f) \<subseteq> F" and "targets ov skip ps \<subseteq> F"
  shows "\<exists>r st'. resolve_params fs ov ex [] skip ps [] \<lparr>d_stack = [], d_cache = [], d_world = w\<rparr> = Some (r, st')
    \<and> ((\<exists>g\<in>targets ov skip ps. \<not> resolvable fs ov g) \<longrightarrow> (\<exists>e. r = Inl e))"
proof -
  obtain r st' where r: "resolve_params fs ov ex [] skip ps []
      \<lparr>d_stack = [], d_cache = [], d_world = w\<rparr> = Some (r, st')"
    using resolve_returns [OF assms] by fastforce
  moreover have "\<forall>g\<in>targets ov skip ps. resolvable fs ov g" if "r = Inr kw" for kw
    using resolved_resolvable [OF r [unfolded that] refl] by (simp add: all_resolvable_def)
  ultimately show ?thesis by (metis sum.exhaust)
qed

definition need :: "string \<Rightarrow> string \<Rightarrow> bool \<Rightarrow> param" where
  "need name dep c = \<lparr>pr_name = name, pr_kind = POSITIONAL_OR_KEYWORD,
     pr_default = Marker \<lparr>d_dependency = dep, d_use_cache = c\<rparr>, pr_metadata = []\<rparr>"

text \<open>Two services that need a shared session, and a pair that need each other.\<close>

definition services :: "nat callables" where
  "services = \<lparr>
     f_sig = (\<lambda>f. if f = ''users'' \<or> f = ''orders'' then [need ''s'' ''session'' True]
                else if f = ''a'' then [need ''b'' ''b'' True]
                else if f = ''b'' then [need ''a'' ''a'' True] else []),
     f_call = (\<lambda>f kw n. (Inr (PInt (int n)), Suc n)),
     f_yields = (\<lambda>f. f = ''session''), f_exit = (\<lambda>f e n. (e, n))\<rparr>"

lemma resolution_returns_without_cycles_witness:
  "\<exists>e st'. resolve_params services [] [] [] {} [need ''x'' ''a'' True] []
     \<lparr>d_stack = [], d_cache = [], d_world = 0\<rparr> = Some (Inl e, st')"
proof -
  have t: "targets [] {} [need n d c] = {d}" if "n \<noteq> ''self''" for n d c
    using that by (simp add: targets_def injected_def need_def extract_depends_def target_def dict_get_def)
  have loop: "f \<noteq> ''a'' \<and> f \<noteq> ''b''" if "resolvable services [] f" for f
    using that
  proof induction
    case (resolvableI f)
    have "targets [] {} (f_sig services ''a'') = {''b''}" "targets [] {} (f_sig services ''b'') = {''a''}"
      by (simp_all add: services_def t)
    then show ?case using resolvableI by (metis singletonI)
  qed
  have "\<exists>r st'. resolve_params services [] [] [] {} [need ''x'' ''a'' True] []
      \<lparr>d_stack = [], d_cache = [], d_world = 0\<rparr> = Some (r, st')
    \<and> ((\<exists>g\<in>targets [] {} [need ''x'' ''a'' True]. \<not> resolvable services [] g) \<longrightarrow> (\<exists>e. r = Inl e))"
    by (rule resolution_returns_without_cycles [of "{''a'', ''b''}"]) (auto simp: services_def t)
  then show ?thesis using loop by (auto simp: t)
qed

text \<open>Within a request a dependency that is always declared with its cache on runs at most once,
  however many parameters of however many callables ask for it, and even when resolution fails.\<close>

theorem dependency_runs_once:
  assumes "\<And>f. always_cached fs ov g (f_sig fs f)" and "always_cached fs ov g ps"
    and "resolve_params (logged fs) ov ex [] skip ps [] \<lparr>d_stack = [], d_cache = [], d_world = ([], w)\<rparr>
      = Some (r, st')"
  shows "count_list (calls st') g \<le> 1"
  using resolve_once [OF assms(1,3) _ assms(2)] by (cases r) (auto simp: ran_once_def)

lemma dependency_runs_once_witness:
  "\<exists>r st'. resolve_params (logged services) [] [] [] {} [need ''u'' ''users'' True, need ''o'' ''orders'' True] []
       \<lparr>d_stack = [], d_cache = [], d_world = ([], 0)\<rparr> = Some (r, st')
     \<and> calls st' = [''orders'', ''users'', ''session''] \<and> count_list (calls st') ''session'' \<le> 1"
proof -
  have run: "resolve_params (logged services) [] [] [] {} [need ''u'' ''users'' True, need ''o'' ''orders'' True] []
       \<lparr>d_stack = [], d_cache = [], d_world = ([], 0)\<rparr>
     = Some (Inr [(''u'', PInt 1), (''o'', PInt 2)], \<lparr>d_stack = [''session''],
         d_cache = [(''session'', PInt 0), (''users'', PInt 1), (''orders'', PInt 2)],
         d_world = ([''orders'', ''users'', ''session''], 3)\<rparr>)"
    by code_simp
  have "count_list (calls \<lparr>d_stack = [''session''],
         d_cache = [(''session'', PInt 0), (''users'', PInt 1), (''orders'', PInt 2)],
         d_world = ([''orders'', ''users'', ''session''], 3 :: nat)\<rparr>) ''session'' \<le> 1"
    by (rule dependency_runs_once [OF _ _ run])
      (auto simp: always_cached_def services_def need_def extract_depends_def)
  then show ?thesis using run by auto
qed

end
