(* ===== verification/Validation.thy ===== *)
theory Validation
  imports Depends
begin

text \<open>
  Parameter validation, \<open>validation.py\<close>: what of a network payload reaches a handler. Annotations
  are values of a type \<open>'t\<close>, and what Pydantic does with them (\<open>model_validate\<close> of a model class, of
  a model built from fields, and of a \<open>TypeAdapter\<close>) is a record of functions that give the
  validation errors or the coerced value.
\<close>

record 't pydantic =
  is_basemodel :: "'t \<Rightarrow> bool"
  model_validate :: "'t \<Rightarrow> (string, pyval) dict \<Rightarrow> pyval + pyval"
  fields_validate :: "(string \<times> 't option \<times> pyval option) list \<Rightarrow> bool \<Rightarrow> (string, pyval) dict
    \<Rightarrow> pyval + (string, pyval) dict"
  adapter_validate :: "'t \<Rightarrow> pyval \<Rightarrow> pyval + pyval"

definition schema_error :: "string \<Rightarrow> pyval \<Rightarrow> exc" where
  "schema_error msg errors =
     \<lparr>x_mro = [''SchemaValidationError'', ''Exception'', ''BaseException'', ''object''],
      x_istos = None, x_str = msg, x_errors = errors\<rparr>"

definition declared_params ::
  "param list \<Rightarrow> (string, pyval) dict \<Rightarrow> string set \<Rightarrow> (string, pyval) dict" where
  "declared_params sig params excluded =
     (let ps = filter (\<lambda>p. pr_name p \<notin> excluded) sig;
          var_keyword = list_ex (\<lambda>p. pr_kind p = VAR_KEYWORD) ps;
          accepted = map pr_name (filter (\<lambda>p. pr_kind p \<noteq> VAR_KEYWORD \<and> pr_kind p \<noteq> VAR_POSITIONAL) ps)
      in if var_keyword then params else filter (\<lambda>(k, v). k \<in> set accepted) params)"

text \<open>
  The fields of the model built from a signature: name, annotation (\<open>None\<close> for \<open>Any\<close>), default. A
  parameter with a marker as its default is injected, so every caller excludes it.
\<close>

definition field_definitions ::
  "(string \<Rightarrow> 't option) \<Rightarrow> param list \<Rightarrow> string set \<Rightarrow> (string \<times> 't option \<times> pyval option) list" where
  "field_definitions hints sig excluded =
     map (\<lambda>p. (pr_name p, hints (pr_name p),
                case pr_default p of Value v \<Rightarrow> Some v | Empty \<Rightarrow> None | Marker d \<Rightarrow> Some PNone))
       (filter (\<lambda>p. pr_name p \<notin> excluded \<and> pr_kind p \<noteq> VAR_POSITIONAL \<and> pr_kind p \<noteq> VAR_KEYWORD) sig)"

text \<open>\<open>hints\<close> is \<open>None\<close> where the callable has no annotations, or one that does not resolve.\<close>

definition validate_params ::
  "'t pydantic option \<Rightarrow> (string \<Rightarrow> 't option) option \<Rightarrow> param list \<Rightarrow> (string, pyval) dict
   \<Rightarrow> string set \<Rightarrow> exc + (string, pyval) dict" where
  "validate_params py hints sig params skip =
     (let excluded = insert ''self'' skip;
          non_self = filter (\<lambda>p. pr_name p \<notin> excluded) sig;
          untyped = declared_params sig params excluded;
          by_fields = (\<lambda>(d :: 't pydantic) h.
            (let fields = field_definitions h sig excluded
             in if fields = [] then Inr untyped
                else (case fields_validate d fields (list_ex (\<lambda>p. pr_kind p = VAR_KEYWORD) non_self) params of
                        Inl errors \<Rightarrow> Inl (schema_error ''Schema validation failed'' errors)
                      | Inr m \<Rightarrow> Inr m)))
      in case (py, hints) of
           (Some d, Some h) \<Rightarrow>
             (case non_self of
                [p] \<Rightarrow>
                  (case h (pr_name p) of
                     Some t \<Rightarrow>
                       if is_basemodel d t
                       then (case model_validate d t params of
                               Inl errors \<Rightarrow> Inl (schema_error ''Schema validation failed'' errors)
                             | Inr m \<Rightarrow> Inr [(pr_name p, m)])
                       else by_fields d h
                   | None \<Rightarrow> by_fields d h)
              | _ \<Rightarrow> by_fields d h)
         | _ \<Rightarrow> Inr untyped)"

definition build_payload_validator ::
  "'t pydantic option \<Rightarrow> (string \<Rightarrow> 't option) \<Rightarrow> string \<Rightarrow> string option \<Rightarrow> (pyval \<Rightarrow> exc + pyval) option"
  where
  "build_payload_validator py hints func_name param_name =
     (case (py, param_name) of
        (Some d, Some p) \<Rightarrow>
          if p = [] then None
          else (case hints p of
                  None \<Rightarrow> None
                | Some t \<Rightarrow> Some (\<lambda>value.
                    case adapter_validate d t value of
                      Inl errors \<Rightarrow> Inl (schema_error (''Payload validation failed for '' @ func_name) errors)
                    | Inr v \<Rightarrow> Inr v))
      | _ \<Rightarrow> None)"

section \<open>Lemmas\<close>

text \<open>Nothing reaches a callable without \<open>**kwargs\<close> that it does not declare.\<close>

lemma declared_only:
  assumes "\<forall>p\<in>set sig. pr_kind p \<noteq> VAR_KEYWORD"
  shows "fst ` set (declared_params sig params excluded) \<subseteq> pr_name ` set sig - excluded"
proof -
  have "\<not> list_ex (\<lambda>p. pr_kind p = VAR_KEYWORD) (filter (\<lambda>p. pr_name p \<notin> excluded) sig)"
    using assms by (auto simp: list_ex_iff)
  then show ?thesis unfolding declared_params_def by auto
qed

text \<open>With \<open>**kwargs\<close> every name of the payload does, an injected one included.\<close>

lemma var_keyword_admits_all:
  "p \<in> set sig \<Longrightarrow> pr_kind p = VAR_KEYWORD \<Longrightarrow> pr_name p \<notin> excluded \<Longrightarrow> declared_params sig params excluded = params"
  by (auto simp: declared_params_def list_ex_iff)

end
