(* ===== verification/PyNum.thy ===== *)
theory PyNum
  imports PyText
begin

text \<open>
  Decimal text: \<open>str\<close> of an integer, and that \<open>int\<close> reads it back.
\<close>

fun show_nat :: "nat \<Rightarrow> string" where
  "show_nat n = (if n < 10 then [char_of (48 + n)] else show_nat (n div 10) @ [char_of (48 + n mod 10)])"

declare show_nat.simps [simp del]

definition show_int :: "int \<Rightarrow> string" where
  "show_int i = (if i < 0 then CHR ''-'' # show_nat (nat (- i)) else show_nat (nat i))"

lemma digit_char [simp]: "d < 10 \<Longrightarrow> is_digit (char_of (48 + d))" for d :: nat
  by (simp add: is_digit_def)

lemma digit_value [simp]: "d < 10 \<Longrightarrow> (of_char (char_of (48 + d :: nat)) :: int) - 48 = int d"
proof -
  assume "d < 10"
  then have "(of_char (char_of (48 + d) :: char) :: nat) = 48 + d" by simp
  then have "(of_char (char_of (48 + d) :: char) :: int) = int (48 + d)"
    by (metis of_nat_of_char)
  then show ?thesis by simp
qed

lemma show_nat_digits: "\<forall>c\<in>set (show_nat n). is_digit c"
  by (induction n rule: show_nat.induct) (subst show_nat.simps, auto)

lemma show_nat_ne [simp]: "show_nat n \<noteq> []"
  by (subst show_nat.simps) simp

lemma digits_append: "\<forall>c\<in>set s. is_digit c \<Longrightarrow> digits s a = Some b \<Longrightarrow> digits (s @ t) a = digits t b"
  by (induction s arbitrary: a) auto

lemma digits_show_nat: "digits (show_nat n) 0 = Some (int n)"
proof (induction n rule: show_nat.induct)
  case (1 n)
  show ?case
  proof (cases "n < 10")
    case True
    then show ?thesis by (subst show_nat.simps) simp
  next
    case False
    have "digits (show_nat (n div 10) @ [char_of (48 + n mod 10)]) 0 = digits [char_of (48 + n mod 10)] (int (n div 10))"
      using show_nat_digits 1 False by (intro digits_append) auto
    also have "\<dots> = Some (int n)"
      by (simp add: of_nat_mod [symmetric] of_nat_div [symmetric]) (metis of_nat_add of_nat_mult of_nat_numeral mult_div_mod_eq)
    finally show ?thesis using False by (subst show_nat.simps) simp
  qed
qed

lemma hd_show_nat [simp]: "is_digit (hd (show_nat n))"
  using show_nat_digits [of n] by (metis list.set_sel(1) show_nat_ne)

lemma py_int_show [simp]: "py_int (show_int i) = Inr i"
proof -
  have "c \<noteq> CHR ''+'' \<and> c \<noteq> CHR ''-''" if "is_digit c" for c using that by (auto simp: is_digit_def)
  moreover obtain c cs where "show_nat (nat i) = c # cs" by (meson neq_Nil_conv show_nat_ne)
  ultimately show ?thesis
    using digits_show_nat [of "nat i"] digits_show_nat [of "nat (- i)"] hd_show_nat [of "nat i"] hd_show_nat [of "nat (- i)"]
    by (auto simp: py_int_def show_int_def Let_def)
qed

lemma digit_not_space: "is_digit c \<Longrightarrow> \<not> is_space c"
  by (auto simp: is_digit_def is_space_def Let_def)

lemma strip_plain: "\<forall>c\<in>set s. \<not> is_space c \<Longrightarrow> strip s = s"
proof -
  assume s: "\<forall>c\<in>set s. \<not> is_space c"
  have "dropWhile is_space t = t" if "set t = set s" for t
    using that s by (cases t) auto
  then show ?thesis by (simp add: strip_def lstrip_def)
qed

lemma strip_show_int [simp]: "strip (show_int i) = show_int i"
  using show_nat_digits digit_not_space
  by (intro strip_plain) (auto simp: show_int_def is_space_def)

end
