(* ===== verification/Handler.thy ===== *)
theory Handler
  imports Ledger Retry Gateway Authz Middleware Validation PyNum
begin

text \<open>
  The request handler, \<open>primitives/handler.py\<close>: the idempotency key of a call, claiming it before
  the work and completing or releasing it after, the body with its dependencies, retries, return
  validation and records, and the network entry that authorizes, validates and always answers. A
  storage plugin is a record of operations that may raise; \<open>claim_processed\<close> and \<open>release_claim\<close>
  may be missing. Hashing, JSON, clocks, UUIDs, random draws, Pydantic and the user's functions are
  arguments.
\<close>

section \<open>Storage plugins\<close>

record 's plugin =
  sp_claim :: "(string \<Rightarrow> time \<Rightarrow> time \<Rightarrow> time \<Rightarrow> ('s, claim) act) option"
  sp_release :: "(string \<Rightarrow> ('s, unit) act) option"
  sp_check :: "string \<Rightarrow> ('s, pyval) act"
  sp_mark :: "string \<Rightarrow> pyval \<Rightarrow> ('s, unit) act"
  sp_put :: "string \<Rightarrow> bytes \<Rightarrow> ('s, unit) act"
  sp_log :: "time \<Rightarrow> string \<Rightarrow> bytes \<Rightarrow> string option \<Rightarrow> ('s, unit) act"

section \<open>Handlers\<close>

datatype retry_arg = NoRetry | IntRetry int | PolicyRetry retry_policy
datatype durability_arg = DurabilityName string | DurabilityValue durability

text \<open>The function behind the handler: its signature, its call, the return type it is checked against.\<close>

datatype return_type = NoReturnType | ReturnsNone | ReturnType "pyval \<Rightarrow> pyval + pyval"

record 'u handler =
  h_name :: string
  h_sig :: "param list"
  h_func :: "pyval list \<Rightarrow> (string, pyval) dict \<Rightarrow> ('u world, pyval) act"
  h_prefix :: string
  h_storage :: "'u world plugin"
  h_db :: pyval
  h_serializer :: "pyval \<Rightarrow> exc + bytes"
  h_calls :: int
  h_retry :: retry_policy
  h_durability :: durability
  h_middleware :: "'u middleware list option"
  h_authorizer :: "authorizer option"
  h_registry :: registry
  h_overrides :: "(string, string) dict"
  h_lease_s :: time
  h_return :: return_type

definition depends_params :: "param list \<Rightarrow> string set" where
  "depends_params sig = {pr_name p | p. p \<in> set sig \<and> extract_depends p \<noteq> None}"

definition inject_db :: "param list \<Rightarrow> bool" where
  "inject_db sig \<longleftrightarrow> ''db'' \<in> pr_name ` set sig"

definition injected_params :: "param list \<Rightarrow> string set" where
  "injected_params sig = depends_params sig \<union> (if inject_db sig then {''db''} else {})"

definition durability_of :: "durability_arg \<Rightarrow> durability res" where
  "durability_of d =
     (case d of
        DurabilityValue v \<Rightarrow> Inr v
      | DurabilityName s \<Rightarrow>
          if s = ''at_most_once'' then Inr AT_MOST_ONCE
          else if s = ''at_least_once'' then Inr AT_LEAST_ONCE
          else if s = ''exactly_once'' then Inr EXACTLY_ONCE
          else Inl (ValueError s))"

definition retry_of :: "retry_arg \<Rightarrow> retry_policy res" where
  "retry_of r =
     (case r of
        NoRetry \<Rightarrow> policy_from_int 0
      | IntRetry n \<Rightarrow> policy_from_int n
      | PolicyRetry p \<Rightarrow> Inr p)"

definition handler_init ::
  "'u handler \<Rightarrow> retry_arg \<Rightarrow> durability_arg \<Rightarrow> registry option \<Rightarrow> time option \<Rightarrow> 'u handler res" where
  "handler_init h retry durable reg lease =
     res_bind (retry_of retry) (\<lambda>p. res_bind (durability_of durable) (\<lambda>d.
       Inr (h\<lparr>h_calls := 0, h_retry := p, h_durability := d,
              h_registry := (case reg of None \<Rightarrow> default_registry | Some r \<Rightarrow> r),
              h_lease_s := (case lease of None \<Rightarrow> DEFAULT_CLAIM_LEASE_S | Some l \<Rightarrow> l)\<rparr>)))"

section \<open>The idempotency key\<close>

definition make_idempotency_key ::
  "(string \<Rightarrow> string) \<Rightarrow> (pyval \<Rightarrow> string) \<Rightarrow> string \<Rightarrow> (string, pyval) dict \<Rightarrow> string \<Rightarrow> string" where
  "make_idempotency_key sha256 dumps prefix params ident =
     sha256 (prefix @ [CHR 0x0A] @ ident @ [CHR 0x0A] @ dumps (PDict params))"

text \<open>\<open>bind_partial\<close>: positional values fill the positional parameters in order, what is left goes to
  \<open>*args\<close>; keyword values go to the named parameters, what is left to \<open>**kwargs\<close>. The result lists
  the arguments in the order of the signature.\<close>

definition is_positional :: "param \<Rightarrow> bool" where
  "is_positional p \<longleftrightarrow> pr_kind p = POSITIONAL_ONLY \<or> pr_kind p = POSITIONAL_OR_KEYWORD"

definition accepts_keyword :: "param \<Rightarrow> bool" where
  "accepts_keyword p \<longleftrightarrow> pr_kind p = KEYWORD_ONLY \<or> pr_kind p = POSITIONAL_OR_KEYWORD"

datatype bound = One pyval | Rest "pyval list" | Named "(string, pyval) dict"

definition bind_partial ::
  "param list \<Rightarrow> pyval list \<Rightarrow> (string, pyval) dict \<Rightarrow> (string, bound) dict option" where
  "bind_partial sig args kwargs =
     (let pos = filter is_positional sig;
          n = length args;
          by_pos = zip (map pr_name pos) args;
          named = map pr_name (filter accepts_keyword sig);
          extra = filter (\<lambda>(k, v). k \<notin> set named) kwargs;
          has_args = list_ex (\<lambda>p. pr_kind p = VAR_POSITIONAL) sig;
          has_kwargs = list_ex (\<lambda>p. pr_kind p = VAR_KEYWORD) sig
      in if length pos < n \<and> \<not> has_args then None
         else if (\<exists>k \<in> set (map fst by_pos). k \<in> set named \<and> map_of kwargs k \<noteq> None) then None
         else if extra \<noteq> [] \<and> \<not> has_kwargs then None
         else Some (List.map_filter (\<lambda>p.
           if pr_kind p = VAR_POSITIONAL
           then (if length pos < n then Some (pr_name p, Rest (drop (length pos) args)) else None)
           else if pr_kind p = VAR_KEYWORD
           then (if extra \<noteq> [] then Some (pr_name p, Named extra) else None)
           else map_option (\<lambda>v. (pr_name p, One v))
             (case map_of by_pos (pr_name p) of
                Some v \<Rightarrow> Some v
              | None \<Rightarrow> if accepts_keyword p then map_of kwargs (pr_name p) else None)) sig))"

definition apply_defaults :: "param list \<Rightarrow> (string, bound) dict \<Rightarrow> (string, bound) dict" where
  "apply_defaults sig b =
     List.map_filter (\<lambda>p.
       case map_of b (pr_name p) of
         Some v \<Rightarrow> Some (pr_name p, v)
       | None \<Rightarrow>
           (case pr_default p of
              Value v \<Rightarrow> Some (pr_name p, One v)
            | Marker d \<Rightarrow> Some (pr_name p, One PNone)
            | Empty \<Rightarrow>
                if pr_kind p = VAR_POSITIONAL then Some (pr_name p, Rest [])
                else if pr_kind p = VAR_KEYWORD then Some (pr_name p, Named [])
                else None)) sig"

text \<open>\<open>f"arg{i}"\<close>.\<close>

definition arg_name :: "nat \<Rightarrow> string" where
  "arg_name i = ''arg'' @ show_nat i"

definition numbered :: "pyval list \<Rightarrow> (string, pyval) dict" where
  "numbered xs = zip (map arg_name [0..<length xs]) xs"

definition dict_update :: "(string, pyval) dict \<Rightarrow> (string, pyval) dict \<Rightarrow> (string, pyval) dict" where
  "dict_update d e = foldl (\<lambda>d (k, v). AList.update k v d) d e"

definition bound_params ::
  "param list \<Rightarrow> pyval list \<Rightarrow> (string, pyval) dict \<Rightarrow> (string, pyval) dict" where
  "bound_params sig args kwargs =
     (let hidden = insert ''self'' (injected_params sig)
      in case bind_partial sig args kwargs of
           None \<Rightarrow> filter (\<lambda>(k, v). k \<notin> hidden) (dict_update (numbered args) kwargs)
         | Some b \<Rightarrow>
             foldl (\<lambda>d (k, v).
               if k \<in> hidden then d
               else (case v of
                       Named e \<Rightarrow> dict_update d e
                     | Rest xs \<Rightarrow> dict_update d (numbered xs)
                     | One x \<Rightarrow> AList.update k x d)) [] (apply_defaults sig b))"

definition caller_identity ::
  "(string \<Rightarrow> string) \<Rightarrow> (pyval \<Rightarrow> string) \<Rightarrow> (string \<Rightarrow> pyval res)
   \<Rightarrow> principal request_context option \<Rightarrow> exc + string" where
  "caller_identity sha256 py_str loads ctx =
     (case ctx of
        None \<Rightarrow> Inr []
      | Some c \<Rightarrow>
          (let token = context_token loads c;
               by_token = (if \<not> truthy token then Inr []
                           else (case token of
                                   PStr t \<Rightarrow> Inr (''t:'' @ take 16 (sha256 t))
                                 | _ \<Rightarrow> Inl (attribute_error ''encode'')))
           in case rc_principal c of
                Some (StrPrincipal s) \<Rightarrow> if s \<noteq> [] then Inr (''p:'' @ s) else by_token
              | Some (ObjPrincipal i) \<Rightarrow> if truthy i then Inr (''p:'' @ py_str i) else by_token
              | _ \<Rightarrow> by_token))"

section \<open>A call\<close>

text \<open>What a call takes from outside: the callables it depends on, hashing and JSON, readings of
  clocks (two by the claim, one by the metadata, one by the event log), a UUID and the retry draws.\<close>

record 'u surroundings =
  u_callables :: "'u world callables"
  u_sha256 :: "string \<Rightarrow> string"
  u_dumps :: "pyval \<Rightarrow> string"
  u_loads :: "string \<Rightarrow> pyval res"
  u_str :: "pyval \<Rightarrow> string"
  u_t1 :: time
  u_t2 :: time
  u_t3 :: time
  u_t4 :: time
  u_uuid :: string
  u_draws :: "nat \<Rightarrow> rat"

definition validate_return :: "'u handler \<Rightarrow> pyval \<Rightarrow> exc + pyval" where
  "validate_return h v =
     (case h_return h of
        ReturnType check \<Rightarrow>
          (case check v of
             Inl errors \<Rightarrow> Inl (schema_error (''Return type validation failed for '' @ h_name h) errors)
           | Inr v' \<Rightarrow> Inr v')
      | _ \<Rightarrow> Inr v)"

definition claim_key :: "'u handler \<Rightarrow> time \<Rightarrow> time \<Rightarrow> string \<Rightarrow> ('u world, claim) act" where
  "claim_key h t t' k =
     (case sp_claim (h_storage h) of
        Some f \<Rightarrow> f k (h_lease_s h) t t'
      | None \<Rightarrow> act_bind (sp_check (h_storage h) k) (\<lambda>cached.
          act_return (if cached \<noteq> PNone then \<lparr>c_state = FINISHED, c_result = cached\<rparr>
                      else \<lparr>c_state = CLAIMED, c_result = PNone\<rparr>)))"

definition release_key :: "'u handler \<Rightarrow> string \<Rightarrow> ('u world, unit) act" where
  "release_key h k =
     (case sp_release (h_storage h) of
        None \<Rightarrow> act_return ()
      | Some f \<Rightarrow> swallow (f k))"

definition call_metadata :: "'u handler \<Rightarrow> time \<Rightarrow> pyval" where
  "call_metadata h t =
     PDict [(''func_name'', PStr (h_name h)), (''total_calls'', PInt (h_calls h)),
            (''timestamp'', PFloat t), (''status'', PStr ''ok'')]"

definition put_records :: "'u handler \<Rightarrow> 'u surroundings \<Rightarrow> string \<Rightarrow> ('u world, unit) act" where
  "put_records h u k =
     act_bind (act_of (h_serializer h (call_metadata h (u_t3 u)))) (\<lambda>b.
     act_bind (sp_put (h_storage h) (h_prefix h) b) (\<lambda>_.
     if h_durability h = AT_LEAST_ONCE \<or> h_durability h = EXACTLY_ONCE
     then sp_log (h_storage h) (u_t4 u) (h_prefix h) b (Some k)
     else act_return ()))"

text \<open>The end of \<open>_invoke\<close>: the metadata and the event log, then the claim is completed.\<close>

definition record_outcome :: "'u handler \<Rightarrow> 'u surroundings \<Rightarrow> string \<Rightarrow> pyval \<Rightarrow> ('u world, pyval) act" where
  "record_outcome h u k v =
     act_bind (swallow (put_records h u k)) (\<lambda>_.
     act_bind (if h_durability h = EXACTLY_ONCE then swallow (sp_mark (h_storage h) k v) else act_return ())
       (\<lambda>_. act_return v))"

definition default_context :: "string \<Rightarrow> principal request_context" where
  "default_context uuid =
     \<lparr>rc_correlation_id = uuid, rc_prefix = [], rc_operation = [], rc_principal = None,
      rc_attachment = None, rc_traceparent = None\<rparr>"

text \<open>One execution of the function, inside the middlewares: their scope takes over the context.\<close>

definition execute_once ::
  "'u handler \<Rightarrow> 'u surroundings \<Rightarrow> pyval list \<Rightarrow> (string, pyval) dict \<Rightarrow> (string, pyval) dict
   \<Rightarrow> ('u world, pyval) act" where
  "execute_once h u args kw params w =
     (case h_middleware h of
        None \<Rightarrow> h_func h args kw w
      | Some ms \<Rightarrow>
          (let c = (case w_context w of
                      None \<Rightarrow> default_context (u_uuid u)
                    | Some outer \<Rightarrow>
                        (default_context (u_uuid u))\<lparr>rc_principal := rc_principal outer,
                          rc_attachment := rc_attachment outer,
                          rc_correlation_id := rc_correlation_id outer,
                          rc_traceparent := rc_traceparent outer\<rparr>)
           in invoke_stack ms \<lparr>s_prefix = h_prefix h, s_operation = ''handle'', s_params = params,
                s_context = c\<rparr> (\<lambda>_. h_func h args kw) w))"

definition run_body ::
  "'u handler \<Rightarrow> 'u surroundings \<Rightarrow> pyval list \<Rightarrow> (string, pyval) dict \<Rightarrow> string \<Rightarrow> (string, pyval) dict
   \<Rightarrow> ('u world, pyval) act" where
  "run_body h u args params k kw w =
     (case execute_with_retry (h_retry h) None (u_draws u) (execute_once h u args kw params) w of
        (Inl e, _, w') \<Rightarrow> (Inl e, w')
      | (Inr v, _, w') \<Rightarrow>
          (case validate_return h v of
             Inl e \<Rightarrow> (Inl e, w')
           | Inr v' \<Rightarrow> record_outcome h u k v' w'))"

definition invoke ::
  "'u handler \<Rightarrow> 'u surroundings \<Rightarrow> pyval list \<Rightarrow> (string, pyval) dict \<Rightarrow> (string, pyval) dict \<Rightarrow> string
   \<Rightarrow> 'u world \<Rightarrow> ((exc + pyval) \<times> 'u world) option" where
  "invoke h u args kwargs params k w =
     (let kw = (if inject_db (h_sig h) \<and> map_of kwargs ''db'' = None
                then kwargs @ [(''db'', h_db h)] else kwargs)
      in if depends_params (h_sig h) \<noteq> {}
         then Option.bind
           (resolve_params (u_callables u) (h_overrides h) kw [] {} (h_sig h) []
              \<lparr>d_stack = [], d_cache = [], d_world = w\<rparr>)
           (\<lambda>(r, st). Some
              (case r of
                 Inl e \<Rightarrow> close_stack (u_callables u) (d_stack st) (Inl e) (d_world st)
               | Inr kw' \<Rightarrow>
                   (case run_body h u args params k kw' (d_world st) of
                      (out, w') \<Rightarrow> close_stack (u_callables u) (d_stack st) out w')))
         else Some (run_body h u args params k kw w))"

datatype admission = Return pyval | Refuse exc | Proceed

definition conflict :: "'u handler \<Rightarrow> string \<Rightarrow> exc" where
  "conflict h k = raised (conflict_error
     (PStr ([CHR 0x27] @ h_prefix h @ [CHR 0x27] @ '' is already executing this exact request; retry to collect its result''))
     (PDict [(''idempotency_key'', PStr k)]) PNone)"

text \<open>What \<open>__call__\<close> does before the body: with exactly-once, it claims the key.\<close>

definition admission :: "'u handler \<Rightarrow> time \<Rightarrow> time \<Rightarrow> string \<Rightarrow> 'u world \<Rightarrow> admission \<times> 'u world" where
  "admission h t t' k w =
     (if h_durability h \<noteq> EXACTLY_ONCE then (Proceed, w)
      else (case claim_key h t t' k w of
              (Inl e, w') \<Rightarrow> (Refuse e, w')
            | (Inr c, w') \<Rightarrow>
                (case c_state c of
                   FINISHED \<Rightarrow> (Return (c_result c), w')
                 | IN_FLIGHT \<Rightarrow> (Refuse (conflict h k), w')
                 | CLAIMED \<Rightarrow> (Proceed, w'))))"

text \<open>And after a body that raised: the claim is released, the error goes on (unless the release is
  itself cancelled).\<close>

definition settle_failure :: "'u handler \<Rightarrow> string \<Rightarrow> exc \<Rightarrow> ('u world, pyval) act" where
  "settle_failure h k e w =
     (if h_durability h = EXACTLY_ONCE
      then (case release_key h k w of (Inl e', w') \<Rightarrow> (Inl e', w') | (Inr _, w') \<Rightarrow> (Inl e, w'))
      else (Inl e, w))"

definition call_key ::
  "'u handler \<Rightarrow> 'u surroundings \<Rightarrow> pyval list \<Rightarrow> (string, pyval) dict \<Rightarrow> principal request_context option
   \<Rightarrow> exc + string" where
  "call_key h u args kwargs ctx =
     (case caller_identity (u_sha256 u) (u_str u) (u_loads u) ctx of
        Inl e \<Rightarrow> Inl e
      | Inr ident \<Rightarrow> Inr (make_idempotency_key (u_sha256 u) (u_dumps u) (h_prefix h)
                          (bound_params (h_sig h) args kwargs) ident))"

definition call_with_key ::
  "'u handler \<Rightarrow> 'u surroundings \<Rightarrow> pyval list \<Rightarrow> (string, pyval) dict \<Rightarrow> string \<Rightarrow> 'u world
   \<Rightarrow> ((exc + pyval) \<times> 'u world) option" where
  "call_with_key h u args kwargs k w =
     (case admission h (u_t1 u) (u_t2 u) k w of
        (Return v, w1) \<Rightarrow> Some (Inr v, w1)
      | (Refuse e, w1) \<Rightarrow> Some (Inl e, w1)
      | (Proceed, w1) \<Rightarrow>
          Option.bind (invoke h u args kwargs (bound_params (h_sig h) args kwargs) k w1)
            (\<lambda>(out, w2). Some
               (case out of
                  Inr v \<Rightarrow> (Inr v, w2)
                | Inl e \<Rightarrow> settle_failure h k e w2)))"

definition counted :: "'u handler \<Rightarrow> 'u handler" where
  "counted h = h\<lparr>h_calls := h_calls h + 1\<rparr>"

definition handler_call ::
  "'u handler \<Rightarrow> 'u surroundings \<Rightarrow> pyval list \<Rightarrow> (string, pyval) dict \<Rightarrow> 'u world
   \<Rightarrow> ((exc + pyval) \<times> 'u world) option" where
  "handler_call h u args kwargs w =
     (case call_key (counted h) u args kwargs (w_context w) of
        Inl e \<Rightarrow> Some (Inl e, w)
      | Inr k \<Rightarrow> call_with_key (counted h) u args kwargs k w)"

section \<open>The network entry\<close>

record net_query =
  nq_key :: string
  nq_params :: "(string, string) dict"
  nq_attachment :: "bytes option"

definition error_reply :: "'u handler \<Rightarrow> string \<Rightarrow> string \<Rightarrow> exc \<Rightarrow> (string \<times> bytes) option" where
  "error_reply h key cid e =
     (if \<not> is_exception e then None
      else (case h_serializer h (PDict (error_to_dict
                   ((resolve (h_registry h) e)\<lparr>er_correlation_id := PStr cid\<rparr>))) of
              Inl _ \<Rightarrow> None
            | Inr b \<Rightarrow> Some (key, b)))"

definition answer :: "'u handler \<Rightarrow> string \<Rightarrow> string \<Rightarrow> exc + pyval \<Rightarrow> (string \<times> bytes) option" where
  "answer h key cid out =
     (case out of
        Inl e \<Rightarrow> error_reply h key cid e
      | Inr v \<Rightarrow> (case h_serializer h v of Inl e \<Rightarrow> error_reply h key cid e | Inr b \<Rightarrow> Some (key, b)))"

definition net_params :: "net_query \<Rightarrow> (string, string) dict" where
  "net_params q = (if nq_params q = [] then [] else decode_params (nq_params q))"

definition net_auth :: "'u handler \<Rightarrow> net_query \<Rightarrow> exc + identity option" where
  "net_auth h q = fst (check_authorized (h_authorizer h)
     \<lparr>a_prefix = h_prefix h, a_key_expr = nq_key q, a_params = net_params q,
      a_attachment = nq_attachment q, a_operation = ''handle'', a_principal = None\<rparr>)"

definition net_context :: "'u handler \<Rightarrow> 'u surroundings \<Rightarrow> net_query \<Rightarrow> principal request_context" where
  "net_context h u q =
     ingress_context (u_loads u) (u_uuid u) (h_prefix h) ''handle'' (nq_attachment q) None"

text \<open>The reply that was sent, if any, and the world; \<open>None\<close> when the call never returns.\<close>

definition on_query ::
  "'u handler \<Rightarrow> 'u surroundings \<Rightarrow> 't pydantic option \<Rightarrow> (string \<Rightarrow> 't option) option \<Rightarrow> net_query
   \<Rightarrow> 'u world \<Rightarrow> ((string \<times> bytes) option \<times> 'u world) option" where
  "on_query h u py hints q w =
     (let ctx = net_context h u q;
          cid = rc_correlation_id ctx;
          fail = (\<lambda>e. Some (error_reply h (nq_key q) cid e, w))
      in case net_auth h q of
           Inl e \<Rightarrow> fail e
         | Inr p \<Rightarrow>
             (case validate_params py hints (h_sig h) (map (\<lambda>(k, v). (k, PStr v)) (net_params q))
                     (injected_params (h_sig h)) of
                Inl e \<Rightarrow> fail e
              | Inr vp \<Rightarrow>
                  (let kwargs = AList.delete ''db'' vp;
                       who = map_option (\<lambda>i. ObjPrincipal (PStr (p_id i))) p
                   in if map_of kwargs ''self'' \<noteq> None
                      then fail (type_error ''__call__() got multiple values for argument self'')
                      else map_option (\<lambda>(out, w'). (answer h (nq_key q) cid out, w'\<lparr>w_context := w_context w\<rparr>))
                        (handler_call h u [] kwargs (w\<lparr>w_context := Some (ctx\<lparr>rc_principal := who\<rparr>)\<rparr>)))))"

end
