(* ===== verification/HandlerProps.thy ===== *)
theory HandlerProps
  imports Handler Runs
begin

text \<open>
  Correctness of the request handler: concurrent calls over a claim ledger (a step relation whose
  steps are the atomic parts of \<open>__call__\<close>), the idempotency key, failing storage, and the replies
  of the network entry.
\<close>

section \<open>Concurrent calls\<close>

text \<open>
  The steps of the calls of one handler: a call is admitted and becomes the running call of its
  key, is refused or answered from the record; the user's code does something to the world;
  a running call records its outcome or, having failed, is settled. A running call acts before the
  lease it took has ended.
\<close>

datatype call_event =
  Started string | Refused string | Returned string pyval | Worked
| Completed string pyval | Failed string

type_synonym 'u calls_state = "time \<times> 'u world \<times> (string \<times> time) list"

definition leased_at :: "time \<Rightarrow> (string \<times> time) list \<Rightarrow> bool" where
  "leased_at t running \<longleftrightarrow> (\<forall>(k, u) \<in> set running. t < u)"

inductive call_step ::
  "'u handler \<Rightarrow> ('u world \<Rightarrow> string \<Rightarrow> slot) \<Rightarrow> 'u calls_state \<Rightarrow> call_event \<Rightarrow> 'u calls_state \<Rightarrow> bool"
  for h view where
  started: "T \<le> t \<Longrightarrow> t \<le> t' \<Longrightarrow> leased_at t' running \<Longrightarrow> admission h t t' k w = (Proceed, w')
    \<Longrightarrow> call_step h view (T, w, running) (Started k) (t', w', (k, t' + h_lease_s h) # running)"
| refused: "T \<le> t \<Longrightarrow> t \<le> t' \<Longrightarrow> leased_at t' running \<Longrightarrow> admission h t t' k w = (Refuse e, w')
    \<Longrightarrow> call_step h view (T, w, running) (Refused k) (t', w', running)"
| returned: "T \<le> t \<Longrightarrow> t \<le> t' \<Longrightarrow> leased_at t' running \<Longrightarrow> admission h t t' k w = (Return v, w')
    \<Longrightarrow> call_step h view (T, w, running) (Returned k v) (t', w', running)"
| worked: "view w' = view w
    \<Longrightarrow> call_step h view (T, w, running) Worked (T, w', running)"
| completed: "T \<le> t \<Longrightarrow> leased_at t running \<Longrightarrow> (k, u) \<in> set running
    \<Longrightarrow> record_outcome h sr k v w = (out, w')
    \<Longrightarrow> call_step h view (T, w, running) (Completed k v) (t, w', remove1 (k, u) running)"
| failed: "T \<le> t \<Longrightarrow> leased_at t running \<Longrightarrow> (k, u) \<in> set running
    \<Longrightarrow> settle_failure h k e w = (out, w')
    \<Longrightarrow> call_step h view (T, w, running) (Failed k) (t, w', remove1 (k, u) running)"

inductive_cases call_stepE: "call_step h view S ev S'"

text \<open>Whether an event begins, completes or gives up the execution of a key.\<close>

fun executes :: "call_event \<Rightarrow> string \<Rightarrow> bool" where
  "executes (Started k) k' = (k = k')"
| "executes (Completed k v) k' = (k = k')"
| "executes (Failed k) k' = (k = k')"
| "executes _ k' = False"

text \<open>
  A handler with exactly-once durability over a storage whose operations keep the laws of a claim
  ledger and do not raise; putting and logging leave the claims alone.
\<close>

locale exactly_once_handler =
  claim_ledger claim_op mark_op release_op view "\<lambda>d t t'. t' + d"
  for claim_op :: "string \<Rightarrow> time \<Rightarrow> time \<Rightarrow> time \<Rightarrow> 'u world \<Rightarrow> claim \<times> 'u world"
    and mark_op :: "string \<Rightarrow> pyval \<Rightarrow> 'u world \<Rightarrow> 'u world"
    and release_op :: "string \<Rightarrow> 'u world \<Rightarrow> 'u world"
    and view :: "'u world \<Rightarrow> string \<Rightarrow> slot" +
  fixes h :: "'u handler"
  assumes durable: "h_durability h = EXACTLY_ONCE"
    and claims: "sp_claim (h_storage h) = Some (\<lambda>k d t t' w. case claim_op k d t t' w of (c, w') \<Rightarrow> (Inr c, w'))"
    and releases: "sp_release (h_storage h) = Some (\<lambda>k w. (Inr (), release_op k w))"
    and marks: "sp_mark (h_storage h) k v w = (Inr (), mark_op k v w)"
    and puts: "view (snd (sp_put (h_storage h) k b w)) = view w"
    and logs: "view (snd (sp_log (h_storage h) t k b i w)) = view w"
    and puts_raise: "sp_put (h_storage h) k b w = (Inl e, w') \<Longrightarrow> is_exception e"
    and logs_raise: "sp_log (h_storage h) t k b i w = (Inl e, w') \<Longrightarrow> is_exception e"
    and serializes: "h_serializer h x = Inl e \<Longrightarrow> is_exception e"
begin

lemma admission_eq:
  "admission h t t' k w =
     (case claim_op k (h_lease_s h) t t' w of
        (c, w') \<Rightarrow> (case c_state c of FINISHED \<Rightarrow> Return (c_result c) | IN_FLIGHT \<Rightarrow> Refuse (conflict h k)
                   | CLAIMED \<Rightarrow> Proceed, w'))"
  by (simp add: admission_def durable claim_key_def claims split: prod.split claim_state.split)

lemma put_records_view: "view (snd (put_records h sr k w)) = view w"
  using puts logs by (auto simp: put_records_def act_bind_def act_of_def act_return_def
      split: sum.split prod.split) (metis snd_conv)+

lemma put_records_raise: "put_records h sr k w = (Inl e, w') \<Longrightarrow> is_exception e"
  by (auto simp: put_records_def act_bind_def act_of_def act_return_def
      split: sum.splits prod.splits if_splits intro: puts_raise logs_raise serializes)

lemma swallow_put_records: "swallow (put_records h sr k) w = (Inr (), snd (put_records h sr k w))"
  by (rule swallow_returns) (metis put_records_raise surjective_pairing)

lemma record_outcome_eq:
  "record_outcome h sr k v w = (Inr v, mark_op k v (snd (put_records h sr k w)))"
  by (simp add: record_outcome_def act_bind_def swallow_put_records durable act_return_def)
    (simp add: swallow_def marks act_return_def)

lemma settle_failure_eq: "settle_failure h k e w = (Inl e, release_op k w)"
  by (simp add: settle_failure_def durable release_key_def releases swallow_def)

lemmas call_eqs = admission_eq record_outcome_eq settle_failure_eq

text \<open>Every running call holds the pending claim of its key, and no key has two.\<close>

definition calls_inv :: "'u calls_state \<Rightarrow> bool" where
  "calls_inv S \<longleftrightarrow> (case S of (T, w, running) \<Rightarrow>
     distinct (map fst running) \<and> (\<forall>(k, u) \<in> set running. view w k = Pending u))"

definition calls_past :: "call_event \<Rightarrow> 'u calls_state \<Rightarrow> bool" where
  "calls_past ev S \<longleftrightarrow> (case S of (T, w, running) \<Rightarrow>
     \<forall>k v. ev = Completed k v \<longrightarrow> view w k = Finished v)"

lemma admission_claim:
  assumes "admission h t t' k w = (a, w')"
  obtains c where "claim_op k (h_lease_s h) t t' w = (c, w')"
    "a = (case c_state c of FINISHED \<Rightarrow> Return (c_result c) | IN_FLIGHT \<Rightarrow> Refuse (conflict h k)
            | CLAIMED \<Rightarrow> Proceed)"
  using assms that by (auto simp: admission_eq split: prod.splits)

lemma admitted_free:
  assumes "admission h t t' k w = (Proceed, w')"
  shows "view w k = Vacant \<or> (\<exists>u. view w k = Pending u \<and> u \<le> t)"
    and "view w' = (view w)(k := Pending (t' + h_lease_s h))"
proof -
  obtain c where c: "claim_op k (h_lease_s h) t t' w = (c, w')" and
      "Proceed = (case c_state c of FINISHED \<Rightarrow> Return (c_result c) | IN_FLIGHT \<Rightarrow> Refuse (conflict h k)
            | CLAIMED \<Rightarrow> Proceed)" by (rule admission_claim [OF assms])
  then have "c_state c = CLAIMED" by (simp split: claim_state.splits)
  then show "view w k = Vacant \<or> (\<exists>u. view w k = Pending u \<and> u \<le> t)"
    and "view w' = (view w)(k := Pending (t' + h_lease_s h))"
    using claimed_was_free [OF c] claimed_view [OF c] by simp_all
qed

lemma not_admitted_same:
  assumes "admission h t t' k w = (a, w')" "a \<noteq> Proceed"
  shows "w' = w"
proof -
  obtain c where c: "claim_op k (h_lease_s h) t t' w = (c, w')" and
      "a = (case c_state c of FINISHED \<Rightarrow> Return (c_result c) | IN_FLIGHT \<Rightarrow> Refuse (conflict h k)
            | CLAIMED \<Rightarrow> Proceed)" by (rule admission_claim [OF assms(1)])
  then have "c_state c \<noteq> CLAIMED" using assms(2) by auto
  then show ?thesis using not_claimed_same [OF c] by simp
qed

lemma answered_finished: "admission h t t' k w = (Return v, w') \<Longrightarrow> view w k = Finished v"
proof -
  assume a: "admission h t t' k w = (Return v, w')"
  then obtain c where c: "claim_op k (h_lease_s h) t t' w = (c, w')" "c_state c = FINISHED" "c_result c = v"
    by (auto simp: admission_eq split: prod.splits claim_state.splits)
  show ?thesis
  proof (cases "view w k")
    case Vacant
    then show ?thesis using claim_free [of w k t "h_lease_s h" t'] c by simp
  next
    case (Pending u)
    then show ?thesis using claim_free [of w k t "h_lease_s h" t'] claim_pending [OF Pending, of t "h_lease_s h" t'] c
      by (cases "u \<le> t") auto
  next
    case (Finished x)
    then show ?thesis using claim_finished [OF Finished, of "h_lease_s h" t t'] c by simp
  qed
qed

lemma running_not_admitted:
  assumes "calls_inv (T, w, running)" "leased_at t' running" "t \<le> t'" "(k, u) \<in> set running"
  shows "admission h t t' k w = (Refuse (conflict h k), w)"
proof -
  have "view w k = Pending u" "t < u" using assms by (auto simp: calls_inv_def leased_at_def)
  then show ?thesis using claim_pending [of w k u t] by (simp add: admission_eq)
qed

lemma settled_inv:
  assumes inv: "calls_inv (T, w, running)" and r: "(k, u) \<in> set running"
    and v: "\<And>j. j \<noteq> k \<Longrightarrow> view w' j = view w j"
  shows "calls_inv (t, w', remove1 (k, u) running)"
proof -
  have d: "distinct (map fst running)" using inv by (simp add: calls_inv_def)
  then have "distinct running" by (simp add: distinct_map)
  then have s: "set (remove1 (k, u) running) = set running - {(k, u)}" by simp
  have "j \<noteq> k" if "(j, x) \<in> set running - {(k, u)}" for j x
    using that d r by (auto dest: eq_key_imp_eq_value)
  moreover have "distinct (map fst (remove1 (k, u) running))"
    using d by (metis distinct_map distinct_remove1 inj_on_subset set_remove1_subset)
  ultimately show ?thesis using inv v s by (fastforce simp: calls_inv_def)
qed

lemma calls_inv_step:
  assumes "call_step h view S ev S'" "calls_inv S"
  shows "calls_inv S'"
  using assms
proof cases
  case (started T t t' running k w w')
  have "k \<notin> fst ` set running"
    using running_not_admitted [OF assms(2) [unfolded started(1)] started(6,5)] started(7) by fastforce
  then show ?thesis using assms(2) admitted_free(2) [OF started(7)] started(1-3)
    by (force simp: calls_inv_def)
next
  case (completed T t running k u sr v w out w')
  have "view w' j = view w j" if "j \<noteq> k" for j
    using that completed(7) by (auto simp: record_outcome_eq mark_view put_records_view)
  then show ?thesis using settled_inv [OF assms(2) [unfolded completed(1)] completed(6)] completed(3) by simp
next
  case (failed T t running k u e w out w')
  have "view w' j = view w j" if "j \<noteq> k" for j
    using that failed(7) by (auto simp: settle_failure_eq release_view)
  then show ?thesis using settled_inv [OF assms(2) [unfolded failed(1)] failed(6)] failed(3) by simp
qed (auto simp: calls_inv_def dest: not_admitted_same)

lemma calls_past_now:
  assumes "call_step h view S ev S'" "calls_inv S"
  shows "calls_past ev S'"
  using assms
proof cases
  case (completed T t running k u sr v w out w')
  have "view w k = Pending u" using assms(2) completed(1,6) by (auto simp: calls_inv_def)
  then show ?thesis using completed by (auto simp: calls_past_def record_outcome_eq mark_view put_records_view)
qed (auto simp: calls_past_def)

lemma calls_past_kept:
  assumes "calls_past e0 S" "call_step h view S ev S'" "calls_inv S"
  shows "calls_past e0 S'"
  using assms(2)
proof cases
  case (started T t t' running k w w')
  then show ?thesis using assms(1) admitted_free [OF started(7)] by (auto simp: calls_past_def)
next
  case (completed T t running k u sr v w out w')
  then show ?thesis using assms(1)
    by (auto simp: calls_past_def record_outcome_eq put_records_view intro!: finished_mark)
next
  case (failed T t running k u e w out w')
  then show ?thesis using assms(1) by (auto simp: calls_past_def settle_failure_eq intro!: finished_release)
qed (use assms(1) in \<open>auto simp: calls_past_def dest: not_admitted_same\<close>)

end

sublocale exactly_once_handler \<subseteq> history "call_step h view" calls_inv calls_past
  by unfold_locales (rule calls_inv_step calls_past_now calls_past_kept; assumption)+

context exactly_once_handler
begin

lemma completed_is_final:
  assumes "run (call_step h view) (T, w, []) tr S"
  shows "sorted_wrt (\<lambda>ev ev'. \<forall>k v. ev = Completed k v \<longrightarrow>
    \<not> executes ev' k \<and> (\<forall>v'. ev' = Returned k v' \<longrightarrow> v' = v)) tr"
proof (rule run_pairs [OF assms])
  show "calls_inv (T, w, [])" by (simp add: calls_inv_def)
  fix ev ev' S S'
  assume P: "calls_past ev S" "call_step h view S ev' S'" "calls_inv S"
  show "\<forall>k v. ev = Completed k v \<longrightarrow> \<not> executes ev' k \<and> (\<forall>v'. ev' = Returned k v' \<longrightarrow> v' = v)"
  proof (intro allI impI)
    fix k v assume "ev = Completed k v"
    then have fin: "view (fst (snd S)) k = Finished v" using P(1) by (auto simp: calls_past_def split: prod.splits)
    from P(2) show "\<not> executes ev' k \<and> (\<forall>v'. ev' = Returned k v' \<longrightarrow> v' = v)"
    proof cases
      case (started T t t' running k' w w')
      then show ?thesis using fin admitted_free(1) [OF started(7)] by auto
    next
      case (returned T t t' running k' w v' w')
      then show ?thesis using fin answered_finished [OF returned(7)] by auto
    next
      case (completed T t running k' u sr v' w out w')
      then show ?thesis using fin P(3) by (auto simp: calls_inv_def)
    next
      case (failed T t running k' u e w out w')
      then show ?thesis using fin P(3) by (auto simp: calls_inv_def)
    qed auto
  qed
qed

lemma one_running_call:
  assumes "run (call_step h view) (T0, w0, []) tr (T, w, running)"
  shows "distinct (map fst running)"
  using run_inv [OF assms] by (simp add: calls_inv_def)

end

section \<open>The in-memory ledger\<close>

text \<open>The world of an application whose handlers keep their durability in an \<open>InMemoryStoragePlugin\<close>.\<close>

record 'x app_state =
  app_ledger :: ledger
  app_data :: 'x

definition on_ledger :: "(ledger \<Rightarrow> ledger) \<Rightarrow> 'x app_state world \<Rightarrow> 'x app_state world" where
  "on_ledger f w = w\<lparr>w_user := (w_user w)\<lparr>app_ledger := f (app_ledger (w_user w))\<rparr>\<rparr>"

definition mem_claim :: "string \<Rightarrow> time \<Rightarrow> time \<Rightarrow> time \<Rightarrow> 'x app_state world \<Rightarrow> claim \<times> 'x app_state world" where
  "mem_claim k d t t' w =
     (case claim_processed k d t t' (app_ledger (w_user w)) of (c, l) \<Rightarrow> (c, on_ledger (\<lambda>_. l) w))"

definition stored_bytes :: "bytes \<Rightarrow> pyval" where
  "stored_bytes b = PStr (map (\<lambda>x. char_of (unat x)) b)"

definition mem_plugin :: "'x app_state world plugin" where
  "mem_plugin =
     \<lparr>sp_claim = Some (\<lambda>k d t t' w. case mem_claim k d t t' w of (c, w') \<Rightarrow> (Inr c, w')),
      sp_release = Some (\<lambda>k w. (Inr (), on_ledger (release_claim k) w)),
      sp_check = (\<lambda>k w. (Inr (check_processed k (app_ledger (w_user w))), w)),
      sp_mark = (\<lambda>k v w. (Inr (), on_ledger (mark_processed k v) w)),
      sp_put = (\<lambda>k b w. (Inr (), on_ledger (put k (stored_bytes b)) w)),
      sp_log = (\<lambda>t k b i w. (Inr (), on_ledger (log_event t k (stored_bytes b) i) w))\<rparr>"

text \<open>\<open>JsonSerializer\<close>, on the values of the model, all of which JSON can express.\<close>

definition json_serializer :: "(pyval \<Rightarrow> string) \<Rightarrow> pyval \<Rightarrow> exc + bytes" where
  "json_serializer dumps v = Inr (encode_utf8 (dumps v))"

definition in_memory :: "(pyval \<Rightarrow> string) \<Rightarrow> 'x app_state handler \<Rightarrow> 'x app_state handler" where
  "in_memory dumps h = h\<lparr>h_storage := mem_plugin, h_durability := EXACTLY_ONCE,
     h_serializer := json_serializer dumps\<rparr>"

definition mem_view :: "'x app_state world \<Rightarrow> string \<Rightarrow> slot" where
  "mem_view w = ledger_view (app_ledger (w_user w))"

lemma mem_view_on [simp]: "mem_view (on_ledger f w) = ledger_view (f (app_ledger (w_user w)))"
  by (simp add: mem_view_def on_ledger_def)

lemma ledger_view_put [simp]: "ledger_view (put k v l) = ledger_view l"
  by (simp add: ledger_view_def put_def fun_eq_iff)

lemma ledger_view_log [simp]: "ledger_view (log_event t k v i l) = ledger_view l"
  by (simp add: ledger_view_def log_event_def Let_def fun_eq_iff)

lemma on_ledger_same [simp]: "on_ledger (\<lambda>_. app_ledger (w_user w)) w = w"
  by (simp add: on_ledger_def)

interpretation mem_calls: exactly_once_handler mem_claim "\<lambda>k v. on_ledger (mark_processed k v)"
    "\<lambda>k. on_ledger (release_claim k)" mem_view "in_memory dumps h" for dumps h
proof (unfold_locales, goal_cases)
  case (1 s k v d t t')
  then show ?case using mem.claim_finished [of "app_ledger (w_user s)" k v d t t']
    by (simp add: mem_claim_def mem_view_def)
next
  case (2 s k u t d t')
  then show ?case using mem.claim_pending [of "app_ledger (w_user s)" k u t d t']
    by (simp add: mem_claim_def mem_view_def)
next
  case (3 s k t d t')
  then show ?case using mem.claim_free [of "app_ledger (w_user s)" k t d t']
    by (cases "claim_processed k d t t' (app_ledger (w_user s))") (simp add: mem_claim_def mem_view_def)
next
  case (4 s k t d t')
  then show ?case using mem.claim_takes [of "app_ledger (w_user s)" k t d t']
    by (cases "claim_processed k d t t' (app_ledger (w_user s))") (simp add: mem_claim_def mem_view_def [of s])
next
  case (5 k v s) show ?case using mem.mark_view by (simp add: mem_view_def [of s])
next
  case (6 k s) show ?case using mem.release_view by (simp add: mem_view_def [of s])
qed (simp_all add: in_memory_def mem_plugin_def json_serializer_def mem_view_def [symmetric])

section \<open>Properties\<close>

text \<open>C12: exactly once. However concurrent and redelivered calls of a handler interleave, while their
  leases hold: a completed request is never executed again and every later duplicate is answered
  with its recorded result, and no request is ever executing twice at the same time.\<close>

theorem exactly_once:
  assumes "run (call_step (in_memory dumps h) mem_view) (T, w, []) tr (T', w', running)"
  shows "sorted_wrt (\<lambda>ev ev'. \<forall>k v. ev = Completed k v \<longrightarrow>
      \<not> executes ev' k \<and> (\<forall>v'. ev' = Returned k v' \<longrightarrow> v' = v)) tr
    \<and> distinct (map fst running)"
  using mem_calls.completed_is_final [OF assms] mem_calls.one_running_call [OF assms] by simp

definition echo_handler :: "unit app_state handler" where
  "echo_handler =
     \<lparr>h_name = ''echo'', h_sig = [\<lparr>pr_name = ''x'', pr_kind = POSITIONAL_OR_KEYWORD, pr_default = Empty,
        pr_metadata = []\<rparr>], h_func = (\<lambda>args kw. act_return (dict_get kw ''x'' PNone)),
      h_prefix = ''svc/echo'', h_storage = mem_plugin, h_db = PNone, h_serializer = json_serializer (\<lambda>_. ''0''),
      h_calls = 0, h_retry = \<lparr>max_retries = 0, delay = 1, backoff_factor = 2, max_delay = 0, jitter = 0\<rparr>,
      h_durability = EXACTLY_ONCE, h_middleware = None, h_authorizer = None, h_registry = default_registry,
      h_overrides = [], h_lease_s = 300, h_return = NoReturnType\<rparr>"

definition world0 :: "unit app_state world" where
  "world0 = \<lparr>w_context = None, w_user = \<lparr>app_ledger = empty_ledger, app_data = ()\<rparr>\<rparr>"

abbreviation echo :: "unit app_state handler" where
  "echo \<equiv> in_memory (\<lambda>_. ''0'') echo_handler"

definition no_surroundings :: "unit app_state surroundings" where
  "no_surroundings = \<lparr>u_callables = \<lparr>f_sig = (\<lambda>_. []), f_call = (\<lambda>_ _. act_return PNone),
       f_yields = (\<lambda>_. False), f_exit = (\<lambda>_ e w. (e, w))\<rparr>,
     u_sha256 = (\<lambda>s. s), u_dumps = (\<lambda>_. ''{}''), u_loads = (\<lambda>_. Inl (ValueError [])), u_str = (\<lambda>_. []),
     u_t1 = 0, u_t2 = 0, u_t3 = 0, u_t4 = 0, u_uuid = ''u'', u_draws = (\<lambda>_. 0)\<rparr>"

lemma echo_run: "\<exists>w2 running. run (call_step echo mem_view) (0, world0, [])
    [Started ''k'', Completed ''k'' (PInt 7), Returned ''k'' (PInt 7)] (2, w2, running)"
proof -
  define w1 where "w1 = snd (admission echo 0 0 ''k'' world0)"
  define w2 where "w2 = snd (record_outcome echo no_surroundings ''k'' (PInt 7) w1)"
  have a: "admission echo 0 0 ''k'' world0 = (Proceed, w1)"
    unfolding w1_def by code_simp
  have o: "record_outcome echo no_surroundings ''k'' (PInt 7) w1 = (Inr (PInt 7), w2)"
    by (simp add: w2_def mem_calls.record_outcome_eq)
  have v: "mem_view w2 ''k'' = Finished (PInt 7)"
    using a mem_calls.admitted_free(2) [OF a]
    by (simp add: w2_def mem_calls.record_outcome_eq mem_calls.mark_view mem_calls.put_records_view
        del: mem_view_on)
  have s1: "call_step echo mem_view (0, world0, []) (Started ''k'') (0, w1, [(''k'', 0 + h_lease_s echo)])"
    using call_step.started [of 0 0 0 "[]" echo "''k''" world0 w1 mem_view] a by (simp add: leased_at_def)
  have s2: "call_step echo mem_view (0, w1, [(''k'', 0 + h_lease_s echo)]) (Completed ''k'' (PInt 7))
      (1, w2, remove1 (''k'', 0 + h_lease_s echo) [(''k'', 0 + h_lease_s echo)])"
    by (rule call_step.completed [OF _ _ _ o])
      (simp_all add: leased_at_def in_memory_def echo_handler_def)
  have r: "admission echo 2 2 ''k'' w2 = (Return (PInt 7), w2)"
    using mem_calls.claim_finished [OF v] by (simp add: mem_calls.admission_eq)
  have s3: "call_step echo mem_view (1, w2, []) (Returned ''k'' (PInt 7)) (2, w2, [])"
    by (rule call_step.returned [OF _ _ _ r]) (simp_all add: leased_at_def)
  have "run (call_step echo mem_view) (0, world0, []) [Started ''k''] (0, w1, [(''k'', 0 + h_lease_s echo)])"
    by (rule run_snoc [where step = "call_step echo mem_view", OF run_nil s1]) simp
  then have "run (call_step echo mem_view) (0, world0, []) [Started ''k'', Completed ''k'' (PInt 7)] (1, w2, [])"
    by (rule run_snoc [where step = "call_step echo mem_view"]) (use s2 in simp_all)
  then have "run (call_step echo mem_view) (0, world0, [])
      [Started ''k'', Completed ''k'' (PInt 7), Returned ''k'' (PInt 7)] (2, w2, [])"
    by (rule run_snoc [where step = "call_step echo mem_view", OF _ s3]) simp
  then show ?thesis by blast
qed

lemma exactly_once_witness:
  "\<exists>w2 running. run (call_step echo mem_view) (0, world0, [])
     [Started ''k'', Completed ''k'' (PInt 7), Returned ''k'' (PInt 7)] (2, w2, running)
   \<and> \<not> executes (Returned ''k'' (PInt 7)) ''k'' \<and> distinct (map fst running)"
proof -
  obtain w2 running where r: "run (call_step echo mem_view) (0, world0, [])
      [Started ''k'', Completed ''k'' (PInt 7), Returned ''k'' (PInt 7)] (2, w2, running)"
    using echo_run by blast
  show ?thesis using r exactly_once [OF r] by auto
qed

text \<open>A duplicate of a completed request gets the recorded result and runs nothing; a duplicate of
  a running one is refused with a conflict that a client may retry, and changes nothing.\<close>

theorem duplicates_run_nothing:
  assumes "call_key (counted (in_memory dumps h)) u args kwargs (w_context w) = Inr k"
  shows "(mem_view w k = Finished v \<longrightarrow> handler_call (in_memory dumps h) u args kwargs w = Some (Inr v, w))
    \<and> (mem_view w k = Pending e \<and> u_t1 u < e \<longrightarrow>
      handler_call (in_memory dumps h) u args kwargs w = Some (Inl (conflict (in_memory dumps h) k), w)
      \<and> is_retryable (conflict (in_memory dumps h) k))"
proof -
  have c: "counted (in_memory dumps h) = in_memory dumps (counted h)" by (simp add: counted_def in_memory_def)
  have same: "conflict (in_memory dumps (counted h)) k = conflict (in_memory dumps h) k"
    by (simp add: conflict_def in_memory_def counted_def)
  have retry: "is_retryable (conflict (in_memory dumps h) k)"
    by (simp add: conflict_def raised_def conflict_error_def istos_error_init_def is_retryable_def)
  have "handler_call (in_memory dumps h) u args kwargs w = Some (Inr v, w)" if "mem_view w k = Finished v"
    using assms mem_calls.claim_finished [OF that]
    by (simp add: handler_call_def call_with_key_def c mem_calls.admission_eq)
  moreover have "handler_call (in_memory dumps h) u args kwargs w = Some (Inl (conflict (in_memory dumps h) k), w)"
    if "mem_view w k = Pending e" "u_t1 u < e"
    using assms mem_calls.claim_pending [OF that]
    by (simp add: handler_call_def call_with_key_def c mem_calls.admission_eq same)
  ultimately show ?thesis using retry by blast
qed

lemma duplicates_run_nothing_witness:
  "\<exists>k w. mem_view w k = Finished (PInt 7)
     \<and> handler_call echo no_surroundings [PInt 7] [] w = Some (Inr (PInt 7), w)"
proof -
  let ?k = "''svc/echo'' @ [CHR 0x0A, CHR 0x0A] @ ''{}''"
  let ?w = "on_ledger (mark_processed ?k (PInt 7)) world0"
  have "call_key (counted echo) no_surroundings [PInt 7] [] (w_context ?w) = Inr ?k"
    by (simp add: call_key_def caller_identity_def on_ledger_def world0_def counted_def in_memory_def
        echo_handler_def make_idempotency_key_def no_surroundings_def)
  moreover have "mem_view ?w ?k = Finished (PInt 7)"
    by (simp add: world0_def empty_ledger_def mem.mark_view) (simp add: ledger_view_def)
  ultimately show ?thesis using duplicates_run_nothing by blast
qed

section \<open>The key of a request\<close>

lemma map_of_map_filter:
  "distinct (map f xs) \<Longrightarrow> x \<in> set xs \<Longrightarrow>
   map_of (List.map_filter (\<lambda>y. map_option (\<lambda>v. (f y, g v)) (val y)) xs) (f x) = map_option g (val x)"
proof (induction xs)
  case (Cons y ys)
  have none: "map_of (List.map_filter (\<lambda>y. map_option (\<lambda>v. (f y, g v)) (val y)) zs) k = None"
    if "k \<notin> f ` set zs" for k zs
    using that by (induction zs) (auto simp: map_filter_simps split: option.split)
  show ?case
  proof (cases "x = y")
    case True
    then show ?thesis using Cons.prems(1) none [of "f y" ys]
      by (auto simp: map_filter_simps split: option.split)
  next
    case False
    then have "x \<in> set ys" using Cons.prems(2) by simp
    moreover from this have "f x \<noteq> f y" using Cons.prems(1) by (metis distinct.simps(2) image_eqI list.simps(9) set_map)
    ultimately have "x \<in> set ys" "f x \<noteq> f y" .
    then show ?thesis using Cons by (auto simp: map_filter_simps split: option.split)
  qed
qed simp

lemma map_filter_all: "(\<And>x. x \<in> set xs \<Longrightarrow> f x = Some (g x)) \<Longrightarrow> List.map_filter f xs = map g xs"
  by (induction xs) (simp_all add: map_filter_simps)

lemma map_filter_cong': "(\<And>x. x \<in> set xs \<Longrightarrow> f x = g x) \<Longrightarrow> List.map_filter f xs = List.map_filter g xs"
  by (induction xs) (simp_all add: map_filter_simps split: option.split)

lemma map_of_zip_nth':
  "distinct ks \<Longrightarrow> j < length vs \<Longrightarrow> length vs \<le> length ks \<Longrightarrow> map_of (zip ks vs) (ks ! j) = Some (vs ! j)"
proof (induction ks arbitrary: vs j)
  case (Cons k ks)
  then show ?case by (cases vs; cases j) auto
qed simp

text \<open>A signature of ordinary parameters, and a call that gives every one of them a value: the first
  \<open>i\<close> by position, the others by name or by default.\<close>

definition supplies :: "param list \<Rightarrow> pyval list \<Rightarrow> nat \<Rightarrow> (string, pyval) dict \<Rightarrow> bool" where
  "supplies sig vs i kwargs \<longleftrightarrow>
     (\<forall>p\<in>set sig. pr_kind p = POSITIONAL_OR_KEYWORD) \<and> distinct (map pr_name sig)
     \<and> length vs = length sig \<and> i \<le> length sig
     \<and> dkeys kwargs \<subseteq> pr_name ` set (drop i sig)
     \<and> (\<forall>j. i \<le> j \<and> j < length sig \<longrightarrow>
          map_of kwargs (pr_name (sig ! j)) = Some (vs ! j)
          \<or> map_of kwargs (pr_name (sig ! j)) = None \<and> pr_default (sig ! j) = Value (vs ! j))"

lemma supplied_arguments:
  assumes "supplies sig vs i kwargs"
  shows "\<exists>b. bind_partial sig (take i vs) kwargs = Some b
    \<and> apply_defaults sig b = map (\<lambda>p. (pr_name p, One (the (map_of (zip (map pr_name sig) vs) (pr_name p))))) sig"
proof -
  note s = assms [unfolded supplies_def]
  let ?names = "map pr_name sig"
  let ?val = "\<lambda>p. case map_of (zip ?names (take i vs)) (pr_name p) of
      Some v \<Rightarrow> Some v | None \<Rightarrow> map_of kwargs (pr_name p)"
  have pos: "filter is_positional sig = sig" "map pr_name (filter accepts_keyword sig) = ?names"
    using s by (auto simp: is_positional_def accepts_keyword_def filter_id_conv)
  have kinds: "\<not> list_ex (\<lambda>p. pr_kind p = VAR_POSITIONAL) sig" "\<not> list_ex (\<lambda>p. pr_kind p = VAR_KEYWORD) sig"
    using s by (auto simp: list_ex_iff)
  have extra: "filter (\<lambda>(k, v). k \<notin> set ?names) kwargs = []"
    using s by (force simp: filter_empty_conv dest: in_set_dropD)
  have "set (map fst (zip ?names (take i vs))) = set (take i ?names)"
    using s by (simp add: map_fst_zip_take take_map)
  moreover have "set (take i ?names) \<inter> set (drop i ?names) = {}"
    using s set_take_disj_set_drop_if_distinct [of ?names i i] by simp
  ultimately have apart: "k \<notin> set (drop i ?names)" if "k \<in> set (map fst (zip ?names (take i vs)))" for k
    using that by (metis disjoint_iff)
  have absent: "map_of kwargs k = None" if "k \<notin> set (drop i ?names)" for k
    using s that by (auto simp: map_of_eq_None_iff drop_map)
  have clash: "\<not> (\<exists>k \<in> set (map fst (zip ?names (take i vs))). k \<in> set ?names \<and> map_of kwargs k \<noteq> None)"
    using apart absent by metis
  have len: "\<not> length sig < length (take i vs)" using s by simp
  let ?b = "List.map_filter (\<lambda>p. map_option (\<lambda>v. (pr_name p, One v)) (?val p)) sig"
  have "bind_partial sig (take i vs) kwargs = Some (List.map_filter (\<lambda>p.
           if pr_kind p = VAR_POSITIONAL
           then None else if pr_kind p = VAR_KEYWORD then None
           else map_option (\<lambda>v. (pr_name p, One v))
             (case map_of (zip ?names (take i vs)) (pr_name p) of
                Some v \<Rightarrow> Some v
              | None \<Rightarrow> if accepts_keyword p then map_of kwargs (pr_name p) else None)) sig)"
    unfolding bind_partial_def Let_def pos extra by (simp only: len clash kinds simp_thms if_False if_True)
  also have "\<dots> = Some ?b"
    using s by (intro arg_cong [where f = Some] map_filter_cong') (auto simp: accepts_keyword_def)
  finally have bind: "bind_partial sig (take i vs) kwargs = Some ?b" .
  have val: "?val (sig ! j) = Some (vs ! j) \<or> ?val (sig ! j) = None \<and> pr_default (sig ! j) = Value (vs ! j)"
    if "j < length sig" for j
  proof (cases "j < i")
    case True
    have "map_of (zip ?names (take i vs)) (?names ! j) = Some (take i vs ! j)"
      using s True that by (subst map_of_zip_nth') auto
    then show ?thesis using True that by simp
  next
    case False
    have "?names ! j \<in> set (drop i ?names)"
      using nth_mem [of "j - i" "drop i ?names"] False that by simp
    moreover have "set (take i ?names) \<inter> set (drop i ?names) = {}"
      using s set_take_disj_set_drop_if_distinct [of ?names i i] by simp
    ultimately have "?names ! j \<notin> set (take i ?names)" by (metis disjoint_iff)
    then have "map_of (zip ?names (take i vs)) (?names ! j) = None"
      using s by (simp add: map_of_eq_None_iff map_fst_zip_take take_map flip: set_map)
    then show ?thesis using s False that by simp
  qed
  have full: "map_of (zip ?names vs) (pr_name (sig ! j)) = Some (vs ! j)" if "j < length sig" for j
    using map_of_zip_nth [of ?names vs j] s that by simp
  have "apply_defaults sig ?b = map (\<lambda>p. (pr_name p, One (the (map_of (zip ?names vs) (pr_name p))))) sig"
    unfolding apply_defaults_def
  proof (rule map_filter_all)
    fix p assume p: "p \<in> set sig"
    then obtain j where j: "j < length sig" "p = sig ! j" by (auto simp: in_set_conv_nth)
    have "map_of ?b (pr_name p) = map_option One (?val p)"
      using s p map_of_map_filter [of pr_name sig p One ?val] by blast
    then show "(case map_of ?b (pr_name p) of
         Some v \<Rightarrow> Some (pr_name p, v)
       | None \<Rightarrow> (case pr_default p of
              Value v \<Rightarrow> Some (pr_name p, One v)
            | Marker d \<Rightarrow> Some (pr_name p, One PNone)
            | Empty \<Rightarrow> if pr_kind p = VAR_POSITIONAL then Some (pr_name p, Rest [])
                else if pr_kind p = VAR_KEYWORD then Some (pr_name p, Named []) else None))
      = Some (pr_name p, One (the (map_of (zip ?names vs) (pr_name p))))"
      using val [OF j(1)] full [OF j(1)] j(2) by auto
  qed
  then show ?thesis using bind by blast
qed

text \<open>C13: how a request passes its arguments does not matter: by position, by name in any order, or
  left to their defaults, the same values give the same parameters, hence the same idempotency key.\<close>

theorem same_request_same_key:
  assumes "supplies sig vs i kwargs" and "supplies sig vs j kwargs'"
  shows "make_idempotency_key sha dumps prefix (bound_params sig (take i vs) kwargs) ident
    = make_idempotency_key sha dumps prefix (bound_params sig (take j vs) kwargs') ident"
  using supplied_arguments [OF assms(1)] supplied_arguments [OF assms(2)]
  by (auto simp: bound_params_def Let_def)

definition move_sig :: "param list" where
  "move_sig =
     [\<lparr>pr_name = ''distance'', pr_kind = POSITIONAL_OR_KEYWORD, pr_default = Empty, pr_metadata = []\<rparr>,
      \<lparr>pr_name = ''speed'', pr_kind = POSITIONAL_OR_KEYWORD, pr_default = Value (PInt 1), pr_metadata = []\<rparr>]"

lemma same_request_same_key_witness:
  "make_idempotency_key id (\<lambda>v. if v = PDict [] then ''{}'' else ''{..}'') ''robot'' (bound_params move_sig [PInt 10] []) []
   = make_idempotency_key id (\<lambda>v. if v = PDict [] then ''{}'' else ''{..}'') ''robot''
       (bound_params move_sig [] [(''speed'', PInt 1), (''distance'', PInt 10)]) []"
proof -
  have "supplies move_sig [PInt 10, PInt 1] 1 []"
    by (auto simp: supplies_def move_sig_def less_Suc_eq)
  moreover have "supplies move_sig [PInt 10, PInt 1] 0 [(''speed'', PInt 1), (''distance'', PInt 10)]"
    by (auto simp: supplies_def move_sig_def less_Suc_eq)
  ultimately show ?thesis
    using same_request_same_key [of move_sig "[PInt 10, PInt 1]" 1 "[]" 0 "[(''speed'', PInt 1), (''distance'', PInt 10)]"]
    by simp
qed

lemma split_at_newline:
  "c \<notin> set a \<Longrightarrow> c \<notin> set a' \<Longrightarrow> a @ c # b = a' @ c # b' \<Longrightarrow> a = a' \<and> b = b'"
  by (induction a arbitrary: a') (case_tac a'; auto)+

text \<open>Requests that differ in the handler, the caller or a parameter have different keys, so no
  caller is ever given the recorded result of another: the text that is hashed can be taken apart,
  whatever the identity contains. (For a hash without collisions on the two texts.)\<close>

theorem key_identifies_request:
  assumes "make_idempotency_key sha dumps p ps i = make_idempotency_key sha dumps p' ps' i'"
    and "inj_on sha {p @ [CHR 0x0A] @ i @ [CHR 0x0A] @ dumps (PDict ps), p' @ [CHR 0x0A] @ i' @ [CHR 0x0A] @ dumps (PDict ps')}"
    and "CHR 0x0A \<notin> set p" and "CHR 0x0A \<notin> set p'"
    and "CHR 0x0A \<notin> set (dumps (PDict ps))" and "CHR 0x0A \<notin> set (dumps (PDict ps'))"
    and "dumps (PDict ps) = dumps (PDict ps') \<Longrightarrow> map_of ps = map_of ps'"
  shows "p = p' \<and> i = i' \<and> map_of ps = map_of ps'"
proof -
  have raw: "p @ CHR 0x0A # i @ CHR 0x0A # dumps (PDict ps) = p' @ CHR 0x0A # i' @ CHR 0x0A # dumps (PDict ps')"
    using inj_onD [OF assms(2) assms(1) [unfolded make_idempotency_key_def]] by simp
  then have p: "p = p'" and rest: "i @ CHR 0x0A # dumps (PDict ps) = i' @ CHR 0x0A # dumps (PDict ps')"
    using split_at_newline [OF assms(3,4)] by blast+
  from rest have "rev (dumps (PDict ps)) @ CHR 0x0A # rev i = rev (dumps (PDict ps')) @ CHR 0x0A # rev i'"
    by (metis append.assoc append_Cons append_Nil rev.simps(2) rev_append)
  then have "dumps (PDict ps) = dumps (PDict ps')" "i = i'"
    using split_at_newline [of "CHR 0x0A" "rev (dumps (PDict ps))" "rev (dumps (PDict ps'))" "rev i" "rev i'"] assms(5,6)
    by simp_all
  then show ?thesis using p assms(7) by simp
qed

lemma key_identifies_request_witness:
  "make_idempotency_key id (\<lambda>v. ''{}'') ''svc'' [] ''p:ann'' \<noteq> make_idempotency_key id (\<lambda>v. ''{}'') ''svc'' [] ''p:bob''"
  using key_identifies_request [of id "\<lambda>v. ''{}''" "''svc''" "[]" "''p:ann''" "''svc''" "[]" "''p:bob''"] by auto

section \<open>Failing storage\<close>

lemma record_outcome_returns:
  assumes "\<And>x e. h_serializer h x = Inl e \<Longrightarrow> is_exception e"
    and "\<And>k b w e. fst (sp_put (h_storage h) k b w) = Inl e \<Longrightarrow> is_exception e"
    and "\<And>t k b i w e. fst (sp_log (h_storage h) t k b i w) = Inl e \<Longrightarrow> is_exception e"
    and "\<And>k v w e. fst (sp_mark (h_storage h) k v w) = Inl e \<Longrightarrow> is_exception e"
  shows "fst (record_outcome h u k v w) = Inr v"
proof -
  have "is_exception e" if "fst (put_records h u k w) = Inl e" for e w
    using that assms(1) assms(2) assms(3)
    by (auto simp: put_records_def act_bind_def act_of_def act_return_def
        split: sum.splits prod.splits if_splits) (metis fst_conv)+
  then obtain w1 where "swallow (put_records h u k) w = (Inr (), w1)"
    using swallow_returns [of "put_records h u k" w] by blast
  moreover obtain w2 where "swallow (sp_mark (h_storage h) k v) w1 = (Inr (), w2)"
    using swallow_returns [of "sp_mark (h_storage h) k v" w1] assms(4) by blast
  ultimately show ?thesis by (simp add: record_outcome_def act_bind_def act_return_def)
qed

text \<open>Once the handler's function has returned, nothing the storage does fails the call: whatever
  its writes raise, the caller gets the result.\<close>

theorem storage_never_fails_the_call:
  assumes "\<And>x e. h_serializer h x = Inl e \<Longrightarrow> is_exception e"
    and "\<And>k b w e. fst (sp_put (h_storage h) k b w) = Inl e \<Longrightarrow> is_exception e"
    and "\<And>t k b i w e. fst (sp_log (h_storage h) t k b i w) = Inl e \<Longrightarrow> is_exception e"
    and "\<And>k v w e. fst (sp_mark (h_storage h) k v w) = Inl e \<Longrightarrow> is_exception e"
  shows "fst (record_outcome h u k v w) = Inr v"
  using assms by (rule record_outcome_returns)

definition broken_plugin :: "'s plugin" where
  "broken_plugin = \<lparr>sp_claim = None, sp_release = None, sp_check = (\<lambda>k. act_raise (runtime_error [])),
     sp_mark = (\<lambda>k v. act_raise (runtime_error [])), sp_put = (\<lambda>k b. act_raise (runtime_error [])),
     sp_log = (\<lambda>t k b i. act_raise (runtime_error []))\<rparr>"

lemma storage_never_fails_the_call_witness:
  "fst (record_outcome (echo_handler\<lparr>h_storage := broken_plugin\<rparr>) no_surroundings ''k'' (PInt 7) world0) = Inr (PInt 7)"
  by (rule storage_never_fails_the_call)
    (auto simp: broken_plugin_def act_raise_def runtime_error_def echo_handler_def json_serializer_def)

section \<open>The network entry\<close>

lemma handler_call_returns:
  assumes "finite F" "\<And>f. f \<in> F \<Longrightarrow> targets (h_overrides h) {} (f_sig (u_callables u) f) \<subseteq> F"
    and "targets (h_overrides h) {} (h_sig h) \<subseteq> F"
  shows "\<exists>r. handler_call h u args kwargs w = Some r"
proof -
  have c: "h_overrides (counted h) = h_overrides h" "h_sig (counted h) = h_sig h" by (simp_all add: counted_def)
  have inv: "\<exists>r. invoke (counted h) u args kwargs ps k w = Some r" for ps k w
  proof -
    let ?kw = "if inject_db (h_sig h) \<and> map_of kwargs ''db'' = None then kwargs @ [(''db'', h_db (counted h))] else kwargs"
    obtain r st where "resolve_params (u_callables u) (h_overrides h) ?kw [] {} (h_sig h) []
        \<lparr>d_stack = [], d_cache = [], d_world = w\<rparr> = Some (r, st)"
      using resolve_returns [OF assms] by fastforce
    then show ?thesis by (simp add: invoke_def Let_def c)
  qed
  have "\<exists>r. call_with_key (counted h) u args kwargs k w = Some r" for k
  proof -
    obtain a w1 where "admission (counted h) (u_t1 u) (u_t2 u) k w = (a, w1)" by fastforce
    then show ?thesis using inv [of "bound_params (h_sig (counted h)) args kwargs" k w1]
      by (cases a) (auto simp: call_with_key_def)
  qed
  then show ?thesis by (simp add: handler_call_def split: sum.split)
qed

lemma answer_sent:
  assumes "\<And>x. \<exists>b. h_serializer h x = Inr b" "\<And>e. out = Inl e \<Longrightarrow> is_exception e"
  shows "\<exists>b. answer h key cid out = Some (key, b)"
proof (cases out)
  case (Inl e)
  then show ?thesis using assms(2) assms(1) [of "PDict (error_to_dict ((resolve (h_registry h) e)\<lparr>er_correlation_id := PStr cid\<rparr>))"]
    by (auto simp: answer_def error_reply_def)
next
  case (Inr v)
  then show ?thesis using assms(1) [of v] by (auto simp: answer_def)
qed


definition plain_echo :: "unit app_state handler" where
  "plain_echo = echo_handler\<lparr>h_durability := AT_MOST_ONCE\<rparr>"

lemma plain_echo_call: "handler_call plain_echo no_surroundings [] kwargs w = Some (Inl e, w') \<Longrightarrow> is_exception e"
proof -
  have ok: "fst (record_outcome (counted plain_echo) no_surroundings k v w1) = Inr v" for k v w1
    by (rule record_outcome_returns)
      (auto simp: plain_echo_def counted_def echo_handler_def json_serializer_def mem_plugin_def)
  have deps: "depends_params (h_sig (counted plain_echo)) = {}" "\<not> inject_db (h_sig (counted plain_echo))"
    by (auto simp: plain_echo_def counted_def echo_handler_def depends_params_def extract_depends_def inject_db_def)
  have body: "run_body (counted plain_echo) u args params k kw w1
      = record_outcome (counted plain_echo) u k (dict_get kw ''x'' PNone) w1" for u args params k kw w1
    by (simp add: run_body_def execute_with_retry_def execute_once_def plain_echo_def counted_def
        echo_handler_def act_return_def validate_return_def)
  assume "handler_call plain_echo no_surroundings [] kwargs w = Some (Inl e, w')"
  then consider (key) "call_key (counted plain_echo) no_surroundings [] kwargs (w_context w) = Inl e"
    | k where "call_with_key (counted plain_echo) no_surroundings [] kwargs k w = Some (Inl e, w')"
    by (auto simp: handler_call_def split: sum.splits)
  then show ?thesis
  proof cases
    case key
    then show ?thesis
      by (auto simp: call_key_def caller_identity_def Let_def attribute_error_def
          split: option.splits principal.splits if_splits pyval.splits sum.splits)
  next
    case (2 k)
    have "h_durability (counted plain_echo) = AT_MOST_ONCE" by (simp add: plain_echo_def counted_def)
    then show ?thesis
      using 2 ok [of k _ w]
      by (auto simp: call_with_key_def admission_def invoke_def Let_def deps body split: prod.splits sum.splits)
        (metis Inr_not_Inl fst_conv)+
  qed
qed


text \<open>A peer whose envelope carries a token that is no text makes the handler fail before anything
  else: the key of the call cannot be computed.\<close>

lemma odd_token_fails_the_call:
  assumes "w_context w = Some c" "rc_principal c = None" "context_token (u_loads u) c = PInt 5"
  shows "handler_call h u args kwargs w = Some (Inl (attribute_error ''encode''), w)"
  using assms by (simp add: handler_call_def call_key_def caller_identity_def)

text \<open>Releasing a claim is not fenced by who holds it: a slow call whose lease ran out, and which then
  fails, frees the claim another call took meanwhile, and a third call executes beside it.\<close>

lemma late_failure_frees_other_claim:
  "mem_view (snd (settle_failure (in_memory dumps h) k e w)) k = Vacant \<or> (\<exists>v. mem_view w k = Finished v)"
  using mem_calls.release_view [of k w]
  by (cases "mem_view w k") (simp_all add: mem_calls.settle_failure_eq del: mem_view_on)

end
