(* ===== verification/QueueClient.thy ===== *)
theory QueueClient
  imports QueueRole RateLimit Effects
begin

text \<open>
  The application's side of the work queues, \<open>app/queues.py\<close>: enqueueing, chains, groups, chords,
  results and dead letters, claims and settlements, all over one request function to the queue
  owner, and the schedules. \<open>session.get\<close> is an argument that gives the first good reply's text.
  \<open>str\<close>, \<open>json\<close>, UUIDs and serializers are arguments. A token is text: its \<open>bytes\<close> form decodes to it.
\<close>

section \<open>The request function\<close>

record serializer =
  ser :: "pyval \<Rightarrow> exc + bytes"
  deser :: "bytes \<Rightarrow> exc + pyval"

record 'w client =
  cl_session :: "(string \<Rightarrow> bytes option \<Rightarrow> bytes option \<Rightarrow> ('w, string option) act) option"
  cl_str :: "pyval \<Rightarrow> string"
  cl_dumps :: "pyval \<Rightarrow> string"
  cl_loads :: "string \<Rightarrow> pyval res"
  cl_context :: "principal request_context option"

definition client_envelope :: "'w client \<Rightarrow> string option \<Rightarrow> envelope" where
  "client_envelope c token =
     \<lparr>env_token = opt_str token,
      env_correlation_id = (case cl_context c of None \<Rightarrow> PNone | Some x \<Rightarrow> PStr (rc_correlation_id x)),
      env_traceparent = (case cl_context c of None \<Rightarrow> PNone | Some x \<Rightarrow> opt_str (rc_traceparent x))\<rparr>"

definition raise_payload :: "pyval \<Rightarrow> exc" where
  "raise_payload reply =
     (case reply of
        PDict d \<Rightarrow> (case error_from_payload d (PStr ''internal_error'') of Inl e \<Rightarrow> exc_of e | Inr e \<Rightarrow> raised e)
      | _ \<Rightarrow> attribute_error ''get'')"

text \<open>\<open>PNone\<close> when no reply came.\<close>

definition queue_get ::
  "'w client \<Rightarrow> string \<Rightarrow> bytes option \<Rightarrow> string option \<Rightarrow> ('w, pyval) act" where
  "queue_get c selector payload token =
     (case cl_session c of
        None \<Rightarrow> act_raise (runtime_error ''No active Zenoh session. Call run()/serving() first.'')
      | Some send \<Rightarrow>
          act_bind (send selector payload (to_attachment (cl_dumps c) (client_envelope c token))) (\<lambda>raw.
            case raw of
              None \<Rightarrow> act_return PNone
            | Some text \<Rightarrow>
                act_bind (act_of (lift_res (cl_loads c text))) (\<lambda>reply.
                  if is_error_payload reply then act_raise (raise_payload reply) else act_return reply)))"

section \<open>The verbs\<close>

definition slashless :: "string \<Rightarrow> string" where
  "slashless p = rstrip_char (CHR ''/'') p"

definition selector_of :: "'w client \<Rightarrow> string \<Rightarrow> (string, pyval) dict \<Rightarrow> string" where
  "selector_of c key params = build_selector (cl_str c) (cl_dumps c) key params"

definition no_owner :: "string \<Rightarrow> exc" where
  "no_owner prefix = raised (istos_error_init IstosError (PStr (''No queue owner answered for '' @ prefix))
     (PStr ''not_found'') 504 PNone PNone)"

definition queue_enqueue ::
  "'w client \<Rightarrow> string \<Rightarrow> bytes \<Rightarrow> time \<Rightarrow> int \<Rightarrow> string option \<Rightarrow> string option \<Rightarrow> ('w, string) act" where
  "queue_enqueue c prefix payload delay_s prio follow token =
     (let params = (if delay_s > 0 then [(''delay'', PFloat delay_s)] else [])
                 @ (if prio \<noteq> 0 then [(''priority'', PInt prio)] else [])
                 @ (case follow of None \<Rightarrow> [] | Some s \<Rightarrow> [(''wf'', PStr s)])
      in act_bind (queue_get c (selector_of c (slashless prefix @ ''/enqueue'') params) (Some payload) token)
           (\<lambda>reply. if reply = PNone then act_raise (no_owner prefix)
                    else act_bind (act_of (item reply ''job_id'')) (\<lambda>j.
                      act_return (case j of PStr s \<Rightarrow> s | _ \<Rightarrow> cl_str c j))))"

definition queue_chord_report ::
  "'w client \<Rightarrow> string \<Rightarrow> pyval \<Rightarrow> pyval \<Rightarrow> pyval \<Rightarrow> string \<Rightarrow> string option \<Rightarrow> ('w, pyval) act" where
  "queue_chord_report c prefix chord_id index members result_b64 token =
     queue_get c (selector_of c (slashless prefix @ ''/chord'')
         [(''chord_id'', chord_id), (''index'', index), (''size'', members)])
       (Some (encode_utf8 result_b64)) token"

definition queue_claim :: "'w client \<Rightarrow> string \<Rightarrow> string option \<Rightarrow> ('w, pyval) act" where
  "queue_claim c prefix token = queue_get c (prefix @ ''/claim'') None token"

definition queue_ack ::
  "'w client \<Rightarrow> string \<Rightarrow> pyval \<Rightarrow> bytes option \<Rightarrow> pyval \<Rightarrow> string option \<Rightarrow> ('w, pyval) act" where
  "queue_ack c prefix job_id res att token =
     queue_get c (selector_of c (prefix @ ''/ack'')
         ([(''job_id'', job_id)] @ (if att = PNone then [] else [(''attempt'', att)]))) res token"

definition queue_nack ::
  "'w client \<Rightarrow> string \<Rightarrow> pyval \<Rightarrow> string \<Rightarrow> pyval \<Rightarrow> string option \<Rightarrow> ('w, pyval) act" where
  "queue_nack c prefix job_id error att token =
     queue_get c (selector_of c (prefix @ ''/nack'') [(''job_id'', job_id), (''attempt'', att)])
       (Some (encode_utf8 error)) token"

section \<open>Workflows\<close>

definition encode_wf :: "(pyval \<Rightarrow> string) \<Rightarrow> pyval \<Rightarrow> string" where
  "encode_wf dumps v = b64encode (encode_utf8 (dumps v))"

definition decode_wf :: "(string \<Rightarrow> pyval res) \<Rightarrow> string \<Rightarrow> exc + pyval" where
  "decode_wf loads s =
     res_bind (lift_res (b64decode s)) (\<lambda>b.
       case decode_utf8 b of
         None \<Rightarrow> Inl (builtin_exc [''UnicodeDecodeError'', ''UnicodeError'', ''ValueError''] [])
       | Some text \<Rightarrow> lift_res (loads text))"

definition enqueue ::
  "'w client \<Rightarrow> serializer \<Rightarrow> string \<Rightarrow> pyval \<Rightarrow> time \<Rightarrow> int \<Rightarrow> string option \<Rightarrow> ('w, string) act" where
  "enqueue c sz prefix v delay_s prio token =
     act_bind (act_of (ser sz v)) (\<lambda>payload. queue_enqueue c prefix payload delay_s prio None token)"

text \<open>The continuation that runs the queues \<open>rest\<close> in order, if there are any.\<close>

definition chain_wf :: "(pyval \<Rightarrow> string) \<Rightarrow> pyval list \<Rightarrow> string option" where
  "chain_wf dumps rest = (if rest = [] then None else Some (encode_wf dumps (PDict [(''chain'', PList rest)])))"

definition chain ::
  "'w client \<Rightarrow> serializer \<Rightarrow> string list \<Rightarrow> pyval \<Rightarrow> int \<Rightarrow> string option \<Rightarrow> ('w, string) act" where
  "chain c sz prefixes v prio token =
     (case prefixes of
        [] \<Rightarrow> act_raise (value_error ''chain() needs at least one queue'')
      | p # ps \<Rightarrow>
          act_bind (act_of (ser sz v)) (\<lambda>payload.
            queue_enqueue c p payload 0 prio
              (chain_wf (cl_dumps c) (map (\<lambda>p. PDict [(''prefix'', PStr p)]) ps)) token))"

fun group ::
  "'w client \<Rightarrow> serializer \<Rightarrow> string \<Rightarrow> pyval list \<Rightarrow> int \<Rightarrow> string option \<Rightarrow> ('w, string list) act" where
  "group c sz prefix [] prio token = act_return []"
| "group c sz prefix (x # xs) prio token =
     act_bind (enqueue c sz prefix x 0 prio token) (\<lambda>i.
     act_bind (group c sz prefix xs prio token) (\<lambda>is. act_return (i # is)))"

definition member_wf :: "(pyval \<Rightarrow> string) \<Rightarrow> string \<Rightarrow> nat \<Rightarrow> nat \<Rightarrow> pyval \<Rightarrow> string" where
  "member_wf dumps chord_id index members callback =
     encode_wf dumps (PDict [(''chord'', PDict
       [(''id'', PStr chord_id), (''index'', PInt (int index)), (''size'', PInt (int members)),
        (''callback'', callback)])])"

fun chord_members ::
  "'w client \<Rightarrow> serializer \<Rightarrow> string \<Rightarrow> string \<Rightarrow> nat \<Rightarrow> pyval \<Rightarrow> int \<Rightarrow> string option \<Rightarrow> nat \<Rightarrow> pyval list
   \<Rightarrow> ('w, string list) act" where
  "chord_members c sz prefix chord_id n callback prio token index [] = act_return []"
| "chord_members c sz prefix chord_id n callback prio token index (x # xs) =
     act_bind (act_of (ser sz x)) (\<lambda>payload.
     act_bind (queue_enqueue c prefix payload 0 prio
                 (Some (member_wf (cl_dumps c) chord_id index n callback)) token) (\<lambda>i.
     act_bind (chord_members c sz prefix chord_id n callback prio token (Suc index) xs) (\<lambda>is.
     act_return (i # is))))"

definition run_chord ::
  "'w client \<Rightarrow> serializer \<Rightarrow> string \<Rightarrow> string \<Rightarrow> pyval list \<Rightarrow> string \<times> pyval \<Rightarrow> int \<Rightarrow> string option
   \<Rightarrow> ('w, string list) act" where
  "run_chord c sz uuid prefix items callback prio token =
     act_bind (act_of (ser sz (snd callback))) (\<lambda>cb_payload.
       chord_members c sz prefix uuid (length items)
         (PDict [(''prefix'', PStr (fst callback)), (''data'', PStr (b64encode cb_payload))])
         prio token 0 items)"

section \<open>Results\<close>

text \<open>\<open>b64decode\<close> of a value that must be text.\<close>

definition decode_b64_value :: "pyval \<Rightarrow> exc + bytes" where
  "decode_b64_value v =
     (case v of PStr s \<Rightarrow> lift_res (b64decode s) | _ \<Rightarrow> Inl (type_error ''argument should be a bytes-like object''))"

definition fetch_result ::
  "'w client \<Rightarrow> serializer \<Rightarrow> string \<Rightarrow> string \<Rightarrow> string option \<Rightarrow> ('w, pyval \<times> pyval) act" where
  "fetch_result c sz prefix job_id token =
     act_bind (queue_get c (selector_of c (slashless prefix @ ''/result'') [(''job_id'', PStr job_id)]) None token)
       (\<lambda>reply. if reply = PNone then act_return (PStr ''unknown'', PNone)
                else act_of (res_bind (get_key reply ''result'' PNone) (\<lambda>r.
                  res_bind (if r = PNone then Inr PNone else res_bind (decode_b64_value r) (deser sz)) (\<lambda>v.
                  res_bind (get_key reply ''state'' (PStr ''unknown'')) (\<lambda>st. Inr (st, v))))))"

fun decode_dead :: "serializer \<Rightarrow> pyval list \<Rightarrow> exc + pyval list" where
  "decode_dead sz [] = Inr []"
| "decode_dead sz (x # xs) =
     res_bind (item x ''job_id'') (\<lambda>i.
     res_bind (item x ''attempts'') (\<lambda>a.
     res_bind (item x ''last_error'') (\<lambda>e.
     res_bind (res_bind (item x ''data'') decode_b64_value) (\<lambda>b.
     res_bind (deser sz b) (\<lambda>d.
     res_bind (decode_dead sz xs) (\<lambda>out.
       Inr (PDict [(''job_id'', i), (''attempts'', a), (''last_error'', e), (''data'', d)] # out)))))))"

definition fetch_dead_letters ::
  "'w client \<Rightarrow> serializer \<Rightarrow> string \<Rightarrow> string option \<Rightarrow> ('w, pyval list) act" where
  "fetch_dead_letters c sz prefix token =
     act_bind (queue_get c (slashless prefix @ ''/dead'') None token) (\<lambda>reply.
       case reply of
         PDict d \<Rightarrow>
           (case map_of d ''jobs'' of
              None \<Rightarrow> act_return []
            | Some (PList js) \<Rightarrow> act_of (decode_dead sz js)
            | Some _ \<Rightarrow> act_raise (type_error ''not iterable''))
       | _ \<Rightarrow> act_return [])"

end
