(* ===== verification/Worker.thy ===== *)
theory Worker
  imports QueueClient Depends
begin

text \<open>
  The competing consumer, \<open>queue/worker.py\<close>: one turn of its claim loop (claim, run the body, advance
  the workflow, ack; or nack) and the continuation of chains and chords. The body is the user's
  function, with the delivery context and its dependencies when it asks for them. A turn is an
  option: \<open>None\<close> when resolving the body's dependencies does not return.
\<close>

section \<open>Workers\<close>

text \<open>A delivery context as the value a body is handed.\<close>

definition context_value :: "job_context \<Rightarrow> pyval" where
  "context_value x = PDict
     [(''job_id'', PStr (jc_job_id x)), (''queue'', PStr (jc_queue x)), (''attempt'', PInt (jc_attempt x)),
      (''max_attempts'', PInt (jc_max_attempts x)), (''last_error'', opt_str (jc_last_error x)),
      (''correlation_id'', jc_correlation_id x), (''traceparent'', jc_traceparent x)]"

text \<open>The delivery context of a claim reply. Fields of another type than the owner sends are kept by
  Python as they are; here they read as the defaults.\<close>

definition delivery_context :: "string \<Rightarrow> pyval \<Rightarrow> pyval \<Rightarrow> job_context" where
  "delivery_context prefix job_id reply =
     (case reply of
        PDict d \<Rightarrow>
          \<lparr>jc_job_id = (case job_id of PStr s \<Rightarrow> s | _ \<Rightarrow> []), jc_queue = prefix,
           jc_attempt = (case dict_get d ''attempt'' (PInt 1) of PInt i \<Rightarrow> i | _ \<Rightarrow> 1),
           jc_max_attempts = (case dict_get d ''max_attempts'' (PInt 0) of PInt i \<Rightarrow> i | _ \<Rightarrow> 0),
           jc_last_error = (case dict_get d ''last_error'' PNone of PStr s \<Rightarrow> Some s | _ \<Rightarrow> None),
           jc_correlation_id = dict_get d ''correlation_id'' PNone,
           jc_traceparent = dict_get d ''traceparent'' PNone\<rparr>
      | _ \<Rightarrow> \<lparr>jc_job_id = [], jc_queue = prefix, jc_attempt = 1, jc_max_attempts = 0,
             jc_last_error = None, jc_correlation_id = PNone, jc_traceparent = PNone\<rparr>)"

record 'w worker =
  wk_name :: string
  wk_sig :: "param list"
  wk_func :: "pyval list \<Rightarrow> (string, pyval) dict \<Rightarrow> ('w, pyval) act"
  wk_callables :: "'w callables"
  wk_overrides :: "(string, string) dict"
  wk_prefix :: string
  wk_concurrency :: int
  wk_poll_s :: time
  wk_serializer :: serializer
  wk_token :: "string option"

definition worker_init ::
  "'w worker \<Rightarrow> string \<Rightarrow> int \<Rightarrow> time \<Rightarrow> 'w worker res" where
  "worker_init wk prefix concurrency poll_s =
     (if poll_s \<le> 0 then Inl (ValueError ''poll_interval_s must be > 0'')
      else Inr (wk\<lparr>wk_prefix := slashless prefix, wk_concurrency := max 1 concurrency, wk_poll_s := poll_s\<rparr>))"

definition wants_ctx :: "param list \<Rightarrow> bool" where
  "wants_ctx sig \<longleftrightarrow> ''ctx'' \<in> pr_name ` set sig"

definition run_job ::
  "'w worker \<Rightarrow> pyval \<Rightarrow> job_context \<Rightarrow> 'w \<Rightarrow> ((exc + pyval) \<times> 'w) option" where
  "run_job wk job_value x w =
     (let extra = (if wants_ctx (wk_sig wk) then [(''ctx'', context_value x)] else [])
      in if has_dependencies (wk_sig wk)
         then invoke_with_dependencies (wk_callables wk) (\<lambda>_. wk_func wk) (wk_overrides wk) extra
                (take 1 (positional_param_names (wk_sig wk))) (wk_name wk) [job_value] w
         else Some (wk_func wk [job_value] extra w))"

section \<open>Continuations\<close>

text \<open>\<open>chain[0], chain[1:]\<close>: the next step gets the result and what is left of the chain.\<close>

definition advance_chain :: "'w client \<Rightarrow> 'w worker \<Rightarrow> pyval \<Rightarrow> bytes \<Rightarrow> ('w, unit) act" where
  "advance_chain c wk steps result_bytes =
     act_bind (act_of (first_item steps)) (\<lambda>nxt.
     act_bind (act_of (rest_items steps)) (\<lambda>rest.
     act_bind (act_of (item nxt ''prefix'')) (\<lambda>p.
       case p of
         PStr prefix \<Rightarrow>
           act_bind (queue_enqueue c prefix result_bytes 0 0
               (if truthy rest then Some (encode_wf (cl_dumps c) (PDict [(''chain'', rest)])) else None) (wk_token wk))
             (\<lambda>_. act_return ())
       | _ \<Rightarrow> act_raise (attribute_error ''rstrip''))))"

fun decode_members :: "serializer \<Rightarrow> pyval list \<Rightarrow> exc + pyval list" where
  "decode_members sz [] = Inr []"
| "decode_members sz (r # rs) =
     res_bind (if r = PNone then Inr PNone else res_bind (decode_b64_value r) (deser sz)) (\<lambda>v.
     res_bind (decode_members sz rs) (\<lambda>vs. Inr (v # vs)))"

definition fire_callback :: "'w client \<Rightarrow> 'w worker \<Rightarrow> pyval \<Rightarrow> pyval \<Rightarrow> ('w, unit) act" where
  "fire_callback c wk barrier reply =
     act_bind (act_of (get_key reply ''results'' PNone)) (\<lambda>rs.
     act_bind (act_of (case rs of
                 PList xs \<Rightarrow> decode_members (wk_serializer wk) xs
               | _ \<Rightarrow> if truthy rs then Inl (type_error ''not iterable'') else Inr [])) (\<lambda>member_results.
     act_bind (act_of (item barrier ''callback'')) (\<lambda>cb.
     act_bind (act_of (res_bind (item cb ''data'') decode_b64_value)) (\<lambda>b.
     act_bind (act_of (deser (wk_serializer wk) b)) (\<lambda>cb_input.
     act_bind (act_of (ser (wk_serializer wk) (PDict [(''results'', PList member_results), (''input'', cb_input)]))) (\<lambda>body.
     act_bind (act_of (item cb ''prefix'')) (\<lambda>p.
       case p of
         PStr prefix \<Rightarrow>
           act_bind (queue_enqueue c prefix body 0 0 None (wk_token wk)) (\<lambda>_. act_return ())
       | _ \<Rightarrow> act_raise (attribute_error ''rstrip''))))))))"

definition advance_chord :: "'w client \<Rightarrow> 'w worker \<Rightarrow> pyval \<Rightarrow> bytes \<Rightarrow> ('w, unit) act" where
  "advance_chord c wk barrier result_bytes =
     act_bind (act_of (item barrier ''id'')) (\<lambda>i.
     act_bind (act_of (item barrier ''index'')) (\<lambda>ix.
     act_bind (act_of (item barrier ''size'')) (\<lambda>n.
     act_bind (queue_chord_report c (wk_prefix wk) i ix n (b64encode result_bytes) (wk_token wk)) (\<lambda>reply.
       if truthy reply
       then act_bind (act_of (get_key reply ''complete'' PNone)) (\<lambda>whole.
              if truthy whole then fire_callback c wk barrier reply else act_return ())
       else act_return ()))))"

definition advance_workflow :: "'w client \<Rightarrow> 'w worker \<Rightarrow> pyval \<Rightarrow> bytes \<Rightarrow> ('w, unit) act" where
  "advance_workflow c wk follow result_bytes =
     (if \<not> truthy follow then act_return ()
      else
        act_bind (act_of (case follow of PStr s \<Rightarrow> decode_wf (cl_loads c) s
                          | _ \<Rightarrow> Inl (type_error ''argument should be a bytes-like object''))) (\<lambda>plan.
        act_bind (act_of (get_key plan ''chain'' PNone)) (\<lambda>steps.
        act_bind (if truthy steps then advance_chain c wk steps result_bytes else act_return ()) (\<lambda>_.
        act_bind (act_of (get_key plan ''chord'' PNone)) (\<lambda>barrier.
          if truthy barrier then advance_chord c wk barrier result_bytes else act_return ())))))"

section \<open>A turn of the loop\<close>

text \<open>How a turn ends: no reply or a refusal, nothing to do, the job failed, finished, or was left to
  its lease.\<close>

datatype turn = Unclaimed | Idle | Job_failed | Job_finished | Job_left

definition finish_job ::
  "'w client \<Rightarrow> 'w worker \<Rightarrow> pyval \<Rightarrow> pyval \<Rightarrow> pyval \<Rightarrow> pyval \<Rightarrow> ('w, unit) act" where
  "finish_job c wk job_id att follow res =
     act_bind (act_of (ser (wk_serializer wk) res)) (\<lambda>result_bytes.
     act_bind (advance_workflow c wk follow result_bytes) (\<lambda>_.
     act_bind (queue_ack c (wk_prefix wk) job_id (Some result_bytes) att (wk_token wk)) (\<lambda>_. act_return ())))"

text \<open>Which of the exceptions \<open>except Exception\<close> lets through end the loop.\<close>

definition caught :: "turn \<Rightarrow> (exc + 'a) \<times> 'w \<Rightarrow> (turn) \<Rightarrow> (exc + turn) \<times> 'w" where
  "caught bad out good =
     (case out of
        (Inr _, w) \<Rightarrow> (Inr good, w)
      | (Inl e, w) \<Rightarrow> (if is_exception e then Inr bad else Inl e, w))"

definition fail_job ::
  "'w client \<Rightarrow> 'w worker \<Rightarrow> pyval \<Rightarrow> pyval \<Rightarrow> exc \<Rightarrow> 'w \<Rightarrow> (exc + turn) \<times> 'w" where
  "fail_job c wk job_id att e w =
     (if is_exception e
      then caught Job_failed (queue_nack c (wk_prefix wk) job_id (x_str e) att (wk_token wk) w) Job_failed
      else (Inl e, w))"

definition work_on ::
  "'w client \<Rightarrow> 'w worker \<Rightarrow> pyval \<Rightarrow> pyval \<Rightarrow> 'w \<Rightarrow> ((exc + turn) \<times> 'w) option" where
  "work_on c wk reply job_id w =
     (let att = (case reply of PDict d \<Rightarrow> dict_get d ''attempt'' (PInt 1) | _ \<Rightarrow> PInt 1);
          follow = (case reply of PDict d \<Rightarrow> dict_get d ''wf'' PNone | _ \<Rightarrow> PNone);
          x = delivery_context (wk_prefix wk) job_id reply
      in case res_bind (res_bind (item reply ''data'') decode_b64_value) (deser (wk_serializer wk)) of
           Inl e \<Rightarrow> Some (fail_job c wk job_id att e w)
         | Inr job_value \<Rightarrow>
             Option.bind (run_job wk job_value x w) (\<lambda>(out, w').
               Some (case out of
                       Inl e \<Rightarrow> fail_job c wk job_id att e w'
                     | Inr res \<Rightarrow> caught Job_left (finish_job c wk job_id att follow res w') Job_finished)))"

definition worker_turn :: "'w client \<Rightarrow> 'w worker \<Rightarrow> 'w \<Rightarrow> ((exc + turn) \<times> 'w) option" where
  "worker_turn c wk w =
     (case queue_claim c (wk_prefix wk) (wk_token wk) w of
        (Inl e, w1) \<Rightarrow> Some (if is_exception e then Inr Unclaimed else Inl e, w1)
      | (Inr reply, w1) \<Rightarrow>
          if \<not> truthy reply then Some (Inr Idle, w1)
          else
            (case get_key reply ''empty'' PNone of
               Inl e \<Rightarrow> Some (Inl e, w1)
             | Inr nothing \<Rightarrow>
                 if truthy nothing then Some (Inr Idle, w1)
                 else (case item reply ''job_id'' of
                         Inl e \<Rightarrow> Some (Inl e, w1)
                       | Inr job_id \<Rightarrow> work_on c wk reply job_id w1)))"

end
