(* ===== verification/Cron.thy ===== *)
theory Cron
  imports PyText
begin

text \<open>
  The cron parser and scheduler, \<open>queue/cron.py\<close>, with the part of Python's \<open>datetime\<close> it uses:
  naive wall-clock dates of the proleptic Gregorian calendar, years 1 to 9999, at minute
  resolution (\<open>next_after\<close> zeroes the seconds first). Dates compare by their fields, as Python's
  do. A \<open>CronError\<close> is a \<open>ValueError\<close>. The search loop has no bound of its own, so it is a partial
  function, shown to return on every date.
\<close>

section \<open>Dates\<close>

record datetime =
  year :: int
  month :: int
  day :: int
  hour :: int
  minute :: int

definition is_leap :: "int \<Rightarrow> bool" where
  "is_leap y \<longleftrightarrow> 4 dvd y \<and> (\<not> 100 dvd y \<or> 400 dvd y)"

definition days_in_month :: "int \<Rightarrow> int \<Rightarrow> int" where
  "days_in_month y m =
     (if m = 2 then (if is_leap y then 29 else 28)
      else if m = 4 \<or> m = 6 \<or> m = 9 \<or> m = 11 then 30 else 31)"

definition days_before_month :: "int \<Rightarrow> int \<Rightarrow> int" where
  "days_before_month y m = sum_list (map (days_in_month y) [1..m - 1])"

definition toordinal :: "datetime \<Rightarrow> int" where
  "toordinal t =
     (let y = year t - 1
      in y * 365 + y div 4 - y div 100 + y div 400 + days_before_month (year t) (month t) + day t)"

definition weekday :: "datetime \<Rightarrow> int" where
  "weekday t = (toordinal t + 6) mod 7"

definition valid_dt :: "datetime \<Rightarrow> bool" where
  "valid_dt t \<longleftrightarrow> 1 \<le> year t \<and> year t \<le> 9999 \<and> 1 \<le> month t \<and> month t \<le> 12
     \<and> 1 \<le> day t \<and> day t \<le> days_in_month (year t) (month t)
     \<and> 0 \<le> hour t \<and> hour t < 24 \<and> 0 \<le> minute t \<and> minute t < 60"

definition key :: "datetime \<Rightarrow> int \<times> int \<times> int \<times> int \<times> int" where
  "key t = (year t, month t, day t, hour t, minute t)"

definition date :: "datetime \<Rightarrow> int \<times> int \<times> int" where
  "date t = (year t, month t, day t)"

definition add_day :: "datetime \<Rightarrow> datetime res" where
  "add_day t =
     (if day t < days_in_month (year t) (month t) then Inr (t\<lparr>day := day t + 1\<rparr>)
      else if month t < 12 then Inr (t\<lparr>month := month t + 1, day := 1\<rparr>)
      else if year t < 9999 then Inr (t\<lparr>year := year t + 1, month := 1, day := 1\<rparr>)
      else Inl OverflowError)"

definition add_hour :: "datetime \<Rightarrow> datetime res" where
  "add_hour t =
     (if hour t < 23 then Inr (t\<lparr>hour := hour t + 1\<rparr>)
      else map_sum id (\<lambda>u. u\<lparr>hour := 0\<rparr>) (add_day t))"

definition add_minute :: "datetime \<Rightarrow> datetime res" where
  "add_minute t =
     (if minute t < 59 then Inr (t\<lparr>minute := minute t + 1\<rparr>)
      else map_sum id (\<lambda>u. u\<lparr>minute := 0\<rparr>) (add_hour t))"

fun add_days :: "nat \<Rightarrow> datetime \<Rightarrow> datetime res" where
  "add_days 0 t = Inr t"
| "add_days (Suc n) t = res_bind (add_day t) (add_days n)"

section \<open>Parsing\<close>

definition cron_error :: "string \<Rightarrow> 'a res" where
  "cron_error msg = Inl (ValueError msg)"

definition part_range :: "string \<Rightarrow> int \<Rightarrow> int \<Rightarrow> (int \<times> int) res" where
  "part_range base lo hi =
     (if base = ''*'' then Inr (lo, hi)
      else if CHR ''-'' \<in> set base then
        (let (a, b) = split_once (CHR ''-'') base
         in case (py_int a, py_int b) of
              (Inr x, Inr y) \<Rightarrow> Inr (x, y)
            | _ \<Rightarrow> cron_error ''bad range'')
      else (case py_int base of Inr x \<Rightarrow> Inr (x, x) | Inl _ \<Rightarrow> cron_error ''bad value''))"

definition part_values :: "int \<Rightarrow> int \<Rightarrow> int \<Rightarrow> int \<times> int \<Rightarrow> int set res" where
  "part_values lo hi step se =
     (let (start, end) = se
      in if step < 1 \<or> start < lo \<or> end > hi \<or> start > end then cron_error ''field out of range''
         else Inr (set (filter (\<lambda>v. (v - start) mod step = 0) [start..end])))"

definition parse_part :: "string \<Rightarrow> int \<Rightarrow> int \<Rightarrow> int set res" where
  "parse_part part lo hi =
     (if CHR ''/'' \<in> set part then
        (let (base, step_s) = split_once (CHR ''/'') part
         in case py_int step_s of
              Inl _ \<Rightarrow> cron_error ''bad step''
            | Inr step \<Rightarrow> res_bind (part_range base lo hi) (part_values lo hi step))
      else res_bind (part_range part lo hi) (part_values lo hi 1))"

fun parse_parts :: "string list \<Rightarrow> int \<Rightarrow> int \<Rightarrow> int set res" where
  "parse_parts [] lo hi = Inr {}"
| "parse_parts (p # ps) lo hi =
     res_bind (parse_part p lo hi) (\<lambda>vs.
     res_bind (parse_parts ps lo hi) (\<lambda>ws. Inr (vs \<union> ws)))"

definition parse_field :: "string \<Rightarrow> int \<Rightarrow> int \<Rightarrow> int set res" where
  "parse_field field lo hi = parse_parts (split_on (CHR '','') field) lo hi"

record cron_schedule =
  c_minute :: "int set"
  c_hour :: "int set"
  c_dom :: "int set"
  c_month :: "int set"
  c_dow :: "int set"
  dom_restricted :: bool
  dow_restricted :: bool

definition cron_schedule_init :: "string \<Rightarrow> cron_schedule res" where
  "cron_schedule_init expr =
     (case words expr of
        [f0, f1, f2, f3, f4] \<Rightarrow>
          res_bind (parse_field f0 0 59) (\<lambda>mi.
          res_bind (parse_field f1 0 23) (\<lambda>h.
          res_bind (parse_field f2 1 31) (\<lambda>dom.
          res_bind (parse_field f3 1 12) (\<lambda>mo.
          res_bind (parse_field f4 0 7) (\<lambda>dow.
          Inr \<lparr>c_minute = mi, c_hour = h, c_dom = dom, c_month = mo,
               c_dow = (if 7 \<in> dow then insert 0 (dow - {7}) else dow),
               dom_restricted = (f2 \<noteq> ''*''), dow_restricted = (f4 \<noteq> ''*'')\<rparr>)))))
      | _ \<Rightarrow> cron_error ''cron expression needs 5 fields'')"

section \<open>The search\<close>

definition day_matches :: "cron_schedule \<Rightarrow> datetime \<Rightarrow> bool" where
  "day_matches c t =
     (let cron_dow = (weekday t + 1) mod 7;
          dom_ok = day t \<in> c_dom c;
          dow_ok = cron_dow \<in> c_dow c
      in if dom_restricted c \<and> dow_restricted c then dom_ok \<or> dow_ok else dom_ok \<and> dow_ok)"

definition matches :: "cron_schedule \<Rightarrow> datetime \<Rightarrow> bool" where
  "matches c t =
     (if minute t \<notin> c_minute c \<or> hour t \<notin> c_hour c \<or> month t \<notin> c_month c then False
      else
        (let cron_dow = (weekday t + 1) mod 7;
             dom_ok = day t \<in> c_dom c;
             dow_ok = cron_dow \<in> c_dow c
         in if dom_restricted c \<and> dow_restricted c then dom_ok \<or> dow_ok else dom_ok \<and> dow_ok))"

definition first_of :: "int set \<Rightarrow> int" where
  "first_of s = hd (sorted_list_of_set s)"

definition later_in :: "int set \<Rightarrow> int \<Rightarrow> int list" where
  "later_in s v = filter (\<lambda>x. x > v) (sorted_list_of_set s)"

text \<open>One turn of the loop: the next candidate, or that \<open>t\<close> is the answer.\<close>

definition advance :: "cron_schedule \<Rightarrow> datetime \<Rightarrow> datetime option res" where
  "advance c t =
     (if month t \<notin> c_month c then
        (if month t + 1 = 13 then
           (if year t < 9999
            then Inr (Some (t\<lparr>year := year t + 1, month := 1, day := 1, hour := 0, minute := 0\<rparr>))
            else Inl (ValueError ''year''))
         else Inr (Some (t\<lparr>month := month t + 1, day := 1, hour := 0, minute := 0\<rparr>)))
      else if \<not> day_matches c t then
        map_sum id (\<lambda>u. Some (u\<lparr>hour := 0, minute := 0\<rparr>)) (add_day t)
      else if hour t \<notin> c_hour c then
        (case later_in (c_hour c) (hour t) of
           h # _ \<Rightarrow> Inr (Some (t\<lparr>hour := h, minute := first_of (c_minute c)\<rparr>))
         | [] \<Rightarrow> map_sum id (\<lambda>u. Some (u\<lparr>hour := first_of (c_hour c), minute := first_of (c_minute c)\<rparr>))
                  (add_day t))
      else if minute t \<notin> c_minute c then
        (case later_in (c_minute c) (minute t) of
           m # _ \<Rightarrow> Inr (Some (t\<lparr>minute := m\<rparr>))
         | [] \<Rightarrow> map_sum id Some (add_hour (t\<lparr>minute := first_of (c_minute c)\<rparr>)))
      else Inr None)"

partial_function (option) search ::
  "cron_schedule \<Rightarrow> datetime \<Rightarrow> datetime \<Rightarrow> datetime res option" where
  "search c horizon t =
     (if key t < key horizon then
        (case advance c t of
           Inl e \<Rightarrow> Some (Inl e)
         | Inr None \<Rightarrow> Some (Inr t)
         | Inr (Some u) \<Rightarrow> search c horizon u)
      else Some (cron_error ''no matching time within eight years''))"

declare search.simps [code]

definition next_after :: "cron_schedule \<Rightarrow> datetime \<Rightarrow> datetime res option" where
  "next_after c after =
     (case res_bind (add_minute after) (\<lambda>t. res_bind (add_days (366 * 8) t) (\<lambda>h. Inr (t, h))) of
        Inl e \<Rightarrow> Some (Inl e)
      | Inr (t, horizon) \<Rightarrow> search c horizon t)"

section \<open>The order of dates\<close>

lemma key_less: "key t < key u \<longleftrightarrow> date t < date u \<or> date t = date u \<and>
    (hour t < hour u \<or> hour t = hour u \<and> minute t < minute u)"
  by (auto simp: key_def date_def less_prod_def less_eq_prod_def)

lemma key_le: "key t \<le> key u \<longleftrightarrow> date t < date u \<or> date t = date u \<and>
    (hour t < hour u \<or> hour t = hour u \<and> minute t \<le> minute u)"
  by (auto simp: key_def date_def less_prod_def less_eq_prod_def)

lemma date_less: "date t < date u \<longleftrightarrow> year t < year u \<or> year t = year u \<and>
    (month t < month u \<or> month t = month u \<and> day t < day u)"
  by (auto simp: date_def less_prod_def less_eq_prod_def)

lemma date_eq: "date t = date u \<longleftrightarrow> year t = year u \<and> month t = month u \<and> day t = day u"
  by (auto simp: date_def)

lemma days_in_month_ge [simp]: "28 \<le> days_in_month y m" "1 \<le> days_in_month y m"
  by (simp_all add: days_in_month_def)

lemma add_day_Inr:
  assumes "valid_dt t" "add_day t = Inr u"
  shows "valid_dt u" "hour u = hour t" "minute u = minute t" "date t < date u"
    "valid_dt v \<Longrightarrow> date t < date v \<Longrightarrow> date u \<le> date v"
proof -
  show "valid_dt u" "hour u = hour t" "minute u = minute t"
    using assms by (auto simp: add_day_def valid_dt_def split: if_splits)
  show "date t < date u"
    using assms by (auto simp: add_day_def valid_dt_def date_less split: if_splits)
  show "date u \<le> date v" if v: "valid_dt v" "date t < date v"
  proof -
    have b: "1 \<le> day v" "1 \<le> month v" "month v \<le> 12" "day v \<le> days_in_month (year v) (month v)"
      using v(1) by (simp_all add: valid_dt_def)
    have lt: "year t < year v \<or> year t = year v \<and> (month t < month v \<or> month t = month v \<and> day t < day v)"
      using v(2) by (simp add: date_less)
    consider "u = t\<lparr>day := day t + 1\<rparr>"
      | "u = t\<lparr>month := month t + 1, day := 1\<rparr>" "days_in_month (year t) (month t) \<le> day t"
      | "u = t\<lparr>year := year t + 1, month := 1, day := 1\<rparr>" "days_in_month (year t) (month t) \<le> day t"
        "12 \<le> month t"
      using assms(2) by (auto simp: add_day_def split: if_splits)
    then have "\<not> date v < date u"
    proof cases
      case 1
      then have "year u = year t" "month u = month t" "day u = day t + 1" by simp_all
      with lt show ?thesis by (elim disjE conjE) (simp_all add: date_less)
    next
      case 2
      then have "year t < year v \<or> year t = year v \<and> month t < month v" using lt b(4) by auto
      moreover have "year u = year t" "month u = month t + 1" "day u = 1" using 2(1) by simp_all
      ultimately show ?thesis using b(1) by (elim disjE conjE) (simp_all add: date_less)
    next
      case 3
      then have "year t < year v" using lt b(3,4) by auto
      moreover have "year u = year t + 1" "month u = 1" "day u = 1" using 3(1) by simp_all
      ultimately show ?thesis using b(1,2) by (simp add: date_less)
    qed
    then show ?thesis by simp
  qed
qed

lemma add_day_Inl: "valid_dt t \<Longrightarrow> add_day t = Inl e \<Longrightarrow> valid_dt v \<Longrightarrow> \<not> date t < date v"
  by (auto simp: add_day_def valid_dt_def date_less split: if_splits)

lemma add_hour_Inr:
  assumes "valid_dt t" "add_hour t = Inr u"
  shows "valid_dt u" "minute u = minute t" "key t < key u"
    "valid_dt v \<Longrightarrow> key t < key v \<Longrightarrow> \<not> (date v = date t \<and> hour v = hour t) \<Longrightarrow>
      date u < date v \<or> date u = date v \<and> hour u \<le> hour v"
    "date u = date t \<and> hour u = hour t + 1 \<or> date t < date u \<and> hour t = 23 \<and> hour u = 0"
proof -
  consider "hour t < 23" "u = t\<lparr>hour := hour t + 1\<rparr>"
    | w where "hour t = 23" "add_day t = Inr w" "u = w\<lparr>hour := 0\<rparr>"
    using assms by (cases "add_day t") (auto simp: add_hour_def valid_dt_def split: if_splits)
  note cases = this
  show "valid_dt u" "minute u = minute t"
    using cases
  proof (atomize (full), cases)
    case 1 then show "valid_dt u \<and> minute u = minute t" using assms(1) by (simp add: valid_dt_def)
  next
    case (2 w)
    then show "valid_dt u \<and> minute u = minute t"
      using add_day_Inr(1,3) [OF assms(1) 2(2)] by (simp add: valid_dt_def)
  qed
  show last: "date u = date t \<and> hour u = hour t + 1 \<or> date t < date u \<and> hour t = 23 \<and> hour u = 0"
    using cases
  proof cases
    case (2 w)
    then show ?thesis using add_day_Inr(4) [OF assms(1) 2(2)] by (simp add: date_def)
  qed (simp add: date_def)
  then show "key t < key u" by (auto simp: key_less)
  show "date u < date v \<or> date u = date v \<and> hour u \<le> hour v"
    if v: "valid_dt v" "key t < key v" "\<not> (date v = date t \<and> hour v = hour t)"
    using cases
  proof cases
    case 1
    then show ?thesis using v by (auto simp: key_less date_def)
  next
    case (2 w)
    have "date t < date v" using v 2(1) by (auto simp: key_less valid_dt_def)
    then have "date w \<le> date v" using add_day_Inr(5) [OF assms(1) 2(2) v(1)] by simp
    then show ?thesis using v(1) 2(3) by (auto simp: valid_dt_def date_def)
  qed
qed

lemma add_hour_Inl:
  assumes "valid_dt t" "add_hour t = Inl e" "valid_dt v" "key t < key v"
  shows "date v = date t \<and> hour v = hour t"
proof -
  have "\<not> hour t < 23" "add_day t = Inl e"
    using assms(2) by (auto simp: add_hour_def split: if_splits) (cases "add_day t"; simp)
  then have "hour t = 23" "\<not> date t < date v"
    using assms(1) add_day_Inl [OF assms(1) _ assms(3)] by (auto simp: valid_dt_def)
  then show ?thesis using assms(3,4) by (auto simp: key_less valid_dt_def)
qed

lemma add_minute_Inr:
  assumes "valid_dt t" "add_minute t = Inr u"
  shows "valid_dt u" "key t < key u" "valid_dt v \<Longrightarrow> key t < key v \<Longrightarrow> key u \<le> key v"
proof -
  consider "minute t < 59" "u = t\<lparr>minute := minute t + 1\<rparr>"
    | w where "minute t = 59" "add_hour t = Inr w" "u = w\<lparr>minute := 0\<rparr>"
    using assms by (cases "add_hour t") (auto simp: add_minute_def valid_dt_def split: if_splits)
  note cases = this
  show "valid_dt u"
    using cases
  proof cases
    case 1 then show ?thesis using assms(1) by (simp add: valid_dt_def)
  next
    case (2 w)
    then show ?thesis using add_hour_Inr(1) [OF assms(1) 2(2)] by (simp add: valid_dt_def)
  qed
  show "key t < key u"
    using cases
  proof cases
    case (2 w)
    then show ?thesis using add_hour_Inr(5) [OF assms(1) 2(2)] by (auto simp: key_less date_def)
  qed (simp add: key_less date_def)
  show "key u \<le> key v" if v: "valid_dt v" "key t < key v"
    using cases
  proof cases
    case 1
    then show ?thesis using v by (auto simp: key_less key_le date_def)
  next
    case (2 w)
    have "\<not> (date v = date t \<and> hour v = hour t)" using v 2(1) by (auto simp: key_less valid_dt_def)
    then show ?thesis using add_hour_Inr(4) [OF assms(1) 2(2) v] v(1) 2(3)
      by (auto simp: key_le date_def valid_dt_def)
  qed
qed

section \<open>The search finds the first match\<close>

definition sched_ok :: "cron_schedule \<Rightarrow> bool" where
  "sched_ok c \<longleftrightarrow> c_minute c \<noteq> {} \<and> c_minute c \<subseteq> {0..59} \<and> c_hour c \<noteq> {} \<and> c_hour c \<subseteq> {0..23}"

lemma matches_iff: "matches c t \<longleftrightarrow>
    minute t \<in> c_minute c \<and> hour t \<in> c_hour c \<and> month t \<in> c_month c \<and> day_matches c t"
  by (auto simp: matches_def day_matches_def Let_def)

lemma day_matches_date: "date t = date u \<Longrightarrow> day_matches c t = day_matches c u"
  by (simp add: day_matches_def weekday_def toordinal_def date_eq)

lemma first_of:
  assumes "finite s" "s \<noteq> {}"
  shows "first_of s \<in> s" "x \<in> s \<Longrightarrow> first_of s \<le> x"
proof -
  have ne: "sorted_list_of_set s \<noteq> []" using assms by simp
  then show "first_of s \<in> s"
    using hd_in_set [OF ne] assms(1) by (simp add: first_of_def)
  show "x \<in> s \<Longrightarrow> first_of s \<le> x"
    using ne sorted_sorted_list_of_set [of s] set_sorted_list_of_set [OF assms(1)]
    by (cases "sorted_list_of_set s") (auto simp: first_of_def)
qed

lemma later_in:
  assumes "finite s"
  shows "later_in s v = [] \<Longrightarrow> x \<in> s \<Longrightarrow> x \<le> v"
    and "later_in s v = y # ys \<Longrightarrow> y \<in> s \<and> v < y"
    and "later_in s v = y # ys \<Longrightarrow> x \<in> s \<Longrightarrow> v < x \<Longrightarrow> y \<le> x"
proof -
  have set: "set (later_in s v) = {x \<in> s. v < x}" using assms by (auto simp: later_in_def)
  have srt: "sorted (later_in s v)" by (simp add: later_in_def sorted_wrt_filter)
  show "later_in s v = [] \<Longrightarrow> x \<in> s \<Longrightarrow> x \<le> v" using set by force
  show "later_in s v = y # ys \<Longrightarrow> y \<in> s \<and> v < y" using set by auto
  show "later_in s v = y # ys \<Longrightarrow> x \<in> s \<Longrightarrow> v < x \<Longrightarrow> y \<le> x" using set srt by auto
qed

text \<open>What one jump skips: nothing that matches.\<close>

definition skips :: "cron_schedule \<Rightarrow> datetime \<Rightarrow> datetime \<Rightarrow> bool" where
  "skips c t u \<longleftrightarrow> valid_dt u \<and> key t < key u
     \<and> (\<forall>v. valid_dt v \<longrightarrow> key t \<le> key v \<longrightarrow> key v < key u \<longrightarrow> \<not> matches c v)"

definition none_after :: "cron_schedule \<Rightarrow> datetime \<Rightarrow> bool" where
  "none_after c t \<longleftrightarrow> (\<forall>v. valid_dt v \<longrightarrow> key t \<le> key v \<longrightarrow> \<not> matches c v)"

lemma finite_fields: "sched_ok c \<Longrightarrow> finite (c_minute c)" "sched_ok c \<Longrightarrow> finite (c_hour c)"
  unfolding sched_ok_def using finite_subset finite_atLeastAtMost_int by blast+

lemma first_fields: "sched_ok c \<Longrightarrow> 0 \<le> first_of (c_minute c) \<and> first_of (c_minute c) < 60"
    "sched_ok c \<Longrightarrow> 0 \<le> first_of (c_hour c) \<and> first_of (c_hour c) < 24"
proof -
  assume ok: "sched_ok c"
  then have "first_of (c_minute c) \<in> {0..59}" "first_of (c_hour c) \<in> {0..23}"
    using first_of(1) [OF finite_fields(1) [OF ok]] first_of(1) [OF finite_fields(2) [OF ok]]
    unfolding sched_ok_def by blast+
  then show "0 \<le> first_of (c_minute c) \<and> first_of (c_minute c) < 60"
    "0 \<le> first_of (c_hour c) \<and> first_of (c_hour c) < 24" by simp_all
qed

lemma same_month:
  fixes yt mt yv mv yu mu :: int
  assumes "yt < yv \<or> yt = yv \<and> mt \<le> mv" "yv < yu \<or> yv = yu \<and> mv < mu"
    and "if mt = 12 then yu = yt + 1 \<and> mu = 1 else yu = yt \<and> mu = mt + 1"
    and "mv \<le> 12" "1 \<le> mv" "mt \<le> 12"
  shows "mv = mt"
  using assms by presburger

lemma advance_month:
  assumes "valid_dt t" "month t \<notin> c_month c" "advance c t = Inr (Some u)"
  shows "skips c t u"
proof -
  have u: "u = (if month t = 12 then t\<lparr>year := year t + 1, month := 1, day := 1, hour := 0, minute := 0\<rparr>
      else t\<lparr>month := month t + 1, day := 1, hour := 0, minute := 0\<rparr>)" "month t = 12 \<Longrightarrow> year t < 9999"
    using assms by (auto simp: advance_def split: if_splits)
  have b: "month t \<le> 12" "1 \<le> year t" "year t \<le> 9999" "1 \<le> month t" using assms(1) by (simp_all add: valid_dt_def)
  have "valid_dt u" using b u by (cases "month t = 12") (simp_all add: valid_dt_def)
  moreover have "key t < key u"
    using b(1) u(1) by (cases "month t = 12") (simp_all add: key_less date_less)
  moreover have "month v = month t" if v: "valid_dt v" "key t \<le> key v" "key v < key u" for v
  proof -
    have bv: "month v \<le> 12" "1 \<le> month v" "1 \<le> day v" "0 \<le> hour v" "0 \<le> minute v"
      using v(1) by (simp_all add: valid_dt_def)
    have "year t < year v \<or> year t = year v \<and> month t \<le> month v"
      using v(2) by (auto simp: key_le date_less date_eq)
    moreover have "day u = 1" "hour u = 0" "minute u = 0" using u(1) by simp_all
    then have "year v < year u \<or> year v = year u \<and> month v < month u"
      using v(3) bv(3-5) by (auto simp: key_less date_less date_eq)
    moreover have "if month t = 12 then year u = year t + 1 \<and> month u = 1
        else year u = year t \<and> month u = month t + 1"
      using u(1) by simp
    ultimately show ?thesis using bv(1,2) b(1) by (rule same_month)
  qed
  ultimately show ?thesis using assms(2) by (auto simp: skips_def matches_iff)
qed

lemma advance_day:
  assumes "valid_dt t" "\<not> day_matches c t" "add_day t = Inr w"
  shows "skips c t (w\<lparr>hour := 0, minute := 0\<rparr>)"
proof -
  let ?u = "w\<lparr>hour := 0, minute := 0\<rparr>"
  note A = add_day_Inr [OF assms(1,3)]
  have d: "date ?u = date w" by (simp add: date_def)
  have "valid_dt ?u" using A(1) by (simp add: valid_dt_def)
  moreover have "date v = date t" if v: "valid_dt v" "key t \<le> key v" "key v < key ?u" for v
  proof (rule ccontr)
    assume "date v \<noteq> date t"
    then have "date w \<le> date v" using v(2) A(5) [OF v(1)] by (auto simp: key_le)
    then show False using v d by (auto simp: key_less valid_dt_def)
  qed
  moreover from this have "\<not> matches c v" if "valid_dt v" "key t \<le> key v" "key v < key ?u" for v
    using that assms(2) day_matches_date [of v t c] by (simp add: matches_iff)
  moreover have "key t < key ?u" using A(4) d by (simp add: key_less)
  ultimately show ?thesis by (simp add: skips_def)
qed

lemma advance_hour_wrap:
  assumes "valid_dt t" "sched_ok c" "hour t \<notin> c_hour c" "later_in (c_hour c) (hour t) = []"
    and "add_day t = Inr w"
  shows "skips c t (w\<lparr>hour := first_of (c_hour c), minute := first_of (c_minute c)\<rparr>)"
proof -
  let ?u = "w\<lparr>hour := first_of (c_hour c), minute := first_of (c_minute c)\<rparr>"
  note A = add_day_Inr [OF assms(1,5)]
  note F = first_of [OF finite_fields(1) [OF assms(2)]] first_of [OF finite_fields(2) [OF assms(2)]]
  have ne: "c_minute c \<noteq> {}" "c_hour c \<noteq> {}" using assms(2) by (auto simp: sched_ok_def)
  have d: "date ?u = date w" by (simp add: date_def)
  have "valid_dt ?u" using A(1) first_fields [OF assms(2)] by (simp add: valid_dt_def)
  moreover have "\<not> matches c v" if v: "valid_dt v" "key t \<le> key v" "key v < key ?u" for v
  proof (cases "date v = date t")
    case True
    then have "hour v \<notin> c_hour c"
      using v(2) assms(3) later_in(1) [OF finite_fields(2) [OF assms(2)] assms(4), of "hour v"]
      by (auto simp: key_le)
    then show ?thesis by (simp add: matches_iff)
  next
    case False
    then have "date w \<le> date v" using v(2) A(5) [OF v(1)] by (auto simp: key_le)
    then have "hour v < first_of (c_hour c) \<or> minute v < first_of (c_minute c)"
      using v(3) d by (auto simp: key_less)
    then show ?thesis using F(2,4) ne by (force simp: matches_iff)
  qed
  ultimately show ?thesis using A(4) d by (auto simp: skips_def key_less)
qed

lemma advance_hour_later:
  assumes "valid_dt t" "sched_ok c" "hour t \<notin> c_hour c" "later_in (c_hour c) (hour t) = h # hs"
  shows "skips c t (t\<lparr>hour := h, minute := first_of (c_minute c)\<rparr>)"
proof -
  let ?u = "t\<lparr>hour := h, minute := first_of (c_minute c)\<rparr>"
  note L = later_in(2,3) [OF finite_fields(2) [OF assms(2)] assms(4)]
  have ne: "c_minute c \<noteq> {}" using assms(2) by (auto simp: sched_ok_def)
  have "h \<in> {0..23}" using L(1) assms(2) by (auto simp: sched_ok_def)
  then have "valid_dt ?u" using assms(1) first_fields(1) [OF assms(2)] by (simp add: valid_dt_def)
  moreover have "\<not> matches c v" if v: "valid_dt v" "key t \<le> key v" "key v < key ?u" for v
  proof -
    have "hour v = hour t \<or> hour t < hour v \<and> hour v < h \<or> minute v < first_of (c_minute c)"
      using v(2,3) by (auto simp: key_le key_less date_less date_eq)
    then show ?thesis
      using assms(3) L(2) [of "hour v"] first_of(2) [OF finite_fields(1) [OF assms(2)] ne, of "minute v"]
      by (auto simp: matches_iff)
  qed
  ultimately show ?thesis using L(1) by (auto simp: skips_def key_less date_def)
qed

lemma advance_minute_later:
  assumes "valid_dt t" "sched_ok c" "minute t \<notin> c_minute c" "later_in (c_minute c) (minute t) = m # ms"
  shows "skips c t (t\<lparr>minute := m\<rparr>)"
proof -
  let ?u = "t\<lparr>minute := m\<rparr>"
  note L = later_in(2,3) [OF finite_fields(1) [OF assms(2)] assms(4)]
  have "m \<in> {0..59}" using L(1) assms(2) by (auto simp: sched_ok_def)
  then have "valid_dt ?u" using assms(1) by (simp add: valid_dt_def)
  moreover have "\<not> matches c v" if v: "valid_dt v" "key t \<le> key v" "key v < key ?u" for v
  proof -
    have "minute t \<le> minute v \<and> minute v < m"
      using v(2,3) by (auto simp: key_le key_less date_less date_eq)
    then show ?thesis using assms(3) L(2) [of "minute v"] by (cases "minute v = minute t") (auto simp: matches_iff)
  qed
  ultimately show ?thesis using L(1) by (auto simp: skips_def key_less date_def)
qed

lemma advance_minute_wrap:
  assumes "valid_dt t" "sched_ok c" "minute t \<notin> c_minute c" "later_in (c_minute c) (minute t) = []"
    and "add_hour (t\<lparr>minute := first_of (c_minute c)\<rparr>) = Inr u"
  shows "skips c t u"
proof -
  let ?t = "t\<lparr>minute := first_of (c_minute c)\<rparr>"
  have ne: "c_minute c \<noteq> {}" using assms(2) by (auto simp: sched_ok_def)
  note F = first_of [OF finite_fields(1) [OF assms(2)] ne]
  have vt: "valid_dt ?t" using assms(1) first_fields(1) [OF assms(2)] by (simp add: valid_dt_def)
  note A = add_hour_Inr [OF vt assms(5)]
  have d: "date ?t = date t" by (simp add: date_def)
  have "\<not> matches c v" if v: "valid_dt v" "key t \<le> key v" "key v < key u" for v
  proof (cases "date v = date t \<and> hour v = hour t")
    case True
    then have "minute t \<le> minute v" using v(2) by (auto simp: key_le)
    then have "minute v \<notin> c_minute c"
      using assms(3) later_in(1) [OF finite_fields(1) [OF assms(2)] assms(4), of "minute v"] by force
    then show ?thesis by (simp add: matches_iff)
  next
    case False
    then have "key ?t < key v" using v(2) d by (auto simp: key_le key_less)
    then have "date u < date v \<or> date u = date v \<and> hour u \<le> hour v"
      using A(4) [OF v(1)] False d by simp
    then have "minute v < minute u" using v(3) unfolding key_less by force
    then show ?thesis using A(2) F(2) by (force simp: matches_iff)
  qed
  moreover have "key t < key u" using A(5) d by (auto simp: key_less)
  ultimately show ?thesis using A(1) by (simp add: skips_def)
qed

lemma advance_Some:
  assumes "valid_dt t" "sched_ok c" "advance c t = Inr (Some u)"
  shows "skips c t u"
proof -
  consider "month t \<notin> c_month c"
    | w where "month t \<in> c_month c" "\<not> day_matches c t" "add_day t = Inr w" "u = w\<lparr>hour := 0, minute := 0\<rparr>"
    | h hs where "hour t \<notin> c_hour c" "later_in (c_hour c) (hour t) = h # hs"
        "u = t\<lparr>hour := h, minute := first_of (c_minute c)\<rparr>"
    | w where "hour t \<notin> c_hour c" "later_in (c_hour c) (hour t) = []" "add_day t = Inr w"
        "u = w\<lparr>hour := first_of (c_hour c), minute := first_of (c_minute c)\<rparr>"
    | m ms where "minute t \<notin> c_minute c" "later_in (c_minute c) (minute t) = m # ms" "u = t\<lparr>minute := m\<rparr>"
    | "minute t \<notin> c_minute c" "later_in (c_minute c) (minute t) = []"
        "add_hour (t\<lparr>minute := first_of (c_minute c)\<rparr>) = Inr u"
  proof (cases "month t \<notin> c_month c")
    case False
    note no = that(2-)
    show ?thesis
    proof (cases "day_matches c t")
      case False
      then have "advance c t = map_sum id (\<lambda>u. Some (u\<lparr>hour := 0, minute := 0\<rparr>)) (add_day t)"
        using \<open>\<not> month t \<notin> c_month c\<close> by (simp add: advance_def)
      then show ?thesis using assms(3) \<open>\<not> month t \<notin> c_month c\<close> no(1) False
        by (cases "add_day t") simp_all
    next
      case day: True
      show ?thesis
      proof (cases "hour t \<in> c_hour c")
        case False
        have adv: "advance c t = (case later_in (c_hour c) (hour t) of
            h # _ \<Rightarrow> Inr (Some (t\<lparr>hour := h, minute := first_of (c_minute c)\<rparr>))
          | [] \<Rightarrow> map_sum id (\<lambda>u. Some (u\<lparr>hour := first_of (c_hour c), minute := first_of (c_minute c)\<rparr>))
                   (add_day t))"
          using \<open>\<not> month t \<notin> c_month c\<close> day False by (simp add: advance_def)
        show ?thesis
        proof (cases "later_in (c_hour c) (hour t)")
          case Nil
          then show ?thesis using assms(3) adv no(3) False by (cases "add_day t") simp_all
        next
          case (Cons x xs)
          then show ?thesis using assms(3) adv no(2) False by simp
        qed
      next
        case True
        have m: "minute t \<notin> c_minute c"
          using assms(3) \<open>\<not> month t \<notin> c_month c\<close> day True by (simp add: advance_def split: if_splits)
        have adv: "advance c t = (case later_in (c_minute c) (minute t) of
            m # _ \<Rightarrow> Inr (Some (t\<lparr>minute := m\<rparr>))
          | [] \<Rightarrow> map_sum id Some (add_hour (t\<lparr>minute := first_of (c_minute c)\<rparr>)))"
          using \<open>\<not> month t \<notin> c_month c\<close> day True m by (simp add: advance_def)
        show ?thesis
        proof (cases "later_in (c_minute c) (minute t)")
          case Nil
          then show ?thesis using assms(3) adv no(5) m
            by (cases "add_hour (t\<lparr>minute := first_of (c_minute c)\<rparr>)") simp_all
        next
          case (Cons x xs)
          then show ?thesis using assms(3) adv no(4) m by simp
        qed
      qed
    qed
  qed (rule that(1))
  then show ?thesis
    by cases (use assms advance_month advance_day advance_hour_later advance_hour_wrap
      advance_minute_later advance_minute_wrap in \<open>simp_all\<close>)
qed

lemma map_sum_Some: "map_sum id (\<lambda>u. Some (f u)) x \<noteq> Inr None" "map_sum id Some y \<noteq> Inr None"
  by (cases x; simp) (cases y; simp)

lemma advance_None: "advance c t = Inr None \<Longrightarrow> matches c t"
  unfolding advance_def matches_iff
  by (auto split: if_splits list.splits dest: map_sum_Some(1) [THEN notE] map_sum_Some(2) [THEN notE])

lemma advance_Inl:
  assumes "valid_dt t" "sched_ok c" "advance c t = Inl e" "valid_dt v" "key t \<le> key v"
  shows "\<not> matches c v"
proof -
  have day: "date v = date t" if "add_day t = Inl e'" for e'
    using add_day_Inl [OF assms(1) that assms(4)] assms(5) by (auto simp: key_le)
  consider "month t \<notin> c_month c" "year t = 9999" "month t = 12"
    | e' where "\<not> day_matches c t" "add_day t = Inl e'"
    | e' where "hour t \<notin> c_hour c" "later_in (c_hour c) (hour t) = []" "add_day t = Inl e'"
    | e' where "minute t \<notin> c_minute c" "later_in (c_minute c) (minute t) = []"
        "add_hour (t\<lparr>minute := first_of (c_minute c)\<rparr>) = Inl e'"
  proof -
    have sum: "map_sum id f x = Inl e \<Longrightarrow> x = Inl e" for f :: "datetime \<Rightarrow> datetime option" and x
      by (cases x) simp_all
    show ?thesis using assms(1,3) that
      by (auto simp: advance_def valid_dt_def split: if_splits list.splits dest!: sum)
  qed
  then show ?thesis
  proof cases
    case 1
    then have "month v = month t"
      using assms(1,4,5) by (auto simp: key_le date_less date_eq valid_dt_def)
    then show ?thesis using 1 by (simp add: matches_iff)
  next
    case 2
    then show ?thesis using day day_matches_date [of v t c] by (simp add: matches_iff)
  next
    case 3
    then have "hour t \<le> hour v" using day assms(5) by (auto simp: key_le)
    then have "hour v \<notin> c_hour c"
      using 3 later_in(1) [OF finite_fields(2) [OF assms(2)] 3(2), of "hour v"] by force
    then show ?thesis by (simp add: matches_iff)
  next
    case (4 e')
    let ?t = "t\<lparr>minute := first_of (c_minute c)\<rparr>"
    have vt: "valid_dt ?t" using assms(1) first_fields(1) [OF assms(2)] by (simp add: valid_dt_def)
    have same: "date v = date t \<and> hour v = hour t"
    proof (rule ccontr)
      assume n: "\<not> (date v = date t \<and> hour v = hour t)"
      then have "key ?t < key v" using assms(5) by (auto simp: key_le key_less date_def)
      then show False using add_hour_Inl [OF vt 4(3) assms(4)] n by (simp add: date_def)
    qed
    then have "minute t \<le> minute v" using assms(5) by (auto simp: key_le)
    then have "minute v \<notin> c_minute c"
      using 4 later_in(1) [OF finite_fields(1) [OF assms(2)] 4(2), of "minute v"] by force
    then show ?thesis by (simp add: matches_iff)
  qed
qed

text \<open>There are finitely many dates, so the jumps end.\<close>

definition ahead :: "datetime \<Rightarrow> datetime set" where
  "ahead t = {v. valid_dt v \<and> key t < key v}"

lemma inj_key: "inj key"
  by (rule injI) (simp add: key_def)

lemma days_in_month_le: "days_in_month y m \<le> 31"
  by (simp add: days_in_month_def)

lemma finite_ahead: "finite (ahead t)"
proof (rule finite_imageD)
  have "key ` ahead t \<subseteq> {1..9999} \<times> {1..12} \<times> {1..31} \<times> {0..23} \<times> {0..59}"
    using order_trans [OF _ days_in_month_le] by (auto simp: ahead_def key_def valid_dt_def)
  then show "finite (key ` ahead t)" by (rule finite_subset) simp
  show "inj_on key (ahead t)" using inj_key by (rule inj_on_subset) simp
qed

lemma search_spec:
  "sched_ok c \<Longrightarrow> valid_dt t \<Longrightarrow> \<exists>r. search c h t = Some r \<and>
     (case r of
        Inr u \<Rightarrow> valid_dt u \<and> key t \<le> key u \<and> key u < key h \<and> matches c u
          \<and> (\<forall>v. valid_dt v \<longrightarrow> key t \<le> key v \<longrightarrow> key v < key u \<longrightarrow> \<not> matches c v)
      | Inl e \<Rightarrow> \<forall>v. valid_dt v \<longrightarrow> key t \<le> key v \<longrightarrow> key v < key h \<longrightarrow> \<not> matches c v)"
proof (induction "card (ahead t)" arbitrary: t rule: less_induct)
  case less
  show ?case
  proof (cases "key t < key h")
    case False
    then have "search c h t = Some (Inl (ValueError ''no matching time within eight years''))"
      by (simp add: search.simps [of c h t] cron_error_def)
    then show ?thesis using False by force
  next
    case True
    note run = search.simps [of c h t]
    consider e where "advance c t = Inl e" | "advance c t = Inr None" | u where "advance c t = Inr (Some u)"
      by (metis obj_sumE option.exhaust)
    then show ?thesis
    proof cases
      case (1 e)
      then have "search c h t = Some (Inl e)" using True run by simp
      then show ?thesis using advance_Inl [OF less.prems(2,1) 1] by auto
    next
      case 2
      then have "search c h t = Some (Inr t)" using True run by simp
      then show ?thesis using advance_None [OF 2] True less.prems(2) by auto
    next
      case (3 u)
      have S: "skips c t u" by (rule advance_Some [OF less.prems(2,1) 3])
      then have u: "valid_dt u" "key t < key u" by (simp_all add: skips_def)
      then have "ahead u \<subset> ahead t" by (auto simp: ahead_def)
      then have "card (ahead u) < card (ahead t)" by (rule psubset_card_mono [OF finite_ahead])
      from less.hyps [OF this less.prems(1) u(1)]
      obtain r where r: "search c h u = Some r"
        and spec: "case r of
          Inr w \<Rightarrow> valid_dt w \<and> key u \<le> key w \<and> key w < key h \<and> matches c w
            \<and> (\<forall>v. valid_dt v \<longrightarrow> key u \<le> key v \<longrightarrow> key v < key w \<longrightarrow> \<not> matches c v)
        | Inl e \<Rightarrow> \<forall>v. valid_dt v \<longrightarrow> key u \<le> key v \<longrightarrow> key v < key h \<longrightarrow> \<not> matches c v"
        by blast
      have skip: "\<not> matches c v" if "valid_dt v" "key t \<le> key v" "\<not> key u \<le> key v" for v
        using S that by (auto simp: skips_def not_le)
      have "search c h t = Some r" using True run 3 r by simp
      moreover have "key t \<le> key w" if "key u \<le> key w" for w using that u(2) by simp
      ultimately show ?thesis using spec skip by (cases r) (simp, blast)+
    qed
  qed
qed

section \<open>What the parser accepts\<close>

lemma part_values_range:
  assumes "part_values lo hi st se = Inr vs" shows "vs \<noteq> {} \<and> vs \<subseteq> {lo..hi}"
proof -
  obtain start fin where se: "se = (start, fin)" by fastforce
  then have "lo \<le> start" "fin \<le> hi" "start \<le> fin"
    and vs: "vs = {v \<in> {start..fin}. (v - start) mod st = 0}"
    using assms by (auto simp: part_values_def cron_error_def split: if_splits)
  then have "start \<in> vs" by simp
  then show ?thesis using \<open>lo \<le> start\<close> \<open>fin \<le> hi\<close> vs by auto
qed

lemma parse_part_range: "parse_part p lo hi = Inr vs \<Longrightarrow> vs \<noteq> {} \<and> vs \<subseteq> {lo..hi}"
proof -
  assume "parse_part p lo hi = Inr vs"
  then have "\<exists>st se. part_values lo hi st se = Inr vs"
    by (auto simp: parse_part_def res_bind_eq_Inr cron_error_def simp del: split_paired_Ex
        split: if_splits prod.splits sum.splits)
  then show ?thesis using part_values_range by blast
qed

lemma parse_parts_range:
  "parse_parts ps lo hi = Inr vs \<Longrightarrow> vs \<subseteq> {lo..hi} \<and> (ps \<noteq> [] \<longrightarrow> vs \<noteq> {})"
proof (induction ps arbitrary: vs)
  case (Cons p ps)
  obtain a b where "parse_part p lo hi = Inr a" "parse_parts ps lo hi = Inr b" "vs = a \<union> b"
    using Cons.prems by (cases "parse_part p lo hi"; cases "parse_parts ps lo hi") auto
  then show ?case using parse_part_range Cons.IH by blast
qed simp

lemma parse_field_range: "parse_field f lo hi = Inr vs \<Longrightarrow> vs \<noteq> {} \<and> vs \<subseteq> {lo..hi}"
  using parse_parts_range split_on_ne by (auto simp: parse_field_def)

lemma parsed_fields:
  assumes "cron_schedule_init expr = Inr c"
  shows "c_minute c \<noteq> {} \<and> c_minute c \<subseteq> {0..59}" "c_hour c \<noteq> {} \<and> c_hour c \<subseteq> {0..23}"
    "c_dom c \<noteq> {} \<and> c_dom c \<subseteq> {1..31}" "c_month c \<noteq> {} \<and> c_month c \<subseteq> {1..12}"
    "c_dow c \<noteq> {} \<and> c_dow c \<subseteq> {0..6}"
proof -
  obtain f0 f1 f2 f3 f4 where w: "words expr = [f0, f1, f2, f3, f4]"
    using assms by (auto simp: cron_schedule_init_def cron_error_def split: list.splits)
  obtain mi h dom mo dow where p: "parse_field f0 0 59 = Inr mi" "parse_field f1 0 23 = Inr h"
      "parse_field f2 1 31 = Inr dom" "parse_field f3 1 12 = Inr mo" "parse_field f4 0 7 = Inr dow"
    using assms unfolding cron_schedule_init_def w list.case
    by (cases "parse_field f0 0 59"; cases "parse_field f1 0 23"; cases "parse_field f2 1 31";
        cases "parse_field f3 1 12"; cases "parse_field f4 0 7") simp_all
  have c: "c_minute c = mi" "c_hour c = h" "c_dom c = dom" "c_month c = mo"
      "c_dow c = (if 7 \<in> dow then insert 0 (dow - {7}) else dow)"
    using assms by (auto simp: cron_schedule_init_def w p)
  note R = parse_field_range [OF p(1)] parse_field_range [OF p(2)] parse_field_range [OF p(3)]
    parse_field_range [OF p(4)]
  show "c_minute c \<noteq> {} \<and> c_minute c \<subseteq> {0..59}" "c_hour c \<noteq> {} \<and> c_hour c \<subseteq> {0..23}"
    "c_dom c \<noteq> {} \<and> c_dom c \<subseteq> {1..31}" "c_month c \<noteq> {} \<and> c_month c \<subseteq> {1..12}"
    using R c by simp_all
  have "x \<in> {0..6}" if "x \<in> dow" "x \<noteq> 7" for x
    using parse_field_range [OF p(5)] that by (auto dest: subsetD)
  then have "dow - {7} \<subseteq> {0..6}" by blast
  moreover have "dow \<noteq> {}" using parse_field_range [OF p(5)] by simp
  ultimately show "c_dow c \<noteq> {} \<and> c_dow c \<subseteq> {0..6}" by (auto simp: c(5))
qed

lemma parsed_ok: "cron_schedule_init expr = Inr c \<Longrightarrow> sched_ok c"
  using parsed_fields(1,2) by (simp add: sched_ok_def)

section \<open>Properties\<close>

lemma add_days_valid: "valid_dt t \<Longrightarrow> add_days n t = Inr u \<Longrightarrow> valid_dt u"
proof (induction n arbitrary: t)
  case (Suc n)
  then obtain w where "add_day t = Inr w" "add_days n w = Inr u"
    by (cases "add_day t") auto
  then show ?case using Suc.IH add_day_Inr(1) [OF Suc.prems(1)] by blast
qed simp

text \<open>The end of the search: 366 * 8 days after the minute the search starts at.\<close>

definition horizon_of :: "datetime \<Rightarrow> datetime res" where
  "horizon_of after = res_bind (add_minute after) (add_days (366 * 8))"

lemma next_after_spec:
  assumes "cron_schedule_init expr = Inr c" "valid_dt after"
  shows "\<exists>r. next_after c after = Some r \<and>
    (case r of
       Inr u \<Rightarrow> valid_dt u \<and> key after < key u \<and> matches c u
         \<and> (\<forall>v. valid_dt v \<longrightarrow> key after < key v \<longrightarrow> key v < key u \<longrightarrow> \<not> matches c v)
     | Inl e \<Rightarrow> \<forall>h v. horizon_of after = Inr h \<longrightarrow> valid_dt v \<longrightarrow> key after < key v \<longrightarrow> key v < key h
         \<longrightarrow> \<not> matches c v)"
proof (cases "horizon_of after")
  case (Inl e)
  then have "next_after c after = Some (Inl e)"
    by (auto simp: horizon_of_def next_after_def res_bind_eq_Inl)
  then show ?thesis using Inl by simp
next
  case (Inr h)
  then obtain t where t: "add_minute after = Inr t" "add_days (366 * 8) t = Inr h"
    unfolding horizon_of_def by (cases "add_minute after") auto
  note M = add_minute_Inr [OF assms(2) t(1)]
  have run: "next_after c after = search c h t"
    unfolding next_after_def t(1) res_bind.simps t(2) sum.case prod.case by (rule refl)
  have le: "key t \<le> key v \<longleftrightarrow> key after < key v" if "valid_dt v" for v
    using M(2) M(3) [OF that] by auto
  obtain r where "search c h t = Some r" and
    "case r of
        Inr u \<Rightarrow> valid_dt u \<and> key t \<le> key u \<and> key u < key h \<and> matches c u
          \<and> (\<forall>v. valid_dt v \<longrightarrow> key t \<le> key v \<longrightarrow> key v < key u \<longrightarrow> \<not> matches c v)
      | Inl e \<Rightarrow> \<forall>v. valid_dt v \<longrightarrow> key t \<le> key v \<longrightarrow> key v < key h \<longrightarrow> \<not> matches c v"
    using search_spec [OF parsed_ok [OF assms(1)] M(1), of h] by blast
  moreover have "key after < key w" if "key t \<le> key w" for w using that M(2) by simp
  ultimately show ?thesis using le Inr run by (cases r) auto
qed

text \<open>C10: the time the scheduler computes matches the expression, lies strictly after the given
  one, and no matching minute lies between: no firing is skipped and none is early.\<close>

theorem next_after_is_first:
  assumes "cron_schedule_init expr = Inr c" "valid_dt after" "next_after c after = Some (Inr u)"
  shows "valid_dt u \<and> key after < key u \<and> matches c u
    \<and> (\<forall>v. valid_dt v \<longrightarrow> key after < key v \<longrightarrow> key v < key u \<longrightarrow> \<not> matches c v)"
  using next_after_spec [OF assms(1,2)] assms(3) by auto

definition hourly :: cron_schedule where
  "hourly = \<lparr>c_minute = {0}, c_hour = set [0..23], c_dom = set [1..31], c_month = set [1..12],
     c_dow = set [0..6], dom_restricted = False, dow_restricted = False\<rparr>"

lemma hourly_parsed: "cron_schedule_init ''0 * * * 0-6'' = Inr (hourly\<lparr>dow_restricted := True\<rparr>)"
  by code_simp

lemma next_after_is_first_witness:
  "matches (hourly\<lparr>dow_restricted := True\<rparr>)
     \<lparr>year = 2024, month = 3, day = 1, hour = 18, minute = 0\<rparr>"
proof -
  have "next_after (hourly\<lparr>dow_restricted := True\<rparr>)
      \<lparr>year = 2024, month = 3, day = 1, hour = 17, minute = 50\<rparr>
    = Some (Inr \<lparr>year = 2024, month = 3, day = 1, hour = 18, minute = 0\<rparr>)"
    by code_simp
  moreover have "valid_dt \<lparr>year = 2024, month = 3, day = 1, hour = 17, minute = 50\<rparr>"
    by code_simp
  ultimately show ?thesis using next_after_is_first [OF hourly_parsed] by blast
qed

text \<open>C11: the search returns on every date and schedule, and reports no matching time only when
  indeed no minute matches before the horizon.\<close>

theorem next_after_returns:
  assumes "cron_schedule_init expr = Inr c" "valid_dt after"
  shows "\<exists>r. next_after c after = Some r \<and>
    (\<forall>e h v. r = Inl e \<longrightarrow> horizon_of after = Inr h \<longrightarrow> valid_dt v \<longrightarrow> key after < key v \<longrightarrow>
       key v < key h \<longrightarrow> \<not> matches c v)"
proof -
  obtain r where "next_after c after = Some r"
    and "case r of Inr u \<Rightarrow> valid_dt u \<and> key after < key u \<and> matches c u
         \<and> (\<forall>v. valid_dt v \<longrightarrow> key after < key v \<longrightarrow> key v < key u \<longrightarrow> \<not> matches c v)
     | Inl e \<Rightarrow> \<forall>h v. horizon_of after = Inr h \<longrightarrow> valid_dt v \<longrightarrow> key after < key v
         \<longrightarrow> key v < key h \<longrightarrow> \<not> matches c v"
    using next_after_spec [OF assms] by blast
  then show ?thesis by (cases r) auto
qed

lemma next_after_returns_witness:
  "next_after (hourly\<lparr>dow_restricted := True\<rparr>)
     \<lparr>year = 1, month = 1, day = 1, hour = 0, minute = 0\<rparr> \<noteq> None"
  using next_after_returns [OF hourly_parsed,
      of "\<lparr>year = 1, month = 1, day = 1, hour = 0, minute = 0\<rparr>"]
  by (auto simp: valid_dt_def days_in_month_def)

end
