(* ===== verification/Mesh.thy ===== *)
theory Mesh
  imports Worker Cron
begin

text \<open>
  Queue owners, clients and workers together: a mesh of owner roles that the clients' requests are
  routed to, with one set of clock readings, UUIDs and random draws per request. What the wire does
  with a selector and a payload is what Zenoh documents; a request no active owner serves gets no
  reply, and neither does one whose handler raised.
\<close>

section \<open>The mesh\<close>

record 'u mesh =
  m_roles :: "role list"
  m_tick :: nat
  m_user :: 'u

record mesh_env =
  me_readings :: "nat \<Rightarrow> readings"
  me_codecs :: codecs
  me_dumps :: "pyval \<Rightarrow> string"

definition verb_names :: "(string \<times> verb) list" where
  "verb_names = [(''enqueue'', Enqueue), (''claim'', Claim), (''ack'', Ack), (''nack'', Nack),
     (''result'', Result), (''dead'', Dead), (''chord'', Chord)]"

fun route :: "role list \<Rightarrow> nat \<Rightarrow> string \<Rightarrow> (nat \<times> verb) option" where
  "route [] i sel = None"
| "route (r # rs) i sel =
     (case List.find (\<lambda>(name, v). r_active r \<and> sel = r_prefix r @ ''/'' @ name) verb_names of
        Some (_, v) \<Rightarrow> Some (i, v)
      | None \<Rightarrow> route rs (Suc i) sel)"

definition wire_query :: "string \<Rightarrow> bytes option \<Rightarrow> bytes option \<Rightarrow> query" where
  "wire_query selector payload att =
     \<lparr>q_key_expr = fst (split_once (CHR ''?'') selector), q_params = selector_params selector,
      q_payload = payload, q_attachment = att\<rparr>"

definition mesh_send ::
  "mesh_env \<Rightarrow> string \<Rightarrow> bytes option \<Rightarrow> bytes option \<Rightarrow> ('u mesh, string option) act" where
  "mesh_send env selector payload att m =
     (let q = wire_query selector payload att; m1 = m\<lparr>m_tick := Suc (m_tick m)\<rparr>
      in case route (m_roles m) 0 (q_key_expr q) of
           None \<Rightarrow> (Inr None, m1)
         | Some (i, v) \<Rightarrow>
             (case handle_query (me_codecs env) (me_readings env (m_tick m)) v q (m_roles m ! i) of
                (reply, _, r') \<Rightarrow>
                  (Inr (case reply of Answered x \<Rightarrow> Some (me_dumps env x) | Unanswered _ \<Rightarrow> None),
                   m1\<lparr>m_roles := (m_roles m)[i := r']\<rparr>)))"

definition mesh_client :: "mesh_env \<Rightarrow> (pyval \<Rightarrow> string) \<Rightarrow> 'u mesh client" where
  "mesh_client env str = \<lparr>cl_session = Some (mesh_send env), cl_str = str, cl_dumps = me_dumps env,
     cl_loads = json_loads (me_codecs env), cl_context = None\<rparr>"

section \<open>The schedules\<close>

record schedule =
  sch_prefix :: string
  sch_data :: pyval
  sch_every_s :: "time option"
  sch_cron :: "cron_schedule option"
  sch_initial_delay_s :: time
  sch_priority :: int
  sch_token :: "string option"

definition schedule_of ::
  "string \<Rightarrow> pyval \<Rightarrow> time option \<Rightarrow> string option \<Rightarrow> time option \<Rightarrow> int \<Rightarrow> string option \<Rightarrow> schedule res" where
  "schedule_of prefix v every cron initial prio token =
     (if (every = None) = (cron = None)
      then Inl (ValueError ''schedule() needs exactly one of every_s= or cron='')
      else if (case every of None \<Rightarrow> False | Some e \<Rightarrow> e \<le> 0)
      then Inl (ValueError ''schedule(every_s=) must be positive'')
      else res_bind (case cron of None \<Rightarrow> Inr None | Some s \<Rightarrow> map_sum id Some (cron_schedule_init s)) (\<lambda>cs.
        Inr \<lparr>sch_prefix = prefix, sch_data = v, sch_every_s = every, sch_cron = cs,
             sch_initial_delay_s = (case initial of Some d \<Rightarrow> d | None \<Rightarrow> (case every of Some e \<Rightarrow> e | None \<Rightarrow> 0)),
             sch_priority = prio, sch_token = token\<rparr>))"

definition local_queue_owner :: "string \<Rightarrow> role list \<Rightarrow> role option" where
  "local_queue_owner prefix rs = List.find (\<lambda>r. r_prefix r = slashless prefix) rs"

text \<open>One beat: only the active owner fires where the queue is owned here; a failed enqueue is logged.
  \<open>local\<close> are the roles of this node, found once before the first beat.\<close>

definition fire :: "'w client \<Rightarrow> serializer \<Rightarrow> schedule \<Rightarrow> role option \<Rightarrow> ('w, unit) act" where
  "fire c sz sch owner =
     (if (case owner of None \<Rightarrow> False | Some r \<Rightarrow> \<not> r_active r) then act_return ()
      else swallow (act_bind (enqueue c sz (sch_prefix sch) (sch_data sch) 0 (sch_priority sch) (sch_token sch))
             (\<lambda>_. act_return ())))"

text \<open>How long the loop sleeps before a cron beat; \<open>seconds\<close> gives the seconds between two times.\<close>

definition cron_wait :: "(datetime \<Rightarrow> datetime \<Rightarrow> time) \<Rightarrow> cron_schedule \<Rightarrow> datetime \<Rightarrow> time res option" where
  "cron_wait seconds cs now = map_option (\<lambda>r. res_bind r (\<lambda>t. Inr (max 0 (seconds now t)))) (next_after cs now)"

section \<open>Any number of workers and clients\<close>

text \<open>Readings that a clock and a UUID generator can give: times do not go back from one request to the
  next, and no identifier is given twice.\<close>

definition fair_readings :: "(nat \<Rightarrow> readings) \<Rightarrow> bool" where
  "fair_readings f \<longleftrightarrow>
     (\<forall>n. rd_t1 (f n) \<le> rd_t2 (f n) \<and> rd_t2 (f n) \<le> rd_t3 (f n) \<and> rd_t3 (f n) \<le> rd_t1 (f (Suc n)))
     \<and> inj (rd_uuid \<circ> f)"

definition owner_ok :: "(nat \<Rightarrow> readings) \<Rightarrow> nat \<Rightarrow> role \<Rightarrow> bool" where
  "owner_ok f n r \<longleftrightarrow> (\<exists>T U. sys_inv (T, U, r_store r) \<and> T \<le> rd_t1 (f n) \<and> U \<subseteq> rd_uuid ` f ` {..<n})"

definition mesh_ok :: "(nat \<Rightarrow> readings) \<Rightarrow> 'u mesh \<Rightarrow> bool" where
  "mesh_ok f m \<longleftrightarrow> (\<forall>r\<in>set (m_roles m). owner_ok f (m_tick m) r)"

lemma owner_ok_later:
  assumes "fair_readings f" "owner_ok f n r" shows "owner_ok f (Suc n) r"
proof -
  have "rd_t1 (f n) \<le> rd_t1 (f (Suc n))" using assms(1) by (meson fair_readings_def order_trans)
  then show ?thesis using assms(2) unfolding owner_ok_def lessThan_Suc by fastforce
qed

lemma owner_ok_query:
  assumes f: "fair_readings f" and ok: "owner_ok f n r"
    and h: "handle_query cs (f n) v q r = (out, nudge, r')"
  shows "owner_ok f (Suc n) r'"
proof -
  obtain T U where I: "sys_inv (T, U, r_store r)" "T \<le> rd_t1 (f n)" "U \<subseteq> rd_uuid ` f ` {..<n}"
    using ok by (auto simp: owner_ok_def)
  have t: "rd_t1 (f n) \<le> rd_t2 (f n)" "rd_t2 (f n) \<le> rd_t3 (f n)" "rd_t3 (f n) \<le> rd_t1 (f (Suc n))"
    using f by (auto simp: fair_readings_def)
  have "inj (rd_uuid \<circ> f)" using f by (simp add: fair_readings_def)
  have fresh: "rd_uuid (f n) \<notin> U"
  proof (intro notI)
    assume "rd_uuid (f n) \<in> U"
    then obtain k where "k < n" "(rd_uuid \<circ> f) k = (rd_uuid \<circ> f) n" using I(3) by fastforce
    then show False using injD [OF \<open>inj (rd_uuid \<circ> f)\<close>] by blast
  qed
  from handle_query_steps [OF h I(2) t(1,2) fresh]
  consider "r_store r' = r_store r"
    | e T' U' where "queue_step (T, U, r_store r) e (T', U', r_store r')" "T' \<le> rd_t3 (f n)"
        "U' \<subseteq> insert (rd_uuid (f n)) U" by blast
  then show ?thesis
  proof cases
    case 1
    then have "owner_ok f n r'" using ok by (simp add: owner_ok_def)
    then show ?thesis by (rule owner_ok_later [OF f])
  next
    case (2 e T' U')
    have "sys_inv (T', U', r_store r')" using lease.inv_step [OF 2(1) I(1)] .
    moreover have "U' \<subseteq> rd_uuid ` f ` {..<Suc n}" using 2(3) I(3) by (auto simp: lessThan_Suc)
    ultimately show ?thesis using 2(2) t(3) unfolding owner_ok_def by (meson order_trans)
  qed
qed

lemma mesh_send_keeps [keeps_intros]:
  assumes f: "fair_readings (me_readings env)"
  shows "keeps (mesh_ok (me_readings env)) (mesh_send env sel payload att)"
  unfolding keeps_def
proof (intro allI impI)
  fix m :: "'u mesh" assume ok: "mesh_ok (me_readings env) m"
  let ?q = "wire_query sel payload att"
  have later: "owner_ok (me_readings env) (Suc (m_tick m)) r" if "r \<in> set (m_roles m)" for r
    using ok that owner_ok_later [OF f] by (auto simp: mesh_ok_def)
  show "mesh_ok (me_readings env) (snd (mesh_send env sel payload att m))"
  proof (cases "route (m_roles m) 0 (q_key_expr ?q)")
    case None
    then show ?thesis using later by (simp add: mesh_send_def mesh_ok_def)
  next
    case (Some iv)
    obtain i v where iv: "iv = (i, v)" by fastforce
    obtain reply nudge r' where h: "handle_query (me_codecs env) (me_readings env (m_tick m)) v ?q (m_roles m ! i) = (reply, nudge, r')"
      by (metis prod_cases3)
    have "owner_ok (me_readings env) (Suc (m_tick m)) r'" if "i < length (m_roles m)"
      using ok that owner_ok_query [OF f _ h] by (auto simp: mesh_ok_def)
    then have "owner_ok (me_readings env) (Suc (m_tick m)) r"
      if "r \<in> set ((m_roles m)[i := r'])" for r
    proof (cases "i < length (m_roles m)")
      case True
      then have "owner_ok (me_readings env) (Suc (m_tick m)) r'" by fact
      moreover have "r = r' \<or> r \<in> set (m_roles m)" using that set_update_subset_insert by fastforce
      ultimately show ?thesis using later by blast
    qed (use that later in \<open>simp add: list_update_beyond\<close>)
    then show ?thesis using Some iv h by (simp add: mesh_send_def mesh_ok_def)
  qed
qed

text \<open>The user's code in a worker does not reach into the owners: bodies and dependencies keep them.\<close>

lemma queue_get_keeps [keeps_intros]:
  "fair_readings (me_readings env) \<Longrightarrow>
   keeps (mesh_ok (me_readings env)) (queue_get (mesh_client env str) sel payload token)"
  by (auto simp: queue_get_def mesh_client_def intro!: keeps_intros split: option.split)

lemmas verb_defs = queue_enqueue_def queue_chord_report_def queue_claim_def queue_ack_def queue_nack_def Let_def

lemma verbs_keep [keeps_intros]:
  assumes "fair_readings (me_readings env)"
  shows "keeps (mesh_ok (me_readings env)) (queue_enqueue (mesh_client env str) prefix payload d p follow token)"
    and "keeps (mesh_ok (me_readings env)) (queue_chord_report (mesh_client env str) prefix i ix n b token)"
    and "keeps (mesh_ok (me_readings env)) (queue_claim (mesh_client env str) prefix token)"
    and "keeps (mesh_ok (me_readings env)) (queue_ack (mesh_client env str) prefix j res att token)"
    and "keeps (mesh_ok (me_readings env)) (queue_nack (mesh_client env str) prefix j err att token)"
  using assms by (auto simp: verb_defs intro!: keeps_intros)

lemma advance_chain_keeps [keeps_intros]:
  "fair_readings (me_readings env) \<Longrightarrow>
   keeps (mesh_ok (me_readings env)) (advance_chain (mesh_client env str) wk steps b)"
  by (auto simp: advance_chain_def intro!: keeps_intros split: pyval.split)

lemma fire_callback_keeps [keeps_intros]:
  "fair_readings (me_readings env) \<Longrightarrow>
   keeps (mesh_ok (me_readings env)) (fire_callback (mesh_client env str) wk barrier reply)"
  by (auto simp: fire_callback_def intro!: keeps_intros split: pyval.split)

lemma advance_chord_keeps [keeps_intros]:
  "fair_readings (me_readings env) \<Longrightarrow>
   keeps (mesh_ok (me_readings env)) (advance_chord (mesh_client env str) wk barrier b)"
  by (auto simp: advance_chord_def intro!: keeps_intros)

lemma advance_workflow_keeps [keeps_intros]:
  "fair_readings (me_readings env) \<Longrightarrow>
   keeps (mesh_ok (me_readings env)) (advance_workflow (mesh_client env str) wk follow b)"
  by (auto simp: advance_workflow_def intro!: keeps_intros)

lemma finish_job_keeps [keeps_intros]:
  "fair_readings (me_readings env) \<Longrightarrow>
   keeps (mesh_ok (me_readings env)) (finish_job (mesh_client env str) wk j att follow res)"
  by (auto simp: finish_job_def intro!: keeps_intros)

lemma caught_snd [simp]: "snd (caught bad out good) = snd out"
  by (simp add: caught_def split: prod.split sum.split)

lemma fail_job_keeps [keeps_intros]:
  assumes "fair_readings (me_readings env)"
  shows "keeps (mesh_ok (me_readings env)) (fail_job (mesh_client env str) wk j att e)"
  unfolding keeps_def
  by (auto simp: fail_job_def intro!: keeps_snd [OF verbs_keep(5) [OF assms]])

definition body_keeps :: "('u mesh \<Rightarrow> bool) \<Rightarrow> 'u mesh worker \<Rightarrow> bool" where
  "body_keeps P wk \<longleftrightarrow> (\<forall>v x w out w'. run_job wk v x w = Some (out, w') \<longrightarrow> P w \<longrightarrow> P w')"

lemma worker_turn_keeps:
  assumes f: "fair_readings (me_readings env)" and b: "body_keeps (mesh_ok (me_readings env)) wk"
    and t: "worker_turn (mesh_client env str) wk m = Some (out, m')" and ok: "mesh_ok (me_readings env) m"
  shows "mesh_ok (me_readings env) m'"
proof -
  let ?P = "mesh_ok (me_readings env)" and ?c = "mesh_client env str"
  obtain r m1 where c: "queue_claim ?c (wk_prefix wk) (wk_token wk) m = (r, m1)" by fastforce
  have m1: "?P m1" using keepsD [OF verbs_keep(3) [OF f] ok c] .
  have work: "?P m''" if w: "work_on ?c wk reply j m1 = Some (o', m'')" for reply j o' m''
  proof -
    let ?att = "case reply of PDict d \<Rightarrow> dict_get d ''attempt'' (PInt 1) | _ \<Rightarrow> PInt 1"
    let ?follow = "case reply of PDict d \<Rightarrow> dict_get d ''wf'' PNone | _ \<Rightarrow> PNone"
    show ?thesis
    proof (cases "res_bind (res_bind (item reply ''data'') decode_b64_value) (deser (wk_serializer wk))")
      case (Inl e)
      then have "m'' = snd (fail_job ?c wk j ?att e m1)" using w by (simp add: work_on_def Let_def)
      then show ?thesis using keeps_snd [OF fail_job_keeps [OF f] m1] by blast
    next
      case (Inr v)
      then obtain out2 m2 where r: "run_job wk v (delivery_context (wk_prefix wk) j reply) m1 = Some (out2, m2)"
        using w by (auto simp: work_on_def Let_def bind_eq_Some_conv)
      then have m2: "?P m2" using b m1 unfolding body_keeps_def by blast
      have "m'' = (case out2 of Inl e \<Rightarrow> snd (fail_job ?c wk j ?att e m2)
          | Inr res \<Rightarrow> snd (finish_job ?c wk j ?att ?follow res m2))"
        using w Inr r by (auto simp: work_on_def Let_def split: sum.split) (metis caught_snd snd_conv)+
      then show ?thesis
        using keeps_snd [OF fail_job_keeps [OF f] m2] keeps_snd [OF finish_job_keeps [OF f] m2]
        by (cases out2) auto
    qed
  qed
  show ?thesis
    using t c m1 work by (auto simp: worker_turn_def split: sum.splits if_splits)
qed

end
