(* ===== verification/WorkflowProps.thy ===== *)
theory WorkflowProps
  imports Mesh PyNum
begin

text \<open>
  Correctness of the work queues as clients and workers see them: requests reach the owner as they
  were sent, any number of workers keep the owners' invariants, a turn of a worker settles the job
  it claimed, and chains and chords carry on.
\<close>

section \<open>Requests over the mesh\<close>

text \<open>JSON text that reads back, for the replies \<open>vs\<close>, and integers printed in decimal.\<close>

definition plain_wire :: "mesh_env \<Rightarrow> (pyval \<Rightarrow> string) \<Rightarrow> pyval set \<Rightarrow> bool" where
  "plain_wire env str vs \<longleftrightarrow> (\<forall>v\<in>vs. json_loads (me_codecs env) (me_dumps env v) = Inr v
     \<and> utf8_valid (map of_char (me_dumps env v))) \<and> (\<forall>i. str (PInt i) = show_int i)"

text \<open>An owner at a prefix, alone on the mesh, that lets everyone in.\<close>

definition lone_owner :: "'u mesh \<Rightarrow> role \<Rightarrow> bool" where
  "lone_owner m r \<longleftrightarrow> m_roles m = [r] \<and> r_active r \<and> r_authorizer r = None \<and> CHR ''?'' \<notin> set (r_prefix r)"

lemma route_one: "r_active r \<Longrightarrow> (name, v) \<in> set verb_names \<Longrightarrow> route [r] 0 (r_prefix r @ CHR ''/'' # name) = Some (0, v)"
  by (auto simp: verb_names_def)

lemma selector_key: "CHR ''?'' \<notin> set key_expr \<Longrightarrow>
    fst (split_once (CHR ''?'') (build_selector py_str dumps key_expr params)) = key_expr"
  using split_once_at [of "CHR ''?''" key_expr]
  by (auto simp: build_selector_def Let_def) (auto simp: split_once_def takeWhile_eq_all_conv)

definition params_query :: "mesh_env \<Rightarrow> (pyval \<Rightarrow> string) \<Rightarrow> string \<Rightarrow> (string, pyval) dict \<Rightarrow> bytes option \<Rightarrow> bytes option \<Rightarrow> query" where
  "params_query env str sel params payload att =
     wire_query (build_selector str (me_dumps env) sel params) payload att"

lemma params_query_simps:
  assumes "CHR ''?'' \<notin> set sel" "dict_ok params"
  shows "query_params (params_query env str sel params payload att) = encode_params str (me_dumps env) params"
    and "q_key_expr (params_query env str sel params payload att) = sel"
    and "query_payload (params_query env str sel params payload att) = (case payload of None \<Rightarrow> [] | Some b \<Rightarrow> b)"
  using decode_selector [OF assms, of str "me_dumps env"] selector_key [OF assms(1), of str "me_dumps env" params]
  by (auto simp: query_params_def params_query_def wire_query_def query_payload_def decode_params_def)

lemma mesh_request:
  assumes own: "lone_owner m r" and wire: "plain_wire env str vs" and v: "(name, v) \<in> set verb_names"
    and sel: "sel = build_selector str (me_dumps env) (r_prefix r @ CHR ''/'' # name) params"
    and h: "\<And>att. handle_query (me_codecs env) (me_readings env (m_tick m)) v
        (params_query env str (r_prefix r @ CHR ''/'' # name) params payload att) r = (Answered x, nudge, r')"
    and x: "\<not> is_error_payload x" "x \<in> vs"
  shows "queue_get (mesh_client env str) sel payload token m = (Inr x, m\<lparr>m_tick := Suc (m_tick m), m_roles := [r']\<rparr>)"
proof -
  have "CHR ''?'' \<notin> set (r_prefix r @ CHR ''/'' # name)" using own v by (auto simp: lone_owner_def verb_names_def)
  then have k: "q_key_expr (wire_query sel payload att) = r_prefix r @ CHR ''/'' # name" for att
    by (simp add: wire_query_def sel selector_key)
  have r: "m_roles m = [r]" "route [r] 0 (r_prefix r @ CHR ''/'' # name) = Some (0, v)"
    using own route_one [OF _ v] by (simp_all add: lone_owner_def)
  have "mesh_send env sel payload att m = (Inr (Some (me_dumps env x)), m\<lparr>m_tick := Suc (m_tick m), m_roles := [r']\<rparr>)" for att
    using h [of att] r k by (simp add: mesh_send_def Let_def params_query_def sel del: route.simps)
  then show ?thesis
    using wire x by (simp add: queue_get_def mesh_client_def act_bind_def plain_wire_def lift_res_def act_of_def act_return_def)
qed

section \<open>Any number of workers\<close>

text \<open>What clients, workers and sweepers can make of a mesh whose queues were fresh.\<close>

inductive mesh_reach :: "mesh_env \<Rightarrow> (pyval \<Rightarrow> string) \<Rightarrow> 'u mesh \<Rightarrow> bool" for env str where
  fresh: "(\<And>r. r \<in> set (m_roles m) \<Longrightarrow> fresh_store (r_store r)) \<Longrightarrow> mesh_reach env str m"
| sent: "mesh_reach env str m \<Longrightarrow> mesh_send env sel payload att m = (out, m') \<Longrightarrow> mesh_reach env str m'"
| worked: "mesh_reach env str m \<Longrightarrow> body_keeps (mesh_ok (me_readings env)) wk
    \<Longrightarrow> worker_turn (mesh_client env str) wk m = Some (out, m') \<Longrightarrow> mesh_reach env str m'"
| swept_role: "mesh_reach env str m \<Longrightarrow> i < length (m_roles m)
    \<Longrightarrow> sweep_turn (rd_t1 (me_readings env (m_tick m))) (m_roles m ! i) = (n, r')
    \<Longrightarrow> mesh_reach env str (m\<lparr>m_roles := (m_roles m)[i := r'], m_tick := Suc (m_tick m)\<rparr>)"

lemma sweep_turn_ok:
  assumes f: "fair_readings f" and ok: "owner_ok f n r" and s: "sweep_turn (rd_t1 (f n)) r = (k, r')"
  shows "owner_ok f (Suc n) r'"
proof -
  obtain T U where I: "sys_inv (T, U, r_store r)" "T \<le> rd_t1 (f n)" "U \<subseteq> rd_uuid ` f ` {..<n}"
    using ok by (auto simp: owner_ok_def)
  obtain moved s' where sw: "sweep (rd_t1 (f n)) (r_store r) = (moved, s')" by fastforce
  have "sys_inv (rd_t1 (f n), U, s')" using lease.inv_step [OF queue_step.swept [OF I(2) sw] I(1)] .
  moreover have "r_store r' = s'" using s sw by (auto simp: sweep_turn_def)
  ultimately have "owner_ok f n r'" using I(3) unfolding owner_ok_def by auto
  then show ?thesis by (rule owner_ok_later [OF f])
qed


definition tick_readings :: "nat \<Rightarrow> readings" where
  "tick_readings n = \<lparr>rd_uuid = show_nat n, rd_t1 = of_nat n, rd_t2 = of_nat n, rd_t3 = of_nat n, rd_draw = 0\<rparr>"

lemma show_nat_inj: "show_nat m = show_nat n \<Longrightarrow> m = n"
  using digits_show_nat by (metis of_nat_eq_iff option.inject)

lemma tick_readings_fair: "fair_readings tick_readings"
  by (auto simp: fair_readings_def tick_readings_def inj_def dest: show_nat_inj)

definition tick_env :: mesh_env where
  "tick_env = \<lparr>me_readings = tick_readings, me_codecs = no_codecs, me_dumps = (\<lambda>_. ''0'')\<rparr>"

definition mesh0 :: "unit mesh" where
  "mesh0 = \<lparr>m_roles = [(role_init ''i'' ''jobs'' demo0 30 5 0 600 0 False None)\<lparr>r_active := True\<rparr>],
     m_tick = 0, m_user = ()\<rparr>"


section \<open>A turn settles its job\<close>

lemma get_attempt:
  assumes "plain_wire env str vs"
  shows "as_int_param (encode_params str (me_dumps env) [(''job_id'', PStr i), (''attempt'', PInt a)]) ''attempt'' d = a"
    and "fence (encode_params str (me_dumps env) [(''job_id'', PStr i), (''attempt'', PInt a)]) = Some a"
    and "dict_get (encode_params str (me_dumps env) [(''job_id'', PStr i), (''attempt'', PInt a)]) ''job_id'' [] = i"
  using assms by (simp_all add: plain_wire_def encode_params_def as_int_param_def fence_def dict_get_def)

text \<open>The replies a worker reads in a turn on the job \<open>j\<close>.\<close>

definition claim_reply :: "job \<Rightarrow> pyval" where
  "claim_reply j = PDict [(''job_id'', PStr (j_id j)), (''attempt'', PInt (attempts j)),
     (''max_attempts'', PInt (max_attempts j)), (''last_error'', opt_str (last_error j)),
     (''data'', PStr (b64encode (j_data j))), (''wf'', opt_str (j_wf j)),
     (''correlation_id'', correlation_id j), (''traceparent'', traceparent j)]"

definition turn_replies :: "job \<Rightarrow> pyval set" where
  "turn_replies j = {claim_reply j} \<union> range (\<lambda>ok. PDict [(''ok'', PBool ok)])
     \<union> range (\<lambda>d. PDict [(''ok'', PBool (d \<noteq> None)), (''disposition'', disposition_text d)])"

lemma claim_over_mesh:
  assumes own: "lone_owner m r" and wire: "plain_wire env str (turn_replies j)" and p: "wk_prefix wk = r_prefix r"
    and c: "claim (r_lease_s r) (rd_t1 (me_readings env (m_tick m))) (r_store r) = (Inr (Some j), s1)"
  shows "queue_claim (mesh_client env str) (wk_prefix wk) token m
    = (Inr (claim_reply j),
       m\<lparr>m_tick := Suc (m_tick m), m_roles := [r\<lparr>r_store := s1\<rparr>]\<rparr>)"
  unfolding queue_claim_def
proof (rule mesh_request [OF own wire, where name = "''claim''" and v = Claim and params = "[]" and nudge = False])
  show "wk_prefix wk @ ''/claim'' = build_selector str (me_dumps env) (r_prefix r @ CHR ''/'' # ''claim'') []"
    by (simp add: p build_selector_def encode_params_def)
qed (use own c in \<open>simp_all add: verb_names_def on_claim_def authorize_def lone_owner_def Let_def
      is_error_payload_def dict_get_def ERROR_MARKER_def turn_replies_def claim_reply_def\<close>)

lemma ack_over_mesh:
  assumes own: "lone_owner m r" and wire: "plain_wire env str (turn_replies j)" and p: "wk_prefix wk = r_prefix r" and b: "b \<noteq> []"
    and a: "ack (rd_t1 (me_readings env (m_tick m))) i (Some b) (Some n) (r_store r) = (ok, s1)"
  shows "queue_ack (mesh_client env str) (wk_prefix wk) (PStr i) (Some b) (PInt n) token m
    = (Inr (PDict [(''ok'', PBool ok)]), m\<lparr>m_tick := Suc (m_tick m), m_roles := [r\<lparr>r_store := s1\<rparr>]\<rparr>)"
  unfolding queue_ack_def
proof (rule mesh_request [OF own wire, where name = "''ack''" and v = Ack and nudge = False
      and params = "[(''job_id'', PStr i), (''attempt'', PInt n)]"])
  have q: "CHR ''?'' \<notin> set (r_prefix r @ ''/ack'')" using own by (simp add: lone_owner_def)
  have d: "dict_ok [(''job_id'', PStr i), (''attempt'', PInt n)]" by simp
  show "handle_query (me_codecs env) (me_readings env (m_tick m)) Ack
      (params_query env str (r_prefix r @ CHR ''/'' # ''ack'') [(''job_id'', PStr i), (''attempt'', PInt n)] (Some b) att) r
    = (Answered (PDict [(''ok'', PBool ok)]), False, r\<lparr>r_store := s1\<rparr>)" for att
    using own a b get_attempt [OF wire] params_query_simps [OF q d, of env str "Some b" att]
    by (simp add: on_ack_def authorize_def lone_owner_def)
qed (use p in \<open>simp_all add: verb_names_def selector_of_def mesh_client_def is_error_payload_def dict_get_def ERROR_MARKER_def turn_replies_def\<close>)

lemma nack_over_mesh:
  assumes own: "lone_owner m r" and wire: "plain_wire env str (turn_replies j)" and p: "wk_prefix wk = r_prefix r"
    and e: "utf8_valid (map of_char e)" and d: "backoff (rd_draw (me_readings env (m_tick m))) n r = Inr delay"
    and a: "nack (rd_t1 (me_readings env (m_tick m))) (rd_t2 (me_readings env (m_tick m))) i
        (if e = [] then None else Some e) delay (Some n) (r_store r) = (disp, s1)"
  shows "queue_nack (mesh_client env str) (wk_prefix wk) (PStr i) e (PInt n) token m
    = (Inr (PDict [(''ok'', PBool (disp \<noteq> None)), (''disposition'', disposition_text disp)]),
       m\<lparr>m_tick := Suc (m_tick m), m_roles := [r\<lparr>r_store := s1\<rparr>]\<rparr>)"
  unfolding queue_nack_def
proof (rule mesh_request [OF own wire, where name = "''nack''" and v = Nack and nudge = False
      and params = "[(''job_id'', PStr i), (''attempt'', PInt n)]"])
  have q: "CHR ''?'' \<notin> set (r_prefix r @ ''/nack'')" using own by (simp add: lone_owner_def)
  have ok: "dict_ok [(''job_id'', PStr i), (''attempt'', PInt n)]" by simp
  show "handle_query (me_codecs env) (me_readings env (m_tick m)) Nack
      (params_query env str (r_prefix r @ CHR ''/'' # ''nack'') [(''job_id'', PStr i), (''attempt'', PInt n)] (Some (encode_utf8 e)) att) r
    = (Answered (PDict [(''ok'', PBool (disp \<noteq> None)), (''disposition'', disposition_text disp)]), False, r\<lparr>r_store := s1\<rparr>)" for att
    using own a d e get_attempt [OF wire] params_query_simps [OF q ok, of env str "Some (encode_utf8 e)" att]
    by (simp add: on_nack_def authorize_def lone_owner_def)
qed (use p in \<open>simp_all add: verb_names_def selector_of_def mesh_client_def is_error_payload_def dict_get_def ERROR_MARKER_def turn_replies_def\<close>)

lemma claimed_job:
  assumes "sys_inv (T, U, s)" "T \<le> now" "claim lease_s now s = (Inr (Some j), s')"
  shows "map_of (jobs s') (j_id j) = Some j \<and> j_state j = LEASED"
proof -
  have "store_inv T s" "ready_inv U s" using assms(1) by simp_all
  then obtain q where "j = leased_job lease_s now q" "map_of (jobs s') = (map_of (jobs (claim_prep now s)))(j_id j \<mapsto> j)"
    using claim_Some [OF _ _ assms(2,3)] by metis
  then show ?thesis by (simp add: leased_job_def)
qed

lemma backoff_returns: "n \<le> 1024 \<Longrightarrow> \<exists>d. backoff draw n r = Inr d"
  unfolding backoff_def Let_def by (cases "max 0 (n - 1) > 1023") (simp_all split: if_split)

lemma claim_reply_simps:
  "truthy (claim_reply j)" "get_key (claim_reply j) ''empty'' PNone = Inr PNone"
  "item (claim_reply j) ''job_id'' = Inr (PStr (j_id j))"
  "item (claim_reply j) ''data'' = Inr (PStr (b64encode (j_data j)))"
  "(case claim_reply j of PDict d \<Rightarrow> dict_get d ''attempt'' (PInt 1) | _ \<Rightarrow> PInt 1) = PInt (attempts j)"
  "(case claim_reply j of PDict d \<Rightarrow> dict_get d ''wf'' PNone | _ \<Rightarrow> PNone) = opt_str (j_wf j)"
  by (simp_all add: claim_reply_def get_key_def item_def dict_get_def)

lemma turn_claims:
  assumes own: "lone_owner m r" and wire: "plain_wire env str (turn_replies j)" and p: "wk_prefix wk = r_prefix r"
    and c: "claim (r_lease_s r) (rd_t1 (me_readings env (m_tick m))) (r_store r) = (Inr (Some j), s1)"
    and v: "deser (wk_serializer wk) (j_data j) = Inr v"
    and b: "run_job wk v (delivery_context (wk_prefix wk) (PStr (j_id j)) (claim_reply j))
      (m\<lparr>m_tick := Suc (m_tick m), m_roles := [r\<lparr>r_store := s1\<rparr>]\<rparr>) = Some (out, m2)"
  shows "worker_turn (mesh_client env str) wk m = Some
    (case out of Inl e \<Rightarrow> fail_job (mesh_client env str) wk (PStr (j_id j)) (PInt (attempts j)) e m2
     | Inr res \<Rightarrow> caught Job_left (finish_job (mesh_client env str) wk (PStr (j_id j)) (PInt (attempts j))
         (opt_str (j_wf j)) res m2) Job_finished)"
proof -
  have "res_bind (res_bind (item (claim_reply j) ''data'') decode_b64_value) (deser (wk_serializer wk)) = Inr v"
    using v by (simp add: claim_reply_simps decode_b64_value_def lift_res_def)
  then have "work_on (mesh_client env str) wk (claim_reply j) (PStr (j_id j))
      (m\<lparr>m_tick := Suc (m_tick m), m_roles := [r\<lparr>r_store := s1\<rparr>]\<rparr>) = Some
    (case out of Inl e \<Rightarrow> fail_job (mesh_client env str) wk (PStr (j_id j)) (PInt (attempts j)) e m2
     | Inr res \<Rightarrow> caught Job_left (finish_job (mesh_client env str) wk (PStr (j_id j)) (PInt (attempts j))
         (opt_str (j_wf j)) res m2) Job_finished)"
    using b by (simp only: work_on_def Let_def claim_reply_simps sum.case bind.bind_lunit prod.case)
  then show ?thesis
    unfolding worker_turn_def claim_over_mesh [OF own wire p c, of "wk_token wk"]
    by (simp only: prod.case sum.case claim_reply_simps not_True_eq_False if_False truthy.simps)
qed

text \<open>C16: a worker's turn settles the job it was handed, over the wire: a body that returns leaves the
  job done, with the serialized result kept where results are kept, and a body that raises leaves it
  ready for another attempt or, on its last one, dead, with the error recorded.\<close>

theorem turn_settles_its_job:
  assumes own: "lone_owner m r" and wire: "plain_wire env str (turn_replies j)" and p: "wk_prefix wk = r_prefix r"
    and inv: "sys_inv (T, U, r_store r)" "T \<le> rd_t1 (me_readings env (m_tick m))"
    and c: "claim (r_lease_s r) (rd_t1 (me_readings env (m_tick m))) (r_store r) = (Inr (Some j), s1)"
    and plain: "j_wf j = None" and v: "deser (wk_serializer wk) (j_data j) = Inr v"
    and b: "run_job wk v (delivery_context (wk_prefix wk) (PStr (j_id j)) (claim_reply j))
      (m\<lparr>m_tick := Suc (m_tick m), m_roles := [r\<lparr>r_store := s1\<rparr>]\<rparr>) = Some (out, m2)"
    and m2: "m_roles m2 = [r\<lparr>r_store := s1\<rparr>]"
  shows "case out of
      Inr res \<Rightarrow> \<forall>bs. ser (wk_serializer wk) res = Inr bs \<and> bs \<noteq> [] \<longrightarrow>
        (\<exists>m' s2. worker_turn (mesh_client env str) wk m = Some (Inr Job_finished, m')
          \<and> m_roles m' = [r\<lparr>r_store := s2\<rparr>]
          \<and> (if keep_results s1
             then \<exists>t. map_of (jobs s2) (j_id j) = Some (j\<lparr>j_state := DONE, j_result := Some (b64encode bs),
                    completed_at := t, lease_until := 0\<rparr>)
             else map_of (jobs s2) (j_id j) = None))
    | Inl e \<Rightarrow> is_exception e \<and> utf8_valid (map of_char (x_str e)) \<and> attempts j \<le> 1024 \<longrightarrow>
        (\<exists>m' s2 q. worker_turn (mesh_client env str) wk m = Some (Inr Job_failed, m')
          \<and> m_roles m' = [r\<lparr>r_store := s2\<rparr>] \<and> map_of (jobs s2) (j_id j) = Some q
          \<and> j_state q = (if attempts j \<ge> max_attempts j then DEAD else READY) \<and> attempts q = attempts j
          \<and> last_error q = (if x_str e = [] then None else Some (x_str e)))"
proof -
  note turn = turn_claims [OF own wire p c v b]
  have job: "map_of (jobs s1) (j_id j) = Some j" "j_state j = LEASED"
    using claimed_job [OF inv c] by simp_all
  have own2: "lone_owner m2 (r\<lparr>r_store := s1\<rparr>)" using own m2 by (simp add: lone_owner_def)
  have p2: "wk_prefix wk = r_prefix (r\<lparr>r_store := s1\<rparr>)" using p by simp
  show ?thesis
  proof (cases out)
    case (Inr res)
    have "\<exists>m' s2. worker_turn (mesh_client env str) wk m = Some (Inr Job_finished, m')
          \<and> m_roles m' = [r\<lparr>r_store := s2\<rparr>]
          \<and> (if keep_results s1
             then \<exists>t. map_of (jobs s2) (j_id j) = Some (j\<lparr>j_state := DONE, j_result := Some (b64encode bs),
                    completed_at := t, lease_until := 0\<rparr>)
             else map_of (jobs s2) (j_id j) = None)"
      if bs: "ser (wk_serializer wk) res = Inr bs" "bs \<noteq> []" for bs
    proof -
      let ?t = "rd_t1 (me_readings env (m_tick m2))"
      obtain ok s2 where a: "ack ?t (j_id j) (Some bs) (Some (attempts j)) s1 = (ok, s2)" by fastforce
      have lease: "holds_lease j (Some (attempts j))" using job by (simp add: holds_lease_def)
      have s2: "if keep_results s1
             then \<exists>t. map_of (jobs s2) (j_id j) = Some (j\<lparr>j_state := DONE, j_result := Some (b64encode bs),
                    completed_at := t, lease_until := 0\<rparr>)
             else map_of (jobs s2) (j_id j) = None"
        using a job lease by (cases "keep_results s1")
        (auto simp: ack_def forget_def Let_def update_conv delete_conv intro: exI [of _ ?t])
      have "finish_job (mesh_client env str) wk (PStr (j_id j)) (PInt (attempts j)) PNone res m2
        = (Inr (), m2\<lparr>m_tick := Suc (m_tick m2), m_roles := [r\<lparr>r_store := s2\<rparr>]\<rparr>)"
        using ack_over_mesh [OF own2 wire p2 bs(2), of "j_id j" "attempts j" ok s2 "wk_token wk"] a bs(1)
        by (simp add: finish_job_def advance_workflow_def act_bind_def act_of_def act_return_def)
      then have "worker_turn (mesh_client env str) wk m
        = Some (Inr Job_finished, m2\<lparr>m_tick := Suc (m_tick m2), m_roles := [r\<lparr>r_store := s2\<rparr>]\<rparr>)"
        using turn Inr plain by (simp add: caught_def)
      then show ?thesis using s2 by (intro exI conjI) (assumption | simp)+
    qed
    then show ?thesis using Inr by simp
  next
    case (Inl e)
    have "\<exists>m' s2 q. worker_turn (mesh_client env str) wk m = Some (Inr Job_failed, m')
          \<and> m_roles m' = [r\<lparr>r_store := s2\<rparr>] \<and> map_of (jobs s2) (j_id j) = Some q
          \<and> j_state q = (if attempts j \<ge> max_attempts j then DEAD else READY) \<and> attempts q = attempts j
          \<and> last_error q = (if x_str e = [] then None else Some (x_str e))"
      if e: "is_exception e" "utf8_valid (map of_char (x_str e))" "attempts j \<le> 1024"
    proof -
      let ?rd = "me_readings env (m_tick m2)" and ?err = "if x_str e = [] then None else Some (x_str e)"
      obtain delay where d: "backoff (rd_draw ?rd) (attempts j) (r\<lparr>r_store := s1\<rparr>) = Inr delay"
        using backoff_returns [OF e(3)] by blast
      obtain disp s2 where a: "nack (rd_t1 ?rd) (rd_t2 ?rd) (j_id j) ?err delay (Some (attempts j)) s1 = (disp, s2)" by fastforce
      have lease: "holds_lease j (Some (attempts j))" using job by (simp add: holds_lease_def)
      have s2: "\<exists>q. map_of (jobs s2) (j_id j) = Some q
          \<and> j_state q = (if attempts j \<ge> max_attempts j then DEAD else READY) \<and> attempts q = attempts j
          \<and> last_error q = ?err"
        using a job lease by (auto simp: nack_def Let_def split: if_splits)
      have "fail_job (mesh_client env str) wk (PStr (j_id j)) (PInt (attempts j)) e m2
        = (Inr Job_failed, m2\<lparr>m_tick := Suc (m_tick m2), m_roles := [r\<lparr>r_store := s2\<rparr>]\<rparr>)"
        using nack_over_mesh [OF own2 wire p2 e(2) d, of "j_id j" disp s2 "wk_token wk"] a e(1)
        by (simp add: fail_job_def caught_def)
      then have "worker_turn (mesh_client env str) wk m
        = Some (Inr Job_failed, m2\<lparr>m_tick := Suc (m_tick m2), m_roles := [r\<lparr>r_store := s2\<rparr>]\<rparr>)"
        using turn Inl by simp
      moreover obtain q where "map_of (jobs s2) (j_id j) = Some q
          \<and> j_state q = (if attempts j \<ge> max_attempts j then DEAD else READY) \<and> attempts q = attempts j
          \<and> last_error q = ?err" using s2 by blast
      ultimately show ?thesis by (intro exI conjI) (assumption | simp)+
    qed
    then show ?thesis using Inl by simp
  qed
qed

definition turn_role :: role where
  "turn_role = (role_init ''i'' ''jobs'' demo1 30 5 0 600 0 False None)\<lparr>r_active := True\<rparr>"

definition turn_mesh :: "unit mesh" where
  "turn_mesh = \<lparr>m_roles = [turn_role], m_tick = 1, m_user = ()\<rparr>"

definition three :: serializer where
  "three = \<lparr>ser = (\<lambda>_. Inr [3]), deser = (\<lambda>_. Inr (PInt 3))\<rparr>"

definition turn_worker :: "unit mesh worker" where
  "turn_worker = \<lparr>wk_name = ''w'', wk_sig = [], wk_func = (\<lambda>_ _. act_return (PInt 4)),
     wk_callables = \<lparr>f_sig = (\<lambda>_. []), f_call = (\<lambda>_ _. act_return PNone), f_yields = (\<lambda>_. False),
       f_exit = (\<lambda>_ _ m. (None, m))\<rparr>,
     wk_overrides = [], wk_prefix = ''jobs'', wk_concurrency = 1, wk_poll_s = 1, wk_serializer = three,
     wk_token = None\<rparr>"

text \<open>Texts for the replies of the turn, and the values they read back as.\<close>

fun turn_text :: "pyval \<Rightarrow> string" where
  "turn_text (PDict [(k, PBool b)]) = (if b then ''t'' else ''f'')"
| "turn_text (PDict [(k, PBool b), (k', PStr d)]) = (if b then CHR ''T'' else CHR ''F'') # d"
| "turn_text (PDict [(k, PBool b), (k', v)]) = (if b then ''Tn'' else ''Fn'')"
| "turn_text v = ''c''"

definition turn_value :: "string \<Rightarrow> pyval res" where
  "turn_value t =
     (if t = ''c'' then Inr (claim_reply (leased_job 30 1 demo_job))
      else if t = ''t'' then Inr (PDict [(''ok'', PBool True)])
      else if t = ''f'' then Inr (PDict [(''ok'', PBool False)])
      else Inr (PDict [(''ok'', PBool (hd t = CHR ''T'')),
        (''disposition'', if tl t = ''n'' then PNone else PStr (tl t))]))"

definition turn_env :: mesh_env where
  "turn_env = \<lparr>me_readings = tick_readings,
     me_codecs = \<lparr>json_loads = turn_value, float_of = (\<lambda>_. None)\<rparr>, me_dumps = turn_text\<rparr>"

lemma turn_wire: "plain_wire turn_env (\<lambda>v. case v of PInt i \<Rightarrow> show_int i | _ \<Rightarrow> []) (turn_replies (leased_job 30 1 demo_job))"
proof -
  have "json_loads (me_codecs turn_env) (me_dumps turn_env v) = Inr v \<and> utf8_valid (map of_char (me_dumps turn_env v))"
    if v: "v \<in> turn_replies (leased_job 30 1 demo_job)" for v
  proof -
    consider "v = claim_reply (leased_job 30 1 demo_job)" | b where "v = PDict [(''ok'', PBool b)]"
      | d where "v = PDict [(''ok'', PBool (d \<noteq> None)), (''disposition'', disposition_text d)]"
      using v unfolding turn_replies_def by blast
    then show ?thesis
    proof cases
      case 1
      have "turn_text (claim_reply (leased_job 30 1 demo_job)) = ''c''" by code_simp
      then show ?thesis using 1 by (simp add: turn_env_def turn_value_def)
    next
      case 2
      then show ?thesis by (cases b) (simp_all add: turn_env_def turn_value_def)
    next
      case 3
      then show ?thesis
        by (cases d; cases "the d") (simp_all add: turn_env_def turn_value_def disposition_text_def)
    qed
  qed
  then show ?thesis by (simp add: plain_wire_def)
qed

lemma turn_settles_its_job_witness:
  "\<exists>m s. worker_turn (mesh_client turn_env (\<lambda>v. case v of PInt i \<Rightarrow> show_int i | _ \<Rightarrow> [])) turn_worker turn_mesh
       = Some (Inr Job_finished, m) \<and> m_roles m = [turn_role\<lparr>r_store := s\<rparr>] \<and> map_of (jobs s) ''a'' = None"
proof -
  let ?m2 = "turn_mesh\<lparr>m_tick := Suc (m_tick turn_mesh), m_roles := [turn_role\<lparr>r_store := demo2\<rparr>]\<rparr>"
  have inv: "sys_inv (0, {''a''}, demo1)"
    using lease.run_inv [OF demo_run1] demo_fresh fresh_store_inv by blast
  have k: "\<not> keep_results demo2" by code_simp
  have "CHR ''?'' \<notin> set (r_prefix turn_role)" by code_simp
  then have o: "lone_owner turn_mesh turn_role"
    by (simp add: lone_owner_def turn_mesh_def turn_role_def role_init_def)
  have t: "rd_t1 (me_readings turn_env (m_tick turn_mesh)) = 1"
    by (simp add: turn_env_def turn_mesh_def tick_readings_def)
  have r: "r_store turn_role = demo1" "r_lease_s turn_role = 30"
    by (simp_all add: turn_role_def role_init_def)
  have b: "run_job turn_worker (PInt 3) x ?m2 = Some (Inr (PInt 4), ?m2)" for x
    by (simp add: run_job_def turn_worker_def wants_ctx_def has_dependencies_def act_return_def extract_depends_def)
  have w: "wk_prefix turn_worker = ''jobs''" "wk_serializer turn_worker = three" "j_wf (leased_job 30 1 demo_job) = None"
    by (simp_all add: turn_worker_def leased_job_def demo_job_def added_job_def)
  have p: "wk_prefix turn_worker = r_prefix turn_role" by code_simp
  show ?thesis
    using turn_settles_its_job [OF o turn_wire p, where v = "PInt 3" and out = "Inr (PInt 4)"
        and ?m2.0 = ?m2 and ?s1.0 = demo2 and T = 0 and U = "{''a''}"] inv r t k b demo_claim w
    by (simp add: three_def)
qed

section \<open>Chains carry on\<close>

text \<open>A worker that finishes a job whose continuation was written by \<open>chain\<close> puts the result
  on the next queue of the chain, and the rest of the chain goes with it as that job's continuation.\<close>

theorem chain_carries_on:
  assumes plan: "plan = PDict [(''chain'', PList (PDict [(''prefix'', PStr p)] # steps))]"
    and wire: "cl_loads c (cl_dumps c plan) = Inr plan" "utf8_valid (map of_char (cl_dumps c plan))"
      "cl_dumps c plan \<noteq> []"
    and follow: "chain_wf (cl_dumps c) (PDict [(''prefix'', PStr p)] # steps) = Some follow"
  shows "advance_workflow c wk (PStr follow) bs
    = act_bind (queue_enqueue c p bs 0 0 (chain_wf (cl_dumps c) steps) (wk_token wk)) (\<lambda>_. act_return ())"
proof -
  have f: "follow = encode_wf (cl_dumps c) plan" using follow plan by (simp add: chain_wf_def)
  have d: "decode_wf (cl_loads c) follow = Inr plan"
    using wire by (simp add: f decode_wf_def encode_wf_def lift_res_def)
  have t: "truthy (PStr follow)"
    using wire(3) by (cases "encode_utf8 (cl_dumps c plan)" rule: b64encode.cases) (simp_all add: f encode_wf_def encode_utf8_def)
  show ?thesis
    using t d by (simp add: advance_workflow_def advance_chain_def plan get_key_def dict_get_def first_item_def
        rest_items_def item_def chain_wf_def act_of_def)
qed

definition chain_client :: "unit mesh client" where
  "chain_client = \<lparr>cl_session = None, cl_str = (\<lambda>_. []), cl_dumps = (\<lambda>_. ''p''),
     cl_loads = (\<lambda>_. Inr (PDict [(''chain'', PList [PDict [(''prefix'', PStr ''ship'')]])])), cl_context = None\<rparr>"

lemma chain_carries_on_witness:
  "advance_workflow chain_client turn_worker (PStr (b64encode (encode_utf8 ''p''))) [7]
    = act_bind (queue_enqueue chain_client ''ship'' [7] 0 0 None None) (\<lambda>_. act_return ())"
proof -
  have u: "utf8_valid (map of_char ''p'')" by code_simp
  show ?thesis
    using chain_carries_on [of _ "''ship''" "[]" chain_client "b64encode (encode_utf8 ''p'')" turn_worker "[7]"] u
    by (simp add: chain_client_def chain_wf_def encode_wf_def turn_worker_def)
qed

end
