(* ===== verification/Naming.thy ===== *)
theory Naming
  imports PyText Prelude
begin

text \<open>
  Names made from free text (\<open>discovery/naming.py\<close>): the tool name a model sees for a key
  expression, one chunk of a key expression made from a service name, and the prefix a router gives
  its endpoints (\<open>routing.py\<close>). Strings are UTF-8: one character outside ASCII is replaced once,
  by its first byte.
\<close>

definition word_char :: "char \<Rightarrow> bool" where
  "word_char c \<longleftrightarrow> (let n = (of_char c :: nat) in
     (48 \<le> n \<and> n \<le> 57) \<or> (65 \<le> n \<and> n \<le> 90) \<or> (97 \<le> n \<and> n \<le> 122) \<or> n = 95)"

definition name_char :: "char \<Rightarrow> bool" where
  "name_char c \<longleftrightarrow> word_char c \<or> c = CHR ''-''"

definition chunk_char :: "char \<Rightarrow> bool" where
  "chunk_char c \<longleftrightarrow> name_char c \<or> c = CHR ''.''"

text \<open>\<open>re.sub\<close> of every character outside a class by a dash.\<close>

definition dashed :: "(char \<Rightarrow> bool) \<Rightarrow> string \<Rightarrow> string" where
  "dashed safe s =
     List.map_filter (\<lambda>c. if safe c then Some c else if cont (of_char c) then None else Some (CHR ''-'')) s"

definition tool_name :: "string \<Rightarrow> string" where
  "tool_name prefix = dashed name_char prefix"

definition key_chunk :: "string \<Rightarrow> string \<Rightarrow> string" where
  "key_chunk dflt s =
     (let chunk = rstrip_char (CHR ''-'') (lstrip_char (CHR ''-'') (dashed chunk_char s))
      in if chunk = [] then dflt else chunk)"

text \<open>The prefix a router with the given prefix registers an endpoint under.\<close>

definition apply_prefix :: "string \<Rightarrow> string \<Rightarrow> string" where
  "apply_prefix router prefix =
     (if router \<noteq> []
      then (let base = rstrip_char (CHR ''/'') router; sub = lstrip_char (CHR ''/'') prefix
            in if base \<noteq> [] \<and> sub \<noteq> [] then base @ ''/'' @ sub
               else if base \<noteq> [] then base else sub)
      else prefix)"

section \<open>Lemmas\<close>

lemma dash_safe [simp]: "name_char (CHR ''-'')" "chunk_char (CHR ''-'')"
  by (simp_all add: name_char_def chunk_char_def)

lemma set_dashed: "safe (CHR ''-'') \<Longrightarrow> c \<in> set (dashed safe s) \<Longrightarrow> safe c"
  by (induction s) (auto simp: dashed_def List.map_filter_simps split: if_splits)

lemma dashed_id: "(\<And>c. c \<in> set s \<Longrightarrow> safe c) \<Longrightarrow> dashed safe s = s"
  by (induction s) (auto simp: dashed_def List.map_filter_simps)

lemma tool_name_safe: "c \<in> set (tool_name p) \<Longrightarrow> name_char c"
  unfolding tool_name_def by (rule set_dashed) simp_all

lemma tool_name_idem [simp]: "tool_name (tool_name p) = tool_name p"
  unfolding tool_name_def by (rule dashed_id) (rule set_dashed, simp_all)

lemma set_strip_char: "c \<in> set (rstrip_char d (lstrip_char d s)) \<Longrightarrow> c \<in> set s"
  by (auto simp: rstrip_char_def lstrip_char_def dest!: set_dropWhileD)

lemma key_chunk_safe:
  assumes "\<And>c. c \<in> set dflt \<Longrightarrow> chunk_char c" "dflt \<noteq> []"
  shows "key_chunk dflt s \<noteq> [] \<and> (\<forall>c\<in>set (key_chunk dflt s). chunk_char c)"
  using assms by (auto simp: key_chunk_def Let_def dest!: set_strip_char intro: set_dashed [of chunk_char])

end
