(* ===== verification/Agent.thy ===== *)
theory Agent
  imports Naming Effects
begin

text \<open>
  The agent loop (\<open>agent/loop.py\<close>, \<open>agent/tools.py\<close>): a model is asked, the tools it calls are run
  on the mesh, their results go back to it, until it answers in text. The model, the tools'
  responders, the human gate and the channel are arguments: computations that may raise, and that may
  not return.
\<close>

section \<open>Computations that may not return\<close>

type_synonym ('w, 'a) io = "'w \<Rightarrow> ((exc + 'a) \<times> 'w) option"

definition io_return :: "'a \<Rightarrow> ('w, 'a) io" where
  "io_return x w = Some (Inr x, w)"

definition io_raise :: "exc \<Rightarrow> ('w, 'a) io" where
  "io_raise e w = Some (Inl e, w)"

definition io_bind :: "('w, 'a) io \<Rightarrow> ('a \<Rightarrow> ('w, 'b) io) \<Rightarrow> ('w, 'b) io" where
  "io_bind m f w =
     (case m w of
        None \<Rightarrow> None
      | Some (Inl e, w') \<Rightarrow> Some (Inl e, w')
      | Some (Inr x, w') \<Rightarrow> f x w')"

text \<open>The log of the conversation, changed in place, beside the world.\<close>

type_synonym message = "(string, pyval) dict"
type_synonym 'w chat = "message list \<times> 'w"

definition outside :: "('w, 'a) io \<Rightarrow> ('w chat, 'a) io" where
  "outside m = (\<lambda>(ms, w). case m w of None \<Rightarrow> None | Some (out, w') \<Rightarrow> Some (out, ms, w'))"

definition append_message :: "message \<Rightarrow> ('w chat, unit) io" where
  "append_message m = (\<lambda>(ms, w). Some (Inr (), ms @ [m], w))"

section \<open>Models, tools, events\<close>

record tool_call =
  tc_id :: string
  tc_name :: string
  tc_arguments :: "(string, pyval) dict"

record model_reply =
  mr_content :: "string option"
  mr_calls :: "tool_call list"
  mr_model :: "string option"
  mr_finish_reason :: "string option"
  mr_usage :: "(string, pyval) dict option"

definition plain_reply :: "string option \<Rightarrow> tool_call list \<Rightarrow> model_reply" where
  "plain_reply content calls =
     \<lparr>mr_content = content, mr_calls = calls, mr_model = None, mr_finish_reason = None, mr_usage = None\<rparr>"

type_synonym 'w model = "message list \<Rightarrow> pyval list option \<Rightarrow> ('w, model_reply) io"

text \<open>
  A tool is run by its own \<open>invoke\<close> or by the app's \<open>query_once\<close>, which gets the prefix, the token,
  the timeout and the arguments.
\<close>

record 'w mesh_tool =
  mt_prefix :: string
  mt_name :: string
  mt_description :: string
  mt_parameters :: pyval
  mt_approval :: pyval
  mt_invoke :: "((string, pyval) dict \<Rightarrow> ('w, pyval) io) option"
  mt_app :: "(string \<Rightarrow> string option \<Rightarrow> time \<Rightarrow> (string, pyval) dict \<Rightarrow> ('w, pyval) io) option"

definition any_object :: pyval where
  "any_object = PDict [(''type'', PStr ''object''), (''properties'', PDict [])]"

definition mesh_tool_init ::
  "string \<Rightarrow> (string \<Rightarrow> string option \<Rightarrow> time \<Rightarrow> (string, pyval) dict \<Rightarrow> ('w, pyval) io) option \<Rightarrow> string option
   \<Rightarrow> string \<Rightarrow> pyval \<Rightarrow> ((string, pyval) dict \<Rightarrow> ('w, pyval) io) option \<Rightarrow> pyval \<Rightarrow> 'w mesh_tool res" where
  "mesh_tool_init prefix app name description parameters invoke approval =
     (if app = None \<and> invoke = None
      then Inl (ValueError ''MeshTool needs an app (for query_once) or an invoke callable'')
      else
        (let n = (case name of Some m \<Rightarrow> if m = [] then tool_name prefix else m | None \<Rightarrow> tool_name prefix)
         in Inr \<lparr>mt_prefix = prefix, mt_name = n,
              mt_description = (if description = [] then n else description),
              mt_parameters = (if truthy parameters then parameters else any_object),
              mt_approval = approval, mt_invoke = invoke, mt_app = app\<rparr>))"

definition requires_approval :: "'w mesh_tool \<Rightarrow> bool" where
  "requires_approval t \<longleftrightarrow> truthy (mt_approval t)"

definition approval_reason :: "'w mesh_tool \<Rightarrow> string option" where
  "approval_reason t = (case mt_approval t of PStr s \<Rightarrow> Some s | _ \<Rightarrow> None)"

definition openai_schema :: "'w mesh_tool \<Rightarrow> pyval" where
  "openai_schema t =
     PDict [(''type'', PStr ''function''), (''function'', PDict [(''name'', PStr (mt_name t)),
       (''description'', PStr (mt_description t)), (''parameters'', mt_parameters t)])]"

text \<open>Arguments of the names \<open>query_once\<close> is already given are a \<open>TypeError\<close>.\<close>

definition call_tool :: "'w mesh_tool \<Rightarrow> (string, pyval) dict \<Rightarrow> string option \<Rightarrow> time \<Rightarrow> ('w, pyval) io" where
  "call_tool t args token timeout =
     (case mt_invoke t of
        Some f \<Rightarrow> f args
      | None \<Rightarrow>
          (case mt_app t of
             None \<Rightarrow> io_raise (builtin_exc [''AssertionError''] [])
           | Some query \<Rightarrow>
               if dkeys args \<inter> {''self'', ''key_expr'', ''token'', ''timeout_s''} \<noteq> {}
               then io_raise (type_error ''got multiple values for argument'')
               else query (mt_prefix t) token timeout args))"

text \<open>\<open>json.dumps\<close>, \<open>str\<close> and \<open>repr\<close>.\<close>

record texts =
  tx_dumps :: "pyval \<Rightarrow> string"
  tx_str :: "pyval \<Rightarrow> string"
  tx_repr :: "string \<Rightarrow> string"

definition str_of :: "texts \<Rightarrow> pyval \<Rightarrow> string" where
  "str_of tx v = (case v of PStr s \<Rightarrow> s | _ \<Rightarrow> tx_str tx v)"

definition format_tool_result :: "texts \<Rightarrow> pyval \<Rightarrow> string" where
  "format_tool_result tx v = (case v of PStr s \<Rightarrow> s | _ \<Rightarrow> tx_dumps tx v)"

definition format_tool_error :: "texts \<Rightarrow> exc \<Rightarrow> string" where
  "format_tool_error tx e =
     (case x_istos e of Some i \<Rightarrow> str_of tx (e_code i) @ '': '' @ str_of tx (e_message i) | None \<Rightarrow> x_str e)"

record agent_event =
  ev_kind :: string
  ev_content :: pyval
  ev_name :: "string option"
  ev_arguments :: "(string, pyval) dict option"
  ev_call :: "string option"
  ev_error :: bool
  ev_approval :: "string option"

definition event :: "string \<Rightarrow> agent_event" where
  "event kind = \<lparr>ev_kind = kind, ev_content = PNone, ev_name = None, ev_arguments = None, ev_call = None,
     ev_error = False, ev_approval = None\<rparr>"

section \<open>Messages\<close>

text \<open>Strings in the usual shapes of a channel message.\<close>

fun text_at :: "(string, pyval) dict \<Rightarrow> string list \<Rightarrow> string option" where
  "text_at d [] = None"
| "text_at d (k # ks) =
     (case dict_get d k PNone of
        PStr s \<Rightarrow> if s \<noteq> [] then Some s else text_at d ks
      | _ \<Rightarrow> text_at d ks)"

definition user_text :: "texts \<Rightarrow> pyval \<Rightarrow> string" where
  "user_text tx v =
     (case v of
        PStr s \<Rightarrow> s
      | PDict d \<Rightarrow>
          (case text_at d [''text'', ''content'', ''message'', ''prompt''] of
             Some s \<Rightarrow> s | None \<Rightarrow> tx_dumps tx v)
      | _ \<Rightarrow> tx_str tx v)"

definition chat_message :: "string \<Rightarrow> pyval \<Rightarrow> message" where
  "chat_message role content = [(''role'', PStr role), (''content'', content)]"

definition call_entry :: "pyval \<Rightarrow> pyval \<Rightarrow> string \<Rightarrow> pyval" where
  "call_entry i name args =
     PDict [(''id'', i), (''type'', PStr ''function''),
       (''function'', PDict [(''name'', name), (''arguments'', PStr args)])]"

definition tool_message :: "string \<Rightarrow> string \<Rightarrow> message" where
  "tool_message i content =
     [(''role'', PStr ''tool''), (''tool_call_id'', PStr i), (''content'', PStr content)]"

definition assistant_message :: "texts \<Rightarrow> model_reply \<Rightarrow> message" where
  "assistant_message tx r =
     chat_message ''assistant'' (opt_str (mr_content r))
     @ (if mr_calls r = [] then []
        else [(''tool_calls'', PList (map (\<lambda>c.
          call_entry (PStr (tc_id c)) (PStr (tc_name c)) (tx_dumps tx (PDict (tc_arguments c)))) (mr_calls r)))])"

definition tool_call_message :: "texts \<Rightarrow> (string, pyval) dict \<Rightarrow> message" where
  "tool_call_message tx frame =
     (let args = dict_get frame ''arguments'' PNone
      in chat_message ''assistant'' PNone
         @ [(''tool_calls'', PList [call_entry (dict_get frame ''tool_call_id'' PNone) (dict_get frame ''name'' PNone)
              (tx_dumps tx (if truthy args then args else PDict []))])])"

text \<open>A frame of the log; one that is not a dictionary has no \<open>get\<close>. Frames that answer a tool call are
  found by its id, the last one winning; an id that cannot be hashed is a \<open>TypeError\<close>.\<close>

fun results_by_id :: "(string, pyval) dict list \<Rightarrow> (string, (string, pyval) dict) dict \<Rightarrow> exc + (string, (string, pyval) dict) dict" where
  "results_by_id [] acc = Inr acc"
| "results_by_id (turn # ts) acc =
     (case (dict_get turn ''dir'' PNone, dict_get turn ''data'' PNone) of
        (PStr d, PDict data) \<Rightarrow>
          if d = ''out'' \<and> dict_get data ''kind'' PNone = PStr ''tool_result''
          then (case dict_get data ''tool_call_id'' PNone of
                  PStr i \<Rightarrow> results_by_id ts (AList.update i data acc)
                | PList _ \<Rightarrow> Inl (type_error ''unhashable type'')
                | PDict _ \<Rightarrow> Inl (type_error ''unhashable type'')
                | _ \<Rightarrow> results_by_id ts acc)
          else results_by_id ts acc
      | _ \<Rightarrow> results_by_id ts acc)"

definition turn_messages :: "texts \<Rightarrow> bool \<Rightarrow> (string, (string, pyval) dict) dict \<Rightarrow> (string, pyval) dict \<Rightarrow> message list" where
  "turn_messages tx include_tools results turn =
     (let data = dict_get turn ''data'' PNone; direction = dict_get turn ''dir'' PNone
      in if direction = PStr ''in'' then [chat_message ''user'' (PStr (user_text tx data))]
         else if direction \<noteq> PStr ''out'' then []
         else
           (case data of
              PDict d \<Rightarrow>
                (let kind = dict_get d ''kind'' PNone
                 in if kind = PStr ''tool_call''
                    then if \<not> include_tools then []
                      else (case dict_get d ''tool_call_id'' PNone of
                              PStr i \<Rightarrow>
                                (case map_of results i of
                                   None \<Rightarrow> []
                                 | Some result \<Rightarrow>
                                     (let c = dict_get result ''content'' PNone
                                      in [tool_call_message tx d,
                                          tool_message i (if truthy c then str_of tx c else [])]))
                            | _ \<Rightarrow> [])
                    else if kind \<in> {PStr ''tool_result'', PStr ''done'', PStr ''handoff''} then []
                    else (let t = (if kind = PStr ''message'' then dict_get d ''content'' PNone
                                   else PStr (user_text tx data))
                          in if truthy t then [chat_message ''assistant'' (PStr (str_of tx t))] else []))
            | _ \<Rightarrow>
                if user_text tx data \<noteq> [] then [chat_message ''assistant'' (PStr (user_text tx data))] else []))"

definition history_to_messages ::
  "texts \<Rightarrow> (string, pyval) dict list \<Rightarrow> string option \<Rightarrow> bool \<Rightarrow> exc + message list" where
  "history_to_messages tx hist system include_tools =
     res_bind (if include_tools then results_by_id hist [] else Inr []) (\<lambda>results.
       Inr ((case system of Some s \<Rightarrow> if s = [] then [] else [chat_message ''system'' (PStr s)] | None \<Rightarrow> [])
            @ concat (map (turn_messages tx include_tools results) hist)))"

definition role_is :: "string \<Rightarrow> message \<Rightarrow> bool" where
  "role_is r m \<longleftrightarrow> dict_get m ''role'' PNone = PStr r"

definition trim_messages :: "int \<Rightarrow> message list \<Rightarrow> exc + message list" where
  "trim_messages max_messages ms =
     (if max_messages < 1 then Inl (value_error ''max_messages must be >= 1'')
      else
        (let system = takeWhile (role_is ''system'') ms; body = dropWhile (role_is ''system'') ms
         in if int (length body) \<le> max_messages then Inr ms
            else Inr (system @ dropWhile (role_is ''tool'') (drop (length body - nat max_messages) body))))"

section \<open>One tool call\<close>

text \<open>The human gate: filing a request for a tool, arguments, prefix, reason and conversation, which
  gives its id; and waiting for its decision, which gives the arguments to run, the note and who
  decided.\<close>

record decision =
  de_arguments :: "(string, pyval) dict"
  de_note :: "string option"
  de_by :: "string option"

record 'w approver =
  ap_request :: "string \<Rightarrow> (string, pyval) dict \<Rightarrow> string \<Rightarrow> string option \<Rightarrow> string option \<Rightarrow> ('w, string) io"
  ap_wait :: "string \<Rightarrow> ('w, decision) io"

record 'w agent =
  ag_model :: "'w model"
  ag_tools :: "'w mesh_tool list"
  ag_max_steps :: int
  ag_max_messages :: "int option"
  ag_token :: "string option"
  ag_timeout_s :: time
  ag_approvals :: "'w approver option"
  ag_conversation :: "string option"
  ag_texts :: texts
  ag_emit :: "agent_event \<Rightarrow> ('w, unit) io"

definition by_name :: "'w mesh_tool list \<Rightarrow> string \<Rightarrow> 'w mesh_tool option" where
  "by_name tools = map_of (rev (map (\<lambda>t. (mt_name t, t)) tools))"

definition run_tool :: "'w agent \<Rightarrow> 'w mesh_tool list \<Rightarrow> tool_call \<Rightarrow> ('w, string \<times> bool) io" where
  "run_tool a tools tc w =
     (case by_name tools (tc_name tc) of
        None \<Rightarrow> Some (Inr (''unknown tool: '' @ tx_repr (ag_texts a) (tc_name tc), True), w)
      | Some t \<Rightarrow>
          (case call_tool t (tc_arguments tc) (ag_token a) (ag_timeout_s a) w of
             None \<Rightarrow> None
           | Some (Inr v, w') \<Rightarrow> Some (Inr (format_tool_result (ag_texts a) v, False), w')
           | Some (Inl e, w') \<Rightarrow>
               if is_exception e then Some (Inr (format_tool_error (ag_texts a) e, True), w')
               else Some (Inl e, w')))"

definition say :: "'w agent \<Rightarrow> agent_event \<Rightarrow> ('w chat, unit) io" where
  "say a e = outside (ag_emit a e)"

text \<open>The call itself, its answer in the log and the event that reports it.\<close>

definition perform :: "'w agent \<Rightarrow> 'w mesh_tool list \<Rightarrow> tool_call \<Rightarrow> ('w chat, unit) io" where
  "perform a tools tc =
     io_bind (outside (run_tool a tools tc)) (\<lambda>(content, failed).
     io_bind (append_message (tool_message (tc_id tc) content)) (\<lambda>_.
     say a ((event ''tool_result'')\<lparr>ev_name := Some (tc_name tc), ev_content := PStr content,
       ev_call := Some (tc_id tc), ev_error := failed\<rparr>)))"

definition refused :: "'w agent \<Rightarrow> tool_call \<Rightarrow> string \<Rightarrow> string \<Rightarrow> ('w chat, unit) io" where
  "refused a tc i refusal =
     io_bind (say a ((event ''approval_decision'')\<lparr>ev_name := Some (tc_name tc), ev_call := Some (tc_id tc),
       ev_approval := Some i, ev_content := PStr refusal, ev_error := True\<rparr>)) (\<lambda>_.
     io_bind (append_message (tool_message (tc_id tc) refusal)) (\<lambda>_.
     say a ((event ''tool_result'')\<lparr>ev_name := Some (tc_name tc), ev_content := PStr refusal,
       ev_call := Some (tc_id tc), ev_error := True\<rparr>)))"

definition approved_by :: "decision \<Rightarrow> string" where
  "approved_by d =
     (case de_note d of
        Some n \<Rightarrow> if n \<noteq> [] then n else ''approved by '' @ (case de_by d of Some b \<Rightarrow> if b = [] then ''a human'' else b | None \<Rightarrow> ''a human'')
      | None \<Rightarrow> ''approved by '' @ (case de_by d of Some b \<Rightarrow> if b = [] then ''a human'' else b | None \<Rightarrow> ''a human''))"

text \<open>\<open>except IstosError\<close> around the wait.\<close>

definition wait_for :: "'w approver \<Rightarrow> string \<Rightarrow> ('w, exc + decision) io" where
  "wait_for g i w =
     (case ap_wait g i w of
        None \<Rightarrow> None
      | Some (Inr d, w') \<Rightarrow> Some (Inr (Inr d), w')
      | Some (Inl e, w') \<Rightarrow> if x_istos e \<noteq> None then Some (Inr (Inl e), w') else Some (Inl e, w'))"

definition gated :: "'w agent \<Rightarrow> 'w mesh_tool list \<Rightarrow> 'w mesh_tool \<Rightarrow> 'w approver \<Rightarrow> tool_call \<Rightarrow> ('w chat, unit) io" where
  "gated a tools t g tc =
     io_bind (outside (ap_request g (tc_name tc) (tc_arguments tc) (mt_prefix t) (approval_reason t) (ag_conversation a))) (\<lambda>i.
     io_bind (say a ((event ''approval_request'')\<lparr>ev_name := Some (tc_name tc), ev_arguments := Some (tc_arguments tc),
       ev_call := Some (tc_id tc), ev_approval := Some i, ev_content := opt_str (approval_reason t)\<rparr>)) (\<lambda>_.
     io_bind (outside (wait_for g i)) (\<lambda>out.
       case out of
         Inl e \<Rightarrow> refused a tc i (format_tool_error (ag_texts a) e)
       | Inr d \<Rightarrow>
           io_bind (say a ((event ''approval_decision'')\<lparr>ev_name := Some (tc_name tc), ev_arguments := Some (de_arguments d),
             ev_call := Some (tc_id tc), ev_approval := Some i, ev_content := PStr (approved_by d)\<rparr>)) (\<lambda>_.
           perform a tools (tc\<lparr>tc_arguments := de_arguments d\<rparr>)))))"

definition dispatch_tool :: "'w agent \<Rightarrow> 'w mesh_tool list \<Rightarrow> tool_call \<Rightarrow> ('w chat, unit) io" where
  "dispatch_tool a tools tc =
     io_bind (say a ((event ''tool_call'')\<lparr>ev_name := Some (tc_name tc), ev_arguments := Some (tc_arguments tc),
       ev_call := Some (tc_id tc)\<rparr>)) (\<lambda>_.
     case (by_name tools (tc_name tc), ag_approvals a) of
       (Some t, Some g) \<Rightarrow> if requires_approval t then gated a tools t g tc else perform a tools tc
     | _ \<Rightarrow> perform a tools tc)"

fun dispatch_all :: "'w agent \<Rightarrow> 'w mesh_tool list \<Rightarrow> tool_call list \<Rightarrow> ('w chat, unit) io" where
  "dispatch_all a tools [] = io_return ()"
| "dispatch_all a tools (tc # tcs) = io_bind (dispatch_tool a tools tc) (\<lambda>_. dispatch_all a tools tcs)"

section \<open>The loop\<close>

definition trim :: "'w agent \<Rightarrow> ('w chat, unit) io" where
  "trim a =
     (\<lambda>(ms, w). case ag_max_messages a of
        None \<Rightarrow> Some (Inr (), ms, w)
      | Some n \<Rightarrow> (case trim_messages n ms of Inl e \<Rightarrow> Some (Inl e, ms, w) | Inr ms' \<Rightarrow> Some (Inr (), ms', w)))"

definition complete :: "'w agent \<Rightarrow> ('w chat, model_reply) io" where
  "complete a =
     (\<lambda>(ms, w). outside (ag_model a ms (if ag_tools a = [] then None else Some (map openai_schema (ag_tools a)))) (ms, w))"

definition final_answer :: "'w agent \<Rightarrow> model_reply \<Rightarrow> ('w chat, unit) io" where
  "final_answer a r =
     io_bind (say a (case mr_content r of
         Some c \<Rightarrow> if c \<noteq> [] then (event ''message'')\<lparr>ev_content := PStr c\<rparr>
           else (event ''message'')\<lparr>ev_content := PStr ''The model returned an empty response.'', ev_error := True\<rparr>
       | None \<Rightarrow> (event ''message'')\<lparr>ev_content := PStr ''The model returned an empty response.'', ev_error := True\<rparr>))
       (\<lambda>_. say a (event ''done''))"

definition stopped :: "'w agent \<Rightarrow> ('w chat, unit) io" where
  "stopped a =
     io_bind (say a ((event ''message'')\<lparr>ev_content := PStr (''Stopped after '' @ tx_str (ag_texts a) (PInt (ag_max_steps a))
       @ '' tool steps without a final answer.'')\<rparr>)) (\<lambda>_. say a (event ''done''))"

fun agent_steps :: "'w agent \<Rightarrow> nat \<Rightarrow> ('w chat, unit) io" where
  "agent_steps a 0 = stopped a"
| "agent_steps a (Suc n) =
     io_bind (trim a) (\<lambda>_.
     io_bind (complete a) (\<lambda>r.
     io_bind (append_message (assistant_message (ag_texts a) r)) (\<lambda>_.
       if mr_calls r = [] then final_answer a r
       else io_bind (dispatch_all a (ag_tools a) (mr_calls r)) (\<lambda>_. agent_steps a n))))"

definition run_agent :: "'w agent \<Rightarrow> ('w chat, unit) io" where
  "run_agent a =
     (if ag_max_steps a < 1 then io_raise (value_error ''max_steps must be >= 1'')
      else if ag_approvals a = None \<and> filter requires_approval (ag_tools a) \<noteq> []
      then io_raise (value_error ''Tools require human approval but no gate was passed.'')
      else agent_steps a (nat (ag_max_steps a)))"

section \<open>On a channel\<close>

definition event_frame :: "agent_event \<Rightarrow> pyval" where
  "event_frame e =
     PDict ([(''kind'', PStr (ev_kind e)), (''content'', ev_content e), (''name'', opt_str (ev_name e)),
       (''arguments'', case ev_arguments e of None \<Rightarrow> PNone | Some d \<Rightarrow> PDict d),
       (''tool_call_id'', opt_str (ev_call e)), (''error'', PBool (ev_error e))]
       @ (case ev_approval e of None \<Rightarrow> [] | Some i \<Rightarrow> [(''approval_id'', PStr i)]))"

definition forward :: "(pyval \<Rightarrow> ('w, unit) io) \<Rightarrow> bool \<Rightarrow> agent_event \<Rightarrow> ('w, unit) io" where
  "forward send send_events e =
     (if ev_kind e = ''done'' then io_return ()
      else if send_events then send (event_frame e)
      else if ev_kind e = ''message'' \<and> ev_content e \<noteq> PNone then send (ev_content e)
      else io_return ())"

fun drive_turns :: "'w agent \<Rightarrow> pyval list \<Rightarrow> ('w chat, unit) io" where
  "drive_turns a [] = io_return ()"
| "drive_turns a (v # vs) =
     io_bind (append_message (chat_message ''user'' (PStr (user_text (ag_texts a) v)))) (\<lambda>_.
     io_bind (run_agent a) (\<lambda>_. drive_turns a vs))"

text \<open>The frames of the session's log, then its inbound messages until the peer leaves.\<close>

definition drive_channel ::
  "'w agent \<Rightarrow> string option \<Rightarrow> ('w, (string, pyval) dict list) io \<Rightarrow> pyval list \<Rightarrow> (pyval \<Rightarrow> ('w, unit) io) \<Rightarrow> bool
   \<Rightarrow> ('w, unit) io" where
  "drive_channel a system hist inbound send send_events w =
     (case hist w of
        None \<Rightarrow> None
      | Some (Inl e, w1) \<Rightarrow> Some (Inl e, w1)
      | Some (Inr h, w1) \<Rightarrow>
          (case history_to_messages (ag_texts a) h system True of
             Inl e \<Rightarrow> Some (Inl e, w1)
           | Inr ms \<Rightarrow>
               (let ms' = (case system of
                     Some s \<Rightarrow> if s \<noteq> [] \<and> \<not> list_ex (role_is ''system'') ms
                       then chat_message ''system'' (PStr s) # ms else ms
                   | None \<Rightarrow> ms)
                in map_option (\<lambda>(out, _, w'). (out, w'))
                     (drive_turns (a\<lparr>ag_emit := forward send send_events\<rparr>) inbound (ms', w1)))))"

section \<open>Lemmas\<close>

lemma io_bind_Some:
  "io_bind m f w = Some (Inr y, w'') \<longleftrightarrow> (\<exists>x w'. m w = Some (Inr x, w') \<and> f x w' = Some (Inr y, w''))"
  by (auto simp: io_bind_def split: option.splits prod.splits sum.splits)

lemma io_bind_cong:
  "m w = m' w \<Longrightarrow> (\<And>x w'. m w = Some (Inr x, w') \<Longrightarrow> f x w' = f' x w') \<Longrightarrow> io_bind m f w = io_bind m' f' w"
  unfolding io_bind_def by (auto split: option.split prod.split sum.split)

lemma outside_Some:
  "outside m (ms, w) = Some (out, ms', w') \<longleftrightarrow> ms' = ms \<and> m w = Some (out, w')"
  by (auto simp: outside_def split: option.splits prod.splits)

lemma append_message_Some:
  "append_message m (ms, w) = Some (out, ms', w') \<longleftrightarrow> out = Inr () \<and> ms' = ms @ [m] \<and> w' = w"
  by (auto simp: append_message_def)

end
