(* ===== verification/AgentProps.thy ===== *)
theory AgentProps
  imports Agent
begin

text \<open>
  Correctness of the agent loop: every prompt a model gets is a well-formed transcript, in which each
  tool call is answered once and in order, whatever is trimmed or recovered from a log.
\<close>

section \<open>Well-formed transcripts\<close>

text \<open>The ids of the tool calls of an assistant message, and the calls still to be answered after a log.\<close>

fun entry_id :: "pyval \<Rightarrow> string option" where
  "entry_id (PDict d) = (case dict_get d ''id'' PNone of PStr i \<Rightarrow> Some i | _ \<Rightarrow> None)"
| "entry_id v = None"

definition calls_of :: "message \<Rightarrow> string option list" where
  "calls_of m =
     (if role_is ''assistant'' m
      then (case dict_get m ''tool_calls'' PNone of PList vs \<Rightarrow> map entry_id vs | _ \<Rightarrow> [])
      else [])"

fun awaiting :: "string option list \<Rightarrow> message list \<Rightarrow> string option list option" where
  "awaiting ps [] = Some ps"
| "awaiting ps (m # ms) =
     (if role_is ''tool'' m
      then (case ps of
              [] \<Rightarrow> None
            | p # ps' \<Rightarrow>
                if p \<noteq> None \<and> dict_get m ''tool_call_id'' PNone = PStr (the p) then awaiting ps' ms else None)
      else if ps = [] then awaiting (calls_of m) ms else None)"

definition transcript :: "message list \<Rightarrow> bool" where
  "transcript ms \<longleftrightarrow> awaiting [] ms = Some []"

lemma awaiting_append: "awaiting ps (xs @ ys) = Option.bind (awaiting ps xs) (\<lambda>ps'. awaiting ps' ys)"
  by (induction ps xs rule: awaiting.induct) (auto split: list.split)

lemma awaiting_suffix: "awaiting ps xs = Some [] \<Longrightarrow> \<exists>ps'. awaiting ps' (drop k xs) = Some []"
proof (induction ps xs arbitrary: k rule: awaiting.induct)
  case (2 ps m ms)
  show ?case
  proof (cases k)
    case 0
    then show ?thesis using 2(3) by (intro exI [of _ ps]) simp
  next
    case (Suc j)
    then show ?thesis using 2 by (auto split: if_splits list.splits)
  qed
qed auto

lemma awaiting_no_tools: "awaiting ps xs = Some [] \<Longrightarrow> awaiting [] (dropWhile (role_is ''tool'') xs) = Some []"
  by (induction ps xs rule: awaiting.induct) (auto split: if_splits list.splits)

lemma role_simps [simp]:
  "role_is r (chat_message r' c) \<longleftrightarrow> r = r'" "role_is r (tool_message i s) \<longleftrightarrow> r = ''tool''"
  "role_is r (assistant_message tx reply) \<longleftrightarrow> r = ''assistant''"
  "role_is r (tool_call_message tx d) \<longleftrightarrow> r = ''assistant''"
  by (auto simp: role_is_def chat_message_def tool_message_def assistant_message_def tool_call_message_def
      dict_get_def Let_def)

lemma calls_simps [simp]:
  "calls_of (chat_message r c) = []"
  "calls_of (assistant_message tx reply) = map (Some \<circ> tc_id) (mr_calls reply)"
  "calls_of (tool_call_message tx d) = [case dict_get d ''tool_call_id'' PNone of PStr i \<Rightarrow> Some i | _ \<Rightarrow> None]"
  by (auto simp: calls_of_def role_is_def chat_message_def assistant_message_def tool_call_message_def
      call_entry_def dict_get_def Let_def split: option.splits)

lemma tool_answer [simp]: "dict_get (tool_message i s) ''tool_call_id'' PNone = PStr i"
  by (simp add: tool_message_def dict_get_def)

lemma awaiting_system: "\<forall>m\<in>set xs. role_is ''system'' m \<Longrightarrow> awaiting [] xs = Some []"
proof (induction xs)
  case (Cons m xs)
  then have "role_is ''system'' m" by simp
  then have "\<not> role_is ''tool'' m" "calls_of m = []" by (simp_all add: role_is_def calls_of_def)
  then show ?case using Cons by simp
qed simp

lemma trim_transcript:
  assumes "trim_messages n ms = Inr ms'" "transcript ms"
  shows "transcript ms'"
proof -
  let ?sys = "takeWhile (role_is ''system'') ms" and ?body = "dropWhile (role_is ''system'') ms"
  have sys: "awaiting [] ?sys = Some []" by (rule awaiting_system) (auto dest: set_takeWhileD)
  then have "awaiting [] ?body = Some []"
    using assms(2) awaiting_append [of "[]" ?sys ?body] by (simp add: transcript_def)
  then have "awaiting [] (dropWhile (role_is ''tool'') (drop k ?body)) = Some []" for k
    using awaiting_suffix awaiting_no_tools by blast
  then show ?thesis
    using assms sys by (auto simp: trim_messages_def transcript_def awaiting_append Let_def split: if_splits)
qed

lemma awaiting_concat: "(\<And>x. x \<in> set xss \<Longrightarrow> transcript x) \<Longrightarrow> transcript (concat xss)"
  by (induction xss) (simp_all add: transcript_def awaiting_append)

lemma turn_transcript: "transcript (turn_messages tx b results turn)"
  by (auto simp: turn_messages_def transcript_def Let_def split: pyval.split option.split)

lemma history_transcript:
  assumes "history_to_messages tx hist system include_tools = Inr ms"
  shows "transcript ms"
proof -
  have "transcript (concat (map (turn_messages tx include_tools results) hist))" for results
    by (rule awaiting_concat) (auto simp: turn_transcript)
  then show ?thesis
    using assms
    by (auto simp: history_to_messages_def res_bind_eq_Inr transcript_def awaiting_append split: option.splits)
qed

text \<open>The messages rebuilt from a channel's log are a well-formed transcript, whatever the log
  holds: calls cut off by a crash, results without a call, frames of other kinds.\<close>

theorem history_is_a_transcript:
  assumes "history_to_messages tx hist system include_tools = Inr ms"
  shows "transcript ms"
  by (rule history_transcript [OF assms])

text \<open>A log cut off in the middle of its second tool call.\<close>

definition cut_log :: "(string, pyval) dict list" where
  "cut_log = [[(''dir'', PStr ''in''), (''data'', PStr ''add'')],
     [(''dir'', PStr ''out''), (''data'', PDict [(''kind'', PStr ''tool_call''), (''tool_call_id'', PStr ''c1''), (''name'', PStr ''add'')])],
     [(''dir'', PStr ''out''), (''data'', PDict [(''kind'', PStr ''tool_result''), (''tool_call_id'', PStr ''c1''), (''content'', PStr ''3'')])],
     [(''dir'', PStr ''out''), (''data'', PDict [(''kind'', PStr ''tool_call''), (''tool_call_id'', PStr ''c2''), (''name'', PStr ''add'')])]]"

definition plain_texts :: texts where
  "plain_texts = \<lparr>tx_dumps = (\<lambda>_. ''{}''), tx_str = (\<lambda>_. []), tx_repr = id\<rparr>"

lemma history_is_a_transcript_witness:
  "\<exists>ms. history_to_messages plain_texts cut_log None True = Inr ms \<and> length ms = 3 \<and> transcript ms"
proof -
  have "case history_to_messages plain_texts cut_log None True of Inl _ \<Rightarrow> False | Inr ms \<Rightarrow> length ms = 3" by code_simp
  then obtain ms where "history_to_messages plain_texts cut_log None True = Inr ms" "length ms = 3"
    by (auto split: sum.splits)
  then show ?thesis using history_is_a_transcript by blast
qed

section \<open>Every prompt\<close>

lemma perform_answers:
  "perform a tools tc (ms, w) = Some (Inr u, ms', w') \<Longrightarrow> \<exists>c. ms' = ms @ [tool_message (tc_id tc) c]"
  by (auto simp: perform_def io_bind_Some outside_Some append_message_Some say_def)

lemma refused_answers:
  "refused a tc i r (ms, w) = Some (Inr u, ms', w') \<Longrightarrow> \<exists>c. ms' = ms @ [tool_message (tc_id tc) c]"
  by (auto simp: refused_def io_bind_Some outside_Some append_message_Some say_def)

lemma gated_answers:
  "gated a tools t g tc (ms, w) = Some (Inr u, ms', w') \<Longrightarrow> \<exists>c. ms' = ms @ [tool_message (tc_id tc) c]"
proof -
  assume g: "gated a tools t g tc (ms, w) = Some (Inr u, ms', w')"
  then obtain i out w1 where "(case out of
         Inl e \<Rightarrow> refused a tc i (format_tool_error (ag_texts a) e)
       | Inr d \<Rightarrow>
           io_bind (say a ((event ''approval_decision'')\<lparr>ev_name := Some (tc_name tc), ev_arguments := Some (de_arguments d),
             ev_call := Some (tc_id tc), ev_approval := Some i, ev_content := PStr (approved_by d)\<rparr>)) (\<lambda>_.
           perform a tools (tc\<lparr>tc_arguments := de_arguments d\<rparr>))) (ms, w1) = Some (Inr u, ms', w')"
    unfolding gated_def io_bind_Some say_def by (auto simp: outside_Some)
  then consider e where "refused a tc i (format_tool_error (ag_texts a) e) (ms, w1) = Some (Inr u, ms', w')"
    | d :: decision and w2 where "perform a tools (tc\<lparr>tc_arguments := de_arguments d\<rparr>) (ms, w2) = Some (Inr u, ms', w')"
    by (cases out) (auto simp: io_bind_Some outside_Some say_def)
  then show ?thesis
  proof cases
    case 1
    from refused_answers [OF this] show ?thesis .
  next
    case 2
    from perform_answers [OF this] show ?thesis by simp
  qed
qed

lemma dispatch_answers:
  "dispatch_tool a tools tc (ms, w) = Some (Inr u, ms', w') \<Longrightarrow> \<exists>c. ms' = ms @ [tool_message (tc_id tc) c]"
  by (auto simp: dispatch_tool_def io_bind_Some outside_Some say_def
      split: option.splits if_splits dest: gated_answers perform_answers)

lemma dispatch_all_answers:
  assumes "dispatch_all a tools tcs (ms, w) = Some (Inr u, ms', w')" "awaiting [] ms = Some (map (Some \<circ> tc_id) tcs)"
  shows "transcript ms'"
  using assms
proof (induction tcs arbitrary: ms w)
  case Nil
  then show ?case by (simp add: io_return_def transcript_def)
next
  case (Cons tc tcs)
  obtain ms1 w1 c where d: "dispatch_all a tools tcs (ms1, w1) = Some (Inr u, ms', w')" "ms1 = ms @ [tool_message (tc_id tc) c]"
    using Cons.prems(1) dispatch_answers by (fastforce simp: io_bind_Some)
  have "awaiting [] ms1 = Some (map (Some \<circ> tc_id) tcs)"
    using Cons.prems(2) by (simp add: d(2) awaiting_append)
  then show ?case using Cons.IH [OF d(1)] by simp
qed

lemma final_keeps: "final_answer a r (ms, w) = Some (Inr u, ms', w') \<Longrightarrow> ms' = ms"
  "stopped a (ms, w) = Some (Inr u, ms', w') \<Longrightarrow> ms' = ms"
  by (auto simp: final_answer_def stopped_def io_bind_Some outside_Some say_def)

lemma agent_steps_transcript:
  "agent_steps a n (ms, w) = Some (Inr u, ms', w') \<Longrightarrow> transcript ms \<Longrightarrow> transcript ms'"
proof (induction n arbitrary: ms w)
  case 0
  then show ?case by (auto dest: final_keeps(2))
next
  case (Suc n)
  obtain ms1 w1 r ms2 w2 where t: "trim a (ms, w) = Some (Inr (), ms1, w1)"
    and c: "complete a (ms1, w1) = Some (Inr r, ms2, w2)"
    and rest: "(if mr_calls r = [] then final_answer a r
       else io_bind (dispatch_all a (ag_tools a) (mr_calls r)) (\<lambda>_. agent_steps a n))
         (ms2 @ [assistant_message (ag_texts a) r], w2) = Some (Inr u, ms', w')"
    using Suc.prems(1) by (auto simp: io_bind_Some append_message_Some)
  have ms1: "transcript ms1" using t Suc.prems(2) trim_transcript by (auto simp: trim_def split: option.splits sum.splits)
  moreover have "ms2 = ms1" using c by (simp add: complete_def outside_Some)
  ultimately have a: "awaiting [] (ms2 @ [assistant_message (ag_texts a) r]) = Some (map (Some \<circ> tc_id) (mr_calls r))"
    by (simp add: awaiting_append transcript_def)
  show ?case
  proof (cases "mr_calls r = []")
    case True
    then show ?thesis using rest a by (auto simp: transcript_def dest: final_keeps(1))
  next
    case False
    then obtain ms3 w3 where d: "dispatch_all a (ag_tools a) (mr_calls r) (ms2 @ [assistant_message (ag_texts a) r], w2)
        = Some (Inr (), ms3, w3)" "agent_steps a n (ms3, w3) = Some (Inr u, ms', w')"
      using rest by (auto simp: io_bind_Some)
    show ?thesis by (rule Suc.IH [OF d(2) dispatch_all_answers [OF d(1) a]])
  qed
qed

text \<open>A model that refuses prompts which are not well-formed transcripts, as the providers' APIs do.\<close>

definition breach :: exc where
  "breach = builtin_exc [''AssertionError''] []"

definition strict :: "'w model \<Rightarrow> 'w model" where
  "strict m ms schemas w = (if transcript ms then m ms schemas w else Some (Inl breach, w))"

lemma strict_same [simp]:
  "dispatch_all (a\<lparr>ag_model := m\<rparr>) tools tcs = dispatch_all a tools tcs"
  "final_answer (a\<lparr>ag_model := m\<rparr>) = final_answer a" "stopped (a\<lparr>ag_model := m\<rparr>) = stopped a"
  "trim (a\<lparr>ag_model := m\<rparr>) = trim a"
proof -
  have s: "say (a\<lparr>ag_model := m\<rparr>) = say a" by (simp add: say_def fun_eq_iff)
  have r: "run_tool (a\<lparr>ag_model := m\<rparr>) tools tc = run_tool a tools tc" for tc
    by (rule ext) (simp add: run_tool_def split: option.split sum.split prod.split)
  have p: "perform (a\<lparr>ag_model := m\<rparr>) tools tc = perform a tools tc" for tc
    by (simp add: perform_def s r)
  have g: "gated (a\<lparr>ag_model := m\<rparr>) tools t g tc = gated a tools t g tc" for t g tc
    by (simp add: gated_def refused_def s p cong: sum.case_cong)
  have "dispatch_tool (a\<lparr>ag_model := m\<rparr>) tools tc = dispatch_tool a tools tc" for tc
    by (cases "by_name tools (tc_name tc)"; cases "ag_approvals a") (simp_all add: dispatch_tool_def s p g)
  then show "dispatch_all (a\<lparr>ag_model := m\<rparr>) tools tcs = dispatch_all a tools tcs"
    by (induction tcs) simp_all
  show "final_answer (a\<lparr>ag_model := m\<rparr>) = final_answer a" "stopped (a\<lparr>ag_model := m\<rparr>) = stopped a"
    "trim (a\<lparr>ag_model := m\<rparr>) = trim a"
    by (simp_all add: final_answer_def stopped_def trim_def s fun_eq_iff)
qed

lemma agent_steps_strict:
  "transcript ms \<Longrightarrow> agent_steps (a\<lparr>ag_model := strict (ag_model a)\<rparr>) n (ms, w) = agent_steps a n (ms, w)"
proof (induction n arbitrary: ms w)
  case (Suc n)
  let ?a = "a\<lparr>ag_model := strict (ag_model a)\<rparr>"
  have "io_bind (trim a) (\<lambda>_. io_bind (complete ?a) (\<lambda>r.
     io_bind (append_message (assistant_message (ag_texts a) r)) (\<lambda>_.
       if mr_calls r = [] then final_answer a r
       else io_bind (dispatch_all a (ag_tools a) (mr_calls r)) (\<lambda>_. agent_steps ?a n)))) (ms, w)
   = io_bind (trim a) (\<lambda>_. io_bind (complete a) (\<lambda>r.
     io_bind (append_message (assistant_message (ag_texts a) r)) (\<lambda>_.
       if mr_calls r = [] then final_answer a r
       else io_bind (dispatch_all a (ag_tools a) (mr_calls r)) (\<lambda>_. agent_steps a n)))) (ms, w)"
  proof (rule io_bind_cong [OF refl], clarsimp)
    fix ms1 w1
    assume t: "trim a (ms, w) = Some (Inr (), ms1, w1)"
    have ms1: "transcript ms1" using t Suc.prems trim_transcript by (auto simp: trim_def split: option.splits sum.splits)
    have c: "complete ?a (ms1, w1) = complete a (ms1, w1)"
      using ms1 by (simp add: complete_def outside_def strict_def)
    show "io_bind (complete ?a) (\<lambda>r.
       io_bind (append_message (assistant_message (ag_texts a) r)) (\<lambda>_.
         if mr_calls r = [] then final_answer a r
         else io_bind (dispatch_all a (ag_tools a) (mr_calls r)) (\<lambda>_. agent_steps ?a n))) (ms1, w1)
     = io_bind (complete a) (\<lambda>r.
       io_bind (append_message (assistant_message (ag_texts a) r)) (\<lambda>_.
         if mr_calls r = [] then final_answer a r
         else io_bind (dispatch_all a (ag_tools a) (mr_calls r)) (\<lambda>_. agent_steps a n))) (ms1, w1)"
    proof (rule io_bind_cong [where m = "complete ?a" and m' = "complete a", OF c])
      fix r s2
      assume "complete ?a (ms1, w1) = Some (Inr r, s2)"
      then obtain w2 where s2: "s2 = (ms1, w2)" by (cases s2) (auto simp: complete_def outside_Some)
      have aw: "awaiting [] (ms1 @ [assistant_message (ag_texts a) r]) = Some (map (Some \<circ> tc_id) (mr_calls r))"
        using ms1 by (simp add: awaiting_append transcript_def)
      have "io_bind (dispatch_all a (ag_tools a) (mr_calls r)) (\<lambda>_. agent_steps ?a n) (ms1 @ [assistant_message (ag_texts a) r], w2)
          = io_bind (dispatch_all a (ag_tools a) (mr_calls r)) (\<lambda>_. agent_steps a n) (ms1 @ [assistant_message (ag_texts a) r], w2)"
      proof (rule io_bind_cong [OF refl])
        fix u s'
        assume "dispatch_all a (ag_tools a) (mr_calls r) (ms1 @ [assistant_message (ag_texts a) r], w2) = Some (Inr u, s')"
        then have "transcript (fst s')" by (cases s') (auto dest: dispatch_all_answers [OF _ aw])
        then show "agent_steps ?a n s' = agent_steps a n s'" using Suc.IH [of "fst s'" "snd s'"] by simp
      qed
      then show "io_bind (append_message (assistant_message (ag_texts a) r)) (\<lambda>_.
         if mr_calls r = [] then final_answer a r
         else io_bind (dispatch_all a (ag_tools a) (mr_calls r)) (\<lambda>_. agent_steps ?a n)) s2
       = io_bind (append_message (assistant_message (ag_texts a) r)) (\<lambda>_.
         if mr_calls r = [] then final_answer a r
         else io_bind (dispatch_all a (ag_tools a) (mr_calls r)) (\<lambda>_. agent_steps a n)) s2"
        by (simp add: s2 append_message_def io_bind_def)
    qed
  qed
  then show ?case by (simp cong: if_cong)
qed simp

lemma drive_turns_transcript: "transcript ms \<Longrightarrow> transcript (ms @ [chat_message ''user'' c])"
  by (simp add: transcript_def awaiting_append)

lemma run_agent_strict:
  "transcript ms \<Longrightarrow> run_agent (a\<lparr>ag_model := strict (ag_model a)\<rparr>) (ms, w) = run_agent a (ms, w)"
  by (simp add: run_agent_def io_raise_def agent_steps_strict)

lemma run_agent_transcript:
  "run_agent a (ms, w) = Some (Inr u, ms', w') \<Longrightarrow> transcript ms \<Longrightarrow> transcript ms'"
  by (auto simp: run_agent_def io_raise_def split: if_splits dest: agent_steps_transcript)

text \<open>C18: every prompt of every turn of a channel is a well-formed transcript: each tool call is answered
  by one tool message, in order, with nothing in between, after any trimming, refusal, failure or
  recovery from the log. A model that refuses any other prompt would see no difference.\<close>

theorem every_prompt_is_a_transcript:
  "drive_channel (a\<lparr>ag_model := strict (ag_model a)\<rparr>) system hist inbound send send_events w
   = drive_channel a system hist inbound send send_events w"
proof -
  let ?b = "\<lambda>a. a\<lparr>ag_emit := forward send send_events\<rparr>"
  have turns: "drive_turns (b\<lparr>ag_model := strict (ag_model b)\<rparr>) vs (ms, w1) = drive_turns b vs (ms, w1)"
    if "transcript ms" for b :: "'a agent" and vs ms w1
    using that
  proof (induction vs arbitrary: ms w1)
    case (Cons v vs)
    let ?ms = "ms @ [chat_message ''user'' (PStr (user_text (ag_texts b) v))]"
    have m: "transcript ?ms" by (rule drive_turns_transcript [OF Cons.prems])
    have "io_bind (run_agent (b\<lparr>ag_model := strict (ag_model b)\<rparr>)) (\<lambda>_. drive_turns (b\<lparr>ag_model := strict (ag_model b)\<rparr>) vs) (?ms, w1)
        = io_bind (run_agent b) (\<lambda>_. drive_turns b vs) (?ms, w1)"
    proof (rule io_bind_cong [where m' = "run_agent b" and m = "run_agent (b\<lparr>ag_model := strict (ag_model b)\<rparr>)",
          OF run_agent_strict [OF m]])
      fix u s'
      assume "run_agent (b\<lparr>ag_model := strict (ag_model b)\<rparr>) (?ms, w1) = Some (Inr u, s')"
      then have "transcript (fst s')"
        using run_agent_transcript m by (metis prod.collapse run_agent_strict)
      then show "drive_turns (b\<lparr>ag_model := strict (ag_model b)\<rparr>) vs s' = drive_turns b vs s'"
        using Cons.IH by (metis prod.collapse)
    qed
    then show ?case by (simp add: io_bind_def append_message_def)
  qed simp
  have start: "transcript ms \<Longrightarrow> transcript (chat_message ''system'' c # ms)" for c ms
    by (simp add: transcript_def)
  have "map_option (\<lambda>(out, _, w'). (out, w')) (drive_turns (?b (a\<lparr>ag_model := strict (ag_model a)\<rparr>)) inbound (ms, w1))
      = map_option (\<lambda>(out, _, w'). (out, w')) (drive_turns (?b a) inbound (ms, w1))" if "transcript ms" for ms w1
    using turns [OF that, of "?b a" inbound w1] by (cases a) simp
  then show ?thesis
    by (auto simp: drive_channel_def Let_def intro: start history_transcript split: option.split prod.split sum.split)
qed

end
