(* ===== verification/Approval.thy ===== *)
theory Approval
  imports Naming Effects QueueStore
begin

text \<open>
  Human approval of irreversible tool calls (\<open>agent/approval.py\<close>): the requests of one gate, filed,
  decided, expired and recovered; the waiting agent and what wakes it. The tasks of the node
  interleave between the locked parts: what the others do while one waits is a list of operations.
\<close>

section \<open>Requests\<close>

datatype approval_state = PENDING | APPROVED | DENIED | EXPIRED

record approval_request =
  ar_id :: string
  ar_tool :: string
  ar_arguments :: "(string, pyval) dict"
  ar_prefix :: "string option"
  ar_state :: approval_state
  requested_at :: time
  expires_at :: time
  ar_reason :: "string option"
  requester :: "string option"
  conversation_id :: "string option"
  decided_by :: "string option"
  decided_at :: time
  ar_note :: "string option"

fun approval_name :: "approval_state \<Rightarrow> string" where
  "approval_name PENDING = ''pending''"
| "approval_name APPROVED = ''approved''"
| "approval_name DENIED = ''denied''"
| "approval_name EXPIRED = ''expired''"

definition parse_approval :: "string \<Rightarrow> approval_state res" where
  "parse_approval s =
     (if s = ''pending'' then Inr PENDING else if s = ''approved'' then Inr APPROVED
      else if s = ''denied'' then Inr DENIED else if s = ''expired'' then Inr EXPIRED
      else Inl (ValueError ''ApprovalState''))"

definition request_dict :: "approval_request \<Rightarrow> (string, pyval) dict" where
  "request_dict r =
     [(''id'', PStr (ar_id r)), (''tool'', PStr (ar_tool r)), (''arguments'', PDict (ar_arguments r)),
      (''prefix'', opt_str (ar_prefix r)), (''state'', PStr (approval_name (ar_state r))),
      (''requested_at'', PFloat (requested_at r)), (''expires_at'', PFloat (expires_at r)),
      (''reason'', opt_str (ar_reason r)), (''requester'', opt_str (requester r)),
      (''conversation_id'', opt_str (conversation_id r)), (''decided_by'', opt_str (decided_by r)),
      (''decided_at'', PFloat (decided_at r)), (''note'', opt_str (ar_note r))]"

fun as_dict :: "pyval \<Rightarrow> (string, pyval) dict res" where
  "as_dict (PDict d) = Inr d"
| "as_dict _ = Inl (TypeError ''dict'')"

text \<open>
  Reading a stored request; \<open>t\<close> is the clock reading used when the time of the request is missing.
  A field of a type \<open>to_dict\<close> never writes is a \<open>TypeError\<close> of the model, as for jobs.
\<close>

definition request_from :: "time \<Rightarrow> (string, pyval) dict \<Rightarrow> approval_request res" where
  "request_from t d =
     res_bind (res_bind (as_str (dict_get d ''state'' (PStr ''pending''))) parse_approval) (\<lambda>st.
     res_bind (res_bind (dict_item d ''id'') as_str) (\<lambda>i.
     res_bind (res_bind (dict_item d ''tool'') as_str) (\<lambda>tool.
     res_bind (as_dict (dict_get d ''arguments'' (PDict []))) (\<lambda>args.
     res_bind (as_opt_str (dict_get d ''prefix'' PNone)) (\<lambda>p.
     res_bind (as_float (dict_get d ''requested_at'' (PFloat t))) (\<lambda>ra.
     res_bind (as_float (dict_get d ''expires_at'' (PFloat 0))) (\<lambda>ex.
     res_bind (as_opt_str (dict_get d ''reason'' PNone)) (\<lambda>why.
     res_bind (as_opt_str (dict_get d ''requester'' PNone)) (\<lambda>rq.
     res_bind (as_opt_str (dict_get d ''conversation_id'' PNone)) (\<lambda>cv.
     res_bind (as_opt_str (dict_get d ''decided_by'' PNone)) (\<lambda>by.
     res_bind (as_float (dict_get d ''decided_at'' (PFloat 0))) (\<lambda>da.
     res_bind (as_opt_str (dict_get d ''note'' PNone)) (\<lambda>n.
       Inr \<lparr>ar_id = i, ar_tool = tool, ar_arguments = args, ar_prefix = p, ar_state = st,
         requested_at = ra, expires_at = ex, ar_reason = why, requester = rq, conversation_id = cv,
         decided_by = by, decided_at = da, ar_note = n\<rparr>)))))))))))))"

definition is_expired :: "time \<Rightarrow> approval_request \<Rightarrow> bool" where
  "is_expired now r \<longleftrightarrow> expires_at r > 0 \<and> now \<ge> expires_at r"

section \<open>Errors\<close>

definition approval_error :: "string \<Rightarrow> string \<Rightarrow> int \<Rightarrow> string \<Rightarrow> pyval \<Rightarrow> exc" where
  "approval_error class code status message details =
     \<lparr>x_mro = [class, ''IstosError'', ''Exception'', ''BaseException'', ''object''],
      x_istos = Some (istos_error_init IstosError (PStr message) (PStr code) status details PNone),
      x_str = message, x_errors = PNone\<rparr>"

definition approval_denied :: "string \<Rightarrow> pyval \<Rightarrow> exc" where
  "approval_denied = approval_error ''ApprovalDenied'' ''approval_denied'' 403"

definition approval_timeout :: "string \<Rightarrow> pyval \<Rightarrow> exc" where
  "approval_timeout = approval_error ''ApprovalTimeout'' ''approval_timeout'' 504"

text \<open>What a waiter gets of a request that is no longer pending.\<close>

definition settled :: "approval_request \<Rightarrow> exc + approval_request" where
  "settled r =
     (case ar_state r of
        APPROVED \<Rightarrow> Inr r
      | DENIED \<Rightarrow> Inl (approval_denied
          (ar_tool r @ '' was denied'' @ (case ar_note r of Some n \<Rightarrow> if n = [] then [] else '': '' @ n | None \<Rightarrow> []))
          (PDict [(''id'', PStr (ar_id r)), (''tool'', PStr (ar_tool r)), (''by'', opt_str (decided_by r))]))
      | _ \<Rightarrow> Inl (approval_timeout (''Approval '' @ ar_id r @ '' expired; '' @ ar_tool r @ '' did not run'')
          (PDict [(''id'', PStr (ar_id r)), (''tool'', PStr (ar_tool r))])))"

section \<open>The gate\<close>

text \<open>
  The state of a gate in a world \<open>'w\<close>: its requests, the event of each waiter and whether it is set
  (events are allocated: a waiter keeps its own even when the entry is popped), and whether stored
  requests were recovered.
\<close>

record 'w approvals =
  requests :: "(string, approval_request) dict"
  waiters :: "(string, nat) dict"
  events :: "bool list"
  was_loaded :: bool
  ap_world :: 'w

record 'w gate_storage =
  gs_get :: "string \<Rightarrow> ('w, pyval) act"
  gs_put :: "string \<Rightarrow> pyval \<Rightarrow> ('w, unit) act"

record 'w gate =
  ga_storage :: "'w gate_storage option"
  ga_timeout :: "time option"
  ga_service :: string
  ga_node :: string
  ga_on_request :: "(approval_request \<Rightarrow> ('w approvals, unit) act) option"

definition gate_init :: "'w gate_storage option \<Rightarrow> time option \<Rightarrow> string \<Rightarrow> string option \<Rightarrow> string
    \<Rightarrow> (approval_request \<Rightarrow> ('w approvals, unit) act) option \<Rightarrow> 'w gate" where
  "gate_init st timeout service node uuid notify =
     \<lparr>ga_storage = st, ga_timeout = timeout, ga_service = service,
      ga_node = (case node of Some n \<Rightarrow> if n = [] then take 8 uuid else n | None \<Rightarrow> take 8 uuid),
      ga_on_request = notify\<rparr>"

definition fresh_approvals :: "'w \<Rightarrow> 'w approvals" where
  "fresh_approvals w = \<lparr>requests = [], waiters = [], events = [], was_loaded = False, ap_world = w\<rparr>"

definition gate_key :: "'w gate \<Rightarrow> string" where
  "gate_key g = ''.istos/approvals/'' @ key_chunk ''istos'' (ga_service g) @ ''-'' @ ga_node g"

definition gate_decide_key :: "'w gate \<Rightarrow> string" where
  "gate_decide_key g = gate_key g @ ''/decide''"

definition approvals_index_key :: "'w gate \<Rightarrow> string" where
  "approvals_index_key g = ''approvals:'' @ key_chunk ''istos'' (ga_service g) @ '':index''"

definition request_key :: "'w gate \<Rightarrow> string \<Rightarrow> string" where
  "request_key g i = ''approvals:'' @ key_chunk ''istos'' (ga_service g) @ '':req:'' @ i"

definition in_world :: "('w, 'a) act \<Rightarrow> ('w approvals, 'a) act" where
  "in_world m s = (case m (ap_world s) of (out, w) \<Rightarrow> (out, s\<lparr>ap_world := w\<rparr>))"

definition pending_ids :: "'w approvals \<Rightarrow> string list" where
  "pending_ids s = sort (map ar_id (filter (\<lambda>r. ar_state r = PENDING) (map snd (requests s))))"

definition write_request :: "'w gate \<Rightarrow> approval_request \<Rightarrow> ('w approvals, unit) act" where
  "write_request g r =
     (case ga_storage g of
        None \<Rightarrow> act_return ()
      | Some st \<Rightarrow> swallow (act_bind (in_world (gs_put st (request_key g (ar_id r)) (PDict (request_dict r))))
          (\<lambda>_ s. in_world (gs_put st (approvals_index_key g) (PList (map PStr (pending_ids s)))) s)))"

fun recover_requests :: "'w gate \<Rightarrow> 'w gate_storage \<Rightarrow> time \<Rightarrow> pyval list \<Rightarrow> ('w approvals, unit) act" where
  "recover_requests g st t [] = act_return ()"
| "recover_requests g st t (v # vs) =
     act_bind (act_of (lift_res (as_str v))) (\<lambda>i.
     act_bind (in_world (gs_get st (request_key g i))) (\<lambda>raw.
     act_bind (\<lambda>s. case raw of
         PDict d \<Rightarrow>
           if i \<in> dkeys (requests s) then (Inr (), s)
           else (case lift_res (request_from t d) of
                   Inl e \<Rightarrow> (Inl e, s)
                 | Inr r \<Rightarrow> (Inr (), s\<lparr>requests := AList.update i r (requests s)\<rparr>))
       | _ \<Rightarrow> (Inr (), s)) (\<lambda>_.
     recover_requests g st t vs)))"

definition load_requests :: "'w gate \<Rightarrow> time \<Rightarrow> ('w approvals, unit) act" where
  "load_requests g t s =
     (if was_loaded s then (Inr (), s)
      else (case ga_storage g of
              None \<Rightarrow> (Inr (), s\<lparr>was_loaded := True\<rparr>)
            | Some st \<Rightarrow>
                swallow (act_bind (in_world (gs_get st (approvals_index_key g))) (\<lambda>index.
                  act_bind (act_of (lift_res (iterated (if truthy index then index else PList [])))) (\<lambda>ids.
                  recover_requests g st t ids))) (s\<lparr>was_loaded := True\<rparr>)))"

section \<open>Operations\<close>

text \<open>
  Filing a request under the UUID \<open>i\<close>; \<open>Some (- 1)\<close> is the argument's default, the gate's own
  timeout. The object returned is the one the gate holds.
\<close>

definition new_request :: "'w gate \<Rightarrow> string \<Rightarrow> time \<Rightarrow> time \<Rightarrow> string \<Rightarrow> (string, pyval) dict \<Rightarrow> string option
    \<Rightarrow> string option \<Rightarrow> string option \<Rightarrow> string option \<Rightarrow> time option \<Rightarrow> approval_request" where
  "new_request g i t t' tool args prefix why asker conv timeout =
     (let ttl = (if timeout = Some (- 1) then ga_timeout g else timeout)
      in \<lparr>ar_id = i, ar_tool = tool, ar_arguments = args, ar_prefix = prefix, ar_state = PENDING,
          requested_at = t',
          expires_at = (case ttl of Some d \<Rightarrow> if d \<noteq> 0 then t + d else 0 | None \<Rightarrow> 0),
          ar_reason = why,
          requester = (case asker of Some a \<Rightarrow> if a = [] then Some (ga_service g) else Some a | None \<Rightarrow> Some (ga_service g)),
          conversation_id = conv, decided_by = None, decided_at = 0, ar_note = None\<rparr>)"

definition file_request :: "approval_request \<Rightarrow> 'w approvals \<Rightarrow> 'w approvals" where
  "file_request r s =
     s\<lparr>requests := AList.update (ar_id r) r (requests s),
       waiters := AList.update (ar_id r) (length (events s)) (waiters s), events := events s @ [False]\<rparr>"

definition request :: "'w gate \<Rightarrow> string \<Rightarrow> time \<Rightarrow> time \<Rightarrow> string \<Rightarrow> (string, pyval) dict \<Rightarrow> string option
    \<Rightarrow> string option \<Rightarrow> string option \<Rightarrow> string option \<Rightarrow> time option \<Rightarrow> ('w approvals, approval_request) act" where
  "request g i t t' tool args prefix why asker conv timeout =
     (let r = new_request g i t t' tool args prefix why asker conv timeout
      in act_bind (load_requests g t) (\<lambda>_.
         act_bind (\<lambda>s. (Inr (), file_request r s)) (\<lambda>_.
         act_bind (write_request g r) (\<lambda>_.
         act_bind (case ga_on_request g of None \<Rightarrow> act_return () | Some f \<Rightarrow> swallow (f r)) (\<lambda>_ s.
           (Inr (dict_get (requests s) i r), s))))))"

definition decided :: "bool \<Rightarrow> string option \<Rightarrow> string option \<Rightarrow> (string, pyval) dict option \<Rightarrow> time \<Rightarrow> time
    \<Rightarrow> approval_request \<Rightarrow> approval_request" where
  "decided yes by note args now t r =
     (if is_expired now r then r\<lparr>ar_state := EXPIRED\<rparr>
      else r\<lparr>ar_state := (if yes then APPROVED else DENIED),
             ar_arguments := (case args of Some a \<Rightarrow> if yes then a else ar_arguments r | None \<Rightarrow> ar_arguments r)\<rparr>)
     \<lparr>decided_by := by, ar_note := note, decided_at := t\<rparr>"

text \<open>\<open>decide\<close> after the recovery: the locked part, the write, and waking the waiter there was.\<close>

definition ring :: "nat option \<Rightarrow> 'w approvals \<Rightarrow> 'w approvals" where
  "ring ev s = (case ev of None \<Rightarrow> s | Some n \<Rightarrow> s\<lparr>events := (events s)[n := True]\<rparr>)"

definition settle_request :: "'w gate \<Rightarrow> string \<Rightarrow> bool \<Rightarrow> string option \<Rightarrow> string option
    \<Rightarrow> (string, pyval) dict option \<Rightarrow> time \<Rightarrow> time \<Rightarrow> ('w approvals, approval_request option) act" where
  "settle_request g i yes by note args now t s =
     (case map_of (requests s) i of
        None \<Rightarrow> (Inr None, s)
      | Some r \<Rightarrow>
          if ar_state r \<noteq> PENDING then (Inr (Some r), s)
          else
            (let r' = decided yes by note args now t r; ev = map_of (waiters s) i
             in case write_request g r' (s\<lparr>requests := AList.update i r' (requests s)\<rparr>) of
                  (Inl e, s') \<Rightarrow> (Inl e, s')
                | (Inr _, s') \<Rightarrow> (Inr (Some r'), ring ev s')))"

definition decide :: "'w gate \<Rightarrow> string \<Rightarrow> bool \<Rightarrow> string option \<Rightarrow> string option \<Rightarrow> (string, pyval) dict option
    \<Rightarrow> time \<Rightarrow> time \<Rightarrow> ('w approvals, approval_request option) act" where
  "decide g i yes by note args now t =
     act_bind (load_requests g now) (\<lambda>_. settle_request g i yes by note args now t)"

definition expire :: "'w gate \<Rightarrow> string \<Rightarrow> time \<Rightarrow> ('w approvals, unit) act" where
  "expire g i t s =
     (case map_of (requests s) i of
        None \<Rightarrow> (Inr (), s)
      | Some r \<Rightarrow>
          if ar_state r \<noteq> PENDING then (Inr (), s)
          else (let r' = r\<lparr>ar_state := EXPIRED, decided_at := t\<rparr>
                in write_request g r' (s\<lparr>requests := AList.update i r' (requests s)\<rparr>)))"

fun expire_all :: "'w gate \<Rightarrow> string list \<Rightarrow> time \<Rightarrow> ('w approvals, unit) act" where
  "expire_all g [] t = act_return ()"
| "expire_all g (i # is) t = act_bind (expire g i t) (\<lambda>_. expire_all g is t)"

definition get_request :: "'w gate \<Rightarrow> string \<Rightarrow> time \<Rightarrow> ('w approvals, approval_request option) act" where
  "get_request g i t = act_bind (load_requests g t) (\<lambda>_ s. (Inr (map_of (requests s) i), s))"

text \<open>The live requests, oldest first; what is past its deadline is settled.\<close>

definition pending :: "'w gate \<Rightarrow> time \<Rightarrow> ('w approvals, (string, pyval) dict list) act" where
  "pending g t =
     act_bind (load_requests g t) (\<lambda>_ s.
       (let rs = filter (\<lambda>r. ar_state r = PENDING) (map snd (requests s));
            stale = filter (is_expired t) rs;
            live = filter (\<lambda>r. \<not> is_expired t r) rs
        in act_bind (expire_all g (map ar_id stale) t)
             (\<lambda>_. act_return (map request_dict (sort_key requested_at live))) s))"

section \<open>Waiting\<close>

text \<open>What the other tasks of the node do: a gate operation, or the end of another wait in a timeout.\<close>

datatype gate_op =
    File string time time string "(string, pyval) dict" "string option" "string option" "string option"
      "string option" "time option"
  | Decide string bool "string option" "string option" "(string, pyval) dict option" time time
  | Look string time
  | ListPending time
  | Lapse string time

definition unwait :: "string \<Rightarrow> 'w approvals \<Rightarrow> 'w approvals" where
  "unwait i s = s\<lparr>waiters := AList.delete i (waiters s)\<rparr>"

definition lapse :: "'w gate \<Rightarrow> string \<Rightarrow> time \<Rightarrow> ('w approvals, unit) act" where
  "lapse g i t s = (case expire g i t s of (out, s') \<Rightarrow> (out, unwait i s'))"

fun run_op :: "'w gate \<Rightarrow> gate_op \<Rightarrow> 'w approvals \<Rightarrow> 'w approvals" where
  "run_op g (File i t t' tool args prefix why asker conv timeout) s =
     snd (request g i t t' tool args prefix why asker conv timeout s)"
| "run_op g (Decide i yes by note args now t) s = snd (decide g i yes by note args now t s)"
| "run_op g (Look i t) s = snd (get_request g i t s)"
| "run_op g (ListPending t) s = snd (pending g t s)"
| "run_op g (Lapse i t) s = snd (lapse g i t s)"

fun run_ops :: "'w gate \<Rightarrow> gate_op list \<Rightarrow> 'w approvals \<Rightarrow> 'w approvals" where
  "run_ops g [] s = s"
| "run_ops g (op # ops) s = run_ops g ops (run_op g op s)"

definition budget :: "'w gate \<Rightarrow> time option \<Rightarrow> time \<Rightarrow> approval_request \<Rightarrow> time option" where
  "budget g timeout now r =
     (let b = (if timeout = Some (- 1) then ga_timeout g else timeout)
      in if expires_at r \<noteq> 0
         then (let left = expires_at r - now in Some (case b of None \<Rightarrow> left | Some x \<Rightarrow> min x left))
         else b)"

text \<open>
  \<open>wait\<close>: \<open>others\<close> is what the other tasks do until the waiter goes on, \<open>timer\<close> whether its timeout
  fired before it saw the event, and \<open>t\<close> the clock then. A wait without a deadline whose event is
  never set does not return.
\<close>

definition timed_out :: "'w gate \<Rightarrow> approval_request \<Rightarrow> string \<Rightarrow> time \<Rightarrow> ('w approvals, approval_request) act" where
  "timed_out g r i t s =
     (case lapse g i t s of
        (Inl e, s') \<Rightarrow> (Inl e, s')
      | (Inr _, s') \<Rightarrow> (Inl (approval_timeout
          (''Nobody decided approval '' @ i @ '' in time; '' @ ar_tool r @ '' did not run'')
          (PDict [(''id'', PStr i), (''tool'', PStr (ar_tool r))])), s'))"

definition gate_wait ::
  "'w gate \<Rightarrow> string \<Rightarrow> time option \<Rightarrow> time \<Rightarrow> gate_op list \<Rightarrow> bool \<Rightarrow> time \<Rightarrow> 'w approvals
   \<Rightarrow> ((exc + approval_request) \<times> 'w approvals) option" where
  "gate_wait g i timeout now others timer t s =
     (case map_of (requests s) i of
        None \<Rightarrow> Some (Inl (raised (not_found_error (PStr (''No approval request '' @ i)) PNone PNone)), s)
      | Some r \<Rightarrow>
          if ar_state r \<noteq> PENDING then Some (settled r, s)
          else
            (let b = budget g timeout now r
             in case map_of (waiters s) i of
                  None \<Rightarrow> Some (Inl (approval_timeout
                    (''Approval '' @ i @ '' was filed by an earlier run of this node'') (PDict [(''id'', PStr i)])), s)
                | Some ev \<Rightarrow>
                    if b \<noteq> None \<and> the b \<le> 0 then Some (timed_out g r i t s)
                    else
                      (let s1 = run_ops g others s
                       in if events s1 ! ev \<and> \<not> (b \<noteq> None \<and> timer)
                          then Some (settled (dict_get (requests s1) i r), unwait i s1)
                          else if b = None then None
                          else Some (timed_out g r i t s1))))"

section \<open>On the fabric\<close>

text \<open>
  The handlers of the two keys, and the other side of them: every reply of the fan-out is looked at,
  what is not a list is the only reply, an error payload is passed over. \<open>py_str\<close> is \<open>str\<close>.
\<close>

definition pending_reply :: "'w gate \<Rightarrow> string \<Rightarrow> time \<Rightarrow> ('w approvals, (string, pyval) dict) act" where
  "pending_reply g service t =
     act_bind (pending g t) (\<lambda>rs. act_return [(''service'', PStr service), (''pending'', PList (map PDict rs))])"

definition affirmative :: "(pyval \<Rightarrow> string) \<Rightarrow> pyval \<Rightarrow> bool" where
  "affirmative py_str v =
     (case v of
        PBool b \<Rightarrow> b
      | _ \<Rightarrow> map lower_char (strip (py_str v)) \<in> {''true'', ''1'', ''yes'', ''y''})"

definition decide_reply ::
  "(pyval \<Rightarrow> string) \<Rightarrow> 'w gate \<Rightarrow> string \<Rightarrow> pyval \<Rightarrow> string option \<Rightarrow> string option \<Rightarrow> time \<Rightarrow> time
   \<Rightarrow> ('w approvals, (string, pyval) dict) act" where
  "decide_reply py_str g i approved by note now t =
     act_bind (decide g i (affirmative py_str approved) by note None now t) (\<lambda>out.
       act_return (case out of
         None \<Rightarrow> [(''matched'', PBool False)]
       | Some r \<Rightarrow> [(''matched'', PBool True), (''request'', PDict (request_dict r))]))"

fun replies_of :: "pyval \<Rightarrow> pyval list" where
  "replies_of PNone = []"
| "replies_of (PList vs) = vs"
| "replies_of v = [v]"

fun listed_in :: "pyval \<Rightarrow> exc + pyval list" where
  "listed_in (PDict d) =
     (if is_error_payload (PDict d) then Inr []
      else (let p = dict_get d ''pending'' PNone
            in res_bind (lift_res (iterated (if truthy p then p else PList []))) (\<lambda>vs.
                 Inr (List.map_filter (\<lambda>v. case v of
                     PDict q \<Rightarrow> Some (PDict (AList.update ''service'' (dict_get d ''service'' PNone) q))
                   | _ \<Rightarrow> None) vs))))"
| "listed_in v = Inr []"

fun listed :: "pyval list \<Rightarrow> exc + pyval list" where
  "listed [] = Inr []"
| "listed (v # vs) = res_bind (listed_in v) (\<lambda>xs. res_bind (listed vs) (\<lambda>ys. Inr (xs @ ys)))"

fun find_matched :: "string \<Rightarrow> pyval list \<Rightarrow> exc + pyval" where
  "find_matched i [] = Inl (raised (not_found_error (PStr (''No node is holding approval '' @ i)) (PDict [(''id'', PStr i)]) PNone))"
| "find_matched i (v # vs) =
     (case v of
        PDict d \<Rightarrow>
          if truthy (dict_get d ''matched'' PNone)
          then Inr (let r = dict_get d ''request'' PNone in if truthy r then r else PDict [])
          else find_matched i vs
      | _ \<Rightarrow> find_matched i vs)"

text \<open>\<open>out.sort(key=lambda r: r.get("requested_at") or 0)\<close>: times are numbers; two keys of which one is not
  a number are a \<open>TypeError\<close>.\<close>

fun time_key :: "pyval \<Rightarrow> rat option" where
  "time_key (PDict d) =
     (case dict_get d ''requested_at'' PNone of
        PFloat x \<Rightarrow> Some x
      | PInt n \<Rightarrow> Some (of_int n)
      | PBool b \<Rightarrow> Some (if b then 1 else 0)
      | v \<Rightarrow> if truthy v then None else Some 0)"
| "time_key v = None"

definition by_time :: "pyval list \<Rightarrow> exc + pyval list" where
  "by_time vs =
     (if length vs \<le> 1 then Inr vs
      else if list_all (\<lambda>v. time_key v \<noteq> None) vs then Inr (sort_key (\<lambda>v. the (time_key v)) vs)
      else Inl (type_error ''not supported between instances''))"

text \<open>\<open>query\<close> asks a key expression with parameters: \<open>Istos.query_once\<close>.\<close>

definition is_not_found :: "exc \<Rightarrow> bool" where
  "is_not_found e \<longleftrightarrow> ''NotFoundError'' \<in> set (x_mro e)"

definition asked :: "('w, pyval) act \<Rightarrow> ('w, pyval list) act" where
  "asked q w =
     (case q w of
        (Inl e, w') \<Rightarrow> if is_not_found e then (Inr [], w') else (Inl e, w')
      | (Inr v, w') \<Rightarrow> (Inr (replies_of v), w'))"

definition list_approvals ::
  "(string \<Rightarrow> (string, pyval) dict \<Rightarrow> ('w, pyval) act) \<Rightarrow> ('w, pyval list) act" where
  "list_approvals query =
     act_bind (asked (query ''.istos/approvals/*'' [])) (\<lambda>vs. act_of (res_bind (listed vs) by_time))"

definition decide_approval ::
  "(string \<Rightarrow> (string, pyval) dict \<Rightarrow> ('w, pyval) act) \<Rightarrow> string \<Rightarrow> bool \<Rightarrow> string option \<Rightarrow> string option
   \<Rightarrow> ('w, pyval) act" where
  "decide_approval query i yes by note =
     act_bind (asked (query ''.istos/approvals/*/decide''
       [(''request_id'', PStr i), (''approved'', PBool yes), (''by'', opt_str by), (''note'', opt_str note)]))
       (\<lambda>vs. act_of (find_matched i vs))"

end
