(* ===== verification/ApprovalProps.thy ===== *)
theory ApprovalProps
  imports Approval
begin

text \<open>
  What a human's decision is worth: a settled request stays as it was settled, a request is approved
  only by a yes before its deadline, and a waiter goes on only with what was approved.
\<close>

section \<open>What operations change\<close>

text \<open>Only the world behind the gate changes.\<close>

definition same_gate :: "'w approvals \<Rightarrow> 'w approvals \<Rightarrow> bool" where
  "same_gate s s' \<longleftrightarrow> requests s' = requests s \<and> waiters s' = waiters s \<and> events s' = events s
     \<and> was_loaded s' = was_loaded s"

text \<open>Recovery adds requests and touches none it has.\<close>

definition recovers :: "'w approvals \<Rightarrow> 'w approvals \<Rightarrow> bool" where
  "recovers s s' \<longleftrightarrow> map_of (requests s) \<subseteq>\<^sub>m map_of (requests s') \<and> waiters s' = waiters s \<and> events s' = events s"

text \<open>A request is never lost, what it is about never changes, and once settled it stays as it is.\<close>

definition evolves :: "string \<Rightarrow> 'w approvals \<Rightarrow> 'w approvals \<Rightarrow> bool" where
  "evolves i s s' \<longleftrightarrow> (\<forall>r. map_of (requests s) i = Some r \<longrightarrow>
     (\<exists>r'. map_of (requests s') i = Some r' \<and> ar_tool r' = ar_tool r \<and> expires_at r' = expires_at r
       \<and> (ar_state r \<noteq> PENDING \<longrightarrow> r' = r)))"

interpretation gate_same: state_order same_gate
  by unfold_locales (simp_all add: same_gate_def)

interpretation gate_recovers: state_order recovers
  by unfold_locales (auto simp: recovers_def same_gate_def intro: map_le_trans)

interpretation gate_evolves: state_order "evolves i"
  by unfold_locales (fastforce simp: evolves_def)+

lemma same_recovers: "same_gate s s' \<Longrightarrow> recovers s s'"
  by (simp add: recovers_def same_gate_def)

lemma recovers_evolves: "recovers s s' \<Longrightarrow> evolves i s s'"
  unfolding recovers_def evolves_def by (metis domI map_le_def)

lemma moves_in_world: "moves same_gate (in_world m)" "moves same_gate (\<lambda>s. in_world (f s) s)"
  by (auto simp: moves_def same_gate_def in_world_def split: prod.split)

lemma moves_write: "moves same_gate (write_request g r)"
  unfolding write_request_def
  by (cases "ga_storage g") (simp_all add: gate_same.moves_return gate_same.moves_swallow gate_same.moves_bind moves_in_world)

lemmas moves_recovers = moves_mono [OF _ same_recovers]
lemmas moves_evolves = moves_mono [OF _ recovers_evolves] moves_mono [OF moves_recovers recovers_evolves]

lemma moves_recover: "moves recovers (recover_requests g st t vs)"
proof (induction vs)
  case (Cons v vs)
  have "moves recovers (\<lambda>s. case raw of
         PDict d \<Rightarrow>
           if i \<in> dkeys (requests s) then (Inr (), s)
           else (case lift_res (request_from t d) of
                   Inl e \<Rightarrow> (Inl e, s)
                 | Inr r \<Rightarrow> (Inr (), s\<lparr>requests := AList.update i r (requests s)\<rparr>))
       | _ \<Rightarrow> (Inr (), s))" for raw i
    by (auto simp: moves_def recovers_def map_le_def dkeys_map_of split: pyval.split sum.split)
  then show ?case
    by (auto intro!: gate_recovers.moves_intros moves_recovers [OF moves_in_world(1)] Cons.IH)
qed (simp add: gate_recovers.moves_return)

lemma moves_load: "moves recovers (load_requests g t)"
proof -
  have "recovers s (snd (load_requests g t s))" for s
  proof -
    have "moves recovers (swallow (act_bind (in_world (gs_get st (approvals_index_key g))) (\<lambda>index.
        act_bind (act_of (lift_res (iterated (if truthy index then index else PList [])))) (\<lambda>ids.
        recover_requests g st t ids))))" for st
      by (intro gate_recovers.moves_intros moves_recovers [OF moves_in_world(1)] moves_recover)
    moreover have "recovers s (s\<lparr>was_loaded := True\<rparr>)" by (simp add: recovers_def)
    ultimately show ?thesis
      unfolding load_requests_def moves_def
      by (auto split: option.split intro: gate_recovers.follows gate_recovers.stays)
  qed
  then show ?thesis by (simp add: moves_def)
qed

text \<open>A notifier that tells people and leaves the gate alone.\<close>

definition quiet :: "'w gate \<Rightarrow> bool" where
  "quiet g \<longleftrightarrow> (\<forall>f r. ga_on_request g = Some f \<longrightarrow> moves same_gate (f r))"

text \<open>What an operation does to a request: nothing, its decision, its expiry, or a recovery.\<close>

lemma request_moves:
  assumes "quiet g"
  shows "\<exists>s1. recovers s s1 \<and> same_gate (file_request (new_request g i t t' tool args prefix why asker conv timeout) s1)
      (snd (request g i t t' tool args prefix why asker conv timeout s))
    \<or> recovers s (snd (request g i t t' tool args prefix why asker conv timeout s))"
proof (cases "load_requests g t s")
  case (Pair out s1)
  let ?r = "new_request g i t t' tool args prefix why asker conv timeout"
  have s1: "recovers s s1" using movesD [OF moves_load Pair] .
  have "moves same_gate (case ga_on_request g of None \<Rightarrow> act_return () | Some f \<Rightarrow> swallow (f ?r))"
    using assms by (auto simp: quiet_def split: option.split intro: gate_same.moves_intros)
  then have "moves same_gate (act_bind (write_request g ?r) (\<lambda>_.
      act_bind (case ga_on_request g of None \<Rightarrow> act_return () | Some f \<Rightarrow> swallow (f ?r)) (\<lambda>_ s.
        (Inr (dict_get (requests s) i ?r), s))))"
    by (intro gate_same.moves_intros moves_write)
  then have "same_gate (file_request ?r s1) (snd (request g i t t' tool args prefix why asker conv timeout s))"
    if "out = Inr ()" using Pair that
    by (simp add: request_def Let_def act_bind_def [of "load_requests g t"] act_bind_def [of "\<lambda>s. (Inr (), file_request ?r s)"] moves_def)
  moreover have "snd (request g i t t' tool args prefix why asker conv timeout s) = s1" if "out = Inl e" for e
    using Pair that by (simp add: request_def Let_def act_bind_def [of "load_requests g t"])
  ultimately show ?thesis using s1 by (cases out) auto
qed

lemma decide_moves:
  "let s1 = snd (load_requests g now s); s2 = snd (decide g i yes who msg args now t s) in recovers s s1 \<and>
    (case map_of (requests s1) i of
       Some r \<Rightarrow> if ar_state r = PENDING \<and> fst (load_requests g now s) = Inr ()
         then map_of (requests s2) = (map_of (requests s1))(i \<mapsto> decided yes who msg args now t r) \<and> waiters s2 = waiters s1
         else same_gate s1 s2
     | None \<Rightarrow> same_gate s1 s2)"
proof (cases "load_requests g now s")
  case (Pair out s1)
  have s1: "recovers s s1" using movesD [OF moves_load Pair] .
  have w: "\<exists>out. write_request g r s0 = (out, snd (write_request g r s0))" for r s0 by (metis prod.collapse)
  show ?thesis
  proof (cases "out = Inr () \<and> map_of (requests s1) i \<noteq> None \<and> ar_state (the (map_of (requests s1) i)) = PENDING")
    case True
    then obtain r where r: "out = Inr ()" "map_of (requests s1) i = Some r" "ar_state r = PENDING" by auto
    let ?r = "decided yes who msg args now t r" and ?s = "s1\<lparr>requests := AList.update i (decided yes who msg args now t r) (requests s1)\<rparr>"
    obtain o2 s2 where w: "write_request g ?r ?s = (o2, s2)" by fastforce
    have "same_gate ?s s2" using movesD [OF moves_write w] .
    moreover have "snd (decide g i yes who msg args now t s) = (case o2 of Inl e \<Rightarrow> s2
        | Inr u \<Rightarrow> (case map_of (waiters s1) i of None \<Rightarrow> s2 | Some n \<Rightarrow> s2\<lparr>events := (events s2)[n := True]\<rparr>))"
      using Pair r w by (simp add: decide_def settle_request_def ring_def act_bind_def split: sum.split option.split)
    ultimately show ?thesis using Pair r s1
      by (auto simp: same_gate_def split: sum.split option.split)
  next
    case False
    then have "snd (decide g i yes who msg args now t s) = s1"
      using Pair by (cases out) (auto simp: decide_def settle_request_def act_bind_def split: option.split)
    then show ?thesis using False Pair s1 by (auto simp: same_gate_def split: option.split)
  qed
qed

text \<open>The next state of a request, by one operation that does not file its identifier again.\<close>

definition lapsed_to :: "approval_request \<Rightarrow> approval_request \<Rightarrow> bool" where
  "lapsed_to r r' \<longleftrightarrow> r' = r \<or> (ar_state r = PENDING \<and> (\<exists>t. r' = r\<lparr>ar_state := EXPIRED, decided_at := t\<rparr>))"

lemma expire_moves:
  "map_of (requests s) i = Some r \<Longrightarrow> \<exists>r'. map_of (requests (snd (expire g j t s))) i = Some r' \<and> lapsed_to r r'"
proof (cases "map_of (requests s) j")
  case (Some q)
  assume r: "map_of (requests s) i = Some r"
  let ?q = "q\<lparr>ar_state := EXPIRED, decided_at := t\<rparr>"
  have "same_gate (s\<lparr>requests := AList.update j ?q (requests s)\<rparr>)
      (snd (write_request g ?q (s\<lparr>requests := AList.update j ?q (requests s)\<rparr>)))"
    using moves_write unfolding moves_def by blast
  then show ?thesis using r Some by (auto simp: expire_def Let_def same_gate_def lapsed_to_def)
qed (simp add: expire_def lapsed_to_def)

lemma lapsed_to_trans: "lapsed_to r r' \<Longrightarrow> lapsed_to r' r'' \<Longrightarrow> lapsed_to r r''"
  by (auto simp: lapsed_to_def)

lemma expire_all_moves:
  "map_of (requests s) i = Some r \<Longrightarrow> \<exists>r'. map_of (requests (snd (expire_all g js t s))) i = Some r' \<and> lapsed_to r r'"
proof (induction js arbitrary: s r)
  case (Cons j js)
  obtain out s1 where e: "expire g j t s = (out, s1)" by fastforce
  obtain r1 where r1: "map_of (requests s1) i = Some r1" "lapsed_to r r1"
    using expire_moves [OF Cons.prems, of g j t] e by auto
  show ?case
  proof (cases out)
    case (Inr u)
    then show ?thesis using Cons.IH [OF r1(1)] r1(2) e by (auto simp: act_bind_def intro: lapsed_to_trans)
  qed (use r1 e in \<open>auto simp: act_bind_def\<close>)
qed (auto simp: act_return_def lapsed_to_def)

lemma pending_ends:
  "\<exists>s1 js. recovers s s1 \<and> (snd (pending g t s) = s1 \<or> snd (pending g t s) = snd (expire_all g js t s1))"
proof (cases "load_requests g t s")
  case (Pair out s1)
  let ?ids = "map ar_id (filter (is_expired t) (filter (\<lambda>r. ar_state r = PENDING) (map snd (requests s1))))"
  have "snd (pending g t s) = (case out of Inl _ \<Rightarrow> s1 | Inr _ \<Rightarrow> snd (expire_all g ?ids t s1))"
    using Pair by (simp add: pending_def Let_def act_bind_def act_return_def split: sum.split prod.split)
  then show ?thesis using movesD [OF moves_load Pair] by (cases out) auto
qed

fun files :: "string \<Rightarrow> gate_op \<Rightarrow> bool" where
  "files i (File j t t' tool args prefix why asker conv timeout) \<longleftrightarrow> i = j"
| "files i op \<longleftrightarrow> False"

lemma recovers_request: "recovers s s' \<Longrightarrow> map_of (requests s) i = Some r \<Longrightarrow> map_of (requests s') i = Some r"
  unfolding recovers_def map_le_def by (metis domI)

lemma run_op_request:
  assumes q: "quiet g" and r: "map_of (requests s) i = Some r" and new: "\<not> files i op"
  shows "\<exists>r'. map_of (requests (run_op g op s)) i = Some r' \<and> (lapsed_to r r' \<or>
    (\<exists>yes who msg args now t. op = Decide i yes who msg args now t \<and> ar_state r = PENDING
       \<and> r' = decided yes who msg args now t r))"
proof (cases op)
  case (File j t t' tool args prefix why asker conv timeout)
  then have "map_of (requests (run_op g op s)) i = Some r"
    using request_moves [OF q, where i = j and s = s and t = t and t' = t' and tool = tool and args = args and prefix = prefix and why = why
        and asker = asker and conv = conv and timeout = timeout] new recovers_request [OF _ r]
    by (auto simp: file_request_def same_gate_def new_request_def Let_def)
  then show ?thesis by (auto simp: lapsed_to_def)
next
  case (Decide j yes who msg args now t)
  let ?s1 = "snd (load_requests g now s)"
  have "recovers s ?s1" using moves_load unfolding moves_def by blast
  then have r1: "map_of (requests ?s1) i = Some r" using recovers_request r by blast
  show ?thesis
    using decide_moves [of g now s j yes who msg args t] r1 Decide
    by (cases "i = j") (auto simp: Let_def same_gate_def lapsed_to_def split: option.splits if_splits)
next
  case (Look j t)
  have "recovers s (snd (load_requests g t s))" using moves_load unfolding moves_def by blast
  then have "map_of (requests (snd (load_requests g t s))) i = Some r" using recovers_request r by blast
  then show ?thesis using Look
    by (auto simp: get_request_def act_bind_def lapsed_to_def split: prod.split sum.split)
next
  case (ListPending t)
  obtain s1 js where p: "recovers s s1" "run_op g op s = s1 \<or> run_op g op s = snd (expire_all g js t s1)"
    using pending_ends [of s g t] ListPending by auto
  have r1: "map_of (requests s1) i = Some r" using recovers_request [OF p(1) r] .
  then show ?thesis using p(2) expire_all_moves [OF r1, of g js t] by (auto simp: lapsed_to_def)
next
  case (Lapse j t)
  then show ?thesis using expire_moves [OF r, of g j t] by (auto simp: lapse_def unwait_def split: prod.split)
qed

section \<open>A settled request is final\<close>

lemma settled_final:
  assumes "quiet g" "\<forall>op\<in>set ops. \<not> files i op" "map_of (requests s) i = Some r"
  shows "\<exists>r'. map_of (requests (run_ops g ops s)) i = Some r' \<and> ar_tool r' = ar_tool r
    \<and> expires_at r' = expires_at r \<and> (ar_state r \<noteq> PENDING \<longrightarrow> r' = r)"
  using assms(2,3)
proof (induction ops arbitrary: s r)
  case (Cons op ops)
  obtain r1 where r1: "map_of (requests (run_op g op s)) i = Some r1" and
    step: "lapsed_to r r1 \<or> (\<exists>yes who msg args now t. op = Decide i yes who msg args now t \<and> ar_state r = PENDING
       \<and> r1 = decided yes who msg args now t r)"
    using run_op_request [OF assms(1) Cons.prems(2)] Cons.prems(1) by (metis list.set_intros(1))
  have "ar_tool r1 = ar_tool r \<and> expires_at r1 = expires_at r \<and> (ar_state r \<noteq> PENDING \<longrightarrow> r1 = r)"
    using step by (auto simp: lapsed_to_def decided_def)
  then show ?case using Cons.IH [OF _ r1] Cons.prems(1) by auto
qed simp

text \<open>A request keeps its tool and its deadline, and once a human said yes or no or its time ran
  out, nothing that any task does to the gate changes it: the first decision wins, and no later
  one, listing or timeout turns a no into a yes.\<close>

theorem settled_is_final:
  assumes "quiet g" "\<forall>op\<in>set ops. \<not> files i op" "map_of (requests s) i = Some r"
  shows "\<exists>r'. map_of (requests (run_ops g ops s)) i = Some r' \<and> ar_tool r' = ar_tool r
    \<and> expires_at r' = expires_at r \<and> (ar_state r \<noteq> PENDING \<longrightarrow> r' = r)"
  by (rule settled_final [OF assms])

definition refund_gate :: "unit gate" where
  "refund_gate = gate_init None (Some 300) ''billing'' (Some ''n1'') [] None"

definition filed :: "unit approvals" where
  "filed = snd (request refund_gate ''r1'' 0 0 ''refund'' [(''order'', PInt 7)] None None None None (Some (- 1))
     (fresh_approvals ()))"

definition filed_request :: approval_request where
  "filed_request = new_request refund_gate ''r1'' 0 0 ''refund'' [(''order'', PInt 7)] None None None None (Some (- 1))"

definition denied :: "unit approvals" where
  "denied = run_ops refund_gate [Decide ''r1'' False None None None 10 10] filed"

lemma refund_quiet: "quiet refund_gate"
  by (simp add: quiet_def refund_gate_def gate_init_def)

lemma filed_pending: "map_of (requests filed) ''r1'' = Some filed_request" "ar_state filed_request = PENDING"
  by (code_simp, code_simp)

lemma settled_is_final_witness:
  "map_option ar_state (map_of (requests (run_ops refund_gate [Decide ''r1'' True None None None 20 20] denied)) ''r1'') = Some DENIED"
proof -
  have d: "map_of (requests denied) ''r1'' = Some (decided False None None None 10 10 filed_request)" by code_simp
  show ?thesis
    using settled_is_final [OF refund_quiet _ d, of "[Decide ''r1'' True None None None 20 20]"]
    by (auto simp: decided_def is_expired_def filed_request_def new_request_def refund_gate_def gate_init_def)
qed

section \<open>Only a yes approves\<close>

lemma decided_not_pending: "ar_state (decided yes who msg args now t r) \<noteq> PENDING"
  by (simp add: decided_def)

lemma approved_by_yes:
  assumes "quiet g" "\<forall>op\<in>set ops. \<not> files i op" "map_of (requests s) i = Some r" "ar_state r = PENDING"
    and "map_of (requests (run_ops g ops s)) i = Some r'" "ar_state r' = APPROVED"
  shows "\<exists>who msg args now t. Decide i True who msg args now t \<in> set ops \<and> \<not> is_expired now r
    \<and> decided_by r' = who \<and> ar_arguments r' = (case args of Some a \<Rightarrow> a | None \<Rightarrow> ar_arguments r)"
  using assms(2-5)
proof (induction ops arbitrary: s)
  case Nil
  then show ?case using assms(6) by simp
next
  case (Cons op ops)
  have new: "\<not> files i op" "\<forall>op\<in>set ops. \<not> files i op" using Cons.prems(1) by simp_all
  obtain r1 where r1: "map_of (requests (run_op g op s)) i = Some r1" and
    step: "lapsed_to r r1 \<or> (\<exists>yes who msg args now t. op = Decide i yes who msg args now t \<and> ar_state r = PENDING
       \<and> r1 = decided yes who msg args now t r)"
    using run_op_request [OF assms(1) Cons.prems(2) new(1)] by metis
  have last: "r' = r1" if "ar_state r1 \<noteq> PENDING"
    using settled_final [OF assms(1) new(2) r1] that Cons.prems(4) by simp
  show ?case
  proof (cases "ar_state r1 = PENDING")
    case True
    then have "r1 = r" using step decided_not_pending unfolding lapsed_to_def by fastforce
    then have "map_of (requests (run_op g op s)) i = Some r" using r1 by simp
    moreover have "map_of (requests (run_ops g ops (run_op g op s))) i = Some r'" using Cons.prems(4) by simp
    ultimately show ?thesis using Cons.IH [OF new(2) _ Cons.prems(3)] by (meson list.set_intros(2))
  next
    case False
    then have "r1 = r'" "ar_state r1 = APPROVED" using last assms(6) by simp_all
    then obtain yes who msg args now t where d: "op = Decide i yes who msg args now t" "r' = decided yes who msg args now t r"
      using step assms(4) by (auto simp: lapsed_to_def)
    have "yes" "\<not> is_expired now r" using d(2) \<open>r1 = r'\<close> \<open>ar_state r1 = APPROVED\<close> by (auto simp: decided_def split: if_splits)
    then have "Decide i True who msg args now t \<in> set (op # ops) \<and> \<not> is_expired now r
        \<and> decided_by r' = who \<and> ar_arguments r' = (case args of Some a \<Rightarrow> a | None \<Rightarrow> ar_arguments r)"
      using d by (simp add: decided_def split: option.split)
    then show ?thesis by blast
  qed
qed

lemma wait_yes:
  assumes "quiet g" "\<forall>op\<in>set others. \<not> files i op"
    and ret: "gate_wait g i timeout now others timer t s = Some (Inr r', s')"
  shows "ar_state r' = APPROVED \<and> map_of (requests s') i = Some r' \<and>
    (map_of (requests s) i = Some r' \<or>
     (\<exists>r who msg args now' t'. map_of (requests s) i = Some r \<and> ar_state r = PENDING \<and> ar_tool r' = ar_tool r
        \<and> Decide i True who msg args now' t' \<in> set others \<and> \<not> is_expired now' r \<and> decided_by r' = who
        \<and> ar_arguments r' = (case args of Some a \<Rightarrow> a | None \<Rightarrow> ar_arguments r)))"
proof -
  have S: "x = y \<and> ar_state y = APPROVED" if "settled x = Inr y" for x y
    using that by (auto simp: settled_def split: approval_state.splits)
  have T: "fst (timed_out g x i t s0) \<noteq> Inr y" for x y s0
    by (auto simp: timed_out_def split: prod.split sum.split)
  obtain r where r: "map_of (requests s) i = Some r"
    using ret by (auto simp: gate_wait_def split: option.splits)
  show ?thesis
  proof (cases "ar_state r = PENDING")
    case False
    then show ?thesis using ret r S by (auto simp: gate_wait_def)
  next
    case True
    let ?s1 = "run_ops g others s"
    have w: "settled (dict_get (requests ?s1) i r) = Inr r'" "s' = unwait i ?s1"
      using ret r True T by (auto simp: gate_wait_def Let_def prod_eq_iff split: option.splits if_splits)
    obtain r1 where r1: "map_of (requests ?s1) i = Some r1" "ar_tool r1 = ar_tool r"
      using settled_final [OF assms(1,2) r] by auto
    then have "r1 = r'" "ar_state r' = APPROVED" using S w(1) by (auto simp: dict_get_def)
    moreover obtain who msg args now' t' where "Decide i True who msg args now' t' \<in> set others"
        "\<not> is_expired now' r" "decided_by r' = who" "ar_arguments r' = (case args of Some a \<Rightarrow> a | None \<Rightarrow> ar_arguments r)"
      using approved_by_yes [OF assms(1,2) r True] r1 calculation by blast
    ultimately show ?thesis using r r1 True w(2) by (auto simp: unwait_def)
  qed
qed

text \<open>C19: a wait that returns returns an approved request, and what was pending when it began was
  approved by a yes given meanwhile, before the deadline; the arguments it returns to be run are the
  approver's, or the filed ones where the approver left them alone.\<close>

theorem wait_needs_a_yes:
  assumes "quiet g" "\<forall>op\<in>set others. \<not> files i op"
    and ret: "gate_wait g i timeout now others timer t s = Some (Inr r', s')"
  shows "ar_state r' = APPROVED \<and> map_of (requests s') i = Some r' \<and>
    (map_of (requests s) i = Some r' \<or>
     (\<exists>r who msg args now' t'. map_of (requests s) i = Some r \<and> ar_state r = PENDING \<and> ar_tool r' = ar_tool r
        \<and> Decide i True who msg args now' t' \<in> set others \<and> \<not> is_expired now' r \<and> decided_by r' = who
        \<and> ar_arguments r' = (case args of Some a \<Rightarrow> a | None \<Rightarrow> ar_arguments r)))"
  by (rule wait_yes [OF assms])

definition yes_op :: gate_op where
  "yes_op = Decide ''r1'' True (Some ''amir'') None (Some [(''order'', PInt 8)]) 10 10"

lemma refund_waited:
  "\<exists>s'. gate_wait refund_gate ''r1'' (Some (- 1)) 1 [yes_op] False 10 filed
    = Some (Inr (decided True (Some ''amir'') None (Some [(''order'', PInt 8)]) 10 10 filed_request), s')"
proof -
  have "map_option fst (gate_wait refund_gate ''r1'' (Some (- 1)) 1 [yes_op] False 10 filed)
    = Some (Inr (decided True (Some ''amir'') None (Some [(''order'', PInt 8)]) 10 10 filed_request))"
    by code_simp
  then show ?thesis by auto
qed

lemma wait_needs_a_yes_witness:
  "ar_state (decided True (Some ''amir'') None (Some [(''order'', PInt 8)]) 10 10 filed_request) = APPROVED"
  using refund_waited wait_needs_a_yes [OF refund_quiet, of "[yes_op]" "''r1''"] by (auto simp: yes_op_def)

section \<open>A yes wakes the waiter\<close>

text \<open>Events are never cleared.\<close>

definition rings :: "nat \<Rightarrow> 'w approvals \<Rightarrow> 'w approvals \<Rightarrow> bool" where
  "rings ev s s' \<longleftrightarrow> length (events s) \<le> length (events s')
     \<and> (ev < length (events s) \<longrightarrow> events s ! ev \<longrightarrow> events s' ! ev)"

interpretation gate_rings: state_order "rings ev"
  by unfold_locales (auto simp: rings_def)

lemma recovers_rings: "recovers s s' \<Longrightarrow> rings ev s s'"
  by (simp add: recovers_def rings_def)

lemmas moves_rings = moves_mono [OF _ recovers_rings] moves_mono [OF moves_recovers recovers_rings]

lemma expire_rings: "moves (rings ev) (expire g i t)"
proof -
  have "rings ev s (snd (write_request g r (s\<lparr>requests := rs\<rparr>)))" for s r rs
    using moves_write [of g r] unfolding moves_def same_gate_def rings_def
    by (metis approvals.select_convs(3) approvals.surjective approvals.update_convs(1) order_refl)
  then show ?thesis by (auto simp: moves_def expire_def Let_def rings_def split: option.split)
qed

lemma expire_all_rings: "moves (rings ev) (expire_all g js t)"
  by (induction js) (auto intro!: gate_rings.moves_intros expire_rings)

lemma write_events [simp]: "write_request g r s = (out, s') \<Longrightarrow> events s' = events s"
  using moves_write [of g r] unfolding moves_def same_gate_def by (metis snd_conv)

lemma ring_rings: "rings ev s (ring n s)"
  by (cases n; cases "n = Some ev") (simp_all add: rings_def ring_def)

lemma settle_rings: "moves (rings ev) (settle_request g i yes who msg args now t)"
proof -
  have "rings ev s s2" if "write_request g r (s\<lparr>requests := rs\<rparr>) = (out, s2)" for s s2 r rs out
    using write_events [OF that] by (simp add: rings_def)
  then show ?thesis
    unfolding moves_def settle_request_def Let_def
    by (auto split: option.split prod.split sum.split intro: gate_rings.stays intro!: gate_rings.follows [OF _ ring_rings])
qed

lemma decide_rings: "moves (rings ev) (decide g i yes who msg args now t)"
  unfolding decide_def by (intro gate_rings.moves_bind moves_mono [OF moves_load recovers_rings] settle_rings)

lemma run_op_rings:
  assumes "quiet g"
  shows "rings ev s (run_op g op s)"
proof (cases op)
  case (File j t t' tool args prefix why asker conv timeout)
  have "rings ev s s'" if "recovers s s1" "same_gate (file_request r s1) s'" for r s1 s'
    using that by (simp add: recovers_def same_gate_def rings_def file_request_def nth_append)
  then show ?thesis
    using File request_moves [OF assms] recovers_rings by (metis run_op.simps(1))
next
  case (Decide j yes who msg args now t)
  then show ?thesis using decide_rings [of ev g j yes who msg args now t] by (simp add: moves_def)
next
  case (Look j t)
  have "moves (rings ev) (get_request g j t)"
    unfolding get_request_def by (intro gate_rings.moves_intros moves_mono [OF moves_load recovers_rings])
  then show ?thesis using Look by (simp add: moves_def)
next
  case (ListPending t)
  then show ?thesis
    using pending_ends [of s g t] recovers_rings [of s] expire_all_rings [of ev g _ t] gate_rings.follows
    unfolding moves_def by (metis run_op.simps(4))
next
  case (Lapse j t)
  then show ?thesis using expire_rings [of ev g j t]
    by (auto simp: moves_def lapse_def unwait_def rings_def split: prod.split) (metis snd_conv)+
qed

lemma run_ops_rings: "quiet g \<Longrightarrow> rings ev s (run_ops g ops s)"
  by (induction ops arbitrary: s) (auto intro: gate_rings.stays gate_rings.follows run_op_rings)

interpretation gate_waits: state_order "\<lambda>s s'. waiters s' = waiters s"
  by unfold_locales simp_all

lemma write_waiters: "waiters (snd (write_request g r s)) = waiters s"
  using moves_write [of g r] by (simp add: moves_def same_gate_def)

lemma expire_waiters: "moves (\<lambda>s s'. waiters s' = waiters s) (expire g i t)"
  by (simp add: moves_def expire_def Let_def write_waiters split: option.split)

lemma expire_settles:
  "map_of (requests s) i = Some r \<Longrightarrow> \<exists>r'. map_of (requests (snd (expire g i t s))) i = Some r' \<and> ar_state r' \<noteq> PENDING"
  using moves_write [of g] unfolding moves_def same_gate_def
  by (simp add: expire_def Let_def)

lemma expire_all_waiters: "moves (\<lambda>s s'. waiters s' = waiters s) (expire_all g js t)"
  by (induction js) (auto intro!: gate_waits.moves_intros expire_waiters)

text \<open>The entry of a waiter stays as long as its request is pending.\<close>

lemma run_op_waits:
  assumes q: "quiet g" and new: "\<not> files i op" and w: "map_of (waiters s) i = Some ev"
    and r: "map_of (requests s) i = Some r" "map_of (requests (run_op g op s)) i = Some r'" "ar_state r' = PENDING"
  shows "map_of (waiters (run_op g op s)) i = Some ev"
proof (cases op)
  case (File j t t' tool args prefix why asker conv timeout)
  have "map_of (waiters s') i = Some ev" if "recovers s s1" "same_gate (file_request p s1) s'" "ar_id p = j" for p s1 s'
    using that w new File by (simp add: recovers_def same_gate_def file_request_def)
  moreover have "map_of (waiters s') i = Some ev" if "recovers s s'" for s'
    using that w by (simp add: recovers_def)
  moreover have "ar_id (new_request g j t t' tool args prefix why asker conv timeout) = j"
    by (simp add: new_request_def Let_def)
  ultimately show ?thesis
    using File request_moves [OF q] by (metis run_op.simps(1))
next
  case (Decide j yes who msg args now t)
  then show ?thesis
    using decide_moves [of g now s j yes who msg args t] w
    by (auto simp: Let_def recovers_def same_gate_def split: option.splits if_splits)
next
  case (Look j t)
  have "recovers s (snd (load_requests g t s))" using moves_load unfolding moves_def by blast
  then show ?thesis using Look w
    by (auto simp: get_request_def act_bind_def recovers_def split: prod.split sum.split)
next
  case (ListPending t)
  then show ?thesis
    using pending_ends [of s g t] expire_all_waiters [of g _ t] w
    unfolding moves_def recovers_def by (metis run_op.simps(4))
next
  case (Lapse j t)
  show ?thesis
  proof (cases "i = j")
    case True
    then show ?thesis using Lapse r expire_settles [of s i r g t]
      by (auto simp: lapse_def unwait_def split: prod.splits)
  next
    case False
    have "waiters (snd (expire g j t s)) = waiters s" using expire_waiters [of g j t] by (simp add: moves_def)
    then show ?thesis using False Lapse w by (cases "expire g j t s") (simp add: lapse_def unwait_def)
  qed
qed

text \<open>A storage whose failures are exceptions, not cancellations.\<close>

definition polite :: "('w, 'a) act \<Rightarrow> bool" where
  "polite m \<longleftrightarrow> (\<forall>w e. fst (m w) = Inl e \<longrightarrow> is_exception e)"

definition gentle :: "'w gate \<Rightarrow> bool" where
  "gentle g \<longleftrightarrow> (\<forall>st. ga_storage g = Some st \<longrightarrow>
     (\<forall>k. polite (gs_get st k)) \<and> (\<forall>k v. polite (gs_put st k v)))"

lemma polite_pure: "polite (act_return x)" "polite (act_of (lift_res y))"
proof -
  have "is_exception (exc_of e)" for e
    by (cases e) (simp_all add: key_error_def value_error_def type_error_def index_error_def runtime_error_def)
  then show "polite (act_return x)" "polite (act_of (lift_res y))"
    by (auto simp: polite_def act_return_def act_of_def lift_res_def split: sum.splits)
qed

lemma polite_bind: "polite m \<Longrightarrow> (\<And>x. polite (f x)) \<Longrightarrow> polite (act_bind m f)"
  unfolding polite_def act_bind_def by (auto split: prod.splits sum.splits) (metis fst_conv)+

lemma polite_in_world: "polite m \<Longrightarrow> polite (in_world m)" "(\<And>s. polite (f s)) \<Longrightarrow> polite (\<lambda>s. in_world (f s) s)"
  unfolding polite_def in_world_def by (auto split: prod.splits) (metis fst_conv)+

lemma polite_swallow: "polite m \<Longrightarrow> fst (swallow m s) = Inr ()"
  unfolding polite_def by (subst swallow_returns) auto

lemma gentle_write: "gentle g \<Longrightarrow> fst (write_request g r s) = Inr ()"
  unfolding write_request_def gentle_def
  by (cases "ga_storage g") (auto simp: act_return_def intro!: polite_swallow polite_bind polite_in_world)

lemma gentle_load:
  assumes "gentle g"
  shows "fst (load_requests g t s) = Inr ()"
proof (cases "ga_storage g")
  case (Some st)
  have P: "polite (in_world (gs_get st k))" for k
    using assms Some by (auto simp: gentle_def intro: polite_in_world)
  have step: "polite (\<lambda>s. case raw of
         PDict d \<Rightarrow>
           if i \<in> dkeys (requests s) then (Inr (), s)
           else (case lift_res (request_from t d) of
                   Inl e \<Rightarrow> (Inl e, s)
                 | Inr r \<Rightarrow> (Inr (), s\<lparr>requests := AList.update i r (requests s)\<rparr>))
       | _ \<Rightarrow> (Inr (), s))" for raw i
    using polite_pure(2) [of "case raw of PDict d \<Rightarrow> request_from t d | _ \<Rightarrow> Inl IndexError"]
    by (auto simp: polite_def act_of_def split: pyval.split sum.splits)
  have "polite (recover_requests g st t vs)" for vs
    by (induction vs) (auto intro!: polite_bind polite_pure P step)
  then have "polite (act_bind (in_world (gs_get st (approvals_index_key g))) (\<lambda>index.
      act_bind (act_of (lift_res (iterated (if truthy index then index else PList [])))) (\<lambda>ids.
      recover_requests g st t ids)))"
    by (intro polite_bind P polite_pure)
  then show ?thesis using Some by (simp add: load_requests_def polite_swallow)
qed (simp add: load_requests_def)

lemma decide_wakes:
  assumes "gentle g" "map_of (requests s) i = Some r" "ar_state r = PENDING" "\<not> is_expired now r"
    and "map_of (waiters s) i = Some ev" "ev < length (events s)"
  shows "events (run_op g (Decide i True who msg args now t) s) ! ev
    \<and> map_of (requests (run_op g (Decide i True who msg args now t) s)) i = Some (decided True who msg args now t r)
    \<and> ev < length (events (run_op g (Decide i True who msg args now t) s))"
proof -
  obtain s1 where l: "load_requests g now s = (Inr (), s1)"
    using gentle_load [OF assms(1), of now s] by (metis prod.collapse)
  have s1: "recovers s s1" using movesD [OF moves_load l] .
  then have r1: "map_of (requests s1) i = Some r" "map_of (waiters s1) i = Some ev" "ev < length (events s1)"
    using recovers_request [OF s1 assms(2)] assms(5,6) by (simp_all add: recovers_def)
  let ?r = "decided True who msg args now t r"
  obtain u s2 where w: "write_request g ?r (s1\<lparr>requests := AList.update i ?r (requests s1)\<rparr>) = (Inr u, s2)"
    using gentle_write [OF assms(1)] by (metis prod.collapse)
  have "run_op g (Decide i True who msg args now t) s = ring (Some ev) s2"
    using l r1 assms(3) w by (simp add: decide_def settle_request_def act_bind_def)
  moreover have "requests s2 = AList.update i ?r (requests s1)" "events s2 = events s1"
    using movesD [OF moves_write w] by (simp_all add: same_gate_def)
  ultimately show ?thesis using r1(3) by (simp add: ring_def)
qed

lemma run_ops_append: "run_ops g (xs @ ys) s = run_ops g ys (run_ops g xs s)"
  by (induction xs arbitrary: s) simp_all

lemma run_ops_waits:
  assumes "quiet g" "\<forall>op\<in>set ops. \<not> files i op" "map_of (waiters s) i = Some ev"
    and "map_of (requests s) i = Some r" "map_of (requests (run_ops g ops s)) i = Some r'" "ar_state r' = PENDING"
  shows "map_of (waiters (run_ops g ops s)) i = Some ev \<and> r' = r"
  using assms(2-5)
proof (induction ops arbitrary: s)
  case (Cons op ops)
  have new: "\<not> files i op" "\<forall>op\<in>set ops. \<not> files i op" using Cons.prems(1) by simp_all
  obtain r1 where r1: "map_of (requests (run_op g op s)) i = Some r1" and
    step: "lapsed_to r r1 \<or> (\<exists>yes who msg args now t. op = Decide i yes who msg args now t \<and> ar_state r = PENDING
       \<and> r1 = decided yes who msg args now t r)"
    using run_op_request [OF assms(1) Cons.prems(3) new(1)] by metis
  have p: "ar_state r1 = PENDING"
    using settled_final [OF assms(1) new(2) r1] Cons.prems(4) assms(6) by fastforce
  then have "r1 = r" using step decided_not_pending unfolding lapsed_to_def by fastforce
  then show ?case
    using Cons.IH [OF new(2) run_op_waits [OF assms(1) new(1) Cons.prems(2,3) r1 p]] r1 Cons.prems(4) by simp
qed simp

text \<open>C20: an approver who says yes before the deadline is not ignored: the waiter whose timer has not
  fired returns the approved request with the approver's arguments, whatever else the other tasks
  did before and after.\<close>

theorem yes_wakes_the_waiter:
  assumes "quiet g" "gentle g" "\<forall>op\<in>set (before @ later). \<not> files i op"
    and r: "map_of (requests s) i = Some r" "ar_state r = PENDING"
    and ev: "map_of (waiters s) i = Some ev" "ev < length (events s)"
    and time: "\<forall>b. budget g timeout now r = Some b \<longrightarrow> b > 0" "\<not> is_expired now' r"
    and undecided: "map_of (requests (run_ops g before s)) i = Some r1" "ar_state r1 = PENDING"
  shows "\<exists>s'. gate_wait g i timeout now (before @ Decide i True who msg args now' t' # later) False t s
    = Some (Inr (decided True who msg args now' t' r), s')"
proof -
  let ?sb = "run_ops g before s" and ?d = "decided True who msg args now' t' r"
  let ?sd = "run_op g (Decide i True who msg args now' t') ?sb"
  let ?s1 = "run_ops g later ?sd"
  have b: "map_of (waiters ?sb) i = Some ev" "r1 = r"
    using run_ops_waits [OF assms(1) _ ev(1) r(1) undecided] assms(3) by auto
  have "ev < length (events ?sb)" using run_ops_rings [OF assms(1), of ev s before] ev(2) by (simp add: rings_def)
  then have d: "events ?sd ! ev" "map_of (requests ?sd) i = Some ?d" "ev < length (events ?sd)"
    using decide_wakes [OF assms(2), of ?sb i r now' ev] undecided b time(2) r(2) by auto
  have "events ?s1 ! ev" using run_ops_rings [OF assms(1), of ev ?sd later] d by (simp add: rings_def)
  moreover have "map_of (requests ?s1) i = Some ?d"
    using settled_final [OF assms(1) _ d(2), of later] assms(3) decided_not_pending [of True] by auto
  moreover have "settled ?d = Inr ?d" using time(2) by (simp add: settled_def decided_def)
  ultimately show ?thesis
    using r ev time(1) by (auto simp: gate_wait_def Let_def run_ops_append dict_get_def)
qed

lemma yes_wakes_the_waiter_witness:
  "\<exists>s'. gate_wait refund_gate ''r1'' None 1 [ListPending 5, Decide ''r1'' True None None None 10 10, Look ''r1'' 11] False 12 filed
    = Some (Inr (decided True None None None 10 10 filed_request), s')"
proof -
  have w: "map_of (waiters filed) ''r1'' = Some 0" "0 < length (events filed)" by (code_simp, code_simp)
  have u: "map_of (requests (run_ops refund_gate [ListPending 5] filed)) ''r1'' = Some filed_request" by code_simp
  have e: "expires_at filed_request = 300" by code_simp
  have "gentle refund_gate" by (simp add: gentle_def refund_gate_def gate_init_def)
  from yes_wakes_the_waiter [OF refund_quiet this _ filed_pending w _ _ u filed_pending(2), of "[Look ''r1'' 11]" None 1 10]
  show ?thesis by (simp add: budget_def e is_expired_def)
qed

end
