(* ===== verification/AgentGate.thy ===== *)
theory AgentGate
  imports AgentProps ApprovalProps
begin

text \<open>
  The agent loop and the approval gate together: a tool marked \<open>approval\<close> runs only on arguments that
  a human approved for that tool.
\<close>

section \<open>The gate as the loop sees it\<close>

text \<open>The readings of one use of the gate: the UUID and the clock of a request, the clock of a wait and
  what the other tasks do while it lasts.\<close>

record gate_readings =
  gr_uuid :: string
  gr_t1 :: time
  gr_t2 :: time
  gr_others :: "gate_op list"
  gr_timer :: bool

type_synonym 'w gated_world = "'w approvals \<times> nat"

definition gate_approver :: "'w gate \<Rightarrow> (nat \<Rightarrow> gate_readings) \<Rightarrow> 'w gated_world approver" where
  "gate_approver g env =
     \<lparr>ap_request = (\<lambda>tool args prefix why conv (s, n).
        (case request g (gr_uuid (env n)) (gr_t1 (env n)) (gr_t2 (env n)) tool args (Some prefix) why None conv (Some (- 1)) s of
           (Inl e, s') \<Rightarrow> Some (Inl e, s', Suc n)
         | (Inr r, s') \<Rightarrow> Some (Inr (ar_id r), s', Suc n))),
      ap_wait = (\<lambda>i (s, n).
        (case gate_wait g i (Some (- 1)) (gr_t1 (env n)) (gr_others (env n)) (gr_timer (env n)) (gr_t2 (env n)) s of
           None \<Rightarrow> None
         | Some (Inl e, s') \<Rightarrow> Some (Inl e, s', Suc n)
         | Some (Inr r, s') \<Rightarrow>
             Some (Inr \<lparr>de_arguments = ar_arguments r, de_note = ar_note r, de_by = decided_by r\<rparr>, s', Suc n)))\<rparr>"

text \<open>A request on file for a tool, and arguments approved for a tool.\<close>

definition on_file :: "'w gated_world \<Rightarrow> string \<Rightarrow> string \<Rightarrow> bool" where
  "on_file w i tool \<longleftrightarrow> (\<exists>r. map_of (requests (fst w)) i = Some r \<and> ar_tool r = tool)"

definition cleared :: "'w gated_world \<Rightarrow> string \<Rightarrow> (string, pyval) dict \<Rightarrow> bool" where
  "cleared w tool args \<longleftrightarrow> (\<exists>i r. map_of (requests (fst w)) i = Some r \<and> ar_state r = APPROVED
     \<and> ar_tool r = tool \<and> ar_arguments r = args)"

text \<open>Other tasks file under UUIDs of their own.\<close>

definition own_uuids :: "(nat \<Rightarrow> gate_readings) \<Rightarrow> bool" where
  "own_uuids env \<longleftrightarrow> (\<forall>m n. \<forall>op\<in>set (gr_others (env n)). \<not> files (gr_uuid (env m)) op)"

text \<open>What an agent's consumer does leaves the gate alone.\<close>

definition leaves_gate :: "(agent_event \<Rightarrow> ('w gated_world, unit) io) \<Rightarrow> bool" where
  "leaves_gate emit \<longleftrightarrow> (\<forall>e w out w'. emit e w = Some (out, w') \<longrightarrow> requests (fst w') = requests (fst w))"

lemma request_returns:
  assumes "quiet g" "request g i t t' tool args prefix why asker conv timeout s = (Inr r, s')"
  shows "ar_id r = i \<and> (\<exists>q. map_of (requests s') i = Some q \<and> ar_tool q = tool)"
proof -
  let ?r = "new_request g i t t' tool args prefix why asker conv timeout"
  obtain u s1 where l: "load_requests g t s = (Inr u, s1)"
    using assms(2) by (auto simp: request_def Let_def act_bind_Inr)
  obtain s2 s3 where w: "write_request g ?r (file_request ?r s1) = (Inr (), s2)"
    and n: "(case ga_on_request g of None \<Rightarrow> act_return () | Some f \<Rightarrow> swallow (f ?r)) s2 = (Inr (), s3)"
    and r: "r = dict_get (requests s3) i ?r" "s' = s3"
    using assms(2) l by (auto simp: request_def Let_def act_bind_Inr)
  have quiet: "moves same_gate (case ga_on_request g of None \<Rightarrow> act_return () | Some f \<Rightarrow> swallow (f ?r))"
    using assms(1) by (auto simp: quiet_def split: option.split intro: gate_same.moves_intros)
  then have "requests s3 = requests (file_request ?r s1)"
    using movesD [OF quiet n] movesD [OF moves_write w] by (auto simp: same_gate_def)
  moreover have "ar_id ?r = i" "ar_tool ?r = tool" by (simp_all add: new_request_def Let_def)
  ultimately show ?thesis using r by (simp add: file_request_def dict_get_def)
qed

lemma approver_files:
  assumes "quiet g" "ap_request (gate_approver g env) tool args prefix why conv w = Some (Inr i, w')"
  shows "i \<in> range (gr_uuid \<circ> env) \<and> on_file w' i tool"
proof -
  obtain s n where w: "w = (s, n)" by fastforce
  obtain r s' where r: "request g (gr_uuid (env n)) (gr_t1 (env n)) (gr_t2 (env n)) tool args (Some prefix) why None conv (Some (- 1)) s
      = (Inr r, s')" "i = ar_id r" "w' = (s', Suc n)"
    using assms(2) by (auto simp: gate_approver_def w split: prod.splits sum.splits)
  show ?thesis using request_returns [OF assms(1) r(1)] r by (auto simp: on_file_def)
qed

lemma approver_clears:
  assumes "quiet g" "own_uuids env" "i \<in> range (gr_uuid \<circ> env)" "on_file w i tool"
    and "ap_wait (gate_approver g env) i w = Some (Inr d, w')"
  shows "cleared w' tool (de_arguments d)"
proof -
  obtain s n where w: "w = (s, n)" by fastforce
  obtain r s' where r: "gate_wait g i (Some (- 1)) (gr_t1 (env n)) (gr_others (env n)) (gr_timer (env n)) (gr_t2 (env n)) s
      = Some (Inr r, s')" "de_arguments d = ar_arguments r" "w' = (s', Suc n)"
    using assms(5) by (auto simp: gate_approver_def w split: prod.splits sum.splits option.splits)
  have new: "\<forall>op\<in>set (gr_others (env n)). \<not> files i op" using assms(2,3) by (auto simp: own_uuids_def)
  obtain q where q: "map_of (requests s) i = Some q" "ar_tool q = tool"
    using assms(4) w by (auto simp: on_file_def)
  have "ar_state r = APPROVED" "map_of (requests s') i = Some r" "ar_tool r = tool"
    using wait_yes [OF assms(1) new r(1)] q by auto
  then show ?thesis using r by (auto simp: cleared_def)
qed

section \<open>Guarded tools\<close>

text \<open>A gated tool that breaks off unless its arguments are cleared.\<close>

definition guarded :: "'w gated_world agent \<Rightarrow> 'w gated_world mesh_tool \<Rightarrow> 'w gated_world mesh_tool" where
  "guarded a t = t\<lparr>mt_invoke := Some (\<lambda>args w.
     if requires_approval t \<and> \<not> cleared w (mt_name t) args then Some (Inl breach, w)
     else call_tool t args (ag_token a) (ag_timeout_s a) w)\<rparr>"

definition guard_agent :: "'w gated_world agent \<Rightarrow> 'w gated_world agent" where
  "guard_agent a = a\<lparr>ag_tools := map (guarded a) (ag_tools a)\<rparr>"

lemma guarded_fields [simp]:
  "mt_name (guarded a t) = mt_name t" "mt_prefix (guarded a t) = mt_prefix t"
  "requires_approval (guarded a t) = requires_approval t" "approval_reason (guarded a t) = approval_reason t"
  "openai_schema (guarded a t) = openai_schema t"
  by (simp_all add: guarded_def requires_approval_def approval_reason_def openai_schema_def)

lemma by_name_guarded: "by_name (map (guarded a) ts) n = map_option (guarded a) (by_name ts n)"
proof -
  have "rev (map (\<lambda>t. (mt_name t, t)) (map (guarded a) ts)) = map (\<lambda>(k, t). (k, guarded a t)) (rev (map (\<lambda>t. (mt_name t, t)) ts))"
    by (simp add: rev_map)
  then show ?thesis by (simp add: by_name_def map_of_map)
qed

lemma by_name_name: "by_name ts n = Some t \<Longrightarrow> mt_name t = n \<and> t \<in> set ts"
  by (auto simp: by_name_def dest!: map_of_SomeD)

lemma run_guarded:
  assumes "\<And>t. by_name ts (tc_name tc) = Some t \<Longrightarrow> requires_approval t \<Longrightarrow> cleared w (mt_name t) (tc_arguments tc)"
  shows "run_tool (guard_agent a) (map (guarded a) ts) tc w = run_tool a ts tc w"
proof (cases "by_name ts (tc_name tc)")
  case None
  then show ?thesis by (simp add: run_tool_def by_name_guarded guard_agent_def)
next
  case (Some t)
  have "call_tool (guarded a t) (tc_arguments tc) token timeout w = call_tool t (tc_arguments tc) (ag_token a) (ag_timeout_s a) w"
    for token timeout
    using assms [OF Some] by (cases "requires_approval t") (simp_all add: call_tool_def guarded_def)
  then show ?thesis using Some
    by (simp add: run_tool_def by_name_guarded guard_agent_def split: option.split prod.split sum.split)
qed

lemma guard_agent_fields [simp]:
  "ag_emit (guard_agent a) = ag_emit a" "ag_approvals (guard_agent a) = ag_approvals a"
  "ag_texts (guard_agent a) = ag_texts a" "ag_model (guard_agent a) = ag_model a"
  "ag_tools (guard_agent a) = map (guarded a) (ag_tools a)" "ag_max_steps (guard_agent a) = ag_max_steps a"
  "ag_conversation (guard_agent a) = ag_conversation a" "ag_max_messages (guard_agent a) = ag_max_messages a"
  by (simp_all add: guard_agent_def)

lemma say_guarded [simp]: "say (guard_agent a) = say a"
  by (simp add: say_def fun_eq_iff)

lemma perform_guarded:
  assumes "\<And>t. by_name ts (tc_name tc) = Some t \<Longrightarrow> requires_approval t \<Longrightarrow> cleared w (mt_name t) (tc_arguments tc)"
  shows "perform (guard_agent a) (map (guarded a) ts) tc (ms, w) = perform a ts tc (ms, w)"
  unfolding perform_def say_guarded
  by (rule io_bind_cong) (simp_all add: outside_def run_guarded [OF assms])

lemma gated_guarded:
  assumes g: "quiet g" "own_uuids env" "leaves_gate (ag_emit a)" and t: "by_name ts (tc_name tc) = Some t"
  shows "gated (guard_agent a) (map (guarded a) ts) (guarded a t) (gate_approver g env) tc s = gated a ts t (gate_approver g env) tc s"
proof -
  let ?g = "gate_approver g env"
  let ?ask = "\<lambda>i. (event ''approval_request'')\<lparr>ev_name := Some (tc_name tc), ev_arguments := Some (tc_arguments tc),
       ev_call := Some (tc_id tc), ev_approval := Some i, ev_content := opt_str (approval_reason t)\<rparr>"
  let ?answer = "\<lambda>i d. (event ''approval_decision'')\<lparr>ev_name := Some (tc_name tc), ev_arguments := Some (de_arguments d),
             ev_call := Some (tc_id tc), ev_approval := Some i, ev_content := PStr (approved_by d)\<rparr>"
  have ok: "perform (guard_agent a) (map (guarded a) ts) (tc\<lparr>tc_arguments := de_arguments d\<rparr>) s4
      = perform a ts (tc\<lparr>tc_arguments := de_arguments d\<rparr>) s4"
    if h: "outside (ap_request ?g (tc_name tc) (tc_arguments tc) (mt_prefix t) (approval_reason t) (ag_conversation a)) s = Some (Inr i, s1)"
      "say a (?ask i) s1 = Some (Inr (), s2)" "outside (wait_for ?g i) s2 = Some (Inr (Inr d), s3)"
      "say a (?answer i d) s3 = Some (Inr (), s4)" for i s1 s2 d s3 s4
  proof -
    obtain ms w where s: "s = (ms, w)" by (metis surj_pair)
    obtain w1 where w1: "s1 = (ms, w1)" "ap_request ?g (tc_name tc) (tc_arguments tc) (mt_prefix t) (approval_reason t) (ag_conversation a) w = Some (Inr i, w1)"
      using h(1) by (cases s1) (auto simp: s outside_Some)
    obtain w2 where w2: "s2 = (ms, w2)" "ag_emit a (?ask i) w1 = Some (Inr (), w2)"
      using h(2) by (cases s2) (auto simp: w1 say_def outside_Some)
    obtain w3 where w3: "s3 = (ms, w3)" "ap_wait ?g i w2 = Some (Inr d, w3)"
      using h(3) by (cases s3) (auto simp: w2 outside_Some wait_for_def split: option.splits prod.splits sum.splits if_splits)
    obtain w4 where w4: "s4 = (ms, w4)" "ag_emit a (?answer i d) w3 = Some (Inr (), w4)"
      using h(4) by (cases s4) (auto simp: w3 say_def outside_Some)
    have "i \<in> range (gr_uuid \<circ> env)" "on_file w1 i (tc_name tc)" using approver_files [OF g(1) w1(2)] by simp_all
    moreover have "requests (fst w2) = requests (fst w1)" "requests (fst w4) = requests (fst w3)"
      using g(3) w2(2) w4(2) unfolding leaves_gate_def by blast+
    ultimately have "cleared w4 (tc_name tc) (de_arguments d)"
      using approver_clears [OF g(1,2) _ _ w3(2)] by (simp add: on_file_def cleared_def)
    then show ?thesis using t by_name_name [OF t] unfolding w4(1) by (intro perform_guarded) simp
  qed
  have refused: "refused (guard_agent a) tc i r = refused a tc i r" for i r
    by (simp add: refused_def)
  show ?thesis
    unfolding gated_def say_guarded guarded_fields guard_agent_fields refused
  proof (rule io_bind_cong [OF refl], rule io_bind_cong [OF refl], rule io_bind_cong [OF refl])
    fix i s1 u s2 out s3
    assume h: "outside (ap_request ?g (tc_name tc) (tc_arguments tc) (mt_prefix t) (approval_reason t) (ag_conversation a)) s = Some (Inr i, s1)"
      "say a (?ask i) s1 = Some (Inr u, s2)" "outside (wait_for ?g i) s2 = Some (Inr out, s3)"
    show "(case out of
         Inl e \<Rightarrow> refused a tc i (format_tool_error (ag_texts a) e)
       | Inr d \<Rightarrow> io_bind (say a (?answer i d)) (\<lambda>_.
           perform (guard_agent a) (map (guarded a) ts) (tc\<lparr>tc_arguments := de_arguments d\<rparr>))) s3
      = (case out of
         Inl e \<Rightarrow> refused a tc i (format_tool_error (ag_texts a) e)
       | Inr d \<Rightarrow> io_bind (say a (?answer i d)) (\<lambda>_.
           perform a ts (tc\<lparr>tc_arguments := de_arguments d\<rparr>))) s3"
    proof (cases out)
      case (Inr d)
      have "io_bind (say a (?answer i d)) (\<lambda>_. perform (guard_agent a) (map (guarded a) ts) (tc\<lparr>tc_arguments := de_arguments d\<rparr>)) s3
        = io_bind (say a (?answer i d)) (\<lambda>_. perform a ts (tc\<lparr>tc_arguments := de_arguments d\<rparr>)) s3"
        by (rule io_bind_cong [OF refl]) (rule ok [OF h(1)], use h Inr in simp_all)
      then show ?thesis using Inr by simp
    qed simp
  qed
qed

lemma dispatch_guarded:
  assumes "quiet g" "own_uuids env" "leaves_gate (ag_emit a)"
    and "ag_approvals a = Some (gate_approver g env) \<or> (ag_approvals a = None \<and> filter requires_approval ts = [])"
  shows "dispatch_tool (guard_agent a) (map (guarded a) ts) tc s = dispatch_tool a ts tc s"
  unfolding dispatch_tool_def say_guarded guard_agent_fields
proof (rule io_bind_cong [OF refl])
  fix u and s' :: "message list \<times> 'a gated_world"
  have free: "perform (guard_agent a) (map (guarded a) ts) tc s' = perform a ts tc s'"
    if "\<And>t. by_name ts (tc_name tc) = Some t \<Longrightarrow> \<not> requires_approval t"
    using that by (cases s') (auto intro: perform_guarded)
  show "(case (by_name (map (guarded a) ts) (tc_name tc), ag_approvals a) of
       (Some t, Some g) \<Rightarrow> if requires_approval t then gated (guard_agent a) (map (guarded a) ts) t g tc
         else perform (guard_agent a) (map (guarded a) ts) tc
     | _ \<Rightarrow> perform (guard_agent a) (map (guarded a) ts) tc) s'
    = (case (by_name ts (tc_name tc), ag_approvals a) of
       (Some t, Some g) \<Rightarrow> if requires_approval t then gated a ts t g tc else perform a ts tc
     | _ \<Rightarrow> perform a ts tc) s'"
  proof (cases "by_name ts (tc_name tc)")
    case None
    then show ?thesis using free by (simp add: by_name_guarded)
  next
    case (Some t)
    show ?thesis
    proof (cases "requires_approval t")
      case True
      then have "ag_approvals a = Some (gate_approver g env)"
        using assms(4) by_name_name [OF Some] by (auto simp: filter_empty_conv)
      then show ?thesis using True Some gated_guarded [OF assms(1-3) Some] by (simp add: by_name_guarded)
    next
      case False
      then show ?thesis using Some free assms(4) by (auto simp: by_name_guarded split: option.split)
    qed
  qed
qed

lemma dispatch_all_guarded:
  assumes "quiet g" "own_uuids env" "leaves_gate (ag_emit a)"
    and "ag_approvals a = Some (gate_approver g env) \<or> (ag_approvals a = None \<and> filter requires_approval ts = [])"
  shows "dispatch_all (guard_agent a) (map (guarded a) ts) tcs s = dispatch_all a ts tcs s"
  by (induction tcs arbitrary: s) (auto intro!: io_bind_cong dispatch_guarded [OF assms])

lemma agent_steps_guarded:
  assumes "quiet g" "own_uuids env" "leaves_gate (ag_emit a)"
    and "ag_approvals a = Some (gate_approver g env) \<or> (ag_approvals a = None \<and> filter requires_approval (ag_tools a) = [])"
  shows "agent_steps (guard_agent a) n s = agent_steps a n s"
proof (induction n arbitrary: s)
  case 0
  then show ?case by (simp add: stopped_def)
next
  case (Suc n)
  have "trim (guard_agent a) = trim a" by (simp add: trim_def fun_eq_iff)
  moreover have "complete (guard_agent a) = complete a"
    by (simp add: complete_def fun_eq_iff comp_def)
  moreover have "final_answer (guard_agent a) = final_answer a" by (simp add: final_answer_def fun_eq_iff)
  ultimately show ?case
    using Suc.IH by (auto intro!: io_bind_cong dispatch_all_guarded [OF assms])
qed

text \<open>C17: a tool marked \<open>approval\<close> never runs on arguments no human approved. In a run of the loop, with
  any model, any log, any decisions and timeouts at the gate, breaking off whenever a gated tool is
  about to be called without an approved request for that tool and just those arguments would change
  nothing: it never happens.\<close>

theorem gated_tools_need_approval:
  assumes "quiet g" "own_uuids env" "leaves_gate (ag_emit a)"
    and "ag_approvals a = Some (gate_approver g env) \<or> ag_approvals a = None"
  shows "run_agent (guard_agent a) s = run_agent a s"
proof -
  have gate: "filter requires_approval (map (guarded a) (ag_tools a)) = [] \<longleftrightarrow> filter requires_approval (ag_tools a) = []"
    by (simp add: filter_empty_conv)
  have "agent_steps (guard_agent a) n s = agent_steps a n s"
    if "ag_approvals a \<noteq> None \<or> filter requires_approval (ag_tools a) = []" for n
    by (rule agent_steps_guarded [OF assms(1-3)]) (use that assms(4) in auto)
  then show ?thesis using gate by (simp add: run_agent_def)
qed

definition one_wait :: "gate_op list \<Rightarrow> nat \<Rightarrow> gate_readings" where
  "one_wait ops n = \<lparr>gr_uuid = ''r1'', gr_t1 = of_nat n, gr_t2 = of_nat n + 1, gr_others = ops, gr_timer = False\<rparr>"

text \<open>An agent whose only tool refunds an order, on a model that asks for it at once.\<close>

definition refund_tool :: "unit gated_world mesh_tool" where
  "refund_tool = \<lparr>mt_prefix = ''billing/refund'', mt_name = ''billing-refund'', mt_description = [],
     mt_parameters = any_object, mt_approval = PBool True,
     mt_invoke = Some (\<lambda>args. io_return (PDict args)), mt_app = None\<rparr>"

definition refund_agent :: "gate_op list \<Rightarrow> unit gated_world agent" where
  "refund_agent ops = \<lparr>ag_model = (\<lambda>ms schemas. io_return
       (if length ms \<le> 1 then plain_reply None [\<lparr>tc_id = ''c1'', tc_name = ''billing-refund'', tc_arguments = [(''order'', PInt 7)]\<rparr>]
        else plain_reply (Some ''done'') [])),
     ag_tools = [refund_tool], ag_max_steps = 3, ag_max_messages = None, ag_token = None, ag_timeout_s = 5,
     ag_approvals = Some (gate_approver refund_gate (one_wait ops)), ag_conversation = None,
     ag_texts = \<lparr>tx_dumps = (\<lambda>_. ''{}''), tx_str = (\<lambda>_. []), tx_repr = id\<rparr>, ag_emit = (\<lambda>_. io_return ())\<rparr>"

definition asked_log :: "unit gated_world chat" where
  "asked_log = ([chat_message ''user'' (PStr ''refund order 7'')], fresh_approvals (), 0)"

lemma gated_tools_need_approval_witness:
  "run_agent (guard_agent (refund_agent [Decide ''r1'' True None None None 1 1])) asked_log
     = run_agent (refund_agent [Decide ''r1'' True None None None 1 1]) asked_log
   \<and> map_option (map (\<lambda>m. dict_get m ''content'' PNone) \<circ> fst \<circ> snd)
       (run_agent (refund_agent [Decide ''r1'' True None None None 1 1]) asked_log)
     = Some [PStr ''refund order 7'', PNone, PStr ''{}'', PStr ''done'']"
proof (rule conjI)
  have "own_uuids (one_wait [Decide ''r1'' True None None None 1 1])"
    by (simp add: own_uuids_def one_wait_def)
  moreover have "leaves_gate (ag_emit (refund_agent ops))" for ops
    by (simp add: leaves_gate_def refund_agent_def io_return_def)
  ultimately show "run_agent (guard_agent (refund_agent [Decide ''r1'' True None None None 1 1])) asked_log
     = run_agent (refund_agent [Decide ''r1'' True None None None 1 1]) asked_log"
    using gated_tools_need_approval [OF refund_quiet, of "one_wait [Decide ''r1'' True None None None 1 1]"
        "refund_agent [Decide ''r1'' True None None None 1 1]"] by (simp add: refund_agent_def)
qed code_simp

end
