(* ===== verification/Swarm.thy ===== *)
theory Swarm
  imports AgentProps
begin

text \<open>
  Several agents on one conversation (\<open>agent/multi.py\<close>): agents are objects that refer to each other,
  a list whose indices are the references; the loop hands the shared log from one to another.
\<close>

section \<open>Agents and their registry\<close>

record 'w swarm_agent =
  sa_name :: string
  sa_model :: "'w model"
  sa_tools :: "'w mesh_tool list"
  sa_system :: "string option"
  sa_handoffs :: "nat list"
  sa_description :: string

type_synonym 'w swarm = "'w swarm_agent list"

definition transfer_tool_name :: "'w swarm_agent \<Rightarrow> string" where
  "transfer_tool_name g = ''transfer_to_'' @ tool_name (sa_name g)"

definition handoff_schema :: "'w swarm_agent \<Rightarrow> pyval" where
  "handoff_schema g =
     PDict [(''type'', PStr ''function''), (''function'', PDict [(''name'', PStr (transfer_tool_name g)),
       (''description'', PStr (''Hand the conversation off to '' @
          (if sa_description g = [] then ''the '' @ sa_name g @ '' agent'' else sa_description g) @ ''.'')),
       (''parameters'', any_object)])]"

definition with_system :: "message list \<Rightarrow> string option \<Rightarrow> message list" where
  "with_system ms system =
     (let body = filter (\<lambda>m. \<not> role_is ''system'' m) ms
      in case system of
           Some s \<Rightarrow> if s \<noteq> [] then chat_message ''system'' (PStr s) # body else body
         | None \<Rightarrow> body)"

text \<open>The stack of \<open>build_registry\<close>, its top first.\<close>

function registry_loop :: "'w swarm \<Rightarrow> nat list \<Rightarrow> (string, nat) dict \<Rightarrow> (string, nat) dict" where
  "registry_loop sw [] reg = reg"
| "registry_loop sw (i # st) reg =
     (if i \<ge> length sw \<or> sa_name (sw ! i) \<in> dkeys reg then registry_loop sw st reg
      else registry_loop sw (rev (sa_handoffs (sw ! i)) @ st) (reg @ [(sa_name (sw ! i), i)]))"
  by pat_completeness auto
termination
proof (relation "measures [\<lambda>(sw, st, reg). card (sa_name ` set sw - dkeys reg), \<lambda>(sw, st, reg). length st]")
  fix sw :: "'w swarm" and i st and reg :: "(string, nat) dict"
  assume "\<not> (i \<ge> length sw \<or> sa_name (sw ! i) \<in> dkeys reg)"
  then have "sa_name (sw ! i) \<in> sa_name ` set sw - dkeys reg" by simp
  then have "card (sa_name ` set sw - dkeys (reg @ [(sa_name (sw ! i), i)])) < card (sa_name ` set sw - dkeys reg)"
    by (intro psubset_card_mono) auto
  then show "((sw, rev (sa_handoffs (sw ! i)) @ st, reg @ [(sa_name (sw ! i), i)]), (sw, i # st, reg))
      \<in> measures [\<lambda>(sw, st, reg). card (sa_name ` set sw - dkeys reg), \<lambda>(sw, st, reg). length st]"
    by simp
qed simp_all

definition build_registry :: "'w swarm \<Rightarrow> nat \<Rightarrow> (string, nat) dict" where
  "build_registry sw entry = registry_loop sw [entry] []"

section \<open>The loop\<close>

text \<open>The shared settings are those of an agent record, its model and tools aside. The calls of a batch
  are resolved against the agent that made them; the last transfer says who goes on.\<close>

definition handoff_by_tool :: "'w swarm \<Rightarrow> nat \<Rightarrow> string \<Rightarrow> nat option" where
  "handoff_by_tool sw act name = map_of (rev (map (\<lambda>t. (transfer_tool_name (sw ! t), t)) (sa_handoffs (sw ! act)))) name"

fun multi_calls ::
  "'w swarm \<Rightarrow> 'w agent \<Rightarrow> nat \<Rightarrow> tool_call list \<Rightarrow> nat \<times> string list \<Rightarrow> ('w chat, nat \<times> string list) io" where
  "multi_calls sw a act [] (nxt, handed) = io_return (nxt, handed)"
| "multi_calls sw a act (tc # tcs) (nxt, handed) =
     (case handoff_by_tool sw act (tc_name tc) of
        Some t \<Rightarrow>
          io_bind (append_message (tool_message (tc_id tc) (''Transferred to '' @ sa_name (sw ! t) @ ''.''))) (\<lambda>_.
          io_bind (say a ((event ''handoff'')\<lparr>ev_name := Some (sa_name (sw ! t)),
            ev_content := PStr (sa_name (sw ! act) @ '' -> '' @ sa_name (sw ! t)), ev_call := Some (tc_id tc)\<rparr>)) (\<lambda>_.
          multi_calls sw a act tcs (t, handed @ [sa_name (sw ! t)])))
      | None \<Rightarrow>
          io_bind (dispatch_tool a (sa_tools (sw ! act)) tc) (\<lambda>_. multi_calls sw a act tcs (nxt, handed)))"

definition multi_schemas :: "'w swarm \<Rightarrow> nat \<Rightarrow> pyval list" where
  "multi_schemas sw act =
     map openai_schema (sa_tools (sw ! act)) @ map (\<lambda>t. handoff_schema (sw ! t)) (sa_handoffs (sw ! act))"

definition multi_complete :: "'w swarm \<Rightarrow> nat \<Rightarrow> ('w chat, model_reply) io" where
  "multi_complete sw act =
     (\<lambda>(ms, w). outside (sa_model (sw ! act) (with_system ms (sa_system (sw ! act)))
        (if multi_schemas sw act = [] then None else Some (multi_schemas sw act))) (ms, w))"

definition multi_stopped :: "'w agent \<Rightarrow> ('w chat, unit) io" where
  "multi_stopped a =
     io_bind (say a ((event ''message'')\<lparr>ev_content := PStr (''Stopped after '' @ tx_str (ag_texts a) (PInt (ag_max_steps a))
       @ '' steps without a final answer.'')\<rparr>)) (\<lambda>_. say a (event ''done''))"

fun multi_steps :: "'w swarm \<Rightarrow> 'w agent \<Rightarrow> nat \<Rightarrow> nat \<Rightarrow> string list \<Rightarrow> ('w chat, string list) io" where
  "multi_steps sw a 0 act handed = io_bind (multi_stopped a) (\<lambda>_. io_return handed)"
| "multi_steps sw a (Suc n) act handed =
     io_bind (trim a) (\<lambda>_.
     io_bind (multi_complete sw act) (\<lambda>r.
     io_bind (append_message (assistant_message (ag_texts a) r)) (\<lambda>_.
       if mr_calls r = [] then io_bind (final_answer a r) (\<lambda>_. io_return handed)
       else io_bind (multi_calls sw a act (mr_calls r) (act, handed)) (\<lambda>(nxt, h). multi_steps sw a n nxt h))))"

definition gated_in :: "'w swarm \<Rightarrow> nat \<Rightarrow> 'w mesh_tool list" where
  "gated_in sw act = concat (map (\<lambda>(n, i). filter requires_approval (sa_tools (sw ! i))) (build_registry sw act))"

text \<open>The result is the names of the agents handed to, as the \<open>handoff\<close> events told the caller.\<close>

definition run_multi_agent :: "'w swarm \<Rightarrow> 'w agent \<Rightarrow> nat \<Rightarrow> ('w chat, string list) io" where
  "run_multi_agent sw a act =
     (if ag_max_steps a < 1 then io_raise (value_error ''max_steps must be >= 1'')
      else if ag_approvals a = None \<and> gated_in sw act \<noteq> []
      then io_raise (value_error ''Tools require human approval but no gate was passed.'')
      else multi_steps sw a (nat (ag_max_steps a)) act [])"

section \<open>On a channel\<close>

fun active_from_history :: "(string, pyval) dict list \<Rightarrow> (string, nat) dict \<Rightarrow> nat \<Rightarrow> nat" where
  "active_from_history [] reg act = act"
| "active_from_history (turn # ts) reg act =
     active_from_history ts reg
       (case (dict_get turn ''dir'' PNone, dict_get turn ''data'' PNone) of
          (PStr dir, PDict d) \<Rightarrow>
            if dir = ''out'' \<and> dict_get d ''kind'' PNone = PStr ''handoff''
            then (case dict_get d ''name'' PNone of PStr n \<Rightarrow> dict_get reg n act | _ \<Rightarrow> act)
            else act
        | _ \<Rightarrow> act)"

definition followed :: "(string, nat) dict \<Rightarrow> nat \<Rightarrow> string list \<Rightarrow> nat" where
  "followed reg act handed = foldl (\<lambda>i n. dict_get reg n i) act handed"

fun agents_turns :: "'w swarm \<Rightarrow> 'w agent \<Rightarrow> (string, nat) dict \<Rightarrow> nat \<Rightarrow> pyval list \<Rightarrow> ('w chat, unit) io" where
  "agents_turns sw a reg act [] = io_return ()"
| "agents_turns sw a reg act (v # vs) =
     io_bind (append_message (chat_message ''user'' (PStr (user_text (ag_texts a) v)))) (\<lambda>_.
     io_bind (run_multi_agent sw a act) (\<lambda>handed. agents_turns sw a reg (followed reg act handed) vs))"

definition drive_agents ::
  "'w swarm \<Rightarrow> 'w agent \<Rightarrow> nat \<Rightarrow> ('w, (string, pyval) dict list) io \<Rightarrow> pyval list \<Rightarrow> (pyval \<Rightarrow> ('w, unit) io) \<Rightarrow> bool
   \<Rightarrow> ('w, unit) io" where
  "drive_agents sw a entry hist inbound send send_events w =
     (let reg = build_registry sw entry
      in case hist w of
           None \<Rightarrow> None
         | Some (Inl e, w1) \<Rightarrow> Some (Inl e, w1)
         | Some (Inr h, w1) \<Rightarrow>
             (case history_to_messages (ag_texts a) h None True of
                Inl e \<Rightarrow> Some (Inl e, w1)
              | Inr ms \<Rightarrow>
                  map_option (\<lambda>(out, _, w'). (out, w'))
                    (agents_turns sw (a\<lparr>ag_emit := forward send send_events\<rparr>) reg
                      (active_from_history h reg entry) inbound (ms, w1))))"

section \<open>The registry\<close>

inductive reaches :: "'w swarm \<Rightarrow> nat \<Rightarrow> nat \<Rightarrow> bool" for sw i where
  here: "reaches sw i i"
| there: "reaches sw i j \<Longrightarrow> j < length sw \<Longrightarrow> k \<in> set (sa_handoffs (sw ! j)) \<Longrightarrow> reaches sw i k"

text \<open>The loop's invariant: what was registered, or is still on the stack, covers the handoffs of what was
  registered.\<close>

lemma registry_loop_covers:
  assumes "\<And>n j k. (n, j) \<in> set reg \<Longrightarrow> k \<in> set (sa_handoffs (sw ! j)) \<Longrightarrow> k < length sw \<Longrightarrow>
      k \<in> set st \<or> sa_name (sw ! k) \<in> dkeys reg"
    and "(n, j) \<in> set (registry_loop sw st reg)" "k \<in> set (sa_handoffs (sw ! j))" "k < length sw"
  shows "sa_name (sw ! k) \<in> dkeys (registry_loop sw st reg)"
  using assms
proof (induction sw st reg rule: registry_loop.induct)
  case (2 sw i st reg)
  show ?case
  proof (cases "i \<ge> length sw \<or> sa_name (sw ! i) \<in> dkeys reg")
    case True
    have "k \<in> set st \<or> sa_name (sw ! k) \<in> dkeys reg"
      if "(n, j) \<in> set reg" "k \<in> set (sa_handoffs (sw ! j))" "k < length sw" for n j k
      using 2(3) [OF that] True that(3) by auto
    then show ?thesis using 2(1) [OF True] 2(4-6) True by simp
  next
    case False
    have "k \<in> set (rev (sa_handoffs (sw ! i)) @ st) \<or> sa_name (sw ! k) \<in> dkeys (reg @ [(sa_name (sw ! i), i)])"
      if "(n, j) \<in> set (reg @ [(sa_name (sw ! i), i)])" "k \<in> set (sa_handoffs (sw ! j))" "k < length sw" for n j k
      using 2(3) [of n j k] that by auto
    then show ?thesis using 2(2) [OF False] 2(4-6) False by simp
  qed
qed force

lemma registry_loop_keeps: "set reg \<subseteq> set (registry_loop sw st reg)"
  by (induction sw st reg rule: registry_loop.induct) auto

lemma registry_loop_stack: "i \<in> set st \<Longrightarrow> i < length sw \<Longrightarrow> sa_name (sw ! i) \<in> dkeys (registry_loop sw st reg)"
proof (induction sw st reg rule: registry_loop.induct)
  case (2 sw j st reg)
  show ?case
  proof (cases "j \<ge> length sw \<or> sa_name (sw ! j) \<in> dkeys reg")
    case True
    then show ?thesis using 2 registry_loop_keeps [of reg sw st] by auto
  next
    case False
    have "(sa_name (sw ! j), j) \<in> set (registry_loop sw (rev (sa_handoffs (sw ! j)) @ st) (reg @ [(sa_name (sw ! j), j)]))"
      using registry_loop_keeps by fastforce
    then show ?thesis using False 2 by (auto intro: rev_image_eqI)
  qed
qed simp

lemma registry_loop_sound:
  assumes "\<And>n j. (n, j) \<in> set reg \<Longrightarrow> j < length sw \<and> n = sa_name (sw ! j) \<and> reaches sw e j"
    and "\<And>j. j \<in> set st \<Longrightarrow> reaches sw e j"
    and "(n, j) \<in> set (registry_loop sw st reg)"
  shows "j < length sw \<and> n = sa_name (sw ! j) \<and> reaches sw e j"
  using assms
proof (induction sw st reg rule: registry_loop.induct)
  case (2 sw i st reg)
  show ?case
  proof (cases "i \<ge> length sw \<or> sa_name (sw ! i) \<in> dkeys reg")
    case True
    show ?thesis by (rule 2(1) [OF True]) (use 2(3-5) True in auto)
  next
    case False
    have "(n, j) \<in> set (registry_loop sw (rev (sa_handoffs (sw ! i)) @ st) (reg @ [(sa_name (sw ! i), i)]))"
      using 2(5) False by simp
    note member = this
    have i: "reaches sw e i" "i < length sw" using 2(4) False by simp_all
    show ?thesis
    proof (rule 2(2) [OF False _ _ member])
      fix n' j'
      assume "(n', j') \<in> set (reg @ [(sa_name (sw ! i), i)])"
      then show "j' < length sw \<and> n' = sa_name (sw ! j') \<and> reaches sw e j'" using 2(3) i by auto
    next
      fix j'
      assume "j' \<in> set (rev (sa_handoffs (sw ! i)) @ st)"
      then show "reaches sw e j'" using 2(4) i reaches.there [OF i] by auto
    qed
  qed
qed simp

lemma registry_sound:
  "(n, j) \<in> set (build_registry sw entry) \<Longrightarrow> j < length sw \<and> n = sa_name (sw ! j) \<and> reaches sw entry j"
  unfolding build_registry_def
  by (erule registry_loop_sound [rotated 2]) (auto intro: reaches.here)

text \<open>With names of their own, every agent that handoffs reach is registered, whatever cycles they form.\<close>

definition own_names :: "'w swarm \<Rightarrow> nat \<Rightarrow> bool" where
  "own_names sw entry \<longleftrightarrow> inj_on (\<lambda>i. sa_name (sw ! i)) {i. i < length sw \<and> reaches sw entry i}"

lemma registered_name:
  assumes "own_names sw entry" "reaches sw entry k" "k < length sw" "sa_name (sw ! k) \<in> dkeys (build_registry sw entry)"
  shows "(sa_name (sw ! k), k) \<in> set (build_registry sw entry)"
proof -
  obtain j where j: "(sa_name (sw ! k), j) \<in> set (build_registry sw entry)" using assms(4) by auto
  then have "j = k" using registry_sound [OF j] assms(1-3) by (auto simp: own_names_def dest: inj_onD)
  then show ?thesis using j by simp
qed

lemma registry_reaches:
  assumes "reaches sw entry k" "k < length sw" "entry < length sw" "own_names sw entry"
  shows "(sa_name (sw ! k), k) \<in> set (build_registry sw entry)"
  using assms(1,2)
proof induction
  case here
  have "sa_name (sw ! entry) \<in> dkeys (build_registry sw entry)"
    unfolding build_registry_def by (rule registry_loop_stack) (simp_all add: assms)
  then show ?case by (rule registered_name [OF assms(4) reaches.here assms(3)])
next
  case (there j k)
  have "(sa_name (sw ! j), j) \<in> set (registry_loop sw [entry] [])"
    using there by (simp add: build_registry_def)
  then have "sa_name (sw ! k) \<in> dkeys (build_registry sw entry)"
    unfolding build_registry_def by (rule registry_loop_covers [rotated]) (use there in simp_all)
  then show ?case by (rule registered_name [OF assms(4) reaches.there [OF there(1-3)] there.prems])
qed

text \<open>Agents with names of their own that run without a gate have no gated tool anywhere handoffs
  lead: the check at the start covers every agent, cycles included.\<close>

theorem gate_check_covers:
  assumes "own_names sw act" "act < length sw" "ag_approvals a = None"
    and "run_multi_agent sw a act s \<noteq> io_raise (value_error ''Tools require human approval but no gate was passed.'') s"
    and "ag_max_steps a \<ge> 1" "reaches sw act i" "i < length sw" "t \<in> set (sa_tools (sw ! i))"
  shows "\<not> requires_approval t"
proof
  assume "requires_approval t"
  then have "t \<in> set (gated_in sw act)"
    using registry_reaches [OF assms(6,7,2,1)] assms(8) by (auto simp: gated_in_def intro!: bexI [of _ "(_, i)"])
  then have "gated_in sw act \<noteq> []" by auto
  then show False using assms(3-5) by (simp add: run_multi_agent_def)
qed

text \<open>A desk that hands over to a clerk, who hands over to a cashier with a gated tool.\<close>

definition pay_tool :: "unit mesh_tool" where
  "pay_tool = \<lparr>mt_prefix = ''pay'', mt_name = ''pay'', mt_description = [], mt_parameters = any_object,
     mt_approval = PBool True, mt_invoke = Some (\<lambda>_. io_return (PStr ''paid'')), mt_app = None\<rparr>"

definition calls :: "string \<Rightarrow> unit model" where
  "calls name ms schemas = io_return (plain_reply None [\<lparr>tc_id = ''c'', tc_name = name, tc_arguments = []\<rparr>])"

definition staff :: "string \<Rightarrow> string \<Rightarrow> unit mesh_tool list \<Rightarrow> nat list \<Rightarrow> unit swarm_agent" where
  "staff name call tools handoffs = \<lparr>sa_name = name, sa_model = calls call, sa_tools = tools, sa_system = None,
     sa_handoffs = handoffs, sa_description = []\<rparr>"

definition shop :: "string \<Rightarrow> unit mesh_tool list \<Rightarrow> unit swarm" where
  "shop cashier tools =
     [staff ''desk'' ''transfer_to_clerk'' [] [1], staff ''clerk'' (''transfer_to_'' @ cashier) [] [2, 0], staff cashier ''pay'' tools []]"

definition shop_agent :: "unit agent" where
  "shop_agent = \<lparr>ag_model = calls [], ag_tools = [], ag_max_steps = 3, ag_max_messages = None, ag_token = None,
     ag_timeout_s = 5, ag_approvals = None, ag_conversation = None, ag_texts = plain_texts, ag_emit = (\<lambda>_. io_return ())\<rparr>"

lemma gate_check_covers_witness:
  "\<not> requires_approval (pay_tool\<lparr>mt_approval := PBool False\<rparr>)"
proof -
  let ?sw = "shop ''cashier'' [pay_tool\<lparr>mt_approval := PBool False\<rparr>]"
  have name: "sa_name (?sw ! 0) = ''desk''" "sa_name (?sw ! 1) = ''clerk''" "sa_name (?sw ! 2) = ''cashier''" "length ?sw = 3"
    "sa_handoffs (?sw ! 0) = [1]" "sa_handoffs (?sw ! 1) = [2, 0]" "sa_tools (?sw ! 2) = [pay_tool\<lparr>mt_approval := PBool False\<rparr>]"
    by (simp_all add: shop_def staff_def)
  have "own_names ?sw 0"
    unfolding own_names_def name(4)
    by (rule inj_on_subset [of _ "{0, 1, 2}"]) (use name in \<open>auto simp: inj_on_def numeral_3_eq_3 less_Suc_eq\<close>)
  moreover have "reaches ?sw 0 2"
    by (rule reaches.there [OF reaches.there [OF reaches.here, where k = 1]]) (simp_all add: name del: One_nat_def)
  moreover have "run_multi_agent ?sw shop_agent 0 ([], ()) \<noteq> io_raise (value_error ''Tools require human approval but no gate was passed.'') ([], ())"
    by code_simp
  ultimately show ?thesis
    using gate_check_covers [of ?sw 0 shop_agent "([], ())" 2] name by (simp add: shop_agent_def)
qed

text \<open>When the cashier is called clerk too, the check misses it, and its gated tool runs without any gate.\<close>

lemma namesake_skips_the_gate:
  "requires_approval pay_tool
   \<and> map_option (\<lambda>(out, ms, w). (out, filter (\<lambda>m. dict_get m ''content'' PNone = PStr ''paid'') ms))
       (run_multi_agent (shop ''clerk'' [pay_tool]) shop_agent 0 ([], ()))
     = Some (Inr [''clerk'', ''clerk''], [tool_message ''c'' ''paid''])"
  by code_simp

end
