(* ===== verification/Subscribe.thy ===== *)
theory Subscribe
  imports Handler Runs
begin

text \<open>
  Subscribers (\<open>primitives/subscribe.py\<close>): the gate on a sample, the window of fingerprints that
  drops duplicates, delivery through validation, retry and middleware, and the replay of persisted
  history. Deliveries interleave while a callback runs: a run of the window is a sequence of starts,
  drops and ends.
\<close>

section \<open>Subscribers\<close>

text \<open>
  \<open>sb_call\<close> is the callback on its arguments with its dependencies resolved; \<open>sb_on_miss\<close> the
  callback for gaps. Fingerprints are the hex digests \<open>sb_sha256\<close> of payloads.
\<close>

record 'u subscriber =
  sb_prefix :: string
  sb_deserialize :: "bytes \<Rightarrow> exc + pyval"
  sb_validate :: "(pyval \<Rightarrow> exc + pyval) option"
  sb_call :: "pyval list \<Rightarrow> ('u world, pyval) act"
  sb_retry :: retry_policy
  sb_middleware :: "'u middleware list option"
  sb_authorizer :: "authorizer option"
  sb_window :: int
  sb_sha256 :: "bytes \<Rightarrow> string"
  sb_on_miss :: "(string \<Rightarrow> int \<Rightarrow> ('u world, unit) act) option"

text \<open>\<open>4096 if dedup is True else int(dedup) if dedup else 0\<close>.\<close>

datatype dedup_arg = DedupFlag bool | DedupWindow int

fun dedup_window :: "dedup_arg \<Rightarrow> int" where
  "dedup_window (DedupFlag b) = (if b then 4096 else 0)"
| "dedup_window (DedupWindow n) = n"

definition subscriber_retry :: "retry_arg \<Rightarrow> retry_policy res" where
  "subscriber_retry r =
     (case r of
        NoRetry \<Rightarrow> policy_from_int 0
      | IntRetry n \<Rightarrow> policy_from_int n
      | PolicyRetry p \<Rightarrow> Inr p)"

text \<open>The fingerprints delivered, oldest first, and those being delivered.\<close>

record window =
  w_seen :: "string list"
  w_inflight :: "string set"

record 'u sub_state =
  su_window :: window
  su_calls :: nat
  su_world :: "'u world"

section \<open>The window\<close>

definition fingerprint :: "'u subscriber \<Rightarrow> bytes \<Rightarrow> string option" where
  "fingerprint sb raw = (if sb_window sb = 0 then None else Some (sb_sha256 sb raw))"

definition is_duplicate :: "string option \<Rightarrow> window \<Rightarrow> bool \<times> window" where
  "is_duplicate fp d =
     (case fp of
        None \<Rightarrow> (False, d)
      | Some f \<Rightarrow>
          if f \<in> set (w_seen d) then (True, d\<lparr>w_seen := remove1 f (w_seen d) @ [f]\<rparr>)
          else (f \<in> w_inflight d, d))"

definition record_delivered :: "int \<Rightarrow> string \<Rightarrow> window \<Rightarrow> window" where
  "record_delivered n f d =
     (let seen = (if f \<in> set (w_seen d) then w_seen d else w_seen d @ [f])
      in d\<lparr>w_seen := (if int (length seen) > n then tl seen else seen)\<rparr>)"

text \<open>What is done before the callback of a fingerprinted payload runs, and after it ended.\<close>

definition start_delivery :: "string \<Rightarrow> window \<Rightarrow> window" where
  "start_delivery f d = d\<lparr>w_inflight := insert f (w_inflight d)\<rparr>"

definition end_delivery :: "int \<Rightarrow> string \<Rightarrow> bool \<Rightarrow> window \<Rightarrow> window" where
  "end_delivery n f ok d =
     (let d' = d\<lparr>w_inflight := w_inflight d - {f}\<rparr> in if ok then record_delivered n f d' else d')"

section \<open>Delivery\<close>

definition sample_scope :: "'u subscriber \<Rightarrow> 'u surroundings \<Rightarrow> principal option \<Rightarrow> bytes option
    \<Rightarrow> principal request_context \<Rightarrow> request_scope" where
  "sample_scope sb u who att ctx =
     \<lparr>s_prefix = sb_prefix sb, s_operation = ''subscribe'', s_params = [],
      s_context = (default_context (u_uuid u))\<lparr>rc_principal := who, rc_attachment := att,
        rc_correlation_id := rc_correlation_id ctx, rc_traceparent := rc_traceparent ctx\<rparr>\<rparr>"

definition process_sample :: "'u subscriber \<Rightarrow> 'u surroundings \<Rightarrow> principal option \<Rightarrow> bytes option
    \<Rightarrow> principal request_context \<Rightarrow> pyval list \<Rightarrow> ('u world, pyval) act" where
  "process_sample sb u who att ctx args =
     (case sb_middleware sb of
        None \<Rightarrow> sb_call sb args
      | Some ms \<Rightarrow> invoke_stack ms (sample_scope sb u who att ctx) (\<lambda>_. sb_call sb args))"

definition deliver_once :: "'u subscriber \<Rightarrow> 'u surroundings \<Rightarrow> bytes \<Rightarrow> principal option \<Rightarrow> bytes option
    \<Rightarrow> pyval option \<Rightarrow> ('u world, unit) act" where
  "deliver_once sb u raw who att inst w =
     (case res_bind (sb_deserialize sb raw)
             (\<lambda>v. case sb_validate sb of None \<Rightarrow> Inr v | Some f \<Rightarrow> f v) of
        Inl e \<Rightarrow> (Inl e, w)
      | Inr v \<Rightarrow>
          (let ctx = ingress_context (u_loads u) (u_uuid u) (sb_prefix sb) ''subscribe'' att who;
               args = (case inst of None \<Rightarrow> [v] | Some i \<Rightarrow> [i, v])
           in with_context ctx (\<lambda>w1.
                case execute_with_retry (sb_retry sb) None (u_draws u) (process_sample sb u who att ctx args) w1 of
                  (Inl e, _, w2) \<Rightarrow> (Inl e, w2)
                | (Inr _, _, w2) \<Rightarrow> (Inr (), w2)) w))"

text \<open>A delivery on its own, from the test for a duplicate to the end.\<close>

definition deliver :: "'u subscriber \<Rightarrow> 'u surroundings \<Rightarrow> bytes \<Rightarrow> principal option \<Rightarrow> bytes option
    \<Rightarrow> pyval option \<Rightarrow> ('u sub_state, unit) act" where
  "deliver sb u raw who att inst s =
     (case is_duplicate (fingerprint sb raw) (su_window s) of
        (True, d) \<Rightarrow> (Inr (), s\<lparr>su_window := d\<rparr>)
      | (False, d) \<Rightarrow>
          (case fingerprint sb raw of
             None \<Rightarrow>
               (case deliver_once sb u raw who att inst (su_world s) of
                  (out, w) \<Rightarrow> (out, s\<lparr>su_window := d, su_world := w\<rparr>))
           | Some f \<Rightarrow>
               (case deliver_once sb u raw who att inst (su_world s) of
                  (out, w) \<Rightarrow>
                    (out, s\<lparr>su_window := end_delivery (sb_window sb) f (out = Inr ()) (start_delivery f d),
                            su_world := w\<rparr>))))"

definition sample_auth :: "'u subscriber \<Rightarrow> string \<Rightarrow> bytes option \<Rightarrow> exc + identity option" where
  "sample_auth sb key att = fst (check_authorized (sb_authorizer sb)
     \<lparr>a_prefix = sb_prefix sb, a_key_expr = key, a_params = [], a_attachment = att,
      a_operation = ''subscribe'', a_principal = None\<rparr>)"

text \<open>A sample from the fabric: what is refused or fails is logged and dropped, a cancellation goes on.\<close>

definition on_sample :: "'u subscriber \<Rightarrow> 'u surroundings \<Rightarrow> string \<Rightarrow> bytes \<Rightarrow> bytes option \<Rightarrow> pyval option
    \<Rightarrow> ('u sub_state, unit) act" where
  "on_sample sb u key raw att inst s =
     (let s1 = s\<lparr>su_calls := Suc (su_calls s)\<rparr>
      in case sample_auth sb key att of
           Inl e \<Rightarrow> (if is_exception e then Inr () else Inl e, s1)
         | Inr p \<Rightarrow>
             swallow (deliver sb u raw (map_option (\<lambda>i. ObjPrincipal (PStr (p_id i))) p) att inst) s1)"

text \<open>An in-process call: the last positional argument is the payload.\<close>

definition call_subscriber :: "'u subscriber \<Rightarrow> pyval list \<Rightarrow> (string, pyval) dict \<Rightarrow> ('u world, pyval) act" where
  "call_subscriber sb args kwargs =
     (let v = (if args \<noteq> [] then last args else dict_get kwargs ''data'' PNone)
      in act_bind (act_of (case sb_validate sb of None \<Rightarrow> Inr v | Some f \<Rightarrow> f v)) (\<lambda>v'.
           sb_call sb (if length args > 1 \<and> hd args \<noteq> PNone then [hd args, v'] else [v'])))"

definition handle_miss :: "'u subscriber \<Rightarrow> string \<Rightarrow> int \<Rightarrow> ('u world, unit) act" where
  "handle_miss sb src nb = (case sb_on_miss sb of None \<Rightarrow> act_return () | Some f \<Rightarrow> swallow (f src nb))"

text \<open>The persisted samples a \<open>get(prefix/**)\<close> collected, in key order, which is publish order.\<close>

fun replay_all :: "'u subscriber \<Rightarrow> 'u surroundings \<Rightarrow> pyval option \<Rightarrow> (string \<times> bytes) list \<Rightarrow> ('u sub_state, unit) act" where
  "replay_all sb u inst [] = act_return ()"
| "replay_all sb u inst ((key, raw) # hs) =
     act_bind (swallow (deliver sb u raw None None inst)) (\<lambda>_. replay_all sb u inst hs)"

definition replay_history :: "'u subscriber \<Rightarrow> 'u surroundings \<Rightarrow> pyval option \<Rightarrow> (string \<times> bytes) list \<Rightarrow> ('u sub_state, unit) act" where
  "replay_history sb u inst collected = replay_all sb u inst (sort_key fst collected)"

section \<open>Interleaved deliveries\<close>

datatype window_event = Dropped string | Started string | Ended string bool

inductive window_step :: "int \<Rightarrow> window \<Rightarrow> window_event \<Rightarrow> window \<Rightarrow> bool" for n where
  dropped: "is_duplicate (Some f) d = (True, d') \<Longrightarrow> window_step n d (Dropped f) d'"
| started: "is_duplicate (Some f) d = (False, d') \<Longrightarrow> window_step n d (Started f) (start_delivery f d')"
| ended: "f \<in> w_inflight d \<Longrightarrow> window_step n d (Ended f ok) (end_delivery n f ok d)"

inductive_cases DroppedE: "window_step n d (Dropped f) d'"
inductive_cases StartedE: "window_step n d (Started f) d'"
inductive_cases EndedE: "window_step n d (Ended f ok) d'"

definition fresh_window :: window where
  "fresh_window = \<lparr>w_seen = [], w_inflight = {}\<rparr>"

definition window_ok :: "int \<Rightarrow> window \<Rightarrow> bool" where
  "window_ok n d \<longleftrightarrow> distinct (w_seen d) \<and> int (length (w_seen d)) \<le> max 0 n \<and> set (w_seen d) \<inter> w_inflight d = {}"

lemma end_seen:
  "f \<notin> set (w_seen d) \<Longrightarrow> w_seen (end_delivery n f True d)
     = (if int (length (w_seen d)) \<ge> n then tl (w_seen d @ [f]) else w_seen d @ [f])"
  by (auto simp: end_delivery_def record_delivered_def Let_def)

lemma move_to_end_length: "f \<in> set xs \<Longrightarrow> length (remove1 f xs @ [f]) = length xs"
  by (auto simp: length_remove1 dest: length_pos_if_in_set)

lemma window_ok_step:
  assumes "window_step n d e d'" "window_ok n d"
  shows "window_ok n d'"
  using assms
proof cases
  case (dropped f)
  then show ?thesis using assms(2)
    by (cases "f \<in> set (w_seen d)")
      (auto simp: window_ok_def is_duplicate_def distinct_remove1 simp del: length_append simp: move_to_end_length)
next
  case (started f)
  then show ?thesis using assms(2)
    by (auto simp: window_ok_def is_duplicate_def start_delivery_def split: if_splits)
next
  case (ended f ok)
  have "f \<notin> set (w_seen d)" using assms(2) ended by (auto simp: window_ok_def)
  then show ?thesis using assms(2) ended
    by (cases "w_seen d") (auto simp: window_ok_def end_delivery_def record_delivered_def Let_def split: if_splits)
qed

fun touched :: "window_event \<Rightarrow> string set" where
  "touched (Dropped g) = {g}"
| "touched (Ended g ok) = (if ok then {g} else {})"
| "touched (Started g) = {}"

definition others_since :: "string \<Rightarrow> window_event list \<Rightarrow> string set" where
  "others_since f tr = \<Union> (touched ` set tr) - {f}"

lemma others_since_snoc: "others_since f (tr @ [e]) = others_since f tr \<union> (touched e - {f})"
  by (auto simp: others_since_def)

lemma finite_others [simp]: "finite (others_since f tr)"
proof -
  have "finite (touched e)" for e by (cases e) auto
  then show ?thesis by (simp add: others_since_def)
qed

text \<open>A delivered fingerprint stays in the window, behind none but what was delivered or dropped since,
  until there are as many of those as the window holds.\<close>

definition remembered :: "int \<Rightarrow> string \<Rightarrow> window \<Rightarrow> string set \<Rightarrow> bool" where
  "remembered n f d T \<longleftrightarrow> (\<exists>xs ys. w_seen d = xs @ f # ys \<and> set ys \<subseteq> T) \<or> n \<le> int (card T)"

lemma remembered_step:
  assumes step: "window_step n d e d'" and ok: "window_ok n d" and r: "remembered n f d T" "finite T"
  shows "remembered n f d' (T \<union> (touched e - {f}))"
proof (cases "n \<le> int (card T)")
  case True
  have "card T \<le> card (T \<union> (touched e - {f}))"
    by (rule card_mono) (use r(2) in \<open>cases e; simp\<close>)+
  then show ?thesis using True by (simp add: remembered_def)
next
  case False
  then obtain xs ys where seen: "w_seen d = xs @ f # ys" "set ys \<subseteq> T" using r(1) by (auto simp: remembered_def)
  have dist: "distinct (xs @ f # ys)" using ok seen by (simp add: window_ok_def)
  show ?thesis using step
  proof cases
    case (dropped g)
    show ?thesis
    proof (cases "g \<in> set (w_seen d)")
      case in_seen: True
      consider "g = f" | "g \<noteq> f" "g \<in> set xs" | "g \<noteq> f" "g \<notin> set xs" by blast
      then have "\<exists>xs' ys'. remove1 g (w_seen d) @ [g] = xs' @ f # ys' \<and> set ys' \<subseteq> T \<union> ({g} - {f})"
      proof cases
        case 1
        then show ?thesis by (intro exI [of _ "remove1 g (w_seen d)"] exI [of _ "[]"]) simp
      next
        case 2
        then show ?thesis using seen
          by (intro exI [of _ "remove1 g xs"] exI [of _ "ys @ [g]"]) (auto simp: remove1_append)
      next
        case 3
        then show ?thesis using seen set_remove1_subset [of g ys]
          by (intro exI [of _ xs] exI [of _ "remove1 g ys @ [g]"]) (auto simp: remove1_append)
      qed
      moreover have "w_seen d' = remove1 g (w_seen d) @ [g]" using dropped in_seen by (auto simp: is_duplicate_def)
      ultimately show ?thesis unfolding remembered_def dropped(1) touched.simps by metis
    qed (use dropped seen in \<open>auto simp: remembered_def is_duplicate_def\<close>)
  next
    case (started g)
    then show ?thesis using seen
      by (auto simp: remembered_def is_duplicate_def start_delivery_def split: if_splits)
  next
    case (ended g b)
    have g: "g \<notin> set (w_seen d)" "g \<noteq> f" using ok ended seen by (auto simp: window_ok_def)
    show ?thesis
    proof (cases "b \<and> n < int (length (w_seen d @ [g])) \<and> xs = []")
      case True
      have "card (set (ys @ [g])) = length ys + 1" using dist g seen by (simp add: distinct_card)
      moreover have "card (set (ys @ [g])) \<le> card (T \<union> ({g} - {f}))"
        by (rule card_mono) (use seen g r(2) in auto)
      moreover have "n \<le> int (length ys + 1)" using True seen by auto
      ultimately have "n \<le> int (card (T \<union> (touched e - {f})))" using True ended by simp
      then show ?thesis by (simp add: remembered_def)
    next
      case False
      show ?thesis
      proof (cases b)
        case b: True
        obtain xs' where "w_seen d' = xs' @ f # ys @ [g]"
          using False b ended g seen
          by (cases xs) (auto simp: end_delivery_def record_delivered_def Let_def split: if_splits)
        moreover have "set (ys @ [g]) \<subseteq> T \<union> (touched e - {f})" using seen g b ended by auto
        ultimately show ?thesis unfolding remembered_def by metis
      qed (use ended seen in \<open>auto simp: remembered_def end_delivery_def Let_def\<close>)
    qed
  qed
qed

lemma window_run:
  assumes "run (window_step n) d tr d'" "window_ok n d" "w_seen d = xs @ [f]"
  shows "window_ok n d' \<and> remembered n f d' (others_since f tr)"
  using assms
proof (induction rule: run.induct)
  case (run_nil d)
  then show ?case by (auto simp: remembered_def others_since_def)
next
  case (run_step d tr d' e d'')
  then show ?case
    using window_ok_step remembered_step [OF run_step.hyps(2)] by (auto simp: others_since_snoc)
qed

text \<open>C21: A payload whose delivery succeeded is not handed to the callback again, however samples, replays
  and callbacks interleave, unless in between as many other payloads were delivered or dropped as the
  window holds.\<close>

theorem no_redelivery_within_window:
  assumes "run (window_step n) fresh_window pre d" "n \<ge> 1"
    and "window_step n d (Ended f True) d1" "run (window_step n) d1 mid d2" "window_step n d2 (Started f) d3"
  shows "n \<le> int (card (others_since f mid))"
proof -
  have "window_ok n fresh_window" by (simp add: window_ok_def fresh_window_def)
  then have d: "window_ok n d" using run_invariant [OF assms(1)] window_ok_step by blast
  then have d1: "window_ok n d1" using window_ok_step assms(3) by blast
  have "f \<in> w_inflight d" "d1 = end_delivery n f True d" using assms(3) by (auto elim: EndedE)
  then have "f \<notin> set (w_seen d)" using d by (auto simp: window_ok_def)
  with \<open>d1 = _\<close> have s1: "w_seen d1 = (if int (length (w_seen d)) \<ge> n then tl (w_seen d @ [f]) else w_seen d @ [f])"
    by (simp add: end_seen)
  obtain xs where "w_seen d1 = xs @ [f]"
    using s1 assms(2) by (cases "w_seen d"; cases "int (length (w_seen d)) \<ge> n") simp_all
  then have "remembered n f d2 (others_since f mid)" using window_run [OF assms(4) d1] by blast
  moreover have "f \<notin> set (w_seen d2)" using assms(5) by (auto elim!: StartedE simp: is_duplicate_def split: if_splits)
  ultimately show ?thesis by (auto simp: remembered_def)
qed

definition busy :: window where "busy = \<lparr>w_seen = [], w_inflight = {''a''}\<rparr>"

lemma no_redelivery_within_window_witness:
  "\<exists>mid. others_since ''a'' mid = {''b''} \<and> (1::int) \<le> int (card (others_since ''a'' mid))"
proof -
  let ?d1 = "\<lparr>w_seen = [''a''], w_inflight = {}\<rparr>" and ?d1' = "\<lparr>w_seen = [''a''], w_inflight = {''b''}\<rparr>"
  let ?d2 = "\<lparr>w_seen = [''b''], w_inflight = {}\<rparr>" and ?mid = "[Started ''b'', Ended ''b'' True]"
  have s: "window_step 1 fresh_window (Started ''a'') busy"
    using window_step.started [of "''a''" fresh_window fresh_window 1]
    by (simp add: is_duplicate_def fresh_window_def start_delivery_def busy_def)
  have e: "window_step 1 busy (Ended ''a'' True) ?d1"
    using window_step.ended [of "''a''" busy 1 True]
    by (simp add: busy_def end_delivery_def record_delivered_def)
  have sb: "window_step 1 ?d1 (Started ''b'') ?d1'"
    using window_step.started [of "''b''" ?d1 ?d1 1] by (simp add: is_duplicate_def start_delivery_def)
  have eb: "window_step 1 ?d1' (Ended ''b'' True) ?d2"
    using window_step.ended [of "''b''" ?d1' 1 True] by (simp add: end_delivery_def record_delivered_def)
  have sa: "window_step 1 ?d2 (Started ''a'') \<lparr>w_seen = [''b''], w_inflight = {''a''}\<rparr>"
    using window_step.started [of "''a''" ?d2 ?d2 1] by (simp add: is_duplicate_def start_delivery_def)
  have mid: "run (window_step 1) ?d1 ?mid ?d2"
    using run_step [where step = "window_step 1", OF run_step [where step = "window_step 1", OF run_nil sb] eb] by simp
  have "run (window_step 1) fresh_window [Started ''a''] busy" using run_step [where step = "window_step 1", OF run_nil s] by simp
  from no_redelivery_within_window [OF this _ e mid sa]
  show ?thesis by (intro exI [of _ ?mid]) (auto simp: others_since_def)
qed

end
