(* ===== verification/RedisLedger.thy ===== *)
theory RedisLedger
  imports Ledger Effects PyText
begin

text \<open>
  The ledger on Redis (\<open>consistency/redis_storage.py\<close>): the Lua scripts that make each claim
  operation one atomic step of the server, and the plugin's methods on them. The server is an
  argument: its commands, and the data model its documentation gives, a value and an expiry per key.
  \<open>json.dumps\<close> and \<open>json.loads\<close> are arguments too.
\<close>

section \<open>The server\<close>

record 'r redis =
  rd_get :: "string \<Rightarrow> time \<Rightarrow> 'r \<Rightarrow> bytes option"
  rd_set :: "string \<Rightarrow> bytes \<Rightarrow> 'r \<Rightarrow> 'r"
  rd_set_px :: "string \<Rightarrow> bytes \<Rightarrow> int \<Rightarrow> time \<Rightarrow> 'r \<Rightarrow> 'r"
  rd_del :: "string \<Rightarrow> 'r \<Rightarrow> 'r"
  rd_lpush :: "string \<Rightarrow> bytes \<Rightarrow> 'r \<Rightarrow> 'r"
  rd_lrange :: "string \<Rightarrow> int \<Rightarrow> int \<Rightarrow> 'r \<Rightarrow> bytes list"
  rd_at :: "'r \<Rightarrow> string \<Rightarrow> (bytes \<times> time option) option"

text \<open>What Redis documents of the commands on string keys: \<open>SET\<close> drops an expiry, \<open>SET \<dots> PX ms\<close> sets
  one, a key past its expiry is not there.\<close>

definition redis_documented :: "'r redis \<Rightarrow> bool" where
  "redis_documented srv \<longleftrightarrow>
     (\<forall>k t r. rd_get srv k t r = (case rd_at srv r k of
        None \<Rightarrow> None | Some (v, None) \<Rightarrow> Some v | Some (v, Some u) \<Rightarrow> if u > t then Some v else None))
     \<and> (\<forall>k v r. rd_at srv (rd_set srv k v r) = (rd_at srv r)(k \<mapsto> (v, None)))
     \<and> (\<forall>k v ms t r. rd_at srv (rd_set_px srv k v ms t r) = (rd_at srv r)(k \<mapsto> (v, Some (t + of_int ms / 1000))))
     \<and> (\<forall>k r. rd_at srv (rd_del srv k r) = (rd_at srv r)(k := None))
     \<and> (\<forall>k v r. rd_at srv (rd_lpush srv k v r) = rd_at srv r)"

section \<open>The plugin\<close>

text \<open>A stored value reads as JSON, or stays bytes.\<close>

datatype stored = Json pyval | Raw bytes

record 'r redis_plugin =
  rp_server :: "'r redis"
  rp_prefix :: string
  rp_dumps :: "pyval \<Rightarrow> string"
  rp_loads :: "string \<Rightarrow> pyval res"

definition kv_key :: "'r redis_plugin \<Rightarrow> string \<Rightarrow> string" where
  "kv_key p k = rp_prefix p @ ''kv:'' @ k"

definition redis_log_key :: "'r redis_plugin \<Rightarrow> string \<Rightarrow> string" where
  "redis_log_key p k = rp_prefix p @ ''log:'' @ k"

definition idemp_key :: "'r redis_plugin \<Rightarrow> string \<Rightarrow> string" where
  "idemp_key p k = rp_prefix p @ ''idemp:'' @ k"

definition json_bytes :: "'r redis_plugin \<Rightarrow> pyval \<Rightarrow> bytes" where
  "json_bytes p v = encode_utf8 (rp_dumps p v)"

definition stored_of :: "'r redis_plugin \<Rightarrow> bytes \<Rightarrow> stored" where
  "stored_of p b =
     (case decode_utf8 b of
        None \<Rightarrow> Raw b
      | Some s \<Rightarrow> (case rp_loads p s of Inl _ \<Rightarrow> Raw b | Inr v \<Rightarrow> Json v))"

definition redis_put :: "'r redis_plugin \<Rightarrow> string \<Rightarrow> stored \<Rightarrow> 'r \<Rightarrow> 'r" where
  "redis_put p k v = rd_set (rp_server p) (kv_key p k) (case v of Raw b \<Rightarrow> b | Json j \<Rightarrow> json_bytes p j)"

definition redis_get :: "'r redis_plugin \<Rightarrow> string \<Rightarrow> time \<Rightarrow> 'r \<Rightarrow> stored" where
  "redis_get p k t r =
     (case rd_get (rp_server p) (kv_key p k) t r of None \<Rightarrow> Json PNone | Some b \<Rightarrow> stored_of p b)"

definition redis_delete :: "'r redis_plugin \<Rightarrow> string \<Rightarrow> 'r \<Rightarrow> 'r" where
  "redis_delete p k = rd_del (rp_server p) (kv_key p k)"

section \<open>The scripts\<close>

definition PENDING_TAG :: "8 word" where "PENDING_TAG = 80"
definition DONE_TAG :: "8 word" where "DONE_TAG = 68"

text \<open>A \<open>PX\<close> that is not positive is an error of the command, which ends the script.\<close>

definition redis_error :: exc where
  "redis_error = builtin_exc [''ResponseError'', ''RedisError''] ''invalid expire time in set command''"

definition claim_script :: "'r redis \<Rightarrow> string \<Rightarrow> bytes \<Rightarrow> int \<Rightarrow> time \<Rightarrow> 'r \<Rightarrow> (exc + bytes option) \<times> 'r" where
  "claim_script srv key tag ms t r =
     (case rd_get srv key t r of
        Some cur \<Rightarrow> (Inr (Some cur), r)
      | None \<Rightarrow> if ms \<le> 0 then (Inl redis_error, r) else (Inr None, rd_set_px srv key tag ms t r))"

definition mark_script :: "'r redis \<Rightarrow> string \<Rightarrow> bytes \<Rightarrow> time \<Rightarrow> 'r \<Rightarrow> 'r" where
  "mark_script srv key v t r =
     (case rd_get srv key t r of
        Some cur \<Rightarrow> if take 1 cur = [DONE_TAG] then r else rd_set srv key v r
      | None \<Rightarrow> rd_set srv key v r)"

definition release_script :: "'r redis \<Rightarrow> string \<Rightarrow> time \<Rightarrow> 'r \<Rightarrow> 'r" where
  "release_script srv key t r =
     (case rd_get srv key t r of
        Some cur \<Rightarrow> if take 1 cur = [PENDING_TAG] then rd_del srv key r else r
      | None \<Rightarrow> r)"

definition log_script :: "'r redis \<Rightarrow> string \<Rightarrow> string \<Rightarrow> bytes \<Rightarrow> time \<Rightarrow> 'r \<Rightarrow> 'r" where
  "log_script srv idemp key v t r =
     (case rd_get srv idemp t r of
        Some cur \<Rightarrow> if take 1 cur \<noteq> [PENDING_TAG] then r else rd_lpush srv key v r
      | None \<Rightarrow> rd_lpush srv key v r)"

section \<open>Idempotency\<close>

definition decode_record :: "'r redis_plugin \<Rightarrow> bytes option \<Rightarrow> bool \<times> stored" where
  "decode_record p raw =
     (case raw of
        None \<Rightarrow> (False, Json PNone)
      | Some b \<Rightarrow>
          if take 1 b = [DONE_TAG] then (True, stored_of p (drop 1 b))
          else if take 1 b = [PENDING_TAG] then (False, Json PNone)
          else (True, stored_of p b))"

text \<open>An empty reply of the script, like none, is a claim taken: \<open>if not existing\<close>.\<close>

definition redis_claim :: "'r redis_plugin \<Rightarrow> string \<Rightarrow> time \<Rightarrow> time \<Rightarrow> 'r \<Rightarrow> (exc + claim_state \<times> stored) \<times> 'r" where
  "redis_claim p k lease_s t r =
     (case claim_script (rp_server p) (idemp_key p k) [PENDING_TAG]
             (if lease_s < 0 then - \<lfloor>- lease_s * 1000\<rfloor> else \<lfloor>lease_s * 1000\<rfloor>) t r of
        (Inl e, r') \<Rightarrow> (Inl e, r')
      | (Inr existing, r') \<Rightarrow>
          (if existing = None \<or> existing = Some [] then (Inr (CLAIMED, Json PNone), r')
           else (case decode_record p existing of
                   (finished, v) \<Rightarrow> (Inr (if finished then (FINISHED, v) else (IN_FLIGHT, Json PNone)), r'))))"

definition redis_release :: "'r redis_plugin \<Rightarrow> string \<Rightarrow> time \<Rightarrow> 'r \<Rightarrow> 'r" where
  "redis_release p k = release_script (rp_server p) (idemp_key p k)"

definition redis_check :: "'r redis_plugin \<Rightarrow> string \<Rightarrow> time \<Rightarrow> 'r \<Rightarrow> stored" where
  "redis_check p k t r =
     (case decode_record p (rd_get (rp_server p) (idemp_key p k) t r) of (finished, v) \<Rightarrow> if finished then v else Json PNone)"

definition redis_mark :: "'r redis_plugin \<Rightarrow> string \<Rightarrow> pyval \<Rightarrow> time \<Rightarrow> 'r \<Rightarrow> 'r" where
  "redis_mark p k v = mark_script (rp_server p) (idemp_key p k) (DONE_TAG # json_bytes p v)"

text \<open>An entry of the log: bytes are decoded, which may fail. \<open>ts\<close> is \<open>time.time()\<close>, \<open>t\<close> the server's clock.\<close>

definition redis_log :: "'r redis_plugin \<Rightarrow> string \<Rightarrow> stored \<Rightarrow> string option \<Rightarrow> time \<Rightarrow> time \<Rightarrow> 'r \<Rightarrow> (exc + unit) \<times> 'r" where
  "redis_log p k v idem ts t r =
     (case (case v of Json j \<Rightarrow> Some j | Raw b \<Rightarrow> map_option PStr (decode_utf8 b)) of
        None \<Rightarrow> (Inl (builtin_exc [''UnicodeDecodeError'', ''UnicodeError'', ''ValueError''] []), r)
      | Some j \<Rightarrow>
          (let entry = json_bytes p (PDict [(''value'', j), (''timestamp'', PFloat ts), (''idempotency_key'', opt_str idem)])
           in (Inr (), case idem of
                 None \<Rightarrow> rd_lpush (rp_server p) (redis_log_key p k) entry r
               | Some i \<Rightarrow>
                   if i = [] then rd_lpush (rp_server p) (redis_log_key p k) entry r
                   else log_script (rp_server p) (idemp_key p i) (redis_log_key p k) entry t r)))"

fun json_all :: "'r redis_plugin \<Rightarrow> bytes list \<Rightarrow> exc + pyval list" where
  "json_all p [] = Inr []"
| "json_all p (b # bs) =
     (case decode_utf8 b of
        None \<Rightarrow> Inl (builtin_exc [''UnicodeDecodeError'', ''UnicodeError'', ''ValueError''] [])
      | Some s \<Rightarrow> res_bind (lift_res (rp_loads p s)) (\<lambda>v. res_bind (json_all p bs) (\<lambda>vs. Inr (v # vs))))"

definition redis_get_log :: "'r redis_plugin \<Rightarrow> string \<Rightarrow> int \<Rightarrow> 'r \<Rightarrow> exc + pyval list" where
  "redis_get_log p k limit r =
     (if limit \<le> 0 then Inr []
      else json_all p (rd_lrange (rp_server p) (redis_log_key p k) 0 (limit - 1) r))"

section \<open>The same answers as the in-memory ledger\<close>

text \<open>The clients' calls of the idempotency part, at one clock.\<close>

datatype ledger_call = Claim string time | Release string | Mark string pyval | Check string

datatype ledger_answer = ClaimAnswer claim_state stored | CheckAnswer stored | Done

fun mem_answer :: "time \<Rightarrow> ledger_call \<Rightarrow> ledger \<Rightarrow> ledger_answer \<times> ledger" where
  "mem_answer t (Claim k d) l =
     (case claim_processed k d t t l of (c, l') \<Rightarrow> (ClaimAnswer (c_state c) (Json (c_result c)), l'))"
| "mem_answer t (Release k) l = (Done, release_claim k l)"
| "mem_answer t (Mark k v) l = (Done, mark_processed k v l)"
| "mem_answer t (Check k) l = (CheckAnswer (Json (check_processed k l)), l)"

fun redis_answer :: "'r redis_plugin \<Rightarrow> time \<Rightarrow> ledger_call \<Rightarrow> 'r \<Rightarrow> (exc + ledger_answer) \<times> 'r" where
  "redis_answer p t (Claim k d) r =
     (case redis_claim p k d t r of
        (Inl e, r') \<Rightarrow> (Inl e, r') | (Inr (st, v), r') \<Rightarrow> (Inr (ClaimAnswer st v), r'))"
| "redis_answer p t (Release k) r = (Inr Done, redis_release p k t r)"
| "redis_answer p t (Mark k v) r = (Inr Done, redis_mark p k v t r)"
| "redis_answer p t (Check k) r = (Inr (CheckAnswer (redis_check p k t r)), r)"

fun mem_answers :: "(time \<times> ledger_call) list \<Rightarrow> ledger \<Rightarrow> ledger_answer list" where
  "mem_answers [] l = []"
| "mem_answers ((t, c) # cs) l = (case mem_answer t c l of (a, l') \<Rightarrow> a # mem_answers cs l')"

fun redis_answers :: "'r redis_plugin \<Rightarrow> (time \<times> ledger_call) list \<Rightarrow> 'r \<Rightarrow> (exc + ledger_answer) list" where
  "redis_answers p [] r = []"
| "redis_answers p ((t, c) # cs) r = (case redis_answer p t c r of (a, r') \<Rightarrow> a # redis_answers p cs r')"

text \<open>Leases in whole milliseconds, and results that JSON writes and reads back.\<close>

fun plain_call :: "'r redis_plugin \<Rightarrow> ledger_call \<Rightarrow> bool" where
  "plain_call p (Claim k d) \<longleftrightarrow> (\<exists>ms>0. d = of_int ms / 1000)"
| "plain_call p (Mark k v) \<longleftrightarrow> stored_of p (json_bytes p v) = Json v"
| "plain_call p c \<longleftrightarrow> True"

text \<open>A slot of the ledger as the record Redis holds, and one that has lapsed as none or a lapsed one.\<close>

definition matches_slot :: "'r redis_plugin \<Rightarrow> time \<Rightarrow> slot \<Rightarrow> (bytes \<times> time option) option \<Rightarrow> bool" where
  "matches_slot p t sl rec \<longleftrightarrow>
     (case sl of
        Vacant \<Rightarrow> rec = None \<or> (\<exists>u\<le>t. rec = Some ([PENDING_TAG], Some u))
      | Pending u \<Rightarrow> rec = Some ([PENDING_TAG], Some u) \<or> (u \<le> t \<and> (rec = None \<or> (\<exists>w\<le>t. rec = Some ([PENDING_TAG], Some w))))
      | Finished v \<Rightarrow> (\<exists>b. rec = Some (DONE_TAG # b, None) \<and> stored_of p b = Json v))"

definition mirrors :: "'r redis_plugin \<Rightarrow> time \<Rightarrow> ledger \<Rightarrow> 'r \<Rightarrow> bool" where
  "mirrors p t l r \<longleftrightarrow> (\<forall>k. matches_slot p t (ledger_view l k) (rd_at (rp_server p) r (idemp_key p k)))"

lemma idemp_key_inj [simp]: "idemp_key p k = idemp_key p k' \<longleftrightarrow> k = k'"
  by (simp add: idemp_key_def)

lemma matches_later: "matches_slot p t sl rec \<Longrightarrow> t \<le> t' \<Longrightarrow> matches_slot p t' sl rec"
  by (auto simp: matches_slot_def split: slot.splits intro: order_trans)

lemma tags [simp]: "PENDING_TAG \<noteq> DONE_TAG" "DONE_TAG \<noteq> PENDING_TAG"
  by (simp_all add: PENDING_TAG_def DONE_TAG_def)

lemma mirrors_set:
  "mirrors p t l r \<Longrightarrow> ledger_view l' = (ledger_view l)(k := sl) \<Longrightarrow> matches_slot p t sl rec \<Longrightarrow>
    rd_at (rp_server p) r' = (rd_at (rp_server p) r)(idemp_key p k := rec) \<Longrightarrow> mirrors p t l' r'"
  by (simp add: mirrors_def)

lemma get_slot:
  assumes "redis_documented (rp_server p)" "mirrors p t l r"
  shows "rd_get (rp_server p) (idemp_key p k) t r =
    (case ledger_view l k of Vacant \<Rightarrow> None | Pending u \<Rightarrow> if u > t then Some [PENDING_TAG] else None
     | Finished v \<Rightarrow> rd_get (rp_server p) (idemp_key p k) t r)"
    and "ledger_view l k = Finished v \<Longrightarrow> \<exists>b. rd_get (rp_server p) (idemp_key p k) t r = Some (DONE_TAG # b) \<and> stored_of p b = Json v"
  using assms unfolding redis_documented_def mirrors_def matches_slot_def
  by (auto split: slot.splits option.splits dest!: spec [of _ k])

lemma documented:
  assumes "redis_documented srv"
  shows "rd_at srv (rd_set srv k v r) = (rd_at srv r)(k \<mapsto> (v, None))"
    "rd_at srv (rd_set_px srv k v ms t r) = (rd_at srv r)(k \<mapsto> (v, Some (t + of_int ms / 1000)))"
    "rd_at srv (rd_del srv k r) = (rd_at srv r)(k := None)"
  using assms by (simp_all add: redis_documented_def)

lemma claim_mirrors:
  assumes doc: "redis_documented (rp_server p)" and m: "mirrors p t l r" and d: "ms > 0" "d = of_int ms / 1000"
  shows "\<exists>r'. redis_claim p k d t r = (Inr (c_state (fst (claim_processed k d t t l)), Json (c_result (fst (claim_processed k d t t l)))), r')
    \<and> mirrors p t (snd (claim_processed k d t t l)) r'"
proof -
  have px: "(if d < 0 then - \<lfloor>- d * 1000\<rfloor> else \<lfloor>d * 1000\<rfloor>) = ms" using d by simp
  consider (free) "ledger_view l k = Vacant \<or> (\<exists>u\<le>t. ledger_view l k = Pending u)"
    | (busy) u where "ledger_view l k = Pending u" "u > t" | (fin) v where "ledger_view l k = Finished v"
    by (cases "ledger_view l k") (auto, metis linorder_not_le)
  then show ?thesis
  proof cases
    case free
    then have get: "rd_get (rp_server p) (idemp_key p k) t r = None" using get_slot(1) [OF doc m, of k] by auto
    let ?r = "rd_set_px (rp_server p) (idemp_key p k) [PENDING_TAG] ms t r"
    have "redis_claim p k d t r = (Inr (CLAIMED, Json PNone), ?r)"
      using get d(1) by (simp add: redis_claim_def claim_script_def px)
    moreover have "fst (claim_processed k d t t l) = \<lparr>c_state = CLAIMED, c_result = PNone\<rparr>"
      using mem.claim_free [of l k t d t] free by auto
    moreover have "mirrors p t (snd (claim_processed k d t t l)) ?r"
      using mem.claim_takes [of l k t d t] free
      by (intro mirrors_set [OF m, of _ k "Pending (t + d)" "Some ([PENDING_TAG], Some (t + d))"])
        (auto simp: matches_slot_def documented [OF doc] d(2))
    ultimately show ?thesis by simp
  next
    case busy
    then have "rd_get (rp_server p) (idemp_key p k) t r = Some [PENDING_TAG]" using get_slot(1) [OF doc m, of k] by simp
    then show ?thesis using mem.claim_pending [OF busy, of d t] m
      by (simp add: redis_claim_def claim_script_def px decode_record_def)
  next
    case fin
    obtain b where "rd_get (rp_server p) (idemp_key p k) t r = Some (DONE_TAG # b)" "stored_of p b = Json v"
      using get_slot(2) [OF doc m fin] by auto
    then show ?thesis using mem.claim_finished [OF fin, of d t t] m
      by (simp add: redis_claim_def claim_script_def px decode_record_def)
  qed
qed

lemma release_mirrors:
  assumes doc: "redis_documented (rp_server p)" and m: "mirrors p t l r"
  shows "mirrors p t (release_claim k l) (redis_release p k t r)"
proof (cases "ledger_view l k")
  case (Finished v)
  obtain b where "rd_get (rp_server p) (idemp_key p k) t r = Some (DONE_TAG # b)"
    using get_slot(2) [OF doc m Finished] by auto
  moreover have "ledger_view (release_claim k l) = ledger_view l"
    using mem.release_view [of k l] Finished by (simp add: fun_upd_idem)
  ultimately show ?thesis using m by (simp add: redis_release_def release_script_def mirrors_def)
next
  case (Pending u)
  have v: "ledger_view (release_claim k l) = (ledger_view l)(k := Vacant)" using mem.release_view [of k l] Pending by simp
  show ?thesis
  proof (cases "u > t")
    case True
    then have "rd_get (rp_server p) (idemp_key p k) t r = Some [PENDING_TAG]" using get_slot(1) [OF doc m, of k] Pending by simp
    then show ?thesis
      by (intro mirrors_set [OF m v, of None]) (simp_all add: matches_slot_def redis_release_def release_script_def documented [OF doc])
  next
    case False
    then have "rd_get (rp_server p) (idemp_key p k) t r = None" using get_slot(1) [OF doc m, of k] Pending by simp
    moreover have "matches_slot p t Vacant (rd_at (rp_server p) r (idemp_key p k))"
      using m Pending False unfolding mirrors_def by (auto simp: matches_slot_def dest!: spec [of _ k])
    ultimately have "mirrors p t (release_claim k l) r"
      using mirrors_set [OF m v] fun_upd_triv [symmetric] by metis
    then show ?thesis using \<open>rd_get _ _ t r = None\<close> by (simp add: redis_release_def release_script_def)
  qed
next
  case Vacant
  have "ledger_view (release_claim k l) = ledger_view l"
    using mem.release_view [of k l] Vacant by (simp add: fun_upd_idem)
  moreover have "rd_get (rp_server p) (idemp_key p k) t r = None" using get_slot(1) [OF doc m, of k] Vacant by simp
  ultimately show ?thesis using m by (simp add: redis_release_def release_script_def mirrors_def)
qed

lemma mark_mirrors:
  assumes doc: "redis_documented (rp_server p)" and m: "mirrors p t l r" and v: "stored_of p (json_bytes p v) = Json v"
  shows "mirrors p t (mark_processed k v l) (redis_mark p k v t r)"
proof (cases "\<exists>w. ledger_view l k = Finished w")
  case True
  then obtain w where w: "ledger_view l k = Finished w" by blast
  obtain b where "rd_get (rp_server p) (idemp_key p k) t r = Some (DONE_TAG # b)"
    using get_slot(2) [OF doc m w] by auto
  moreover have "ledger_view (mark_processed k v l) = ledger_view l"
    using mem.mark_view [of k v l] w by (simp add: fun_upd_idem)
  ultimately show ?thesis using m by (simp add: redis_mark_def mark_script_def mirrors_def)
next
  case False
  have "ledger_view (mark_processed k v l) = (ledger_view l)(k := Finished v)"
    using mem.mark_view [of k v l] False by (cases "ledger_view l k") simp_all
  moreover have "redis_mark p k v t r = rd_set (rp_server p) (idemp_key p k) (DONE_TAG # json_bytes p v) r"
    using get_slot(1) [OF doc m, of k] False
    by (cases "ledger_view l k") (auto simp: redis_mark_def mark_script_def)
  ultimately show ?thesis
    by (intro mirrors_set [OF m, of _ k "Finished v" "Some (DONE_TAG # json_bytes p v, None)"])
      (simp_all add: matches_slot_def documented [OF doc] v)
qed

lemma check_mirrors:
  assumes doc: "redis_documented (rp_server p)" and m: "mirrors p t l r"
  shows "redis_check p k t r = Json (check_processed k l)"
proof -
  have c: "check_processed k l = (case ledger_view l k of Finished v \<Rightarrow> v | _ \<Rightarrow> PNone)"
    by (simp add: check_processed_def ledger_view_def split: option.split)
  show ?thesis
  proof (cases "ledger_view l k")
    case (Finished v)
    then show ?thesis using get_slot(2) [OF doc m Finished] c by (auto simp: redis_check_def decode_record_def)
  qed (use get_slot(1) [OF doc m, of k] c in \<open>auto simp: redis_check_def decode_record_def\<close>)
qed

lemma answer_mirrors:
  assumes doc: "redis_documented (rp_server p)" and m: "mirrors p t l r" and ok: "plain_call p c"
  shows "\<exists>r'. redis_answer p t c r = (Inr (fst (mem_answer t c l)), r') \<and> mirrors p t (snd (mem_answer t c l)) r'"
proof (cases c)
  case (Claim k d)
  then obtain ms where ms: "ms > 0" "d = of_int ms / 1000" using ok by auto
  show ?thesis using claim_mirrors [OF doc m ms, of k] Claim by (auto split: prod.split)
qed (use release_mirrors [OF doc m] mark_mirrors [OF doc m] check_mirrors [OF doc m] m ok in auto)

text \<open>C22: The Redis ledger gives the answers of the in-memory one, to any calls of any clients in any order:
  the same claims are granted, held back and answered with a finished result.\<close>

theorem redis_answers_as_memory:
  assumes "redis_documented (rp_server p)" and "\<forall>(t, c)\<in>set calls. plain_call p c"
    and "sorted (t0 # map fst calls)" and "mirrors p t0 l r"
  shows "redis_answers p calls r = map Inr (mem_answers calls l)"
  using assms(2-4)
proof (induction calls arbitrary: t0 l r)
  case (Cons tc calls)
  obtain t c where tc: "tc = (t, c)" by fastforce
  have "t0 \<le> t" using Cons.prems(2) tc by simp
  then have m: "mirrors p t l r" using Cons.prems(3) unfolding mirrors_def by (blast intro: matches_later)
  obtain r' where r': "redis_answer p t c r = (Inr (fst (mem_answer t c l)), r')" "mirrors p t (snd (mem_answer t c l)) r'"
    using answer_mirrors [OF assms(1) m, of c] Cons.prems(1) tc by auto
  have "redis_answers p calls r' = map Inr (mem_answers calls (snd (mem_answer t c l)))"
    by (rule Cons.IH [OF _ _ r'(2)]) (use Cons.prems tc in auto)
  then show ?case using r'(1) tc by (simp split: prod.split)
qed simp

text \<open>A server that keeps what is documented.\<close>

definition map_server :: "(string \<Rightarrow> (bytes \<times> time option) option) redis" where
  "map_server = \<lparr>
     rd_get = (\<lambda>k t r. case r k of None \<Rightarrow> None | Some (v, None) \<Rightarrow> Some v | Some (v, Some u) \<Rightarrow> if u > t then Some v else None),
     rd_set = (\<lambda>k v r. r(k \<mapsto> (v, None))), rd_set_px = (\<lambda>k v ms t r. r(k \<mapsto> (v, Some (t + of_int ms / 1000)))),
     rd_del = (\<lambda>k r. r(k := None)), rd_lpush = (\<lambda>k v r. r), rd_lrange = (\<lambda>k i j r. []), rd_at = (\<lambda>r. r)\<rparr>"

definition map_plugin :: "(string \<Rightarrow> (bytes \<times> time option) option) redis_plugin" where
  "map_plugin = \<lparr>rp_server = map_server, rp_prefix = ''istos:'', rp_dumps = (\<lambda>_. ''1''), rp_loads = (\<lambda>_. Inr (PInt 1))\<rparr>"

lemma redis_answers_as_memory_witness:
  "redis_answers map_plugin [(1, Claim ''k'' 30), (2, Claim ''k'' 30), (3, Mark ''k'' (PInt 1)), (40, Claim ''k'' 30)] (\<lambda>_. None)
   = map Inr [ClaimAnswer CLAIMED (Json PNone), ClaimAnswer IN_FLIGHT (Json PNone), Done, ClaimAnswer FINISHED (Json (PInt 1))]"
proof -
  let ?calls = "[(1, Claim ''k'' 30), (2, Claim ''k'' 30), (3, Mark ''k'' (PInt 1)), (40, Claim ''k'' 30)]"
  have "redis_documented (rp_server map_plugin)"
    by (auto simp: redis_documented_def map_plugin_def map_server_def)
  moreover have "\<exists>ms>0. (30::rat) = of_int ms / 1000" by (intro exI [of _ 30000]) simp
  moreover have "stored_of map_plugin (json_bytes map_plugin (PInt 1)) = Json (PInt 1)" by code_simp
  moreover have "mirrors map_plugin 0 empty_ledger (\<lambda>_. None)"
    by (simp add: mirrors_def matches_slot_def ledger_view_def empty_ledger_def map_plugin_def map_server_def)
  ultimately have "redis_answers map_plugin ?calls (\<lambda>_. None) = map Inr (mem_answers ?calls empty_ledger)"
    by (intro redis_answers_as_memory [where ?t0.0 = 0]) auto
  moreover have "mem_answers ?calls empty_ledger
      = [ClaimAnswer CLAIMED (Json PNone), ClaimAnswer IN_FLIGHT (Json PNone), Done, ClaimAnswer FINISHED (Json (PInt 1))]"
    by code_simp
  ultimately show ?thesis by simp
qed

end
