(* ===== verification/Persist.thy ===== *)
theory Persist
  imports Gateway Effects PyNum
begin

text \<open>
  Streams that outlive their producer (\<open>communication/persist.py\<close>, and the reader \<open>replay\<close> of
  \<open>app/messaging.py\<close>): samples are stored under minted keys \<open><key>/<millis>-<seq>\<close>, a query replays
  them, and a position read earlier resumes after it. The object store is a record of its two
  operations, with the in-memory one and S3 as instances; the S3 service is an argument. The object
  keys are compared as UTF-8 text, which is the order of their code points.
\<close>

section \<open>Object stores\<close>

record 'o object_store =
  os_put :: "string \<Rightarrow> bytes \<Rightarrow> ('o, unit) act"
  os_history :: "string \<Rightarrow> string option \<Rightarrow> ('o, (string \<times> bytes) list) act"

definition memory_put :: "string \<Rightarrow> bytes \<Rightarrow> ((string, bytes) dict, unit) act" where
  "memory_put key payload objs = (Inr (), AList.update key payload objs)"

definition memory_history :: "string \<Rightarrow> string option \<Rightarrow> ((string, bytes) dict, (string \<times> bytes) list) act" where
  "memory_history prefix since objs =
     (let matches = filter (\<lambda>(k, v). k = prefix \<or> starts_with k (rstrip_char (CHR ''/'') prefix @ ''/'')) objs;
          later = (case since of None \<Rightarrow> matches | Some s \<Rightarrow> filter (\<lambda>(k, v). k > s) matches)
      in (Inr (sort_key fst later), objs))"

definition memory_store :: "(string, bytes) dict object_store" where
  "memory_store = \<lparr>os_put = memory_put, os_history = memory_history\<rparr>"

text \<open>The service: \<open>put_object\<close>, the keys of all pages of \<open>list_objects_v2\<close>, \<open>get_object\<close>.\<close>

record 's s3_service =
  s3_put_object :: "string \<Rightarrow> bytes \<Rightarrow> ('s, unit) act"
  s3_list :: "string \<Rightarrow> string option \<Rightarrow> ('s, string list) act"
  s3_get_object :: "string \<Rightarrow> ('s, bytes) act"

record 's s3_bucket =
  s3_service :: "'s s3_service"
  s3_prefix :: string

definition s3_init :: "'s s3_service \<Rightarrow> string \<Rightarrow> 's s3_bucket" where
  "s3_init svc prefix = \<lparr>s3_service = svc, s3_prefix = rstrip_char (CHR ''/'') (lstrip_char (CHR ''/'') prefix)\<rparr>"

definition object_key :: "'s s3_bucket \<Rightarrow> string \<Rightarrow> string" where
  "object_key b key = (if s3_prefix b \<noteq> [] then s3_prefix b @ ''/'' @ key else key)"

definition s3_put :: "'s s3_bucket \<Rightarrow> string \<Rightarrow> bytes \<Rightarrow> ('s, unit) act" where
  "s3_put b key payload = s3_put_object (s3_service b) (object_key b key) payload"

fun fetch_all :: "'s s3_service \<Rightarrow> nat \<Rightarrow> string list \<Rightarrow> ('s, (string \<times> bytes) list) act" where
  "fetch_all svc n [] = act_return []"
| "fetch_all svc n (k # ks) =
     act_bind (s3_get_object svc k) (\<lambda>body.
     act_bind (fetch_all svc n ks) (\<lambda>out. act_return ((drop n k, body) # out)))"

definition s3_history :: "'s s3_bucket \<Rightarrow> string \<Rightarrow> string option \<Rightarrow> ('s, (string \<times> bytes) list) act" where
  "s3_history b prefix since =
     act_bind (s3_list (s3_service b) (object_key b (rstrip_char (CHR ''/'') prefix @ ''/''))
         (map_option (object_key b) since)) (\<lambda>keys.
       fetch_all (s3_service b) (if s3_prefix b \<noteq> [] then length (object_key b []) else 0) (sort keys))"

definition s3_store :: "'s s3_bucket \<Rightarrow> 's object_store" where
  "s3_store b = \<lparr>os_put = s3_put b, os_history = s3_history b\<rparr>"

section \<open>The persistence role\<close>

text \<open>\<open>f"{i:0wd}"\<close>, and \<open>int(t * 1000)\<close>, which drops the fraction.\<close>

definition pad :: "nat \<Rightarrow> int \<Rightarrow> string" where
  "pad w i =
     (if i < 0 then ''-'' @ replicate (w - 1 - length (show_nat (nat (- i)))) (CHR ''0'') @ show_nat (nat (- i))
      else replicate (w - length (show_nat (nat i))) (CHR ''0'') @ show_nat (nat i))"

definition millis :: "time \<Rightarrow> int" where
  "millis t = (if t < 0 then - \<lfloor>- t * 1000\<rfloor> else \<lfloor>t * 1000\<rfloor>)"

definition mint :: "string \<Rightarrow> time \<Rightarrow> int \<Rightarrow> string" where
  "mint key t n = key @ ''/'' @ pad 13 (millis t) @ ''-'' @ pad 12 n"

record 'o persist_role =
  pr_seq :: int
  pr_objects :: 'o

text \<open>A failed put is logged; the sample is not stored.\<close>

definition persist :: "'o object_store \<Rightarrow> string \<Rightarrow> bytes \<Rightarrow> time \<Rightarrow> ('o persist_role, unit) act" where
  "persist st key payload t r =
     (let n = pr_seq r + 1
      in case swallow (os_put st (mint key t n) payload) (pr_objects r) of
           (out, o') \<Rightarrow> (out, \<lparr>pr_seq = n, pr_objects = o'\<rparr>))"

definition read_since :: "(string, string) dict \<Rightarrow> string option" where
  "read_since params = map_option unquote (map_of params ''_since'')"

text \<open>The replies to a history query; a store that fails is logged and nothing is replied.\<close>

definition answer_history :: "'o object_store \<Rightarrow> string \<Rightarrow> (string, string) dict \<Rightarrow> ('o persist_role, (string \<times> bytes) list) act" where
  "answer_history st key_expr params r =
     (let listing_prefix = rstrip_char (CHR ''/'') (fst (split_once (CHR ''*'') key_expr))
      in case os_history st listing_prefix (read_since params) (pr_objects r) of
           (Inl e, o') \<Rightarrow> (if is_exception e then Inr [] else Inl e, r\<lparr>pr_objects := o'\<rparr>)
         | (Inr hs, o') \<Rightarrow> (Inr hs, r\<lparr>pr_objects := o'\<rparr>))"

section \<open>Reading a stream back\<close>

record replay_event =
  re_position :: string
  re_data :: pyval

text \<open>\<open>position.rsplit("/", 1)[1].split("-", 1)[0]\<close> as a number, zero when there is none.\<close>

definition timestamp_ms :: "replay_event \<Rightarrow> int" where
  "timestamp_ms e =
     (if CHR ''/'' \<in> set (re_position e)
      then (case py_int (strip (fst (split_once (CHR ''-'') (rev (takeWhile (\<lambda>c. c \<noteq> CHR ''/'') (rev (re_position e))))))) of
              Inl _ \<Rightarrow> 0 | Inr i \<Rightarrow> i)
      else 0)"

definition replay_selector :: "string \<Rightarrow> string option \<Rightarrow> string" where
  "replay_selector prefix since =
     rstrip_char (CHR ''/'') prefix @ ''/**'' @ (case since of None \<Rightarrow> [] | Some s \<Rightarrow> ''?_since='' @ quote s)"

text \<open>The events yielded until the end, or until one cannot be read.\<close>

fun decode_events :: "(bytes \<Rightarrow> exc + pyval) \<Rightarrow> (string \<times> bytes) list \<Rightarrow> replay_event list \<times> exc option" where
  "decode_events deserialize [] = ([], None)"
| "decode_events deserialize ((pos, raw) # rs) =
     (case deserialize raw of
        Inl e \<Rightarrow> ([], Some e)
      | Inr v \<Rightarrow> (case decode_events deserialize rs of (es, x) \<Rightarrow> (\<lparr>re_position = pos, re_data = v\<rparr> # es, x)))"

text \<open>\<open>app.replay\<close> answered by one role: the selector reads at the role as documented by Zenoh.\<close>

definition replay :: "'o object_store \<Rightarrow> (bytes \<Rightarrow> exc + pyval) \<Rightarrow> string \<Rightarrow> string option
    \<Rightarrow> ('o persist_role, replay_event list \<times> exc option) act" where
  "replay st deserialize prefix since =
     (let sel = replay_selector prefix since
      in act_bind (answer_history st (fst (split_once (CHR ''?'') sel)) (selector_params sel)) (\<lambda>replies.
           act_return (decode_events deserialize (sort_key fst replies))))"

section \<open>Minted keys sort as they were minted\<close>

fun fixed_width :: "nat \<Rightarrow> nat \<Rightarrow> string" where
  "fixed_width 0 n = []"
| "fixed_width (Suc w) n = fixed_width w (n div 10) @ [char_of (48 + n mod 10)]"

lemma length_fixed [simp]: "length (fixed_width w n) = w"
  by (induction w arbitrary: n) simp_all

lemma fixed_zero: "fixed_width w 0 = replicate w (CHR ''0'')"
proof (induction w)
  case (Suc w)
  have "char_of (48 :: nat) = (CHR ''0'' :: char)" by code_simp
  then show ?case using Suc by (simp flip: replicate_append_same)
qed simp

lemma fixed_show: "n < 10 ^ w \<Longrightarrow> 0 < w \<Longrightarrow> replicate (w - length (show_nat n)) (CHR ''0'') @ show_nat n = fixed_width w n \<and> length (show_nat n) \<le> w"
proof (induction w arbitrary: n)
  case (Suc w)
  show ?case
  proof (cases "n < 10")
    case True
    then show ?thesis by (subst (1 2 3) show_nat.simps) (simp add: fixed_zero)
  next
    case False
    then have "0 < w" using Suc.prems by (cases w) auto
    have "n div 10 < 10 ^ w" using Suc.prems(1) by (simp add: less_mult_imp_div_less mult.commute)
    then show ?thesis using Suc.IH [OF _ \<open>0 < w\<close>, of "n div 10"] False
      by (subst (1 2 3) show_nat.simps) (simp flip: append_assoc)
  qed
qed simp

lemma pad_fixed: "0 \<le> i \<Longrightarrow> i < 10 ^ w \<Longrightarrow> 0 < w \<Longrightarrow> pad w i = fixed_width w (nat i)"
  using fixed_show [of "nat i" w] by (simp add: pad_def nat_less_iff)

lemma digit_less: "a < 10 \<Longrightarrow> b < 10 \<Longrightarrow> char_of (48 + a) < (char_of (48 + b) :: char) \<longleftrightarrow> a < b" for a b :: nat
  by (simp add: less_char_def)

lemma digit_eq: "a < 10 \<Longrightarrow> b < 10 \<Longrightarrow> char_of (48 + a) = (char_of (48 + b) :: char) \<longleftrightarrow> a = b" for a b :: nat
  by (metis digit_less order_less_irrefl linorder_neqE_nat)

lemma div_mod_less: "m < n \<longleftrightarrow> m div 10 < n div 10 \<or> m div 10 = n div 10 \<and> m mod 10 < n mod 10" for m n :: nat
proof -
  have "10 * a + b < 10 * c + d \<longleftrightarrow> a < c \<or> a = c \<and> b < d" if "b < 10" "d < 10" for a b c d :: nat
    using that by arith
  then show ?thesis by (metis mod_less_divisor mult_div_mod_eq zero_less_numeral)
qed

lemma append_less: "length u = length u' \<Longrightarrow> u @ v < u' @ v' \<longleftrightarrow> u < u' \<or> u = u' \<and> v < (v' :: 'a :: linorder list)"
  by (induction u u' rule: list_induct2) auto

lemma fixed_order:
  "m < 10 ^ w \<Longrightarrow> n < 10 ^ w \<Longrightarrow>
    (fixed_width w m < fixed_width w n \<longleftrightarrow> m < n) \<and> (fixed_width w m = fixed_width w n \<longleftrightarrow> m = n)"
proof (induction w arbitrary: m n)
  case (Suc w)
  have d: "m div 10 < 10 ^ w" "n div 10 < 10 ^ w"
    using Suc.prems by (simp_all add: less_mult_imp_div_less mult.commute)
  have c: "char_of (48 + m mod 10) = (char_of (48 + n mod 10) :: char) \<longleftrightarrow> m mod 10 = n mod 10"
    by (rule digit_eq) (rule mod_less_divisor, simp)+
  have l: "char_of (48 + m mod 10) < (char_of (48 + n mod 10) :: char) \<longleftrightarrow> m mod 10 < n mod 10"
    by (rule digit_less) (rule mod_less_divisor, simp)+
  have "m < n \<longleftrightarrow> m div 10 < n div 10 \<or> m div 10 = n div 10 \<and> m mod 10 < n mod 10"
    by (rule div_mod_less)
  moreover have "m = n \<longleftrightarrow> m div 10 = n div 10 \<and> m mod 10 = n mod 10"
    by (metis div_mult_mod_eq)
  moreover have "fixed_width (Suc w) m < fixed_width (Suc w) n \<longleftrightarrow>
      m div 10 < n div 10 \<or> m div 10 = n div 10 \<and> m mod 10 < n mod 10"
    using Suc.IH [OF d] l unfolding fixed_width.simps by (subst append_less) simp_all
  moreover have "fixed_width (Suc w) m = fixed_width (Suc w) n \<longleftrightarrow> m div 10 = n div 10 \<and> m mod 10 = n mod 10"
    using Suc.IH [OF d] c unfolding fixed_width.simps by simp
  ultimately show ?case by blast
qed simp

section \<open>A log of samples\<close>

text \<open>The samples a role stores over its lives; a restarted role counts from the start again.\<close>

datatype persist_event = Sample string bytes time | Restart

fun persist_all :: "'o object_store \<Rightarrow> persist_event list \<Rightarrow> 'o persist_role \<Rightarrow> 'o persist_role" where
  "persist_all st [] r = r"
| "persist_all st (Sample k v t # es) r = persist_all st es (snd (persist st k v t r))"
| "persist_all st (Restart # es) r = persist_all st es (r\<lparr>pr_seq := 0\<rparr>)"

text \<open>The key, position and payload of each sample.\<close>

fun minted :: "int \<Rightarrow> persist_event list \<Rightarrow> (string \<times> string \<times> bytes) list" where
  "minted n [] = []"
| "minted n (Sample k v t # es) = (k, mint k t (n + 1), v) # minted (n + 1) es"
| "minted n (Restart # es) = minted 0 es"

text \<open>A clock that does not go back, within thirteen digits of milliseconds and twelve of samples, and
  reads later after a restart.\<close>

fun in_order :: "int \<Rightarrow> int \<Rightarrow> persist_event list \<Rightarrow> bool" where
  "in_order m n [] \<longleftrightarrow> True"
| "in_order m n (Sample k v t # es) \<longleftrightarrow>
     m \<le> millis t \<and> millis t < 10 ^ 13 \<and> n + 1 < 10 ^ 12 \<and> in_order (millis t) (n + 1) es"
| "in_order m n (Restart # es) \<longleftrightarrow> in_order (m + 1) 0 es"

definition key_of :: "string \<Rightarrow> string" where
  "key_of pos = take (length pos - 27) pos"

definition plain_stamp :: "time \<Rightarrow> int \<Rightarrow> bool" where
  "plain_stamp t n \<longleftrightarrow> 0 \<le> millis t \<and> millis t < 10 ^ 13 \<and> 0 \<le> n \<and> n < 10 ^ 12"

lemma mint_fixed: "plain_stamp t n \<Longrightarrow> mint k t n = k @ ''/'' @ fixed_width 13 (nat (millis t)) @ ''-'' @ fixed_width 12 (nat n)"
  by (simp add: mint_def plain_stamp_def pad_fixed del: fixed_width.simps)

lemma key_of_mint [simp]: "plain_stamp t n \<Longrightarrow> key_of (mint k t n) = k"
  by (simp add: key_of_def mint_fixed del: fixed_width.simps)

lemma mint_less:
  assumes "plain_stamp t n" "plain_stamp t' n'" "(millis t, n) < (millis t', n')"
  shows "mint k t n < mint k t' n'"
proof -
  have "nat (millis t) < 10 ^ 13" "nat (millis t') < 10 ^ 13" "nat n < 10 ^ 12" "nat n' < 10 ^ 12"
    using assms by (simp_all add: plain_stamp_def nat_less_iff)
  then have "fixed_width 13 (nat (millis t)) @ ''-'' @ fixed_width 12 (nat n)
      < fixed_width 13 (nat (millis t')) @ ''-'' @ fixed_width 12 (nat n')"
    using assms fixed_order
    by (subst append_less) (auto simp: plain_stamp_def less_prod_def simp del: fixed_width.simps)
  then show ?thesis
    using assms by (simp add: mint_fixed append_less del: fixed_width.simps)
qed

lemma minted_stamp:
  "in_order m n es \<Longrightarrow> 0 \<le> m \<Longrightarrow> 0 \<le> n \<Longrightarrow> (k, pos, v) \<in> set (minted n es) \<Longrightarrow>
    \<exists>t j. pos = mint k t j \<and> plain_stamp t j \<and> (m, n) < (millis t, j)"
proof (induction m n es rule: in_order.induct)
  case (2 m n k' v' t es)
  then show ?case by (fastforce simp: plain_stamp_def less_prod_def)
next
  case (3 m n es)
  then show ?case by (fastforce simp: less_prod_def)
qed simp

lemma minted_sorted:
  "in_order m n es \<Longrightarrow> 0 \<le> m \<Longrightarrow> 0 \<le> n \<Longrightarrow>
    sorted_wrt (\<lambda>(k, pos, v) (k', pos', v'). k = k' \<longrightarrow> pos < pos') (minted n es)"
proof (induction m n es rule: in_order.induct)
  case (2 m n k v t es)
  have s: "plain_stamp t (n + 1)" using 2 by (simp add: plain_stamp_def)
  have "mint k t (n + 1) < pos" if mem: "(k, pos, w) \<in> set (minted (n + 1) es)" for pos w
  proof -
    obtain t' j where "pos = mint k t' j" "plain_stamp t' j" "(millis t, n + 1) < (millis t', j)"
      using minted_stamp [of "millis t", OF _ _ _ mem] 2 by auto
    then show ?thesis using mint_less [OF s] by simp
  qed
  then show ?case using 2 by auto
qed simp_all

section \<open>What a store promises\<close>

definition later :: "string option \<Rightarrow> string \<Rightarrow> bool" where
  "later since k \<longleftrightarrow> (case since of None \<Rightarrow> True | Some s \<Rightarrow> s < k)"

definition below :: "string \<Rightarrow> string \<Rightarrow> bool" where
  "below prefix k \<longleftrightarrow> starts_with k (rstrip_char (CHR ''/'') prefix @ ''/'')"

definition sorted_objects :: "(string \<Rightarrow> bytes option) \<Rightarrow> string set \<Rightarrow> (string \<times> bytes) list" where
  "sorted_objects m A = map (\<lambda>k. (k, the (m k))) (sorted_list_of_set (A \<inter> dom m))"

text \<open>The contract of \<open>ObjectStore\<close>. A store may list the object whose key is the prefix itself.\<close>

locale object_log =
  fixes st :: "'o object_store" and contents :: "'o \<Rightarrow> string \<Rightarrow> bytes option" and ok :: "'o \<Rightarrow> bool" and self :: bool
  assumes puts: "ok s \<Longrightarrow> \<exists>o'. os_put st k v s = (Inr (), o') \<and> contents o' = (contents s)(k \<mapsto> v) \<and> ok o'"
    and finite_contents: "ok s \<Longrightarrow> finite (dom (contents s))"
    and lists: "ok s \<Longrightarrow> os_history st p since s =
      (Inr (sorted_objects (contents s) {k. (self \<and> k = p \<or> below p k) \<and> later since k}), s)"
begin

lemma persist_puts:
  assumes "ok (pr_objects r)"
  shows "pr_seq (snd (persist st k v t r)) = pr_seq r + 1
    \<and> contents (pr_objects (snd (persist st k v t r))) = (contents (pr_objects r))(mint k t (pr_seq r + 1) \<mapsto> v)
    \<and> ok (pr_objects (snd (persist st k v t r)))"
  using puts [OF assms, of "mint k t (pr_seq r + 1)" v] by (auto simp: persist_def swallow_def)

lemma contents_log:
  "ok (pr_objects r) \<Longrightarrow> ok (pr_objects (persist_all st es r)) \<and>
   contents (pr_objects (persist_all st es r)) = contents (pr_objects r) ++ map_of (rev (map snd (minted (pr_seq r) es)))"
proof (induction es arbitrary: r)
  case (Cons e es)
  show ?case
  proof (cases e)
    case (Sample k v t)
    then show ?thesis using Cons.IH [of "snd (persist st k v t r)"] persist_puts [OF Cons.prems, of k v t]
      by (simp add: map_add_upd_left map_add_def fun_eq_iff split: option.split)
  next
    case Restart
    then show ?thesis using Cons.IH [of "r\<lparr>pr_seq := 0\<rparr>"] Cons.prems by simp
  qed
qed simp

end

lemma sorted_objects_set:
  "finite (dom m) \<Longrightarrow> set (sorted_objects m A) = {(k, v). k \<in> A \<and> m k = Some v}"
  by (auto simp: sorted_objects_def image_iff)

lemma sorted_objects_keys [simp]: "map fst (sorted_objects m A) = sorted_list_of_set (A \<inter> dom m)"
  by (simp add: sorted_objects_def comp_def)

lemma assoc_unique:
  assumes "sorted (map fst xs)" "dict_ok xs" "sorted (map fst ys)" "dict_ok ys" "set xs = set ys"
  shows "xs = ys"
proof -
  have "inj_on fst (set xs \<union> set ys)"
    using assms by (auto simp: inj_on_def dest: eq_key_imp_eq_value)
  then show ?thesis using map_sorted_distinct_set_unique assms by blast
qed

lemma dict_ok_sort: "dict_ok xs \<Longrightarrow> dict_ok (sort_key fst xs)"
  by (metis mset_eq_imp_distinct_iff mset_map mset_sort)

lemma starts_with_same [simp]: "starts_with (p @ a) (p @ b) \<longleftrightarrow> starts_with a b"
  by (simp add: starts_with_def)

lemma starts_with_append: "starts_with u q \<Longrightarrow> starts_with (u @ w) q"
proof -
  assume "starts_with u q"
  then obtain r where "u = q @ r" by (metis append_take_drop_id starts_with_def)
  then show ?thesis by (simp add: starts_with_def)
qed

interpretation memory: object_log memory_store map_of "\<lambda>d. dict_ok d" True
proof
  fix k v and s :: "(string, bytes) dict"
  assume "dict_ok s"
  then show "\<exists>o'. os_put memory_store k v s = (Inr (), o') \<and> map_of o' = (map_of s)(k \<mapsto> v) \<and> dict_ok o'"
    by (simp add: memory_store_def memory_put_def)
  show "finite (dom (map_of s))" by (rule finite_dom_map_of)
next
  fix p since and s :: "(string, bytes) dict"
  assume s: "dict_ok s"
  let ?f = "\<lambda>(k, v). (k = p \<or> below p k) \<and> later since k"
  have "os_history memory_store p since s = (Inr (sort_key fst (filter ?f s)), s)"
    unfolding memory_store_def memory_history_def
    by (cases since) (simp_all add: Let_def below_def later_def case_prod_unfold conj_commute)
  moreover have "sort_key fst (filter ?f s) = sorted_objects (map_of s) {k. (True \<and> k = p \<or> below p k) \<and> later since k}"
  proof (rule assoc_unique)
    have "dict_ok (filter ?f s)" using s by (rule distinct_map_filter)
    then show "dict_ok (sort_key fst (filter ?f s))" by (rule dict_ok_sort)
    have "set (filter ?f s) = {(k, v). ((k = p \<or> below p k) \<and> later since k) \<and> map_of s k = Some v}"
      using in_set_dict [OF s] by auto
    then show "set (sort_key fst (filter ?f s)) = set (sorted_objects (map_of s) {k. (True \<and> k = p \<or> below p k) \<and> later since k})"
      by (simp add: sorted_objects_set finite_dom_map_of)
  qed simp_all
  ultimately show "os_history memory_store p since s =
      (Inr (sorted_objects (map_of s) {k. (True \<and> k = p \<or> below p k) \<and> later since k}), s)" by simp
qed

text \<open>What S3 documents of the operations: a put is there for the next read, a listing has the keys under
  a prefix that follow \<open>StartAfter\<close>, a get returns the object. \<open>held\<close> is what the bucket holds.\<close>

definition s3_documented :: "'s s3_service \<Rightarrow> ('s \<Rightarrow> string \<Rightarrow> bytes option) \<Rightarrow> bool" where
  "s3_documented svc held \<longleftrightarrow>
     (\<forall>k v s. \<exists>s'. s3_put_object svc k v s = (Inr (), s') \<and> held s' = (held s)(k \<mapsto> v))
     \<and> (\<forall>s. finite (dom (held s)))
     \<and> (\<forall>p since s. \<exists>ks. s3_list svc p since s = (Inr ks, s) \<and> distinct ks
          \<and> set ks = {k \<in> dom (held s). starts_with k p \<and> later since k})
     \<and> (\<forall>k v s. held s k = Some v \<longrightarrow> s3_get_object svc k s = (Inr v, s))"

definition own_objects :: "'s s3_bucket \<Rightarrow> ('s \<Rightarrow> string \<Rightarrow> bytes option) \<Rightarrow> 's \<Rightarrow> string \<Rightarrow> bytes option" where
  "own_objects b held s k = held s (object_key b k)"

abbreviation strip_width :: "'s s3_bucket \<Rightarrow> nat" where
  "strip_width b \<equiv> if s3_prefix b \<noteq> [] then length (object_key b []) else 0"

lemma object_key_less [simp]: "object_key b k < object_key b k' \<longleftrightarrow> k < k'"
  by (simp add: object_key_def append_less)

lemma object_key_le [simp]: "object_key b k \<le> object_key b k' \<longleftrightarrow> k \<le> k'"
  by (simp add: linorder_not_less [symmetric])

lemma object_key_eq [simp]: "object_key b k = object_key b k' \<longleftrightarrow> k = k'"
  by (simp add: object_key_def)

lemma object_key_starts [simp]: "starts_with (object_key b k) (object_key b q) \<longleftrightarrow> starts_with k q"
  by (simp add: object_key_def starts_with_def)

lemma drop_object_key [simp]: "drop (strip_width b) (object_key b k) = k"
  by (simp add: object_key_def)

lemma object_key_drop: "starts_with x (object_key b q) \<Longrightarrow> object_key b (drop (strip_width b) x) = x"
proof -
  assume "starts_with x (object_key b q)"
  then obtain r where "x = object_key b q @ r" by (metis append_take_drop_id starts_with_def)
  then have "x = object_key b (q @ r)" by (simp add: object_key_def)
  then show ?thesis by simp
qed

lemma later_object_key [simp]: "later (map_option (object_key b) since) (object_key b k) \<longleftrightarrow> later since k"
  by (cases since) (simp_all add: later_def)

lemma sort_object_keys: "sort (map (object_key b) js) = map (object_key b) (sort js)"
  by (rule properties_for_sort) (simp_all add: sorted_map sorted_wrt_map)

lemma fetch_all_found:
  assumes "s3_documented svc held" "\<forall>k\<in>set ks. held s k \<noteq> None"
  shows "fetch_all svc n ks s = (Inr (map (\<lambda>k. (drop n k, the (held s k))) ks), s)"
  using assms(2)
proof (induction ks)
  case (Cons k ks)
  then obtain v where "held s k = Some v" by auto
  then show ?case using Cons assms(1) by (simp add: s3_documented_def act_bind_def act_return_def)
qed (simp add: act_return_def)

lemma s3_contract:
  assumes doc: "s3_documented (s3_service b) held"
  shows "object_log (s3_store b) (own_objects b held) (\<lambda>_. True) False"
proof
  show "\<exists>o'. os_put (s3_store b) k v s = (Inr (), o') \<and> own_objects b held o' = (own_objects b held s)(k \<mapsto> v) \<and> True" for k v s
  proof -
    obtain s' where "s3_put_object (s3_service b) (object_key b k) v s = (Inr (), s')" "held s' = (held s)(object_key b k \<mapsto> v)"
      using doc unfolding s3_documented_def by blast
    then show ?thesis by (auto simp: s3_store_def s3_put_def own_objects_def)
  qed
  show fin: "finite (dom (own_objects b held s))" for s
  proof -
    have "inj_on (object_key b) (dom (own_objects b held s))" by (auto simp: inj_on_def)
    moreover have "object_key b ` dom (own_objects b held s) \<subseteq> dom (held s)" by (auto simp: own_objects_def)
    moreover have "finite (dom (held s))" using doc by (simp add: s3_documented_def)
    ultimately show ?thesis by (meson finite_imageD finite_subset)
  qed
  show "os_history (s3_store b) p since s =
      (Inr (sorted_objects (own_objects b held s) {k. (False \<and> k = p \<or> below p k) \<and> later since k}), s)" for p since s
  proof -
    let ?q = "rstrip_char (CHR ''/'') p @ ''/''" and ?A = "{k. below p k \<and> later since k} \<inter> dom (own_objects b held s)"
    obtain ks where ks: "s3_list (s3_service b) (object_key b ?q) (map_option (object_key b) since) s = (Inr ks, s)"
      "distinct ks" "set ks = {k \<in> dom (held s). starts_with k (object_key b ?q) \<and> later (map_option (object_key b) since) k}"
      using doc unfolding s3_documented_def by blast
    define js where "js = map (drop (strip_width b)) ks"
    have "object_key b (drop (strip_width b) x) = x" if mem: "x \<in> set ks" for x
      by (rule object_key_drop) (use mem ks(3) in blast)
    then have k: "ks = map (object_key b) js"
      unfolding js_def map_map comp_def by (rule map_idI [symmetric])
    have "distinct js" using ks(2) unfolding k by (simp add: distinct_map)
    have "x \<in> set js \<longleftrightarrow> object_key b x \<in> set ks" for x unfolding k by auto
    then have "x \<in> set js \<longleftrightarrow> x \<in> ?A" for x
      unfolding ks(3) by (auto simp: own_objects_def below_def)
    then have "set js = ?A" by blast
    with \<open>distinct js\<close> have "sort js = sorted_list_of_set ?A"
      using sorted_list_of_set_sort_remdups [of js] by (simp add: distinct_remdups_id)
    moreover have "\<forall>k\<in>set (sort ks). held s k \<noteq> None" using ks(3) by auto
    ultimately show ?thesis
      using fetch_all_found [OF doc] ks(1)
      by (simp add: s3_store_def s3_history_def act_bind_def k sort_object_keys sorted_objects_def comp_def own_objects_def)
  qed
qed

section \<open>Reading and resuming\<close>

lemma minted_payload: "(k, pos, v) \<in> set (minted n es) \<Longrightarrow> \<exists>t. Sample k v t \<in> set es"
  by (induction n es rule: minted.induct) auto

lemma minted_distinct: "in_order m n es \<Longrightarrow> 0 \<le> m \<Longrightarrow> 0 \<le> n \<Longrightarrow> dict_ok (map snd (minted n es))"
proof -
  assume a: "in_order m n es" "0 \<le> m" "0 \<le> n"
  have key: "key_of pos = k" if mem: "(k, pos, v) \<in> set (minted n es)" for k pos v
    using minted_stamp [OF a mem] by auto
  have "sorted_wrt (\<lambda>x y. fst (snd x) \<noteq> fst (snd y)) (minted n es)"
  proof (rule sorted_wrt_mono_rel [OF _ minted_sorted [OF a]])
    fix x y
    assume xy: "x \<in> set (minted n es)" "y \<in> set (minted n es)" "(\<lambda>(k, pos, v) (k', pos', v'). k = k' \<longrightarrow> pos < pos') x y"
    obtain k u v k' u' v' where "x = (k, u, v)" "y = (k', u', v')" by (metis prod_cases3)
    then show "fst (snd x) \<noteq> fst (snd y)" using xy key [of k u v] key [of k' u' v'] by auto
  qed
  then show ?thesis by (simp add: distinct_conv_nth sorted_wrt_iff_nth_less) (metis linorder_neqE_nat)
qed

definition entries :: "string \<Rightarrow> persist_event list \<Rightarrow> (string \<times> bytes) list" where
  "entries k es = map snd (filter (\<lambda>(k', _). k' = k) (minted 0 es))"

lemma entries_sorted: "in_order 0 0 es \<Longrightarrow> sorted_wrt (<) (map fst (entries k es))"
proof -
  assume "in_order 0 0 es"
  from minted_sorted [OF this] have "sorted_wrt (\<lambda>(k, pos, v) (k', pos', v'). k = k' \<longrightarrow> pos < pos') (filter (\<lambda>(k', _). k' = k) (minted 0 es))"
    by (simp add: sorted_wrt_filter)
  then show ?thesis unfolding entries_def sorted_wrt_map
    by (rule sorted_wrt_mono_rel [rotated]) auto
qed

lemma entries_key: "in_order 0 0 es \<Longrightarrow> (pos, v) \<in> set (entries k es) \<longleftrightarrow> (k, pos, v) \<in> set (minted 0 es)"
  by (force simp: entries_def)

lemma resume_drop:
  "sorted_wrt (<) (map fst xs) \<Longrightarrow> i < length xs \<Longrightarrow> filter (\<lambda>(pos, _). fst (xs ! i) < pos) xs = drop (Suc i) xs"
  for xs :: "('a :: linorder \<times> 'b) list"
proof (induction xs arbitrary: i)
  case (Cons x xs)
  show ?case
  proof (cases i)
    case 0
    then show ?thesis using Cons.prems by (auto simp: filter_id_conv)
  next
    case (Suc j)
    then have "fst x < fst (xs ! j)" using Cons.prems by simp
    then show ?thesis using Cons.IH [of j] Cons.prems Suc by (auto simp: case_prod_unfold dest: less_not_sym)
  qed
qed simp

context object_log
begin

lemma history_of_key:
  assumes s0: "ok s0" "contents s0 = Map.empty" and es: "in_order 0 0 es"
    and r: "r = persist_all st es \<lparr>pr_seq = 0, pr_objects = s0\<rparr>"
    and k: "starts_with (k @ ''/'') (rstrip_char (CHR ''/'') p @ ''/'')"
  shows "\<exists>hs. os_history st p since (pr_objects r) = (Inr hs, pr_objects r) \<and> sorted (map fst hs)
    \<and> set hs \<subseteq> set (map snd (minted 0 es))
    \<and> filter (\<lambda>(pos, _). key_of pos = k) hs = filter (\<lambda>(pos, _). later since pos) (entries k es)"
proof -
  let ?L = "map snd (minted 0 es)" and ?A = "{k. (self \<and> k = p \<or> below p k) \<and> later since k}"
  let ?hs = "sorted_objects (contents (pr_objects r)) ?A"
  have d: "dict_ok ?L" using minted_distinct [OF es] by simp
  have rk: "ok (pr_objects r)" "contents (pr_objects r) = map_of (rev ?L)"
    using contents_log [of "\<lparr>pr_seq = 0, pr_objects = s0\<rparr>" es] s0 r by simp_all
  have m: "contents (pr_objects r) x = Some v \<longleftrightarrow> (x, v) \<in> set ?L" for x v
    using in_set_dict [of "rev ?L" x v] d by (simp add: rk(2) rev_map [symmetric])
  have set_hs: "set ?hs = {(x, v). x \<in> ?A \<and> (x, v) \<in> set ?L}"
    using sorted_objects_set [OF finite_contents [OF rk(1)]] m by simp
  have key: "key_of pos = k' \<and> (\<exists>t j. pos = mint k' t j)" if mem: "(k', pos, v) \<in> set (minted 0 es)" for k' pos v
    using minted_stamp [OF es _ _ mem] by auto
  have under: "below p pos" if mem: "(k, pos, v) \<in> set (minted 0 es)" for pos v
  proof -
    obtain t j where "pos = (k @ ''/'') @ pad 13 (millis t) @ ''-'' @ pad 12 j"
      using key [OF mem] by (auto simp: mint_def)
    then show ?thesis using k starts_with_append unfolding below_def by blast
  qed
  have "filter (\<lambda>(pos, _). key_of pos = k) ?hs = filter (\<lambda>(pos, _). later since pos) (entries k es)"
  proof (rule assoc_unique)
    show "set (filter (\<lambda>(pos, _). key_of pos = k) ?hs) = set (filter (\<lambda>(pos, _). later since pos) (entries k es))"
    proof (rule set_eqI)
      fix x :: "string \<times> bytes"
      obtain pos v where x: "x = (pos, v)" by fastforce
      have "(pos, v) \<in> set ?L \<longleftrightarrow> (\<exists>k'. (k', pos, v) \<in> set (minted 0 es))" by force
      then have "key_of pos = k \<and> (pos, v) \<in> set ?L \<longleftrightarrow> (k, pos, v) \<in> set (minted 0 es)"
        using key by blast
      then have "x \<in> set ?hs \<and> key_of pos = k \<longleftrightarrow> (k, pos, v) \<in> set (minted 0 es) \<and> pos \<in> ?A"
        unfolding set_hs x by blast
      moreover have "pos \<in> ?A \<longleftrightarrow> later since pos" if "(k, pos, v) \<in> set (minted 0 es)"
        using under [OF that] by blast
      ultimately show "x \<in> set (filter (\<lambda>(pos, _). key_of pos = k) ?hs)
          \<longleftrightarrow> x \<in> set (filter (\<lambda>(pos, _). later since pos) (entries k es))"
        unfolding set_filter x using entries_key [OF es, of pos v k] by blast
    qed
    have "dict_ok ?hs" by simp
    then show "dict_ok (filter (\<lambda>(pos, _). key_of pos = k) ?hs)" by (rule distinct_map_filter)
    have "dict_ok (entries k es)" using entries_sorted [OF es] by (simp add: strict_sorted_iff)
    then show "dict_ok (filter (\<lambda>(pos, _). later since pos) (entries k es))" by (rule distinct_map_filter)
    show "sorted (map fst (filter (\<lambda>(pos, _). key_of pos = k) ?hs))"
      by (rule sorted_filter) simp
    show "sorted (map fst (filter (\<lambda>(pos, _). later since pos) (entries k es)))"
      by (rule sorted_filter) (use entries_sorted [OF es] in \<open>simp add: strict_sorted_iff\<close>)
  qed
  moreover have "set ?hs \<subseteq> set ?L" using set_hs by auto
  ultimately show ?thesis using lists [OF rk(1)] by (intro exI [of _ ?hs]) simp
qed

end

definition stream :: "(bytes \<Rightarrow> pyval) \<Rightarrow> string \<Rightarrow> persist_event list \<Rightarrow> replay_event list" where
  "stream dat k es = map (\<lambda>(pos, v). \<lparr>re_position = pos, re_data = dat v\<rparr>) (entries k es)"

lemma decode_all:
  "\<forall>(pos, v)\<in>set rs. d v = Inr (dat v) \<Longrightarrow>
    decode_events d rs = (map (\<lambda>(pos, v). \<lparr>re_position = pos, re_data = dat v\<rparr>) rs, None)"
  by (induction rs) auto

lemma rstrip_idem [simp]: "rstrip_char c (rstrip_char c s) = rstrip_char c s"
proof -
  have "dropWhile P (dropWhile P xs) = dropWhile P xs" for P and xs :: string by (induction xs) auto
  then show ?thesis by (simp add: rstrip_char_def)
qed

lemma rstrip_snoc [simp]: "rstrip_char c (s @ [c]) = rstrip_char c s"
  by (simp add: rstrip_char_def)

lemma set_rstrip: "x \<in> set (rstrip_char c s) \<Longrightarrow> x \<in> set s"
  by (auto simp: rstrip_char_def dest: set_dropWhileD)

text \<open>How the selector of a replay reads at the role.\<close>

lemma replay_selector_reads:
  assumes "CHR ''?'' \<notin> set prefix" "CHR ''*'' \<notin> set prefix"
  shows "rstrip_char (CHR ''/'') (fst (split_once (CHR ''*'') (fst (split_once (CHR ''?'') (replay_selector prefix since)))))
      = rstrip_char (CHR ''/'') prefix"
    and "read_since (selector_params (replay_selector prefix since)) = since"
proof -
  let ?p = "rstrip_char (CHR ''/'') prefix"
  have p: "CHR ''?'' \<notin> set ?p" "CHR ''*'' \<notin> set ?p" using assms set_rstrip by blast+
  have k: "fst (split_once (CHR ''?'') (replay_selector prefix since)) = ?p @ ''/**''"
    using p(1) by (cases since) (auto simp: replay_selector_def split_once_def takeWhile_append)
  have "fst (split_once (CHR ''*'') (?p @ ''/**'')) = ?p @ ''/''"
    using p(2) by (auto simp: split_once_def takeWhile_append)
  then show "rstrip_char (CHR ''/'') (fst (split_once (CHR ''*'') (fst (split_once (CHR ''?'') (replay_selector prefix since))))) = ?p"
    by (simp add: k)
  show "read_since (selector_params (replay_selector prefix since)) = since"
  proof (cases since)
    case None
    then show ?thesis using p(1) by (simp add: read_since_def selector_params_def replay_selector_def)
  next
    case (Some s)
    have "split_once (CHR ''?'') (replay_selector prefix since) = (?p @ ''/**'', ''_since='' @ quote s)"
      using split_once_at [of "CHR ''?''" "?p @ ''/**''" "''_since='' @ quote s"] p(1) Some
      by (simp add: replay_selector_def)
    moreover have "split_on (CHR '';'') (''_since='' @ quote s) = [''_since='' @ quote s]"
      by (rule split_on_none) (auto dest: quote_plain)
    moreover have "split_once (CHR ''='') (''_since='' @ quote s) = (''_since'', quote s)"
      using split_once_at [of "CHR ''=''" "''_since''" "quote s"] by simp
    moreover have "CHR ''?'' \<in> set (replay_selector prefix since)" using Some by (simp add: replay_selector_def)
    ultimately show ?thesis using Some by (simp add: selector_params_def read_since_def)
  qed
qed

context object_log
begin

lemma replay_of_key:
  assumes s0: "ok s0" "contents s0 = Map.empty" and es: "in_order 0 0 es"
    and r: "r = persist_all st es \<lparr>pr_seq = 0, pr_objects = s0\<rparr>"
    and d: "\<forall>k v t. Sample k v t \<in> set es \<longrightarrow> d v = Inr (dat v)"
    and prefix: "CHR ''?'' \<notin> set prefix" "CHR ''*'' \<notin> set prefix"
    and k: "starts_with (k @ ''/'') (rstrip_char (CHR ''/'') prefix @ ''/'')"
  shows "\<exists>evs. replay st d prefix since r = (Inr (evs, None), r)
    \<and> filter (\<lambda>e. key_of (re_position e) = k) evs = filter (\<lambda>e. later since (re_position e)) (stream dat k es)"
proof -
  let ?p = "rstrip_char (CHR ''/'') prefix" and ?ev = "\<lambda>(pos, v). \<lparr>re_position = pos, re_data = dat v\<rparr>"
  obtain hs where hs: "os_history st ?p since (pr_objects r) = (Inr hs, pr_objects r)" "sorted (map fst hs)"
      "set hs \<subseteq> set (map snd (minted 0 es))"
      "filter (\<lambda>(pos, _). key_of pos = k) hs = filter (\<lambda>(pos, _). later since pos) (entries k es)"
    using history_of_key [OF s0 es r, of k ?p since] k by auto
  have "replay st d prefix since r = (Inr (decode_events d hs), r)"
    using hs(1,2) replay_selector_reads [OF prefix, of since]
    by (simp add: replay_def answer_history_def act_bind_def act_return_def sort_key_id_if_sorted Let_def)
  moreover have "decode_events d hs = (map ?ev hs, None)"
    using hs(3) minted_payload d by (intro decode_all) force
  moreover have "filter (\<lambda>e. key_of (re_position e) = k) (map ?ev hs) = map ?ev (filter (\<lambda>(pos, _). key_of pos = k) hs)"
    by (simp add: filter_map comp_def case_prod_unfold)
  moreover have "filter (\<lambda>e. later since (re_position e)) (stream dat k es) = map ?ev (filter (\<lambda>(pos, _). later since pos) (entries k es))"
    by (simp add: stream_def filter_map comp_def case_prod_unfold)
  ultimately show ?thesis using hs(4) by auto
qed

end

text \<open>The position carries the time at which the sample was stored.\<close>

lemma digits_zeros: "digits (replicate n (CHR ''0'') @ s) 0 = digits s 0"
  by (induction n) (simp_all add: is_digit_def)

lemma fixed_digits: "c \<in> set (fixed_width w n) \<Longrightarrow> is_digit c"
  by (induction w arbitrary: n) auto

lemma py_int_fixed: "n < 10 ^ w \<Longrightarrow> 0 < w \<Longrightarrow> py_int (strip (fixed_width w n)) = Inr (int n)"
proof -
  assume n: "n < 10 ^ w" "0 < w"
  have "strip (fixed_width w n) = fixed_width w n"
    by (intro strip_plain) (auto dest: fixed_digits digit_not_space)
  moreover have "digits (fixed_width w n) 0 = Some (int n)"
    using fixed_show [OF n] digits_zeros digits_show_nat by metis
  moreover obtain c cs where "fixed_width w n = c # cs" using n(2) by (metis length_fixed length_greater_0_conv neq_Nil_conv)
  moreover have "is_digit c" using fixed_digits calculation(3) by (metis list.set_intros(1))
  moreover have "c \<noteq> CHR ''+''" "c \<noteq> CHR ''-''" using calculation(4) by (auto simp: is_digit_def)
  ultimately show ?thesis by (simp add: py_int_def)
qed

lemma timestamp_of_mint:
  assumes "plain_stamp t n"
  shows "timestamp_ms \<lparr>re_position = mint k t n, re_data = v\<rparr> = millis t"
proof -
  let ?m = "fixed_width 13 (nat (millis t))" and ?n = "fixed_width 12 (nat n)"
  have d: "CHR ''/'' \<notin> set (?m @ ''-'' @ ?n)" "CHR ''-'' \<notin> set ?m"
    by (auto simp: is_digit_def simp del: fixed_width.simps dest: fixed_digits)
  have "takeWhile (\<lambda>c. c \<noteq> CHR ''/'') (rev (k @ ''/'' @ ?m @ ''-'' @ ?n)) = rev (?m @ ''-'' @ ?n)"
    using d(1) by (simp add: takeWhile_append del: fixed_width.simps)
  moreover have "split_once (CHR ''-'') (?m @ ''-'' @ ?n) = (?m, ?n)"
    using split_once_at [OF d(2), of ?n] by (simp del: fixed_width.simps)
  moreover have "py_int (strip ?m) = Inr (millis t)"
    using py_int_fixed [of "nat (millis t)" 13] assms by (simp add: plain_stamp_def nat_less_iff)
  ultimately show ?thesis by (simp add: timestamp_ms_def mint_fixed [OF assms] del: fixed_width.simps)
qed

section \<open>Properties\<close>

text \<open>C23: A stream persisted on S3, by a role that may restart, reads back complete and in the order it was
  published, and a reader that resumes after any event it has read gets exactly the events that
  follow it. This holds of the events of each key below the prefix.\<close>

theorem replay_resumes:
  assumes "s3_documented (s3_service b) held" "held s0 = Map.empty" "in_order 0 0 es"
    and "r = persist_all (s3_store b) es \<lparr>pr_seq = 0, pr_objects = s0\<rparr>"
    and "\<forall>k v t. Sample k v t \<in> set es \<longrightarrow> d v = Inr (dat v)"
    and "CHR ''?'' \<notin> set prefix" "CHR ''*'' \<notin> set prefix"
    and "starts_with (k @ ''/'') (rstrip_char (CHR ''/'') prefix @ ''/'')"
  shows "(\<exists>evs. replay (s3_store b) d prefix None r = (Inr (evs, None), r)
      \<and> filter (\<lambda>e. key_of (re_position e) = k) evs = stream dat k es)
    \<and> (\<forall>i < length (stream dat k es).
        \<exists>evs. replay (s3_store b) d prefix (Some (re_position (stream dat k es ! i))) r = (Inr (evs, None), r)
          \<and> filter (\<lambda>e. key_of (re_position e) = k) evs = drop (Suc i) (stream dat k es))"
proof -
  have "own_objects b held s0 = Map.empty" using assms(2) by (simp add: own_objects_def fun_eq_iff)
  then have *: "\<exists>evs. replay (s3_store b) d prefix since r = (Inr (evs, None), r)
      \<and> filter (\<lambda>e. key_of (re_position e) = k) evs = filter (\<lambda>e. later since (re_position e)) (stream dat k es)" for since
    using object_log.replay_of_key [OF s3_contract [OF assms(1)] TrueI _ assms(3-8)] by blast
  have **: "filter (\<lambda>e. later (Some (re_position (stream dat k es ! i))) (re_position e)) (stream dat k es) = drop (Suc i) (stream dat k es)"
    if "i < length (stream dat k es)" for i
    using resume_drop [OF entries_sorted [OF assms(3)], of i k] that
    by (simp add: stream_def later_def filter_map comp_def case_prod_unfold drop_map)
  have "filter (\<lambda>e. later None (re_position e)) (stream dat k es) = stream dat k es" by (simp add: later_def)
  then show ?thesis using * [of None] * ** by metis
qed

definition dict_s3 :: "(string, bytes) dict s3_service" where
  "dict_s3 = \<lparr>
     s3_put_object = (\<lambda>k v s. (Inr (), AList.update k v s)),
     s3_list = (\<lambda>p since s. (Inr (filter (\<lambda>k. starts_with k p \<and> later since k) (remdups (map fst s))), s)),
     s3_get_object = (\<lambda>k s. (case map_of s k of None \<Rightarrow> Inl (key_error k) | Some v \<Rightarrow> Inr v, s))\<rparr>"

lemma dict_s3_documented: "s3_documented dict_s3 map_of"
  by (auto simp: s3_documented_def dict_s3_def dom_map_of_conv_image_fst finite_dom_map_of)

definition logged :: "persist_event list" where
  "logged = [Sample ''o/a'' [1] 1, Sample ''o/b'' [7] 1, Restart, Sample ''o/a'' [2] 2]"

lemma replay_resumes_witness:
  "\<exists>evs. fst (replay (s3_store (s3_init dict_s3 ''/logs/'')) (\<lambda>v. Inr (PInt (uint (hd v)))) ''o/'' (Some (mint ''o/a'' 1 1))
       (persist_all (s3_store (s3_init dict_s3 ''/logs/'')) logged \<lparr>pr_seq = 0, pr_objects = []\<rparr>)) = Inr (evs, None)
     \<and> filter (\<lambda>e. key_of (re_position e) = ''o/a'') evs = [\<lparr>re_position = mint ''o/a'' 2 1, re_data = PInt 2\<rparr>]"
proof -
  let ?b = "s3_init dict_s3 ''/logs/''" and ?dat = "\<lambda>v :: bytes. PInt (uint (hd v))"
  have s: "stream ?dat ''o/a'' logged
      = [\<lparr>re_position = mint ''o/a'' 1 1, re_data = PInt 1\<rparr>, \<lparr>re_position = mint ''o/a'' 2 1, re_data = PInt 2\<rparr>]"
    by (simp add: stream_def entries_def logged_def)
  have "s3_documented (s3_service ?b) map_of" by (simp add: s3_init_def dict_s3_documented)
  moreover have "in_order 0 0 logged" by (simp add: logged_def millis_def)
  moreover have "starts_with (''o/a'' @ ''/'') (rstrip_char (CHR ''/'') ''o/'' @ ''/'')" by code_simp
  ultimately show ?thesis
    using replay_resumes [where b = ?b and held = map_of and ?s0.0 = "[]" and es = logged and dat = ?dat
        and d = "\<lambda>v. Inr (?dat v)" and prefix = "''o/''" and k = "''o/a''"] s
    by fastforce
qed

text \<open>Over several keys the order is that of the keys first: a reader that has read as far as an event
  of one key and resumes never sees the events that are published later under a key before it.\<close>

lemma cursor_skips_other_key:
  "fst (replay memory_store (\<lambda>v. Inr (PInt (uint (hd v)))) ''o'' (Some (mint ''o/b'' 1 1))
       (persist_all memory_store [Sample ''o/b'' [1] 1, Sample ''o/a'' [2] 2] \<lparr>pr_seq = 0, pr_objects = []\<rparr>)) = Inr ([], None)"
  by code_simp

end
