(* ===== verification/Remote.thy ===== *)
theory Remote
  imports HandlerProps QueueClient
begin

text \<open>
  The callers of handlers and the publishers of samples: \<open>primitives/query.py\<close>,
  \<open>primitives/publish.py\<close>, and the one-shot calls \<open>query_once\<close> and \<open>publish_once\<close> of
  \<open>app/messaging.py\<close>. \<open>session.get\<close> and \<open>session.put\<close> are arguments, which get the selector or
  key, the payload and the attachment; serializers, \<open>str\<close> and \<open>json\<close> are arguments too.
\<close>

section \<open>Queries\<close>

type_synonym 'w getter = "string \<Rightarrow> bytes option \<Rightarrow> bool \<Rightarrow> ('w, (string \<times> bytes) list) act"

record 'u querier =
  qy_prefix :: string
  qy_deserialize :: "bytes \<Rightarrow> exc + pyval"
  qy_session :: "'u world getter option"
  qy_retry :: retry_policy
  qy_attachment :: "bytes option"
  qy_consolidate :: bool
  qy_str :: "pyval \<Rightarrow> string"
  qy_dumps :: "pyval \<Rightarrow> string"
  qy_loads :: "string \<Rightarrow> pyval res"

definition querier_retry :: "retry_arg \<Rightarrow> retry_policy res" where
  "querier_retry r = retry_of r"

definition query_selector :: "'u querier \<Rightarrow> (string, pyval) dict \<Rightarrow> string" where
  "query_selector q kwargs =
     (if kwargs = [] then qy_prefix q
      else qy_prefix q @ ''?'' @ join '';'' (map (\<lambda>(k, v). quote k @ ''='' @ quote (qy_str q v)) kwargs))"

text \<open>The caller's token, and the correlation id and trace of the request it runs in.\<close>

definition ambient_envelope :: "pyval \<Rightarrow> principal request_context option \<Rightarrow> envelope" where
  "ambient_envelope token ctx =
     \<lparr>env_token = token,
      env_correlation_id = (case ctx of None \<Rightarrow> PNone | Some c \<Rightarrow> PStr (rc_correlation_id c)),
      env_traceparent = (case ctx of None \<Rightarrow> PNone | Some c \<Rightarrow> opt_str (rc_traceparent c))\<rparr>"

definition outbound_attachment :: "'u querier \<Rightarrow> principal request_context option \<Rightarrow> bytes option" where
  "outbound_attachment q ctx =
     to_attachment (qy_dumps q) (ambient_envelope (env_token (from_attachment (qy_loads q) (qy_attachment q))) ctx)"

text \<open>The replies that are not errors of the transport.\<close>

definition blocking_query :: "'u querier \<Rightarrow> 'u world getter \<Rightarrow> string \<Rightarrow> ('u world, (string \<times> bytes) list) act" where
  "blocking_query q fetch sel w = fetch sel (outbound_attachment q (w_context w)) (qy_consolidate q) w"

fun decode_replies :: "(bytes \<Rightarrow> exc + pyval) \<Rightarrow> (string \<times> bytes) list \<Rightarrow> exc + pyval list" where
  "decode_replies d [] = Inr []"
| "decode_replies d ((k, raw) # rs) = res_bind (d raw) (\<lambda>v. res_bind (decode_replies d rs) (\<lambda>vs. Inr (v # vs)))"

definition quoted :: "string \<Rightarrow> string" where
  "quoted s = [CHR 0x27] @ s @ [CHR 0x27]"

definition decode_failure :: "'u querier \<Rightarrow> exc \<Rightarrow> exc" where
  "decode_failure q e =
     (if is_exception e
      then raised (reply_decode_error (PStr (''Reply from '' @ quoted (qy_prefix q) @ '' could not be decoded: '' @ x_str e)) PNone PNone)
      else e)"

definition read_replies :: "'u querier \<Rightarrow> (string \<times> bytes) list \<Rightarrow> exc + pyval" where
  "read_replies q replies =
     (if replies = [] then Inl (raised (not_found_error (PStr (''No handler replied for '' @ quoted (qy_prefix q))) PNone PNone))
      else (case decode_replies (qy_deserialize q) replies of
              Inl e \<Rightarrow> Inl (decode_failure q e)
            | Inr vs \<Rightarrow>
                (let v = (case vs of [x] \<Rightarrow> x | _ \<Rightarrow> PList vs)
                 in if is_error_payload v then Inl (raise_payload v) else Inr v)))"

definition do_query :: "'u querier \<Rightarrow> 'u world getter \<Rightarrow> string \<Rightarrow> ('u world, pyval) act" where
  "do_query q fetch sel = act_bind (blocking_query q fetch sel) (\<lambda>replies. act_of (read_replies q replies))"

text \<open>The body behind the decorator: plain, or with dependencies that fill its other parameters.\<close>

datatype 'u query_body =
    PlainBody "pyval list \<Rightarrow> ('u world, pyval) act"
  | InjectedBody "'u world callables" "string \<Rightarrow> pyval list \<Rightarrow> (string, pyval) dict \<Rightarrow> ('u world, pyval) act"
      "(string, string) dict" string

text \<open>Keyword arguments become parameters of the selector; positional ones are handed to the body.\<close>

definition query_call ::
  "'u querier \<Rightarrow> 'u query_body \<Rightarrow> (nat \<Rightarrow> rat) \<Rightarrow> pyval list \<Rightarrow> (string, pyval) dict \<Rightarrow> 'u world
   \<Rightarrow> ((exc + pyval) \<times> 'u world) option" where
  "query_call q body draws args kwargs w =
     (case qy_session q of
        None \<Rightarrow> Some (Inl (runtime_error ''No active Zenoh session.''), w)
      | Some fetch \<Rightarrow>
          (case execute_with_retry (qy_retry q) None draws (do_query q fetch (query_selector q kwargs)) w of
             (Inl e, _, w1) \<Rightarrow> Some (Inl e, w1)
           | (Inr v, _, w1) \<Rightarrow>
               (case body of
                  PlainBody f \<Rightarrow> Some (f (args @ [v]) w1)
                | InjectedBody fs positional ov f \<Rightarrow>
                    invoke_with_dependencies fs positional ov [] (take 1 (positional_param_names (f_sig fs f))) f (args @ [v]) w1)))"

text \<open>\<open>query_once\<close>: no retry, and the body is the identity on its one argument.\<close>

definition query_once ::
  "'u querier \<Rightarrow> string option \<Rightarrow> bool \<Rightarrow> (string, pyval) dict \<Rightarrow> 'u world
   \<Rightarrow> ((exc + pyval) \<times> 'u world) option" where
  "query_once q token consolidate kwargs w =
     query_call (q\<lparr>qy_attachment := map_option encode_utf8 token, qy_consolidate := consolidate,
         qy_retry := (qy_retry q)\<lparr>max_retries := 0\<rparr>\<rparr>)
       (PlainBody (\<lambda>vs. act_return (last vs))) (\<lambda>_. 0) [] kwargs w"

section \<open>Publishing\<close>

type_synonym 'w putter = "string \<Rightarrow> bytes \<Rightarrow> bytes option \<Rightarrow> ('w, unit) act"

datatype shm = NoCallback | NotInitialised | Provider

record 'u publisher =
  pb_prefix :: string
  pb_serialize :: "pyval \<Rightarrow> exc + bytes"
  pb_session :: "'u world putter option"
  pb_use_shm :: bool
  pb_shm :: shm
  pb_durable :: bool
  pb_advanced :: "'u world putter option"
  pb_calls :: int
  pb_dumps :: "pyval \<Rightarrow> string"

definition publisher_init :: "'u publisher \<Rightarrow> 'u publisher res" where
  "publisher_init p =
     (if pb_durable p \<and> pb_use_shm p then Inl (ValueError ''durable=True and use_shm=True cannot be combined'')
      else Inr (p\<lparr>pb_advanced := None, pb_calls := 0\<rparr>))"

text \<open>\<open>declare_durable_publisher\<close> is an argument.\<close>

definition declare_publisher :: "'u world putter \<Rightarrow> 'u publisher \<Rightarrow> 'u publisher" where
  "declare_publisher adv p = (if \<not> pb_durable p \<or> pb_advanced p \<noteq> None then p else p\<lparr>pb_advanced := Some adv\<rparr>)"

definition undeclare_publisher :: "'u publisher \<Rightarrow> 'u publisher" where
  "undeclare_publisher p = p\<lparr>pb_advanced := None\<rparr>"

text \<open>Only what there is of a correlation id or a trace is sent; a publisher sends no token.\<close>

definition publish_attachment :: "(pyval \<Rightarrow> string) \<Rightarrow> principal request_context option \<Rightarrow> bytes option" where
  "publish_attachment dumps ctx =
     (case ctx of
        None \<Rightarrow> None
      | Some c \<Rightarrow>
          if rc_correlation_id c \<noteq> [] \<or> (\<exists>t. rc_traceparent c = Some t \<and> t \<noteq> [])
          then to_attachment dumps (ambient_envelope PNone ctx) else None)"

definition do_put :: "'u publisher \<Rightarrow> 'u world putter \<Rightarrow> bytes \<Rightarrow> bytes option \<Rightarrow> ('u world, unit) act" where
  "do_put p send b att =
     (if pb_durable p then (case pb_advanced p of None \<Rightarrow> act_raise (attribute_error ''put'') | Some adv \<Rightarrow> adv (pb_prefix p) b att)
      else if pb_use_shm p then
        (case pb_shm p of
           NoCallback \<Rightarrow> act_raise (runtime_error ''SHM provider callback not provided.'')
         | NotInitialised \<Rightarrow> act_raise (runtime_error ''SHM provider not initialized. Cannot publish via SHM.'')
         | Provider \<Rightarrow> send (pb_prefix p) b att)
      else send (pb_prefix p) b att)"

text \<open>\<open>body\<close> is the decorated function on the arguments of the call, with its dependencies if it has any.\<close>

definition publish_call ::
  "'u publisher \<Rightarrow> ('u world \<Rightarrow> ((exc + pyval) \<times> 'u world) option) \<Rightarrow> 'u world \<Rightarrow> ((exc + pyval) \<times> 'u world) option" where
  "publish_call p body w =
     (case pb_session p of
        None \<Rightarrow> Some (Inl (runtime_error ''No active Zenoh session.''), w)
      | Some send \<Rightarrow>
          if pb_durable p \<and> pb_advanced p = None
          then Some (Inl (runtime_error ''Durable publisher not declared yet.''), w)
          else Option.bind (body w) (\<lambda>(out, w1). Some
                 (case out of
                    Inl e \<Rightarrow> (Inl e, w1)
                  | Inr v \<Rightarrow>
                      act_bind (act_of (pb_serialize p v)) (\<lambda>b.
                      act_bind (do_put p send b (publish_attachment (pb_dumps p) (w_context w1))) (\<lambda>_. act_return v)) w1)))"

definition publish_once ::
  "'u world putter option \<Rightarrow> (pyval \<Rightarrow> exc + bytes) \<Rightarrow> (pyval \<Rightarrow> string) \<Rightarrow> string \<Rightarrow> pyval \<Rightarrow> string option \<Rightarrow> ('u world, unit) act" where
  "publish_once session serialize dumps prefix v token w =
     (case session of
        None \<Rightarrow> (Inl (runtime_error ''No active Zenoh session.''), w)
      | Some send \<Rightarrow>
          act_bind (act_of (serialize v)) (\<lambda>b. send prefix b (to_attachment dumps (ambient_envelope (opt_str token) (w_context w)))) w)"

section \<open>A remote call\<close>

text \<open>Zenoh routes a query to the one handler that serves its key, and the reply back.\<close>

definition serves :: "'u handler \<Rightarrow> 'u surroundings \<Rightarrow> 't pydantic option \<Rightarrow> (string \<Rightarrow> 't option) option \<Rightarrow> 'u world getter \<Rightarrow> bool" where
  "serves h u py hints fetch \<longleftrightarrow>
     (\<forall>sel att cons w r w'.
        on_query h u py hints \<lparr>nq_key = fst (split_once (CHR ''?'') sel), nq_params = selector_params sel, nq_attachment = att\<rparr> w
          = Some (r, w') \<longrightarrow> fetch sel att cons w = (Inr (case r of None \<Rightarrow> [] | Some kb \<Rightarrow> [kb]), w'))"

lemma selector_params_query:
  assumes "CHR ''?'' \<notin> set (qy_prefix q)"
  shows "selector_params (query_selector q kwargs) = map (\<lambda>(k, v). (quote k, quote (qy_str q v))) kwargs"
    and "fst (split_once (CHR ''?'') (query_selector q kwargs)) = qy_prefix q"
proof -
  let ?ws = "map (\<lambda>(k, v). quote k @ ''='' @ quote (qy_str q v)) kwargs"
  show "fst (split_once (CHR ''?'') (query_selector q kwargs)) = qy_prefix q"
    using assms split_once_at [of "CHR ''?''" "qy_prefix q" "join '';'' ?ws"]
    by (auto simp: query_selector_def split_once_def takeWhile_eq_all_conv [THEN iffD2])
  show "selector_params (query_selector q kwargs) = map (\<lambda>(k, v). (quote k, quote (qy_str q v))) kwargs"
  proof (cases "kwargs = []")
    case True
    then show ?thesis using assms by (simp add: query_selector_def selector_params_def)
  next
    case False
    have "split_on (CHR '';'') (join '';'' ?ws) = ?ws"
      using False by (intro split_on_join) (auto dest: quote_plain)
    then show ?thesis using False assms
      by (simp add: query_selector_def selector_params_def split_once_at split_pair case_prod_unfold)
  qed
qed

lemma net_params_query:
  assumes "CHR ''?'' \<notin> set (qy_prefix q)" "dict_ok kwargs"
  shows "net_params \<lparr>nq_key = k, nq_params = selector_params (query_selector q kwargs), nq_attachment = att\<rparr>
    = map (\<lambda>(k, v). (k, qy_str q v)) kwargs"
proof -
  let ?e = "map (\<lambda>(k, v). (k, qy_str q v)) kwargs"
  have "selector_params (query_selector q kwargs) = map (\<lambda>(k, v). (quote k, quote v)) ?e"
    by (simp add: selector_params_query(1) [OF assms(1)] case_prod_unfold comp_def)
  moreover have "dict_ok ?e" using assms(2) by (simp add: case_prod_unfold comp_def)
  moreover have "decode_params (map (\<lambda>(k, v). (quote k, quote v)) e) = e" if "dict_ok e" for e
    using fold_update_distinct [of "[]" e] that by (simp add: decode_params_def decode_quoted)
  ultimately show ?thesis by (simp add: net_params_def decode_params_def del: map_map)
qed

text \<open>What goes over the wire for an outcome.\<close>

definition wire_value :: "'u handler \<Rightarrow> string \<Rightarrow> exc + pyval \<Rightarrow> pyval" where
  "wire_value h cid out =
     (case out of
        Inr v \<Rightarrow> v
      | Inl e \<Rightarrow> PDict (error_to_dict ((resolve (h_registry h) e)\<lparr>er_correlation_id := PStr cid\<rparr>)))"

text \<open>What a caller gets of a call's outcome, when the serializers of both ends agree.\<close>

definition far_outcome :: "'u handler \<Rightarrow> string \<Rightarrow> exc + pyval \<Rightarrow> exc + pyval" where
  "far_outcome h cid out =
     (case out of
        Inr v \<Rightarrow> Inr v
      | Inl e \<Rightarrow> Inl (raise_payload (PDict (error_to_dict ((resolve (h_registry h) e)\<lparr>er_correlation_id := PStr cid\<rparr>)))))"

lemma read_one:
  "qy_deserialize q b = Inr v \<Longrightarrow> read_replies q [(k, b)] = (if is_error_payload v then Inl (raise_payload v) else Inr v)"
  by (simp add: read_replies_def)

lemma query_once_one_reply:
  assumes "qy_session q = Some fetch"
    and "fetch (query_selector q kwargs) (outbound_attachment (q\<lparr>qy_attachment := map_option encode_utf8 token\<rparr>) (w_context w)) cons w
      = (Inr [(k, b)], w')"
    and "qy_deserialize q b = Inr v"
  shows "query_once q token cons kwargs w = Some (if is_error_payload v then Inl (raise_payload v) else Inr v, w')"
proof -
  let ?q = "q\<lparr>qy_attachment := map_option encode_utf8 token, qy_consolidate := cons, qy_retry := (qy_retry q)\<lparr>max_retries := 0\<rparr>\<rparr>"
  have sel: "query_selector ?q kwargs = query_selector q kwargs" by (simp add: query_selector_def)
  have att: "outbound_attachment ?q (w_context w) = outbound_attachment (q\<lparr>qy_attachment := map_option encode_utf8 token\<rparr>) (w_context w)"
    by (simp add: outbound_attachment_def)
  have "decode_failure ?q = decode_failure q" by (simp add: fun_eq_iff decode_failure_def)
  then have rr: "read_replies ?q rs = read_replies q rs" for rs
    by (simp add: read_replies_def cong: sum.case_cong)
  have "do_query ?q fetch (query_selector q kwargs) w = (if is_error_payload v then Inl (raise_payload v) else Inr v, w')"
    using assms(2) by (simp add: do_query_def blocking_query_def act_bind_def att rr read_one [OF assms(3)] act_of_def)
  then show ?thesis using assms(1)
    by (simp add: query_once_def query_call_def sel execute_with_retry_def act_return_def)
qed

lemma raise_coded:
  "map_of CODE_TO_ERROR code = Some mk \<Longrightarrow> e_code (mk m d PNone) = PStr code \<Longrightarrow> e_message (mk m d PNone) = m \<Longrightarrow>
   e_details (mk m d PNone) = d \<Longrightarrow> cid \<noteq> [] \<Longrightarrow>
   raise_payload (PDict (error_to_dict ((resolve default_registry (raised (mk m d PNone)))\<lparr>er_correlation_id := PStr cid\<rparr>)))
     = raised (mk m d (PStr cid))"
  by (simp add: raise_payload_def resolve_default rebuilt_code)

lemma far_coded:
  assumes "map_of CODE_TO_ERROR code = Some mk" "h_registry h = default_registry" "cid \<noteq> []"
  shows "far_outcome h cid (Inl (raised (mk m d PNone))) = Inl (raised (mk m d (PStr cid)))"
proof -
  have "(code, mk) \<in> set CODE_TO_ERROR" using assms(1) by (rule map_of_SomeD)
  then have "e_code (mk m d PNone) = PStr code \<and> e_message (mk m d PNone) = m \<and> e_details (mk m d PNone) = d"
    by (auto simp: CODE_TO_ERROR_def coded_errors)
  then show ?thesis using raise_coded [OF assms(1)] assms(2,3) by (simp add: far_outcome_def)
qed

text \<open>C24: Calling a handler over the mesh gives what calling it in its own process gives: the value it
  returns, or an error of the class it raised, with its message and details and the correlation id of
  the request. The handler is called with the caller's arguments, as text.\<close>

theorem remote_call_is_local:
  fixes h :: "'u handler"
  assumes "serves h u py hints fetch" "qy_session q = Some fetch"
    and "CHR ''?'' \<notin> set (qy_prefix q)" "dict_ok kwargs"
    and nq: "nq = \<lparr>nq_key = qy_prefix q, nq_params = selector_params (query_selector q kwargs),
          nq_attachment = outbound_attachment (q\<lparr>qy_attachment := map_option encode_utf8 token\<rparr>) (w_context w)\<rparr>"
    and "net_auth h nq = Inr who"
    and "validate_params py hints (h_sig h) (map (\<lambda>(k, v). (k, PStr (qy_str q v))) kwargs) (injected_params (h_sig h)) = Inr vp"
    and "map_of vp ''self'' = None"
    and "handler_call h u [] (AList.delete ''db'' vp)
          (w\<lparr>w_context := Some ((net_context h u nq)\<lparr>rc_principal := map_option (\<lambda>i. ObjPrincipal (PStr (p_id i))) who\<rparr>)\<rparr>)
        = Some (out, w')"
    and ser: "\<exists>b. h_serializer h (wire_value h (rc_correlation_id (net_context h u nq)) out) = Inr b
        \<and> qy_deserialize q b = Inr (wire_value h (rc_correlation_id (net_context h u nq)) out)"
    and plain: "\<And>v. out = Inr v \<Longrightarrow> \<not> is_error_payload v" "\<And>e. out = Inl e \<Longrightarrow> is_exception e"
  shows "query_once q token cons kwargs w
      = Some (far_outcome h (rc_correlation_id (net_context h u nq)) out, w'\<lparr>w_context := w_context w\<rparr>)
    \<and> (\<forall>code mk m d. map_of CODE_TO_ERROR code = Some mk \<and> out = Inl (raised (mk m d PNone))
        \<and> h_registry h = default_registry \<and> rc_correlation_id (net_context h u nq) \<noteq> [] \<longrightarrow>
        query_once q token cons kwargs w
          = Some (Inl (raised (mk m d (PStr (rc_correlation_id (net_context h u nq))))), w'\<lparr>w_context := w_context w\<rparr>))"
proof -
  let ?cid = "rc_correlation_id (net_context h u nq)"
  obtain b where b: "h_serializer h (wire_value h ?cid out) = Inr b" "qy_deserialize q b = Inr (wire_value h ?cid out)"
    using ser by blast
  then have "answer h (nq_key nq) ?cid out = Some (nq_key nq, b)"
    using plain(2) by (cases out) (simp_all add: answer_def error_reply_def wire_value_def)
  moreover have "(if is_error_payload (wire_value h ?cid out) then Inl (raise_payload (wire_value h ?cid out))
      else Inr (wire_value h ?cid out)) = far_outcome h ?cid out"
    using plain(1) by (cases out) (simp_all add: wire_value_def far_outcome_def)
  ultimately obtain v where r: "answer h (nq_key nq) ?cid out = Some (nq_key nq, b)" "qy_deserialize q b = Inr v"
      "(if is_error_payload v then Inl (raise_payload v) else Inr v) = far_outcome h ?cid out"
    using b(2) by blast
  have params: "map (\<lambda>(k, v). (k, PStr v)) (net_params nq) = map (\<lambda>(k, v). (k, PStr (qy_str q v))) kwargs"
    unfolding nq net_params_query [OF assms(3,4)] by (simp add: case_prod_unfold comp_def)
  have "on_query h u py hints nq w = Some (Some (nq_key nq, b), w'\<lparr>w_context := w_context w\<rparr>)"
    using assms(6-9) r(1) map_of_remove [of "''db''" vp] by (simp add: on_query_def Let_def params)
  then have "fetch (query_selector q kwargs) (nq_attachment nq) cons w = (Inr [(nq_key nq, b)], w'\<lparr>w_context := w_context w\<rparr>)"
    using assms(1) unfolding serves_def nq by (simp add: selector_params_query(2) [OF assms(3)])
  then have once: "query_once q token cons kwargs w = Some (far_outcome h ?cid out, w'\<lparr>w_context := w_context w\<rparr>)"
    using query_once_one_reply [OF assms(2) _ r(2)] r(3) unfolding nq by simp
  moreover have "query_once q token cons kwargs w = Some (Inl (raised (mk m d (PStr ?cid))), w'\<lparr>w_context := w_context w\<rparr>)"
    if "map_of CODE_TO_ERROR code = Some mk" "out = Inl (raised (mk m d PNone))"
        "h_registry h = default_registry" "?cid \<noteq> []" for code mk m d
    using far_coded [OF that(1,3,4), of m d] that(2) once by simp
  ultimately show ?thesis by blast
qed

text \<open>A request made inside another carries its correlation id on: the receiver works under the same id.\<close>

lemma correlation_survives:
  assumes "optional_text token" "json_object_text dumps loads (PDict (envelope_dict (ambient_envelope token (Some c))))"
    and "\<And>s. token = PStr s \<Longrightarrow> utf8_valid (map of_char s)"
    and "sanitize_correlation_id (PStr (rc_correlation_id c)) = Some (rc_correlation_id c)"
  shows "rc_correlation_id (ingress_context loads uuid prefix op
      (to_attachment dumps (ambient_envelope token (Some c))) who) = rc_correlation_id c"
proof -
  have "from_attachment loads (to_attachment dumps (ambient_envelope token (Some c))) = ambient_envelope token (Some c)"
    by (rule envelope_round_trip) (use assms in \<open>simp_all add: ambient_envelope_def\<close>)
  moreover have "rc_correlation_id c \<noteq> []" using assms(4) by (auto simp: sanitize_correlation_id_def)
  ultimately show ?thesis using assms(4) by (simp add: ingress_context_def Let_def ambient_envelope_def)
qed

definition served_by :: "'u handler \<Rightarrow> 'u surroundings \<Rightarrow> 'u world getter" where
  "served_by h u sel att cons w =
     (case on_query h u (None :: unit pydantic option) None
             \<lparr>nq_key = fst (split_once (CHR ''?'') sel), nq_params = selector_params sel, nq_attachment = att\<rparr> w of
        None \<Rightarrow> (Inr [], w)
      | Some (r, w') \<Rightarrow> (Inr (case r of None \<Rightarrow> [] | Some kb \<Rightarrow> [kb]), w'))"

definition echo_querier :: "unit app_state querier" where
  "echo_querier = \<lparr>qy_prefix = ''svc/echo'', qy_deserialize = (\<lambda>_. Inr (PStr ''7'')),
     qy_session = Some (served_by plain_echo no_surroundings), qy_retry = \<lparr>max_retries = 0, delay = 0, backoff_factor = 1, max_delay = 0, jitter = 0\<rparr>,
     qy_attachment = None, qy_consolidate = True, qy_str = (\<lambda>_. ''7''), qy_dumps = (\<lambda>_. ''{}''), qy_loads = (\<lambda>_. Inl (ValueError []))\<rparr>"

lemma plain_echo_returns:
  assumes "caller_identity (u_sha256 no_surroundings) (u_str no_surroundings) (u_loads no_surroundings) (w_context w) = Inr i"
  shows "\<exists>w'. handler_call plain_echo no_surroundings [] kwargs w = Some (Inr (dict_get kwargs ''x'' PNone), w')"
proof -
  have ok: "\<exists>w2. record_outcome (counted plain_echo) no_surroundings k v w1 = (Inr v, w2)" for k v w1
    using record_outcome_returns [of "counted plain_echo" no_surroundings k v w1]
    by (auto simp: plain_echo_def counted_def echo_handler_def json_serializer_def mem_plugin_def prod_eq_iff)
  have deps: "depends_params (h_sig (counted plain_echo)) = {}" "\<not> inject_db (h_sig (counted plain_echo))"
    by (auto simp: plain_echo_def counted_def echo_handler_def depends_params_def extract_depends_def inject_db_def)
  have body: "run_body (counted plain_echo) u args params k kw w1
      = record_outcome (counted plain_echo) u k (dict_get kw ''x'' PNone) w1" for u args params k kw w1
    by (simp add: run_body_def execute_with_retry_def execute_once_def plain_echo_def counted_def
        echo_handler_def act_return_def validate_return_def)
  have d: "h_durability (counted plain_echo) = AT_MOST_ONCE" by (simp add: plain_echo_def counted_def)
  have "\<exists>k. call_key (counted plain_echo) no_surroundings [] kwargs (w_context w) = Inr k"
    using assms by (simp add: call_key_def)
  then obtain k where "handler_call plain_echo no_surroundings [] kwargs w
      = call_with_key (counted plain_echo) no_surroundings [] kwargs k w" by (auto simp: handler_call_def)
  moreover obtain w2 where "record_outcome (counted plain_echo) no_surroundings k (dict_get kwargs ''x'' PNone) w
      = (Inr (dict_get kwargs ''x'' PNone), w2)" using ok by blast
  ultimately show ?thesis by (simp add: call_with_key_def admission_def d invoke_def Let_def deps body)
qed

lemma remote_call_is_local_witness:
  "\<exists>w'. query_once echo_querier None True [(''x'', PInt 7)] world0 = Some (Inr (PStr ''7''), w')"
proof -
  let ?nq = "\<lparr>nq_key = qy_prefix echo_querier, nq_params = selector_params (query_selector echo_querier [(''x'', PInt 7)]),
      nq_attachment = outbound_attachment (echo_querier\<lparr>qy_attachment := map_option encode_utf8 None\<rparr>) (w_context world0)\<rparr>"
  let ?ctx = "(net_context plain_echo no_surroundings ?nq)\<lparr>rc_principal := map_option (\<lambda>i. ObjPrincipal (PStr (p_id i))) (None :: identity option)\<rparr>"
  have v: "validate_params (None :: unit pydantic option) None (h_sig plain_echo)
      (map (\<lambda>(k, v). (k, PStr (qy_str echo_querier v))) [(''x'', PInt 7)]) (injected_params (h_sig plain_echo)) = Inr [(''x'', PStr ''7'')]"
    by (simp add: validate_params_def declared_params_def plain_echo_def echo_handler_def echo_querier_def
        injected_params_def depends_params_def extract_depends_def inject_db_def Let_def)
  have "outbound_attachment (echo_querier\<lparr>qy_attachment := map_option encode_utf8 None\<rparr>) (w_context world0) = None"
    by (simp add: outbound_attachment_def world0_def ambient_envelope_def to_attachment_def from_attachment_def empty_envelope_def)
  then have "caller_identity (u_sha256 no_surroundings) (u_str no_surroundings) (u_loads no_surroundings) (Some ?ctx) = Inr []"
    by (simp add: caller_identity_def net_context_def ingress_context_def context_token_def from_attachment_def empty_envelope_def Let_def)
  then obtain w' where "handler_call plain_echo no_surroundings [] [(''x'', PStr ''7'')] (world0\<lparr>w_context := Some ?ctx\<rparr>)
      = Some (Inr (PStr ''7''), w')"
    using plain_echo_returns [of "world0\<lparr>w_context := Some ?ctx\<rparr>" "[]" "[(''x'', PStr ''7'')]"]
    by (auto simp: dict_get_def)
  moreover have "serves plain_echo no_surroundings (None :: unit pydantic option) None (served_by plain_echo no_surroundings)"
    by (auto simp: serves_def served_by_def split: option.split)
  ultimately show ?thesis
    using remote_call_is_local [where h = plain_echo and u = no_surroundings and py = "None :: unit pydantic option" and hints = None
        and fetch = "served_by plain_echo no_surroundings" and q = echo_querier and kwargs = "[(''x'', PInt 7)]" and token = None
        and w = world0 and nq = ?nq and who = None and vp = "[(''x'', PStr ''7'')]" and out = "Inr (PStr ''7'')" and cons = True, OF _ _ _ _ refl _ v]
    by (auto simp: echo_querier_def net_auth_def plain_echo_def echo_handler_def check_authorized_def far_outcome_def wire_value_def
        is_error_payload_def json_serializer_def)
qed

end
