(* ===== verification/Stream.thy ===== *)
theory Stream
  imports Remote
begin

text \<open>
  Streams: the handler that answers one query with many replies (\<open>primitives/stream.py\<close>) and the
  consumer of them, \<open>stream_query\<close> of \<open>app/streaming.py\<close>. An asynchronous generator is a tree: what
  it does when resumed is a function of the world, which may have changed meanwhile. Sending a reply
  is an argument.
\<close>

section \<open>Generators\<close>

text \<open>\<open>Yield v next close\<close>: \<open>next\<close> resumes it, \<open>close\<close> is \<open>aclose()\<close>, which runs its \<open>finally\<close> blocks.\<close>

datatype 'w generator =
    Finish
  | Fail exc
  | Yield pyval "'w \<Rightarrow> 'w generator \<times> 'w" "('w, unit) act"

text \<open>\<open>async for chunk in agen: reply(serialize(chunk))\<close>, \<open>finally: await agen.aclose()\<close>.\<close>

definition finally_close :: "('w, unit) act \<Rightarrow> exc \<Rightarrow> ('w, unit) act" where
  "finally_close close e w = (case close w of (Inl e', w') \<Rightarrow> (Inl e', w') | (Inr _, w') \<Rightarrow> (Inl e, w'))"

primrec drive :: "(pyval \<Rightarrow> exc + bytes) \<Rightarrow> (bytes \<Rightarrow> ('w, unit) act) \<Rightarrow> 'w generator \<Rightarrow> ('w, unit) act" where
  "drive serialize reply Finish = act_return ()"
| "drive serialize reply (Fail e) = act_raise e"
| "drive serialize reply (Yield v next close) =
     (\<lambda>w. case act_bind (act_of (serialize v)) reply w of
            (Inl e, w1) \<Rightarrow> finally_close close e w1
          | (Inr _, w1) \<Rightarrow> (case (map_prod (drive serialize reply) id \<circ> next) w1 of (rest, w2) \<Rightarrow> rest w2))"

section \<open>The handler\<close>

record 'u streamer =
  sm_sig :: "param list"
  sm_func :: "(string, pyval) dict \<Rightarrow> 'u world \<Rightarrow> 'u world generator \<times> 'u world"
  sm_prefix :: string
  sm_serialize :: "pyval \<Rightarrow> exc + bytes"
  sm_authorizer :: "authorizer option"
  sm_middleware :: "'u middleware list option"
  sm_registry :: registry
  sm_overrides :: "(string, string) dict"
  sm_db :: pyval

text \<open>\<open>is_generator\<close>: whether the function yields.\<close>

definition streamer_init :: "bool \<Rightarrow> registry option \<Rightarrow> 'u streamer \<Rightarrow> 'u streamer res" where
  "streamer_init is_generator reg s =
     (if \<not> is_generator then Inl (TypeError ''@stream requires an async generator function'')
      else Inr (s\<lparr>sm_registry := (case reg of None \<Rightarrow> default_registry | Some r \<Rightarrow> r)\<rparr>))"

text \<open>\<open>ctx\<close> is the current context, which gives the reply its correlation id.\<close>

definition reply_error :: "'u streamer \<Rightarrow> (bytes \<Rightarrow> ('u world, unit) act) \<Rightarrow> exc \<Rightarrow> ('u world, unit) act" where
  "reply_error s reply e w =
     (let cid = (case w_context w of None \<Rightarrow> PNone | Some c \<Rightarrow> PStr (rc_correlation_id c))
      in swallow (act_bind (act_of (sm_serialize s (PDict (error_to_dict ((resolve (sm_registry s) e)\<lparr>er_correlation_id := cid\<rparr>))))) reply) w)"

definition run_stream :: "'u streamer \<Rightarrow> (bytes \<Rightarrow> ('u world, unit) act) \<Rightarrow> (string, pyval) dict \<Rightarrow> ('u world, unit) act" where
  "run_stream s reply kw w = (case sm_func s kw w of (g, w1) \<Rightarrow> drive (sm_serialize s) reply g w1)"

definition stream_scope :: "'u streamer \<Rightarrow> 'u surroundings \<Rightarrow> (string, pyval) dict \<Rightarrow> principal request_context \<Rightarrow> request_scope" where
  "stream_scope s u params ctx =
     \<lparr>s_prefix = sm_prefix s, s_operation = ''stream'', s_params = params,
      s_context = (default_context (u_uuid u))\<lparr>rc_principal := rc_principal ctx, rc_attachment := rc_attachment ctx,
        rc_correlation_id := rc_correlation_id ctx, rc_traceparent := rc_traceparent ctx\<rparr>\<rparr>"

definition stream_body :: "'u streamer \<Rightarrow> 'u surroundings \<Rightarrow> (bytes \<Rightarrow> ('u world, unit) act) \<Rightarrow> (string, pyval) dict
    \<Rightarrow> principal request_context \<Rightarrow> (string, pyval) dict \<Rightarrow> ('u world, pyval) act" where
  "stream_body s u reply params ctx kw =
     (let once = act_bind (run_stream s reply kw) (\<lambda>_. act_return PNone)
      in case sm_middleware s of
           None \<Rightarrow> once
         | Some ms \<Rightarrow> invoke_stack ms (stream_scope s u params ctx) (\<lambda>_. once))"

text \<open>The body inside its exit stack, with the dependencies that are to be resolved.\<close>

definition stream_with_deps :: "'u streamer \<Rightarrow> 'u surroundings \<Rightarrow> (bytes \<Rightarrow> ('u world, unit) act) \<Rightarrow> (string, pyval) dict
    \<Rightarrow> principal request_context \<Rightarrow> (string, pyval) dict \<Rightarrow> 'u world \<Rightarrow> ((exc + pyval) \<times> 'u world) option" where
  "stream_with_deps s u reply params ctx validated w =
     (let kw = (if inject_db (sm_sig s) then AList.update ''db'' (sm_db s) validated else validated)
      in if depends_params (sm_sig s) \<noteq> {}
         then Option.bind
           (resolve_params (u_callables u) (sm_overrides s) kw [] {} (sm_sig s) [] \<lparr>d_stack = [], d_cache = [], d_world = w\<rparr>)
           (\<lambda>(r, st). Some
              (case r of
                 Inl e \<Rightarrow> close_stack (u_callables u) (d_stack st) (Inl e) (d_world st)
               | Inr kw' \<Rightarrow>
                   (case stream_body s u reply params ctx kw' (d_world st) of
                      (out, w') \<Rightarrow> close_stack (u_callables u) (d_stack st) out w')))
         else Some (stream_body s u reply params ctx kw w))"

definition stream_auth :: "'u streamer \<Rightarrow> net_query \<Rightarrow> exc + identity option" where
  "stream_auth s q = fst (check_authorized (sm_authorizer s)
     \<lparr>a_prefix = sm_prefix s, a_key_expr = nq_key q, a_params = net_params q,
      a_attachment = nq_attachment q, a_operation = ''stream'', a_principal = None\<rparr>)"

text \<open>What ends a query that failed: an exception is answered, a cancellation goes on.\<close>

definition end_with :: "'u streamer \<Rightarrow> (bytes \<Rightarrow> ('u world, unit) act) \<Rightarrow> exc \<Rightarrow> ('u world, unit) act" where
  "end_with s reply e w = (if is_exception e then reply_error s reply e w else (Inl e, w))"

definition on_stream :: "'u streamer \<Rightarrow> 'u surroundings \<Rightarrow> 't pydantic option \<Rightarrow> (string \<Rightarrow> 't option) option
    \<Rightarrow> (bytes \<Rightarrow> ('u world, unit) act) \<Rightarrow> net_query \<Rightarrow> 'u world \<Rightarrow> ((exc + unit) \<times> 'u world) option" where
  "on_stream s u py hints reply q w =
     (case stream_auth s q of
        Inl e \<Rightarrow> Some (end_with s reply e w)
      | Inr who \<Rightarrow>
          (let ctx = ingress_context (u_loads u) (u_uuid u) (sm_prefix s) ''stream'' (nq_attachment q)
                       (map_option (\<lambda>i. ObjPrincipal (PStr (p_id i))) who);
               params = map (\<lambda>(k, v). (k, PStr v)) (net_params q);
               w0 = w\<lparr>w_context := Some ctx\<rparr>;
               back = (\<lambda>(out, w'). (out, w'\<lparr>w_context := w_context w\<rparr>))
           in map_option back
                (case validate_params py hints (sm_sig s) params (injected_params (sm_sig s)) of
                   Inl e \<Rightarrow> Some (end_with s reply e w0)
                 | Inr vp \<Rightarrow>
                     map_option (\<lambda>(out, w'). case out of Inr _ \<Rightarrow> (Inr (), w') | Inl e \<Rightarrow> end_with s reply e (w'\<lparr>w_context := Some ctx\<rparr>))
                       (stream_with_deps s u reply params ctx (AList.delete ''db'' vp) w0))))"

section \<open>The consumer\<close>

text \<open>The selector of \<open>stream_query\<close> and its attachment, which carries the token it is given.\<close>

definition stream_selector :: "(pyval \<Rightarrow> string) \<Rightarrow> string \<Rightarrow> (string, pyval) dict \<Rightarrow> string" where
  "stream_selector str key_expr params =
     (if params = [] then key_expr
      else key_expr @ ''?'' @ join '';'' (map (\<lambda>(k, v). quote k @ ''='' @ quote (str v)) params))"

text \<open>What the pump hands over: replies, at most one exception of the transport, then the end.\<close>

datatype item = Reply bytes | Broken exc | End

definition stream_error :: "pyval \<Rightarrow> exc" where
  "stream_error v =
     (case v of
        PDict d \<Rightarrow> (case error_from_payload d (PStr ''stream_error'') of Inl e \<Rightarrow> exc_of e | Inr e \<Rightarrow> raised e)
      | _ \<Rightarrow> attribute_error ''get'')"

text \<open>What is yielded of the items, and the exception that ends the iteration, if one does.\<close>

fun consume :: "(bytes \<Rightarrow> exc + pyval) \<Rightarrow> item list \<Rightarrow> pyval list \<times> exc option" where
  "consume deserialize [] = ([], None)"
| "consume deserialize (End # _) = ([], None)"
| "consume deserialize (Broken e # _) = ([], Some e)"
| "consume deserialize (Reply raw # rs) =
     (case deserialize raw of
        Inl e \<Rightarrow> ([], Some e)
      | Inr v \<Rightarrow>
          if is_error_payload v then ([], Some (stream_error v))
          else (case consume deserialize rs of (vs, x) \<Rightarrow> (v # vs, x)))"

text \<open>What the pump makes of a query: the good replies in order, and the exception if the transport raised one.\<close>

definition pumped :: "bytes list \<times> exc option \<Rightarrow> item list" where
  "pumped r = map Reply (fst r) @ (case snd r of None \<Rightarrow> [] | Some e \<Rightarrow> [Broken e]) @ [End]"

section \<open>From the generator to the consumer\<close>

text \<open>What a generator yields when each reply goes out, and the exception it ends with, if any. It sends
  nothing by itself.\<close>

inductive emits :: "(pyval \<Rightarrow> exc + bytes) \<Rightarrow> (bytes \<Rightarrow> ('w, unit) act) \<Rightarrow> ('w \<Rightarrow> bytes list)
    \<Rightarrow> 'w generator \<Rightarrow> 'w \<Rightarrow> pyval list \<Rightarrow> exc option \<Rightarrow> 'w \<Rightarrow> bool"
  for serialize reply sent where
  emits_finish: "emits serialize reply sent Finish w [] None w"
| emits_fail: "emits serialize reply sent (Fail e) w [] (Some e) w"
| emits_yield: "serialize v = Inr b \<Longrightarrow> reply b w = (Inr (), w1) \<Longrightarrow> next w1 = (g, w2) \<Longrightarrow> sent w2 = sent w1 \<Longrightarrow>
    emits serialize reply sent g w2 cs x w' \<Longrightarrow> emits serialize reply sent (Yield v next close) w (v # cs) x w'"

text \<open>\<open>query.reply\<close> puts one more reply on the wire; the context of a task is not on it.\<close>

definition reply_documented :: "(bytes \<Rightarrow> ('u world, unit) act) \<Rightarrow> ('u world \<Rightarrow> bytes list) \<Rightarrow> bool" where
  "reply_documented reply sent \<longleftrightarrow>
     (\<forall>b w. \<exists>w'. reply b w = (Inr (), w') \<and> sent w' = sent w @ [b] \<and> w_context w' = w_context w)
     \<and> (\<forall>w c. sent (w\<lparr>w_context := c\<rparr>) = sent w)"

text \<open>Middlewares that change the scope only.\<close>

definition transparent :: "'u middleware \<Rightarrow> bool" where
  "transparent m \<longleftrightarrow> (\<exists>f. \<forall>sc nxt. m sc nxt = nxt (f sc))"

lemma correlation_transparent: "transparent (correlation_id_middleware uuid)"
  unfolding transparent_def
  by (intro exI [of _ "\<lambda>sc. if rc_correlation_id (s_context sc) = []
      then sc\<lparr>s_context := (s_context sc)\<lparr>rc_correlation_id := uuid\<rparr>\<rparr> else sc"]) (simp add: correlation_id_middleware_def)

lemma drive_emits:
  "emits serialize reply sent g w cs x w' \<Longrightarrow> reply_documented reply sent \<Longrightarrow>
    drive serialize reply g w = (case x of None \<Rightarrow> Inr () | Some e \<Rightarrow> Inl e, w')
    \<and> (\<exists>bs. map serialize cs = map Inr bs \<and> sent w' = sent w @ bs)"
proof (induction rule: emits.induct)
  case (emits_yield v b w w1 "next" g w2 cs x w' close)
  have "sent w1 = sent w @ [b]"
    using emits_yield.hyps(2) emits_yield.prems unfolding reply_documented_def by (metis prod.inject)
  moreover obtain bs where "map serialize cs = map Inr bs" "sent w' = sent w2 @ bs" using emits_yield by blast
  ultimately have "map serialize (v # cs) = map Inr (b # bs) \<and> sent w' = sent w @ b # bs"
    using emits_yield.hyps by simp
  then show ?case using emits_yield by (auto simp: act_bind_def act_of_def simp del: map_eq_Cons_conv list.map)
qed (simp_all add: act_return_def act_raise_def)

lemma with_context_twice [simp]: "with_context c (with_context c' m) = with_context c' m"
  by (simp add: with_context_def fun_eq_iff split: prod.split)

lemma transparent_stack:
  "\<forall>m\<in>set ms. transparent m \<Longrightarrow> \<exists>c. with_context c0 (dispatch ms (\<lambda>_. m) sc) = with_context c m"
proof (induction ms arbitrary: c0 sc)
  case (Cons m1 ms)
  obtain f where f: "\<And>sc nxt. m1 sc nxt = nxt (f sc)" using Cons.prems by (auto simp: transparent_def)
  show ?case using Cons.IH [of "s_context (stamped (f (stamped sc)))" "f (stamped sc)"] Cons.prems by (simp add: f)
qed (use with_context_twice in auto)

lemma stream_body_runs:
  assumes "\<forall>ms. sm_middleware s = Some ms \<longrightarrow> (\<forall>m\<in>set ms. transparent m)" "w_context w = Some ctx"
  shows "\<exists>c. stream_body s u reply params ctx kw w =
    (case run_stream s reply kw (w\<lparr>w_context := Some c\<rparr>) of
       (out, w') \<Rightarrow> (map_sum id (\<lambda>_. PNone) out, if sm_middleware s = None then w' else w'\<lparr>w_context := Some ctx\<rparr>))"
proof (cases "sm_middleware s")
  case None
  have "w\<lparr>w_context := Some ctx\<rparr> = w" using assms(2) by simp
  then show ?thesis using None
    by (intro exI [of _ ctx]) (auto simp: stream_body_def act_bind_def act_return_def split: prod.split sum.split)
next
  case (Some ms)
  let ?once = "act_bind (run_stream s reply kw) (\<lambda>_. act_return PNone)"
  obtain c where "invoke_stack ms (stream_scope s u params ctx) (\<lambda>_. ?once) = with_context c ?once"
    using transparent_stack [of ms] assms(1) Some unfolding invoke_stack_def by blast
  then show ?thesis using Some assms(2)
    by (intro exI [of _ c]) (auto simp: stream_body_def with_context_def act_bind_def act_return_def split: prod.split sum.split)
qed

lemma consume_chunks:
  "\<forall>v\<in>set cs. \<not> is_error_payload v \<Longrightarrow> map deserialize bs = map Inr cs \<Longrightarrow>
    consume deserialize (map Reply bs @ rest) = (case consume deserialize rest of (vs, x) \<Rightarrow> (cs @ vs, x))"
proof (induction cs arbitrary: bs)
  case (Cons v cs)
  then obtain b bs' where "bs = b # bs'" by (cases bs) auto
  then show ?case using Cons by (auto split: prod.splits)
qed simp

definition stream_context :: "'u streamer \<Rightarrow> 'u surroundings \<Rightarrow> net_query \<Rightarrow> identity option \<Rightarrow> principal request_context" where
  "stream_context s u q who =
     ingress_context (u_loads u) (u_uuid u) (sm_prefix s) ''stream'' (nq_attachment q) (map_option (\<lambda>i. ObjPrincipal (PStr (p_id i))) who)"

definition stream_kwargs :: "'u streamer \<Rightarrow> (string, pyval) dict \<Rightarrow> (string, pyval) dict" where
  "stream_kwargs s vp =
     (let v = AList.delete ''db'' vp in if inject_db (sm_sig s) then AList.update ''db'' (sm_db s) v else v)"

text \<open>The generator of the handler, in any request context, yields these chunks and ends so.\<close>

definition generates :: "'u streamer \<Rightarrow> (bytes \<Rightarrow> ('u world, unit) act) \<Rightarrow> ('u world \<Rightarrow> bytes list) \<Rightarrow> (string, pyval) dict
    \<Rightarrow> 'u world \<Rightarrow> pyval list \<Rightarrow> exc option \<Rightarrow> bool" where
  "generates s reply sent kw w cs x \<longleftrightarrow>
     (\<forall>c. \<exists>g w1 w'. sm_func s kw (w\<lparr>w_context := c\<rparr>) = (g, w1) \<and> sent w1 = sent w
        \<and> emits (sm_serialize s) reply sent g w1 cs x w')"

text \<open>The dictionary that answers an exception.\<close>

definition error_value :: "'u streamer \<Rightarrow> string \<Rightarrow> exc \<Rightarrow> pyval" where
  "error_value s cid e = PDict (error_to_dict ((resolve (sm_registry s) e)\<lparr>er_correlation_id := PStr cid\<rparr>))"

lemma on_stream_sends:
  assumes doc: "reply_documented reply sent"
    and mw: "\<forall>ms. sm_middleware s = Some ms \<longrightarrow> (\<forall>m\<in>set ms. transparent m)"
    and auth: "stream_auth s q = Inr who"
    and valid: "validate_params py hints (sm_sig s) (map (\<lambda>(k, v). (k, PStr v)) (net_params q)) (injected_params (sm_sig s)) = Inr vp"
    and deps: "depends_params (sm_sig s) = {}"
    and gen: "generates s reply sent (stream_kwargs s vp) w cs x"
    and err: "\<forall>e. x = Some e \<longrightarrow> is_exception e \<and> sm_serialize s (error_value s (rc_correlation_id (stream_context s u q who)) e) = Inr eb"
  shows "\<exists>w' bs. on_stream s u py hints reply q w = Some (Inr (), w') \<and> w_context w' = w_context w
    \<and> map (sm_serialize s) cs = map Inr bs \<and> sent w' = sent w @ bs @ (case x of None \<Rightarrow> [] | Some e \<Rightarrow> [eb])"
proof -
  let ?ctx = "stream_context s u q who" and ?kw = "stream_kwargs s vp"
  let ?w0 = "w\<lparr>w_context := Some ?ctx\<rparr>"
  obtain c where b: "stream_body s u reply (map (\<lambda>(k, v). (k, PStr v)) (net_params q)) ?ctx ?kw ?w0 =
      (case run_stream s reply ?kw (?w0\<lparr>w_context := Some c\<rparr>) of
         (out, w') \<Rightarrow> (map_sum id (\<lambda>_. PNone) out, if sm_middleware s = None then w' else w'\<lparr>w_context := Some ?ctx\<rparr>))"
    using stream_body_runs [OF mw, of ?w0] by fastforce
  obtain g w1 w2 where g: "sm_func s ?kw (w\<lparr>w_context := Some c\<rparr>) = (g, w1)" "sent w1 = sent w"
      "emits (sm_serialize s) reply sent g w1 cs x w2"
    using gen unfolding generates_def by blast
  obtain bs where bs: "drive (sm_serialize s) reply g w1 = (case x of None \<Rightarrow> Inr () | Some e \<Rightarrow> Inl e, w2)"
      "map (sm_serialize s) cs = map Inr bs" "sent w2 = sent w @ bs"
    using drive_emits [OF g(3) doc] g(2) by auto
  have sctx: "sent (w\<lparr>w_context := d\<rparr>) = sent w" for w d using doc unfolding reply_documented_def by blast
  let ?w3 = "if sm_middleware s = None then w2 else w2\<lparr>w_context := Some ?ctx\<rparr>"
  have r: "stream_with_deps s u reply (map (\<lambda>(k, v). (k, PStr v)) (net_params q)) ?ctx (AList.delete ''db'' vp) ?w0
      = Some (case x of None \<Rightarrow> Inr PNone | Some e \<Rightarrow> Inl e, ?w3)"
    using b g(1) bs(1) deps
    by (cases x) (simp_all add: stream_with_deps_def Let_def stream_kwargs_def run_stream_def)
  have s3: "sent ?w3 = sent w @ bs" using bs(3) sctx by simp
  show ?thesis
  proof (cases x)
    case None
    then show ?thesis using r auth valid s3 bs(2) sctx
      by (simp add: on_stream_def Let_def flip: stream_context_def)
  next
    case (Some e)
    let ?w4 = "?w3\<lparr>w_context := Some ?ctx\<rparr>"
    obtain w5 where w5: "reply eb ?w4 = (Inr (), w5)" "sent w5 = sent ?w4 @ [eb]"
      using doc unfolding reply_documented_def by blast
    have "end_with s reply e ?w4 = (Inr (), w5)"
      using err Some w5(1)
      by (simp add: end_with_def reply_error_def Let_def error_value_def act_bind_def act_of_def swallow_def)
    then show ?thesis using r auth valid s3 bs(2) sctx w5(2) Some
      by (simp add: on_stream_def Let_def flip: stream_context_def)
  qed
qed

lemma stream_coded:
  assumes "map_of CODE_TO_ERROR code = Some mk" "sm_registry s = default_registry" "cid \<noteq> []"
  shows "stream_error (error_value s cid (raised (mk m d PNone))) = raised (mk m d (PStr cid))"
proof -
  have "(code, mk) \<in> set CODE_TO_ERROR" using assms(1) by (rule map_of_SomeD)
  then have "e_code (mk m d PNone) = PStr code \<and> e_message (mk m d PNone) = m \<and> e_details (mk m d PNone) = d"
    by (auto simp: CODE_TO_ERROR_def coded_errors)
  then show ?thesis using assms by (simp add: stream_error_def error_value_def resolve_default rebuilt_code)
qed

text \<open>C25: A consumer sees what the handler's generator yields: every chunk, once and in order, and then the
  end, or the error the generator raised, as an error of the same class when it has a wire code.\<close>

theorem stream_end_to_end:
  assumes "reply_documented reply sent"
    and "\<forall>ms. sm_middleware s = Some ms \<longrightarrow> (\<forall>m\<in>set ms. transparent m)"
    and "stream_auth s q = Inr who"
    and "validate_params py hints (sm_sig s) (map (\<lambda>(k, v). (k, PStr v)) (net_params q)) (injected_params (sm_sig s)) = Inr vp"
    and "depends_params (sm_sig s) = {}"
    and "generates s reply sent (stream_kwargs s vp) w cs x"
    and "\<forall>v\<in>set cs. \<not> is_error_payload v \<and> (\<forall>b. sm_serialize s v = Inr b \<longrightarrow> deserialize b = Inr v)"
    and "cid = rc_correlation_id (stream_context s u q who)"
    and "\<forall>e. x = Some e \<longrightarrow> is_exception e
          \<and> (\<exists>eb. sm_serialize s (error_value s cid e) = Inr eb \<and> deserialize eb = Inr (error_value s cid e))"
  shows "\<exists>w'. on_stream s u py hints reply q w = Some (Inr (), w') \<and> w_context w' = w_context w
    \<and> consume deserialize (pumped (drop (length (sent w)) (sent w'), None))
        = (cs, case x of None \<Rightarrow> None | Some e \<Rightarrow> Some (stream_error (error_value s cid e)))
    \<and> (\<forall>code mk m d. map_of CODE_TO_ERROR code = Some mk \<and> x = Some (raised (mk m d PNone))
          \<and> sm_registry s = default_registry \<and> cid \<noteq> [] \<longrightarrow>
        stream_error (error_value s cid (the x)) = raised (mk m d (PStr cid)))"
proof -
  obtain eb where eb: "\<forall>e. x = Some e \<longrightarrow> is_exception e \<and> sm_serialize s (error_value s cid e) = Inr eb \<and> deserialize eb = Inr (error_value s cid e)"
    using assms(9) by (cases x) auto
  obtain w' bs where w': "on_stream s u py hints reply q w = Some (Inr (), w')" "w_context w' = w_context w"
      "map (sm_serialize s) cs = map Inr bs" "sent w' = sent w @ bs @ (case x of None \<Rightarrow> [] | Some e \<Rightarrow> [eb])"
    using on_stream_sends [OF assms(1-6), of u eb] eb unfolding assms(8) by blast
  have "map deserialize bs = map Inr cs"
    using w'(3) assms(7) by (intro nth_equalityI) (auto simp: list_eq_iff_nth_eq)
  then have "consume deserialize (pumped (bs @ (case x of None \<Rightarrow> [] | Some e \<Rightarrow> [eb]), None))
      = (cs, case x of None \<Rightarrow> None | Some e \<Rightarrow> Some (stream_error (error_value s cid e)))"
    using consume_chunks [of cs deserialize bs] assms(7) eb
    by (cases x) (simp_all add: pumped_def error_value_def)
  moreover have "stream_error (error_value s cid (the x)) = raised (mk m d (PStr cid))"
    if "map_of CODE_TO_ERROR code = Some mk" "x = Some (raised (mk m d PNone))" "sm_registry s = default_registry" "cid \<noteq> []"
    for code mk m d
    using stream_coded [OF that(1,3,4)] that(2) by simp
  ultimately show ?thesis using w' by auto
qed

definition wire_surroundings :: "bytes list surroundings" where
  "wire_surroundings = \<lparr>u_callables = \<lparr>f_sig = (\<lambda>_. []), f_call = (\<lambda>_ _. act_return PNone),
       f_yields = (\<lambda>_. False), f_exit = (\<lambda>_ e w. (e, w))\<rparr>,
     u_sha256 = (\<lambda>s. s), u_dumps = (\<lambda>_. ''{}''), u_loads = (\<lambda>_. Inl (ValueError [])), u_str = (\<lambda>_. []),
     u_t1 = 0, u_t2 = 0, u_t3 = 0, u_t4 = 0, u_uuid = ''u'', u_draws = (\<lambda>_. 0)\<rparr>"

definition gone :: exc where
  "gone = raised (not_found_error (PStr ''gone'') PNone PNone)"

definition count_down :: "bytes list streamer" where
  "count_down = \<lparr>sm_sig = [],
     sm_func = (\<lambda>kw w. (Yield (PInt 2) (\<lambda>w. (Yield (PInt 1) (\<lambda>w. (Fail gone, w)) (act_return ()), w)) (act_return ()), w)),
     sm_prefix = ''count'', sm_serialize = (\<lambda>v. Inr (case v of PInt n \<Rightarrow> [of_int n] | _ \<Rightarrow> [0])),
     sm_authorizer = None, sm_middleware = Some [correlation_id_middleware ''u''], sm_registry = default_registry,
     sm_overrides = [], sm_db = PNone\<rparr>"

definition count_deserialize :: "bytes \<Rightarrow> exc + pyval" where
  "count_deserialize b = (if b = [2] then Inr (PInt 2) else if b = [1] then Inr (PInt 1) else Inr (error_value count_down ''u'' gone))"

lemma stream_end_to_end_witness:
  "\<exists>w'. on_stream count_down wire_surroundings (None :: unit pydantic option) None
       (\<lambda>b w. (Inr (), w\<lparr>w_user := w_user w @ [b]\<rparr>)) \<lparr>nq_key = ''count'', nq_params = [], nq_attachment = None\<rparr>
       \<lparr>w_context = None, w_user = []\<rparr> = Some (Inr (), w')
     \<and> consume count_deserialize (pumped (w_user w', None))
        = ([PInt 2, PInt 1], Some (raised (not_found_error (PStr ''gone'') PNone (PStr ''u''))))"
proof -
  let ?reply = "\<lambda>b w. (Inr (), w\<lparr>w_user := w_user w @ [b]\<rparr>) :: (exc + unit) \<times> bytes list world"
  let ?q = "\<lparr>nq_key = ''count'', nq_params = [], nq_attachment = None\<rparr>" and ?w = "\<lparr>w_context = None, w_user = []\<rparr>"
  have gen: "generates count_down ?reply w_user (stream_kwargs count_down []) ?w [PInt 2, PInt 1] (Some gone)"
    unfolding generates_def count_down_def
    by (fastforce intro: emits_fail emits_yield)
  have doc: "reply_documented ?reply w_user" by (simp add: reply_documented_def)
  have mw: "\<forall>ms. sm_middleware count_down = Some ms \<longrightarrow> (\<forall>m\<in>set ms. transparent m)"
    by (simp add: count_down_def correlation_transparent)
  have auth: "stream_auth count_down ?q = Inr None" by (simp add: stream_auth_def count_down_def check_authorized_def)
  have valid: "validate_params (None :: unit pydantic option) None (sm_sig count_down) (map (\<lambda>(k, v). (k, PStr v)) (net_params ?q))
      (injected_params (sm_sig count_down)) = Inr []"
    by (simp add: validate_params_def net_params_def declared_params_def count_down_def Let_def)
  have deps: "depends_params (sm_sig count_down) = {}" by (simp add: count_down_def depends_params_def)
  have cid: "''u'' = rc_correlation_id (stream_context count_down wire_surroundings ?q None)"
    by (simp add: stream_context_def ingress_context_def from_attachment_def empty_envelope_def wire_surroundings_def
        sanitize_correlation_id_def)
  have err: "\<forall>e. Some gone = Some e \<longrightarrow> is_exception e \<and> (\<exists>eb. sm_serialize count_down (error_value count_down ''u'' e) = Inr eb
      \<and> count_deserialize eb = Inr (error_value count_down ''u'' e))"
    by (simp add: count_down_def error_value_def gone_def count_deserialize_def)
  have vals: "\<forall>v\<in>set [PInt 2, PInt 1]. \<not> is_error_payload v \<and> (\<forall>b. sm_serialize count_down v = Inr b \<longrightarrow> count_deserialize b = Inr v)"
    by (auto simp: is_error_payload_def count_down_def count_deserialize_def)
  have "stream_error (error_value count_down ''u'' gone) = raised (not_found_error (PStr ''gone'') PNone (PStr ''u''))"
    unfolding gone_def by (rule stream_coded [OF code_to_error(1)]) (simp_all add: count_down_def)
  then show ?thesis
    using stream_end_to_end [OF doc mw auth valid deps gen vals cid err] by auto
qed

end
