(* ===== verification/Bridge.thy ===== *)
theory Bridge
  imports Stream Runs
begin

text \<open>
  The bounded queue between the thread that pumps replies and the consumer (\<open>stream_query\<close> of
  \<open>app/streaming.py\<close>), as steps of two threads: the pump offers items and waits while the queue is
  full, the consumer takes them until the end or until it stops, and then drains and seals the queue.
\<close>

record bridge =
  br_queue :: "item list"
  br_todo :: "item list"
  br_taken :: "item list"
  br_stop :: bool
  br_displaced :: bool

definition fresh_bridge :: "item list \<Rightarrow> bridge" where
  "fresh_bridge items = \<lparr>br_queue = [], br_todo = items, br_taken = [], br_stop = False, br_displaced = False\<rparr>"

datatype bridge_event = Put | Dropped | Displaced | GaveUp | Taken item | Stopped | Drained | Sealed

text \<open>\<open>n\<close> is the size of the queue. The pump offers the head of its items (\<open>_offer\<close>): an item finds room,
  or once the consumer has stopped is dropped; the end makes room for itself, and gives up if the
  room is taken again.\<close>

inductive bridge_step :: "nat \<Rightarrow> bridge \<Rightarrow> bridge_event \<Rightarrow> bridge \<Rightarrow> bool" for n where
  offer_put: "br_todo b = x # xs \<Longrightarrow> length (br_queue b) < n \<Longrightarrow>
    bridge_step n b Put (b\<lparr>br_queue := br_queue b @ [x], br_todo := xs\<rparr>)"
| offer_drop: "br_todo b = x # xs \<Longrightarrow> length (br_queue b) \<ge> n \<Longrightarrow> br_stop b \<Longrightarrow> x \<noteq> End \<Longrightarrow>
    bridge_step n b Dropped (b\<lparr>br_todo := xs\<rparr>)"
| offer_displace: "br_todo b = End # xs \<Longrightarrow> length (br_queue b) \<ge> n \<Longrightarrow> br_stop b \<Longrightarrow> \<not> br_displaced b \<Longrightarrow>
    bridge_step n b Displaced (b\<lparr>br_queue := tl (br_queue b), br_displaced := True\<rparr>)"
| offer_give_up: "br_todo b = End # xs \<Longrightarrow> length (br_queue b) \<ge> n \<Longrightarrow> br_displaced b \<Longrightarrow>
    bridge_step n b GaveUp (b\<lparr>br_todo := xs\<rparr>)"
| take_item: "br_queue b = x # xs \<Longrightarrow> \<not> br_stop b \<Longrightarrow> End \<notin> set (br_taken b) \<Longrightarrow>
    bridge_step n b (Taken x) (b\<lparr>br_queue := xs, br_taken := br_taken b @ [x]\<rparr>)"
| leave: "bridge_step n b Stopped (b\<lparr>br_stop := True\<rparr>)"
| drain: "br_queue b = x # xs \<Longrightarrow> br_stop b \<Longrightarrow> bridge_step n b Drained (b\<lparr>br_queue := xs\<rparr>)"
| seal: "br_stop b \<Longrightarrow> length (br_queue b) < n \<Longrightarrow> bridge_step n b Sealed (b\<lparr>br_queue := br_queue b @ [End]\<rparr>)"

fun by_pump :: "bridge_event \<Rightarrow> bool" where
  "by_pump Put = True"
| "by_pump Dropped = True"
| "by_pump Displaced = True"
| "by_pump GaveUp = True"
| "by_pump e = False"

definition bridge_ok :: "nat \<Rightarrow> item list \<Rightarrow> bridge \<Rightarrow> bool" where
  "bridge_ok n items b \<longleftrightarrow>
     length (br_queue b) \<le> n \<and> (\<not> br_stop b \<longrightarrow> br_taken b @ br_queue b @ br_todo b = items @ [End])
     \<and> (\<exists>rest. items @ [End] = br_taken b @ rest)
     \<and> (br_displaced b \<longrightarrow> br_stop b)"

lemma bridge_ok_step: "bridge_step n b e b' \<Longrightarrow> bridge_ok n items b \<Longrightarrow> bridge_ok n items b'"
proof (induction rule: bridge_step.induct)
  case (take_item b x xs)
  then have "br_taken b @ (x # xs) @ br_todo b = items @ [End]" by (simp add: bridge_ok_def)
  then show ?case using take_item by (auto simp: bridge_ok_def)
qed (auto simp: bridge_ok_def)

text \<open>After the consumer has stopped, the pump ends by its own steps, however full the queue is.\<close>

lemma pump_ends:
  assumes "br_stop b" "n > 0" "length (br_queue b) \<le> n"
  shows "\<exists>tr b'. run (bridge_step n) b tr b' \<and> list_all by_pump tr \<and> br_todo b' = []"
  using assms
proof (induction "br_todo b" arbitrary: b)
  case Nil
  then show ?case by (intro exI [of _ "[]"] exI [of _ b]) (simp add: run_nil)
next
  case (Cons x xs)
  have one: "\<exists>tr b1. run (bridge_step n) b tr b1 \<and> list_all by_pump tr \<and> br_todo b1 = xs \<and> br_stop b1 \<and> length (br_queue b1) \<le> n"
  proof -
    consider (room) "length (br_queue b) < n" | (drop) "length (br_queue b) \<ge> n" "x \<noteq> End"
      | (full) "length (br_queue b) \<ge> n" "x = End" "br_displaced b" | (displace) "length (br_queue b) \<ge> n" "x = End" "\<not> br_displaced b"
      by fastforce
    then show ?thesis
    proof cases
      case room
      have "bridge_step n b Put (b\<lparr>br_queue := br_queue b @ [x], br_todo := xs\<rparr>)"
        by (rule offer_put) (use Cons.hyps(2) room in auto)
      from run_step [where step = "bridge_step n", OF run_nil this] show ?thesis
        using Cons.prems room by (intro exI [of _ "[Put]"] exI) auto
    next
      case drop
      have "bridge_step n b Dropped (b\<lparr>br_todo := xs\<rparr>)"
        by (rule offer_drop) (use Cons.hyps(2) Cons.prems drop in auto)
      from run_step [where step = "bridge_step n", OF run_nil this] show ?thesis
        using Cons.prems by (intro exI [of _ "[Dropped]"] exI) auto
    next
      case full
      have "bridge_step n b GaveUp (b\<lparr>br_todo := xs\<rparr>)"
        by (rule offer_give_up [where xs = xs]) (use Cons.hyps(2) full in auto)
      from run_step [where step = "bridge_step n", OF run_nil this] show ?thesis
        using Cons.prems by (intro exI [of _ "[GaveUp]"] exI) auto
    next
      case displace
      let ?b1 = "b\<lparr>br_queue := tl (br_queue b), br_displaced := True\<rparr>"
      have s1: "bridge_step n b Displaced ?b1"
        by (rule offer_displace [where xs = xs]) (use Cons.hyps(2) Cons.prems displace in auto)
      have "bridge_step n ?b1 Put (?b1\<lparr>br_queue := br_queue ?b1 @ [x], br_todo := xs\<rparr>)"
        by (rule offer_put) (use Cons.hyps(2) Cons.prems displace in auto)
      from run_step [where step = "bridge_step n", OF run_step [where step = "bridge_step n", OF run_nil s1] this] show ?thesis
        using Cons.prems displace by (intro exI [of _ "[Displaced, Put]"] exI) auto
    qed
  qed
  then obtain tr b1 where b1: "run (bridge_step n) b tr b1" "list_all by_pump tr" "br_todo b1 = xs" "br_stop b1" "length (br_queue b1) \<le> n"
    by blast
  obtain tr' b' where "run (bridge_step n) b1 tr' b'" "list_all by_pump tr'" "br_todo b' = []"
    using Cons.hyps(1) [OF b1(3) [symmetric] b1(4) Cons.prems(2) b1(5)] by blast
  then show ?case using run_append [OF _ b1(1)] b1(2) by (intro exI [of _ "tr @ tr'"] exI [of _ b']) auto
qed

text \<open>C26: Whatever the speeds of the two threads: the consumer takes the replies in the order they came and
  loses none while it reads, so one that reads to the end has read them all; the queue never holds more
  than its size; while the consumer reads, one of the two can go on; and once it has stopped, the pump
  ends without its help.\<close>

theorem bridge_delivers:
  assumes "run (bridge_step n) (fresh_bridge (items @ [End])) tr b" "n > 0" "End \<notin> set items"
  shows "length (br_queue b) \<le> n \<and> (\<exists>rest. items @ [End] = br_taken b @ rest)
    \<and> (End \<in> set (br_taken b) \<longrightarrow> br_taken b = items @ [End])
    \<and> (\<not> br_stop b \<and> End \<notin> set (br_taken b) \<longrightarrow> (\<exists>e b'. bridge_step n b e b' \<and> (by_pump e \<or> (\<exists>x. e = Taken x))))
    \<and> (br_stop b \<longrightarrow> (\<exists>tr' b'. run (bridge_step n) b tr' b' \<and> list_all by_pump tr' \<and> br_todo b' = []))"
proof -
  have "bridge_ok n items (fresh_bridge (items @ [End]))" by (simp add: bridge_ok_def fresh_bridge_def)
  then have ok: "bridge_ok n items b" by (rule run_invariant [OF assms(1)]) (rule bridge_ok_step)
  obtain rest where rest: "items @ [End] = br_taken b @ rest" using ok by (auto simp: bridge_ok_def)
  have "br_taken b = items @ [End]" if "End \<in> set (br_taken b)"
  proof (cases rest rule: rev_cases)
    case (snoc ys y)
    then have "items = br_taken b @ ys" using rest by simp
    then show ?thesis using that assms(3) by simp
  qed (use rest in simp)
  moreover have "\<exists>e b'. bridge_step n b e b' \<and> (by_pump e \<or> (\<exists>x. e = Taken x))"
    if "\<not> br_stop b" "End \<notin> set (br_taken b)"
  proof (cases "br_queue b")
    case Nil
    have "br_todo b \<noteq> []"
    proof
      assume "br_todo b = []"
      then have "br_taken b = items @ [End]" using ok that(1) Nil by (simp add: bridge_ok_def)
      then show False using that(2) by simp
    qed
    then obtain x xs where "br_todo b = x # xs" by (cases "br_todo b") auto
    then show ?thesis using offer_put [of b x xs n] Nil assms(2) by fastforce
  next
    case (Cons x xs)
    then show ?thesis using take_item [OF Cons that] by blast
  qed
  moreover have "\<exists>tr' b'. run (bridge_step n) b tr' b' \<and> list_all by_pump tr' \<and> br_todo b' = []" if "br_stop b"
    using pump_ends [OF that assms(2)] ok by (simp add: bridge_ok_def)
  ultimately show ?thesis using rest ok by (auto simp: bridge_ok_def)
qed

lemma bridge_delivers_witness:
  "\<exists>b. run (bridge_step 1) (fresh_bridge [Reply [7], End]) [Put, Stopped] b \<and> br_stop b
     \<and> (\<exists>tr' b'. run (bridge_step 1) b tr' b' \<and> list_all by_pump tr' \<and> br_todo b' = [])"
proof -
  let ?b0 = "fresh_bridge [Reply [7], End]"
  have s1: "bridge_step 1 ?b0 Put (?b0\<lparr>br_queue := [Reply [7]], br_todo := [End]\<rparr>)"
    using offer_put [of ?b0 "Reply [7]" "[End]" 1] by (simp add: fresh_bridge_def)
  have s2: "bridge_step 1 (?b0\<lparr>br_queue := [Reply [7]], br_todo := [End]\<rparr>) Stopped
      (?b0\<lparr>br_queue := [Reply [7]], br_todo := [End], br_stop := True\<rparr>)"
    using leave [of 1 "?b0\<lparr>br_queue := [Reply [7]], br_todo := [End]\<rparr>"] by simp
  let ?b = "?b0\<lparr>br_queue := [Reply [7]], br_todo := [End], br_stop := True\<rparr>"
  have r: "run (bridge_step 1) (fresh_bridge ([Reply [7]] @ [End])) [Put, Stopped] ?b"
    using run_step [where step = "bridge_step 1", OF run_step [where step = "bridge_step 1", OF run_nil s1] s2] by simp
  have stop: "br_stop ?b" by simp
  have "\<exists>tr' b'. run (bridge_step 1) ?b tr' b' \<and> list_all by_pump tr' \<and> br_todo b' = []"
    using bridge_delivers [OF r] stop by simp
  then show ?thesis using r by (intro exI [of _ ?b]) simp
qed

end
