(* ===== verification/Channel.thy ===== *)
theory Channel
  imports Stream Runs
begin

text \<open>
  Duplex channels: the handler's end of a session and the wrapper that runs a handler on it
  (\<open>primitives/channel.py\<close>), and the log of durable conversations (\<open>primitives/session_store.py\<close>)
  over any storage plugin. The transport feeds a session and takes what it sends; serializers, the
  clocks and the storage are arguments.
\<close>

section \<open>The conversation log\<close>

text \<open>What the log uses of a plugin: \<open>log(key, value)\<close>, \<open>get_log(key, limit)\<close>, newest first.\<close>

record 's conversation_log =
  cl_log :: "time \<Rightarrow> string \<Rightarrow> pyval \<Rightarrow> ('s, unit) act"
  cl_get_log :: "string \<Rightarrow> int \<Rightarrow> ('s, pyval list) act"

definition conv_key :: "string \<Rightarrow> string" where
  "conv_key conversation_id = ''conv:'' @ conversation_id"

definition turn_entry :: "string \<Rightarrow> pyval \<Rightarrow> time \<Rightarrow> pyval" where
  "turn_entry direction data ts = PDict [(''dir'', PStr direction), (''data'', data), (''ts'', PFloat ts)]"

definition append_turn :: "'s conversation_log \<Rightarrow> string \<Rightarrow> string \<Rightarrow> pyval \<Rightarrow> time \<Rightarrow> time \<Rightarrow> ('s, unit) act" where
  "append_turn st conversation_id direction data t t' = cl_log st t' (conv_key conversation_id) (turn_entry direction data t)"

definition past_turns :: "'s conversation_log \<Rightarrow> string \<Rightarrow> int \<Rightarrow> ('s, pyval list) act" where
  "past_turns st conversation_id limit =
     act_bind (cl_get_log st (conv_key conversation_id) limit) (\<lambda>entries. act_return (rev entries))"

text \<open>The log over the in-memory plugin.\<close>

definition memory_log :: "ledger conversation_log" where
  "memory_log =
     \<lparr>cl_log = (\<lambda>t k v l. (Inr (), log_event t k v None l)),
      cl_get_log = (\<lambda>k limit l. (Inr (map l_value (get_log k limit l)), l))\<rparr>"

section \<open>Sessions\<close>

datatype inbound = Message bytes | CloseMark

record session =
  cs_inbound :: "inbound list"
  cs_closed :: bool
  cs_principal :: "identity option"
  cs_correlation_id :: "string option"
  cs_attachment :: "bytes option"
  cs_durable :: bool
  cs_conversation_id :: "string option"

definition new_session :: "identity option \<Rightarrow> bytes option \<Rightarrow> bool \<Rightarrow> string option \<Rightarrow> session" where
  "new_session who attachment durable conversation_id =
     \<lparr>cs_inbound = [], cs_closed = False, cs_principal = who, cs_correlation_id = None,
      cs_attachment = attachment, cs_durable = durable, cs_conversation_id = conversation_id\<rparr>"

text \<open>The conversation that is logged: \<open>_store\<close> and \<open>_conversation_id\<close> are both set.\<close>

definition logged_as :: "session \<Rightarrow> string option" where
  "logged_as s = (if cs_durable s then cs_conversation_id s else None)"

definition remember :: "'s conversation_log \<Rightarrow> session \<Rightarrow> string \<Rightarrow> pyval \<Rightarrow> time \<Rightarrow> time \<Rightarrow> ('s, unit) act" where
  "remember st s direction data t t' =
     (case logged_as s of None \<Rightarrow> act_return () | Some c \<Rightarrow> append_turn st c direction data t t')"

definition session_history :: "'s conversation_log \<Rightarrow> session \<Rightarrow> int \<Rightarrow> ('s, pyval list) act" where
  "session_history st s limit =
     (case logged_as s of None \<Rightarrow> act_return [] | Some c \<Rightarrow> past_turns st c limit)"

definition channel_closed :: "string \<Rightarrow> exc" where
  "channel_closed = builtin_exc [''ChannelClosed'']"

definition session_send :: "(pyval \<Rightarrow> exc + bytes) \<Rightarrow> (bytes \<Rightarrow> ('s, unit) act) \<Rightarrow> 's conversation_log \<Rightarrow> time \<Rightarrow> time
    \<Rightarrow> session \<Rightarrow> pyval \<Rightarrow> ('s, unit) act" where
  "session_send serialize sink st t t' s data =
     (if cs_closed s then act_raise (channel_closed ''channel is closed'')
      else act_bind (act_of (serialize data)) (\<lambda>raw.
           act_bind (sink raw) (\<lambda>_. remember st s ''out'' data t t')))"

text \<open>\<open>receive\<close>: \<open>None\<close> while the queue is empty and the handler waits. The mark is put back, so every
  later call is closed too.\<close>

definition session_receive :: "(bytes \<Rightarrow> exc + pyval) \<Rightarrow> 's conversation_log \<Rightarrow> time \<Rightarrow> time
    \<Rightarrow> session \<Rightarrow> 's \<Rightarrow> ((exc + pyval) \<times> session \<times> 's) option" where
  "session_receive deserialize st t t' s w =
     (case cs_inbound s of
        [] \<Rightarrow> None
      | CloseMark # q \<Rightarrow> Some (Inl (channel_closed []), s\<lparr>cs_inbound := q @ [CloseMark]\<rparr>, w)
      | Message raw # q \<Rightarrow>
          (case act_bind (act_of (deserialize raw)) (\<lambda>data.
                act_bind (remember st s ''in'' data t t') (\<lambda>_. act_return data)) w of
             (out, w') \<Rightarrow> Some (out, s\<lparr>cs_inbound := q\<rparr>, w')))"

text \<open>\<open>async for\<close>: the closed session ends the loop.\<close>

definition session_next :: "(bytes \<Rightarrow> exc + pyval) \<Rightarrow> 's conversation_log \<Rightarrow> time \<Rightarrow> time
    \<Rightarrow> session \<Rightarrow> 's \<Rightarrow> ((exc + pyval) \<times> session \<times> 's) option" where
  "session_next deserialize st t t' s w =
     map_option (\<lambda>(out, r). (case out of
         Inl e \<Rightarrow> if ''ChannelClosed'' \<in> set (x_mro e) then Inl (builtin_exc [''StopAsyncIteration''] []) else Inl e
       | Inr v \<Rightarrow> Inr v, r)) (session_receive deserialize st t t' s w)"

definition feed :: "bytes \<Rightarrow> session \<Rightarrow> session" where
  "feed raw s = (if cs_closed s then s else s\<lparr>cs_inbound := cs_inbound s @ [Message raw]\<rparr>)"

definition close_session :: "session \<Rightarrow> session" where
  "close_session s = (if cs_closed s then s else s\<lparr>cs_closed := True, cs_inbound := cs_inbound s @ [CloseMark]\<rparr>)"

section \<open>The wrapper\<close>

record 'u channel =
  cw_sig :: "param list"
  cw_func :: "session \<Rightarrow> (string, pyval) dict \<Rightarrow> ('u world, unit) act"
  cw_prefix :: string
  cw_durable :: bool
  cw_authorizer :: "authorizer option"
  cw_middleware :: "'u middleware list option"
  cw_overrides :: "(string, string) dict"
  cw_db :: pyval

definition channel_init :: "bool \<Rightarrow> 'u channel \<Rightarrow> 'u channel res" where
  "channel_init is_coroutine c =
     (if \<not> is_coroutine then Inl (TypeError ''@channel requires an async function'') else Inr c)"

definition session_param :: "param list \<Rightarrow> string" where
  "session_param sig = (case sig of [] \<Rightarrow> ''session'' | p # _ \<Rightarrow> pr_name p)"

definition channel_injected :: "param list \<Rightarrow> string set" where
  "channel_injected sig =
     depends_params sig \<union> {session_param sig} \<union> (if inject_db (tl sig) then {''db''} else {})"

definition channel_authorize :: "'u channel \<Rightarrow> bytes option \<Rightarrow> (string, string) dict \<Rightarrow> exc + identity option" where
  "channel_authorize c attachment params = fst (check_authorized (cw_authorizer c)
     \<lparr>a_prefix = cw_prefix c, a_key_expr = cw_prefix c, a_params = params,
      a_attachment = attachment, a_operation = ''channel'', a_principal = None\<rparr>)"

definition channel_scope :: "'u channel \<Rightarrow> 'u surroundings \<Rightarrow> (string, pyval) dict \<Rightarrow> principal request_context \<Rightarrow> request_scope" where
  "channel_scope c u params ctx =
     \<lparr>s_prefix = cw_prefix c, s_operation = ''channel'', s_params = params,
      s_context = (default_context (u_uuid u))\<lparr>rc_principal := rc_principal ctx, rc_attachment := rc_attachment ctx,
        rc_correlation_id := rc_correlation_id ctx, rc_traceparent := rc_traceparent ctx\<rparr>\<rparr>"

text \<open>The middleware wraps the whole session.\<close>

definition drive_session :: "'u channel \<Rightarrow> 'u surroundings \<Rightarrow> session \<Rightarrow> (string, pyval) dict
    \<Rightarrow> principal request_context \<Rightarrow> (string, pyval) dict \<Rightarrow> ('u world, pyval) act" where
  "drive_session c u s params ctx kw =
     (let body = act_bind (cw_func c s kw) (\<lambda>_. act_return PNone)
      in case cw_middleware c of
           None \<Rightarrow> body
         | Some ms \<Rightarrow> invoke_stack ms (channel_scope c u params ctx) (\<lambda>_. body))"

definition session_with_deps :: "'u channel \<Rightarrow> 'u surroundings \<Rightarrow> pyval \<Rightarrow> session \<Rightarrow> (string, pyval) dict
    \<Rightarrow> principal request_context \<Rightarrow> (string, pyval) dict \<Rightarrow> 'u world \<Rightarrow> ((exc + pyval) \<times> 'u world) option" where
  "session_with_deps c u handle s params ctx validated w =
     (let kw0 = (session_param (cw_sig c), handle) # validated;
          kw = (if inject_db (tl (cw_sig c)) then AList.update ''db'' (cw_db c) kw0 else kw0)
      in if depends_params (cw_sig c) \<noteq> {}
         then Option.bind
           (resolve_params (u_callables u) (cw_overrides c) kw [] {} (cw_sig c) [] \<lparr>d_stack = [], d_cache = [], d_world = w\<rparr>)
           (\<lambda>(r, st). Some
              (case r of
                 Inl e \<Rightarrow> close_stack (u_callables u) (d_stack st) (Inl e) (d_world st)
               | Inr kw' \<Rightarrow>
                   (case drive_session c u s params ctx kw' (d_world st) of
                      (out, w') \<Rightarrow> close_stack (u_callables u) (d_stack st) out w')))
         else Some (drive_session c u s params ctx kw w))"

text \<open>\<open>run\<close>: \<open>given\<close> is the identity of a session that was authorized when it was opened. \<open>handle\<close> is
  the session as a value.\<close>

definition channel_run :: "'u channel \<Rightarrow> 'u surroundings \<Rightarrow> 't pydantic option \<Rightarrow> (string \<Rightarrow> 't option) option
    \<Rightarrow> pyval \<Rightarrow> session \<Rightarrow> bytes option \<Rightarrow> (string, string) dict \<Rightarrow> identity option option
    \<Rightarrow> 'u world \<Rightarrow> ((exc + unit) \<times> 'u world) option" where
  "channel_run c u py hints handle s attachment params given w =
     (case (case given of None \<Rightarrow> channel_authorize c attachment params | Some who \<Rightarrow> Inr who) of
        Inl e \<Rightarrow> Some (Inl e, w)
      | Inr who \<Rightarrow>
          (let ctx = ingress_context (u_loads u) (u_uuid u) (cw_prefix c) ''channel'' attachment
                       (map_option (\<lambda>i. ObjPrincipal (PStr (p_id i))) who);
               s1 = s\<lparr>cs_principal := who, cs_correlation_id := Some (rc_correlation_id ctx)\<rparr>;
               given_params = map (\<lambda>(k, v). (k, PStr v)) params;
               w0 = w\<lparr>w_context := Some ctx\<rparr>;
               back = (\<lambda>(out, w'). (map_sum id (\<lambda>_. ()) out, w'\<lparr>w_context := w_context w\<rparr>))
           in map_option back
                (case validate_params py hints (cw_sig c) given_params (channel_injected (cw_sig c)) of
                   Inl e \<Rightarrow> Some (Inl e, w0)
                 | Inr vp \<Rightarrow> session_with_deps c u handle s1 given_params ctx (AList.delete ''db'' vp) w0)))"

end
