(* ===== verification/Fabric.thy ===== *)
theory Fabric
  imports Channel
begin

text \<open>
  Channels over the mesh (\<open>primitives/channel_fabric.py\<close>, \<open>open_channel\<close> of \<open>app/streaming.py\<close>): the
  server that authorizes a session before it exists, runs a handler on it and tears it down, and
  the caller's end. The server is a step relation: queries to open, samples, liveliness, what
  handlers do, timers; a handler may do anything with its session at any time.
\<close>

section \<open>The server\<close>

text \<open>A session object of the server, with its handler's task: \<open>sv_running\<close> until it is done,
  \<open>sv_cancel_at\<close> a timer that cancels it. \<open>sv_left\<close> records when it was torn down.\<close>

record server_session =
  sv_sid :: string
  sv_session :: session
  sv_subscribed :: bool
  sv_running :: bool
  sv_cancel_at :: "time option"
  sv_cancelled :: bool
  sv_left :: "time option"

text \<open>\<open>fs_objects\<close> are the session objects ever made, \<open>fs_sessions\<close> the table of those that are open;
  \<open>fs_down\<close> what was put on the mesh, \<open>fs_ledger\<close> the storage.\<close>

record fabric =
  fs_sessions :: "(string, nat) dict"
  fs_objects :: "server_session list"
  fs_now :: time
  fs_down :: "(string \<times> bytes) list"
  fs_ledger :: ledger

definition new_fabric :: "time \<Rightarrow> ledger \<Rightarrow> fabric" where
  "new_fabric t l = \<lparr>fs_sessions = [], fs_objects = [], fs_now = t, fs_down = [], fs_ledger = l\<rparr>"

definition sid_of :: "string \<Rightarrow> string \<Rightarrow> string" where
  "sid_of key prefix = fst (split_once (CHR ''/'') (drop (length prefix + 1) key))"

definition down_key :: "string \<Rightarrow> string \<Rightarrow> string" where
  "down_key prefix sid = prefix @ ''/'' @ sid @ ''/down''"

definition fabric_log :: "fabric conversation_log" where
  "fabric_log =
     \<lparr>cl_log = (\<lambda>t k v f. case cl_log memory_log t k v (fs_ledger f) of (out, l) \<Rightarrow> (out, f\<lparr>fs_ledger := l\<rparr>)),
      cl_get_log = (\<lambda>k n f. case cl_get_log memory_log k n (fs_ledger f) of (out, l) \<Rightarrow> (out, f\<lparr>fs_ledger := l\<rparr>))\<rparr>"

definition put_down :: "string \<Rightarrow> string \<Rightarrow> bytes \<Rightarrow> (fabric, unit) act" where
  "put_down prefix sid raw f = (Inr (), f\<lparr>fs_down := fs_down f @ [(down_key prefix sid, raw)]\<rparr>)"

text \<open>\<open>_open\<close>: the answer, and a new session with its task when the authorizer passes. Any other
  exception is raised to \<open>_on_open\<close>.\<close>

definition open_session :: "'u channel \<Rightarrow> string \<Rightarrow> bytes option \<Rightarrow> (string, string) dict \<Rightarrow> fabric \<Rightarrow> (exc + (string, pyval) dict) \<times> fabric" where
  "open_session c sid attachment params f =
     (case channel_authorize c attachment (AList.delete ''conversation_id'' params) of
        Inl e \<Rightarrow> (if is_unauthorized e then Inr (reply_err (PStr (x_str e)) (PStr ''unauthorized'') PNone PNone) else Inl e, f)
      | Inr who \<Rightarrow>
          (Inr [(''ok'', PBool True), (''sid'', PStr sid)],
           f\<lparr>fs_sessions := AList.update sid (length (fs_objects f)) (fs_sessions f),
             fs_objects := fs_objects f @
               [\<lparr>sv_sid = sid, sv_session = new_session who attachment (cw_durable c) (map_of params ''conversation_id''),
                 sv_subscribed = True, sv_running = True, sv_cancel_at = None, sv_cancelled = False, sv_left = None\<rparr>]\<rparr>))"

text \<open>\<open>_on_open\<close>: the reply to the query.\<close>

definition on_open :: "'u channel \<Rightarrow> string \<Rightarrow> bytes option \<Rightarrow> (string, string) dict \<Rightarrow> fabric \<Rightarrow> (exc + (string, pyval) dict) \<times> fabric" where
  "on_open c key attachment raw_params f =
     (case open_session c (sid_of key (cw_prefix c)) attachment (if raw_params = [] then [] else decode_params raw_params) f of
        (Inr reply, f') \<Rightarrow> (Inr reply, f')
      | (Inl e, f') \<Rightarrow>
          (if is_exception e then Inr (reply_err (PStr ''channel open failed'') (PStr ''internal_error'') PNone PNone) else Inl e, f'))"

text \<open>\<open>_teardown\<close>: \<open>current\<close> is the session whose task runs it, if one does.\<close>

definition teardown :: "time \<Rightarrow> nat option \<Rightarrow> string \<Rightarrow> fabric \<Rightarrow> fabric" where
  "teardown grace current sid f =
     (case map_of (fs_sessions f) sid of
        None \<Rightarrow> f
      | Some i \<Rightarrow>
          (let x = fs_objects f ! i;
               x1 = x\<lparr>sv_session := close_session (sv_session x), sv_subscribed := False, sv_left := Some (fs_now f)\<rparr>;
               x2 = (if \<not> sv_running x \<or> current = Some i then x1
                     else if grace \<le> 0 then x1\<lparr>sv_cancelled := True\<rparr>
                     else x1\<lparr>sv_cancel_at := Some (fs_now f + grace)\<rparr>)
           in f\<lparr>fs_sessions := AList.delete sid (fs_sessions f), fs_objects := (fs_objects f)[i := x2]\<rparr>))"

definition on_liveliness :: "time \<Rightarrow> string \<Rightarrow> string \<Rightarrow> fabric \<Rightarrow> fabric" where
  "on_liveliness grace prefix key f = teardown grace None (sid_of key prefix) f"

text \<open>The end of \<open>_run\<close>, whatever ended the handler.\<close>

definition run_ends :: "time \<Rightarrow> nat \<Rightarrow> fabric \<Rightarrow> fabric" where
  "run_ends grace i f =
     (let f1 = teardown grace (Some i) (sv_sid (fs_objects f ! i)) f
      in f1\<lparr>fs_objects := (fs_objects f1)[i := (fs_objects f1 ! i)\<lparr>sv_running := False\<rparr>]\<rparr>)"

definition unbind_fabric :: "fabric \<Rightarrow> fabric" where
  "unbind_fabric f = fold (teardown 0 None) (map fst (fs_sessions f)) f"

definition with_session :: "nat \<Rightarrow> (session \<Rightarrow> session) \<Rightarrow> fabric \<Rightarrow> fabric" where
  "with_session i g f =
     f\<lparr>fs_objects := (fs_objects f)[i := (fs_objects f ! i)\<lparr>sv_session := g (sv_session (fs_objects f ! i))\<rparr>]\<rparr>"

section \<open>Steps\<close>

datatype fabric_event =
    Opened string "bytes option" "(string, string) dict"
  | Denied string
  | Fed nat bytes
  | Ignored nat bytes
  | Got nat bytes "exc + pyval"
  | HungUp nat
  | Said nat pyval "exc + unit" time
  | Left string
  | Ended nat
  | TimerFired nat
  | Unbound
  | Later time
  | Elsewhere

text \<open>\<open>c\<close> is the channel, \<open>grace\<close> the grace of the server, \<open>dumps\<close> and \<open>de\<close> its serializer. Samples come
  through callbacks that may still be pending when the subscription is gone. Elsewhere in the
  program the storage may change, but not the conversations.\<close>

inductive fabric_step :: "'u channel \<Rightarrow> time \<Rightarrow> (pyval \<Rightarrow> exc + bytes) \<Rightarrow> (bytes \<Rightarrow> exc + pyval)
    \<Rightarrow> fabric \<Rightarrow> fabric_event \<Rightarrow> fabric \<Rightarrow> bool"
  for c grace dumps de where
  opened: "open_session c sid att params f = (Inr reply, f') \<Longrightarrow> length (fs_objects f') > length (fs_objects f) \<Longrightarrow>
    fabric_step c grace dumps de f (Opened sid att params) f'"
| denied: "open_session c sid att params f = (out, f') \<Longrightarrow> length (fs_objects f') = length (fs_objects f) \<Longrightarrow>
    fabric_step c grace dumps de f (Denied sid) f'"
| sample: "i < length (fs_objects f) \<Longrightarrow>
    fabric_step c grace dumps de f ((if cs_closed (sv_session (fs_objects f ! i)) then Ignored else Fed) i raw) (with_session i (feed raw) f)"
| received: "i < length (fs_objects f) \<Longrightarrow> cs_inbound (sv_session (fs_objects f ! i)) = Message raw # q \<Longrightarrow>
    session_receive de fabric_log t t' (sv_session (fs_objects f ! i)) f = Some (out, s, f') \<Longrightarrow>
    fabric_step c grace dumps de f (Got i raw (map_sum id (\<lambda>v. turn_entry ''in'' v t) out)) (with_session i (\<lambda>_. s) f')"
| hung_up: "i < length (fs_objects f) \<Longrightarrow> cs_inbound (sv_session (fs_objects f ! i)) = CloseMark # q \<Longrightarrow>
    session_receive de fabric_log t t' (sv_session (fs_objects f ! i)) f = Some (out, s, f') \<Longrightarrow>
    fabric_step c grace dumps de f (HungUp i) (with_session i (\<lambda>_. s) f')"
| said: "i < length (fs_objects f) \<Longrightarrow>
    session_send dumps (put_down (cw_prefix c) (sv_sid (fs_objects f ! i))) fabric_log t t' (sv_session (fs_objects f ! i)) v f = (out, f') \<Longrightarrow>
    fabric_step c grace dumps de f (Said i v out t) f'"
| left: "fabric_step c grace dumps de f (Left sid) (teardown grace None sid f)"
| ended: "i < length (fs_objects f) \<Longrightarrow> sv_running (fs_objects f ! i) \<Longrightarrow> fabric_step c grace dumps de f (Ended i) (run_ends grace i f)"
| timer: "i < length (fs_objects f) \<Longrightarrow> sv_cancel_at (fs_objects f ! i) = Some d \<Longrightarrow> d \<le> fs_now f \<Longrightarrow>
    fabric_step c grace dumps de f (TimerFired i) (f\<lparr>fs_objects := (fs_objects f)[i := (fs_objects f ! i)\<lparr>sv_cancel_at := None, sv_cancelled := sv_cancelled (fs_objects f ! i) \<or> sv_running (fs_objects f ! i)\<rparr>]\<rparr>)"
| unbound: "fabric_step c grace dumps de f Unbound (unbind_fabric f)"
| later: "t \<ge> fs_now f \<Longrightarrow> fabric_step c grace dumps de f (Later t) (f\<lparr>fs_now := t\<rparr>)"
| elsewhere: "(\<forall>conv. dict_get (l_event_log l) (conv_key conv) [] = dict_get (l_event_log (fs_ledger f)) (conv_key conv) []) \<Longrightarrow>
    fabric_step c grace dumps de f Elsewhere (f\<lparr>fs_ledger := l\<rparr>)"

section \<open>The sessions of a server\<close>

fun opened_sids :: "fabric_event list \<Rightarrow> string list" where
  "opened_sids [] = []"
| "opened_sids (Opened sid att params # tr) = sid # opened_sids tr"
| "opened_sids (_ # tr) = opened_sids tr"

lemma opened_sids_append [simp]: "opened_sids (tr @ tr') = opened_sids tr @ opened_sids tr'"
  by (induction tr rule: opened_sids.induct) auto

text \<open>What a session is while it is open, and after it was torn down; \<open>table\<close> is the table of the open ones.\<close>

definition admitted :: "'u channel \<Rightarrow> identity option \<Rightarrow> bool" where
  "admitted c who \<longleftrightarrow> (\<exists>att params. channel_authorize c att params = Inr who)"

definition session_kept :: "'u channel \<Rightarrow> time \<Rightarrow> (string \<Rightarrow> nat option) \<Rightarrow> nat \<Rightarrow> server_session \<Rightarrow> bool" where
  "session_kept c grace table i x \<longleftrightarrow>
     admitted c (cs_principal (sv_session x))
     \<and> (if cs_closed (sv_session x)
        then table (sv_sid x) = None \<and> \<not> sv_subscribed x
           \<and> (sv_running x \<longrightarrow> sv_cancelled x \<or> (\<exists>t. sv_left x = Some t \<and> sv_cancel_at x = Some (t + grace)))
        else table (sv_sid x) = Some i \<and> sv_subscribed x \<and> sv_running x)"

definition fabric_ok :: "'u channel \<Rightarrow> time \<Rightarrow> fabric \<Rightarrow> bool" where
  "fabric_ok c grace f \<longleftrightarrow>
     distinct (map sv_sid (fs_objects f)) \<and> dict_ok (fs_sessions f)
     \<and> (\<forall>i < length (fs_objects f). session_kept c grace (map_of (fs_sessions f)) i (fs_objects f ! i))
     \<and> (\<forall>sid i. map_of (fs_sessions f) sid = Some i \<longrightarrow> i < length (fs_objects f) \<and> sv_sid (fs_objects f ! i) = sid)"

lemma remember_frame:
  assumes "remember fabric_log s d v t t' f = (out, f')"
  shows "fs_sessions f' = fs_sessions f \<and> fs_objects f' = fs_objects f \<and> fs_now f' = fs_now f \<and> fs_down f' = fs_down f \<and> out = Inr ()
    \<and> fs_ledger f' = (case logged_as s of None \<Rightarrow> fs_ledger f | Some conv \<Rightarrow> log_event t' (conv_key conv) (turn_entry d v t) None (fs_ledger f))"
  using assms by (auto simp: remember_def act_return_def append_turn_def fabric_log_def memory_log_def split: option.splits)

lemma receive_frame:
  assumes "session_receive de fabric_log t t' s f = Some (out, s', f')"
  shows "fs_sessions f' = fs_sessions f \<and> fs_objects f' = fs_objects f \<and> fs_now f' = fs_now f \<and> fs_down f' = fs_down f
    \<and> cs_closed s' = cs_closed s \<and> cs_principal s' = cs_principal s \<and> logged_as s' = logged_as s"
  using assms
  by (auto simp: session_receive_def act_bind_def act_of_def act_return_def logged_as_def split: list.splits inbound.splits sum.splits prod.splits
      dest: remember_frame)

lemma send_frame:
  assumes "session_send dumps (put_down prefix sid) fabric_log t t' s v f = (out, f')"
  shows "fs_sessions f' = fs_sessions f \<and> fs_objects f' = fs_objects f \<and> fs_now f' = fs_now f"
  using assms
  by (auto simp: session_send_def act_bind_def act_of_def act_raise_def put_down_def split: if_splits sum.splits prod.splits dest: remember_frame)

lemma close_session_simps [simp]:
  "cs_closed (close_session s)" "cs_principal (close_session s) = cs_principal s" "logged_as (close_session s) = logged_as s"
  "cs_closed (feed raw s) = cs_closed s" "cs_principal (feed raw s) = cs_principal s" "logged_as (feed raw s) = logged_as s"
  by (simp_all add: close_session_def feed_def logged_as_def)

lemma open_session_cases:
  assumes "open_session c sid att params f = (out, f')"
  obtains (refused) "f' = f"
    | (accepted) who where "channel_authorize c att (AList.delete ''conversation_id'' params) = Inr who"
        "f' = f\<lparr>fs_sessions := AList.update sid (length (fs_objects f)) (fs_sessions f),
             fs_objects := fs_objects f @
               [\<lparr>sv_sid = sid, sv_session = new_session who att (cw_durable c) (map_of params ''conversation_id''),
                 sv_subscribed = True, sv_running = True, sv_cancel_at = None, sv_cancelled = False, sv_left = None\<rparr>]\<rparr>"
  using assms by (auto simp: open_session_def split: sum.splits)

lemma kept_at:
  assumes "fabric_ok c grace f" "i < length (fs_objects f)"
  shows "session_kept c grace (map_of (fs_sessions f)) i (fs_objects f ! i)"
  using assms by (simp add: fabric_ok_def)

lemma fabric_ok_cong:
  assumes "fabric_ok c grace f" "fs_sessions f' = fs_sessions f" "fs_objects f' = fs_objects f"
  shows "fabric_ok c grace f'"
  using assms by (simp add: fabric_ok_def)

lemma object_update_ok:
  assumes ok: "fabric_ok c grace f" and i: "i < length (fs_objects f)" "sv_sid x = sv_sid (fs_objects f ! i)"
    and table: "fs_sessions f' = fs_sessions f \<or> fs_sessions f' = AList.delete (sv_sid x) (fs_sessions f)"
    and objs: "fs_objects f' = (fs_objects f)[i := x]" and kept: "session_kept c grace (map_of (fs_sessions f')) i x"
  shows "fabric_ok c grace f'"
proof -
  have same: "map sv_sid (fs_objects f') = map sv_sid (fs_objects f)"
    using i by (simp add: objs map_update list_update_same_conv)
  have "map_of (fs_sessions f') (sv_sid (fs_objects f ! j)) = map_of (fs_sessions f) (sv_sid (fs_objects f ! j))"
    if "j < length (fs_objects f)" "j \<noteq> i" for j
  proof -
    have "sv_sid (fs_objects f ! j) \<noteq> sv_sid (fs_objects f ! i)"
      using ok that i(1) by (auto simp: fabric_ok_def distinct_conv_nth)
    then show ?thesis using table i(2) by (auto simp: map_of_remove)
  qed
  then have "session_kept c grace (map_of (fs_sessions f')) j (fs_objects f' ! j)" if "j < length (fs_objects f)" for j
    using ok that kept i(1) by (cases "j = i") (auto simp: objs fabric_ok_def session_kept_def)
  moreover have "j < length (fs_objects f) \<and> sv_sid (fs_objects f' ! j) = sid" if "map_of (fs_sessions f') sid = Some j" for sid j
  proof -
    have "map_of (fs_sessions f) sid = Some j" using that table by (auto simp: map_of_remove split: if_splits)
    then have "j < length (fs_objects f) \<and> sv_sid (fs_objects f ! j) = sid" using ok by (simp add: fabric_ok_def)
    then show ?thesis using i by (cases "j = i") (auto simp: objs)
  qed
  moreover have "dict_ok (fs_sessions f')" using ok table by (auto simp: fabric_ok_def)
  ultimately show ?thesis using ok same by (simp add: fabric_ok_def objs)
qed

lemma with_session_ok:
  assumes "fabric_ok c grace f" "i < length (fs_objects f)" "cs_closed (g (sv_session (fs_objects f ! i))) = cs_closed (sv_session (fs_objects f ! i))"
    "cs_principal (g (sv_session (fs_objects f ! i))) = cs_principal (sv_session (fs_objects f ! i))"
  shows "fabric_ok c grace (with_session i g f)"
  by (rule object_update_ok [OF assms(1,2), of "(fs_objects f ! i)\<lparr>sv_session := g (sv_session (fs_objects f ! i))\<rparr>"])
    (use assms(3,4) kept_at [OF assms(1,2)] in \<open>auto simp: with_session_def session_kept_def\<close>)

lemma teardown_ok:
  assumes ok: "fabric_ok c grace f" and g: "g = grace \<or> g \<le> 0"
  shows "fabric_ok c grace (teardown g None sid f)"
proof (cases "map_of (fs_sessions f) sid")
  case (Some i)
  then have i: "i < length (fs_objects f)" "sv_sid (fs_objects f ! i) = sid" using ok by (auto simp: fabric_ok_def)
  show ?thesis
    by (rule object_update_ok [OF ok i(1)])
      (use Some i kept_at [OF ok i(1)] g in \<open>auto simp: teardown_def Let_def session_kept_def map_of_remove split: if_splits\<close>)
qed (use ok in \<open>simp add: teardown_def\<close>)

lemma run_ends_ok:
  assumes ok: "fabric_ok c grace f" and i: "i < length (fs_objects f)"
  shows "fabric_ok c grace (run_ends grace i f)"
proof (cases "cs_closed (sv_session (fs_objects f ! i))")
  case True
  then have "map_of (fs_sessions f) (sv_sid (fs_objects f ! i)) = None" using kept_at [OF ok i] by (simp add: session_kept_def)
  then show ?thesis
    using kept_at [OF ok i] True
    by (intro object_update_ok [OF ok i, of "(fs_objects f ! i)\<lparr>sv_running := False\<rparr>"])
      (auto simp: run_ends_def Let_def teardown_def session_kept_def)
next
  case False
  then have "map_of (fs_sessions f) (sv_sid (fs_objects f ! i)) = Some i" using kept_at [OF ok i] by (simp add: session_kept_def)
  then show ?thesis
    using kept_at [OF ok i] False i
    by (intro object_update_ok [OF ok i, of "(fs_objects f ! i)\<lparr>sv_session := close_session (sv_session (fs_objects f ! i)),
          sv_subscribed := False, sv_left := Some (fs_now f), sv_running := False\<rparr>"])
      (auto simp: run_ends_def Let_def teardown_def session_kept_def map_of_remove)
qed

lemma unbind_ok: "fabric_ok c grace f \<Longrightarrow> fabric_ok c grace (fold (teardown 0 None) sids f)"
  by (induction sids arbitrary: f) (simp_all add: teardown_ok)

lemma open_session_ok:
  assumes ok: "fabric_ok c grace f" and "open_session c sid att params f = (out, f')" "distinct (map sv_sid (fs_objects f'))"
  shows "fabric_ok c grace f'"
  using assms(2)
proof (cases rule: open_session_cases)
  case (accepted who)
  have fresh: "sid \<notin> set (map sv_sid (fs_objects f))" using assms(3) accepted(2) by auto
  have "sv_sid (fs_objects f ! j) \<noteq> sid" if "j < length (fs_objects f)" for j
    using fresh nth_mem [OF that] by auto
  then show ?thesis
    using ok accepted assms(3)
    by (auto simp: fabric_ok_def nth_append session_kept_def admitted_def new_session_def map_of_update less_Suc_eq split: if_splits)
qed (use ok in simp)

lemma fabric_step_ok:
  assumes "fabric_step c grace dumps de f e f'" "fabric_ok c grace f" "distinct (map sv_sid (fs_objects f'))"
  shows "fabric_ok c grace f'"
  using assms
proof (induction rule: fabric_step.induct)
  case (received i f raw q t t' out s f')
  then have "fabric_ok c grace f'" using receive_frame [OF received(3)] fabric_ok_cong by metis
  then show ?case using receive_frame [OF received(3)] received(1) by (intro with_session_ok) auto
next
  case (hung_up i f q t t' out s f')
  then have "fabric_ok c grace f'" using receive_frame [OF hung_up(3)] fabric_ok_cong by blast
  then show ?case using receive_frame [OF hung_up(3)] hung_up(1) by (intro with_session_ok) auto
next
  case (said i f t t' v out f')
  then show ?case using send_frame [OF said(2)] fabric_ok_cong by blast
next
  case (timer i f d)
  then show ?case
    using kept_at [OF timer(4,1)]
    by (intro object_update_ok [OF timer(4,1), of "(fs_objects f ! i)\<lparr>sv_cancel_at := None,
          sv_cancelled := sv_cancelled (fs_objects f ! i) \<or> sv_running (fs_objects f ! i)\<rparr>"])
      (auto simp: session_kept_def split: if_splits)
next
  case (later t f)
  then show ?case using fabric_ok_cong by force
next
  case (elsewhere l f)
  then show ?case using fabric_ok_cong by force
qed (auto intro: with_session_ok teardown_ok run_ends_ok unbind_ok open_session_ok simp: unbind_fabric_def)

lemma teardown_sids [simp]: "map sv_sid (fs_objects (teardown g cur sid f)) = map sv_sid (fs_objects f)"
proof -
  have "map sv_sid (xs[i := x]) = map sv_sid xs" if "sv_sid x = sv_sid (xs ! i)" for xs :: "server_session list" and i x
    using that by (cases "i < length xs") (simp_all add: map_update list_update_same_conv list_update_beyond)
  then show ?thesis by (simp add: teardown_def Let_def split: option.splits)
qed

lemma teardown_length [simp]: "length (fs_objects (teardown g cur sid f)) = length (fs_objects f)"
  by (simp add: teardown_def Let_def split: option.splits)

lemma teardowns_sids [simp]: "map sv_sid (fs_objects (fold (teardown g cur) sids f)) = map sv_sid (fs_objects f)"
  by (induction sids arbitrary: f) simp_all

lemma update_sids: "i < length xs \<Longrightarrow> sv_sid x = sv_sid (xs ! i) \<Longrightarrow> map sv_sid (xs[i := x]) = map sv_sid xs"
  by (simp add: map_update list_update_same_conv)

lemma step_sids:
  assumes "fabric_step c grace dumps de f e f'"
  shows "map sv_sid (fs_objects f') = map sv_sid (fs_objects f) @ opened_sids [e]"
  using assms
proof (induction rule: fabric_step.induct)
  case (opened sid att params f reply f')
  show ?case using opened(1) by (cases rule: open_session_cases) (use opened(2) in auto)
next
  case (denied sid att params f out f')
  show ?case using denied(1) by (cases rule: open_session_cases) (use denied(2) in auto)
next
  case (received i f raw q t t' out s f')
  then show ?case using receive_frame [OF received(3)] by (simp add: with_session_def update_sids)
next
  case (hung_up i f q t t' out s f')
  then show ?case using receive_frame [OF hung_up(3)] by (simp add: with_session_def update_sids)
next
  case (said i f t t' v out f')
  then show ?case using send_frame [OF said(2)] by simp
next
  case (ended i f)
  then have "sv_sid (fs_objects (teardown grace (Some i) (sv_sid (fs_objects f ! i)) f) ! i)
      = map sv_sid (fs_objects (teardown grace (Some i) (sv_sid (fs_objects f ! i)) f)) ! i" by (subst nth_map) simp_all
  then show ?case using ended by (simp add: run_ends_def Let_def update_sids)
qed (auto simp: with_session_def update_sids unbind_fabric_def)

lemma run_sids:
  assumes "run (fabric_step c grace dumps de) (new_fabric t l) tr f"
  shows "map sv_sid (fs_objects f) = opened_sids tr"
  using assms
proof (induction "new_fabric t l" tr f rule: run.induct)
  case (run_step tr f e f')
  then show ?case using step_sids [OF run_step.hyps(3)] by simp
qed (simp add: new_fabric_def)

lemma run_fabric_ok:
  assumes "run (fabric_step c grace dumps de) (new_fabric t l) tr f" "distinct (opened_sids tr)"
  shows "fabric_ok c grace f"
  using assms
proof (induction "new_fabric t l" tr f rule: run.induct)
  case (run_step tr f e f')
  have "distinct (map sv_sid (fs_objects f'))"
    using run_sids [OF run.run_step [OF run_step.hyps(1,3)]] run_step.prems by simp
  then show ?case using fabric_step_ok [OF run_step.hyps(3)] run_step.hyps(2) run_step.prems by simp
qed (simp add: new_fabric_def fabric_ok_def)

text \<open>C27: Whatever clients, handlers and timers do, with a session id of its own for each opening: a session
  exists only for an identity that the authorizer let in; while it is open it is in the table, with its
  subscription and its handler's task; once its client has left it is neither, and a handler that still
  runs is cancelled, or will be when the grace after it left is over.\<close>

theorem sessions_are_kept:
  assumes "run (fabric_step c grace dumps de) (new_fabric t l) tr f" "distinct (opened_sids tr)" "i < length (fs_objects f)"
  shows "session_kept c grace (map_of (fs_sessions f)) i (fs_objects f ! i)"
  by (rule kept_at [OF run_fabric_ok [OF assms(1,2)] assms(3)])

section \<open>Messages\<close>

text \<open>What was handed to the handler of session \<open>i\<close>, what it received, and what it sent and its serializer made of it.\<close>

fun fed_by :: "nat \<Rightarrow> fabric_event \<Rightarrow> bytes list" where
  "fed_by i (Fed j raw) = (if j = i then [raw] else [])"
| "fed_by i _ = []"

fun got_by :: "nat \<Rightarrow> fabric_event \<Rightarrow> bytes list" where
  "got_by i (Got j raw out) = (if j = i then [raw] else [])"
| "got_by i _ = []"

fun sent_by :: "(pyval \<Rightarrow> exc + bytes) \<Rightarrow> nat \<Rightarrow> fabric_event \<Rightarrow> bytes list" where
  "sent_by dumps i (Said j v (Inr u) t) = (if j = i then (case dumps v of Inl _ \<Rightarrow> [] | Inr raw \<Rightarrow> [raw]) else [])"
| "sent_by dumps i _ = []"

lemma sent_by_other [simp]: "j \<noteq> i \<Longrightarrow> sent_by dumps i (Said j v out t) = []" "sent_by dumps i (Said j v (Inl x) t) = []"
  by (cases out; simp)+

definition fed :: "nat \<Rightarrow> fabric_event list \<Rightarrow> bytes list" where
  "fed i tr = concat (map (fed_by i) tr)"

definition got :: "nat \<Rightarrow> fabric_event list \<Rightarrow> bytes list" where
  "got i tr = concat (map (got_by i) tr)"

definition sent :: "(pyval \<Rightarrow> exc + bytes) \<Rightarrow> nat \<Rightarrow> fabric_event list \<Rightarrow> bytes list" where
  "sent dumps i tr = concat (map (sent_by dumps i) tr)"

lemmas trace_defs = fed_def got_def sent_def

lemma trace_snoc [simp]:
  "fed i (tr @ [e]) = fed i tr @ fed_by i e" "got i (tr @ [e]) = got i tr @ got_by i e"
  "sent dumps i (tr @ [e]) = sent dumps i tr @ sent_by dumps i e"
  by (simp_all add: trace_defs)

definition session_at :: "fabric \<Rightarrow> nat \<Rightarrow> session" where
  "session_at f i = sv_session (fs_objects f ! i)"

text \<open>The queue of a session holds what was fed and not yet received, and the mark once it is closed.\<close>

definition inbox_ok :: "fabric_event list \<Rightarrow> nat \<Rightarrow> session \<Rightarrow> bool" where
  "inbox_ok tr i s \<longleftrightarrow>
     (\<exists>qs. cs_inbound s = map Message qs @ (if cs_closed s then [CloseMark] else []) \<and> fed i tr = got i tr @ qs
        \<and> (HungUp i \<in> set tr \<longrightarrow> cs_closed s \<and> qs = []))"

definition untouched :: "fabric_event list \<Rightarrow> nat \<Rightarrow> bool" where
  "untouched tr i \<longleftrightarrow> fed i tr = [] \<and> got i tr = [] \<and> HungUp i \<notin> set tr \<and> (\<forall>dumps. sent dumps i tr = [])"

definition traced :: "fabric_event list \<Rightarrow> fabric \<Rightarrow> bool" where
  "traced tr f \<longleftrightarrow> (\<forall>i < length (fs_objects f). inbox_ok tr i (session_at f i)) \<and> (\<forall>i \<ge> length (fs_objects f). untouched tr i)"

lemma inbox_close: "inbox_ok tr i s \<Longrightarrow> inbox_ok tr i (close_session s)"
  by (auto simp: inbox_ok_def close_session_def)

lemma inbox_other:
  assumes "inbox_ok tr i s" "fed_by i e = []" "got_by i e = []" "e \<noteq> HungUp i"
  shows "inbox_ok (tr @ [e]) i s"
  using assms by (simp add: inbox_ok_def)

lemma untouched_other:
  assumes "untouched tr i" "fed_by i e = []" "got_by i e = []" "e \<noteq> HungUp i" "\<forall>dumps. sent_by dumps i e = []"
  shows "untouched (tr @ [e]) i"
  using assms by (simp add: untouched_def)

lemma traced_quiet:
  assumes "traced tr f" "length (fs_objects f') = length (fs_objects f)"
    and "\<And>i. i < length (fs_objects f) \<Longrightarrow> session_at f' i = session_at f i \<or> session_at f' i = close_session (session_at f i)"
    and "\<And>i. fed_by i e = [] \<and> got_by i e = [] \<and> e \<noteq> HungUp i"
    and "\<And>i dumps. i \<ge> length (fs_objects f) \<Longrightarrow> sent_by dumps i e = []"
  shows "traced (tr @ [e]) f'"
  unfolding traced_def
proof (intro conjI allI impI)
  fix i assume "i < length (fs_objects f')"
  then have i: "i < length (fs_objects f)" using assms(2) by simp
  then have "inbox_ok tr i (session_at f' i)" using assms(1) assms(3) [OF i] inbox_close by (auto simp: traced_def)
  then show "inbox_ok (tr @ [e]) i (session_at f' i)" by (rule inbox_other) (use assms(4) in auto)
next
  fix i assume "i \<ge> length (fs_objects f')"
  then show "untouched (tr @ [e]) i" using assms untouched_other by (simp add: traced_def)
qed

lemma traced_one:
  assumes "traced tr f" "i < length (fs_objects f)" "fs_objects f' = fs_objects f"
    and "inbox_ok (tr @ [e]) i s"
    and "\<And>j. j \<noteq> i \<Longrightarrow> fed_by j e = [] \<and> got_by j e = [] \<and> e \<noteq> HungUp j \<and> (\<forall>dumps. sent_by dumps j e = [])"
  shows "traced (tr @ [e]) (with_session i (\<lambda>_. s) f')"
  unfolding traced_def
proof (intro conjI allI impI)
  fix j assume "j < length (fs_objects (with_session i (\<lambda>_. s) f'))"
  then have j: "j < length (fs_objects f)" using assms(3) by (simp add: with_session_def)
  show "inbox_ok (tr @ [e]) j (session_at (with_session i (\<lambda>_. s) f') j)"
  proof (cases "j = i")
    case True
    then show ?thesis using assms(2-4) by (simp add: with_session_def session_at_def)
  next
    case False
    then have "inbox_ok tr j (session_at f j)" using assms(1) j by (simp add: traced_def)
    from inbox_other [OF this] show ?thesis using assms(3) assms(5) [OF False] False by (simp add: with_session_def session_at_def)
  qed
next
  fix j assume j: "j \<ge> length (fs_objects (with_session i (\<lambda>_. s) f'))"
  then have "j \<noteq> i" "untouched tr j" using assms(1-3) by (auto simp: with_session_def traced_def)
  then show "untouched (tr @ [e]) j" using untouched_other assms(5) by blast
qed

lemma teardown_sessions:
  "session_at (teardown g cur sid f) i = session_at f i \<or> session_at (teardown g cur sid f) i = close_session (session_at f i)"
proof (cases "map_of (fs_sessions f) sid")
  case (Some j)
  show ?thesis
  proof (cases "j = i \<and> j < length (fs_objects f)")
    case True
    then show ?thesis using Some by (simp add: teardown_def Let_def session_at_def)
  next
    case False
    then have "xs[j := x] ! i = xs ! i" if "length xs = length (fs_objects f)" for x :: server_session and xs
      using that by (cases "j = i") (simp_all add: list_update_beyond)
    then show ?thesis using Some by (simp add: teardown_def Let_def session_at_def)
  qed
qed (simp add: teardown_def)

lemma teardowns_sessions:
  "session_at (fold (teardown g cur) sids f) i = session_at f i \<or> session_at (fold (teardown g cur) sids f) i = close_session (session_at f i)"
proof (induction sids arbitrary: f)
  case (Cons sid sids)
  have "close_session (close_session s) = close_session s" for s by (simp add: close_session_def)
  then show ?case using Cons [of "teardown g cur sid f"] teardown_sessions [of g cur sid f i] by auto
qed simp

lemma teardowns_length [simp]: "length (fs_objects (fold (teardown g cur) sids f)) = length (fs_objects f)"
  by (induction sids arbitrary: f) simp_all

lemma receive_message:
  assumes "session_receive de fabric_log t t' s f = Some (out, s', f')" "cs_inbound s = Message raw # q"
  shows "s' = s\<lparr>cs_inbound := q\<rparr>"
  using assms by (auto simp: session_receive_def split: prod.splits)

lemma receive_mark:
  assumes "session_receive de fabric_log t t' s f = Some (out, s', f')" "cs_inbound s = CloseMark # q"
  shows "s' = s\<lparr>cs_inbound := q @ [CloseMark]\<rparr> \<and> f' = f"
  using assms by (simp add: session_receive_def)

lemma receive_answers: "cs_inbound s = x # q \<Longrightarrow> \<exists>out s' f'. session_receive de fabric_log t t' s f = Some (out, s', f')"
  by (simp add: session_receive_def split: inbound.splits prod.splits)

lemma with_session_const: "with_session i g f = with_session i (\<lambda>_. g (session_at f i)) f"
  by (simp add: with_session_def session_at_def)

lemma step_traced:
  assumes "fabric_step c grace dumps de f e f'" "traced tr f"
  shows "traced (tr @ [e]) f'"
  using assms
proof (induction rule: fabric_step.induct)
  case (opened sid att params f reply f')
  show ?case using opened(1)
  proof (cases rule: open_session_cases)
    case (accepted who)
    have "inbox_ok (tr @ [Opened sid att params]) (length (fs_objects f)) (new_session who att (cw_durable c) (map_of params ''conversation_id''))"
      using opened(3) by (simp add: traced_def untouched_def inbox_ok_def new_session_def)
    then show ?thesis using opened(3) accepted(2)
      by (auto simp: traced_def session_at_def nth_append less_Suc_eq intro!: inbox_other untouched_other)
  qed (use opened(2) in simp)
next
  case (denied sid att params f out f')
  show ?case using denied(1)
    by (cases rule: open_session_cases) (use denied(2,3) traced_quiet [of tr f f] in auto)
next
  case (sample i f raw)
  obtain qs where qs: "cs_inbound (session_at f i) = map Message qs @ (if cs_closed (session_at f i) then [CloseMark] else [])"
      "fed i tr = got i tr @ qs" "HungUp i \<in> set tr \<longrightarrow> cs_closed (session_at f i) \<and> qs = []"
    using sample by (auto simp: traced_def inbox_ok_def)
  have "inbox_ok (tr @ [(if cs_closed (session_at f i) then Ignored else Fed) i raw]) i (feed raw (session_at f i))"
  proof (cases "cs_closed (session_at f i)")
    case True
    then show ?thesis using qs by (simp add: inbox_ok_def feed_def)
  next
    case False
    then show ?thesis using qs by (auto simp: inbox_ok_def feed_def intro!: exI [of _ "qs @ [raw]"])
  qed
  then have "traced (tr @ [(if cs_closed (session_at f i) then Ignored else Fed) i raw]) (with_session i (\<lambda>_. feed raw (session_at f i)) f)"
    using sample by (intro traced_one) auto
  then show ?case by (subst with_session_const) (simp add: session_at_def)
next
  case (received i f raw q t t' out s f')
  let ?s = "session_at f i"
  have s: "s = ?s\<lparr>cs_inbound := q\<rparr>" using receive_message [OF received(3,2)] by (simp add: session_at_def)
  obtain qs where qs: "cs_inbound ?s = map Message qs @ (if cs_closed ?s then [CloseMark] else [])"
      "fed i tr = got i tr @ qs" "HungUp i \<in> set tr \<longrightarrow> cs_closed ?s \<and> qs = []"
    using received by (auto simp: traced_def inbox_ok_def)
  then obtain qs' where "qs = raw # qs'" "q = map Message qs' @ (if cs_closed ?s then [CloseMark] else [])"
    using received(2) by (cases qs) (auto simp: session_at_def split: if_splits)
  then have "inbox_ok (tr @ [Got i raw (map_sum id (\<lambda>v. turn_entry ''in'' v t) out)]) i s"
    using qs by (auto simp: s inbox_ok_def)
  then show ?case using received receive_frame [OF received(3)] by (intro traced_one) auto
next
  case (hung_up i f q t t' out s f')
  let ?s = "session_at f i"
  obtain qs where qs: "cs_inbound ?s = map Message qs @ (if cs_closed ?s then [CloseMark] else [])" "fed i tr = got i tr @ qs"
    using hung_up by (auto simp: traced_def inbox_ok_def)
  then have "qs = []" "cs_closed ?s" "q = []" using hung_up(2) by (cases qs; auto simp: session_at_def split: if_splits)+
  then have "inbox_ok (tr @ [HungUp i]) i s"
    using qs receive_mark [OF hung_up(3,2)] by (simp add: session_at_def inbox_ok_def)
  then show ?case using hung_up receive_frame [OF hung_up(3)] by (intro traced_one) auto
next
  case (said i f t t' v out f')
  show ?case
    by (rule traced_quiet [OF said(3)]) (use said(1) send_frame [OF said(2)] in \<open>auto simp: session_at_def\<close>)
next
  case (left f sid)
  show ?case by (rule traced_quiet [OF left]) (use teardown_sessions in auto)
next
  case (unbound f)
  show ?case by (rule traced_quiet [OF unbound]) (use teardowns_sessions in \<open>auto simp: unbind_fabric_def\<close>)
next
  case (ended i f)
  let ?f1 = "teardown grace (Some i) (sv_sid (fs_objects f ! i)) f"
  have "session_at (run_ends grace i f) j = session_at ?f1 j" for j
    using ended(1) by (cases "j = i") (simp_all add: run_ends_def Let_def session_at_def)
  then show ?case using teardown_sessions [of grace "Some i" "sv_sid (fs_objects f ! i)" f]
    by (intro traced_quiet [OF ended(3)]) (auto simp: run_ends_def Let_def)
next
  case (timer i f d)
  show ?case by (rule traced_quiet [OF timer(4)]) (use timer(1) in \<open>auto simp: session_at_def nth_list_update\<close>)
next
  case (later t f)
  show ?case by (rule traced_quiet [OF later(2)]) (auto simp: session_at_def)
next
  case (elsewhere l f)
  show ?case by (rule traced_quiet [OF elsewhere(2)]) (auto simp: session_at_def)
qed

lemma run_traced:
  assumes "run (fabric_step c grace dumps de) (new_fabric t l) tr f"
  shows "traced tr f"
  using assms
proof (induction "new_fabric t l" tr f rule: run.induct)
  case (run_step tr f e f')
  then show ?case using step_traced by blast
qed (simp add: new_fabric_def traced_def untouched_def trace_defs)

text \<open>What goes out on the key of a session.\<close>

definition sent_down :: "string \<Rightarrow> fabric \<Rightarrow> string \<Rightarrow> bytes list" where
  "sent_down prefix f sid = map snd (filter (\<lambda>(k, raw). k = down_key prefix sid) (fs_down f))"

lemma down_key_inj [simp]: "down_key prefix sid = down_key prefix sid' \<longleftrightarrow> sid = sid'"
  by (simp add: down_key_def)

lemma teardown_down [simp]: "fs_down (teardown g cur sid f) = fs_down f"
  by (simp add: teardown_def Let_def split: option.splits)

lemma teardowns_down [simp]: "fs_down (fold (teardown g cur) sids f) = fs_down f"
  by (induction sids arbitrary: f) simp_all

lemma send_down:
  assumes "session_send dumps (put_down prefix sid) fabric_log t t' s v f = (out, f')"
  shows "case out of Inl _ \<Rightarrow> fs_down f' = fs_down f
    | Inr _ \<Rightarrow> \<not> cs_closed s \<and> (\<exists>raw. dumps v = Inr raw \<and> fs_down f' = fs_down f @ [(down_key prefix sid, raw)])"
  using assms
  by (auto simp: session_send_def act_bind_def act_of_def act_raise_def put_down_def split: if_splits sum.splits prod.splits dest: remember_frame)

definition down_ok :: "'u channel \<Rightarrow> (pyval \<Rightarrow> exc + bytes) \<Rightarrow> fabric_event list \<Rightarrow> fabric \<Rightarrow> bool" where
  "down_ok c dumps tr f \<longleftrightarrow>
     (\<forall>i < length (fs_objects f). sent_down (cw_prefix c) f (map sv_sid (fs_objects f) ! i) = sent dumps i tr)
     \<and> (\<forall>sid. sid \<notin> set (map sv_sid (fs_objects f)) \<longrightarrow> sent_down (cw_prefix c) f sid = [])"

lemma down_quiet:
  assumes "down_ok c dumps tr f" "map sv_sid (fs_objects f') = map sv_sid (fs_objects f)" "fs_down f' = fs_down f"
    "\<And>i. sent_by dumps i e = []"
  shows "down_ok c dumps (tr @ [e]) f'"
proof -
  have "length (fs_objects f') = length (fs_objects f)" using arg_cong [OF assms(2), of length] by simp
  then show ?thesis using assms by (simp add: down_ok_def sent_down_def del: length_map set_map nth_map)
qed

lemma step_sent:
  assumes "fabric_step c grace dumps de f e f'" "distinct (map sv_sid (fs_objects f'))" "traced tr f" "down_ok c dumps tr f"
  shows "down_ok c dumps (tr @ [e]) f'"
  using assms
proof (induction rule: fabric_step.induct)
  case (opened sid att params f reply f')
  show ?case using opened(1)
  proof (cases rule: open_session_cases)
    case (accepted who)
    have "sent dumps (length (fs_objects f)) tr = []" using opened(4) by (simp add: traced_def untouched_def)
    moreover have "sid \<notin> set (map sv_sid (fs_objects f))" using opened(3) accepted(2) by auto
    ultimately show ?thesis using opened(5) accepted(2)
      by (auto simp: down_ok_def sent_down_def nth_append less_Suc_eq)
  qed (use opened(2) in simp)
next
  case (denied sid att params f out f')
  have "f' = f" using denied(1) by (cases rule: open_session_cases) (use denied(2) in auto)
  then show ?case by (intro down_quiet [OF denied(5)]) auto
next
  case (received i f raw q t t' out s f')
  show ?case by (rule down_quiet [OF received(6)])
    (use received(1) receive_frame [OF received(3)] in \<open>auto simp: with_session_def update_sids\<close>)
next
  case (hung_up i f q t t' out s f')
  show ?case by (rule down_quiet [OF hung_up(6)])
    (use hung_up(1) receive_frame [OF hung_up(3)] in \<open>auto simp: with_session_def update_sids\<close>)
next
  case (said i f t t' v out f')
  show ?case
  proof (cases out)
    case (Inl x)
    then show ?thesis using send_frame [OF said(2)] send_down [OF said(2)] said(1)
      by (intro down_quiet [OF said(5)]) auto
  next
    case (Inr u)
    obtain raw where raw: "dumps v = Inr raw" "fs_down f' = fs_down f @ [(down_key (cw_prefix c) (sv_sid (fs_objects f ! i)), raw)]"
      using send_down [OF said(2)] Inr by auto
    have objs: "fs_objects f' = fs_objects f" using send_frame [OF said(2)] by simp
    have one: "sv_sid (fs_objects f ! i) = sv_sid (fs_objects f ! j) \<longleftrightarrow> i = j" if "j < length (fs_objects f)" for j
      using said(1,3) that objs by (auto simp: distinct_conv_nth)
    show ?thesis using said(1,5) Inr raw objs
      by (auto simp: down_ok_def sent_down_def one)
  qed
next
  case (ended i f)
  have "map sv_sid (fs_objects (run_ends grace i f)) = map sv_sid (fs_objects f)"
    using step_sids [OF fabric_step.ended [OF ended(1,2), of c grace dumps de]] by simp
  then show ?case by (rule down_quiet [OF ended(5)]) (simp_all add: run_ends_def Let_def)
qed (auto intro!: down_quiet simp: with_session_def update_sids unbind_fabric_def)

lemma run_down_ok:
  assumes "run (fabric_step c grace dumps de) (new_fabric t l) tr f" "distinct (opened_sids tr)"
  shows "down_ok c dumps tr f"
  using assms
proof (induction "new_fabric t l" tr f rule: run.induct)
  case (run_step tr f e f')
  have "distinct (map sv_sid (fs_objects f'))"
    using run_sids [OF run.run_step [OF run_step.hyps(1,3)]] run_step.prems by simp
  then show ?case using step_sent [OF run_step.hyps(3)] run_traced [OF run_step.hyps(1)] run_step.hyps(2) run_step.prems by simp
qed (simp add: new_fabric_def down_ok_def sent_down_def)

lemma closed_is_final:
  assumes "fabric_step c grace dumps de f e f'" "cs_closed (session_at f i)"
  shows "(\<forall>raw. e \<noteq> Fed i raw) \<and> (\<forall>v u t. e \<noteq> Said i v (Inr u) t)"
  using assms
proof (induction rule: fabric_step.induct)
  case (said j f t t' v out f')
  then show ?case by (auto simp: session_at_def session_send_def act_raise_def)
qed (auto simp: session_at_def)

text \<open>C28: Any session, over any run of the server: its handler receives what its peer sent, in the order it
  came, and is told that the peer is gone only after the last message; once the session is closed
  nothing more is taken or sent, and a handler that waits is woken; and what goes out on its key is
  what the handler sent, in order, and nothing else.\<close>

theorem channel_delivers_in_order:
  assumes "run (fabric_step c grace dumps de) (new_fabric t l) tr f" "distinct (opened_sids tr)" "i < length (fs_objects f)"
  shows "(\<exists>waiting. fed i tr = got i tr @ waiting)
    \<and> (HungUp i \<in> set tr \<longrightarrow> got i tr = fed i tr)
    \<and> (cs_closed (session_at f i) \<longrightarrow>
        (\<forall>e f'. fabric_step c grace dumps de f e f' \<longrightarrow> (\<forall>raw. e \<noteq> Fed i raw) \<and> (\<forall>v u t. e \<noteq> Said i v (Inr u) t))
        \<and> (\<exists>e f'. fabric_step c grace dumps de f e f' \<and> (e = HungUp i \<or> (\<exists>raw out. e = Got i raw out))))
    \<and> sent_down (cw_prefix c) f (sv_sid (fs_objects f ! i)) = sent dumps i tr"
proof -
  obtain qs where qs: "cs_inbound (session_at f i) = map Message qs @ (if cs_closed (session_at f i) then [CloseMark] else [])"
      "fed i tr = got i tr @ qs" "HungUp i \<in> set tr \<longrightarrow> cs_closed (session_at f i) \<and> qs = []"
    using run_traced [OF assms(1)] assms(3) by (auto simp: traced_def inbox_ok_def)
  have woken: "\<exists>e f'. fabric_step c grace dumps de f e f' \<and> (e = HungUp i \<or> (\<exists>raw out. e = Got i raw out))" if closed: "cs_closed (session_at f i)"
  proof (cases qs)
    case Nil
    then have "cs_inbound (sv_session (fs_objects f ! i)) = CloseMark # []" using qs(1) closed by (simp add: session_at_def)
    then obtain q where q: "cs_inbound (sv_session (fs_objects f ! i)) = CloseMark # q" by blast
    obtain out s f' where "session_receive de fabric_log 0 0 (sv_session (fs_objects f ! i)) f = Some (out, s, f')"
      using receive_answers [OF q] by blast
    from hung_up [OF assms(3) q this] show ?thesis by blast
  next
    case (Cons raw qs')
    then have "\<exists>q. cs_inbound (sv_session (fs_objects f ! i)) = Message raw # q" using qs(1) by (simp add: session_at_def)
    then obtain q where q: "cs_inbound (sv_session (fs_objects f ! i)) = Message raw # q" by blast
    obtain out s f' where "session_receive de fabric_log 0 0 (sv_session (fs_objects f ! i)) f = Some (out, s, f')"
      using receive_answers [OF q] by blast
    from received [OF assms(3) q this] show ?thesis by blast
  qed
  have down: "sent_down (cw_prefix c) f (sv_sid (fs_objects f ! i)) = sent dumps i tr"
    using run_down_ok [OF assms(1,2)] assms(3) by (simp add: down_ok_def)
  have final: "(\<forall>raw. e \<noteq> Fed i raw) \<and> (\<forall>v u t. e \<noteq> Said i v (Inr u) t)"
    if "cs_closed (session_at f i)" "fabric_step c grace dumps de f e f'" for e f'
    using closed_is_final [OF that(2,1)] .
  have "\<exists>waiting. fed i tr = got i tr @ waiting" "HungUp i \<in> set tr \<longrightarrow> got i tr = fed i tr"
    using qs(2,3) by auto
  then show ?thesis using down woken final by blast
qed

section \<open>Durable conversations\<close>

text \<open>What the conversation \<open>conv\<close> gained by an event: what a session logged as it received or sent.\<close>

fun turn_by :: "string \<Rightarrow> fabric \<Rightarrow> fabric_event \<Rightarrow> pyval list" where
  "turn_by conv f (Got i raw (Inr x)) = (if logged_as (session_at f i) = Some conv then [x] else [])"
| "turn_by conv f (Said i v (Inr u) t) = (if logged_as (session_at f i) = Some conv then [turn_entry ''out'' v t] else [])"
| "turn_by conv f _ = []"

definition turns :: "string \<Rightarrow> fabric \<Rightarrow> fabric_event list \<Rightarrow> pyval list" where
  "turns conv f tr = concat (map (turn_by conv f) tr)"

definition logged :: "string \<Rightarrow> ledger \<Rightarrow> pyval list" where
  "logged conv l = map l_value (dict_get (l_event_log l) (conv_key conv) [])"

lemma conv_key_inj [simp]: "conv_key c = conv_key d \<longleftrightarrow> c = d"
  by (simp add: conv_key_def)

lemma logged_log_event [simp]:
  "logged conv (log_event t (conv_key d) v None l) = logged conv l @ (if conv = d then [v] else [])"
  by (simp add: logged_def log_event_def dict_get_def map_of_update)

fun index_of_event :: "fabric_event \<Rightarrow> nat option" where
  "index_of_event (Got i raw out) = Some i"
| "index_of_event (Said i v out t) = Some i"
| "index_of_event e = None"

lemma step_logged_as:
  assumes "fabric_step c grace dumps de f e f'"
  shows "length (fs_objects f) \<le> length (fs_objects f') \<and> (\<forall>i < length (fs_objects f). logged_as (session_at f' i) = logged_as (session_at f i))
    \<and> (\<forall>i. index_of_event e = Some i \<longrightarrow> i < length (fs_objects f))"
  using assms
proof (induction rule: fabric_step.induct)
  case (opened sid att params f reply f')
  show ?case using opened(1) by (cases rule: open_session_cases) (auto simp: session_at_def nth_append)
next
  case (denied sid att params f out f')
  show ?case using denied(1) by (cases rule: open_session_cases) (use denied(2) in auto)
next
  case (received i f raw q t t' out s f')
  then show ?case using receive_frame [OF received(3)] by (auto simp: with_session_def session_at_def nth_list_update)
next
  case (hung_up i f q t t' out s f')
  then show ?case using receive_frame [OF hung_up(3)] by (auto simp: with_session_def session_at_def nth_list_update)
next
  case (said i f t t' v out f')
  then show ?case using send_frame [OF said(2)] by (simp add: session_at_def)
next
  case (left f sid)
  have "logged_as (session_at (teardown grace None sid f) i) = logged_as (session_at f i)" for i
    using teardown_sessions [of grace None sid f i] by auto
  then show ?case by simp
next
  case (unbound f)
  have "logged_as (session_at (unbind_fabric f) i) = logged_as (session_at f i)" for i
    using teardowns_sessions [of 0 None "map fst (fs_sessions f)" f i] by (auto simp: unbind_fabric_def)
  then show ?case by (simp add: unbind_fabric_def)
next
  case (ended i f)
  let ?f1 = "teardown grace (Some i) (sv_sid (fs_objects f ! i)) f"
  have "session_at (run_ends grace i f) j = session_at ?f1 j" for j
    using ended(1) by (cases "j = i") (simp_all add: run_ends_def Let_def session_at_def)
  moreover have "logged_as (session_at ?f1 j) = logged_as (session_at f j)" for j
    using teardown_sessions [of grace "Some i" "sv_sid (fs_objects f ! i)" f j] by auto
  ultimately show ?case by (simp add: run_ends_def Let_def)
qed (auto simp: session_at_def with_session_def nth_list_update)

lemma receive_logged:
  assumes "session_receive de fabric_log t t' s f = Some (out, s', f')" "cs_inbound s = Message raw # q"
  shows "logged conv (fs_ledger f') = logged conv (fs_ledger f)
    @ (case out of Inl _ \<Rightarrow> [] | Inr v \<Rightarrow> if logged_as s = Some conv then [turn_entry ''in'' v t] else [])"
  using assms
  by (auto simp: session_receive_def act_bind_def act_of_def act_return_def split: sum.splits prod.splits option.splits dest!: remember_frame)

lemma send_logged:
  assumes "session_send dumps (put_down prefix sid) fabric_log t t' s v f = (out, f')"
  shows "logged conv (fs_ledger f') = logged conv (fs_ledger f)
    @ (case out of Inl _ \<Rightarrow> [] | Inr _ \<Rightarrow> if logged_as s = Some conv then [turn_entry ''out'' v t] else [])"
  using assms
  by (auto simp: session_send_def act_bind_def act_of_def act_raise_def put_down_def split: if_splits sum.splits prod.splits option.splits dest!: remember_frame)

lemma run_indices:
  assumes "run (fabric_step c grace dumps de) (new_fabric t l) tr f"
  shows "e \<in> set tr \<Longrightarrow> index_of_event e = Some i \<Longrightarrow> i < length (fs_objects f)"
  using assms
proof (induction "new_fabric t l" tr f arbitrary: e rule: run.induct)
  case (run_step tr f e' f')
  then show ?case using step_logged_as [OF run_step.hyps(3)] by fastforce
qed simp

lemma turn_by_cong:
  assumes "\<And>i. index_of_event e = Some i \<Longrightarrow> logged_as (session_at f' i) = logged_as (session_at f i)"
  shows "turn_by conv f' e = turn_by conv f e"
  using assms by (cases "(conv, f, e)" rule: turn_by.cases) simp_all

lemma teardown_ledger [simp]: "fs_ledger (teardown g cur sid f) = fs_ledger f"
  by (simp add: teardown_def Let_def split: option.splits)

lemma teardowns_ledger [simp]: "fs_ledger (fold (teardown g cur) sids f) = fs_ledger f"
  by (induction sids arbitrary: f) simp_all

lemma step_logged:
  assumes "fabric_step c grace dumps de f e f'"
  shows "logged conv (fs_ledger f') = logged conv (fs_ledger f) @ turn_by conv f e"
  using assms
proof (induction rule: fabric_step.induct)
  case (opened sid att params f reply f')
  show ?case using opened(1) by (cases rule: open_session_cases) auto
next
  case (denied sid att params f out f')
  show ?case using denied(1) by (cases rule: open_session_cases) (use denied(2) in auto)
next
  case (received i f raw q t t' out s f')
  then show ?case using receive_logged [OF received(3,2), of conv]
    by (cases out) (auto simp: with_session_def session_at_def)
next
  case (hung_up i f q t t' out s f')
  then show ?case using receive_mark [OF hung_up(3,2)] by (simp add: with_session_def)
next
  case (said i f t t' v out f')
  then show ?case using send_logged [OF said(2), of conv] by (cases out) (auto simp: session_at_def)
qed (auto simp: with_session_def unbind_fabric_def run_ends_def Let_def logged_def)

lemma run_logged:
  assumes "run (fabric_step c grace dumps de) (new_fabric t l) tr f"
  shows "logged conv (fs_ledger f) = logged conv l @ turns conv f tr"
  using assms
proof (induction "new_fabric t l" tr f rule: run.induct)
  case (run_step tr f e f')
  have "turn_by conv f' x = turn_by conv f x" if "x \<in> set (tr @ [e])" for x
    using that run_indices [OF run_step.hyps(1)] step_logged_as [OF run_step.hyps(3)] by (intro turn_by_cong) auto
  then have "map (turn_by conv f') (tr @ [e]) = map (turn_by conv f) (tr @ [e])" by simp
  then have "turns conv f' (tr @ [e]) = turns conv f (tr @ [e])" by (simp only: turns_def)
  then show ?case using step_logged [OF run_step.hyps(3), of conv] run_step.hyps(2) by (simp add: turns_def)
qed (simp add: new_fabric_def turns_def)

text \<open>C29: A durable conversation is kept over any number of sessions, lost connections and restarts: whoever
  opens a session of it reads the last of what all its sessions received and sent, each message once,
  the oldest first, after what an earlier server had logged.\<close>

theorem conversation_is_kept:
  assumes "run (fabric_step c grace dumps de) (new_fabric t l) tr f" "logged_as s = Some conv"
  shows "session_history fabric_log s limit f =
    (Inr (if limit \<le> 0 then []
          else (let all = logged conv l @ turns conv f tr in drop (length all - nat limit) all)), f)"
proof -
  have "rev (map l_value (get_log (conv_key conv) limit (fs_ledger f))) =
      (if limit \<le> 0 then [] else (let all = logged conv (fs_ledger f) in drop (length all - nat limit) all))"
    by (simp add: get_log_def logged_def Let_def rev_map drop_map)
  then show ?thesis
    by (simp add: session_history_def assms(2) past_turns_def act_bind_def act_return_def fabric_log_def memory_log_def
        run_logged [OF assms(1)])
qed

section \<open>A run\<close>

definition demo_channel :: "unit channel" where
  "demo_channel = \<lparr>cw_sig = [], cw_func = (\<lambda>s kw. act_return ()), cw_prefix = ''chat'', cw_durable = True,
     cw_authorizer = None, cw_middleware = None, cw_overrides = [], cw_db = PNone\<rparr>"

definition demo_object :: "session \<Rightarrow> server_session" where
  "demo_object s = \<lparr>sv_sid = ''s'', sv_session = s, sv_subscribed = True, sv_running = True,
     sv_cancel_at = None, sv_cancelled = False, sv_left = None\<rparr>"

definition demo_session :: "inbound list \<Rightarrow> session" where
  "demo_session q = \<lparr>cs_inbound = q, cs_closed = False, cs_principal = None, cs_correlation_id = None,
     cs_attachment = None, cs_durable = True, cs_conversation_id = Some ''c''\<rparr>"

definition demo_fabric :: "(string \<times> bytes) list \<Rightarrow> ledger \<Rightarrow> session \<Rightarrow> fabric" where
  "demo_fabric down l s = \<lparr>fs_sessions = [(''s'', 0)], fs_objects = [demo_object s], fs_now = 0, fs_down = down, fs_ledger = l\<rparr>"

definition demo_trace :: "fabric_event list" where
  "demo_trace = [Opened ''s'' None [(''conversation_id'', ''c'')], Fed 0 [7],
     Got 0 [7] (Inr (turn_entry ''in'' (PStr ''hi'') 0)), Said 0 (PInt 1) (Inr ()) 1, Left ''s'']"

abbreviation demo_dumps :: "pyval \<Rightarrow> exc + bytes" where
  "demo_dumps \<equiv> (\<lambda>v. Inr [8])"

abbreviation demo_loads :: "bytes \<Rightarrow> exc + pyval" where
  "demo_loads \<equiv> (\<lambda>raw. Inr (PStr ''hi''))"

lemmas demo_defs = demo_fabric_def demo_object_def demo_session_def demo_channel_def

lemma demo_run:
  "\<exists>f. run (fabric_step demo_channel 5 demo_dumps demo_loads) (new_fabric 0 l) demo_trace f
     \<and> length (fs_objects f) = 1 \<and> cs_closed (session_at f 0) \<and> sv_sid (fs_objects f ! 0) = ''s''
     \<and> logged_as (session_at f 0) = Some ''c''"
proof -
  let ?step = "fabric_step demo_channel 5 demo_dumps demo_loads"
  let ?l1 = "log_event 0 (conv_key ''c'') (turn_entry ''in'' (PStr ''hi'') 0) None l"
  let ?l2 = "log_event 2 (conv_key ''c'') (turn_entry ''out'' (PInt 1) 1) None ?l1"
  have s1: "?step (new_fabric 0 l) (Opened ''s'' None [(''conversation_id'', ''c'')]) (demo_fabric [] l (demo_session []))"
    by (rule opened) (simp_all add: demo_defs new_fabric_def open_session_def channel_authorize_def check_authorized_def new_session_def)
  have s2: "?step (demo_fabric [] l (demo_session [])) (Fed 0 [7]) (demo_fabric [] l (demo_session [Message [7]]))"
    using sample [of 0 "demo_fabric [] l (demo_session [])" demo_channel 5 demo_dumps demo_loads "[7]"]
    by (simp add: demo_defs with_session_def feed_def)
  let ?f2 = "demo_fabric [] l (demo_session [Message [7]])"
  have got: "session_receive demo_loads fabric_log 0 0 (sv_session (fs_objects ?f2 ! 0)) ?f2
      = Some (Inr (PStr ''hi''), demo_session [], demo_fabric [] ?l1 (demo_session [Message [7]]))"
    by (simp add: demo_defs session_receive_def act_bind_def act_of_def act_return_def remember_def logged_as_def append_turn_def
        fabric_log_def memory_log_def)
  have "?step ?f2 (Got 0 [7] (map_sum id (\<lambda>v. turn_entry ''in'' v 0) (Inr (PStr ''hi''))))
      (with_session 0 (\<lambda>_. demo_session []) (demo_fabric [] ?l1 (demo_session [Message [7]])))"
    by (rule received [where q = "[]", OF _ _ got]) (simp_all add: demo_defs)
  then have s3: "?step ?f2 (Got 0 [7] (Inr (turn_entry ''in'' (PStr ''hi'') 0))) (demo_fabric [] ?l1 (demo_session []))"
    by (simp add: demo_defs with_session_def)
  have "session_send demo_dumps (put_down ''chat'' ''s'') fabric_log 1 2 (demo_session []) (PInt 1) (demo_fabric [] ?l1 (demo_session []))
      = (Inr (), demo_fabric [(down_key ''chat'' ''s'', [8])] ?l2 (demo_session []))"
    by (simp add: demo_defs session_send_def act_bind_def act_of_def act_return_def remember_def logged_as_def append_turn_def
        fabric_log_def memory_log_def put_down_def)
  then have s4: "?step (demo_fabric [] ?l1 (demo_session [])) (Said 0 (PInt 1) (Inr ()) 1)
      (demo_fabric [(down_key ''chat'' ''s'', [8])] ?l2 (demo_session []))"
    by (intro said [where t' = 2]) (simp_all add: demo_defs)
  have s5: "?step (demo_fabric [(down_key ''chat'' ''s'', [8])] ?l2 (demo_session [])) (Left ''s'')
      (teardown 5 None ''s'' (demo_fabric [(down_key ''chat'' ''s'', [8])] ?l2 (demo_session [])))"
    by (rule left)
  let ?f = "teardown 5 None ''s'' (demo_fabric [(down_key ''chat'' ''s'', [8])] ?l2 (demo_session []))"
  have r: "run ?step (new_fabric 0 l) demo_trace (teardown 5 None ''s'' (demo_fabric [(down_key ''chat'' ''s'', [8])] ?l2 (demo_session [])))"
    using run_step [where step = ?step, OF run_step [where step = ?step, OF run_step [where step = ?step,
        OF run_step [where step = ?step, OF run_step [where step = ?step, OF run_nil s1] s2] s3] s4] s5]
    by (simp add: demo_trace_def)
  have "length (fs_objects ?f) = 1 \<and> cs_closed (session_at ?f 0) \<and> sv_sid (fs_objects ?f ! 0) = ''s'' \<and> logged_as (session_at ?f 0) = Some ''c''"
    by (simp add: demo_defs teardown_def session_at_def close_session_def logged_as_def)
  then show ?thesis using r by blast
qed

lemma sessions_are_kept_witness:
  "\<exists>f. session_kept demo_channel 5 (map_of (fs_sessions f)) 0 (fs_objects f ! 0) \<and> cs_closed (session_at f 0)"
proof -
  obtain f where f: "run (fabric_step demo_channel 5 demo_dumps demo_loads) (new_fabric 0 empty_ledger) demo_trace f"
      "length (fs_objects f) = 1" "cs_closed (session_at f 0)" using demo_run by blast
  have "session_kept demo_channel 5 (map_of (fs_sessions f)) 0 (fs_objects f ! 0)"
    by (rule sessions_are_kept [OF f(1)]) (simp_all add: f(2) demo_trace_def)
  then show ?thesis using f(3) by blast
qed

lemma channel_delivers_in_order_witness:
  "\<exists>f. sent_down ''chat'' f ''s'' = [[8]] \<and> got 0 demo_trace = [[7]] \<and> cs_closed (session_at f 0)"
proof -
  obtain f where f: "run (fabric_step demo_channel 5 demo_dumps demo_loads) (new_fabric 0 empty_ledger) demo_trace f"
      "length (fs_objects f) = 1" "cs_closed (session_at f 0)" "sv_sid (fs_objects f ! 0) = ''s''" using demo_run by blast
  have "distinct (opened_sids demo_trace)" "0 < length (fs_objects f)" by (simp_all add: demo_trace_def f(2))
  from channel_delivers_in_order [OF f(1) this]
  have "sent_down ''chat'' f ''s'' = sent demo_dumps 0 demo_trace" by (simp add: f(4) demo_channel_def)
  then show ?thesis using f(3) by (intro exI [of _ f]) (simp add: demo_trace_def trace_defs)
qed

lemma conversation_is_kept_witness:
  "\<exists>f. session_history fabric_log (demo_session []) 1 f = (Inr [turn_entry ''out'' (PInt 1) 1], f)
     \<and> session_history fabric_log (demo_session []) 5 f = (Inr [turn_entry ''in'' (PStr ''hi'') 0, turn_entry ''out'' (PInt 1) 1], f)"
proof -
  obtain f where f: "run (fabric_step demo_channel 5 demo_dumps demo_loads) (new_fabric 0 empty_ledger) demo_trace f"
    and conv: "logged_as (session_at f 0) = Some ''c''" using demo_run by blast
  have s: "logged_as (demo_session []) = Some ''c''" by (simp add: demo_session_def logged_as_def)
  have "logged ''c'' empty_ledger @ turns ''c'' f demo_trace = [turn_entry ''in'' (PStr ''hi'') 0, turn_entry ''out'' (PInt 1) 1]"
    using conv by (simp add: logged_def empty_ledger_def dict_get_def turns_def demo_trace_def)
  then show ?thesis
    using conversation_is_kept [OF f s, of 1] conversation_is_kept [OF f s, of 5] by (intro exI [of _ f]) simp
qed

section \<open>Findings\<close>

text \<open>The session id is chosen by the client. A second opening under an id in use takes its place in the
  table: when the client leaves, the first session stays open, and its handler is never told.\<close>

lemma reopened_session_is_orphaned:
  defines "again \<equiv> snd (open_session demo_channel ''s'' None [] (snd (open_session demo_channel ''s'' None [] (new_fabric 0 empty_ledger))))"
  shows "let f = teardown 5 None ''s'' again
    in fs_sessions f = [] \<and> \<not> cs_closed (session_at f 0) \<and> sv_running (fs_objects f ! 0) \<and> cs_closed (session_at f 1)"
  by (simp add: again_def demo_defs new_fabric_def open_session_def channel_authorize_def check_authorized_def new_session_def
      teardown_def session_at_def close_session_def)

text \<open>Only \<open>UnauthorizedError\<close> is answered as what it is: an authorizer that raises \<open>ForbiddenError\<close>
  makes the caller see an internal error.\<close>

lemma forbidden_opening_is_internal:
  defines "c \<equiv> demo_channel\<lparr>cw_authorizer := Some (\<lambda>ctx. (Inl (raised (forbidden_error (PStr ''no'') PNone PNone)), ctx))\<rparr>"
  shows "fst (on_open c ''chat/s/open'' None [] f)
    = Inr (reply_err (PStr ''channel open failed'') (PStr ''internal_error'') PNone PNone)"
  by (simp add: c_def demo_channel_def on_open_def open_session_def channel_authorize_def check_authorized_def
      is_unauthorized_def raised_def forbidden_error_def istos_error_init_def is_exception_def)

end
