(* ===== verification/ChannelClient.thy ===== *)
theory ChannelClient
  imports Fabric
begin

text \<open>
  The caller's end of a channel: \<open>ChannelClient\<close> of \<open>primitives/channel_fabric.py\<close>, the handshake
  \<open>open_channel\<close> of \<open>app/streaming.py\<close>, and the decorators of \<open>primitives/clients.py\<close> that open a
  channel or a stream for the body they wrap.
\<close>

section \<open>The client\<close>

record channel_client =
  cc_up_key :: string
  cc_down_key :: string
  cc_live_key :: string
  cc_conversation_id :: string
  cc_inbound :: "inbound list"
  cc_subscribed :: bool
  cc_alive :: bool
  cc_closed :: bool

definition new_client :: "string \<Rightarrow> string \<Rightarrow> string \<Rightarrow> channel_client" where
  "new_client prefix sid conversation_id =
     \<lparr>cc_up_key = prefix @ ''/'' @ sid @ ''/up'', cc_down_key = prefix @ ''/'' @ sid @ ''/down'',
      cc_live_key = prefix @ ''/'' @ sid, cc_conversation_id = conversation_id,
      cc_inbound = [], cc_subscribed = False, cc_alive = False, cc_closed = False\<rparr>"

definition subscribe_down :: "channel_client \<Rightarrow> channel_client" where
  "subscribe_down cc = cc\<lparr>cc_subscribed := True\<rparr>"

text \<open>The callback of the subscription, scheduled on the loop.\<close>

definition client_feed :: "bytes \<Rightarrow> channel_client \<Rightarrow> channel_client" where
  "client_feed raw cc = cc\<lparr>cc_inbound := cc_inbound cc @ [Message raw]\<rparr>"

definition declare_alive :: "channel_client \<Rightarrow> channel_client" where
  "declare_alive cc = cc\<lparr>cc_alive := True\<rparr>"

definition client_send :: "(pyval \<Rightarrow> exc + bytes) \<Rightarrow> (string \<Rightarrow> bytes \<Rightarrow> ('w, unit) act) \<Rightarrow> channel_client \<Rightarrow> pyval \<Rightarrow> ('w, unit) act" where
  "client_send serialize send cc data =
     (if cc_closed cc then act_raise (channel_closed ''channel is closed'')
      else act_bind (act_of (serialize data)) (send (cc_up_key cc)))"

definition client_receive :: "(bytes \<Rightarrow> exc + pyval) \<Rightarrow> channel_client \<Rightarrow> ((exc + pyval) \<times> channel_client) option" where
  "client_receive deserialize cc =
     (case cc_inbound cc of
        [] \<Rightarrow> None
      | CloseMark # q \<Rightarrow> Some (Inl (channel_closed []), cc\<lparr>cc_inbound := q @ [CloseMark]\<rparr>)
      | Message raw # q \<Rightarrow> Some (deserialize raw, cc\<lparr>cc_inbound := q\<rparr>))"

text \<open>Failures to undeclare are suppressed.\<close>

definition client_close :: "channel_client \<Rightarrow> channel_client" where
  "client_close cc =
     (if cc_closed cc then cc
      else cc\<lparr>cc_closed := True, cc_alive := False, cc_subscribed := False, cc_inbound := cc_inbound cc @ [CloseMark]\<rparr>)"

section \<open>The handshake\<close>

text \<open>\<open>open_channel\<close>: \<open>ask\<close> is the query, which gives the payload of the first good reply; \<open>sid\<close> and
  \<open>uuid\<close> are the two identifiers drawn. A client that is not opened is closed.\<close>

definition open_channel :: "(pyval \<Rightarrow> string) \<Rightarrow> (pyval \<Rightarrow> string) \<Rightarrow> (bytes \<Rightarrow> exc + pyval)
    \<Rightarrow> (string \<Rightarrow> bytes option \<Rightarrow> ('w, bytes option) act) \<Rightarrow> string \<Rightarrow> string \<Rightarrow> string \<Rightarrow> string option \<Rightarrow> string option
    \<Rightarrow> principal request_context option \<Rightarrow> (string, pyval) dict \<Rightarrow> ('w, channel_client) act" where
  "open_channel str json deserialize ask prefix sid uuid token conversation_id ctx params =
     (let conv = (case conversation_id of None \<Rightarrow> uuid | Some s \<Rightarrow> if s = [] then uuid else s);
          attachment = to_attachment json (ambient_envelope (opt_str token) ctx);
          cc = subscribe_down (new_client prefix sid conv);
          selector = build_selector str json (prefix @ ''/'' @ sid @ ''/open'')
                       (AList.update ''conversation_id'' (PStr conv) params)
      in act_bind (ask selector attachment) (\<lambda>payload.
         case payload of
           None \<Rightarrow> act_raise (raised (istos_error_init IstosError
                     (PStr (''No channel server answered for '' @ quoted prefix @ ''.'')) (PStr ''not_found'') 504 PNone PNone))
         | Some raw \<Rightarrow>
             act_bind (act_of (deserialize raw)) (\<lambda>resp.
               if is_error_payload resp
               then (case resp of
                       PDict d \<Rightarrow> (case error_from_payload d (PStr ''unauthorized'') of
                                     Inl e \<Rightarrow> act_raise (exc_of e) | Inr e \<Rightarrow> act_raise (raised e))
                     | _ \<Rightarrow> act_raise (attribute_error ''get''))
               else act_return (declare_alive cc))))"

section \<open>The decorators\<close>

text \<open>\<open>_client_base._drive\<close>: the live object comes first after the positional arguments.\<close>

definition client_drive :: "'u query_body \<Rightarrow> pyval list \<Rightarrow> pyval \<Rightarrow> 'u world \<Rightarrow> ((exc + pyval) \<times> 'u world) option" where
  "client_drive body args live w =
     (case body of
        PlainBody f \<Rightarrow> Some (f (args @ [live]) w)
      | InjectedBody fs positional ov f \<Rightarrow>
          invoke_with_dependencies fs positional ov [] (take 1 (positional_param_names (f_sig fs f))) f (args @ [live]) w)"

text \<open>\<open>try: await self._drive(...)\<close>, \<open>finally: await close()\<close>.\<close>

definition drive_and_close :: "('u world, unit) act \<Rightarrow> 'u query_body \<Rightarrow> pyval list \<Rightarrow> pyval \<Rightarrow> 'u world \<Rightarrow> ((exc + pyval) \<times> 'u world) option" where
  "drive_and_close close body args live w =
     map_option (\<lambda>(out, w1). case close w1 of (Inl e, w2) \<Rightarrow> (Inl e, w2) | (Inr _, w2) \<Rightarrow> (out, w2)) (client_drive body args live w)"

text \<open>The token of the call, or of the decorator; the other keywords are the parameters.\<close>

definition call_token :: "string option \<Rightarrow> (string, pyval) dict \<Rightarrow> pyval" where
  "call_token own kwargs = (case map_of kwargs ''token'' of None \<Rightarrow> opt_str own | Some PNone \<Rightarrow> opt_str own | Some v \<Rightarrow> v)"

text \<open>\<open>opener token params\<close> opens the channel or the stream and gives the live object and its close.\<close>

definition client_call :: "(pyval \<Rightarrow> (string, pyval) dict \<Rightarrow> ('u world, pyval \<times> ('u world, unit) act) act) \<Rightarrow> string option
    \<Rightarrow> 'u query_body \<Rightarrow> pyval list \<Rightarrow> (string, pyval) dict \<Rightarrow> 'u world \<Rightarrow> ((exc + pyval) \<times> 'u world) option" where
  "client_call opener own body args kwargs w =
     (case opener (call_token own kwargs) (AList.delete ''token'' kwargs) w of
        (Inl e, w1) \<Rightarrow> Some (Inl e, w1)
      | (Inr (live, close), w1) \<Rightarrow> drive_and_close close body args live w1)"

section \<open>Client and server\<close>

text \<open>The mesh hands the query to the server's queryable and its reply back.\<close>

definition answers_open :: "'u channel \<Rightarrow> (pyval \<Rightarrow> bytes) \<Rightarrow> (string \<Rightarrow> bytes option \<Rightarrow> (fabric, bytes option) act) \<Rightarrow> bool" where
  "answers_open c serialize ask \<longleftrightarrow>
     (\<forall>sel att f reply f'. on_open c (fst (split_once (CHR ''?'') sel)) att (selector_params sel) f = (Inr reply, f')
        \<longrightarrow> ask sel att f = (Inr (Some (serialize (PDict reply))), f'))"

text \<open>The serializer carries the answers of the server.\<close>

definition carries_answers :: "'u channel \<Rightarrow> (pyval \<Rightarrow> bytes) \<Rightarrow> (bytes \<Rightarrow> exc + pyval) \<Rightarrow> bool" where
  "carries_answers c serialize deserialize \<longleftrightarrow>
     (\<forall>key att params f reply f'. on_open c key att params f = (Inr reply, f')
        \<longrightarrow> deserialize (serialize (PDict reply)) = Inr (PDict reply))"

lemma sid_of_open: "CHR ''/'' \<notin> set sid \<Longrightarrow> sid_of (prefix @ ''/'' @ sid @ ''/open'') prefix = sid"
  by (simp add: sid_of_def split_once_at)

lemma split_selector:
  assumes "CHR ''?'' \<notin> set key"
  shows "fst (split_once (CHR ''?'') (build_selector str json key params)) = key"
proof (cases "encode_params str json params = []")
  case True
  then show ?thesis using assms by (auto simp: build_selector_def split_once_def takeWhile_eq_all_conv)
next
  case False
  then show ?thesis using split_once_at [OF assms] by (simp add: build_selector_def Let_def)
qed

lemma decoded_params:
  "dict_ok params \<Longrightarrow> CHR ''?'' \<notin> set key \<Longrightarrow>
   (if selector_params (build_selector str json key params) = [] then [] else decode_params (selector_params (build_selector str json key params)))
     = encode_params str json params"
  using decode_selector [of key params str json] by (auto simp: decode_params_def)

lemma encode_with_conversation:
  "map_of (encode_params str json (AList.update k (PStr v) params)) k = Some v"
  "AList.delete k (encode_params str json (AList.update k (PStr v) params)) = AList.delete k (encode_params str json params)"
  by (induction params) (auto simp: encode_params_def)


definition wire_answer :: "pyval \<Rightarrow> bytes" where
  "wire_answer v = (case v of PDict [_, (_, PStr s)] \<Rightarrow> map (\<lambda>ch. of_nat (of_char ch)) s | _ \<Rightarrow> [])"

definition read_answer :: "bytes \<Rightarrow> exc + pyval" where
  "read_answer raw = Inr (PDict [(''ok'', PBool True), (''sid'', PStr (map (\<lambda>b. char_of (unat b)) raw))])"

lemma read_written: "char_of (unat (of_nat (of_char ch) :: 8 word)) = ch"
  using nat_of_char_less_256 [of ch] by (simp add: unat_of_nat)

definition ask_demo :: "string \<Rightarrow> bytes option \<Rightarrow> (fabric, bytes option) act" where
  "ask_demo sel att f = (case on_open demo_channel (fst (split_once (CHR ''?'') sel)) att (selector_params sel) f of
     (Inl e, f') \<Rightarrow> (Inl e, f') | (Inr reply, f') \<Rightarrow> (Inr (Some (wire_answer (PDict reply))), f'))"


text \<open>A message whose callback was pending when the client closed is received after the client was told
  that the channel is closed.\<close>

lemma closed_client_receives_again:
  "client_receive loads (client_feed raw (client_close (new_client p sid conv)))
     = Some (Inl (channel_closed []), (client_feed raw (client_close (new_client p sid conv)))\<lparr>cc_inbound := [Message raw, CloseMark]\<rparr>)"
  by (simp add: client_receive_def client_feed_def client_close_def new_client_def)

end
