(* ===== verification/Trajectory.thy ===== *)
theory Trajectory
  imports AgentGate PyNum
begin

text \<open>
  Recording an agent run and replaying it (\<open>testing/trajectory.py\<close>). The recorder wraps the model and
  observes the events of the loop; the replay runs the same loop on the recorded completions, with
  tools that hand back recorded results and a gate that decides as the human did. The file
  that holds a trajectory is in \<open>Evals\<close>.
\<close>

section \<open>Trajectories\<close>

record model_turn =
  tn_content :: "string option"
  tn_calls :: "tool_call list"
  tn_model :: "string option"
  tn_finish_reason :: "string option"
  tn_usage :: "(string, pyval) dict option"
  tn_offered :: "pyval list"

definition from_reply :: "model_reply \<Rightarrow> pyval list \<Rightarrow> model_turn" where
  "from_reply r offered =
     \<lparr>tn_content = mr_content r, tn_calls = mr_calls r, tn_model = mr_model r,
      tn_finish_reason = mr_finish_reason r, tn_usage = mr_usage r, tn_offered = offered\<rparr>"

definition to_reply :: "model_turn \<Rightarrow> model_reply" where
  "to_reply t =
     \<lparr>mr_content = tn_content t, mr_calls = tn_calls t, mr_model = tn_model t,
      mr_finish_reason = tn_finish_reason t, mr_usage = tn_usage t\<rparr>"

record tool_outcome =
  to_name :: string
  to_arguments :: "(string, pyval) dict"
  to_content :: string
  to_error :: bool
  to_call :: "string option"

record trajectory =
  tj_name :: string
  tj_system :: "string option"
  tj_service :: "string option"
  tj_users :: "string list"
  tj_turns :: "model_turn list"
  tj_tools :: "tool_outcome list"
  tj_events :: "(string, pyval) dict list"
  tj_approvals :: "(string, pyval) dict list"

definition tool_names :: "trajectory \<Rightarrow> string list" where
  "tool_names tj = map to_name (tj_tools tj)"

definition final_message :: "texts \<Rightarrow> trajectory \<Rightarrow> string option" where
  "final_message tx tj =
     (case filter (\<lambda>e. dict_get e ''kind'' PNone = PStr ''message'') (rev (tj_events tj)) of
        [] \<Rightarrow> None
      | e # _ \<Rightarrow> (case dict_get e ''content'' PNone of PNone \<Rightarrow> None | v \<Rightarrow> Some (str_of tx v)))"

definition event_to_dict :: "agent_event \<Rightarrow> (string, pyval) dict" where
  "event_to_dict e =
     filter (\<lambda>(k, v). v \<noteq> PNone \<or> k = ''content'')
       ([(''kind'', PStr (ev_kind e)), (''content'', ev_content e), (''name'', opt_str (ev_name e)),
         (''arguments'', case ev_arguments e of None \<Rightarrow> PNone | Some d \<Rightarrow> PDict d),
         (''tool_call_id'', opt_str (ev_call e)), (''error'', PBool (ev_error e))]
        @ (case ev_approval e of None \<Rightarrow> [] | Some i \<Rightarrow> [(''approval_id'', PStr i)]))"

section \<open>Recording\<close>

record recorder =
  ro_name :: string
  ro_system :: "string option"
  ro_service :: "string option"
  ro_turns :: "model_turn list"
  ro_events :: "(string, pyval) dict list"
  ro_tools :: "tool_outcome list"
  ro_approvals :: "(string, pyval) dict list"
  ro_users :: "string list"
  ro_pending :: "(string, string \<times> (string, pyval) dict) dict"

definition new_recorder :: "string \<Rightarrow> string option \<Rightarrow> string option \<Rightarrow> recorder" where
  "new_recorder name system service =
     \<lparr>ro_name = name, ro_system = system, ro_service = service, ro_turns = [], ro_events = [],
      ro_tools = [], ro_approvals = [], ro_users = [], ro_pending = []\<rparr>"

definition call_id :: "agent_event \<Rightarrow> string" where
  "call_id e = (case ev_call e of None \<Rightarrow> ''None'' | Some i \<Rightarrow> i)"

definition outcome_of :: "texts \<Rightarrow> agent_event \<Rightarrow> (string \<times> (string, pyval) dict) option \<Rightarrow> tool_outcome" where
  "outcome_of tx e call =
     \<lparr>to_name = (case ev_name e of
          Some n \<Rightarrow> if n \<noteq> [] then n else (case call of None \<Rightarrow> [] | Some (m, _) \<Rightarrow> m)
        | None \<Rightarrow> (case call of None \<Rightarrow> [] | Some (m, _) \<Rightarrow> m)),
      to_arguments = (case call of None \<Rightarrow> [] | Some (_, args) \<Rightarrow> args),
      to_content = (case ev_content e of PNone \<Rightarrow> [] | v \<Rightarrow> str_of tx v),
      to_error = ev_error e, to_call = ev_call e\<rparr>"

definition approval_entry :: "agent_event \<Rightarrow> (string, pyval) dict" where
  "approval_entry e =
     [(''kind'', PStr (ev_kind e)), (''id'', opt_str (ev_approval e)), (''tool'', opt_str (ev_name e)),
      (''arguments'', case ev_arguments e of None \<Rightarrow> PNone | Some d \<Rightarrow> PDict d),
      (''content'', ev_content e), (''error'', PBool (ev_error e))]"

definition observe :: "texts \<Rightarrow> agent_event \<Rightarrow> recorder \<Rightarrow> recorder" where
  "observe tx e r =
     (let r1 = r\<lparr>ro_events := ro_events r @ [event_to_dict e]\<rparr>
      in if ev_kind e = ''tool_call''
         then r1\<lparr>ro_pending := AList.update (call_id e)
                (case ev_name e of None \<Rightarrow> [] | Some n \<Rightarrow> n, case ev_arguments e of None \<Rightarrow> [] | Some d \<Rightarrow> d) (ro_pending r)\<rparr>
         else if ev_kind e = ''tool_result''
         then r1\<lparr>ro_pending := AList.delete (call_id e) (ro_pending r),
                ro_tools := ro_tools r @ [outcome_of tx e (map_of (ro_pending r) (call_id e))]\<rparr>
         else if ev_kind e = ''approval_request'' \<or> ev_kind e = ''approval_decision''
         then r1\<lparr>ro_approvals := ro_approvals r @ [approval_entry e]\<rparr>
         else r1)"

definition heard_user :: "string \<Rightarrow> recorder \<Rightarrow> recorder" where
  "heard_user text r = r\<lparr>ro_users := ro_users r @ [text]\<rparr>"

definition build :: "recorder \<Rightarrow> trajectory" where
  "build r =
     \<lparr>tj_name = ro_name r, tj_system = ro_system r, tj_service = ro_service r, tj_users = ro_users r,
      tj_turns = ro_turns r, tj_tools = ro_tools r, tj_events = ro_events r, tj_approvals = ro_approvals r\<rparr>"

text \<open>\<open>t.get("function", {}).get("name", "") for t in tools or []\<close>.\<close>

fun schema_names :: "pyval list \<Rightarrow> exc + pyval list" where
  "schema_names [] = Inr []"
| "schema_names (PDict d # ts) =
     (case dict_get d ''function'' (PDict []) of
        PDict g \<Rightarrow> res_bind (schema_names ts) (\<lambda>ns. Inr (dict_get g ''name'' (PStr []) # ns))
      | _ \<Rightarrow> Inl (attribute_error ''get''))"
| "schema_names (_ # ts) = Inl (attribute_error ''get'')"

definition offered_names :: "pyval list option \<Rightarrow> exc + pyval list" where
  "offered_names tools = schema_names (case tools of None \<Rightarrow> [] | Some ts \<Rightarrow> ts)"

text \<open>The world of a recorded run: the world, and the recorder.\<close>

definition beside :: "('w, 'a) io \<Rightarrow> ('w \<times> 'r, 'a) io" where
  "beside m = (\<lambda>(w, r). case m w of None \<Rightarrow> None | Some (out, w') \<Rightarrow> Some (out, w', r))"

definition recording_model :: "'w model \<Rightarrow> ('w \<times> recorder) model" where
  "recording_model inner ms tools =
     io_bind (beside (inner ms tools)) (\<lambda>reply (w, r).
       case offered_names tools of
         Inl e \<Rightarrow> Some (Inl e, w, r)
       | Inr names \<Rightarrow> Some (Inr reply, w, r\<lparr>ro_turns := ro_turns r @ [from_reply reply names]\<rparr>))"

definition tool_beside :: "'w mesh_tool \<Rightarrow> ('w \<times> 'r) mesh_tool" where
  "tool_beside t =
     \<lparr>mt_prefix = mt_prefix t, mt_name = mt_name t, mt_description = mt_description t,
      mt_parameters = mt_parameters t, mt_approval = mt_approval t,
      mt_invoke = map_option (\<lambda>f args. beside (f args)) (mt_invoke t),
      mt_app = map_option (\<lambda>f p tok s args. beside (f p tok s args)) (mt_app t)\<rparr>"

definition approver_beside :: "'w approver \<Rightarrow> ('w \<times> 'r) approver" where
  "approver_beside g =
     \<lparr>ap_request = (\<lambda>tool args p why conv. beside (ap_request g tool args p why conv)),
      ap_wait = (\<lambda>i. beside (ap_wait g i))\<rparr>"

definition recording :: "'w agent \<Rightarrow> ('w \<times> recorder) agent" where
  "recording a =
     \<lparr>ag_model = recording_model (ag_model a), ag_tools = map tool_beside (ag_tools a),
      ag_max_steps = ag_max_steps a, ag_max_messages = ag_max_messages a, ag_token = ag_token a,
      ag_timeout_s = ag_timeout_s a, ag_approvals = map_option approver_beside (ag_approvals a),
      ag_conversation = ag_conversation a, ag_texts = ag_texts a,
      ag_emit = (\<lambda>e (w, r). Some (Inr (), w, observe (ag_texts a) e r))\<rparr>"

text \<open>The passes of a run: one per user turn, or one when there is none. \<open>heard\<close> notes the turn.\<close>

fun passes :: "(string \<Rightarrow> 'w \<Rightarrow> 'w) \<Rightarrow> 'w agent \<Rightarrow> string list \<Rightarrow> ('w chat, unit) io" where
  "passes heard a [] = io_return ()"
| "passes heard a (text # ts) =
     io_bind (if text = [] then io_return ()
              else (\<lambda>(ms, w). Some (Inr (), ms @ [chat_message ''user'' (PStr text)], heard text w))) (\<lambda>_.
     io_bind (run_agent a) (\<lambda>_. passes heard a ts))"

definition turns_of :: "string list \<Rightarrow> string list" where
  "turns_of users = (if users = [] then [[]] else users)"

definition with_system :: "string option \<Rightarrow> message list \<Rightarrow> message list" where
  "with_system system ms =
     (case system of
        Some s \<Rightarrow> if s \<noteq> [] \<and> \<not> list_ex (role_is ''system'') ms then chat_message ''system'' (PStr s) # ms else ms
      | None \<Rightarrow> ms)"

definition record_agent :: "'w agent \<Rightarrow> message list \<Rightarrow> string \<Rightarrow> string list \<Rightarrow> string option \<Rightarrow> 'w
    \<Rightarrow> ((exc + trajectory) \<times> 'w) option" where
  "record_agent a ms name users system w =
     (case passes (\<lambda>text (w, r). (w, heard_user text r)) (recording a) (turns_of users)
             (with_system system ms, w, new_recorder name system None) of
        None \<Rightarrow> None
      | Some (Inl e, _, w', _) \<Rightarrow> Some (Inl e, w')
      | Some (Inr _, _, w', r) \<Rightarrow> Some (Inr (build r), w'))"

section \<open>Replaying\<close>

text \<open>What a replay changes: the place among the recorded completions and the catalogues it was offered,
  the results still to be handed back, the gate with the decisions still to be made, the recorder.\<close>

record replayed =
  rp_next :: nat
  rp_offered :: "pyval list list"
  rp_queues :: "(string, string list) dict"
  rp_gate :: "bool list gated_world"
  rp_recorder :: recorder

definition replay_exhausted :: "nat \<Rightarrow> nat \<Rightarrow> exc" where
  "replay_exhausted wanted stored =
     builtin_exc [''ReplayExhausted'', ''RuntimeError'']
       (''The loop asked for completion '' @ show_nat wanted @ '' but only '' @ show_nat stored @ '' were recorded'')"

definition replay_model :: "model_turn list \<Rightarrow> replayed model" where
  "replay_model turns ms tools s =
     (case offered_names tools of
        Inl e \<Rightarrow> Some (Inl e, s)
      | Inr names \<Rightarrow>
          (let s1 = s\<lparr>rp_offered := rp_offered s @ [names]\<rparr>
           in if rp_next s \<ge> length turns then Some (Inl (replay_exhausted (rp_next s + 1) (length turns)), s1)
              else Some (Inr (to_reply (turns ! rp_next s)), s1\<lparr>rp_next := rp_next s + 1\<rparr>)))"

definition unrecorded :: string where
  "unrecorded = ''__istos_replay_unrecorded__''"

definition queued :: "tool_outcome list \<Rightarrow> (string, string list) dict" where
  "queued outcomes = fold (\<lambda>o' q. AList.update (to_name o') (dict_get q (to_name o') [] @ [to_content o']) q) outcomes []"

definition gated_names :: "trajectory \<Rightarrow> pyval set" where
  "gated_names tj =
     set (map (\<lambda>a. dict_get a ''tool'' PNone)
       (filter (\<lambda>a. dict_get a ''kind'' PNone = PStr ''approval_request'') (tj_approvals tj)))"

definition canned :: "string \<Rightarrow> (string, pyval) dict \<Rightarrow> (replayed, pyval) io" where
  "canned name args s =
     (case dict_get (rp_queues s) name [] of
        [] \<Rightarrow> Some (Inr (PStr (unrecorded @ '': '' @ name)), s)
      | c # cs \<Rightarrow> Some (Inr (PStr c), s\<lparr>rp_queues := AList.update name cs (rp_queues s)\<rparr>))"

definition replay_tool :: "trajectory \<Rightarrow> string \<Rightarrow> replayed mesh_tool res" where
  "replay_tool tj name =
     mesh_tool_init name None (Some name) (''replay of '' @ name) PNone (Some (canned name)) (PBool (PStr name \<in> gated_names tj))"

text \<open>\<open>MeshTool\<close> accepts all of them, since they have an \<open>invoke\<close>.\<close>

definition replay_tools :: "trajectory \<Rightarrow> replayed mesh_tool list" where
  "replay_tools tj = List.map_filter (\<lambda>n. case replay_tool tj n of Inl _ \<Rightarrow> None | Inr t \<Rightarrow> Some t) (map fst (queued (tj_tools tj)))"

text \<open>The gate: a request is decided when it is filed, as the next recorded decision was. \<open>clk\<close> reads the
  clock twice.\<close>

definition recorded_decisions :: "trajectory \<Rightarrow> bool list" where
  "recorded_decisions tj =
     map (\<lambda>a. \<not> truthy (dict_get a ''error'' PNone))
       (filter (\<lambda>a. dict_get a ''kind'' PNone = PStr ''approval_decision'') (tj_approvals tj))"

definition bare_gate :: "string \<Rightarrow> bool list gate" where
  "bare_gate uuid = gate_init None (Some 5) ''istos'' None uuid None"

definition decide_now :: "bool list gate \<Rightarrow> (approval_request \<Rightarrow> time \<times> time) \<Rightarrow> approval_request \<Rightarrow> (bool list approvals, unit) act" where
  "decide_now g clk r s =
     (let (yes, rest) = (case ap_world s of [] \<Rightarrow> (True, []) | b # bs \<Rightarrow> (b, bs))
      in act_bind (decide g (ar_id r) yes (Some ''replay'') None None (fst (clk r)) (snd (clk r))) (\<lambda>_. act_return ())
           (s\<lparr>ap_world := rest\<rparr>))"

definition replay_gate :: "string \<Rightarrow> (approval_request \<Rightarrow> time \<times> time) \<Rightarrow> bool list gate" where
  "replay_gate uuid clk = (bare_gate uuid)\<lparr>ga_on_request := Some (decide_now (bare_gate uuid) clk)\<rparr>"

definition in_gate :: "(bool list gated_world, 'a) io \<Rightarrow> (replayed, 'a) io" where
  "in_gate m s = (case m (rp_gate s) of None \<Rightarrow> None | Some (out, g) \<Rightarrow> Some (out, s\<lparr>rp_gate := g\<rparr>))"

definition replay_approver :: "string \<Rightarrow> (approval_request \<Rightarrow> time \<times> time) \<Rightarrow> (nat \<Rightarrow> gate_readings) \<Rightarrow> replayed approver" where
  "replay_approver uuid clk env =
     \<lparr>ap_request = (\<lambda>tool args p why conv. in_gate (ap_request (gate_approver (replay_gate uuid clk) env) tool args p why conv)),
      ap_wait = (\<lambda>i. in_gate (ap_wait (gate_approver (replay_gate uuid clk) env) i))\<rparr>"

text \<open>The agent of a replay: \<open>a\<close> gives what is passed on to the loop, the limits among it.\<close>

definition replaying :: "'w agent \<Rightarrow> trajectory \<Rightarrow> string \<Rightarrow> (approval_request \<Rightarrow> time \<times> time) \<Rightarrow> (nat \<Rightarrow> gate_readings) \<Rightarrow> replayed agent" where
  "replaying a tj uuid clk env =
     \<lparr>ag_model = replay_model (tj_turns tj), ag_tools = replay_tools tj,
      ag_max_steps = ag_max_steps a, ag_max_messages = ag_max_messages a, ag_token = ag_token a, ag_timeout_s = ag_timeout_s a,
      ag_approvals = (if list_ex requires_approval (replay_tools tj) then Some (replay_approver uuid clk env) else None),
      ag_conversation = ag_conversation a, ag_texts = ag_texts a,
      ag_emit = (\<lambda>e s. Some (Inr (), s\<lparr>rp_recorder := observe (ag_texts a) e (rp_recorder s)\<rparr>))\<rparr>"

definition new_replay :: "trajectory \<Rightarrow> replayed" where
  "new_replay tj =
     \<lparr>rp_next = 0, rp_offered = [], rp_queues = queued (tj_tools tj),
      rp_gate = (fresh_approvals (recorded_decisions tj), 0), rp_recorder = new_recorder (tj_name tj) (tj_system tj) None\<rparr>"

section \<open>Differences\<close>

datatype difference =
    CallsChanged "string list" "string list"
  | ArgumentsChanged nat string
  | CalledTooOften string
  | MessageChanged "string option" "string option"
  | NotOffered nat "pyval list"
  | ApprovalsChanged nat nat
  | ReplayRaised exc

definition missing_tools :: "model_turn \<Rightarrow> pyval list \<Rightarrow> pyval list" where
  "missing_tools turn offered = filter (\<lambda>n. n \<notin> set offered) (tn_offered turn)"

definition approval_requests :: "trajectory \<Rightarrow> nat" where
  "approval_requests tj = length (filter (\<lambda>a. dict_get a ''kind'' PNone = PStr ''approval_request'') (tj_approvals tj))"

definition trajectory_diff :: "texts \<Rightarrow> trajectory \<Rightarrow> trajectory \<Rightarrow> pyval list list \<Rightarrow> bool \<Rightarrow> difference list" where
  "trajectory_diff tx expected actual offered compare_text =
     (if tool_names expected \<noteq> tool_names actual then [CallsChanged (tool_names expected) (tool_names actual)] else [])
     @ List.map_filter (\<lambda>(i, want, have).
         if to_name want = to_name have \<and> to_arguments want \<noteq> to_arguments have then Some (ArgumentsChanged (i + 1) (to_name want)) else None)
         (enumerate 0 (zip (tj_tools expected) (tj_tools actual)))
     @ map (\<lambda>x. CalledTooOften (to_name x)) (filter (\<lambda>x. starts_with (to_content x) unrecorded) (tj_tools actual))
     @ (if compare_text \<and> final_message tx expected \<noteq> final_message tx actual
        then [MessageChanged (final_message tx expected) (final_message tx actual)] else [])
     @ List.map_filter (\<lambda>(i, turn, names). if missing_tools turn names \<noteq> [] then Some (NotOffered (i + 1) (missing_tools turn names)) else None)
         (enumerate 0 (zip (tj_turns expected) offered))
     @ (if approval_requests expected \<noteq> approval_requests actual
        then [ApprovalsChanged (approval_requests expected) (approval_requests actual)] else [])"

text \<open>\<open>replay\<close>: what the run raised, and the differences; a cancellation goes on.\<close>

definition replay_run :: "'w agent \<Rightarrow> trajectory \<Rightarrow> string \<Rightarrow> (approval_request \<Rightarrow> time \<times> time) \<Rightarrow> (nat \<Rightarrow> gate_readings) \<Rightarrow> bool
    \<Rightarrow> (exc + trajectory \<times> difference list) option" where
  "replay_run a tj uuid clk env compare_text =
     (let sys = (case tj_system tj of None \<Rightarrow> [] | Some s \<Rightarrow> if s = [] then [] else [chat_message ''system'' (PStr s)]);
          finish = (\<lambda>s. (build (rp_recorder s))\<lparr>tj_turns := tj_turns tj\<rparr>);
          compared = (\<lambda>s. trajectory_diff (ag_texts a) tj (finish s) (rp_offered s) compare_text)
      in map_option (\<lambda>(out, _, s).
           case out of
             Inr _ \<Rightarrow> Inr (finish s, compared s)
           | Inl e \<Rightarrow> if is_exception e then Inr (finish s, ReplayRaised e # compared s) else Inl e)
         (passes (\<lambda>text s. s\<lparr>rp_recorder := heard_user text (rp_recorder s)\<rparr>) (replaying a tj uuid clk env) (turns_of (tj_users tj))
           (sys, new_replay tj)))"

end
