(* ===== verification/TrajectoryProps.thy ===== *)
theory TrajectoryProps
  imports Trajectory
begin

text \<open>
  A replay against the recording. The outline of a run is what the recorded completions alone fix of its
  events; any run of the loop whose model, tools and gate leave its record alone follows the outline
  of the completions it consumed, and both the recorded run and its replay are such runs.
\<close>

section \<open>Outlines\<close>

definition skel :: "agent_event \<Rightarrow> agent_event" where
  "skel e = (event (ev_kind e))\<lparr>ev_content := (if ev_kind e = ''message'' then ev_content e else PNone), ev_name := ev_name e,
     ev_arguments := (if ev_kind e = ''tool_call'' then ev_arguments e else None), ev_call := ev_call e\<rparr>"

definition gates :: "'w agent \<Rightarrow> string \<Rightarrow> bool" where
  "gates a n = (case (by_name (ag_tools a) n, ag_approvals a) of (Some t, Some g) \<Rightarrow> requires_approval t | _ \<Rightarrow> False)"

definition about :: "tool_call \<Rightarrow> string \<Rightarrow> agent_event" where
  "about tc kind = (event kind)\<lparr>ev_name := Some (tc_name tc), ev_call := Some (tc_id tc)\<rparr>"

definition call_outline :: "(string \<Rightarrow> bool) \<Rightarrow> tool_call \<Rightarrow> agent_event list" where
  "call_outline G tc =
     (about tc ''tool_call'')\<lparr>ev_arguments := Some (tc_arguments tc)\<rparr>
     # (if G (tc_name tc) then [about tc ''approval_request'', about tc ''approval_decision''] else [])
     @ [about tc ''tool_result'']"

definition closing :: "string \<Rightarrow> agent_event list" where
  "closing text = [(event ''message'')\<lparr>ev_content := PStr text\<rparr>, event ''done'']"

definition answer_text :: "model_reply \<Rightarrow> string" where
  "answer_text r = (case mr_content r of Some c \<Rightarrow> if c \<noteq> [] then c else ''The model returned an empty response.''
     | None \<Rightarrow> ''The model returned an empty response.'')"

definition stop_text :: "texts \<Rightarrow> int \<Rightarrow> string" where
  "stop_text tx m = ''Stopped after '' @ tx_str tx (PInt m) @ '' tool steps without a final answer.''"

fun outline :: "texts \<Rightarrow> int \<Rightarrow> (string \<Rightarrow> bool) \<Rightarrow> nat \<Rightarrow> model_reply list \<Rightarrow> agent_event list" where
  "outline tx m G 0 rs = closing (stop_text tx m)"
| "outline tx m G (Suc n) [] = []"
| "outline tx m G (Suc n) (r # rs) =
     (if mr_calls r = [] then closing (answer_text r)
      else concat (map (call_outline G) (mr_calls r)) @ outline tx m G n rs)"

text \<open>The completions that one pass of the loop consumes.\<close>

fun full_pass :: "nat \<Rightarrow> model_reply list \<Rightarrow> bool" where
  "full_pass 0 rs \<longleftrightarrow> rs = []"
| "full_pass (Suc n) [] \<longleftrightarrow> False"
| "full_pass (Suc n) (r # rs) \<longleftrightarrow> (if mr_calls r = [] then rs = [] else full_pass n rs)"

definition all_calls :: "model_reply list \<Rightarrow> tool_call list" where
  "all_calls rs = concat (map mr_calls rs)"

section \<open>Observed runs\<close>

text \<open>What a run that returns adds: its completions, read through \<open>reps\<close>, and its events, each of which is
  added to what \<open>view\<close> reads.\<close>

definition yields :: "('w \<Rightarrow> 'v) \<Rightarrow> (agent_event \<Rightarrow> 'v \<Rightarrow> 'v) \<Rightarrow> ('w \<Rightarrow> model_reply list) \<Rightarrow> ('w chat, 'a) io
    \<Rightarrow> ('a \<Rightarrow> model_reply list \<Rightarrow> agent_event list \<Rightarrow> bool) \<Rightarrow> bool" where
  "yields view note_in reps m P \<longleftrightarrow>
     (\<forall>ms w x ms' w'. m (ms, w) = Some (Inr x, ms', w') \<longrightarrow>
        (\<exists>Ts Es. reps w' = reps w @ Ts \<and> view w' = fold note_in Es (view w) \<and> P x Ts (map skel Es)))"

definition quietly :: "('w \<Rightarrow> 'v) \<Rightarrow> ('w \<Rightarrow> model_reply list) \<Rightarrow> ('w, 'a) io \<Rightarrow> bool" where
  "quietly view reps m \<longleftrightarrow> (\<forall>w out w'. m w = Some (out, w') \<longrightarrow> view w' = view w \<and> reps w' = reps w)"

lemma yields_bind:
  assumes "yields view note_in reps m P" "\<And>x. yields view note_in reps (f x) (Q x)"
    and "\<And>x y T1 T2 E1 E2. P x T1 E1 \<Longrightarrow> Q x y T2 E2 \<Longrightarrow> R y (T1 @ T2) (E1 @ E2)"
  shows "yields view note_in reps (io_bind m f) R"
  unfolding yields_def
proof (intro allI impI)
  fix ms w y ms' w' assume "io_bind m f (ms, w) = Some (Inr y, ms', w')"
  then obtain x ms1 w1 where 1: "m (ms, w) = Some (Inr x, ms1, w1)" "f x (ms1, w1) = Some (Inr y, ms', w')"
    by (auto simp: io_bind_Some)
  obtain T1 E1 where a: "reps w1 = reps w @ T1" "view w1 = fold note_in E1 (view w)" "P x T1 (map skel E1)"
    using assms(1) 1(1) unfolding yields_def by blast
  obtain T2 E2 where b: "reps w' = reps w1 @ T2" "view w' = fold note_in E2 (view w1)" "Q x y T2 (map skel E2)"
    using assms(2) 1(2) unfolding yields_def by blast
  show "\<exists>Ts Es. reps w' = reps w @ Ts \<and> view w' = fold note_in Es (view w) \<and> R y Ts (map skel Es)"
    using a b assms(3) [OF a(3) b(3)] by (intro exI [of _ "T1 @ T2"] exI [of _ "E1 @ E2"]) simp
qed

lemma yields_weaken: "yields view note_in reps m P \<Longrightarrow> (\<And>x T E. P x T E \<Longrightarrow> Q x T E) \<Longrightarrow> yields view note_in reps m Q"
  unfolding yields_def by blast

lemma yields_outside: "quietly view reps m \<Longrightarrow> yields view note_in reps (outside m) (\<lambda>x T E. T = [] \<and> E = [])"
  by (auto simp: yields_def quietly_def outside_Some)

lemma yields_return: "yields view note_in reps (io_return x) (\<lambda>y T E. T = [] \<and> E = [])"
  by (simp add: yields_def io_return_def)

lemma yields_append: "yields view note_in reps (append_message m) (\<lambda>x T E. T = [] \<and> E = [])"
  by (simp add: yields_def append_message_def)

text \<open>What is seen after passes that added the events \<open>Ess\<close>; \<open>hear\<close> notes a user turn.\<close>

fun pass_view :: "(agent_event \<Rightarrow> 'v \<Rightarrow> 'v) \<Rightarrow> (string \<Rightarrow> 'v \<Rightarrow> 'v) \<Rightarrow> string list \<Rightarrow> agent_event list list \<Rightarrow> 'v \<Rightarrow> 'v" where
  "pass_view note_in hear (text # ts) (E # Es) v = pass_view note_in hear ts Es (fold note_in E (if text = [] then v else hear text v))"
| "pass_view note_in hear _ _ v = v"

locale observed =
  fixes a :: "'w agent" and view :: "'w \<Rightarrow> 'v" and note_in :: "agent_event \<Rightarrow> 'v \<Rightarrow> 'v" and reps :: "'w \<Rightarrow> model_reply list"
  assumes emits: "ag_emit a e w = Some (out, w') \<Longrightarrow> out = Inr () \<and> view w' = note_in e (view w) \<and> reps w' = reps w"
    and completes: "ag_model a ms ts w = Some (Inr r, w') \<Longrightarrow> view w' = view w \<and> reps w' = reps w @ [r]"
    and calls: "t \<in> set (ag_tools a) \<Longrightarrow> quietly view reps (call_tool t args tok s)"
    and asks: "ag_approvals a = Some g \<Longrightarrow> quietly view reps (ap_request g tool args p why conv)"
    and waits: "ag_approvals a = Some g \<Longrightarrow> quietly view reps (ap_wait g i)"
begin

lemma said: "yields view note_in reps (say a e) (\<lambda>x T E. T = [] \<and> E = [skel e])"
  unfolding yields_def say_def by (auto simp: outside_Some dest!: emits intro!: exI [of _ "[]"] exI [of _ "[e]"])

lemma tool_runs: "quietly view reps (run_tool a (ag_tools a) tc)"
proof -
  have "t \<in> set (ag_tools a)" if "by_name (ag_tools a) n = Some t" for n t
    using map_of_SomeD [OF that [unfolded by_name_def]] by auto
  then show ?thesis
    using calls unfolding quietly_def
    by (fastforce simp: run_tool_def split: option.splits prod.splits sum.splits if_splits)
qed

lemma performed: "yields view note_in reps (perform a (ag_tools a) tc) (\<lambda>x T E. T = [] \<and> E = [about tc ''tool_result''])"
proof -
  have [simp]: "skel ((event ''tool_result'')\<lparr>ev_name := Some (tc_name tc), ev_content := v, ev_call := Some (tc_id tc), ev_error := b\<rparr>)
      = about tc ''tool_result''" for v b by (simp add: skel_def about_def event_def)
  show ?thesis unfolding perform_def
    by (rule yields_bind [OF yields_outside [OF tool_runs]])
      (auto intro!: yields_bind [OF yields_append said] simp: case_prod_beta)
qed

lemma refusal: "yields view note_in reps (refused a tc i text)
  (\<lambda>x T E. T = [] \<and> E = [about tc ''approval_decision'', about tc ''tool_result''])"
proof -
  have [simp]: "skel ((event ''approval_decision'')\<lparr>ev_name := Some (tc_name tc), ev_call := Some (tc_id tc), ev_approval := j,
      ev_content := v, ev_error := b\<rparr>) = about tc ''approval_decision''" for j v b by (simp add: skel_def about_def event_def)
  have [simp]: "skel ((event ''tool_result'')\<lparr>ev_name := Some (tc_name tc), ev_content := v, ev_call := Some (tc_id tc), ev_error := b\<rparr>)
      = about tc ''tool_result''" for v b by (simp add: skel_def about_def event_def)
  show ?thesis unfolding refused_def
    by (rule yields_bind [OF said yields_bind [OF yields_append said]]) auto
qed

lemma wait_quiet: "ag_approvals a = Some g \<Longrightarrow> quietly view reps (wait_for g i)"
  using waits unfolding quietly_def by (fastforce simp: wait_for_def split: option.splits prod.splits sum.splits if_splits)

lemma gated_call:
  assumes "ag_approvals a = Some g"
  shows "yields view note_in reps (gated a (ag_tools a) t g tc)
    (\<lambda>x T E. T = [] \<and> E = [about tc ''approval_request'', about tc ''approval_decision'', about tc ''tool_result''])"
proof -
  have [simp]: "skel ((event ''approval_request'')\<lparr>ev_name := Some (tc_name tc), ev_arguments := args, ev_call := Some (tc_id tc),
      ev_approval := j, ev_content := v\<rparr>) = about tc ''approval_request''" for j v args by (simp add: skel_def about_def event_def)
  have [simp]: "skel ((event ''approval_decision'')\<lparr>ev_name := Some (tc_name tc), ev_arguments := args, ev_call := Some (tc_id tc),
      ev_approval := j, ev_content := v\<rparr>) = about tc ''approval_decision''" for j v args by (simp add: skel_def about_def event_def)
  have run: "yields view note_in reps (perform a (ag_tools a) (tc\<lparr>tc_arguments := args\<rparr>)) (\<lambda>x T E. T = [] \<and> E = [about tc ''tool_result''])" for args
    using performed [of "tc\<lparr>tc_arguments := args\<rparr>"] by (simp add: about_def)
  have decided: "yields view note_in reps
      (case out of Inl e \<Rightarrow> refused a tc i (format_tool_error (ag_texts a) e)
       | Inr d \<Rightarrow> io_bind (say a ((event ''approval_decision'')\<lparr>ev_name := Some (tc_name tc), ev_arguments := Some (de_arguments d),
             ev_call := Some (tc_id tc), ev_approval := Some i, ev_content := PStr (approved_by d)\<rparr>)) (\<lambda>_.
           perform a (ag_tools a) (tc\<lparr>tc_arguments := de_arguments d\<rparr>)))
      (\<lambda>x T E. T = [] \<and> E = [about tc ''approval_decision'', about tc ''tool_result''])" for out i
  proof (cases out)
    case (Inr d)
    show ?thesis unfolding Inr sum.case by (rule yields_bind [OF said run]) auto
  qed (simp add: refusal)
  show ?thesis unfolding gated_def
    by (rule yields_bind [OF yields_outside [OF asks [OF assms]]
        yields_bind [OF said yields_bind [OF yields_outside [OF wait_quiet [OF assms]] decided]]]) auto
qed

lemma dispatched: "yields view note_in reps (dispatch_tool a (ag_tools a) tc) (\<lambda>x T E. T = [] \<and> E = call_outline (gates a) tc)"
proof -
  have [simp]: "skel ((event ''tool_call'')\<lparr>ev_name := Some (tc_name tc), ev_arguments := Some (tc_arguments tc), ev_call := Some (tc_id tc)\<rparr>)
      = (about tc ''tool_call'')\<lparr>ev_arguments := Some (tc_arguments tc)\<rparr>" by (simp add: skel_def about_def event_def)
  have "yields view note_in reps (case (by_name (ag_tools a) (tc_name tc), ag_approvals a) of
       (Some t, Some g) \<Rightarrow> if requires_approval t then gated a (ag_tools a) t g tc else perform a (ag_tools a) tc
     | _ \<Rightarrow> perform a (ag_tools a) tc)
     (\<lambda>x T E. T = [] \<and> E = (if gates a (tc_name tc) then [about tc ''approval_request'', about tc ''approval_decision''] else [])
        @ [about tc ''tool_result''])"
    using performed gated_call by (auto simp: gates_def split: option.splits)
  then show ?thesis unfolding dispatch_tool_def
    by (rule yields_bind [OF said]) (auto simp: call_outline_def)
qed

lemma all_dispatched: "yields view note_in reps (dispatch_all a (ag_tools a) tcs) (\<lambda>x T E. T = [] \<and> E = concat (map (call_outline (gates a)) tcs))"
  by (induction tcs) (auto intro: yields_bind [OF dispatched] yields_return [THEN yields_weaken])

lemma trimmed: "yields view note_in reps (trim a) (\<lambda>x T E. T = [] \<and> E = [])"
  by (auto simp: yields_def trim_def split: option.splits sum.splits)

lemma completed: "yields view note_in reps (complete a) (\<lambda>r T E. T = [r] \<and> E = [])"
  unfolding yields_def complete_def by (auto simp: outside_Some dest!: completes)

lemma answered: "yields view note_in reps (final_answer a r) (\<lambda>x T E. T = [] \<and> E = closing (answer_text r))"
  unfolding final_answer_def
  by (rule yields_bind [OF said said])
    (auto simp: closing_def answer_text_def skel_def event_def split: option.splits)

lemma was_stopped: "yields view note_in reps (stopped a) (\<lambda>x T E. T = [] \<and> E = closing (stop_text (ag_texts a) (ag_max_steps a)))"
  unfolding stopped_def
  by (rule yields_bind [OF said said]) (auto simp: closing_def stop_text_def skel_def event_def)

lemma steps_follow: "yields view note_in reps (agent_steps a n)
  (\<lambda>x T E. full_pass n T \<and> E = outline (ag_texts a) (ag_max_steps a) (gates a) n T)"
proof (induction n)
  case 0
  then show ?case using was_stopped by (auto elim: yields_weaken)
next
  case (Suc n)
  have rest: "yields view note_in reps (if mr_calls r = [] then final_answer a r
      else io_bind (dispatch_all a (ag_tools a) (mr_calls r)) (\<lambda>_. agent_steps a n))
    (\<lambda>x T E. full_pass (Suc n) (r # T) \<and> E = outline (ag_texts a) (ag_max_steps a) (gates a) (Suc n) (r # T))" for r
    using answered [of r] yields_bind [OF all_dispatched Suc, of "mr_calls r"] by (auto elim: yields_weaken)
  show ?case unfolding agent_steps.simps
    by (rule yields_bind [OF trimmed yields_bind [OF completed yields_bind [OF yields_append rest]]]) auto
qed

lemma run_follows: "yields view note_in reps (run_agent a)
  (\<lambda>x T E. full_pass (nat (ag_max_steps a)) T \<and> E = outline (ag_texts a) (ag_max_steps a) (gates a) (nat (ag_max_steps a)) T)"
  using steps_follow by (auto simp: run_agent_def yields_def io_raise_def split: if_splits)

lemma passes_follow:
  assumes "\<And>text w. reps (heard text w) = reps w \<and> view (heard text w) = hear text (view w)"
    and "passes heard a ts (ms, w) = Some (Inr (), ms', w')"
  shows "\<exists>Tss Ess. reps w' = reps w @ concat Tss \<and> view w' = pass_view note_in hear ts Ess (view w)
    \<and> length Tss = length ts \<and> list_all2 (\<lambda>T E. full_pass (nat (ag_max_steps a)) T
        \<and> map skel E = outline (ag_texts a) (ag_max_steps a) (gates a) (nat (ag_max_steps a)) T) Tss Ess"
  using assms(2)
proof (induction ts arbitrary: ms w)
  case Nil
  then show ?case by (intro exI [of _ "[]"]) (simp add: io_return_def)
next
  case (Cons u ts)
  let ?w0 = "if u = [] then w else heard u w"
  obtain ms0 ms1 w1 where run: "run_agent a (ms0, ?w0) = Some (Inr (), ms1, w1)" "passes heard a ts (ms1, w1) = Some (Inr (), ms', w')"
    using Cons.prems by (cases "u = []") (auto simp: io_bind_Some io_return_def)
  have w0: "reps ?w0 = reps w" "view ?w0 = (if u = [] then view w else hear u (view w))" using assms(1) by auto
  obtain T E where T: "reps w1 = reps ?w0 @ T" "view w1 = fold note_in E (view ?w0)"
      "full_pass (nat (ag_max_steps a)) T" "map skel E = outline (ag_texts a) (ag_max_steps a) (gates a) (nat (ag_max_steps a)) T"
    using run_follows run(1) unfolding yields_def by blast
  obtain Tss Ess where "reps w' = reps w1 @ concat Tss" "view w' = pass_view note_in hear ts Ess (view w1)"
      "length Tss = length ts" "list_all2 (\<lambda>T E. full_pass (nat (ag_max_steps a)) T
        \<and> map skel E = outline (ag_texts a) (ag_max_steps a) (gates a) (nat (ag_max_steps a)) T) Tss Ess"
    using Cons.IH [OF run(2)] by blast
  then show ?case using T w0 by (intro exI [of _ "T # Tss"] exI [of _ "E # Ess"]) auto
qed

end

section \<open>The recorded run and the replay are observed runs\<close>

definition record_view :: "recorder \<Rightarrow> recorder" where
  "record_view r = r\<lparr>ro_turns := []\<rparr>"

lemma observe_turns: "ro_turns (observe tx e r) = ro_turns r" "record_view (observe tx e r) = observe tx e (record_view r)"
  by (simp_all add: observe_def Let_def record_view_def)

lemma to_from_reply [simp]: "to_reply (from_reply r names) = r"
  by (simp add: to_reply_def from_reply_def)

lemma beside_Some: "beside m (w, r) = Some (out, w', r') \<longleftrightarrow> r' = r \<and> m w = Some (out, w')"
  by (auto simp: beside_def split: option.splits prod.splits)

lemma beside_quiet: "quietly (\<lambda>(w, r). f r) (\<lambda>(w, r). g r) (beside m)"
  by (auto simp: quietly_def beside_def split: option.splits prod.splits)

interpretation recorded: observed "recording a" "\<lambda>(w, r). record_view r" "observe (ag_texts a)" "\<lambda>(w, r). map to_reply (ro_turns r)" for a
proof unfold_locales
  fix e w out w' assume "ag_emit (recording a) e w = Some (out, w')"
  then show "out = Inr () \<and> (case w' of (w, r) \<Rightarrow> record_view r) = observe (ag_texts a) e (case w of (w, r) \<Rightarrow> record_view r)
      \<and> (case w' of (w, r) \<Rightarrow> map to_reply (ro_turns r)) = (case w of (w, r) \<Rightarrow> map to_reply (ro_turns r))"
    by (auto simp: recording_def observe_turns split: prod.splits)
next
  fix ms ts w r w' assume "ag_model (recording a) ms ts w = Some (Inr r, w')"
  then show "(case w' of (w, r) \<Rightarrow> record_view r) = (case w of (w, r) \<Rightarrow> record_view r)
      \<and> (case w' of (w, r) \<Rightarrow> map to_reply (ro_turns r)) = (case w of (w, r) \<Rightarrow> map to_reply (ro_turns r)) @ [r]"
    by (cases w; cases "offered_names ts")
      (auto simp: recording_def recording_model_def io_bind_Some beside_def record_view_def split: option.splits)
next
  fix t args tok s assume "t \<in> set (ag_tools (recording a))"
  then obtain u where "t = tool_beside u" by (auto simp: recording_def)
  then show "quietly (\<lambda>(w, r). record_view r) (\<lambda>(w, r). map to_reply (ro_turns r)) (call_tool t args tok s)"
    by (auto simp: call_tool_def tool_beside_def quietly_def io_raise_def beside_Some split: option.splits if_splits)
next
  fix g tool args p why conv assume "ag_approvals (recording a) = Some g"
  then show "quietly (\<lambda>(w, r). record_view r) (\<lambda>(w, r). map to_reply (ro_turns r)) (ap_request g tool args p why conv)"
    using beside_quiet by (auto simp: recording_def approver_beside_def)
next
  fix g i assume "ag_approvals (recording a) = Some g"
  then show "quietly (\<lambda>(w, r). record_view r) (\<lambda>(w, r). map to_reply (ro_turns r)) (ap_wait g i)"
    using beside_quiet by (auto simp: recording_def approver_beside_def)
qed

lemma in_gate_quiet: "quietly rp_recorder (\<lambda>s. f (rp_next s)) (in_gate m)"
  by (auto simp: quietly_def in_gate_def split: option.splits prod.splits)

definition canned_tool :: "trajectory \<Rightarrow> string \<Rightarrow> replayed mesh_tool" where
  "canned_tool tj n =
     \<lparr>mt_prefix = n, mt_name = (if n = [] then tool_name n else n), mt_description = ''replay of '' @ n,
      mt_parameters = any_object, mt_approval = PBool (PStr n \<in> gated_names tj), mt_invoke = Some (canned n), mt_app = None\<rparr>"

lemma replay_tool_canned: "replay_tool tj n = Inr (canned_tool tj n)"
  by (simp add: replay_tool_def mesh_tool_init_def canned_tool_def)

lemma replay_tools_canned: "replay_tools tj = map (canned_tool tj) (map fst (queued (tj_tools tj)))"
  by (simp add: replay_tools_def replay_tool_canned map_filter_def comp_def)

definition used :: "trajectory \<Rightarrow> replayed \<Rightarrow> model_reply list" where
  "used tj s = map to_reply (take (rp_next s) (tj_turns tj))"

interpretation replay: observed "replaying a tj uuid clk env" rp_recorder "observe (ag_texts a)" "used tj" for a tj uuid clk env
proof unfold_locales
  fix e w out w' assume "ag_emit (replaying a tj uuid clk env) e w = Some (out, w')"
  then show "out = Inr () \<and> rp_recorder w' = observe (ag_texts a) e (rp_recorder w) \<and> used tj w' = used tj w"
    by (auto simp: replaying_def used_def)
next
  fix ms ts w r w' assume "ag_model (replaying a tj uuid clk env) ms ts w = Some (Inr r, w')"
  then show "rp_recorder w' = rp_recorder w \<and> used tj w' = used tj w @ [r]"
    by (auto simp: replaying_def replay_model_def used_def Let_def take_Suc_conv_app_nth split: sum.splits if_splits)
next
  fix t args tok s assume "t \<in> set (ag_tools (replaying a tj uuid clk env))"
  then obtain n where "mt_invoke t = Some (canned n)" by (auto simp: replaying_def replay_tools_canned canned_tool_def)
  then show "quietly rp_recorder (used tj) (call_tool t args tok s)"
    by (auto simp: call_tool_def canned_def quietly_def used_def split: list.splits)
next
  fix g tool args p why conv assume "ag_approvals (replaying a tj uuid clk env) = Some g"
  then show "quietly rp_recorder (used tj) (ap_request g tool args p why conv)"
    using in_gate_quiet [of "\<lambda>n. map to_reply (take n (tj_turns tj))"]
    by (auto simp: replaying_def replay_approver_def used_def [abs_def] split: if_splits)
next
  fix g i assume "ag_approvals (replaying a tj uuid clk env) = Some g"
  then show "quietly rp_recorder (used tj) (ap_wait g i)"
    using in_gate_quiet [of "\<lambda>n. map to_reply (take n (tj_turns tj))"]
    by (auto simp: replaying_def replay_approver_def used_def [abs_def] split: if_splits)
qed

section \<open>What a recorder keeps of an outline\<close>

definition tools_heard :: "recorder \<Rightarrow> (string \<times> (string, pyval) dict) list" where
  "tools_heard r = map (\<lambda>x. (to_name x, to_arguments x)) (ro_tools r)"

definition requests_heard :: "recorder \<Rightarrow> pyval list" where
  "requests_heard r = map (\<lambda>x. dict_get x ''tool'' PNone)
     (filter (\<lambda>x. dict_get x ''kind'' PNone = PStr ''approval_request'') (ro_approvals r))"

definition messages_heard :: "recorder \<Rightarrow> pyval list" where
  "messages_heard r = map (\<lambda>x. dict_get x ''content'' PNone)
     (filter (\<lambda>x. dict_get x ''kind'' PNone = PStr ''message'') (ro_events r))"

definition hears :: "recorder \<Rightarrow> recorder \<Rightarrow> (string \<times> (string, pyval) dict) list \<Rightarrow> pyval list \<Rightarrow> pyval list \<Rightarrow> bool" where
  "hears r r' calls reqs texts \<longleftrightarrow> tools_heard r' = tools_heard r @ calls \<and> requests_heard r' = requests_heard r @ reqs
     \<and> messages_heard r' = messages_heard r @ texts"

lemma hears_trans: "hears r r1 c1 q1 t1 \<Longrightarrow> hears r1 r2 c2 q2 t2 \<Longrightarrow> hears r r2 (c1 @ c2) (q1 @ q2) (t1 @ t2)"
  by (simp add: hears_def)

lemma event_dict_fields [simp]:
  "dict_get (event_to_dict e) ''kind'' PNone = PStr (ev_kind e)" "dict_get (event_to_dict e) ''content'' PNone = ev_content e"
  by (simp_all add: event_to_dict_def dict_get_def)

lemma approval_entry_fields [simp]:
  "dict_get (approval_entry e) ''kind'' PNone = PStr (ev_kind e)" "dict_get (approval_entry e) ''tool'' PNone = opt_str (ev_name e)"
  by (simp_all add: approval_entry_def dict_get_def)

lemma skel_fields:
  "ev_kind (skel e) = ev_kind e" "ev_name (skel e) = ev_name e" "ev_call (skel e) = ev_call e"
  "ev_kind e = ''tool_call'' \<Longrightarrow> ev_arguments (skel e) = ev_arguments e" "ev_kind e = ''message'' \<Longrightarrow> ev_content (skel e) = ev_content e"
  by (simp_all add: skel_def event_def)

lemma skel_about:
  "skel e = about tc k \<Longrightarrow> ev_kind e = k \<and> ev_name e = Some (tc_name tc) \<and> ev_call e = Some (tc_id tc)"
  "skel e = (about tc ''tool_call'')\<lparr>ev_arguments := Some args\<rparr> \<Longrightarrow>
     ev_kind e = ''tool_call'' \<and> ev_name e = Some (tc_name tc) \<and> ev_call e = Some (tc_id tc) \<and> ev_arguments e = Some args"
  by (auto simp: skel_def about_def event_def split: if_splits)

lemma observe_call:
  assumes "skel e = (about tc ''tool_call'')\<lparr>ev_arguments := Some (tc_arguments tc)\<rparr>"
  shows "hears r (observe tx e r) [] [] [] \<and> map_of (ro_pending (observe tx e r)) (tc_id tc) = Some (tc_name tc, tc_arguments tc)"
  using skel_about(2) [OF assms]
  by (simp add: observe_def Let_def hears_def tools_heard_def requests_heard_def messages_heard_def call_id_def)

lemma observe_request:
  assumes "skel e = about tc ''approval_request''"
  shows "hears r (observe tx e r) [] [PStr (tc_name tc)] [] \<and> ro_pending (observe tx e r) = ro_pending r"
  using skel_about(1) [OF assms]
  by (simp add: observe_def Let_def hears_def tools_heard_def requests_heard_def messages_heard_def)

lemma observe_decision:
  assumes "skel e = about tc ''approval_decision''"
  shows "hears r (observe tx e r) [] [] [] \<and> ro_pending (observe tx e r) = ro_pending r"
  using skel_about(1) [OF assms]
  by (simp add: observe_def Let_def hears_def tools_heard_def requests_heard_def messages_heard_def)

lemma observe_result:
  assumes "skel e = about tc ''tool_result''" "map_of (ro_pending r) (tc_id tc) = Some (tc_name tc, args)"
  shows "hears r (observe tx e r) [(tc_name tc, args)] [] []"
  using skel_about(1) [OF assms(1)] assms(2)
  by (simp add: observe_def Let_def hears_def tools_heard_def requests_heard_def messages_heard_def outcome_of_def call_id_def)

lemma hears_call:
  assumes "map skel es = call_outline G tc"
  shows "hears r (fold (observe tx) es r) [(tc_name tc, tc_arguments tc)] (if G (tc_name tc) then [PStr (tc_name tc)] else []) []"
proof (cases "G (tc_name tc)")
  case True
  then obtain e1 e2 e3 e4 where es: "es = [e1, e2, e3, e4]" "skel e1 = (about tc ''tool_call'')\<lparr>ev_arguments := Some (tc_arguments tc)\<rparr>"
      "skel e2 = about tc ''approval_request''" "skel e3 = about tc ''approval_decision''" "skel e4 = about tc ''tool_result''"
    using assms by (auto simp: call_outline_def map_eq_Cons_conv)
  let ?r1 = "observe tx e1 r" let ?r2 = "observe tx e2 ?r1" let ?r3 = "observe tx e3 ?r2"
  have "hears r ?r1 [] [] []" "hears ?r1 ?r2 [] [PStr (tc_name tc)] []" "hears ?r2 ?r3 [] [] []"
    using observe_call [OF es(2)] observe_request [OF es(3)] observe_decision [OF es(4)] by blast+
  moreover have "hears ?r3 (observe tx e4 ?r3) [(tc_name tc, tc_arguments tc)] [] []"
    using observe_call [OF es(2), of r tx] observe_request [OF es(3), of ?r1 tx] observe_decision [OF es(4), of ?r2 tx]
    by (intro observe_result [OF es(5)]) simp
  ultimately show ?thesis using es(1) True hears_trans [OF hears_trans [OF hears_trans]] by (simp add: hears_def)
next
  case False
  then obtain e1 e4 where es: "es = [e1, e4]" "skel e1 = (about tc ''tool_call'')\<lparr>ev_arguments := Some (tc_arguments tc)\<rparr>"
      "skel e4 = about tc ''tool_result''"
    using assms by (auto simp: call_outline_def map_eq_Cons_conv)
  have "hears (observe tx e1 r) (observe tx e4 (observe tx e1 r)) [(tc_name tc, tc_arguments tc)] [] []"
    using observe_call [OF es(2), of r tx] by (intro observe_result [OF es(3)]) simp
  then show ?thesis using es(1) False observe_call [OF es(2), of r tx] by (simp add: hears_def)
qed

lemma hears_calls:
  assumes "map skel es = concat (map (call_outline G) tcs)"
  shows "hears r (fold (observe tx) es r) (map (\<lambda>tc. (tc_name tc, tc_arguments tc)) tcs) (map PStr (filter G (map tc_name tcs))) []"
  using assms
proof (induction tcs arbitrary: es r)
  case Nil
  then show ?case by (simp add: hears_def)
next
  case (Cons tc tcs)
  then obtain es1 es2 where "es = es1 @ es2" "map skel es1 = call_outline G tc" "map skel es2 = concat (map (call_outline G) tcs)"
    by (auto simp: map_eq_append_conv)
  then show ?case using hears_trans [OF hears_call [of es1 G tc r tx] Cons.IH [of es2 "fold (observe tx) es1 r"]] by (auto split: if_splits)
qed

lemma hears_closing:
  assumes "map skel es = closing text"
  shows "hears r (fold (observe tx) es r) [] [] [PStr text]"
proof -
  obtain e1 e2 where es: "es = [e1, e2]" "skel e1 = (event ''message'')\<lparr>ev_content := PStr text\<rparr>" "skel e2 = event ''done''"
    using assms by (auto simp: closing_def map_eq_Cons_conv)
  have "ev_kind e1 = ''message''" "ev_kind e2 = ''done''" using skel_fields(1) [of e1] skel_fields(1) [of e2] es by (simp_all add: event_def)
  moreover have "ev_content e1 = PStr text" using skel_fields(5) [of e1] es(2) calculation by (simp add: event_def)
  ultimately show ?thesis
    by (simp add: es(1) observe_def Let_def hears_def tools_heard_def requests_heard_def messages_heard_def)
qed

fun last_text :: "texts \<Rightarrow> int \<Rightarrow> nat \<Rightarrow> model_reply list \<Rightarrow> string" where
  "last_text tx m (Suc n) (r # rs) = (if mr_calls r = [] then answer_text r else last_text tx m n rs)"
| "last_text tx m n rs = stop_text tx m"

lemma hears_outline:
  assumes "full_pass n rs" "map skel es = outline tx m G n rs"
  shows "hears r (fold (observe tx') es r) (map (\<lambda>tc. (tc_name tc, tc_arguments tc)) (all_calls rs))
    (map PStr (filter G (map tc_name (all_calls rs)))) [PStr (last_text tx m n rs)]"
  using assms
proof (induction n rs arbitrary: es r rule: full_pass.induct)
  case (1 rs)
  then show ?case using hears_closing [of es "stop_text tx m"] by (simp add: all_calls_def)
next
  case (3 n t rs)
  show ?case
  proof (cases "mr_calls t = []")
    case True
    then show ?thesis using 3 hears_closing [of es "answer_text t"] by (simp add: all_calls_def)
  next
    case False
    then obtain es1 es2 where "es = es1 @ es2" "map skel es1 = concat (map (call_outline G) (mr_calls t))" "map skel es2 = outline tx m G n rs"
      using 3 by (auto simp: map_eq_append_conv)
    then show ?thesis
      using False hears_trans [OF hears_calls [of es1 G "mr_calls t" r tx'] 3(1) [of es2 "fold (observe tx') es1 r"]] 3(2)
      by (simp add: all_calls_def)
  qed
qed simp

lemma observe_users: "ro_users (fold (observe tx) es r) = ro_users r"
proof (induction es arbitrary: r)
  case (Cons e es)
  have "ro_users (observe tx e r) = ro_users r" by (simp add: observe_def Let_def)
  then show ?case using Cons by simp
qed simp

lemma hears_user: "hears r (if u = [] then r else heard_user u r) [] [] []"
  by (simp add: hears_def heard_user_def tools_heard_def requests_heard_def messages_heard_def)

lemma hears_passes:
  assumes "length Tss = length ts"
    and "list_all2 (\<lambda>T E. full_pass n T \<and> map skel E = outline tx m G n T) Tss Ess"
  shows "hears r (pass_view (observe tx') heard_user ts Ess r) (map (\<lambda>tc. (tc_name tc, tc_arguments tc)) (all_calls (concat Tss)))
      (map PStr (filter G (map tc_name (all_calls (concat Tss))))) (map (PStr \<circ> last_text tx m n) Tss)
    \<and> ro_users (pass_view (observe tx') heard_user ts Ess r) = ro_users r @ filter (\<lambda>u. u \<noteq> []) ts"
  using assms(2,1)
proof (induction Tss Ess arbitrary: r ts rule: list_all2_induct)
  case Nil
  then show ?case by (simp add: hears_def all_calls_def)
next
  case (Cons T Tss E Ess)
  then obtain u ts' where ts: "ts = u # ts'" by (cases ts) auto
  let ?r0 = "if u = [] then r else heard_user u r" let ?r1 = "fold (observe tx') E ?r0"
  let ?r2 = "pass_view (observe tx') heard_user ts' Ess ?r1"
  have "hears ?r0 ?r1 (map (\<lambda>tc. (tc_name tc, tc_arguments tc)) (all_calls T)) (map PStr (filter G (map tc_name (all_calls T)))) [PStr (last_text tx m n T)]"
    using hears_outline [of n T E tx m G ?r0 tx'] Cons.hyps(1) by blast
  note one = hears_trans [OF hears_user this]
  have "hears ?r1 ?r2 (map (\<lambda>tc. (tc_name tc, tc_arguments tc)) (all_calls (concat Tss)))
      (map PStr (filter G (map tc_name (all_calls (concat Tss))))) (map (PStr \<circ> last_text tx m n) Tss)"
    and users: "ro_users ?r2 = ro_users ?r1 @ filter (\<lambda>u. u \<noteq> []) ts'"
    using Cons.IH [of ts' ?r1] Cons.prems ts by (auto simp: comp_def)
  note both = hears_trans [OF one this(1)]
  have "ro_users ?r1 = ro_users r @ (if u = [] then [] else [u])" by (simp add: observe_users heard_user_def)
  then show ?case using both users by (cases "u = []") (simp_all add: ts all_calls_def comp_def)
qed

section \<open>A replay goes through\<close>

lemma replay_request:
  "\<exists>i s'. ap_request (gate_approver (replay_gate uuid clk) env) tool args p why conv (s, n) = Some (Inr i, s', Suc n)
     \<and> (\<exists>q. map_of (requests s') i = Some q \<and> ar_state q \<noteq> PENDING)"
proof -
  let ?g = "replay_gate uuid clk" and ?i = "gr_uuid (env n)"
  have st: "ga_storage ?g = None" "ga_storage (bare_gate uuid) = None" "ga_on_request ?g = Some (decide_now (bare_gate uuid) clk)"
    by (simp_all add: replay_gate_def bare_gate_def gate_init_def)
  let ?r = "new_request ?g ?i (gr_t1 (env n)) (gr_t2 (env n)) tool args (Some p) why None conv (Some (- 1))"
  have r: "ar_id ?r = ?i" "ar_state ?r = PENDING" by (simp_all add: new_request_def Let_def)
  let ?s1 = "file_request ?r (s\<lparr>was_loaded := True\<rparr>)"
  have load: "load_requests ?g t s = (Inr (), s\<lparr>was_loaded := True\<rparr>)" for t by (simp add: load_requests_def st)
  have loaded: "load_requests (bare_gate uuid) t x = (Inr (), x)" if "was_loaded x" for t x using that by (simp add: load_requests_def)
  obtain b bs where b: "(case ap_world ?s1 of [] \<Rightarrow> (True, []) | b # bs \<Rightarrow> (b, bs)) = (b, bs)" by fastforce
  let ?q = "decided b (Some ''replay'') None None (fst (clk ?r)) (snd (clk ?r)) ?r"
  let ?s2 = "?s1\<lparr>ap_world := bs\<rparr>"
  have at: "map_of (requests ?s2) ?i = Some ?r" "was_loaded ?s2" using r by (simp_all add: file_request_def)
  let ?s3 = "ring (map_of (waiters ?s2) ?i) (?s2\<lparr>requests := AList.update ?i ?q (requests ?s2)\<rparr>)"
  have "decide_now (bare_gate uuid) clk ?r ?s1 = (Inr (), ?s3)"
    unfolding decide_now_def Let_def b using r at
    by (simp add: decide_def act_bind_def loaded settle_request_def Let_def write_request_def st act_return_def)
  then have "request ?g ?i (gr_t1 (env n)) (gr_t2 (env n)) tool args (Some p) why None conv (Some (- 1)) s
      = (Inr (dict_get (requests ?s3) ?i ?r), ?s3)"
    by (simp add: request_def Let_def act_bind_def load write_request_def st act_return_def swallow_def)
  moreover have q: "map_of (requests ?s3) ?i = Some ?q" by (simp add: ring_def split: option.split)
  moreover have "ar_id ?q = ?i" "ar_state ?q \<noteq> PENDING" using r by (simp_all add: decided_def)
  ultimately show ?thesis
    by (intro exI [of _ ?i] exI [of _ ?s3]) (simp add: gate_approver_def dict_get_def)
qed

lemma replay_wait:
  assumes "map_of (requests s) i = Some q" "ar_state q \<noteq> PENDING"
  shows "\<exists>out. ap_wait (gate_approver g env) i (s, n) = Some (out, s, Suc n)
     \<and> (\<forall>e. out = Inl e \<longrightarrow> x_istos e \<noteq> None \<and> \<not> starts_with (format_tool_error tx e) unrecorded)"
proof -
  have "\<forall>e. settled q = Inl e \<longrightarrow> x_istos e \<noteq> None \<and> \<not> starts_with (format_tool_error tx e) unrecorded"
    using assms(2)
    by (auto simp: settled_def approval_denied_def approval_timeout_def approval_error_def format_tool_error_def str_of_def
        istos_error_init_def starts_with_def unrecorded_def split: approval_state.splits)
  then show ?thesis using assms by (cases "settled q") (auto simp: gate_approver_def gate_wait_def)
qed

text \<open>The results still to be handed back cover the calls to come, and none is the marker of an unrecorded call.\<close>

definition stocked :: "replayed \<Rightarrow> string list \<Rightarrow> bool" where
  "stocked s ns \<longleftrightarrow>
     (\<forall>n. count_list ns n \<le> length (dict_get (rp_queues s) n []))
     \<and> (\<forall>n. \<forall>c \<in> set (dict_get (rp_queues s) n []). \<not> starts_with c unrecorded)
     \<and> (\<forall>x \<in> set (ro_tools (rp_recorder s)). \<not> starts_with (to_content x) unrecorded)"

definition goes_on :: "replayed \<Rightarrow> replayed \<Rightarrow> string list \<Rightarrow> bool" where
  "goes_on s s' ns \<longleftrightarrow> stocked s' ns \<and> rp_next s' = rp_next s \<and> rp_offered s' = rp_offered s"

lemma stocked_gate [simp]: "stocked (s\<lparr>rp_gate := g\<rparr>) ns = stocked s ns"
  by (simp add: stocked_def)

lemma stocked_less:
  assumes "stocked s (n # ns)"
  shows "stocked s ns"
proof -
  have "count_list ns k \<le> length (dict_get (rp_queues s) k [])" for k
  proof -
    have "count_list (n # ns) k \<le> length (dict_get (rp_queues s) k [])" using assms unfolding stocked_def by blast
    then show ?thesis by (simp split: if_splits)
  qed
  then show ?thesis using assms by (simp add: stocked_def)
qed

definition heard_by :: "texts \<Rightarrow> agent_event \<Rightarrow> replayed \<Rightarrow> replayed" where
  "heard_by tx e s = s\<lparr>rp_recorder := observe tx e (rp_recorder s)\<rparr>"

lemma stocked_heard:
  assumes "stocked s ns" "ev_kind e = ''tool_result'' \<Longrightarrow> \<exists>c. ev_content e = PStr c \<and> \<not> starts_with c unrecorded"
  shows "stocked (heard_by tx e s) ns"
  using assms by (auto simp: stocked_def heard_by_def observe_def Let_def outcome_of_def str_of_def)

lemma say_replay: "say (replaying a tj uuid clk env) e (ms, s) = Some (Inr (), ms, heard_by (ag_texts a) e s)"
  by (simp add: say_def outside_def replaying_def heard_by_def)

definition known :: "trajectory \<Rightarrow> string list" where
  "known tj = map fst (queued (tj_tools tj))"

lemma queued_snoc: "queued (os @ [x]) = AList.update (to_name x) (dict_get (queued os) (to_name x) [] @ [to_content x]) (queued os)"
  by (simp add: queued_def)

lemma queued_contents: "dict_get (queued os) n [] = map to_content (filter (\<lambda>x. to_name x = n) os)"
proof (induction os rule: rev_induct)
  case Nil
  then show ?case by (simp add: queued_def dict_get_def)
next
  case (snoc x os)
  then show ?case by (auto simp: queued_snoc dict_get_def map_of_update)
qed

lemma queued_keys: "dict_ok (queued os) \<and> dkeys (queued os) = to_name ` set os"
proof (induction os rule: rev_induct)
  case Nil
  then show ?case by (simp add: queued_def)
next
  case (snoc x os)
  then show ?case by (simp add: queued_snoc)
qed

lemma known_set: "set (known tj) = set (tool_names tj)"
  using queued_keys [of "tj_tools tj"] by (simp add: known_def tool_names_def)

lemma known_names:
  assumes "\<forall>x \<in> set (tj_tools tj). to_name x \<noteq> []"
  shows "map mt_name (replay_tools tj) = known tj"
proof -
  have "n \<noteq> []" if "n \<in> set (known tj)" for n using that assms by (auto simp: known_set tool_names_def)
  then have "map (\<lambda>n. mt_name (canned_tool tj n)) (known tj) = known tj" by (intro map_idI) (simp add: canned_tool_def)
  then show ?thesis by (simp add: replay_tools_canned known_def comp_def)
qed

lemma found_canned:
  assumes "\<forall>x \<in> set (tj_tools tj). to_name x \<noteq> []" "n \<in> set (known tj)"
  shows "by_name (replay_tools tj) n = Some (canned_tool tj n)"
proof -
  note names = known_names [OF assms(1)]
  have "(n, canned_tool tj n) \<in> set (map (\<lambda>t. (mt_name t, t)) (replay_tools tj))"
  proof -
    have "n \<noteq> []" using assms by (auto simp: known_set tool_names_def)
    then have "mt_name (canned_tool tj n) = n" by (simp add: canned_tool_def)
    moreover have "canned_tool tj n \<in> set (replay_tools tj)" using assms(2) unfolding replay_tools_canned known_def set_map by (rule imageI)
    ultimately show ?thesis by (metis (mono_tags, lifting) image_eqI list.set_map)
  qed
  moreover have "distinct (map fst (rev (map (\<lambda>t. (mt_name t, t)) (replay_tools tj))))"
    using names queued_keys [of "tj_tools tj"] by (simp add: rev_map [symmetric] comp_def known_def)
  ultimately show ?thesis unfolding by_name_def by (intro map_of_is_SomeI) simp_all
qed

lemma schema_names_of: "schema_names (map openai_schema ts) = Inr (map (\<lambda>t. PStr (mt_name t)) ts)"
  by (induction ts) (simp_all add: openai_schema_def dict_get_def)

lemma complete_replay:
  assumes "\<forall>x \<in> set (tj_tools tj). to_name x \<noteq> []" "rp_next s < length (tj_turns tj)"
  shows "complete (replaying a tj uuid clk env) (ms, s) =
    Some (Inr (to_reply (tj_turns tj ! rp_next s)), ms, s\<lparr>rp_offered := rp_offered s @ [map PStr (known tj)], rp_next := rp_next s + 1\<rparr>)"
proof -
  have "map (\<lambda>t. PStr (mt_name t)) (replay_tools tj) = map PStr (known tj)"
    using arg_cong [OF known_names [OF assms(1)], of "map PStr"] by (simp add: comp_def)
  then show ?thesis using assms(2)
    by (auto simp: complete_def replaying_def outside_def replay_model_def offered_names_def schema_names_of Let_def)
qed

lemma perform_replay:
  assumes "\<forall>x \<in> set (tj_tools tj). to_name x \<noteq> []" "tc_name tc \<in> set (known tj)" "stocked s (tc_name tc # ns)"
  shows "\<exists>ms' s'. perform (replaying a tj uuid clk env) (replay_tools tj) tc (ms, s) = Some (Inr (), ms', s')
    \<and> goes_on s s' ns"
proof -
  let ?b = "replaying a tj uuid clk env" and ?n = "tc_name tc"
  have "dict_get (rp_queues s) ?n [] \<noteq> []" using assms(3) by (auto simp: stocked_def dest: spec [of _ ?n])
  then obtain c cs where q: "dict_get (rp_queues s) ?n [] = c # cs" by (cases "dict_get (rp_queues s) ?n []") auto
  let ?s1 = "s\<lparr>rp_queues := AList.update ?n cs (rp_queues s)\<rparr>"
  have unmarked: "\<not> starts_with c unrecorded" using assms(3) q unfolding stocked_def by (metis list.set_intros(1))
  have "run_tool ?b (replay_tools tj) tc s = Some (Inr (c, False), ?s1)"
    using q by (simp add: run_tool_def found_canned [OF assms(1,2)] call_tool_def canned_tool_def canned_def format_tool_result_def)
  moreover have "stocked ?s1 ns"
  proof -
    have "count_list ns n \<le> length (dict_get (rp_queues ?s1) n [])" for n
      using assms(3) q unfolding stocked_def by (auto simp: dict_get_update dest!: spec [of _ n] split: if_splits)
    moreover have "\<not> starts_with x unrecorded" if "x \<in> set (dict_get (rp_queues ?s1) n [])" for n x
    proof -
      have "x \<in> set (dict_get (rp_queues s) n [])" using that q by (auto simp: dict_get_update split: if_splits)
      then show ?thesis using assms(3) unfolding stocked_def by blast
    qed
    ultimately show ?thesis using assms(3) by (simp add: stocked_def)
  qed
  ultimately show ?thesis
    using unmarked
    by (auto simp: perform_def io_bind_def outside_def append_message_def say_replay event_def goes_on_def intro!: stocked_heard)
      (simp_all add: heard_by_def)
qed

lemma refused_replay:
  assumes "stocked s ns" "\<not> starts_with why unrecorded"
  shows "\<exists>ms' s'. refused (replaying a tj uuid clk env) tc i why (ms, s) = Some (Inr (), ms', s') \<and> goes_on s s' ns"
  using assms
  by (auto simp: refused_def io_bind_def append_message_def say_replay event_def goes_on_def intro!: stocked_heard)
    (simp_all add: heard_by_def)

lemma gated_replay:
  assumes "\<forall>x \<in> set (tj_tools tj). to_name x \<noteq> []" "tc_name tc \<in> set (known tj)" "stocked s (tc_name tc # ns)"
  shows "\<exists>ms' s'. gated (replaying a tj uuid clk env) (replay_tools tj) t (replay_approver uuid clk env) tc (ms, s) = Some (Inr (), ms', s')
    \<and> goes_on s s' ns"
proof -
  let ?b = "replaying a tj uuid clk env" and ?g = "gate_approver (replay_gate uuid clk) env"
  obtain i g1 where req: "ap_request ?g (tc_name tc) (tc_arguments tc) (mt_prefix t) (approval_reason t) (ag_conversation a) (rp_gate s)
      = Some (Inr i, g1)" and "\<exists>q. map_of (requests (fst g1)) i = Some q \<and> ar_state q \<noteq> PENDING"
    using replay_request [of uuid clk env "tc_name tc" "tc_arguments tc" "mt_prefix t" "approval_reason t" "ag_conversation a" "fst (rp_gate s)" "snd (rp_gate s)"]
    by auto
  then obtain out g2 where wait: "ap_wait ?g i g1 = Some (out, g2)"
      and out: "\<forall>e. out = Inl e \<longrightarrow> x_istos e \<noteq> None \<and> \<not> starts_with (format_tool_error (ag_texts a) e) unrecorded"
    using replay_wait [of "fst g1" i _ "replay_gate uuid clk" env "snd g1" "ag_texts a"] by auto
  have conv: "ag_conversation ?b = ag_conversation a" "ag_texts ?b = ag_texts a" by (simp_all add: replaying_def)
  let ?e = "(event ''approval_request'')\<lparr>ev_name := Some (tc_name tc), ev_arguments := Some (tc_arguments tc),
       ev_call := Some (tc_id tc), ev_approval := Some i, ev_content := opt_str (approval_reason t)\<rparr>"
  let ?s1 = "(heard_by (ag_texts a) ?e (s\<lparr>rp_gate := g1\<rparr>))\<lparr>rp_gate := g2\<rparr>"
  have s1: "goes_on s ?s1 (tc_name tc # ns)"
    using assms(3) stocked_heard [of "s\<lparr>rp_gate := g1\<rparr>" "tc_name tc # ns" ?e "ag_texts a"]
    by (simp add: goes_on_def event_def) (simp add: heard_by_def)
  have asked: "outside (ap_request (replay_approver uuid clk env) (tc_name tc) (tc_arguments tc) (mt_prefix t) (approval_reason t) (ag_conversation a)) (ms, s)
      = Some (Inr i, ms, s\<lparr>rp_gate := g1\<rparr>)"
    using req by (simp add: outside_def replay_approver_def in_gate_def)
  have "rp_gate (heard_by (ag_texts a) ?e (s\<lparr>rp_gate := g1\<rparr>)) = g1" by (simp add: heard_by_def)
  then have waited: "outside (wait_for (replay_approver uuid clk env) i) (ms, heard_by (ag_texts a) ?e (s\<lparr>rp_gate := g1\<rparr>)) = Some (Inr out, ms, ?s1)"
    using wait out by (cases out) (auto simp: outside_def wait_for_def replay_approver_def in_gate_def)
  show ?thesis
  proof (cases out)
    case (Inl e)
    have "\<exists>ms' s'. refused ?b tc i (format_tool_error (ag_texts a) e) (ms, ?s1) = Some (Inr (), ms', s') \<and> goes_on ?s1 s' ns"
      by (rule refused_replay [OF stocked_less [of _ "tc_name tc"]]) (use s1 out Inl in \<open>simp_all add: goes_on_def\<close>)
    then show ?thesis using s1 Inl by (simp add: gated_def io_bind_def conv asked say_replay waited) (auto simp: goes_on_def)
  next
    case (Inr d)
    let ?e2 = "(event ''approval_decision'')\<lparr>ev_name := Some (tc_name tc), ev_arguments := Some (de_arguments d),
             ev_call := Some (tc_id tc), ev_approval := Some i, ev_content := PStr (approved_by d)\<rparr>"
    have "stocked (heard_by (ag_texts a) ?e2 ?s1) (tc_name tc # ns)"
      using s1 by (intro stocked_heard) (simp_all add: goes_on_def event_def)
    then obtain ms' s' where "perform ?b (replay_tools tj) (tc\<lparr>tc_arguments := de_arguments d\<rparr>) (ms, heard_by (ag_texts a) ?e2 ?s1) = Some (Inr (), ms', s')"
        "goes_on (heard_by (ag_texts a) ?e2 ?s1) s' ns"
      using perform_replay [OF assms(1), of "tc\<lparr>tc_arguments := de_arguments d\<rparr>" "heard_by (ag_texts a) ?e2 ?s1" ns a uuid clk env ms] assms(2)
      by auto
    then show ?thesis using s1 Inr by (simp add: gated_def io_bind_def conv asked say_replay waited) (simp add: goes_on_def heard_by_def)
  qed
qed

lemma dispatch_replay:
  assumes "\<forall>x \<in> set (tj_tools tj). to_name x \<noteq> []" "tc_name tc \<in> set (known tj)" "stocked s (tc_name tc # ns)"
  shows "\<exists>ms' s'. dispatch_tool (replaying a tj uuid clk env) (replay_tools tj) tc (ms, s) = Some (Inr (), ms', s') \<and> goes_on s s' ns"
proof -
  let ?b = "replaying a tj uuid clk env"
  let ?e = "(event ''tool_call'')\<lparr>ev_name := Some (tc_name tc), ev_arguments := Some (tc_arguments tc), ev_call := Some (tc_id tc)\<rparr>"
  let ?s1 = "heard_by (ag_texts a) ?e s"
  have s1: "stocked ?s1 (tc_name tc # ns)" by (rule stocked_heard [OF assms(3)]) (simp add: event_def)
  obtain ms1 s2 where "perform ?b (replay_tools tj) tc (ms, ?s1) = Some (Inr (), ms1, s2)" "goes_on ?s1 s2 ns"
    using perform_replay [OF assms(1,2) s1, of a uuid clk env ms] by blast
  moreover obtain ms3 s4 where "gated ?b (replay_tools tj) (canned_tool tj (tc_name tc)) (replay_approver uuid clk env) tc (ms, ?s1) = Some (Inr (), ms3, s4)"
      "goes_on ?s1 s4 ns"
    using gated_replay [OF assms(1,2) s1, of a uuid clk env _ ms] by blast
  moreover have "goes_on s x ns" if "goes_on ?s1 x ns" for x using that by (simp add: goes_on_def heard_by_def)
  moreover have "ag_approvals ?b = Some g \<Longrightarrow> g = replay_approver uuid clk env" for g by (simp add: replaying_def split: if_splits)
  ultimately show ?thesis
    by (auto simp: dispatch_tool_def io_bind_def say_replay found_canned [OF assms(1,2)] split: option.split)
qed

lemma dispatch_all_replay:
  assumes "\<forall>x \<in> set (tj_tools tj). to_name x \<noteq> []" "set (map tc_name tcs) \<subseteq> set (known tj)" "stocked s (map tc_name tcs @ ns)"
  shows "\<exists>ms' s'. dispatch_all (replaying a tj uuid clk env) (replay_tools tj) tcs (ms, s) = Some (Inr (), ms', s') \<and> goes_on s s' ns"
  using assms(2,3)
proof (induction tcs arbitrary: ms s)
  case Nil
  then show ?case by (simp add: io_return_def goes_on_def)
next
  case (Cons tc tcs)
  obtain ms1 s1 where 1: "dispatch_tool (replaying a tj uuid clk env) (replay_tools tj) tc (ms, s) = Some (Inr (), ms1, s1)" "goes_on s s1 (map tc_name tcs @ ns)"
    using dispatch_replay [OF assms(1), of tc s "map tc_name tcs @ ns" a uuid clk env ms] Cons.prems by auto
  then obtain ms2 s2 where "dispatch_all (replaying a tj uuid clk env) (replay_tools tj) tcs (ms1, s1) = Some (Inr (), ms2, s2)" "goes_on s1 s2 ns"
    using Cons.IH [of s1 ms1] Cons.prems by (auto simp: goes_on_def)
  then show ?case using 1 by (auto simp: io_bind_def goes_on_def)
qed

lemma trim_replay:
  assumes "case ag_max_messages a of None \<Rightarrow> True | Some k \<Rightarrow> k \<ge> 1"
  shows "\<exists>ms'. trim (replaying a tj uuid clk env) (ms, s) = Some (Inr (), ms', s)"
  using assms by (auto simp: trim_def replaying_def trim_messages_def Let_def split: option.splits)

lemma steps_replay:
  assumes "\<forall>x \<in> set (tj_tools tj). to_name x \<noteq> []" "case ag_max_messages a of None \<Rightarrow> True | Some k \<Rightarrow> k \<ge> 1"
    and "full_pass n Ts" "map to_reply (drop (rp_next s) (tj_turns tj)) = Ts @ rest"
    and "set (map tc_name (all_calls Ts)) \<subseteq> set (known tj)" "stocked s (map tc_name (all_calls Ts) @ ns)"
  shows "\<exists>ms' s'. agent_steps (replaying a tj uuid clk env) n (ms, s) = Some (Inr (), ms', s') \<and> stocked s' ns
    \<and> rp_next s' = rp_next s + length Ts \<and> rp_offered s' = rp_offered s @ replicate (length Ts) (map PStr (known tj))"
  using assms(3-6)
proof (induction n Ts arbitrary: ms s rule: full_pass.induct)
  case (1 rs)
  then show ?case
    by (auto simp: stopped_def io_bind_def say_replay event_def all_calls_def intro!: stocked_heard) (simp_all add: heard_by_def)
next
  case (3 n r rs)
  let ?b = "replaying a tj uuid clk env"
  have "drop (rp_next s) (tj_turns tj) \<noteq> []" using 3(3) by auto
  then have next_turn: "rp_next s < length (tj_turns tj)" "to_reply (tj_turns tj ! rp_next s) = r"
      "map to_reply (drop (Suc (rp_next s)) (tj_turns tj)) = rs @ rest"
    using 3(3) Cons_nth_drop_Suc [of "rp_next s" "tj_turns tj"] by (auto simp: not_le)
  obtain ms1 where trim: "trim ?b (ms, s) = Some (Inr (), ms1, s)" using trim_replay [OF assms(2)] by blast
  let ?s1 = "s\<lparr>rp_offered := rp_offered s @ [map PStr (known tj)], rp_next := rp_next s + 1\<rparr>"
  let ?ms2 = "ms1 @ [assistant_message (ag_texts ?b) r]"
  have ask: "complete ?b (ms1, s) = Some (Inr r, ms1, ?s1)"
    using complete_replay [OF assms(1) next_turn(1), of a uuid clk env ms1] next_turn(2) by simp
  have s1: "stocked ?s1 (map tc_name (all_calls (r # rs)) @ ns)" using 3(5) by (simp add: stocked_def)
  show ?case
  proof (cases "mr_calls r = []")
    case True
    have "\<exists>ms' s'. final_answer ?b r (?ms2, ?s1) = Some (Inr (), ms', s') \<and> goes_on ?s1 s' ns"
      using s1 True 3(2)
      by (auto simp: final_answer_def io_bind_def say_replay event_def goes_on_def all_calls_def intro!: stocked_heard split: option.splits)
        (simp_all add: heard_by_def)
    then show ?thesis using True 3(2) by (auto simp: io_bind_def trim ask append_message_def goes_on_def)
  next
    case False
    obtain ms3 s3 where all: "dispatch_all ?b (replay_tools tj) (mr_calls r) (?ms2, ?s1) = Some (Inr (), ms3, s3)"
        "goes_on ?s1 s3 (map tc_name (all_calls rs) @ ns)"
      using dispatch_all_replay [OF assms(1), of "mr_calls r" ?s1 "map tc_name (all_calls rs) @ ns" a uuid clk env ?ms2] 3(4) s1
      by (auto simp: all_calls_def)
    have tools: "ag_tools ?b = replay_tools tj" by (simp add: replaying_def)
    obtain ms4 s4 where "agent_steps ?b n (ms3, s3) = Some (Inr (), ms4, s4)" "stocked s4 ns"
        "rp_next s4 = rp_next s3 + length rs" "rp_offered s4 = rp_offered s3 @ replicate (length rs) (map PStr (known tj))"
      using 3(1) [OF False, of s3 ms3] 3(2,4) False all(2) next_turn(3) by (auto simp: goes_on_def all_calls_def)
    then show ?thesis using False all by (auto simp: io_bind_def trim ask append_message_def goes_on_def tools)
  qed
qed simp

lemma run_replay:
  assumes "\<forall>x \<in> set (tj_tools tj). to_name x \<noteq> []" "case ag_max_messages a of None \<Rightarrow> True | Some k \<Rightarrow> k \<ge> 1" "ag_max_steps a \<ge> 1"
    and "full_pass (nat (ag_max_steps a)) Ts" "map to_reply (drop (rp_next s) (tj_turns tj)) = Ts @ rest"
    and "set (map tc_name (all_calls Ts)) \<subseteq> set (known tj)" "stocked s (map tc_name (all_calls Ts) @ ns)"
  shows "\<exists>ms' s'. run_agent (replaying a tj uuid clk env) (ms, s) = Some (Inr (), ms', s') \<and> stocked s' ns
    \<and> rp_next s' = rp_next s + length Ts \<and> rp_offered s' = rp_offered s @ replicate (length Ts) (map PStr (known tj))"
proof -
  have "run_agent (replaying a tj uuid clk env) = agent_steps (replaying a tj uuid clk env) (nat (ag_max_steps a))"
    using assms(3) by (auto simp: run_agent_def replaying_def filter_empty_conv list_ex_iff)
  then show ?thesis using steps_replay [OF assms(1,2,4-7)] by simp
qed

lemma passes_replay:
  assumes "\<forall>x \<in> set (tj_tools tj). to_name x \<noteq> []" "case ag_max_messages a of None \<Rightarrow> True | Some k \<Rightarrow> k \<ge> 1" "ag_max_steps a \<ge> 1"
    and "length Tss = length ts" "\<forall>T \<in> set Tss. full_pass (nat (ag_max_steps a)) T"
    and "map to_reply (drop (rp_next s) (tj_turns tj)) = concat Tss"
    and "set (map tc_name (all_calls (concat Tss))) \<subseteq> set (known tj)" "stocked s (map tc_name (all_calls (concat Tss)))"
  shows "\<exists>ms' s'. passes (\<lambda>text s. s\<lparr>rp_recorder := heard_user text (rp_recorder s)\<rparr>) (replaying a tj uuid clk env) ts (ms, s)
        = Some (Inr (), ms', s') \<and> stocked s' []
    \<and> rp_next s' = rp_next s + length (concat Tss) \<and> rp_offered s' = rp_offered s @ replicate (length (concat Tss)) (map PStr (known tj))"
  using assms(4-8)
proof (induction Tss arbitrary: ts ms s)
  case Nil
  then show ?case by (simp add: io_return_def all_calls_def)
next
  case (Cons T Tss)
  then obtain u ts' where ts: "ts = u # ts'" by (cases ts) auto
  let ?s0 = "if u = [] then s else s\<lparr>rp_recorder := heard_user u (rp_recorder s)\<rparr>"
  let ?ms0 = "if u = [] then ms else ms @ [chat_message ''user'' (PStr u)]"
  have calls: "all_calls (concat (T # Tss)) = all_calls T @ all_calls (concat Tss)" by (simp add: all_calls_def)
  have s0: "stocked ?s0 (map tc_name (all_calls T) @ map tc_name (all_calls (concat Tss)))" "rp_next ?s0 = rp_next s" "rp_offered ?s0 = rp_offered s"
    using Cons.prems(5) calls by (auto simp: stocked_def heard_user_def)
  obtain ms1 s1 where 1: "run_agent (replaying a tj uuid clk env) (?ms0, ?s0) = Some (Inr (), ms1, s1)" "stocked s1 (map tc_name (all_calls (concat Tss)))"
      "rp_next s1 = rp_next s + length T" "rp_offered s1 = rp_offered s @ replicate (length T) (map PStr (known tj))"
    using run_replay [OF assms(1-3), of T ?s0 "concat Tss" "map tc_name (all_calls (concat Tss))" uuid clk env ?ms0] Cons.prems s0 calls by auto
  have "map to_reply (drop (rp_next s1) (tj_turns tj)) = concat Tss"
    using arg_cong [OF Cons.prems(3), of "drop (length T)"] 1(3) by (simp add: drop_map add.commute)
  then obtain ms2 s2 where 2: "passes (\<lambda>text s. s\<lparr>rp_recorder := heard_user text (rp_recorder s)\<rparr>) (replaying a tj uuid clk env) ts' (ms1, s1)
        = Some (Inr (), ms2, s2)" "stocked s2 []" "rp_next s2 = rp_next s1 + length (concat Tss)"
      "rp_offered s2 = rp_offered s1 @ replicate (length (concat Tss)) (map PStr (known tj))"
    using Cons.IH [of ts' s1 ms1] Cons.prems ts 1(2) calls by auto
  have "passes (\<lambda>text s. s\<lparr>rp_recorder := heard_user text (rp_recorder s)\<rparr>) (replaying a tj uuid clk env) ts (ms, s) = Some (Inr (), ms2, s2)"
    using 1(1) 2(1) by (cases "u = []") (simp_all add: ts io_bind_def io_return_def)
  then show ?case using 1(3,4) 2(2-4) by (simp add: replicate_add)
qed

lemma full_pass_unique: "full_pass n T \<Longrightarrow> full_pass n T' \<Longrightarrow> T @ x = T' @ y \<Longrightarrow> T = T'"
proof (induction n T arbitrary: T' rule: full_pass.induct)
  case (3 n r rs)
  then show ?case by (cases T') (auto split: if_splits)
qed auto

lemma full_passes_unique:
  assumes "length Tss = length Tss'" "\<forall>T \<in> set Tss. full_pass n T" "\<forall>T \<in> set Tss'. full_pass n T" "concat Tss = concat Tss'"
  shows "Tss = Tss'"
  using assms
proof (induction Tss Tss' rule: list_induct2)
  case (Cons T Tss T' Tss')
  then have "T = T'" using full_pass_unique [of n T T' "concat Tss" "concat Tss'"] by simp
  then show ?case using Cons by simp
qed simp

section \<open>Comparing\<close>

lemma final_message_heard:
  "final_message tx (build r) = (case rev (messages_heard r) of [] \<Rightarrow> None | PNone # _ \<Rightarrow> None | v # _ \<Rightarrow> Some (str_of tx v))"
  by (auto simp: final_message_def build_def messages_heard_def rev_map rev_filter [symmetric] split: list.splits)

lemma approval_requests_heard: "approval_requests (build r) = length (requests_heard r)"
  by (simp add: approval_requests_def build_def requests_heard_def)

lemma tool_names_heard: "tool_names (build r) = map fst (tools_heard r)"
  by (simp add: tool_names_def build_def tools_heard_def comp_def)

lemma same_arguments:
  assumes "tools_heard r = tools_heard r'"
  shows "List.map_filter (\<lambda>(i, want, have).
         if to_name want = to_name have \<and> to_arguments want \<noteq> to_arguments have then Some (ArgumentsChanged (i + 1) (to_name want)) else None)
         (enumerate k (zip (ro_tools r) (ro_tools r'))) = []"
proof -
  have "to_arguments w = to_arguments h" if "(w, h) \<in> set (zip (ro_tools r) (ro_tools r'))" for w h
    using that assms by (force simp: in_set_zip tools_heard_def list_eq_iff_nth_eq)
  moreover have "(w, h) \<in> set (zip (ro_tools r) (ro_tools r'))" if "(i, w, h) \<in> set (enumerate k (zip (ro_tools r) (ro_tools r')))" for i w h
    using that by (auto simp: in_set_enumerate_eq in_set_zip intro!: exI [of _ "i - k"])
  ultimately show ?thesis by (auto simp: map_filter_def filter_empty_conv)
qed

text \<open>What a recorded run leaves, in terms of the completions of its passes.\<close>

lemma recorded_run:
  assumes "record_agent a ms name users system w = Some (Inr tj, w')" "[] \<notin> set users"
  obtains r Tss where "tj = build r" "length Tss = length (turns_of users)" "\<forall>T \<in> set Tss. full_pass (nat (ag_max_steps a)) T"
    "map to_reply (tj_turns tj) = concat Tss" "turns_of (tj_users tj) = turns_of users"
    "hears (new_recorder name system None) r (map (\<lambda>tc. (tc_name tc, tc_arguments tc)) (all_calls (concat Tss)))
      (map PStr (filter (gates (recording a)) (map tc_name (all_calls (concat Tss)))))
      (map (PStr \<circ> last_text (ag_texts a) (ag_max_steps a) (nat (ag_max_steps a))) Tss)"
proof -
  obtain ms' r where run: "passes (\<lambda>text (w, r). (w, heard_user text r)) (recording a) (turns_of users)
      (with_system system ms, w, new_recorder name system None) = Some (Inr (), ms', w', r)" and tj: "tj = build r"
    using assms(1) by (auto simp: record_agent_def split: option.splits prod.splits sum.splits)
  have lim: "ag_max_steps (recording a) = ag_max_steps a" "ag_texts (recording a) = ag_texts a" by (simp_all add: recording_def)
  obtain Tss Ess where T: "map to_reply (ro_turns r) = concat Tss"
      "record_view r = pass_view (observe (ag_texts a)) heard_user (turns_of users) Ess (record_view (new_recorder name system None))"
      "length Tss = length (turns_of users)"
      "list_all2 (\<lambda>T E. full_pass (nat (ag_max_steps a)) T \<and> map skel E =
          outline (ag_texts a) (ag_max_steps a) (gates (recording a)) (nat (ag_max_steps a)) T) Tss Ess"
    using recorded.passes_follow [OF _ run, of heard_user]
    by (auto simp: lim new_recorder_def heard_user_def record_view_def)
  note heard = hears_passes [OF T(3,4), of "record_view (new_recorder name system None)" "ag_texts a", folded T(2)]
  have users: "ro_users r = filter (\<lambda>u. u \<noteq> []) (turns_of users)" using heard by (simp add: record_view_def new_recorder_def)
  have "filter (\<lambda>u. u \<noteq> []) users = users" using assms(2) by (intro filter_True) auto
  then have "turns_of (tj_users tj) = turns_of users" using users by (auto simp: tj build_def turns_of_def)
  moreover have "hears (new_recorder name system None) r (map (\<lambda>tc. (tc_name tc, tc_arguments tc)) (all_calls (concat Tss)))
      (map PStr (filter (gates (recording a)) (map tc_name (all_calls (concat Tss)))))
      (map (PStr \<circ> last_text (ag_texts a) (ag_max_steps a) (nat (ag_max_steps a))) Tss)"
    using heard by (simp add: hears_def record_view_def tools_heard_def requests_heard_def messages_heard_def)
  moreover have "\<forall>T \<in> set Tss. full_pass (nat (ag_max_steps a)) T"
    using T(4) by (auto simp: list_all2_conv_all_nth in_set_conv_nth)
  ultimately show ?thesis using that [of r Tss] tj T(1,3) by (simp add: build_def)
qed

lemma recorded_limits:
  assumes "record_agent a ms name users system w = Some (Inr tj, w')"
  shows "ag_max_steps a \<ge> 1 \<and> (case ag_max_messages a of None \<Rightarrow> True | Some k \<Rightarrow> k \<ge> 1)"
proof -
  obtain u ts where ts: "turns_of users = u # ts" by (cases "turns_of users") (auto simp: turns_of_def split: if_splits)
  then obtain s0 s1 where run: "run_agent (recording a) s0 = Some (Inr (), s1)"
    using assms by (cases "u = []") (auto simp: record_agent_def io_bind_Some split: option.splits prod.splits sum.splits)
  then have steps: "ag_max_steps a \<ge> 1" by (auto simp: run_agent_def recording_def io_raise_def split: if_splits)
  then obtain n where n: "nat (ag_max_steps a) = Suc n" by (cases "nat (ag_max_steps a)") auto
  have lim: "ag_max_steps (recording a) = ag_max_steps a" "ag_max_messages (recording a) = ag_max_messages a" by (simp_all add: recording_def)
  have "agent_steps (recording a) (Suc n) s0 = Some (Inr (), s1)"
    using run steps by (auto simp: run_agent_def lim n io_raise_def split: if_splits)
  then obtain x s2 where "trim (recording a) s0 = Some (Inr x, s2)" by (auto simp: io_bind_Some)
  then show ?thesis using steps
    by (auto simp: trim_def lim trim_messages_def split: option.splits if_splits sum.splits prod.splits)
qed

lemma gates_replay:
  assumes "\<forall>x \<in> set (tj_tools tj). to_name x \<noteq> []" "n \<in> set (known tj)"
  shows "gates (replaying a tj uuid clk env) n \<longleftrightarrow> PStr n \<in> gated_names tj"
proof -
  have "canned_tool tj n \<in> set (replay_tools tj)" using assms(2) unfolding replay_tools_canned known_def set_map by (rule imageI)
  then have "PStr n \<in> gated_names tj \<Longrightarrow> list_ex requires_approval (replay_tools tj)"
    by (auto simp: list_ex_iff requires_approval_def canned_tool_def intro!: bexI [of _ "canned_tool tj n"])
  then show ?thesis
    by (auto simp: gates_def replaying_def found_canned [OF assms] requires_approval_def canned_tool_def)
qed

lemma not_offered_iff:
  assumes "length turns = n"
  shows "(List.map_filter (\<lambda>(i, turn, names). if missing_tools turn names \<noteq> [] then Some (NotOffered (i + 1) (missing_tools turn names)) else None)
      (enumerate k (zip turns (replicate n names))) = []) \<longleftrightarrow> (\<forall>t \<in> set turns. set (tn_offered t) \<subseteq> set names)"
  using assms
proof (induction turns arbitrary: k n)
  case (Cons t turns)
  then obtain m where "n = Suc m" "length turns = m" by auto
  moreover have "missing_tools t names = [] \<longleftrightarrow> set (tn_offered t) \<subseteq> set names" by (auto simp: missing_tools_def filter_empty_conv)
  ultimately show ?case using Cons.IH [of m "Suc k"] by (auto simp: map_filter_simps)
qed (simp add: map_filter_simps)

lemma stocked_new:
  assumes "\<forall>x \<in> set (tj_tools tj). \<not> starts_with (to_content x) unrecorded"
  shows "stocked (new_replay tj) (tool_names tj)"
proof -
  have "count_list (map to_name os) n = length (filter (\<lambda>x. to_name x = n) os)" for n and os :: "tool_outcome list"
    by (induction os) auto
  then show ?thesis using assms
    by (auto simp: stocked_def new_replay_def queued_contents tool_names_def new_recorder_def)
qed

text \<open>C31: A recording replays: whatever the model, the tools, the human gate and the world were, the replay of a
  recorded run makes the same calls on the same arguments, asks for as many approvals and ends with
  the same message, and neither runs out of completions nor of results. What it may report are tools
  no longer offered, and it reports some exactly when a tool was offered that the run never called.\<close>

theorem recording_replays:
  assumes "record_agent a ms name users system w = Some (Inr tj, w')" "[] \<notin> set users"
    and "\<forall>x \<in> set (tj_tools tj). to_name x \<noteq> [] \<and> \<not> starts_with (to_content x) unrecorded"
  shows "\<exists>r diff. replay_run a tj uuid clk env True = Some (Inr (r, diff))
    \<and> map (\<lambda>x. (to_name x, to_arguments x)) (tj_tools r) = map (\<lambda>x. (to_name x, to_arguments x)) (tj_tools tj)
    \<and> (diff = [] \<longleftrightarrow> (\<forall>t \<in> set (tj_turns tj). set (tn_offered t) \<subseteq> PStr ` set (tool_names tj)))
    \<and> (\<forall>d \<in> set diff. \<exists>i ns. d = NotOffered i ns)"
proof -
  let ?b = "replaying a tj uuid clk env" and ?n = "nat (ag_max_steps a)" and ?tx = "ag_texts a"
  obtain r Tss where r: "tj = build r" "length Tss = length (turns_of users)" "\<forall>T \<in> set Tss. full_pass ?n T"
      "map to_reply (tj_turns tj) = concat Tss" "turns_of (tj_users tj) = turns_of users"
    and heard: "hears (new_recorder name system None) r (map (\<lambda>tc. (tc_name tc, tc_arguments tc)) (all_calls (concat Tss)))
      (map PStr (filter (gates (recording a)) (map tc_name (all_calls (concat Tss)))))
      (map (PStr \<circ> last_text ?tx (ag_max_steps a) ?n) Tss)"
    using recorded_run [OF assms(1,2)] by blast
  let ?calls = "map tc_name (all_calls (concat Tss))"
  have named: "\<forall>x \<in> set (tj_tools tj). to_name x \<noteq> []" using assms(3) by blast
  have r_heard: "tools_heard r = map (\<lambda>tc. (tc_name tc, tc_arguments tc)) (all_calls (concat Tss))"
      "requests_heard r = map PStr (filter (gates (recording a)) ?calls)"
      "messages_heard r = map (PStr \<circ> last_text ?tx (ag_max_steps a) ?n) Tss"
    using heard by (simp_all add: hears_def new_recorder_def tools_heard_def requests_heard_def messages_heard_def)
  have names: "tool_names tj = ?calls" by (simp add: r(1) tool_names_heard r_heard comp_def)
  have known: "set (known tj) = set ?calls" by (simp add: known_set names)
  note lim = recorded_limits [OF assms(1)]
  let ?sys = "case tj_system tj of None \<Rightarrow> [] | Some s \<Rightarrow> if s = [] then [] else [chat_message ''system'' (PStr s)]"
  have "map to_reply (drop (rp_next (new_replay tj)) (tj_turns tj)) = concat Tss" using r(4) by (simp add: new_replay_def)
  then obtain ms' s where run: "passes (\<lambda>text s. s\<lparr>rp_recorder := heard_user text (rp_recorder s)\<rparr>) ?b (turns_of (tj_users tj)) (?sys, new_replay tj)
        = Some (Inr (), ms', s)" and s: "stocked s []" "rp_next s = length (concat Tss)" "rp_offered s = replicate (length (concat Tss)) (map PStr (known tj))"
    using passes_replay [OF named, of a Tss "turns_of (tj_users tj)" "new_replay tj" uuid clk env ?sys] lim r(2,3,5) known
      stocked_new [of tj] assms(3) names by (auto simp: new_replay_def)
  have blim: "ag_max_steps ?b = ag_max_steps a" "ag_texts ?b = ?tx" by (simp_all add: replaying_def)
  obtain Tss' Ess where T: "used tj s = used tj (new_replay tj) @ concat Tss'"
      "rp_recorder s = pass_view (observe ?tx) heard_user (turns_of (tj_users tj)) Ess (rp_recorder (new_replay tj))"
      "length Tss' = length (turns_of (tj_users tj))"
      "list_all2 (\<lambda>T E. full_pass ?n T \<and> map skel E = outline ?tx (ag_max_steps a) (gates ?b) ?n T) Tss' Ess"
    using replay.passes_follow [OF _ run, of heard_user] by (auto simp: blim used_def)
  have len: "length (tj_turns tj) = length (concat Tss)" using arg_cong [OF r(4), of length] by simp
  have "concat Tss' = concat Tss" using T(1) s(2) len r(4) by (simp add: used_def new_replay_def)
  moreover have "\<forall>T \<in> set Tss'. full_pass ?n T" using T(4) by (auto simp: list_all2_conv_all_nth in_set_conv_nth)
  ultimately have same: "Tss' = Tss" using full_passes_unique [of Tss' Tss ?n] T(3) r(2,3,5) by simp
  note replayed = hears_passes [OF T(3,4), of "rp_recorder (new_replay tj)" ?tx, folded T(2), unfolded same]
  have zero: "tools_heard (rp_recorder (new_replay tj)) = []" "messages_heard (rp_recorder (new_replay tj)) = []"
      "requests_heard (rp_recorder (new_replay tj)) = []"
    by (simp_all add: new_replay_def new_recorder_def tools_heard_def requests_heard_def messages_heard_def)
  have s_heard: "tools_heard (rp_recorder s) = tools_heard r" "messages_heard (rp_recorder s) = messages_heard r"
      "requests_heard (rp_recorder s) = map PStr (filter (gates ?b) ?calls)"
    using replayed zero by (simp_all add: hears_def r_heard)
  have "gates ?b n \<longleftrightarrow> gates (recording a) n" if "n \<in> set ?calls" for n
  proof -
    have "gated_names tj = set (requests_heard r)" by (simp add: gated_names_def r(1) build_def requests_heard_def)
    then show ?thesis using gates_replay [OF named, of n a uuid clk env] that known by (auto simp: r_heard)
  qed
  then have "filter (gates ?b) ?calls = filter (gates (recording a)) ?calls" by (intro filter_cong) auto
  then have reqs: "requests_heard (rp_recorder s) = requests_heard r" by (simp add: s_heard r_heard)
  let ?f = "(build (rp_recorder s))\<lparr>tj_turns := tj_turns tj\<rparr>"
  have keep: "tool_names ?f = tool_names (build (rp_recorder s))" "final_message ?tx ?f = final_message ?tx (build (rp_recorder s))"
      "approval_requests ?f = approval_requests (build (rp_recorder s))" "tj_tools ?f = ro_tools (rp_recorder s)"
    by (simp_all add: tool_names_def final_message_def approval_requests_def build_def)
  have "filter (\<lambda>x. starts_with (to_content x) unrecorded) (tj_tools ?f) = []"
    using s(1) keep(4) by (simp add: stocked_def filter_empty_conv)
  moreover have "tj_tools tj = ro_tools r" by (simp add: r(1) build_def)
  moreover have "tool_names tj = tool_names ?f" unfolding keep tool_names_heard s_heard by (simp add: r(1) tool_names_heard)
  moreover have "final_message ?tx tj = final_message ?tx ?f" unfolding keep final_message_heard s_heard by (simp add: r(1) final_message_heard)
  moreover have "approval_requests tj = approval_requests ?f" unfolding keep approval_requests_heard reqs by (simp add: r(1) approval_requests_heard)
  ultimately have diff: "trajectory_diff ?tx tj ?f (rp_offered s) True =
      List.map_filter (\<lambda>(i, turn, names). if missing_tools turn names \<noteq> [] then Some (NotOffered (i + 1) (missing_tools turn names)) else None)
        (enumerate 0 (zip (tj_turns tj) (rp_offered s)))"
    using same_arguments [of r "rp_recorder s" 0, OF s_heard(1) [symmetric]]
    unfolding trajectory_diff_def by (simp add: keep(4))
  have "replay_run a tj uuid clk env True = Some (Inr (?f, trajectory_diff ?tx tj ?f (rp_offered s) True))"
    using run by (simp add: replay_run_def)
  moreover have "map (\<lambda>x. (to_name x, to_arguments x)) (tj_tools ?f) = map (\<lambda>x. (to_name x, to_arguments x)) (tj_tools tj)"
    using s_heard(1) by (simp add: keep r(1) build_def tools_heard_def)
  moreover have "trajectory_diff ?tx tj ?f (rp_offered s) True = [] \<longleftrightarrow> (\<forall>t \<in> set (tj_turns tj). set (tn_offered t) \<subseteq> PStr ` set (tool_names tj))"
    unfolding diff unfolding s(3) using not_offered_iff [where names = "map PStr (known tj)" and k = 0, OF len] by (simp add: known_set)
  moreover have "\<exists>i ns. d = NotOffered i ns" if "d \<in> set (trajectory_diff ?tx tj ?f (rp_offered s) True)" for d
    using that unfolding diff by (auto simp: map_filter_def split: if_splits)
  ultimately show ?thesis by blast
qed

definition weather_tool :: "nat mesh_tool" where
  "weather_tool = \<lparr>mt_prefix = ''weather'', mt_name = ''weather'', mt_description = [], mt_parameters = any_object,
     mt_approval = PBool False, mt_invoke = Some (\<lambda>args. io_return (PStr ''rain'')), mt_app = None\<rparr>"

definition weather_agent :: "nat agent" where
  "weather_agent =
     \<lparr>ag_model = (\<lambda>ms ts n. Some (Inr (if n = 0 then plain_reply None [\<lparr>tc_id = ''c'', tc_name = ''weather'', tc_arguments = []\<rparr>]
        else plain_reply (Some ''wet'') []), Suc n)),
      ag_tools = [weather_tool], ag_max_steps = 2, ag_max_messages = None, ag_token = None, ag_timeout_s = 1,
      ag_approvals = None, ag_conversation = None,
      ag_texts = \<lparr>tx_dumps = (\<lambda>_. []), tx_str = (\<lambda>_. []), tx_repr = (\<lambda>_. [])\<rparr>, ag_emit = (\<lambda>_. io_return ())\<rparr>"

lemma weather_recorded:
  "case record_agent weather_agent [] ''w'' [''go''] None 0 of
     Some (Inr tj, n) \<Rightarrow> map to_name (tj_tools tj) = [''weather''] \<and> map to_content (tj_tools tj) = [''rain'']
       \<and> map tn_offered (tj_turns tj) = [[PStr ''weather''], [PStr ''weather'']]
   | _ \<Rightarrow> False"
  by code_simp

lemma recording_replays_witness:
  "\<exists>tj n r. record_agent weather_agent [] ''w'' [''go''] None 0 = Some (Inr tj, n)
     \<and> replay_run weather_agent tj ''u'' (\<lambda>_. (0, 0)) (\<lambda>_. undefined) True = Some (Inr (r, []))"
proof -
  obtain tj n where tj: "record_agent weather_agent [] ''w'' [''go''] None 0 = Some (Inr tj, n)"
    and names: "map to_name (tj_tools tj) = [''weather'']" and contents: "map to_content (tj_tools tj) = [''rain'']"
    and offered: "map tn_offered (tj_turns tj) = [[PStr ''weather''], [PStr ''weather'']]"
    using weather_recorded by (auto split: option.splits prod.splits sum.splits)
  have "\<forall>x \<in> set (tj_tools tj). to_name x \<noteq> [] \<and> \<not> starts_with (to_content x) unrecorded"
    using names contents by (auto simp: map_eq_Cons_conv starts_with_def unrecorded_def)
  moreover have "\<forall>t \<in> set (tj_turns tj). set (tn_offered t) \<subseteq> PStr ` set (tool_names tj)"
    using names offered by (auto simp: map_eq_Cons_conv tool_names_def)
  ultimately show ?thesis
    using recording_replays [OF tj, where uuid = "''u''" and clk = "\<lambda>_. (0, 0)" and env = "\<lambda>_. undefined"] tj by auto
qed

section \<open>Findings\<close>

text \<open>A tool that was offered and never called is reported as gone, though nothing has changed: the default
  catalogue of a replay holds only the tools that were called.\<close>

definition quiet_agent :: "nat agent" where
  "quiet_agent = weather_agent\<lparr>ag_model := (\<lambda>ms ts n. Some (Inr (plain_reply (Some ''wet'') []), n))\<rparr>"

lemma uncalled_tool_is_missed:
  "case record_agent quiet_agent [] ''w'' [''go''] None 0 of
     Some (Inr tj, n) \<Rightarrow>
       (case replay_run quiet_agent tj ''u'' (\<lambda>_. (0, 0)) (\<lambda>_. \<lparr>gr_uuid = [], gr_t1 = 0, gr_t2 = 0, gr_others = [], gr_timer = False\<rparr>) True of
          Some (Inr (r, diff)) \<Rightarrow> diff = [NotOffered 1 [PStr ''weather'']]
        | _ \<Rightarrow> False)
   | _ \<Rightarrow> False"
  by code_simp

end
