(* ===== verification/Discovery.thy ===== *)
theory Discovery
  imports Agent Depends Authz
begin

text \<open>
  What a node tells the mesh about itself: the schemas of its functions (\<open>discovery/asyncapi.py\<close>), the
  manifest under its own key (\<open>discovery/capabilities.py\<close>, \<open>app/web.py\<close>), and the catalogues of tools
  built from a registry, a manifest, or all manifests on the mesh (\<open>agent/tools.py\<close>). The schemas
  that Pydantic makes of a type are arguments.
\<close>

section \<open>Functions and their schemas\<close>

text \<open>Types are values of \<open>'t\<close>; \<open>hints\<close> is what \<open>get_type_hints\<close> finds, nothing when it fails.\<close>

record 't py_function =
  fn_name :: string
  fn_sig :: "param list"
  fn_hints :: "(string, 't) dict"
  fn_doc :: string

record 't schemer =
  sc_basemodel :: "'t \<Rightarrow> bool"
  sc_none :: "'t \<Rightarrow> bool"
  sc_model :: "'t \<Rightarrow> exc + pyval"
  sc_fields :: "string \<Rightarrow> (string \<times> 't option \<times> pyval option) list \<Rightarrow> exc + pyval"
  sc_result :: "string \<Rightarrow> 't \<Rightarrow> exc + pyval"

text \<open>The parameters a caller sends.\<close>

definition sent_params :: "param list \<Rightarrow> param list" where
  "sent_params sig = filter (\<lambda>p. pr_name p \<noteq> ''self'' \<and> pr_name p \<noteq> ''db'' \<and> extract_depends p = None
     \<and> pr_kind p \<noteq> VAR_POSITIONAL \<and> pr_kind p \<noteq> VAR_KEYWORD) sig"

definition payload_fields :: "'t py_function \<Rightarrow> (string \<times> 't option \<times> pyval option) list" where
  "payload_fields f =
     map (\<lambda>p. (pr_name p, map_of (fn_hints f) (pr_name p),
        case pr_default p of Value v \<Rightarrow> Some v | _ \<Rightarrow> None)) (sent_params (fn_sig f))"

definition payload_schema :: "'t schemer \<Rightarrow> 't py_function \<Rightarrow> exc + pyval" where
  "payload_schema sc f =
     (let by_fields = (if sent_params (fn_sig f) = [] then Inr PNone else sc_fields sc (fn_name f @ ''_Payload'') (payload_fields f))
      in case sent_params (fn_sig f) of
           [p] \<Rightarrow>
             (case map_of (fn_hints f) (pr_name p) of
                Some t \<Rightarrow> if sc_basemodel sc t then sc_model sc t else by_fields
              | None \<Rightarrow> by_fields)
         | _ \<Rightarrow> by_fields)"

text \<open>\<open>schema["properties"]["result"]\<close> when both are there; any other failure leaves no schema.\<close>

definition result_property :: "pyval \<Rightarrow> pyval" where
  "result_property v =
     (case v of
        PDict d \<Rightarrow> (case dict_get d ''properties'' PNone of PDict ps \<Rightarrow> dict_get ps ''result'' PNone | _ \<Rightarrow> PNone)
      | _ \<Rightarrow> PNone)"

definition return_schema :: "'t schemer \<Rightarrow> 't py_function \<Rightarrow> exc + pyval" where
  "return_schema sc f =
     (case map_of (fn_hints f) ''return'' of
        None \<Rightarrow> Inr PNone
      | Some t \<Rightarrow>
          if sc_none sc t then Inr PNone
          else if sc_basemodel sc t then sc_model sc t
          else (case sc_result sc (fn_name f @ ''_Return'') t of
                  Inl e \<Rightarrow> if is_exception e then Inr PNone else Inl e
                | Inr s \<Rightarrow> Inr (result_property s)))"

definition get_function_schemas :: "'t schemer option \<Rightarrow> 't py_function \<Rightarrow> exc + pyval \<times> pyval" where
  "get_function_schemas py f =
     (case py of
        None \<Rightarrow> Inr (PNone, PNone)
      | Some sc \<Rightarrow> res_bind (payload_schema sc f) (\<lambda>p. res_bind (return_schema sc f) (\<lambda>r. Inr (p, r))))"

text \<open>\<open>except Exception: schemas = {}\<close>.\<close>

definition safe_schemas :: "'t schemer option \<Rightarrow> 't py_function \<Rightarrow> pyval \<times> pyval" where
  "safe_schemas py f = (case get_function_schemas py f of Inl _ \<Rightarrow> (PNone, PNone) | Inr s \<Rightarrow> s)"

section \<open>The registry of a node\<close>

record 't endpoint =
  ep_prefix :: string
  ep_func :: "'t py_function"
  ep_approval :: pyval
  ep_authorizer :: "authorizer option"

text \<open>A route of a WebSocket names the place of its channel.\<close>

record 't app_registry =
  rg_service :: string
  rg_handlers :: "'t endpoint list"
  rg_streams :: "'t endpoint list"
  rg_channels :: "'t endpoint list"
  rg_publishers :: "'t endpoint list"
  rg_subscribers :: "'t endpoint list"
  rg_ws_routes :: "(string \<times> nat) list"

definition CAPABILITIES_KEY :: string where
  "CAPABILITIES_KEY = ''.istos/capabilities''"

definition CAPABILITIES_WILDCARD :: string where
  "CAPABILITIES_WILDCARD = ''.istos/capabilities/*''"

definition capabilities_key :: "string \<Rightarrow> string" where
  "capabilities_key service = CAPABILITIES_KEY @ ''/'' @ key_chunk ''istos'' service"

definition plumbing :: "string \<Rightarrow> bool" where
  "plumbing prefix \<longleftrightarrow> starts_with prefix ''.istos/''"

definition describe :: "'t schemer option \<Rightarrow> string \<Rightarrow> 't endpoint \<Rightarrow> (string, pyval) dict" where
  "describe py kind ep =
     (let (payload, ret) = safe_schemas py (ep_func ep); doc = strip (fn_doc (ep_func ep))
      in [(''prefix'', PStr (ep_prefix ep)), (''kind'', PStr kind),
          (''description'', if doc = [] then PNone else PStr doc)]
         @ (if truthy payload then [(''params_schema'', payload)] else [])
         @ (if truthy ret then [(''return_schema'', ret)] else []))"

definition handler_entry :: "'t schemer option \<Rightarrow> 't endpoint \<Rightarrow> (string, pyval) dict" where
  "handler_entry py ep =
     describe py ''handle'' ep @ (if truthy (ep_approval ep) then [(''approval'', ep_approval ep)] else [])"

definition channel_entry :: "'t schemer option \<Rightarrow> (string \<times> nat) list \<Rightarrow> nat \<times> 't endpoint \<Rightarrow> (string, pyval) dict" where
  "channel_entry py routes = (\<lambda>(i, ep). describe py ''channel'' ep
     @ (case find (\<lambda>(path, j). j = i) routes of None \<Rightarrow> [] | Some (path, _) \<Rightarrow> [(''websocket'', PStr path)]))"

definition export_capabilities :: "'t schemer option \<Rightarrow> 't app_registry \<Rightarrow> (string, pyval) dict" where
  "export_capabilities py a =
     [(''service'', PStr (rg_service a)),
      (''capabilities'', PList (map PDict
        (map (handler_entry py) (filter (\<lambda>ep. \<not> plumbing (ep_prefix ep)) (rg_handlers a))
         @ map (describe py ''stream'') (rg_streams a)
         @ map (channel_entry py (rg_ws_routes a)) (enumerate 0 (rg_channels a))
         @ map (describe py ''publish'') (rg_publishers a)
         @ map (describe py ''subscribe'') (rg_subscribers a))))]"

section \<open>Asking the mesh\<close>

text \<open>A manifest is filed under its service. Keys equal in Python are one: the numbers of one value are.\<close>

definition service_key :: "pyval \<Rightarrow> exc + pyval" where
  "service_key v =
     (case v of
        PBool b \<Rightarrow> Inr (PFloat (if b then 1 else 0))
      | PInt i \<Rightarrow> Inr (PFloat (of_int i))
      | PList _ \<Rightarrow> Inl (type_error ''unhashable type'')
      | PDict _ \<Rightarrow> Inl (type_error ''unhashable type'')
      | _ \<Rightarrow> Inr v)"

type_synonym manifests = "(pyval, (string, pyval) dict) dict"

fun file_manifests :: "pyval list \<Rightarrow> manifests \<Rightarrow> exc + manifests" where
  "file_manifests [] found = Inr found"
| "file_manifests (m # ms) found =
     (case m of
        PDict d \<Rightarrow>
          if map_of d ''capabilities'' \<noteq> None
          then res_bind (service_key (dict_get d ''service'' (PStr ''istos''))) (\<lambda>k. file_manifests ms (AList.update k d found))
          else file_manifests ms found
      | _ \<Rightarrow> file_manifests ms found)"

definition is_not_found :: "exc \<Rightarrow> bool" where
  "is_not_found e \<longleftrightarrow> (case x_istos e of Some i \<Rightarrow> e_class i = NotFoundError | None \<Rightarrow> False)"

text \<open>\<open>ask\<close> is \<open>query_once\<close> on the wildcard, without consolidation, with a timeout.\<close>

definition discover_capabilities :: "(string \<Rightarrow> time \<Rightarrow> ('w, pyval) io) \<Rightarrow> time \<Rightarrow> ('w, manifests) io" where
  "discover_capabilities ask timeout w =
     (case ask CAPABILITIES_WILDCARD timeout w of
        None \<Rightarrow> None
      | Some (Inl e, w') \<Rightarrow> Some (if is_not_found e then Inr [] else Inl e, w')
      | Some (Inr v, w') \<Rightarrow>
          Some (case v of PNone \<Rightarrow> Inr [] | PList vs \<Rightarrow> file_manifests vs [] | _ \<Rightarrow> file_manifests [v] [], w'))"

section \<open>Catalogues of tools\<close>

type_synonym 'w app_query = "string \<Rightarrow> string option \<Rightarrow> time \<Rightarrow> (string, pyval) dict \<Rightarrow> ('w, pyval) io"

definition py_or :: "pyval \<Rightarrow> pyval \<Rightarrow> pyval" where
  "py_or a b = (if truthy a then a else b)"

text \<open>\<open>MeshTool\<close> of a prefix, with the app that queries it.\<close>

definition app_tool :: "'w app_query \<Rightarrow> string \<Rightarrow> string \<Rightarrow> pyval \<Rightarrow> pyval \<Rightarrow> 'w mesh_tool list" where
  "app_tool app prefix description parameters approval =
     (case mesh_tool_init prefix (Some app) None description parameters None approval of Inl _ \<Rightarrow> [] | Inr t \<Rightarrow> [t])"

definition allows :: "string list option \<Rightarrow> string \<Rightarrow> bool" where
  "allows whitelist x \<longleftrightarrow> (case whitelist of None \<Rightarrow> True | Some xs \<Rightarrow> x \<in> set xs)"

definition or_tool_name :: "string \<Rightarrow> string \<Rightarrow> string" where
  "or_tool_name doc prefix = (if strip doc = [] then tool_name prefix else strip doc)"

definition tools_from_handlers ::
  "'t schemer option \<Rightarrow> 'w app_query \<Rightarrow> string list option \<Rightarrow> string list \<Rightarrow> 't app_registry \<Rightarrow> 'w mesh_tool list" where
  "tools_from_handlers py app prefixes approval a =
     concat (map (\<lambda>ep.
       if plumbing (ep_prefix ep) \<or> \<not> allows prefixes (ep_prefix ep) then []
       else app_tool app (ep_prefix ep) (or_tool_name (fn_doc (ep_func ep)) (ep_prefix ep))
              (py_or (fst (safe_schemas py (ep_func ep))) any_object)
              (py_or (ep_approval ep) (PBool (ep_prefix ep \<in> set approval)))) (rg_handlers a))"

text \<open>What a \<open>for\<close> runs over: of a string or a dictionary it yields strings.\<close>

definition iterate :: "pyval \<Rightarrow> exc + pyval list" where
  "iterate v =
     (case v of
        PList vs \<Rightarrow> Inr vs
      | PStr s \<Rightarrow> Inr (map (\<lambda>c. PStr [c]) s)
      | PDict d \<Rightarrow> Inr (map (\<lambda>(k, _). PStr k) d)
      | _ \<Rightarrow> Inl (type_error ''object is not iterable''))"

definition entry_tool :: "'w app_query \<Rightarrow> string list option \<Rightarrow> string list \<Rightarrow> pyval \<Rightarrow> exc + 'w mesh_tool list" where
  "entry_tool app prefixes approval e =
     (case e of
        PDict d \<Rightarrow>
          if dict_get d ''kind'' PNone \<noteq> PStr ''handle'' then Inr []
          else (case dict_get d ''prefix'' PNone of
                  PStr prefix \<Rightarrow>
                    if plumbing prefix \<or> \<not> allows prefixes prefix then Inr []
                    else (case py_or (dict_get d ''description'' PNone) (PStr []) of
                            PStr doc \<Rightarrow> Inr (app_tool app prefix (or_tool_name doc prefix)
                              (py_or (dict_get d ''params_schema'' PNone) any_object)
                              (py_or (dict_get d ''approval'' PNone) (PBool (prefix \<in> set approval))))
                          | _ \<Rightarrow> Inl (attribute_error ''strip''))
                | _ \<Rightarrow> Inr [])
      | _ \<Rightarrow> Inr [])"

fun entry_tools :: "'w app_query \<Rightarrow> string list option \<Rightarrow> string list \<Rightarrow> pyval list \<Rightarrow> exc + 'w mesh_tool list" where
  "entry_tools app prefixes approval [] = Inr []"
| "entry_tools app prefixes approval (e # es) =
     res_bind (entry_tool app prefixes approval e) (\<lambda>ts. res_bind (entry_tools app prefixes approval es) (\<lambda>us. Inr (ts @ us)))"

definition tools_from_manifest ::
  "'w app_query \<Rightarrow> string list option \<Rightarrow> string list \<Rightarrow> (string, pyval) dict \<Rightarrow> exc + 'w mesh_tool list" where
  "tools_from_manifest app prefixes approval manifest =
     res_bind (iterate (py_or (dict_get manifest ''capabilities'' PNone) (PList []))) (entry_tools app prefixes approval)"

text \<open>\<open>sorted(manifests.items())\<close>: the services are distinct, so they alone are compared; text or numbers.\<close>

definition number_of :: "pyval \<Rightarrow> rat" where
  "number_of v = (case v of PFloat r \<Rightarrow> r | _ \<Rightarrow> 0)"

definition text_of :: "pyval \<Rightarrow> string" where
  "text_of v = (case v of PStr s \<Rightarrow> s | _ \<Rightarrow> [])"

definition sorted_items :: "manifests \<Rightarrow> exc + manifests" where
  "sorted_items found =
     (if length found \<le> 1 then Inr found
      else if list_all (\<lambda>(k, _). case k of PStr _ \<Rightarrow> True | _ \<Rightarrow> False) found then Inr (sort_key (text_of \<circ> fst) found)
      else if list_all (\<lambda>(k, _). case k of PFloat _ \<Rightarrow> True | _ \<Rightarrow> False) found then Inr (sort_key (number_of \<circ> fst) found)
      else Inl (type_error ''not supported between instances''))"

fun first_seen :: "'w mesh_tool list \<Rightarrow> string set \<Rightarrow> 'w mesh_tool list" where
  "first_seen [] seen = []"
| "first_seen (t # ts) seen =
     (if mt_prefix t \<in> seen then first_seen ts seen else t # first_seen ts (insert (mt_prefix t) seen))"

fun manifest_tools ::
  "'w app_query \<Rightarrow> string list option \<Rightarrow> string list option \<Rightarrow> string list \<Rightarrow> manifests \<Rightarrow> exc + 'w mesh_tool list" where
  "manifest_tools app wanted prefixes approval [] = Inr []"
| "manifest_tools app wanted prefixes approval ((service, manifest) # ms) =
     res_bind (if (case wanted of None \<Rightarrow> True | Some ss \<Rightarrow> service \<in> PStr ` set ss)
               then tools_from_manifest app prefixes approval manifest else Inr []) (\<lambda>ts.
     res_bind (manifest_tools app wanted prefixes approval ms) (\<lambda>us. Inr (ts @ us)))"

definition tools_from_discovery ::
  "(string \<Rightarrow> time \<Rightarrow> ('w, pyval) io) \<Rightarrow> 'w app_query \<Rightarrow> time \<Rightarrow> string list option \<Rightarrow> string list option \<Rightarrow> string list
   \<Rightarrow> ('w, 'w mesh_tool list) io" where
  "tools_from_discovery ask app timeout wanted prefixes approval =
     io_bind (discover_capabilities ask timeout) (\<lambda>found w.
       Some (res_bind (sorted_items found) (\<lambda>items.
             res_bind (manifest_tools app wanted prefixes approval items) (\<lambda>ts. Inr (first_seen ts {}))), w))"

section \<open>Lemmas\<close>

lemma dropWhile_idem: "dropWhile P (dropWhile P xs) = dropWhile P xs"
  by (induction xs) auto

lemma dropWhile_rev_fixed:
  assumes "dropWhile P xs = xs"
  shows "dropWhile P (rev (dropWhile P (rev xs))) = rev (dropWhile P (rev xs))"
proof (cases "rev (dropWhile P (rev xs))")
  case (Cons y ys)
  obtain zs where "rev xs = zs @ dropWhile P (rev xs)" by (metis takeWhile_dropWhile_id)
  then have "xs = rev (dropWhile P (rev xs)) @ rev zs" by (metis rev_append rev_rev_ident)
  then have "\<not> P y" using assms Cons by (metis append_Cons dropWhile_eq_Cons_conv)
  then show ?thesis unfolding Cons by simp
next
  case Nil
  then show ?thesis unfolding Nil by simp
qed

lemma strip_empty [simp]: "strip [] = []"
  by (simp add: strip_def lstrip_def)

lemma strip_strip [simp]: "strip (strip s) = strip s"
proof -
  have "lstrip (strip s) = strip s"
    unfolding strip_def lstrip_def by (rule dropWhile_rev_fixed) (rule dropWhile_idem)
  then show ?thesis unfolding strip_def [of "strip s"] by (simp add: strip_def lstrip_def dropWhile_idem)
qed

lemma py_or_truthy: "py_or (if truthy v then v else PNone) x = py_or v x"
  by (simp add: py_or_def)

lemma py_or_list [simp]: "py_or (PList vs) (PList []) = PList vs"
  by (simp add: py_or_def)

lemma handler_entry_fields:
  "dict_get (handler_entry py ep) ''kind'' PNone = PStr ''handle''"
  "dict_get (handler_entry py ep) ''prefix'' PNone = PStr (ep_prefix ep)"
  "dict_get (handler_entry py ep) ''description'' PNone = (if strip (fn_doc (ep_func ep)) = [] then PNone else PStr (strip (fn_doc (ep_func ep))))"
  "dict_get (handler_entry py ep) ''params_schema'' PNone = (let v = fst (safe_schemas py (ep_func ep)) in if truthy v then v else PNone)"
  "dict_get (handler_entry py ep) ''approval'' PNone = (if truthy (ep_approval ep) then ep_approval ep else PNone)"
  by (simp_all add: handler_entry_def describe_def dict_get_def Let_def case_prod_beta)

lemma other_entries:
  "kind \<noteq> ''handle'' \<Longrightarrow> entry_tool app prefixes approval (PDict (describe py kind ep)) = Inr []"
  "entry_tool app prefixes approval (PDict (channel_entry py routes ie)) = Inr []"
  by (simp_all add: entry_tool_def describe_def channel_entry_def dict_get_def Let_def case_prod_beta)

definition handler_tool :: "'t schemer option \<Rightarrow> 'w app_query \<Rightarrow> string list option \<Rightarrow> string list \<Rightarrow> 't endpoint \<Rightarrow> 'w mesh_tool list" where
  "handler_tool py app prefixes approval ep =
     (if plumbing (ep_prefix ep) \<or> \<not> allows prefixes (ep_prefix ep) then []
      else app_tool app (ep_prefix ep) (or_tool_name (fn_doc (ep_func ep)) (ep_prefix ep))
             (py_or (fst (safe_schemas py (ep_func ep))) any_object)
             (py_or (ep_approval ep) (PBool (ep_prefix ep \<in> set approval))))"

lemma tools_from_handlers_tools: "tools_from_handlers py app prefixes approval a = concat (map (handler_tool py app prefixes approval) (rg_handlers a))"
  by (simp add: tools_from_handlers_def handler_tool_def [abs_def])

lemma entry_of_handler: "entry_tool app prefixes approval (PDict (handler_entry py ep)) = Inr (handler_tool py app prefixes approval ep)"
  by (auto simp: entry_tool_def handler_entry_fields handler_tool_def or_tool_name_def py_or_def Let_def)

lemma entry_tools_append:
  "entry_tools app prefixes approval xs = Inr ts \<Longrightarrow> entry_tools app prefixes approval (xs @ ys)
     = res_bind (entry_tools app prefixes approval ys) (\<lambda>us. Inr (ts @ us))"
proof (induction xs arbitrary: ts)
  case Nil
  then show ?case by (cases "entry_tools app prefixes approval ys") auto
next
  case (Cons x xs)
  then show ?case by (cases "entry_tools app prefixes approval ys") (auto simp: res_bind_eq_Inr)
qed

lemma entry_tools_none: "(\<And>e. e \<in> set es \<Longrightarrow> entry_tool app prefixes approval e = Inr []) \<Longrightarrow> entry_tools app prefixes approval es = Inr []"
  by (induction es) auto

lemma entry_tools_handlers:
  "entry_tools app prefixes approval (map (PDict \<circ> handler_entry py) (filter (\<lambda>ep. \<not> plumbing (ep_prefix ep)) eps))
    = Inr (concat (map (handler_tool py app prefixes approval) eps))"
proof (induction eps)
  case (Cons ep eps)
  have "handler_tool py app prefixes approval ep = []" if "plumbing (ep_prefix ep)" using that by (simp add: handler_tool_def)
  then show ?case using Cons by (simp add: entry_of_handler)
qed simp

lemma manifest_of_registry:
  "tools_from_manifest app prefixes approval (export_capabilities py a) = Inr (tools_from_handlers py app prefixes approval a)"
proof -
  let ?rest = "map PDict (map (describe py ''stream'') (rg_streams a) @ map (channel_entry py (rg_ws_routes a)) (enumerate 0 (rg_channels a))
      @ map (describe py ''publish'') (rg_publishers a) @ map (describe py ''subscribe'') (rg_subscribers a))"
  have "entry_tools app prefixes approval ?rest = Inr []"
    by (rule entry_tools_none) (auto simp: other_entries)
  moreover have "dict_get (export_capabilities py a) ''capabilities'' PNone =
      PList (map (PDict \<circ> handler_entry py) (filter (\<lambda>ep. \<not> plumbing (ep_prefix ep)) (rg_handlers a)) @ ?rest)"
    by (simp add: export_capabilities_def dict_get_def)
  ultimately show ?thesis
    by (simp add: tools_from_manifest_def iterate_def tools_from_handlers_tools entry_tools_append [OF entry_tools_handlers])
qed

text \<open>What \<open>query_once\<close> gives for the replies of several responders.\<close>

definition fan_in :: "pyval list \<Rightarrow> exc + pyval" where
  "fan_in vs =
     (case vs of
        [] \<Rightarrow> Inl (raised (not_found_error (PStr ''No handler replied'') PNone PNone))
      | [v] \<Rightarrow> Inr v
      | _ \<Rightarrow> Inr (PList vs))"

definition filed :: "'t schemer option \<Rightarrow> 't app_registry \<Rightarrow> pyval \<times> (string, pyval) dict" where
  "filed py a = (PStr (rg_service a), export_capabilities py a)"

lemma update_new: "k \<notin> dkeys d \<Longrightarrow> AList.update k v d = d @ [(k, v)]"
  by (induction d) auto

lemma exported_fields:
  "\<exists>v. map_of (export_capabilities py a) ''capabilities'' = Some v"
  "dict_get (export_capabilities py a) ''service'' (PStr ''istos'') = PStr (rg_service a)"
  by (simp_all add: export_capabilities_def dict_get_def)

lemma file_exported:
  "distinct (map rg_service nodes) \<Longrightarrow> (\<forall>a \<in> set nodes. PStr (rg_service a) \<notin> dkeys found) \<Longrightarrow>
   file_manifests (map (\<lambda>a. PDict (export_capabilities py a)) nodes) found = Inr (found @ map (filed py) nodes)"
proof (induction nodes arbitrary: found)
  case (Cons a nodes)
  have new: "AList.update (PStr (rg_service a)) (export_capabilities py a) found = found @ [filed py a]"
    using Cons.prems by (simp add: update_new filed_def)
  have "file_manifests (map (\<lambda>a. PDict (export_capabilities py a)) nodes) (found @ [filed py a])
      = Inr ((found @ [filed py a]) @ map (filed py) nodes)"
    using Cons.prems by (intro Cons.IH) (auto simp: filed_def, metis image_eqI)
  then show ?case by (simp add: exported_fields service_key_def new)
qed simp

lemma discovered:
  assumes "ask CAPABILITIES_WILDCARD timeout w = Some (fan_in (map (\<lambda>a. PDict (export_capabilities py a)) nodes), w')"
    and "distinct (map rg_service nodes)"
  shows "discover_capabilities ask timeout w = Some (Inr (map (filed py) nodes), w')"
  using file_exported [OF assms(2), of "[]" py] assms(1)
  by (cases nodes; cases "tl nodes")
    (auto simp: exported_fields discover_capabilities_def fan_in_def is_not_found_def raised_def not_found_error_def istos_error_init_def)

lemma sort_key_map: "sort_key f (map g xs) = map g (sort_key (f \<circ> g) xs)"
proof -
  have "map g (insort_key (f \<circ> g) x ys) = insort_key f (g x) (map g ys)" for x ys by (induction ys) auto
  then show ?thesis by (induction xs) (simp_all add: sort_key_def)
qed

lemma sorted_filed: "sorted_items (map (filed py) nodes) = Inr (map (filed py) (sort_key rg_service nodes))"
proof -
  have "sort_key (text_of \<circ> fst) (map (filed py) nodes) = map (filed py) (sort_key rg_service nodes)"
    by (simp add: sort_key_map comp_def filed_def text_of_def)
  moreover have "list_all (\<lambda>(k, _). case k of PStr _ \<Rightarrow> True | _ \<Rightarrow> False) (map (filed py) nodes)"
    by (simp add: list_all_iff filed_def)
  moreover have "sort_key rg_service nodes = nodes" if "length nodes \<le> 1"
    using that by (cases nodes; cases "tl nodes") auto
  ultimately show ?thesis by (auto simp: sorted_items_def)
qed

lemma manifest_tools_filed:
  "manifest_tools app wanted prefixes approval (map (filed py) nodes)
    = Inr (concat (map (tools_from_handlers py app prefixes approval) (filter (\<lambda>a. allows wanted (rg_service a)) nodes)))"
  by (induction nodes) (auto simp: filed_def manifest_of_registry allows_def split: option.split)

lemma set_first_seen: "set (first_seen ts seen) \<subseteq> set ts"
  by (induction ts seen rule: first_seen.induct) auto

lemma app_tool_fields:
  "t \<in> set (app_tool app prefix doc ps ap) \<Longrightarrow> mt_prefix t = prefix \<and> mt_approval t = ap"
  by (auto simp: app_tool_def mesh_tool_init_def Let_def)

text \<open>C32: What a node learns of the others' handlers by discovery is what it would build from their
  registries: the same tools, services in order of their names, each key expression once; and every
  tool needs a human exactly when the handler it was made from declares it, or this node asks for it.\<close>

theorem discovery_is_local:
  assumes "ask CAPABILITIES_WILDCARD timeout w = Some (fan_in (map (\<lambda>a. PDict (export_capabilities py a)) nodes), w')"
    and "distinct (map rg_service nodes)"
  shows "\<exists>ts. tools_from_discovery ask app timeout wanted prefixes approval w = Some (Inr ts, w')
    \<and> ts = first_seen (concat (map (tools_from_handlers py app prefixes approval)
             (filter (\<lambda>a. allows wanted (rg_service a)) (sort_key rg_service nodes)))) {}
    \<and> (\<forall>t \<in> set ts. \<exists>a \<in> set nodes. \<exists>ep \<in> set (rg_handlers a). mt_prefix t = ep_prefix ep
         \<and> (requires_approval t \<longleftrightarrow> truthy (ep_approval ep) \<or> ep_prefix ep \<in> set approval))"
proof -
  let ?all = "concat (map (tools_from_handlers py app prefixes approval) (filter (\<lambda>a. allows wanted (rg_service a)) (sort_key rg_service nodes)))"
  have "tools_from_discovery ask app timeout wanted prefixes approval w = Some (Inr (first_seen ?all {}), w')"
    by (simp add: tools_from_discovery_def io_bind_def discovered [of ask timeout w py nodes w', OF assms] sorted_filed manifest_tools_filed)
  moreover have "\<exists>a \<in> set nodes. \<exists>ep \<in> set (rg_handlers a). mt_prefix t = ep_prefix ep
         \<and> (requires_approval t \<longleftrightarrow> truthy (ep_approval ep) \<or> ep_prefix ep \<in> set approval)" if "t \<in> set ?all" for t
  proof -
    obtain a ep where "a \<in> set nodes" "ep \<in> set (rg_handlers a)" "t \<in> set (handler_tool py app prefixes approval ep)"
      using \<open>t \<in> set ?all\<close> by (auto simp: tools_from_handlers_tools)
    then show ?thesis
      by (intro bexI [of _ a] bexI [of _ ep])
        (auto simp: handler_tool_def requires_approval_def py_or_def dest: app_tool_fields split: if_splits)
  qed
  ultimately show ?thesis using set_first_seen [of ?all "{}"] by (intro exI [of _ "first_seen ?all {}"]) blast
qed

definition wipe_handler :: "unit endpoint" where
  "wipe_handler = \<lparr>ep_prefix = ''disk/wipe'', ep_func = \<lparr>fn_name = ''wipe'', fn_sig = [], fn_hints = [], fn_doc = '' Wipes. ''\<rparr>,
     ep_approval = PStr ''destructive'', ep_authorizer = None\<rparr>"

definition registry_of :: "string \<Rightarrow> unit endpoint list \<Rightarrow> unit app_registry" where
  "registry_of service hs = \<lparr>rg_service = service, rg_handlers = hs, rg_streams = [], rg_channels = [wipe_handler],
     rg_publishers = [], rg_subscribers = [], rg_ws_routes = [(''/ws'', 0)]\<rparr>"

lemma discovery_is_local_witness:
  "\<exists>ts. tools_from_discovery (\<lambda>_ _ w. Some (fan_in (map (\<lambda>a. PDict (export_capabilities (None :: unit schemer option) a))
       [registry_of ''b'' [wipe_handler], registry_of ''a'' []]), w)) (\<lambda>_ _ _ _ (w :: nat). None) 3 None None [] 0 = Some (Inr ts, 0)
     \<and> map mt_prefix ts = [''disk/wipe''] \<and> (\<forall>t \<in> set ts. requires_approval t)"
proof -
  let ?nodes = "[registry_of ''b'' [wipe_handler], registry_of ''a'' []]"
  have "map mt_prefix (first_seen (concat (map (tools_from_handlers (None :: unit schemer option) (\<lambda>_ _ _ _ (w :: nat). None) None [])
      (filter (\<lambda>a. allows None (rg_service a)) (sort_key rg_service ?nodes)))) {}) = [''disk/wipe'']"
    by code_simp
  then show ?thesis
    using discovery_is_local [of "\<lambda>_ _ w. Some (fan_in (map (\<lambda>a. PDict (export_capabilities (None :: unit schemer option) a)) ?nodes), w)"
        3 "0 :: nat" None ?nodes 0 "\<lambda>_ _ _ _ w. None" None None "[]"]
    by (auto simp: registry_of_def wipe_handler_def)
qed

section \<open>Findings\<close>

text \<open>Of a key expression that two services serve, the flag of the service whose name sorts first wins: a tool
  one of its owners gates runs without a human.\<close>

lemma other_service_drops_gate:
  "map requires_approval (first_seen (concat (map (tools_from_handlers (None :: unit schemer option) (\<lambda>_ _ _ _ (w :: nat). None) None [])
      (sort_key rg_service [registry_of ''b'' [wipe_handler], registry_of ''a'' [wipe_handler\<lparr>ep_approval := PBool False\<rparr>]]))) {}) = [False]"
  by code_simp

end
