(* ===== verification/AsyncApi.thy ===== *)
theory AsyncApi
  imports Discovery PyNum
begin

text \<open>
  The AsyncAPI document of an application (\<open>discovery/asyncapi.py\<close>): channels, operations and messages
  that refer to each other by name. The YAML text of the document is not modelled.
\<close>

section \<open>Documents\<close>

record doc_channel =
  dc_address :: string
  dc_title :: string
  dc_description :: string
  dc_messages :: "(string, string) dict"

record operation =
  op_action :: string
  op_channel :: string
  op_tags :: "string list"
  op_messages :: "string list option"
  op_reply :: "string list option"

record document =
  dm_title :: string
  dm_version :: string
  dm_channels :: "(string, doc_channel) dict"
  dm_operations :: "(string, operation) dict"
  dm_messages :: "(string, pyval) dict"
  dm_count :: nat

definition empty_document :: "string \<Rightarrow> string \<Rightarrow> document" where
  "empty_document title version =
     \<lparr>dm_title = title, dm_version = version, dm_channels = [], dm_operations = [], dm_messages = [], dm_count = 0\<rparr>"

definition message_ref :: "string \<Rightarrow> string" where
  "message_ref i = ''#/components/messages/'' @ i"

definition channel_ref :: "string \<Rightarrow> string" where
  "channel_ref ch = ''#/channels/'' @ ch"

definition channel_message_ref :: "string \<Rightarrow> string \<Rightarrow> string" where
  "channel_message_ref ch k = channel_ref ch @ ''/messages/'' @ k"

definition register_message :: "string \<Rightarrow> pyval \<Rightarrow> document \<Rightarrow> string \<times> document" where
  "register_message hint schema d =
     (let n = dm_count d + 1; i = hint @ ''Message_'' @ show_nat n
      in (message_ref i, d\<lparr>dm_count := n, dm_messages := AList.update i schema (dm_messages d)\<rparr>))"

definition ensure_channel :: "string \<Rightarrow> string \<Rightarrow> string \<Rightarrow> string \<Rightarrow> document \<Rightarrow> document" where
  "ensure_channel ch address title description d =
     (if map_of (dm_channels d) ch = None
      then d\<lparr>dm_channels := AList.update ch
             \<lparr>dc_address = address, dc_title = title, dc_description = description, dc_messages = []\<rparr> (dm_channels d)\<rparr>
      else d)"

definition channel_name :: "string \<Rightarrow> string" where
  "channel_name prefix =
     concat (map (\<lambda>c. if c = CHR ''/'' then ''_'' else if c = CHR ''*'' then ''star'' else [c]) prefix)"

section \<open>One endpoint\<close>

text \<open>What each of the six loops says of an endpoint: the name of its operation, and the names and schemas of
  its message and its reply, when it has them.\<close>

record op_spec =
  os_id :: string
  os_action :: string
  os_prefix :: string
  os_title :: string
  os_doc :: string
  os_tags :: "string list"
  os_request :: "(string \<times> pyval) option"
  os_reply :: "(string \<times> pyval) option"

text \<open>\<open>self.doc["channels"][ch]["messages"][key] = ...\<close> and the reference the operation gets.\<close>

definition add_message :: "string \<Rightarrow> (string \<times> pyval) option \<Rightarrow> document \<Rightarrow> string list option \<times> document" where
  "add_message ch msg d =
     (case msg of
        None \<Rightarrow> (None, d)
      | Some (k, schema) \<Rightarrow>
          (let (r, d1) = register_message k schema d
           in (Some [channel_message_ref ch k],
               case map_of (dm_channels d1) ch of
                 None \<Rightarrow> d1
               | Some c \<Rightarrow> d1\<lparr>dm_channels := AList.update ch (c\<lparr>dc_messages := AList.update k r (dc_messages c)\<rparr>) (dm_channels d1)\<rparr>)))"

definition document_one :: "op_spec \<Rightarrow> document \<Rightarrow> document" where
  "document_one sp d =
     (let ch = channel_name (os_prefix sp);
          d1 = ensure_channel ch (os_prefix sp) (os_title sp) (os_doc sp) d;
          (ms, d2) = add_message ch (os_request sp) d1;
          (rs, d3) = add_message ch (os_reply sp) d2
      in d3\<lparr>dm_operations := AList.update (os_id sp)
             \<lparr>op_action = os_action sp, op_channel = channel_ref ch, op_tags = os_tags sp, op_messages = ms, op_reply = rs\<rparr>
             (dm_operations d3)\<rparr>)"

definition named_schema :: "string \<Rightarrow> pyval \<Rightarrow> (string \<times> pyval) option" where
  "named_schema k v = (if truthy v then Some (k, v) else None)"

definition spec_of :: "string \<Rightarrow> string \<Rightarrow> string \<Rightarrow> string list \<Rightarrow> 't endpoint \<Rightarrow> (string \<times> pyval) option \<Rightarrow> (string \<times> pyval) option \<Rightarrow> op_spec" where
  "spec_of kind action title tags ep request reply =
     \<lparr>os_id = kind @ ''_'' @ fn_name (ep_func ep), os_action = action, os_prefix = ep_prefix ep, os_title = title,
      os_doc = fn_doc (ep_func ep), os_tags = tags, os_request = request, os_reply = reply\<rparr>"

definition handler_spec :: "'t schemer option \<Rightarrow> 't endpoint \<Rightarrow> exc + op_spec" where
  "handler_spec py ep =
     res_bind (get_function_schemas py (ep_func ep)) (\<lambda>(p, r). let n = fn_name (ep_func ep) in
       Inr (spec_of ''handle'' ''receive'' (''Handler: '' @ n) [''@handle'', ''RPC''] ep
              (named_schema (n @ ''_req'') p) (named_schema (n @ ''_rep'') r)))"

definition subscriber_spec :: "'t schemer option \<Rightarrow> 't endpoint \<Rightarrow> exc + op_spec" where
  "subscriber_spec py ep =
     res_bind (get_function_schemas py (ep_func ep)) (\<lambda>(p, r). let n = fn_name (ep_func ep) in
       Inr (spec_of ''subscribe'' ''receive'' (''Topic: '' @ ep_prefix ep) [''@subscribe'', ''Pub/Sub''] ep
              (named_schema (n @ ''_event'') p) None))"

definition publisher_spec :: "'t schemer option \<Rightarrow> 't endpoint \<Rightarrow> exc + op_spec" where
  "publisher_spec py ep =
     res_bind (get_function_schemas py (ep_func ep)) (\<lambda>(p, r). let n = fn_name (ep_func ep) in
       Inr (spec_of ''publish'' ''send'' (''Topic: '' @ ep_prefix ep) [''@publish'', ''Pub/Sub''] ep
              (named_schema (n @ ''_event'') r) None))"

definition query_spec :: "'t schemer option \<Rightarrow> 't endpoint \<Rightarrow> exc + op_spec" where
  "query_spec py ep =
     res_bind (get_function_schemas py (ep_func ep)) (\<lambda>(p, r). let n = fn_name (ep_func ep) in
       Inr (spec_of ''query'' ''send'' (''Query: '' @ n) [''@query'', ''RPC''] ep
              (named_schema (n @ ''_req'') p) (named_schema (n @ ''_rep'') r)))"

definition stream_spec :: "'t schemer option \<Rightarrow> 't endpoint \<Rightarrow> exc + op_spec" where
  "stream_spec py ep =
     (let n = fn_name (ep_func ep) in
       Inr (spec_of ''stream'' ''receive'' (''Stream: '' @ n) [''@stream'', ''Streaming''] ep
              (named_schema (n @ ''_req'') (fst (safe_schemas py (ep_func ep)))) None))"

definition channel_spec :: "'t schemer option \<Rightarrow> 't endpoint \<Rightarrow> exc + op_spec" where
  "channel_spec py ep =
     (let n = fn_name (ep_func ep) in
       Inr (spec_of ''channel'' ''receive'' (''Channel: '' @ n) [''@channel'', ''Bidirectional''] ep
              (named_schema (n @ ''_open'') (fst (safe_schemas py (ep_func ep)))) None))"

fun all_specs :: "('t endpoint \<Rightarrow> exc + op_spec) \<Rightarrow> 't endpoint list \<Rightarrow> exc + op_spec list" where
  "all_specs f [] = Inr []"
| "all_specs f (ep # eps) = res_bind (f ep) (\<lambda>sp. res_bind (all_specs f eps) (\<lambda>sps. Inr (sp # sps)))"

section \<open>The document\<close>

text \<open>\<open>generate\<close>: the loops, in their order. \<open>queries\<close> are the clients declared with \<open>@query\<close>.\<close>

definition app_specs :: "'t schemer option \<Rightarrow> 't app_registry \<Rightarrow> 't endpoint list \<Rightarrow> exc + op_spec list" where
  "app_specs py a queries =
     res_bind (all_specs (handler_spec py) (rg_handlers a)) (\<lambda>hs.
     res_bind (all_specs (subscriber_spec py) (rg_subscribers a)) (\<lambda>ss.
     res_bind (all_specs (publisher_spec py) (rg_publishers a)) (\<lambda>ps.
     res_bind (all_specs (query_spec py) queries) (\<lambda>qs.
     res_bind (all_specs (stream_spec py) (rg_streams a)) (\<lambda>ts.
     res_bind (all_specs (channel_spec py) (rg_channels a)) (\<lambda>cs. Inr (hs @ ss @ ps @ qs @ ts @ cs)))))))"

definition generate :: "'t schemer option \<Rightarrow> string \<Rightarrow> string \<Rightarrow> 't app_registry \<Rightarrow> 't endpoint list \<Rightarrow> exc + document" where
  "generate py title version a queries =
     res_bind (app_specs py a queries) (\<lambda>sps. Inr (fold document_one sps (empty_document title version)))"

section \<open>References\<close>

lemma show_nat_unique: "show_nat m = show_nat n \<Longrightarrow> m = n"
  by (metis digits_show_nat of_nat_eq_iff option.inject)

lemma numbered_unique:
  assumes "h @ ''Message_'' @ show_nat m = h' @ ''Message_'' @ show_nat n"
  shows "m = n"
proof -
  have "takeWhile is_digit (rev (x @ ''Message_'' @ show_nat k)) = rev (show_nat k)" for x k
    using show_nat_digits [of k] takeWhile_append2 [of "rev (show_nat k)" is_digit "rev ''Message_'' @ rev x"]
    by (simp add: is_digit_def [of "CHR ''_''"])
  then have "rev (show_nat m) = rev (show_nat n)" using assms by metis
  then show ?thesis by (simp add: show_nat_unique)
qed

definition fresh :: "document \<Rightarrow> bool" where
  "fresh d \<longleftrightarrow> (\<forall>i \<in> dkeys (dm_messages d). \<exists>h n. i = h @ ''Message_'' @ show_nat n \<and> n \<le> dm_count d)"

definition stands :: "document \<Rightarrow> string \<Rightarrow> string \<Rightarrow> bool" where
  "stands d ch address \<longleftrightarrow> (\<exists>c. map_of (dm_channels d) ch = Some c \<and> dc_address c = address)"

text \<open>The message \<open>k\<close> of channel \<open>ch\<close> is there, and refers to one that carries \<open>schema\<close>.\<close>

definition carries :: "document \<Rightarrow> string \<Rightarrow> string \<Rightarrow> pyval \<Rightarrow> bool" where
  "carries d ch k schema \<longleftrightarrow> (\<exists>c i. map_of (dm_channels d) ch = Some c \<and> map_of (dc_messages c) k = Some (message_ref i)
     \<and> map_of (dm_messages d) i = Some schema)"

definition slots :: "op_spec \<Rightarrow> (string \<times> string) list" where
  "slots sp = map (\<lambda>k. (channel_name (os_prefix sp), k))
     (map fst (case os_request sp of None \<Rightarrow> [] | Some m \<Rightarrow> [m]) @ map fst (case os_reply sp of None \<Rightarrow> [] | Some m \<Rightarrow> [m]))"

lemma ensure_simps [simp]:
  "fresh (ensure_channel ch a t x d) = fresh d" "dm_messages (ensure_channel ch a t x d) = dm_messages d"
  "dm_operations (ensure_channel ch a t x d) = dm_operations d"
  by (simp_all add: ensure_channel_def fresh_def)

lemma ensure_keeps:
  "stands d ch' a' \<Longrightarrow> stands (ensure_channel ch a t x d) ch' a'"
  "carries d ch' k s \<Longrightarrow> carries (ensure_channel ch a t x d) ch' k s"
  by (auto simp: ensure_channel_def stands_def carries_def)

lemma ensure_stands: "\<exists>a'. stands (ensure_channel ch a t x d) ch a'"
  by (auto simp: ensure_channel_def stands_def)

lemma ensure_address: "(\<And>a'. stands d ch a' \<Longrightarrow> a' = a) \<Longrightarrow> stands (ensure_channel ch a t x d) ch a"
  by (auto simp: ensure_channel_def stands_def)

lemma register_fresh:
  assumes "fresh d"
  shows "register_message k schema d = (message_ref (k @ ''Message_'' @ show_nat (dm_count d + 1)),
      d\<lparr>dm_count := dm_count d + 1, dm_messages := AList.update (k @ ''Message_'' @ show_nat (dm_count d + 1)) schema (dm_messages d)\<rparr>)"
    and "map_of (dm_messages d) (k @ ''Message_'' @ show_nat (dm_count d + 1)) = None"
proof -
  show "map_of (dm_messages d) (k @ ''Message_'' @ show_nat (dm_count d + 1)) = None"
  proof (rule ccontr)
    assume "\<not> ?thesis"
    then have "k @ ''Message_'' @ show_nat (dm_count d + 1) \<in> dkeys (dm_messages d)"
      unfolding dkeys_map_of .
    then obtain h n where same: "k @ ''Message_'' @ show_nat (dm_count d + 1) = h @ ''Message_'' @ show_nat n" and "n \<le> dm_count d"
      using assms unfolding fresh_def by blast
    then show False using numbered_unique [OF same] by simp
  qed
qed (simp add: register_message_def Let_def)

lemma register_keeps:
  assumes "fresh d" "register_message k0 schema d = (r, d1)"
  shows "fresh d1" "dm_operations d1 = dm_operations d" "dm_channels d1 = dm_channels d"
    and "\<exists>i. r = message_ref i \<and> map_of (dm_messages d1) i = Some schema"
    and "carries d ch k s \<Longrightarrow> carries d1 ch k s"
proof -
  let ?i = "k0 @ ''Message_'' @ show_nat (dm_count d + 1)"
  have d1: "d1 = d\<lparr>dm_count := dm_count d + 1, dm_messages := AList.update ?i schema (dm_messages d)\<rparr>" and r: "r = message_ref ?i"
    using assms register_fresh(1) by simp_all
  show "fresh d1" unfolding fresh_def
  proof
    fix i assume "i \<in> dkeys (dm_messages d1)"
    then consider "i = ?i" | "i \<in> dkeys (dm_messages d)" unfolding d1 by (simp add: dkeys_update) blast
    then show "\<exists>h n. i = h @ ''Message_'' @ show_nat n \<and> n \<le> dm_count d1"
    proof cases
      case 1
      then show ?thesis by (intro exI [of _ k0] exI [of _ "dm_count d + 1"]) (simp add: d1)
    next
      case 2
      then obtain h n where "i = h @ ''Message_'' @ show_nat n" "n \<le> dm_count d" using assms(1) unfolding fresh_def by blast
      then show ?thesis by (intro exI [of _ h] exI [of _ n]) (simp add: d1)
    qed
  qed
  show "dm_operations d1 = dm_operations d" "dm_channels d1 = dm_channels d" by (simp_all add: d1)
  show "\<exists>i. r = message_ref i \<and> map_of (dm_messages d1) i = Some schema" by (intro exI [of _ ?i]) (simp add: d1 r)
  show "carries d1 ch k s" if carried: "carries d ch k s"
  proof -
    obtain c i where c: "map_of (dm_channels d) ch = Some c" "map_of (dc_messages c) k = Some (message_ref i)" "map_of (dm_messages d) i = Some s"
      using carried unfolding carries_def by blast
    moreover have "i \<noteq> ?i" using c(3) register_fresh(2) [OF assms(1)] by auto
    ultimately show ?thesis unfolding carries_def by (intro exI [of _ c] exI [of _ i]) (simp add: d1)
  qed
qed

definition put_message :: "string \<Rightarrow> string \<Rightarrow> string \<Rightarrow> doc_channel \<Rightarrow> document \<Rightarrow> document" where
  "put_message ch k r c d = d\<lparr>dm_channels := AList.update ch (c\<lparr>dc_messages := AList.update k r (dc_messages c)\<rparr>) (dm_channels d)\<rparr>"

lemma put_message_keeps:
  assumes "map_of (dm_channels d) ch = Some c"
  shows "(ch', k') \<noteq> (ch, k) \<Longrightarrow> carries d ch' k' s \<Longrightarrow> carries (put_message ch k r c d) ch' k' s"
    and "r = message_ref i \<Longrightarrow> map_of (dm_messages d) i = Some s \<Longrightarrow> carries (put_message ch k r c d) ch k s"
    and "stands d ch' a \<Longrightarrow> stands (put_message ch k r c d) ch' a"
    and "fresh (put_message ch k r c d) = fresh d" "dm_operations (put_message ch k r c d) = dm_operations d"
  using assms by (auto simp: carries_def put_message_def stands_def fresh_def)

lemma add_message_Some:
  "register_message k schema d = (r, d1) \<Longrightarrow> add_message ch (Some (k, schema)) d = (Some [channel_message_ref ch k],
     case map_of (dm_channels d1) ch of None \<Rightarrow> d1 | Some c \<Rightarrow> put_message ch k r c d1)"
  by (simp add: add_message_def put_message_def cong: option.case_cong)

lemma add_keeps_all:
  assumes "fresh d" "add_message ch msg d = (refs, d')"
  shows "fresh d' \<and> dm_operations d' = dm_operations d \<and> (stands d ch' a \<longrightarrow> stands d' ch' a) \<and>
      (carries d ch' k s \<longrightarrow> (\<exists>s'. carries d' ch' k s')) \<and>
      (carries d ch' k s \<longrightarrow> (\<forall>m. msg = Some m \<longrightarrow> (ch', k) \<noteq> (ch, fst m)) \<longrightarrow> carries d' ch' k s)"
proof (cases msg)
  case None
  then show ?thesis
    using assms by (auto simp: add_message_def)
next
  case (Some m)
  obtain k0 schema where m: "m = (k0, schema)" by fastforce
  obtain r d1 where reg: "register_message k0 schema d = (r, d1)" by fastforce
  note keeps = register_keeps [OF assms(1) reg]
  obtain i where i: "r = message_ref i" "map_of (dm_messages d1) i = Some schema" using keeps(4) by blast
  have st: "stands d1 ch' a" if "stands d ch' a" using that keeps(3) by (simp add: stands_def)
  show ?thesis
  proof (cases "map_of (dm_channels d1) ch")
    case None
    then have "d' = d1" using assms(2) Some m add_message_Some [OF reg, of ch] by simp
    then show ?thesis using keeps st by blast
  next
    case (Some c)
    then have d': "d' = put_message ch k0 r c d1" using assms(2) \<open>msg = Some m\<close> m add_message_Some [OF reg, of ch] by simp
    note put = put_message_keeps [OF Some, where k = k0 and r = r]
    have "\<exists>s'. carries d' ch' k s'" if "carries d ch' k s"
    proof (cases "(ch', k) = (ch, k0)")
      case True
      then show ?thesis using put(2) [OF i] d' by auto
    next
      case False
      then show ?thesis using put(1) keeps(5) that d' by blast
    qed
    then show ?thesis using put(1,3-5) keeps st d' \<open>msg = Some m\<close> m by (metis fst_conv)
  qed
qed

lemma add_keeps:
  assumes "fresh d" "add_message ch msg d = (refs, d')"
  shows "fresh d'" "dm_operations d' = dm_operations d" "stands d ch' a \<Longrightarrow> stands d' ch' a"
    and "carries d ch' k s \<Longrightarrow> \<exists>s'. carries d' ch' k s'"
    and "carries d ch' k s \<Longrightarrow> (\<And>m. msg = Some m \<Longrightarrow> (ch', k) \<noteq> (ch, fst m)) \<Longrightarrow> carries d' ch' k s"
  using add_keeps_all [OF assms] by blast+

lemma add_carries:
  assumes "fresh d" "stands d ch a"
  shows "\<exists>d'. add_message ch (Some (k, s)) d = (Some [channel_message_ref ch k], d') \<and> carries d' ch k s"
proof -
  obtain r d1 where reg: "register_message k s d = (r, d1)" by fastforce
  note keeps = register_keeps [OF assms(1) reg]
  obtain i where i: "r = message_ref i" "map_of (dm_messages d1) i = Some s" using keeps(4) by blast
  obtain c where c: "map_of (dm_channels d1) ch = Some c" using assms(2) keeps(3) by (auto simp: stands_def)
  show ?thesis using put_message_keeps(2) [OF c i] by (simp add: add_message_Some [OF reg] c)
qed

section \<open>Whole documents\<close>

definition op_at :: "document \<Rightarrow> op_spec \<Rightarrow> operation \<Rightarrow> bool" where
  "op_at d sp op \<longleftrightarrow> map_of (dm_operations d) (os_id sp) = Some op"

text \<open>The references of an operation: its channel, and its messages in that channel.\<close>

definition refers :: "document \<Rightarrow> operation \<Rightarrow> string \<Rightarrow> bool" where
  "refers d op ch \<longleftrightarrow> op_channel op = channel_ref ch \<and> (\<exists>a. stands d ch a)
     \<and> (\<forall>r \<in> set (case op_messages op of None \<Rightarrow> [] | Some rs \<Rightarrow> rs) \<union> set (case op_reply op of None \<Rightarrow> [] | Some rs \<Rightarrow> rs).
          \<exists>k s. r = channel_message_ref ch k \<and> carries d ch k s)"

definition closed :: "document \<Rightarrow> bool" where
  "closed d \<longleftrightarrow> (\<forall>i op. map_of (dm_operations d) i = Some op \<longrightarrow> (\<exists>ch. refers d op ch))"

text \<open>What an operation documents of an endpoint.\<close>

definition tells :: "document \<Rightarrow> string \<Rightarrow> string list option \<Rightarrow> (string \<times> pyval) option \<Rightarrow> bool" where
  "tells d ch refs msg = (case msg of None \<Rightarrow> refs = None
     | Some (k, schema) \<Rightarrow> refs = Some [channel_message_ref ch k] \<and> carries d ch k schema)"

definition documented :: "document \<Rightarrow> op_spec \<Rightarrow> bool" where
  "documented d sp \<longleftrightarrow> (let ch = channel_name (os_prefix sp) in
     stands d ch (os_prefix sp) \<and> (\<exists>op. map_of (dm_operations d) (os_id sp) = Some op \<and> op_action op = os_action sp
       \<and> op_channel op = channel_ref ch \<and> tells d ch (op_messages op) (os_request sp) \<and> tells d ch (op_reply op) (os_reply sp)))"

text \<open>Names that collide: operations, channels of different prefixes, messages of one channel.\<close>

definition tidy :: "op_spec list \<Rightarrow> bool" where
  "tidy sps \<longleftrightarrow> distinct (map os_id sps) \<and> inj_on channel_name (os_prefix ` set sps) \<and> distinct (concat (map slots sps))"

text \<open>The steps of \<open>document_one\<close>, by name.\<close>

lemma document_steps:
  assumes "fresh d"
  obtains d1 ms d2 rs d3 where
    "d1 = ensure_channel (channel_name (os_prefix sp)) (os_prefix sp) (os_title sp) (os_doc sp) d"
    "add_message (channel_name (os_prefix sp)) (os_request sp) d1 = (ms, d2)"
    "add_message (channel_name (os_prefix sp)) (os_reply sp) d2 = (rs, d3)"
    "fresh d1" "fresh d2" "fresh d3" "dm_operations d3 = dm_operations d"
    "document_one sp d = d3\<lparr>dm_operations := AList.update (os_id sp)
       \<lparr>op_action = os_action sp, op_channel = channel_ref (channel_name (os_prefix sp)), op_tags = os_tags sp,
        op_messages = ms, op_reply = rs\<rparr> (dm_operations d)\<rparr>"
proof -
  let ?ch = "channel_name (os_prefix sp)"
  define d1 where "d1 = ensure_channel ?ch (os_prefix sp) (os_title sp) (os_doc sp) d"
  obtain ms d2 where 2: "add_message ?ch (os_request sp) d1 = (ms, d2)" by fastforce
  obtain rs d3 where 3: "add_message ?ch (os_reply sp) d2 = (rs, d3)" by fastforce
  have "fresh d1" using assms by (simp add: d1_def)
  note k2 = add_keeps(1,2) [OF this 2]
  note k3 = add_keeps(1,2) [OF k2(1) 3]
  show thesis
    by (rule that [OF d1_def 2 3 \<open>fresh d1\<close> k2(1) k3(1)])
      (simp_all add: document_one_def Let_def d1_def [symmetric] 2 3 k2 k3, simp_all add: d1_def)
qed

lemma ops_update [simp]:
  "fresh (d\<lparr>dm_operations := os\<rparr>) = fresh d" "stands (d\<lparr>dm_operations := os\<rparr>) ch a = stands d ch a"
  "carries (d\<lparr>dm_operations := os\<rparr>) ch k s = carries d ch k s"
  by (simp_all add: fresh_def stands_def carries_def)

lemma document_keeps:
  assumes "fresh d"
  shows "fresh (document_one sp d)" "stands d ch a \<Longrightarrow> stands (document_one sp d) ch a"
    and "carries d ch k s \<Longrightarrow> \<exists>s'. carries (document_one sp d) ch k s'"
    and "carries d ch k s \<Longrightarrow> (ch, k) \<notin> set (slots sp) \<Longrightarrow> carries (document_one sp d) ch k s"
proof -
  obtain d1 ms d2 rs d3 where d: "d1 = ensure_channel (channel_name (os_prefix sp)) (os_prefix sp) (os_title sp) (os_doc sp) d"
    and m: "add_message (channel_name (os_prefix sp)) (os_request sp) d1 = (ms, d2)"
    and r: "add_message (channel_name (os_prefix sp)) (os_reply sp) d2 = (rs, d3)"
    and f: "fresh d1" "fresh d2" "fresh d3" "dm_operations d3 = dm_operations d"
    and out: "document_one sp d = d3\<lparr>dm_operations := AList.update (os_id sp)
       \<lparr>op_action = os_action sp, op_channel = channel_ref (channel_name (os_prefix sp)), op_tags = os_tags sp,
        op_messages = ms, op_reply = rs\<rparr> (dm_operations d)\<rparr>"
    by (rule document_steps [OF assms])
  show "fresh (document_one sp d)" using f(3) by (simp add: out)
  show "stands (document_one sp d) ch a" if "stands d ch a"
    using that ensure_keeps(1) add_keeps(3) [OF f(1) m] add_keeps(3) [OF f(2) r] by (simp add: out d)
  show "\<exists>s'. carries (document_one sp d) ch k s'" if "carries d ch k s"
    using ensure_keeps(2) [OF that] add_keeps(4) [OF f(1) m] add_keeps(4) [OF f(2) r] unfolding out d by (simp del: ensure_simps) blast
  show "carries (document_one sp d) ch k s" if "carries d ch k s" "(ch, k) \<notin> set (slots sp)"
  proof -
    have "carries d1 ch k s" unfolding d by (rule ensure_keeps(2) [OF that(1)])
    moreover have "(ch, k) \<noteq> (channel_name (os_prefix sp), fst msg)" if "os_request sp = Some msg \<or> os_reply sp = Some msg" for msg
      using \<open>(ch, k) \<notin> set (slots sp)\<close> that by (cases msg) (auto simp: slots_def)
    ultimately have "carries d3 ch k s" using add_keeps(5) [OF f(1) m] add_keeps(5) [OF f(2) r] by blast
    then show ?thesis by (simp add: out)
  qed
qed

lemma add_message_tells:
  assumes "fresh d" "stands d ch a" "add_message ch msg d = (refs, d')"
  shows "tells d' ch refs msg"
proof (cases msg)
  case None
  then show ?thesis using assms(3) by (simp add: tells_def add_message_def)
next
  case (Some m)
  obtain k schema where m: "m = (k, schema)" by fastforce
  show ?thesis using add_carries [OF assms(1,2), of k schema] assms(3) Some m by (auto simp: tells_def)
qed

lemma tells_refs: "tells d ch refs msg \<Longrightarrow> r \<in> set (case refs of None \<Rightarrow> [] | Some rs \<Rightarrow> rs) \<Longrightarrow> \<exists>k s. r = channel_message_ref ch k \<and> carries d ch k s"
  by (auto simp: tells_def split: option.splits)

lemma document_tells:
  assumes "fresh d" "distinct (slots sp)"
  shows "\<exists>op. map_of (dm_operations (document_one sp d)) (os_id sp) = Some op \<and> op_action op = os_action sp
       \<and> op_channel op = channel_ref (channel_name (os_prefix sp))
       \<and> tells (document_one sp d) (channel_name (os_prefix sp)) (op_messages op) (os_request sp)
       \<and> tells (document_one sp d) (channel_name (os_prefix sp)) (op_reply op) (os_reply sp)"
    and "\<exists>a. stands (document_one sp d) (channel_name (os_prefix sp)) a"
    and "(\<And>a. stands d (channel_name (os_prefix sp)) a \<Longrightarrow> a = os_prefix sp) \<Longrightarrow>
      stands (document_one sp d) (channel_name (os_prefix sp)) (os_prefix sp)"
proof -
  let ?ch = "channel_name (os_prefix sp)"
  obtain d1 ms d2 rs d3 where d: "d1 = ensure_channel ?ch (os_prefix sp) (os_title sp) (os_doc sp) d"
    and m: "add_message ?ch (os_request sp) d1 = (ms, d2)"
    and r: "add_message ?ch (os_reply sp) d2 = (rs, d3)"
    and f: "fresh d1" "fresh d2" "fresh d3" "dm_operations d3 = dm_operations d"
    and out: "document_one sp d = d3\<lparr>dm_operations := AList.update (os_id sp)
       \<lparr>op_action = os_action sp, op_channel = channel_ref ?ch, op_tags = os_tags sp,
        op_messages = ms, op_reply = rs\<rparr> (dm_operations d)\<rparr>"
    by (rule document_steps [OF assms(1)])
  obtain a where a: "stands d1 ?ch a" using ensure_stands d by blast
  then have a2: "stands d2 ?ch a" by (rule add_keeps(3) [OF f(1) m])
  then have a3: "stands d3 ?ch a" by (rule add_keeps(3) [OF f(2) r])
  then show "\<exists>a. stands (document_one sp d) ?ch a" by (auto simp: out)
  show "stands (document_one sp d) ?ch (os_prefix sp)" if "\<And>a. stands d ?ch a \<Longrightarrow> a = os_prefix sp"
  proof -
    have "stands d1 ?ch (os_prefix sp)" unfolding d by (rule ensure_address) (rule that)
    then show ?thesis using add_keeps(3) [OF f(2) r add_keeps(3) [OF f(1) m]] by (simp add: out)
  qed
  have reply: "tells d3 ?ch rs (os_reply sp)" by (rule add_message_tells [OF f(2) a2 r])
  have "tells d2 ?ch ms (os_request sp)" by (rule add_message_tells [OF f(1) a m])
  moreover have "carries d3 ?ch k s" if "carries d2 ?ch k s" "os_request sp = Some (k, s)" for k s
  proof (rule add_keeps(5) [OF f(2) r that(1)])
    show "(?ch, k) \<noteq> (?ch, fst msg)" if "os_reply sp = Some msg" for msg
      using assms(2) \<open>os_request sp = Some (k, s)\<close> that by (cases msg) (simp add: slots_def)
  qed
  ultimately have "tells d3 ?ch ms (os_request sp)" by (auto simp: tells_def split: option.splits)
  then show "\<exists>op. map_of (dm_operations (document_one sp d)) (os_id sp) = Some op \<and> op_action op = os_action sp
       \<and> op_channel op = channel_ref ?ch \<and> tells (document_one sp d) ?ch (op_messages op) (os_request sp)
       \<and> tells (document_one sp d) ?ch (op_reply op) (os_reply sp)"
    using reply by (simp add: out tells_def cong: option.case_cong)
qed

lemma document_other_ops:
  assumes "fresh d"
  shows "i \<noteq> os_id sp \<Longrightarrow> map_of (dm_operations (document_one sp d)) i = map_of (dm_operations d) i"
proof -
  obtain d3 ops where "dm_operations d3 = dm_operations d"
    "document_one sp d = d3\<lparr>dm_operations := AList.update (os_id sp) ops (dm_operations d)\<rparr>"
    by (rule document_steps [OF assms, of sp]) blast
  then show "i \<noteq> os_id sp \<Longrightarrow> map_of (dm_operations (document_one sp d)) i = map_of (dm_operations d) i" by simp
qed

lemma document_closed:
  assumes "fresh d" "distinct (slots sp)" "closed d"
  shows "closed (document_one sp d)"
  unfolding closed_def
proof (intro allI impI)
  fix i op assume op: "map_of (dm_operations (document_one sp d)) i = Some op"
  show "\<exists>ch. refers (document_one sp d) op ch"
  proof (cases "i = os_id sp")
    case True
    let ?ch = "channel_name (os_prefix sp)" and ?d = "document_one sp d"
    have "op_channel op = channel_ref ?ch" and t: "tells ?d ?ch (op_messages op) (os_request sp)" "tells ?d ?ch (op_reply op) (os_reply sp)"
      using document_tells(1) [OF assms(1,2)] op True by auto
    then have "refers ?d op ?ch"
      using document_tells(2) [OF assms(1,2)] tells_refs [OF t(1)] tells_refs [OF t(2)] unfolding refers_def by blast
    then show ?thesis by blast
  next
    case False
    then obtain ch where "refers d op ch" using assms(3) op document_other_ops [OF assms(1)] unfolding closed_def by metis
    then have "refers (document_one sp d) op ch"
      using document_keeps(2,3) [OF assms(1)] unfolding refers_def by meson
    then show ?thesis by blast
  qed
qed

lemma document_keeps_documented:
  assumes "fresh d" "documented d sp'" "os_id sp' \<noteq> os_id sp" "set (slots sp') \<inter> set (slots sp) = {}"
  shows "documented (document_one sp d) sp'"
proof -
  let ?ch = "channel_name (os_prefix sp')"
  obtain op where op: "map_of (dm_operations d) (os_id sp') = Some op" "op_action op = os_action sp'" "op_channel op = channel_ref ?ch"
      "tells d ?ch (op_messages op) (os_request sp')" "tells d ?ch (op_reply op) (os_reply sp')" and st: "stands d ?ch (os_prefix sp')"
    using assms(2) unfolding documented_def Let_def by blast
  have "tells (document_one sp d) ?ch refs msg" if "tells d ?ch refs msg" "os_request sp' = msg \<or> os_reply sp' = msg" for refs msg
  proof (cases msg)
    case None
    then show ?thesis using that by (simp add: tells_def)
  next
    case (Some m)
    have "(?ch, fst m) \<in> set (slots sp')" using that(2) Some unfolding slots_def by (elim disjE) simp_all
    then have "(?ch, fst m) \<notin> set (slots sp)" using assms(4) by blast
    then show ?thesis using that(1) Some document_keeps(4) [OF assms(1)] by (cases m) (auto simp: tells_def)
  qed
  then have "tells (document_one sp d) ?ch (op_messages op) (os_request sp')" "tells (document_one sp d) ?ch (op_reply op) (os_reply sp')"
    using op(4,5) by blast+
  moreover have "map_of (dm_operations (document_one sp d)) (os_id sp') = Some op"
    using document_other_ops [OF assms(1,3)] op(1) by simp
  ultimately show ?thesis
    using op(2,3) document_keeps(2) [OF assms(1) st] unfolding documented_def Let_def by blast
qed

lemma fold_documents:
  assumes "fresh d" "closed d" "\<forall>sp \<in> set sps. distinct (slots sp)"
  shows "fresh (fold document_one sps d) \<and> closed (fold document_one sps d)"
  using assms by (induction sps arbitrary: d) (auto intro: document_keeps(1) document_closed)

text \<open>Which addresses the channels of a document stand for.\<close>

definition addressed :: "document \<Rightarrow> string set \<Rightarrow> bool" where
  "addressed d ps \<longleftrightarrow> (\<forall>ch a. stands d ch a \<longrightarrow> a \<in> ps \<and> ch = channel_name a)"

lemma document_addressed:
  assumes "fresh d" "addressed d ps"
  shows "addressed (document_one sp d) (insert (os_prefix sp) ps)"
proof -
  let ?ch = "channel_name (os_prefix sp)"
  obtain d1 ms d2 rs d3 where d: "d1 = ensure_channel ?ch (os_prefix sp) (os_title sp) (os_doc sp) d"
    and m: "add_message ?ch (os_request sp) d1 = (ms, d2)" and r: "add_message ?ch (os_reply sp) d2 = (rs, d3)"
    and out: "document_one sp d = d3\<lparr>dm_operations := AList.update (os_id sp)
       \<lparr>op_action = os_action sp, op_channel = channel_ref ?ch, op_tags = os_tags sp,
        op_messages = ms, op_reply = rs\<rparr> (dm_operations d)\<rparr>"
    by (rule document_steps [OF assms(1)])
  have earlier: "stands e ch a" if "stands e' ch a" "add_message ?ch msg e = (refs, e')" for e e' msg refs ch a
    using that by (auto simp: add_message_def register_message_def Let_def stands_def split: option.splits if_splits)
  have "stands d1 ch a \<Longrightarrow> stands d ch a \<or> (ch = ?ch \<and> a = os_prefix sp)" for ch a
    by (auto simp: d ensure_channel_def stands_def split: if_splits)
  then show ?thesis using assms(2) earlier [OF earlier [OF _ r] m] unfolding addressed_def out by fastforce
qed

lemma fold_documented:
  assumes "fresh d" "addressed d ps" "tidy (done' @ sps)" "\<forall>sp \<in> set done'. documented d sp" "ps = os_prefix ` set done'"
  shows "\<forall>sp \<in> set (done' @ sps). documented (fold document_one sps d) sp"
  using assms
proof (induction sps arbitrary: d ps done')
  case (Cons sp sps)
  let ?d = "document_one sp d"
  have ids: "os_id sp' \<noteq> os_id sp" if "sp' \<in> set done'" for sp'
  proof -
    have "os_id sp \<notin> os_id ` set done'" using Cons.prems(3) by (auto simp: tidy_def)
    then show ?thesis using that by (metis image_eqI)
  qed
  have apart: "set (slots sp') \<inter> set (slots sp) = {}" if "sp' \<in> set done'" for sp'
  proof -
    have "set (concat (map slots done')) \<inter> set (slots sp) = {}" using Cons.prems(3) unfolding tidy_def by auto
    then show ?thesis using that by auto
  qed
  have slots: "distinct (slots sp)" using Cons.prems(3) by (auto simp: tidy_def)
  have addr: "a = os_prefix sp" if "stands d (channel_name (os_prefix sp)) a" for a
  proof -
    have "a \<in> os_prefix ` set done'" "channel_name (os_prefix sp) = channel_name a"
      using Cons.prems(2,5) that unfolding addressed_def by blast+
    moreover have "inj_on channel_name (os_prefix ` set (done' @ sp # sps))" using Cons.prems(3) by (simp add: tidy_def)
    moreover have "os_prefix sp \<in> os_prefix ` set (done' @ sp # sps)" by simp
    moreover have "a \<in> os_prefix ` set (done' @ sp # sps)" using calculation(1) by force
    ultimately show ?thesis by (metis inj_on_eq_iff)
  qed
  have "documented ?d sp"
    using document_tells(1) [OF Cons.prems(1) slots] document_tells(3) [OF Cons.prems(1) slots addr]
    unfolding documented_def Let_def by blast
  moreover have "documented ?d sp'" if "sp' \<in> set done'" for sp'
    using document_keeps_documented [OF Cons.prems(1) _ ids [OF that] apart [OF that]] Cons.prems(4) that by blast
  ultimately have "\<forall>sp \<in> set ((done' @ [sp]) @ sps). documented (fold document_one sps ?d) sp"
    using Cons.prems(3,5)
    by (intro Cons.IH [OF document_keeps(1) [OF Cons.prems(1)] document_addressed [OF Cons.prems(1,2)]]) auto
  then show ?case by simp
qed simp

lemma spec_slots: "k \<noteq> k' \<Longrightarrow> distinct (slots (spec_of kind action title tags ep (named_schema k v) (named_schema k' v')))"
    "distinct (slots (spec_of kind action title tags ep (named_schema k v) None))"
  by (auto simp: slots_def spec_of_def named_schema_def)

lemma all_specs_slots:
  "all_specs f eps = Inr sps \<Longrightarrow> (\<And>ep sp. f ep = Inr sp \<Longrightarrow> distinct (slots sp)) \<Longrightarrow> sp \<in> set sps \<Longrightarrow> distinct (slots sp)"
  by (induction eps arbitrary: sps) (auto simp: res_bind_eq_Inr)

lemma each_spec_slots:
  "handler_spec py ep = Inr sp \<Longrightarrow> distinct (slots sp)" "subscriber_spec py ep = Inr sp \<Longrightarrow> distinct (slots sp)"
  "publisher_spec py ep = Inr sp \<Longrightarrow> distinct (slots sp)" "query_spec py ep = Inr sp \<Longrightarrow> distinct (slots sp)"
  "stream_spec py ep = Inr sp \<Longrightarrow> distinct (slots sp)" "channel_spec py ep = Inr sp \<Longrightarrow> distinct (slots sp)"
  by (auto simp: handler_spec_def subscriber_spec_def publisher_spec_def query_spec_def stream_spec_def channel_spec_def
      Let_def res_bind_eq_Inr intro!: spec_slots)

lemma app_specs_slots:
  assumes "app_specs py a queries = Inr sps" "sp \<in> set sps"
  shows "distinct (slots sp)"
proof -
  obtain hs ss ps qs ts cs where l: "all_specs (handler_spec py) (rg_handlers a) = Inr hs" "all_specs (subscriber_spec py) (rg_subscribers a) = Inr ss"
      "all_specs (publisher_spec py) (rg_publishers a) = Inr ps" "all_specs (query_spec py) queries = Inr qs"
      "all_specs (stream_spec py) (rg_streams a) = Inr ts" "all_specs (channel_spec py) (rg_channels a) = Inr cs"
      "sps = hs @ ss @ ps @ qs @ ts @ cs"
    using assms(1) unfolding app_specs_def res_bind_eq_Inr by blast
  then show ?thesis
    using assms(2) all_specs_slots [OF l(1) each_spec_slots(1)] all_specs_slots [OF l(2) each_spec_slots(2)]
      all_specs_slots [OF l(3) each_spec_slots(3)] all_specs_slots [OF l(4) each_spec_slots(4)]
      all_specs_slots [OF l(5) each_spec_slots(5)] all_specs_slots [OF l(6) each_spec_slots(6)]
    by auto
qed


definition text_schemer :: "unit schemer" where
  "text_schemer = \<lparr>sc_basemodel = (\<lambda>_. False), sc_none = (\<lambda>_. False), sc_model = (\<lambda>_. Inr PNone),
     sc_fields = (\<lambda>n fs. Inr (PStr n)), sc_result = (\<lambda>n t. Inr PNone)\<rparr>"

definition move_to :: "string \<Rightarrow> string \<Rightarrow> unit endpoint" where
  "move_to prefix name = \<lparr>ep_prefix = prefix, ep_func = \<lparr>fn_name = name,
     fn_sig = [\<lparr>pr_name = ''x'', pr_kind = POSITIONAL_OR_KEYWORD, pr_default = Empty, pr_metadata = []\<rparr>], fn_hints = [], fn_doc = []\<rparr>,
     ep_approval = PBool False, ep_authorizer = None\<rparr>"

definition demo_specs :: "op_spec list" where
  "demo_specs = (case app_specs (Some text_schemer) (registry_of ''s'' [move_to ''a/b'' ''f'', move_to ''c'' ''g'']) [] of
     Inl _ \<Rightarrow> [] | Inr sps \<Rightarrow> sps)"

lemma demo_specs_simps:
  "app_specs (Some text_schemer) (registry_of ''s'' [move_to ''a/b'' ''f'', move_to ''c'' ''g'']) [] = Inr demo_specs"
  "map os_id demo_specs = [''handle_f'', ''handle_g'', ''channel_wipe'']" "map os_prefix demo_specs = [''a/b'', ''c'', ''disk/wipe'']"
  "map slots demo_specs = [[(''a_b'', ''f_req'')], [(''c'', ''g_req'')], []]"
  by code_simp+


section \<open>Findings\<close>

text \<open>Operations are named after functions: of two handlers whose functions share a name, the document has one.\<close>

lemma same_name_overwrites:
  "case generate (Some text_schemer) ''T'' ''1'' (registry_of ''s'' [move_to ''a'' ''f'', move_to ''b'' ''f'']) [] of
     Inl _ \<Rightarrow> False
   | Inr d \<Rightarrow> map fst (dm_operations d) = [''handle_f'', ''channel_wipe'']"
  by code_simp

text \<open>Channels are named after key expressions with slashes made underscores: \<open>a_b\<close> is documented under the
  address of \<open>a/b\<close>.\<close>

lemma channels_collide:
  "case generate (Some text_schemer) ''T'' ''1'' (registry_of ''s'' [move_to ''a/b'' ''f'', move_to ''a_b'' ''g'']) [] of
     Inl _ \<Rightarrow> False
   | Inr d \<Rightarrow> map (dc_address \<circ> snd) (dm_channels d) = [''a/b'', ''disk/wipe'']"
  by code_simp

end
