(* ===== verification/Mcp.thy ===== *)
theory Mcp
  imports Discovery Remote
begin

text \<open>
  The Model Context Protocol adapter (\<open>http/mcp.py\<close>): the handlers of a node as tools that a language
  model's client lists and calls over JSON-RPC. The app's \<open>query_once\<close> is an argument.
\<close>

section \<open>Messages\<close>

definition MCP_PROTOCOL_VERSION :: string where
  "MCP_PROTOCOL_VERSION = ''2025-06-18''"

definition jsonrpc_result :: "pyval \<Rightarrow> pyval \<Rightarrow> pyval" where
  "jsonrpc_result mid v = PDict [(''jsonrpc'', PStr ''2.0''), (''id'', mid), (''result'', v)]"

definition jsonrpc_error :: "pyval \<Rightarrow> int \<Rightarrow> string \<Rightarrow> pyval" where
  "jsonrpc_error mid code message =
     PDict [(''jsonrpc'', PStr ''2.0''), (''id'', mid), (''error'', PDict [(''code'', PInt code), (''message'', PStr message)])]"

section \<open>The server\<close>

text \<open>\<open>mc_query\<close> gets the prefix, the token and the arguments.\<close>

record 'w mcp_server =
  mc_name :: string
  mc_version :: string
  mc_query :: "string \<Rightarrow> string option \<Rightarrow> (string, pyval) dict \<Rightarrow> ('w, pyval) io"
  mc_texts :: texts
  mc_repr :: "pyval \<Rightarrow> string"

definition mcp_server_init ::
  "(string \<Rightarrow> string option \<Rightarrow> (string, pyval) dict \<Rightarrow> ('w, pyval) io) \<Rightarrow> texts \<Rightarrow> (pyval \<Rightarrow> string) \<Rightarrow> 't app_registry
   \<Rightarrow> string option \<Rightarrow> string \<Rightarrow> 'w mcp_server" where
  "mcp_server_init query tx py_repr a name version =
     \<lparr>mc_name = (case name of Some n \<Rightarrow> if n = [] then rg_service a else n | None \<Rightarrow> rg_service a), mc_version = version,
      mc_query = query, mc_texts = tx, mc_repr = py_repr\<rparr>"

definition mcp_tool :: "'t schemer option \<Rightarrow> 't endpoint \<Rightarrow> pyval" where
  "mcp_tool py h =
     PDict [(''name'', PStr (tool_name (ep_prefix h))),
            (''description'', PStr (or_tool_name (fn_doc (ep_func h)) (ep_prefix h))),
            (''inputSchema'', py_or (fst (safe_schemas py (ep_func h))) any_object)]"

fun mcp_tools :: "'t schemer option \<Rightarrow> 't endpoint list \<Rightarrow> pyval list \<Rightarrow> (string, string) dict \<Rightarrow> exc + pyval list \<times> (string, string) dict" where
  "mcp_tools py [] tools names = Inr (tools, names)"
| "mcp_tools py (h # hs) tools names =
     (if plumbing (ep_prefix h) then mcp_tools py hs tools names
      else if map_of names (tool_name (ep_prefix h)) \<noteq> None
      then Inl (value_error (''MCP tool name '' @ quoted (tool_name (ep_prefix h)) @ '' is claimed by both''))
      else mcp_tools py hs (tools @ [mcp_tool py h]) (AList.update (tool_name (ep_prefix h)) (ep_prefix h) names))"

text \<open>Run when the route is mounted, so that a clash of names fails the start.\<close>

definition validate_server :: "'t schemer option \<Rightarrow> 't app_registry \<Rightarrow> exc + unit" where
  "validate_server py a = res_bind (mcp_tools py (rg_handlers a) [] []) (\<lambda>_. Inr ())"

definition caller_attachment :: "'w mcp_server \<Rightarrow> string option \<Rightarrow> bytes option" where
  "caller_attachment s token = to_attachment (tx_dumps (mc_texts s)) (empty_envelope\<lparr>env_token := opt_str token\<rparr>)"

text \<open>The prefixes this caller passes the authorizer of; one that fails otherwise fails the listing.\<close>

fun callable_prefixes :: "bytes option \<Rightarrow> string set \<Rightarrow> 't endpoint list \<Rightarrow> exc + string set" where
  "callable_prefixes att prefixes [] = Inr {}"
| "callable_prefixes att prefixes (h # hs) =
     (if ep_prefix h \<notin> prefixes then callable_prefixes att prefixes hs
      else case fst (check_authorized (ep_authorizer h)
             \<lparr>a_prefix = ep_prefix h, a_key_expr = ep_prefix h, a_params = [], a_attachment = att,
              a_operation = ''handle'', a_principal = None\<rparr>) of
             Inl e \<Rightarrow> if x_istos e \<noteq> None then callable_prefixes att prefixes hs else Inl e
           | Inr _ \<Rightarrow> res_bind (callable_prefixes att prefixes hs) (\<lambda>ok. Inr (insert (ep_prefix h) ok)))"

definition text_content :: "string \<Rightarrow> bool \<Rightarrow> pyval" where
  "text_content text failed =
     PDict [(''content'', PList [PDict [(''type'', PStr ''text''), (''text'', PStr text)]]), (''isError'', PBool failed)]"

text \<open>The reply of \<open>query_once\<close> as content: a list of one reply is that reply; error replies among several
  are still payloads.\<close>

definition reply_content :: "'w mcp_server \<Rightarrow> pyval \<Rightarrow> pyval" where
  "reply_content s reply =
     (let d = (case reply of PList [v] \<Rightarrow> v | _ \<Rightarrow> reply)
      in case d of
           PList vs \<Rightarrow> text_content (tx_dumps (mc_texts s) d) (list_ex is_error_payload vs)
         | PStr t \<Rightarrow> text_content t False
         | _ \<Rightarrow> text_content (tx_dumps (mc_texts s) d) False)"

definition failure_content :: "'w mcp_server \<Rightarrow> exc \<Rightarrow> pyval" where
  "failure_content s e = text_content (format_tool_error (mc_texts s) e) True"

text \<open>\<open>**arguments\<close>: they must be a dictionary, without the names the call gives itself.\<close>

definition mcp_call :: "'w mcp_server \<Rightarrow> string \<Rightarrow> pyval \<Rightarrow> string option \<Rightarrow> ('w, pyval) io" where
  "mcp_call s prefix arguments token w =
     (let queried = (case arguments of
            PDict d \<Rightarrow> if dkeys d \<inter> {''self'', ''key_expr'', ''token''} \<noteq> {}
                       then io_raise (type_error ''got multiple values for argument'') w
                       else mc_query s prefix token d w
          | _ \<Rightarrow> io_raise (type_error ''argument after ** must be a mapping'') w)
      in case queried of
           None \<Rightarrow> None
         | Some (Inr reply, w') \<Rightarrow> Some (Inr (reply_content s reply), w')
         | Some (Inl e, w') \<Rightarrow> if is_exception e then Some (Inr (failure_content s e), w') else Some (Inl e, w'))"

text \<open>The tools of which the caller may call the handler.\<close>

definition visible :: "(string, string) dict \<Rightarrow> string set \<Rightarrow> pyval \<Rightarrow> bool" where
  "visible names ok t =
     (case t of
        PDict d \<Rightarrow> (case dict_get d ''name'' PNone of
                      PStr n \<Rightarrow> (case map_of names n of Some p \<Rightarrow> p \<in> ok | None \<Rightarrow> False)
                    | _ \<Rightarrow> False)
      | _ \<Rightarrow> False)"

definition list_tools :: "'w mcp_server \<Rightarrow> 't schemer option \<Rightarrow> 't app_registry \<Rightarrow> string option \<Rightarrow> exc + pyval" where
  "list_tools s py a token =
     res_bind (mcp_tools py (rg_handlers a) [] []) (\<lambda>(tools, names).
     res_bind (callable_prefixes (caller_attachment s token) (snd ` set names) (rg_handlers a)) (\<lambda>ok.
       Inr (PDict [(''tools'', PList (filter (visible names ok) tools))])))"

definition call_named :: "'w mcp_server \<Rightarrow> 't schemer option \<Rightarrow> 't app_registry \<Rightarrow> pyval \<Rightarrow> (string, pyval) dict \<Rightarrow> string option \<Rightarrow> ('w, pyval) io" where
  "call_named s py a mid params token =
     (case mcp_tools py (rg_handlers a) [] [] of
        Inl e \<Rightarrow> io_raise e
      | Inr (_, names) \<Rightarrow>
          (case (case dict_get params ''name'' PNone of PStr n \<Rightarrow> map_of names n | _ \<Rightarrow> None) of
             None \<Rightarrow> io_return (jsonrpc_error mid (- 32602) (''Unknown tool: '' @ mc_repr s (dict_get params ''name'' PNone)))
           | Some prefix \<Rightarrow>
               io_bind (mcp_call s prefix (py_or (dict_get params ''arguments'' PNone) (PDict [])) token)
                 (\<lambda>v. io_return (jsonrpc_result mid v))))"

definition initialized :: "'w mcp_server \<Rightarrow> pyval" where
  "initialized s =
     PDict [(''protocolVersion'', PStr MCP_PROTOCOL_VERSION),
            (''capabilities'', PDict [(''tools'', PDict [(''listChanged'', PBool False)])]),
            (''serverInfo'', PDict [(''name'', PStr (mc_name s)), (''version'', PStr (mc_version s))])]"

definition mcp_handle :: "'w mcp_server \<Rightarrow> 't schemer option \<Rightarrow> 't app_registry \<Rightarrow> pyval \<Rightarrow> string option \<Rightarrow> ('w, pyval option) io" where
  "mcp_handle s py a message token w =
     (case message of
        PDict d \<Rightarrow>
          (let method = dict_get d ''method'' PNone; mid = dict_get d ''id'' PNone
           in if method = PStr ''initialize'' then Some (Inr (Some (jsonrpc_result mid (initialized s))), w)
              else if method = PStr ''notifications/initialized'' \<or> mid = PNone then Some (Inr None, w)
              else if method = PStr ''tools/list'' then
                Some (res_bind (list_tools s py a token) (\<lambda>v. Inr (Some (jsonrpc_result mid v))), w)
              else if method = PStr ''tools/call'' then
                (case py_or (dict_get d ''params'' PNone) (PDict []) of
                   PDict params \<Rightarrow> io_bind (call_named s py a mid params token) (\<lambda>v. io_return (Some v)) w
                 | _ \<Rightarrow> io_raise (attribute_error ''get'') w)
              else Some (Inr (Some (jsonrpc_error mid (- 32601) (''Method not found: '' @ mc_repr s method))), w))
      | _ \<Rightarrow> io_raise (attribute_error ''get'') w)"

text \<open>The POST handler of \<open>app/web.py\<close>: one message or a batch; \<open>None\<close> stands for a body that is not JSON.\<close>

datatype http_reply = JsonReply int pyval | EmptyReply int | BodyReply int string string | RawReply int bytes

fun mcp_batch :: "'w mcp_server \<Rightarrow> 't schemer option \<Rightarrow> 't app_registry \<Rightarrow> string option \<Rightarrow> pyval list \<Rightarrow> ('w, pyval list) io" where
  "mcp_batch s py a token [] = io_return []"
| "mcp_batch s py a token (m # ms) =
     io_bind (mcp_handle s py a m token) (\<lambda>r.
     io_bind (mcp_batch s py a token ms) (\<lambda>rs. io_return ((case r of None \<Rightarrow> [] | Some v \<Rightarrow> [v]) @ rs)))"

definition parse_error :: pyval where
  "parse_error = PDict [(''jsonrpc'', PStr ''2.0''), (''id'', PNone),
     (''error'', PDict [(''code'', PInt (- 32700)), (''message'', PStr ''Parse error'')])]"

definition mcp_post :: "'w mcp_server \<Rightarrow> 't schemer option \<Rightarrow> 't app_registry \<Rightarrow> string option \<Rightarrow> pyval option \<Rightarrow> ('w, http_reply) io" where
  "mcp_post s py a auth_header body =
     (let token = extract_bearer auth_header
      in case body of
           None \<Rightarrow> io_return (JsonReply 400 parse_error)
         | Some (PList ms) \<Rightarrow> io_bind (mcp_batch s py a token ms) (\<lambda>rs. io_return (JsonReply 200 (PList rs)))
         | Some m \<Rightarrow> io_bind (mcp_handle s py a m token) (\<lambda>r.
             io_return (case r of None \<Rightarrow> EmptyReply 202 | Some v \<Rightarrow> JsonReply 200 v)))"

section \<open>Names and handlers\<close>

definition shown :: "'t endpoint list \<Rightarrow> 't endpoint list" where
  "shown hs = filter (\<lambda>h. \<not> plumbing (ep_prefix h)) hs"

lemma mcp_tools_spec:
  assumes "mcp_tools py hs tools names = Inr (ts, bn)" "distinct (map fst names)"
  shows "ts = tools @ map (mcp_tool py) (shown hs) \<and> bn = names @ map (\<lambda>h. (tool_name (ep_prefix h), ep_prefix h)) (shown hs)
    \<and> distinct (map fst names @ map (\<lambda>h. tool_name (ep_prefix h)) (shown hs))"
  using assms
proof (induction hs arbitrary: tools names)
  case (Cons h hs)
  show ?case
  proof (cases "plumbing (ep_prefix h)")
    case True
    then show ?thesis using Cons by (simp add: shown_def)
  next
    case False
    let ?n = "tool_name (ep_prefix h)" and ?names = "AList.update (tool_name (ep_prefix h)) (ep_prefix h) names"
    have new: "map_of names ?n = None" "mcp_tools py hs (tools @ [mcp_tool py h]) ?names = Inr (ts, bn)"
      using Cons.prems(1) False by (simp_all split: if_splits)
    then have "?names = names @ [(?n, ep_prefix h)]" by (simp add: update_new dkeys_map_of)
    then show ?thesis using Cons.IH [OF new(2) dict_ok_update [OF Cons.prems(2)]] False by (simp add: shown_def)
  qed
qed (simp add: shown_def)

definition admits :: "bytes option \<Rightarrow> 't endpoint \<Rightarrow> exc + identity option" where
  "admits att h = fst (check_authorized (ep_authorizer h)
     \<lparr>a_prefix = ep_prefix h, a_key_expr = ep_prefix h, a_params = [], a_attachment = att,
      a_operation = ''handle'', a_principal = None\<rparr>)"

lemma callable_spec:
  "(\<forall>h \<in> set hs. \<forall>e. admits att h = Inl e \<longrightarrow> x_istos e \<noteq> None) \<Longrightarrow>
   callable_prefixes att prefixes hs = Inr {ep_prefix h | h. h \<in> set hs \<and> ep_prefix h \<in> prefixes \<and> (\<exists>who. admits att h = Inr who)}"
proof (induction hs)
  case (Cons h hs)
  then show ?case by (cases "admits att h") (auto simp: admits_def)
qed simp

lemma distinct_map_same: "distinct (map f xs) \<Longrightarrow> x \<in> set xs \<Longrightarrow> y \<in> set xs \<Longrightarrow> f x = f y \<Longrightarrow> x = y"
  by (meson distinct_map inj_onD)

lemma named_handler:
  assumes "distinct (map (\<lambda>h. tool_name (ep_prefix h)) hs)" "h \<in> set hs"
  shows "map_of (map (\<lambda>h. (tool_name (ep_prefix h), ep_prefix h)) hs) (tool_name (ep_prefix h)) = Some (ep_prefix h)"
  using assms by (intro map_of_is_SomeI) (auto simp: comp_def)

lemma list_tools_spec:
  assumes "mcp_tools py (rg_handlers a) [] [] = Inr (ts, bn)"
    and "\<forall>h \<in> set (rg_handlers a). \<forall>e. admits (caller_attachment s token) h = Inl e \<longrightarrow> x_istos e \<noteq> None"
  shows "list_tools s py a token = Inr (PDict [(''tools'', PList (map (mcp_tool py)
    (filter (\<lambda>h. \<exists>who. admits (caller_attachment s token) h = Inr who) (shown (rg_handlers a)))))])"
proof -
  let ?hs = "shown (rg_handlers a)" and ?att = "caller_attachment s token"
  have sp: "ts = map (mcp_tool py) ?hs" "bn = map (\<lambda>h. (tool_name (ep_prefix h), ep_prefix h)) ?hs" "distinct (map (\<lambda>h. tool_name (ep_prefix h)) ?hs)"
    using mcp_tools_spec [OF assms(1)] by simp_all
  have dist: "distinct (map (\<lambda>h. tool_name (ep_prefix h)) ?hs)" using sp(3) .
  let ?ok = "{ep_prefix h | h. h \<in> set (rg_handlers a) \<and> ep_prefix h \<in> snd ` set bn \<and> (\<exists>who. admits ?att h = Inr who)}"
  have "visible bn ?ok (mcp_tool py h) \<longleftrightarrow> (\<exists>who. admits ?att h = Inr who)" if h: "h \<in> set ?hs" for h
  proof -
    have "ep_prefix h \<in> ?ok \<longleftrightarrow> (\<exists>who. admits ?att h = Inr who)"
    proof
      assume "ep_prefix h \<in> ?ok"
      then obtain h' where h': "h' \<in> set (rg_handlers a)" "ep_prefix h' = ep_prefix h" "\<exists>who. admits ?att h' = Inr who" by force
      then have "h' \<in> set ?hs" using h by (simp add: shown_def)
      then have "h' = h" using distinct_map_same [OF dist _ h] h'(2) by simp
      then show "\<exists>who. admits ?att h = Inr who" using h'(3) by simp
    next
      assume "\<exists>who. admits ?att h = Inr who"
      then show "ep_prefix h \<in> ?ok" using h by (force simp: sp(2) shown_def)
    qed
    then show ?thesis using named_handler [OF dist h] by (simp add: visible_def mcp_tool_def dict_get_def sp(2))
  qed
  then have "filter (visible bn ?ok) (map (mcp_tool py) ?hs) = map (mcp_tool py) (filter (\<lambda>h. \<exists>who. admits ?att h = Inr who) ?hs)"
    by (simp add: filter_map comp_def cong: filter_cong)
  then show ?thesis
    using callable_spec [OF assms(2), of "snd ` set bn"] by (simp add: list_tools_def assms(1) sp(1))
qed

text \<open>A handler of \<open>Handler\<close> that serves an endpoint.\<close>

definition serves_endpoint :: "'u handler \<Rightarrow> 't endpoint \<Rightarrow> bool" where
  "serves_endpoint k h \<longleftrightarrow> h_prefix k = ep_prefix h \<and> h_authorizer k = ep_authorizer h"

lemma admits_net: "serves_endpoint k h \<Longrightarrow> admits att h = net_auth k \<lparr>nq_key = ep_prefix h, nq_params = [], nq_attachment = att\<rparr>"
  by (simp add: serves_endpoint_def admits_def net_auth_def net_params_def)

text \<open>C34: An MCP client is shown exactly the tools whose handlers would let its query in: the listing holds
  the handlers outside \<open>.istos/\<close> that admit the caller's token on the mesh. A call of a tool by its name
  queries the handler it stands for, and no other, with the caller's token and arguments, and answers with
  its reply.\<close>

theorem listed_tools_are_callable:
  fixes k :: "'t endpoint \<Rightarrow> 'u handler"
  assumes "validate_server py a = Inr ()" "\<forall>h \<in> set (rg_handlers a). serves_endpoint (k h) h"
    and "\<forall>h \<in> set (rg_handlers a). \<forall>e. net_auth (k h) \<lparr>nq_key = ep_prefix h, nq_params = [],
        nq_attachment = caller_attachment s token\<rparr> = Inl e \<longrightarrow> x_istos e \<noteq> None"
    and "mid \<noteq> PNone"
  shows "mcp_handle s py a (PDict [(''method'', PStr ''tools/list''), (''id'', mid)]) token w =
      Some (Inr (Some (jsonrpc_result mid (PDict [(''tools'', PList (map (mcp_tool py)
        (filter (\<lambda>h. \<not> plumbing (ep_prefix h) \<and> (\<exists>who. net_auth (k h) \<lparr>nq_key = ep_prefix h, nq_params = [],
            nq_attachment = caller_attachment s token\<rparr> = Inr who)) (rg_handlers a))))]))), w)
    \<and> (\<forall>h \<in> set (rg_handlers a). \<forall>args v w'. \<not> plumbing (ep_prefix h)
        \<and> dkeys args \<inter> {''self'', ''key_expr'', ''token''} = {} \<and> mc_query s (ep_prefix h) token args w = Some (Inr v, w') \<longrightarrow>
        mcp_handle s py a (PDict [(''method'', PStr ''tools/call''), (''id'', mid),
            (''params'', PDict [(''name'', PStr (tool_name (ep_prefix h))), (''arguments'', PDict args)])]) token w
          = Some (Inr (Some (jsonrpc_result mid (reply_content s v))), w'))"
proof -
  obtain ts bn where t: "mcp_tools py (rg_handlers a) [] [] = Inr (ts, bn)"
    using assms(1) by (auto simp: validate_server_def res_bind_eq_Inr)
  let ?hs = "shown (rg_handlers a)" and ?att = "caller_attachment s token"
  have sp: "ts = map (mcp_tool py) ?hs" "bn = map (\<lambda>h. (tool_name (ep_prefix h), ep_prefix h)) ?hs" "distinct (map (\<lambda>h. tool_name (ep_prefix h)) ?hs)"
    using mcp_tools_spec [OF t] by simp_all
  have dist: "distinct (map (\<lambda>h. tool_name (ep_prefix h)) ?hs)" using sp(3) .
  have net: "net_auth (k h) \<lparr>nq_key = ep_prefix h, nq_params = [], nq_attachment = ?att\<rparr> = admits ?att h" if "h \<in> set (rg_handlers a)" for h
    using admits_net assms(2) that by metis
  have "filter (\<lambda>h. \<not> plumbing (ep_prefix h) \<and> (\<exists>who. net_auth (k h) \<lparr>nq_key = ep_prefix h, nq_params = [], nq_attachment = ?att\<rparr> = Inr who)) (rg_handlers a)
      = filter (\<lambda>h. \<exists>who. admits ?att h = Inr who) ?hs"
    by (simp add: shown_def net conj_commute cong: filter_cong)
  moreover have "list_tools s py a token = Inr (PDict [(''tools'', PList (map (mcp_tool py) (filter (\<lambda>h. \<exists>who. admits ?att h = Inr who) ?hs)))])"
    using assms(3) net by (intro list_tools_spec [OF t]) metis
  moreover have "call_named s py a mid [(''name'', PStr (tool_name (ep_prefix h))), (''arguments'', PDict args)] token w
      = Some (Inr (jsonrpc_result mid (reply_content s v)), w')"
    if "h \<in> set ?hs" "dkeys args \<inter> {''self'', ''key_expr'', ''token''} = {}" "mc_query s (ep_prefix h) token args w = Some (Inr v, w')"
    for h args v w'
  proof -
    have "py_or (PDict args) (PDict []) = PDict args" by (simp add: py_or_def)
    then show ?thesis
      using named_handler [OF dist that(1)] that(2,3)
      by (simp add: call_named_def t sp(2) dict_get_def mcp_call_def io_bind_def io_return_def)
  qed
  ultimately show ?thesis
    using assms(4) by (auto simp: mcp_handle_def dict_get_def io_bind_def io_return_def py_or_def shown_def)
qed

definition needs_token :: "unit endpoint" where
  "needs_token = wipe_handler\<lparr>ep_prefix := ''admin/op'', ep_authorizer := Some (\<lambda>c. (Inr (if a_attachment c = None then Denied else Allowed), c))\<rparr>"

definition mcp_demo :: "nat mcp_server" where
  "mcp_demo = \<lparr>mc_name = ''s'', mc_version = ''1'', mc_query = (\<lambda>p t args w. Some (Inr (PStr p), Suc w)),
     mc_texts = \<lparr>tx_dumps = (\<lambda>_. []), tx_str = (\<lambda>_. []), tx_repr = (\<lambda>_. [])\<rparr>, mc_repr = (\<lambda>_. [])\<rparr>"

lemma mcp_demo_simps:
  "validate_server (None :: unit schemer option) (registry_of ''s'' [wipe_handler, needs_token]) = Inr ()"
  "caller_attachment mcp_demo None = None" "\<not> plumbing (ep_prefix wipe_handler)" "tool_name (ep_prefix wipe_handler) = ''disk-wipe''"
  by code_simp+

lemma listed_tools_are_callable_witness:
  "mcp_handle mcp_demo (None :: unit schemer option) (registry_of ''s'' [wipe_handler, needs_token])
      (PDict [(''method'', PStr ''tools/list''), (''id'', PInt 1)]) None 0
    = Some (Inr (Some (jsonrpc_result (PInt 1) (PDict [(''tools'', PList [mcp_tool (None :: unit schemer option) wipe_handler])]))), 0)"
proof -
  let ?k = "\<lambda>h :: unit endpoint. echo_handler\<lparr>h_prefix := ep_prefix h, h_authorizer := ep_authorizer h\<rparr>"
  have auth: "net_auth (?k wipe_handler) \<lparr>nq_key = ep_prefix wipe_handler, nq_params = [], nq_attachment = None\<rparr> = Inr None"
    by (simp add: net_auth_def wipe_handler_def check_authorized_def)
  have "\<exists>e. x_istos e \<noteq> None \<and> net_auth (?k needs_token) \<lparr>nq_key = ep_prefix needs_token, nq_params = [], nq_attachment = None\<rparr> = Inl e"
    by (simp add: net_auth_def needs_token_def check_authorized_def raised_def)
  then obtain e where refused: "x_istos e \<noteq> None"
      "net_auth (?k needs_token) \<lparr>nq_key = ep_prefix needs_token, nq_params = [], nq_attachment = None\<rparr> = Inl e" by blast
  show ?thesis
    using listed_tools_are_callable [of None "registry_of ''s'' [wipe_handler, needs_token]" ?k mcp_demo None "PInt 1" 0]
      auth refused mcp_demo_simps by (auto simp: serves_endpoint_def registry_of_def)
qed

section \<open>One response per request\<close>

text \<open>Every request, which has an id, gets one response, which carries that id; a notification gets none.\<close>

lemma jsonrpc_id [simp]:
  "\<exists>e. jsonrpc_result mid v = PDict e \<and> dict_get e ''id'' PNone = mid"
  "\<exists>e. jsonrpc_error mid code msg = PDict e \<and> dict_get e ''id'' PNone = mid"
  by (simp_all add: jsonrpc_result_def jsonrpc_error_def dict_get_def)

lemma one_response_per_request:
  assumes "mcp_handle s py a (PDict d) token w = Some (Inr r, w')" "dict_get d ''method'' PNone \<noteq> PStr ''initialize''"
  shows "r = None \<longleftrightarrow> dict_get d ''method'' PNone = PStr ''notifications/initialized'' \<or> dict_get d ''id'' PNone = PNone"
    and "r = Some v \<Longrightarrow> \<exists>e. v = PDict e \<and> dict_get e ''id'' PNone = dict_get d ''id'' PNone"
proof -
  have call: "\<exists>e. v = PDict e \<and> dict_get e ''id'' PNone = mid" if "call_named s py a mid params token w = Some (Inr v, w')" for mid params v w'
    using that by (auto simp: call_named_def io_return_def io_raise_def io_bind_Some split: sum.splits option.splits prod.splits)
  show "r = None \<longleftrightarrow> dict_get d ''method'' PNone = PStr ''notifications/initialized'' \<or> dict_get d ''id'' PNone = PNone"
    using assms by (auto simp: mcp_handle_def Let_def io_bind_Some io_return_def io_raise_def res_bind_eq_Inr split: if_splits pyval.splits)
  show "\<exists>e. v = PDict e \<and> dict_get e ''id'' PNone = dict_get d ''id'' PNone" if "r = Some v"
    using assms that
    by (auto simp: mcp_handle_def Let_def io_bind_Some io_return_def io_raise_def res_bind_eq_Inr split: if_splits pyval.splits dest: call)
qed

section \<open>Findings\<close>

text \<open>A handler that returns a list of one element is reported as having returned that element.\<close>

lemma one_element_list_is_unwrapped: "reply_content s (PList [PStr t]) = reply_content s (PStr t)"
  by (simp add: reply_content_def)

text \<open>A message that is not an object raises, so one such message loses the responses of its whole batch.\<close>

lemma odd_message_loses_the_batch:
  "mcp_post s py a auth (Some (PList [PDict [(''method'', PStr ''initialize''), (''id'', PInt 1)], PInt 7])) w
    = Some (Inl (attribute_error ''get''), w)"
  by (simp add: mcp_post_def Let_def mcp_handle_def dict_get_def io_bind_def io_raise_def)

end
