(* ===== verification/Web.thy ===== *)
theory Web
  imports Mcp ChannelClient
begin

text \<open>
  The HTTP edge of an application (\<open>app/web.py\<close>, \<open>http/health.py\<close>): requests that become queries on the
  mesh, streams relayed as server-sent events, channels over WebSockets, probes. The HTTP server is
  an argument: what it hands a handler is a request, what a handler gives back is a reply or an
  exception, which the server answers with status 500.
\<close>

section \<open>Probes\<close>

record 'w health =
  hs_started :: time
  hs_ready :: bool
  hs_checks :: "(string \<times> ('w, pyval) act) list"

text \<open>\<open>round\<close> to two digits is an argument.\<close>

definition liveness :: "(rat \<Rightarrow> rat) \<Rightarrow> time \<Rightarrow> 'w health \<Rightarrow> pyval" where
  "liveness round2 now h = PDict [(''status'', PStr ''alive''), (''uptime_seconds'', PFloat (round2 (now - hs_started h)))]"

text \<open>A check that raises, or whose result has no \<open>get\<close>, is an error named after the exception's class.\<close>

definition check_failed :: "exc \<Rightarrow> pyval" where
  "check_failed e = PDict [(''status'', PStr ''error''), (''error'', PStr (case x_mro e of [] \<Rightarrow> [] | c # _ \<Rightarrow> c))]"

fun run_checks :: "(string \<times> ('w, pyval) act) list \<Rightarrow> (string, pyval) dict \<Rightarrow> bool \<Rightarrow> ('w, (string, pyval) dict \<times> bool) act" where
  "run_checks [] results ok w = (Inr (results, ok), w)"
| "run_checks ((name, check) # cs) results ok w =
     (case check w of
        (Inl e, w') \<Rightarrow>
          if is_exception e then run_checks cs (AList.update name (check_failed e) results) False w' else (Inl e, w')
      | (Inr (PDict d), w') \<Rightarrow>
          run_checks cs (AList.update name (PDict d) results) (ok \<and> dict_get d ''status'' PNone = PStr ''ok'') w'
      | (Inr v, w') \<Rightarrow> run_checks cs (AList.update name (check_failed (attribute_error ''get'')) results) False w')"

definition readiness :: "'w health \<Rightarrow> ('w, pyval) act" where
  "readiness h =
     act_bind (run_checks (hs_checks h) [] (hs_ready h)) (\<lambda>(results, ok).
       act_return (PDict [(''status'', PStr (if ok then ''ready'' else ''not_ready'')), (''checks'', PDict results)]))"

definition livez :: "(rat \<Rightarrow> rat) \<Rightarrow> time \<Rightarrow> 'w health \<Rightarrow> http_reply" where
  "livez round2 now h = JsonReply 200 (liveness round2 now h)"

definition readyz :: "'w health \<Rightarrow> ('w, http_reply) act" where
  "readyz h =
     act_bind (readiness h) (\<lambda>v.
       act_return (JsonReply (case v of PDict d \<Rightarrow> if dict_get d ''status'' PNone = PStr ''ready'' then 200 else 503 | _ \<Rightarrow> 503) v))"

section \<open>Requests\<close>

text \<open>\<open>rq_body\<close> is the text of a body, if there is one; headers are looked up by name.\<close>

record http_request =
  rq_path :: string
  rq_query :: "(string, string) dict"
  rq_body :: "string option"
  rq_header :: "string \<Rightarrow> string option"

text \<open>What a reply of the transport carries: a payload that can be read or not, an error, neither.\<close>

datatype transport_reply = OkPayload bytes | Unreadable | ErrReply | Neither

record 'w gateway =
  gw_get :: "(string \<Rightarrow> bytes option \<Rightarrow> time \<Rightarrow> ('w, transport_reply list) act) option"
  gw_str :: "pyval \<Rightarrow> string"
  gw_dumps :: "pyval \<Rightarrow> string"
  gw_loads :: "string \<Rightarrow> pyval option"
  gw_parse :: "bytes \<Rightarrow> pyval option"

definition error_reply_json :: "int \<Rightarrow> string \<Rightarrow> string \<Rightarrow> http_reply" where
  "error_reply_json status message code = JsonReply status (PDict (reply_err (PStr message) (PStr code) PNone PNone))"

text \<open>The parameters of a request: the query's, overwritten by those of a JSON body. A body that is JSON but
  no object is refused by a query route and ignored by a stream route.\<close>

definition request_params :: "'w gateway \<Rightarrow> bool \<Rightarrow> http_request \<Rightarrow> http_reply + (string, pyval) dict" where
  "request_params g strict req =
     (let params = map (\<lambda>(k, v). (k, PStr v)) (rq_query req)
      in case rq_body req of
           None \<Rightarrow> Inr params
         | Some text \<Rightarrow>
             if strip text = [] then Inr params
             else (case gw_loads g text of
                     None \<Rightarrow> Inl (error_reply_json 400 ''Request body must be valid JSON.'' ''bad_request'')
                   | Some (PDict d) \<Rightarrow> Inr (dict_update params d)
                   | Some _ \<Rightarrow> if strict then Inl (error_reply_json 400 ''JSON body must be an object of params.'' ''bad_request'')
                                else Inr params))"

definition correlation_header :: "http_request \<Rightarrow> string option" where
  "correlation_header req =
     (case rq_header req ''X-Correlation-ID'' of
        Some c \<Rightarrow> if c \<noteq> [] then Some c else rq_header req ''X-Request-ID''
      | None \<Rightarrow> rq_header req ''X-Request-ID'')"

definition bearer :: "http_request \<Rightarrow> string option" where
  "bearer req = extract_bearer (rq_header req ''Authorization'')"

definition http_envelope :: "http_request \<Rightarrow> envelope" where
  "http_envelope req =
     \<lparr>env_token = opt_str (bearer req), env_correlation_id = opt_str (correlation_header req),
      env_traceparent = opt_str (rq_header req ''traceparent'')\<rparr>"

section \<open>The gateway\<close>

fun first_reply :: "transport_reply list \<Rightarrow> bool \<Rightarrow> bytes option \<times> bool" where
  "first_reply [] saw_error = (None, saw_error)"
| "first_reply (OkPayload b # rs) saw_error = (Some b, False)"
| "first_reply (Unreadable # rs) saw_error = first_reply rs True"
| "first_reply (ErrReply # rs) saw_error = first_reply rs True"
| "first_reply (Neither # rs) saw_error = first_reply rs saw_error"

definition upstream_failed :: http_reply where
  "upstream_failed = error_reply_json 502 ''Upstream query failed.'' ''gateway_error''"

definition payload_reply :: "'w gateway \<Rightarrow> bytes \<Rightarrow> exc + http_reply" where
  "payload_reply g payload =
     (case gw_parse g payload of
        None \<Rightarrow> Inr (RawReply 200 payload)
      | Some v \<Rightarrow> res_bind (lift_res (status_for_reply v)) (\<lambda>st. Inr (JsonReply st v)))"

text \<open>\<open>_make_gateway_handler\<close>: the handler it builds for a route.\<close>

definition gateway_call :: "'w gateway \<Rightarrow> http_route \<Rightarrow> http_request \<Rightarrow> ('w, http_reply) act" where
  "gateway_call g route req w =
     (case request_params g True req of
        Inl refusal \<Rightarrow> (Inr refusal, w)
      | Inr params \<Rightarrow>
          (let selector = build_selector (gw_str g) (gw_dumps g) (hr_key_expr route) params;
               att = to_attachment (gw_dumps g) (http_envelope req)
           in case (case gw_get g of
                      None \<Rightarrow> (Inr (None, False), w)
                    | Some fetch \<Rightarrow> act_bind (fetch selector att (hr_timeout_s route)) (\<lambda>rs. act_return (first_reply rs False)) w) of
                (Inl e, w') \<Rightarrow> (if is_exception e then Inr upstream_failed else Inl e, w')
              | (Inr (Some payload, _), w') \<Rightarrow> (payload_reply g payload, w')
              | (Inr (None, True), w') \<Rightarrow> (Inr upstream_failed, w')
              | (Inr (None, False), w') \<Rightarrow>
                  (Inr (error_reply_json 504 (''No handler replied for '' @ quoted (hr_key_expr route) @ ''.'') ''not_found''), w')))"

text \<open>\<open>/metrics\<close> and the document are behind the authorizer of the application.\<close>

definition reject_unauthorized :: "authorizer option \<Rightarrow> http_request \<Rightarrow> exc + http_reply option" where
  "reject_unauthorized auth req =
     (case auth of
        None \<Rightarrow> Inr None
      | Some f \<Rightarrow>
          (let token = bearer req
           in case fst (check_authorized (Some f)
                \<lparr>a_prefix = rq_path req, a_key_expr = rq_path req, a_params = [],
                 a_attachment = (case token of Some t \<Rightarrow> if t \<noteq> [] then Some (encode_utf8 t) else None | None \<Rightarrow> None),
                 a_operation = ''http'', a_principal = None\<rparr>) of
                Inl e \<Rightarrow> if is_unauthorized e then Inr (Some (error_reply_json 401 ''Unauthorized.'' ''unauthorized'')) else Inl e
              | Inr _ \<Rightarrow> Inr None))"

definition metrics_reply :: "authorizer option \<Rightarrow> string \<Rightarrow> http_request \<Rightarrow> exc + http_reply" where
  "metrics_reply auth exported req =
     res_bind (reject_unauthorized auth req) (\<lambda>denied.
       Inr (case denied of Some r \<Rightarrow> r | None \<Rightarrow> BodyReply 200 ''text/plain'' exported))"

text \<open>\<open>asked\<close> is what \<open>query_once\<close> gives for the document.\<close>

definition asyncapi_reply :: "authorizer option \<Rightarrow> exc + pyval \<Rightarrow> http_request \<Rightarrow> exc + http_reply" where
  "asyncapi_reply auth asked req =
     res_bind (reject_unauthorized auth req) (\<lambda>denied.
       case denied of
         Some r \<Rightarrow> Inr r
       | None \<Rightarrow>
           (case asked of
              Inr v \<Rightarrow> Inr (if truthy v
                then (case (case v of PList (x # _) \<Rightarrow> x | _ \<Rightarrow> v) of
                        PStr yaml \<Rightarrow> BodyReply 200 ''application/yaml'' yaml
                      | _ \<Rightarrow> BodyReply 500 ''text/plain'' ''Error querying network'')
                else BodyReply 404 ''text/plain'' ''Docs not found on network'')
            | Inl e \<Rightarrow> if is_not_found e then Inr (BodyReply 404 ''text/plain'' ''Docs not found on network'')
                       else if is_exception e then Inr (BodyReply 500 ''text/plain'' ''Error querying network'') else Inl e))"

section \<open>Server-sent events\<close>

datatype chunk = ChunkBytes bytes | ChunkValue pyval

definition sse_text :: "(pyval \<Rightarrow> string) \<Rightarrow> chunk \<Rightarrow> string" where
  "sse_text dumps c =
     (case c of
        ChunkBytes b \<Rightarrow> (case decode_utf8 b of Some t \<Rightarrow> t | None \<Rightarrow> b64encode b)
      | ChunkValue (PStr s) \<Rightarrow> s
      | ChunkValue v \<Rightarrow> dumps v)"

definition write_event :: "(bytes \<Rightarrow> ('w, unit) act) \<Rightarrow> string \<Rightarrow> string option \<Rightarrow> ('w, unit) act" where
  "write_event write text kind = write (encode_utf8 (sse_event text kind None))"

fun write_chunks :: "(pyval \<Rightarrow> string) \<Rightarrow> (bytes \<Rightarrow> ('w, unit) act) \<Rightarrow> chunk list \<Rightarrow> ('w, unit) act" where
  "write_chunks dumps write [] = act_return ()"
| "write_chunks dumps write (c # cs) = act_bind (write_event write (sse_text dumps c) None) (\<lambda>_. write_chunks dumps write cs)"

definition sse_error :: "(pyval \<Rightarrow> string) \<Rightarrow> pyval \<Rightarrow> pyval \<Rightarrow> string" where
  "sse_error dumps code message = dumps (PDict [(''code'', code), (''message'', message)])"

text \<open>The body of the response: the chunks of the iteration, then how it ended; \<open>end_of_file\<close> is always
  tried. \<open>chunks\<close> is what \<open>stream_query\<close> yields, \<open>failure\<close> what it raises, if it does.\<close>

definition sse_body :: "(pyval \<Rightarrow> string) \<Rightarrow> (bytes \<Rightarrow> ('w, unit) act) \<Rightarrow> ('w, unit) act \<Rightarrow> chunk list \<Rightarrow> exc option \<Rightarrow> ('w, unit) act" where
  "sse_body dumps write end_of_file chunks failure w =
     (let relayed = act_bind (write_chunks dumps write chunks) (\<lambda>_.
            case failure of Some e \<Rightarrow> act_raise e | None \<Rightarrow> write_event write [] (Some ''end''));
          handled = (\<lambda>e. case x_istos e of
              Some i \<Rightarrow> write_event write (sse_error dumps (e_code i) (e_message i)) (Some ''error'')
            | None \<Rightarrow> if is_exception e
                      then swallow (write_event write (sse_error dumps (PStr ''stream_error'') (PStr ''Upstream stream failed.'')) (Some ''error''))
                      else act_raise e);
          (out, w1) = (case relayed w of (Inr _, w') \<Rightarrow> (Inr (), w') | (Inl e, w') \<Rightarrow> handled e w')
      in case swallow end_of_file w1 of (Inl e, w2) \<Rightarrow> (Inl e, w2) | (Inr _, w2) \<Rightarrow> (out, w2))"

text \<open>The context a stream request runs in: \<open>uuid\<close> when no header names a correlation id.\<close>

definition sse_context :: "string \<Rightarrow> http_route \<Rightarrow> http_request \<Rightarrow> principal request_context" where
  "sse_context uuid route req =
     \<lparr>rc_correlation_id = (case correlation_header req of Some c \<Rightarrow> if c \<noteq> [] then c else uuid | None \<Rightarrow> uuid),
      rc_prefix = hr_key_expr route, rc_operation = ''stream'', rc_principal = None, rc_attachment = None,
      rc_traceparent = rq_header req ''traceparent''\<rparr>"

text \<open>\<open>_make_sse_handler\<close>: \<open>stream\<close> is \<open>stream_query\<close> on the key, timeout, token and parameters, which are given
  as keywords: those of the names it is already given are a \<open>TypeError\<close>.\<close>

definition sse_call ::
  "'u world gateway \<Rightarrow> (string \<Rightarrow> time \<Rightarrow> string option \<Rightarrow> (string, pyval) dict \<Rightarrow> 'u world \<Rightarrow> (chunk list \<times> exc option) \<times> 'u world)
   \<Rightarrow> (bytes \<Rightarrow> ('u world, unit) act) \<Rightarrow> ('u world, unit) act \<Rightarrow> string \<Rightarrow> http_route \<Rightarrow> http_request
   \<Rightarrow> ('u world, http_reply option) act" where
  "sse_call g stream write end_of_file uuid route req w =
     (case request_params g False req of
        Inl refusal \<Rightarrow> (Inr (Some refusal), w)
      | Inr params \<Rightarrow>
          (case (let w0 = w\<lparr>w_context := Some (sse_context uuid route req)\<rparr>
                 in if dkeys params \<inter> {''self'', ''key_expr'', ''timeout_s'', ''token''} \<noteq> {}
                    then (([], Some (type_error ''got multiple values for argument'')), w0)
                    else stream (hr_key_expr route) (hr_timeout_s route) (bearer req) params w0) of
             ((chunks, failure), w1) \<Rightarrow>
               act_bind (sse_body (gw_dumps g) write end_of_file chunks failure) (\<lambda>_. act_return None) w1))"

section \<open>Channels over WebSockets\<close>

definition ws_params :: "http_request \<Rightarrow> (string, string) dict" where
  "ws_params req = AList.delete ''conversation_id'' (decode_params (rq_query req))"

definition ws_conversation :: "bool \<Rightarrow> string \<Rightarrow> http_request \<Rightarrow> string option" where
  "ws_conversation durable uuid req =
     (case map_of (decode_params (rq_query req)) ''conversation_id'' of
        Some c \<Rightarrow> Some c
      | None \<Rightarrow> if durable then Some uuid else None)"

text \<open>The handshake: a refused client gets status 401, any other a session.\<close>

definition ws_handshake :: "'u channel \<Rightarrow> (pyval \<Rightarrow> string) \<Rightarrow> string \<Rightarrow> http_request \<Rightarrow> exc + http_reply + (session \<times> identity option)" where
  "ws_handshake c dumps uuid req =
     (let att = to_attachment dumps (http_envelope req)
      in case channel_authorize c att (ws_params req) of
           Inl e \<Rightarrow> if is_unauthorized e
                    then Inr (Inl (error_reply_json 401 ''Not authorized for this channel.'' ''unauthorized'')) else Inl e
         | Inr who \<Rightarrow> Inr (Inr (new_session None att (cw_durable c) (ws_conversation (cw_durable c) uuid req), who)))"

datatype frame = TextFrame string | BinaryFrame bytes | ErrorFrame | OtherFrame

text \<open>\<open>pump_inbound\<close>: the frames feed the session, which is closed when they end.\<close>

fun pump_frames :: "frame list \<Rightarrow> session \<Rightarrow> session" where
  "pump_frames [] s = close_session s"
| "pump_frames (TextFrame t # fs) s = pump_frames fs (feed (encode_utf8 t) s)"
| "pump_frames (BinaryFrame b # fs) s = pump_frames fs (feed b s)"
| "pump_frames (ErrorFrame # fs) s = close_session s"
| "pump_frames (OtherFrame # fs) s = pump_frames fs s"

definition ws_sink :: "(string \<Rightarrow> ('w, unit) act) \<Rightarrow> (bytes \<Rightarrow> ('w, unit) act) \<Rightarrow> bytes \<Rightarrow> ('w, unit) act" where
  "ws_sink send_str send_bytes raw = (case decode_utf8 raw of Some t \<Rightarrow> send_str t | None \<Rightarrow> send_bytes raw)"

text \<open>The end of a connection, after \<open>channel_run\<close> gave \<open>out\<close>: a refusal is told, other failures are logged.\<close>

definition ws_end :: "(pyval \<Rightarrow> string) \<Rightarrow> (string \<Rightarrow> ('w, unit) act) \<Rightarrow> exc + unit \<Rightarrow> session \<Rightarrow> 'w \<Rightarrow> (exc + unit) \<times> session \<times> 'w" where
  "ws_end dumps send_str out s w =
     (let (res, w1) = (case out of
            Inr _ \<Rightarrow> (Inr (), w)
          | Inl e \<Rightarrow> if is_unauthorized e
                     then swallow (send_str (dumps (PDict (reply_err (PStr ''Not authorized for this channel.'') (PStr ''unauthorized'') PNone PNone)))) w
                     else if is_exception e \<or> ''CancelledError'' \<in> set (x_mro e) then (Inr (), w) else (Inl e, w))
      in (res, close_session s, w1))"

section \<open>What is served\<close>

text \<open>The built-in handlers of a node, and whether it warns that they are open.\<close>

definition builtin_prefixes :: "bool \<Rightarrow> bool \<Rightarrow> bool \<Rightarrow> string \<Rightarrow> string list" where
  "builtin_prefixes health metrics discovery service =
     (if health then [''.istos/health'', ''.istos/ready''] else []) @ (if metrics then [''.istos/metrics''] else [])
     @ (if discovery then [CAPABILITIES_KEY, capabilities_key service] else [])"

definition warns_open :: "authorizer option \<Rightarrow> bool \<Rightarrow> bool \<Rightarrow> bool \<Rightarrow> bool" where
  "warns_open auth health metrics discovery \<longleftrightarrow> auth = None \<and> (health \<or> metrics \<or> discovery)"

definition open_surfaces :: "authorizer option \<Rightarrow> http_route list \<Rightarrow> string list \<Rightarrow> string option \<Rightarrow> string list" where
  "open_surfaces auth routes ws mcp_path =
     (if auth = None
      then map (\<lambda>r. hr_method r @ '' '' @ hr_path r) routes @ map (\<lambda>p. ''WS '' @ p) ws
           @ (case mcp_path of None \<Rightarrow> [] | Some p \<Rightarrow> [''POST '' @ p @ '' (MCP)''])
      else [])"

definition http_server_port :: "int option \<Rightarrow> int option \<Rightarrow> int option" where
  "http_server_port http_port docs_port = (case http_port of Some p \<Rightarrow> if p \<noteq> 0 then Some p else docs_port | None \<Rightarrow> docs_port)"

section \<open>A request over HTTP\<close>

text \<open>What a query of a handler comes to: the refusal of its authorizer, of the validation, or the outcome of
  the call. \<open>on_query\<close> answers it.\<close>

definition query_outcome ::
  "'u handler \<Rightarrow> 'u surroundings \<Rightarrow> 't pydantic option \<Rightarrow> (string \<Rightarrow> 't option) option \<Rightarrow> net_query
   \<Rightarrow> 'u world \<Rightarrow> ((exc + pyval) \<times> 'u world) option" where
  "query_outcome h u py hints q w =
     (case net_auth h q of
        Inl e \<Rightarrow> Some (Inl e, w)
      | Inr p \<Rightarrow>
          (case validate_params py hints (h_sig h) (map (\<lambda>(k, v). (k, PStr v)) (net_params q)) (injected_params (h_sig h)) of
             Inl e \<Rightarrow> Some (Inl e, w)
           | Inr vp \<Rightarrow>
               if map_of (AList.delete ''db'' vp) ''self'' \<noteq> None
               then Some (Inl (type_error ''__call__() got multiple values for argument self''), w)
               else map_option (\<lambda>(out, w'). (out, w'\<lparr>w_context := w_context w\<rparr>))
                 (handler_call h u [] (AList.delete ''db'' vp)
                   (w\<lparr>w_context := Some ((net_context h u q)\<lparr>rc_principal := map_option (\<lambda>i. ObjPrincipal (PStr (p_id i))) p\<rparr>)\<rparr>))))"

lemma answer_failed [simp]: "answer h k cid (Inl e) = error_reply h k cid e"
  by (simp add: answer_def)

lemma on_query_outcome:
  "on_query h u py hints q w =
    map_option (\<lambda>(out, w'). (answer h (nq_key q) (rc_correlation_id (net_context h u q)) out, w')) (query_outcome h u py hints q w)"
  by (simp add: on_query_def query_outcome_def Let_def option.map_comp comp_def case_prod_unfold
      split: sum.splits)

definition serves_http :: "'u handler \<Rightarrow> 'u surroundings \<Rightarrow> 't pydantic option \<Rightarrow> (string \<Rightarrow> 't option) option
    \<Rightarrow> (string \<Rightarrow> bytes option \<Rightarrow> time \<Rightarrow> ('u world, transport_reply list) act) \<Rightarrow> bool" where
  "serves_http h u py hints fetch \<longleftrightarrow>
     (\<forall>sel att t w r w'.
        on_query h u py hints \<lparr>nq_key = fst (split_once (CHR ''?'') sel), nq_params = selector_params sel, nq_attachment = att\<rparr> w
          = Some (r, w') \<longrightarrow> fetch sel att t w = (Inr (case r of None \<Rightarrow> [] | Some (k, b) \<Rightarrow> [OkPayload b]), w'))"

text \<open>The status an outcome is answered with.\<close>

definition outcome_status :: "'u handler \<Rightarrow> exc + pyval \<Rightarrow> int" where
  "outcome_status h out =
     (case out of
        Inr _ \<Rightarrow> 200
      | Inl e \<Rightarrow> (case er_code (resolve (h_registry h) e) of PStr c \<Rightarrow> dict_get CODE_TO_STATUS c DEFAULT_ERROR_STATUS | _ \<Rightarrow> DEFAULT_ERROR_STATUS))"

lemma wire_status:
  assumes "\<And>v. out = Inr v \<Longrightarrow> \<not> is_error_payload v"
    and "\<And>e. out = Inl e \<Longrightarrow> \<exists>c. er_code (resolve (h_registry h) e) = PStr c"
  shows "status_for_reply (wire_value h cid out) = Inr (outcome_status h out)"
proof (cases out)
  case (Inl e)
  then obtain c where c: "er_code (resolve (h_registry h) e) = PStr c" using assms(2) by blast
  have "is_error_payload (wire_value h cid out)"
    by (simp add: Inl wire_value_def is_error_payload_def error_to_dict_def dict_get_def ERROR_MARKER_def)
  then show ?thesis
    by (simp add: status_for_reply_def Inl wire_value_def outcome_status_def c dict_item_def error_to_dict_def ERROR_MARKER_def
        dict_get_def split: option.split)
qed (use assms(1) in \<open>simp add: status_for_reply_def wire_value_def outcome_status_def\<close>)

text \<open>C35: Calling a handler over HTTP: the client gets the outcome that the query has at the handler, as
  JSON, with status 200 for a value and the status of its code for an error, under the correlation id
  it sent; the handler is called with its parameters, and the token of its \<open>Authorization\<close> header.\<close>

theorem http_call_is_local:
  fixes h :: "'u handler"
  assumes "serves_http h u py hints fetch" "gw_get g = Some fetch" "CHR ''?'' \<notin> set (hr_key_expr route)"
    and "request_params g True req = Inr params" "dict_ok params"
    and nq: "nq = \<lparr>nq_key = hr_key_expr route,
        nq_params = selector_params (build_selector (gw_str g) (gw_dumps g) (hr_key_expr route) params),
        nq_attachment = to_attachment (gw_dumps g) (http_envelope req)\<rparr>"
    and "query_outcome h u py hints nq w = Some (out, w')"
    and ser: "\<exists>b. h_serializer h (wire_value h (rc_correlation_id (net_context h u nq)) out) = Inr b
        \<and> gw_parse g b = Some (wire_value h (rc_correlation_id (net_context h u nq)) out)"
    and "\<And>v. out = Inr v \<Longrightarrow> \<not> is_error_payload v"
    and "\<And>e. out = Inl e \<Longrightarrow> is_exception e \<and> (\<exists>c. er_code (resolve (h_registry h) e) = PStr c)"
  shows "gateway_call g route req w
      = (Inr (JsonReply (outcome_status h out) (wire_value h (rc_correlation_id (net_context h u nq)) out)), w')
    \<and> net_params nq = encode_params (gw_str g) (gw_dumps g) params"
proof -
  let ?cid = "rc_correlation_id (net_context h u nq)"
  let ?sel = "build_selector (gw_str g) (gw_dumps g) (hr_key_expr route) params"
  obtain b where b: "h_serializer h (wire_value h ?cid out) = Inr b" "gw_parse g b = Some (wire_value h ?cid out)" using ser by blast
  have "answer h (nq_key nq) ?cid out = Some (nq_key nq, b)"
    using b(1) assms(10) by (cases out) (simp_all add: answer_def error_reply_def wire_value_def)
  then have "on_query h u py hints nq w = Some (Some (nq_key nq, b), w')" by (simp add: on_query_outcome assms(7))
  then have "fetch ?sel (nq_attachment nq) (hr_timeout_s route) w = (Inr [OkPayload b], w')"
    using assms(1) unfolding serves_http_def nq by (simp add: split_selector [OF assms(3)])
  moreover have "status_for_reply (wire_value h ?cid out) = Inr (outcome_status h out)"
    by (rule wire_status) (use assms(9,10) in blast)+
  moreover have "net_params nq = encode_params (gw_str g) (gw_dumps g) params"
    using decode_selector [OF assms(3,5), of "gw_str g" "gw_dumps g"] by (auto simp: nq net_params_def decode_params_def)
  ultimately show ?thesis
    by (simp add: gateway_call_def assms(2,4) act_bind_def act_return_def payload_reply_def b(2) lift_res_def nq)
qed

lemma coded_status:
  assumes "map_of CODE_TO_ERROR code = Some mk" "h_registry h = default_registry"
  shows "outcome_status h (Inl (raised (mk m d PNone))) = e_status (mk m d PNone)"
proof -
  have "(code, mk) \<in> set CODE_TO_ERROR" using assms(1) by (rule map_of_SomeD)
  then show ?thesis
    by (auto simp: outcome_status_def assms(2) resolve_default CODE_TO_ERROR_def coded_errors CODE_TO_STATUS_def dict_get_def)
qed

section \<open>Reading a stream of events\<close>

text \<open>How a client reads it (the event stream of HTML): lines end in a line feed, a carriage return or both; an
  empty line hands over an event with its type and its data lines; a line that begins with a colon is
  a comment; a field's value loses one leading space.\<close>

primrec lines_from :: "bool \<Rightarrow> string \<Rightarrow> string list" where
  "lines_from after_cr [] = [[]]"
| "lines_from after_cr (c # cs) =
     (if c = CHR 0x0A then (if after_cr then lines_from False cs else [] # lines_from False cs)
      else if c = CHR 0x0D then [] # lines_from True cs
      else case lines_from False cs of [] \<Rightarrow> [[c]] | l # ls \<Rightarrow> (c # l) # ls)"

abbreviation sse_lines :: "string \<Rightarrow> string list" where
  "sse_lines \<equiv> lines_from False"

record sse_reader =
  sr_data :: "string option"
  sr_kind :: string
  sr_events :: "(string \<times> string) list"

definition field_value :: "string \<Rightarrow> string" where
  "field_value v = (if v \<noteq> [] \<and> hd v = CHR '' '' then tl v else v)"

definition read_line :: "string \<Rightarrow> sse_reader \<Rightarrow> sse_reader" where
  "read_line l r =
     (if l = [] then
        (case sr_data r of
           None \<Rightarrow> r\<lparr>sr_kind := []\<rparr>
         | Some d \<Rightarrow> r\<lparr>sr_data := None, sr_kind := [], sr_events := sr_events r @ [(if sr_kind r = [] then ''message'' else sr_kind r, d)]\<rparr>)
      else (case split_once (CHR '':'') l of
              (name, value) \<Rightarrow>
                if name = ''data''
                then r\<lparr>sr_data := Some (case sr_data r of None \<Rightarrow> field_value value | Some d \<Rightarrow> d @ [CHR 0x0A] @ field_value value)\<rparr>
                else if name = ''event'' then r\<lparr>sr_kind := field_value value\<rparr> else r))"

definition read_events :: "string \<Rightarrow> (string \<times> string) list" where
  "read_events body = sr_events (fold read_line (butlast (sse_lines body)) \<lparr>sr_data = None, sr_kind = [], sr_events = []\<rparr>)"

lemma sse_lines_ne [simp]: "lines_from p s \<noteq> []"
  by (induction s arbitrary: p) (auto split: list.split)

lemma sse_lines_append:
  assumes "CHR 0x0D \<notin> set l" "CHR 0x0A \<notin> set l"
  shows "sse_lines (l @ CHR 0x0A # s) = l # sse_lines s"
  using assms by (induction l) auto

lemma butlast_lines: "CHR 0x0D \<notin> set l \<Longrightarrow> CHR 0x0A \<notin> set l \<Longrightarrow> butlast (sse_lines (l @ CHR 0x0A # s)) = l # butlast (sse_lines s)"
  by (simp add: sse_lines_append)

lemma split_lines: "(\<forall>l \<in> set (split_on c s). c \<notin> set l \<and> set l \<subseteq> set s) \<and> split_on c s \<noteq> []"
proof (induction s)
  case (Cons x s)
  then obtain l ls where "split_on c s = l # ls" by (cases "split_on c s") auto
  then show ?case using Cons by auto
qed simp

lemma lines_of_join:
  assumes "\<forall>l \<in> set ls. CHR 0x0D \<notin> set l \<and> CHR 0x0A \<notin> set l" "ls \<noteq> []"
  shows "butlast (sse_lines (join [CHR 0x0A] ls @ CHR 0x0A # CHR 0x0A # s)) = ls @ [] # butlast (sse_lines s)"
  using assms
proof (induction ls)
  case (Cons l ls)
  show ?case
  proof (cases "ls = []")
    case True
    then show ?thesis using Cons.prems butlast_lines [of l] butlast_lines [of "[]"] by (simp add: join_def)
  next
    case False
    then have "join [CHR 0x0A] (l # ls) = l @ CHR 0x0A # join [CHR 0x0A] ls" by (simp add: join_Cons)
    then show ?thesis using Cons False butlast_lines [of l] by simp
  qed
qed simp

lemma data_lines_read:
  assumes "ls \<noteq> []"
  shows "sr_data r = None \<Longrightarrow> fold read_line (map (\<lambda>l. ''data: '' @ l) ls) r = r\<lparr>sr_data := Some (join [CHR 0x0A] ls)\<rparr>"
    and "sr_data r = Some d \<Longrightarrow> fold read_line (map (\<lambda>l. ''data: '' @ l) ls) r = r\<lparr>sr_data := Some (d @ [CHR 0x0A] @ join [CHR 0x0A] ls)\<rparr>"
proof -
  have one: "read_line (''data: '' @ l) r = r\<lparr>sr_data := Some (case sr_data r of None \<Rightarrow> l | Some d \<Rightarrow> d @ [CHR 0x0A] @ l)\<rparr>" for l r
    by (simp add: read_line_def split_once_def field_value_def split: option.split)
  have more: "sr_data r = Some d \<Longrightarrow> fold read_line (map (\<lambda>l. ''data: '' @ l) ls) r = r\<lparr>sr_data := Some (d @ concat (map (\<lambda>l. CHR 0x0A # l) ls))\<rparr>" for r d ls
    by (induction ls arbitrary: r d) (simp_all add: one del: append_Cons)
  have joined: "l @ concat (map (\<lambda>l. CHR 0x0A # l) ls) = join [CHR 0x0A] (l # ls)" for l ls
    by (induction ls arbitrary: l) (simp_all add: join_def)
  obtain l ls' where ls: "ls = l # ls'" using assms by (cases ls) auto
  show "sr_data r = None \<Longrightarrow> fold read_line (map (\<lambda>l. ''data: '' @ l) ls) r = r\<lparr>sr_data := Some (join [CHR 0x0A] ls)\<rparr>"
    using more [of "read_line (''data: '' @ l) r" l ls'] joined [of l ls'] by (simp add: one ls del: append_Cons)
  show "sr_data r = Some d \<Longrightarrow> fold read_line (map (\<lambda>l. ''data: '' @ l) ls) r = r\<lparr>sr_data := Some (d @ [CHR 0x0A] @ join [CHR 0x0A] ls)\<rparr>"
    using more [of "read_line (''data: '' @ l) r" "d @ [CHR 0x0A] @ l" ls'] joined [of l ls'] by (simp add: one ls del: append_Cons)
qed

text \<open>One frame is one event, whatever lines its data has, as long as no carriage return is among them.\<close>

lemma frame_read:
  assumes "CHR 0x0D \<notin> set dat" "kind = None \<or> kind = Some k" "k \<noteq> []" "\<forall>c \<in> set k. c \<noteq> CHR 0x0D \<and> c \<noteq> CHR 0x0A"
    and "sr_data r = None" "sr_kind r = []"
  shows "fold read_line (butlast (sse_lines (sse_event dat kind None @ s))) r
    = fold read_line (butlast (sse_lines s)) (r\<lparr>sr_events := sr_events r @ [(case kind of None \<Rightarrow> ''message'' | Some k \<Rightarrow> k, dat)]\<rparr>)"
proof -
  define ds where "ds = map (\<lambda>l. ''data: '' @ l) (split_on (CHR 0x0A) dat)"
  let ?es = "case kind of None \<Rightarrow> [] | Some k \<Rightarrow> [''event: '' @ k]"
  have "\<forall>l \<in> set (?es @ ds). CHR 0x0D \<notin> set l \<and> CHR 0x0A \<notin> set l"
  proof
    fix l assume "l \<in> set (?es @ ds)"
    then consider "l = ''event: '' @ k" | x where "l = ''data: '' @ x" "x \<in> set (split_on (CHR 0x0A) dat)"
      using assms(2) by (auto simp: ds_def)
    then show "CHR 0x0D \<notin> set l \<and> CHR 0x0A \<notin> set l"
    proof cases
      case 1
      then show ?thesis using assms(4) by auto
    next
      case 2
      then have "CHR 0x0A \<notin> set x \<and> set x \<subseteq> set dat" using split_lines [of "CHR 0x0A" dat] by blast
      then show ?thesis using assms(1) 2(1) by auto
    qed
  qed
  then have lines: "butlast (sse_lines (sse_event dat kind None @ s)) = (?es @ ds) @ [] # butlast (sse_lines s)"
    using lines_of_join [of "?es @ ds" s] split_lines [of "CHR 0x0A" dat] by (simp add: sse_event_def ds_def [symmetric] del: append_Cons) (simp add: ds_def)
  have kind: "fold read_line ?es r = r\<lparr>sr_kind := (case kind of None \<Rightarrow> [] | Some k \<Rightarrow> k)\<rparr>"
    using assms(6) by (auto simp: read_line_def split_once_def field_value_def split: option.split)
  have "fold read_line ds (r\<lparr>sr_kind := (case kind of None \<Rightarrow> [] | Some k \<Rightarrow> k)\<rparr>)
      = r\<lparr>sr_kind := (case kind of None \<Rightarrow> [] | Some k \<Rightarrow> k), sr_data := Some dat\<rparr>"
    unfolding ds_def using data_lines_read(1) [OF split_lines [THEN conjunct2], of "r\<lparr>sr_kind := (case kind of None \<Rightarrow> [] | Some k \<Rightarrow> k)\<rparr>" "CHR 0x0A" dat] assms(5)
    by (simp add: join_split_on del: append_Cons)
  then have "fold read_line ((?es @ ds) @ [] # butlast (sse_lines s)) r
      = fold read_line (butlast (sse_lines s)) (read_line [] (r\<lparr>sr_kind := (case kind of None \<Rightarrow> [] | Some k \<Rightarrow> k), sr_data := Some dat\<rparr>))"
    using kind by simp
  also have "read_line [] (r\<lparr>sr_kind := (case kind of None \<Rightarrow> [] | Some k \<Rightarrow> k), sr_data := Some dat\<rparr>)
      = r\<lparr>sr_events := sr_events r @ [(case kind of None \<Rightarrow> ''message'' | Some k \<Rightarrow> k, dat)]\<rparr>"
    using assms(2,3,5,6) by (cases r) (auto simp: read_line_def)
  finally show ?thesis unfolding lines .
qed

lemma frames_read:
  assumes "\<forall>t \<in> set ts. CHR 0x0D \<notin> set t" "sr_data r = None" "sr_kind r = []"
  shows "fold read_line (butlast (sse_lines (concat (map (\<lambda>t. sse_event t None None) ts) @ s))) r
    = fold read_line (butlast (sse_lines s)) (r\<lparr>sr_events := sr_events r @ map (Pair ''message'') ts\<rparr>)"
  using assms
proof (induction ts arbitrary: r)
  case (Cons t ts)
  then show ?case using frame_read [of t None "''message''" r] by simp
qed simp

text \<open>A response whose client stays: every write arrives.\<close>

definition arrives :: "(bytes \<Rightarrow> ('w, unit) act) \<Rightarrow> ('w \<Rightarrow> string) \<Rightarrow> bool" where
  "arrives write received \<longleftrightarrow> (\<forall>t w. \<exists>w'. write (encode_utf8 t) w = (Inr (), w') \<and> received w' = received w @ t)"

lemma write_event_arrives:
  "arrives write received \<Longrightarrow> \<exists>w'. write_event write t kind w = (Inr (), w') \<and> received w' = received w @ sse_event t kind None"
  unfolding arrives_def write_event_def by blast

lemma write_chunks_arrive:
  "arrives write received \<Longrightarrow> \<exists>w'. write_chunks dumps write cs w = (Inr (), w')
    \<and> received w' = received w @ concat (map (\<lambda>c. sse_event (sse_text dumps c) None None) cs)"
proof (induction cs arbitrary: w)
  case (Cons c cs)
  obtain w1 where 1: "write_event write (sse_text dumps c) None w = (Inr (), w1)" "received w1 = received w @ sse_event (sse_text dumps c) None None"
    using write_event_arrives [OF Cons.prems] by blast
  obtain w2 where 2: "write_chunks dumps write cs w1 = (Inr (), w2)" "received w2 = received w1 @ concat (map (\<lambda>c. sse_event (sse_text dumps c) None None) cs)"
    using Cons.IH [OF Cons.prems] by blast
  then show ?case using 1 by (simp add: act_bind_def)
qed (simp add: act_return_def)

text \<open>How the iteration ended, as the last event of the response.\<close>

definition last_event :: "(pyval \<Rightarrow> string) \<Rightarrow> exc option \<Rightarrow> string \<times> string" where
  "last_event dumps failure =
     (case failure of
        None \<Rightarrow> (''end'', [])
      | Some e \<Rightarrow> (''error'', case x_istos e of
            Some i \<Rightarrow> sse_error dumps (e_code i) (e_message i)
          | None \<Rightarrow> sse_error dumps (PStr ''stream_error'') (PStr ''Upstream stream failed.'')))"


lemma decode_bytes: "map (\<lambda>b :: 8 word. char_of (unat b)) (encode_utf8 t) = t"
proof -
  have "(char_of (unat (of_nat (of_char c) :: 8 word)) :: char) = c" for c
  proof -
    have "(of_char c :: nat) < 256" by simp
    then show ?thesis by (simp add: unat_of_nat)
  qed
  then show ?thesis by (simp add: encode_utf8_def comp_def)
qed

definition buffer_write :: "bytes \<Rightarrow> (string, unit) act" where
  "buffer_write b w = (Inr (), w @ map (\<lambda>b. char_of (unat b)) b)"


definition http_served :: "'u handler \<Rightarrow> 'u surroundings \<Rightarrow> string \<Rightarrow> bytes option \<Rightarrow> time \<Rightarrow> ('u world, transport_reply list) act" where
  "http_served h u sel att t w =
     (case on_query h u (None :: unit pydantic option) None
             \<lparr>nq_key = fst (split_once (CHR ''?'') sel), nq_params = selector_params sel, nq_attachment = att\<rparr> w of
        None \<Rightarrow> (Inr [], w)
      | Some (r, w') \<Rightarrow> (Inr (case r of None \<Rightarrow> [] | Some (k, b) \<Rightarrow> [OkPayload b]), w'))"

definition guarded_echo :: "unit app_state handler" where
  "guarded_echo = plain_echo\<lparr>h_authorizer := Some (\<lambda>c. (Inr auth_result.Denied, c))\<rparr>"

definition echo_request :: http_request where
  "echo_request = \<lparr>rq_path = ''/echo'', rq_query = [(''x'', ''7'')], rq_body = None, rq_header = (\<lambda>_. None)\<rparr>"

definition echo_route :: http_route where
  "echo_route = \<lparr>hr_method = ''GET'', hr_path = ''/echo'', hr_key_expr = ''svc/echo'', hr_timeout_s = 5, hr_sse = False\<rparr>"

definition refusal :: exc where
  "refusal = raised (unauthorized_error (PStr (''Not authorized for '' @ [CHR 0x27] @ ''svc/echo'' @ [CHR 0x27])) PNone PNone)"

definition echo_gateway :: "unit app_state world gateway" where
  "echo_gateway = \<lparr>gw_get = Some (http_served guarded_echo no_surroundings), gw_str = (\<lambda>_. []), gw_dumps = (\<lambda>_. []), gw_loads = (\<lambda>_. None),
     gw_parse = (\<lambda>_. Some (wire_value guarded_echo (u_uuid no_surroundings) (Inl refusal)))\<rparr>"

lemma http_call_is_local_witness:
  "gateway_call echo_gateway echo_route echo_request world0
    = (Inr (JsonReply 401 (wire_value guarded_echo (u_uuid no_surroundings) (Inl refusal))), world0)"
proof -
  let ?nq = "\<lparr>nq_key = hr_key_expr echo_route, nq_params = selector_params (build_selector (gw_str echo_gateway) (gw_dumps echo_gateway)
      (hr_key_expr echo_route) [(''x'', PStr ''7'')]), nq_attachment = to_attachment (gw_dumps echo_gateway) (http_envelope echo_request)\<rparr>"
  have att: "to_attachment (gw_dumps echo_gateway) (http_envelope echo_request) = None"
    by (simp add: http_envelope_def echo_request_def bearer_def extract_bearer_def correlation_header_def to_attachment_def)
  have cid: "rc_correlation_id (net_context guarded_echo no_surroundings ?nq) = u_uuid no_surroundings"
    by (simp add: net_context_def ingress_context_def att from_attachment_def empty_envelope_def sanitize_correlation_id_def)
  have out: "query_outcome guarded_echo no_surroundings (None :: unit pydantic option) None ?nq world0 = Some (Inl refusal, world0)"
    by (simp add: query_outcome_def net_auth_def guarded_echo_def plain_echo_def echo_handler_def check_authorized_def refusal_def)
  have reg: "h_registry guarded_echo = default_registry" by (simp add: guarded_echo_def plain_echo_def echo_handler_def)
  have code: "er_code (resolve (h_registry guarded_echo) refusal) = PStr ''unauthorized''"
    by (simp add: reg refusal_def resolve_default coded_errors)
  have "serves_http guarded_echo no_surroundings (None :: unit pydantic option) None (http_served guarded_echo no_surroundings)"
    by (auto simp: serves_http_def http_served_def split: option.split)
  moreover have "request_params echo_gateway True echo_request = Inr [(''x'', PStr ''7'')]"
    by (simp add: request_params_def echo_request_def)
  moreover have "\<exists>b. h_serializer guarded_echo (wire_value guarded_echo (u_uuid no_surroundings) (Inl refusal)) = Inr b"
    by (simp add: guarded_echo_def plain_echo_def echo_handler_def json_serializer_def)
  moreover have "outcome_status guarded_echo (Inl refusal) = 401"
    by (simp add: outcome_status_def code CODE_TO_STATUS_def dict_get_def)
  moreover have "is_exception refusal" by (simp add: refusal_def)
  ultimately show ?thesis
    using http_call_is_local [where h = guarded_echo and u = no_surroundings and py = "None :: unit pydantic option" and hints = None
        and fetch = "http_served guarded_echo no_surroundings" and g = echo_gateway and route = echo_route and req = echo_request
        and params = "[(''x'', PStr ''7'')]" and nq = ?nq and w = world0 and out = "Inl refusal" and w' = world0] out cid code
    by (simp add: echo_gateway_def echo_route_def)
qed

section \<open>Readiness\<close>

text \<open>What a check comes to.\<close>

definition healthy :: "exc + pyval \<Rightarrow> bool" where
  "healthy out = (case out of Inr (PDict d) \<Rightarrow> dict_get d ''status'' PNone = PStr ''ok'' | _ \<Rightarrow> False)"

fun outcomes :: "(string \<times> ('w, pyval) act) list \<Rightarrow> 'w \<Rightarrow> (exc + pyval) list" where
  "outcomes [] w = []"
| "outcomes ((n, c) # cs) w = (case c w of (out, w') \<Rightarrow> out # outcomes cs w')"

lemma run_checks_ok:
  "run_checks cs results ok w = (Inr (rs, good), w') \<Longrightarrow> good \<longleftrightarrow> ok \<and> list_all healthy (outcomes cs w)"
proof (induction cs results ok w rule: run_checks.induct)
  case (2 name check cs results ok w)
  then show ?case by (auto simp: healthy_def split: prod.splits sum.splits pyval.splits if_splits)
qed simp

text \<open>A node reports itself ready exactly when it was marked so and every check passed.\<close>

lemma ready_when_healthy:
  "readyz h w = (Inr (JsonReply st v), w') \<Longrightarrow> st = 200 \<longleftrightarrow> hs_ready h \<and> list_all healthy (outcomes (hs_checks h) w)"
  by (auto simp: readyz_def readiness_def act_bind_Inr act_return_def dict_get_def dest!: run_checks_ok split: if_splits)

section \<open>Findings\<close>

text \<open>Frames are split at line feeds only. A chunk of text with carriage returns ends its line early, and what
  follows is read as fields: a producer can forge events, the end of the stream among them.\<close>

lemma carriage_return_forges_events:
  "read_events (sse_event ([CHR ''a'', CHR 0x0D, CHR 0x0D] @ ''event: end'' @ [CHR 0x0D] @ ''data: '') None None)
    = [(''message'', ''a''), (''end'', [])]"
  by code_simp

text \<open>Only an \<open>UnauthorizedError\<close> is answered: an authorizer that says forbidden makes the server fail.\<close>

lemma forbidden_is_a_server_error:
  "reject_unauthorized (Some (\<lambda>c. (Inl (raised (forbidden_error m PNone PNone)), c))) req
    = Inl (raised (forbidden_error m PNone PNone))"
  by (simp add: reject_unauthorized_def check_authorized_def Let_def is_unauthorized_def raised_def forbidden_error_def
      istos_error_init_def)

text \<open>A query parameter named \<open>token\<close> fails the stream after its response has begun.\<close>

lemma token_parameter_fails_the_stream:
  assumes "request_params g False req = Inr params" "''token'' \<in> dkeys params"
  shows "sse_call g stream write end_of_file uuid route req w =
    act_bind (sse_body (gw_dumps g) write end_of_file [] (Some (type_error ''got multiple values for argument''))) (\<lambda>_. act_return None)
      (w\<lparr>w_context := Some (sse_context uuid route req)\<rparr>)"
  using assms by (auto simp: sse_call_def Let_def)

end
