(* ===== verification/Cycles.thy ===== *)
theory Cycles
  imports Prelude
begin

text \<open>
  The search for import cycles (\<open>_find_cycles\<close> of \<open>fitness.py\<close>): Tarjan's algorithm on the graph of
  components. A node is gray while its call runs, and the proof carries the set of gray nodes; what
  is off the stack is closed under edges and cut into its components.
\<close>

section \<open>The algorithm\<close>

text \<open>Successors in the order the set is iterated; a node without an entry has none. The top of the stack is
  its head.\<close>

type_synonym import_graph = "(string, string list) dict"

record tarjan =
  tj_index :: "string \<rightharpoonup> nat"
  tj_low :: "string \<rightharpoonup> nat"
  tj_on_stack :: "string set"
  tj_stack :: "string list"
  tj_counter :: nat
  tj_cycles :: "string list list"

definition tarjan_start :: tarjan where
  "tarjan_start = \<lparr>tj_index = Map.empty, tj_low = Map.empty, tj_on_stack = {}, tj_stack = [], tj_counter = 0, tj_cycles = []\<rparr>"

definition successors :: "import_graph \<Rightarrow> string \<Rightarrow> string list" where
  "successors edges v = dict_get edges v []"

text \<open>\<open>None\<close> for a pop of the empty stack.\<close>

fun pop_scc :: "string \<Rightarrow> string list \<Rightarrow> (string list \<times> string list) option" where
  "pop_scc v [] = None"
| "pop_scc v (w # ws) = (if w = v then Some ([w], ws) else map_option (\<lambda>(scc, rest). (w # scc, rest)) (pop_scc v ws))"

definition enter_node :: "string \<Rightarrow> tarjan \<Rightarrow> tarjan" where
  "enter_node v s =
     s\<lparr>tj_index := (tj_index s)(v \<mapsto> tj_counter s), tj_low := (tj_low s)(v \<mapsto> tj_counter s), tj_counter := tj_counter s + 1,
       tj_stack := v # tj_stack s, tj_on_stack := insert v (tj_on_stack s)\<rparr>"

definition lower :: "string \<Rightarrow> nat \<Rightarrow> tarjan \<Rightarrow> tarjan" where
  "lower v n s = s\<lparr>tj_low := (tj_low s)(v \<mapsto> min (the (tj_low s v)) n)\<rparr>"

fun each_successor :: "(string \<Rightarrow> tarjan \<Rightarrow> tarjan option) \<Rightarrow> string \<Rightarrow> string list \<Rightarrow> tarjan \<Rightarrow> tarjan option" where
  "each_successor connect v [] s = Some s"
| "each_successor connect v (w # ws) s =
     (if tj_index s w = None
      then Option.bind (connect w s) (\<lambda>s1. each_successor connect v ws (lower v (the (tj_low s1 w)) s1))
      else if w \<in> tj_on_stack s then each_successor connect v ws (lower v (the (tj_index s w)) s)
      else each_successor connect v ws s)"

definition leave_node :: "string \<Rightarrow> tarjan \<Rightarrow> tarjan option" where
  "leave_node v s =
     (if tj_low s v = tj_index s v
      then map_option (\<lambda>(scc, rest). s\<lparr>tj_stack := rest, tj_on_stack := tj_on_stack s - set scc,
             tj_cycles := tj_cycles s @ (if length scc > 1 then [sort scc] else [])\<rparr>) (pop_scc v (tj_stack s))
      else Some s)"

text \<open>The depth of the recursion is bounded by the first argument.\<close>

primrec strongconnect :: "nat \<Rightarrow> import_graph \<Rightarrow> string \<Rightarrow> tarjan \<Rightarrow> tarjan option" where
  "strongconnect 0 edges v s = None"
| "strongconnect (Suc n) edges v s =
     Option.bind (each_successor (strongconnect n edges) v (successors edges v) (enter_node v s)) (leave_node v)"

fun connect_all :: "nat \<Rightarrow> import_graph \<Rightarrow> string list \<Rightarrow> tarjan \<Rightarrow> tarjan option" where
  "connect_all n edges [] s = Some s"
| "connect_all n edges (v # vs) s =
     (if tj_index s v = None then Option.bind (strongconnect n edges v s) (connect_all n edges vs)
      else connect_all n edges vs s)"

definition graph_nodes :: "import_graph \<Rightarrow> string list" where
  "graph_nodes edges = remdups (map fst edges @ concat (map snd edges))"

definition find_cycles :: "import_graph \<Rightarrow> string list list option" where
  "find_cycles edges =
     map_option tj_cycles (connect_all (length (graph_nodes edges)) edges (map fst edges) tarjan_start)"

section \<open>Components\<close>

definition edge_rel :: "import_graph \<Rightarrow> (string \<times> string) set" where
  "edge_rel edges = {(v, w). w \<in> set (successors edges v)}"

definition component :: "import_graph \<Rightarrow> string \<Rightarrow> string set" where
  "component edges v = {w. (v, w) \<in> (edge_rel edges)\<^sup>* \<and> (w, v) \<in> (edge_rel edges)\<^sup>*}"

abbreviation idx :: "tarjan \<Rightarrow> string \<Rightarrow> nat" where
  "idx s x \<equiv> the (tj_index s x)"

abbreviation finished :: "tarjan \<Rightarrow> string set" where
  "finished s \<equiv> dom (tj_index s) - set (tj_stack s)"

text \<open>The cycles found so far: the components of the finished nodes that have more than one.\<close>

definition reported :: "import_graph \<Rightarrow> tarjan \<Rightarrow> bool" where
  "reported edges s \<longleftrightarrow> distinct (map set (tj_cycles s)) \<and> (\<forall>c \<in> set (tj_cycles s). sorted c \<and> distinct c)
     \<and> set ` set (tj_cycles s) = {C. \<exists>x \<in> finished s. C = component edges x \<and> 1 < card C}"

definition tarjan_inv :: "import_graph \<Rightarrow> string set \<Rightarrow> tarjan \<Rightarrow> bool" where
  "tarjan_inv edges gray s \<longleftrightarrow>
     tj_on_stack s = set (tj_stack s) \<and> set (tj_stack s) \<subseteq> dom (tj_index s)
     \<and> sorted_wrt (\<lambda>x y. idx s y < idx s x) (tj_stack s) \<and> (\<forall>x \<in> dom (tj_index s). idx s x < tj_counter s)
     \<and> gray \<subseteq> set (tj_stack s)
     \<and> (\<forall>x \<in> dom (tj_index s) - gray. set (successors edges x) \<subseteq> dom (tj_index s))
     \<and> (\<forall>x \<in> finished s. set (successors edges x) \<subseteq> finished s)
     \<and> (\<forall>x \<in> set (tj_stack s). \<forall>y \<in> set (tj_stack s). idx s x \<le> idx s y \<longrightarrow> (x, y) \<in> (edge_rel edges)\<^sup>*)
     \<and> (\<forall>y \<in> set (tj_stack s). \<exists>x \<in> gray. idx s x \<le> idx s y \<and> (y, x) \<in> (edge_rel edges)\<^sup>*)
     \<and> reported edges s"

lemmas tarjan_invD = tarjan_inv_def [THEN iffD1, unfolded conj_assoc]

lemma idx_distinct: "sorted_wrt (\<lambda>x y. f y < (f x :: nat)) xs \<Longrightarrow> distinct xs"
  by (induction xs) auto

text \<open>A closed set keeps what it reaches.\<close>

lemma closed_reaches:
  assumes "(x, y) \<in> (edge_rel edges)\<^sup>*" "x \<in> A" "\<forall>z \<in> A. set (successors edges z) \<subseteq> A"
  shows "y \<in> A"
  using assms(1,2) by (induction rule: rtrancl_induct) (use assms(3) in \<open>auto simp: edge_rel_def\<close>)

lemma pop_scc_spec:
  "v \<notin> set new \<Longrightarrow> pop_scc v (new @ v # rest) = Some (new @ [v], rest)"
  by (induction new) auto

section \<open>The invariant of a call\<close>

lemma tarjan_inv_on_stack: "tarjan_inv edges gray s \<Longrightarrow> tj_on_stack s = set (tj_stack s)"
  and tarjan_inv_dom: "tarjan_inv edges gray s \<Longrightarrow> set (tj_stack s) \<subseteq> dom (tj_index s)"
  and tarjan_inv_sorted: "tarjan_inv edges gray s \<Longrightarrow> sorted_wrt (\<lambda>x y. idx s y < idx s x) (tj_stack s)"
  and tarjan_inv_counter: "tarjan_inv edges gray s \<Longrightarrow> x \<in> dom (tj_index s) \<Longrightarrow> idx s x < tj_counter s"
  and tarjan_inv_gray: "tarjan_inv edges gray s \<Longrightarrow> gray \<subseteq> set (tj_stack s)"
  and tarjan_inv_visited: "tarjan_inv edges gray s \<Longrightarrow> x \<in> dom (tj_index s) - gray \<Longrightarrow> set (successors edges x) \<subseteq> dom (tj_index s)"
  and tarjan_inv_closed: "tarjan_inv edges gray s \<Longrightarrow> x \<in> finished s \<Longrightarrow> set (successors edges x) \<subseteq> finished s"
  and tarjan_inv_up: "tarjan_inv edges gray s \<Longrightarrow> x \<in> set (tj_stack s) \<Longrightarrow> y \<in> set (tj_stack s) \<Longrightarrow> idx s x \<le> idx s y
        \<Longrightarrow> (x, y) \<in> (edge_rel edges)\<^sup>*"
  and tarjan_inv_down: "tarjan_inv edges gray s \<Longrightarrow> y \<in> set (tj_stack s)
        \<Longrightarrow> \<exists>x \<in> gray. idx s x \<le> idx s y \<and> (y, x) \<in> (edge_rel edges)\<^sup>*"
  and tarjan_inv_reported: "tarjan_inv edges gray s \<Longrightarrow> reported edges s"
  unfolding tarjan_inv_def by blast+

lemmas tarjan_invs = tarjan_inv_on_stack tarjan_inv_dom tarjan_inv_sorted tarjan_inv_counter tarjan_inv_gray tarjan_inv_visited
  tarjan_inv_closed tarjan_inv_up tarjan_inv_down tarjan_inv_reported

lemma tarjan_inv_lower [simp]: "tarjan_inv edges gray (lower v n s) \<longleftrightarrow> tarjan_inv edges gray s"
  by (simp add: tarjan_inv_def reported_def lower_def)

lemma idx_kept: "tj_index s \<subseteq>\<^sub>m tj_index s' \<Longrightarrow> x \<in> dom (tj_index s) \<Longrightarrow> idx s' x = idx s x"
  by (simp add: map_le_def)

text \<open>What holds of the stack above \<open>rest\<close> and of the low link of its lowest node \<open>v\<close> while \<open>v\<close> is gray; \<open>done\<close>
  are the successors of \<open>v\<close> seen so far.\<close>

definition linked :: "import_graph \<Rightarrow> string \<Rightarrow> string list \<Rightarrow> string set \<Rightarrow> tarjan \<Rightarrow> bool" where
  "linked edges v rest seen s \<longleftrightarrow>
     (\<exists>new L. tj_stack s = new @ v # rest \<and> tj_low s v = Some L \<and> L \<le> idx s v
        \<and> (\<exists>y \<in> set (tj_stack s). idx s y = L \<and> (v, y) \<in> (edge_rel edges)\<^sup>*)
        \<and> (\<forall>x \<in> set new. \<forall>y \<in> set (successors edges x) \<inter> set rest. L \<le> idx s y)
        \<and> seen \<subseteq> dom (tj_index s) \<and> (\<forall>y \<in> seen \<inter> set rest. L \<le> idx s y))"

text \<open>What a call that returns has done.\<close>

definition connected :: "import_graph \<Rightarrow> string \<Rightarrow> tarjan \<Rightarrow> tarjan \<Rightarrow> bool" where
  "connected edges v s s' \<longleftrightarrow>
     tj_index s \<subseteq>\<^sub>m tj_index s' \<and> v \<in> dom (tj_index s') \<and> (\<forall>x \<in> dom (tj_index s). tj_low s' x = tj_low s x)
     \<and> tj_counter s \<le> idx s' v
     \<and> (\<exists>new L. tj_stack s' = new @ tj_stack s \<and> tj_low s' v = Some L
          \<and> (v \<notin> set (tj_stack s') \<longrightarrow> L = idx s' v)
          \<and> (v \<in> set (tj_stack s') \<longrightarrow> (\<exists>y \<in> set (tj_stack s'). idx s' y = L \<and> (v, y) \<in> (edge_rel edges)\<^sup>*))
          \<and> (\<forall>x \<in> set new. \<forall>y \<in> set (successors edges x) \<inter> set (tj_stack s). L \<le> idx s' y))"


text \<open>What holds between two successors of \<open>v\<close>, whose call began in \<open>s0\<close>.\<close>

definition loop_inv :: "import_graph \<Rightarrow> string set \<Rightarrow> tarjan \<Rightarrow> string \<Rightarrow> string set \<Rightarrow> tarjan \<Rightarrow> bool" where
  "loop_inv edges gray s0 v seen s \<longleftrightarrow>
     tarjan_inv edges (insert v gray) s \<and> linked edges v (tj_stack s0) seen s \<and> tj_index s0 \<subseteq>\<^sub>m tj_index s
     \<and> (\<forall>x \<in> dom (tj_index s0). tj_low s x = tj_low s0 x) \<and> idx s v = tj_counter s0"

definition may_enter :: "import_graph \<Rightarrow> string set \<Rightarrow> string \<Rightarrow> tarjan \<Rightarrow> bool" where
  "may_enter edges gray v s \<longleftrightarrow>
     tarjan_inv edges gray s \<and> v \<notin> dom (tj_index s) \<and> (\<forall>g \<in> gray. (g, v) \<in> (edge_rel edges)\<^sup>*)"

lemma enter_keeps_inv:
  assumes "may_enter edges gray v s"
  shows "tarjan_inv edges (insert v gray) (enter_node v s)"
proof -
  have I: "tarjan_inv edges gray s" and v: "v \<notin> dom (tj_index s)" and g: "\<forall>g \<in> gray. (g, v) \<in> (edge_rel edges)\<^sup>*"
    using assms by (auto simp: may_enter_def)
  note inv = tarjan_invs [OF I]
  have vs: "v \<notin> set (tj_stack s)" using v inv(2) by auto
  have same: "finished (enter_node v s) = finished s" using v by (auto simp: enter_node_def)
  have reach: "(x, v) \<in> (edge_rel edges)\<^sup>*" if "x \<in> set (tj_stack s)" for x
    using inv(9) [OF that] g by (meson rtrancl_trans)
  have ix: "idx (enter_node v s) x = (if x = v then tj_counter s else idx s x)" for x by (simp add: enter_node_def)
  have lt: "x \<in> set (tj_stack s) \<Longrightarrow> idx s x < tj_counter s" for x using inv(2,4) by blast
  have st: "tj_stack (enter_node v s) = v # tj_stack s" by (simp add: enter_node_def)
  show ?thesis
    unfolding tarjan_inv_def same ix
  proof (intro conjI)
    show "sorted_wrt (\<lambda>x y. (if y = v then tj_counter s else idx s y) < (if x = v then tj_counter s else idx s x))
      (tj_stack (enter_node v s))"
    proof -
      have "sorted_wrt (\<lambda>x y. (if y = v then tj_counter s else idx s y) < (if x = v then tj_counter s else idx s x)) (tj_stack s)"
        by (rule sorted_wrt_mono_rel [OF _ inv(3)]) (use vs in auto)
      moreover have "\<forall>y \<in> set (tj_stack s). (if y = v then tj_counter s else idx s y) < tj_counter s"
        using vs lt by metis
      ultimately show ?thesis by (simp only: st sorted_wrt.simps if_True simp_thms)
    qed
    show "\<forall>x \<in> set (tj_stack (enter_node v s)). \<forall>y \<in> set (tj_stack (enter_node v s)).
      (if x = v then tj_counter s else idx s x) \<le> (if y = v then tj_counter s else idx s y) \<longrightarrow> (x, y) \<in> (edge_rel edges)\<^sup>*"
    proof (intro ballI impI)
      fix x y assume h: "x \<in> set (tj_stack (enter_node v s))" "y \<in> set (tj_stack (enter_node v s))"
        "(if x = v then tj_counter s else idx s x) \<le> (if y = v then tj_counter s else idx s y)"
      then have "x = v \<or> x \<in> set (tj_stack s)" "y = v \<or> y \<in> set (tj_stack s)" by (simp_all add: st)
      then consider "x = y" | "y = v" "x \<in> set (tj_stack s)" | "x = v" "y \<noteq> v" "y \<in> set (tj_stack s)"
        | "x \<noteq> v" "y \<noteq> v" "x \<in> set (tj_stack s)" "y \<in> set (tj_stack s)" by metis
      then show "(x, y) \<in> (edge_rel edges)\<^sup>*"
      proof cases
        case 3 then show ?thesis using h(3) lt [OF 3(3)] by simp
      next
        case 4 then show ?thesis using h(3) inv(8) by simp
      qed (use reach in simp_all)
    qed
    show "\<forall>y \<in> set (tj_stack (enter_node v s)). \<exists>x \<in> insert v gray.
      (if x = v then tj_counter s else idx s x) \<le> (if y = v then tj_counter s else idx s y) \<and> (y, x) \<in> (edge_rel edges)\<^sup>*"
    proof
      fix y assume "y \<in> set (tj_stack (enter_node v s))"
      then consider "y = v" | "y \<noteq> v" "y \<in> set (tj_stack s)" unfolding st by auto
      then show "\<exists>x \<in> insert v gray. (if x = v then tj_counter s else idx s x) \<le> (if y = v then tj_counter s else idx s y)
        \<and> (y, x) \<in> (edge_rel edges)\<^sup>*"
      proof cases
        case 2
        then obtain x where "x \<in> gray" "idx s x \<le> idx s y" "(y, x) \<in> (edge_rel edges)\<^sup>*" using inv(9) by blast
        then show ?thesis using 2 inv(5) vs by (intro bexI [of _ x]) auto
      qed auto
    qed
    show "reported edges (enter_node v s)"
      using inv(10) unfolding reported_def same by (simp add: enter_node_def)
    show "\<forall>x \<in> finished s. set (successors edges x) \<subseteq> finished s" using inv(7) by blast
    show "\<forall>x \<in> dom (tj_index (enter_node v s)). (if x = v then tj_counter s else idx s x) < tj_counter (enter_node v s)"
      using inv(4) by (auto simp: enter_node_def less_Suc_eq)
    show "\<forall>x \<in> dom (tj_index (enter_node v s)) - insert v gray. set (successors edges x) \<subseteq> dom (tj_index (enter_node v s))"
      using inv(6) by (fastforce simp: enter_node_def)
  qed (use inv(1,2,5) in \<open>auto simp: enter_node_def\<close>)
qed

lemma enter_starts_loop:
  assumes "may_enter edges gray v s"
  shows "loop_inv edges gray s v {} (enter_node v s)"
proof -
  have "v \<notin> dom (tj_index s)" using assms by (simp add: may_enter_def)
  then show ?thesis
    using enter_keeps_inv [OF assms] unfolding loop_inv_def linked_def
    by (auto simp: enter_node_def map_le_def)
qed


text \<open>A visited successor, on the stack or finished: the low link takes at most its index.\<close>

lemma linkedE:
  assumes "linked edges v rest seen s"
  obtains new L y where "tj_stack s = new @ v # rest" "tj_low s v = Some L" "L \<le> idx s v"
    "y \<in> set (tj_stack s)" "idx s y = L" "(v, y) \<in> (edge_rel edges)\<^sup>*"
    "\<And>x z. x \<in> set new \<Longrightarrow> z \<in> set (successors edges x) \<Longrightarrow> z \<in> set rest \<Longrightarrow> L \<le> idx s z"
    "seen \<subseteq> dom (tj_index s)" "\<And>z. z \<in> seen \<Longrightarrow> z \<in> set rest \<Longrightarrow> L \<le> idx s z"
  using assms unfolding linked_def by blast

lemma edge_relI: "w \<in> set (successors edges v) \<Longrightarrow> (v, w) \<in> edge_rel edges"
  by (simp add: edge_rel_def)

lemma linked_lower:
  assumes l: "linked edges v rest seen s" and w: "w \<in> set (successors edges v)" "w \<in> set (tj_stack s)" "w \<in> dom (tj_index s)"
  shows "linked edges v rest (insert w seen) (lower v (idx s w) s)"
proof -
  from l obtain new L y where p: "tj_stack s = new @ v # rest" "tj_low s v = Some L" "L \<le> idx s v"
    "y \<in> set (tj_stack s)" "idx s y = L" "(v, y) \<in> (edge_rel edges)\<^sup>*"
    "\<And>x z. x \<in> set new \<Longrightarrow> z \<in> set (successors edges x) \<Longrightarrow> z \<in> set rest \<Longrightarrow> L \<le> idx s z"
    "seen \<subseteq> dom (tj_index s)" "\<And>z. z \<in> seen \<Longrightarrow> z \<in> set rest \<Longrightarrow> L \<le> idx s z" by (rule linkedE) blast
  have "\<exists>y \<in> set (tj_stack s). idx s y = min L (idx s w) \<and> (v, y) \<in> (edge_rel edges)\<^sup>*"
  proof (cases "L \<le> idx s w")
    case True then show ?thesis using p(4,5,6) by (intro bexI [of _ y]) (simp_all add: min_absorb1)
  next
    case False then show ?thesis using w(2) edge_relI [OF w(1)] by (intro bexI [of _ w]) (auto simp: min_absorb2)
  qed
  then show ?thesis
    unfolding linked_def using p(1,2,3,8) w(3) p(7,9)
    by (intro exI [of _ new] exI [of _ "min L (idx s w)"]) (simp add: lower_def, blast intro: min.coboundedI1 min.coboundedI2)
qed

lemma loop_lower:
  assumes "loop_inv edges gray s0 v seen s" "linked edges v (tj_stack s0) seen' (lower v n s)" "v \<notin> dom (tj_index s0)"
  shows "loop_inv edges gray s0 v seen' (lower v n s)"
proof -
  have "tj_index (lower v n s) = tj_index s" by (simp add: lower_def)
  moreover have "tj_low (lower v n s) x = tj_low s x" if "x \<in> dom (tj_index s0)" for x
    using that assms(3) by (auto simp: lower_def)
  ultimately show ?thesis using assms(1,2) unfolding loop_inv_def tarjan_inv_lower by simp
qed

lemma loop_on_stack:
  assumes "loop_inv edges gray s0 v seen s" "w \<in> set (successors edges v)" "w \<in> set (tj_stack s)" "v \<notin> dom (tj_index s0)"
  shows "loop_inv edges gray s0 v (insert w seen) (lower v (idx s w) s)"
proof -
  have I: "tarjan_inv edges (insert v gray) s" and l: "linked edges v (tj_stack s0) seen s" using assms(1) by (simp_all add: loop_inv_def)
  have "w \<in> dom (tj_index s)" using tarjan_inv_dom [OF I] assms(3) by blast
  then show ?thesis by (rule loop_lower [OF assms(1) linked_lower [OF l assms(2,3)] assms(4)])
qed

lemma loop_finished:
  assumes "loop_inv edges gray s0 v seen s" "w \<in> finished s"
  shows "loop_inv edges gray s0 v (insert w seen) s"
proof -
  obtain new where "tj_stack s = new @ v # tj_stack s0" using assms(1) unfolding loop_inv_def linked_def by blast
  then have "w \<notin> set (tj_stack s0)" "w \<in> dom (tj_index s)" using assms(2) by auto
  then have "linked edges v (tj_stack s0) (insert w seen) s \<longleftrightarrow> linked edges v (tj_stack s0) seen s"
    unfolding linked_def by (simp add: Int_insert_left)
  then show ?thesis using assms(1) unfolding loop_inv_def by simp
qed

text \<open>A successor the loop visits.\<close>

lemma loop_may_enter:
  assumes "loop_inv edges gray s0 v seen s" "w \<in> set (successors edges v)" "w \<notin> dom (tj_index s)" "\<forall>g \<in> gray. (g, v) \<in> (edge_rel edges)\<^sup>*"
  shows "may_enter edges (insert v gray) w s"
  using assms edge_relI [OF assms(2)] unfolding may_enter_def loop_inv_def
  by (auto intro: rtrancl_into_rtrancl)

lemma loop_visit:
  assumes L: "loop_inv edges gray s0 v seen s" and w: "w \<in> set (successors edges v)" "w \<notin> dom (tj_index s)"
    and I1: "tarjan_inv edges (insert v gray) s1" and c: "connected edges w s s1" and v: "v \<notin> dom (tj_index s0)"
  shows "loop_inv edges gray s0 v (insert w seen) (lower v (the (tj_low s1 w)) s1)"
proof -
  have I: "tarjan_inv edges (insert v gray) s" and l: "linked edges v (tj_stack s0) seen s"
    and m0: "tj_index s0 \<subseteq>\<^sub>m tj_index s" and low0: "\<forall>x \<in> dom (tj_index s0). tj_low s x = tj_low s0 x"
    and v0: "idx s v = tj_counter s0"
    using L by (simp_all add: loop_inv_def)
  from l obtain new L y where p: "tj_stack s = new @ v # tj_stack s0" "tj_low s v = Some L" "L \<le> idx s v"
    "y \<in> set (tj_stack s)" "idx s y = L" "(v, y) \<in> (edge_rel edges)\<^sup>*"
    "\<And>x z. x \<in> set new \<Longrightarrow> z \<in> set (successors edges x) \<Longrightarrow> z \<in> set (tj_stack s0) \<Longrightarrow> L \<le> idx s z"
    "seen \<subseteq> dom (tj_index s)" "\<And>z. z \<in> seen \<Longrightarrow> z \<in> set (tj_stack s0) \<Longrightarrow> L \<le> idx s z" by (rule linkedE) blast
  have vd: "v \<in> dom (tj_index s)" using tarjan_inv_dom [OF I] p(1) by auto
  from c obtain new1 L1 where q: "tj_stack s1 = new1 @ tj_stack s" "tj_low s1 w = Some L1"
    "w \<notin> set (tj_stack s1) \<Longrightarrow> L1 = idx s1 w"
    "w \<in> set (tj_stack s1) \<Longrightarrow> \<exists>y \<in> set (tj_stack s1). idx s1 y = L1 \<and> (w, y) \<in> (edge_rel edges)\<^sup>*"
    "\<And>x z. x \<in> set new1 \<Longrightarrow> z \<in> set (successors edges x) \<Longrightarrow> z \<in> set (tj_stack s) \<Longrightarrow> L1 \<le> idx s1 z"
    and m: "tj_index s \<subseteq>\<^sub>m tj_index s1" and w1: "w \<in> dom (tj_index s1)" "tj_counter s \<le> idx s1 w"
    and low: "\<forall>x \<in> dom (tj_index s). tj_low s1 x = tj_low s x"
    unfolding connected_def by blast
  have old: "x \<in> dom (tj_index s) \<Longrightarrow> idx s1 x = idx s x" for x by (rule idx_kept [OF m])
  have olds: "x \<in> set (tj_stack s) \<Longrightarrow> idx s1 x = idx s x" for x using old tarjan_inv_dom [OF I] by blast
  have wit: "\<exists>y \<in> set (tj_stack s1). idx s1 y = min L L1 \<and> (v, y) \<in> (edge_rel edges)\<^sup>*"
  proof (cases "L \<le> L1")
    case True then show ?thesis using p(4,5,6) q(1) olds [OF p(4)] by (intro bexI [of _ y]) (simp_all add: min_absorb1)
  next
    case False
    have "L1 < tj_counter s" using False p(3) tarjan_inv_counter [OF I vd] by simp
    then have "w \<in> set (tj_stack s1)" using q(3) w1(2) by force
    then obtain z where "z \<in> set (tj_stack s1)" "idx s1 z = L1" "(w, z) \<in> (edge_rel edges)\<^sup>*" using q(4) by blast
    then show ?thesis using False converse_rtrancl_into_rtrancl [OF edge_relI [OF w(1)]] by (intro bexI [of _ z]) auto
  qed
  have sub: "set (tj_stack s0) \<subseteq> set (tj_stack s)" using p(1) by auto
  have domm: "dom (tj_index s) \<subseteq> dom (tj_index s1)" using m by (rule map_le_implies_dom_le)
  have ws: "w \<notin> set (tj_stack s0)" using sub w(2) tarjan_inv_dom [OF I] by blast
  have "linked edges v (tj_stack s0) (insert w seen) (lower v L1 s1)"
    unfolding linked_def
  proof (intro exI conjI)
    show "tj_stack (lower v L1 s1) = (new1 @ new) @ v # tj_stack s0" using q(1) p(1) by (simp add: lower_def)
    show "tj_low (lower v L1 s1) v = Some (min L L1)" using low vd p(2) by (simp add: lower_def)
    show "min L L1 \<le> idx (lower v L1 s1) v" using p(3) old [OF vd] by (simp add: lower_def min.coboundedI1)
    show "\<exists>y \<in> set (tj_stack (lower v L1 s1)). idx (lower v L1 s1) y = min L L1 \<and> (v, y) \<in> (edge_rel edges)\<^sup>*"
      using wit by (simp add: lower_def)
    show "\<forall>x \<in> set (new1 @ new). \<forall>y \<in> set (successors edges x) \<inter> set (tj_stack s0). min L L1 \<le> idx (lower v L1 s1) y"
    proof (intro ballI)
      fix x y assume h: "x \<in> set (new1 @ new)" "y \<in> set (successors edges x) \<inter> set (tj_stack s0)"
      then have ys: "y \<in> set (tj_stack s)" using sub by blast
      from h consider "x \<in> set new1" | "x \<in> set new" by auto
      then show "min L L1 \<le> idx (lower v L1 s1) y"
      proof cases
        case 1 then show ?thesis using q(5) [of x y] h(2) ys by (simp add: lower_def min.coboundedI2)
      next
        case 2 then show ?thesis using p(7) [of x y] h(2) olds [OF ys] by (simp add: lower_def min.coboundedI1)
      qed
    qed
    show "insert w seen \<subseteq> dom (tj_index (lower v L1 s1))" using w1(1) p(8) domm by (auto simp: lower_def)
    show "\<forall>y \<in> insert w seen \<inter> set (tj_stack s0). min L L1 \<le> idx (lower v L1 s1) y"
    proof
      fix y assume "y \<in> insert w seen \<inter> set (tj_stack s0)"
      then have y: "y \<in> seen" "y \<in> set (tj_stack s0)" using ws by auto
      then show "min L L1 \<le> idx (lower v L1 s1) y" using p(9) [OF y] olds [of y] sub by (auto simp: lower_def min.coboundedI1)
    qed
  qed
  moreover have "tj_index s0 \<subseteq>\<^sub>m tj_index s1" using m0 m by (rule map_le_trans)
  moreover have "\<forall>x \<in> dom (tj_index s0). tj_low (lower v L1 s1) x = tj_low s0 x"
  proof
    fix x assume x: "x \<in> dom (tj_index s0)"
    then have "x \<noteq> v" "x \<in> dom (tj_index s)" using v map_le_implies_dom_le [OF m0] by auto
    then show "tj_low (lower v L1 s1) x = tj_low s0 x" using x low low0 by (simp add: lower_def)
  qed
  ultimately show ?thesis using I1 q(2) v0 old [OF vd] unfolding loop_inv_def tarjan_inv_lower by (auto simp: lower_def)
qed


section \<open>The end of a call\<close>

lemma linked_kept_low:
  assumes L: "loop_inv edges gray s0 v (set (successors edges v)) s" and g: "gray \<subseteq> set (tj_stack s0)" and v: "v \<notin> dom (tj_index s0)"
    and "tj_low s v \<noteq> tj_index s v"
  shows "tarjan_inv edges gray s \<and> connected edges v s0 s"
proof -
  have I: "tarjan_inv edges (insert v gray) s" and l: "linked edges v (tj_stack s0) (set (successors edges v)) s"
    and m0: "tj_index s0 \<subseteq>\<^sub>m tj_index s" and low0: "\<forall>x \<in> dom (tj_index s0). tj_low s x = tj_low s0 x"
    and v0: "idx s v = tj_counter s0"
    using L by (simp_all add: loop_inv_def)
  note inv = tarjan_invs [OF I]
  from l obtain new L y where p: "tj_stack s = new @ v # tj_stack s0" "tj_low s v = Some L" "L \<le> idx s v"
    "y \<in> set (tj_stack s)" "idx s y = L" "(v, y) \<in> (edge_rel edges)\<^sup>*"
    "\<And>x z. x \<in> set new \<Longrightarrow> z \<in> set (successors edges x) \<Longrightarrow> z \<in> set (tj_stack s0) \<Longrightarrow> L \<le> idx s z"
    "set (successors edges v) \<subseteq> dom (tj_index s)"
    "\<And>z. z \<in> set (successors edges v) \<Longrightarrow> z \<in> set (tj_stack s0) \<Longrightarrow> L \<le> idx s z" by (rule linkedE) blast
  have vs: "v \<in> set (tj_stack s)" using p(1) by simp
  then obtain i where "tj_index s v = Some i" using inv(2) by auto
  then have less: "L < idx s v" using assms(4) p(2,3) by auto
  obtain x where x: "x \<in> insert v gray" "idx s x \<le> L" "(y, x) \<in> (edge_rel edges)\<^sup>*" using inv(9) [OF p(4)] p(5) by blast
  then have xg: "x \<in> gray" and vx: "(v, x) \<in> (edge_rel edges)\<^sup>*" using less p(6) by auto
  have "tarjan_inv edges gray s"
    unfolding tarjan_inv_def
  proof (intro conjI)
    show "\<forall>x \<in> dom (tj_index s) - gray. set (successors edges x) \<subseteq> dom (tj_index s)" using inv(6) p(8) by blast
    show "\<forall>y \<in> set (tj_stack s). \<exists>x \<in> gray. idx s x \<le> idx s y \<and> (y, x) \<in> (edge_rel edges)\<^sup>*"
    proof
      fix z assume "z \<in> set (tj_stack s)"
      then obtain u where u: "u \<in> insert v gray" "idx s u \<le> idx s z" "(z, u) \<in> (edge_rel edges)\<^sup>*" using inv(9) by blast
      show "\<exists>x \<in> gray. idx s x \<le> idx s z \<and> (z, x) \<in> (edge_rel edges)\<^sup>*"
      proof (cases "u = v")
        case True then show ?thesis using xg x(2) less u(2,3) vx by (intro bexI [of _ x]) (auto intro: rtrancl_trans)
      next
        case False then show ?thesis using u by blast
      qed
    qed
  qed (use inv in auto)
  moreover have "connected edges v s0 s"
    unfolding connected_def
  proof (intro conjI exI)
    show "tj_stack s = (new @ [v]) @ tj_stack s0" using p(1) by simp
    show "v \<in> set (tj_stack s) \<longrightarrow> (\<exists>y \<in> set (tj_stack s). idx s y = L \<and> (v, y) \<in> (edge_rel edges)\<^sup>*)" using p(4-6) by blast
    show "\<forall>x \<in> set (new @ [v]). \<forall>y \<in> set (successors edges x) \<inter> set (tj_stack s0). L \<le> idx s y" using p(7,9) by auto
  qed (use m0 vs inv(2) low0 v0 p(2) in auto)
  ultimately show ?thesis ..
qed


text \<open>Where the low link of \<open>v\<close> is its own index, what lies above it is one component.\<close>

lemma linked_own_low:
  assumes L: "loop_inv edges gray s0 v (set (successors edges v)) s" and g: "gray \<subseteq> set (tj_stack s0)" "\<forall>g \<in> gray. (g, v) \<in> (edge_rel edges)\<^sup>*"
    and "tj_low s v = tj_index s v"
  obtains new where "tj_stack s = new @ v # tj_stack s0" "distinct (tj_stack s)" "set (new @ [v]) = component edges v"
    "\<forall>x \<in> set (new @ [v]) \<union> finished s. set (successors edges x) \<subseteq> set (new @ [v]) \<union> finished s"
proof -
  have I: "tarjan_inv edges (insert v gray) s" and l: "linked edges v (tj_stack s0) (set (successors edges v)) s"
    using L by (simp_all add: loop_inv_def)
  note inv = tarjan_invs [OF I]
  from l obtain new L y where p: "tj_stack s = new @ v # tj_stack s0" "tj_low s v = Some L" "L \<le> idx s v"
    "y \<in> set (tj_stack s)" "idx s y = L" "(v, y) \<in> (edge_rel edges)\<^sup>*"
    "\<And>x z. x \<in> set new \<Longrightarrow> z \<in> set (successors edges x) \<Longrightarrow> z \<in> set (tj_stack s0) \<Longrightarrow> L \<le> idx s z"
    "set (successors edges v) \<subseteq> dom (tj_index s)"
    "\<And>z. z \<in> set (successors edges v) \<Longrightarrow> z \<in> set (tj_stack s0) \<Longrightarrow> L \<le> idx s z" by (rule linkedE) blast
  have d: "distinct (tj_stack s)" using inv(3) by (rule idx_distinct)
  have Lv: "L = idx s v" using assms(4) p(2) by (metis option.sel)
  have below: "idx s z < idx s v" if "z \<in> set (tj_stack s0)" for z using inv(3) p(1) that by (simp add: sorted_wrt_append)
  have above: "idx s v \<le> idx s z" if "z \<in> set (new @ [v])" for z
    using inv(3) p(1) that by (auto simp: sorted_wrt_append less_imp_le)
  have cl: "set (successors edges x) \<subseteq> set (new @ [v]) \<union> finished s" if x: "x \<in> set (new @ [v])" for x
  proof
    fix z assume z: "z \<in> set (successors edges x)"
    have "z \<in> dom (tj_index s)"
    proof (cases "x = v")
      case True then show ?thesis using z p(8) by blast
    next
      case False
      have "x \<notin> gray" using x g(1) d p(1) by auto
      moreover have "x \<in> dom (tj_index s)" using x inv(2) p(1) by auto
      ultimately show ?thesis using inv(6) [of x] False z by blast
    qed
    moreover have "z \<notin> set (tj_stack s0)"
    proof
      assume zs: "z \<in> set (tj_stack s0)"
      have "x \<in> set new \<or> x = v" using x by auto
      then have "L \<le> idx s z" using p(7) [OF _ z zs] p(9) z zs by blast
      then show False using below [OF zs] Lv by simp
    qed
    ultimately show "z \<in> set (new @ [v]) \<union> finished s" using p(1) by auto
  qed
  then have closed: "\<forall>x \<in> set (new @ [v]) \<union> finished s. set (successors edges x) \<subseteq> set (new @ [v]) \<union> finished s"
    using inv(7) by blast
  have "set (new @ [v]) = component edges v"
  proof (intro set_eqI iffI)
    fix x assume x: "x \<in> set (new @ [v])"
    then have xs: "x \<in> set (tj_stack s)" using p(1) by auto
    have "(v, x) \<in> (edge_rel edges)\<^sup>*" using inv(8) [of v x] above [OF x] xs p(1) by simp
    moreover obtain u where "u \<in> insert v gray" "(x, u) \<in> (edge_rel edges)\<^sup>*" using inv(9) [OF xs] by blast
    then have "(x, v) \<in> (edge_rel edges)\<^sup>*" using g(2) by (auto intro: rtrancl_trans)
    ultimately show "x \<in> component edges v" by (simp add: component_def)
  next
    fix x assume "x \<in> component edges v"
    then have r: "(v, x) \<in> (edge_rel edges)\<^sup>*" "(x, v) \<in> (edge_rel edges)\<^sup>*" by (simp_all add: component_def)
    have "x \<in> set (new @ [v]) \<union> finished s" using closed_reaches [OF r(1) _ closed] by simp
    moreover have "x \<notin> finished s"
      using closed_reaches [OF r(2), of "finished s"] inv(7) p(1) by auto
    ultimately show "x \<in> set (new @ [v])" by blast
  qed
  then show thesis using that p(1) d closed by blast
qed


lemma component_of_member: "x \<in> component edges v \<Longrightarrow> component edges x = component edges v"
  by (auto simp: component_def intro: rtrancl_trans)

lemma component_self: "x \<in> component edges x"
  by (simp add: component_def)

lemma reported_more:
  assumes r: "reported edges s" and C: "distinct scc" "set scc = component edges v" "set scc \<inter> finished s = {}"
    and fin: "finished s1 = finished s \<union> set scc"
    and cyc: "tj_cycles s1 = tj_cycles s @ (if length scc > 1 then [sort scc] else [])"
  shows "reported edges s1"
proof -
  have rep: "set ` set (tj_cycles s) = {C. \<exists>x \<in> finished s. C = component edges x \<and> 1 < card C}"
    and dis: "distinct (map set (tj_cycles s))" and srt: "\<forall>c \<in> set (tj_cycles s). sorted c \<and> distinct c"
    using r by (simp_all add: reported_def)
  have fresh: "set scc \<notin> set ` set (tj_cycles s)"
  proof
    assume "set scc \<in> set ` set (tj_cycles s)"
    then obtain x where "x \<in> finished s" "set scc = component edges x" unfolding rep by blast
    then show False using C(3) component_self by blast
  qed
  have all: "component edges x = set scc" if "x \<in> set scc" for x
    using that C(2) component_of_member by simp
  have card: "length scc > 1 \<longleftrightarrow> 1 < card (set scc)" using distinct_card [OF C(1)] by simp
  have "v \<in> set scc" using C(2) component_self by simp
  then have "{C. \<exists>x \<in> finished s1. C = component edges x \<and> 1 < card C}
      = set ` set (tj_cycles s) \<union> (if length scc > 1 then {set scc} else {})"
    unfolding rep fin using all card by auto
  then show ?thesis
    unfolding reported_def cyc using dis srt fresh C(1) by (auto simp: image_iff)
qed

lemma leave_pops:
  assumes L: "loop_inv edges gray s0 v (set (successors edges v)) s" and g: "gray \<subseteq> set (tj_stack s0)" "\<forall>g \<in> gray. (g, v) \<in> (edge_rel edges)\<^sup>*"
    and v: "v \<notin> dom (tj_index s0)" and own: "tj_low s v = tj_index s v"
  obtains s1 where "leave_node v s = Some s1" "tarjan_inv edges gray s1" "connected edges v s0 s1"
proof -
  have I: "tarjan_inv edges (insert v gray) s" and m0: "tj_index s0 \<subseteq>\<^sub>m tj_index s"
    and low0: "\<forall>x \<in> dom (tj_index s0). tj_low s x = tj_low s0 x" and v0: "idx s v = tj_counter s0"
    using L by (simp_all add: loop_inv_def)
  note inv = tarjan_invs [OF I]
  obtain new where st: "tj_stack s = new @ v # tj_stack s0" and d: "distinct (tj_stack s)" and comp: "set (new @ [v]) = component edges v"
    and cl: "\<forall>x \<in> set (new @ [v]) \<union> finished s. set (successors edges x) \<subseteq> set (new @ [v]) \<union> finished s"
    by (rule linked_own_low [OF L g own])
  define scc where "scc = new @ [v]"
  define s1 where "s1 = s\<lparr>tj_stack := tj_stack s0, tj_on_stack := tj_on_stack s - set scc,
    tj_cycles := tj_cycles s @ (if length scc > 1 then [sort scc] else [])\<rparr>"
  have "v \<notin> set new" using d st by auto
  then have res: "leave_node v s = Some s1"
    using own pop_scc_spec [of v new "tj_stack s0"] by (simp add: leave_node_def st s1_def scc_def)
  have sccs: "set scc \<subseteq> dom (tj_index s)" using inv(2) st by (auto simp: scc_def)
  have fin: "finished s1 = finished s \<union> set scc"
    using d st sccs by (auto simp: s1_def scc_def)
  have same: "tj_index s1 = tj_index s" "tj_stack s1 = tj_stack s0" "tj_counter s1 = tj_counter s" "tj_low s1 = tj_low s"
    by (simp_all add: s1_def)
  have below: "idx s z < idx s v" if "z \<in> set (tj_stack s0)" for z using inv(3) st that by (simp add: sorted_wrt_append)
  have sub: "set (tj_stack s0) \<subseteq> set (tj_stack s)" using st by auto
  have "tarjan_inv edges gray s1"
    unfolding tarjan_inv_def same
  proof (intro conjI)
    show "tj_on_stack s1 = set (tj_stack s0)" using inv(1) d st by (auto simp: s1_def scc_def)
    show "sorted_wrt (\<lambda>x y. idx s y < idx s x) (tj_stack s0)" using inv(3) st by (simp add: sorted_wrt_append)
    show "\<forall>x \<in> dom (tj_index s) - gray. set (successors edges x) \<subseteq> dom (tj_index s)"
    proof
      fix x assume x: "x \<in> dom (tj_index s) - gray"
      show "set (successors edges x) \<subseteq> dom (tj_index s)"
      proof (cases "x = v")
        case True
        then have "set (successors edges x) \<subseteq> set scc \<union> finished s" using cl unfolding scc_def by simp
        then show ?thesis using sccs by blast
      next
        case False then show ?thesis using inv(6) x by blast
      qed
    qed
    show "\<forall>x \<in> dom (tj_index s) - set (tj_stack s0). set (successors edges x) \<subseteq> dom (tj_index s) - set (tj_stack s0)"
      using cl fin unfolding same scc_def by (simp add: Un_commute)
    show "\<forall>y \<in> set (tj_stack s0). \<exists>x \<in> gray. idx s x \<le> idx s y \<and> (y, x) \<in> (edge_rel edges)\<^sup>*"
    proof
      fix y assume y: "y \<in> set (tj_stack s0)"
      obtain x where x: "x \<in> insert v gray" "idx s x \<le> idx s y" "(y, x) \<in> (edge_rel edges)\<^sup>*" using inv(9) sub y by blast
      then have "x \<noteq> v" using below [OF y] by auto
      then show "\<exists>x \<in> gray. idx s x \<le> idx s y \<and> (y, x) \<in> (edge_rel edges)\<^sup>*" using x by blast
    qed
    show "\<forall>x \<in> set (tj_stack s0). \<forall>y \<in> set (tj_stack s0). idx s x \<le> idx s y \<longrightarrow> (x, y) \<in> (edge_rel edges)\<^sup>*"
      using inv(8) sub by blast
    show "reported edges s1"
    proof (rule reported_more [OF inv(10), of scc v s1])
      show "set scc \<inter> finished s = {}" using st by (auto simp: scc_def)
    qed (use d st comp fin in \<open>auto simp: scc_def s1_def\<close>)
  qed (use inv g(1) sub in auto)
  moreover have "connected edges v s0 s1"
    unfolding connected_def same
  proof (intro conjI exI)
    show "tj_stack s0 = [] @ tj_stack s0" by simp
    show "tj_low s v = Some (idx s v)" using own sccs by (auto simp: scc_def)
    show "v \<in> set (tj_stack s0) \<longrightarrow> (\<exists>y \<in> set (tj_stack s0). idx s y = idx s v \<and> (v, y) \<in> (edge_rel edges)\<^sup>*)" using d st by auto
  qed (use m0 sccs low0 v0 in \<open>auto simp: scc_def\<close>)
  ultimately show thesis using that res by blast
qed

lemma leave_ends_call:
  assumes L: "loop_inv edges gray s0 v (set (successors edges v)) s" and m: "may_enter edges gray v s0"
  obtains s1 where "leave_node v s = Some s1" "tarjan_inv edges gray s1" "connected edges v s0 s1"
proof (cases "tj_low s v = tj_index s v")
  case True
  have "gray \<subseteq> set (tj_stack s0)" "\<forall>g \<in> gray. (g, v) \<in> (edge_rel edges)\<^sup>*" "v \<notin> dom (tj_index s0)"
    using m tarjan_inv_gray [of edges gray s0] unfolding may_enter_def by blast+
  then show ?thesis using leave_pops [OF L _ _ _ True] that by blast
next
  case False
  have "gray \<subseteq> set (tj_stack s0)" "v \<notin> dom (tj_index s0)"
    using m tarjan_inv_gray [of edges gray s0] unfolding may_enter_def by blast+
  then have "tarjan_inv edges gray s \<and> connected edges v s0 s" using linked_kept_low [OF L _ _ False] by blast
  then show ?thesis using that False by (simp add: leave_node_def)
qed

section \<open>The search\<close>

definition unseen :: "import_graph \<Rightarrow> tarjan \<Rightarrow> nat" where
  "unseen edges s = card (set (graph_nodes edges) - dom (tj_index s))"

lemma unseen_mono: "tj_index s \<subseteq>\<^sub>m tj_index s' \<Longrightarrow> unseen edges s' \<le> unseen edges s"
  unfolding unseen_def by (rule card_mono) (auto dest: map_le_implies_dom_le)

lemma unseen_enter: "v \<in> set (graph_nodes edges) \<Longrightarrow> v \<notin> dom (tj_index s) \<Longrightarrow> unseen edges s = Suc (unseen edges (enter_node v s))"
proof -
  assume a: "v \<in> set (graph_nodes edges)" "v \<notin> dom (tj_index s)"
  have "set (graph_nodes edges) - dom (tj_index (enter_node v s)) = (set (graph_nodes edges) - dom (tj_index s)) - {v}"
    by (auto simp: enter_node_def)
  then show ?thesis using a card_Suc_Diff1 [of "set (graph_nodes edges) - dom (tj_index s)" v] unfolding unseen_def by simp
qed

lemma successors_in_graph: "w \<in> set (successors edges v) \<Longrightarrow> w \<in> set (graph_nodes edges)"
  by (cases "map_of edges v") (auto simp: successors_def dict_get_def graph_nodes_def dest!: map_of_SomeD intro: bexI [rotated])

lemma successors_loop:
  assumes rec: "\<And>gray v s. may_enter edges gray v s \<Longrightarrow> v \<in> set (graph_nodes edges) \<Longrightarrow> unseen edges s \<le> n
      \<Longrightarrow> \<exists>s1. connect v s = Some s1 \<and> tarjan_inv edges gray s1 \<and> connected edges v s s1"
    and L: "loop_inv edges gray s0 v seen s" "set ws \<subseteq> set (successors edges v)" "unseen edges s \<le> n" "may_enter edges gray v s0"
  shows "\<exists>s1. each_successor connect v ws s = Some s1 \<and> loop_inv edges gray s0 v (seen \<union> set ws) s1"
  using L
proof (induction ws arbitrary: s seen)
  case (Cons w ws)
  have w: "w \<in> set (successors edges v)" "set ws \<subseteq> set (successors edges v)" using Cons.prems(2) by auto
  have v: "v \<notin> dom (tj_index s0)" and g: "\<forall>g \<in> gray. (g, v) \<in> (edge_rel edges)\<^sup>*" using Cons.prems(4) by (simp_all add: may_enter_def)
  have I: "tarjan_inv edges (insert v gray) s" using Cons.prems(1) by (simp add: loop_inv_def)
  have u: "seen \<union> set (w # ws) = insert w seen \<union> set ws" by auto
  consider "w \<notin> dom (tj_index s)" | "w \<in> dom (tj_index s)" "w \<in> set (tj_stack s)" | "w \<in> finished s" by blast
  then show ?case
  proof cases
    case 1
    obtain s1 where s1: "connect w s = Some s1" "tarjan_inv edges (insert v gray) s1" "connected edges w s s1"
      using rec [OF loop_may_enter [OF Cons.prems(1) w(1) 1 g] successors_in_graph [OF w(1)] Cons.prems(3)] by blast
    let ?s = "lower v (the (tj_low s1 w)) s1"
    have "tj_index s \<subseteq>\<^sub>m tj_index ?s" using s1(3) by (simp add: connected_def lower_def)
    then have "unseen edges ?s \<le> n" using unseen_mono [of s ?s edges] Cons.prems(3) by simp
    then show ?thesis
      using Cons.IH [OF loop_visit [OF Cons.prems(1) w(1) 1 s1(2,3) v] w(2) _ Cons.prems(4)] 1 s1(1) unfolding u by (auto simp: domIff)
  next
    case 2
    have "unseen edges (lower v (idx s w) s) \<le> n" using Cons.prems(3) by (simp add: unseen_def lower_def)
    then show ?thesis
      using Cons.IH [OF loop_on_stack [OF Cons.prems(1) w(1) 2(2) v] w(2) _ Cons.prems(4)] 2 tarjan_inv_on_stack [OF I] unfolding u
      by auto
  next
    case 3
    then show ?thesis
      using Cons.IH [OF loop_finished [OF Cons.prems(1) 3] w(2) Cons.prems(3,4)] tarjan_inv_on_stack [OF I] unfolding u by auto
  qed
qed simp

lemma strongconnect_correct:
  assumes "may_enter edges gray v s" "v \<in> set (graph_nodes edges)" "unseen edges s \<le> n"
  shows "\<exists>s1. strongconnect n edges v s = Some s1 \<and> tarjan_inv edges gray s1 \<and> connected edges v s s1"
  using assms
proof (induction n arbitrary: gray v s)
  case 0
  then show ?case using unseen_enter [of v edges s] by (simp add: may_enter_def)
next
  case (Suc n)
  have "unseen edges (enter_node v s) \<le> n" using Suc.prems unseen_enter [of v edges s] by (simp add: may_enter_def)
  then obtain s1 where s1: "each_successor (strongconnect n edges) v (successors edges v) (enter_node v s) = Some s1"
    "loop_inv edges gray s v ({} \<union> set (successors edges v)) s1"
    using successors_loop [OF Suc.IH enter_starts_loop [OF Suc.prems(1)] subset_refl _ Suc.prems(1)] by blast
  obtain s2 where "leave_node v s1 = Some s2" "tarjan_inv edges gray s2" "connected edges v s s2"
    using leave_ends_call [OF _ Suc.prems(1), of s1] s1(2) by auto
  then show ?case using s1(1) by simp
qed

lemma connect_all_correct:
  assumes "tarjan_inv edges {} s" "set vs \<subseteq> set (graph_nodes edges)" "unseen edges s \<le> n"
  shows "\<exists>s1. connect_all n edges vs s = Some s1 \<and> tarjan_inv edges {} s1 \<and> tj_index s \<subseteq>\<^sub>m tj_index s1 \<and> set vs \<subseteq> dom (tj_index s1)"
  using assms
proof (induction vs arbitrary: s)
  case (Cons v vs)
  show ?case
  proof (cases "tj_index s v")
    case None
    then have "may_enter edges {} v s" using Cons.prems(1) by (auto simp: may_enter_def)
    then obtain s1 where s1: "strongconnect n edges v s = Some s1" "tarjan_inv edges {} s1" "connected edges v s s1"
      using strongconnect_correct [of edges "{}" v s n] Cons.prems by auto
    have m: "tj_index s \<subseteq>\<^sub>m tj_index s1" "v \<in> dom (tj_index s1)" using s1(3) by (auto simp: connected_def)
    obtain s2 where "connect_all n edges vs s1 = Some s2" "tarjan_inv edges {} s2" "tj_index s1 \<subseteq>\<^sub>m tj_index s2" "set vs \<subseteq> dom (tj_index s2)"
      using Cons.IH [OF s1(2)] Cons.prems(2,3) unseen_mono [OF m(1), of edges] by auto
    then show ?thesis using None s1(1) m map_le_trans map_le_implies_dom_le [of "tj_index s1" "tj_index s2"] by auto
  next
    case (Some i)
    then show ?thesis
      using Cons.IH [OF Cons.prems(1)] Cons.prems(2,3) by (fastforce dest: map_le_implies_dom_le)
  qed
qed simp

lemma start_inv: "tarjan_inv edges {} tarjan_start"
  by (simp add: tarjan_inv_def tarjan_start_def reported_def)

lemma cyclic_has_entry:
  assumes "1 < card (component edges x)"
  shows "x \<in> fst ` set edges"
proof -
  obtain y where y: "y \<in> component edges x" "y \<noteq> x"
    using assms by (metis One_nat_def card.empty card_insert_le_m1 equals0D is_singletonI' is_singleton_altdef less_irrefl not_less_zero component_self)
  then have "(x, y) \<in> (edge_rel edges)\<^sup>*" by (simp add: component_def)
  then obtain z where "(x, z) \<in> edge_rel edges" using y(2) by (metis converse_rtranclE)
  then show ?thesis
    by (cases "map_of edges x") (auto simp: edge_rel_def successors_def dict_get_def dest!: map_of_SomeD intro: rev_image_eqI)
qed

lemma find_cycles_correct:
  "\<exists>cs. find_cycles edges = Some cs \<and> distinct (map set cs) \<and> (\<forall>c \<in> set cs. sorted c \<and> distinct c)
     \<and> set ` set cs = {C. \<exists>x. C = component edges x \<and> 1 < card C}"
proof -
  have "set (map fst edges) \<subseteq> set (graph_nodes edges)" by (auto simp: graph_nodes_def)
  moreover have "unseen edges tarjan_start \<le> length (graph_nodes edges)"
    by (simp add: unseen_def tarjan_start_def card_length)
  ultimately obtain s where s: "connect_all (length (graph_nodes edges)) edges (map fst edges) tarjan_start = Some s"
    "tarjan_inv edges {} s" "set (map fst edges) \<subseteq> dom (tj_index s)"
    using connect_all_correct [OF start_inv, of "map fst edges" edges] by blast
  have st: "tj_stack s = []" using tarjan_inv_down [OF s(2)] by (metis empty_iff last_in_set)
  have r: "reported edges s" by (rule tarjan_inv_reported [OF s(2)])
  have "{C. \<exists>x \<in> finished s. C = component edges x \<and> 1 < card C} = {C. \<exists>x. C = component edges x \<and> 1 < card C}"
    using s(3) st cyclic_has_entry by fastforce
  then show ?thesis using r s(1) unfolding find_cycles_def reported_def by auto
qed

end
