(* ===== verification/Fitness.thy ===== *)
theory Fitness
  imports Cycles PyText
begin

text \<open>
  The architecture metrics of \<open>fitness.py\<close>: what one parsed file contributes to its component, the
  fold over the files of a package, the components with their zones, and the report. A file is its path below the
  package, its lines and its tree; the tree keeps of Python's \<open>ast\<close> the nodes the analysis distinguishes.
\<close>

section \<open>Components\<close>

record component_metrics =
  cm_name :: string
  cm_efferent :: nat
  cm_afferent :: nat
  cm_abstract :: nat
  cm_concrete :: nat
  cm_loc :: nat
  cm_modules :: nat

definition main_sequence_tolerance :: rat where "main_sequence_tolerance = 1 / 2"
definition pain_loc :: nat where "pain_loc = 300"
definition pain_ca :: nat where "pain_ca = 4"
definition god_module_loc :: nat where "god_module_loc = 800"

definition instability :: "component_metrics \<Rightarrow> rat" where
  "instability c = (let total = cm_efferent c + cm_afferent c
                    in if total \<noteq> 0 then of_nat (cm_efferent c) / of_nat total else 0)"

definition abstractness :: "component_metrics \<Rightarrow> rat" where
  "abstractness c = (let total = cm_abstract c + cm_concrete c
                     in if total \<noteq> 0 then of_nat (cm_abstract c) / of_nat total else 0)"

definition sequence_distance :: "component_metrics \<Rightarrow> rat" where
  "sequence_distance c = \<bar>abstractness c + instability c - 1\<bar>"

datatype zone = Balanced | Uselessness | Pain | Leaf

definition zone_of :: "component_metrics \<Rightarrow> zone" where
  "zone_of c =
     (if sequence_distance c \<le> main_sequence_tolerance then Balanced
      else if abstractness c + instability c > 1 then Uselessness
      else if cm_loc c \<ge> pain_loc \<and> cm_afferent c \<ge> pain_ca then Pain
      else Leaf)"

record report =
  rp_package :: string
  rp_components :: "component_metrics list"
  rp_cycles :: "string list list"
  rp_god_modules :: "(string \<times> nat) list"

definition mean_distance :: "report \<Rightarrow> rat" where
  "mean_distance r = (if rp_components r \<noteq> [] then sum_list (map sequence_distance (rp_components r)) / of_nat (length (rp_components r))
                      else 0)"

section \<open>The package\<close>

text \<open>What \<open>find_package\<close> reads of the directory: the packages found by \<open>*/__init__.py\<close> below \<open>src\<close> and below the
  directory itself, \<open>None\<close> where it is no directory.\<close>

record project_dir =
  pj_path :: string
  pj_name :: string
  pj_is_file :: bool
  pj_has_init :: bool
  pj_src :: "string list option"
  pj_top :: "string list option"

datatype package_place = ThisDirectory | BelowSrc string | BelowTop string

fun place_name :: "project_dir \<Rightarrow> package_place \<Rightarrow> string" where
  "place_name p ThisDirectory = pj_name p"
| "place_name p (BelowSrc n) = n"
| "place_name p (BelowTop n) = n"

definition candidates :: "project_dir \<Rightarrow> package_place list" where
  "candidates p =
     (case pj_src p of
        Some (n # ns) \<Rightarrow> map BelowSrc (n # ns)
      | _ \<Rightarrow> (case pj_top p of Some ns \<Rightarrow> map BelowTop ns | None \<Rightarrow> []))"

definition find_package :: "(string \<Rightarrow> string) \<Rightarrow> project_dir \<Rightarrow> string option \<Rightarrow> (string \<times> package_place) res" where
  "find_package py_repr p package =
     (if pj_is_file p then Inl (ValueError (pj_path p @ '' is a file; pass a project or package directory''))
      else if pj_has_init p then Inr (pj_name p, ThisDirectory)
      else
        (let cs = candidates p in
         if package \<noteq> None \<and> package \<noteq> Some [] then
           (case filter (\<lambda>c. place_name p c = the package) cs of
              c # _ \<Rightarrow> Inr (the package, c)
            | [] \<Rightarrow> Inl (ValueError (''package '' @ py_repr (the package) @ '' not found under '' @ pj_path p)))
         else
           (case cs of
              [] \<Rightarrow> Inl (ValueError (''no importable package found under '' @ pj_path p))
            | [c] \<Rightarrow> Inr (place_name p c, c)
            | _ \<Rightarrow> Inl (ValueError (''multiple packages found ('' @ join '', '' (sort (map (place_name p) cs))
                          @ ''); pass --package to choose'')))))"

section \<open>Trees\<close>

datatype py_expr =
    ExprName string
  | ExprAttribute py_expr string
  | ExprSubscript py_expr
  | ExprOther

text \<open>A statement has its line number and those of the expressions in it. \<open>Compound\<close> is any other statement, with
  the statements nested in it.\<close>

type_synonym span = "nat \<times> nat list"

datatype py_stmt =
    ClassDef span "py_expr list" "py_stmt list"
  | FunctionDef span "py_expr list" "py_stmt list"
  | Import span "string list"
  | ImportFrom span nat "string option"
  | If span py_expr "py_stmt list" "py_stmt list"
  | Assign span "py_expr list" py_expr
  | AnnAssign span "py_expr option"
  | Compound span "py_stmt list"

fun stmt_span :: "py_stmt \<Rightarrow> span" where
  "stmt_span (ClassDef sp bases body) = sp"
| "stmt_span (FunctionDef sp decorators body) = sp"
| "stmt_span (Import sp modules) = sp"
| "stmt_span (ImportFrom sp level md) = sp"
| "stmt_span (If sp test body orelse) = sp"
| "stmt_span (Assign sp targets value) = sp"
| "stmt_span (AnnAssign sp value) = sp"
| "stmt_span (Compound sp body) = sp"

abbreviation lineno :: "py_stmt \<Rightarrow> nat" where
  "lineno n \<equiv> fst (stmt_span n)"

fun child_stmts :: "py_stmt \<Rightarrow> py_stmt list" where
  "child_stmts (ClassDef sp bases body) = body"
| "child_stmts (FunctionDef sp decorators body) = body"
| "child_stmts (If sp test body orelse) = body @ orelse"
| "child_stmts (Compound sp body) = body"
| "child_stmts n = []"

lemma child_stmts_size: "sum_list (map (\<lambda>m. Suc (size m)) (child_stmts n)) < Suc (size n)"
  by (cases n) (simp_all add: size_list_conv_sum_list sum_list_Suc)

text \<open>\<open>ast.walk\<close>: breadth first, from a queue.\<close>

function walk :: "py_stmt list \<Rightarrow> py_stmt list" where
  "walk [] = []"
| "walk (n # ns) = n # walk (ns @ child_stmts n)"
  by pat_completeness auto
termination
  by (relation "measure (\<lambda>ns. sum_list (map (\<lambda>m. Suc (size m)) ns))") (use child_stmts_size in auto)

text \<open>The name of a name or of an attribute, and the empty string of anything else.\<close>

fun expr_name :: "py_expr \<Rightarrow> string" where
  "expr_name (ExprName n) = n"
| "expr_name (ExprAttribute e n) = n"
| "expr_name e = []"

fun base_names :: "py_expr list \<Rightarrow> string list" where
  "base_names [] = []"
| "base_names (ExprName n # es) = n # base_names es"
| "base_names (ExprAttribute e n # es) = n # base_names es"
| "base_names (_ # es) = base_names es"

definition abstract_bases :: "string list" where
  "abstract_bases = [''Protocol'', ''ABC'', ''ABCMeta'', ''TypedDict'']"

fun abstract_method :: "py_stmt \<Rightarrow> bool" where
  "abstract_method (FunctionDef sp decorators body) = (\<exists>d \<in> set decorators. expr_name d = ''abstractmethod'')"
| "abstract_method _ = False"

definition is_abstract :: "py_expr list \<Rightarrow> py_stmt list \<Rightarrow> bool" where
  "is_abstract bases body \<longleftrightarrow> set (base_names bases) \<inter> set abstract_bases \<noteq> {} \<or> (\<exists>m \<in> set body. abstract_method m)"

fun alias_value :: "py_stmt \<Rightarrow> py_expr option" where
  "alias_value (Assign sp [ExprName n] value) = Some value"
| "alias_value (AnnAssign sp (Some value)) = Some value"
| "alias_value _ = None"

fun callable_subscript :: "py_expr option \<Rightarrow> bool" where
  "callable_subscript (Some (ExprSubscript base)) = (expr_name base = ''Callable'')"
| "callable_subscript _ = False"

definition callable_aliases :: "py_stmt list \<Rightarrow> nat" where
  "callable_aliases body = length (filter (\<lambda>n. callable_subscript (alias_value n)) body)"

section \<open>Imports\<close>

definition in_package :: "string \<Rightarrow> string \<Rightarrow> bool" where
  "in_package pkg dotted \<longleftrightarrow> dotted = pkg \<or> starts_with dotted (pkg @ ''.'')"

text \<open>\<open>rel\<close> is the path of the file below the package, by its parts.\<close>

fun imported_modules :: "py_stmt \<Rightarrow> string list \<Rightarrow> string \<Rightarrow> string list" where
  "imported_modules (Import sp modules) rel pkg = filter (in_package pkg) modules"
| "imported_modules (ImportFrom sp level md) rel pkg =
     (if level = 0 then
        (case md of
           Some m \<Rightarrow> if m \<noteq> [] \<and> in_package pkg m then [m] else []
         | None \<Rightarrow> [])
      else
        (let pkg_parts = pkg # butlast rel; up = level - 1 in
         if up \<le> length pkg_parts then
           (let anchor = take (length pkg_parts - up) pkg_parts;
                dotted = join ''.'' (anchor @ (case md of Some m \<Rightarrow> if m \<noteq> [] then [m] else [] | None \<Rightarrow> []))
            in if in_package pkg dotted then [dotted] else [])
         else []))"
| "imported_modules _ rel pkg = []"

definition component_of_module :: "string \<Rightarrow> string \<Rightarrow> string option" where
  "component_of_module dotted pkg =
     (let tail = drop (length pkg + 1) dotted in if tail = [] then None else Some (hd (split_on CHR ''.'' tail)))"

definition stem :: "string \<Rightarrow> string" where
  "stem name = (if ends_with name ''.py'' \<and> length name > 3 then take (length name - 3) name else name)"

definition component_of_file :: "string list \<Rightarrow> string" where
  "component_of_file rel = (if length rel > 1 then hd rel else stem (last rel))"

text \<open>The lines of the bodies of \<open>if TYPE_CHECKING\<close>.\<close>

fun type_checking_body :: "py_stmt \<Rightarrow> py_stmt list" where
  "type_checking_body (If sp test body orelse) = (if expr_name test = ''TYPE_CHECKING'' then body else [])"
| "type_checking_body _ = []"

definition type_checking_lines :: "py_stmt list \<Rightarrow> nat set" where
  "type_checking_lines tree =
     (\<Union>n \<in> set (walk tree). \<Union>st \<in> set (type_checking_body n). \<Union>sub \<in> set (walk [st]). insert (fst (stmt_span sub)) (set (snd (stmt_span sub))))"

section \<open>The analysis\<close>

text \<open>A file: its path below the package, its lines, and its tree, \<open>None\<close> where it does not decode or parse.\<close>

record source_file =
  sf_rel :: "string list"
  sf_lines :: "string list"
  sf_tree :: "py_stmt list option"

record analysis =
  an_abstract :: "(string, nat) dict"
  an_concrete :: "(string, nat) dict"
  an_loc :: "(string, nat) dict"
  an_modules :: "(string, nat) dict"
  an_edges :: import_graph
  an_gods :: "(string \<times> nat) list"

definition no_analysis :: analysis where
  "no_analysis = \<lparr>an_abstract = [], an_concrete = [], an_loc = [], an_modules = [], an_edges = [], an_gods = []\<rparr>"

definition bump :: "string \<Rightarrow> nat \<Rightarrow> (string, nat) dict \<Rightarrow> (string, nat) dict" where
  "bump c n d = AList.update c (dict_get d c 0 + n) d"

text \<open>\<open>edges[c].add(t)\<close>; a set is the list of its members in the order they came.\<close>

definition add_edge :: "string \<Rightarrow> string \<Rightarrow> import_graph \<Rightarrow> import_graph" where
  "add_edge c t e = (let ts = dict_get e c [] in AList.update c (if t \<in> set ts then ts else ts @ [t]) e)"

definition add_targets :: "string \<Rightarrow> string \<Rightarrow> string list \<Rightarrow> import_graph \<Rightarrow> import_graph" where
  "add_targets pkg own modules e =
     fold (\<lambda>dotted e. case component_of_module dotted pkg of
         Some t \<Rightarrow> if t \<noteq> [] \<and> t \<noteq> own then add_edge own t e else e
       | None \<Rightarrow> e) modules e"

definition analyze_node :: "string \<Rightarrow> string list \<Rightarrow> nat set \<Rightarrow> py_stmt \<Rightarrow> analysis \<Rightarrow> analysis" where
  "analyze_node pkg rel tc n a =
     (let own = component_of_file rel in
      case n of
        ClassDef sp bases body \<Rightarrow>
          if is_abstract bases body then a\<lparr>an_abstract := bump own 1 (an_abstract a)\<rparr>
          else a\<lparr>an_concrete := bump own 1 (an_concrete a)\<rparr>
      | Import sp modules \<Rightarrow>
          if lineno n \<in> tc then a else a\<lparr>an_edges := add_targets pkg own (imported_modules n rel pkg) (an_edges a)\<rparr>
      | ImportFrom sp level md \<Rightarrow>
          if lineno n \<in> tc then a else a\<lparr>an_edges := add_targets pkg own (imported_modules n rel pkg) (an_edges a)\<rparr>
      | _ \<Rightarrow> a)"

definition file_loc :: "source_file \<Rightarrow> nat" where
  "file_loc f = length (filter (\<lambda>l. strip l \<noteq> []) (sf_lines f))"

definition dotted_name :: "string \<Rightarrow> string list \<Rightarrow> string" where
  "dotted_name pkg rel = pkg @ ''.'' @ join ''.'' (butlast rel @ [stem (last rel)])"

definition analyze_file :: "string \<Rightarrow> source_file \<Rightarrow> analysis \<Rightarrow> analysis" where
  "analyze_file pkg f a =
     (if sf_rel f = [''__init__.py''] then a
      else case sf_tree f of
        None \<Rightarrow> a
      | Some tree \<Rightarrow>
          (let own = component_of_file (sf_rel f); n = file_loc f;
               a1 = a\<lparr>an_loc := bump own n (an_loc a), an_modules := bump own 1 (an_modules a),
                      an_abstract := bump own 0 (an_abstract a), an_concrete := bump own 0 (an_concrete a),
                      an_edges := AList.update own (dict_get (an_edges a) own []) (an_edges a),
                      an_gods := an_gods a @ (if n > god_module_loc then [(dotted_name pkg (sf_rel f), n)] else [])\<rparr>;
               a2 = a1\<lparr>an_abstract := bump own (callable_aliases tree) (an_abstract a1)\<rparr>
           in fold (analyze_node pkg (sf_rel f) (type_checking_lines tree)) (walk tree) a2))"

text \<open>\<open>afferent.setdefault(t, set()).add(src)\<close>.\<close>

definition afferent_edges :: "import_graph \<Rightarrow> import_graph" where
  "afferent_edges edges =
     fold (\<lambda>(src, targets) d. fold (\<lambda>t. add_edge t src) targets d) edges (map (\<lambda>(c, _). (c, [])) edges)"

definition metrics_of :: "analysis \<Rightarrow> import_graph \<Rightarrow> string \<Rightarrow> component_metrics" where
  "metrics_of a afferent c =
     \<lparr>cm_name = c, cm_efferent = length (dict_get (an_edges a) c []), cm_afferent = length (dict_get afferent c []),
      cm_abstract = dict_get (an_abstract a) c 0, cm_concrete = dict_get (an_concrete a) c 0,
      cm_loc = dict_get (an_loc a) c 0, cm_modules = dict_get (an_modules a) c 0\<rparr>"

definition component_names :: "analysis \<Rightarrow> string list" where
  "component_names a =
     sorted_list_of_set (dkeys (an_loc a) \<union> dkeys (an_edges a) \<union> dkeys (afferent_edges (an_edges a)))"

definition carries_signal :: "component_metrics \<Rightarrow> bool" where
  "carries_signal c \<longleftrightarrow> cm_loc c \<noteq> 0 \<or> cm_abstract c \<noteq> 0 \<or> cm_concrete c \<noteq> 0 \<or> cm_efferent c \<noteq> 0 \<or> cm_afferent c \<noteq> 0"

text \<open>\<open>sort\<close> with \<open>reverse=True\<close> keeps the order of equal keys.\<close>

definition analyze :: "string \<Rightarrow> source_file list \<Rightarrow> report option" where
  "analyze pkg files =
     (let a = fold (analyze_file pkg) (sort_key sf_rel files) no_analysis;
          components = filter carries_signal (map (metrics_of a (afferent_edges (an_edges a))) (component_names a))
      in map_option (\<lambda>cycles.
           \<lparr>rp_package = pkg, rp_components = sort_key (\<lambda>c. - sequence_distance c) components, rp_cycles = cycles,
            rp_god_modules = sort_key (\<lambda>g. - int (snd g)) (an_gods a)\<rparr>) (find_cycles (an_edges a)))"


section \<open>The metrics\<close>

lemma ratio_range: "0 \<le> (of_nat a / of_nat (a + b) :: rat) \<and> (of_nat a / of_nat (a + b) :: rat) \<le> 1"
  by (cases "a + b = 0") (simp_all add: divide_le_eq_1 del: of_nat_add)

lemma instability_range: "0 \<le> instability c \<and> instability c \<le> 1"
  using ratio_range [of "cm_efferent c" "cm_afferent c"] by (simp add: instability_def Let_def)

lemma abstractness_range: "0 \<le> abstractness c \<and> abstractness c \<le> 1"
  using ratio_range [of "cm_abstract c" "cm_concrete c"] by (simp add: abstractness_def Let_def)

lemma distance_range: "0 \<le> sequence_distance c \<and> sequence_distance c \<le> 1"
  using instability_range [of c] abstractness_range [of c] by (auto simp: sequence_distance_def)

lemma unstable_iff: "instability c = 1 \<longleftrightarrow> cm_efferent c \<noteq> 0 \<and> cm_afferent c = 0"
proof (cases "cm_efferent c + cm_afferent c = 0")
  case False
  then have "instability c = 1 \<longleftrightarrow> (of_nat (cm_efferent c) :: rat) = of_nat (cm_efferent c + cm_afferent c)"
    by (simp add: instability_def Let_def del: of_nat_add)
  also have "\<dots> \<longleftrightarrow> cm_afferent c = 0" by (simp only: of_nat_eq_iff) simp
  finally show ?thesis using False by auto
qed (simp add: instability_def)

lemma uselessness_iff: "zone_of c = Uselessness \<longleftrightarrow> abstractness c + instability c > 3 / 2"
  using instability_range [of c] abstractness_range [of c]
  by (auto simp: zone_of_def sequence_distance_def main_sequence_tolerance_def abs_if)

lemma pain_iff:
  "zone_of c = Pain \<longleftrightarrow> abstractness c + instability c < 1 / 2 \<and> 300 \<le> cm_loc c \<and> 4 \<le> cm_afferent c"
  using instability_range [of c] abstractness_range [of c]
  by (auto simp: zone_of_def sequence_distance_def main_sequence_tolerance_def pain_loc_def pain_ca_def abs_if)

lemma mean_distance_range: "0 \<le> mean_distance r \<and> mean_distance r \<le> 1"
proof -
  have "sum_list (map sequence_distance cs) \<le> of_nat (length cs) \<and> 0 \<le> sum_list (map sequence_distance cs)" for cs
    by (induction cs) (use distance_range in \<open>auto simp: add_mono add_nonneg_nonneg\<close>)
  then show ?thesis by (auto simp: mean_distance_def divide_le_eq_1)
qed

section \<open>The walk\<close>

definition child_rel :: "(py_stmt \<times> py_stmt) set" where
  "child_rel = {(n, m). m \<in> set (child_stmts n)}"

lemma walk_reaches: "set (walk ns) = child_rel\<^sup>* `` set ns"
proof (induction ns rule: walk.induct)
  case (2 n ns)
  have "child_rel\<^sup>* `` set (n # ns) = insert n (child_rel\<^sup>* `` set (ns @ child_stmts n))"
    by (auto simp: child_rel_def elim: converse_rtranclE intro: converse_rtrancl_into_rtrancl)
  then show ?case using 2 by simp
qed simp

section \<open>The import relation\<close>

definition analysed :: "source_file \<Rightarrow> bool" where
  "analysed f \<longleftrightarrow> sf_rel f \<noteq> [''__init__.py''] \<and> sf_tree f \<noteq> None"

definition node_targets :: "string \<Rightarrow> string list \<Rightarrow> py_stmt \<Rightarrow> string set" where
  "node_targets pkg rel n =
     {t. t \<noteq> [] \<and> t \<noteq> component_of_file rel \<and> (\<exists>d \<in> set (imported_modules n rel pkg). component_of_module d pkg = Some t)}"

definition file_imports :: "string \<Rightarrow> source_file \<Rightarrow> string set" where
  "file_imports pkg f =
     (\<Union>n \<in> {n \<in> set (walk (the (sf_tree f))). lineno n \<notin> type_checking_lines (the (sf_tree f))}. node_targets pkg (sf_rel f) n)"

text \<open>One component imports another where an analysed file of it does.\<close>

definition component_imports :: "string \<Rightarrow> source_file list \<Rightarrow> (string \<times> string) set" where
  "component_imports pkg files = {(c, t). \<exists>f \<in> set files. analysed f \<and> component_of_file (sf_rel f) = c \<and> t \<in> file_imports pkg f}"

lemma edge_rel_iff: "(v, w) \<in> edge_rel e \<longleftrightarrow> w \<in> set (dict_get e v [])"
  by (simp add: edge_rel_def successors_def)

lemma edge_rel_add_edge [simp]: "edge_rel (add_edge c t e) = insert (c, t) (edge_rel e)"
  by (auto simp: edge_rel_iff add_edge_def Let_def dict_get_update split: if_splits)

lemma edge_rel_touch [simp]: "edge_rel (AList.update c (dict_get e c []) e) = edge_rel e"
  by (auto simp: edge_rel_iff dict_get_update split: if_splits)

lemma edge_rel_add_targets:
  "edge_rel (add_targets pkg own ms e) = edge_rel e
     \<union> {own} \<times> {t. t \<noteq> [] \<and> t \<noteq> own \<and> (\<exists>d \<in> set ms. component_of_module d pkg = Some t)}"
proof (induction ms arbitrary: e)
  case (Cons m ms)
  have "add_targets pkg own (m # ms) e = add_targets pkg own ms (add_targets pkg own [m] e)" by (simp add: add_targets_def)
  moreover have "edge_rel (add_targets pkg own [m] e) = edge_rel e
      \<union> {own} \<times> {t. t \<noteq> [] \<and> t \<noteq> own \<and> component_of_module m pkg = Some t}"
    by (auto simp: add_targets_def split: option.splits)
  ultimately show ?case using Cons.IH by auto
qed (simp add: add_targets_def)

lemma edge_rel_analyze_node:
  "edge_rel (an_edges (analyze_node pkg rel tc n a)) = edge_rel (an_edges a)
     \<union> {component_of_file rel} \<times> (if lineno n \<in> tc then {} else node_targets pkg rel n)"
  by (cases n) (auto simp: analyze_node_def Let_def edge_rel_add_targets node_targets_def)

lemma edge_rel_analyze_nodes:
  "edge_rel (an_edges (fold (analyze_node pkg rel tc) ns a)) = edge_rel (an_edges a)
     \<union> {component_of_file rel} \<times> (\<Union>n \<in> {n \<in> set ns. lineno n \<notin> tc}. node_targets pkg rel n)"
  by (induction ns arbitrary: a) (auto simp: edge_rel_analyze_node)

lemma edge_rel_analyze_file:
  "edge_rel (an_edges (analyze_file pkg f a)) = edge_rel (an_edges a)
     \<union> (if analysed f then {component_of_file (sf_rel f)} \<times> file_imports pkg f else {})"
  by (auto simp: analyze_file_def analysed_def file_imports_def edge_rel_analyze_nodes Let_def split: option.splits)

lemma edge_rel_analyze_files:
  "edge_rel (an_edges (fold (analyze_file pkg) fs a)) = edge_rel (an_edges a) \<union> component_imports pkg fs"
  by (induction fs arbitrary: a) (auto simp: edge_rel_analyze_file component_imports_def)

text \<open>The components that import one another, directly or through others.\<close>

definition mutual :: "(string \<times> string) set \<Rightarrow> string \<Rightarrow> string set" where
  "mutual R x = {y. (x, y) \<in> R\<^sup>* \<and> (y, x) \<in> R\<^sup>*}"

text \<open>C37: The reported cycles are exactly the sets of two or more components that import one another, directly or
  through others, by what the files of the package import outside type checking; each is reported once.\<close>

theorem analysis_finds_cycles:
  "\<exists>r. analyze pkg files = Some r \<and> distinct (map set (rp_cycles r))
     \<and> set ` set (rp_cycles r) = {C. \<exists>x. C = mutual (component_imports pkg files) x \<and> 1 < card C}"
proof -
  define a where "a = fold (analyze_file pkg) (sort_key sf_rel files) no_analysis"
  have "edge_rel (an_edges no_analysis) = {}" by (auto simp: no_analysis_def edge_rel_iff dict_get_def)
  then have rel: "edge_rel (an_edges a) = component_imports pkg files"
    unfolding a_def edge_rel_analyze_files by (simp add: component_imports_def)
  obtain cs where "find_cycles (an_edges a) = Some cs" "distinct (map set cs)"
    "set ` set cs = {C. \<exists>x. C = component (an_edges a) x \<and> 1 < card C}"
    using find_cycles_correct by blast
  then show ?thesis unfolding analyze_def a_def [symmetric] component_def rel mutual_def by (simp add: Let_def)
qed


section \<open>Couplings balance\<close>

definition edges_ok :: "import_graph \<Rightarrow> bool" where
  "edges_ok e \<longleftrightarrow> dict_ok e \<and> (\<forall>c. distinct (dict_get e c []))"

lemma edges_ok_add_edge [simp]: "edges_ok e \<Longrightarrow> edges_ok (add_edge c t e)"
  by (auto simp: edges_ok_def add_edge_def Let_def dict_get_update)

lemma edges_ok_touch [simp]: "edges_ok e \<Longrightarrow> edges_ok (AList.update c (dict_get e c []) e)"
  by (auto simp: edges_ok_def dict_get_update)

lemma edges_ok_add_targets [simp]: "edges_ok e \<Longrightarrow> edges_ok (add_targets pkg own ms e)"
  unfolding add_targets_def by (induction ms arbitrary: e) (auto split: option.splits)

lemma edges_ok_analyze_node [simp]: "edges_ok (an_edges a) \<Longrightarrow> edges_ok (an_edges (analyze_node pkg rel tc n a))"
  by (cases n) (simp_all add: analyze_node_def Let_def)

lemma edges_ok_analyze_nodes [simp]: "edges_ok (an_edges a) \<Longrightarrow> edges_ok (an_edges (fold (analyze_node pkg rel tc) ns a))"
  by (induction ns arbitrary: a) simp_all

lemma edges_ok_analyze_file [simp]: "edges_ok (an_edges a) \<Longrightarrow> edges_ok (an_edges (analyze_file pkg f a))"
  by (simp add: analyze_file_def Let_def split: option.splits)

lemma edges_ok_analyze_files: "edges_ok (an_edges (fold (analyze_file pkg) fs no_analysis))"
proof -
  have "edges_ok (an_edges a) \<Longrightarrow> edges_ok (an_edges (fold (analyze_file pkg) fs a))" for a
    by (induction fs arbitrary: a) simp_all
  then show ?thesis by (simp add: no_analysis_def edges_ok_def dict_get_def)
qed

lemma edge_count: "edges_ok e \<Longrightarrow> length (dict_get e c []) = card {t. (c, t) \<in> edge_rel e}"
  by (simp add: edges_ok_def edge_rel_iff distinct_card)

lemma afferent_inner: "edge_rel (fold (\<lambda>t. add_edge t src) ts d) = edge_rel d \<union> set ts \<times> {src}"
  by (induction ts arbitrary: d) auto

lemma afferent_inner_ok: "edges_ok d \<Longrightarrow> edges_ok (fold (\<lambda>t. add_edge t src) ts d)"
  by (induction ts arbitrary: d) simp_all

lemma no_edges: "dict_get (map (\<lambda>(c, _). (c, [])) e) v [] = []"
  by (induction e) (auto simp: dict_get_def)

lemma afferent_edges_rel:
  assumes "dict_ok e"
  shows "edge_rel (afferent_edges e) = (edge_rel e)\<inverse>"
proof -
  have "edge_rel (fold (\<lambda>(src, targets) d. fold (\<lambda>t. add_edge t src) targets d) es d)
      = edge_rel d \<union> {(t, src). \<exists>ts. (src, ts) \<in> set es \<and> t \<in> set ts}" for es d
    by (induction es arbitrary: d) (auto simp: afferent_inner)
  moreover have "edge_rel (map (\<lambda>(c, _). (c, [])) e) = {}" by (auto simp: edge_rel_iff no_edges)
  moreover have "{(t, src). \<exists>ts. (src, ts) \<in> set e \<and> t \<in> set ts} = (edge_rel e)\<inverse>"
  proof -
    have "(\<exists>ts. map_of e s = Some ts \<and> t \<in> set ts) \<longleftrightarrow> t \<in> set (dict_get e s [])" for s t
      by (cases "map_of e s") (simp_all add: dict_get_def)
    then show ?thesis by (auto simp: edge_rel_iff in_set_dict [OF assms])
  qed
  ultimately show ?thesis unfolding afferent_edges_def by simp
qed

lemma afferent_edges_ok:
  assumes "dict_ok e"
  shows "edges_ok (afferent_edges e)"
proof -
  have "edges_ok d \<Longrightarrow> edges_ok (fold (\<lambda>(src, targets) d. fold (\<lambda>t. add_edge t src) targets d) es d)" for es d
    by (induction es arbitrary: d) (auto simp: afferent_inner_ok)
  moreover have "map fst (map (\<lambda>(c, _). (c, [])) e) = map fst e" by auto
  then have "edges_ok (map (\<lambda>(c, _). (c, [])) e)" unfolding edges_ok_def no_edges using assms by (metis distinct.simps(1))
  ultimately show ?thesis unfolding afferent_edges_def by blast
qed

lemma relation_counts:
  assumes "finite N" "R \<subseteq> N \<times> N"
  shows "(\<Sum>c \<in> N. card {t. (c, t) \<in> R}) = (\<Sum>c \<in> N. card {s. (s, c) \<in> R})"
proof -
  have fin: "finite {t. (c, t) \<in> R}" "finite {s. (s, c) \<in> R}" for c
    by (rule finite_subset [OF _ assms(1)], use assms(2) in auto)+
  have "card R = (\<Sum>c \<in> N. card {t. (c, t) \<in> R})"
  proof -
    have "R = (SIGMA c:N. {t. (c, t) \<in> R})" using assms(2) by auto
    then show ?thesis using card_SigmaI [OF assms(1), of "\<lambda>c. {t. (c, t) \<in> R}"] fin(1) by simp
  qed
  moreover have "card (R\<inverse>) = (\<Sum>c \<in> N. card {s. (s, c) \<in> R})"
  proof -
    have "R\<inverse> = (SIGMA c:N. {s. (s, c) \<in> R})" using assms(2) by auto
    then show ?thesis using card_SigmaI [OF assms(1), of "\<lambda>c. {s. (s, c) \<in> R}"] fin(2) by simp
  qed
  ultimately show ?thesis by (simp add: card_inverse)
qed

lemma sum_list_filter_zero: "(\<And>x. x \<in> set xs \<Longrightarrow> \<not> P x \<Longrightarrow> f x = (0 :: nat)) \<Longrightarrow> sum_list (map f (filter P xs)) = sum_list (map f xs)"
  by (induction xs) auto

lemma sum_list_sort_key: "sum_list (map f (sort_key k xs)) = (sum_list (map f xs) :: nat)"
  by (metis mset_map mset_sort sum_mset_sum_list)

lemma couplings_balance:
  assumes "analyze pkg files = Some r"
  shows "sum_list (map cm_efferent (rp_components r)) = sum_list (map cm_afferent (rp_components r))"
proof -
  define a where "a = fold (analyze_file pkg) (sort_key sf_rel files) no_analysis"
  let ?e = "an_edges a" and ?aff = "afferent_edges (an_edges a)"
  have ok: "edges_ok ?e" unfolding a_def by (rule edges_ok_analyze_files)
  then have d: "dict_ok ?e" by (simp add: edges_ok_def)
  define N where "N = dkeys (an_loc a) \<union> dkeys ?e \<union> dkeys ?aff"
  have N: "finite N" by (simp add: N_def)
  have keys: "v \<in> dkeys e" if "(v, w) \<in> edge_rel e" for v w e
    using that by (cases "map_of e v") (auto simp: edge_rel_iff dict_get_def dest: map_of_keysD)
  have "(v, w) \<in> N \<times> N" if "(v, w) \<in> edge_rel ?e" for v w
    using keys [OF that] keys [of w v ?aff] that by (auto simp: N_def afferent_edges_rel [OF d])
  then have sub: "edge_rel ?e \<subseteq> N \<times> N" by auto
  have tot: "sum_list (map f (map (metrics_of a ?aff) (component_names a))) = (\<Sum>c \<in> N. f (metrics_of a ?aff c))"
    for f :: "component_metrics \<Rightarrow> nat"
    using N by (simp add: component_names_def N_def [symmetric] sum_list_distinct_conv_sum_set o_def)
  have rc: "rp_components r = sort_key (\<lambda>c. - sequence_distance c) (filter carries_signal (map (metrics_of a ?aff) (component_names a)))"
    using assms by (auto simp: analyze_def a_def [symmetric] Let_def)
  have all: "sum_list (map f (rp_components r)) = (\<Sum>c \<in> N. f (metrics_of a ?aff c))"
    if "f = cm_efferent \<or> f = cm_afferent" for f :: "component_metrics \<Rightarrow> nat"
    unfolding rc sum_list_sort_key using that by (subst sum_list_filter_zero) (auto simp: carries_signal_def tot simp del: map_map)
  have "(\<Sum>c \<in> N. cm_efferent (metrics_of a ?aff c)) = (\<Sum>c \<in> N. card {t. (c, t) \<in> edge_rel ?e})"
    by (simp add: metrics_of_def edge_count [OF ok])
  moreover have "(\<Sum>c \<in> N. cm_afferent (metrics_of a ?aff c)) = (\<Sum>c \<in> N. card {s. (s, c) \<in> edge_rel ?e})"
    by (simp add: metrics_of_def edge_count [OF afferent_edges_ok [OF d]] afferent_edges_rel [OF d])
  ultimately show ?thesis using relation_counts [OF N sub] all by simp
qed

section \<open>Imports that are not counted\<close>

text \<open>\<open>from pkg import errors\<close>, or \<open>from . import errors\<close> at the top: the module named is the package itself, which
  belongs to no component.\<close>

lemma package_import_counts_nothing:
  "component_of_module pkg pkg = None" "analyze_node pkg rel tc (ImportFrom sp 0 (Some pkg)) a = a"
  by (simp_all add: component_of_module_def analyze_node_def add_targets_def in_package_def Let_def)

text \<open>A relative import inside a file of component \<open>c\<close> that goes up one level names the package.\<close>

lemma sibling_import_resolves:
  "m \<noteq> [] \<Longrightarrow> imported_modules (ImportFrom sp 2 (Some m)) [c, f] pkg = [pkg @ ''.'' @ m]"
  by (simp add: Let_def join_def in_package_def starts_with_def)

lemma sibling_component:
  "CHR ''.'' \<notin> set m \<Longrightarrow> m \<noteq> [] \<Longrightarrow> component_of_module (pkg @ ''.'' @ m) pkg = Some m"
  by (simp add: component_of_module_def Let_def split_on_none)

text \<open>A package is found only where it is; with several and no name given it is an error.\<close>

lemma find_package_place:
  assumes "find_package py_repr p package = Inr (n, c)"
  shows "place_name p c = n \<and> (c = ThisDirectory \<longleftrightarrow> pj_has_init p)"
proof (cases "pj_is_file p \<or> pj_has_init p")
  case True
  then show ?thesis using assms by (auto simp: find_package_def split: if_splits)
next
  case False
  have top: "x \<noteq> ThisDirectory" if "x \<in> set (candidates p)" for x
    using that by (auto simp: candidates_def split: option.splits list.splits)
  have "c \<in> set (candidates p) \<and> place_name p c = n"
  proof (cases "package \<noteq> None \<and> package \<noteq> Some []")
    case True
    then have "n = the package \<and> (\<exists>cs. filter (\<lambda>c. place_name p c = the package) (candidates p) = c # cs)"
      using assms False by (auto simp: find_package_def Let_def split: list.splits)
    then obtain cs where n: "n = the package" and "filter (\<lambda>c. place_name p c = the package) (candidates p) = c # cs" by blast
    then have "c \<in> set (filter (\<lambda>c. place_name p c = the package) (candidates p))" by simp
    then show ?thesis using n by simp
  next
    case empty: False
    then have "candidates p = [c] \<and> n = place_name p c"
      using assms False by (auto simp: find_package_def Let_def split: list.splits)
    then show ?thesis by simp
  qed
  then show ?thesis using top False by blast
qed

end
