(* ===== verification/SqlLedger.thy ===== *)
theory SqlLedger
  imports RedisLedger
begin

text \<open>
  The ledger on a SQL database (\<open>consistency/sqlalchemy_storage.py\<close>). A method is a sequence of
  transactions, and between two of them any other process may run its own, so a call is a small machine and
  a run is a schedule of the calls' steps. The database is an argument: its statements, with
  what SQL gives of them, each transaction being atomic and the primary key unique.
\<close>

section \<open>The database\<close>

text \<open>A row of \<open>istos_idempotency\<close> and of \<open>istos_event_log\<close>; \<open>None\<close> is \<open>NULL\<close>.\<close>

record idemp_row =
  ir_key :: string
  ir_result :: "bytes option"
  ir_created :: time
  ir_status :: "string option"
  ir_lease :: "time option"

record event_row =
  er_key :: string
  er_value :: bytes
  er_idemp :: "string option"
  er_timestamp :: time

text \<open>An insert that would repeat a key gives \<open>None\<close>, the \<open>IntegrityError\<close>; an update gives its \<open>rowcount\<close>. The last
  three fields read the tables.\<close>

record 'd sql =
  sq_update_kv :: "string \<Rightarrow> bytes \<Rightarrow> 'd \<Rightarrow> nat \<times> 'd"
  sq_kv_insert :: "string \<Rightarrow> bytes \<Rightarrow> 'd \<Rightarrow> 'd option"
  sq_kv_delete :: "string \<Rightarrow> 'd \<Rightarrow> 'd"
  sq_log_insert :: "event_row \<Rightarrow> 'd \<Rightarrow> 'd option"
  sq_idemp_insert :: "idemp_row \<Rightarrow> 'd \<Rightarrow> 'd option"
  sq_update_idemp :: "string \<Rightarrow> (idemp_row \<Rightarrow> bool) \<Rightarrow> (idemp_row \<Rightarrow> idemp_row) \<Rightarrow> 'd \<Rightarrow> nat \<times> 'd"
  sq_idemp_delete :: "string \<Rightarrow> (idemp_row \<Rightarrow> bool) \<Rightarrow> 'd \<Rightarrow> 'd"
  sq_kv :: "'d \<Rightarrow> string \<Rightarrow> bytes option"
  sq_log :: "'d \<Rightarrow> event_row list"
  sq_idemp :: "'d \<Rightarrow> string \<Rightarrow> idemp_row option"

definition row_where :: "'d sql \<Rightarrow> 'd \<Rightarrow> string \<Rightarrow> (idemp_row \<Rightarrow> bool) \<Rightarrow> bool" where
  "row_where db d k wh \<longleftrightarrow> (case sq_idemp db d k of Some row \<Rightarrow> wh row | None \<Rightarrow> False)"

definition idemp_documented :: "'d sql \<Rightarrow> bool" where
  "idemp_documented db \<longleftrightarrow>
     (\<forall>row d. sq_idemp_insert db row d = None \<longleftrightarrow> sq_idemp db d (ir_key row) \<noteq> None)
     \<and> (\<forall>row d d'. sq_idemp_insert db row d = Some d' \<longrightarrow> sq_idemp db d' = (sq_idemp db d)(ir_key row \<mapsto> row))
     \<and> (\<forall>k wh f d n d'. sq_update_idemp db k wh f d = (n, d') \<longrightarrow>
          (if row_where db d k wh then n = 1 \<and> sq_idemp db d' = (sq_idemp db d)(k \<mapsto> f (the (sq_idemp db d k)))
           else n = 0 \<and> sq_idemp db d' = sq_idemp db d))
     \<and> (\<forall>k wh d. sq_idemp db (sq_idemp_delete db k wh d) = (if row_where db d k wh then (sq_idemp db d)(k := None) else sq_idemp db d))"

definition kv_documented :: "'d sql \<Rightarrow> bool" where
  "kv_documented db \<longleftrightarrow>
     (\<forall>k v d. sq_kv_insert db k v d = None \<longleftrightarrow> sq_kv db d k \<noteq> None)
     \<and> (\<forall>k v d d'. sq_kv_insert db k v d = Some d' \<longrightarrow> sq_kv db d' = (sq_kv db d)(k \<mapsto> v))
     \<and> (\<forall>k v d n d'. sq_update_kv db k v d = (n, d') \<longrightarrow>
          (if sq_kv db d k = None then n = 0 \<and> sq_kv db d' = sq_kv db d else n = 1 \<and> sq_kv db d' = (sq_kv db d)(k \<mapsto> v)))
     \<and> (\<forall>k d. sq_kv db (sq_kv_delete db k d) = (sq_kv db d)(k := None))"

text \<open>\<open>idempotency_key\<close> of the event log is unique, \<open>NULL\<close> apart; rows are in the order of their ids.\<close>

definition log_documented :: "'d sql \<Rightarrow> bool" where
  "log_documented db \<longleftrightarrow>
     (\<forall>row d. sq_log_insert db row d = None \<longleftrightarrow> er_idemp row \<noteq> None \<and> er_idemp row \<in> er_idemp ` set (sq_log db d))
     \<and> (\<forall>row d d'. sq_log_insert db row d = Some d' \<longrightarrow> sq_log db d' = sq_log db d @ [row])"

section \<open>The plugin\<close>

record 'd sql_plugin =
  sp_db :: "'d sql"
  sp_dumps :: "pyval \<Rightarrow> string"
  sp_loads :: "string \<Rightarrow> pyval res"

definition sql_serialize :: "'d sql_plugin \<Rightarrow> stored \<Rightarrow> bytes" where
  "sql_serialize p v =
     (case v of
        Raw b \<Rightarrow> b
      | Json (PStr s) \<Rightarrow> encode_utf8 s
      | Json j \<Rightarrow> encode_utf8 (sp_dumps p j))"

definition sql_deserialize :: "'d sql_plugin \<Rightarrow> bytes option \<Rightarrow> stored" where
  "sql_deserialize p raw =
     (case raw of
        None \<Rightarrow> Json PNone
      | Some b \<Rightarrow> (case decode_utf8 b of
            None \<Rightarrow> Raw b
          | Some s \<Rightarrow> (case sp_loads p s of Inl _ \<Rightarrow> Raw b | Inr v \<Rightarrow> Json v)))"

text \<open>\<open>put\<close>: an update, an insert when it found no row, and the update again when another writer inserted first.\<close>

datatype put_pc = PutUpdate | PutInsert | PutAgain | PutDone

definition put_step :: "'d sql_plugin \<Rightarrow> string \<Rightarrow> stored \<Rightarrow> put_pc \<Rightarrow> 'd \<Rightarrow> put_pc \<times> 'd" where
  "put_step p k v pc d =
     (let payload = sql_serialize p v in
      case pc of
        PutUpdate \<Rightarrow> (case sq_update_kv (sp_db p) k payload d of (n, d') \<Rightarrow> (if n \<noteq> 0 then PutDone else PutInsert, d'))
      | PutInsert \<Rightarrow> (case sq_kv_insert (sp_db p) k payload d of Some d' \<Rightarrow> (PutDone, d') | None \<Rightarrow> (PutAgain, d))
      | PutAgain \<Rightarrow> (PutDone, snd (sq_update_kv (sp_db p) k payload d))
      | PutDone \<Rightarrow> (PutDone, d))"

definition sql_get :: "'d sql_plugin \<Rightarrow> string \<Rightarrow> 'd \<Rightarrow> stored" where
  "sql_get p k d = (case sq_kv (sp_db p) d k of Some b \<Rightarrow> sql_deserialize p (Some b) | None \<Rightarrow> Json PNone)"

definition sql_delete :: "'d sql_plugin \<Rightarrow> string \<Rightarrow> 'd \<Rightarrow> 'd" where
  "sql_delete p k = sq_kv_delete (sp_db p) k"

definition sql_log :: "'d sql_plugin \<Rightarrow> string \<Rightarrow> stored \<Rightarrow> string option \<Rightarrow> time \<Rightarrow> 'd \<Rightarrow> 'd" where
  "sql_log p k v idem t d =
     (case sq_log_insert (sp_db p) \<lparr>er_key = k, er_value = sql_serialize p v, er_idemp = idem, er_timestamp = t\<rparr> d of
        Some d' \<Rightarrow> d' | None \<Rightarrow> d)"

definition sql_get_log :: "'d sql_plugin \<Rightarrow> string \<Rightarrow> int \<Rightarrow> 'd \<Rightarrow> (stored \<times> time \<times> string option) list" where
  "sql_get_log p k limit d =
     (if limit \<le> 0 then []
      else map (\<lambda>r. (sql_deserialize p (Some (er_value r)), er_timestamp r, er_idemp r))
             (take (nat limit) (rev (filter (\<lambda>r. er_key r = k) (sq_log (sp_db p) d)))))"

section \<open>Calls of the idempotency part\<close>

text \<open>Where a call is: a claim with the attempts it has left and the clock it read, the two statements
  of a mark, a call of one statement, the end.\<close>

datatype sql_pc =
    Attempt nat
  | Inserting time nat
  | Selecting time nat
  | Taking time
  | Marking
  | MarkInserting time
  | OneStatement
  | Returned ledger_answer

abbreviation pending_status :: string where "pending_status \<equiv> ''pending''"

definition claimed_answer :: ledger_answer where "claimed_answer = ClaimAnswer CLAIMED (Json PNone)"
definition in_flight_answer :: ledger_answer where "in_flight_answer = ClaimAnswer IN_FLIGHT (Json PNone)"

text \<open>One step of a call, at the clock reading \<open>t\<close>: the answer it settles with the clock it used,
  where it is then, and the database.\<close>

fun claim_step :: "'d sql_plugin \<Rightarrow> string \<Rightarrow> time \<Rightarrow> time \<Rightarrow> sql_pc \<Rightarrow> 'd \<Rightarrow> (time \<times> ledger_answer) option \<times> sql_pc \<times> 'd" where
  "claim_step p k lease_s t (Attempt 0) d = (None, Returned in_flight_answer, d)"
| "claim_step p k lease_s t (Attempt (Suc n)) d = (None, Inserting t n, d)"
| "claim_step p k lease_s t (Inserting now n) d =
     (case sq_idemp_insert (sp_db p)
          \<lparr>ir_key = k, ir_result = None, ir_created = now, ir_status = Some pending_status, ir_lease = Some (now + lease_s)\<rparr> d of
        Some d' \<Rightarrow> (Some (now, claimed_answer), Returned claimed_answer, d')
      | None \<Rightarrow> (None, Selecting now n, d))"
| "claim_step p k lease_s t (Selecting now n) d =
     (case sq_idemp (sp_db p) d k of
        None \<Rightarrow> (None, Attempt n, d)
      | Some row \<Rightarrow>
          if ir_status row \<noteq> Some pending_status then
            (let a = ClaimAnswer FINISHED (sql_deserialize p (ir_result row)) in (Some (now, a), Returned a, d))
          else if (case ir_lease row of Some u \<Rightarrow> u > now | None \<Rightarrow> False) then (Some (now, in_flight_answer), Returned in_flight_answer, d)
          else (None, Taking now, d))"
| "claim_step p k lease_s t (Taking now) d =
     (case sq_update_idemp (sp_db p) k
          (\<lambda>row. ir_status row = Some pending_status \<and> (case ir_lease row of Some u \<Rightarrow> u \<le> now | None \<Rightarrow> False))
          (\<lambda>row. row\<lparr>ir_lease := Some (now + lease_s), ir_created := now\<rparr>) d of
        (n, d') \<Rightarrow> if n \<noteq> 0 then (Some (now, claimed_answer), Returned claimed_answer, d') else (None, Returned in_flight_answer, d'))"
| "claim_step p k lease_s t pc d = (None, pc, d)"

definition sql_release :: "'d sql_plugin \<Rightarrow> string \<Rightarrow> 'd \<Rightarrow> 'd" where
  "sql_release p k = sq_idemp_delete (sp_db p) k (\<lambda>row. ir_status row = Some pending_status)"

definition sql_check :: "'d sql_plugin \<Rightarrow> string \<Rightarrow> 'd \<Rightarrow> stored" where
  "sql_check p k d =
     (case sq_idemp (sp_db p) d k of
        None \<Rightarrow> Json PNone
      | Some row \<Rightarrow> if ir_status row = Some pending_status then Json PNone else sql_deserialize p (ir_result row))"

fun mark_step :: "'d sql_plugin \<Rightarrow> string \<Rightarrow> pyval \<Rightarrow> time \<Rightarrow> sql_pc \<Rightarrow> 'd \<Rightarrow> (time \<times> ledger_answer) option \<times> sql_pc \<times> 'd" where
  "mark_step p k v t Marking d =
     (case sq_update_idemp (sp_db p) k (\<lambda>row. ir_status row = Some pending_status)
          (\<lambda>row. row\<lparr>ir_result := Some (sql_serialize p (Json v)), ir_status := Some ''done'', ir_lease := None, ir_created := t\<rparr>) d of
        (n, d') \<Rightarrow> if n \<noteq> 0 then (Some (t, Done), Returned Done, d') else (None, MarkInserting t, d'))"
| "mark_step p k v t (MarkInserting now) d =
     (case sq_idemp_insert (sp_db p)
          \<lparr>ir_key = k, ir_result = Some (sql_serialize p (Json v)), ir_created = now, ir_status = Some ''done'', ir_lease = None\<rparr> d of
        Some d' \<Rightarrow> (Some (now, Done), Returned Done, d')
      | None \<Rightarrow> (None, Returned Done, d))"
| "mark_step p k v t pc d = (None, pc, d)"

fun call_start :: "ledger_call \<Rightarrow> sql_pc" where
  "call_start (Claim k d) = Attempt 2"
| "call_start (Mark k v) = Marking"
| "call_start c = OneStatement"

fun call_step :: "'d sql_plugin \<Rightarrow> ledger_call \<Rightarrow> time \<Rightarrow> sql_pc \<Rightarrow> 'd \<Rightarrow> (time \<times> ledger_answer) option \<times> sql_pc \<times> 'd" where
  "call_step p (Claim k lease_s) t pc d = claim_step p k lease_s t pc d"
| "call_step p (Mark k v) t pc d = mark_step p k v t pc d"
| "call_step p (Release k) t OneStatement d = (Some (t, Done), Returned Done, sql_release p k d)"
| "call_step p (Check k) t OneStatement d = (let a = CheckAnswer (sql_check p k d) in (Some (t, a), Returned a, d))"
| "call_step p c t pc d = (None, pc, d)"

section \<open>Runs\<close>

text \<open>Any process may begin a call under a fresh number, and any call may take its next step.\<close>

datatype sql_sched = BeginCall nat ledger_call | StepCall nat time

type_synonym sql_calls = "nat \<rightharpoonup> ledger_call \<times> sql_pc"
type_synonym settled = "nat \<times> time \<times> ledger_call \<times> ledger_answer"

fun sql_run :: "'d sql_plugin \<Rightarrow> sql_sched list \<Rightarrow> 'd \<Rightarrow> sql_calls \<Rightarrow> settled list \<times> 'd \<times> sql_calls" where
  "sql_run p [] d m = ([], d, m)"
| "sql_run p (BeginCall i c # xs) d m = sql_run p xs d (if m i = None then m(i \<mapsto> (c, call_start c)) else m)"
| "sql_run p (StepCall i t # xs) d m =
     (case m i of
        None \<Rightarrow> sql_run p xs d m
      | Some (c, pc) \<Rightarrow>
          (case call_step p c t pc d of (act, pc', d') \<Rightarrow>
             (case sql_run p xs d' (m(i \<mapsto> (c, pc'))) of (acts, s) \<Rightarrow>
                ((case act of None \<Rightarrow> acts | Some (now, a) \<Rightarrow> (i, now, c, a) # acts), s))))"

section \<open>The in-memory ledger as specification\<close>

text \<open>The settled calls, made one after the other of the in-memory ledger, have the answers they had.\<close>

fun ledger_run :: "settled list \<Rightarrow> ledger \<Rightarrow> ledger option" where
  "ledger_run [] l = Some l"
| "ledger_run ((i, t, c, a) # xs) l = (case mem_answer t c l of (a', l') \<Rightarrow> if a = a' then ledger_run xs l' else None)"

definition row_slot :: "'d sql_plugin \<Rightarrow> slot \<Rightarrow> idemp_row option \<Rightarrow> bool" where
  "row_slot p sl row \<longleftrightarrow>
     (case sl of
        Vacant \<Rightarrow> row = None
      | Pending u \<Rightarrow> (\<exists>r. row = Some r \<and> ir_status r = Some pending_status \<and> ir_lease r = Some u)
      | Finished v \<Rightarrow> (\<exists>r. row = Some r \<and> ir_status r \<noteq> Some pending_status \<and> sql_deserialize p (ir_result r) = Json v))"

definition sql_mirrors :: "'d sql_plugin \<Rightarrow> 'd \<Rightarrow> ledger \<Rightarrow> bool" where
  "sql_mirrors p d l \<longleftrightarrow> (\<forall>k. row_slot p (ledger_view l k) (sq_idemp (sp_db p) d k))"

text \<open>A result that reads back as it was.\<close>

fun keeps_result :: "'d sql_plugin \<Rightarrow> ledger_call \<Rightarrow> bool" where
  "keeps_result p (Mark k v) \<longleftrightarrow> sql_deserialize p (Some (sql_serialize p (Json v))) = Json v"
| "keeps_result p c \<longleftrightarrow> True"

text \<open>A claim that lost a race may answer that the request is in flight, and a mark may find the key taken.\<close>

fun may_give_up :: "ledger_call \<Rightarrow> ledger_answer \<Rightarrow> bool" where
  "may_give_up (Claim k d) a \<longleftrightarrow> a = in_flight_answer"
| "may_give_up (Mark k v) a \<longleftrightarrow> a = Done"
| "may_give_up c a \<longleftrightarrow> False"

definition answered :: "settled list \<Rightarrow> sql_calls \<Rightarrow> bool" where
  "answered acts m \<longleftrightarrow>
     (\<forall>i c a. m i = Some (c, Returned a) \<longrightarrow>
        (\<exists>t. filter (\<lambda>x. fst x = i) acts = [(i, t, c, a)]) \<or> filter (\<lambda>x. fst x = i) acts = [] \<and> may_give_up c a)"

lemma idemp_insertD:
  assumes "idemp_documented db"
  shows "sq_idemp_insert db row d = Some d' \<Longrightarrow> sq_idemp db d (ir_key row) = None \<and> sq_idemp db d' = (sq_idemp db d)(ir_key row \<mapsto> row)"
    "sq_idemp_insert db row d = None \<Longrightarrow> sq_idemp db d (ir_key row) \<noteq> None"
  using assms unfolding idemp_documented_def by (metis option.distinct(1))+

lemma idemp_updateD:
  assumes "idemp_documented db" "sq_update_idemp db k wh f d = (n, d')"
  shows "n \<noteq> 0 \<Longrightarrow> \<exists>row. sq_idemp db d k = Some row \<and> wh row \<and> sq_idemp db d' = (sq_idemp db d)(k \<mapsto> f row)"
    "n = 0 \<Longrightarrow> sq_idemp db d' = sq_idemp db d \<and> (\<forall>row. sq_idemp db d k = Some row \<longrightarrow> \<not> wh row)"
proof -
  have "if row_where db d k wh then n = 1 \<and> sq_idemp db d' = (sq_idemp db d)(k \<mapsto> f (the (sq_idemp db d k)))
      else n = 0 \<and> sq_idemp db d' = sq_idemp db d"
    using assms unfolding idemp_documented_def by blast
  then show "n \<noteq> 0 \<Longrightarrow> \<exists>row. sq_idemp db d k = Some row \<and> wh row \<and> sq_idemp db d' = (sq_idemp db d)(k \<mapsto> f row)"
    "n = 0 \<Longrightarrow> sq_idemp db d' = sq_idemp db d \<and> (\<forall>row. sq_idemp db d k = Some row \<longrightarrow> \<not> wh row)"
    by (auto simp: row_where_def split: option.splits if_splits)
qed

lemma idemp_deleteD:
  assumes "idemp_documented db"
  shows "sq_idemp db (sq_idemp_delete db k wh d) = (if row_where db d k wh then (sq_idemp db d)(k := None) else sq_idemp db d)"
  using assms unfolding idemp_documented_def by blast

lemma sql_mirrors_set:
  "sql_mirrors p d l \<Longrightarrow> ledger_view l' = (ledger_view l)(k := sl) \<Longrightarrow> sq_idemp (sp_db p) d' = (sq_idemp (sp_db p) d)(k := row)
    \<Longrightarrow> row_slot p sl row \<Longrightarrow> sql_mirrors p d' l'"
  by (simp add: sql_mirrors_def)

lemma sql_mirrors_same:
  "sql_mirrors p d l \<Longrightarrow> sq_idemp (sp_db p) d' = sq_idemp (sp_db p) d \<Longrightarrow> sql_mirrors p d' l"
  by (simp add: sql_mirrors_def)

lemma row_view:
  assumes "sql_mirrors p d l"
  shows "sq_idemp (sp_db p) d k = None \<longleftrightarrow> ledger_view l k = Vacant"
    "sq_idemp (sp_db p) d k = Some row \<Longrightarrow> ir_status row = Some pending_status \<Longrightarrow> \<exists>u. ledger_view l k = Pending u \<and> ir_lease row = Some u"
    "sq_idemp (sp_db p) d k = Some row \<Longrightarrow> ir_status row \<noteq> Some pending_status
      \<Longrightarrow> \<exists>v. ledger_view l k = Finished v \<and> sql_deserialize p (ir_result row) = Json v"
proof -
  have "row_slot p (ledger_view l k) (sq_idemp (sp_db p) d k)" using assms by (simp add: sql_mirrors_def)
  then show "sq_idemp (sp_db p) d k = None \<longleftrightarrow> ledger_view l k = Vacant"
    "sq_idemp (sp_db p) d k = Some row \<Longrightarrow> ir_status row = Some pending_status \<Longrightarrow> \<exists>u. ledger_view l k = Pending u \<and> ir_lease row = Some u"
    "sq_idemp (sp_db p) d k = Some row \<Longrightarrow> ir_status row \<noteq> Some pending_status
      \<Longrightarrow> \<exists>v. ledger_view l k = Finished v \<and> sql_deserialize p (ir_result row) = Json v"
    by (cases "ledger_view l k"; auto simp: row_slot_def)+
qed

text \<open>What a step owes: without an answer the ledger is as it was, with one it has done the call.\<close>

definition step_refines :: "'d sql_plugin \<Rightarrow> ledger_call \<Rightarrow> ledger \<Rightarrow> (time \<times> ledger_answer) option \<times> sql_pc \<times> 'd \<Rightarrow> bool" where
  "step_refines p c l r \<longleftrightarrow>
     (case r of
        (None, pc, d) \<Rightarrow> sql_mirrors p d l \<and> (\<forall>a. pc = Returned a \<longrightarrow> may_give_up c a)
      | (Some (t, a), pc, d) \<Rightarrow> pc = Returned a \<and> fst (mem_answer t c l) = a \<and> sql_mirrors p d (snd (mem_answer t c l)))"

lemma claim_step_refines:
  assumes doc: "idemp_documented (sp_db p)" and m: "sql_mirrors p d l" and pc: "\<And>a. pc \<noteq> Returned a"
  shows "step_refines p (Claim k lease_s) l (claim_step p k lease_s t pc d)"
proof -
  have take: "step_refines p (Claim k lease_s) l (Some (now, claimed_answer), Returned claimed_answer, d')"
    if free: "ledger_view l k = Vacant \<or> (\<exists>u. ledger_view l k = Pending u \<and> u \<le> now)"
      and d': "sq_idemp (sp_db p) d' = (sq_idemp (sp_db p) d)(k \<mapsto> row)" "ir_status row = Some pending_status" "ir_lease row = Some (now + lease_s)"
    for now d' row
  proof -
    have "row_slot p (Pending (now + lease_s)) (Some row)" using d'(2,3) by (simp add: row_slot_def)
    then have "sql_mirrors p d' (snd (claim_processed k lease_s now now l))"
      by (rule sql_mirrors_set [OF m mem.claim_takes [OF free] d'(1)])
    then show ?thesis using mem.claim_free [OF free, of lease_s now]
      by (cases "claim_processed k lease_s now now l") (simp add: step_refines_def claimed_answer_def)
  qed
  show ?thesis
  proof (cases pc)
    case (Inserting now n)
    let ?row = "\<lparr>ir_key = k, ir_result = None, ir_created = now, ir_status = Some pending_status, ir_lease = Some (now + lease_s)\<rparr>"
    show ?thesis
    proof (cases "sq_idemp_insert (sp_db p) ?row d")
      case None then show ?thesis using Inserting m by (simp add: step_refines_def)
    next
      case (Some d')
      have "sq_idemp (sp_db p) d k = None" "sq_idemp (sp_db p) d' = (sq_idemp (sp_db p) d)(k \<mapsto> ?row)"
        using idemp_insertD(1) [OF doc Some] by simp_all
      then show ?thesis using take [of now d' ?row] row_view(1) [OF m] Inserting Some by simp
    qed
  next
    case (Selecting now n)
    show ?thesis
    proof (cases "sq_idemp (sp_db p) d k")
      case None then show ?thesis using Selecting m by (simp add: step_refines_def)
    next
      case (Some row)
      show ?thesis
      proof (cases "ir_status row = Some pending_status")
        case True
        then obtain u where u: "ledger_view l k = Pending u" "ir_lease row = Some u" using row_view(2) [OF m Some] by blast
        show ?thesis
          using Selecting Some True u m mem.claim_pending [OF u(1), of now lease_s now]
          by (cases "u > now") (simp_all add: step_refines_def in_flight_answer_def)
      next
        case False
        then obtain v where v: "ledger_view l k = Finished v" "sql_deserialize p (ir_result row) = Json v" using row_view(3) [OF m Some] by blast
        show ?thesis using Selecting Some False v m mem.claim_finished [OF v(1), of lease_s now now]
          by (simp add: step_refines_def Let_def)
      qed
    qed
  next
    case (Taking now)
    let ?wh = "\<lambda>row. ir_status row = Some pending_status \<and> (case ir_lease row of Some u \<Rightarrow> u \<le> now | None \<Rightarrow> False)"
    let ?f = "\<lambda>row. row\<lparr>ir_lease := Some (now + lease_s), ir_created := now\<rparr> :: idemp_row"
    obtain n d' where r: "sq_update_idemp (sp_db p) k ?wh ?f d = (n, d')" by fastforce
    show ?thesis
    proof (cases "n = 0")
      case True
      then have "sq_idemp (sp_db p) d' = sq_idemp (sp_db p) d" using idemp_updateD(2) [OF doc r] by blast
      then show ?thesis using sql_mirrors_same [OF m] Taking r True by (simp add: step_refines_def)
    next
      case False
      then obtain row where row: "sq_idemp (sp_db p) d k = Some row" "?wh row" "sq_idemp (sp_db p) d' = (sq_idemp (sp_db p) d)(k \<mapsto> ?f row)"
        using idemp_updateD(1) [OF doc r] by blast
      obtain u where "ledger_view l k = Pending u" "ir_lease row = Some u" using row_view(2) [OF m row(1)] row(2) by blast
      then show ?thesis using take [OF _ row(3)] row(2) Taking r False by simp
    qed
  next
    case (Attempt n) then show ?thesis using m by (cases n) (simp_all add: step_refines_def)
  qed (use m pc in \<open>simp_all add: step_refines_def\<close>)
qed


lemma mark_step_refines:
  assumes doc: "idemp_documented (sp_db p)" and m: "sql_mirrors p d l" and pc: "\<And>a. pc \<noteq> Returned a"
    and v: "sql_deserialize p (Some (sql_serialize p (Json v))) = Json v"
  shows "step_refines p (Mark k v) l (mark_step p k v t pc d)"
proof -
  have take: "step_refines p (Mark k v) l (Some (now, Done), Returned Done, d')"
    if free: "\<And>w. ledger_view l k \<noteq> Finished w" and d': "sq_idemp (sp_db p) d' = (sq_idemp (sp_db p) d)(k \<mapsto> row)"
      "ir_status row \<noteq> Some pending_status" "ir_result row = Some (sql_serialize p (Json v))" for now d' row
  proof -
    have "ledger_view (mark_processed k v l) = (ledger_view l)(k := Finished v)"
      using mem.mark_view [of k v l] free by (cases "ledger_view l k") auto
    moreover have "row_slot p (Finished v) (Some row)" using d'(2,3) v by (simp add: row_slot_def)
    ultimately have "sql_mirrors p d' (mark_processed k v l)" by (rule sql_mirrors_set [OF m _ d'(1)])
    then show ?thesis by (simp add: step_refines_def)
  qed
  show ?thesis
  proof (cases pc)
    case Marking
    let ?wh = "\<lambda>row. ir_status row = Some pending_status"
    let ?f = "\<lambda>row. row\<lparr>ir_result := Some (sql_serialize p (Json v)), ir_status := Some ''done'', ir_lease := None, ir_created := t\<rparr> :: idemp_row"
    obtain n d' where r: "sq_update_idemp (sp_db p) k ?wh ?f d = (n, d')" by fastforce
    show ?thesis
    proof (cases "n = 0")
      case True
      then have "sq_idemp (sp_db p) d' = sq_idemp (sp_db p) d" using idemp_updateD(2) [OF doc r] by blast
      then show ?thesis using sql_mirrors_same [OF m] Marking r True by (simp add: step_refines_def)
    next
      case False
      then obtain row where row: "sq_idemp (sp_db p) d k = Some row" "?wh row" "sq_idemp (sp_db p) d' = (sq_idemp (sp_db p) d)(k \<mapsto> ?f row)"
        using idemp_updateD(1) [OF doc r] by blast
      obtain u where "ledger_view l k = Pending u" using row_view(2) [OF m row(1,2)] by blast
      then show ?thesis using take [OF _ row(3)] Marking r False by simp
    qed
  next
    case (MarkInserting now)
    let ?row = "\<lparr>ir_key = k, ir_result = Some (sql_serialize p (Json v)), ir_created = now, ir_status = Some ''done'', ir_lease = None\<rparr>"
    show ?thesis
    proof (cases "sq_idemp_insert (sp_db p) ?row d")
      case None then show ?thesis using MarkInserting m by (simp add: step_refines_def)
    next
      case (Some d')
      have "sq_idemp (sp_db p) d k = None" "sq_idemp (sp_db p) d' = (sq_idemp (sp_db p) d)(k \<mapsto> ?row)"
        using idemp_insertD(1) [OF doc Some] by simp_all
      then show ?thesis using take [of d' ?row now] row_view(1) [OF m] MarkInserting Some by simp
    qed
  qed (use m pc in \<open>simp_all add: step_refines_def\<close>)
qed

lemma release_refines:
  assumes doc: "idemp_documented (sp_db p)" and m: "sql_mirrors p d l"
  shows "sql_mirrors p (sql_release p k d) (release_claim k l)"
proof (cases "row_where (sp_db p) d k (\<lambda>row. ir_status row = Some pending_status)")
  case True
  then obtain row u where "sq_idemp (sp_db p) d k = Some row" "ledger_view l k = Pending u"
    using row_view(2) [OF m] by (auto simp: row_where_def split: option.splits)
  then have "ledger_view (release_claim k l) = (ledger_view l)(k := Vacant)" using mem.release_view [of k l] by simp
  then show ?thesis
    by (rule sql_mirrors_set [OF m _ _, where row = None]) (simp_all add: sql_release_def idemp_deleteD [OF doc] True row_slot_def)
next
  case False
  have "ledger_view l k \<noteq> Pending u" for u
    using False m by (auto simp: sql_mirrors_def row_slot_def row_where_def dest!: spec [of _ k])
  then have "ledger_view (release_claim k l) = ledger_view l"
    using mem.release_view [of k l] by (cases "ledger_view l k") (auto simp: fun_upd_idem)
  then show ?thesis using m False by (simp add: sql_mirrors_def sql_release_def idemp_deleteD [OF doc])
qed

lemma check_refines: "sql_mirrors p d l \<Longrightarrow> sql_check p k d = Json (check_processed k l)"
proof -
  assume m: "sql_mirrors p d l"
  have c: "check_processed k l = (case ledger_view l k of Finished v \<Rightarrow> v | _ \<Rightarrow> PNone)"
    by (simp add: check_processed_def ledger_view_def split: option.split)
  show ?thesis
  proof (cases "sq_idemp (sp_db p) d k")
    case None then show ?thesis using row_view(1) [OF m, of k] c by (simp add: sql_check_def)
  next
    case (Some row)
    then show ?thesis using row_view(2,3) [OF m Some] c by (cases "ir_status row = Some pending_status") (auto simp: sql_check_def)
  qed
qed

lemma call_step_refines:
  assumes "idemp_documented (sp_db p)" "sql_mirrors p d l" "\<And>a. pc \<noteq> Returned a" "keeps_result p c"
  shows "step_refines p c l (call_step p c t pc d)"
proof (cases c)
  case (Claim k d') then show ?thesis using claim_step_refines [OF assms(1,2,3)] by simp
next
  case (Mark k v) then show ?thesis using mark_step_refines [OF assms(1,2,3)] assms(4) by simp
next
  case (Release k)
  then show ?thesis using release_refines [OF assms(1,2)] assms(2,3) by (cases pc) (simp_all add: step_refines_def)
next
  case (Check k)
  then show ?thesis using check_refines [OF assms(2)] assms(2,3) by (cases pc) (simp_all add: step_refines_def Let_def)
qed

text \<open>Over a run, a call that has ended does nothing more, one that has not has settled nothing.\<close>

definition call_log :: "nat \<Rightarrow> settled list \<Rightarrow> settled list" where
  "call_log i acts = filter (\<lambda>x. fst x = i) acts"

definition call_fate :: "nat \<Rightarrow> settled list \<Rightarrow> (ledger_call \<times> sql_pc) option \<Rightarrow> (ledger_call \<times> sql_pc) option \<Rightarrow> bool" where
  "call_fate i acts before after \<longleftrightarrow>
     (if \<exists>c a. before = Some (c, Returned a) then after = before \<and> call_log i acts = []
      else (case after of
              Some (c, Returned a) \<Rightarrow> (\<exists>t. call_log i acts = [(i, t, c, a)]) \<or> call_log i acts = [] \<and> may_give_up c a
            | _ \<Rightarrow> call_log i acts = []))"

fun sched_keeps :: "'d sql_plugin \<Rightarrow> sql_sched \<Rightarrow> bool" where
  "sched_keeps p (BeginCall i c) = keeps_result p c"
| "sched_keeps p (StepCall i t) = True"

definition calls_keep :: "'d sql_plugin \<Rightarrow> sql_calls \<Rightarrow> bool" where
  "calls_keep p m \<longleftrightarrow> (\<forall>i c pc. m i = Some (c, pc) \<longrightarrow> keeps_result p c)"

lemma returned_stays: "call_step p c t (Returned a) d = (None, Returned a, d)"
  by (cases c) simp_all

lemma call_start_not_returned: "call_start c \<noteq> Returned a"
  by (cases c) simp_all

lemma call_fate_log:
  assumes "call_log j acts = call_log j acts1"
  shows "call_fate j acts b a = call_fate j acts1 b a"
  unfolding call_fate_def assms ..

lemma sql_run_refines:
  assumes doc: "idemp_documented (sp_db p)" and run: "sql_run p xs d m = (acts, d', m')"
    and "sql_mirrors p d l" "calls_keep p m" "\<forall>x \<in> set xs. sched_keeps p x"
  shows "(\<exists>l'. ledger_run acts l = Some l' \<and> sql_mirrors p d' l') \<and> (\<forall>i. call_fate i acts (m i) (m' i))"
  using assms
proof (induction p xs d m arbitrary: acts l rule: sql_run.induct)
  case (1 p d m)
  then show ?case by (auto simp: call_fate_def call_log_def split: option.splits sql_pc.splits)
next
  case (2 p i c xs d m)
  let ?m = "if m i = None then m(i \<mapsto> (c, call_start c)) else m"
  have "calls_keep p ?m" using 2(5,6) by (auto simp: calls_keep_def)
  then have IH: "(\<exists>l'. ledger_run acts l = Some l' \<and> sql_mirrors p d' l') \<and> (\<forall>j. call_fate j acts (?m j) (m' j))"
    using 2 by simp
  moreover have "call_fate j acts (m j) (m' j)" if "call_fate j acts (?m j) (m' j)" for j
    using that call_start_not_returned by (auto simp: call_fate_def split: if_splits)
  ultimately show ?case by blast
next
  case (3 p i t xs d m)
  show ?case
  proof (cases "m i")
    case None
    then show ?thesis using 3(1) [OF None 3(3) _ 3(5,6)] 3(4,7) by simp
  next
    case (Some cpc)
    obtain c pc where cpc: "cpc = (c, pc)" by fastforce
    obtain act pc1 d1 where st: "call_step p c t pc d = (act, pc1, d1)" by (metis prod.collapse)
    obtain acts1 where r1: "sql_run p xs d1 (m(i \<mapsto> (c, pc1))) = (acts1, d', m')"
      and acts: "acts = (case act of None \<Rightarrow> acts1 | Some (now, a) \<Rightarrow> (i, now, c, a) # acts1)"
      using 3(4) Some cpc st by (auto split: prod.splits)
    have kr: "keeps_result p c" using 3(6) Some cpc unfolding calls_keep_def by blast
    have k1: "calls_keep p (m(i \<mapsto> (c, pc1)))" using 3(6) kr by (auto simp: calls_keep_def)
    have rest: "\<forall>x \<in> set xs. sched_keeps p x" using 3(7) by simp
    have IH: "(\<exists>l'. ledger_run acts1 l1 = Some l' \<and> sql_mirrors p d' l') \<and> (\<forall>j. call_fate j acts1 ((m(i \<mapsto> (c, pc1))) j) (m' j))"
      if "sql_mirrors p d1 l1" for l1
      using 3(2) [OF Some cpc [symmetric] st [symmetric] refl 3(3) r1 that k1 rest] by blast
    show ?thesis
    proof (cases "\<exists>a. pc = Returned a")
      case True
      then have "act = None" "pc1 = pc" "d1 = d" using st by (auto simp: returned_stays)
      then show ?thesis using IH 3(5) acts Some cpc by (metis fun_upd_triv option.simps(4))
    next
      case False
      then have ref: "step_refines p c l (act, pc1, d1)" using call_step_refines [OF 3(3,5), of pc c t] kr st by metis
      show ?thesis
      proof (cases act)
        case None
        then have m1: "sql_mirrors p d1 l" and gu: "\<And>a. pc1 = Returned a \<Longrightarrow> may_give_up c a" using ref by (simp_all add: step_refines_def)
        have "call_fate j acts (m j) (m' j)" if "call_fate j acts1 ((m(i \<mapsto> (c, pc1))) j) (m' j)" for j
        proof (cases "j = i")
          case True
          then show ?thesis using that gu False Some cpc acts None by (auto simp: call_fate_def split: if_splits option.splits)
        next
          case False then show ?thesis using that acts None by simp
        qed
        then show ?thesis using IH [OF m1] acts None by auto
      next
        case (Some ta)
        obtain now a where ta: "ta = (now, a)" by fastforce
        have f: "pc1 = Returned a" "fst (mem_answer now c l) = a" "sql_mirrors p d1 (snd (mem_answer now c l))"
          using ref Some ta by (simp_all add: step_refines_def)
        have "call_fate j acts (m j) (m' j)" if "call_fate j acts1 ((m(i \<mapsto> (c, pc1))) j) (m' j)" for j
        proof (cases "j = i")
          case True
          then show ?thesis using that f(1) False \<open>m i = Some cpc\<close> cpc acts Some ta by (auto simp: call_fate_def call_log_def)
        next
          case False
          then have "call_log j acts = call_log j acts1" using acts Some ta by (simp add: call_log_def)
          moreover have "(m(i \<mapsto> (c, pc1))) j = m j" using False by simp
          ultimately show ?thesis using that call_fate_log [of j acts acts1 "m j" "m' j"] by (simp only:)
        qed
        moreover have "ledger_run acts l = ledger_run acts1 (snd (mem_answer now c l))"
          using acts Some ta f(2) by (cases "mem_answer now c l") simp
        ultimately show ?thesis using IH [OF f(3)] by metis
      qed
    qed
  qed
qed


text \<open>C38: Over any interleaving of the transactions of any processes, the calls that settled have the
  answers the in-memory ledger gives them one after the other, and leave the table as they leave it; a call that ended without
  settling is a claim told that the request is in flight, or a mark that found the key taken.\<close>

theorem sql_refines_ledger:
  assumes "idemp_documented (sp_db p)" "sql_mirrors p d l" "\<forall>x \<in> set xs. sched_keeps p x"
    and "sql_run p xs d Map.empty = (acts, d', m')"
  shows "(\<exists>l'. ledger_run acts l = Some l' \<and> sql_mirrors p d' l') \<and> answered acts m'"
proof -
  have r: "(\<exists>l'. ledger_run acts l = Some l' \<and> sql_mirrors p d' l') \<and> (\<forall>i. call_fate i acts None (m' i))"
    using sql_run_refines [OF assms(1,4,2) _ assms(3)] by (simp add: calls_keep_def)
  have "(\<exists>t. filter (\<lambda>x. fst x = i) acts = [(i, t, c, a)]) \<or> filter (\<lambda>x. fst x = i) acts = [] \<and> may_give_up c a"
    if "m' i = Some (c, Returned a)" for i c a
    using conjunct2 [OF r] that by (auto simp: call_fate_def call_log_def dest!: spec [of _ i])
  then show ?thesis using r by (simp add: answered_def)
qed

text \<open>A database that keeps what is documented.\<close>

type_synonym tables = "(string \<Rightarrow> bytes option) \<times> event_row list \<times> (string \<Rightarrow> idemp_row option)"

definition table_db :: "tables sql" where
  "table_db = \<lparr>
     sq_update_kv = (\<lambda>k v (kv, ev, im). if kv k = None then (0, (kv, ev, im)) else (1, (kv(k \<mapsto> v), ev, im))),
     sq_kv_insert = (\<lambda>k v (kv, ev, im). if kv k = None then Some (kv(k \<mapsto> v), ev, im) else None),
     sq_kv_delete = (\<lambda>k (kv, ev, im). (kv(k := None), ev, im)),
     sq_log_insert = (\<lambda>row (kv, ev, im). if er_idemp row \<noteq> None \<and> er_idemp row \<in> er_idemp ` set ev then None else Some (kv, ev @ [row], im)),
     sq_idemp_insert = (\<lambda>row (kv, ev, im). if im (ir_key row) = None then Some (kv, ev, im(ir_key row \<mapsto> row)) else None),
     sq_update_idemp = (\<lambda>k wh f (kv, ev, im). case im k of
         Some row \<Rightarrow> if wh row then (1, (kv, ev, im(k \<mapsto> f row))) else (0, (kv, ev, im)) | None \<Rightarrow> (0, (kv, ev, im))),
     sq_idemp_delete = (\<lambda>k wh (kv, ev, im). case im k of
         Some row \<Rightarrow> if wh row then (kv, ev, im(k := None)) else (kv, ev, im) | None \<Rightarrow> (kv, ev, im)),
     sq_kv = fst, sq_log = (\<lambda>d. fst (snd d)), sq_idemp = (\<lambda>d. snd (snd d))\<rparr>"

definition table_plugin :: "tables sql_plugin" where
  "table_plugin = \<lparr>sp_db = table_db, sp_dumps = (\<lambda>_. ''1''), sp_loads = (\<lambda>_. Inr (PInt 1))\<rparr>"

lemma table_db_documented: "idemp_documented table_db" "kv_documented table_db" "log_documented table_db"
  by (auto simp: idemp_documented_def kv_documented_def log_documented_def table_db_def row_where_def
    split: option.splits if_splits prod.splits)

text \<open>Two processes claim one key at once, the second after the lease of the first; a third marks it done between the second's statements.\<close>

definition race :: "sql_sched list" where
  "race = [BeginCall 1 (Claim ''k'' 30), StepCall 1 1, StepCall 1 1, BeginCall 2 (Claim ''k'' 30), StepCall 2 40, StepCall 2 40, StepCall 2 40,
     BeginCall 3 (Mark ''k'' (PInt 1)), StepCall 3 41, StepCall 2 42, BeginCall 4 (Claim ''k'' 30), StepCall 4 50, StepCall 4 50, StepCall 4 50]"

lemma sql_refines_ledger_witness:
  "\<exists>acts d' m'. sql_run table_plugin race (Map.empty, [], Map.empty) Map.empty = (acts, d', m')
     \<and> acts = [(1, 1, Claim ''k'' 30, claimed_answer), (3, 41, Mark ''k'' (PInt 1), Done),
          (4, 50, Claim ''k'' 30, ClaimAnswer FINISHED (Json (PInt 1)))]
     \<and> m' 2 = Some (Claim ''k'' 30, Returned in_flight_answer) \<and> answered acts m'"
proof -
  obtain acts d' m' where r: "sql_run table_plugin race (Map.empty, [], Map.empty) Map.empty = (acts, d', m')"
    by (metis prod.collapse)
  have m: "sql_mirrors table_plugin (Map.empty, [], Map.empty) empty_ledger"
    by (simp add: sql_mirrors_def row_slot_def ledger_view_def empty_ledger_def table_plugin_def table_db_def)
  have kept: "sql_deserialize table_plugin (Some (sql_serialize table_plugin (Json (PInt 1)))) = Json (PInt 1)" by code_simp
  then have k: "\<forall>x \<in> set race. sched_keeps table_plugin x" by (simp add: race_def)
  have sp: "sp_db table_plugin = table_db" by (simp add: table_plugin_def)
  then have doc: "idemp_documented (sp_db table_plugin)" by (simp add: table_db_documented)
  have "answered acts m'" using sql_refines_ledger [OF doc m k r] by blast
  moreover have "acts = [(1, 1, Claim ''k'' 30, claimed_answer), (3, 41, Mark ''k'' (PInt 1), Done),
          (4, 50, Claim ''k'' 30, ClaimAnswer FINISHED (Json (PInt 1)))] \<and> m' 2 = Some (Claim ''k'' 30, Returned in_flight_answer)"
    using r sp by (auto simp: race_def table_db_def Let_def numeral_2_eq_2 kept)
  ultimately show ?thesis using r by blast
qed


section \<open>Key-value and log\<close>

text \<open>Unless another writer comes between its statements, \<open>put\<close> leaves the value in two steps.\<close>

lemma put_stores:
  assumes "kv_documented (sp_db p)"
  shows "\<exists>pc d1 d2. put_step p k v PutUpdate d = (pc, d1) \<and> put_step p k v pc d1 = (PutDone, d2)
    \<and> sq_kv (sp_db p) d2 = (sq_kv (sp_db p) d)(k \<mapsto> sql_serialize p v)"
proof -
  let ?v = "sql_serialize p v"
  obtain n d1 where u: "sq_update_kv (sp_db p) k ?v d = (n, d1)" by fastforce
  have upd: "if sq_kv (sp_db p) d k = None then n = 0 \<and> sq_kv (sp_db p) d1 = sq_kv (sp_db p) d
      else n = 1 \<and> sq_kv (sp_db p) d1 = (sq_kv (sp_db p) d)(k \<mapsto> ?v)"
    using assms u unfolding kv_documented_def by blast
  show ?thesis
  proof (cases "sq_kv (sp_db p) d k")
    case (Some w)
    then show ?thesis using upd u by (auto simp: put_step_def Let_def)
  next
    case None
    then have "sq_kv_insert (sp_db p) k ?v d1 \<noteq> None" using assms upd unfolding kv_documented_def by simp
    then obtain d2 where i: "sq_kv_insert (sp_db p) k ?v d1 = Some d2" by blast
    then have "sq_kv (sp_db p) d2 = (sq_kv (sp_db p) d1)(k \<mapsto> ?v)" using assms unfolding kv_documented_def by blast
    then show ?thesis using None upd u i by (simp add: put_step_def Let_def)
  qed
qed

text \<open>Whatever other writers do between its statements, \<open>put\<close> ends after three of them, and its last one leaves the
  value unless the row was deleted again.\<close>

lemma put_never_fails:
  assumes "kv_documented (sp_db p)"
  shows "\<exists>pc' d'. put_step p k v pc d = (pc', d') \<and> (pc = PutAgain \<longrightarrow> pc' = PutDone)
    \<and> (pc' = PutDone \<and> pc \<noteq> PutDone \<and> sq_kv (sp_db p) d' k \<noteq> None \<longrightarrow> sq_kv (sp_db p) d' k = Some (sql_serialize p v))"
proof -
  let ?v = "sql_serialize p v"
  obtain n d1 where u: "sq_update_kv (sp_db p) k ?v d = (n, d1)" by fastforce
  have upd: "if sq_kv (sp_db p) d k = None then n = 0 \<and> sq_kv (sp_db p) d1 = sq_kv (sp_db p) d
      else n = 1 \<and> sq_kv (sp_db p) d1 = (sq_kv (sp_db p) d)(k \<mapsto> ?v)"
    using assms u unfolding kv_documented_def by blast
  have ins: "sq_kv_insert (sp_db p) k ?v d = Some d2 \<Longrightarrow> sq_kv (sp_db p) d2 = (sq_kv (sp_db p) d)(k \<mapsto> ?v)" for d2
    using assms unfolding kv_documented_def by blast
  show ?thesis
  proof (cases pc)
    case PutInsert
    then show ?thesis using ins by (cases "sq_kv_insert (sp_db p) k ?v d") (auto simp: put_step_def Let_def)
  qed (use upd u in \<open>auto simp: put_step_def Let_def split: if_splits\<close>)
qed

lemma sql_get_absent: "sq_kv (sp_db p) d k = None \<Longrightarrow> sql_get p k d = Json PNone"
  by (simp add: sql_get_def)

text \<open>A text that reads as JSON comes back as what it reads as.\<close>

lemma text_reads_as_json:
  assumes "decode_utf8 (encode_utf8 s) = Some s" "sp_loads p s = Inr j"
  shows "sql_deserialize p (Some (sql_serialize p (Json (PStr s)))) = Json j"
  using assms by (simp add: sql_serialize_def sql_deserialize_def)

text \<open>The newest entries of the log come first, at most as many as asked for.\<close>

lemma sql_log_newest_first:
  assumes "log_documented (sp_db p)" "0 < limit" "idem = None \<or> idem \<notin> er_idemp ` set (sq_log (sp_db p) d)"
  shows "sql_get_log p k limit (sql_log p k v idem t d)
    = take (nat limit) ((sql_deserialize p (Some (sql_serialize p v)), t, idem) # sql_get_log p k limit d)"
proof -
  let ?row = "\<lparr>er_key = k, er_value = sql_serialize p v, er_idemp = idem, er_timestamp = t\<rparr>"
  obtain d' where d': "sq_log_insert (sp_db p) ?row d = Some d'"
    using assms(1,3) unfolding log_documented_def by (metis event_row.select_convs(3) not_None_eq)
  then have "sq_log (sp_db p) d' = sq_log (sp_db p) d @ [?row]" using assms(1) unfolding log_documented_def by blast
  moreover obtain n where "nat limit = Suc n" using assms(2) by (metis gr0_conv_Suc zero_less_nat_eq)
  ultimately show ?thesis using d' assms(2) by (simp add: sql_get_log_def sql_log_def take_map min_def)
qed

text \<open>An idempotency key that any log holds keeps later events with it out, whatever their key.\<close>

lemma repeated_key_is_not_logged:
  assumes "log_documented (sp_db p)" "i \<in> er_idemp ` set (sq_log (sp_db p) d)" "i \<noteq> None"
  shows "sql_log p k v i t d = d"
proof -
  have "sq_log_insert (sp_db p) \<lparr>er_key = k, er_value = sql_serialize p v, er_idemp = i, er_timestamp = t\<rparr> d = None"
    using assms unfolding log_documented_def by simp
  then show ?thesis by (simp add: sql_log_def)
qed

text \<open>A mark whose key another process claims between its two statements stores nothing.\<close>

lemma mark_lost_in_race:
  assumes "idemp_documented (sp_db p)" "sq_idemp (sp_db p) d k \<noteq> None"
  shows "mark_step p k v t (MarkInserting now) d = (None, Returned Done, d)"
proof -
  have "sq_idemp_insert (sp_db p) row d = None" if "ir_key row = k" for row
    using conjunct1 [OF assms(1) [unfolded idemp_documented_def]] assms(2) that by simp
  then show ?thesis by simp
qed

section \<open>Bringing the schema up to date\<close>

text \<open>The columns of the idempotency table, \<open>None\<close> where the database has none yet. \<open>create_all\<close> leaves a table that is there.\<close>

record sql_schema =
  ss_ready :: bool
  ss_columns :: "string list option"

definition idemp_columns :: "string list" where
  "idemp_columns = [''idempotency_key'', ''result'', ''created_at'', ''status'', ''lease_expires_at'']"

definition create_all :: "string list option \<Rightarrow> string list" where
  "create_all cols = (case cols of None \<Rightarrow> idemp_columns | Some cs \<Rightarrow> cs)"

definition add_missing_columns :: "string list \<Rightarrow> string list" where
  "add_missing_columns cs = cs @ filter (\<lambda>c. c \<notin> set cs) [''status'', ''lease_expires_at'']"

definition ensure_ready :: "sql_schema \<Rightarrow> sql_schema" where
  "ensure_ready s =
     (if ss_ready s then s
      else \<lparr>ss_ready = True, ss_columns = Some (add_missing_columns (create_all (ss_columns s)))\<rparr>)"

lemma ensure_ready_once: "ensure_ready (ensure_ready s) = ensure_ready s"
  by (simp add: ensure_ready_def)

text \<open>A table of an older release gets the columns it lacks and keeps its own, each once.\<close>

lemma added_columns:
  assumes "set (take 3 idemp_columns) \<subseteq> set cs" "distinct cs"
  shows "set idemp_columns \<subseteq> set (add_missing_columns cs)" "distinct (add_missing_columns cs)"
    "take (length cs) (add_missing_columns cs) = cs"
proof -
  have "set idemp_columns = set (take 3 idemp_columns) \<union> {''status'', ''lease_expires_at''}" by (simp add: idemp_columns_def insert_commute)
  then show "set idemp_columns \<subseteq> set (add_missing_columns cs)" using assms(1) unfolding add_missing_columns_def by auto
  have dx: "distinct xs \<Longrightarrow> distinct (cs @ filter (\<lambda>c. c \<notin> set cs) xs)" for xs using assms(2) by auto
  show "distinct (add_missing_columns cs)" unfolding add_missing_columns_def by (rule dx) simp
qed (simp add: add_missing_columns_def)

lemma fresh_columns: "add_missing_columns (create_all None) = idemp_columns"
  by (simp add: add_missing_columns_def create_all_def idemp_columns_def)

end
