(* ===== verification/Databases.thy ===== *)
theory Databases
  imports Effects
begin

text \<open>
  Connection settings and the named databases of a service (\<open>consistency/config.py\<close>, \<open>consistency/databases.py\<close>).
  Engines are built on first use by whichever thread comes first, so a use of a database is a machine
  whose steps other threads' steps may come between. Creating an engine is SQLAlchemy's and an argument.
\<close>

section \<open>Settings\<close>

record db_config =
  dc_backend :: string
  dc_driver :: string
  dc_username :: "string option"
  dc_password :: "string option"
  dc_host :: "string option"
  dc_port :: "int option"
  dc_database :: "string option"
  dc_query :: "(string, string) dict"
  dc_echo :: bool
  dc_pool_size :: "int option"
  dc_max_overflow :: "int option"

definition missing_setting :: "string option \<Rightarrow> bool" where
  "missing_setting v \<longleftrightarrow> v = None \<or> v = Some []"

fun comma_join :: "string list \<Rightarrow> string" where
  "comma_join [] = []"
| "comma_join [w] = w"
| "comma_join (w # ws) = w @ '', '' @ comma_join ws"

definition validate_config :: "db_config \<Rightarrow> db_config res" where
  "validate_config c =
     (if dc_backend c = ''sqlite'' then
        (if missing_setting (dc_database c) then Inl (ValueError ''sqlite backend requires `database` (a file path or ':memory:').'')
         else Inr c)
      else
        (let missing = map fst (filter (\<lambda>(f, v). missing_setting v) [(''host'', dc_host c), (''database'', dc_database c)])
         in if missing \<noteq> [] then Inl (ValueError (dc_backend c @ '' backend requires: '' @ comma_join missing)) else Inr c))"

record url_args =
  ua_drivername :: string
  ua_username :: "string option"
  ua_password :: "string option"
  ua_host :: "string option"
  ua_port :: "int option"
  ua_database :: "string option"
  ua_query :: "(string, string) dict"

text \<open>An empty password is none.\<close>

definition build_url :: "db_config \<Rightarrow> url_args" where
  "build_url c =
     \<lparr>ua_drivername = dc_backend c @ ''+'' @ dc_driver c, ua_username = dc_username c,
      ua_password = (if missing_setting (dc_password c) then None else dc_password c),
      ua_host = dc_host c, ua_port = dc_port c, ua_database = dc_database c, ua_query = dc_query c\<rparr>"

definition engine_kwargs :: "db_config \<Rightarrow> (string, pyval) dict" where
  "engine_kwargs c =
     [(''echo'', PBool (dc_echo c))]
     @ (if dc_backend c \<noteq> ''sqlite'' then
          (case dc_pool_size c of Some n \<Rightarrow> [(''pool_size'', PInt n)] | None \<Rightarrow> [])
          @ (case dc_max_overflow c of Some n \<Rightarrow> [(''max_overflow'', PInt n)] | None \<Rightarrow> [])
        else [])"

lemma validate_config_iff:
  "validate_config c = Inr c' \<longleftrightarrow> c' = c \<and> \<not> missing_setting (dc_database c) \<and> (dc_backend c = ''sqlite'' \<or> \<not> missing_setting (dc_host c))"
  by (auto simp: validate_config_def Let_def)

lemma sqlite_is_not_pooled: "dc_backend c = ''sqlite'' \<Longrightarrow> map fst (engine_kwargs c) = [''echo'']"
  by (simp add: engine_kwargs_def)

text \<open>A missing driver is reported as such, with the package to install; \<open>driver\<close> is the name the URL gives, if any.\<close>

definition create_engine_checked :: "(url_args \<Rightarrow> (string, pyval) dict \<Rightarrow> exc + 'e) \<Rightarrow> (url_args \<Rightarrow> string option) \<Rightarrow> url_args \<Rightarrow> (string, pyval) dict \<Rightarrow> exc + 'e" where
  "create_engine_checked create driver url kwargs =
     (case create url kwargs of
        Inr e \<Rightarrow> Inr e
      | Inl x \<Rightarrow>
          if ''ModuleNotFoundError'' \<in> set (x_mro x) \<or> ''NoSuchModuleError'' \<in> set (x_mro x) then
            Inl (builtin_exc [''ModuleNotFoundError'', ''ImportError'']
              (''The async database driver for this connection is not installed.''
               @ (case driver url of Some d \<Rightarrow> if d \<noteq> [] then '' Install it, e.g.: pip install '' @ d else [] | None \<Rightarrow> [])
               @ '' (SQLAlchemy: '' @ x_str x @ '')''))
          else Inl x)"

definition engine_for :: "(url_args \<Rightarrow> (string, pyval) dict \<Rightarrow> exc + 'e) \<Rightarrow> (url_args \<Rightarrow> string option) \<Rightarrow> db_config \<Rightarrow> exc + 'e" where
  "engine_for create driver c = create_engine_checked create driver (build_url c) (engine_kwargs c)"

section \<open>The registry\<close>

text \<open>\<open>create\<close> is \<open>engine_for\<close>; \<open>text_of\<close> words the error of an unknown name.\<close>

record 'e databases =
  db_configs :: "(string, db_config) dict"
  db_engines :: "(string, 'e) dict"
  db_makers :: "(string, 'e) dict"
  db_lock :: "nat option"

definition new_databases :: "(string, db_config) dict \<Rightarrow> 'e databases" where
  "new_databases configs = \<lparr>db_configs = configs, db_engines = [], db_makers = [], db_lock = None\<rparr>"

definition require_config :: "(string \<Rightarrow> string list \<Rightarrow> string) \<Rightarrow> 'e databases \<Rightarrow> string \<Rightarrow> exc + db_config" where
  "require_config text_of s name =
     (case map_of (db_configs s) name of
        Some c \<Rightarrow> Inr c
      | None \<Rightarrow> Inl (key_error (text_of name (sort (map fst (db_configs s))))))"

text \<open>A thread that wants the engine of a name, or a session of it. The build holds the lock for two assignments.\<close>

datatype db_use = WantEngine | WantSession

datatype 'e db_pc = Look | Lock | Inside | HaveEngine 'e | Use | Got 'e | Failed exc

definition db_step ::
  "(db_config \<Rightarrow> exc + 'e) \<Rightarrow> (string \<Rightarrow> string list \<Rightarrow> string) \<Rightarrow> nat \<Rightarrow> string \<Rightarrow> db_use \<Rightarrow> 'e db_pc \<Rightarrow> 'e databases
   \<Rightarrow> string list \<times> 'e db_pc \<times> 'e databases" where
  "db_step create text_of i name use pc s =
     (case pc of
        Look \<Rightarrow> ([], if map_of (db_engines s) name \<noteq> None then Use else Lock, s)
      | Lock \<Rightarrow> if db_lock s = None then ([], Inside, s\<lparr>db_lock := Some i\<rparr>) else ([], Lock, s)
      | Inside \<Rightarrow>
          if map_of (db_engines s) name \<noteq> None then ([], Use, s\<lparr>db_lock := None\<rparr>)
          else (case res_bind (require_config text_of s name) create of
                  Inl e \<Rightarrow> ([], Failed e, s\<lparr>db_lock := None\<rparr>)
                | Inr e \<Rightarrow> ([name], HaveEngine e, s\<lparr>db_engines := AList.update name e (db_engines s)\<rparr>))
      | HaveEngine e \<Rightarrow> ([], Use, s\<lparr>db_makers := AList.update name e (db_makers s), db_lock := None\<rparr>)
      | Use \<Rightarrow>
          (case map_of (if use = WantEngine then db_engines s else db_makers s) name of
             Some e \<Rightarrow> ([], Got e, s)
           | None \<Rightarrow> ([], Failed (key_error name), s))
      | _ \<Rightarrow> ([], pc, s))"

type_synonym 'e db_threads = "nat \<rightharpoonup> string \<times> db_use \<times> 'e db_pc"

datatype db_sched = StartUse nat string db_use | StepUse nat

text \<open>A run gives the names engines were created for.\<close>

fun db_run ::
  "(db_config \<Rightarrow> exc + 'e) \<Rightarrow> (string \<Rightarrow> string list \<Rightarrow> string) \<Rightarrow> db_sched list \<Rightarrow> 'e databases \<Rightarrow> 'e db_threads
   \<Rightarrow> string list \<times> 'e databases \<times> 'e db_threads" where
  "db_run create tx [] s m = ([], s, m)"
| "db_run create tx (StartUse i name use # xs) s m = db_run create tx xs s (if m i = None then m(i \<mapsto> (name, use, Look)) else m)"
| "db_run create tx (StepUse i # xs) s m =
     (case m i of
        None \<Rightarrow> db_run create tx xs s m
      | Some (name, use, pc) \<Rightarrow>
          (case db_step create tx i name use pc s of (made, pc', s') \<Rightarrow>
             (case db_run create tx xs s' (m(i \<mapsto> (name, use, pc'))) of (made2, r) \<Rightarrow> (made @ made2, r))))"

text \<open>What the lock keeps: only its holder is inside.\<close>

fun holds_lock :: "'e db_pc \<Rightarrow> bool" where
  "holds_lock Inside = True"
| "holds_lock (HaveEngine e) = True"
| "holds_lock pc = False"

definition lock_ok :: "'e databases \<Rightarrow> 'e db_threads \<Rightarrow> bool" where
  "lock_ok s m \<longleftrightarrow> (\<forall>i name use pc. m i = Some (name, use, pc) \<longrightarrow> (holds_lock pc \<longleftrightarrow> db_lock s = Some i))
     \<and> (\<forall>i. db_lock s = Some i \<longrightarrow> m i \<noteq> None)"

lemma lock_ok_start: "lock_ok s m \<Longrightarrow> lock_ok s (if m i = None then m(i \<mapsto> (name, use, Look)) else m)"
  by (auto simp: lock_ok_def)

lemma lock_ok_step:
  assumes "lock_ok s m" "m i = Some (name, use, pc)" "db_step create tx i name use pc s = (made, pc', s')"
  shows "lock_ok s' (m(i \<mapsto> (name, use, pc')))"
proof -
  have i: "holds_lock pc \<longleftrightarrow> db_lock s = Some i" using assms(1,2) unfolding lock_ok_def by blast
  have others: "m j = Some (n, u, q) \<Longrightarrow> holds_lock q \<longleftrightarrow> db_lock s = Some j" for j n u q using assms(1) unfolding lock_ok_def by blast
  have held: "db_lock s = Some j \<Longrightarrow> m j \<noteq> None" for j using assms(1) unfolding lock_ok_def by blast
  have s': "holds_lock pc' \<longleftrightarrow> db_lock s' = Some i" "j \<noteq> i \<Longrightarrow> db_lock s' = Some j \<longleftrightarrow> db_lock s = Some j" for j
    using assms(3) i by (cases pc; auto simp: db_step_def split: if_splits sum.splits option.splits)+
  show ?thesis
    unfolding lock_ok_def
  proof (intro conjI allI impI)
    fix j n u q assume "(m(i \<mapsto> (name, use, pc'))) j = Some (n, u, q)"
    then show "holds_lock q \<longleftrightarrow> db_lock s' = Some j" using s' others by (cases "j = i") auto
  next
    fix j assume "db_lock s' = Some j"
    then show "(m(i \<mapsto> (name, use, pc'))) j \<noteq> None" using s' held by (cases "j = i") auto
  qed
qed

abbreviation engine_of :: "'e databases \<Rightarrow> string \<rightharpoonup> 'e" where
  "engine_of s \<equiv> map_of (db_engines s)"

lemma db_step_engines:
  assumes "db_step create tx i name use pc s = (made, pc', s')"
  shows "dom (engine_of s') = dom (engine_of s) \<union> set made" "distinct made" "set made \<inter> dom (engine_of s) = {}"
    "engine_of s \<subseteq>\<^sub>m engine_of s'"
  using assms by (auto simp: db_step_def map_le_def split: db_pc.splits if_splits sum.splits option.splits)

text \<open>Whom a thread has an engine from.\<close>

definition engines_ok :: "'e databases \<Rightarrow> 'e db_threads \<Rightarrow> bool" where
  "engines_ok s m \<longleftrightarrow> map_of (db_makers s) \<subseteq>\<^sub>m engine_of s
     \<and> (\<forall>i name use e. m i = Some (name, use, HaveEngine e) \<or> m i = Some (name, use, Got e) \<longrightarrow> engine_of s name = Some e)"

lemma engines_ok_step:
  assumes "engines_ok s m" "m i = Some (name, use, pc)" "db_step create tx i name use pc s = (made, pc', s')"
  shows "engines_ok s' (m(i \<mapsto> (name, use, pc')))"
proof -
  have mk: "map_of (db_makers s) \<subseteq>\<^sub>m engine_of s" using assms(1) by (simp add: engines_ok_def)
  have th: "m j = Some (n, u, HaveEngine e) \<or> m j = Some (n, u, Got e) \<Longrightarrow> engine_of s n = Some e" for j n u e
    using assms(1) unfolding engines_ok_def by blast
  have up: "engine_of s n = Some e \<Longrightarrow> engine_of s' n = Some e" for n e
    using db_step_engines(4) [OF assms(3)] by (auto simp: map_le_def dom_def)
  have mk': "map_of (db_makers s) n = Some e \<Longrightarrow> engine_of s n = Some e" for n e using mk by (auto simp: map_le_def dom_def)
  have own: "pc = HaveEngine e \<or> pc = Got e \<Longrightarrow> engine_of s name = Some e" for e using th assms(2) by blast
  have new: "pc' = HaveEngine e \<or> pc' = Got e \<Longrightarrow> engine_of s' name = Some e" for e
    using assms(3) own mk' by (cases pc) (auto simp: db_step_def split: if_splits sum.splits option.splits)
  have mk2: "db_makers s' = db_makers s \<or> (\<exists>e. pc = HaveEngine e \<and> db_makers s' = AList.update name e (db_makers s))"
    using assms(3) by (cases pc) (auto simp: db_step_def split: if_splits sum.splits option.splits)
  have "engine_of s' n = Some e" if "map_of (db_makers s') n = Some e" for n e
  proof (cases "map_of (db_makers s) n = Some e")
    case True then show ?thesis by (rule up [OF mk'])
  next
    case False
    then have "db_makers s' \<noteq> db_makers s" using that by auto
    then obtain e1 where e1: "pc = HaveEngine e1" "db_makers s' = AList.update name e1 (db_makers s)" using mk2 by blast
    then have "n = name" "e1 = e" using that False by (auto split: if_splits)
    then show ?thesis using up own e1(1) by blast
  qed
  then have "map_of (db_makers s') \<subseteq>\<^sub>m engine_of s'" by (auto simp: map_le_def)
  moreover have "engine_of s' n = Some e"
    if "(m(i \<mapsto> (name, use, pc'))) j = Some (n, u, HaveEngine e) \<or> (m(i \<mapsto> (name, use, pc'))) j = Some (n, u, Got e)" for j n u e
  proof (cases "j = i")
    case True
    then have "n = name" "pc' = HaveEngine e \<or> pc' = Got e" using that by auto
    then show ?thesis using new by simp
  next
    case False
    then have "m j = Some (n, u, HaveEngine e) \<or> m j = Some (n, u, Got e)" using that by simp
    then show ?thesis by (rule up [OF th])
  qed
  ultimately show ?thesis unfolding engines_ok_def by blast
qed

lemma db_run_engines:
  assumes "db_run create tx xs s m = (made, s', m')" "engines_ok s m"
  shows "distinct made \<and> set made \<inter> dom (engine_of s) = {} \<and> dom (engine_of s') = dom (engine_of s) \<union> set made
    \<and> engine_of s \<subseteq>\<^sub>m engine_of s' \<and> engines_ok s' m'"
  using assms
proof (induction create tx xs s m arbitrary: made rule: db_run.induct)
  case (2 create tx i name use xs s m)
  have "engines_ok s (if m i = None then m(i \<mapsto> (name, use, Look)) else m)" using 2(3) by (simp add: engines_ok_def)
  then show ?case using 2(1) [of made] 2(2) by simp
next
  case (3 create tx i xs s m)
  show ?case
  proof (cases "m i")
    case (Some t)
    obtain name use pc where t: "t = (name, use, pc)" by (cases t)
    obtain made1 pc1 s1 where st: "db_step create tx i name use pc s = (made1, pc1, s1)" by (metis prod.collapse)
    obtain made2 where r2: "db_run create tx xs s1 (m(i \<mapsto> (name, use, pc1))) = (made2, s', m')" "made = made1 @ made2"
      using 3(3) Some t st by (auto split: prod.splits)
    have ok: "engines_ok s1 (m(i \<mapsto> (name, use, pc1)))" using engines_ok_step [OF 3(4) _ st] Some t by simp
    have IH: "distinct made2 \<and> set made2 \<inter> dom (engine_of s1) = {} \<and> dom (engine_of s') = dom (engine_of s1) \<union> set made2
      \<and> engine_of s1 \<subseteq>\<^sub>m engine_of s' \<and> engines_ok s' m'"
      by (rule 3(2) [OF Some t [symmetric] refl st [symmetric] refl r2(1) ok])
    have 1: "distinct made" using IH db_step_engines(1,2) [OF st] r2(2) by auto
    have 2: "set made \<inter> dom (engine_of s) = {}" using IH db_step_engines(1,3) [OF st] r2(2) by auto
    have 3: "dom (engine_of s') = dom (engine_of s) \<union> set made" using IH db_step_engines(1) [OF st] r2(2) by auto
    have 4: "engine_of s \<subseteq>\<^sub>m engine_of s'" using IH db_step_engines(4) [OF st] by (blast intro: map_le_trans)
    show ?thesis using 1 2 3 4 IH by blast
  qed (use 3 in auto)
qed auto

text \<open>However threads interleave, an engine is created at most once for a name, and all who ask for it get that one.\<close>

theorem engines_are_shared:
  assumes "db_run create tx xs (new_databases configs) Map.empty = (made, s', m')"
  shows "distinct made \<and> (\<forall>i name use e. m' i = Some (name, use, Got e) \<longrightarrow> name \<in> set made \<and> engine_of s' name = Some e)"
proof -
  have "engines_ok (new_databases configs) Map.empty" by (simp add: engines_ok_def new_databases_def)
  from db_run_engines [OF assms this] have "distinct made" "dom (engine_of s') = set made" "engines_ok s' m'"
    by (simp_all add: new_databases_def)
  then show ?thesis unfolding engines_ok_def by blast
qed

text \<open>The engine is there before the maker of its sessions: a thread that looks in between fails.\<close>

lemma session_in_between_fails:
  assumes "map_of configs ''app'' = Some c" "create c = Inr e"
  shows "db_run create tx [StartUse 1 ''app'' WantSession, StepUse 1, StepUse 1, StepUse 1,
      StartUse 2 ''app'' WantSession, StepUse 2, StepUse 2] (new_databases configs) Map.empty
    = ([''app''], \<lparr>db_configs = configs, db_engines = [(''app'', e)], db_makers = [], db_lock = Some 1\<rparr>,
       [1 \<mapsto> (''app'', WantSession, HaveEngine e), 2 \<mapsto> (''app'', WantSession, Failed (key_error ''app''))])"
  using assms by (simp add: new_databases_def db_step_def require_config_def fun_eq_iff)

text \<open>Providers are kept by name, so that an override can match them; the first argument numbers new ones.\<close>

definition session_dependency ::
  "(string \<Rightarrow> string list \<Rightarrow> string) \<Rightarrow> 'e databases \<Rightarrow> string \<Rightarrow> (string, nat) dict \<Rightarrow> (exc + nat) \<times> (string, nat) dict" where
  "session_dependency tx s name providers =
     (case require_config tx s name of
        Inl e \<Rightarrow> (Inl e, providers)
      | Inr _ \<Rightarrow>
          (case map_of providers name of
             Some i \<Rightarrow> (Inr i, providers)
           | None \<Rightarrow> (Inr (length providers), AList.update name (length providers) providers)))"

lemma provider_is_stable:
  "session_dependency tx s name ps = (Inr i, ps') \<Longrightarrow> session_dependency tx s name ps' = (Inr i, ps')"
  by (auto simp: session_dependency_def split: sum.splits option.splits)

text \<open>\<open>dispose_all\<close>: the first engine that fails to close leaves the registry as it is.\<close>

fun dispose_each :: "('e \<Rightarrow> exc option) \<Rightarrow> 'e list \<Rightarrow> exc option" where
  "dispose_each dispose [] = None"
| "dispose_each dispose (e # es) = (case dispose e of Some x \<Rightarrow> Some x | None \<Rightarrow> dispose_each dispose es)"

definition dispose_all :: "('e \<Rightarrow> exc option) \<Rightarrow> 'e databases \<Rightarrow> exc option \<times> 'e databases" where
  "dispose_all dispose s =
     (case dispose_each dispose (map snd (db_engines s)) of
        Some x \<Rightarrow> (Some x, s)
      | None \<Rightarrow> (None, s\<lparr>db_engines := [], db_makers := []\<rparr>))"

lemma dispose_each_all: "dispose_each dispose es = None \<longleftrightarrow> (\<forall>e \<in> set es. dispose e = None)"
  by (induction es) (auto split: option.splits)

lemma dispose_all_clears: "dispose_all dispose s = (None, s') \<Longrightarrow> db_engines s' = [] \<and> (\<forall>(n, e) \<in> set (db_engines s). dispose e = None)"
  by (auto simp: dispose_all_def dispose_each_all split: option.splits)

end
