(* ===== verification/Registration.thy ===== *)
theory Registration
  imports Mesh Web Subscribe
begin

text \<open>
  What a node registers: the constructor of the application (\<open>app/_base.py\<close>), the decorators of
  \<open>app/messaging.py\<close>, \<open>app/streaming.py\<close>, \<open>app/queues.py\<close> and \<open>app/approvals.py\<close>, and routers, which
  put registrations off until they are included (\<open>routing.py\<close>). Serializers, callbacks and stores of the
  user are numbers here; what counts is which one an endpoint gets.
\<close>

section \<open>Endpoints\<close>

type_synonym user_object = nat

definition JSON :: user_object where
  "JSON = 0"

definition or_json :: "user_object option \<Rightarrow> user_object" where
  "or_json s = (case s of None \<Rightarrow> JSON | Some x \<Rightarrow> x)"

text \<open>What the constructors of the wrappers ask of a function.\<close>

record user_fn =
  fn_name :: string
  fn_takes_self :: bool
  fn_async_gen :: bool
  fn_coroutine :: bool

text \<open>A wrapper keeps the application's own dictionary of overrides, or an empty one of its own.\<close>

datatype overrides_ref = AppOverrides | OwnOverrides

record handle_args =
  ha_serializer :: "user_object option"
  ha_retry :: retry_arg
  ha_durability :: durability_arg
  ha_authorizer :: handler_authorizer
  ha_http :: "http_spec option"
  ha_approval :: pyval
  ha_lease :: "time option"

record handler_entry =
  he_func :: user_fn
  he_prefix :: string
  he_serializer :: user_object
  he_retry :: retry_policy
  he_durability :: durability
  he_authorizer :: "authorizer option"
  he_approval :: pyval
  he_lease :: time
  he_overrides :: overrides_ref

record query_args =
  qa_timeout_s :: time
  qa_retry :: retry_arg
  qa_serializer :: "user_object option"
  qa_token :: "string option"

record query_entry =
  qe_func :: user_fn
  qe_prefix :: string
  qe_serializer :: user_object
  qe_timeout_s :: time
  qe_retry :: retry_policy
  qe_overrides :: overrides_ref
  qe_attachment :: "string option"

datatype store_arg = StoreUrl string | StoreObject user_object

record publish_args =
  pa_use_shm :: bool
  pa_serializer :: "user_object option"
  pa_durable :: bool
  pa_cache :: int
  pa_heartbeat :: time
  pa_reliability :: "user_object option"
  pa_congestion :: "user_object option"
  pa_persist :: "string option"

record publish_entry =
  pe_func :: user_fn
  pe_prefix :: string
  pe_serializer :: user_object
  pe_use_shm :: bool
  pe_durable :: bool
  pe_cache :: int
  pe_heartbeat :: time
  pe_reliability :: "user_object option"
  pe_congestion :: "user_object option"
  pe_overrides :: overrides_ref

record subscribe_args =
  sa_retry :: retry_arg
  sa_serializer :: "user_object option"
  sa_durable :: bool
  sa_replay :: int
  sa_recover :: bool
  sa_on_miss :: "user_object option"
  sa_authorizer :: handler_authorizer
  sa_replay_persisted :: bool
  sa_dedup :: dedup_arg

record subscribe_entry =
  se_func :: user_fn
  se_prefix :: string
  se_serializer :: user_object
  se_retry :: retry_policy
  se_durable :: bool
  se_replay :: int
  se_recover :: bool
  se_on_miss :: "user_object option"
  se_authorizer :: "authorizer option"
  se_replay_persisted :: bool
  se_dedup :: int
  se_overrides :: overrides_ref

record stream_args =
  ta_serializer :: "user_object option"
  ta_authorizer :: handler_authorizer
  ta_http :: "http_spec option"
  ta_http_timeout_s :: time

record stream_entry =
  te_func :: user_fn
  te_prefix :: string
  te_serializer :: user_object
  te_authorizer :: "authorizer option"
  te_overrides :: overrides_ref

text \<open>\<open>ws\<close> is a path, or a boolean of which only that it is not \<open>None\<close> is looked at.\<close>

datatype ws_arg = WsBool bool | WsPath string

record channel_args =
  ca_serializer :: "user_object option"
  ca_authorizer :: handler_authorizer
  ca_ws :: "ws_arg option"
  ca_durable :: bool

record channel_entry =
  ce_func :: user_fn
  ce_prefix :: string
  ce_serializer :: user_object
  ce_authorizer :: "authorizer option"
  ce_durable :: bool
  ce_overrides :: overrides_ref

record client_args =
  cl_serializer :: "user_object option"
  cl_timeout_s :: time
  cl_token :: "string option"

record client_entry =
  le_func :: user_fn
  le_prefix :: string
  le_serializer :: "user_object option"
  le_timeout_s :: time
  le_token :: "string option"
  le_overrides :: overrides_ref

record worker_args =
  wa_concurrency :: int
  wa_poll_s :: time
  wa_serializer :: "user_object option"
  wa_token :: "string option"

record worker_entry =
  we_func :: user_fn
  we_prefix :: string
  we_concurrency :: int
  we_poll_s :: time
  we_serializer :: user_object
  we_token :: "string option"
  we_overrides :: overrides_ref

record liveliness_entry =
  ve_func :: user_fn
  ve_prefix :: string
  ve_overrides :: overrides_ref

text \<open>\<open>uuid4\<close> names the replica.\<close>

record queue_args =
  ua_uuid :: string
  ua_lease_s :: time
  ua_max_attempts :: int
  ua_backoff_s :: time
  ua_backoff_max_s :: time
  ua_jitter :: rat
  ua_keep_results :: bool
  ua_result_ttl_s :: time
  ua_dead_letter_ttl_s :: "time option"
  ua_chord_ttl_s :: "time option"
  ua_ha :: bool
  ua_authorizer :: handler_authorizer
  ua_store :: "store option"

record schedule_args =
  da_data :: pyval
  da_every_s :: "time option"
  da_cron :: "string option"
  da_initial_s :: "time option"
  da_priority :: int
  da_token :: "string option"

datatype wrapper =
    HandlerW handler_entry | QueryW query_entry | PublishW publish_entry | SubscribeW subscribe_entry
  | StreamW stream_entry | ChannelW channel_entry | StreamClientW client_entry | ChannelClientW client_entry
  | WorkerW worker_entry | LivelinessW liveliness_entry

section \<open>The application\<close>

text \<open>The registries, and what of the constructor's arguments the decorators read. A route of a WebSocket
  names the place of its channel.\<close>

record application =
  an_service :: string
  an_authorizer :: "authorizer option"
  an_storage :: "backend option"
  an_overrides :: "(string, string) dict"
  an_health :: bool
  an_metrics :: bool
  an_discovery :: bool
  an_builtins_done :: bool
  an_middleware :: "string list"
  an_http_port :: "int option"
  an_gate :: "(string \<times> string) option"
  rs_handlers :: "handler_entry list"
  rs_queries :: "query_entry list"
  rs_publishers :: "publish_entry list"
  rs_subscribers :: "subscribe_entry list"
  rs_streams :: "stream_entry list"
  rs_channels :: "channel_entry list"
  rs_http_routes :: "http_route list"
  rs_ws_routes :: "(string \<times> nat) list"
  rs_persist :: "(string \<times> user_object) list"
  rs_live_subs :: "liveliness_entry list"
  rs_live_declares :: "string list"
  rs_queues :: "role list"
  rs_workers :: "worker_entry list"
  rs_schedules :: "schedule list"
  rs_warned :: "string list"

section \<open>The constructor\<close>

text \<open>A configuration is the raw one of Zenoh, or one of Istos that asks for an asynchronous session or not;
  building it, the engines and the plugins may raise.\<close>

datatype config_arg = RawConfig | IstosConfig bool

datatype session_manager = GivenManager | AsyncManager | SyncManager

datatype ledger_source = GivenLedger | ConfiguredLedger | NamedLedger string | MemoryLedger

record init_env =
  ie_build_config :: "exc + unit"
  ie_engine :: "string \<Rightarrow> exc + unit"
  ie_plugin :: "exc + unit"
  ie_tracing :: bool

record init_args =
  ia_session_manager :: bool
  ia_config :: "config_arg option"
  ia_storage :: "backend option"
  ia_storage_config :: bool
  ia_databases :: "string list"
  ia_storage_database :: "string option"
  ia_service :: string
  ia_authorizer :: "authorizer option"
  ia_require_auth :: bool
  ia_health :: bool
  ia_metrics :: bool
  ia_discovery :: bool
  ia_enable_tracing :: bool
  ia_http_port :: "int option"

definition choose_manager :: "init_env \<Rightarrow> init_args \<Rightarrow> exc + session_manager" where
  "choose_manager env x =
     (case ia_config x of
        None \<Rightarrow> Inr (if ia_session_manager x then GivenManager else AsyncManager)
      | Some c \<Rightarrow>
          if ia_session_manager x then Inl (value_error ''Pass either 'config' or 'session_manager', not both.'')
          else (case c of
                  RawConfig \<Rightarrow> Inr AsyncManager
                | IstosConfig async \<Rightarrow> (case ie_build_config env of Inl e \<Rightarrow> Inl e | Inr _ \<Rightarrow> Inr (if async then AsyncManager else SyncManager))))"

definition ledger_sources :: "init_args \<Rightarrow> nat" where
  "ledger_sources x = length (filter id [ia_storage x \<noteq> None, ia_storage_config x, ia_storage_database x \<noteq> None])"

definition choose_ledger :: "init_env \<Rightarrow> init_args \<Rightarrow> exc + ledger_source" where
  "choose_ledger env x =
     (if 1 < ledger_sources x then Inl (value_error ''Specify at most one of storage, storage_config, storage_database'')
      else case ia_storage_database x of
             Some name \<Rightarrow>
               if name \<notin> set (ia_databases x) then Inl (value_error ''storage_database is not in databases'')
               else (case ie_engine env name of Inl e \<Rightarrow> Inl e | Inr _ \<Rightarrow> Inr (NamedLedger name))
           | None \<Rightarrow>
               if ia_storage_config x then (case ie_plugin env of Inl e \<Rightarrow> Inl e | Inr _ \<Rightarrow> Inr ConfiguredLedger)
               else Inr (if ia_storage x \<noteq> None then GivenLedger else MemoryLedger))"

definition middleware_of :: "init_env \<Rightarrow> init_args \<Rightarrow> string list" where
  "middleware_of env x = [''correlation'', ''logging''] @ (if ia_metrics x then [''prometheus''] else [])
     @ (if ia_enable_tracing x \<and> ie_tracing env then [''tracing''] else [])"

definition new_app :: "init_env \<Rightarrow> init_args \<Rightarrow> application" where
  "new_app env x =
     \<lparr>an_service = ia_service x, an_authorizer = ia_authorizer x, an_storage = ia_storage x, an_overrides = [],
      an_health = ia_health x, an_metrics = ia_metrics x, an_discovery = ia_discovery x, an_builtins_done = False,
      an_middleware = middleware_of env x, an_http_port = ia_http_port x, an_gate = None,
      rs_handlers = [], rs_queries = [], rs_publishers = [], rs_subscribers = [], rs_streams = [], rs_channels = [],
      rs_http_routes = [], rs_ws_routes = [], rs_persist = [], rs_live_subs = [], rs_live_declares = [], rs_queues = [],
      rs_workers = [], rs_schedules = [], rs_warned = []\<rparr>"

definition istos_init :: "init_env \<Rightarrow> init_args \<Rightarrow> exc + session_manager \<times> ledger_source \<times> application" where
  "istos_init env x =
     (case choose_manager env x of
        Inl e \<Rightarrow> Inl e
      | Inr m \<Rightarrow>
          (case choose_ledger env x of
             Inl e \<Rightarrow> Inl e
           | Inr l \<Rightarrow>
               if ia_require_auth x \<and> ia_authorizer x = None
               then Inl (builtin_exc [''IstosSecurityError''] ''Istos(require_auth=True) requires an app-wide authorizer'')
               else Inr (m, l, new_app env x)))"

section \<open>Overrides\<close>

text \<open>\<open>dependency_overrides if dependency_overrides is not None else {}\<close>, and \<open>dependency_overrides or {}\<close>.\<close>

definition overrides_if_given :: "application \<Rightarrow> overrides_ref" where
  "overrides_if_given a = AppOverrides"

definition overrides_or_own :: "application \<Rightarrow> overrides_ref" where
  "overrides_or_own a = (if an_overrides a = [] then OwnOverrides else AppOverrides)"

definition overrides_now :: "application \<Rightarrow> overrides_ref \<Rightarrow> (string, string) dict" where
  "overrides_now a r = (case r of AppOverrides \<Rightarrow> an_overrides a | OwnOverrides \<Rightarrow> [])"

type_synonym 'a registering = "(application, 'a) act"

definition change :: "(application \<Rightarrow> application) \<Rightarrow> unit registering" where
  "change f a = (Inr (), f a)"

section \<open>Messages\<close>

definition new_handler :: "application \<Rightarrow> string \<Rightarrow> handle_args \<Rightarrow> user_fn \<Rightarrow> handler_entry res" where
  "new_handler a p args f =
     res_bind (retry_of (ha_retry args)) (\<lambda>r. res_bind (durability_of (ha_durability args)) (\<lambda>d.
       Inr \<lparr>he_func = f, he_prefix = p, he_serializer = or_json (ha_serializer args), he_retry = r, he_durability = d,
            he_authorizer = combine_authorizers (an_authorizer a) (ha_authorizer args), he_approval = ha_approval args,
            he_lease = (case ha_lease args of None \<Rightarrow> DEFAULT_CLAIM_LEASE_S | Some l \<Rightarrow> l),
            he_overrides = overrides_if_given a\<rparr>))"

definition add_route :: "http_spec option \<Rightarrow> string \<Rightarrow> time \<Rightarrow> bool \<Rightarrow> unit registering" where
  "add_route http p timeout_s sse =
     (case http of None \<Rightarrow> act_return ()
      | Some spec \<Rightarrow> act_bind (act_of (lift_res (parse_http_spec spec p timeout_s sse)))
          (\<lambda>r. change (\<lambda>a. a\<lparr>rs_http_routes := rs_http_routes a @ [r]\<rparr>)))"

definition app_handle :: "string \<Rightarrow> handle_args \<Rightarrow> user_fn \<Rightarrow> wrapper registering" where
  "app_handle p args f =
     act_bind (add_route (ha_http args) p 5 False) (\<lambda>_ a.
       act_bind (act_of (lift_res (new_handler a p args f))) (\<lambda>h.
         act_bind (change (\<lambda>a. a\<lparr>rs_handlers := rs_handlers a @ [h]\<rparr>)) (\<lambda>_. act_return (HandlerW h))) a)"

definition app_query :: "string \<Rightarrow> query_args \<Rightarrow> user_fn \<Rightarrow> wrapper registering" where
  "app_query p args f a =
     act_bind (act_of (lift_res (retry_of (qa_retry args)))) (\<lambda>r.
       let q = \<lparr>qe_func = f, qe_prefix = p, qe_serializer = or_json (qa_serializer args), qe_timeout_s = qa_timeout_s args,
                qe_retry = r, qe_overrides = overrides_if_given a, qe_attachment = qa_token args\<rparr>
       in act_bind (change (\<lambda>a. a\<lparr>rs_queries := rs_queries a @ [q]\<rparr>)) (\<lambda>_. act_return (QueryW q))) a"

definition app_persist :: "(string \<Rightarrow> exc + user_object) \<Rightarrow> string \<Rightarrow> store_arg \<Rightarrow> unit registering" where
  "app_persist parse_url p st =
     act_bind (act_of (case st of StoreUrl u \<Rightarrow> parse_url u | StoreObject x \<Rightarrow> Inr x))
       (\<lambda>x. change (\<lambda>a. a\<lparr>rs_persist := rs_persist a @ [(p, x)]\<rparr>))"

definition app_publish :: "(string \<Rightarrow> exc + user_object) \<Rightarrow> string \<Rightarrow> publish_args \<Rightarrow> user_fn \<Rightarrow> wrapper registering" where
  "app_publish parse_url p args f =
     act_bind (case pa_persist args of None \<Rightarrow> act_return () | Some u \<Rightarrow> app_persist parse_url p (StoreUrl u)) (\<lambda>_ a.
       if pa_durable args \<and> pa_use_shm args
       then act_raise (value_error ''durable=True and use_shm=True cannot be combined'') a
       else (let w = \<lparr>pe_func = f, pe_prefix = p, pe_serializer = or_json (pa_serializer args), pe_use_shm = pa_use_shm args,
                      pe_durable = pa_durable args, pe_cache = pa_cache args, pe_heartbeat = pa_heartbeat args,
                      pe_reliability = pa_reliability args, pe_congestion = pa_congestion args, pe_overrides = overrides_if_given a\<rparr>
             in act_bind (change (\<lambda>a. a\<lparr>rs_publishers := rs_publishers a @ [w]\<rparr>)) (\<lambda>_. act_return (PublishW w)) a))"

definition app_subscribe :: "string \<Rightarrow> subscribe_args \<Rightarrow> user_fn \<Rightarrow> wrapper registering" where
  "app_subscribe p args f a =
     act_bind (act_of (lift_res (subscriber_retry (sa_retry args)))) (\<lambda>r.
       let w = \<lparr>se_func = f, se_prefix = p, se_serializer = or_json (sa_serializer args), se_retry = r,
                se_durable = sa_durable args, se_replay = sa_replay args, se_recover = sa_recover args, se_on_miss = sa_on_miss args,
                se_authorizer = combine_authorizers (an_authorizer a) (sa_authorizer args),
                se_replay_persisted = sa_replay_persisted args, se_dedup = dedup_window (sa_dedup args),
                se_overrides = overrides_if_given a\<rparr>
       in act_bind (change (\<lambda>a. a\<lparr>rs_subscribers := rs_subscribers a @ [w]\<rparr>)) (\<lambda>_. act_return (SubscribeW w))) a"

definition app_on_liveliness :: "string \<Rightarrow> user_fn \<Rightarrow> wrapper registering" where
  "app_on_liveliness p f a =
     (let w = \<lparr>ve_func = f, ve_prefix = p, ve_overrides = overrides_if_given a\<rparr>
      in act_bind (change (\<lambda>a. a\<lparr>rs_live_subs := rs_live_subs a @ [w]\<rparr>)) (\<lambda>_. act_return (LivelinessW w)) a)"

definition app_declare_liveliness :: "string \<Rightarrow> unit registering" where
  "app_declare_liveliness p = change (\<lambda>a. a\<lparr>rs_live_declares := rs_live_declares a @ [p]\<rparr>)"

section \<open>Streams and channels\<close>

definition app_stream :: "string \<Rightarrow> stream_args \<Rightarrow> user_fn \<Rightarrow> wrapper registering" where
  "app_stream p args f =
     act_bind (add_route (ta_http args) p (ta_http_timeout_s args) True) (\<lambda>_ a.
       if \<not> fn_async_gen f then act_raise (type_error ''@stream requires an async generator function'') a
       else (let w = \<lparr>te_func = f, te_prefix = p, te_serializer = or_json (ta_serializer args),
                      te_authorizer = combine_authorizers (an_authorizer a) (ta_authorizer args), te_overrides = overrides_if_given a\<rparr>
             in act_bind (change (\<lambda>a. a\<lparr>rs_streams := rs_streams a @ [w]\<rparr>)) (\<lambda>_. act_return (StreamW w)) a))"

definition ws_path :: "ws_arg \<Rightarrow> string \<Rightarrow> string" where
  "ws_path ws p =
     (let path = (case ws of WsPath s \<Rightarrow> s | WsBool b \<Rightarrow> ''/'' @ lstrip_char (CHR ''/'') p)
      in if starts_with path ''/'' then path else ''/'' @ path)"

definition app_channel :: "string \<Rightarrow> channel_args \<Rightarrow> user_fn \<Rightarrow> wrapper registering" where
  "app_channel p args f a =
     (if \<not> fn_coroutine f then act_raise (type_error ''@channel requires an async function'') a
      else (let w = \<lparr>ce_func = f, ce_prefix = p, ce_serializer = or_json (ca_serializer args),
                     ce_authorizer = combine_authorizers (an_authorizer a) (ca_authorizer args),
                     ce_durable = ca_durable args, ce_overrides = overrides_or_own a\<rparr>
            in act_bind (change (\<lambda>a. a\<lparr>rs_channels := rs_channels a @ [w]\<rparr>)) (\<lambda>_.
                 act_bind (case ca_ws args of None \<Rightarrow> act_return ()
                           | Some ws \<Rightarrow> change (\<lambda>a. a\<lparr>rs_ws_routes := rs_ws_routes a @ [(ws_path ws p, length (rs_channels a) - 1)]\<rparr>))
                   (\<lambda>_. act_return (ChannelW w))) a))"

definition new_client :: "application \<Rightarrow> string \<Rightarrow> client_args \<Rightarrow> user_fn \<Rightarrow> client_entry" where
  "new_client a p args f = \<lparr>le_func = f, le_prefix = p, le_serializer = cl_serializer args, le_timeout_s = cl_timeout_s args,
     le_token = cl_token args, le_overrides = overrides_or_own a\<rparr>"

definition app_stream_client :: "string \<Rightarrow> client_args \<Rightarrow> user_fn \<Rightarrow> wrapper registering" where
  "app_stream_client p args f a = (Inr (StreamClientW (new_client a p args f)), a)"

definition app_channel_client :: "string \<Rightarrow> client_args \<Rightarrow> user_fn \<Rightarrow> wrapper registering" where
  "app_channel_client p args f a = (Inr (ChannelClientW (new_client a p args f)), a)"

section \<open>Queues\<close>

definition app_queue :: "string \<Rightarrow> queue_args \<Rightarrow> unit registering" where
  "app_queue p args a =
     (let st = (case ua_store args of Some s \<Rightarrow> s
                | None \<Rightarrow> new_store (slashless p) (an_storage a) (ua_keep_results args) (ua_result_ttl_s args)
                    (ua_dead_letter_ttl_s args) (ua_chord_ttl_s args));
          r = role_init (ua_uuid args) p st (ua_lease_s args) (ua_max_attempts args) (ua_backoff_s args) (ua_backoff_max_s args)
                (ua_jitter args) (ua_ha args) (combine_authorizers (an_authorizer a) (ua_authorizer args))
      in change (\<lambda>a. a\<lparr>rs_queues := rs_queues a @ [r],
           rs_warned := (if ua_ha args \<and> \<not> is_shared (r_store r) then rs_warned a @ [p] else rs_warned a)\<rparr>) a)"

definition app_worker :: "string \<Rightarrow> worker_args \<Rightarrow> user_fn \<Rightarrow> wrapper registering" where
  "app_worker p args f a =
     (if wa_poll_s args \<le> 0 then act_raise (value_error ''poll_interval_s must be > 0'') a
      else (let w = \<lparr>we_func = f, we_prefix = slashless p, we_concurrency = max 1 (wa_concurrency args), we_poll_s = wa_poll_s args,
                     we_serializer = or_json (wa_serializer args), we_token = wa_token args, we_overrides = overrides_or_own a\<rparr>
            in act_bind (change (\<lambda>a. a\<lparr>rs_workers := rs_workers a @ [w]\<rparr>)) (\<lambda>_. act_return (WorkerW w)) a))"

definition app_schedule :: "string \<Rightarrow> schedule_args \<Rightarrow> unit registering" where
  "app_schedule p args =
     act_bind (act_of (lift_res (schedule_of p (da_data args) (da_every_s args) (da_cron args) (da_initial_s args) (da_priority args) (da_token args))))
       (\<lambda>s. change (\<lambda>a. a\<lparr>rs_schedules := rs_schedules a @ [s]\<rparr>))"

section \<open>Built-in endpoints\<close>

definition plain_args :: "handler_authorizer \<Rightarrow> handle_args" where
  "plain_args auth = \<lparr>ha_serializer = None, ha_retry = NoRetry, ha_durability = DurabilityValue AT_MOST_ONCE, ha_authorizer = auth,
     ha_http = None, ha_approval = PBool False, ha_lease = None\<rparr>"

definition builtin_fn :: "string \<Rightarrow> user_fn" where
  "builtin_fn name = \<lparr>fn_name = name, fn_takes_self = False, fn_async_gen = False, fn_coroutine = True\<rparr>"

fun register_all :: "(string \<times> handle_args) list \<Rightarrow> unit registering" where
  "register_all [] = act_return ()"
| "register_all ((p, args) # ps) = act_bind (app_handle p args (builtin_fn p)) (\<lambda>_. register_all ps)"

definition register_builtins :: "unit registering" where
  "register_builtins a =
     (if an_builtins_done a then (Inr (), a)
      else register_all (map (\<lambda>p. (p, plain_args NoGuard)) (builtin_prefixes (an_health a) (an_metrics a) (an_discovery a) (an_service a)))
             (a\<lparr>an_builtins_done := True\<rparr>))"

text \<open>\<open>listing\<close> and \<open>deciding\<close> are the keys of the new gate, which are unique to the process.\<close>

definition app_approvals :: "string \<Rightarrow> string \<Rightarrow> handler_authorizer \<Rightarrow> (string \<times> string) registering" where
  "app_approvals listing deciding auth a =
     (case an_gate a of
        Some g \<Rightarrow> (Inr g, a)
      | None \<Rightarrow>
          if (case auth of NoGuard \<Rightarrow> True | _ \<Rightarrow> False) \<and> an_authorizer a = None
          then act_raise (builtin_exc [''IstosSecurityError''] (deciding @ '' would be reachable by any peer'')) a
          else act_bind (register_all [(listing, plain_args auth), (deciding, plain_args auth)])
                 (\<lambda>_. act_bind (change (\<lambda>a. a\<lparr>an_gate := Some (listing, deciding)\<rparr>)) (\<lambda>_. act_return (listing, deciding))) a)"

section \<open>Liveliness events\<close>

text \<open>The callback gets the key and whether the node is there; an exception of it is logged.\<close>

record 'w liveliness_callback =
  lc_name :: string
  lc_sig :: "param list"
  lc_func :: "pyval list \<Rightarrow> (string, pyval) dict \<Rightarrow> ('w, pyval) act"
  lc_callables :: "'w callables"
  lc_overrides :: "(string, string) dict"

definition liveliness_args :: "pyval option \<Rightarrow> string \<Rightarrow> sample_kind \<Rightarrow> pyval list" where
  "liveliness_args instance key_expr kind =
     (case instance of None \<Rightarrow> [] | Some i \<Rightarrow> [i]) @ [PStr key_expr, PBool (kind = PUT)]"

definition on_liveliness_sample :: "'w liveliness_callback \<Rightarrow> pyval option \<Rightarrow> string \<Rightarrow> sample_kind \<Rightarrow> 'w \<Rightarrow> ((exc + unit) \<times> 'w) option" where
  "on_liveliness_sample lc instance key_expr kind w =
     map_option (\<lambda>(out, w'). swallow (\<lambda>v. (map_sum id (\<lambda>_. ()) out, v)) w')
       (let args = liveliness_args instance key_expr kind
        in if has_dependencies (lc_sig lc)
           then invoke_with_dependencies (lc_callables lc) (\<lambda>_. lc_func lc) (lc_overrides lc) []
                  (take 2 (positional_param_names (lc_sig lc))) (lc_name lc) args w
           else Some (lc_func lc args [] w))"

section \<open>Routers\<close>

text \<open>An application and the proxies that routers have handed out, each with the wrapper it stands for once
  its router has been included.\<close>

type_synonym 'a routing = "(application \<times> wrapper option list, 'a) act"

record router =
  rt_prefix :: string
  rt_actions :: "unit routing list"

definition new_router :: "string \<Rightarrow> router" where
  "new_router prefix = \<lparr>rt_prefix = prefix, rt_actions = []\<rparr>"

text \<open>What an action does to the application, and where it puts the wrapper.\<close>

definition into_proxy :: "nat \<Rightarrow> wrapper registering \<Rightarrow> unit routing" where
  "into_proxy i m w =
     (case m (fst w) of
        (Inl e, a) \<Rightarrow> (Inl e, (a, snd w))
      | (Inr x, a) \<Rightarrow> (Inr (), (a, (snd w)[i := Some x])))"

definition without_proxy :: "unit registering \<Rightarrow> unit routing" where
  "without_proxy m w = (case m (fst w) of (r, a) \<Rightarrow> (r, (a, snd w)))"

text \<open>A decorator of a router makes a proxy and an action; the prefix is the one of the router at this time.\<close>

definition deferred :: "(string \<Rightarrow> wrapper registering) \<Rightarrow> string \<Rightarrow> router \<times> wrapper option list \<Rightarrow> router \<times> wrapper option list" where
  "deferred m p rp =
     (case rp of (r, ps) \<Rightarrow>
        (r\<lparr>rt_actions := rt_actions r @ [into_proxy (length ps) (m (apply_prefix (rt_prefix r) p))]\<rparr>, ps @ [None]))"

definition put_off :: "(string \<Rightarrow> unit registering) \<Rightarrow> string \<Rightarrow> router \<times> wrapper option list \<Rightarrow> router \<times> wrapper option list" where
  "put_off m p rp =
     (case rp of (r, ps) \<Rightarrow> (r\<lparr>rt_actions := rt_actions r @ [without_proxy (m (apply_prefix (rt_prefix r) p))]\<rparr>, ps))"

type_synonym routed = "router \<times> wrapper option list \<Rightarrow> router \<times> wrapper option list"

definition router_handle :: "string \<Rightarrow> handle_args \<Rightarrow> user_fn \<Rightarrow> routed" where
  "router_handle p args f = deferred (\<lambda>q. app_handle q args f) p"

definition router_query :: "string \<Rightarrow> query_args \<Rightarrow> user_fn \<Rightarrow> routed" where
  "router_query p args f = deferred (\<lambda>q. app_query q args f) p"

definition router_stream :: "string \<Rightarrow> stream_args \<Rightarrow> user_fn \<Rightarrow> routed" where
  "router_stream p args f = deferred (\<lambda>q. app_stream q args f) p"

definition router_channel :: "string \<Rightarrow> channel_args \<Rightarrow> user_fn \<Rightarrow> routed" where
  "router_channel p args f = deferred (\<lambda>q. app_channel q args f) p"

definition router_stream_client :: "string \<Rightarrow> client_args \<Rightarrow> user_fn \<Rightarrow> routed" where
  "router_stream_client p args f = deferred (\<lambda>q. app_stream_client q args f) p"

definition router_channel_client :: "string \<Rightarrow> client_args \<Rightarrow> user_fn \<Rightarrow> routed" where
  "router_channel_client p args f = deferred (\<lambda>q. app_channel_client q args f) p"

definition router_worker :: "string \<Rightarrow> worker_args \<Rightarrow> user_fn \<Rightarrow> routed" where
  "router_worker p args f = deferred (\<lambda>q. app_worker q args f) p"

definition router_publish :: "(string \<Rightarrow> exc + user_object) \<Rightarrow> string \<Rightarrow> publish_args \<Rightarrow> user_fn \<Rightarrow> routed" where
  "router_publish parse_url p args f = deferred (\<lambda>q. app_publish parse_url q args f) p"

definition router_subscribe :: "string \<Rightarrow> subscribe_args \<Rightarrow> user_fn \<Rightarrow> routed" where
  "router_subscribe p args f = deferred (\<lambda>q. app_subscribe q args f) p"

definition router_on_liveliness :: "string \<Rightarrow> user_fn \<Rightarrow> routed" where
  "router_on_liveliness p f = deferred (\<lambda>q. app_on_liveliness q f) p"

definition router_queue :: "string \<Rightarrow> queue_args \<Rightarrow> routed" where
  "router_queue p args = put_off (\<lambda>q. app_queue q args) p"

definition router_schedule :: "string \<Rightarrow> schedule_args \<Rightarrow> routed" where
  "router_schedule p args = put_off (\<lambda>q. app_schedule q args) p"

definition router_declare_liveliness :: "string \<Rightarrow> routed" where
  "router_declare_liveliness p = put_off app_declare_liveliness p"

fun include_router :: "unit routing list \<Rightarrow> unit routing" where
  "include_router [] = act_return ()"
| "include_router (action # actions) = act_bind action (\<lambda>_. include_router actions)"

text \<open>Calling a proxy: the call of its wrapper, which is an argument.\<close>

definition proxy_call :: "string \<Rightarrow> wrapper option \<Rightarrow> (wrapper \<Rightarrow> exc + 'a) \<Rightarrow> exc + 'a" where
  "proxy_call name bound_to perform_it =
     (case bound_to of
        None \<Rightarrow> Inl (runtime_error (''Router has not been included in the Istos app yet. Cannot invoke '' @ name))
      | Some w \<Rightarrow> perform_it w)"

text \<open>The calls a module makes, on the application itself or on a router.\<close>

datatype enrolment =
    HandleD string handle_args user_fn | QueryD string query_args user_fn | StreamD string stream_args user_fn
  | ChannelD string channel_args user_fn | StreamClientD string client_args user_fn | ChannelClientD string client_args user_fn
  | WorkerD string worker_args user_fn | PublishD string publish_args user_fn | SubscribeD string subscribe_args user_fn
  | OnLivelinessD string user_fn | QueueD string queue_args | ScheduleD string schedule_args | DeclareLivelinessD string

type_synonym store_urls = "string \<Rightarrow> exc + user_object"

fun on_app :: "store_urls \<Rightarrow> (string \<Rightarrow> string) \<Rightarrow> enrolment \<Rightarrow> wrapper option registering" where
  "on_app su k (HandleD p x f) = act_bind (app_handle (k p) x f) (act_return \<circ> Some)"
| "on_app su k (QueryD p x f) = act_bind (app_query (k p) x f) (act_return \<circ> Some)"
| "on_app su k (StreamD p x f) = act_bind (app_stream (k p) x f) (act_return \<circ> Some)"
| "on_app su k (ChannelD p x f) = act_bind (app_channel (k p) x f) (act_return \<circ> Some)"
| "on_app su k (StreamClientD p x f) = act_bind (app_stream_client (k p) x f) (act_return \<circ> Some)"
| "on_app su k (ChannelClientD p x f) = act_bind (app_channel_client (k p) x f) (act_return \<circ> Some)"
| "on_app su k (WorkerD p x f) = act_bind (app_worker (k p) x f) (act_return \<circ> Some)"
| "on_app su k (PublishD p x f) = act_bind (app_publish su (k p) x f) (act_return \<circ> Some)"
| "on_app su k (SubscribeD p x f) = act_bind (app_subscribe (k p) x f) (act_return \<circ> Some)"
| "on_app su k (OnLivelinessD p f) = act_bind (app_on_liveliness (k p) f) (act_return \<circ> Some)"
| "on_app su k (QueueD p x) = act_bind (app_queue (k p) x) (\<lambda>_. act_return None)"
| "on_app su k (ScheduleD p x) = act_bind (app_schedule (k p) x) (\<lambda>_. act_return None)"
| "on_app su k (DeclareLivelinessD p) = act_bind (app_declare_liveliness (k p)) (\<lambda>_. act_return None)"

fun on_router :: "store_urls \<Rightarrow> enrolment \<Rightarrow> routed" where
  "on_router su (HandleD p x f) = router_handle p x f"
| "on_router su (QueryD p x f) = router_query p x f"
| "on_router su (StreamD p x f) = router_stream p x f"
| "on_router su (ChannelD p x f) = router_channel p x f"
| "on_router su (StreamClientD p x f) = router_stream_client p x f"
| "on_router su (ChannelClientD p x f) = router_channel_client p x f"
| "on_router su (WorkerD p x f) = router_worker p x f"
| "on_router su (PublishD p x f) = router_publish su p x f"
| "on_router su (SubscribeD p x f) = router_subscribe p x f"
| "on_router su (OnLivelinessD p f) = router_on_liveliness p f"
| "on_router su (QueueD p x) = router_queue p x"
| "on_router su (ScheduleD p x) = router_schedule p x"
| "on_router su (DeclareLivelinessD p) = router_declare_liveliness p"

fun all_on_app :: "store_urls \<Rightarrow> (string \<Rightarrow> string) \<Rightarrow> enrolment list \<Rightarrow> wrapper option list registering" where
  "all_on_app su k [] = act_return []"
| "all_on_app su k (d # ds) = act_bind (on_app su k d) (\<lambda>x. act_bind (all_on_app su k ds) (\<lambda>xs. act_return (x # xs)))"

definition all_on_router :: "store_urls \<Rightarrow> enrolment list \<Rightarrow> routed" where
  "all_on_router su ds rp = fold (on_router su) ds rp"

section \<open>A router registers what the application would\<close>

fun proxied :: "enrolment \<Rightarrow> bool" where
  "proxied (QueueD p x) = False"
| "proxied (ScheduleD p x) = False"
| "proxied (DeclareLivelinessD p) = False"
| "proxied d = True"

lemma on_router_frame:
  "rt_prefix (fst (on_router su d (r, ps))) = rt_prefix r"
  "\<exists>action. rt_actions (fst (on_router su d (r, ps))) = rt_actions r @ [action]"
  "snd (on_router su d (r, ps)) = ps @ (if proxied d then [None] else [])"
  by (cases d; simp add: router_handle_def router_query_def router_stream_def router_channel_def router_stream_client_def
      router_channel_client_def router_worker_def router_publish_def router_subscribe_def router_on_liveliness_def
      router_queue_def router_schedule_def router_declare_liveliness_def deferred_def put_off_def)+

text \<open>The action an enrolment on a router leaves.\<close>

definition action_of :: "store_urls \<Rightarrow> string \<Rightarrow> nat \<Rightarrow> enrolment \<Rightarrow> unit routing" where
  "action_of su prefix n d w =
     (case on_app su (apply_prefix prefix) d (fst w) of
        (Inl e, a) \<Rightarrow> (Inl e, (a, snd w))
      | (Inr None, a) \<Rightarrow> (Inr (), (a, snd w))
      | (Inr (Some x), a) \<Rightarrow> (Inr (), (a, (snd w)[n := Some x])))"

lemma action_of_proxied:
  "into_proxy n m = (\<lambda>w. case act_bind m (act_return \<circ> Some) (fst w) of
        (Inl e, a) \<Rightarrow> (Inl e, (a, snd w))
      | (Inr None, a) \<Rightarrow> (Inr (), (a, snd w))
      | (Inr (Some x), a) \<Rightarrow> (Inr (), (a, (snd w)[n := Some x])))"
  "without_proxy m' = (\<lambda>w. case act_bind m' (\<lambda>_. act_return None) (fst w) of
        (Inl e, a) \<Rightarrow> (Inl e, (a, snd w))
      | (Inr None, a) \<Rightarrow> (Inr (), (a, snd w))
      | (Inr (Some x), a) \<Rightarrow> (Inr (), (a, (snd w)[n := Some x])))"
  by (auto simp: fun_eq_iff into_proxy_def without_proxy_def act_bind_def act_return_def split: prod.split sum.split)

lemmas router_defs = router_handle_def router_query_def router_stream_def router_channel_def router_stream_client_def
  router_channel_client_def router_worker_def router_publish_def router_subscribe_def router_on_liveliness_def
  router_queue_def router_schedule_def router_declare_liveliness_def

lemma on_router_step:
  "on_router su d (r, ps) = (r\<lparr>rt_actions := rt_actions r @ [action_of su (rt_prefix r) (length ps) d]\<rparr>,
     ps @ (if proxied d then [None] else []))"
  unfolding action_of_def
  by (cases d) (simp_all only: on_router.simps on_app.simps router_defs deferred_def put_off_def prod.case
      action_of_proxied(1) action_of_proxied(2) [where n = "length ps"] proxied.simps if_True if_False append_Nil2)

lemma on_app_proxied: "on_app su k d a = (Inr x, a') \<Longrightarrow> x \<noteq> None \<longleftrightarrow> proxied d"
  by (cases d) (auto simp: act_bind_Inr act_return_def)

fun actions_of :: "store_urls \<Rightarrow> string \<Rightarrow> nat \<Rightarrow> enrolment list \<Rightarrow> unit routing list" where
  "actions_of su prefix n [] = []"
| "actions_of su prefix n (d # ds) = action_of su prefix n d # actions_of su prefix (if proxied d then Suc n else n) ds"

lemma all_on_router_actions:
  "all_on_router su ds (r, ps) = (r\<lparr>rt_actions := rt_actions r @ actions_of su (rt_prefix r) (length ps) ds\<rparr>,
     ps @ replicate (length (filter proxied ds)) None)"
proof (induction ds arbitrary: r ps)
  case (Cons d ds)
  let ?r = "r\<lparr>rt_actions := rt_actions r @ [action_of su (rt_prefix r) (length ps) d]\<rparr>"
  have "all_on_router su (d # ds) (r, ps) = all_on_router su ds (?r, ps @ (if proxied d then [None] else []))"
    by (simp add: all_on_router_def on_router_step)
  also have "\<dots> = (?r\<lparr>rt_actions := rt_actions ?r @ actions_of su (rt_prefix ?r) (length (ps @ (if proxied d then [None] else []))) ds\<rparr>,
     (ps @ (if proxied d then [None] else [])) @ replicate (length (filter proxied ds)) None)"
    by (rule Cons.IH)
  finally show ?case by (simp add: replicate_app_Cons_same)
qed (simp add: all_on_router_def)

lemma include_actions:
  "\<exists>stood. include_router (actions_of su prefix (length ps) ds) (a, ps @ replicate (length (filter proxied ds)) None)
      = (map_sum id (\<lambda>_. ()) (fst (all_on_app su (apply_prefix prefix) ds a)), (snd (all_on_app su (apply_prefix prefix) ds a), stood))
    \<and> (\<forall>ws. fst (all_on_app su (apply_prefix prefix) ds a) = Inr ws \<longrightarrow> stood = ps @ filter (\<lambda>x. x \<noteq> None) ws)"
proof (induction ds arbitrary: a ps)
  case (Cons d ds)
  obtain out a1 where d: "on_app su (apply_prefix prefix) d a = (out, a1)" by fastforce
  show ?case
  proof (cases out)
    case (Inl e)
    then show ?thesis using d by (simp add: act_bind_def action_of_def)
  next
    case (Inr x)
    define ps1 where "ps1 = ps @ filter (\<lambda>x. x \<noteq> None) [x]"
    have p: "proxied d \<longleftrightarrow> x \<noteq> None" using on_app_proxied d Inr by blast
    have first: "include_router (actions_of su prefix (length ps) (d # ds)) (a, ps @ replicate (length (filter proxied (d # ds))) None)
        = include_router (actions_of su prefix (length ps1) ds) (a1, ps1 @ replicate (length (filter proxied ds)) None)"
      using d Inr p by (cases x) (auto simp: act_bind_def action_of_def ps1_def list_update_append)
    obtain out2 a2 where more: "all_on_app su (apply_prefix prefix) ds a1 = (out2, a2)" by fastforce
    have rest: "all_on_app su (apply_prefix prefix) (d # ds) a = (map_sum id (Cons x) out2, a2)"
      using d Inr more by (cases out2) (simp_all add: act_bind_def act_return_def)
    obtain stood where "include_router (actions_of su prefix (length ps1) ds) (a1, ps1 @ replicate (length (filter proxied ds)) None)
        = (map_sum id (\<lambda>_. ()) out2, (a2, stood))" "\<forall>ws. out2 = Inr ws \<longrightarrow> stood = ps1 @ filter (\<lambda>x. x \<noteq> None) ws"
      using Cons.IH [of ps1 a1] more by (auto simp: id_def)
    then show ?thesis unfolding first rest by (cases out2) (auto simp: ps1_def)
  qed
qed (simp add: act_return_def)

text \<open>Including a router does to the application what its declarations would have done on the application
  itself under the prefixed keys, errors included; and every proxy then stands for the wrapper registered for
  it, where before it refuses to be called.\<close>

theorem router_is_transparent:
  "case all_on_app su (apply_prefix prefix) ds a of
     (out, a') \<Rightarrow>
       (let (r, ps) = all_on_router su ds (new_router prefix, []);
            (out', a'', stood) = include_router (rt_actions r) (a, ps)
        in a'' = a' \<and> list_all (\<lambda>p. \<exists>e. proxy_call name p perform_it = Inl e \<and> ''RuntimeError'' \<in> set (x_mro e)) ps
           \<and> (case out of Inl e \<Rightarrow> out' = Inl e
              | Inr ws \<Rightarrow> out' = Inr () \<and> stood = filter (\<lambda>x. x \<noteq> None) ws))"
proof -
  have "all_on_router su ds (new_router prefix, [])
      = (\<lparr>rt_prefix = prefix, rt_actions = actions_of su prefix 0 ds\<rparr>, replicate (length (filter proxied ds)) None)"
    by (simp add: all_on_router_actions new_router_def)
  moreover have "list_all (\<lambda>p. \<exists>e. proxy_call name p perform_it = Inl e \<and> ''RuntimeError'' \<in> set (x_mro e)) (replicate n None)" for n
    by (simp add: list_all_iff proxy_call_def runtime_error_def builtin_exc_def)
  ultimately show ?thesis
    using include_actions [of su prefix "[]" ds a]
    by (cases "all_on_app su (apply_prefix prefix) ds a"; cases "fst (all_on_app su (apply_prefix prefix) ds a)") auto
qed

section \<open>Findings\<close>

text \<open>Overrides are usually set after the decorators have run: they reach handlers, streams, subscribers, queries
  and publishers, and neither channels nor workers nor stream and channel clients, which replaced the empty
  dictionary by one of their own.\<close>

lemma new_handler_overrides: "lift_res (new_handler a p x f) = Inr h \<Longrightarrow> he_overrides h = AppOverrides"
  by (auto simp: lift_res_def new_handler_def res_bind_eq_Inr overrides_if_given_def split: sum.splits)

lemma late_overrides:
  assumes "an_overrides a = []"
  shows "app_handle p x f a = (Inr (HandlerW h), a') \<Longrightarrow> overrides_now (a'\<lparr>an_overrides := ov\<rparr>) (he_overrides h) = ov"
    "app_channel p xc f a = (Inr (ChannelW c), a') \<Longrightarrow> overrides_now (a'\<lparr>an_overrides := ov\<rparr>) (ce_overrides c) = []"
    "app_worker p xw f a = (Inr (WorkerW w), a') \<Longrightarrow> overrides_now (a'\<lparr>an_overrides := ov\<rparr>) (we_overrides w) = []"
    "app_stream_client p xs f a = (Inr (StreamClientW l), a') \<Longrightarrow> overrides_now (a'\<lparr>an_overrides := ov\<rparr>) (le_overrides l) = []"
  using assms
  by (auto simp: app_handle_def act_bind_Inr act_of_def change_def act_return_def act_raise_def
      app_channel_def app_worker_def app_stream_client_def new_client_def Let_def overrides_if_given_def overrides_or_own_def overrides_now_def
      dest!: new_handler_overrides split: if_splits)

text \<open>\<open>ws=False\<close> exposes a channel as a WebSocket, as \<open>ws=True\<close> does.\<close>

lemma ws_false_is_exposed:
  assumes "ca_ws x = Some (WsBool False)" "fn_coroutine f"
  shows "\<exists>w a'. app_channel p x f a = (Inr w, a') \<and> rs_ws_routes a' = rs_ws_routes a @ [(ws_path (WsBool True) p, length (rs_channels a))]"
  using assms by (simp add: app_channel_def Let_def act_bind_def change_def act_return_def ws_path_def)

text \<open>A handler that cannot be built leaves its HTTP route behind.\<close>

lemma failed_handler_keeps_route:
  assumes "ha_http x = Some SpecTrue" "ha_retry x = IntRetry (-1)"
  shows "\<exists>e a'. app_handle p x f a = (Inl e, a') \<and> rs_handlers a' = rs_handlers a \<and> length (rs_http_routes a') = Suc (length (rs_http_routes a))"
  using assms
  by (simp add: app_handle_def add_route_def parse_http_spec_def Let_def new_handler_def retry_of_def policy_from_int_def retry_policy_init_def
      lift_res_def act_bind_def act_of_def change_def act_raise_def)

text \<open>The gate of a node is made once, and not without an authorizer.\<close>

lemma approvals_once:
  "app_approvals l d auth a = (Inr g, a') \<Longrightarrow> app_approvals l' d' auth' a' = (Inr g, a')"
  by (auto simp: app_approvals_def change_def act_return_def act_raise_def act_bind_Inr split: option.splits if_splits)

lemma approvals_guarded:
  "an_gate a = None \<Longrightarrow> an_authorizer a = None \<Longrightarrow> \<exists>e. app_approvals l d NoGuard a = (Inl e, a)"
  by (simp add: app_approvals_def act_raise_def)

text \<open>With \<open>require_auth\<close> every endpoint that does not opt out is guarded.\<close>

lemma require_auth_guards:
  assumes "istos_init env x = Inr (m, l, a)" "ia_require_auth x" "guard \<noteq> Public"
  shows "combine_authorizers (an_authorizer a) guard \<noteq> None"
  using assms by (cases guard) (auto simp: istos_init_def new_app_def combine_authorizers_def split: sum.splits if_splits)

lemma one_ledger_source:
  "istos_init env x = Inr (m, l, a) \<Longrightarrow> ledger_sources x \<le> 1 \<and> (ia_storage_database x = Some name \<longrightarrow> name \<in> set (ia_databases x) \<and> l = NamedLedger name)
     \<and> \<not> (ia_session_manager x \<and> ia_config x \<noteq> None)"
  by (auto simp: istos_init_def choose_ledger_def choose_manager_def split: sum.splits if_splits option.splits)

end
