(* ===== verification/Lifecycle.thy ===== *)
theory Lifecycle
  imports Effects PyNum
begin

text \<open>
  Starting and stopping an application (\<open>app/lifecycle.py\<close>, the binds of \<open>app/messaging.py\<close>, \<open>app/streaming.py\<close>
  and \<open>app/queues.py\<close>, \<open>communication/sessions.py\<close>, \<open>http/asgi.py\<close>). What is declared, opened and closed is
  recorded in a trace; whether each of these succeeds is an argument, since Zenoh, the web server and the user's
  lifespan decide it.
\<close>

section \<open>What an application holds\<close>

text \<open>An endpoint of each kind is known by its place in its registry; a channel has two declarations.\<close>

datatype verb = Handle | StreamOf | ChannelOpen | ChannelLive | PersistOf | OwnerOf | WorkerOf | ScheduleOf
  | PublishTo | SubscribeTo | ReplayOf | LiveToken | LiveSub | SignalOf | PersistStore

datatype resource = Bound verb nat | LifespanOf | StorageOf | DatabasesOf | SessionOf | HttpServer

datatype life_event = Acquired resource | Released resource | Drained "nat list" "nat list"

fun held_after :: "life_event \<Rightarrow> resource set \<Rightarrow> resource set" where
  "held_after (Acquired r) H = insert r H"
| "held_after (Released r) H = H - {r}"
| "held_after (Drained fin late) H = H"

definition holds :: "life_event list \<Rightarrow> resource set" where
  "holds tr = fold held_after tr {}"

text \<open>The world: does acquiring or releasing fail, at this point of the trace; attempts to open a session
  are numbered. The last field words the error of an endpoint that cannot be bound.\<close>

record life_env =
  en_acquire :: "resource \<Rightarrow> nat \<Rightarrow> exc option"
  en_release :: "resource \<Rightarrow> nat \<Rightarrow> exc option"
  en_open :: "nat \<Rightarrow> exc option"
  en_wording :: "string \<Rightarrow> string \<Rightarrow> string"

text \<open>A registry is the prefixes of its endpoints, with whether the function is a method that takes \<open>self\<close>.\<close>

type_synonym endpoints = "(string \<times> bool) list"

record shell =
  ap_lifespan :: bool
  ap_storage_close :: bool
  ap_http :: bool
  ap_grace :: time
  ap_handlers :: endpoints
  ap_streams :: endpoints
  ap_channels :: endpoints
  ap_persist :: "string list"
  ap_owners :: "string list"
  ap_workers :: "string list"
  ap_schedules :: "string list"
  ap_publishers :: "string list"
  ap_subscribers :: "(string \<times> bool \<times> bool) list"
  ap_tokens :: "string list"
  ap_live_subs :: "string list"
  sm_session :: bool
  sm_owns :: bool
  sm_retries :: int
  lv_ready :: bool
  lv_stack :: "resource list option"
  lv_queryables :: "resource list"
  lv_servers :: "nat list"
  lv_publishers :: "resource list"
  lv_subscribers :: "resource list"
  lv_replays :: "resource list"
  lv_schedules :: "resource list"
  lv_live_subs :: "resource list"
  lv_tokens :: "resource list"
  lv_web :: bool
  lv_inflight :: "(nat \<times> time) list"
  lv_signals :: "resource list"
  lv_trace :: "life_event list"

type_synonym life = "(shell, unit) act"

fun act_seq :: "life list \<Rightarrow> life" where
  "act_seq [] = act_return ()"
| "act_seq (a # as) = act_bind a (\<lambda>_. act_seq as)"

definition life_set :: "(shell \<Rightarrow> shell) \<Rightarrow> life" where
  "life_set f s = (Inr (), f s)"

definition record_event :: "life_event \<Rightarrow> life" where
  "record_event e = life_set (\<lambda>s. s\<lparr>lv_trace := lv_trace s @ [e]\<rparr>)"

definition acquire :: "life_env \<Rightarrow> resource \<Rightarrow> life" where
  "acquire env r s =
     (case en_acquire env r (length (lv_trace s)) of
        Some e \<Rightarrow> (Inl e, s) | None \<Rightarrow> record_event (Acquired r) s)"

text \<open>A role that binds several things is held from the call on, even if the call raises.\<close>

definition acquire_role :: "life_env \<Rightarrow> resource \<Rightarrow> life" where
  "acquire_role env r s =
     (case en_acquire env r (length (lv_trace s)) of
        Some e \<Rightarrow> (Inl e, snd (record_event (Acquired r) s)) | None \<Rightarrow> record_event (Acquired r) s)"

definition release :: "life_env \<Rightarrow> resource \<Rightarrow> life" where
  "release env r s =
     (case en_release env r (length (lv_trace s)) of
        Some e \<Rightarrow> (Inl e, s) | None \<Rightarrow> record_event (Released r) s)"

text \<open>A release whose failure the code suppresses, or that cannot fail.\<close>

definition let_go :: "life_env \<Rightarrow> resource \<Rightarrow> life" where
  "let_go env r = swallow (release env r)"

section \<open>The session\<close>

definition open_attempts :: "shell \<Rightarrow> nat" where
  "open_attempts s = nat (max 1 (sm_retries s + 1))"

definition open_failed :: "nat \<Rightarrow> exc option \<Rightarrow> exc" where
  "open_failed attempts last_exc = runtime_error (''Failed to open Zenoh session after '' @ show_nat attempts
     @ '' attempt(s). Check the endpoints, TLS material, and that the router is reachable. Last error: ''
     @ (case last_exc of None \<Rightarrow> ''None'' | Some e \<Rightarrow> x_str e))"

fun try_open :: "life_env \<Rightarrow> nat \<Rightarrow> nat \<Rightarrow> exc option \<Rightarrow> exc + unit" where
  "try_open env attempts 0 last_exc = Inl (open_failed attempts last_exc)"
| "try_open env attempts (Suc left) last_exc =
     (case en_open env (attempts - Suc left) of
        None \<Rightarrow> Inr ()
      | Some e \<Rightarrow> if is_exception e then try_open env attempts left (Some e) else Inl e)"

definition enter_session :: "life_env \<Rightarrow> life" where
  "enter_session env s =
     (if sm_session s then (Inr (), s)
      else case try_open env (open_attempts s) (open_attempts s) None of
             Inl e \<Rightarrow> (Inl e, s)
           | Inr _ \<Rightarrow> record_event (Acquired SessionOf) (s\<lparr>sm_session := True, sm_owns := True\<rparr>))"

definition exit_session :: "life_env \<Rightarrow> life" where
  "exit_session env s =
     act_bind (if sm_session s \<and> sm_owns s then release env SessionOf else act_return ()) (\<lambda>_. life_set (\<lambda>s. s\<lparr>sm_session := False\<rparr>)) s"

section \<open>The exit stack\<close>

definition push :: "resource \<Rightarrow> life" where
  "push r = life_set (\<lambda>s. s\<lparr>lv_stack := map_option (Cons r) (lv_stack s)\<rparr>)"

definition close_one :: "life_env \<Rightarrow> resource \<Rightarrow> life" where
  "close_one env r = (if r = SessionOf then exit_session env else release env r)"

text \<open>\<open>AsyncExitStack.aclose\<close>: every callback runs, the last exception is raised.\<close>

fun close_each :: "life_env \<Rightarrow> resource list \<Rightarrow> exc option \<Rightarrow> life" where
  "close_each env [] pending s = ((case pending of None \<Rightarrow> Inr () | Some e \<Rightarrow> Inl e), s)"
| "close_each env (r # rs) pending s =
     (case close_one env r s of
        (Inl e, s1) \<Rightarrow> close_each env rs (Some e) s1
      | (Inr _, s1) \<Rightarrow> close_each env rs pending s1)"

definition close_stack :: "life_env \<Rightarrow> life" where
  "close_stack env s =
     (case lv_stack s of
        None \<Rightarrow> (Inr (), s)
      | Some rs \<Rightarrow> close_each env rs None (s\<lparr>lv_stack := None\<rparr>))"

section \<open>Binding\<close>

definition ensure_bindable :: "life_env \<Rightarrow> string \<Rightarrow> string \<Rightarrow> bool \<Rightarrow> life" where
  "ensure_bindable env name p takes_self = (if takes_self then act_raise (type_error (en_wording env name p)) else act_return ())"

definition bind_one :: "life_env \<Rightarrow> resource \<Rightarrow> (shell \<Rightarrow> shell) \<Rightarrow> life" where
  "bind_one env r track = act_bind (acquire env r) (\<lambda>_. life_set track)"

definition bind_endpoints :: "life_env \<Rightarrow> string \<Rightarrow> verb \<Rightarrow> endpoints \<Rightarrow> life" where
  "bind_endpoints env name v es = act_seq (concat (map (\<lambda>(i, p, takes_self).
     [ensure_bindable env name p takes_self,
      bind_one env (Bound v i) (\<lambda>s. s\<lparr>lv_queryables := lv_queryables s @ [Bound v i]\<rparr>)]) (enumerate 0 es)))"

definition bind_handlers :: "life_env \<Rightarrow> life" where
  "bind_handlers env s = bind_endpoints env ''handle'' Handle (ap_handlers s) s"

definition bind_streams :: "life_env \<Rightarrow> life" where
  "bind_streams env s = bind_endpoints env ''stream'' StreamOf (ap_streams s) s"

text \<open>The server of a channel declares its queryable and its liveliness subscriber, then joins the list.\<close>

definition bind_server :: "life_env \<Rightarrow> nat \<Rightarrow> life" where
  "bind_server env i =
     act_bind (acquire env (Bound ChannelOpen i)) (\<lambda>_.
       bind_one env (Bound ChannelLive i) (\<lambda>s. s\<lparr>lv_servers := lv_servers s @ [i]\<rparr>))"

definition bind_channels :: "life_env \<Rightarrow> life" where
  "bind_channels env s = act_seq (concat (map (\<lambda>(i, p, takes_self).
     [ensure_bindable env ''channel'' p takes_self, bind_server env i]) (enumerate 0 (ap_channels s)))) s"

definition bind_persist :: "life_env \<Rightarrow> life" where
  "bind_persist env s = act_seq (map (\<lambda>i. acquire_role env (Bound PersistOf i)) [0..<length (ap_persist s)]) s"

definition bind_queues :: "life_env \<Rightarrow> life" where
  "bind_queues env s = act_seq
     (map (\<lambda>i. acquire_role env (Bound OwnerOf i)) [0..<length (ap_owners s)]
      @ map (\<lambda>i. record_event (Acquired (Bound WorkerOf i))) [0..<length (ap_workers s)]
      @ map (\<lambda>i. act_bind (record_event (Acquired (Bound ScheduleOf i)))
               (\<lambda>_. life_set (\<lambda>s. s\<lparr>lv_schedules := lv_schedules s @ [Bound ScheduleOf i]\<rparr>))) [0..<length (ap_schedules s)]) s"

text \<open>The publishers here are the durable ones; one that is declared already is left alone.\<close>

definition bind_publisher :: "life_env \<Rightarrow> nat \<Rightarrow> life" where
  "bind_publisher env i s =
     (if Bound PublishTo i \<in> set (lv_publishers s) then (Inr (), s)
      else bind_one env (Bound PublishTo i) (\<lambda>s. s\<lparr>lv_publishers := lv_publishers s @ [Bound PublishTo i]\<rparr>) s)"

definition bind_publishers :: "life_env \<Rightarrow> life" where
  "bind_publishers env s = act_seq (map (bind_publisher env) [0..<length (ap_publishers s)]) s"

definition start_replay :: "nat \<Rightarrow> life" where
  "start_replay i = act_bind (record_event (Acquired (Bound ReplayOf i)))
     (\<lambda>_. life_set (\<lambda>s. s\<lparr>lv_replays := lv_replays s @ [Bound ReplayOf i]\<rparr>))"

definition bind_subscribers :: "life_env \<Rightarrow> life" where
  "bind_subscribers env s = act_seq (concat (map (\<lambda>(i, p, takes_self, replay).
     [ensure_bindable env ''subscribe'' p takes_self,
      bind_one env (Bound SubscribeTo i) (\<lambda>s. s\<lparr>lv_subscribers := lv_subscribers s @ [Bound SubscribeTo i]\<rparr>)]
     @ (if replay then [start_replay i] else [])) (enumerate 0 (ap_subscribers s)))) s"

definition bind_liveliness :: "life_env \<Rightarrow> life" where
  "bind_liveliness env s = act_seq
     (map (\<lambda>i. bind_one env (Bound LiveToken i) (\<lambda>s. s\<lparr>lv_tokens := lv_tokens s @ [Bound LiveToken i]\<rparr>)) [0..<length (ap_tokens s)]
      @ map (\<lambda>i. bind_one env (Bound LiveSub i) (\<lambda>s. s\<lparr>lv_live_subs := lv_live_subs s @ [Bound LiveSub i]\<rparr>)) [0..<length (ap_live_subs s)]) s"

section \<open>Unbinding\<close>

text \<open>The first that cannot be undeclared ends the loop, and the list is cleared only after the loop.\<close>

definition release_each :: "life_env \<Rightarrow> resource list \<Rightarrow> life" where
  "release_each env rs = act_seq (map (release env) rs)"

definition end_tasks :: "resource list \<Rightarrow> life" where
  "end_tasks rs = act_seq (map (\<lambda>r. record_event (Released r)) rs)"

definition stop_http :: "life_env \<Rightarrow> life" where
  "stop_http env s = (if lv_web s then act_bind (release env HttpServer) (\<lambda>_. life_set (\<lambda>s. s\<lparr>lv_web := False\<rparr>)) s else (Inr (), s))"

definition cancel_replay_tasks :: "life_env \<Rightarrow> life" where
  "cancel_replay_tasks env s = act_seq [end_tasks (lv_replays s), life_set (\<lambda>s. s\<lparr>lv_replays := []\<rparr>)] s"

definition unbind_liveliness :: "life_env \<Rightarrow> life" where
  "unbind_liveliness env s =
     act_seq [release_each env (lv_live_subs s), life_set (\<lambda>s. s\<lparr>lv_live_subs := []\<rparr>),
              release_each env (lv_tokens s), life_set (\<lambda>s. s\<lparr>lv_tokens := []\<rparr>)] s"

definition unbind_subscribers :: "life_env \<Rightarrow> life" where
  "unbind_subscribers env s = act_seq [release_each env (lv_subscribers s), life_set (\<lambda>s. s\<lparr>lv_subscribers := []\<rparr>)] s"

definition unbind_publishers :: "life_env \<Rightarrow> life" where
  "unbind_publishers env s = act_seq (map (\<lambda>r. act_bind (release env r)
     (\<lambda>_. life_set (\<lambda>s. s\<lparr>lv_publishers := filter (\<lambda>x. x \<noteq> r) (lv_publishers s)\<rparr>))) (lv_publishers s)) s"

definition unbind_queues :: "life_env \<Rightarrow> life" where
  "unbind_queues env s =
     act_seq ([end_tasks (lv_schedules s), life_set (\<lambda>s. s\<lparr>lv_schedules := []\<rparr>),
               end_tasks (map (Bound WorkerOf) [0..<length (ap_workers s)])]
              @ map (\<lambda>i. let_go env (Bound OwnerOf i)) [0..<length (ap_owners s)]) s"

definition unbind_persist :: "life_env \<Rightarrow> life" where
  "unbind_persist env s =
     act_seq (concat (map (\<lambda>i. [let_go env (Bound PersistOf i), release env (Bound PersistStore i)]) [0..<length (ap_persist s)])) s"

definition unbind_channels :: "life_env \<Rightarrow> life" where
  "unbind_channels env s =
     act_seq (concat (map (\<lambda>i. [let_go env (Bound ChannelOpen i), let_go env (Bound ChannelLive i)]) (lv_servers s))
              @ [life_set (\<lambda>s. s\<lparr>lv_servers := []\<rparr>)]) s"

definition unbind_handlers :: "life_env \<Rightarrow> life" where
  "unbind_handlers env s = act_seq [release_each env (lv_queryables s), life_set (\<lambda>s. s\<lparr>lv_queryables := []\<rparr>)] s"

text \<open>A request in flight is its number and the time it still needs.\<close>

definition submit :: "nat \<Rightarrow> time \<Rightarrow> life" where
  "submit i d = life_set (\<lambda>s. s\<lparr>lv_inflight := (i, d) # lv_inflight s\<rparr>)"

definition drain_inflight :: life where
  "drain_inflight s =
     (if lv_inflight s = [] \<or> ap_grace s \<le> 0 then (Inr (), s)
      else record_event (Drained (map fst (filter (\<lambda>(i, d). d \<le> ap_grace s) (lv_inflight s)))
                                 (map fst (filter (\<lambda>(i, d). \<not> d \<le> ap_grace s) (lv_inflight s))))
             (s\<lparr>lv_inflight := []\<rparr>))"

section \<open>Start and stop\<close>

definition shutdown_steps :: "life_env \<Rightarrow> life list" where
  "shutdown_steps env =
     [stop_http env, cancel_replay_tasks env, unbind_liveliness env, unbind_subscribers env, unbind_publishers env,
      unbind_queues env, unbind_persist env, unbind_channels env, unbind_handlers env, drain_inflight, close_stack env]"

definition shutdown :: "life_env \<Rightarrow> life" where
  "shutdown env = act_seq (life_set (\<lambda>s. s\<lparr>lv_ready := False\<rparr>) # map swallow (shutdown_steps env))"

definition enter_lifespan :: "life_env \<Rightarrow> life" where
  "enter_lifespan env s = (if ap_lifespan s then act_bind (acquire env LifespanOf) (\<lambda>_. push LifespanOf) s else (Inr (), s))"

definition push_storage :: life where
  "push_storage s = (if ap_storage_close s then push StorageOf s else (Inr (), s))"

definition startup_steps :: "life_env \<Rightarrow> life list" where
  "startup_steps env =
     [enter_lifespan env, push_storage, push DatabasesOf, act_bind (enter_session env) (\<lambda>_. push SessionOf),
      bind_handlers env, bind_streams env, bind_channels env, bind_persist env, bind_queues env, bind_publishers env,
      bind_subscribers env, bind_liveliness env]"

definition start_http :: "life_env \<Rightarrow> bool \<Rightarrow> life" where
  "start_http env serve_http s =
     (let s1 = s\<lparr>lv_ready := True, lv_web := False\<rparr>
      in if serve_http \<and> ap_http s then bind_one env HttpServer (\<lambda>s. s\<lparr>lv_web := True\<rparr>) s1 else (Inr (), s1))"

definition startup :: "life_env \<Rightarrow> bool \<Rightarrow> life" where
  "startup env serve_http s =
     (case act_seq (startup_steps env) (s\<lparr>lv_stack := Some []\<rparr>) of
        (Inl e, s1) \<Rightarrow> (case shutdown env s1 of (Inl e', s2) \<Rightarrow> (Inl e', s2) | (Inr _, s2) \<Rightarrow> (Inl e, s2))
      | (Inr _, s1) \<Rightarrow> start_http env serve_http s1)"

definition serving :: "life_env \<Rightarrow> bool \<Rightarrow> life \<Rightarrow> life" where
  "serving env serve_http body s =
     (case startup env serve_http s of
        (Inl e, s1) \<Rightarrow> (Inl e, s1)
      | (Inr _, s1) \<Rightarrow>
          (case body s1 of
             (out, s2) \<Rightarrow> (case shutdown env s2 of (Inl e, s3) \<Rightarrow> (Inl e, s3) | (Inr _, s3) \<Rightarrow> (out, s3))))"

definition asgi_lifespan :: "life_env \<Rightarrow> life \<Rightarrow> life" where
  "asgi_lifespan env = serving env False"

text \<open>Signal handlers of the process: where they are not supported they are skipped.\<close>

definition skipping :: "string list \<Rightarrow> life \<Rightarrow> life" where
  "skipping classes m s = (case m s of (Inl e, s1) \<Rightarrow> (if set classes \<inter> set (x_mro e) \<noteq> {} then Inr () else Inl e, s1) | r \<Rightarrow> r)"

definition install_signals :: "life_env \<Rightarrow> life" where
  "install_signals env = act_seq (life_set (\<lambda>s. s\<lparr>lv_signals := []\<rparr>) # map (\<lambda>i. skipping [''NotImplementedError'', ''RuntimeError'']
     (bind_one env (Bound SignalOf i) (\<lambda>s. s\<lparr>lv_signals := lv_signals s @ [Bound SignalOf i]\<rparr>))) [0, 1])"

definition remove_signals :: "life_env \<Rightarrow> life" where
  "remove_signals env s = act_seq (map (\<lambda>r. skipping [''NotImplementedError'', ''RuntimeError'', ''ValueError''] (release env r)) (lv_signals s)
     @ [life_set (\<lambda>s. s\<lparr>lv_signals := []\<rparr>)]) s"

definition run_async :: "life_env \<Rightarrow> life \<Rightarrow> life" where
  "run_async env wait s =
     (case install_signals env s of
        (Inl e, s1) \<Rightarrow> (Inl e, s1)
      | (Inr _, s1) \<Rightarrow>
          (case serving env True (skipping [''CancelledError''] wait) s1 of
             (out, s2) \<Rightarrow> (case remove_signals env s2 of (Inl e, s3) \<Rightarrow> (Inl e, s3) | (Inr _, s3) \<Rightarrow> (out, s3))))"


section \<open>What is held is kept track of\<close>

lemma holds_snoc [simp]: "holds (tr @ [e]) = held_after e (holds tr)"
  by (simp add: holds_def)

definition roles :: "shell \<Rightarrow> resource set" where
  "roles s = Bound PersistOf ` {..<length (ap_persist s)} \<union> Bound OwnerOf ` {..<length (ap_owners s)} \<union> Bound WorkerOf ` {..<length (ap_workers s)}"

definition on_mesh :: "shell \<Rightarrow> resource set" where
  "on_mesh s = set (lv_queryables s) \<union> (Bound ChannelOpen ` set (lv_servers s) \<union> Bound ChannelLive ` set (lv_servers s))
     \<union> set (lv_publishers s) \<union> set (lv_subscribers s) \<union> set (lv_replays s) \<union> set (lv_schedules s)
     \<union> set (lv_live_subs s) \<union> set (lv_tokens s) \<union> (if lv_web s then {HttpServer} else {}) \<union> roles s"

definition stacked :: "shell \<Rightarrow> resource set" where
  "stacked s = (case lv_stack s of None \<Rightarrow> {} | Some rs \<Rightarrow> set rs)"

definition tracked :: "shell \<Rightarrow> bool" where
  "tracked s \<longleftrightarrow> holds (lv_trace s) \<subseteq> on_mesh s \<union> stacked s \<and> (SessionOf \<in> holds (lv_trace s) \<longrightarrow> sm_session s \<and> sm_owns s)"

definition sizes :: "shell \<Rightarrow> nat \<times> nat \<times> nat \<times> bool" where
  "sizes s = (length (ap_persist s), length (ap_owners s), length (ap_workers s), lv_web s)"

definition starting :: "nat \<times> nat \<times> nat \<times> bool \<Rightarrow> shell \<Rightarrow> bool" where
  "starting n s \<longleftrightarrow> tracked s \<and> sizes s = n \<and> lv_stack s \<noteq> None"

lemma keeps_seq: "(\<And>a. a \<in> set as \<Longrightarrow> keeps P a) \<Longrightarrow> keeps P (act_seq as)"
  by (induction as) (auto intro!: keeps_intros)

lemma keeps_read: "(\<And>w. P w \<Longrightarrow> keeps P (f w)) \<Longrightarrow> keeps P (\<lambda>w. f w w)"
  unfolding keeps_def by blast

lemma keeps_bind_one:
  assumes "\<And>s. on_mesh s \<union> stacked s \<union> {r} \<subseteq> on_mesh (f s) \<union> stacked (f s)" "\<And>s. lv_trace (f s) = lv_trace s"
    "\<And>s. sm_session (f s) = sm_session s \<and> sm_owns (f s) = sm_owns s" "\<And>s. sizes (f s) = sizes s" "\<And>s. lv_stack (f s) = None \<longleftrightarrow> lv_stack s = None"
    and "r \<noteq> SessionOf"
  shows "keeps (starting n) (bind_one env r f)" "keeps (starting n) (act_bind (record_event (Acquired r)) (\<lambda>_. life_set f))"
proof -
  have k: "starting n (f (s\<lparr>lv_trace := lv_trace s @ [Acquired r]\<rparr>))" if "starting n s" for s
  proof -
    let ?s = "s\<lparr>lv_trace := lv_trace s @ [Acquired r]\<rparr>"
    have o: "on_mesh ?s = on_mesh s" "stacked ?s = stacked s" "sizes ?s = sizes s" by (simp_all add: on_mesh_def roles_def stacked_def sizes_def)
    have "holds (lv_trace ?s) = insert r (holds (lv_trace s))" by simp
    then show ?thesis using that assms(1) [of ?s] assms(2-6) o unfolding starting_def tracked_def by auto
  qed
  then show "keeps (starting n) (bind_one env r f)" "keeps (starting n) (act_bind (record_event (Acquired r)) (\<lambda>_. life_set f))"
    by (auto simp: keeps_def bind_one_def acquire_def act_bind_def record_event_def life_set_def split: option.splits)
qed

lemma keeps_role:
  assumes "\<And>s. sizes s = n \<Longrightarrow> r \<in> roles s" "r \<noteq> SessionOf"
  shows "keeps (starting n) (acquire_role env r)" "keeps (starting n) (record_event (Acquired r))"
proof -
  have "starting n (s\<lparr>lv_trace := lv_trace s @ [Acquired r]\<rparr>)" if "starting n s" for s
    using that assms by (auto simp: starting_def tracked_def on_mesh_def stacked_def roles_def sizes_def)
  then show "keeps (starting n) (acquire_role env r)" "keeps (starting n) (record_event (Acquired r))"
    by (auto simp: keeps_def acquire_role_def record_event_def life_set_def split: option.splits)
qed

lemma keeps_bindable: "keeps P (ensure_bindable env name p b)"
  by (auto simp: ensure_bindable_def intro: keeps_intros)

lemma keeps_endpoints:
  "keeps (starting n) (bind_endpoints env name v es)"
  unfolding bind_endpoints_def
  by (rule keeps_seq) (auto intro!: keeps_bindable keeps_bind_one simp: on_mesh_def stacked_def roles_def sizes_def)


lemmas tracked_simps = on_mesh_def stacked_def roles_def sizes_def

text \<open>The second declaration of a channel does not fail alone.\<close>

definition channels_whole :: "life_env \<Rightarrow> bool" where
  "channels_whole env \<longleftrightarrow> (\<forall>i n. en_acquire env (Bound ChannelLive i) n = None)"

lemma keeps_server:
  assumes "channels_whole env"
  shows "keeps (starting n) (bind_server env i)"
proof -
  let ?r = "Bound ChannelOpen i" and ?l = "Bound ChannelLive i"
  have "starting n (s\<lparr>lv_trace := lv_trace s @ [Acquired ?r, Acquired ?l], lv_servers := lv_servers s @ [i]\<rparr>)" if "starting n s" for s
  proof -
    have "holds (lv_trace s @ [Acquired ?r, Acquired ?l]) = insert ?l (insert ?r (holds (lv_trace s)))"
      by (simp add: holds_def)
    then show ?thesis using that by (auto simp: starting_def tracked_def tracked_simps)
  qed
  then show ?thesis
    using assms by (auto simp: keeps_def bind_server_def bind_one_def acquire_def act_bind_def record_event_def life_set_def channels_whole_def
      split: option.splits)
qed

lemma keeps_sizes_read:
  assumes "\<And>s. sizes s = n \<Longrightarrow> keeps (starting n) (f s)"
  shows "keeps (starting n) (\<lambda>s. f s s)"
proof (rule keeps_read [where f = f])
  fix s assume "starting n s"
  then show "keeps (starting n) (f s)" by (intro assms) (simp add: starting_def)
qed

lemma keeps_push: "r \<noteq> SessionOf \<Longrightarrow> keeps (starting n) (push r)"
  by (auto simp: keeps_def push_def life_set_def starting_def tracked_def tracked_simps)

lemma keeps_lifespan: "keeps (starting n) (enter_lifespan env)"
proof -
  have "starting n (s\<lparr>lv_trace := lv_trace s @ [Acquired LifespanOf], lv_stack := map_option (Cons LifespanOf) (lv_stack s)\<rparr>)"
    if "starting n s" for s
    using that by (auto simp: starting_def tracked_def tracked_simps)
  then show ?thesis
    by (auto simp: keeps_def enter_lifespan_def act_bind_def acquire_def record_event_def push_def life_set_def split: option.splits)
qed

lemma keeps_enter_session: "keeps (starting n) (act_bind (enter_session env) (\<lambda>_. push SessionOf))"
proof -
  have "starting n (s\<lparr>sm_session := True, sm_owns := True, lv_trace := lv_trace s @ [Acquired SessionOf], lv_stack := map_option (Cons SessionOf) (lv_stack s)\<rparr>)"
    "starting n (s\<lparr>lv_stack := map_option (Cons SessionOf) (lv_stack s)\<rparr>)"
    if "starting n s" for s
    using that by (auto simp: starting_def tracked_def tracked_simps)
  then show ?thesis
    by (auto simp: keeps_def act_bind_def enter_session_def record_event_def push_def life_set_def split: sum.splits)
qed

lemma keeps_startup:
  assumes "channels_whole env" "a \<in> set (startup_steps env)"
  shows "keeps (starting n) a"
proof -
  have b: "keeps (starting n) (bind_handlers env)" "keeps (starting n) (bind_streams env)"
    unfolding bind_handlers_def bind_streams_def by (rule keeps_sizes_read, rule keeps_endpoints)+
  moreover have "keeps (starting n) (bind_channels env)"
    unfolding bind_channels_def
    by (rule keeps_sizes_read, rule keeps_seq) (auto intro: keeps_bindable keeps_server [OF assms(1)])
  moreover have "keeps (starting n) (bind_persist env)"
    unfolding bind_persist_def
    by (rule keeps_sizes_read, rule keeps_seq) (auto intro!: keeps_role simp: roles_def sizes_def)
  moreover have "keeps (starting n) (bind_queues env)"
    unfolding bind_queues_def
    by (rule keeps_sizes_read, rule keeps_seq) (auto intro!: keeps_role keeps_bind_one simp: tracked_simps)
  moreover have pub: "keeps (starting n) (bind_publisher env i)" for i
  proof -
    have "keeps (starting n) (bind_one env (Bound PublishTo i) (\<lambda>s. s\<lparr>lv_publishers := lv_publishers s @ [Bound PublishTo i]\<rparr>))"
      by (rule keeps_bind_one) (auto simp: tracked_simps)
    then show ?thesis by (simp add: keeps_def bind_publisher_def)
  qed
  have "keeps (starting n) (bind_publishers env)"
    unfolding bind_publishers_def by (rule keeps_sizes_read, rule keeps_seq) (use pub in auto)
  moreover have "keeps (starting n) (bind_subscribers env)"
    unfolding bind_subscribers_def
    by (rule keeps_sizes_read, rule keeps_seq)
      (auto intro!: keeps_bindable keeps_bind_one simp: start_replay_def tracked_simps split: if_splits)
  moreover have "keeps (starting n) (bind_liveliness env)"
    unfolding bind_liveliness_def
    by (rule keeps_sizes_read, rule keeps_seq) (auto intro!: keeps_bind_one simp: tracked_simps)
  moreover have "keeps (starting n) push_storage"
    using keeps_push [of StorageOf n] by (auto simp: keeps_def push_storage_def)
  ultimately show ?thesis
    using assms(2) keeps_push [of DatabasesOf n] keeps_lifespan [of n env] keeps_enter_session [of n env]
    by (auto simp: startup_steps_def)
qed


section \<open>Stopping\<close>

definition releases_work :: "life_env \<Rightarrow> bool" where
  "releases_work env \<longleftrightarrow> (\<forall>r n. en_release env r n = None)"

lemma release_works: "releases_work env \<Longrightarrow> release env = (\<lambda>r. record_event (Released r))"
  by (intro ext) (simp add: release_def releases_work_def)

lemma let_go_works: "releases_work env \<Longrightarrow> let_go env r = record_event (Released r)"
  by (rule ext) (simp add: let_go_def swallow_def release_works record_event_def life_set_def)

lemma record_seq: "act_seq (map (\<lambda>x. record_event (g x)) xs) s = (Inr (), s\<lparr>lv_trace := lv_trace s @ map g xs\<rparr>)"
  by (induction xs arbitrary: s) (simp_all add: act_return_def act_bind_def record_event_def life_set_def)

lemma act_seq_append: "act_seq (as @ bs) = act_bind (act_seq as) (\<lambda>_. act_seq bs)"
  by (induction as) (simp_all add: act_bind_assoc)

lemma record_seq2: "act_seq (concat (map (\<lambda>x. [record_event (g x), record_event (h x)]) xs)) s
    = (Inr (), s\<lparr>lv_trace := lv_trace s @ concat (map (\<lambda>x. [g x, h x]) xs)\<rparr>)"
  by (induction xs arbitrary: s) (simp_all add: act_return_def act_bind_def record_event_def life_set_def)

lemmas act_simps = act_return_def act_bind_def record_event_def life_set_def

text \<open>Each step, where every release works: what it appends to the trace, and what it clears.\<close>

lemma steps_work:
  assumes w: "releases_work env"
  shows "stop_http env s = (Inr (), s\<lparr>lv_web := False, lv_trace := lv_trace s @ (if lv_web s then [Released HttpServer] else [])\<rparr>)"
    "cancel_replay_tasks env s = (Inr (), s\<lparr>lv_replays := [], lv_trace := lv_trace s @ map Released (lv_replays s)\<rparr>)"
    "unbind_liveliness env s = (Inr (), s\<lparr>lv_live_subs := [], lv_tokens := [],
       lv_trace := lv_trace s @ map Released (lv_live_subs s) @ map Released (lv_tokens s)\<rparr>)"
    "unbind_subscribers env s = (Inr (), s\<lparr>lv_subscribers := [], lv_trace := lv_trace s @ map Released (lv_subscribers s)\<rparr>)"
    "unbind_queues env s = (Inr (), s\<lparr>lv_schedules := [], lv_trace := lv_trace s @ map Released (lv_schedules s)
       @ map (\<lambda>i. Released (Bound WorkerOf i)) [0..<length (ap_workers s)] @ map (\<lambda>i. Released (Bound OwnerOf i)) [0..<length (ap_owners s)]\<rparr>)"
    "unbind_persist env s = (Inr (), s\<lparr>lv_trace := lv_trace s
       @ concat (map (\<lambda>i. [Released (Bound PersistOf i), Released (Bound PersistStore i)]) [0..<length (ap_persist s)])\<rparr>)"
    "unbind_channels env s = (Inr (), s\<lparr>lv_servers := [], lv_trace := lv_trace s
       @ concat (map (\<lambda>i. [Released (Bound ChannelOpen i), Released (Bound ChannelLive i)]) (lv_servers s))\<rparr>)"
    "unbind_handlers env s = (Inr (), s\<lparr>lv_queryables := [], lv_trace := lv_trace s @ map Released (lv_queryables s)\<rparr>)"
proof -
  note rw = release_works [OF w] let_go_works [OF w] record_seq record_seq2
  show "stop_http env s = (Inr (), s\<lparr>lv_web := False, lv_trace := lv_trace s @ (if lv_web s then [Released HttpServer] else [])\<rparr>)"
    by (simp add: stop_http_def rw act_simps)
  show "cancel_replay_tasks env s = (Inr (), s\<lparr>lv_replays := [], lv_trace := lv_trace s @ map Released (lv_replays s)\<rparr>)"
    by (simp add: cancel_replay_tasks_def end_tasks_def act_bind_def record_seq life_set_def act_return_def)
  show "unbind_liveliness env s = (Inr (), s\<lparr>lv_live_subs := [], lv_tokens := [],
       lv_trace := lv_trace s @ map Released (lv_live_subs s) @ map Released (lv_tokens s)\<rparr>)"
    by (simp add: unbind_liveliness_def release_each_def release_works [OF w] act_bind_def record_seq life_set_def act_return_def)
  show "unbind_subscribers env s = (Inr (), s\<lparr>lv_subscribers := [], lv_trace := lv_trace s @ map Released (lv_subscribers s)\<rparr>)"
    by (simp add: unbind_subscribers_def release_each_def release_works [OF w] act_bind_def record_seq life_set_def act_return_def)
  show "unbind_queues env s = (Inr (), s\<lparr>lv_schedules := [], lv_trace := lv_trace s @ map Released (lv_schedules s)
       @ map (\<lambda>i. Released (Bound WorkerOf i)) [0..<length (ap_workers s)] @ map (\<lambda>i. Released (Bound OwnerOf i)) [0..<length (ap_owners s)]\<rparr>)"
    by (simp add: unbind_queues_def end_tasks_def let_go_works [OF w] act_seq_append act_bind_def record_seq life_set_def act_return_def o_def)
  show "unbind_persist env s = (Inr (), s\<lparr>lv_trace := lv_trace s
       @ concat (map (\<lambda>i. [Released (Bound PersistOf i), Released (Bound PersistStore i)]) [0..<length (ap_persist s)])\<rparr>)"
    by (simp add: unbind_persist_def rw)
  show "unbind_channels env s = (Inr (), s\<lparr>lv_servers := [], lv_trace := lv_trace s
       @ concat (map (\<lambda>i. [Released (Bound ChannelOpen i), Released (Bound ChannelLive i)]) (lv_servers s))\<rparr>)"
    by (simp add: unbind_channels_def let_go_works [OF w] act_seq_append act_bind_def record_seq2 life_set_def act_return_def)
  show "unbind_handlers env s = (Inr (), s\<lparr>lv_queryables := [], lv_trace := lv_trace s @ map Released (lv_queryables s)\<rparr>)"
    by (simp add: unbind_handlers_def release_each_def release_works [OF w] act_bind_def record_seq life_set_def act_return_def)
qed

lemma unbind_publishers_works:
  assumes w: "releases_work env"
  shows "unbind_publishers env s = (Inr (), s\<lparr>lv_publishers := [], lv_trace := lv_trace s @ map Released (lv_publishers s)\<rparr>)"
proof -
  have "act_seq (map (\<lambda>r. act_bind (release env r) (\<lambda>_. life_set (\<lambda>s. s\<lparr>lv_publishers := filter (\<lambda>x. x \<noteq> r) (lv_publishers s)\<rparr>))) rs) s
      = (Inr (), s\<lparr>lv_publishers := filter (\<lambda>x. x \<notin> set rs) (lv_publishers s), lv_trace := lv_trace s @ map Released rs\<rparr>)" for rs s
    by (induction rs arbitrary: s) (simp_all add: release_works [OF w] act_simps conj_commute)
  then show ?thesis by (simp add: unbind_publishers_def)
qed

text \<open>The exit stack: an owned session is closed once.\<close>

fun close_events :: "bool \<Rightarrow> resource list \<Rightarrow> life_event list" where
  "close_events own [] = []"
| "close_events own (r # rs) =
     (if r = SessionOf then (if own then [Released SessionOf] else []) @ close_events False rs
      else Released r # close_events own rs)"

lemma close_each_works:
  assumes w: "releases_work env"
  shows "close_each env rs None s = (Inr (), s\<lparr>sm_session := (if SessionOf \<in> set rs then False else sm_session s),
    lv_trace := lv_trace s @ close_events (sm_session s \<and> sm_owns s) rs\<rparr>)"
  by (induction rs arbitrary: s) (auto simp: close_one_def exit_session_def release_works [OF w] act_simps)

lemma close_events_released:
  "r \<in> set rs \<Longrightarrow> (r = SessionOf \<longrightarrow> own) \<Longrightarrow> Released r \<in> set (close_events own rs)"
  by (induction own rs rule: close_events.induct) auto


text \<open>Everything is let go of in order: the endpoints, then the requests in flight, then the session and what was entered before it.\<close>

lemma shutdown_works:
  assumes w: "releases_work env"
  obtains before mid s' where "shutdown env s = (Inr (), s')"
    "lv_trace s' = lv_trace s @ before @ mid @ close_events (sm_session s \<and> sm_owns s) (case lv_stack s of None \<Rightarrow> [] | Some rs \<Rightarrow> rs)"
    "set before \<subseteq> range Released" "\<And>r. r \<in> on_mesh s \<Longrightarrow> Released r \<in> set before"
    "mid = [] \<or> (\<exists>fin late. mid = [Drained fin late] \<and> set fin \<union> set late = fst ` set (lv_inflight s))"
    "lv_inflight s \<noteq> [] \<and> 0 < ap_grace s \<Longrightarrow> mid \<noteq> []" "lv_stack s' = None" "\<not> lv_ready s'"
proof -
  define before where "before = (if lv_web s then [Released HttpServer] else []) @ map Released (lv_replays s)
    @ map Released (lv_live_subs s) @ map Released (lv_tokens s) @ map Released (lv_subscribers s) @ map Released (lv_publishers s)
    @ map Released (lv_schedules s) @ map (\<lambda>i. Released (Bound WorkerOf i)) [0..<length (ap_workers s)]
    @ map (\<lambda>i. Released (Bound OwnerOf i)) [0..<length (ap_owners s)]
    @ concat (map (\<lambda>i. [Released (Bound PersistOf i), Released (Bound PersistStore i)]) [0..<length (ap_persist s)])
    @ concat (map (\<lambda>i. [Released (Bound ChannelOpen i), Released (Bound ChannelLive i)]) (lv_servers s))
    @ map Released (lv_queryables s)"
  define mid where "mid = (if lv_inflight s = [] \<or> ap_grace s \<le> 0 then []
    else [Drained (map fst (filter (\<lambda>(i, d). d \<le> ap_grace s) (lv_inflight s))) (map fst (filter (\<lambda>(i, d). \<not> d \<le> ap_grace s) (lv_inflight s)))])"
  define s1 where "s1 = s\<lparr>lv_ready := False, lv_web := False, lv_replays := [], lv_live_subs := [], lv_tokens := [], lv_subscribers := [],
    lv_publishers := [], lv_schedules := [], lv_servers := [], lv_queryables := [], lv_trace := lv_trace s @ before\<rparr>"
  define s2 where "s2 = s1\<lparr>lv_inflight := (if mid = [] then lv_inflight s else []), lv_trace := lv_trace s1 @ mid\<rparr>"
  define s3 where "s3 = s2\<lparr>lv_stack := None, sm_session := (if SessionOf \<in> stacked s then False else sm_session s),
    lv_trace := lv_trace s2 @ close_events (sm_session s \<and> sm_owns s) (case lv_stack s of None \<Rightarrow> [] | Some rs \<Rightarrow> rs)\<rparr>"
  have drain: "drain_inflight s1 = (Inr (), s2)"
    by (auto simp: drain_inflight_def s1_def s2_def mid_def record_event_def life_set_def)
  have close: "close_stack env s2 = (Inr (), s3)"
    by (cases "lv_stack s") (auto simp: close_stack_def s3_def s2_def s1_def stacked_def close_each_works [OF w])
  have "shutdown env s = (Inr (), s3)"
    unfolding shutdown_def shutdown_steps_def
    by (simp add: act_bind_def life_set_def swallow_def steps_work [OF w] unbind_publishers_works [OF w] act_return_def
      s1_def [symmetric] drain close before_def [symmetric])
  then show thesis
  proof (rule that)
    show "lv_trace s3 = lv_trace s @ before @ mid @ close_events (sm_session s \<and> sm_owns s) (case lv_stack s of None \<Rightarrow> [] | Some rs \<Rightarrow> rs)"
      by (simp add: s3_def s2_def s1_def)
    show "set before \<subseteq> range Released" by (auto simp: before_def)
    show "Released r \<in> set before" if "r \<in> on_mesh s" for r
      using that by (auto simp: before_def on_mesh_def roles_def split: if_splits)
    show "mid = [] \<or> (\<exists>fin late. mid = [Drained fin late] \<and> set fin \<union> set late = fst ` set (lv_inflight s))"
      by (auto simp: mid_def image_iff)
  qed (auto simp: mid_def s3_def s2_def s1_def)
qed


fun no_acquire :: "life_event \<Rightarrow> bool" where
  "no_acquire (Acquired r) = False"
| "no_acquire e = True"

lemma holds_releases:
  "\<forall>e \<in> set evs. no_acquire e \<Longrightarrow> r \<in> holds (tr @ evs) \<Longrightarrow> r \<in> holds tr \<and> Released r \<notin> set evs"
proof (induction evs rule: rev_induct)
  case (snoc e evs)
  then show ?case by (cases e) (auto simp: append_assoc [symmetric] simp del: append_assoc)
qed simp

lemma close_events_release: "set (close_events own rs) \<subseteq> range Released"
  by (induction own rs rule: close_events.induct) auto

lemma shutdown_clears:
  assumes w: "releases_work env" and t: "tracked s"
  shows "\<exists>s'. shutdown env s = (Inr (), s') \<and> holds (lv_trace s') = {}"
proof -
  obtain before mid s' where s': "shutdown env s = (Inr (), s')"
    "lv_trace s' = lv_trace s @ before @ mid @ close_events (sm_session s \<and> sm_owns s) (case lv_stack s of None \<Rightarrow> [] | Some rs \<Rightarrow> rs)"
    and b: "set before \<subseteq> range Released" "\<And>r. r \<in> on_mesh s \<Longrightarrow> Released r \<in> set before"
    and m: "mid = [] \<or> (\<exists>fin late. mid = [Drained fin late] \<and> set fin \<union> set late = fst ` set (lv_inflight s))"
    by (rule shutdown_works [OF w]) blast
  let ?close = "close_events (sm_session s \<and> sm_owns s) (case lv_stack s of None \<Rightarrow> [] | Some rs \<Rightarrow> rs)"
  have na: "\<forall>e \<in> set (before @ mid @ ?close). no_acquire e" using b(1) m close_events_release by fastforce
  have "holds (lv_trace s') = {}"
  proof (rule equals0I)
    fix r assume "r \<in> holds (lv_trace s')"
    then have h: "r \<in> holds (lv_trace s)" "Released r \<notin> set before" "Released r \<notin> set ?close"
      using holds_releases [OF na, of r "lv_trace s"] s'(2) by auto
    then have "r \<in> stacked s" "r = SessionOf \<longrightarrow> sm_session s \<and> sm_owns s" using t b(2) unfolding tracked_def by auto
    then have "Released r \<in> set ?close" by (auto simp: stacked_def intro: close_events_released split: option.splits)
    then show False using h(3) by simp
  qed
  then show ?thesis using s'(1) by blast
qed

text \<open>What runs between start and stop may submit requests, and does not reach into the private state of the application.\<close>

definition quiet_body :: "life \<Rightarrow> bool" where
  "quiet_body body \<longleftrightarrow> (\<forall>s. \<exists>out q. body s = (out, s\<lparr>lv_inflight := q\<rparr>))"



definition demo_shell :: shell where
  "demo_shell = \<lparr>ap_lifespan = True, ap_storage_close = True, ap_http = False, ap_grace = 10,
     ap_handlers = [(''a'', False)], ap_streams = [], ap_channels = [(''c'', False)], ap_persist = [], ap_owners = [''q''], ap_workers = [],
     ap_schedules = [], ap_publishers = [], ap_subscribers = [(''b'', False, False)], ap_tokens = [], ap_live_subs = [],
     sm_session = False, sm_owns = True, sm_retries = 1, lv_ready = False, lv_stack = None, lv_queryables = [], lv_servers = [],
     lv_publishers = [], lv_subscribers = [], lv_replays = [], lv_schedules = [], lv_live_subs = [], lv_tokens = [], lv_web = False,
     lv_inflight = [], lv_signals = [], lv_trace = []\<rparr>"

text \<open>A world whose router is up at the second attempt, and which refuses the subscriber.\<close>

definition demo_env :: life_env where
  "demo_env = \<lparr>en_acquire = (\<lambda>r n. if r = Bound SubscribeTo 0 then Some (runtime_error ''refused'') else None),
     en_release = (\<lambda>r n. None), en_open = (\<lambda>n. if n = 0 then Some (runtime_error ''down'') else None), en_wording = (\<lambda>v p. p)\<rparr>"

lemmas run_simps = serving_def startup_def startup_steps_def enter_lifespan_def push_storage_def push_def enter_session_def
  open_attempts_def bind_handlers_def bind_streams_def bind_endpoints_def bind_channels_def bind_server_def bind_persist_def
  bind_queues_def bind_publishers_def bind_subscribers_def bind_liveliness_def bind_one_def acquire_def acquire_role_def ensure_bindable_def
  act_bind_def act_simps enumerate_eq_zip numeral_2_eq_2


section \<open>Steps that fail\<close>

text \<open>Releases that raise, though no cancellation among them.\<close>

definition releases_raise_exceptions :: "life_env \<Rightarrow> bool" where
  "releases_raise_exceptions env \<longleftrightarrow> (\<forall>r n e. en_release env r n = Some e \<longrightarrow> is_exception e)"

definition mild :: "(shell \<Rightarrow> bool) \<Rightarrow> life \<Rightarrow> bool" where
  "mild P a \<longleftrightarrow> (\<forall>s. P s \<longrightarrow> (case a s of (Inl e, s') \<Rightarrow> is_exception e \<and> P s' | (Inr _, s') \<Rightarrow> P s'))"

lemma mild_bind: "mild P a \<Longrightarrow> mild P b \<Longrightarrow> mild P (act_bind a (\<lambda>_. b))"
  unfolding mild_def
proof (intro allI impI)
  fix s assume a: "\<forall>s. P s \<longrightarrow> (case a s of (Inl e, s') \<Rightarrow> is_exception e \<and> P s' | (Inr _, s') \<Rightarrow> P s')"
    and b: "\<forall>s. P s \<longrightarrow> (case b s of (Inl e, s') \<Rightarrow> is_exception e \<and> P s' | (Inr _, s') \<Rightarrow> P s')" and s: "P s"
  obtain out s1 where o: "a s = (out, s1)" by fastforce
  show "case act_bind a (\<lambda>_. b) s of (Inl e, s') \<Rightarrow> is_exception e \<and> P s' | (Inr _, s') \<Rightarrow> P s'"
    using a [rule_format, OF s] b [rule_format, of s1] o by (cases out) (simp_all add: act_bind_def)
qed

lemma mild_seq: "(\<And>a. a \<in> set as \<Longrightarrow> mild P a) \<Longrightarrow> mild P (act_seq as)"
  by (induction as) (auto intro: mild_bind simp: mild_def [of _ "act_return ()"] act_return_def)

lemma mild_set: "(\<And>s. P s \<Longrightarrow> P (f s)) \<Longrightarrow> mild P (life_set f)"
  by (simp add: mild_def life_set_def)

lemma mild_read: "(\<And>s. mild P (f s)) \<Longrightarrow> mild P (\<lambda>s. f s s)"
  by (simp add: mild_def)

lemma swallow_mild:
  assumes "mild P a" "P s"
  shows "\<exists>s'. swallow a s = (Inr (), s') \<and> P s'"
proof -
  obtain out s1 where o: "a s = (out, s1)" by fastforce
  show ?thesis using assms(1) [unfolded mild_def, rule_format, OF assms(2)] o by (cases out) (auto simp: swallow_def)
qed

lemma mild_swallow:
  assumes "mild P a"
  shows "mild P (swallow a)"
  unfolding mild_def
proof (intro allI impI)
  fix s assume "P s"
  then obtain s' where "swallow a s = (Inr (), s')" "P s'" using swallow_mild [OF assms] by blast
  then show "case swallow a s of (Inl e, s') \<Rightarrow> is_exception e \<and> P s' | (Inr _, s') \<Rightarrow> P s'" by simp
qed

text \<open>What the steps before the last leave alone.\<close>

definition session_part :: "resource list option \<Rightarrow> bool \<Rightarrow> bool \<Rightarrow> shell \<Rightarrow> bool" where
  "session_part st up own s \<longleftrightarrow> lv_stack s = st \<and> sm_session s = up \<and> sm_owns s = own \<and> \<not> lv_ready s
     \<and> (SessionOf \<in> holds (lv_trace s) \<longrightarrow> up \<and> own \<and> SessionOf \<in> stacked s)"

lemma session_updates:
  "session_part st up own (s\<lparr>lv_replays := x\<rparr>) = session_part st up own s"
  "session_part st up own (s\<lparr>lv_live_subs := x\<rparr>) = session_part st up own s"
  "session_part st up own (s\<lparr>lv_tokens := x\<rparr>) = session_part st up own s"
  "session_part st up own (s\<lparr>lv_subscribers := x\<rparr>) = session_part st up own s"
  "session_part st up own (s\<lparr>lv_publishers := x\<rparr>) = session_part st up own s"
  "session_part st up own (s\<lparr>lv_schedules := x\<rparr>) = session_part st up own s"
  "session_part st up own (s\<lparr>lv_servers := y\<rparr>) = session_part st up own s"
  "session_part st up own (s\<lparr>lv_queryables := x\<rparr>) = session_part st up own s"
  by (simp_all add: session_part_def stacked_def)

lemma mild_release: "releases_raise_exceptions env \<Longrightarrow> mild (session_part st up own) (release env r)"
  by (auto simp: mild_def release_def record_event_def life_set_def session_part_def stacked_def releases_raise_exceptions_def split: option.splits)

lemma mild_event: "mild (session_part st up own) (record_event (Released r))" "mild (session_part st up own) (record_event (Drained fin late))"
  by (auto simp: mild_def record_event_def life_set_def session_part_def stacked_def)

lemma mild_steps:
  assumes g: "releases_raise_exceptions env" and a: "a \<in> set (butlast (shutdown_steps env))"
  shows "mild (session_part st up own) a"
proof -
  note m = mild_release [OF g] mild_event
  have "mild (session_part st up own) (stop_http env)"
  proof -
    have "mild (session_part st up own) (act_bind (release env HttpServer) (\<lambda>_. life_set (\<lambda>s. s\<lparr>lv_web := False\<rparr>)))"
      by (intro mild_bind m mild_set) (auto simp: session_part_def stacked_def)
    then show ?thesis by (simp add: mild_def stop_http_def)
  qed
  moreover have "mild (session_part st up own) (cancel_replay_tasks env)"
    unfolding cancel_replay_tasks_def end_tasks_def
    by (rule mild_read, rule mild_seq) (auto intro!: mild_seq m mild_set simp: session_updates)
  moreover have "mild (session_part st up own) (unbind_liveliness env)"
    unfolding unbind_liveliness_def release_each_def
    by (rule mild_read, rule mild_seq) (auto intro!: mild_seq m mild_set simp: session_updates)
  moreover have "mild (session_part st up own) (unbind_subscribers env)"
    unfolding unbind_subscribers_def release_each_def
    by (rule mild_read, rule mild_seq) (auto intro!: mild_seq m mild_set simp: session_updates)
  moreover have "mild (session_part st up own) (unbind_publishers env)"
    unfolding unbind_publishers_def
    by (rule mild_read, rule mild_seq) (auto intro!: mild_bind m mild_set simp: session_updates)
  moreover have "mild (session_part st up own) (unbind_queues env)"
    unfolding unbind_queues_def end_tasks_def let_go_def
    by (rule mild_read, rule mild_seq) (auto intro!: mild_seq mild_swallow m mild_set simp: session_updates)
  moreover have "mild (session_part st up own) (unbind_persist env)"
    unfolding unbind_persist_def let_go_def
    by (rule mild_read, rule mild_seq) (auto intro!: mild_swallow m)
  moreover have "mild (session_part st up own) (unbind_channels env)"
    unfolding unbind_channels_def let_go_def
    by (rule mild_read, rule mild_seq) (auto intro!: mild_swallow m mild_set simp: session_updates)
  moreover have "mild (session_part st up own) (unbind_handlers env)"
    unfolding unbind_handlers_def release_each_def
    by (rule mild_read, rule mild_seq) (auto intro!: mild_seq m mild_set simp: session_updates)
  moreover have "mild (session_part st up own) drain_inflight"
    by (auto simp: mild_def drain_inflight_def record_event_def life_set_def session_part_def stacked_def)
  ultimately show ?thesis using a by (auto simp: shutdown_steps_def)
qed


lemma close_each_ends_session:
  assumes g: "releases_raise_exceptions env" "\<forall>n. en_release env SessionOf n = None"
    and "SessionOf \<in> holds (lv_trace s) \<longrightarrow> sm_session s \<and> sm_owns s \<and> SessionOf \<in> set rs"
    and "\<forall>e. pending = Some e \<longrightarrow> is_exception e"
  shows "\<exists>out s'. close_each env rs pending s = (out, s') \<and> SessionOf \<notin> holds (lv_trace s')
    \<and> lv_stack s' = lv_stack s \<and> lv_ready s' = lv_ready s \<and> (\<forall>e. out = Inl e \<longrightarrow> is_exception e)"
  using assms(3,4)
proof (induction rs arbitrary: s pending)
  case Nil
  then show ?case by (auto split: option.splits)
next
  case (Cons r rs)
  show ?case
  proof (cases "r = SessionOf")
    case True
    let ?s = "s\<lparr>sm_session := False, lv_trace := lv_trace s @ (if sm_session s \<and> sm_owns s then [Released SessionOf] else [])\<rparr>"
    have c: "close_one env r s = (Inr (), ?s)"
      using True g(2) by (simp add: close_one_def exit_session_def release_def act_simps act_bind_def)
    have "SessionOf \<notin> holds (lv_trace ?s)" using Cons.prems(1) by auto
    then show ?thesis using Cons.IH [of ?s pending] Cons.prems(2) c by simp
  next
    case False
    show ?thesis
    proof (cases "en_release env r (length (lv_trace s))")
      case None
      then have c: "close_one env r s = (Inr (), s\<lparr>lv_trace := lv_trace s @ [Released r]\<rparr>)"
        using False by (simp add: close_one_def release_def act_simps)
      then show ?thesis
        using Cons.IH [of "s\<lparr>lv_trace := lv_trace s @ [Released r]\<rparr>" pending] Cons.prems False by auto
    next
      case (Some e)
      then have c: "close_one env r s = (Inl e, s)" and "is_exception e"
        using False g(1) by (auto simp: close_one_def release_def releases_raise_exceptions_def)
      then show ?thesis using Cons.IH [of s "Some e"] Cons.prems False by auto
    qed
  qed
qed

text \<open>A step that raises does not keep the later ones from running: the session is closed all the same.\<close>

lemma shutdown_steps_are_isolated:
  assumes g: "releases_raise_exceptions env" "\<forall>n. en_release env SessionOf n = None"
    and h: "SessionOf \<in> holds (lv_trace s) \<longrightarrow> sm_session s \<and> sm_owns s \<and> SessionOf \<in> stacked s"
  shows "\<exists>s'. shutdown env s = (Inr (), s') \<and> SessionOf \<notin> holds (lv_trace s') \<and> lv_stack s' = None \<and> \<not> lv_ready s'"
proof -
  let ?P = "session_part (lv_stack s) (sm_session s) (sm_owns s)"
  let ?s = "s\<lparr>lv_ready := False\<rparr>"
  have "mild ?P (act_seq (map swallow (butlast (shutdown_steps env))))"
    by (rule mild_seq) (auto intro: mild_swallow mild_steps [OF g(1)])
  moreover have "?P ?s" using h by (simp add: session_part_def stacked_def)
  moreover have returns: "\<exists>s1. act_seq (map swallow as) s0 = (Inr (), s1) \<and> ?P s1" if "\<And>a. a \<in> set as \<Longrightarrow> mild ?P a" "?P s0" for as s0
    using that
  proof (induction as arbitrary: s0)
    case (Cons a as)
    obtain s1 where "swallow a s0 = (Inr (), s1)" "?P s1" using swallow_mild [of ?P a s0] Cons.prems by auto
    then show ?case using Cons.IH [of s1] Cons.prems by (simp add: act_bind_def)
  qed (simp add: act_return_def)
  ultimately obtain s1 where s1: "act_seq (map swallow (butlast (shutdown_steps env))) ?s = (Inr (), s1)" "?P s1"
    using returns [of "butlast (shutdown_steps env)" ?s] mild_steps [OF g(1)] by blast
  have "\<exists>out s2. close_stack env s1 = (out, s2) \<and> SessionOf \<notin> holds (lv_trace s2) \<and> lv_stack s2 = None \<and> \<not> lv_ready s2
    \<and> (\<forall>e. out = Inl e \<longrightarrow> is_exception e)"
  proof (cases "lv_stack s")
    case None
    then show ?thesis using s1(2) h by (auto simp: close_stack_def session_part_def stacked_def)
  next
    case (Some rs)
    have "SessionOf \<in> holds (lv_trace (s1\<lparr>lv_stack := None\<rparr>)) \<longrightarrow> sm_session (s1\<lparr>lv_stack := None\<rparr>) \<and> sm_owns (s1\<lparr>lv_stack := None\<rparr>) \<and> SessionOf \<in> set rs"
      using Some s1(2) by (auto simp: session_part_def stacked_def)
    from close_each_ends_session [OF g this, of None] show ?thesis using Some s1(2) by (auto simp: close_stack_def session_part_def)
  qed
  then obtain out s2 where s2: "close_stack env s1 = (out, s2)" "SessionOf \<notin> holds (lv_trace s2)" "lv_stack s2 = None" "\<not> lv_ready s2"
    "\<forall>e. out = Inl e \<longrightarrow> is_exception e" by blast
  have "map swallow (shutdown_steps env) = map swallow (butlast (shutdown_steps env)) @ [swallow (close_stack env)]"
    by (simp add: shutdown_steps_def)
  then have "shutdown env s = act_bind (swallow (close_stack env)) (\<lambda>_. act_return ()) s1"
    using s1(1) by (simp add: shutdown_def act_seq_append) (simp add: act_bind_def life_set_def)
  moreover have "swallow (close_stack env) s1 = (Inr (), s2)" using s2(1,5) by (cases out) (auto simp: swallow_def)
  ultimately have "shutdown env s = (Inr (), s2)" by (simp add: act_bind_def act_return_def)
  then show ?thesis using s2 by blast
qed


section \<open>Findings\<close>

text \<open>The web server starts outside the guard of \<open>_startup\<close> and before that of \<open>serving\<close>: when its port is taken,
  nothing of what was started is stopped.\<close>

lemma http_failure_leaves_all:
  assumes "act_seq (startup_steps env) (s\<lparr>lv_stack := Some []\<rparr>) = (Inr (), s1)" "ap_http s1"
    and "en_acquire env HttpServer (length (lv_trace s1)) = Some e"
  shows "\<exists>s2. serving env True body s = (Inl e, s2) \<and> holds (lv_trace s2) = holds (lv_trace s1) \<and> lv_ready s2"
  using assms by (simp add: serving_def startup_def start_http_def Let_def bind_one_def acquire_def act_bind_def)

text \<open>A channel whose second declaration fails is not on the list that is unbound.\<close>

lemma half_channel_is_forgotten:
  assumes "en_acquire env (Bound ChannelOpen i) (length (lv_trace s)) = None"
    "en_acquire env (Bound ChannelLive i) (length (lv_trace s) + 1) = Some e"
  shows "bind_server env i s = (Inl e, s\<lparr>lv_trace := lv_trace s @ [Acquired (Bound ChannelOpen i)]\<rparr>)"
  using assms by (simp add: bind_server_def bind_one_def acquire_def act_bind_def act_simps)

text \<open>A queryable that cannot be undeclared keeps the ones after it declared.\<close>

lemma failed_undeclare_keeps_the_rest:
  assumes "lv_queryables s = q # qs" "en_release env q (length (lv_trace s)) = Some e"
  shows "unbind_handlers env s = (Inl e, s)"
  using assms by (simp add: unbind_handlers_def release_each_def release_def act_bind_def)

text \<open>A session that was handed in is left open and forgotten: entered again, the manager opens one of its own.\<close>

lemma borrowed_session_is_replaced:
  assumes "sm_session s" "\<not> sm_owns s" "en_open env 0 = None"
  shows "exit_session env s = (Inr (), s\<lparr>sm_session := False\<rparr>)"
    "\<exists>s2. enter_session env (s\<lparr>sm_session := False\<rparr>) = (Inr (), s2) \<and> sm_owns s2 \<and> lv_trace s2 = lv_trace s @ [Acquired SessionOf]"
proof -
  obtain k where "open_attempts (s\<lparr>sm_session := False\<rparr>) = Suc k" by (cases "open_attempts (s\<lparr>sm_session := False\<rparr>)") (auto simp: open_attempts_def)
  then show "\<exists>s2. enter_session env (s\<lparr>sm_session := False\<rparr>) = (Inr (), s2) \<and> sm_owns s2 \<and> lv_trace s2 = lv_trace s @ [Acquired SessionOf]"
    using assms(3) by (simp add: enter_session_def act_simps)
qed (use assms in \<open>simp add: exit_session_def act_simps act_bind_def\<close>)

text \<open>Opening is tried at most as often as configured, at least once, and gives up with the last error.\<close>

lemma open_gives_up:
  assumes "\<forall>k < n. \<exists>e. en_open env k = Some e \<and> is_exception e" "0 < n"
  shows "try_open env n n None = Inl (open_failed n (en_open env (n - 1)))"
proof -
  have "try_open env n m last_exc = Inl (open_failed n (if m = 0 then last_exc else en_open env (n - 1)))" if "m \<le> n" for m last_exc
    using that
  proof (induction m arbitrary: last_exc)
    case (Suc m)
    obtain e where "en_open env (n - Suc m) = Some e" "is_exception e" using assms(1) [rule_format, of "n - Suc m"] assms(2) by auto
    then show ?case using Suc.IH [of "Some e"] Suc.prems by (cases m) auto
  qed simp
  then show ?thesis using assms(2) by simp
qed

end
