(* ===== verification/Serving.thy ===== *)
theory Serving
  imports Registration Lifecycle
begin

text \<open>
  From what a module registers, on the application or on a router, to what a node serves once it has
  started: the registries of \<open>Registration\<close> handed to the start-up of \<open>Lifecycle\<close>.
\<close>

section \<open>The registries at start-up\<close>

text \<open>The application as its start-up finds it.\<close>

definition shell_of :: "application \<Rightarrow> bool \<Rightarrow> bool \<Rightarrow> time \<Rightarrow> int \<Rightarrow> shell" where
  "shell_of a lifespan storage_close grace retries =
     \<lparr>ap_lifespan = lifespan, ap_storage_close = storage_close, ap_http = an_http_port a \<noteq> None, ap_grace = grace,
      ap_handlers = map (\<lambda>h. (he_prefix h, fn_takes_self (he_func h))) (rs_handlers a),
      ap_streams = map (\<lambda>h. (te_prefix h, fn_takes_self (te_func h))) (rs_streams a),
      ap_channels = map (\<lambda>h. (ce_prefix h, fn_takes_self (ce_func h))) (rs_channels a),
      ap_persist = map fst (rs_persist a), ap_owners = map r_prefix (rs_queues a), ap_workers = map we_prefix (rs_workers a),
      ap_schedules = map sch_prefix (rs_schedules a), ap_publishers = map pe_prefix (filter pe_durable (rs_publishers a)),
      ap_subscribers = map (\<lambda>h. (se_prefix h, fn_takes_self (se_func h), se_replay_persisted h)) (rs_subscribers a),
      ap_tokens = rs_live_declares a, ap_live_subs = map ve_prefix (rs_live_subs a),
      sm_session = False, sm_owns = True, sm_retries = retries, lv_ready = False, lv_stack = None, lv_queryables = [], lv_servers = [],
      lv_publishers = [], lv_subscribers = [], lv_replays = [], lv_schedules = [], lv_live_subs = [], lv_tokens = [], lv_web = False,
      lv_inflight = [], lv_signals = [], lv_trace = []\<rparr>"

definition places :: "Lifecycle.verb \<Rightarrow> nat \<Rightarrow> resource set" where
  "places v n = Bound v ` {..<n}"

definition declared_by :: "shell \<Rightarrow> resource set" where
  "declared_by s = places Handle (length (ap_handlers s)) \<union> places StreamOf (length (ap_streams s))
     \<union> places ChannelOpen (length (ap_channels s)) \<union> places ChannelLive (length (ap_channels s))
     \<union> places PersistOf (length (ap_persist s)) \<union> places OwnerOf (length (ap_owners s)) \<union> places WorkerOf (length (ap_workers s))
     \<union> places ScheduleOf (length (ap_schedules s)) \<union> places PublishTo (length (ap_publishers s))
     \<union> places SubscribeTo (length (ap_subscribers s)) \<union> places LiveToken (length (ap_tokens s)) \<union> places LiveSub (length (ap_live_subs s))"

text \<open>Start-up only adds to what is held, and does not touch the registries.\<close>

definition registries :: "shell \<Rightarrow> _" where
  "registries s = ((ap_handlers s, ap_streams s, ap_channels s), (ap_persist s, ap_owners s, ap_workers s),
     (ap_schedules s, ap_publishers s, ap_subscribers s), (ap_tokens s, ap_live_subs s))"

definition ready_at :: "_ \<Rightarrow> shell \<Rightarrow> bool" where
  "ready_at R s \<longleftrightarrow> registries s = R \<and> set (lv_publishers s) \<subseteq> holds (lv_trace s)"

definition grows :: "_ \<Rightarrow> resource set \<Rightarrow> life \<Rightarrow> bool" where
  "grows R H m \<longleftrightarrow> (\<forall>s out s'. ready_at R s \<longrightarrow> m s = (out, s') \<longrightarrow>
     ready_at R s' \<and> holds (lv_trace s) \<subseteq> holds (lv_trace s') \<and> (out = Inr () \<longrightarrow> H \<subseteq> holds (lv_trace s')))"

lemma growsD:
  assumes "grows R H m" "ready_at R s" "m s = (out, s')"
  shows "ready_at R s'" "holds (lv_trace s) \<subseteq> holds (lv_trace s')" "out = Inr () \<Longrightarrow> H \<subseteq> holds (lv_trace s')"
  using assms unfolding grows_def by blast+

lemma grows_bind:
  assumes "grows R H m" "grows R H' m'"
  shows "grows R (H \<union> H') (act_bind m (\<lambda>_. m'))"
  unfolding grows_def
proof (intro allI impI)
  fix s out s' assume s: "ready_at R s" and run: "act_bind m (\<lambda>_. m') s = (out, s')"
  obtain o1 s1 where m: "m s = (o1, s1)" by fastforce
  note one = growsD [OF assms(1) s m]
  show "ready_at R s' \<and> holds (lv_trace s) \<subseteq> holds (lv_trace s') \<and> (out = Inr () \<longrightarrow> H \<union> H' \<subseteq> holds (lv_trace s'))"
  proof (cases o1)
    case (Inl e)
    then show ?thesis using run m one by (auto simp: act_bind_def)
  next
    case (Inr u)
    then have m': "m' s1 = (out, s')" using run m by (simp add: act_bind_def)
    show ?thesis using growsD [OF assms(2) one(1) m'] one Inr by auto
  qed
qed

lemma grows_return: "grows R {} (act_return ())"
  by (simp add: grows_def act_return_def)

lemma grows_weaken: "grows R H m \<Longrightarrow> H' \<subseteq> H \<Longrightarrow> grows R H' m"
  unfolding grows_def by blast

lemma grows_seq: "(\<And>a. a \<in> set as \<Longrightarrow> grows R (H a) a) \<Longrightarrow> grows R (\<Union>a \<in> set as. H a) (act_seq as)"
proof (induction as)
  case (Cons a as)
  then have "grows R (H a \<union> (\<Union>b \<in> set as. H b)) (act_bind a (\<lambda>_. act_seq as))" by (intro grows_bind) auto
  then show ?case by simp
qed (simp add: grows_return)

lemma grows_map: "(\<And>x. x \<in> set xs \<Longrightarrow> grows R {r x} (m x)) \<Longrightarrow> grows R (r ` set xs) (act_seq (map m xs))"
proof (induction xs)
  case (Cons x xs)
  then have "grows R ({r x} \<union> r ` set xs) (act_bind (m x) (\<lambda>_. act_seq (map m xs)))" by (intro grows_bind) auto
  then show ?case by simp
qed (simp add: grows_return)

lemma grows_append: "grows R H (act_seq as) \<Longrightarrow> grows R H' (act_seq bs) \<Longrightarrow> grows R (H \<union> H') (act_seq (as @ bs))"
  unfolding act_seq_append by (rule grows_bind)

lemma grows_concat:
  "(\<And>x. x \<in> set xs \<Longrightarrow> grows R (H x) (act_seq (m x))) \<Longrightarrow> grows R (\<Union>x \<in> set xs. H x) (act_seq (concat (map m xs)))"
proof (induction xs)
  case (Cons x xs)
  then have "grows R (H x \<union> (\<Union>y \<in> set xs. H y)) (act_seq (m x @ concat (map m xs)))" by (intro grows_append) auto
  then show ?case by simp
qed (simp add: grows_return)

lemma grows_read: "(\<And>s. ready_at R s \<Longrightarrow> grows R H (f s)) \<Longrightarrow> grows R H (\<lambda>s. f s s)"
  unfolding grows_def by blast

text \<open>The single declarations.\<close>

definition tracks :: "(shell \<Rightarrow> shell) \<Rightarrow> resource \<Rightarrow> bool" where
  "tracks f r \<longleftrightarrow> (\<forall>s. registries (f s) = registries s \<and> lv_trace (f s) = lv_trace s
     \<and> set (lv_publishers (f s)) \<subseteq> insert r (set (lv_publishers s)))"

lemma grows_one:
  assumes "tracks f r"
  shows "grows R {r} (bind_one env r f)" "grows R {r} (act_bind (record_event (Acquired r)) (\<lambda>_. life_set f))"
proof -
  have "ready_at R (f (s\<lparr>lv_trace := lv_trace s @ [Acquired r]\<rparr>)) \<and> holds (lv_trace (f (s\<lparr>lv_trace := lv_trace s @ [Acquired r]\<rparr>))) = insert r (holds (lv_trace s))"
    if "ready_at R s" for s
  proof -
    let ?s = "s\<lparr>lv_trace := lv_trace s @ [Acquired r]\<rparr>"
    have "registries ?s = registries s" by (simp add: registries_def)
    then show ?thesis using assms [unfolded tracks_def, rule_format, of ?s] that by (auto simp: ready_at_def)
  qed
  note k = this
  show "grows R {r} (act_bind (record_event (Acquired r)) (\<lambda>_. life_set f))"
    unfolding grows_def
  proof (intro allI impI)
    fix s out s' assume s: "ready_at R s" and run: "act_bind (record_event (Acquired r)) (\<lambda>_. life_set f) s = (out, s')"
    then have "s' = f (s\<lparr>lv_trace := lv_trace s @ [Acquired r]\<rparr>)" by (simp add: act_bind_def record_event_def life_set_def)
    then show "ready_at R s' \<and> holds (lv_trace s) \<subseteq> holds (lv_trace s') \<and> (out = Inr () \<longrightarrow> {r} \<subseteq> holds (lv_trace s'))"
      using k [OF s] by blast
  qed
  show "grows R {r} (bind_one env r f)"
    unfolding grows_def
  proof (intro allI impI)
    fix s out s' assume s: "ready_at R s" and run: "bind_one env r f s = (out, s')"
    show "ready_at R s' \<and> holds (lv_trace s) \<subseteq> holds (lv_trace s') \<and> (out = Inr () \<longrightarrow> {r} \<subseteq> holds (lv_trace s'))"
    proof (cases "en_acquire env r (length (lv_trace s))")
      case None
      then have "s' = f (s\<lparr>lv_trace := lv_trace s @ [Acquired r]\<rparr>)"
        using run by (simp add: bind_one_def acquire_def act_bind_def record_event_def life_set_def)
      then show ?thesis using k [OF s] by blast
    next
      case (Some e)
      then have "out = Inl e" "s' = s" using run by (simp_all add: bind_one_def acquire_def act_bind_def)
      then show ?thesis using s by simp
    qed
  qed
qed

lemma grows_role: "grows R {r} (acquire_role env r)" "grows R {r} (record_event (Acquired r))"
  by (auto simp: grows_def acquire_role_def record_event_def life_set_def ready_at_def registries_def split: option.splits)

lemma grows_acquire: "grows R {r} (acquire env r)"
  by (auto simp: grows_def acquire_def record_event_def life_set_def ready_at_def registries_def split: option.splits)

lemma grows_bindable: "grows R {} (ensure_bindable env name p b)"
  by (auto simp: grows_def ensure_bindable_def act_raise_def act_return_def)

lemma grows_push: "grows R {} (push r)"
  by (auto simp: grows_def push_def life_set_def ready_at_def registries_def)

lemma registries_simps [simp]:
  "registries (s\<lparr>lv_publishers := x\<rparr>) = registries s" "registries (s\<lparr>lv_queryables := y\<rparr>) = registries s"
  "registries (s\<lparr>lv_servers := z\<rparr>) = registries s" "registries (s\<lparr>lv_subscribers := y\<rparr>) = registries s"
  "registries (s\<lparr>lv_replays := y\<rparr>) = registries s" "registries (s\<lparr>lv_schedules := y\<rparr>) = registries s"
  "registries (s\<lparr>lv_tokens := y\<rparr>) = registries s" "registries (s\<lparr>lv_live_subs := y\<rparr>) = registries s"
  by (simp_all add: registries_def)

lemma tracks_lists:
  "tracks (\<lambda>s. s\<lparr>lv_publishers := lv_publishers s @ [r]\<rparr>) r" "tracks (\<lambda>s. s\<lparr>lv_queryables := lv_queryables s @ [r]\<rparr>) r"
  "tracks (\<lambda>s. s\<lparr>lv_servers := lv_servers s @ [i]\<rparr>) r" "tracks (\<lambda>s. s\<lparr>lv_subscribers := lv_subscribers s @ [r]\<rparr>) r"
  "tracks (\<lambda>s. s\<lparr>lv_replays := lv_replays s @ [r]\<rparr>) r" "tracks (\<lambda>s. s\<lparr>lv_schedules := lv_schedules s @ [r]\<rparr>) r"
  "tracks (\<lambda>s. s\<lparr>lv_tokens := lv_tokens s @ [r]\<rparr>) r" "tracks (\<lambda>s. s\<lparr>lv_live_subs := lv_live_subs s @ [r]\<rparr>) r"
  unfolding tracks_def by auto

lemmas grows_lists = tracks_lists [THEN grows_one(1)] tracks_lists [THEN grows_one(2)]

lemma grows_publisher: "grows R {Bound PublishTo i} (bind_publisher env i)"
proof -
  have "ready_at R s \<Longrightarrow> bind_publisher env i s = (out, s') \<Longrightarrow> ready_at R s' \<and> holds (lv_trace s) \<subseteq> holds (lv_trace s')
      \<and> (out = Inr () \<longrightarrow> {Bound PublishTo i} \<subseteq> holds (lv_trace s'))" for s out s'
    using grows_lists(1) [of R "Bound PublishTo i" env, unfolded grows_def, rule_format, of s out s']
    by (cases "Bound PublishTo i \<in> set (lv_publishers s)") (auto simp: bind_publisher_def ready_at_def)
  then show ?thesis unfolding grows_def by blast
qed

lemma enumerated: "(\<Union>x \<in> set (enumerate 0 es). {r (fst x)}) = r ` {..<length es}"
proof -
  have "map fst (enumerate 0 es) = [0..<length es]" by simp
  then have "fst ` set (enumerate 0 es) = set [0..<length es]" by (metis set_map)
  then have "r ` fst ` set (enumerate 0 es) = r ` {..<length es}" by (simp only: set_upt atLeast0LessThan)
  then show ?thesis by (simp add: image_image UNION_singleton_eq_range)
qed

lemma grows_endpoints: "grows R (places v (length es)) (bind_endpoints env name v es)"
proof -
  have "grows R (\<Union>x \<in> set (enumerate 0 es). {Bound v (fst x)}) (bind_endpoints env name v es)"
    unfolding bind_endpoints_def
  proof (rule grows_concat)
    fix x :: "nat \<times> string \<times> bool"
    obtain i p b where x: "x = (i, p, b)" by (cases x) auto
    have "grows R ({} \<union> ({Bound v i} \<union> {})) (act_seq [ensure_bindable env name p b,
        bind_one env (Bound v i) (\<lambda>s. s\<lparr>lv_queryables := lv_queryables s @ [Bound v i]\<rparr>)])"
      unfolding act_seq.simps by (intro grows_bind grows_bindable grows_lists grows_return)
    then show "grows R {Bound v (fst x)} (act_seq (case x of (i, p, b) \<Rightarrow> [ensure_bindable env name p b,
        bind_one env (Bound v i) (\<lambda>s. s\<lparr>lv_queryables := lv_queryables s @ [Bound v i]\<rparr>)]))"
      by (simp add: x)
  qed
  then show ?thesis unfolding enumerated places_def .
qed

text \<open>The binds, and start-up as a whole.\<close>

lemma grows_server: "grows R {Bound ChannelOpen i, Bound ChannelLive i} (bind_server env i)"
proof -
  have "grows R ({Bound ChannelOpen i} \<union> {Bound ChannelLive i}) (bind_server env i)"
    unfolding bind_server_def by (intro grows_bind grows_acquire grows_lists)
  then show ?thesis by (rule grows_weaken) blast
qed

lemma grows_channels: "grows R (places ChannelOpen (length es) \<union> places ChannelLive (length es))
    (act_seq (concat (map (\<lambda>(i, p, takes_self). [ensure_bindable env name p takes_self, bind_server env i]) (enumerate 0 es))))"
proof -
  have "grows R (\<Union>x \<in> set (enumerate 0 es). {Bound ChannelOpen (fst x), Bound ChannelLive (fst x)})
     (act_seq (concat (map (\<lambda>(i, p, takes_self). [ensure_bindable env name p takes_self, bind_server env i]) (enumerate 0 es))))"
  proof (rule grows_concat)
    fix x :: "nat \<times> string \<times> bool"
    obtain i p b where x: "x = (i, p, b)" by (cases x) auto
    have "grows R ({} \<union> ({Bound ChannelOpen i, Bound ChannelLive i} \<union> {})) (act_seq [ensure_bindable env name p b, bind_server env i])"
      unfolding act_seq.simps by (intro grows_bind grows_bindable grows_server grows_return)
    then show "grows R {Bound ChannelOpen (fst x), Bound ChannelLive (fst x)}
        (act_seq (case x of (i, p, takes_self) \<Rightarrow> [ensure_bindable env name p takes_self, bind_server env i]))"
      by (simp add: x)
  qed
  moreover have "(\<Union>x \<in> set (enumerate 0 es). {Bound ChannelOpen (fst x), Bound ChannelLive (fst x)})
      = (\<Union>x \<in> set (enumerate 0 es). {Bound ChannelOpen (fst x)}) \<union> (\<Union>x \<in> set (enumerate 0 es). {Bound ChannelLive (fst x)})"
    by blast
  ultimately show ?thesis unfolding enumerated places_def by simp
qed

lemma grows_upto: "(\<And>i. grows R {Bound v i} (m i)) \<Longrightarrow> grows R (places v n) (act_seq (map m [0..<n]))"
  using grows_map [of "[0..<n]" R "Bound v" m] by (simp add: places_def atLeast0LessThan)

lemma grows_subscribers: "grows R (places SubscribeTo (length es)) (act_seq (concat (map (\<lambda>(i, p, takes_self, replay).
     [ensure_bindable env ''subscribe'' p takes_self,
      bind_one env (Bound SubscribeTo i) (\<lambda>s. s\<lparr>lv_subscribers := lv_subscribers s @ [Bound SubscribeTo i]\<rparr>)]
     @ (if replay then [start_replay i] else [])) (enumerate 0 es))))"
proof -
  have "grows R (\<Union>x \<in> set (enumerate 0 es). {Bound SubscribeTo (fst x)}) (act_seq (concat (map (\<lambda>(i, p, takes_self, replay).
     [ensure_bindable env ''subscribe'' p takes_self,
      bind_one env (Bound SubscribeTo i) (\<lambda>s. s\<lparr>lv_subscribers := lv_subscribers s @ [Bound SubscribeTo i]\<rparr>)]
     @ (if replay then [start_replay i] else [])) (enumerate 0 es))))"
  proof (rule grows_concat)
    fix x :: "nat \<times> string \<times> bool \<times> bool"
    obtain i p b c where x: "x = (i, p, b, c)" by (cases x) auto
    have "grows R {} (act_seq (if c then [start_replay i] else []))"
      using grows_weaken [OF grows_lists(13) [of R "Bound ReplayOf i"], of "{}"]
      by (simp add: start_replay_def grows_return)
    then have "grows R ({} \<union> ({Bound SubscribeTo i} \<union> {})) (act_seq ([ensure_bindable env ''subscribe'' p b,
        bind_one env (Bound SubscribeTo i) (\<lambda>s. s\<lparr>lv_subscribers := lv_subscribers s @ [Bound SubscribeTo i]\<rparr>)] @ (if c then [start_replay i] else [])))"
      unfolding append_Cons append_Nil act_seq.simps by (intro grows_bind grows_bindable grows_lists)
    then show "grows R {Bound SubscribeTo (fst x)} (act_seq (case x of (i, p, takes_self, replay) \<Rightarrow>
     [ensure_bindable env ''subscribe'' p takes_self,
      bind_one env (Bound SubscribeTo i) (\<lambda>s. s\<lparr>lv_subscribers := lv_subscribers s @ [Bound SubscribeTo i]\<rparr>)]
     @ (if replay then [start_replay i] else [])))"
      by (simp add: x)
  qed
  then show ?thesis unfolding enumerated places_def .
qed

lemma ready_registries:
  assumes "ready_at (registries s0) s"
  shows "ap_handlers s = ap_handlers s0" "ap_streams s = ap_streams s0" "ap_channels s = ap_channels s0" "ap_persist s = ap_persist s0"
    "ap_owners s = ap_owners s0" "ap_workers s = ap_workers s0" "ap_schedules s = ap_schedules s0" "ap_publishers s = ap_publishers s0"
    "ap_subscribers s = ap_subscribers s0" "ap_tokens s = ap_tokens s0" "ap_live_subs s = ap_live_subs s0"
  using assms by (simp_all add: ready_at_def registries_def)

lemma grows_entering:
  "grows R {} (enter_lifespan env)" "grows R {} push_storage" "grows R {} (act_bind (enter_session env) (\<lambda>_. push SessionOf))"
proof -
  have "grows R ({LifespanOf} \<union> {}) (act_bind (acquire env LifespanOf) (\<lambda>_. push LifespanOf))"
    by (intro grows_bind grows_acquire grows_push)
  then show "grows R {} (enter_lifespan env)" unfolding grows_def enter_lifespan_def by simp
  show "grows R {} push_storage" using grows_push [of R StorageOf] unfolding grows_def push_storage_def by simp
  have "grows R {} (enter_session env)"
    by (auto simp: grows_def enter_session_def record_event_def life_set_def ready_at_def registries_def split: sum.splits)
  then have "grows R ({} \<union> {}) (act_bind (enter_session env) (\<lambda>_. push SessionOf))" by (intro grows_bind grows_push)
  then show "grows R {} (act_bind (enter_session env) (\<lambda>_. push SessionOf))" by simp
qed

lemma grows_start: "grows (registries s0) (declared_by s0) (act_seq (startup_steps env))"
proof -
  let ?R = "registries s0"
  note reg = ready_registries [of s0]
  have h: "grows ?R (places Handle (length (ap_handlers s0))) (bind_handlers env)"
    unfolding bind_handlers_def by (rule grows_read) (simp add: reg(1) grows_endpoints)
  have st: "grows ?R (places StreamOf (length (ap_streams s0))) (bind_streams env)"
    unfolding bind_streams_def by (rule grows_read) (simp add: reg(2) grows_endpoints)
  have c: "grows ?R (places ChannelOpen (length (ap_channels s0)) \<union> places ChannelLive (length (ap_channels s0))) (bind_channels env)"
    unfolding bind_channels_def by (rule grows_read) (simp only: reg(3) grows_channels)
  have p: "grows ?R (places PersistOf (length (ap_persist s0))) (bind_persist env)"
    unfolding bind_persist_def by (rule grows_read) (simp only: reg(4) grows_upto [OF grows_role(1)])
  have q: "grows ?R (places OwnerOf (length (ap_owners s0)) \<union> (places WorkerOf (length (ap_workers s0))
      \<union> places ScheduleOf (length (ap_schedules s0)))) (bind_queues env)"
    unfolding bind_queues_def
    by (rule grows_read) (simp only: reg(5,6,7), intro grows_append grows_upto grows_role grows_lists)
  have pu: "grows ?R (places PublishTo (length (ap_publishers s0))) (bind_publishers env)"
    unfolding bind_publishers_def by (rule grows_read) (simp only: reg(8) grows_upto [OF grows_publisher])
  have su: "grows ?R (places SubscribeTo (length (ap_subscribers s0))) (bind_subscribers env)"
    unfolding bind_subscribers_def by (rule grows_read) (simp only: reg(9) grows_subscribers)
  have li: "grows ?R (places LiveToken (length (ap_tokens s0)) \<union> places LiveSub (length (ap_live_subs s0))) (bind_liveliness env)"
    unfolding bind_liveliness_def
    by (rule grows_read) (simp only: reg(10,11), intro grows_append grows_upto grows_lists)
  have "grows ?R ({} \<union> ({} \<union> ({} \<union> ({} \<union> (places Handle (length (ap_handlers s0)) \<union> (places StreamOf (length (ap_streams s0))
      \<union> ((places ChannelOpen (length (ap_channels s0)) \<union> places ChannelLive (length (ap_channels s0)))
      \<union> (places PersistOf (length (ap_persist s0)) \<union> ((places OwnerOf (length (ap_owners s0)) \<union> (places WorkerOf (length (ap_workers s0))
      \<union> places ScheduleOf (length (ap_schedules s0)))) \<union> (places PublishTo (length (ap_publishers s0))
      \<union> (places SubscribeTo (length (ap_subscribers s0)) \<union> ((places LiveToken (length (ap_tokens s0)) \<union> places LiveSub (length (ap_live_subs s0))) \<union> {}))))))))))))
     (act_seq (startup_steps env))"
    unfolding startup_steps_def act_seq.simps
    by (intro grows_bind grows_entering grows_push h st c p q pu su li grows_return)
  then show ?thesis by (rule grows_weaken) (auto simp: declared_by_def)
qed

lemma started_serves:
  assumes "startup env serve_http s0 = (Inr (), s')" "lv_publishers s0 = []"
  shows "declared_by s0 \<subseteq> holds (lv_trace s')" "lv_ready s'"
proof -
  have r: "registries (s0\<lparr>lv_stack := Some []\<rparr>) = registries s0" by (simp add: registries_def)
  obtain out s1 where run: "act_seq (startup_steps env) (s0\<lparr>lv_stack := Some []\<rparr>) = (out, s1)" by fastforce
  have "ready_at (registries s0) (s0\<lparr>lv_stack := Some []\<rparr>)" using assms(2) by (simp add: ready_at_def r)
  then have d: "out = Inr () \<Longrightarrow> declared_by s0 \<subseteq> holds (lv_trace s1)" using growsD(3) [OF grows_start _ run] by blast
  have out: "out = Inr () \<and> start_http env serve_http s1 = (Inr (), s')"
    using assms(1) run by (auto simp: startup_def split: sum.splits prod.splits)
  then have "holds (lv_trace s1) \<subseteq> holds (lv_trace s') \<and> lv_ready s'"
    by (auto simp: start_http_def Let_def bind_one_def acquire_def act_bind_def record_event_def life_set_def split: if_splits option.splits)
  then show "declared_by s0 \<subseteq> holds (lv_trace s')" "lv_ready s'" using d out by auto
qed

section \<open>From a declaration to what is served\<close>

text \<open>The entry a declaration left, its key, its function and its authorizers; \<open>seen\<close> is asked of the place
  of the entry in its registry. Clients declare nothing at start-up, nor does a publisher that is not durable.\<close>

definition found :: "(Lifecycle.verb \<Rightarrow> nat \<Rightarrow> bool) \<Rightarrow> Lifecycle.verb \<Rightarrow> 'a list \<Rightarrow> ('a \<Rightarrow> bool) \<Rightarrow> bool" where
  "found seen v xs P \<longleftrightarrow> (\<exists>i < length xs. P (xs ! i) \<and> seen v i)"

fun serves :: "(Lifecycle.verb \<Rightarrow> nat \<Rightarrow> bool) \<Rightarrow> application \<Rightarrow> (string \<Rightarrow> string) \<Rightarrow> enrolment \<Rightarrow> bool" where
  "serves seen a k (HandleD p x f) = found seen Handle (rs_handlers a)
     (\<lambda>h. he_prefix h = k p \<and> he_func h = f \<and> he_authorizer h = combine_authorizers (an_authorizer a) (ha_authorizer x))"
| "serves seen a k (StreamD p x f) = found seen StreamOf (rs_streams a)
     (\<lambda>h. te_prefix h = k p \<and> te_func h = f \<and> te_authorizer h = combine_authorizers (an_authorizer a) (ta_authorizer x))"
| "serves seen a k (ChannelD p x f) = found (\<lambda>v i. seen ChannelOpen i \<and> seen ChannelLive i) ChannelOpen (rs_channels a)
     (\<lambda>h. ce_prefix h = k p \<and> ce_func h = f \<and> ce_authorizer h = combine_authorizers (an_authorizer a) (ca_authorizer x))"
| "serves seen a k (SubscribeD p x f) = found seen SubscribeTo (rs_subscribers a)
     (\<lambda>h. se_prefix h = k p \<and> se_func h = f \<and> se_authorizer h = combine_authorizers (an_authorizer a) (sa_authorizer x))"
| "serves seen a k (PublishD p x f) =
     ((pa_durable x \<longrightarrow> found seen PublishTo (filter pe_durable (rs_publishers a)) (\<lambda>h. pe_prefix h = k p \<and> pe_func h = f))
      \<and> (pa_persist x \<noteq> None \<longrightarrow> found seen PersistOf (rs_persist a) (\<lambda>h. fst h = k p)))"
| "serves seen a k (WorkerD p x f) = found seen WorkerOf (rs_workers a) (\<lambda>h. we_prefix h = slashless (k p) \<and> we_func h = f)"
| "serves seen a k (OnLivelinessD p f) = found seen LiveSub (rs_live_subs a) (\<lambda>h. ve_prefix h = k p \<and> ve_func h = f)"
| "serves seen a k (QueueD p x) = found seen OwnerOf (rs_queues a)
     (\<lambda>h. r_prefix h = slashless (k p) \<and> r_authorizer h = combine_authorizers (an_authorizer a) (ua_authorizer x))"
| "serves seen a k (ScheduleD p x) = found seen ScheduleOf (rs_schedules a) (\<lambda>h. sch_prefix h = k p)"
| "serves seen a k (DeclareLivelinessD p) = found seen LiveToken (rs_live_declares a) (\<lambda>h. h = k p)"
| "serves seen a k _ = True"

definition grown :: "'a list \<Rightarrow> 'a list \<Rightarrow> bool" where
  "grown xs ys \<longleftrightarrow> (\<exists>zs. ys = xs @ zs)"

lemma grown_simps [simp]: "grown xs xs" "grown xs (xs @ ys)"
  by (auto simp: grown_def)

lemma grown_trans: "grown xs ys \<Longrightarrow> grown ys zs \<Longrightarrow> grown xs zs"
  by (auto simp: grown_def)

lemma found_grown: "found seen v xs P \<Longrightarrow> grown xs ys \<Longrightarrow> found seen v ys P"
  by (fastforce simp: found_def grown_def nth_append)

lemma found_last [simp]: "P x \<Longrightarrow> found (\<lambda>v i. True) v (xs @ [x]) P"
  by (fastforce simp: found_def)

lemma grown_filter: "grown xs ys \<Longrightarrow> grown (filter P xs) (filter P ys)"
  by (auto simp: grown_def)

definition enlarges :: "application \<Rightarrow> application \<Rightarrow> bool" where
  "enlarges a a' \<longleftrightarrow> an_authorizer a' = an_authorizer a \<and> an_overrides a' = an_overrides a
     \<and> grown (rs_handlers a) (rs_handlers a') \<and> grown (rs_streams a) (rs_streams a') \<and> grown (rs_channels a) (rs_channels a')
     \<and> grown (rs_subscribers a) (rs_subscribers a') \<and> grown (rs_publishers a) (rs_publishers a') \<and> grown (rs_persist a) (rs_persist a')
     \<and> grown (rs_workers a) (rs_workers a') \<and> grown (rs_live_subs a) (rs_live_subs a') \<and> grown (rs_queues a) (rs_queues a')
     \<and> grown (rs_schedules a) (rs_schedules a') \<and> grown (rs_live_declares a) (rs_live_declares a')"

interpretation enlarging: state_order enlarges
  by unfold_locales (auto simp: enlarges_def intro: grown_trans)

lemma serves_enlarged:
  assumes "serves (\<lambda>v i. True) a k d" "enlarges a a'"
  shows "serves (\<lambda>v i. True) a' k d"
proof -
  have au: "an_authorizer a' = an_authorizer a" using assms(2) by (simp add: enlarges_def)
  have g: "grown (rs_handlers a) (rs_handlers a')" "grown (rs_streams a) (rs_streams a')" "grown (rs_channels a) (rs_channels a')"
    "grown (rs_subscribers a) (rs_subscribers a')" "grown (filter pe_durable (rs_publishers a)) (filter pe_durable (rs_publishers a'))"
    "grown (rs_persist a) (rs_persist a')" "grown (rs_workers a) (rs_workers a')" "grown (rs_live_subs a) (rs_live_subs a')"
    "grown (rs_queues a) (rs_queues a')" "grown (rs_schedules a) (rs_schedules a')" "grown (rs_live_declares a) (rs_live_declares a')"
    using assms(2) by (simp_all add: enlarges_def grown_filter)
  show ?thesis using assms(1) by (cases d) (simp_all add: au g [THEN found_grown [rotated]])
qed

lemma found_placed: "found (\<lambda>v i. True) v xs P \<Longrightarrow> places v (length xs) \<subseteq> H \<Longrightarrow> found (\<lambda>v i. Bound v i \<in> H) v xs P"
  unfolding found_def places_def by blast

lemma found_twice: "found (\<lambda>v i. True \<and> True) v xs P \<Longrightarrow> places ChannelOpen (length xs) \<subseteq> H \<Longrightarrow> places ChannelLive (length xs) \<subseteq> H
    \<Longrightarrow> found (\<lambda>v i. Bound ChannelOpen i \<in> H \<and> Bound ChannelLive i \<in> H) v xs P"
  unfolding found_def places_def by blast

lemma serves_declared:
  assumes "declared_by (shell_of a lifespan storage_close grace retries) \<subseteq> H" "serves (\<lambda>v i. True) a k d"
  shows "serves (\<lambda>v i. Bound v i \<in> H) a k d"
proof -
  have "places Handle (length (rs_handlers a)) \<subseteq> H" "places StreamOf (length (rs_streams a)) \<subseteq> H"
    "places ChannelOpen (length (rs_channels a)) \<subseteq> H" "places ChannelLive (length (rs_channels a)) \<subseteq> H"
    "places SubscribeTo (length (rs_subscribers a)) \<subseteq> H" "places PublishTo (length (filter pe_durable (rs_publishers a))) \<subseteq> H"
    "places PersistOf (length (rs_persist a)) \<subseteq> H" "places WorkerOf (length (rs_workers a)) \<subseteq> H" "places LiveSub (length (rs_live_subs a)) \<subseteq> H"
    "places OwnerOf (length (rs_queues a)) \<subseteq> H" "places ScheduleOf (length (rs_schedules a)) \<subseteq> H" "places LiveToken (length (rs_live_declares a)) \<subseteq> H"
    using assms(1) by (simp_all add: declared_by_def shell_of_def)
  then show ?thesis using assms(2) by (cases d) (simp_all add: found_placed found_twice [simplified])
qed

text \<open>What each verb does when it does not raise.\<close>

lemma add_route_ok: "add_route h p t b a = (Inr u, a') \<Longrightarrow> \<exists>rs. a' = a\<lparr>rs_http_routes := rs\<rparr>"
proof (cases h)
  case None
  assume "add_route h p t b a = (Inr u, a')"
  then have "a' = a\<lparr>rs_http_routes := rs_http_routes a\<rparr>" using None by (simp add: add_route_def act_return_def)
  then show ?thesis by blast
qed (auto simp: add_route_def change_def act_bind_Inr act_of_def)

lemma app_persist_ok: "app_persist su p u a = (Inr x, a') \<Longrightarrow> \<exists>y. a' = a\<lparr>rs_persist := rs_persist a @ [(p, y)]\<rparr>"
  by (auto simp: app_persist_def change_def act_bind_Inr act_of_def)

lemmas acting = change_def act_bind_Inr act_of_def act_return_def act_raise_def Let_def

lemma app_handle_ok:
  assumes "app_handle p x f a = (Inr w, a')"
  shows "enlarges a a' \<and> found (\<lambda>v i. True) Handle (rs_handlers a')
     (\<lambda>h. he_prefix h = p \<and> he_func h = f \<and> he_authorizer h = combine_authorizers (an_authorizer a') (ha_authorizer x))"
proof -
  obtain a1 h where a1: "add_route (ha_http x) p 5 False a = (Inr (), a1)" "lift_res (new_handler a1 p x f) = Inr h"
    "a' = a1\<lparr>rs_handlers := rs_handlers a1 @ [h]\<rparr>"
    using assms by (auto simp: app_handle_def acting)
  moreover obtain rs where "a1 = a\<lparr>rs_http_routes := rs\<rparr>" using add_route_ok a1(1) by blast
  moreover have "he_prefix h = p \<and> he_func h = f \<and> he_authorizer h = combine_authorizers (an_authorizer a1) (ha_authorizer x)"
    using a1(2) by (auto simp: lift_res_def new_handler_def res_bind_eq_Inr split: sum.splits)
  ultimately show ?thesis by (auto simp: enlarges_def)
qed

lemma app_stream_ok:
  assumes "app_stream p x f a = (Inr w, a')"
  shows "enlarges a a' \<and> found (\<lambda>v i. True) StreamOf (rs_streams a')
     (\<lambda>h. te_prefix h = p \<and> te_func h = f \<and> te_authorizer h = combine_authorizers (an_authorizer a') (ta_authorizer x))"
proof -
  obtain a1 where "add_route (ta_http x) p (ta_http_timeout_s x) True a = (Inr (), a1)"
    and a': "a' = a1\<lparr>rs_streams := rs_streams a1 @ [\<lparr>te_func = f, te_prefix = p, te_serializer = or_json (ta_serializer x),
       te_authorizer = combine_authorizers (an_authorizer a1) (ta_authorizer x), te_overrides = overrides_if_given a1\<rparr>]\<rparr>"
    using assms by (auto simp: app_stream_def acting split: if_splits)
  then obtain rs where "a1 = a\<lparr>rs_http_routes := rs\<rparr>" using add_route_ok by blast
  then show ?thesis by (auto simp: a' enlarges_def)
qed

lemma app_channel_ok:
  assumes "app_channel p x f a = (Inr w, a')"
  shows "enlarges a a' \<and> found (\<lambda>v i. True) ChannelOpen (rs_channels a')
     (\<lambda>h. ce_prefix h = p \<and> ce_func h = f \<and> ce_authorizer h = combine_authorizers (an_authorizer a') (ca_authorizer x))"
proof -
  let ?h = "\<lparr>ce_func = f, ce_prefix = p, ce_serializer = or_json (ca_serializer x),
     ce_authorizer = combine_authorizers (an_authorizer a) (ca_authorizer x), ce_durable = ca_durable x, ce_overrides = overrides_or_own a\<rparr>"
  have "rs_channels a' = rs_channels a @ [?h] \<and> enlarges a a'"
    using assms by (auto simp: app_channel_def acting enlarges_def split: if_splits option.splits)
  then show ?thesis by (auto simp: enlarges_def)
qed

lemma app_publish_ok:
  assumes "app_publish su p x f a = (Inr w, a')"
  shows "enlarges a a' \<and> (pa_durable x \<longrightarrow> found (\<lambda>v i. True) PublishTo (filter pe_durable (rs_publishers a')) (\<lambda>h. pe_prefix h = p \<and> pe_func h = f))
      \<and> (pa_persist x \<noteq> None \<longrightarrow> found (\<lambda>v i. True) PersistOf (rs_persist a') (\<lambda>h. fst h = p))"
proof -
  obtain a1 h where a1: "(case pa_persist x of None \<Rightarrow> act_return () | Some u \<Rightarrow> app_persist su p (StoreUrl u)) a = (Inr (), a1)"
    and a': "a' = a1\<lparr>rs_publishers := rs_publishers a1 @ [h]\<rparr>" and h: "pe_prefix h = p" "pe_func h = f" "pe_durable h = pa_durable x"
    using assms by (fastforce simp: app_publish_def acting split: if_splits)
  have "pa_persist x = None \<and> a1 = a \<or> (\<exists>y. a1 = a\<lparr>rs_persist := rs_persist a @ [(p, y)]\<rparr>)"
    using a1 app_persist_ok [of su p] by (cases "pa_persist x") (auto simp: act_return_def)
  then show ?thesis using h by (auto simp: a' enlarges_def)
qed

lemma app_others_ok:
  "app_query p xq f a = (Inr w, a') \<Longrightarrow> enlarges a a'"
  "app_stream_client p xc f a = (Inr w, a') \<Longrightarrow> enlarges a a'"
  "app_channel_client p xc f a = (Inr w, a') \<Longrightarrow> enlarges a a'"
  "app_schedule p xd a = (Inr u, a') \<Longrightarrow> enlarges a a'"
  "app_queue p xu a = (Inr u, a') \<Longrightarrow> enlarges a a'"
  "app_worker p xw f a = (Inr w, a') \<Longrightarrow> enlarges a a'"
  "app_subscribe p xs f a = (Inr w, a') \<Longrightarrow> enlarges a a'"
  "app_on_liveliness p f a = (Inr w, a') \<Longrightarrow> enlarges a a'"
  "app_declare_liveliness p a = (Inr u, a') \<Longrightarrow> enlarges a a'"
  by (auto simp: enlarges_def acting app_query_def app_stream_client_def app_channel_client_def app_schedule_def app_queue_def
      app_worker_def app_subscribe_def app_on_liveliness_def app_declare_liveliness_def split: if_splits)

lemma on_app_ok:
  assumes "on_app su k d a = (Inr x, a')"
  shows "enlarges a a' \<and> serves (\<lambda>v i. True) a' k d"
  using assms
proof (cases d)
  case (QueueD p y)
  then show ?thesis using assms by (auto simp: app_queue_def acting enlarges_def role_init_def slashless_def)
next
  case (WorkerD p y f)
  then show ?thesis using assms by (auto simp: app_worker_def acting enlarges_def split: if_splits)
next
  case (SubscribeD p y f)
  then show ?thesis using assms by (auto simp: app_subscribe_def acting enlarges_def)
next
  case (OnLivelinessD p f)
  then show ?thesis using assms by (auto simp: app_on_liveliness_def acting enlarges_def)
next
  case (ScheduleD p y)
  then show ?thesis using assms
    by (auto simp: app_schedule_def acting enlarges_def lift_res_def schedule_of_def res_bind_eq_Inr split: if_splits sum.splits)
next
  case (DeclareLivelinessD p)
  then show ?thesis using assms by (auto simp: app_declare_liveliness_def acting enlarges_def)
qed (auto simp: act_bind_Inr act_return_def dest: app_handle_ok app_stream_ok app_channel_ok app_publish_ok app_others_ok)

lemma all_on_app_ok:
  "all_on_app su k ds a = (Inr xs, a') \<Longrightarrow> enlarges a a' \<and> list_all (serves (\<lambda>v i. True) a' k) ds"
proof (induction ds arbitrary: a xs)
  case (Cons d ds)
  then obtain x a1 ys where "on_app su k d a = (Inr x, a1)" "all_on_app su k ds a1 = (Inr ys, a')"
    by (auto simp: act_bind_Inr act_return_def)
  then have "enlarges a a1 \<and> serves (\<lambda>v i. True) a1 k d" "enlarges a1 a' \<and> list_all (serves (\<lambda>v i. True) a' k) ds"
    using Cons.IH on_app_ok by blast+
  then show ?case using serves_enlarged enlarging.follows [of a a1 a'] by auto
qed (simp add: act_return_def enlarging.stays)

lemma register_all_ok:
  "register_all ps a = (Inr u, a') \<Longrightarrow> enlarges a a' \<and>
     list_all (\<lambda>(p, x). found (\<lambda>v i. True) Handle (rs_handlers a') (\<lambda>h. he_prefix h = p)) ps"
proof (induction ps arbitrary: a)
  case (Cons px ps)
  obtain p x where px: "px = (p, x)" by fastforce
  then obtain w a1 where first: "app_handle p x (builtin_fn p) a = (Inr w, a1)" and rest: "register_all ps a1 = (Inr u, a')"
    using Cons.prems by (auto simp: act_bind_Inr)
  note ih = Cons.IH [OF rest]
  have "found (\<lambda>v i. True) Handle (rs_handlers a1) (\<lambda>h. he_prefix h = p)"
    using app_handle_ok [OF first] unfolding found_def by blast
  then have "found (\<lambda>v i. True) Handle (rs_handlers a') (\<lambda>h. he_prefix h = p)"
    using ih found_grown unfolding enlarges_def by blast
  then show ?case using ih app_handle_ok [OF first] enlarging.follows px by auto
qed (simp add: act_return_def enlarging.stays)

lemma plain_handle_returns: "\<exists>w a'. app_handle p (plain_args auth) f a = (Inr w, a')"
  by (simp add: app_handle_def add_route_def plain_args_def new_handler_def retry_of_def policy_from_int_def durability_of_def lift_res_def acting act_bind_def
      retry_policy_init_def)

lemma register_all_returns: "\<exists>a'. register_all (map (\<lambda>p. (p, plain_args auth)) ps) a = (Inr (), a')"
proof (induction ps arbitrary: a)
  case (Cons p ps)
  then show ?case using plain_handle_returns [of p auth "builtin_fn p" a] by (fastforce simp: act_bind_def)
qed (simp add: act_return_def)

lemma builtins_returns: "\<exists>a'. register_builtins a = (Inr (), a') \<and> enlarges a a'"
  using register_all_returns [of NoGuard "builtin_prefixes (an_health a) (an_metrics a) (an_discovery a) (an_service a)" "a\<lparr>an_builtins_done := True\<rparr>"]
    register_all_ok
  by (fastforce simp: register_builtins_def enlarging.stays enlarges_def)

text \<open>C40: A node that has started serves all that its modules declared: each handler, stream, channel, subscriber,
  durable publisher, persistence role, queue, worker, schedule and liveliness key declared on a router is bound,
  under the prefixed key, with the function it decorates and with the application's authorizer layered over its own.\<close>

theorem registered_is_served:
  assumes "include_router (rt_actions (fst (all_on_router su ds (new_router prefix, []))))
      (a, snd (all_on_router su ds (new_router prefix, []))) = (Inr (), (a1, stood))"
    and "startup env serve_http (shell_of (snd (register_builtins a1)) lifespan storage_close grace retries) = (Inr (), s)"
  shows "lv_ready s \<and> list_all (serves (\<lambda>v i. Bound v i \<in> holds (lv_trace s)) (snd (register_builtins a1)) (apply_prefix prefix)) ds"
proof -
  define a2 where "a2 = snd (register_builtins a1)"
  have a2: "enlarges a1 a2" using builtins_returns [of a1] by (auto simp: a2_def)
  let ?X = "all_on_app su (apply_prefix prefix) ds a"
  have r: "all_on_router su ds (new_router prefix, [])
      = (\<lparr>rt_prefix = prefix, rt_actions = actions_of su prefix 0 ds\<rparr>, replicate (length (filter proxied ds)) None)"
    by (simp add: all_on_router_actions new_router_def)
  have "map_sum id (\<lambda>_. ()) (fst ?X) = Inr ()" "snd ?X = a1"
    using include_actions [of su prefix "[]" ds a] assms(1) unfolding r by (auto simp: id_def)
  then obtain xs where "?X = (Inr xs, a1)" by (cases "fst ?X"; cases ?X) auto
  then have "list_all (serves (\<lambda>v i. True) a2 (apply_prefix prefix)) ds"
    using all_on_app_ok serves_enlarged [OF _ a2] by (fastforce simp: list_all_iff)
  moreover have "declared_by (shell_of a2 lifespan storage_close grace retries) \<subseteq> holds (lv_trace s)" "lv_ready s"
    using started_serves [OF assms(2)] by (simp_all add: a2_def shell_of_def)
  ultimately show ?thesis using serves_declared by (auto simp: list_all_iff a2_def)
qed

definition blank_app :: application where
  "blank_app = \<lparr>an_service = ''svc'', an_authorizer = None, an_storage = None, an_overrides = [], an_health = False, an_metrics = True,
     an_discovery = False, an_builtins_done = False, an_middleware = [], an_http_port = None, an_gate = None,
     rs_handlers = [], rs_queries = [], rs_publishers = [], rs_subscribers = [], rs_streams = [], rs_channels = [], rs_http_routes = [],
     rs_ws_routes = [], rs_persist = [], rs_live_subs = [], rs_live_declares = [], rs_queues = [], rs_workers = [], rs_schedules = [],
     rs_warned = []\<rparr>"

definition calm_env :: life_env where
  "calm_env = \<lparr>en_acquire = (\<lambda>r n. None), en_release = (\<lambda>r n. None), en_open = (\<lambda>n. None), en_wording = (\<lambda>v p. p)\<rparr>"

definition demo_module :: "enrolment list" where
  "demo_module = [HandleD ''move'' (plain_args NoGuard) (builtin_fn ''move''), DeclareLivelinessD ''/alive'']"

lemma demo_handler: "app_handle p (plain_args NoGuard) f a = (Inr (HandlerW h), a\<lparr>rs_handlers := rs_handlers a @ [h]\<rparr>)"
  if "h = \<lparr>he_func = f, he_prefix = p, he_serializer = JSON, he_retry = \<lparr>max_retries = 0, delay = 1/2, backoff_factor = 2, max_delay = 60, jitter = 1/10\<rparr>,
      he_durability = AT_MOST_ONCE, he_authorizer = an_authorizer a, he_approval = PBool False, he_lease = DEFAULT_CLAIM_LEASE_S, he_overrides = AppOverrides\<rparr>"
  using that
  by (simp add: app_handle_def add_route_def plain_args_def new_handler_def retry_of_def policy_from_int_def durability_of_def lift_res_def acting act_bind_def
      retry_policy_init_def or_json_def combine_authorizers_def overrides_if_given_def)

lemma demo_key: "apply_prefix ''robot'' ''move'' = ''robot/move''" "apply_prefix ''robot'' ''/alive'' = ''robot/alive''"
  by (simp_all add: apply_prefix_def Let_def rstrip_char_def lstrip_char_def)

lemma registered_is_served_witness:
  "\<exists>a1 stood s. include_router (rt_actions (fst (all_on_router (\<lambda>u. Inr 1) demo_module (new_router ''robot'', []))))
       (blank_app, snd (all_on_router (\<lambda>u. Inr 1) demo_module (new_router ''robot'', []))) = (Inr (), (a1, stood))
     \<and> map he_prefix (rs_handlers a1) = [''robot/move'']
     \<and> startup calm_env False (shell_of (snd (register_builtins a1)) False False 10 0) = (Inr (), s)
     \<and> lv_ready s \<and> list_all (serves (\<lambda>v i. Bound v i \<in> holds (lv_trace s)) (snd (register_builtins a1)) (apply_prefix ''robot'')) demo_module"
proof -
  have "\<exists>a1 stood. include_router (rt_actions (fst (all_on_router (\<lambda>u. Inr 1) demo_module (new_router ''robot'', []))))
       (blank_app, snd (all_on_router (\<lambda>u. Inr 1) demo_module (new_router ''robot'', []))) = (Inr (), (a1, stood))
     \<and> map he_prefix (rs_handlers a1) = [''robot/move''] \<and> (\<exists>h. a1 = blank_app\<lparr>rs_handlers := [h], rs_live_declares := [''robot/alive'']\<rparr> \<and> he_func h = builtin_fn ''move'')"
    by (simp add: all_on_router_actions new_router_def demo_module_def action_of_def demo_key demo_handler act_bind_def act_return_def
        app_declare_liveliness_def change_def blank_app_def)
  then obtain a1 stood h where inc: "include_router (rt_actions (fst (all_on_router (\<lambda>u. Inr 1) demo_module (new_router ''robot'', []))))
       (blank_app, snd (all_on_router (\<lambda>u. Inr 1) demo_module (new_router ''robot'', []))) = (Inr (), (a1, stood))"
    and a1: "map he_prefix (rs_handlers a1) = [''robot/move'']" "a1 = blank_app\<lparr>rs_handlers := [h], rs_live_declares := [''robot/alive'']\<rparr>" "he_func h = builtin_fn ''move''"
    by (elim exE conjE) (rule that)
  have "\<exists>h'. snd (register_builtins a1) = a1\<lparr>an_builtins_done := True, rs_handlers := [h, h']\<rparr> \<and> he_func h' = builtin_fn ''.istos/metrics''"
    by (simp add: a1 blank_app_def register_builtins_def builtin_prefixes_def demo_handler act_bind_def act_return_def)
  then obtain h' where h': "snd (register_builtins a1) = a1\<lparr>an_builtins_done := True, rs_handlers := [h, h']\<rparr>" "he_func h' = builtin_fn ''.istos/metrics''"
    by (elim exE conjE) (rule that)
  have "\<exists>s. startup calm_env False (shell_of (snd (register_builtins a1)) False False 10 0) = (Inr (), s)"
    unfolding h'(1) by (simp add: h'(2) a1(2,3) blank_app_def shell_of_def builtin_fn_def calm_env_def run_simps start_http_def Let_def)
  then obtain s where s: "startup calm_env False (shell_of (snd (register_builtins a1)) False False 10 0) = (Inr (), s)" ..
  note served = registered_is_served [OF inc s]
  show ?thesis
    by (rule exI [of _ a1], rule exI [of _ stood], rule exI [of _ s]) (intro conjI inc a1(1) s served [THEN conjunct1] served [THEN conjunct2])
qed

end
