(* ===== verification/Provider.thy ===== *)
theory Provider
  imports Agent PyNum QueueStore
begin

text \<open>
  The client of a chat completions service (\<open>agent/model.py\<close>): the request it builds, how it reads a
  response, the session it shares between calls. The service is an argument; \<open>json\<close> and \<open>str\<close> are too.
\<close>

section \<open>The client\<close>

text \<open>A session is its number, with the event loop it was made on.\<close>

record provider =
  pv_base_url :: string
  pv_model :: string
  pv_api_key :: "string option"
  pv_temperature :: pyval
  pv_max_tokens :: "int option"
  pv_extra :: "(string, pyval) dict"
  pv_session :: "nat option"
  pv_loop :: "nat option"
  pv_closed :: "nat set"
  pv_made :: nat

definition provider_init :: "string \<Rightarrow> string \<Rightarrow> string option \<Rightarrow> pyval \<Rightarrow> int option \<Rightarrow> (string, pyval) dict \<Rightarrow> provider" where
  "provider_init url model key temperature max_tokens extra =
     \<lparr>pv_base_url = rstrip_char (CHR ''/'') url, pv_model = model, pv_api_key = key, pv_temperature = temperature,
      pv_max_tokens = max_tokens, pv_extra = extra, pv_session = None, pv_loop = None, pv_closed = {}, pv_made = 0\<rparr>"

text \<open>The shared session: of this loop and open, or a new one.\<close>

definition get_session :: "nat \<Rightarrow> provider \<Rightarrow> nat \<times> provider" where
  "get_session loop p =
     (case pv_session p of
        Some s \<Rightarrow>
          if s \<notin> pv_closed p \<and> pv_loop p = Some loop then (s, p)
          else (pv_made p, p\<lparr>pv_session := Some (pv_made p), pv_loop := Some loop, pv_made := Suc (pv_made p)\<rparr>)
      | None \<Rightarrow> (pv_made p, p\<lparr>pv_session := Some (pv_made p), pv_loop := Some loop, pv_made := Suc (pv_made p)\<rparr>))"

definition provider_aclose :: "provider \<Rightarrow> provider" where
  "provider_aclose p =
     (let p1 = p\<lparr>pv_session := None, pv_loop := None\<rparr>
      in case pv_session p of Some s \<Rightarrow> p1\<lparr>pv_closed := insert s (pv_closed p)\<rparr> | None \<Rightarrow> p1)"

section \<open>The request\<close>

definition merged :: "(string, pyval) dict \<Rightarrow> (string, pyval) dict \<Rightarrow> (string, pyval) dict" where
  "merged d e = fold (\<lambda>(k, v). AList.update k v) e d"

definition request_body :: "provider \<Rightarrow> message list \<Rightarrow> pyval list option \<Rightarrow> (string, pyval) dict" where
  "request_body p ms tools =
     (let body = merged [(''model'', PStr (pv_model p)), (''messages'', PList (map PDict ms)), (''temperature'', pv_temperature p)] (pv_extra p);
          body1 = (case pv_max_tokens p of None \<Rightarrow> body | Some n \<Rightarrow> AList.update ''max_tokens'' (PInt n) body)
      in case tools of
           Some ts \<Rightarrow> if ts \<noteq> [] then AList.update ''tool_choice'' (PStr ''auto'') (AList.update ''tools'' (PList ts) body1) else body1
         | None \<Rightarrow> body1)"

definition request_headers :: "provider \<Rightarrow> (string, string) dict" where
  "request_headers p = [(''Content-Type'', ''application/json'')]
     @ (case pv_api_key p of None \<Rightarrow> [] | Some k \<Rightarrow> if k = [] then [] else [(''Authorization'', ''Bearer '' @ k)])"

section \<open>The response\<close>

definition model_error :: "string \<Rightarrow> exc" where
  "model_error = builtin_exc [''ModelError'', ''RuntimeError'']"

definition has_class :: "string list \<Rightarrow> exc \<Rightarrow> bool" where
  "has_class cs e \<longleftrightarrow> (\<exists>c \<in> set cs. c \<in> set (x_mro e))"

text \<open>\<open>payload["choices"][0]["message"]\<close>.\<close>

definition first_choice :: "pyval \<Rightarrow> exc + pyval" where
  "first_choice payload = res_bind (item payload ''choices'') first_item"

definition reply_message :: "texts \<Rightarrow> pyval \<Rightarrow> exc + pyval" where
  "reply_message tx payload =
     (case res_bind (first_choice payload) (\<lambda>c. item c ''message'') of
        Inl e \<Rightarrow> if has_class [''KeyError'', ''IndexError'', ''TypeError''] e
                 then Inl (model_error (''Unexpected response shape: '' @ take 400 (tx_dumps tx payload))) else Inl e
      | Inr m \<Rightarrow> Inr m)"

definition reply_content :: "pyval \<Rightarrow> string option" where
  "reply_content c = (case c of PStr s \<Rightarrow> if strip s = [] then None else Some (strip s) | _ \<Rightarrow> None)"

text \<open>A text that cannot be read is a \<open>JSONDecodeError\<close>; arguments that are no dictionary are dropped.\<close>

definition call_arguments :: "(string \<Rightarrow> pyval res) \<Rightarrow> pyval \<Rightarrow> exc + (string, pyval) dict" where
  "call_arguments loads v =
     (case (if truthy v then v else PStr ''{}'') of
        PStr s \<Rightarrow>
          if strip s = [] then Inr []
          else (case loads s of
                  Inl e \<Rightarrow> Inl (builtin_exc [''JSONDecodeError'', ''ValueError''] [])
                | Inr (PDict d) \<Rightarrow> Inr d
                | Inr _ \<Rightarrow> Inr [])
      | PDict d \<Rightarrow> Inr d
      | _ \<Rightarrow> Inr [])"

text \<open>\<open>uuid\<close> is the identifier drawn for this entry when it has none.\<close>

definition read_call :: "texts \<Rightarrow> (string \<Rightarrow> pyval res) \<Rightarrow> string \<Rightarrow> pyval \<Rightarrow> exc + tool_call" where
  "read_call tx loads uuid raw =
     res_bind (item raw ''function'') (\<lambda>fn.
     res_bind (get_key fn ''arguments'' PNone) (\<lambda>v.
     res_bind (call_arguments loads v) (\<lambda>args.
     res_bind (get_key raw ''id'' PNone) (\<lambda>i.
     res_bind (item fn ''name'') (\<lambda>name.
       Inr \<lparr>tc_id = (if truthy i then str_of tx i else uuid), tc_name = str_of tx name, tc_arguments = args\<rparr>)))))"

text \<open>An entry that is malformed is skipped, unless its exception is none of those expected.\<close>

fun read_calls :: "texts \<Rightarrow> (string \<Rightarrow> pyval res) \<Rightarrow> (nat \<Rightarrow> string) \<Rightarrow> nat \<Rightarrow> pyval list \<Rightarrow> exc + tool_call list" where
  "read_calls tx loads uuid n [] = Inr []"
| "read_calls tx loads uuid n (raw # raws) =
     (case read_call tx loads (uuid n) raw of
        Inl e \<Rightarrow> if has_class [''KeyError'', ''TypeError'', ''JSONDecodeError''] e then read_calls tx loads uuid (Suc n) raws else Inl e
      | Inr c \<Rightarrow> res_bind (read_calls tx loads uuid (Suc n) raws) (\<lambda>cs. Inr (c # cs)))"

definition read_message :: "texts \<Rightarrow> (string \<Rightarrow> pyval res) \<Rightarrow> (nat \<Rightarrow> string) \<Rightarrow> pyval \<Rightarrow> exc + string option \<times> tool_call list" where
  "read_message tx loads uuid m =
     res_bind (get_key m ''content'' PNone) (\<lambda>c.
     res_bind (get_key m ''tool_calls'' PNone) (\<lambda>t.
     res_bind (lift_res (iterated (if truthy t then t else PList []))) (\<lambda>raws.
     res_bind (read_calls tx loads uuid 0 raws) (\<lambda>calls. Inr (reply_content c, calls)))))"

text \<open>The telemetry of a reply as it comes.\<close>

record chat_reply =
  cr_content :: "string option"
  cr_calls :: "tool_call list"
  cr_model :: pyval
  cr_finish :: pyval
  cr_usage :: "(string, pyval) dict option"

definition read_reply :: "texts \<Rightarrow> (string \<Rightarrow> pyval res) \<Rightarrow> (nat \<Rightarrow> string) \<Rightarrow> provider \<Rightarrow> pyval \<Rightarrow> exc + chat_reply" where
  "read_reply tx loads uuid p payload =
     res_bind (reply_message tx payload) (\<lambda>m.
     res_bind (first_choice payload) (\<lambda>c.
     res_bind (get_key c ''finish_reason'' PNone) (\<lambda>finish.
     res_bind (get_key payload ''usage'' PNone) (\<lambda>usage.
     res_bind (read_message tx loads uuid m) (\<lambda>(content, calls).
     res_bind (get_key payload ''model'' PNone) (\<lambda>name.
       Inr \<lparr>cr_content = content, cr_calls = calls, cr_model = (if truthy name then name else PStr (pv_model p)),
            cr_finish = finish, cr_usage = (case usage of PDict d \<Rightarrow> Some d | _ \<Rightarrow> None)\<rparr>))))))"

section \<open>A completion\<close>

text \<open>\<open>post\<close> sends url, body and headers and gives the status with the body, or raises; the body is read as text or
  as JSON, which may raise too.\<close>

type_synonym 'w post = "string \<Rightarrow> (string, pyval) dict \<Rightarrow> (string, string) dict \<Rightarrow> ('w, int \<times> (exc + string) \<times> (exc + pyval)) act"

definition unreachable :: "provider \<Rightarrow> exc \<Rightarrow> exc" where
  "unreachable p e = (if has_class [''ClientError''] e
     then model_error (''Could not reach model at '' @ pv_base_url p @ '': '' @ x_str e) else e)"

definition response_payload :: "provider \<Rightarrow> (exc + int \<times> (exc + string) \<times> (exc + pyval)) \<Rightarrow> exc + pyval" where
  "response_payload p out =
     (case out of
        Inl e \<Rightarrow> Inl (unreachable p e)
      | Inr (status, as_text, as_json) \<Rightarrow>
          if status \<noteq> 200
          then (case as_text of Inl e \<Rightarrow> Inl (unreachable p e)
                | Inr t \<Rightarrow> Inl (model_error (''chat/completions returned '' @ show_int status @ '': '' @ take 400 t)))
          else (case as_json of Inl e \<Rightarrow> Inl (unreachable p e) | Inr v \<Rightarrow> Inr v))"

definition complete_chat ::
  "texts \<Rightarrow> (string \<Rightarrow> pyval res) \<Rightarrow> (nat \<Rightarrow> string) \<Rightarrow> 'w post \<Rightarrow> nat \<Rightarrow> provider \<Rightarrow> message list \<Rightarrow> pyval list option \<Rightarrow> 'w
   \<Rightarrow> ((exc + chat_reply) \<times> provider) \<times> 'w" where
  "complete_chat tx loads uuid post loop p ms tools w =
     (let p1 = snd (get_session loop p)
      in case post (pv_base_url p @ ''/chat/completions'') (request_body p ms tools) (request_headers p) w of
           (out, w1) \<Rightarrow> ((res_bind (response_payload p out) (read_reply tx loads uuid p), p1), w1))"

text \<open>The client as the model of the agent loop: a model name and a finish reason are texts there.\<close>

definition text_value :: "pyval \<Rightarrow> string option" where
  "text_value v = (case v of PStr s \<Rightarrow> Some s | _ \<Rightarrow> None)"

definition as_model_reply :: "chat_reply \<Rightarrow> model_reply" where
  "as_model_reply r = \<lparr>mr_content = cr_content r, mr_calls = cr_calls r, mr_model = text_value (cr_model r),
     mr_finish_reason = text_value (cr_finish r), mr_usage = cr_usage r\<rparr>"

section \<open>What is read\<close>

text \<open>The calls of a reply are those of its entries that are well formed, in their order.\<close>

lemma read_calls_spec:
  "read_calls tx loads uuid n raws = Inr cs \<Longrightarrow>
     cs = List.map_filter (\<lambda>(i, raw). case read_call tx loads (uuid i) raw of Inl _ \<Rightarrow> None | Inr c \<Rightarrow> Some c) (enumerate n raws)"
proof (induction raws arbitrary: n cs)
  case (Cons raw raws)
  then show ?case
    by (cases "read_call tx loads (uuid n) raw") (auto simp: List.map_filter_simps res_bind_eq_Inr split: if_splits)
qed (simp add: List.map_filter_simps)

text \<open>A reply that the loop writes into its transcript reads back as it was, ids, names, arguments and all.\<close>

theorem message_round_trip:
  assumes codec: "\<And>d. loads (tx_dumps tx (PDict d)) = Inr (PDict d) \<and> strip (tx_dumps tx (PDict d)) \<noteq> []"
    and ids: "\<And>c. c \<in> set (mr_calls r) \<Longrightarrow> tc_id c \<noteq> []"
    and content: "\<And>s. mr_content r = Some s \<Longrightarrow> s \<noteq> [] \<and> strip s = s"
  shows "read_message tx loads uuid (PDict (assistant_message tx r)) = Inr (mr_content r, mr_calls r)"
proof -
  have one: "read_call tx loads (uuid n) (call_entry (PStr (tc_id c)) (PStr (tc_name c)) (tx_dumps tx (PDict (tc_arguments c)))) = Inr c"
    if "tc_id c \<noteq> []" for n c
  proof -
    have "tx_dumps tx (PDict (tc_arguments c)) \<noteq> []" using codec [of "tc_arguments c"] by (auto simp: strip_def lstrip_def)
    then show ?thesis using that codec [of "tc_arguments c"]
      by (simp add: read_call_def call_entry_def item_def get_key_def dict_get_def call_arguments_def str_of_def)
  qed
  have all: "(\<And>c. c \<in> set cs \<Longrightarrow> tc_id c \<noteq> []) \<Longrightarrow> read_calls tx loads uuid n (map (\<lambda>c. call_entry (PStr (tc_id c)) (PStr (tc_name c))
      (tx_dumps tx (PDict (tc_arguments c)))) cs) = Inr cs" for n cs
    by (induction cs arbitrary: n) (simp_all add: one)
  have c: "reply_content (opt_str (mr_content r)) = mr_content r"
    using content by (cases "mr_content r") (auto simp: reply_content_def)
  show ?thesis
    using all [OF ids] by (auto simp: read_message_def assistant_message_def chat_message_def get_key_def dict_get_def lift_res_def c)
qed

text \<open>What a caller that handles \<open>ModelError\<close> is spared: a status, a service out of reach, a reply without choices.\<close>

lemma failures_are_model_errors:
  "\<exists>e. response_payload p (Inr (500, Inr t, j)) = Inl e \<and> ''ModelError'' \<in> set (x_mro e)"
  "''ClientError'' \<in> set (x_mro x) \<Longrightarrow> \<exists>e. response_payload p (Inl x) = Inl e \<and> ''ModelError'' \<in> set (x_mro e)"
  "\<exists>e. reply_message tx (PDict []) = Inl e \<and> ''ModelError'' \<in> set (x_mro e)"
  "\<exists>e. reply_message tx (PDict [(''choices'', PList [])]) = Inl e \<and> ''ModelError'' \<in> set (x_mro e)"
  by (simp_all add: response_payload_def unreachable_def has_class_def model_error_def builtin_exc_def reply_message_def first_choice_def
      item_def first_item_def key_error_def index_error_def)

text \<open>The session is shared on a loop until it is closed, and made anew on another loop.\<close>

lemma session_is_shared:
  "get_session loop p = (s, p') \<Longrightarrow> s \<notin> pv_closed p' \<Longrightarrow> get_session loop p' = (s, p')"
  by (auto simp: get_session_def split: option.splits if_splits)

lemma session_after_close: "fst (get_session loop (provider_aclose p)) = pv_made p"
  by (simp add: get_session_def provider_aclose_def Let_def split: option.split)

section \<open>Findings\<close>

text \<open>A null message, or an entry whose function is a text, raises \<open>AttributeError\<close>, which no handler here expects:
  the whole reply is lost, well-formed calls included. A timeout comes through as it is.\<close>

lemma null_message_escapes:
  "\<exists>e. read_reply tx loads uuid p (PDict [(''choices'', PList [PDict [(''message'', PNone)]])]) = Inl e \<and> ''AttributeError'' \<in> set (x_mro e)
     \<and> ''ModelError'' \<notin> set (x_mro e)"
  by (simp add: read_reply_def reply_message_def first_choice_def item_def first_item_def get_key_def dict_get_def read_message_def attribute_error_def builtin_exc_def)

lemma text_function_loses_reply:
  "\<exists>e. read_calls tx loads uuid n (PDict [(''function'', PStr f)] # raws) = Inl e \<and> ''AttributeError'' \<in> set (x_mro e)"
  by (simp add: read_call_def item_def get_key_def has_class_def attribute_error_def builtin_exc_def)

lemma timeout_is_no_model_error:
  "x_mro e = [''TimeoutError'', ''OSError'', ''Exception'', ''BaseException'', ''object''] \<Longrightarrow> response_payload p (Inl e) = Inl e"
  by (simp add: response_payload_def unreachable_def has_class_def)

text \<open>The extra body is merged over the model and the messages.\<close>

lemma extra_overrides_model:
  "pv_extra p = [(''model'', v)] \<Longrightarrow> map_of (request_body p ms tools) ''model'' = Some v"
  by (simp add: request_body_def merged_def Let_def update_conv' split: option.split)

end
