(* ===== verification/Sessions.thy ===== *)
theory Sessions
  imports Effects PyText
begin

text \<open>
  The settings of a Zenoh session (\<open>communication/config.py\<close>), durable publishers and subscribers
  (\<open>communication/durable.py\<close>), and what a session manager does besides opening and closing
  (\<open>communication/sessions.py\<close>). Pydantic's conversion of an endpoint list and \<open>json\<close> are arguments.
\<close>

section \<open>Settings\<close>

record zenoh_config =
  zc_mode :: string
  zc_connect :: "string list"
  zc_listen :: "string list"
  zc_multicast :: bool
  zc_username :: "string option"
  zc_password :: "string option"
  zc_root_ca :: "string option"
  zc_listen_cert :: "string option"
  zc_listen_key :: "string option"
  zc_mtls :: bool
  zc_additional :: "(string, pyval) dict"

definition is_set :: "string option \<Rightarrow> bool" where
  "is_set s \<longleftrightarrow> (case s of None \<Rightarrow> False | Some t \<Rightarrow> t \<noteq> [])"

text \<open>A JSON array, a comma-separated text, or anything else as it is.\<close>

definition parse_endpoint_list :: "(string \<Rightarrow> pyval res) \<Rightarrow> pyval \<Rightarrow> pyval res" where
  "parse_endpoint_list loads v =
     (case v of
        PStr s \<Rightarrow>
          (let t = strip s
           in if t = [] then Inr (PList [])
              else if starts_with t ''['' then loads t
              else Inr (PList (map PStr (filter (\<lambda>x. x \<noteq> []) (map strip (split_on (CHR '','') t))))))
      | _ \<Rightarrow> Inr v)"

text \<open>\<open>^[a-z0-9]+/.+\<close>, where the dot is no line feed.\<close>

definition protocol_char :: "char \<Rightarrow> bool" where
  "protocol_char c \<longleftrightarrow> (CHR ''a'' \<le> c \<and> c \<le> CHR ''z'') \<or> (CHR ''0'' \<le> c \<and> c \<le> CHR ''9'')"

definition endpoint_ok :: "string \<Rightarrow> bool" where
  "endpoint_ok e \<longleftrightarrow> takeWhile protocol_char e \<noteq> [] \<and>
     (case dropWhile protocol_char e of c # d # _ \<Rightarrow> c = CHR ''/'' \<and> d \<noteq> CHR ''\<newline>'' | _ \<Rightarrow> False)"

definition check_endpoint_format :: "string list \<Rightarrow> exc + string list" where
  "check_endpoint_format es =
     (case filter (\<lambda>e. \<not> endpoint_ok e) es of
        [] \<Rightarrow> Inr es
      | e # _ \<Rightarrow> Inl (value_error (''Invalid Zenoh endpoint '' @ e)))"

text \<open>The two validators in their order; \<open>as_texts\<close> is Pydantic's \<open>list[str]\<close>.\<close>

definition endpoints_of :: "(string \<Rightarrow> pyval res) \<Rightarrow> (pyval \<Rightarrow> exc + string list) \<Rightarrow> pyval \<Rightarrow> exc + string list" where
  "endpoints_of loads as_texts v =
     res_bind (lift_res (parse_endpoint_list loads v)) (\<lambda>l. res_bind (as_texts l) check_endpoint_format)"

datatype security_warning = NoAuthNoTls | AuthWithoutTls

definition has_auth :: "zenoh_config \<Rightarrow> bool" where
  "has_auth c \<longleftrightarrow> is_set (zc_username c) \<and> zc_password c \<noteq> None"

definition has_tls :: "zenoh_config \<Rightarrow> bool" where
  "has_tls c \<longleftrightarrow> is_set (zc_root_ca c) \<or> is_set (zc_listen_cert c) \<or> is_set (zc_listen_key c) \<or> zc_mtls c"

definition check_security :: "zenoh_config \<Rightarrow> exc + security_warning list" where
  "check_security c =
     (if is_set (zc_listen_cert c) \<noteq> is_set (zc_listen_key c)
      then Inl (value_error ''listen_certificate and listen_private_key must be provided together'')
      else if zc_mtls c \<and> \<not> is_set (zc_root_ca c) then Inl (value_error ''enable_mtls=True requires root_ca_certificate'')
      else Inr (if \<not> has_auth c \<and> \<not> has_tls c then [NoAuthNoTls] else if has_auth c \<and> \<not> has_tls c then [AuthWithoutTls] else []))"

section \<open>Rendering\<close>

text \<open>The overlay wins, except that two dictionaries under a key are merged.\<close>

function (sequential) deep_merge :: "(string \<times> pyval) list \<Rightarrow> (string \<times> pyval) list \<Rightarrow> (string \<times> pyval) list" where
  "deep_merge base [] = base"
| "deep_merge base ((k, v) # rest) =
     deep_merge (AList.update k
       (case v of PDict e \<Rightarrow> (case map_of base k of Some (PDict d) \<Rightarrow> PDict (deep_merge d e) | _ \<Rightarrow> v) | _ \<Rightarrow> v) base) rest"
  by pat_completeness auto
termination
  by (relation "measure (\<lambda>(b, e). size_list (size_prod (\<lambda>_. 0) size) e)") auto

definition opt_entry :: "bool \<Rightarrow> string \<Rightarrow> pyval \<Rightarrow> (string, pyval) dict" where
  "opt_entry b k v = (if b then [(k, v)] else [])"

definition text_or_empty :: "string option \<Rightarrow> pyval" where
  "text_or_empty s = PStr (case s of None \<Rightarrow> [] | Some t \<Rightarrow> t)"

definition tls_conf :: "zenoh_config \<Rightarrow> (string, pyval) dict" where
  "tls_conf c = opt_entry (is_set (zc_root_ca c)) ''root_ca_certificate'' (text_or_empty (zc_root_ca c))
     @ opt_entry (is_set (zc_listen_cert c)) ''listen_certificate'' (text_or_empty (zc_listen_cert c))
     @ opt_entry (is_set (zc_listen_key c)) ''listen_private_key'' (text_or_empty (zc_listen_key c))
     @ opt_entry (zc_mtls c) ''enable_mtls'' (PBool True)"

definition transport_conf :: "zenoh_config \<Rightarrow> (string, pyval) dict" where
  "transport_conf c = opt_entry (has_auth c) ''auth''
       (PDict [(''usrpwd'', PDict [(''user'', text_or_empty (zc_username c)), (''password'', text_or_empty (zc_password c))])])
     @ opt_entry (tls_conf c \<noteq> []) ''link'' (PDict [(''tls'', PDict (tls_conf c))])"

definition conf_dict :: "zenoh_config \<Rightarrow> (string, pyval) dict" where
  "conf_dict c = [(''mode'', PStr (zc_mode c))]
     @ opt_entry (zc_connect c \<noteq> []) ''connect'' (PDict [(''endpoints'', PList (map PStr (zc_connect c)))])
     @ opt_entry (zc_listen c \<noteq> []) ''listen'' (PDict [(''endpoints'', PList (map PStr (zc_listen c)))])
     @ opt_entry (\<not> zc_multicast c) ''scouting'' (PDict [(''multicast'', PDict [(''enabled'', PBool False)])])
     @ opt_entry (transport_conf c \<noteq> []) ''transport'' (PDict (transport_conf c))"

definition build_conf :: "zenoh_config \<Rightarrow> (string, pyval) dict" where
  "build_conf c = (if zc_additional c \<noteq> [] then deep_merge (conf_dict c) (zc_additional c) else conf_dict c)"

section \<open>Durable publishers and subscribers\<close>

text \<open>Whether \<open>zenoh.ext\<close> is there is an argument; settings of Zenoh are numbers, \<open>RELIABLE\<close> and \<open>BLOCK\<close> among them.\<close>

record advanced_publisher =
  ad_key :: string
  ad_cache :: int
  ad_heartbeat :: time
  ad_reliability :: nat
  ad_congestion :: nat

definition RELIABLE :: nat where "RELIABLE = 1"

definition BLOCK :: nat where "BLOCK = 1"

definition require_ext :: "bool \<Rightarrow> exc + unit" where
  "require_ext ext = (if ext then Inr () else Inl (runtime_error ''Durable pub/sub requires zenoh.ext''))"

definition declare_durable_publisher ::
  "bool \<Rightarrow> (advanced_publisher \<Rightarrow> ('w, 'p) act) \<Rightarrow> string \<Rightarrow> int \<Rightarrow> time \<Rightarrow> nat option \<Rightarrow> nat option \<Rightarrow> ('w, 'p) act" where
  "declare_durable_publisher ext declare_advanced key cache heartbeat reliability congestion =
     act_bind (act_of (require_ext ext)) (\<lambda>_. declare_advanced
       \<lparr>ad_key = key, ad_cache = cache, ad_heartbeat = heartbeat,
        ad_reliability = (case reliability of None \<Rightarrow> RELIABLE | Some r \<Rightarrow> r),
        ad_congestion = (case congestion of None \<Rightarrow> BLOCK | Some c \<Rightarrow> c)\<rparr>)"

record 'w durable_subscription =
  ds_subscriber :: "('w, unit) act"
  ds_listener :: "('w, unit) act option"

definition durable_undeclare :: "'w durable_subscription \<Rightarrow> 'w \<Rightarrow> ((exc + unit) \<times> 'w) \<times> 'w durable_subscription" where
  "durable_undeclare d w =
     (case ds_listener d of
        None \<Rightarrow> (ds_subscriber d w, d)
      | Some l \<Rightarrow>
          (case swallow l w of
             (Inl e, w1) \<Rightarrow> ((Inl e, w1), d)
           | (Inr _, w1) \<Rightarrow> (ds_subscriber d w1, d\<lparr>ds_listener := None\<rparr>)))"

text \<open>\<open>declare_advanced\<close> gets the number of samples to replay and whether to recover, and gives the action that
  undeclares the subscriber; \<open>listen\<close> gives the one of the listener.\<close>

definition declare_durable_subscriber ::
  "bool \<Rightarrow> (string \<Rightarrow> int \<Rightarrow> bool \<Rightarrow> ('w, ('w, unit) act) act) \<Rightarrow> ('w, ('w, unit) act) act \<Rightarrow> string \<Rightarrow> int \<Rightarrow> bool \<Rightarrow> bool
   \<Rightarrow> ('w, 'w durable_subscription) act" where
  "declare_durable_subscriber ext declare_advanced listen key replay recover on_miss =
     act_bind (act_of (require_ext ext)) (\<lambda>_.
     act_bind (declare_advanced key replay recover) (\<lambda>u.
       if on_miss then act_bind listen (\<lambda>l. act_return \<lparr>ds_subscriber = u, ds_listener = Some l\<rparr>)
       else act_return \<lparr>ds_subscriber = u, ds_listener = None\<rparr>))"

section \<open>A manager's session\<close>

definition session_call :: "'x option \<Rightarrow> ('x \<Rightarrow> ('w, 'a) act) \<Rightarrow> ('w, 'a) act" where
  "session_call session f =
     (case session of None \<Rightarrow> act_raise (runtime_error ''No active Zenoh session'') | Some x \<Rightarrow> f x)"

definition get_info :: "'x option \<Rightarrow> ('x \<Rightarrow> exc + string) \<Rightarrow> exc + (string, pyval) dict" where
  "get_info session zid =
     (case session of
        None \<Rightarrow> Inr []
      | Some x \<Rightarrow> (case zid x of Inr z \<Rightarrow> Inr [(''zid'', PStr z)] | Inl e \<Rightarrow> if is_exception e then Inr [] else Inl e))"

section \<open>What is rendered\<close>

fun at_path :: "pyval \<Rightarrow> string list \<Rightarrow> pyval option" where
  "at_path v [] = Some v"
| "at_path (PDict d) (k # ks) = (case map_of d k of None \<Rightarrow> None | Some v \<Rightarrow> at_path v ks)"
| "at_path _ (k # ks) = None"

text \<open>What a merged dictionary has under a key.\<close>

lemma merge_lookup:
  "distinct (map fst e) \<Longrightarrow> map_of (deep_merge b e) k =
     (case map_of e k of
        None \<Rightarrow> map_of b k
      | Some (PDict o1) \<Rightarrow> (case map_of b k of Some (PDict b1) \<Rightarrow> Some (PDict (deep_merge b1 o1)) | _ \<Rightarrow> Some (PDict o1))
      | Some v \<Rightarrow> Some v)"
proof (induction e arbitrary: b)
  case (Cons kv rest)
  obtain k1 v1 where kv: "kv = (k1, v1)" by fastforce
  have out: "k1 \<notin> fst ` set rest" using Cons.prems kv by (auto simp: image_iff)
  then have none: "map_of rest k1 = None" by (simp add: map_of_eq_None_iff)
  show ?case
    using Cons.prems kv none Cons.IH
    by (cases "k = k1") (auto simp: update_conv' split: pyval.split option.split)
qed simp

text \<open>Where the overlay has a value that is no dictionary the merge has it; where it has nothing on the way, or
  a dictionary in place of a value, what the base has below is kept or gone.\<close>

fun leaf :: "pyval \<Rightarrow> bool" where
  "leaf (PDict d) = False"
| "leaf v = True"

fun distinct_keys :: "pyval \<Rightarrow> bool" where
  "distinct_keys (PDict d) = (distinct (map fst d) \<and> (\<forall>kv \<in> set d. distinct_keys (snd kv)))"
| "distinct_keys v = True"

fun avoids :: "pyval \<Rightarrow> string list \<Rightarrow> bool" where
  "avoids (PDict d) (k # ks) = (case map_of d k of None \<Rightarrow> True | Some v \<Rightarrow> avoids v ks)"
| "avoids v p = False"

lemma distinct_keys_at: "distinct_keys (PDict d) \<Longrightarrow> map_of d k = Some v \<Longrightarrow> distinct_keys v"
  by (auto dest!: map_of_SomeD)

theorem overlay_wins:
  assumes "distinct_keys (PDict e)" "at_path (PDict e) p = Some v" "leaf v" "p \<noteq> []"
  shows "at_path (PDict (deep_merge b e)) p = Some v"
  using assms
proof (induction p arbitrary: b e)
  case (Cons k ks)
  then obtain x where x: "map_of e k = Some x" "at_path x ks = Some v" by (auto split: option.splits)
  show ?case
  proof (cases x)
    case (PDict o1)
    have ks: "ks \<noteq> []" using x(2) PDict Cons.prems(3) by auto
    have "distinct_keys (PDict o1)" using distinct_keys_at [OF Cons.prems(1) x(1)] PDict by simp
    then have "at_path (PDict (deep_merge b1 o1)) ks = Some v" for b1
      using Cons.IH [of o1 b1] x(2) PDict Cons.prems(3) ks by simp
    then show ?thesis using Cons.prems(1) x PDict by (auto simp: merge_lookup split: option.split pyval.split)
  qed (use x Cons.prems(1) in \<open>auto simp: merge_lookup\<close>)
qed simp

theorem rest_is_kept:
  assumes "distinct_keys (PDict e)" "avoids (PDict e) p" "at_path (PDict b) p = Some v"
  shows "at_path (PDict (deep_merge b e)) p = Some v"
  using assms
proof (induction p arbitrary: b e)
  case (Cons k ks)
  show ?case
  proof (cases "map_of e k")
    case None
    then show ?thesis using Cons.prems by (simp add: merge_lookup)
  next
    case (Some x)
    then have av: "avoids x ks" using Cons.prems(2) by simp
    then obtain o1 where o1: "x = PDict o1" "ks \<noteq> []" by (cases x; cases ks) auto
    obtain y where y: "map_of b k = Some y" "at_path y ks = Some v" using Cons.prems(3) by (auto split: option.splits)
    then obtain b1 where b1: "y = PDict b1" using o1(2) by (cases y; cases ks) auto
    have "distinct_keys (PDict o1)" using distinct_keys_at [OF Cons.prems(1) Some] o1(1) by simp
    then have "at_path (PDict (deep_merge b1 o1)) ks = Some v" using Cons.IH [of o1 b1] av o1(1) y(2) b1 by simp
    then show ?thesis using Cons.prems(1) Some o1 y b1 by (simp add: merge_lookup)
  qed
qed simp

text \<open>Credentials, certificates and endpoints are in the rendered configuration exactly when they are set.\<close>

lemmas rendering = build_conf_def conf_dict_def transport_conf_def tls_conf_def opt_entry_def

lemma credentials_rendered:
  assumes "zc_additional c = []"
  shows "at_path (PDict (build_conf c)) [''transport'', ''auth'', ''usrpwd'', ''user''] = (if has_auth c then Some (text_or_empty (zc_username c)) else None)"
    "at_path (PDict (build_conf c)) [''transport'', ''auth'', ''usrpwd'', ''password''] = (if has_auth c then Some (text_or_empty (zc_password c)) else None)"
  using assms by (auto simp: rendering)

lemma tls_conf_has_tls: "tls_conf c \<noteq> [] \<longleftrightarrow> has_tls c"
  by (simp add: tls_conf_def opt_entry_def has_tls_def)

lemma tls_rendered:
  assumes "zc_additional c = []"
  shows "at_path (PDict (build_conf c)) [''transport'', ''link''] = (if has_tls c then Some (PDict [(''tls'', PDict (tls_conf c))]) else None)"
proof -
  have "map_of (build_conf c) ''transport'' = (if transport_conf c \<noteq> [] then Some (PDict (transport_conf c)) else None)"
    using assms by (simp add: build_conf_def conf_dict_def opt_entry_def)
  moreover have "map_of (transport_conf c) ''link'' = (if tls_conf c \<noteq> [] then Some (PDict [(''tls'', PDict (tls_conf c))]) else None)"
    by (simp add: transport_conf_def opt_entry_def)
  ultimately show ?thesis by (cases "tls_conf c = []"; cases "transport_conf c = []") (auto simp flip: tls_conf_has_tls)
qed

lemma scouting_rendered:
  "zc_additional c = [] \<Longrightarrow> at_path (PDict (build_conf c)) [''scouting'', ''multicast'', ''enabled''] = (if zc_multicast c then None else Some (PBool False))"
  by (auto simp: rendering)

text \<open>A certificate that a listener presents comes with its key.\<close>

lemma certificate_has_key:
  "check_security c = Inr ws \<Longrightarrow> is_set (zc_listen_cert c) \<longleftrightarrow> is_set (zc_listen_key c)"
  by (auto simp: check_security_def split: if_splits)

lemma endpoints_checked:
  assumes "endpoints_of loads as_texts v = Inr es"
  shows "list_all endpoint_ok es"
proof -
  obtain xs where "check_endpoint_format xs = Inr es" using assms by (auto simp: endpoints_of_def res_bind_eq_Inr)
  then have "es = xs \<and> filter (\<lambda>e. \<not> endpoint_ok e) xs = []"
    by (cases "filter (\<lambda>e. \<not> endpoint_ok e) xs") (simp_all add: check_endpoint_format_def)
  then show ?thesis by (auto simp: list_all_iff filter_empty_conv)
qed

section \<open>Findings\<close>

text \<open>A user name without a password is dropped: with certificates set there is neither authentication nor a warning.\<close>

lemma user_without_password_is_silent:
  assumes "zc_username c = Some u" "u \<noteq> []" "zc_password c = None" "is_set (zc_root_ca c)" "zc_listen_cert c = None" "zc_listen_key c = None"
    "zc_additional c = []"
  shows "check_security c = Inr [] \<and> at_path (PDict (build_conf c)) [''transport'', ''auth''] = None"
  using assms by (auto simp: check_security_def has_auth_def has_tls_def rendering is_set_def)

text \<open>The checks do not see the overlay: with it authentication is replaced by anything at all.\<close>

lemma overlay_drops_credentials:
  assumes "has_auth c" "zc_additional c = [(''transport'', PDict [(''auth'', PNone)])]"
  shows "at_path (PDict (build_conf c)) [''transport'', ''auth''] = Some PNone"
  using assms by (simp add: rendering update_conv')

text \<open>A listener that cannot be undeclared does not keep the subscriber declared.\<close>

lemma undeclare_frees_subscriber:
  assumes "\<And>l w e w'. ds_listener d = Some l \<Longrightarrow> l w = (Inl e, w') \<Longrightarrow> is_exception e"
  shows "\<exists>w1. fst (durable_undeclare d w) = ds_subscriber d w1"
proof (cases "ds_listener d")
  case (Some l)
  then have "swallow l w = (Inr (), snd (l w))" using assms by (intro swallow_returns) (metis prod.collapse)
  then show ?thesis using Some by (auto simp: durable_undeclare_def)
qed (auto simp: durable_undeclare_def)

text \<open>If the listener cannot be declared, the subscriber stays declared and nothing refers to it.\<close>

lemma listener_failure_leaks:
  assumes "declare_advanced key replay recover w = (Inr u, w1)" "listen w1 = (Inl e, w2)"
  shows "declare_durable_subscriber True declare_advanced listen key replay recover True w = (Inl e, w2)"
  using assms by (simp add: declare_durable_subscriber_def require_ext_def act_bind_def)

end
