(* ===== verification/Evals.thy ===== *)
theory Evals
  imports Trajectory "HOL-Library.Sublist"
begin

text \<open>
  Grading agent runs (\<open>testing/evals.py\<close>), and the file form of a trajectory with its check against a
  live application (\<open>testing/trajectory.py\<close>).
\<close>

section \<open>Cases\<close>

record eval_case =
  ec_name :: string
  ec_users :: "string list"
  ec_system :: "string option"
  ec_expect_tools :: "string list"
  ec_forbid_tools :: "string list"
  ec_expect_text :: "string option"
  ec_expect_no_error :: bool
  ec_max_tool_calls :: "int option"
  ec_max_steps :: int
  ec_check :: "(trajectory \<Rightarrow> exc + string option) option"

text \<open>\<open>any(name == got for got in it)\<close> over one iterator: each name is sought after the previous one.\<close>

fun is_subsequence :: "string list \<Rightarrow> string list \<Rightarrow> bool" where
  "is_subsequence [] called = True"
| "is_subsequence (w # ws) called =
     (case dropWhile (\<lambda>c. c \<noteq> w) called of [] \<Rightarrow> False | _ # later \<Rightarrow> is_subsequence ws later)"

fun contains_text :: "string \<Rightarrow> string \<Rightarrow> bool" where
  "contains_text needle [] \<longleftrightarrow> needle = []"
| "contains_text needle (c # cs) \<longleftrightarrow> starts_with (c # cs) needle \<or> contains_text needle cs"

definition lower :: "string \<Rightarrow> string" where
  "lower s = map lower_char s"

datatype failure =
    ExpectedTools "string list" "string list"
  | ForbiddenTools "string list"
  | ExpectedText string string
  | ToolErrors "string list"
  | OverBudget nat int
  | CheckFailed string

definition failed_tools :: "trajectory \<Rightarrow> string list" where
  "failed_tools tj = map to_name (filter to_error (tj_tools tj))"

definition final_text :: "texts \<Rightarrow> trajectory \<Rightarrow> string" where
  "final_text tx tj = (case final_message tx tj of None \<Rightarrow> [] | Some s \<Rightarrow> s)"

definition evaluate :: "texts \<Rightarrow> eval_case \<Rightarrow> trajectory \<Rightarrow> exc + failure list" where
  "evaluate tx ec tj =
     (let called = tool_names tj;
          bad = filter (\<lambda>n. n \<in> set (ec_forbid_tools ec)) called;
          listed = (if ec_expect_tools ec \<noteq> [] \<and> \<not> is_subsequence (ec_expect_tools ec) called then [ExpectedTools (ec_expect_tools ec) called] else [])
            @ (if bad \<noteq> [] then [ForbiddenTools (sort (remdups bad))] else [])
            @ (case ec_expect_text ec of None \<Rightarrow> []
               | Some t \<Rightarrow> if \<not> contains_text (lower t) (lower (final_text tx tj)) then [ExpectedText t (final_text tx tj)] else [])
            @ (if ec_expect_no_error ec \<and> failed_tools tj \<noteq> [] then [ToolErrors (failed_tools tj)] else [])
            @ (case ec_max_tool_calls ec of None \<Rightarrow> [] | Some n \<Rightarrow> if int (length called) > n then [OverBudget (length called) n] else [])
      in case ec_check ec of
           None \<Rightarrow> Inr listed
         | Some check \<Rightarrow> res_bind (check tj) (\<lambda>problem.
             Inr (listed @ (case problem of None \<Rightarrow> [] | Some m \<Rightarrow> if m \<noteq> [] then [CheckFailed m] else []))))"

section \<open>Running them\<close>

record eval_result =
  er_case :: string
  er_trajectory :: "trajectory option"
  er_failures :: "failure list"
  er_error :: "string option"

definition result_passed :: "eval_result \<Rightarrow> bool" where
  "result_passed r \<longleftrightarrow> er_failures r = [] \<and> er_error r = None"

definition report_ok :: "eval_result list \<Rightarrow> bool" where
  "report_ok rs \<longleftrightarrow> list_all result_passed rs"

definition report_passed :: "eval_result list \<Rightarrow> nat" where
  "report_passed rs = length (filter result_passed rs)"

definition report_failed :: "eval_result list \<Rightarrow> nat" where
  "report_failed rs = length rs - report_passed rs"

definition report_trajectories :: "eval_result list \<Rightarrow> trajectory list" where
  "report_trajectories rs = List.map_filter er_trajectory rs"

text \<open>A model, or a factory that makes one for each case. The base agent has what the keyword arguments say; a case
  may bring a catalogue of its own.\<close>

datatype 'w model_source = TheModel "'w model" | Factory "exc + 'w model"

definition model_of :: "'w model_source \<Rightarrow> exc + 'w model" where
  "model_of src = (case src of TheModel m \<Rightarrow> Inr m | Factory r \<Rightarrow> r)"

definition error_text :: "exc \<Rightarrow> string" where
  "error_text e = hd (x_mro e) @ '': '' @ x_str e"

definition run_case ::
  "'w agent \<Rightarrow> 'w model_source \<Rightarrow> 'w mesh_tool list \<Rightarrow> eval_case \<times> 'w mesh_tool list option \<Rightarrow> ('w, eval_result) io" where
  "run_case base src tools c w =
     (case model_of src of
        Inl e \<Rightarrow> Some (Inl e, w)
      | Inr m \<Rightarrow>
          (let ec = fst c;
               a = base\<lparr>ag_model := m, ag_tools := (case snd c of Some ts \<Rightarrow> ts | None \<Rightarrow> tools), ag_max_steps := ec_max_steps ec\<rparr>
           in case record_agent a [] (ec_name ec) (ec_users ec) (ec_system ec) w of
                None \<Rightarrow> None
              | Some (Inl e, w1) \<Rightarrow>
                  Some (if is_exception e
                        then Inr \<lparr>er_case = ec_name ec, er_trajectory = None, er_failures = [], er_error = Some (error_text e)\<rparr> else Inl e, w1)
              | Some (Inr tj, w1) \<Rightarrow>
                  Some (map_sum id (\<lambda>fs. \<lparr>er_case = ec_name ec, er_trajectory = Some tj, er_failures = fs, er_error = None\<rparr>)
                          (evaluate (ag_texts base) ec tj), w1)))"

fun run_eval ::
  "'w agent \<Rightarrow> 'w model_source \<Rightarrow> 'w mesh_tool list \<Rightarrow> (eval_case \<times> 'w mesh_tool list option) list \<Rightarrow> ('w, eval_result list) io" where
  "run_eval base src tools [] = io_return []"
| "run_eval base src tools (c # cs) = io_bind (run_case base src tools c) (\<lambda>r. io_bind (run_eval base src tools cs) (\<lambda>rs. io_return (r # rs)))"

section \<open>The file of a trajectory\<close>

definition TRAJECTORY_VERSION :: int where
  "TRAJECTORY_VERSION = 1"

definition call_dict :: "tool_call \<Rightarrow> pyval" where
  "call_dict c = PDict [(''id'', PStr (tc_id c)), (''name'', PStr (tc_name c)), (''arguments'', PDict (tc_arguments c))]"

definition opt_dict :: "(string, pyval) dict option \<Rightarrow> pyval" where
  "opt_dict d = (case d of None \<Rightarrow> PNone | Some x \<Rightarrow> PDict x)"

definition turn_fields :: "model_turn \<Rightarrow> (string, pyval) dict" where
  "turn_fields t = [(''content'', opt_str (tn_content t)), (''tool_calls'', PList (map call_dict (tn_calls t))), (''model'', opt_str (tn_model t)),
     (''finish_reason'', opt_str (tn_finish_reason t)), (''usage'', opt_dict (tn_usage t)), (''tools_offered'', PList (tn_offered t))]"

definition outcome_fields :: "tool_outcome \<Rightarrow> (string, pyval) dict" where
  "outcome_fields x = [(''name'', PStr (to_name x)), (''arguments'', PDict (to_arguments x)), (''content'', PStr (to_content x)),
     (''error'', PBool (to_error x)), (''tool_call_id'', opt_str (to_call x))]"

definition traj_to_dict :: "pyval \<Rightarrow> trajectory \<Rightarrow> (string, pyval) dict" where
  "traj_to_dict stamp tj = [(''version'', PInt TRAJECTORY_VERSION), (''name'', PStr (tj_name tj)), (''system'', opt_str (tj_system tj)),
     (''service'', opt_str (tj_service tj)), (''recorded_at'', stamp), (''user_turns'', PList (map PStr (tj_users tj))),
     (''model_turns'', PList (map (PDict \<circ> turn_fields) (tj_turns tj))), (''tools'', PList (map (PDict \<circ> outcome_fields) (tj_tools tj))),
     (''events'', PList (map PDict (tj_events tj))), (''approvals'', PList (map PDict (tj_approvals tj)))]"

text \<open>A trajectory read from a file has whatever the file has in its fields: a turn and an outcome are the arguments
  of their constructors.\<close>

record loaded =
  ld_name :: pyval
  ld_system :: pyval
  ld_service :: pyval
  ld_at :: pyval
  ld_users :: "pyval list"
  ld_turns :: "(string, pyval) dict list"
  ld_tools :: "(string, pyval) dict list"
  ld_events :: "pyval list"
  ld_approvals :: "pyval list"

definition turn_defaults :: "(string, pyval) dict" where
  "turn_defaults = [(''content'', PNone), (''tool_calls'', PList []), (''model'', PNone), (''finish_reason'', PNone), (''usage'', PNone), (''tools_offered'', PList [])]"

definition outcome_defaults :: "(string, pyval option) dict" where
  "outcome_defaults = [(''name'', None), (''arguments'', Some (PDict [])), (''content'', Some (PStr [])), (''error'', Some (PBool False)), (''tool_call_id'', Some PNone)]"

text \<open>\<open>C(**t)\<close> for a dataclass whose fields, in their order, have these defaults.\<close>

definition dataclass_of :: "(string, pyval option) dict \<Rightarrow> pyval \<Rightarrow> exc + (string, pyval) dict" where
  "dataclass_of slots t =
     (case t of
        PDict d \<Rightarrow>
          if \<not> fst ` set d \<subseteq> fst ` set slots then Inl (type_error ''unexpected keyword argument'')
          else if \<exists>(k, v) \<in> set slots. v = None \<and> map_of d k = None then Inl (type_error ''missing required argument'')
          else Inr (map (\<lambda>(k, v). (k, case map_of d k of Some x \<Rightarrow> x | None \<Rightarrow> (case v of Some y \<Rightarrow> y | None \<Rightarrow> PNone))) slots)
      | _ \<Rightarrow> Inl (type_error ''argument after ** must be a mapping''))"

fun read_all :: "(pyval \<Rightarrow> exc + 'a) \<Rightarrow> pyval list \<Rightarrow> exc + 'a list" where
  "read_all f [] = Inr []"
| "read_all f (v # vs) = res_bind (f v) (\<lambda>x. res_bind (read_all f vs) (\<lambda>xs. Inr (x # xs)))"

definition or_else :: "pyval \<Rightarrow> pyval \<Rightarrow> pyval" where
  "or_else v dflt = (if truthy v then v else dflt)"

definition int_of_value :: "pyval \<Rightarrow> exc + int" where
  "int_of_value v =
     (case v of
        PInt i \<Rightarrow> Inr i
      | PBool b \<Rightarrow> Inr (if b then 1 else 0)
      | PFloat r \<Rightarrow> Inr (if r < 0 then - \<lfloor>- r\<rfloor> else \<lfloor>r\<rfloor>)
      | PStr s \<Rightarrow> lift_res (py_int (strip s))
      | _ \<Rightarrow> Inl (type_error ''int() argument''))"

definition listed :: "(string, pyval) dict \<Rightarrow> string \<Rightarrow> exc + pyval list" where
  "listed d k = lift_res (iterated (or_else (dict_get d k PNone) (PList [])))"

definition traj_from_dict :: "(string, pyval) dict \<Rightarrow> exc + loaded" where
  "traj_from_dict d =
     res_bind (int_of_value (or_else (dict_get d ''version'' PNone) (PInt 1))) (\<lambda>version.
     if version > TRAJECTORY_VERSION then Inl (value_error ''Trajectory format is newer than this Istos understands'')
     else res_bind (listed d ''user_turns'') (\<lambda>users.
       res_bind (res_bind (listed d ''model_turns'') (read_all (dataclass_of (map (\<lambda>(k, v). (k, Some v)) turn_defaults)))) (\<lambda>turns.
       res_bind (res_bind (listed d ''tools'') (read_all (dataclass_of outcome_defaults))) (\<lambda>tools.
       res_bind (listed d ''events'') (\<lambda>events.
       res_bind (listed d ''approvals'') (\<lambda>approvals.
         Inr \<lparr>ld_name = or_else (dict_get d ''name'' PNone) (PStr []), ld_system = dict_get d ''system'' PNone, ld_service = dict_get d ''service'' PNone,
              ld_at = or_else (dict_get d ''recorded_at'' PNone) (PFloat 0), ld_users = users, ld_turns = turns, ld_tools = tools,
              ld_events = events, ld_approvals = approvals\<rparr>))))))"

text \<open>\<open>save\<close> writes \<open>dumps\<close> of the dictionary; \<open>load\<close> takes the stem of the file's name where the trajectory has none.\<close>

definition save_text :: "(pyval \<Rightarrow> string) \<Rightarrow> pyval \<Rightarrow> trajectory \<Rightarrow> string" where
  "save_text dumps stamp tj = dumps (PDict (traj_to_dict stamp tj))"

definition load_text :: "(string \<Rightarrow> pyval res) \<Rightarrow> string \<Rightarrow> string \<Rightarrow> exc + loaded" where
  "load_text loads stem s =
     res_bind (lift_res (loads s)) (\<lambda>v.
       case v of
         PDict d \<Rightarrow> res_bind (traj_from_dict d) (\<lambda>l. Inr (if truthy (ld_name l) then l else l\<lparr>ld_name := PStr stem\<rparr>))
       | _ \<Rightarrow> Inl (attribute_error ''get''))"

text \<open>\<open>to_reply\<close> of a turn as it was read.\<close>

definition loaded_call :: "texts \<Rightarrow> pyval \<Rightarrow> exc + tool_call" where
  "loaded_call tx v =
     (case v of
        PDict c \<Rightarrow>
          (case or_else (dict_get c ''arguments'' PNone) (PDict []) of
             PDict args \<Rightarrow> Inr \<lparr>tc_id = str_of tx (or_else (dict_get c ''id'' PNone) (PStr [])), tc_name = str_of tx (or_else (dict_get c ''name'' PNone) (PStr [])),
                              tc_arguments = args\<rparr>
           | _ \<Rightarrow> Inl (type_error ''dict() argument''))
      | _ \<Rightarrow> Inl (attribute_error ''get''))"

definition loaded_calls :: "texts \<Rightarrow> (string, pyval) dict \<Rightarrow> exc + tool_call list" where
  "loaded_calls tx t = res_bind (lift_res (iterated (dict_get t ''tool_calls'' PNone))) (read_all (loaded_call tx))"

section \<open>Against a live application\<close>

text \<open>A handler is its prefix and whether it takes these arguments.\<close>

datatype problem = NoHandler string | BadArguments string "(string, pyval) dict"

fun check_outcomes :: "(string \<times> ((string, pyval) dict \<Rightarrow> exc + unit)) list \<Rightarrow> tool_outcome list \<Rightarrow> exc + problem list" where
  "check_outcomes handlers [] = Inr []"
| "check_outcomes handlers (x # xs) =
     (case map_of (rev handlers) (to_name x) of
        None \<Rightarrow> res_bind (check_outcomes handlers xs) (\<lambda>ps. Inr (NoHandler (to_name x) # ps))
      | Some accepts \<Rightarrow>
          (case accepts (to_arguments x) of
             Inr _ \<Rightarrow> check_outcomes handlers xs
           | Inl e \<Rightarrow> if ''SchemaValidationError'' \<in> set (x_mro e)
                      then res_bind (check_outcomes handlers xs) (\<lambda>ps. Inr (BadArguments (to_name x) (to_arguments x) # ps)) else Inl e))"

definition check_against_app :: "(string \<times> ((string, pyval) dict \<Rightarrow> exc + unit)) list \<Rightarrow> trajectory \<Rightarrow> exc + problem list" where
  "check_against_app handlers tj = check_outcomes (map (\<lambda>(p, f). (tool_name p, f)) handlers) (tj_tools tj)"

section \<open>What a verdict means\<close>

lemma subseq_set: "subseq xs ys \<Longrightarrow> set xs \<subseteq> set ys"
  by (induction rule: list_emb.induct) auto

lemma is_subsequence_subseq: "is_subsequence ws called \<longleftrightarrow> subseq ws called"
proof (induction ws arbitrary: called)
  case (Cons w ws)
  show ?case
  proof (cases "dropWhile (\<lambda>c. c \<noteq> w) called")
    case Nil
    then have "w \<notin> set called" by (auto simp: dropWhile_eq_Nil_conv)
    then have "\<not> subseq (w # ws) called" by (auto dest!: subseq_set)
    then show ?thesis by (simp only: is_subsequence.simps Nil list.case)
  next
    case (Cons c later)
    then have c: "c = w" by (metis (mono_tags) dropWhile_eq_Cons_conv)
    have split: "called = takeWhile (\<lambda>c. c \<noteq> w) called @ w # later" using Cons c by (metis takeWhile_dropWhile_id)
    have none: "w \<notin> set (takeWhile (\<lambda>c. c \<noteq> w) called)" by (auto dest: set_takeWhileD)
    have "subseq (w # ws) (xs @ w # later) \<longleftrightarrow> subseq ws later" if "w \<notin> set xs" for xs
      using that by (induction xs) auto
    then have "subseq (w # ws) called \<longleftrightarrow> subseq ws later" using split none by metis
    then show ?thesis using Cons c Cons.IH by simp
  qed
qed simp

lemma starts_with_split: "starts_with s p \<longleftrightarrow> (\<exists>post. s = p @ post)"
  unfolding starts_with_def by (metis append_eq_conv_conj)

lemma contains_text_iff: "contains_text needle hay \<longleftrightarrow> (\<exists>pre post. hay = pre @ needle @ post)"
proof (induction hay)
  case (Cons c cs)
  have "(\<exists>pre post. c # cs = pre @ needle @ post) \<longleftrightarrow> starts_with (c # cs) needle \<or> (\<exists>pre post. cs = pre @ needle @ post)"
    by (auto simp: starts_with_split Cons_eq_append_conv)
  then show ?case using Cons.IH by simp
qed simp

text \<open>The meaning of a case, without the order in which it is checked.\<close>

definition satisfies :: "texts \<Rightarrow> eval_case \<Rightarrow> trajectory \<Rightarrow> bool" where
  "satisfies tx ec tj \<longleftrightarrow>
     subseq (ec_expect_tools ec) (tool_names tj) \<and> set (tool_names tj) \<inter> set (ec_forbid_tools ec) = {}
     \<and> (\<forall>t. ec_expect_text ec = Some t \<longrightarrow> (\<exists>pre post. lower (final_text tx tj) = pre @ lower t @ post))
     \<and> (ec_expect_no_error ec \<longrightarrow> (\<forall>x \<in> set (tj_tools tj). \<not> to_error x))
     \<and> (\<forall>n. ec_max_tool_calls ec = Some n \<longrightarrow> int (length (tj_tools tj)) \<le> n)
     \<and> (\<forall>check. ec_check ec = Some check \<longrightarrow> check tj \<in> {Inr None, Inr (Some [])})"

lemma check_clear: "(case problem of None \<Rightarrow> [] | Some m \<Rightarrow> if m \<noteq> [] then [CheckFailed m] else []) = [] \<longleftrightarrow> problem \<in> {None, Some []}"
  by (auto split: option.splits)

lemma errors_clear: "failed_tools tj = [] \<longleftrightarrow> (\<forall>x \<in> set (tj_tools tj). \<not> to_error x)"
  by (simp add: failed_tools_def filter_empty_conv)

lemma check_passes:
  "(case check of None \<Rightarrow> Inr ls
    | Some c \<Rightarrow> res_bind (c tj) (\<lambda>problem. Inr (ls @ (case problem of None \<Rightarrow> [] | Some m \<Rightarrow> if m \<noteq> [] then [CheckFailed m] else [])))) = Inr []
   \<longleftrightarrow> ls = [] \<and> (\<forall>c. check = Some c \<longrightarrow> c tj \<in> {Inr None, Inr (Some [])})"
proof (cases check)
  case (Some c)
  then show ?thesis by (cases "c tj") (auto simp: check_clear)
qed simp

lemma if_clear: "(if b then [m] else []) = [] \<longleftrightarrow> \<not> b"
  by simp

theorem verdict_is_meaning: "evaluate tx ec tj = Inr [] \<longleftrightarrow> satisfies tx ec tj"
proof -
  have wanted: "\<not> (ec_expect_tools ec \<noteq> [] \<and> \<not> is_subsequence (ec_expect_tools ec) called) \<longleftrightarrow> subseq (ec_expect_tools ec) called" for called
    by (auto simp: is_subsequence_subseq)
  have forbidden: "\<not> filter (\<lambda>n. n \<in> set (ec_forbid_tools ec)) called \<noteq> [] \<longleftrightarrow> set called \<inter> set (ec_forbid_tools ec) = {}" for called
    by (auto simp: filter_empty_conv)
  have said: "(case ec_expect_text ec of None \<Rightarrow> [] | Some t \<Rightarrow> if \<not> contains_text (lower t) final then [m t] else []) = []
     \<longleftrightarrow> (\<forall>t. ec_expect_text ec = Some t \<longrightarrow> (\<exists>pre post. final = pre @ lower t @ post))" for final and m :: "string \<Rightarrow> failure"
    by (auto simp: contains_text_iff split: option.split)
  have budget: "(case ec_max_tool_calls ec of None \<Rightarrow> [] | Some n \<Rightarrow> if int k > n then [OverBudget k n] else []) = []
     \<longleftrightarrow> (\<forall>n. ec_max_tool_calls ec = Some n \<longrightarrow> int k \<le> n)" for k
    by (auto split: option.split)
  have errors: "\<not> (ec_expect_no_error ec \<and> failed_tools tj \<noteq> []) \<longleftrightarrow> (ec_expect_no_error ec \<longrightarrow> (\<forall>x \<in> set (tj_tools tj). \<not> to_error x))"
    by (simp add: errors_clear)
  show ?thesis
    unfolding evaluate_def Let_def check_passes satisfies_def append_is_Nil_conv if_clear wanted forbidden said budget errors
    by (simp add: tool_names_def)
qed

text \<open>Two checks that do not pass: a tool that was to be called first and was called last, and a check that raises.\<close>

corollary missing_order_fails:
  assumes "\<not> subseq (ec_expect_tools ec) (tool_names tj)"
  shows "evaluate tx ec tj \<noteq> Inr []"
  using assms by (simp add: verdict_is_meaning satisfies_def)

lemma raising_check_raises:
  assumes "ec_check ec = Some check" and "check tj = Inl e"
  shows "evaluate tx ec tj = Inl e"
  using assms by (simp add: evaluate_def Let_def)

section \<open>The report\<close>

lemma report_adds_up: "report_passed rs + report_failed rs = length rs"
  by (simp add: report_passed_def report_failed_def)

lemma report_ok_iff: "report_ok rs \<longleftrightarrow> report_failed rs = 0"
proof -
  have "length rs - length (filter result_passed rs) = length (filter (Not \<circ> result_passed) rs)"
    using sum_length_filter_compl [of result_passed rs] by (simp add: comp_def)
  then show ?thesis by (simp add: report_ok_def report_failed_def report_passed_def filter_empty_conv list_all_iff)
qed

lemma run_case_name: "run_case base src tools c w = Some (Inr r, w1) \<Longrightarrow> er_case r = ec_name (fst c)"
  by (auto simp: run_case_def Let_def map_sum_def split: sum.splits option.splits if_splits)

text \<open>A report has one result per case, in the order of the cases; and a run that is graded as passed did what its
  case asks of it.\<close>

lemma results_follow_cases:
  "run_eval base src tools cs w = Some (Inr rs, w1) \<Longrightarrow> map er_case rs = map (ec_name \<circ> fst) cs"
proof (induction cs arbitrary: w rs)
  case (Cons c cs)
  then show ?case
    by (auto simp: io_bind_def io_return_def run_case_name split: option.splits sum.splits)
qed (simp add: io_return_def)

lemma passed_case_satisfies:
  assumes "run_case base src tools c w = Some (Inr r, w1)" and "result_passed r"
  shows "\<exists>tj. er_trajectory r = Some tj \<and> satisfies (ag_texts base) (fst c) tj"
proof -
  have "\<exists>tj. er_trajectory r = Some tj \<and> evaluate (ag_texts base) (fst c) tj = Inr []"
    using assms by (auto simp: run_case_def Let_def result_passed_def map_sum_def split: sum.splits option.splits if_splits)
  then show ?thesis by (simp add: verdict_is_meaning)
qed

theorem green_report_satisfies:
  "run_eval base src tools cs w = Some (Inr rs, w1) \<Longrightarrow> report_ok rs \<Longrightarrow>
    list_all2 (\<lambda>c r. \<exists>tj. er_trajectory r = Some tj \<and> satisfies (ag_texts base) (fst c) tj) cs rs"
proof (induction cs arbitrary: w rs)
  case (Cons c cs)
  then obtain r w2 where one: "run_case base src tools c w = Some (Inr r, w2)"
    by (auto simp: io_bind_def split: option.splits sum.splits)
  moreover from this Cons.prems(1) obtain rest where rest: "run_eval base src tools cs w2 = Some (Inr rest, w1)" "rs = r # rest"
    by (auto simp: io_bind_def io_return_def split: option.splits sum.splits)
  ultimately show ?case
    using Cons.IH [OF rest(1)] Cons.prems(2) passed_case_satisfies [OF one] by (simp add: report_ok_def)
qed (simp add: io_return_def)

text \<open>A run that raises is a result of its own, and the cases after it still run. A check that raises, or a factory that
  does, leaves \<open>run_eval\<close>: the results of the cases before it are lost.\<close>

lemma raising_run_is_a_result:
  assumes "model_of src = Inr m" and "is_exception e"
    and "record_agent (base\<lparr>ag_model := m, ag_tools := (case snd c of Some ts \<Rightarrow> ts | None \<Rightarrow> tools), ag_max_steps := ec_max_steps (fst c)\<rparr>) []
           (ec_name (fst c)) (ec_users (fst c)) (ec_system (fst c)) w = Some (Inl e, w1)"
  shows "\<exists>r. run_case base src tools c w = Some (Inr r, w1) \<and> er_error r = Some (error_text e) \<and> \<not> result_passed r"
  using assms by (simp add: run_case_def Let_def result_passed_def)

theorem raising_check_loses_report:
  assumes "run_eval base src tools before w = Some (Inr rs, w1)" and "model_of src = Inr m"
    and "record_agent (base\<lparr>ag_model := m, ag_tools := (case snd c of Some ts \<Rightarrow> ts | None \<Rightarrow> tools), ag_max_steps := ec_max_steps (fst c)\<rparr>) []
           (ec_name (fst c)) (ec_users (fst c)) (ec_system (fst c)) w1 = Some (Inr tj, w2)"
    and "ec_check (fst c) = Some check" and "check tj = Inl e"
  shows "run_eval base src tools (before @ c # after) w = Some (Inl e, w2)"
proof -
  have stops: "run_case base src tools c w1 = Some (Inl e, w2)"
    using assms(2-3) by (simp add: run_case_def Let_def raising_check_raises [OF assms(4-5)])
  show ?thesis using assms(1)
  proof (induction before arbitrary: w rs)
    case Nil
    then show ?case using stops by (simp add: io_bind_def io_return_def)
  next
    case (Cons b bs)
    then show ?case by (auto simp: io_bind_def io_return_def split: option.splits sum.splits)
  qed
qed

section \<open>A trajectory and its file\<close>

definition named_by :: "string \<Rightarrow> trajectory \<Rightarrow> pyval" where
  "named_by stem tj = PStr (if tj_name tj = [] then stem else tj_name tj)"

definition loaded_of :: "string \<Rightarrow> pyval \<Rightarrow> trajectory \<Rightarrow> loaded" where
  "loaded_of stem stamp tj =
     \<lparr>ld_name = named_by stem tj, ld_system = opt_str (tj_system tj), ld_service = opt_str (tj_service tj), ld_at = or_else stamp (PFloat 0),
      ld_users = map PStr (tj_users tj), ld_turns = map turn_fields (tj_turns tj), ld_tools = map outcome_fields (tj_tools tj),
      ld_events = map PDict (tj_events tj), ld_approvals = map PDict (tj_approvals tj)\<rparr>"

lemma turn_read: "dataclass_of (map (\<lambda>(k, v). (k, Some v)) turn_defaults) (PDict (turn_fields t)) = Inr (turn_fields t)"
  by (simp add: dataclass_of_def turn_defaults_def turn_fields_def)

lemma outcome_read: "dataclass_of outcome_defaults (PDict (outcome_fields x)) = Inr (outcome_fields x)"
  by (simp add: dataclass_of_def outcome_defaults_def outcome_fields_def)

lemma read_all_map: "(\<And>x. f (g x) = Inr (h x)) \<Longrightarrow> read_all f (map g xs) = Inr (map h xs)"
  by (induction xs) auto

lemma listed_list: "dict_get d k PNone = PList vs \<Longrightarrow> listed d k = Inr vs"
  by (cases vs) (simp_all add: listed_def or_else_def lift_res_def)

lemma dict_fields:
  "dict_get (traj_to_dict stamp tj) ''version'' PNone = PInt 1"
  "dict_get (traj_to_dict stamp tj) ''name'' PNone = PStr (tj_name tj)"
  "dict_get (traj_to_dict stamp tj) ''system'' PNone = opt_str (tj_system tj)"
  "dict_get (traj_to_dict stamp tj) ''service'' PNone = opt_str (tj_service tj)"
  "dict_get (traj_to_dict stamp tj) ''recorded_at'' PNone = stamp"
  by (simp_all add: dict_get_def traj_to_dict_def TRAJECTORY_VERSION_def)

lemma dict_lists:
  "listed (traj_to_dict stamp tj) ''user_turns'' = Inr (map PStr (tj_users tj))"
  "listed (traj_to_dict stamp tj) ''model_turns'' = Inr (map (PDict \<circ> turn_fields) (tj_turns tj))"
  "listed (traj_to_dict stamp tj) ''tools'' = Inr (map (PDict \<circ> outcome_fields) (tj_tools tj))"
  "listed (traj_to_dict stamp tj) ''events'' = Inr (map PDict (tj_events tj))"
  "listed (traj_to_dict stamp tj) ''approvals'' = Inr (map PDict (tj_approvals tj))"
  by (rule listed_list, simp add: dict_get_def traj_to_dict_def)+

lemma dict_read: "traj_from_dict (traj_to_dict stamp tj) = Inr (loaded_of [] stamp tj)"
  by (simp add: traj_from_dict_def dict_fields dict_lists or_else_def [of "PInt 1"] or_else_def [of "PStr _"] int_of_value_def
      TRAJECTORY_VERSION_def read_all_map [where h = turn_fields] read_all_map [where h = outcome_fields] turn_read outcome_read
      loaded_of_def named_by_def)

text \<open>What \<open>save\<close> writes \<open>load\<close> reads back, with the file's stem where the trajectory had no name.\<close>

theorem file_round_trip:
  assumes "\<And>v. loads (dumps v) = Inr v"
  shows "load_text loads stem (save_text dumps stamp tj) = Inr (loaded_of stem stamp tj)"
proof (cases "tj_name tj = []")
  case True
  then show ?thesis by (simp add: load_text_def save_text_def assms lift_res_def dict_read) (simp add: loaded_of_def named_by_def)
next
  case False
  then show ?thesis by (simp add: load_text_def save_text_def assms lift_res_def dict_read) (simp add: loaded_of_def named_by_def)
qed

lemma newer_file_is_refused:
  assumes "dict_get d ''version'' PNone = PInt v" and "v > 1"
  shows "\<exists>m. traj_from_dict d = Inl (value_error m)"
  using assms by (simp add: traj_from_dict_def or_else_def int_of_value_def TRAJECTORY_VERSION_def) blast

text \<open>The calls a replay makes of a turn that was read are those of the turn that was recorded.\<close>

lemma call_read: "loaded_call tx (call_dict c) = Inr c"
  by (cases "tc_arguments c"; cases "tc_id c"; cases "tc_name c")
     (simp_all add: loaded_call_def call_dict_def dict_get_def or_else_def str_of_def)

theorem turn_calls_round_trip: "loaded_calls tx (turn_fields t) = Inr (tn_calls t)"
  by (simp add: loaded_calls_def turn_fields_def dict_get_def lift_res_def read_all_map [where f = "loaded_call tx" and g = call_dict and h = "\<lambda>c. c"] call_read)

section \<open>Checking a recording\<close>

text \<open>No problem is reported exactly when every recorded call names a handler that takes its arguments.\<close>

theorem check_is_exact:
  "check_against_app handlers tj = Inr [] \<longleftrightarrow>
    (\<forall>x \<in> set (tj_tools tj). \<exists>accepts. map_of (rev (map (\<lambda>(p, f). (tool_name p, f)) handlers)) (to_name x) = Some accepts \<and> accepts (to_arguments x) = Inr ())"
proof -
  have "check_outcomes hs xs = Inr [] \<longleftrightarrow>
     (\<forall>x \<in> set xs. \<exists>accepts. map_of (rev hs) (to_name x) = Some accepts \<and> accepts (to_arguments x) = Inr ())" for hs xs
    by (induction xs) (auto simp: res_bind_eq_Inr split: option.splits sum.splits)
  then show ?thesis by (simp add: check_against_app_def)
qed

end
