(* ===== verification/Observe.thy ===== *)
theory Observe
  imports Middleware PyNum
begin

text \<open>
  Metrics and tracing (\<open>observability/metrics.py\<close>, \<open>observability/tracing.py\<close>): the collector, its text
  for Prometheus with a reader of that format, and the middlewares that count and trace requests. Times are
  rationals; \<open>show\<close> is the text of a float.
\<close>

section \<open>The collector\<close>

definition replace_char :: "char \<Rightarrow> string \<Rightarrow> string \<Rightarrow> string" where
  "replace_char c r s = concat (map (\<lambda>x. if x = c then r else [x]) s)"

definition escape_label :: "string \<Rightarrow> string" where
  "escape_label v =
     replace_char (CHR 0x22) [CHR 0x5C, CHR 0x22] (replace_char (CHR 0x0A) [CHR 0x5C, CHR ''n''] (replace_char (CHR 0x5C) [CHR 0x5C, CHR 0x5C] v))"

definition label_text :: "string \<times> string \<Rightarrow> string" where
  "label_text kv = escape_label (fst kv) @ ''='' @ [CHR 0x22] @ escape_label (snd kv) @ [CHR 0x22]"

definition metric_key :: "string \<Rightarrow> (string, string) dict \<Rightarrow> string" where
  "metric_key nm labels = (if labels = [] then nm else nm @ ''{'' @ join '','' (map label_text (sort_key fst labels)) @ ''}'')"

record slot =
  sl_count :: nat
  sl_sum :: rat

record collector =
  mc_counters :: "(string, int) dict"
  mc_histograms :: "(string, slot) dict"

definition new_collector :: collector where
  "new_collector = \<lparr>mc_counters = [], mc_histograms = []\<rparr>"

definition increment :: "string \<Rightarrow> (string, string) dict \<Rightarrow> int \<Rightarrow> collector \<Rightarrow> collector" where
  "increment nm labels v c =
     (let k = metric_key nm labels in c\<lparr>mc_counters := AList.update k (dict_get (mc_counters c) k 0 + v) (mc_counters c)\<rparr>)"

definition observe_value :: "string \<Rightarrow> rat \<Rightarrow> (string, string) dict \<Rightarrow> collector \<Rightarrow> collector" where
  "observe_value nm v labels c =
     (let k = metric_key nm labels; sl = dict_get (mc_histograms c) k \<lparr>sl_count = 0, sl_sum = 0\<rparr>
      in c\<lparr>mc_histograms := AList.update k \<lparr>sl_count = sl_count sl + 1, sl_sum = sl_sum sl + v\<rparr> (mc_histograms c)\<rparr>)"

definition counter_line :: "string \<times> int \<Rightarrow> string" where
  "counter_line kv = ''istos_'' @ fst kv @ '' '' @ show_int (snd kv)"

definition histogram_lines :: "(rat \<Rightarrow> string) \<Rightarrow> string \<times> slot \<Rightarrow> string list" where
  "histogram_lines show ks =
     (if sl_count (snd ks) \<noteq> 0
      then [''istos_'' @ fst ks @ ''_count '' @ show_int (int (sl_count (snd ks))), ''istos_'' @ fst ks @ ''_sum '' @ show (sl_sum (snd ks))]
      else [])"

definition export_prometheus :: "(rat \<Rightarrow> string) \<Rightarrow> collector \<Rightarrow> string" where
  "export_prometheus show c =
     join [CHR 0x0A] (map counter_line (sort_key fst (mc_counters c)) @ concat (map (histogram_lines show) (sort_key fst (mc_histograms c)))) @ [CHR 0x0A]"

definition snapshot :: "collector \<Rightarrow> (string, int) dict \<times> (string, slot) dict" where
  "snapshot c = (mc_counters c, mc_histograms c)"

text \<open>The middleware. The collector is in the world beside the rest; \<open>clock\<close> reads the time there.\<close>

definition on_metrics :: "(collector \<Rightarrow> collector) \<Rightarrow> (collector \<times> 'v) world \<Rightarrow> (collector \<times> 'v) world" where
  "on_metrics f w = w\<lparr>w_user := (f (fst (w_user w)), snd (w_user w))\<rparr>"

definition request_labels :: "request_scope \<Rightarrow> (string, string) dict" where
  "request_labels sc = [(''operation'', s_operation sc), (''prefix'', s_prefix sc)]"

definition prometheus_middleware :: "('v \<Rightarrow> rat) \<Rightarrow> (collector \<times> 'v) middleware" where
  "prometheus_middleware clock sc nxt w =
     (let labels = request_labels sc; start = clock (snd (w_user w));
          r = nxt sc (on_metrics (increment ''requests_total'' labels 1) w);
          w2 = (case fst r of
                  Inr _ \<Rightarrow> on_metrics (increment ''requests_success_total'' labels 1) (snd r)
                | Inl e \<Rightarrow> if is_exception e then on_metrics (increment ''requests_error_total'' labels 1) (snd r) else snd r)
      in (fst r, on_metrics (observe_value ''request_duration_seconds'' (clock (snd (w_user w2)) - start) labels) w2))"

section \<open>Reading the format\<close>

text \<open>A label's value as a reader of the exposition format takes it, from after its opening quote.\<close>

fun read_quoted :: "string \<Rightarrow> (string \<times> string) option" where
  "read_quoted [] = None"
| "read_quoted (c # s) =
     (if c = CHR 0x22 then Some ([], s)
      else if c = CHR 0x0A then None
      else if c = CHR 0x5C then
        (case s of
           [] \<Rightarrow> None
         | d # t \<Rightarrow> map_option (apfst (Cons (if d = CHR ''n'' then CHR 0x0A else d))) (read_quoted t))
      else map_option (apfst (Cons c)) (read_quoted s))"

definition read_label :: "string \<Rightarrow> ((string \<times> string) \<times> string) option" where
  "read_label s =
     (case dropWhile (\<lambda>c. c \<noteq> CHR ''='') s of
        _ # q # r \<Rightarrow> if q = CHR 0x22 then map_option (\<lambda>(v, rest). ((takeWhile (\<lambda>c. c \<noteq> CHR ''='') s, v), rest)) (read_quoted r) else None
      | _ \<Rightarrow> None)"

text \<open>The labels up to the closing brace, at most \<open>n\<close> of them.\<close>

fun read_labels :: "nat \<Rightarrow> string \<Rightarrow> ((string, string) dict \<times> string) option" where
  "read_labels 0 s = None"
| "read_labels (Suc n) s =
     (case read_label s of
        Some (kv, c # r) \<Rightarrow>
          if c = CHR ''}'' then Some ([kv], r)
          else if c = CHR '','' then map_option (apfst (Cons kv)) (read_labels n r) else None
      | _ \<Rightarrow> None)"

definition name_char :: "char \<Rightarrow> bool" where
  "name_char c \<longleftrightarrow> CHR ''a'' \<le> c \<and> c \<le> CHR ''z'' \<or> CHR ''A'' \<le> c \<and> c \<le> CHR ''Z'' \<or> is_digit c \<or> c = CHR ''_'' \<or> c = CHR '':''"

text \<open>A sample: a name, labels in braces, a space and the value.\<close>

definition read_sample :: "string \<Rightarrow> (string \<times> (string, string) dict \<times> string) option" where
  "read_sample s =
     (let nm = takeWhile name_char s
      in case dropWhile name_char s of
           [] \<Rightarrow> None
         | c # r \<Rightarrow>
             if nm = [] then None
             else if c = CHR '' '' then Some (nm, [], r)
             else if c = CHR ''{'' then
               (case read_labels (length r) r of
                  Some (labels, d # v) \<Rightarrow> if d = CHR '' '' then Some (nm, labels, v) else None
                | _ \<Rightarrow> None)
             else None)"

section \<open>Labels read back\<close>

definition escape_char :: "char \<Rightarrow> string" where
  "escape_char c = (if c = CHR 0x5C then [CHR 0x5C, CHR 0x5C] else if c = CHR 0x0A then [CHR 0x5C, CHR ''n'']
     else if c = CHR 0x22 then [CHR 0x5C, CHR 0x22] else [c])"

lemma escape_label_chars: "escape_label v = concat (map escape_char v)"
  by (induction v) (simp_all add: escape_label_def replace_char_def escape_char_def)

lemma read_escaped: "read_quoted (escape_label v @ CHR 0x22 # rest) = Some (v, rest)"
  by (induction v) (simp_all add: escape_label_chars escape_char_def)

lemma escape_label_inj: "escape_label a = escape_label b \<longleftrightarrow> a = b"
  by (metis read_escaped option.inject prod.inject)

lemma escape_name: "list_all name_char k \<Longrightarrow> escape_label k = k"
  by (induction k) (auto simp: escape_label_chars escape_char_def name_char_def is_digit_def)

definition label_name :: "string \<Rightarrow> bool" where
  "label_name k \<longleftrightarrow> list_all name_char k"

lemma name_char_not: "name_char c \<Longrightarrow> c \<noteq> CHR ''='' \<and> c \<noteq> CHR ''{'' \<and> c \<noteq> CHR '' '' \<and> c \<noteq> CHR ''}''"
  by (auto simp: name_char_def is_digit_def)

lemma read_label_text:
  assumes "label_name k"
  shows "read_label (label_text (k, v) @ rest) = Some ((k, v), rest)"
proof -
  have "\<forall>c \<in> set k. c \<noteq> CHR ''=''" using assms name_char_not by (auto simp: label_name_def list_all_iff)
  then show ?thesis using assms by (simp add: read_label_def label_text_def escape_name label_name_def read_escaped)
qed

lemma read_labels_text:
  assumes "labels \<noteq> []" "\<forall>kv \<in> set labels. label_name (fst kv)" "length labels \<le> n"
  shows "read_labels n (join '','' (map label_text labels) @ CHR ''}'' # rest) = Some (labels, rest)"
  using assms
proof (induction labels arbitrary: n)
  case (Cons kv labels)
  then obtain m where n: "n = Suc m" by (cases n) auto
  have lab: "read_label (label_text kv @ r) = Some (kv, r)" for r
    using read_label_text [of "fst kv" "snd kv"] Cons.prems(2) by simp
  show ?case
  proof (cases labels)
    case Nil
    then show ?thesis by (simp add: n lab join_def)
  next
    case (Cons kv2 labels2)
    then show ?thesis using Cons.IH [of m] Cons.prems n lab by (simp add: join_Cons)
  qed
qed simp

lemma labels_fit: "length labels \<le> length (join '','' (map label_text labels))"
proof (induction labels)
  case (Cons kv labels)
  then show ?case by (cases labels) (simp_all add: join_def label_text_def)
qed simp

text \<open>The line of a counter is a sample: its name, its labels as they were given and its value.\<close>

theorem counter_line_reads_back:
  assumes "label_name nm" and "\<forall>kv \<in> set labels. label_name (fst kv)"
  shows "read_sample (counter_line (metric_key nm labels, n)) = Some (''istos_'' @ nm, sort_key fst labels, show_int n)"
proof -
  have istos: "list_all name_char ''istos_''" by (simp add: name_char_def is_digit_def)
  have split: "takeWhile name_char (''istos_'' @ nm @ c # r) = ''istos_'' @ nm \<and> dropWhile name_char (''istos_'' @ nm @ c # r) = c # r"
    if "\<not> name_char c" for c r
    using assms(1) istos that by (simp add: label_name_def list_all_iff takeWhile_append2 dropWhile_append2)
  have delims: "\<not> name_char (CHR '' '')" "\<not> name_char (CHR ''{'')" by (simp_all add: name_char_def is_digit_def)
  show ?thesis
  proof (cases "labels = []")
    case True
    then show ?thesis using split [OF delims(1)] by (simp add: read_sample_def counter_line_def metric_key_def Let_def)
  next
    case False
    let ?ls = "sort_key fst labels"
    let ?r = "join '','' (map label_text ?ls) @ CHR ''}'' # CHR '' '' # show_int n"
    have "?ls \<noteq> []" using False by (metis length_0_conv length_sort)
    then have "read_labels (length ?r) ?r = Some (?ls, CHR '' '' # show_int n)"
      using assms(2) labels_fit [of ?ls] by (intro read_labels_text) auto
    then show ?thesis using False split [OF delims(2), of ?r]
      by (simp add: read_sample_def counter_line_def metric_key_def Let_def)
  qed
qed

text \<open>So two series never share a line.\<close>

corollary metric_key_inj:
  assumes "label_name nm" "\<forall>kv \<in> set labels. label_name (fst kv)" "label_name nm'" "\<forall>kv \<in> set labels'. label_name (fst kv)"
    and "metric_key nm labels = metric_key nm' labels'"
  shows "nm = nm' \<and> sort_key fst labels = sort_key fst labels'"
  using counter_line_reads_back [OF assms(1-2), of 0] counter_line_reads_back [OF assms(3-4), of 0] assms(5) by simp

section \<open>Every request is counted\<close>

text \<open>Requests that were begun and have neither succeeded nor failed.\<close>

definition series :: "string \<Rightarrow> (string, string) dict \<Rightarrow> collector \<Rightarrow> int" where
  "series nm labels c = dict_get (mc_counters c) (metric_key nm labels) 0"

definition pending :: "(string, string) dict \<Rightarrow> collector \<Rightarrow> int" where
  "pending labels c = series ''requests_total'' labels c - series ''requests_success_total'' labels c - series ''requests_error_total'' labels c"

definition plain_labels :: "(string, string) dict \<Rightarrow> bool" where
  "plain_labels labels \<longleftrightarrow> (\<forall>kv \<in> set labels. label_name (fst kv))"

lemma request_labels_plain [simp]: "plain_labels (request_labels sc)"
  by (simp add: plain_labels_def request_labels_def label_name_def name_char_def is_digit_def)

lemma request_names [simp]: "label_name ''requests_total''" "label_name ''requests_success_total''" "label_name ''requests_error_total''"
  by (simp_all add: label_name_def name_char_def is_digit_def)

lemma metric_key_cong: "sort_key fst labels = sort_key fst labels' \<Longrightarrow> metric_key nm labels = metric_key nm labels'"
  by (cases "labels = []"; cases "labels' = []") (auto simp: metric_key_def dest: arg_cong [where f = length])

lemma series_increment:
  assumes "label_name nm" "plain_labels labels" "label_name nm'" "plain_labels labels'"
  shows "series nm labels (increment nm' labels' v c) =
    series nm labels c + (if nm = nm' \<and> sort_key fst labels = sort_key fst labels' then v else 0)"
proof -
  have same: "metric_key nm labels = metric_key nm' labels' \<longleftrightarrow> nm = nm' \<and> sort_key fst labels = sort_key fst labels'"
    using metric_key_inj [of nm labels nm' labels'] metric_key_cong [of labels labels' nm] assms unfolding plain_labels_def by blast
  have "series nm labels (increment nm' labels' v c) = series nm labels c + (if metric_key nm labels = metric_key nm' labels' then v else 0)"
    by (simp add: series_def increment_def Let_def dict_get_def update_conv' del: sort_key_simps)
  then show ?thesis unfolding same .
qed

lemma series_observe [simp]: "series nm' l (observe_value nm v labels c) = series nm' l c"
  by (simp add: series_def observe_value_def Let_def)

lemma on_metrics_user [simp]: "fst (w_user (on_metrics f w)) = f (fst (w_user w))"
  by (simp add: on_metrics_def)

text \<open>However requests nest, the middleware leaves nothing pending but the requests that were cancelled.\<close>

theorem requests_are_settled:
  assumes nested: "\<And>w. pending l (fst (w_user (snd (nxt sc w)))) = pending l (fst (w_user w))" and "plain_labels l"
    and cancelled: "\<And>e. fst (prometheus_middleware clock sc nxt w) = Inl e \<Longrightarrow> is_exception e"
  shows "pending l (fst (w_user (snd (prometheus_middleware clock sc nxt w)))) = pending l (fst (w_user w))"
proof -
  let ?w = "on_metrics (increment ''requests_total'' (request_labels sc) 1) w"
  obtain out w1 where r: "nxt sc ?w = (out, w1)" by force
  have begun: "pending l (fst (w_user w1)) = pending l (increment ''requests_total'' (request_labels sc) 1 (fst (w_user w)))"
    using nested [of ?w] r by simp
  have out: "fst (prometheus_middleware clock sc nxt w) = out" by (simp add: prometheus_middleware_def Let_def r)
  show ?thesis
  proof (cases out)
    case (Inr v)
    then show ?thesis using begun assms(2) by (simp add: prometheus_middleware_def Let_def r pending_def series_increment)
  next
    case (Inl e)
    then have "is_exception e" using cancelled out by simp
    then show ?thesis using Inl begun assms(2) by (simp add: prometheus_middleware_def Let_def r pending_def series_increment)
  qed
qed

lemma prometheus_is_transparent:
  "fst (prometheus_middleware clock sc nxt w) = fst (nxt sc (on_metrics (increment ''requests_total'' (request_labels sc) 1) w))"
  by (simp add: prometheus_middleware_def Let_def)

section \<open>Tracing\<close>

definition clean :: "(string, 'a option) dict \<Rightarrow> (string, 'a) dict" where
  "clean attributes = List.map_filter (\<lambda>(k, v). map_option (Pair k) v) attributes"

text \<open>What OpenTelemetry does: \<open>extract\<close> a parent, enter and leave a span, \<open>inject\<close> the header of the current one.\<close>

record ('p, 'u) tracer =
  tr_extract :: "string \<Rightarrow> 'p"
  tr_enter :: "string \<Rightarrow> 'p option \<Rightarrow> (string, string) dict \<Rightarrow> 'u \<Rightarrow> 'u"
  tr_leave :: "exc option \<Rightarrow> 'u \<Rightarrow> 'u"
  tr_inject :: "'u \<Rightarrow> string option"
  tr_set :: "string \<Rightarrow> string \<Rightarrow> 'u \<Rightarrow> 'u"

definition configure_tracing :: "bool \<Rightarrow> ('p, 'u) tracer \<Rightarrow> ('p, 'u) tracer option \<Rightarrow> bool \<times> ('p, 'u) tracer option" where
  "configure_tracing installed new current = (if installed then (True, Some new) else (False, current))"

text \<open>\<open>with span(name, attributes)\<close>: the body is told whether there is a span.\<close>

definition in_span :: "('p, 'u) tracer option \<Rightarrow> string \<Rightarrow> (string, string option) dict \<Rightarrow> (bool \<Rightarrow> ('u, 'a) act) \<Rightarrow> ('u, 'a) act" where
  "in_span tracer nm attributes body u =
     (case tracer of
        None \<Rightarrow> body False u
      | Some t \<Rightarrow> (let r = body True (tr_enter t nm None (clean attributes) u)
                 in (fst r, tr_leave t (case fst r of Inl e \<Rightarrow> Some e | Inr _ \<Rightarrow> None) (snd r))))"

definition set_span_attributes :: "('p, 'u) tracer \<Rightarrow> bool \<Rightarrow> (string, string option) dict \<Rightarrow> 'u \<Rightarrow> 'u" where
  "set_span_attributes t sp attributes u = (if sp then fold (\<lambda>(k, v). tr_set t k v) (clean attributes) u else u)"

definition set_traceparent :: "string \<Rightarrow> principal request_context \<Rightarrow> principal request_context" where
  "set_traceparent tp c = c\<lparr>rc_traceparent := Some tp\<rparr>"

definition blank_context :: "string \<Rightarrow> principal request_context" where
  "blank_context uuid = \<lparr>rc_correlation_id = uuid, rc_prefix = [], rc_operation = [], rc_principal = None, rc_attachment = None, rc_traceparent = None\<rparr>"

definition tracing_middleware :: "string \<Rightarrow> ('p, 'u) tracer option \<Rightarrow> 'u middleware" where
  "tracing_middleware uuid tracer sc nxt w =
     (case tracer of
        None \<Rightarrow> nxt sc w
      | Some t \<Rightarrow>
          (let parent = (case rc_traceparent (s_context sc) of None \<Rightarrow> None | Some h \<Rightarrow> if h = [] then None else Some (tr_extract t h));
               attributes = [(''istos.prefix'', s_prefix sc), (''istos.operation'', s_operation sc), (''istos.correlation_id'', rc_correlation_id (s_context sc))];
               w1 = w\<lparr>w_user := tr_enter t (''istos.'' @ s_operation sc) parent attributes (w_user w)\<rparr>;
               r = (case tr_inject t (w_user w1) of
                      Some (c # h) \<Rightarrow> nxt (sc\<lparr>s_context := set_traceparent (c # h) (s_context sc)\<rparr>)
                        (w1\<lparr>w_context := Some (set_traceparent (c # h) (case w_context w1 of Some x \<Rightarrow> x | None \<Rightarrow> blank_context uuid))\<rparr>)
                    | _ \<Rightarrow> nxt sc w1)
           in (fst r, (snd r)\<lparr>w_user := tr_leave t (case fst r of Inl e \<Rightarrow> Some e | Inr _ \<Rightarrow> None) (w_user (snd r))\<rparr>)))"

lemma clean_drops_none: "map_of (clean attributes) k = Some v \<Longrightarrow> (k, Some v) \<in> set attributes"
  by (drule map_of_SomeD) (auto simp: clean_def List.map_filter_def split: option.splits)

lemma span_is_transparent:
  assumes "\<And>b u. fst (body b u) = out"
  shows "fst (in_span tracer nm attributes body u) = out"
  using assms by (simp add: in_span_def Let_def split: option.split)

text \<open>The next hop continues the span of this one: what the handler, and any call it makes, carries is the header of the
  span that was entered for the request, whose parent is the header that came in.\<close>

theorem next_hop_continues_span:
  assumes "tr_inject t (tr_enter t (''istos.'' @ s_operation sc) (map_option (tr_extract t) (rc_traceparent (s_context sc)))
      [(''istos.prefix'', s_prefix sc), (''istos.operation'', s_operation sc), (''istos.correlation_id'', rc_correlation_id (s_context sc))] (w_user w)) = Some h"
    and "h \<noteq> []" and "rc_traceparent (s_context sc) \<noteq> Some []"
  shows "\<exists>sc' w'. fst (tracing_middleware uuid (Some t) sc nxt w) = fst (nxt sc' w') \<and> rc_traceparent (s_context sc') = Some h
    \<and> (\<exists>c. w_context w' = Some c \<and> rc_traceparent c = Some h) \<and> s_prefix sc' = s_prefix sc \<and> s_params sc' = s_params sc"
proof -
  obtain c r where h: "h = c # r" using assms(2) by (cases h) auto
  have parent: "(case rc_traceparent (s_context sc) of None \<Rightarrow> None | Some h \<Rightarrow> if h = [] then None else Some (tr_extract t h))
      = map_option (tr_extract t) (rc_traceparent (s_context sc))"
    using assms(3) by (cases "rc_traceparent (s_context sc)") auto
  let ?w1 = "w\<lparr>w_user := tr_enter t (''istos.'' @ s_operation sc) (map_option (tr_extract t) (rc_traceparent (s_context sc)))
      [(''istos.prefix'', s_prefix sc), (''istos.operation'', s_operation sc), (''istos.correlation_id'', rc_correlation_id (s_context sc))] (w_user w)\<rparr>"
  let ?sc = "sc\<lparr>s_context := set_traceparent h (s_context sc)\<rparr>"
  let ?c = "set_traceparent h (case w_context w of Some x \<Rightarrow> x | None \<Rightarrow> blank_context uuid)"
  have "fst (tracing_middleware uuid (Some t) sc nxt w) = fst (nxt ?sc (?w1\<lparr>w_context := Some ?c\<rparr>))"
    unfolding tracing_middleware_def Let_def option.case parent using assms(1) by (simp add: h)
  then show ?thesis by (intro exI [of _ ?sc] exI [of _ "?w1\<lparr>w_context := Some ?c\<rparr>"]) (simp add: set_traceparent_def)
qed

section \<open>Findings\<close>

text \<open>The suffixes of a histogram come after its labels: no reader of the format takes these lines.\<close>

lemma histogram_line_is_malformed:
  assumes "labels \<noteq> []" "label_name nm" "plain_labels labels"
  shows "read_sample (''istos_'' @ metric_key nm labels @ ''_count '' @ v) = None"
proof -
  let ?ls = "sort_key fst labels"
  let ?r = "join '','' (map label_text ?ls) @ CHR ''}'' # ''_count '' @ v"
  have istos: "list_all name_char ''istos_''" by (simp add: name_char_def is_digit_def)
  have brace: "\<not> name_char (CHR ''{'')" by (simp add: name_char_def is_digit_def)
  have split: "takeWhile name_char (''istos_'' @ nm @ CHR ''{'' # r) = ''istos_'' @ nm \<and> dropWhile name_char (''istos_'' @ nm @ CHR ''{'' # r) = CHR ''{'' # r" for r
    using assms(2) istos brace by (simp add: label_name_def list_all_iff takeWhile_append2 dropWhile_append2)
  have "?ls \<noteq> []" using assms(1) by (metis length_0_conv length_sort)
  then have "read_labels (length ?r) ?r = Some (?ls, ''_count '' @ v)"
    using assms(3) labels_fit [of ?ls] by (intro read_labels_text) (auto simp: plain_labels_def)
  then show ?thesis using assms(1) split [of ?r] by (simp add: read_sample_def metric_key_def Let_def)
qed

text \<open>A request that is cancelled is in the total, and in neither of the other two.\<close>

lemma cancelled_request_stays_pending:
  "pending (request_labels sc) (fst (w_user (snd (prometheus_middleware clock sc (\<lambda>_. act_raise cancelled) w))))
    = pending (request_labels sc) (fst (w_user w)) + 1"
  by (simp add: prometheus_middleware_def Let_def act_raise_def cancelled_def is_exception_def pending_def series_increment)

end
