(* ===== verification/Logging.thy ===== *)
theory Logging
  imports Effects PyText
begin

text \<open>
  Logging (\<open>logging.py\<close>): the JSON and the coloured formatter, and who configures the output: the tree of
  loggers as the standard library keeps it, from a logger up to the root.
\<close>

section \<open>Formatters\<close>

text \<open>A record: the attributes that every record has, and those an \<open>extra\<close> added, in one dictionary.\<close>

record log_record =
  lr_level :: string
  lr_name :: string
  lr_message :: string
  lr_attributes :: "(string, pyval) dict"
  lr_exception :: "string option"

definition RESERVED_RECORD_KEYS :: "string list" where
  "RESERVED_RECORD_KEYS =
     [''name'', ''msg'', ''args'', ''levelname'', ''levelno'', ''pathname'', ''filename'', ''module'', ''exc_info'', ''exc_text'',
      ''stack_info'', ''lineno'', ''funcName'', ''created'', ''msecs'', ''relativeCreated'', ''thread'', ''threadName'',
      ''processName'', ''process'', ''taskName'', ''message'', ''asctime'', ''extra_fields'']"

definition set_all :: "(string, pyval) dict \<Rightarrow> (string, pyval) dict \<Rightarrow> (string, pyval) dict" where
  "set_all kvs d = fold (\<lambda>(k, v). AList.update k v) kvs d"

definition is_extra :: "string \<Rightarrow> bool" where
  "is_extra k \<longleftrightarrow> k \<notin> set RESERVED_RECORD_KEYS \<and> \<not> starts_with k ''_''"

definition log_payload :: "string \<Rightarrow> log_record \<Rightarrow> (string, pyval) dict" where
  "log_payload now r =
     (let base = [(''timestamp'', PStr now), (''level'', PStr (lr_level r)), (''logger'', PStr (lr_name r)), (''message'', PStr (lr_message r))];
          p1 = (case dict_get (lr_attributes r) ''extra_fields'' PNone of PDict legacy \<Rightarrow> set_all legacy base | _ \<Rightarrow> base);
          p2 = set_all (filter (\<lambda>(k, _). is_extra k) (lr_attributes r)) p1
      in case lr_exception r of None \<Rightarrow> p2 | Some e \<Rightarrow> AList.update ''exception'' (PStr e) p2)"

definition structured_format :: "(pyval \<Rightarrow> string) \<Rightarrow> string \<Rightarrow> log_record \<Rightarrow> string" where
  "structured_format dumps now r = dumps (PDict (log_payload now r))"

definition LEVEL_COLORS :: "(string, string) dict" where
  "LEVEL_COLORS =
     [(''DEBUG'', CHR 0x1B # ''[36m''), (''INFO'', CHR 0x1B # ''[32m''), (''WARNING'', CHR 0x1B # ''[33m''), (''ERROR'', CHR 0x1B # ''[31m''),
      (''CRITICAL'', CHR 0x1B # ''[1;31m'')]"

definition COLOR_RESET :: string where
  "COLOR_RESET = CHR 0x1B # ''[0m''"

definition padded_to :: "nat \<Rightarrow> string \<Rightarrow> string" where
  "padded_to n s = s @ replicate (n - length s) (CHR '' '')"

definition levelname_colored :: "string \<Rightarrow> string" where
  "levelname_colored lv =
     (let color = dict_get LEVEL_COLORS lv []
      in if color \<noteq> [] then color @ padded_to 8 lv @ COLOR_RESET else padded_to 8 lv)"

section \<open>The tree of loggers\<close>

datatype log_handler = NullHandler | ForeignHandler nat | JsonOutput | ColorOutput | PlainOutput

record logger =
  lg_handlers :: "log_handler list"
  lg_propagate :: bool
  lg_level :: nat

text \<open>The logger in question first, its parents after it.\<close>

fun has_output_handler :: "logger list \<Rightarrow> bool" where
  "has_output_handler [] = False"
| "has_output_handler (n # parents) =
     (if \<exists>h \<in> set (lg_handlers n). h \<noteq> NullHandler then True else if lg_propagate n then has_output_handler parents else False)"

text \<open>\<open>getattr(logging, level.upper(), logging.INFO)\<close> for the names of levels; other names of the module are not levels.\<close>

definition level_number :: "string \<Rightarrow> nat" where
  "level_number level =
     dict_get [(''CRITICAL'', 50), (''FATAL'', 50), (''ERROR'', 40), (''WARNING'', 30), (''WARN'', 30), (''INFO'', 20), (''DEBUG'', 10), (''NOTSET'', 0)]
       (map upper_char level) 20"

definition output_handler :: "bool \<Rightarrow> bool \<Rightarrow> bool option \<Rightarrow> log_handler" where
  "output_handler json_format tty color =
     (if json_format then JsonOutput else if (case color of None \<Rightarrow> tty | Some c \<Rightarrow> c) then ColorOutput else PlainOutput)"

definition configure_logger :: "string \<Rightarrow> bool \<Rightarrow> bool \<Rightarrow> bool option \<Rightarrow> logger \<Rightarrow> logger" where
  "configure_logger level json_format tty color n =
     n\<lparr>lg_level := level_number level, lg_handlers := filter (\<lambda>h. h = NullHandler) (lg_handlers n) @ [output_handler json_format tty color],
       lg_propagate := False\<rparr>"

fun configure_logging :: "string \<Rightarrow> bool \<Rightarrow> bool \<Rightarrow> bool option \<Rightarrow> logger list \<Rightarrow> logger list" where
  "configure_logging level json_format tty color [] = []"
| "configure_logging level json_format tty color (n # parents) = configure_logger level json_format tty color n # parents"

definition ensure_configured :: "string \<Rightarrow> bool \<Rightarrow> bool \<Rightarrow> logger list \<Rightarrow> logger list" where
  "ensure_configured level json_format tty ns =
     (if \<not> has_output_handler ns then configure_logging level json_format tty None ns else ns)"

definition logger_name :: "string option \<Rightarrow> string" where
  "logger_name nm = (case nm of None \<Rightarrow> ''istos'' | Some x \<Rightarrow> ''istos.'' @ x)"

section \<open>Who prints\<close>

text \<open>The handlers that a record logged at the first logger reaches.\<close>

fun reached :: "logger list \<Rightarrow> log_handler list" where
  "reached [] = []"
| "reached (n # parents) = filter (\<lambda>h. h \<noteq> NullHandler) (lg_handlers n) @ (if lg_propagate n then reached parents else [])"

lemma has_output_reached: "has_output_handler ns \<longleftrightarrow> reached ns \<noteq> []"
  by (induction ns) (auto simp: filter_empty_conv)

lemma output_is_real: "output_handler j t c \<noteq> NullHandler"
  by (simp add: output_handler_def)

text \<open>After \<open>ensure_configured\<close> a record is printed: once if it was not printed before, and as it was if it was.\<close>

theorem ensure_prints:
  assumes "ns \<noteq> []"
  shows "reached (ensure_configured level json_format tty ns) =
    (if reached ns = [] then [output_handler json_format tty None] else reached ns)"
proof (cases ns)
  case (Cons n parents)
  have "filter (\<lambda>h. h \<noteq> NullHandler) (filter (\<lambda>h. h = NullHandler) hs) = []" for hs
    by (simp add: filter_empty_conv)
  then show ?thesis using Cons output_is_real
    by (simp add: ensure_configured_def has_output_reached configure_logger_def)
qed (use assms in simp)

lemma ensure_is_idempotent:
  "ensure_configured l1 j1 t1 (ensure_configured l2 j2 t2 ns) = ensure_configured l2 j2 t2 ns"
proof (cases ns)
  case (Cons n parents)
  then have "reached (ensure_configured l2 j2 t2 ns) \<noteq> []" by (simp add: ensure_prints)
  then show ?thesis by (simp add: ensure_configured_def [of l1] has_output_reached)
qed (simp add: ensure_configured_def)

text \<open>Configuring again replaces the output of the last time: nothing is printed twice.\<close>

lemma configure_replaces:
  "ns \<noteq> [] \<Longrightarrow> reached (configure_logging l1 j1 t1 c1 (configure_logging l2 j2 t2 c2 ns)) = [output_handler j1 t1 c1]"
  using output_is_real by (cases ns) (simp_all add: configure_logger_def filter_empty_conv)

lemma parents_are_untouched: "tl (ensure_configured level json_format tty ns) = tl ns"
  by (cases ns) (simp_all add: ensure_configured_def)

lemma get_set_all: "map_of (set_all kvs d) k = (case map_of (rev kvs) k of Some v \<Rightarrow> Some v | None \<Rightarrow> map_of d k)"
  by (induction kvs arbitrary: d) (auto simp: set_all_def update_conv' map_add_def split: option.splits)

text \<open>A field that a caller adds is in the line under its own name.\<close>

lemma extra_is_shown:
  assumes "is_extra k" "(k, v) \<in> set (lr_attributes r)" "distinct (map fst (lr_attributes r))" "k \<noteq> ''exception''"
  shows "map_of (log_payload now r) k = Some v"
proof -
  let ?ex = "filter (\<lambda>(k, _). is_extra k) (lr_attributes r)"
  have "distinct (map fst ?ex)" using assms(3) by (simp add: distinct_map_filter)
  moreover have "(k, v) \<in> set ?ex" using assms(1,2) by auto
  ultimately have "map_of (rev ?ex) k = Some v" by (metis map_of_eq_Some_iff distinct_rev rev_map set_rev)
  then show ?thesis using assms(4) by (simp add: log_payload_def Let_def get_set_all update_conv' split: option.split)
qed

text \<open>Without extras the line has the four fields and the exception.\<close>

lemma plain_record:
  assumes "\<forall>kv \<in> set (lr_attributes r). \<not> is_extra (fst kv)" "dict_get (lr_attributes r) ''extra_fields'' PNone = PNone" "lr_exception r = None"
  shows "log_payload now r = [(''timestamp'', PStr now), (''level'', PStr (lr_level r)), (''logger'', PStr (lr_name r)), (''message'', PStr (lr_message r))]"
proof -
  have "filter (\<lambda>(k, _). is_extra k) (lr_attributes r) = []" using assms(1) by (auto simp: filter_empty_conv)
  then show ?thesis using assms(2,3) by (simp add: log_payload_def Let_def set_all_def)
qed

section \<open>Findings\<close>

text \<open>\<open>level\<close>, \<open>logger\<close> and \<open>timestamp\<close> are not reserved: an extra of that name replaces the field of the record.\<close>

lemma extra_replaces_level:
  assumes "(''level'', v) \<in> set (lr_attributes r)" "distinct (map fst (lr_attributes r))"
  shows "map_of (log_payload now r) ''level'' = Some v"
  by (rule extra_is_shown) (use assms in \<open>simp_all add: is_extra_def RESERVED_RECORD_KEYS_def starts_with_def\<close>)

end
