(* ===== verification/Serializers.thy ===== *)
theory Serializers
  imports QueueClient
begin

text \<open>
  The serializers of \<open>messages/serialization.py\<close>. The codecs they call are arguments; what a serializer has to promise
  is a locale, which the wrapper in Base64 hands on.
\<close>

section \<open>The serializers\<close>

type_synonym 'a encoder = "'a \<Rightarrow> exc + bytes"
type_synonym 'a decoder = "bytes \<Rightarrow> exc + 'a"

definition unicode_error :: exc where
  "unicode_error = builtin_exc [''UnicodeDecodeError'', ''UnicodeError'', ''ValueError''] ''invalid start byte''"

definition utf8_text :: "bytes \<Rightarrow> exc + string" where
  "utf8_text b = (case decode_utf8 b of None \<Rightarrow> Inl unicode_error | Some s \<Rightarrow> Inr s)"

text \<open>\<open>dumps\<close> raises for what \<open>default=str\<close> cannot help with: a cycle, a key that is no string or number.\<close>

definition json_serialize :: "('a \<Rightarrow> exc + string) \<Rightarrow> 'a encoder" where
  "json_serialize dumps v = res_bind (dumps v) (\<lambda>s. Inr (encode_utf8 s))"

definition json_deserialize :: "(string \<Rightarrow> exc + 'a) \<Rightarrow> 'a decoder" where
  "json_deserialize loads b = res_bind (utf8_text b) loads"

datatype payload = AsBytes bytes | AsView bytes | AsText string | AsOther string

definition raw_serialize :: "payload encoder" where
  "raw_serialize m =
     (case m of
        AsBytes b \<Rightarrow> Inr b
      | AsView b \<Rightarrow> Inr b
      | AsText s \<Rightarrow> Inr (encode_utf8 s)
      | AsOther tn \<Rightarrow> Inl (type_error (''RawSerializer expects bytes or str, got '' @ tn)))"

definition raw_deserialize :: "payload decoder" where
  "raw_deserialize b = Inr (AsBytes b)"

definition msgpack_serialize :: "('a \<Rightarrow> bool \<Rightarrow> exc + bytes) \<Rightarrow> 'a encoder" where
  "msgpack_serialize packb v = packb v True"

definition msgpack_deserialize :: "(bytes \<Rightarrow> bool \<Rightarrow> exc + 'a) \<Rightarrow> 'a decoder" where
  "msgpack_deserialize unpackb b = unpackb b False"

text \<open>A message of Protocol Buffers parses into a new object of its type.\<close>

definition protobuf_serialize :: "('m \<Rightarrow> exc + bytes) \<Rightarrow> 'm encoder" where
  "protobuf_serialize to_string m = to_string m"

definition protobuf_deserialize :: "(unit \<Rightarrow> 'm) \<Rightarrow> (bytes \<Rightarrow> 'm \<Rightarrow> (exc + unit) \<times> 'm) \<Rightarrow> 'm decoder" where
  "protobuf_deserialize message_type parse b =
     (case parse b (message_type ()) of (Inl e, _) \<Rightarrow> Inl e | (Inr _, m) \<Rightarrow> Inr m)"

definition pydantic_serialize :: "('m \<Rightarrow> exc + string) \<Rightarrow> 'm encoder" where
  "pydantic_serialize dump_json m = res_bind (dump_json m) (\<lambda>s. Inr (encode_utf8 s))"

definition pydantic_deserialize :: "(string \<Rightarrow> exc + 'm) \<Rightarrow> 'm decoder" where
  "pydantic_deserialize validate_json b = res_bind (utf8_text b) validate_json"

definition yaml_serialize :: "('a \<Rightarrow> exc + string) \<Rightarrow> 'a encoder" where
  "yaml_serialize dump v = res_bind (dump v) (\<lambda>s. Inr (encode_utf8 s))"

definition yaml_deserialize :: "(string \<Rightarrow> exc + 'a) \<Rightarrow> 'a decoder" where
  "yaml_deserialize safe_load b = res_bind (utf8_text b) safe_load"

definition base64_serialize :: "'a encoder \<Rightarrow> 'a encoder" where
  "base64_serialize inner v = res_bind (inner v) (\<lambda>b. Inr (encode_utf8 (b64encode b)))"

definition base64_deserialize :: "'a decoder \<Rightarrow> 'a decoder" where
  "base64_deserialize inner b = res_bind (lift_res (b64decode (map (\<lambda>x. char_of (unat x)) b))) inner"

section \<open>What a serializer promises\<close>

locale lossless =
  fixes enc :: "'a encoder" and dec :: "'a decoder" and fit :: "'a \<Rightarrow> bool"
  assumes encodes: "fit v \<Longrightarrow> \<exists>b. enc v = Inr b"
    and decodes: "fit v \<Longrightarrow> enc v = Inr b \<Longrightarrow> dec b = Inr v"
begin

lemma round_trip: "fit v \<Longrightarrow> res_bind (enc v) dec = Inr v"
  using encodes decodes by fastforce

lemma distinguishes: "fit v \<Longrightarrow> fit w \<Longrightarrow> enc v = enc w \<Longrightarrow> v = w"
  using encodes decodes by (metis sum.inject(2))

end

lemma char_bytes: "map (\<lambda>x. char_of (unat (x :: 8 word))) (encode_utf8 s) = s"
proof (induction s)
  case (Cons c s)
  have "of_char c < (256 :: nat)" by (rule nat_of_char_less_256)
  then have "unat (of_nat (of_char c) :: 8 word) = of_char c" by (simp add: unat_of_nat)
  then show ?case using Cons by (simp add: encode_utf8_def)
qed (simp add: encode_utf8_def)

lemma base64_lossless: "lossless enc dec fit \<Longrightarrow> lossless (base64_serialize enc) (base64_deserialize dec) fit"
  unfolding lossless_def by (auto simp: base64_serialize_def base64_deserialize_def res_bind_eq_Inr char_bytes lift_res_def)

text \<open>A serializer of text: JSON, YAML and the models of Pydantic are one.\<close>

definition plain_text :: "string \<Rightarrow> bool" where
  "plain_text s \<longleftrightarrow> utf8_valid (map of_char s)"

lemma utf8_text_encode: "plain_text s \<Longrightarrow> utf8_text (encode_utf8 s) = Inr s"
proof -
  have "map unat (encode_utf8 s) = map of_char s"
  proof (induction s)
    case (Cons c s)
    have "of_char c < (256 :: nat)" by (rule nat_of_char_less_256)
    then have "unat (of_nat (of_char c) :: 8 word) = of_char c" by (simp add: unat_of_nat)
    then show ?case using Cons by (simp add: encode_utf8_def)
  qed (simp add: encode_utf8_def)
  then show "plain_text s \<Longrightarrow> utf8_text (encode_utf8 s) = Inr s"
    using char_bytes [of s] by (simp add: utf8_text_def decode_utf8_def plain_text_def)
qed

lemma text_lossless:
  assumes "\<And>v. fit v \<Longrightarrow> \<exists>s. dumps v = Inr s \<and> plain_text s \<and> loads s = Inr v"
  shows "lossless (json_serialize dumps) (json_deserialize loads) fit"
    "lossless (yaml_serialize dumps) (yaml_deserialize loads) fit"
    "lossless (pydantic_serialize dumps) (pydantic_deserialize loads) fit"
  using assms
  by (unfold_locales; fastforce simp: json_serialize_def json_deserialize_def yaml_serialize_def yaml_deserialize_def pydantic_serialize_def
      pydantic_deserialize_def res_bind_eq_Inr utf8_text_encode)+

interpretation raw: lossless raw_serialize raw_deserialize "\<lambda>m. \<exists>b. m = AsBytes b"
  by unfold_locales (auto simp: raw_serialize_def raw_deserialize_def)

interpretation raw64: lossless "base64_serialize raw_serialize" "base64_deserialize raw_deserialize" "\<lambda>m. \<exists>b. m = AsBytes b"
  by (rule base64_lossless) (rule raw.lossless_axioms)

text \<open>Bytes travel through Base64 as text that any transport of text takes, and come back as they were.\<close>

lemma base64_carries_bytes: "res_bind (base64_serialize raw_serialize (AsBytes b)) (base64_deserialize raw_deserialize) = Inr (AsBytes b)"
  by (rule raw64.round_trip) simp

text \<open>What is not bytes comes back as bytes.\<close>

lemma raw_forgets_text: "res_bind (raw_serialize (AsText s)) raw_deserialize = Inr (AsBytes (encode_utf8 s))"
  by (simp add: raw_serialize_def raw_deserialize_def)

lemma protobuf_parses_into_new:
  "protobuf_deserialize message_type parse b = Inr m \<Longrightarrow> \<exists>u. parse b (message_type ()) = (u, m)"
  by (auto simp: protobuf_deserialize_def split: prod.splits sum.splits)

end
