(* ===== verification/TestClient.thy ===== *)
theory TestClient
  imports Stream ChannelClient Subscribe
begin

text \<open>
  The in-process test client (\<open>testing/testclient.py\<close>) over the wrappers of an application, and the accessors of
  the request context (\<open>di/context.py\<close>). An authorizer of the model reads texts: \<open>shown\<close> are those it takes the
  validated values for.
\<close>

section \<open>The context accessors\<close>

definition current_request :: "string \<Rightarrow> ('u world, principal request_context) act" where
  "current_request uuid w =
     (case w_context w of
        Some c \<Rightarrow> (Inr c, w)
      | None \<Rightarrow> (Inr (default_context uuid), w\<lparr>w_context := Some (default_context uuid)\<rparr>))"

definition current_principal :: "string \<Rightarrow> ('u world, principal option) act" where
  "current_principal uuid = act_bind (current_request uuid) (\<lambda>c. act_return (rc_principal c))"

definition current_token :: "(string \<Rightarrow> pyval res) \<Rightarrow> string \<Rightarrow> ('u world, pyval) act" where
  "current_token loads uuid = act_bind (current_request uuid) (\<lambda>c. act_return (context_token loads c))"

section \<open>Finding a wrapper\<close>

record 'u test_app =
  ta_handlers :: "'u handler list"
  ta_streams :: "'u streamer list"
  ta_subscribers :: "'u subscriber list"
  ta_channels :: "'u channel list"

definition missing :: "string \<Rightarrow> string \<Rightarrow> exc" where
  "missing kind prefix = key_error (''No '' @ kind @ '' registered for prefix: '' @ prefix)"

definition find_handler :: "'u test_app \<Rightarrow> string \<Rightarrow> exc + 'u handler" where
  "find_handler app prefix =
     (case find (\<lambda>h. h_prefix h = prefix) (ta_handlers app) of None \<Rightarrow> Inl (missing ''handler'' prefix) | Some h \<Rightarrow> Inr h)"

definition find_stream :: "'u test_app \<Rightarrow> string \<Rightarrow> exc + 'u streamer" where
  "find_stream app prefix =
     (case find (\<lambda>s. sm_prefix s = prefix) (ta_streams app) of None \<Rightarrow> Inl (missing ''stream'' prefix) | Some s \<Rightarrow> Inr s)"

definition find_subscribers :: "'u test_app \<Rightarrow> string \<Rightarrow> 'u subscriber list" where
  "find_subscribers app prefix = filter (\<lambda>s. sb_prefix s = prefix) (ta_subscribers app)"

definition find_channel :: "'u test_app \<Rightarrow> string \<Rightarrow> exc + 'u channel" where
  "find_channel app prefix =
     (case find (\<lambda>c. cw_prefix c = prefix) (ta_channels app) of None \<Rightarrow> Inl (missing ''channel'' prefix) | Some c \<Rightarrow> Inr c)"

section \<open>The gate\<close>

definition token_attachment :: "(pyval \<Rightarrow> string) \<Rightarrow> string option \<Rightarrow> bytes option" where
  "token_attachment dumps token =
     (case token of None \<Rightarrow> None | Some t \<Rightarrow> to_attachment dumps (empty_envelope\<lparr>env_token := PStr t\<rparr>))"

definition as_principal :: "identity option \<Rightarrow> principal option" where
  "as_principal who = map_option (\<lambda>i. ObjPrincipal (PStr (p_id i))) who"

definition test_context :: "'u surroundings \<Rightarrow> string \<Rightarrow> string \<Rightarrow> bytes option \<Rightarrow> identity option \<Rightarrow> principal request_context" where
  "test_context u prefix operation att who =
     (default_context (u_uuid u))\<lparr>rc_prefix := prefix, rc_operation := operation, rc_principal := as_principal who, rc_attachment := att\<rparr>"

definition gate_auth :: "authorizer option \<Rightarrow> string \<Rightarrow> (string, string) dict \<Rightarrow> string \<Rightarrow> bytes option \<Rightarrow> exc + identity option" where
  "gate_auth auth prefix params operation att =
     fst (check_authorized auth \<lparr>a_prefix = prefix, a_key_expr = prefix, a_params = params, a_attachment = att,
       a_operation = operation, a_principal = None\<rparr>)"

text \<open>\<open>_gate\<close>, then the body, \<open>finally\<close> the context that was there before. The operation is not given: it is the default of
  either class.\<close>

definition gated :: "'u surroundings \<Rightarrow> authorizer option \<Rightarrow> string \<Rightarrow> (string, string) dict \<Rightarrow> bytes option
    \<Rightarrow> ('u world \<Rightarrow> ((exc + 'a) \<times> 'u world) option) \<Rightarrow> 'u world \<Rightarrow> ((exc + 'a) \<times> 'u world) option" where
  "gated u auth prefix params att body w =
     (case gate_auth auth prefix params ''handle'' att of
        Inl e \<Rightarrow> Some (Inl e, w)
      | Inr who \<Rightarrow>
          map_option (\<lambda>(out, w'). (out, w'\<lparr>w_context := w_context w\<rparr>)) (body (w\<lparr>w_context := Some (test_context u prefix [] att who)\<rparr>)))"

section \<open>Calls\<close>

type_synonym shown = "(string, pyval) dict \<Rightarrow> (string, string) dict"

definition test_query :: "'u test_app \<Rightarrow> 'u surroundings \<Rightarrow> shown \<Rightarrow> 't pydantic option \<Rightarrow> ('u handler \<Rightarrow> (string \<Rightarrow> 't option) option)
    \<Rightarrow> string \<Rightarrow> string option \<Rightarrow> (string, pyval) dict \<Rightarrow> 'u world \<Rightarrow> ((exc + pyval) \<times> 'u world) option" where
  "test_query app u shown py hints prefix token kwargs w =
     (case find_handler app prefix of
        Inl e \<Rightarrow> Some (Inl e, w)
      | Inr h \<Rightarrow>
          (case validate_params py (hints h) (h_sig h) kwargs (injected_params (h_sig h)) of
             Inl e \<Rightarrow> Some (Inl e, w)
           | Inr vp \<Rightarrow>
               (let validated = AList.delete ''session'' (AList.delete ''db'' vp)
                in gated u (h_authorizer h) prefix (shown validated) (token_attachment (u_dumps u) token) (handler_call h u [] validated) w)))"

text \<open>A stream read to its end: its chunks and the exception it ended with.\<close>

primrec collect :: "'w generator \<Rightarrow> 'w \<Rightarrow> (pyval list \<times> exc option) \<times> 'w" where
  "collect Finish = (\<lambda>w. (([], None), w))"
| "collect (Fail e) = (\<lambda>w. (([], Some e), w))"
| "collect (Yield v next close) =
     (\<lambda>w. case (map_prod collect id \<circ> next) w of (rest, w1) \<Rightarrow> (case rest w1 of ((vs, end_), w2) \<Rightarrow> ((v # vs, end_), w2)))"

definition chunks_outcome :: "pyval list \<times> exc option \<Rightarrow> exc + pyval" where
  "chunks_outcome r = (case snd r of None \<Rightarrow> Inr PNone | Some e \<Rightarrow> Inl e)"

text \<open>The exit stack closes around the generator; what it raises replaces the end of the stream.\<close>

definition drive_stream :: "'u streamer \<Rightarrow> 'u surroundings \<Rightarrow> (string, pyval) dict \<Rightarrow> 'u world
    \<Rightarrow> ((exc + pyval list \<times> exc option) \<times> 'u world) option" where
  "drive_stream s u validated w =
     (let read = (\<lambda>kw w. case sm_func s kw w of (g, w1) \<Rightarrow> collect g w1)
      in if depends_params (sm_sig s) \<noteq> {}
         then Option.bind
           (resolve_params (u_callables u) (sm_overrides s) validated [] {} (sm_sig s) [] \<lparr>d_stack = [], d_cache = [], d_world = w\<rparr>)
           (\<lambda>(r, st). Some
              (case r of
                 Inl e \<Rightarrow> (case close_stack (u_callables u) (d_stack st) (Inl e) (d_world st) of
                            (out, w') \<Rightarrow> (Inr ([], (case out of Inl e' \<Rightarrow> Some e' | Inr _ \<Rightarrow> None)), w'))
               | Inr kw \<Rightarrow>
                   (case read kw (d_world st) of
                      (r, w1) \<Rightarrow> (case close_stack (u_callables u) (d_stack st) (chunks_outcome r) w1 of
                         (out, w') \<Rightarrow> (Inr (fst r, (case out of Inl e' \<Rightarrow> Some e' | Inr _ \<Rightarrow> None)), w')))))
         else Some (apfst Inr (read validated w)))"

definition test_stream :: "'u test_app \<Rightarrow> 'u surroundings \<Rightarrow> shown \<Rightarrow> 't pydantic option \<Rightarrow> ('u streamer \<Rightarrow> (string \<Rightarrow> 't option) option)
    \<Rightarrow> string \<Rightarrow> string option \<Rightarrow> (string, pyval) dict \<Rightarrow> 'u world \<Rightarrow> ((exc + pyval list \<times> exc option) \<times> 'u world) option" where
  "test_stream app u shown py hints prefix token kwargs w =
     (case find_stream app prefix of
        Inl e \<Rightarrow> Some (Inl e, w)
      | Inr s \<Rightarrow>
          (case validate_params py (hints s) (sm_sig s) kwargs (injected_params (sm_sig s)) of
             Inl e \<Rightarrow> Some (Inl e, w)
           | Inr vp \<Rightarrow>
               (let validated = AList.delete ''db'' vp
                in gated u (sm_authorizer s) prefix (shown validated) (token_attachment (u_dumps u) token) (drive_stream s u validated) w)))"

fun authorize_all :: "'u subscriber list \<Rightarrow> string \<Rightarrow> bytes option \<Rightarrow> exc + identity option list" where
  "authorize_all [] prefix att = Inr []"
| "authorize_all (sb # sbs) prefix att =
     res_bind (sample_auth sb prefix att) (\<lambda>who. res_bind (authorize_all sbs prefix att) (\<lambda>rest. Inr (who # rest)))"

fun deliver_all :: "'u surroundings \<Rightarrow> bytes option \<Rightarrow> pyval \<Rightarrow> ('u subscriber \<times> identity option) list \<Rightarrow> ('u world, unit) act" where
  "deliver_all u att data [] = act_return ()"
| "deliver_all u att data (sw # sws) =
     act_bind (with_context (test_context u (sb_prefix (fst sw)) ''subscribe'' att (snd sw)) (call_subscriber (fst sw) [data] []))
       (\<lambda>_. deliver_all u att data sws)"

definition test_publish :: "'u test_app \<Rightarrow> 'u surroundings \<Rightarrow> string \<Rightarrow> pyval \<Rightarrow> string option \<Rightarrow> ('u world, unit) act" where
  "test_publish app u prefix data token =
     (let subs = find_subscribers app prefix; att = token_attachment (u_dumps u) token
      in if subs = [] then act_raise (missing ''subscribers'' prefix)
         else (case authorize_all subs prefix att of
                 Inl e \<Rightarrow> act_raise e
               | Inr whos \<Rightarrow> deliver_all u att data (zip subs whos)))"

section \<open>The caller's end of a channel\<close>

text \<open>What the handler put into the queue, \<open>Done\<close> after its last message; the outcome of its task once it has one.\<close>

datatype outbound = Raw bytes | Done

record test_channel =
  tc_outbound :: "outbound list"
  tc_session :: "session option"
  tc_attachment :: "bytes option"
  tc_conversation :: "string option"
  tc_task :: "(exc + unit) option"

definition open_test_channel :: "(pyval \<Rightarrow> string) \<Rightarrow> string option \<Rightarrow> string option \<Rightarrow> test_channel" where
  "open_test_channel dumps token conversation_id =
     \<lparr>tc_outbound = [], tc_session = None, tc_attachment = token_attachment dumps token, tc_conversation = conversation_id, tc_task = None\<rparr>"

definition test_conversation_id :: "test_channel \<Rightarrow> string option" where
  "test_conversation_id tc = (case tc_session tc of Some s \<Rightarrow> cs_conversation_id s | None \<Rightarrow> tc_conversation tc)"

definition enter_test_channel :: "'u channel \<Rightarrow> (string, string) dict \<Rightarrow> test_channel \<Rightarrow> exc + identity option \<times> test_channel" where
  "enter_test_channel c params tc =
     res_bind (channel_authorize c (tc_attachment tc) params) (\<lambda>who.
       Inr (who, tc\<lparr>tc_session := Some (new_session None (tc_attachment tc) (cw_durable c) (tc_conversation tc))\<rparr>))"

text \<open>What the task does: the sink of its session, and its end.\<close>

definition handler_sends :: "bytes \<Rightarrow> test_channel \<Rightarrow> test_channel" where
  "handler_sends raw tc = tc\<lparr>tc_outbound := tc_outbound tc @ [Raw raw]\<rparr>"

definition handler_ends :: "exc + unit \<Rightarrow> test_channel \<Rightarrow> test_channel" where
  "handler_ends out tc = tc\<lparr>tc_outbound := tc_outbound tc @ [Done], tc_task := Some out\<rparr>"

definition test_send :: "(pyval \<Rightarrow> exc + bytes) \<Rightarrow> pyval \<Rightarrow> test_channel \<Rightarrow> (exc + unit) \<times> test_channel" where
  "test_send serialize data tc =
     (case tc_session tc of
        None \<Rightarrow> (Inl (builtin_exc [''AssertionError''] ''use `async with client.channel(...)`''), tc)
      | Some s \<Rightarrow> (case serialize data of
          Inl e \<Rightarrow> (Inl e, tc)
        | Inr raw \<Rightarrow> (Inr (), tc\<lparr>tc_session := Some (feed raw s)\<rparr>)))"

text \<open>\<open>None\<close> while the queue is empty.\<close>

definition test_receive :: "(bytes \<Rightarrow> exc + pyval) \<Rightarrow> test_channel \<Rightarrow> ((exc + pyval) \<times> test_channel) option" where
  "test_receive deserialize tc =
     (case tc_outbound tc of
        [] \<Rightarrow> None
      | Done # q \<Rightarrow> Some (Inl (case tc_task tc of Some (Inl e) \<Rightarrow> e | _ \<Rightarrow> channel_closed []), tc\<lparr>tc_outbound := q @ [Done]\<rparr>)
      | Raw raw # q \<Rightarrow> Some (deserialize raw, tc\<lparr>tc_outbound := q\<rparr>))"

definition test_next :: "(bytes \<Rightarrow> exc + pyval) \<Rightarrow> test_channel \<Rightarrow> ((exc + pyval) \<times> test_channel) option" where
  "test_next deserialize tc =
     map_option (\<lambda>(out, r). (case out of
         Inl e \<Rightarrow> if ''ChannelClosed'' \<in> set (x_mro e) then Inl (builtin_exc [''StopAsyncIteration''] []) else Inl e
       | Inr v \<Rightarrow> Inr v, r)) (test_receive deserialize tc)"

definition leave_test_channel :: "test_channel \<Rightarrow> test_channel" where
  "leave_test_channel tc = tc\<lparr>tc_session := map_option close_session (tc_session tc)\<rparr>"

section \<open>The gate keeps its promises\<close>

lemma found_handler: "find_handler app prefix = Inr h \<Longrightarrow> h \<in> set (ta_handlers app) \<and> h_prefix h = prefix"
  by (auto simp: find_handler_def find_Some_iff in_set_conv_nth split: option.splits)

text \<open>The context of a call does not outlive it, however it ends; and whom the authorizer refuses has no effect.\<close>

lemma gated_restores:
  "gated u auth prefix params att body w = Some (out, w') \<Longrightarrow> w_context w' = w_context w"
  by (auto simp: gated_def split: sum.splits)

lemma test_query_restores:
  "test_query app u shown py hints prefix token kwargs w = Some (out, w') \<Longrightarrow> w_context w' = w_context w"
  by (auto simp: test_query_def Let_def gated_restores split: sum.splits)

lemma test_stream_restores:
  "test_stream app u shown py hints prefix token kwargs w = Some (out, w') \<Longrightarrow> w_context w' = w_context w"
  by (auto simp: test_stream_def Let_def gated_restores split: sum.splits)

lemma denied_query_has_no_effect:
  assumes "find_handler app prefix = Inr h" "validate_params py (hints h) (h_sig h) kwargs (injected_params (h_sig h)) = Inr vp"
    and "\<And>params. gate_auth (h_authorizer h) prefix params ''handle'' (token_attachment (u_dumps u) token) = Inl e"
  shows "test_query app u shown py hints prefix token kwargs w = Some (Inl e, w)"
  using assms by (simp add: test_query_def Let_def gated_def)

lemma authorize_all_denied: "sb \<in> set sbs \<Longrightarrow> sample_auth sb prefix att = Inl e \<Longrightarrow> \<exists>e'. authorize_all sbs prefix att = Inl e'"
proof (induction sbs)
  case (Cons x sbs)
  then show ?case by (cases "sample_auth x prefix att"; cases "authorize_all sbs prefix att") auto
qed simp

lemma authorize_all_length: "authorize_all sbs prefix att = Inr whos \<Longrightarrow> length whos = length sbs"
  by (induction sbs arbitrary: whos) (auto simp: res_bind_eq_Inr)

text \<open>One subscriber that refuses keeps the sample from all of them.\<close>

theorem denied_publish_delivers_nothing:
  assumes "sb \<in> set (find_subscribers app prefix)" "sample_auth sb prefix (token_attachment (u_dumps u) token) = Inl e"
  shows "\<exists>e'. test_publish app u prefix data token w = (Inl e', w)"
  using authorize_all_denied [OF assms] assms(1) by (auto simp: test_publish_def Let_def act_raise_def)

lemma with_context_keeps: "w_context (snd (with_context c m w)) = w_context w"
  by (rule with_context_restores)

lemma publish_restores: "w_context (snd (deliver_all u att data sws w)) = w_context w"
proof (induction sws arbitrary: w)
  case (Cons sw sws)
  let ?one = "with_context (test_context u (sb_prefix (fst sw)) ''subscribe'' att (snd sw)) (call_subscriber (fst sw) [data] [])"
  have "w_context (snd (?one w)) = w_context w" by (rule with_context_restores)
  then show ?case using Cons.IH by (auto simp: act_bind_def split: prod.splits sum.splits)
qed (simp add: act_return_def)

section \<open>A test sees what the mesh would answer\<close>

text \<open>User code that does not look at the operation of its context, which the test client leaves empty.\<close>

definition ignores_operation :: "'u handler \<Rightarrow> 'u surroundings \<Rightarrow> bool" where
  "ignores_operation h u \<longleftrightarrow> (\<forall>kw w c op. map_option fst (handler_call h u [] kw (w\<lparr>w_context := Some (c\<lparr>rc_operation := op\<rparr>)\<rparr>))
     = map_option fst (handler_call h u [] kw (w\<lparr>w_context := Some c\<rparr>)))"

definition bare_token :: "'u surroundings \<Rightarrow> bytes option \<Rightarrow> bool" where
  "bare_token u att \<longleftrightarrow> env_correlation_id (from_attachment (u_loads u) att) = PNone \<and> env_traceparent (from_attachment (u_loads u) att) = PNone"

lemma delete_absent: "map_of al k = None \<Longrightarrow> AList.delete k al = al"
  by (simp add: map_of_eq_None_iff delete_id)

theorem mesh_answers_as_test:
  assumes found: "find_handler app prefix = Inr h" and "ignores_operation h u"
    and att: "att = token_attachment (u_dumps u) token" "bare_token u att"
    and q: "q = \<lparr>nq_key = prefix, nq_params = texts, nq_attachment = att\<rparr>"
    and valid: "validate_params py (hints h) (h_sig h) kwargs (injected_params (h_sig h)) = Inr vp"
      "validate_params py (hints h) (h_sig h) (map (\<lambda>(k, v). (k, PStr v)) (net_params q)) (injected_params (h_sig h)) = Inr vp"
    and names: "map_of vp ''session'' = None" "map_of vp ''self'' = None"
    and auth: "gate_auth (h_authorizer h) prefix (shown (AList.delete ''db'' vp)) ''handle'' att = net_auth h q"
  shows "map_option fst (on_query h u py (hints h) q w) =
    map_option (answer h prefix (u_uuid u) \<circ> fst) (test_query app u shown py hints prefix token kwargs w)"
proof -
  let ?kw = "AList.delete ''db'' vp"
  have prefix: "h_prefix h = prefix" using found_handler [OF found] by simp
  have kw: "AList.delete ''session'' ?kw = ?kw" "map_of ?kw ''self'' = None"
    using names by (simp_all add: delete_absent delete_conv')
  have cid: "rc_correlation_id (net_context h u q) = u_uuid u"
    using att(2) by (simp add: net_context_def ingress_context_def Let_def q bare_token_def sanitize_correlation_id_def)
  show ?thesis
  proof (cases "net_auth h q")
    case (Inl e)
    then show ?thesis using found valid auth kw cid q att(1)
      by (simp add: on_query_def test_query_def Let_def gated_def answer_def)
  next
    case (Inr who)
    have ctx: "(net_context h u q)\<lparr>rc_principal := as_principal who\<rparr> = (test_context u prefix [] att who)\<lparr>rc_operation := ''handle''\<rparr>"
      using att(2) by (simp add: net_context_def ingress_context_def Let_def q bare_token_def sanitize_correlation_id_def sanitize_traceparent_def
          test_context_def default_context_def prefix)
    have same: "map_option fst (handler_call h u [] ?kw (w\<lparr>w_context := Some ((net_context h u q)\<lparr>rc_principal := as_principal who\<rparr>)\<rparr>))
        = map_option fst (handler_call h u [] ?kw (w\<lparr>w_context := Some (test_context u prefix [] att who)\<rparr>))"
      using assms(2) unfolding ctx ignores_operation_def by blast
    have mesh: "map_option fst (on_query h u py (hints h) q w) = map_option (answer h prefix (u_uuid u) \<circ> fst)
        (handler_call h u [] ?kw (w\<lparr>w_context := Some ((net_context h u q)\<lparr>rc_principal := as_principal who\<rparr>)\<rparr>))"
      using Inr valid(2) kw cid by (simp add: on_query_def Let_def as_principal_def q option.map_comp comp_def case_prod_beta)
    have test: "map_option fst (test_query app u shown py hints prefix token kwargs w) =
        map_option fst (handler_call h u [] ?kw (w\<lparr>w_context := Some (test_context u prefix [] att who)\<rparr>))"
      using Inr found valid(1) auth kw(1) att(1) by (simp add: test_query_def Let_def gated_def option.map_comp comp_def case_prod_beta)
    show ?thesis using mesh test same by (metis option.map_comp)
  qed
qed

section \<open>The channel of a test\<close>

fun read_all_messages :: "(bytes \<Rightarrow> exc + pyval) \<Rightarrow> nat \<Rightarrow> test_channel \<Rightarrow> (exc + pyval) list" where
  "read_all_messages deserialize 0 tc = []"
| "read_all_messages deserialize (Suc n) tc =
     (case test_receive deserialize tc of None \<Rightarrow> [] | Some (out, tc') \<Rightarrow> out # read_all_messages deserialize n tc')"

definition ended_with :: "test_channel \<Rightarrow> exc" where
  "ended_with tc = (case tc_task tc of Some (Inl e) \<Rightarrow> e | _ \<Rightarrow> channel_closed [])"

lemma receive_after_end:
  "tc_outbound tc = [Done] \<Longrightarrow> read_all_messages deserialize n tc = replicate n (Inl (ended_with tc))"
proof (induction n)
  case (Suc n)
  have "tc\<lparr>tc_outbound := [Done]\<rparr> = tc" using Suc.prems by (cases tc) simp
  moreover have "test_receive deserialize tc = Some (Inl (ended_with tc), tc\<lparr>tc_outbound := [Done]\<rparr>)"
    using Suc.prems by (simp add: test_receive_def ended_with_def)
  ultimately have "test_receive deserialize tc = Some (Inl (ended_with tc), tc)" by (simp only:)
  then show ?case using Suc by simp
qed simp

text \<open>Of a handler that sent these messages and ended, the caller receives each in order and then, however often it asks,
  the exception that ended it, or that the channel is closed.\<close>

theorem test_channel_delivers:
  assumes "tc_outbound tc = map Raw raws @ [Done]"
  shows "read_all_messages deserialize (length raws + n) tc = map deserialize raws @ replicate n (Inl (ended_with tc))"
  using assms
proof (induction raws arbitrary: tc)
  case Nil
  then show ?case using receive_after_end by simp
next
  case (Cons raw raws)
  let ?tc = "tc\<lparr>tc_outbound := map Raw raws @ [Done]\<rparr>"
  have "test_receive deserialize tc = Some (deserialize raw, ?tc)" using Cons.prems by (simp add: test_receive_def)
  moreover have "ended_with ?tc = ended_with tc" by (simp add: ended_with_def)
  ultimately show ?case using Cons.IH [of ?tc] by simp
qed

lemma handler_history:
  "tc_outbound (handler_ends out (fold handler_sends raws tc)) = tc_outbound tc @ map Raw raws @ [Done]
   \<and> tc_task (handler_ends out (fold handler_sends raws tc)) = Some out"
proof -
  have "tc_outbound (fold handler_sends raws tc) = tc_outbound tc @ map Raw raws" for tc
    by (induction raws arbitrary: tc) (simp_all add: handler_sends_def)
  then show ?thesis by (simp add: handler_ends_def)
qed

lemma leaving_wakes_handler:
  "tc_session tc = Some s \<Longrightarrow> \<not> cs_closed s \<Longrightarrow> tc_session (leave_test_channel tc) = Some (s\<lparr>cs_closed := True, cs_inbound := cs_inbound s @ [CloseMark]\<rparr>)"
  by (simp add: leave_test_channel_def close_session_def)

section \<open>Findings\<close>

text \<open>A handler with a parameter called \<open>session\<close> does not get it from the test client; on the mesh it does.\<close>

lemma session_argument_is_dropped:
  assumes "find_handler app prefix = Inr h" "h_authorizer h = None" "token = None"
    and "validate_params py (hints h) (h_sig h) kwargs (injected_params (h_sig h)) = Inr [(''session'', v)]"
  shows "map_option fst (test_query app u shown py hints prefix token kwargs w)
     = map_option fst (handler_call h u [] [] (w\<lparr>w_context := Some (test_context u prefix [] None None)\<rparr>))"
  using assms by (simp add: test_query_def Let_def gated_def gate_auth_def check_authorized_def token_attachment_def option.map_comp comp_def case_prod_beta)

text \<open>The authorizer of a stream is told of a call of a handler; one that decides by the operation decides otherwise than on
  the mesh.\<close>

definition streams_only :: authorizer where
  "streams_only a = (Inr (if a_operation a = ''stream'' then Allowed else auth_result.Denied), a)"

lemma stream_gate_sees_handle:
  assumes "sm_authorizer s = Some streams_only"
  shows "stream_auth s q = Inr None" "\<exists>e. gate_auth (sm_authorizer s) prefix params ''handle'' att = Inl e"
  using assms by (simp_all add: stream_auth_def gate_auth_def check_authorized_def streams_only_def)

text \<open>The database of a stream is taken out of its arguments and not put back.\<close>

lemma stream_misses_db:
  assumes "depends_params (sm_sig s) = {}"
  shows "\<exists>kw g w1. map_of kw ''db'' = None \<and> sm_func s kw w = (g, w1)
    \<and> drive_stream s u (AList.delete ''db'' vp) w = Some (apfst Inr (collect g w1))"
proof -
  obtain g w1 where "sm_func s (AList.delete ''db'' vp) w = (g, w1)" by force
  then show ?thesis using assms by (intro exI [of _ "AList.delete ''db'' vp"] exI [of _ g] exI [of _ w1]) (simp add: drive_stream_def Let_def delete_conv')
qed

text \<open>In a test \<open>current_principal\<close> is the identity that the authorizer of the handler resolved.\<close>

lemma test_principal_is_resolved:
  "fst (current_principal uuid (w\<lparr>w_context := Some (test_context u prefix op att (Some i))\<rparr>)) = Inr (Some (ObjPrincipal (PStr (p_id i))))"
  by (simp add: current_principal_def current_request_def act_bind_def act_return_def test_context_def as_principal_def)

end
