(* ===== verification/Cli.thy ===== *)
theory Cli
  imports Fitness Evals
begin

text \<open>
  The command line (\<open>cli.py\<close>) after its arguments are parsed: what each command reports and the status it exits with.
  What is printed is a list of lines; files, modules and the replay of a trajectory are arguments.
\<close>

section \<open>Outcomes\<close>

datatype exit = Exited nat | Escaped exc

text \<open>\<open>istos new\<close>: the files of a new project.\<close>

definition newline :: string where "newline = [CHR 0x0A]"
definition quote3 :: string where "quote3 = replicate 3 (CHR 0x22)"
definition quoted :: "string \<Rightarrow> string" where "quoted s = CHR 0x22 # s @ [CHR 0x22]"

definition main_py :: "string \<Rightarrow> string" where
  "main_py nm = join newline
     [quote3 @ ''Istos service: '' @ nm @ quote3, [], ''from istos import Istos'', [], ''istos = Istos()'', [], [],
      ''@istos.handle('' @ quoted ''service/status'' @ '')'', ''async def status() -> dict:'',
      ''    return {'' @ quoted ''service'' @ '': '' @ quoted nm @ '', '' @ quoted ''status'' @ '': '' @ quoted ''ok'' @ ''}'', [], [],
      ''if __name__ == '' @ quoted ''__main__'' @ '':'', ''    istos.run()'', []]"

definition test_main_py :: "string \<Rightarrow> string" where
  "test_main_py nm = join newline
     [''import pytest'', ''from istos.testing import IstosTestClient'', ''from main import istos'', [], [], ''@pytest.mark.asyncio'',
      ''async def test_status():'', ''    client = IstosTestClient(istos)'', ''    result = await client.query('' @ quoted ''service/status'' @ '')'',
      ''    assert result['' @ quoted ''service'' @ ''] == '' @ quoted nm, ''    assert result['' @ quoted ''status'' @ ''] == '' @ quoted ''ok'', []]"

definition cmd_new :: "(string \<Rightarrow> bool) \<Rightarrow> string \<Rightarrow> (string, string) dict \<times> exit" where
  "cmd_new exists nm =
     (if exists nm then ([], Exited 1)
      else ([(nm @ ''/main.py'', main_py nm), (nm @ ''/test_main.py'', test_main_py nm)], Exited 0))"

section \<open>The architecture gate\<close>

datatype gate_failure = TooFar "string list" | HasCycles nat

definition gate_failures :: "rat option \<Rightarrow> bool \<Rightarrow> report \<Rightarrow> gate_failure list" where
  "gate_failures max_distance no_cycles r =
     (case max_distance of None \<Rightarrow> []
      | Some d \<Rightarrow> (let over = map cm_name (filter (\<lambda>c. sequence_distance c > d) (rp_components r)) in if over \<noteq> [] then [TooFar over] else []))
     @ (if no_cycles \<and> rp_cycles r \<noteq> [] then [HasCycles (length (rp_cycles r))] else [])"

definition cmd_analyze :: "exc + report \<Rightarrow> rat option \<Rightarrow> bool \<Rightarrow> gate_failure list \<times> exit" where
  "cmd_analyze analyzed max_distance no_cycles =
     (case analyzed of
        Inl e \<Rightarrow> ([], if ''ValueError'' \<in> set (x_mro e) then Exited 1 else Escaped e)
      | Inr r \<Rightarrow> (let failed = gate_failures max_distance no_cycles r in (failed, Exited (if failed \<noteq> [] then 1 else 0))))"

section \<open>Replaying recordings\<close>

text \<open>A module is its attributes; an attribute may be \<open>None\<close>.\<close>

definition load_app :: "(string \<Rightarrow> exc + (string \<Rightarrow> 'a option option)) \<Rightarrow> string \<Rightarrow> exc + 'a option" where
  "load_app import_module spec =
     (case split_once (CHR '':'') spec of (module_name, attr) \<Rightarrow>
        res_bind (import_module module_name) (\<lambda>m.
          if attr \<noteq> [] then (case m attr of None \<Rightarrow> Inl (attribute_error attr) | Some v \<Rightarrow> Inr v)
          else (case List.map_filter (\<lambda>c. Option.bind (m c) id) [''istos'', ''app''] of
                  found # _ \<Rightarrow> Inr (Some found)
                | [] \<Rightarrow> Inl (value_error (module_name @ '' has no 'istos' or 'app' attribute'')))))"

datatype eval_line = Passed string nat | Failed string "string list" | BadFile string string

definition readable_error :: "exc \<Rightarrow> bool" where
  "readable_error e \<longleftrightarrow> ''ValueError'' \<in> set (x_mro e) \<or> ''OSError'' \<in> set (x_mro e)"

text \<open>\<open>against\<close> is the check against the application, if there is one; \<open>replayed\<close> the differences of the replay.\<close>

record 't evaluator =
  ev_load :: "string \<Rightarrow> exc + 't"
  ev_against :: "('t \<Rightarrow> exc + string list) option"
  ev_replay :: "'t \<Rightarrow> exc + string list"
  ev_name :: "'t \<Rightarrow> string"
  ev_calls :: "'t \<Rightarrow> nat"

definition problems_of :: "'t evaluator \<Rightarrow> 't \<Rightarrow> exc + string list" where
  "problems_of ev tj =
     res_bind (case ev_against ev of None \<Rightarrow> Inr [] | Some f \<Rightarrow> f tj) (\<lambda>ps. res_bind (ev_replay ev tj) (\<lambda>ds. Inr (ps @ ds)))"

text \<open>The lines printed and the number of files that failed.\<close>

fun eval_files :: "'t evaluator \<Rightarrow> string list \<Rightarrow> eval_line list \<times> (exc + nat)" where
  "eval_files ev [] = ([], Inr 0)"
| "eval_files ev (p # ps) =
     (case ev_load ev p of
        Inl e \<Rightarrow> if readable_error e then map_prod (Cons (BadFile p (x_str e))) (map_sum id Suc) (eval_files ev ps) else ([], Inl e)
      | Inr tj \<Rightarrow>
          (case problems_of ev tj of
             Inl e \<Rightarrow> ([], Inl e)
           | Inr problems \<Rightarrow>
               if problems \<noteq> [] then map_prod (Cons (Failed (ev_name ev tj) problems)) (map_sum id Suc) (eval_files ev ps)
               else apfst (Cons (Passed (ev_name ev tj) (ev_calls ev tj))) (eval_files ev ps)))"

datatype eval_root = Directory "string list" | SingleFile string | NoSuchPath

definition cmd_eval :: "'t evaluator \<Rightarrow> eval_root \<Rightarrow> eval_line list \<times> exit" where
  "cmd_eval ev place =
     (let files = (case place of Directory fs \<Rightarrow> sort fs | SingleFile f \<Rightarrow> [f] | NoSuchPath \<Rightarrow> [])
      in if files = [] then ([], Exited 1)
         else (case eval_files ev files of
                 (ls, Inl e) \<Rightarrow> (ls, Escaped e)
               | (ls, Inr failed) \<Rightarrow> (ls, Exited (if failed \<noteq> 0 then 1 else 0))))"

section \<open>What the statuses mean\<close>

text \<open>The gate of \<open>analyze\<close> is passed exactly by reports within the limit and, where asked, without a cycle.\<close>

theorem analyze_gate_is_exact:
  "snd (cmd_analyze (Inr r) max_distance no_cycles) = Exited 0 \<longleftrightarrow>
    (\<forall>d. max_distance = Some d \<longrightarrow> (\<forall>c \<in> set (rp_components r). sequence_distance c \<le> d)) \<and> (no_cycles \<longrightarrow> rp_cycles r = [])"
  by (cases max_distance) (auto simp: cmd_analyze_def gate_failures_def Let_def filter_empty_conv not_less)

definition reproduces :: "'t evaluator \<Rightarrow> string \<Rightarrow> bool" where
  "reproduces ev p \<longleftrightarrow> (\<exists>tj. ev_load ev p = Inr tj \<and> problems_of ev tj = Inr [])"

definition is_pass :: "eval_line \<Rightarrow> bool" where
  "is_pass l \<longleftrightarrow> (case l of Passed _ _ \<Rightarrow> True | _ \<Rightarrow> False)"

lemma eval_files_tally:
  "eval_files ev ps = (ls, Inr failed) \<Longrightarrow> length ls = length ps \<and> failed = length (filter (Not \<circ> is_pass) ls)
    \<and> list_all2 (\<lambda>p l. is_pass l = reproduces ev p) ps ls"
proof (induction ps arbitrary: ls failed)
  case (Cons p ps)
  obtain ls1 r1 where rest: "eval_files ev ps = (ls1, r1)" by force
  show ?case using Cons rest
    by (cases r1) (auto simp: is_pass_def reproduces_def split: sum.splits if_splits)
qed simp

text \<open>\<open>eval\<close> exits with 0 exactly when there are files, and every one loads and is reproduced without a problem.\<close>

theorem eval_is_green:
  assumes "paths = (case place of Directory fs \<Rightarrow> sort fs | SingleFile f \<Rightarrow> [f] | NoSuchPath \<Rightarrow> [])"
    and "\<not> (\<exists>e. snd (eval_files ev paths) = Inl e)"
  shows "snd (cmd_eval ev place) = Exited 0 \<longleftrightarrow> paths \<noteq> [] \<and> (\<forall>p \<in> set paths. reproduces ev p)"
proof -
  obtain ls failed where r: "eval_files ev paths = (ls, Inr failed)" using assms(2) by (cases "eval_files ev paths"; cases "snd (eval_files ev paths)") auto
  have tally: "length ls = length paths" "failed = length (filter (Not \<circ> is_pass) ls)" "list_all2 (\<lambda>p l. is_pass l = reproduces ev p) paths ls"
    using eval_files_tally [OF r] by auto
  have "failed = 0 \<longleftrightarrow> (\<forall>l \<in> set ls. is_pass l)" by (simp add: tally(2) filter_empty_conv)
  also have "\<dots> \<longleftrightarrow> (\<forall>p \<in> set paths. reproduces ev p)"
    using tally(1,3) by (simp add: list_all2_conv_all_nth all_set_conv_all_nth)
  finally have "failed = 0 \<longleftrightarrow> (\<forall>p \<in> set paths. reproduces ev p)" .
  then show ?thesis using r by (auto simp: cmd_eval_def Let_def simp flip: assms(1))
qed

lemma new_keeps_what_exists: "exists nm \<Longrightarrow> cmd_new exists nm = ([], Exited 1)"
  by (simp add: cmd_new_def)

lemma default_app:
  assumes "CHR '':'' \<notin> set m" "import_module m = Inr attrs" "attrs ''istos'' = Some (Some x)"
  shows "load_app import_module m = Inr (Some x)"
proof -
  have tw: "takeWhile (\<lambda>c. c \<noteq> CHR '':'') m = m" and dw: "dropWhile (\<lambda>c. c \<noteq> CHR '':'') m = []"
    using assms(1) by (auto simp: takeWhile_eq_all_conv dropWhile_eq_Nil_conv)
  have "split_once (CHR '':'') m = (m, [])" unfolding split_once_def tw dw by simp
  then show ?thesis using assms(2,3) by (simp add: load_app_def List.map_filter_simps)
qed

section \<open>Findings\<close>

text \<open>A file that holds JSON but no object ends the command: the exception is none of those a bad file is reported for.\<close>

lemma list_file_ends_eval:
  assumes "ev_load ev p = load_text loads nm s" "loads s = Inr (PList vs)"
  shows "\<exists>e. cmd_eval ev (SingleFile p) = ([], Escaped e) \<and> ''AttributeError'' \<in> set (x_mro e)"
  using assms
  by (simp add: cmd_eval_def Let_def load_text_def lift_res_def readable_error_def attribute_error_def builtin_exc_def)

text \<open>So does a problem with one recording that is raised and not reported: the files after it are not looked at.\<close>

lemma raising_replay_ends_eval:
  assumes "ev_load ev p = Inr tj" "problems_of ev tj = Inl e"
  shows "eval_files ev (p # ps) = ([], Inl e)"
  using assms by simp

end
