(* ===== verification/Surface.thy ===== *)
theory Surface
  imports Registration Web Persist
begin

text \<open>
  The table of routes of the embedded HTTP server and the documentation endpoint (\<open>app/web.py\<close>), and how a
  persistence role is built from a URL, bound and unbound (\<open>communication/persist.py\<close>).
\<close>

section \<open>Documentation\<close>

record docs_state =
  dc_app :: application
  dc_web_port :: "int option"
  dc_prefix :: "string option"

definition on_app :: "'a registering \<Rightarrow> (docs_state, 'a) act" where
  "on_app m d = (case m (dc_app d) of (out, a) \<Rightarrow> (out, d\<lparr>dc_app := a\<rparr>))"

definition docs_fn :: user_fn where
  "docs_fn = \<lparr>fn_name = ''_serve_docs'', fn_takes_self = False, fn_async_gen = False, fn_coroutine = False\<rparr>"

definition docs_warning :: "string \<Rightarrow> handler_authorizer \<Rightarrow> unit registering" where
  "docs_warning p auth a =
     (if auth = NoGuard \<and> an_authorizer a = None
      then (Inr (), a\<lparr>rs_warned := rs_warned a @ [''Docs endpoint '' @ p @ '' has no authorizer'']\<rparr>) else (Inr (), a))"

definition serve_docs :: "string \<Rightarrow> int option \<Rightarrow> handler_authorizer \<Rightarrow> (docs_state, unit) act" where
  "serve_docs p web_port auth =
     act_bind (on_app (docs_warning p auth)) (\<lambda>_.
     act_bind (on_app (app_handle p (plain_args auth) docs_fn)) (\<lambda>_ d.
       (Inr (), if web_port \<noteq> None then d\<lparr>dc_web_port := web_port, dc_prefix := Some p\<rparr> else d)))"

section \<open>The routes of the server\<close>

datatype route_target = Livez | Readyz | Metrics | GatewayRoute http_route | SseRoute http_route | ChannelSocket nat | McpEndpoint | DocsPage | DocsSchema

type_synonym route_entry = "string \<times> string \<times> route_target"

definition probe_routes :: "route_entry list" where
  "probe_routes = [(''GET'', ''/livez'', Livez), (''GET'', ''/healthz'', Livez), (''GET'', ''/readyz'', Readyz), (''GET'', ''/metrics'', Metrics)]"

definition surface_routes :: "docs_state \<Rightarrow> string option \<Rightarrow> route_entry list" where
  "surface_routes d mcp_path =
     probe_routes
     @ map (\<lambda>r. (hr_method r, hr_path r, if hr_sse r then SseRoute r else GatewayRoute r)) (rs_http_routes (dc_app d))
     @ map (\<lambda>(path, i). (''GET'', path, ChannelSocket i)) (rs_ws_routes (dc_app d))
     @ (case mcp_path of None \<Rightarrow> [] | Some p \<Rightarrow> [(''POST'', p, McpEndpoint)])
     @ (if dc_prefix d \<noteq> None then [(''GET'', ''/'', DocsPage), (''GET'', ''/asyncapi.yaml'', DocsSchema)] else [])"

text \<open>The server looks routes up in the order they were added.\<close>

definition served_by_route :: "route_entry list \<Rightarrow> string \<Rightarrow> string \<Rightarrow> route_target option" where
  "served_by_route rs method path = map_option (snd \<circ> snd) (find (\<lambda>r. fst r = method \<and> fst (snd r) = path) rs)"

text \<open>Where \<open>serving()\<close> starts it, if at all, and with what.\<close>

definition http_surface :: "docs_state \<Rightarrow> string option \<Rightarrow> (int \<times> route_entry list) option" where
  "http_surface d mcp_path = map_option (\<lambda>port. (port, surface_routes d mcp_path)) (http_server_port (an_http_port (dc_app d)) (dc_web_port d))"

section \<open>Stores from URLs\<close>

record parsed_url =
  ur_scheme :: string
  ur_netloc :: string
  ur_path :: string
  ur_query :: "(string, string list) dict"

record s3_options =
  so_bucket :: string
  so_prefix :: string
  so_endpoint :: "string option"
  so_region :: "string option"

definition pick :: "(string, string list) dict \<Rightarrow> string list \<Rightarrow> string option" where
  "pick q names = (case List.map_filter (\<lambda>n. case map_of q n of Some (v # _) \<Rightarrow> Some v | _ \<Rightarrow> None) names of v # _ \<Rightarrow> Some v | [] \<Rightarrow> None)"

definition given_or :: "'a option \<Rightarrow> 'a option \<Rightarrow> 'a option" where
  "given_or given dflt = (case given of Some x \<Rightarrow> Some x | None \<Rightarrow> dflt)"

text \<open>The keyword arguments \<open>endpoint_url\<close> and \<open>region_name\<close> win over the query.\<close>

definition s3_from_url :: "parsed_url \<Rightarrow> string option \<Rightarrow> string option \<Rightarrow> exc + s3_options" where
  "s3_from_url u endpoint region =
     (if ur_netloc u = [] then Inl (value_error ''S3 store URL is missing a bucket'')
      else Inr \<lparr>so_bucket = ur_netloc u, so_prefix = rstrip_char (CHR ''/'') (lstrip_char (CHR ''/'') (lstrip_char (CHR ''/'') (ur_path u))),
                so_endpoint = given_or endpoint (pick (ur_query u) [''endpoint'', ''endpoint_url'']),
                so_region = given_or region (pick (ur_query u) [''region'', ''region_name''])\<rparr>)"

datatype store_choice = S3Store s3_options | MemoryStore

definition parse_store_url :: "(string \<Rightarrow> parsed_url) \<Rightarrow> string \<Rightarrow> exc + store_choice" where
  "parse_store_url urlparse url =
     (let u = urlparse url
      in if ur_scheme u = ''s3'' then map_sum id S3Store (s3_from_url u None None)
         else if ur_scheme u = ''memory'' \<or> ur_scheme u = [] then Inr MemoryStore
         else Inl (value_error (''Unsupported persistence URL scheme in '' @ url)))"

section \<open>Binding a role\<close>

text \<open>The handles of a role; \<open>declare\<close> is Zenoh's, a handle is how to undeclare it.\<close>

record 'w role_handles =
  ro_subscriber :: "('w, unit) act option"
  ro_queryable :: "('w, unit) act option"

definition unbound :: "'w role_handles" where
  "unbound = \<lparr>ro_subscriber = None, ro_queryable = None\<rparr>"

definition bind_persist :: "('w, ('w, unit) act) act \<Rightarrow> ('w, ('w, unit) act) act \<Rightarrow> 'w role_handles \<Rightarrow> 'w
    \<Rightarrow> (exc + unit) \<times> 'w role_handles \<times> 'w" where
  "bind_persist declare_subscriber declare_queryable r w =
     (case declare_subscriber w of
        (Inl e, w1) \<Rightarrow> (Inl e, r, w1)
      | (Inr s, w1) \<Rightarrow>
          (case declare_queryable w1 of
             (Inl e, w2) \<Rightarrow> (Inl e, r\<lparr>ro_subscriber := Some s\<rparr>, w2)
           | (Inr q, w2) \<Rightarrow> (Inr (), r\<lparr>ro_subscriber := Some s, ro_queryable := Some q\<rparr>, w2)))"

definition release :: "('w, unit) act option \<Rightarrow> ('w, unit) act" where
  "release h = (case h of None \<Rightarrow> act_return () | Some f \<Rightarrow> swallow f)"

definition unbind_persist :: "'w role_handles \<Rightarrow> 'w \<Rightarrow> (exc + unit) \<times> 'w role_handles \<times> 'w" where
  "unbind_persist r w =
     (case act_bind (release (ro_subscriber r)) (\<lambda>_. release (ro_queryable r)) w of
        (Inl e, w1) \<Rightarrow> (Inl e, r, w1)
      | (Inr _, w1) \<Rightarrow> (Inr (), unbound, w1))"

definition aclose_persist :: "('w, unit) act \<Rightarrow> 'w role_handles \<Rightarrow> 'w \<Rightarrow> (exc + unit) \<times> 'w role_handles \<times> 'w" where
  "aclose_persist close_store r w =
     (case unbind_persist r w of
        (Inl e, r1, w1) \<Rightarrow> (Inl e, r1, w1)
      | (Inr _, r1, w1) \<Rightarrow> (case close_store w1 of (out, w2) \<Rightarrow> (out, r1, w2)))"

text \<open>A sample or a query that arrives is scheduled on the loop, unless that is closed.\<close>

definition when_open :: "bool \<Rightarrow> ('w, unit) act \<Rightarrow> ('w, unit) act" where
  "when_open loop_closed m = (if loop_closed then act_return () else m)"

section \<open>What is served\<close>

text \<open>The probes and the metrics answer whatever routes the application has.\<close>

lemma probes_come_first:
  "served_by_route (surface_routes d mcp) ''GET'' ''/livez'' = Some Livez"
  "served_by_route (surface_routes d mcp) ''GET'' ''/healthz'' = Some Livez"
  "served_by_route (surface_routes d mcp) ''GET'' ''/readyz'' = Some Readyz"
  "served_by_route (surface_routes d mcp) ''GET'' ''/metrics'' = Some Metrics"
  by (simp_all add: served_by_route_def surface_routes_def probe_routes_def)

lemma find_append: "find P (xs @ ys) = (case find P xs of None \<Rightarrow> find P ys | Some x \<Rightarrow> Some x)"
  by (induction xs) auto

lemma find_distinct: "distinct (map f xs) \<Longrightarrow> x \<in> set xs \<Longrightarrow> find (\<lambda>y. f y = f x) xs = Some x"
  by (induction xs) (auto simp: rev_image_eqI)

text \<open>A route of a handler or a stream is served at its method and path, if no other has them and they are not those of a
  probe.\<close>

theorem gateway_routes_are_served:
  assumes "r \<in> set (rs_http_routes (dc_app d))" "distinct (map (\<lambda>r. (hr_method r, hr_path r)) (rs_http_routes (dc_app d)))"
    and "(hr_method r, hr_path r) \<notin> {''GET''} \<times> {''/livez'', ''/healthz'', ''/readyz'', ''/metrics''}"
  shows "served_by_route (surface_routes d mcp) (hr_method r) (hr_path r) = Some (if hr_sse r then SseRoute r else GatewayRoute r)"
proof -
  let ?P = "\<lambda>x :: route_entry. fst x = hr_method r \<and> fst (snd x) = hr_path r"
  let ?e = "\<lambda>r. (hr_method r, hr_path r, if hr_sse r then SseRoute r else GatewayRoute r)"
  have probes: "find ?P probe_routes = None" using assms(3) by (auto simp: probe_routes_def)
  have "find (\<lambda>y. (hr_method y, hr_path y) = (hr_method r, hr_path r)) (rs_http_routes (dc_app d)) = Some r"
    using find_distinct [OF assms(2,1)] .
  moreover have "find ?P (map ?e rs) = map_option ?e (find (\<lambda>y. (hr_method y, hr_path y) = (hr_method r, hr_path r)) rs)" for rs
    by (induction rs) auto
  ultimately have "find ?P (map ?e (rs_http_routes (dc_app d))) = Some (?e r)" by simp
  then show ?thesis by (simp add: served_by_route_def surface_routes_def find_append probes)
qed

text \<open>Documentation without a guard is announced.\<close>

lemma open_docs_warn:
  "an_authorizer (dc_app d) = None \<Longrightarrow> rs_warned (dc_app (snd (on_app (docs_warning p NoGuard) d))) = rs_warned (dc_app d) @ [''Docs endpoint '' @ p @ '' has no authorizer'']"
  by (simp add: on_app_def docs_warning_def)

section \<open>A role lets go\<close>

text \<open>However far binding got, unbinding undeclares what it declared, also where the subscriber's handle raises.\<close>

lemma release_returns: "(\<And>f w e w'. h = Some f \<Longrightarrow> f w = (Inl e, w') \<Longrightarrow> is_exception e) \<Longrightarrow> \<exists>w'. release h w = (Inr (), w')"
proof (cases h)
  case (Some f)
  assume a: "\<And>f w e w'. h = Some f \<Longrightarrow> f w = (Inl e, w') \<Longrightarrow> is_exception e"
  have "swallow f w = (Inr (), snd (f w))" using a [OF Some] by (intro swallow_returns) (metis prod.collapse)
  then show ?thesis using Some by (simp add: release_def)
qed (simp add: release_def act_return_def)

theorem unbind_frees_all:
  assumes "\<And>f w e w'. ro_subscriber r = Some f \<or> ro_queryable r = Some f \<Longrightarrow> f w = (Inl e, w') \<Longrightarrow> is_exception e"
  shows "\<exists>w1 w2. unbind_persist r w = (Inr (), unbound, w2) \<and> release (ro_subscriber r) w = (Inr (), w1) \<and> release (ro_queryable r) w1 = (Inr (), w2)"
proof -
  obtain w1 where w1: "release (ro_subscriber r) w = (Inr (), w1)" using release_returns [of "ro_subscriber r" w] assms by blast
  obtain w2 where w2: "release (ro_queryable r) w1 = (Inr (), w2)" using release_returns [of "ro_queryable r" w1] assms by blast
  show ?thesis using w1 w2 by (auto simp: unbind_persist_def act_bind_def)
qed

lemma half_bound_is_remembered:
  "declare_subscriber w = (Inr s, w1) \<Longrightarrow> declare_queryable w1 = (Inl e, w2) \<Longrightarrow>
    bind_persist declare_subscriber declare_queryable unbound w = (Inl e, \<lparr>ro_subscriber = Some s, ro_queryable = None\<rparr>, w2)"
  by (simp add: bind_persist_def unbound_def)

lemma keywords_win: "s3_from_url u (Some e) (Some r) = Inr so \<Longrightarrow> so_endpoint so = Some e \<and> so_region so = Some r"
  by (auto simp: s3_from_url_def given_or_def split: if_splits)

section \<open>Findings\<close>

text \<open>A handler exposed at the path of a probe is never reached over HTTP.\<close>

lemma route_behind_probe:
  "hr_method r = ''GET'' \<Longrightarrow> hr_path r = ''/metrics'' \<Longrightarrow> served_by_route (surface_routes d mcp) (hr_method r) (hr_path r) = Some Metrics"
  using probes_come_first by simp

text \<open>A path without a scheme is a store in memory.\<close>

lemma bare_path_is_memory: "ur_scheme (urlparse url) = [] \<Longrightarrow> parse_store_url urlparse url = Inr MemoryStore"
  by (simp add: parse_store_url_def Let_def)

end
