(* ===== verification/WorkerPool.thy ===== *)
theory WorkerPool
  imports Worker
begin

text \<open>
  The pool of loops of a worker (\<open>start\<close>, \<open>stop\<close>, \<open>_idle\<close> of \<open>queue/worker.py\<close>) and the nudges of the owner
  (\<open>_notify\<close> of \<open>queue/role.py\<close>). The event is whether it is set; a task is running or has its outcome.
\<close>

datatype task = Running | Ended "exc + unit"

record 'w pool =
  po_running :: bool
  po_wake :: "bool option"
  po_subscriber :: "('w, unit) act option"
  po_tasks :: "task list"

definition fresh_pool :: "'w pool" where
  "fresh_pool = \<lparr>po_running = False, po_wake = None, po_subscriber = None, po_tasks = []\<rparr>"

text \<open>\<open>declare\<close> is \<open>declare_subscriber\<close> of the session, if there is one; a subscriber that cannot be declared is done without.\<close>

definition start_pool :: "int \<Rightarrow> ('w, ('w, unit) act) act option \<Rightarrow> 'w pool \<Rightarrow> 'w \<Rightarrow> (exc + unit) \<times> 'w pool \<times> 'w" where
  "start_pool concurrency declare_sub p w =
     (let p1 = p\<lparr>po_running := True, po_wake := Some False\<rparr>;
          looping = (\<lambda>p. p\<lparr>po_tasks := po_tasks p @ replicate (nat concurrency) Running\<rparr>)
      in case declare_sub of
           None \<Rightarrow> (Inr (), looping p1, w)
         | Some f \<Rightarrow>
             (case f w of
                (Inr s, w1) \<Rightarrow> (Inr (), looping (p1\<lparr>po_subscriber := Some s\<rparr>), w1)
              | (Inl e, w1) \<Rightarrow> if is_exception e then (Inr (), looping (p1\<lparr>po_subscriber := None\<rparr>), w1) else (Inl e, p1, w1)))"

definition on_notify :: "bool \<Rightarrow> 'w pool \<Rightarrow> 'w pool" where
  "on_notify loop_closed p = (if \<not> loop_closed \<and> po_wake p \<noteq> None then p\<lparr>po_wake := Some True\<rparr> else p)"

text \<open>The owner's side: best effort, on its session.\<close>

definition notify_workers :: "string \<Rightarrow> (string \<Rightarrow> bytes \<Rightarrow> ('w, unit) act) option \<Rightarrow> ('w, unit) act" where
  "notify_workers prefix session_put = (case session_put of None \<Rightarrow> act_return () | Some f \<Rightarrow> swallow (f (prefix @ ''/notify'') [0x31]))"

text \<open>How long a loop idles; \<open>nudge\<close> is when the event is set from now on, if it is.\<close>

definition idle_wait :: "time \<Rightarrow> time option \<Rightarrow> 'w pool \<Rightarrow> time \<times> 'w pool" where
  "idle_wait poll_s nudge p =
     (case po_wake p of
        None \<Rightarrow> (poll_s, p)
      | Some True \<Rightarrow> (0, p\<lparr>po_wake := Some False\<rparr>)
      | Some False \<Rightarrow> ((case nudge of Some t \<Rightarrow> min t poll_s | None \<Rightarrow> poll_s), p\<lparr>po_wake := Some False\<rparr>))"

text \<open>Cancelled tasks are awaited; what a task raised is dropped unless it is neither an exception nor a cancellation.\<close>

fun await_all :: "(exc + unit) list \<Rightarrow> exc + unit" where
  "await_all [] = Inr ()"
| "await_all (r # rs) =
     (case r of
        Inl e \<Rightarrow> if is_exception e \<or> ''CancelledError'' \<in> set (x_mro e) then await_all rs else Inl e
      | Inr _ \<Rightarrow> await_all rs)"

definition cancel_task :: "exc + unit \<Rightarrow> task \<Rightarrow> exc + unit" where
  "cancel_task out t = (case t of Running \<Rightarrow> out | Ended r \<Rightarrow> r)"

text \<open>\<open>outs\<close> is how each running task ends when it is cancelled.\<close>

definition stop_pool :: "(nat \<Rightarrow> exc + unit) \<Rightarrow> 'w pool \<Rightarrow> 'w \<Rightarrow> (exc + unit) \<times> 'w pool \<times> 'w" where
  "stop_pool outs p w =
     (let p1 = p\<lparr>po_running := False\<rparr>
      in case (case po_subscriber p of None \<Rightarrow> (Inr (), w) | Some f \<Rightarrow> swallow f w) of
           (Inl e, w1) \<Rightarrow> (Inl e, p1, w1)
         | (Inr _, w1) \<Rightarrow>
             (let p2 = p1\<lparr>po_subscriber := None\<rparr>;
                  ends = map (\<lambda>(i, t). cancel_task (outs i) t) (enumerate 0 (po_tasks p))
              in case await_all ends of
                   Inl e \<Rightarrow> (Inl e, p2\<lparr>po_tasks := map Ended ends\<rparr>, w1)
                 | Inr _ \<Rightarrow> (Inr (), p2\<lparr>po_tasks := []\<rparr>, w1)))"

section \<open>Lemmas\<close>

text \<open>No loop waits longer than the polling interval, and a nudge that came before the wait ends it at once.\<close>

lemma idle_is_bounded:
  assumes "0 < poll_s" "\<And>t. nudge = Some t \<Longrightarrow> 0 \<le> t"
  shows "0 \<le> fst (idle_wait poll_s nudge p) \<and> fst (idle_wait poll_s nudge p) \<le> poll_s"
  using assms by (auto simp: idle_wait_def split: option.split bool.split)

lemma nudge_is_kept:
  "po_wake p \<noteq> None \<Longrightarrow> fst (idle_wait poll_s nudge (on_notify False p)) = 0"
  by (auto simp: on_notify_def idle_wait_def)

lemma notify_never_fails:
  assumes "\<And>f w e w'. session_put = Some f \<Longrightarrow> f (prefix @ ''/notify'') [0x31] w = (Inl e, w') \<Longrightarrow> is_exception e"
  shows "fst (notify_workers prefix session_put w) = Inr ()"
proof (cases session_put)
  case (Some f)
  have "swallow (f (prefix @ ''/notify'') [0x31]) w = (Inr (), snd (f (prefix @ ''/notify'') [0x31] w))"
    using assms [OF Some] by (intro swallow_returns) (metis prod.collapse)
  then show ?thesis using Some by (simp add: notify_workers_def)
qed (simp add: notify_workers_def act_return_def)

definition harmless :: "exc + unit \<Rightarrow> bool" where
  "harmless r \<longleftrightarrow> (\<forall>e. r = Inl e \<longrightarrow> is_exception e \<or> ''CancelledError'' \<in> set (x_mro e))"

lemma await_harmless: "list_all harmless rs \<Longrightarrow> await_all rs = Inr ()"
  by (induction rs) (auto simp: harmless_def split: sum.splits)

lemma start_tasks:
  "fst (start_pool c f p w) = Inr () \<Longrightarrow> po_tasks (fst (snd (start_pool c f p w))) = po_tasks p @ replicate (nat c) Running"
  by (auto simp: start_pool_def Let_def split: option.splits prod.splits sum.splits if_splits)

text \<open>A pool that was started and stopped holds no task and no subscriber, whatever the loops raise on their way out; started
  again it has as many loops as it is to have.\<close>

theorem stopped_pool_is_empty:
  assumes "\<And>i. harmless (outs i)" "list_all (\<lambda>t. \<forall>r. t = Ended r \<longrightarrow> harmless r) (po_tasks p)"
    and "\<And>f w e w'. po_subscriber p = Some f \<Longrightarrow> f w = (Inl e, w') \<Longrightarrow> is_exception e"
  shows "\<exists>w1 q. stop_pool outs p w = (Inr (), q, w1) \<and> po_tasks q = [] \<and> po_subscriber q = None \<and> \<not> po_running q
    \<and> (\<forall>c f w2. fst (start_pool c f q w2) = Inr () \<longrightarrow> po_tasks (fst (snd (start_pool c f q w2))) = replicate (nat c) Running)"
proof -
  let ?ends = "map (\<lambda>(i, t). cancel_task (outs i) t) (enumerate 0 (po_tasks p))"
  have "harmless (cancel_task (outs i) t)" if "t \<in> set (po_tasks p)" for i t
    using that assms(1,2) by (auto simp: cancel_task_def list_all_iff split: task.split)
  then have "list_all harmless ?ends"
    by (auto simp: list_all_iff dest!: in_set_enumerate_eq [THEN iffD1])
  then have fine: "await_all ?ends = Inr ()" by (rule await_harmless)
  have "\<exists>w1. (case po_subscriber p of None \<Rightarrow> (Inr (), w) | Some f \<Rightarrow> swallow f w) = (Inr (), w1)"
  proof (cases "po_subscriber p")
    case (Some f)
    have "swallow f w = (Inr (), snd (f w))" using assms(3) [OF Some] by (intro swallow_returns) (metis prod.collapse)
    then show ?thesis using Some by simp
  qed simp
  then obtain w1 where "(case po_subscriber p of None \<Rightarrow> (Inr (), w) | Some f \<Rightarrow> swallow f w) = (Inr (), w1)" by blast
  then show ?thesis using fine by (simp add: stop_pool_def Let_def start_tasks)
qed

end
