(* ===== verification/Spec2Isabelle.thy ===== *)
theory Spec2Isabelle
  imports QueueProps QueueRole HandlerProps WorkflowProps Cron RateLimit Retry Gateway Authz AgentGate Swarm Subscribe RedisLedger Persist Bridge
    ChannelClient TrajectoryProps AsyncApi Web Fitness SqlLedger Databases Serving Provider Sessions Evals Observe
    Logging Serializers TestClient Cli Surface WorkerPool
begin

text \<open>
  A verification development of Istos, a Python framework for services and agents on Zenoh
  (\<open>src/src/istos\<close>; file names below are relative to it).

  \<^bold>\<open>The program.\<close> An application registers functions under key expressions: handlers that answer a
  query, subscribers of samples, workers of job queues, schedules. A request carries an envelope
  (token, correlation id, trace), passes an authorizer and the middleware, has its parameters
  validated and its dependencies resolved, and may be claimed in a ledger so that it runs once.
  Job queues have an owner among replicas, which keeps the jobs in a store written through to the
  ledger's plugin; workers claim jobs from it over queries, run them, and carry workflows on.
  The agent loop drives a language model whose tools are handlers on the mesh, behind a gate at
  which a human approves what cannot be undone.

  \<^bold>\<open>What is shared.\<close>
  \<^item> \<open>Prelude\<close>: Python values (\<open>pyval\<close>), exceptions of value-level operations as a sum (\<open>res\<close>),
    dictionaries as association lists in insertion order, and their lemmas. \<open>PyText\<close>, \<open>PyNum\<close>,
    \<open>Codec\<close>: \<open>int()\<close>, \<open>split\<close>, \<open>strip\<close>, UTF-8, decimal text and base64 of Python's library.
  \<^item> \<open>Effects\<close>: computations over a state that raise (\<open>act\<close>) or may not return (\<open>io\<close>), with the
    exceptions of \<open>Errors\<close>; the locale \<open>state_order\<close> derives what follows for any composition of
    computations from a preorder each of them respects. \<open>Runs\<close>: runs of a labelled step relation
    and their invariants. \<open>Heapq\<close>: Python's \<open>heapq\<close> on a sorted list.

  \<^bold>\<open>Components.\<close>
  \<^item> \<open>Ledger\<close> (\<open>consistency/storage.py\<close>): the in-memory plugin, its key-value part, its log and the
    claims on idempotency keys, with a locale for each contract. \<open>RedisLedger\<close>
    (\<open>consistency/redis_storage.py\<close>): the Lua scripts and methods, related to \<open>Ledger\<close> by a simulation.
    \<open>SqlLedger\<close> (\<open>consistency/sqlalchemy_storage.py\<close>): the methods cut into their transactions, whose
    interleavings refine \<open>Ledger\<close>. \<open>Databases\<close> (\<open>consistency/config.py\<close>, \<open>consistency/databases.py\<close>):
    settings, and engines built once whichever thread comes first.
  \<^item> \<open>QueueStore\<close> (\<open>queue/store.py\<close>): job records, heaps, leases, persistence, sweep, results,
    chords. \<open>QueueInv\<close>, \<open>QueueOps\<close>, \<open>QueueRuns\<close>: the invariant, each operation, the runs.
    \<open>Leasing\<close>: the contract between a queue and its workers as a locale over any labelled steps.
    \<open>QueueDurable\<close>: the write-through copy and recovery. \<open>QueueProps\<close>: the properties.
  \<^item> \<open>QueueRole\<close> (\<open>queue/role.py\<close>): the owner's query handlers, authorization, backoff, leader
    election. \<open>Cron\<close> (\<open>queue/cron.py\<close>): the parser and the search for the next time.
    \<open>QueueClient\<close>, \<open>Mesh\<close> (\<open>app/queues.py\<close>): requests, chains, groups, chords, schedules;
    \<open>Worker\<close> (\<open>queue/worker.py\<close>): a turn of the loop, \<open>WorkerPool\<close>: its loops started, nudged and stopped.
    \<open>WorkflowProps\<close>: all of them together.
  \<^item> \<open>Errors\<close>, \<open>Context\<close>, \<open>Authz\<close>, \<open>Retry\<close>, \<open>RateLimit\<close>, \<open>Middleware\<close>, \<open>Validation\<close>,
    \<open>Depends\<close>, \<open>Gateway\<close>, \<open>Naming\<close>: the parts of a request, each after the file of its name
    (\<open>security/authz.py\<close>, \<open>middleware/\<close>, \<open>di/depends.py\<close>, \<open>http/gateway.py\<close>, \<open>discovery/naming.py\<close>).
  \<^item> \<open>Handler\<close> (\<open>primitives/handler.py\<close>): keys, claims, retries, replies; \<open>HandlerProps\<close>: calls
    interleaved over one ledger. \<open>Subscribe\<close> (\<open>primitives/subscribe.py\<close>): delivery of samples and
    the duplicate window. \<open>Remote\<close> (\<open>primitives/query.py\<close>, \<open>primitives/publish.py\<close>,
    \<open>app/messaging.py\<close>): the clients, related to the handlers they reach.
  \<^item> \<open>Stream\<close> (\<open>primitives/stream.py\<close>, \<open>app/streaming.py\<close>): the queryable of many replies and its
    consumer; \<open>Bridge\<close>: the bounded queue between the two threads of the consumer. \<open>Persist\<close>
    (\<open>communication/persist.py\<close>): samples under keys that sort by time, and replay from a cursor.
  \<^item> \<open>Channel\<close> (\<open>primitives/channel.py\<close>, \<open>primitives/session_store.py\<close>): sessions, the wrapper, the
    conversation log. \<open>Fabric\<close> (\<open>primitives/channel_fabric.py\<close>): the server of channels as a step
    relation. \<open>ChannelClient\<close> (\<open>app/streaming.py\<close>, \<open>primitives/clients.py\<close>): the caller's end.
  \<^item> \<open>Agent\<close> (\<open>agent/loop.py\<close>, \<open>agent/tools.py\<close>), \<open>AgentProps\<close>: the loop and its transcript.
    \<open>Approval\<close> (\<open>agent/approval.py\<close>), \<open>ApprovalProps\<close>: the gate. \<open>AgentGate\<close>: the loop on the
    gate. \<open>Swarm\<close> (\<open>agent/multi.py\<close>): several agents and their handoffs.
  \<^item> \<open>Trajectory\<close> (\<open>testing/trajectory.py\<close>), \<open>TrajectoryProps\<close>: the recorder around a run, the replay and
    what it reports; one locale for the runs whose events a view can see, used for both.
  \<^item> \<open>Cycles\<close>, \<open>Fitness\<close> (\<open>fitness.py\<close>): the search for strongly connected components with its
    fuel, which is the number of nodes, and the metrics of a package from the trees of its files.
  \<^item> \<open>Discovery\<close> (\<open>discovery/asyncapi.py\<close>, \<open>discovery/capabilities.py\<close>, \<open>agent/tools.py\<close>,
    \<open>app/web.py\<close>): schemas of functions, manifests, catalogues of tools. \<open>AsyncApi\<close>: the generated
    document. \<open>Mcp\<close> (\<open>http/mcp.py\<close>): handlers as tools over JSON-RPC. \<open>Web\<close> (\<open>app/web.py\<close>,
    \<open>http/health.py\<close>): the HTTP edge, with the event stream read by a client's rules.
  \<^item> \<open>Registration\<close> (\<open>app/_base.py\<close>, \<open>routing.py\<close>, \<open>app/messaging.py\<close>, \<open>app/streaming.py\<close>,
    \<open>app/queues.py\<close>, \<open>app/approvals.py\<close>, \<open>primitives/liveliness.py\<close>): the constructor, the decorators, and
    routers, which put declarations off. \<open>Serving\<close>: from there to what a started node has declared.
  \<^item> \<open>Lifecycle\<close> (\<open>app/lifecycle.py\<close>, the binds of \<open>app/messaging.py\<close>, \<open>app/streaming.py\<close>,
    \<open>app/queues.py\<close>, \<open>communication/sessions.py\<close>, \<open>http/asgi.py\<close>): start and stop of an application as a
    trace of what is acquired and released.
  \<^item> \<open>Provider\<close> (\<open>agent/model.py\<close>): the requests to a chat completions service, its replies read into
    those of the agent loop. \<open>Sessions\<close> (\<open>communication/config.py\<close>, \<open>communication/durable.py\<close>,
    \<open>communication/sessions.py\<close>): validation and rendering of the configuration, durable publishers and
    subscribers. \<open>Evals\<close> (\<open>testing/evals.py\<close>, \<open>testing/trajectory.py\<close>): grading of recorded runs, the file of
    a recording and its check against a live application. \<open>Cli\<close> (\<open>cli.py\<close>): the commands and their exit status.
  \<^item> \<open>Observe\<close> (\<open>observability/metrics.py\<close>, \<open>observability/tracing.py\<close>): counters, their text with a reader of
    that format, spans over hops. \<open>Logging\<close> (\<open>logging.py\<close>): formatters and who configures the output. \<open>Serializers\<close>
    (\<open>messages/serialization.py\<close>): a locale of lossless codecs and what wraps them. \<open>TestClient\<close>
    (\<open>testing/testclient.py\<close>, \<open>di/context.py\<close>): calls without a network against the answers of the mesh.
    \<open>Surface\<close> (\<open>app/web.py\<close>, \<open>communication/persist.py\<close>): the table of HTTP routes, the handles of a persistence role.

  \<^bold>\<open>How state and operations correspond.\<close> An object is a record of its attributes, a method a
  function of the record and its arguments that returns the result and the new record; a coroutine
  is a function of the world between its suspension points, and what other tasks may do there is
  either a step of a relation (\<open>HandlerProps\<close>, \<open>Subscribe\<close>, \<open>Leasing\<close>) or an argument
  (\<open>others\<close> in \<open>AgentGate\<close>). Clocks, UUIDs and random draws are arguments. Times are rationals.

  \<^bold>\<open>Fuel and loops.\<close> Loops over a heap or a list recurse structurally or with a measure. The agent
  loop, the search of \<open>Cron\<close> and dependency resolution are \<open>partial_function (option)\<close>: not
  returning is \<open>None\<close>. That the search returns on every schedule, and resolution on every graph
  without a cycle, are properties; the agent loop is bounded by \<open>max_steps\<close>, and its properties
  quantify over the runs that return.

  \<^bold>\<open>Arguments of the model.\<close> Zenoh's sessions, the model behind the provider, pydantic, \<open>jwt.decode\<close>,
  \<open>json\<close>, Redis and the user's functions are arguments. What a property needs of them is a named
  hypothesis: \<open>redis_documented\<close> (the commands on string keys), \<open>plain_wire\<close> (Zenoh delivers a
  selector and payload unchanged), \<open>quiet\<close>, \<open>gentle\<close> and \<open>leaves_gate\<close> (user code does not reach into
  the private attributes of the store, ledger or gate), \<open>s3_documented\<close> (the object service), \<open>idemp_documented\<close> (atomic statements on a unique key),
  \<open>serves\<close> and \<open>reply_documented\<close> (Zenoh hands a query to the handler and its replies back), \<open>own_uuids\<close> (fresh identifiers do not repeat),
  \<open>releases_work\<close> and \<open>channels_whole\<close> (Zenoh can undeclare what it declared), \<open>quiet_body\<close> (the block an application is served for).
  Each such property has a witness with concrete functions.

  \<^bold>\<open>What the lemmas show.\<close> Invariants of the queue store and of its owners over all runs; exclusive
  leases, attempts never reused, deliveries settled once, finished jobs final; recovery of exactly
  the jobs; one leader; exactly-once handlers and equal keys for equal requests; failures of the
  record keeping that stay out of results; errors that survive the hop; bounds of the rate limiter
  and the duplicate window; replay that resumes at its cursor; remote calls with the outcome of local
  ones; streams that arrive whole and in order; channel sessions kept and torn down, their messages
  in order and their conversations on record; the first matching time of a schedule; transcripts that a model
  accepts; tools that run only on what a human approved; recordings whose replay makes the same calls;
  catalogues and listings that are those of the handlers behind them; HTTP calls with the outcome of
  queries; routers that register what the application would, nodes that serve all that was declared and,
  once stopped or failed to start, hold nothing; metrics that read back as they were counted; tests that see
  what the mesh would answer; verdicts and exit statuses that mean what they say. Lemmas that end in \<open>findings\<close> sections show
  where the code departs from its documentation.

  \<^bold>\<open>Not modelled.\<close> The libraries themselves (Zenoh, asyncio, aiohttp, pydantic, SQLAlchemy, Redis, S3,
  OpenTelemetry, \<open>json\<close>, \<open>argparse\<close>), which are arguments; the text of tables and pages (\<open>format_report\<close>, the YAML and the
  page of the documentation); \<open>istos docs\<close>, which runs another program; re-exports, and the examples.
\<close>

end
